(* ===== verification/Prelude.thy ===== *)
theory Prelude
  imports Main "HOL-Library.Word" "HOL-Library.Monad_Syntax"
begin

text \<open>
  Shared vocabulary of the development: the machine integers of the code, the
  collections of facts the component theories fill, and the general lemmas on words,
  lists and options that several of them use.

  Reading conventions, used by every theory:
  \<^item> \<open>uint8_t\<close>, \<open>uint32_t\<close>, \<open>uint64_t\<close> and pointers are words of that width; \<open>char\<close> is a
    byte and compares as a signed one (\<open>sint\<close>), as on the x86-64 target of the build.
  \<^item> A call that may fault (a read or write outside the object, a use of a freed object)
    or never return has an \<open>option\<close> result: \<open>None\<close> is the fault or the endless loop,
    never an error code of the source. \<open>NULL\<close> is the pointer \<open>0\<close>.
\<close>

type_synonym u8 = "8 word"
type_synonym u32 = "32 word"
type_synonym u64 = "64 word"
type_synonym byte = "8 word"
type_synonym addr = "64 word"

abbreviation (input) NULL :: addr where "NULL \<equiv> 0"

text \<open>Facts that say a call returns (neither faults nor runs forever).\<close>

named_theorems returns

text \<open>Facts that say an operation keeps an invariant.\<close>

named_theorems preserves

section \<open>Words\<close>

lemma unat_plus: "unat a + unat b < 2 ^ 64 \<Longrightarrow> unat (a + b) = unat a + unat b"
  for a b :: u64
  by (simp add: unat_word_ariths)

lemma unat_plus_num [simp]:
  "unat a + 8 < 2 ^ 64 \<Longrightarrow> unat (a + 8) = unat a + 8"
  "unat a + 16 < 2 ^ 64 \<Longrightarrow> unat (a + 16) = unat a + 16"
  for a :: u64
  by (simp_all add: unat_word_ariths)

lemma unat_lt_u64: "unat a < 2 ^ 64" for a :: u64
  using unsigned_less [of a] by simp

lemma unat_minus: "unat b \<le> unat a \<Longrightarrow> unat (a - b) = unat a - unat b"
  for a b :: u64
  by (rule unat_sub) (simp add: word_le_nat_alt)

lemma word_eq_unat: "a = b \<longleftrightarrow> unat a = unat b"
  for a b :: u64
  by (rule word_unat_eq_iff)

lemma unat_of_nat64: "n < 2 ^ 64 \<Longrightarrow> unat (word_of_nat n :: u64) = n"
  by (simp add: unat_of_nat take_bit_nat_eq_self)

lemma unat_ucast_32_64 [simp]: "unat (ucast b :: u64) = unat b" for b :: u32
proof -
  have "unat b < 2 ^ 32" using unsigned_less [of b] by simp
  then have "unat b < 2 ^ 64" by simp
  then show ?thesis by (simp add: unsigned_ucast_eq take_bit_nat_eq_self)
qed

section \<open>Bits\<close>

unbundle bit_operations_syntax

lemma unat_align_down: "unat (x AND NOT 7) = unat x - unat x mod 8" for x :: u64
proof -
  have 7: "(7::u64) = mask 3" by (simp add: mask_eq_exp_minus_1)
  have "x AND NOT (mask 3) = push_bit 3 (drop_bit 3 x)"
    by (rule bit_eqI) (auto simp: bit_simps)
  moreover have "push_bit 3 (drop_bit 3 x) = x - take_bit 3 x"
    using bits_ident [of 3 x] by (metis add_diff_cancel_right')
  moreover have "unat (take_bit 3 x) = unat x mod 8"
    by (simp add: take_bit_eq_mod unat_mod)
  ultimately show ?thesis unfolding 7 by (simp add: unat_minus)
qed

lemma bit63_iff: "bit x 63 \<longleftrightarrow> 2 ^ 63 \<le> unat x" for x :: u64
proof -
  have "unat x < 2 ^ 64" using unsigned_less [of x] by simp
  then have "odd (unat x div 2 ^ 63) \<longleftrightarrow> 2 ^ 63 \<le> unat x"
  proof (cases "2 ^ 63 \<le> unat x")
    case True
    with \<open>unat x < 2 ^ 64\<close> have "unat x div 2 ^ 63 = 1" by simp
    with True show ?thesis by simp
  qed simp
  moreover have "bit x 63 \<longleftrightarrow> bit (unat x) 63" by (simp add: bit_unsigned_iff)
  ultimately show ?thesis by (simp add: bit_iff_odd)
qed

lemma and_push_bit_one: "x AND push_bit n 1 = 0 \<longleftrightarrow> \<not> bit x n" for x :: u64
  using and_exp_eq_0_iff_not_bit [of x n] by (simp add: push_bit_eq_mult)

lemma or_push_bit_one: "n < 64 \<Longrightarrow> \<not> bit x n \<Longrightarrow>
    bit (x OR push_bit n 1) n \<and> (x OR push_bit n 1) AND NOT (push_bit n 1) = x" for x :: u64
  by (auto intro!: bit_eqI simp: bit_simps)

text \<open>A word is the sum of its bytes.\<close>

lemma sum_bytes: "(\<Sum>i<k. push_bit (8 * i) (take_bit 8 (drop_bit (8 * i) v))) = take_bit (8 * k) v"
  for v :: "'a::len word"
proof (induction k)
  case (Suc k)
  have "take_bit (8 * Suc k) v = push_bit (8 * k) (take_bit 8 (drop_bit (8 * k) v)) + take_bit (8 * k) v"
    by (subst disjunctive_add) (auto intro!: bit_eqI simp: bit_simps)
  then show ?case using Suc by (simp add: add.commute)
qed simp

lemma word_of_bytes:
  assumes "LENGTH('a) = 8 * k" "\<And>i. i < k \<Longrightarrow> b i = ucast (drop_bit (8 * i) v)"
  shows "(\<Sum>i<k. push_bit (8 * i) (ucast (b i :: byte))) = (v :: 'a::len word)"
proof -
  have "push_bit (8 * i) (ucast (b i)) = push_bit (8 * i) (take_bit 8 (drop_bit (8 * i) v))" if "i < k" for i
    using assms(2) [OF that] by (auto intro!: bit_eqI simp: bit_simps)
  then have "(\<Sum>i<k. push_bit (8 * i) (ucast (b i))) = take_bit (8 * k) v"
    unfolding sum_bytes [symmetric] by (intro sum.cong) auto
  also have "\<dots> = v" using assms(1) by (auto intro!: bit_eqI simp: bit_simps)
  finally show ?thesis .
qed

section \<open>Lists\<close>

lemma take_Suc_update: "i < length xs \<Longrightarrow> take (Suc i) (xs[i := x]) = take i xs @ [x]"
  by (simp add: take_Suc_conv_app_nth)

section \<open>Counting loops\<close>

text \<open>\<open>for (k = i; k < i + n; ++k) body\<close> over a body that may fault.\<close>

fun for_n :: "nat \<Rightarrow> nat \<Rightarrow> (nat \<Rightarrow> 's \<Rightarrow> 's option) \<Rightarrow> 's \<Rightarrow> 's option" where
  "for_n i 0 body s = Some s"
| "for_n i (Suc n) body s = do { s1 \<leftarrow> body i s; for_n (Suc i) n body s1 }"

text \<open>The loop rule: the body never faults and takes \<open>P k\<close> to \<open>P (Suc k)\<close>.\<close>

lemma for_n_inv [returns]:
  "P i s \<Longrightarrow> (\<And>k s. i \<le> k \<Longrightarrow> k < i + n \<Longrightarrow> P k s \<Longrightarrow> \<exists>s'. body k s = Some s' \<and> P (Suc k) s') \<Longrightarrow>
     \<exists>s'. for_n i n body s = Some s' \<and> P (i + n) s'"
proof (induction n arbitrary: i s)
  case (Suc n)
  from Suc.prems(2) [of i s] Suc.prems(1) obtain s1 where s1: "body i s = Some s1" "P (Suc i) s1"
    by auto
  have "\<exists>s'. for_n (Suc i) n body s1 = Some s' \<and> P (Suc i + n) s'"
    using s1(2) by (rule Suc.IH) (use Suc.prems(2) in auto)
  with s1(1) show ?case by simp
qed simp

lemma for_n_cong:
  "(\<And>k s. i \<le> k \<Longrightarrow> k < i + n \<Longrightarrow> f k s = g k s) \<Longrightarrow> for_n i n f s = for_n i n g s"
proof (induction n arbitrary: i s)
  case (Suc n)
  have "for_n (Suc i) n f s1 = for_n (Suc i) n g s1" for s1
    by (rule Suc.IH) (use Suc.prems in auto)
  with Suc.prems [of i s] show ?case by (cases "g i s") auto
qed simp

end
