(* ===== verification/KUtils.thy ===== *)
theory KUtils
  imports Prelude "HOL-Library.Lexord"
begin

text \<open>
  The kernel's string and number helpers (\<open>Kernel/c/utils.c\<close>). A \<open>char*\<close> argument is the
  list of bytes from the pointer to the end of the object it points into: reading or
  writing past that end is the fault \<open>None\<close>. The same bodies are repeated in
  \<open>Userland/UserModule/c2/stdlib.c\<close>, \<open>c2/utils.c\<close> and \<open>Kernel/c/naiveConsole.c\<close>.
\<close>

section \<open>The functions\<close>

text \<open>\<open>for (; src[i] != 0; ++i) dst[i] = src[i]; dst[i] = 0; return i\<close>, from index \<open>i\<close>.\<close>

fun strcpy_from :: "byte list \<Rightarrow> byte list \<Rightarrow> nat \<Rightarrow> (byte list \<times> nat) option" where
  "strcpy_from dst [] i = None"
| "strcpy_from dst (c # src) i =
     (if i < length dst
      then (if c \<noteq> 0 then strcpy_from (dst[i := c]) src (Suc i) else Some (dst[i := 0], i))
      else None)"

definition strcpy :: "byte list \<Rightarrow> byte list \<Rightarrow> (byte list \<times> nat) option" where
  "strcpy dst src = strcpy_from dst src 0"

text \<open>The copy loop of \<open>strncpy\<close>: \<open>n\<close> is \<open>max - i\<close>; \<open>src[i]\<close> is not read once \<open>i = max\<close>.\<close>

fun strncpy_from :: "byte list \<Rightarrow> byte list \<Rightarrow> nat \<Rightarrow> nat \<Rightarrow> (byte list \<times> nat) option" where
  "strncpy_from dst src i 0 = (if i < length dst then Some (dst[i := 0], i) else None)"
| "strncpy_from dst [] i (Suc n) = None"
| "strncpy_from dst (c # src) i (Suc n) =
     (if i < length dst
      then (if c \<noteq> 0 then strncpy_from (dst[i := c]) src (Suc i) n else Some (dst[i := 0], i))
      else None)"

text \<open>The result is the count, or \<open>-1\<close> for a negative bound (nothing is written then).\<close>

definition strncpy :: "byte list \<Rightarrow> byte list \<Rightarrow> int \<Rightarrow> (byte list \<times> int) option" where
  "strncpy dst src mx =
     (if mx < 0 then Some (dst, -1)
      else map_option (\<lambda>(d, i). (d, int i)) (strncpy_from dst src 0 (nat mx)))"

text \<open>\<open>while (s[len++] != 0); return len - 1\<close>.\<close>

fun strlen :: "byte list \<Rightarrow> nat option" where
  "strlen [] = None"
| "strlen (c # s) = (if c \<noteq> 0 then map_option Suc (strlen s) else Some 0)"

fun strcmp :: "byte list \<Rightarrow> byte list \<Rightarrow> int option" where
  "strcmp (a # s1) (b # s2) =
     (if a \<noteq> 0 \<and> b \<noteq> 0
      then (if sint a < sint b then Some (-1)
            else if sint a > sint b then Some 1
            else strcmp s1 s2)
      else if a \<noteq> 0 then Some 1
      else if b \<noteq> 0 then Some (-1)
      else Some 0)"
| "strcmp _ _ = None"

text \<open>
  \<open>uintToBase\<close>: digits are written least significant first, then the buffer is reversed
  in place. The character arithmetic is done in \<open>uint32_t\<close> and cut to a \<open>char\<close>.
\<close>

definition digit_char :: "u32 \<Rightarrow> byte" where
  "digit_char r = ucast (if r < 10 then r + 48 else r + 65 - 10)"

function digit_loop :: "u64 \<Rightarrow> u32 \<Rightarrow> byte list \<Rightarrow> nat \<Rightarrow> (byte list \<times> nat) option" where
  "digit_loop v base buf p =
     (if length buf \<le> p then None
      else
        let buf' = buf[p := digit_char (ucast (v mod ucast base))];
            v' = v div ucast base
        in if v' \<noteq> 0 then digit_loop v' base buf' (Suc p) else Some (buf', Suc p))"
  by pat_completeness auto
termination
  by (relation "measure (\<lambda>(v, base, buf, p). length buf - p)") auto

declare digit_loop.simps [simp del]

text \<open>\<open>while (p1 < p2) { swap(*p1, *p2); p1++; p2--; }\<close>\<close>

function swap_loop :: "byte list \<Rightarrow> nat \<Rightarrow> nat \<Rightarrow> byte list" where
  "swap_loop buf p1 p2 =
     (if p1 < p2
      then let tmp = buf ! p1; buf1 = buf[p1 := buf ! p2]; buf2 = buf1[p2 := tmp]
           in swap_loop buf2 (Suc p1) (p2 - 1)
      else buf)"
  by pat_completeness auto
termination
  by (relation "measure (\<lambda>(buf, p1, p2). p2 - p1)") auto

declare swap_loop.simps [simp del]

definition uintToBase :: "u64 \<Rightarrow> byte list \<Rightarrow> u32 \<Rightarrow> (byte list \<times> nat) option" where
  "uintToBase v buf base =
     (if base = 0 then None
      else case digit_loop v base buf 0 of
             None \<Rightarrow> None
           | Some (buf1, p) \<Rightarrow>
               if length buf1 \<le> p then None
               else Some (swap_loop (buf1[p := 0]) 0 (p - 1), p))"

section \<open>Strings\<close>

definition terminated :: "byte list \<Rightarrow> bool" where
  "terminated s \<longleftrightarrow> 0 \<in> set s"

definition cstr :: "byte list \<Rightarrow> byte list" where
  "cstr s = takeWhile (\<lambda>c. c \<noteq> 0) s"

lemma cstr_simps [simp]:
  "cstr [] = []"
  "cstr (c # s) = (if c = 0 then [] else c # cstr s)"
  by (simp_all add: cstr_def)

lemma terminated_simps [simp]:
  "\<not> terminated []"
  "terminated (c # s) \<longleftrightarrow> c = 0 \<or> terminated s"
  by (auto simp: terminated_def)

lemma cstr_no_zero: "0 \<notin> set (cstr s)"
  by (auto simp: cstr_def dest: set_takeWhileD)

lemma cstr_append_zero: "0 \<notin> set s \<Longrightarrow> cstr (s @ 0 # t) = s"
  by (induction s) auto

lemma terminated_append_zero: "terminated (s @ 0 # t)"
  by (simp add: terminated_def)

lemma strlen_eq: "strlen s = (if terminated s then Some (length (cstr s)) else None)"
  by (induction s) auto

lemma strcpy_from_returns:
  "terminated src \<Longrightarrow> i + length (cstr src) < length dst \<Longrightarrow>
     strcpy_from dst src i =
       Some (take i dst @ cstr src @ 0 # drop (Suc (i + length (cstr src))) dst,
             i + length (cstr src))"
proof (induction dst src i rule: strcpy_from.induct)
  case (2 dst c src i)
  then show ?case
    by (cases "c = 0") (simp_all add: upd_conv_take_nth_drop take_Suc_update add.commute)
qed simp

lemma strcpy_from_faults:
  "\<not> terminated src \<or> length dst \<le> i + length (cstr src) \<Longrightarrow> strcpy_from dst src i = None"
  by (induction dst src i rule: strcpy_from.induct) auto

lemma strncpy_from_returns:
  "n \<le> length (cstr src) \<or> terminated src \<Longrightarrow> i + min n (length (cstr src)) < length dst \<Longrightarrow>
     strncpy_from dst src i n =
       Some (take i dst @ take n (cstr src) @ 0 # drop (Suc (i + min n (length (cstr src)))) dst,
             i + min n (length (cstr src)))"
proof (induction dst src i n rule: strncpy_from.induct)
  case (3 dst c src i n)
  then show ?case
    by (cases "c = 0") (simp_all add: upd_conv_take_nth_drop take_Suc_update add.commute)
qed (simp_all add: upd_conv_take_nth_drop)

lemma sint_byte_eq: "sint a = sint b \<longleftrightarrow> a = b" for a b :: byte
  by (auto intro: signed_word_eqI)

lemma strcmp_eq:
  "terminated s \<Longrightarrow> terminated t \<Longrightarrow>
     strcmp s t = Some (if cstr s = cstr t then 0
                        else if (map sint (cstr s), map sint (cstr t)) \<in> lexord {(x, y). x < y}
                        then -1 else 1)"
proof (induction s t rule: strcmp.induct)
  case (1 a s b t)
  then show ?case
    by (cases "sint a" "sint b" rule: linorder_cases) (auto simp: sint_byte_eq)
qed simp_all

section \<open>Numbers\<close>

text \<open>The reference: the digits of \<open>n\<close> in base \<open>b\<close>, least significant first.\<close>

fun digs :: "nat \<Rightarrow> nat \<Rightarrow> nat list" where
  "digs b n = (if b < 2 \<or> n < b then [n] else n mod b # digs b (n div b))"

declare digs.simps [simp del]

lemma digs_nonempty [simp]: "digs b n \<noteq> []"
  by (subst digs.simps) simp

lemma digs_less: "2 \<le> b \<Longrightarrow> d \<in> set (digs b n) \<Longrightarrow> d < b"
proof (induction b n rule: digs.induct)
  case (1 b n)
  then show ?case
    by (auto simp: digs.simps [of b n] split: if_splits)
qed

lemma digs_value: "2 \<le> b \<Longrightarrow> foldr (\<lambda>d acc. d + b * acc) (digs b n) 0 = n"
proof (induction b n rule: digs.induct)
  case (1 b n)
  then show ?case
    by (auto simp: digs.simps [of b n])
qed

text \<open>No leading zero: the most significant digit is nonzero unless the number is zero.\<close>

lemma digs_last: "2 \<le> b \<Longrightarrow> n \<noteq> 0 \<Longrightarrow> last (digs b n) \<noteq> 0"
proof (induction b n rule: digs.induct)
  case (1 b n)
  then show ?case
    by (cases "n < b") (auto simp: digs.simps [of b n] div_greater_zero_iff)
qed

lemma digs_length: "2 \<le> b \<Longrightarrow> n < b ^ Suc k \<Longrightarrow> length (digs b n) \<le> Suc k"
proof (induction k arbitrary: n)
  case 0
  then show ?case by (simp add: digs.simps [of b n])
next
  case (Suc k)
  from Suc.prems have "n div b < b ^ Suc k"
    by (simp add: less_mult_imp_div_less mult.commute)
  with Suc show ?case by (auto simp: digs.simps [of b n])
qed

definition ndigit :: "nat \<Rightarrow> byte" where
  "ndigit d = digit_char (word_of_nat d)"

lemma ucast_mod_base:
  "ucast (v mod ucast base) = (word_of_nat (unat v mod unat base) :: u32)" for v :: u64 and base :: u32
proof -
  have "unat (v mod ucast base) = unat v mod unat base"
    by (simp add: unat_mod)
  then have "(word_of_nat (unat (v mod ucast base)) :: u32) = word_of_nat (unat v mod unat base)"
    by simp
  then show ?thesis by (simp del: word_arith_nat_mod)
qed

lemma unat_div_base: "unat (v div ucast base) = unat v div unat base" for v :: u64 and base :: u32
  by (simp add: unat_div)

lemma digit_loop_returns:
  "2 \<le> unat base \<Longrightarrow> p + length (digs (unat base) (unat v)) \<le> length buf \<Longrightarrow>
     digit_loop v base buf p =
       Some (take p buf @ map ndigit (digs (unat base) (unat v)) @
               drop (p + length (digs (unat base) (unat v))) buf,
             p + length (digs (unat base) (unat v)))"
proof (induction v base buf p rule: digit_loop.induct)
  case (1 v base buf p)
  let ?b = "unat base" and ?n = "unat v"
  have nz: "v div ucast base = 0 \<longleftrightarrow> ?n < ?b"
    using "1.prems"(1) unat_div_base [of v base]
    by (metis div_eq_0_iff not_numeral_le_zero unat_eq_0)
  have p: "p < length buf"
    using "1.prems"(2) by (metis add_lessD1 digs_nonempty le_eq_less_or_eq length_greater_0_conv
        less_add_same_cancel1 order_less_le_trans)
  show ?case
  proof (cases "?n < ?b")
    case True
    with nz p "1.prems" show ?thesis
      by (simp add: digit_loop.simps [of v base buf p] digs.simps [of ?b ?n] ucast_mod_base
          ndigit_def take_Suc_update upd_conv_take_nth_drop)
  next
    case False
    with nz p "1.prems" "1.IH" [of "buf[p := digit_char (ucast (v mod ucast base))]" "v div ucast base"]
    show ?thesis
      by (simp add: digit_loop.simps [of v base buf p] digs.simps [of ?b ?n] ucast_mod_base
          ndigit_def take_Suc_update upd_conv_take_nth_drop unat_div_base add.commute)
  qed
qed

lemma swap_loop_length: "length (swap_loop buf p1 p2) = length buf"
  by (induction buf p1 p2 rule: swap_loop.induct) (subst swap_loop.simps, simp add: Let_def)

lemma swap_loop_nth:
  "p2 < length buf \<Longrightarrow> i < length buf \<Longrightarrow>
     swap_loop buf p1 p2 ! i = (if p1 \<le> i \<and> i \<le> p2 then buf ! (p1 + p2 - i) else buf ! i)"
proof (induction buf p1 p2 rule: swap_loop.induct)
  case (1 buf p1 p2)
  show ?case
  proof (cases "p1 < p2")
    case True
    then show ?thesis
      using "1.prems" "1.IH" [OF True refl refl refl]
      by (subst swap_loop.simps) (auto simp: Let_def nth_list_update)
  next
    case False
    then have "p1 \<le> i \<Longrightarrow> i \<le> p2 \<Longrightarrow> p1 + p2 - i = i" by simp
    with False show ?thesis by (subst swap_loop.simps) auto
  qed
qed

lemma swap_loop_rev:
  assumes "xs \<noteq> []"
  shows "swap_loop (xs @ ys) 0 (length xs - 1) = rev xs @ ys"
proof (rule nth_equalityI)
  show "length (swap_loop (xs @ ys) 0 (length xs - 1)) = length (rev xs @ ys)"
    by (simp add: swap_loop_length)
  fix i
  assume i: "i < length (swap_loop (xs @ ys) 0 (length xs - 1))"
  from assms have "0 < length xs" by simp
  then have "i \<le> length xs - 1 \<longleftrightarrow> i < length xs" by linarith
  with i \<open>0 < length xs\<close> show "swap_loop (xs @ ys) 0 (length xs - 1) ! i = (rev xs @ ys) ! i"
    by (auto simp: swap_loop_length swap_loop_nth nth_append rev_nth)
qed

lemma uintToBase_returns:
  assumes "2 \<le> unat base" and "length (digs (unat base) (unat v)) < length buf"
  shows "uintToBase v buf base =
    (let ds = map ndigit (rev (digs (unat base) (unat v)))
     in Some (ds @ 0 # drop (Suc (length ds)) buf, length ds))"
proof -
  let ?ds = "map ndigit (digs (unat base) (unat v))"
  from assms have loop: "digit_loop v base buf 0 = Some (?ds @ drop (length ?ds) buf, length ?ds)"
    using digit_loop_returns [of base 0 v buf] by simp
  have "(?ds @ drop (length ?ds) buf)[length ?ds := 0] = ?ds @ 0 # drop (Suc (length ?ds)) buf"
    using assms(2) by (simp add: list_update_append upd_conv_take_nth_drop)
  moreover have "base \<noteq> 0" using assms(1) by auto
  moreover have "swap_loop (?ds @ 0 # drop (Suc (length ?ds)) buf) 0 (length ?ds - 1) =
      rev ?ds @ 0 # drop (Suc (length ?ds)) buf"
    by (rule swap_loop_rev) simp
  ultimately show ?thesis
    using assms(2) loop by (simp add: uintToBase_def Let_def rev_map)
qed

text \<open>Reading a numeral back, most significant digit first.\<close>

definition char_digit :: "byte \<Rightarrow> nat" where
  "char_digit c = (if unat c < 58 then unat c - 48 else unat c - 55)"

definition parse_base :: "nat \<Rightarrow> byte list \<Rightarrow> nat" where
  "parse_base b cs = foldl (\<lambda>acc c. char_digit c + b * acc) 0 cs"

lemma ndigit_small: "d < 36 \<Longrightarrow> char_digit (ndigit d) = d \<and> ndigit d \<noteq> 0"
proof -
  have "\<forall>d \<in> set [0..<36]. char_digit (ndigit d) = d \<and> ndigit d \<noteq> 0"
    by (simp add: upt_conv_Cons char_digit_def ndigit_def digit_char_def)
  then show "d < 36 \<Longrightarrow> ?thesis" by simp
qed

lemma parse_base_digs:
  assumes "2 \<le> b" and "b \<le> 36"
  shows "parse_base b (map ndigit (rev (digs b n))) = n"
proof -
  have digit: "\<And>d. d \<in> set (digs b n) \<Longrightarrow> char_digit (ndigit d) = d"
    using assms by (metis digs_less ndigit_small order_less_le_trans)
  have "foldr (\<lambda>c acc. char_digit c + b * acc) (map ndigit (digs b n)) 0 =
      foldr (\<lambda>d acc. d + b * acc) (digs b n) 0"
    using digit by (auto simp: foldr_map o_def intro!: foldr_cong)
  then show ?thesis
    using assms by (simp add: parse_base_def rev_map foldl_conv_foldr digs_value)
qed

lemma cstr_digits:
  assumes "2 \<le> b" and "b \<le> 36"
  shows "cstr (map ndigit (rev (digs b n)) @ 0 # ys) = map ndigit (rev (digs b n))"
proof (rule cstr_append_zero)
  have "\<And>d. d \<in> set (digs b n) \<Longrightarrow> ndigit d \<noteq> 0"
    using assms by (metis digs_less ndigit_small order_less_le_trans)
  then show "0 \<notin> set (map ndigit (rev (digs b n)))" by force
qed

lemma digs_length_u64: "2 \<le> b \<Longrightarrow> length (digs b (unat (v :: u64))) \<le> 64"
proof -
  assume b: "2 \<le> b"
  have "unat v < 2 ^ 64" using unsigned_less [of v] by simp
  also have "(2::nat) ^ 64 \<le> b ^ 64" using b by (rule power_mono) simp
  finally have "unat v < b ^ Suc 63" by simp
  then show ?thesis using digs_length [OF b, of "unat v" 63] by simp
qed

section \<open>Properties\<close>

text \<open>
  \<open>uintToBase\<close> with a base from 2 to 36 and a buffer of at least 65 bytes never writes out
  of the buffer; it leaves a terminated numeral whose length it returns, which reads back as
  the number, has no leading zero unless the number is 0, and leaves the bytes after the
  terminator alone.
\<close>

theorem uintToBase_numeral:
  assumes base: "2 \<le> unat base" "unat base \<le> 36" and buf: "65 \<le> length buf"
  shows "\<exists>buf' n. uintToBase v buf base = Some (buf', n) \<and>
    strlen buf' = Some n \<and> 0 < n \<and> length buf' = length buf \<and>
    parse_base (unat base) (cstr buf') = unat v \<and>
    (v \<noteq> 0 \<longrightarrow> char_digit (hd buf') \<noteq> 0) \<and>
    drop (Suc n) buf' = drop (Suc n) buf"
proof -
  let ?ds = "digs (unat base) (unat v)" and ?s = "map ndigit (rev (digs (unat base) (unat v)))"
  have len: "length ?ds < length buf" using digs_length_u64 [OF base(1), of v] buf by simp
  have run: "uintToBase v buf base = Some (?s @ 0 # drop (Suc (length ?s)) buf, length ?s)"
    using uintToBase_returns [OF base(1) len] by (simp add: Let_def)
  have "hd ?s = ndigit (last ?ds)" by (simp add: hd_map hd_rev)
  moreover have "last ?ds < 36"
    using digs_less [OF base(1), of "last ?ds" "unat v"] base(2) by simp
  ultimately have first: "char_digit (hd ?s) = last ?ds" using ndigit_small by simp
  have "v \<noteq> 0 \<Longrightarrow> last ?ds \<noteq> 0" using digs_last [OF base(1), of "unat v"] by (simp add: unat_eq_0)
  then show ?thesis
    using run len first base
    by (auto simp: strlen_eq terminated_append_zero cstr_digits parse_base_digs hd_append)
qed

theorem uintToBase_numeral_witness:
  "\<exists>buf' n. uintToBase 255 (replicate 70 7) 16 = Some (buf', n) \<and>
    strlen buf' = Some n \<and> 0 < n \<and> length buf' = length (replicate 70 (7::byte)) \<and>
    parse_base 16 (cstr buf') = 255 \<and> char_digit (hd buf') \<noteq> 0 \<and>
    drop (Suc n) buf' = drop (Suc n) (replicate 70 7)"
  using uintToBase_numeral [of 16 "replicate 70 7" 255] by auto

text \<open>
  On two terminated strings \<open>strcmp\<close> reads nothing after their terminators and returns 0
  exactly for equal strings, and otherwise the sign of the lexicographic order of their
  \<open>char\<close> values (which are signed).
\<close>

theorem strcmp_order:
  assumes "terminated s" "terminated t"
  shows "\<exists>r. strcmp s t = Some r \<and> (r = 0 \<longleftrightarrow> cstr s = cstr t) \<and>
    (r = -1 \<longleftrightarrow> (map sint (cstr s), map sint (cstr t)) \<in> lexord {(x, y). x < y}) \<and>
    strcmp t s = Some (- r)"
proof -
  let ?le = "\<lambda>s t. (map sint (cstr s), map sint (cstr t)) \<in> lexord {(x, y). x < (y::int)}"
  have inj: "cstr s = cstr t" if "map sint (cstr s) = map sint (cstr t)"
    using that sint_byte_eq by (auto dest!: map_inj_on [rotated] intro: inj_onI)
  have "\<forall>a b. (a, b) \<in> {(x, y). x < (y::int)} \<or> a = b \<or> (b, a) \<in> {(x, y). x < y}" by auto
  from lexord_linear [OF this, of "map sint (cstr s)" "map sint (cstr t)"] inj
  have "cstr s = cstr t \<or> ?le s t \<or> ?le t s" by blast
  moreover have "\<not> (?le s t \<and> ?le t s)"
    using lexord_asymmetric [of "{(x, y). x < (y::int)}"] by (metis (mono_tags, lifting)
        asymI case_prodD mem_Collect_eq order_less_asym)
  ultimately show ?thesis
    using strcmp_eq [OF assms] strcmp_eq [OF assms(2,1)] lexord_irreflexive [of "{(x, y). x < (y::int)}"]
    by auto
qed

theorem strcmp_order_witness:
  "\<exists>r. strcmp [97, 200, 0] [97, 98, 0] = Some r \<and> (r = 0 \<longleftrightarrow> cstr [97, 200, 0] = cstr [97, 98, 0]) \<and>
    (r = -1 \<longleftrightarrow> (map sint (cstr [97, 200, 0]), map sint (cstr [97, 98, 0])) \<in> lexord {(x, y). x < y}) \<and>
    strcmp [97, 98, 0] [97, 200, 0] = Some (- r)"
  by (rule strcmp_order) simp_all

text \<open>
  \<open>strncpy\<close> with a bound \<open>mx \<ge> 0\<close> and a destination of more than \<open>mx\<close> bytes never writes out
  of it, whether or not the source is terminated within the bound: it stores the first \<open>mx\<close>
  characters of the string at most, always a terminator after them, and returns their number;
  a negative bound writes nothing.
\<close>

theorem strncpy_truncates:
  assumes "0 \<le> mx" "nat mx < length dst" "nat mx \<le> length (cstr src) \<or> terminated src"
  shows "\<exists>dst' n. strncpy dst src mx = Some (dst', int n) \<and> n \<le> nat mx \<and>
    length dst' = length dst \<and> cstr dst' = take (nat mx) (cstr src) \<and>
    strlen dst' = Some n \<and> drop (Suc n) dst' = drop (Suc n) dst \<and>
    strncpy dst src (-1 - mx) = Some (dst, -1)"
proof -
  let ?s = "take (nat mx) (cstr src)"
  have "0 \<notin> set ?s" using cstr_no_zero [of src] by (auto dest: in_set_takeD)
  then show ?thesis
    using assms strncpy_from_returns [of "nat mx" src 0 dst]
    by (auto simp: strncpy_def strlen_eq cstr_append_zero terminated_append_zero min.commute)
qed

theorem strncpy_truncates_witness:
  "\<exists>dst' n. strncpy (replicate 4 1) [104, 111, 108, 97, 115] 3 = Some (dst', int n) \<and> n \<le> nat 3 \<and>
    length dst' = length (replicate 4 (1::byte)) \<and> cstr dst' = take (nat 3) (cstr [104, 111, 108, 97, 115]) \<and>
    strlen dst' = Some n \<and> drop (Suc n) dst' = drop (Suc n) (replicate 4 1) \<and>
    strncpy (replicate 4 1) [104, 111, 108, 97, 115] (-1 - 3) = Some (replicate 4 1, -1)"
  by (rule strncpy_truncates) simp_all

end
