(* ===== verification/KLib.thy ===== *)
theory KLib
  imports Prelude
begin

text \<open>
  The memory routines of \<open>Kernel/c/lib.c\<close> over a byte memory. Addresses are naturals: an
  object never wraps around the address space. \<open>memcpy\<close> is also the kernel side of the
  \<open>sysMemcpy\<close> call the user library copies arrays with.
\<close>

type_synonym bytes = "nat \<Rightarrow> byte"

section \<open>The functions\<close>

text \<open>\<open>while (length--) dst[length] = chr\<close>\<close>

fun memset_loop :: "bytes \<Rightarrow> nat \<Rightarrow> byte \<Rightarrow> nat \<Rightarrow> bytes" where
  "memset_loop m dst chr 0 = m"
| "memset_loop m dst chr (Suc len) = memset_loop (m(dst + len := chr)) dst chr len"

definition memset :: "bytes \<Rightarrow> nat \<Rightarrow> 32 word \<Rightarrow> nat \<Rightarrow> bytes \<times> nat" where
  "memset m destination c len = (memset_loop m destination (ucast c) len, destination)"

text \<open>
  One assignment \<open>d[i] = s[i]\<close> on elements of \<open>w\<close> bytes: the element is loaded, then stored.
\<close>

definition copy_cell :: "nat \<Rightarrow> bytes \<Rightarrow> nat \<Rightarrow> nat \<Rightarrow> bytes" where
  "copy_cell w m d s = (\<lambda>a. if d \<le> a \<and> a < d + w then m (s + (a - d)) else m a)"

function copy_loop :: "nat \<Rightarrow> bytes \<Rightarrow> nat \<Rightarrow> nat \<Rightarrow> nat \<Rightarrow> nat \<Rightarrow> bytes" where
  "copy_loop w m d s i n =
     (if i < n then copy_loop w (copy_cell w m (d + w * i) (s + w * i)) d s (Suc i) n else m)"
  by pat_completeness auto
termination
  by (relation "measure (\<lambda>(w, m, d, s, i, n). n - i)") auto

declare copy_loop.simps [simp del]

text \<open>Word-at-a-time when both pointers and the length are multiples of 4, else bytewise.\<close>

definition memcpy :: "bytes \<Rightarrow> nat \<Rightarrow> nat \<Rightarrow> nat \<Rightarrow> bytes \<times> nat" where
  "memcpy m destination source len =
     (if destination mod 4 = 0 \<and> source mod 4 = 0 \<and> len mod 4 = 0
      then copy_loop 4 m destination source 0 (len div 4)
      else copy_loop 1 m destination source 0 len,
      destination)"

section \<open>What they compute\<close>

lemma memset_loop_eq:
  "memset_loop m dst chr len a = (if dst \<le> a \<and> a < dst + len then chr else m a)"
  by (induction len arbitrary: m) auto

text \<open>
  A forward copy reads an element only before it is overwritten when the destination does
  not lie inside the rest of the source, so overlapping moves towards lower addresses work.
\<close>

lemma copy_loop_eq:
  assumes "d \<le> s \<or> s + w * n \<le> d" and "i \<le> n"
  shows "copy_loop w m d s i n a =
    (if d + w * i \<le> a \<and> a < d + w * n then m (s + (a - d)) else m a)"
  using assms
proof (induction w m d s i n rule: copy_loop.induct)
  case (1 w m d s i n)
  show ?case
  proof (cases "i < n")
    case True
    let ?m = "copy_cell w m (d + w * i) (s + w * i)"
    have mono: "w * Suc i \<le> w * n" using True by (intro mult_le_mono2) simp
    have "copy_loop w m d s i n a =
        (if d + w * Suc i \<le> a \<and> a < d + w * n then ?m (s + (a - d)) else ?m a)"
      using True "1.IH" "1.prems" by (simp add: copy_loop.simps [of w m d s i n])
    also have "\<dots> = (if d + w * i \<le> a \<and> a < d + w * n then m (s + (a - d)) else m a)"
      using "1.prems"(1) mono by (auto simp: copy_cell_def)
    finally show ?thesis .
  next
    case False
    with "1.prems" show ?thesis by (auto simp: copy_loop.simps [of w m d s n n])
  qed
qed

lemma memcpy_eq:
  assumes "d \<le> s \<or> s + n \<le> d"
  shows "fst (memcpy m d s n) a = (if d \<le> a \<and> a < d + n then m (s + (a - d)) else m a)"
proof (cases "d mod 4 = 0 \<and> s mod 4 = 0 \<and> n mod 4 = 0")
  case True
  then have "4 * (n div 4) = n" by auto
  with True assms show ?thesis
    using copy_loop_eq [of d s 4 "n div 4" 0 m a] by (simp add: memcpy_def)
next
  case False
  with assms show ?thesis
    using copy_loop_eq [of d s 1 n 0 m a] by (auto simp: memcpy_def)
qed

lemma memcpy_ret: "snd (memcpy m d s n) = d"
  by (simp add: memcpy_def)

section \<open>Properties\<close>

text \<open>
  \<open>memcpy\<close> moves the \<open>n\<close> source bytes as they were before the call and changes nothing
  else, through both of its loops (32-bit words or bytes), also when the ranges overlap with
  the destination below the source.
\<close>

theorem memcpy_moves:
  assumes "d \<le> s \<or> s + n \<le> d"
  shows "snd (memcpy m d s n) = d \<and>
    (\<forall>i < n. fst (memcpy m d s n) (d + i) = m (s + i)) \<and>
    (\<forall>a. a < d \<or> d + n \<le> a \<longrightarrow> fst (memcpy m d s n) a = m a)"
  using memcpy_eq [OF assms, of m] by (auto simp: memcpy_ret)

theorem memcpy_moves_witness:
  "snd (memcpy (\<lambda>a. word_of_nat a) 8 12 16) = 8 \<and>
    fst (memcpy (\<lambda>a. word_of_nat a) 8 12 16) 8 = 12 \<and>
    fst (memcpy (\<lambda>a. word_of_nat a) 8 12 16) 23 = 27 \<and>
    fst (memcpy (\<lambda>a. word_of_nat a) 8 12 16) 24 = 24"
proof -
  let ?m = "\<lambda>a. word_of_nat a :: byte"
  have *: "snd (memcpy ?m 8 12 16) = 8 \<and>
    (\<forall>i < 16. fst (memcpy ?m 8 12 16) (8 + i) = ?m (12 + i)) \<and>
    (\<forall>a. a < 8 \<or> 8 + 16 \<le> a \<longrightarrow> fst (memcpy ?m 8 12 16) a = ?m a)"
    by (rule memcpy_moves) simp
  then have "fst (memcpy ?m 8 12 16) (8 + 0) = ?m (12 + 0)" by (elim conjE allE [of _ 0]) simp
  moreover from * have "fst (memcpy ?m 8 12 16) (8 + 15) = ?m (12 + 15)"
    by (elim conjE allE [of _ 15]) simp
  moreover note *
  ultimately show ?thesis by simp
qed

end
