(* ===== verification/FreeSpec.thy ===== *)
theory FreeSpec
  imports Prelude
begin

text \<open>
  What the free-list memory manager (\<open>Kernel/c/freeListMM.c\<close>) promises, stated on address
  intervals: a heap region \<open>[base, e)\<close> is tiled by free and allocated blocks, allocation is
  first fit with a split, and freeing coalesces with both neighbours. Theory \<open>FreeList\<close>
  proves that the pointer code implements these functions.
\<close>

type_synonym blk = "nat \<times> nat"  \<comment> \<open>address of the block structure, size with the structure\<close>

definition before :: "blk \<Rightarrow> blk \<Rightarrow> bool" where
  "before x y \<longleftrightarrow> fst x + snd x < fst y"

definition apart :: "blk \<Rightarrow> blk \<Rightarrow> bool" where
  "apart x y \<longleftrightarrow> fst x + snd x \<le> fst y \<or> fst y + snd y \<le> fst x"

text \<open>First fit; a block is split when more than 32 bytes would remain.\<close>

fun afit :: "nat \<Rightarrow> blk list \<Rightarrow> (blk \<times> blk list) option" where
  "afit r [] = None"
| "afit r ((a, s) # fs) =
     (if r \<le> s
      then Some (if s - r > 32 then ((a, r), (a + r, s - r) # fs) else ((a, s), fs))
      else map_option (\<lambda>(x, fs'). (x, (a, s) # fs')) (afit r fs))"

text \<open>Insertion by address, merging a block with the free neighbours it touches.\<close>

fun glue :: "blk \<Rightarrow> blk list \<Rightarrow> blk list" where
  "glue (a, s) [] = [(a, s)]"
| "glue (a, s) ((c, t) # fs) = (if a + s = c then (a, s + t) # fs else (a, s) # (c, t) # fs)"

fun ainsert :: "blk \<Rightarrow> blk list \<Rightarrow> blk list" where
  "ainsert (a, s) [] = [(a, s)]"
| "ainsert (a, s) ((c, t) # fs) =
     (if c < a
      then if c + t = a then glue (c, t + s) fs else (c, t) # ainsert (a, s) fs
      else glue (a, s) ((c, t) # fs))"

abbreviation total :: "blk list \<Rightarrow> nat" where
  "total bs \<equiv> sum_list (map snd bs)"

definition blk_ok :: "nat \<Rightarrow> nat \<Rightarrow> blk \<Rightarrow> bool" where
  "blk_ok base e x \<longleftrightarrow>
     base \<le> fst x \<and> fst x + snd x \<le> e \<and> 16 \<le> snd x \<and> 8 dvd fst x \<and> 8 dvd snd x"

lemma blk_ok_pos: "blk_ok base e x \<Longrightarrow> 0 < snd x"
  by (simp add: blk_ok_def)

text \<open>
  The well-formed layouts: the free list \<open>fs\<close> is ordered by address with a gap between
  neighbours (no two free blocks touch), no two blocks overlap, and together the free and
  the allocated blocks fill the region.
\<close>

definition layout :: "nat \<Rightarrow> nat \<Rightarrow> blk list \<Rightarrow> blk list \<Rightarrow> bool" where
  "layout base e fs al \<longleftrightarrow>
     0 < base \<and> e + 16 \<le> 2 ^ 63 \<and>
     sorted_wrt before fs \<and>
     (\<forall>x \<in> set fs. blk_ok base e x) \<and> (\<forall>x \<in> set al. blk_ok base e x) \<and>
     (\<forall>x \<in> set fs. \<forall>y \<in> set al. apart x y) \<and>
     distinct al \<and> (\<forall>x \<in> set al. \<forall>y \<in> set al. x \<noteq> y \<longrightarrow> apart x y) \<and>
     total fs + total al = e - base"

lemma layoutD:
  assumes "layout base e fs al"
  shows "e + 16 \<le> 2 ^ 63" "sorted_wrt before fs"
    "x \<in> set fs \<Longrightarrow> blk_ok base e x" "y \<in> set al \<Longrightarrow> blk_ok base e y"
    "x \<in> set fs \<Longrightarrow> y \<in> set al \<Longrightarrow> apart x y"
    "y \<in> set al \<Longrightarrow> z \<in> set al \<Longrightarrow> y \<noteq> z \<Longrightarrow> apart y z"
  using assms by (auto simp: layout_def)

section \<open>Allocation\<close>

lemma afit_None: "afit r fs = None \<longleftrightarrow> (\<forall>x \<in> set fs. snd x < r)"
  by (induction r fs rule: afit.induct) auto

text \<open>Anything closed under cutting a block in two holds of what first fit leaves.\<close>

lemma afit_closed:
  assumes cut: "\<And>a s r. P (a, s) \<Longrightarrow> Q r \<Longrightarrow> r + 32 < s \<Longrightarrow> P (a, r) \<and> P (a + r, s - r)"
  shows "afit r fs = Some (x, fs') \<Longrightarrow> Q r \<Longrightarrow> \<forall>y \<in> set fs. P y \<Longrightarrow>
    P x \<and> (\<forall>y \<in> set fs'. P y)"
  using cut by (induction r fs arbitrary: x fs' rule: afit.induct) (fastforce split: if_splits)+

lemma afit_total: "afit r fs = Some (x, fs') \<Longrightarrow> total fs = snd x + total fs' \<and> r \<le> snd x"
  by (induction r fs arbitrary: x fs' rule: afit.induct) (auto split: if_splits)

lemma afit_bound: "afit r fs = Some (x, fs') \<Longrightarrow> snd x \<le> r + 32"
  by (induction r fs arbitrary: x fs' rule: afit.induct) (auto split: if_splits)

lemma before_cut: "before z (a, s) \<Longrightarrow> before z (a, r) \<and> before z (a + r, s - r)"
  by (auto simp: before_def)

lemma apart_cut: "apart (a, s) z \<Longrightarrow> r + 32 < s \<Longrightarrow> apart (a, r) z \<and> apart (a + r, s - r) z"
  by (auto simp: apart_def)

lemma apart_sym: "apart x y \<Longrightarrow> apart y x"
  by (auto simp: apart_def)

lemma afit_sorted:
  "afit r fs = Some (x, fs') \<Longrightarrow> sorted_wrt before fs \<Longrightarrow> \<forall>y \<in> set fs. 0 < snd y \<Longrightarrow>
     sorted_wrt before fs' \<and> (\<forall>y \<in> set fs'. apart x y)"
proof (induction r fs arbitrary: x fs' rule: afit.induct)
  case (2 r a s fs)
  show ?case
  proof (cases "r \<le> s")
    case True
    with "2.prems" show ?thesis
      by (fastforce simp: before_def apart_def split: if_splits)
  next
    case False
    with "2.prems" obtain fs'' where fs'': "afit r fs = Some (x, fs'')" "fs' = (a, s) # fs''"
      by auto
    have "before (a, s) x \<and> (\<forall>y \<in> set fs''. before (a, s) y)"
      using afit_closed [where P = "before (a, s)" and Q = "\<lambda>_. True", OF _ fs''(1)] before_cut
        "2.prems"(2) by auto
    moreover have "sorted_wrt before fs'' \<and> (\<forall>y \<in> set fs''. apart x y)"
      using "2.IH" [OF False fs''(1)] "2.prems" by simp
    ultimately show ?thesis
      using fs''(2) unfolding fs''(2) by (auto simp: before_def [of "(a, s)"] apart_def)
  qed
qed simp

lemma afit_layout:
  assumes fit: "afit r fs = Some (x, fs')" and lay: "layout base e fs al"
    and r: "16 \<le> r" "8 dvd r"
  shows "layout base e fs' (x # al)"
proof -
  have ok: "blk_ok base e x \<and> (\<forall>y \<in> set fs'. blk_ok base e y)"
    by (rule afit_closed [where Q = "\<lambda>r. 16 \<le> r \<and> 8 dvd r", OF _ fit])
      (use lay r in \<open>auto simp: blk_ok_def layout_def\<close>)
  have al: "\<forall>y \<in> set al. apart x y \<and> (\<forall>z \<in> set fs'. apart z y)"
  proof
    fix y assume "y \<in> set al"
    with lay have "\<forall>z \<in> set fs. apart z y" by (simp add: layout_def)
    then show "apart x y \<and> (\<forall>z \<in> set fs'. apart z y)"
      using afit_closed [where P = "\<lambda>z. apart z y" and Q = "\<lambda>_. True", OF _ fit] apart_cut by blast
  qed
  have "\<forall>y \<in> set fs. 0 < snd y" using lay by (auto simp: layout_def blk_ok_def)
  with afit_sorted [OF fit] lay have
    sorted: "sorted_wrt before fs' \<and> (\<forall>y \<in> set fs'. apart x y)" by (simp add: layout_def)
  have "x \<notin> set al" using al ok by (auto simp: apart_def blk_ok_def)
  then show ?thesis
    using lay ok al sorted afit_total [OF fit] apart_sym by (auto simp: layout_def)
qed

section \<open>Freeing\<close>

text \<open>Anything closed under merging two touching blocks holds of what insertion leaves.\<close>

lemma glue_closed:
  assumes "\<And>a s t. P (a, s) \<Longrightarrow> P (a + s, t) \<Longrightarrow> P (a, s + t)"
    and "P x" and "\<forall>y \<in> set fs. P y" and "z \<in> set (glue x fs)"
  shows "P z"
  using assms by (cases "(x, fs)" rule: glue.cases) (auto split: if_splits)

lemma ainsert_closed:
  assumes join: "\<And>a s t. P (a, s) \<Longrightarrow> P (a + s, t) \<Longrightarrow> P (a, s + t)"
  shows "P x \<Longrightarrow> \<forall>y \<in> set fs. P y \<Longrightarrow> z \<in> set (ainsert x fs) \<Longrightarrow> P z"
proof (induction x fs rule: ainsert.induct)
  case (2 a s c t fs)
  have merged: "c + t = a \<Longrightarrow> P (c, t + s)" using join [of c t s] "2.prems" by simp
  show ?case
  proof (cases "c < a")
    case True
    then show ?thesis
      using "2.IH" "2.prems" merged glue_closed [of P "(c, t + s)" fs z, OF join]
      by (cases "c + t = a") auto
  next
    case False
    then show ?thesis
      using "2.prems" glue_closed [of P "(a, s)" "(c, t) # fs" z, OF join] by simp
  qed
qed simp

lemma total_glue: "total (glue x fs) = snd x + total fs"
  by (induction x fs rule: glue.induct) auto

lemma total_ainsert: "total (ainsert x fs) = snd x + total fs"
  by (induction x fs rule: ainsert.induct) (auto simp: total_glue)

lemma before_join: "before z (a, s) \<Longrightarrow> before z (a, s + t)"
  by (simp add: before_def)

lemma glue_sorted:
  "sorted_wrt before fs \<Longrightarrow> \<forall>y \<in> set fs. fst x + snd x \<le> fst y \<and> 0 < snd y \<Longrightarrow>
     sorted_wrt before (glue x fs)"
  by (induction x fs rule: glue.induct) (force simp: before_def)+

lemma ainsert_sorted:
  "sorted_wrt before fs \<Longrightarrow> \<forall>y \<in> set fs. apart x y \<and> 0 < snd y \<Longrightarrow> 0 < snd x \<Longrightarrow>
     sorted_wrt before (ainsert x fs)"
proof (induction x fs rule: ainsert.induct)
  case (2 a s c t fs)
  consider (left) "c < a" "c + t = a" | (pass) "c < a" "c + t < a" | (here) "a + s \<le> c"
    using "2.prems"(2,3) by (fastforce simp: apart_def)
  then show ?case
  proof cases
    case left
    with "2.prems" have "\<forall>y \<in> set fs. fst (c, t + s) + snd (c, t + s) \<le> fst y \<and> 0 < snd y"
      by (fastforce simp: apart_def before_def)
    with left "2.prems"(1) show ?thesis using glue_sorted [of fs "(c, t + s)"] by simp
  next
    case pass
    have "before (c, t) y" if "y \<in> set (ainsert (a, s) fs)" for y
      using ainsert_closed [where P = "before (c, t)", OF before_join _ _ that] pass "2.prems"(1)
      by (simp add: before_def)
    with pass "2.IH"(1) "2.prems" show ?thesis by auto
  next
    case here
    with "2.prems" have "\<forall>y \<in> set ((c, t) # fs). fst (a, s) + snd (a, s) \<le> fst y \<and> 0 < snd y"
      by (fastforce simp: before_def)
    with here "2.prems" show ?thesis using glue_sorted [of "(c, t) # fs" "(a, s)"] by simp
  qed
qed simp

lemma ainsert_layout:
  assumes lay: "layout base e fs al" and x: "x \<in> set al"
  shows "layout base e (ainsert x fs) (remove1 x al)"
proof -
  let ?al = "remove1 x al"
  have al: "set ?al = set al - {x}" using lay by (simp add: layout_def)
  have ok: "blk_ok base e z" if "z \<in> set (ainsert x fs)" for z
    by (rule ainsert_closed [where P = "blk_ok base e", OF _ _ _ that])
      (use lay x in \<open>auto simp: layout_def blk_ok_def\<close>)
  have apart: "apart z y" if "y \<in> set ?al" "z \<in> set (ainsert x fs)" for y z
  proof (rule ainsert_closed [where P = "\<lambda>z. apart z y", OF _ _ _ that(2)])
    fix a s t
    assume "apart (a, s) y" "apart (a + s, t) y"
    moreover have "0 < snd y" using lay that al by (auto simp: layout_def blk_ok_def)
    ultimately show "apart (a, s + t) y" by (auto simp: apart_def)
  qed (use lay x that al in \<open>auto simp: layout_def\<close>)
  have "sorted_wrt before (ainsert x fs)"
    by (rule ainsert_sorted)
      (use lay x apart_sym in \<open>auto simp: layout_def blk_ok_def\<close>)
  moreover have "total ?al + snd x = total al"
    using x by (induction al) auto
  ultimately show ?thesis
    using lay ok apart al by (auto simp: layout_def total_ainsert)
qed

text \<open>Freeing what was just allocated restores the free list: the split is coalesced back.\<close>

lemma ainsert_afit:
  "afit r fs = Some (x, fs') \<Longrightarrow> sorted_wrt before fs \<Longrightarrow> \<forall>y \<in> set fs. 0 < snd y \<Longrightarrow> 0 < r \<Longrightarrow>
     ainsert x fs' = fs"
proof (induction r fs arbitrary: x fs' rule: afit.induct)
  case (2 r a s fs)
  show ?case
  proof (cases "r \<le> s")
    case True
    show ?thesis
    proof (cases "s - r > 32")
      case True
      with \<open>r \<le> s\<close> "2.prems" show ?thesis by auto
    next
      case False
      with \<open>r \<le> s\<close> "2.prems" show ?thesis
        by (cases fs) (auto simp: before_def)
    qed
  next
    case False
    with "2.prems" obtain fs'' where fs'': "afit r fs = Some (x, fs'')" "fs' = (a, s) # fs''"
      by auto
    have "before (a, s) x"
      using afit_closed [where P = "before (a, s)" and Q = "\<lambda>_. True", OF _ fs''(1)] before_cut
        "2.prems"(2) by auto
    with fs'' "2.IH" [OF False fs''(1)] "2.prems" show ?thesis
      by (cases x) (auto simp: before_def)
  qed
qed simp

end
