(* ===== verification/Allocator.thy ===== *)
theory Allocator
  imports Prelude
begin

text \<open>
  The interface between the kernel's memory manager and its clients (\<open>memoryManager.h\<close>:
  \<open>globalMalloc\<close>, \<open>globalFree\<close> and \<open>freeListInit\<close>). The build chooses one of two managers
  (\<open>BUDDY\<close>), so the clients are written against a record of the operations over a heap
  state \<open>'h\<close> and are proved against the laws below. The free-list manager satisfies them:
  its interpretation is in theory \<open>FreeHeap\<close>.
\<close>

text \<open>
  \<open>mm_init heap start\<close> is \<open>freeListInit\<close>, which sets up the private heap of a process in the
  block \<open>heap\<close> with its list head in the block \<open>start\<close>, and returns the values it stores in
  \<open>pcb->freeListEnd\<close> and \<open>pcb->bytesAvailable\<close>.
\<close>

record 'h mm =
  mm_malloc :: "u64 \<Rightarrow> 'h \<Rightarrow> (addr \<times> 'h) option"
  mm_free :: "addr \<Rightarrow> 'h \<Rightarrow> 'h option"
  mm_init :: "addr \<Rightarrow> addr \<Rightarrow> 'h \<Rightarrow> addr \<times> u64 \<times> 'h"

definition PROCESS_HEAP_SIZE :: u32 where "PROCESS_HEAP_SIZE = push_bit (17 - 1) 1"

definition sizeof_Block :: u64 where "sizeof_Block = 16"

text \<open>
  \<open>ok L h\<close>: \<open>h\<close> is a sound heap in which exactly the pointers in the domain of \<open>L\<close> are
  allocated, with the sizes asked for. Allocation returns \<open>NULL\<close> or an aligned pointer not in use.
\<close>

locale allocator =
  fixes M :: "'h mm" and ok :: "(addr \<rightharpoonup> u64) \<Rightarrow> 'h \<Rightarrow> bool"
  assumes malloc_ok: "ok L h \<Longrightarrow> unat n < 2 ^ 63 \<Longrightarrow>
      \<exists>p h'. mm_malloc M n h = Some (p, h') \<and>
        (p = NULL \<and> ok L h' \<or>
         p \<noteq> NULL \<and> p \<notin> dom L \<and> ok (L(p \<mapsto> n)) h' \<and> 8 dvd unat p \<and>
         unat p + unat n < 2 ^ 63)"
    and free_ok: "ok L h \<Longrightarrow> p \<in> dom L \<Longrightarrow> \<exists>h'. mm_free M p h = Some h' \<and> ok (L(p := None)) h'"
    and free_null: "mm_free M NULL h = Some h"
    and init_ok: "ok L h \<Longrightarrow> L p = Some (ucast PROCESS_HEAP_SIZE) \<Longrightarrow> L st = Some sizeof_Block \<Longrightarrow>
      mm_init M p st h = (e, n, h') \<Longrightarrow> ok L h'"
    and null_free: "ok L h \<Longrightarrow> NULL \<notin> dom L"
begin

lemma malloc_cases:
  assumes "ok L h" "unat n < 2 ^ 63"
  obtains (full) h' where "mm_malloc M n h = Some (NULL, h')" "ok L h'"
  | (fresh) p h' where "mm_malloc M n h = Some (p, h')" "p \<noteq> NULL" "p \<notin> dom L" "ok (L(p \<mapsto> n)) h'"
      "8 dvd unat p" "unat p + unat n < 2 ^ 63"
  using malloc_ok [OF assms] by blast

lemma free_any:
  "ok L h \<Longrightarrow> p = NULL \<or> p \<in> dom L \<Longrightarrow> \<exists>h'. mm_free M p h = Some h' \<and> ok (L(p := None)) h'"
  using free_ok [of L h p] free_null [of h] null_free [of L h] by (cases "p = NULL") auto

end

text \<open>
  A manager that also says when it has memory left: \<open>room L k h\<close> means that requests of \<open>k\<close> bytes in all
  succeed, where each counts 64 bytes more than it asks for.
\<close>

locale roomy_allocator = allocator M ok for M :: "'h mm" and ok +
  fixes room :: "(addr \<rightharpoonup> u64) \<Rightarrow> nat \<Rightarrow> 'h \<Rightarrow> bool"
  assumes room_ok: "room L k h \<Longrightarrow> ok L h"
    and room_less: "room L k h \<Longrightarrow> j \<le> k \<Longrightarrow> room L j h"
    and room_malloc: "room L k h \<Longrightarrow> 0 < unat n \<Longrightarrow> unat n < 2 ^ 63 \<Longrightarrow> unat n + 64 \<le> k \<Longrightarrow>
      \<exists>p h'. mm_malloc M n h = Some (p, h') \<and> p \<noteq> NULL \<and> room (L(p \<mapsto> n)) (k - (unat n + 64)) h'"
    and room_init: "room L k h \<Longrightarrow> L p = Some (ucast PROCESS_HEAP_SIZE) \<Longrightarrow> L st = Some sizeof_Block \<Longrightarrow>
      mm_init M p st h = (e, n, h') \<Longrightarrow> room L k h'"
begin

lemma room_malloc_cases:
  assumes "room L k h" "0 < unat n" "unat n < 2 ^ 63" "unat n + 64 \<le> k"
  obtains p h' where "mm_malloc M n h = Some (p, h')" "p \<noteq> NULL" "p \<notin> dom L" "ok (L(p \<mapsto> n)) h'"
    "8 dvd unat p" "unat p + unat n < 2 ^ 63" "room (L(p \<mapsto> n)) (k - (unat n + 64)) h'"
proof -
  obtain p h' where p: "mm_malloc M n h = Some (p, h')" "p \<noteq> NULL" "room (L(p \<mapsto> n)) (k - (unat n + 64)) h'"
    using room_malloc [OF assms] by blast
  moreover have "p \<notin> dom L \<and> ok (L(p \<mapsto> n)) h' \<and> 8 dvd unat p \<and> unat p + unat n < 2 ^ 63"
    using malloc_ok [OF room_ok [OF assms(1)] assms(3)] p(1,2) by auto
  ultimately show ?thesis using that by blast
qed

end

end
