(* ===== verification/FreeList.thy ===== *)
theory FreeList
  imports FreeSpec Allocator
begin

text \<open>
  The default memory manager, \<open>Kernel/c/freeListMM.c\<close> (built when \<open>BUDDY\<close> is not defined),
  as pointer code over a memory of 64-bit cells. A \<open>Block\<close> at address \<open>b\<close> has its
  \<open>nextFreeBlock\<close> in the cell at \<open>b\<close> and its \<open>blockSize\<close> in the cell at \<open>b + 8\<close>; both
  are read and written at their full width, so sums wrap around as in C. The functions of
  the file take the list through the parameters \<open>freeListStart\<close>, \<open>freeListEnd\<close> and
  \<open>bytesAvailable\<close>: here they are the fields of one record, which is the global heap
  (\<open>listStart\<close>, \<open>listEnd\<close>, \<open>freeBytesRemaining\<close>) or the heap of one process (the fields of
  its \<open>PCB\<close>). \<open>None\<close> is a list walk that never ends.
\<close>

unbundle bit_operations_syntax

type_synonym memory = "addr \<Rightarrow> u64"

record heap =
  mem :: memory
  freeListStart :: addr
  freeListEnd :: addr
  bytesAvailable :: u64

section \<open>The block structure\<close>

definition nextFreeBlock :: "memory \<Rightarrow> addr \<Rightarrow> addr" where
  "nextFreeBlock m b = m b"

definition blockSize :: "memory \<Rightarrow> addr \<Rightarrow> u64" where
  "blockSize m b = m (b + 8)"

definition set_next :: "memory \<Rightarrow> addr \<Rightarrow> addr \<Rightarrow> memory" where
  "set_next m b v = m(b := v)"

definition set_size :: "memory \<Rightarrow> addr \<Rightarrow> u64 \<Rightarrow> memory" where
  "set_size m b v = m(b + 8 := v)"

definition structSize :: u64 where "structSize = 16"

definition addressByteSize :: u64 where "addressByteSize = 8"

definition BLOCK_ALLOCATED_BITMASK :: u64 where "BLOCK_ALLOCATED_BITMASK = push_bit 63 1"

definition MINIMUM_BLOCK_SIZE_FOR_SPLIT :: u64 where
  "MINIMUM_BLOCK_SIZE_FOR_SPLIT = push_bit 1 structSize"

definition MAX_MEMORY_AVAILABLE :: u32 where "MAX_MEMORY_AVAILABLE = push_bit 20 1 * 64"

definition block_is_allocated :: "memory \<Rightarrow> addr \<Rightarrow> bool" where
  "block_is_allocated m b \<longleftrightarrow> blockSize m b AND BLOCK_ALLOCATED_BITMASK \<noteq> 0"

definition allocate_block :: "memory \<Rightarrow> addr \<Rightarrow> memory" where
  "allocate_block m b = set_size m b (blockSize m b OR BLOCK_ALLOCATED_BITMASK)"

definition free_block :: "memory \<Rightarrow> addr \<Rightarrow> memory" where
  "free_block m b = set_size m b (blockSize m b AND NOT BLOCK_ALLOCATED_BITMASK)"

definition align_up :: "u64 \<Rightarrow> u64" where
  "align_up x = (x + addressByteSize - 1) AND NOT (addressByteSize - 1)"

section \<open>Initialisation\<close>

definition internalFreeListInit :: "memory \<Rightarrow> addr \<Rightarrow> u32 \<Rightarrow> addr \<Rightarrow> heap" where
  "internalFreeListInit m heapStart heapSize start =
     (let alignedStart = align_up heapStart;
          m1 = set_size (set_next m start alignedStart) start 0;
          alignedEnd = alignedStart + ucast heapSize - structSize;
          m2 = set_next (set_size m1 alignedEnd 0) alignedEnd NULL;
          m3 = set_size m2 alignedStart (alignedEnd - alignedStart);
          m4 = set_next m3 alignedStart alignedEnd
      in \<lparr>mem = m4, freeListStart = start, freeListEnd = alignedEnd,
          bytesAvailable = blockSize m4 alignedStart\<rparr>)"

definition freeListInit :: "memory \<Rightarrow> addr \<Rightarrow> addr \<Rightarrow> heap" where
  "freeListInit m heapStart start = internalFreeListInit m heapStart PROCESS_HEAP_SIZE start"

text \<open>\<open>listStart\<close> is the address of the static structure of the same name.\<close>

definition memoryInit :: "memory \<Rightarrow> addr \<Rightarrow> addr \<Rightarrow> heap" where
  "memoryInit m listStart endOfModules =
     internalFreeListInit m endOfModules MAX_MEMORY_AVAILABLE listStart"

section \<open>Insertion into the free list\<close>

text \<open>\<open>for (it = freeListStart; it->nextFreeBlock < b; it = it->nextFreeBlock) {}\<close>\<close>

partial_function (option) insertPoint :: "memory \<Rightarrow> addr \<Rightarrow> addr \<Rightarrow> addr option" where
  "insertPoint m it b =
     (if nextFreeBlock m it < b then insertPoint m (nextFreeBlock m it) b else Some it)"

declare insertPoint.simps [code]

definition insertBlockIntoFreeList :: "addr \<Rightarrow> heap \<Rightarrow> heap option" where
  "insertBlockIntoFreeList blockToInsert h = do {
     it \<leftarrow> insertPoint (mem h) (freeListStart h) blockToInsert;
     let m = mem h;
     let (m1, b) = (if it + blockSize m it = blockToInsert
                    then (set_size m it (blockSize m it + blockSize m blockToInsert), it)
                    else (m, blockToInsert));
     let m2 = (if b + blockSize m1 b = nextFreeBlock m1 it
               then if nextFreeBlock m1 it \<noteq> freeListEnd h
                    then let m' = set_size m1 b
                                    (blockSize m1 b + blockSize m1 (nextFreeBlock m1 it))
                         in set_next m' b (nextFreeBlock m' (nextFreeBlock m' it))
                    else set_next m1 b (freeListEnd h)
               else set_next m1 b (nextFreeBlock m1 it));
     let m3 = (if it \<noteq> b then set_next m2 it b else m2);
     Some (h\<lparr>mem := m3\<rparr>)
   }"

section \<open>Allocation and release\<close>

partial_function (option) firstFit ::
  "memory \<Rightarrow> addr \<Rightarrow> addr \<Rightarrow> u64 \<Rightarrow> (addr \<times> addr) option" where
  "firstFit m previousBlock block req =
     (if blockSize m block < req \<and> nextFreeBlock m block \<noteq> NULL
      then firstFit m block (nextFreeBlock m block) req
      else Some (previousBlock, block))"

declare firstFit.simps [code]

definition alignedRequiredSize :: "u64 \<Rightarrow> u64" where
  "alignedRequiredSize n = (if n > 0 then align_up (n + structSize) else 0)"

definition internalMalloc :: "u64 \<Rightarrow> heap \<Rightarrow> (addr \<times> heap) option" where
  "internalMalloc n h =
     (let req = alignedRequiredSize n in
      if req AND BLOCK_ALLOCATED_BITMASK = 0 \<and> req > 0 \<and> req \<le> bytesAvailable h
      then do {
        let m = mem h;
        (previousBlock, block) \<leftarrow>
          firstFit m (freeListStart h) (nextFreeBlock m (freeListStart h)) req;
        if block \<noteq> freeListEnd h
        then do {
          let toReturn = nextFreeBlock m previousBlock + structSize;
          let m1 = set_next m previousBlock (nextFreeBlock m block);
          h1 \<leftarrow> (if blockSize m1 block - req > MINIMUM_BLOCK_SIZE_FOR_SPLIT
                then let newBlockLink = block + req;
                         m2 = set_size m1 newBlockLink (blockSize m1 block - req);
                         m3 = set_size m2 block req
                     in insertBlockIntoFreeList newBlockLink (h\<lparr>mem := m3\<rparr>)
                else Some (h\<lparr>mem := m1\<rparr>));
          let avail = bytesAvailable h1 - blockSize (mem h1) block;
          let m4 = set_next (allocate_block (mem h1) block) block NULL;
          Some (toReturn, h1\<lparr>mem := m4, bytesAvailable := avail\<rparr>)
        }
        else Some (NULL, h)
      }
      else Some (NULL, h))"

definition internalFree :: "addr \<Rightarrow> heap \<Rightarrow> heap option" where
  "internalFree ptr h =
     (if ptr = NULL then Some h
      else let freeBlock = ptr - structSize in
        if block_is_allocated (mem h) freeBlock \<and> nextFreeBlock (mem h) freeBlock = NULL
        then let m1 = free_block (mem h) freeBlock
             in insertBlockIntoFreeList freeBlock
                  (h\<lparr>mem := m1, bytesAvailable := bytesAvailable h + blockSize m1 freeBlock\<rparr>)
        else Some h)"

text \<open>The process heap checks that the pointer lies in the heap \<open>pcb->heap\<close> first.\<close>

definition free :: "addr \<Rightarrow> addr \<Rightarrow> heap \<Rightarrow> heap option" where
  "free ptr pcbHeap h =
     (if ptr = NULL then Some h
      else if ptr < pcbHeap \<or> ptr \<ge> pcbHeap + ucast PROCESS_HEAP_SIZE then Some h
      else internalFree ptr h)"

section \<open>Lists of blocks in memory\<close>

abbreviation wd :: "nat \<Rightarrow> u64" where "wd \<equiv> word_of_nat"

text \<open>\<open>fseg m x bs y\<close>: following \<open>nextFreeBlock\<close> from pointer \<open>x\<close> visits the blocks \<open>bs\<close>
  (with their sizes) and arrives at pointer \<open>y\<close>.\<close>

fun fseg :: "memory \<Rightarrow> addr \<Rightarrow> blk list \<Rightarrow> addr \<Rightarrow> bool" where
  "fseg m x [] y \<longleftrightarrow> x = y"
| "fseg m x (b # bs) y \<longleftrightarrow>
     x = wd (fst b) \<and> m (wd (fst b) + 8) = wd (snd b) \<and> fseg m (m (wd (fst b))) bs y"

lemma fseg_append: "fseg m x (bs @ cs) z \<longleftrightarrow> (\<exists>y. fseg m x bs y \<and> fseg m y cs z)"
  by (induction bs arbitrary: x) auto

lemma fseg_cong:
  "\<forall>b \<in> set bs. m' (wd (fst b)) = m (wd (fst b)) \<and> m' (wd (fst b) + 8) = m (wd (fst b) + 8) \<Longrightarrow>
     fseg m' x bs y = fseg m x bs y"
  by (induction bs arbitrary: x) auto

lemma fseg_size: "fseg m x bs y \<Longrightarrow> b \<in> set bs \<Longrightarrow> m (wd (fst b) + 8) = wd (snd b)"
  by (induction bs arbitrary: x) auto

text \<open>Two block structures that do not overlap have four different cells.\<close>

definition far :: "nat \<Rightarrow> nat \<Rightarrow> bool" where
  "far a b \<longleftrightarrow> (a + 16 \<le> b \<or> b + 16 \<le> a) \<and> a + 16 \<le> 2 ^ 64 \<and> b + 16 \<le> 2 ^ 64"

lemma far_sym: "far a b \<Longrightarrow> far b a"
  by (auto simp: far_def)

lemma wd_inject: "a < 2 ^ 64 \<Longrightarrow> b < 2 ^ 64 \<Longrightarrow> wd a = wd b \<longleftrightarrow> a = b"
  by (metis unat_of_nat64)

lemma wd_less: "a < 2 ^ 64 \<Longrightarrow> b < 2 ^ 64 \<Longrightarrow> wd a < wd b \<longleftrightarrow> a < b"
  by (simp add: word_less_nat_alt unat_of_nat64)

lemma wd_le: "a < 2 ^ 64 \<Longrightarrow> b < 2 ^ 64 \<Longrightarrow> wd a \<le> wd b \<longleftrightarrow> a \<le> b"
  by (simp add: word_le_nat_alt unat_of_nat64)

lemma far_cells [simp]:
  assumes "far a b"
  shows "wd a \<noteq> wd b" "wd a + 8 \<noteq> wd b" "wd a \<noteq> wd b + 8" "wd a + 8 \<noteq> wd b + 8"
    "wd b \<noteq> wd a" "wd b + 8 \<noteq> wd a" "wd b \<noteq> wd a + 8" "wd b + 8 \<noteq> wd a + 8"
proof -
  have *: "wd a + 8 = wd (a + 8)" "wd b + 8 = wd (b + 8)" by simp_all
  show "wd a \<noteq> wd b" "wd a + 8 \<noteq> wd b" "wd a \<noteq> wd b + 8" "wd a + 8 \<noteq> wd b + 8"
    "wd b \<noteq> wd a" "wd b + 8 \<noteq> wd a" "wd b \<noteq> wd a + 8" "wd b + 8 \<noteq> wd a + 8"
    using assms unfolding * by (subst wd_inject; auto simp: far_def)+
qed

lemma fseg_upd [simp]:
  "\<forall>b \<in> set bs. far (fst b) a \<Longrightarrow> fseg (m(wd a := v)) x bs y = fseg m x bs y"
  "\<forall>b \<in> set bs. far (fst b) a \<Longrightarrow> fseg (m(wd a + 8 := v)) x bs y = fseg m x bs y"
  by (auto intro!: fseg_cong)

lemma self_cells [simp]: "x + 8 \<noteq> x" "x \<noteq> x + 8" for x :: u64
  by simp_all

text \<open>The insertion point is the last block before the one to insert.\<close>

lemma insertPoint_returns [returns]:
  "fseg m (wd (fst c)) (c # pre) y \<Longrightarrow> \<forall>x \<in> set pre. wd (fst x) < b \<Longrightarrow> \<not> y < b \<Longrightarrow>
     insertPoint m (wd (fst c)) b = Some (wd (fst (last (c # pre))))"
proof (induction pre arbitrary: c)
  case Nil
  then show ?case by (simp add: insertPoint.simps [of m _ b] nextFreeBlock_def)
next
  case (Cons d pre)
  then have "m (wd (fst c)) = wd (fst d)" "wd (fst d) < b" by simp_all
  with Cons show ?case by (simp add: insertPoint.simps [of m "wd (fst c)" b] nextFreeBlock_def)
qed

text \<open>Abstract insertion seen from the block \<open>(c, t)\<close> the code stops at.\<close>

lemma ainsert_pass:
  "\<forall>x \<in> set pre. fst x < a \<and> fst x + snd x \<noteq> a \<Longrightarrow>
     ainsert (a, s) (pre @ fs) = pre @ ainsert (a, s) fs"
  by (induction pre) auto

lemma ainsert_here: "\<forall>x \<in> set fs. a \<le> fst x \<Longrightarrow> ainsert (a, s) fs = glue (a, s) fs"
  by (cases fs) auto

lemma ainsert_at:
  assumes nodes: "z # pre = ns @ [(c, t)]"
    and pre: "\<forall>x \<in> set pre. fst x < a" "\<forall>x \<in> set ns. fst x + snd x \<noteq> a"
    and post: "\<forall>x \<in> set post. a \<le> fst x"
    and z: "fst z + snd z \<noteq> a"
  shows "z # ainsert (a, s) (pre @ post) =
    ns @ (if c + t = a then glue (c, t + s) post else (c, t) # glue (a, s) post)"
proof (cases ns)
  case Nil
  with assms show ?thesis by (auto simp: ainsert_here)
next
  case (Cons z' pre')
  with nodes have "z' = z" and p: "pre = pre' @ [(c, t)]" by auto
  moreover from p Cons pre have "\<forall>x \<in> set pre'. fst x < a \<and> fst x + snd x \<noteq> a" by auto
  ultimately show ?thesis
    using Cons pre post by (simp add: ainsert_pass ainsert_here)
qed

lemma wd_sum_eq: "a + s < 2 ^ 64 \<Longrightarrow> b < 2 ^ 64 \<Longrightarrow> wd a + wd s = wd b \<longleftrightarrow> a + s = b"
  using wd_inject [of "a + s" b] by simp

text \<open>
  The outcomes of an insertion: the block is merged into the one before it or not, and the
  result with the one after it or not. The last free block never absorbs the end marker.
\<close>

lemmas insert_defs = insertBlockIntoFreeList_def nextFreeBlock_def blockSize_def set_next_def
  set_size_def Let_def

lemma insert_last:
  assumes seg: "fseg (mem h) (wd st) (ns @ [(c, t)]) (wd e)"
    and size: "mem h (wd a + 8) = wd s"
    and it: "insertPoint (mem h) (freeListStart h) (wd a) = Some (wd c)"
    and hend: "freeListEnd h = wd e"
    and far_ns: "\<forall>x \<in> set ns. far (fst x) a \<and> far (fst x) c"
    and far_ac: "far a c" "far a e" "far c e"
    and left: "wd c + wd t = wd a \<longleftrightarrow> c + t = a"
  shows "\<exists>m'. insertBlockIntoFreeList (wd a) h = Some (h\<lparr>mem := m'\<rparr>) \<and>
    fseg m' (wd st) (ns @ (if c + t = a then [(c, t + s)] else [(c, t), (a, s)])) (wd e) \<and>
    (\<forall>x. x \<notin> {wd c, wd c + 8, wd a, wd a + 8} \<longrightarrow> m' x = mem h x) \<and>
    (c + t = a \<longrightarrow> m' (wd a + 8) = wd s)"
proof -
  let ?m = "mem h"
  from seg have ns: "fseg ?m (wd st) ns (wd c)" "?m (wd c + 8) = wd t" "?m (wd c) = wd e"
    by (auto simp: fseg_append)
  show ?thesis
  proof (cases "c + t = a")
    case True
    let ?m' = "?m(wd c + 8 := wd t + wd s, wd c := wd e)"
    have "insertBlockIntoFreeList (wd a) h = Some (h\<lparr>mem := ?m'\<rparr>)"
      using True left ns far_ac size it hend by (simp add: insert_defs)
    moreover have "fseg ?m' (wd st) (ns @ [(c, t + s)]) (wd e)"
      using ns far_ns by (simp add: fseg_append)
    ultimately show ?thesis using True far_ac size by (intro exI [of _ ?m']) auto
  next
    case False
    let ?m' = "?m(wd a := wd e, wd c := wd a)"
    have "insertBlockIntoFreeList (wd a) h = Some (h\<lparr>mem := ?m'\<rparr>)"
      using False left ns far_ac size it hend by (simp add: insert_defs)
    moreover have "fseg ?m' (wd st) (ns @ [(c, t), (a, s)]) (wd e)"
      using ns far_ns far_ac size by (simp add: fseg_append)
    ultimately show ?thesis using False by (intro exI [of _ ?m']) auto
  qed
qed

lemma insert_middle:
  assumes seg: "fseg (mem h) (wd st) (ns @ (c, t) # (d, u) # ps) (wd e)"
    and size: "mem h (wd a + 8) = wd s"
    and it: "insertPoint (mem h) (freeListStart h) (wd a) = Some (wd c)"
    and hend: "freeListEnd h = wd e"
    and far_ns: "\<forall>x \<in> set ns. far (fst x) a \<and> far (fst x) c"
    and far_ps: "\<forall>x \<in> set ps. far (fst x) a \<and> far (fst x) c"
    and far: "far a c" "far d a" "far d c" "far d e"
    and left: "wd c + wd t = wd a \<longleftrightarrow> c + t = a"
    and right: "wd a + wd s = wd d \<longleftrightarrow> a + s = d"
      "c + t = a \<Longrightarrow> wd c + (wd t + wd s) = wd d \<longleftrightarrow> a + s = d"
  shows "\<exists>m'. insertBlockIntoFreeList (wd a) h = Some (h\<lparr>mem := m'\<rparr>) \<and>
    fseg m' (wd st) (ns @ (if c + t = a then glue (c, t + s) ((d, u) # ps)
                           else (c, t) # glue (a, s) ((d, u) # ps))) (wd e) \<and>
    (\<forall>x. x \<notin> {wd c, wd c + 8, wd a, wd a + 8} \<longrightarrow> m' x = mem h x) \<and>
    (c + t = a \<longrightarrow> m' (wd a + 8) = wd s)"
proof -
  let ?m = "mem h" and ?r = "insertBlockIntoFreeList (wd a) h"
  from seg have m: "fseg ?m (wd st) ns (wd c)" "?m (wd c + 8) = wd t" "?m (wd c) = wd d"
    "?m (wd d + 8) = wd u" "fseg ?m (?m (wd d)) ps (wd e)"
    by (auto simp: fseg_append)
  note facts = m far size it hend left right far_ns far_ps
  consider (both) "c + t = a" "a + s = d" | (l) "c + t = a" "a + s \<noteq> d"
    | (r) "c + t \<noteq> a" "a + s = d" | (none) "c + t \<noteq> a" "a + s \<noteq> d" by blast
  then show ?thesis
  proof cases
    case both
    let ?m' = "?m(wd c + 8 := wd t + wd s + wd u, wd c := ?m (wd d))"
    have "?r = Some (h\<lparr>mem := ?m'\<rparr>) \<and> fseg ?m' (wd st) (ns @ (c, t + s + u) # ps) (wd e)"
      using both facts by (simp add: insert_defs fseg_append)
    then show ?thesis using both facts by (intro exI [of _ ?m']) (auto simp: add.assoc)
  next
    case l
    let ?m' = "?m(wd c + 8 := wd t + wd s, wd c := wd d)"
    have "?r = Some (h\<lparr>mem := ?m'\<rparr>) \<and> fseg ?m' (wd st) (ns @ (c, t + s) # (d, u) # ps) (wd e)"
      using l facts by (simp add: insert_defs fseg_append)
    then show ?thesis using l facts by (intro exI [of _ ?m']) (auto simp: add.assoc)
  next
    case r
    let ?m' = "?m(wd a + 8 := wd s + wd u, wd a := ?m (wd d), wd c := wd a)"
    have "?r = Some (h\<lparr>mem := ?m'\<rparr>) \<and>
        fseg ?m' (wd st) (ns @ (c, t) # (a, s + u) # ps) (wd e)"
      using r facts by (simp add: insert_defs fseg_append)
    then show ?thesis using r by (intro exI [of _ ?m']) auto
  next
    case none
    let ?m' = "?m(wd a := wd d, wd c := wd a)"
    have "?r = Some (h\<lparr>mem := ?m'\<rparr>) \<and>
        fseg ?m' (wd st) (ns @ (c, t) # (a, s) # (d, u) # ps) (wd e)"
      using none facts by (simp add: insert_defs fseg_append)
    then show ?thesis using none by (intro exI [of _ ?m']) auto
  qed
qed

lemma insert_core:
  assumes seg: "fseg (mem h) (wd st) (ns @ (c, t) # post) (wd e)"
    and size: "mem h (wd a + 8) = wd s"
    and it: "insertPoint (mem h) (freeListStart h) (wd a) = Some (wd c)"
    and hend: "freeListEnd h = wd e"
    and far_ns: "\<forall>x \<in> set ns. far (fst x) a \<and> far (fst x) c"
    and far_post: "\<forall>x \<in> set post. far (fst x) a \<and> far (fst x) c \<and> far (fst x) e"
    and far_ac: "far a c" "far a e" "far c e"
    and bound: "a + s < 2 ^ 64" "c + t < 2 ^ 64"
  shows "\<exists>m'. insertBlockIntoFreeList (wd a) h = Some (h\<lparr>mem := m'\<rparr>) \<and>
    fseg m' (wd st)
      (ns @ (if c + t = a then glue (c, t + s) post else (c, t) # glue (a, s) post)) (wd e) \<and>
    (\<forall>x. x \<notin> {wd c, wd c + 8, wd a, wd a + 8} \<longrightarrow> m' x = mem h x) \<and>
    (c + t = a \<longrightarrow> m' (wd a + 8) = wd s)"
proof (cases post)
  case Nil
  have "a < 2 ^ 64" using bound by simp
  then have "wd c + wd t = wd a \<longleftrightarrow> c + t = a" using bound by (simp add: wd_sum_eq)
  with Nil show ?thesis
    using insert_last [OF seg [unfolded Nil] size it hend far_ns far_ac] by (simp split: if_splits)
next
  case (Cons du ps)
  obtain d u where du: "du = (d, u)" by (cases du)
  have "a < 2 ^ 64" "d < 2 ^ 64" using bound far_post Cons du by (auto simp: far_def)
  then have eqs: "wd c + wd t = wd a \<longleftrightarrow> c + t = a" "wd a + wd s = wd d \<longleftrightarrow> a + s = d"
    "c + t = a \<Longrightarrow> wd c + (wd t + wd s) = wd d \<longleftrightarrow> a + s = d"
    using bound wd_sum_eq [of c "t + s" d] by (simp_all add: wd_sum_eq add.assoc [symmetric])
  show ?thesis
    unfolding Cons du
    by (rule insert_middle [OF _ size it hend far_ns _ far_ac(1) _ _ _ eqs])
      (use seg far_post Cons du in auto)
qed

section \<open>The invariant of a heap\<close>

text \<open>Where the list head lives: outside the region, and not wrapping around.\<close>

definition head_ok :: "nat \<Rightarrow> nat \<Rightarrow> nat \<Rightarrow> bool" where
  "head_ok st base e \<longleftrightarrow> (st + 16 \<le> base \<or> e + 16 \<le> st) \<and> st + 16 \<le> 2 ^ 64"

lemma far_blocks:
  "blk_ok base e x \<Longrightarrow> blk_ok base e y \<Longrightarrow> apart x y \<Longrightarrow> e + 16 \<le> 2 ^ 63 \<Longrightarrow> far (fst x) (fst y)"
  by (auto simp: blk_ok_def apart_def far_def)

lemma far_head: "blk_ok base e x \<Longrightarrow> head_ok st base e \<Longrightarrow> e + 16 \<le> 2 ^ 63 \<Longrightarrow> far st (fst x)"
  by (auto simp: blk_ok_def head_ok_def far_def)

lemma far_end: "blk_ok base e x \<Longrightarrow> e + 16 \<le> 2 ^ 63 \<Longrightarrow> far (fst x) e"
  by (auto simp: blk_ok_def far_def)

lemma far_head_end: "head_ok st base e \<Longrightarrow> base \<le> e \<Longrightarrow> e + 16 \<le> 2 ^ 63 \<Longrightarrow> far st e"
  by (auto simp: head_ok_def far_def)

lemma far_list:
  assumes "sorted_wrt before fs" "\<forall>x \<in> set fs. blk_ok base e x" "head_ok st base e"
    "e + 16 \<le> 2 ^ 63"
  shows "sorted_wrt (\<lambda>x y. far (fst x) (fst y)) ((st, 0) # fs)"
proof -
  have "sorted_wrt (\<lambda>x y. far (fst x) (fst y)) fs"
    using assms(1,2,4)
    by (elim sorted_wrt_mono_rel [rotated]) (auto intro!: far_blocks simp: apart_def before_def)
  with assms far_head show ?thesis by fastforce
qed

text \<open>Where an insertion stops, and what the abstract insertion does from there.\<close>

lemma insert_split:
  assumes fs: "sorted_wrt before fs" "\<forall>x \<in> set fs. blk_ok base e x \<and> apart (a, s) x"
    and blk: "blk_ok base e (a, s)" "st \<noteq> a"
  obtains pre post ns c t where "fs = pre @ post" "(st, 0) # pre = ns @ [(c, t)]"
    "\<forall>x \<in> set pre. fst x < a" "\<forall>x \<in> set post. a \<le> fst x"
    "(st, 0) # ainsert (a, s) fs =
      ns @ (if c + t = a then glue (c, t + s) post else (c, t) # glue (a, s) post)"
proof -
  define pre where "pre = takeWhile (\<lambda>x. fst x < a) fs"
  define post where "post = dropWhile (\<lambda>x. fst x < a) fs"
  have split: "fs = pre @ post" by (simp add: pre_def post_def)
  have pre: "\<forall>x \<in> set pre. fst x < a" using set_takeWhileD unfolding pre_def by fast
  obtain ns c t where nodes: "(st, 0) # pre = ns @ [(c, t)]"
    by (metis list.distinct(1) rev_exhaust surj_pair)
  have post: "\<forall>x \<in> set post. a \<le> fst x"
  proof (cases post)
    case (Cons y ys)
    then have "a \<le> fst y" using hd_dropWhile [of "\<lambda>x. fst x < a" fs] by (auto simp: post_def)
    then show ?thesis
      using fs(1) Cons unfolding split by (auto simp: sorted_wrt_append before_def)
  qed simp
  have "\<forall>x \<in> set ns. fst x + snd x \<noteq> a"
  proof (cases ns)
    case (Cons z pre')
    with nodes have z: "z = (st, 0)" and pre': "pre = pre' @ [(c, t)]" by auto
    then have "\<forall>x \<in> set pre'. before x (c, t)"
      using fs(1) split by (auto simp: sorted_wrt_append)
    with z pre' pre blk(2) Cons show ?thesis by (auto simp: before_def)
  qed simp
  with ainsert_at [OF nodes pre _ post] blk(2) split that [OF split nodes pre post]
  show ?thesis by auto
qed

text \<open>Insertion into a well-formed list, with its frame: no other block structure changes.\<close>

lemma insert_rel:
  assumes seg: "fseg (mem h) (wd st) ((st, 0) # fs) (wd e)"
    and ends: "freeListStart h = wd st" "freeListEnd h = wd e" "e + 16 \<le> 2 ^ 63"
    and head: "head_ok st base e"
    and fs: "sorted_wrt before fs" "\<forall>x \<in> set fs. blk_ok base e x \<and> apart (a, s) x"
    and blk: "blk_ok base e (a, s)" "mem h (wd a + 8) = wd s"
  shows "\<exists>m'. insertBlockIntoFreeList (wd a) h = Some (h\<lparr>mem := m'\<rparr>) \<and>
    fseg m' (wd st) ((st, 0) # ainsert (a, s) fs) (wd e) \<and>
    (\<forall>b. (\<forall>x \<in> set ((st, 0) # (a, s) # fs). far (fst x) b) \<longrightarrow>
       m' (wd b) = mem h (wd b) \<and> m' (wd b + 8) = mem h (wd b + 8)) \<and>
    (m' (wd a + 8) = wd s \<or> (\<exists>x. (a, x) \<in> set (ainsert (a, s) fs)))"
proof -
  have far_a: "\<forall>x \<in> set ((st, 0) # fs). far (fst x) a"
    using fs blk head ends far_blocks far_head far_sym by fastforce
  then have "st \<noteq> a" by (auto simp: far_def)
  obtain pre post ns c t where split: "fs = pre @ post"
    and nodes: "(st, 0) # pre = ns @ [(c, t)]"
    and pre: "\<forall>x \<in> set pre. fst x < a" and post: "\<forall>x \<in> set post. a \<le> fst x"
    and abs: "(st, 0) # ainsert (a, s) fs =
      ns @ (if c + t = a then glue (c, t + s) post else (c, t) # glue (a, s) post)"
    by (rule insert_split [OF fs blk(1) \<open>st \<noteq> a\<close>])
  from nodes split have all: "(st, 0) # fs = ns @ (c, t) # post" by simp
  have ct: "(c, t) = (st, 0) \<or> (c, t) \<in> set fs"
    using all by (metis in_set_conv_decomp set_ConsD)
  have base: "a + s \<le> e" "0 < s" "base \<le> e" using blk by (auto simp: blk_ok_def)
  have far_e: "\<forall>x \<in> set ((c, t) # post). far (fst x) e"
    using fs(2) far_end ends(3) split ct far_head_end [OF head base(3)] by fastforce
  have "sorted_wrt (\<lambda>x y. far (fst x) (fst y)) (ns @ (c, t) # post)"
    using far_list [OF fs(1) _ head ends(3)] fs(2) all by simp
  then have fars: "\<forall>x \<in> set ns. far (fst x) c" "\<forall>x \<in> set post. far (fst x) c"
    using far_sym by (auto simp: sorted_wrt_append)
  have it: "insertPoint (mem h) (freeListStart h) (wd a) = Some (wd c)"
  proof -
    obtain y where y: "fseg (mem h) (wd st) ((st, 0) # pre) y" "fseg (mem h) y post (wd e)"
      using seg split by (auto simp: fseg_append)
    have "\<not> y < wd a"
      using y(2) post base ends(3) far_a split by (cases post) (auto simp: wd_less far_def)
    moreover have "\<forall>x \<in> set pre. wd (fst x) < wd a"
      using pre far_a split by (auto simp: wd_less far_def)
    ultimately show ?thesis
      using insertPoint_returns [of "mem h" "(st, 0)" pre y "wd a"] y(1) ends(1) nodes by simp
  qed
  have bound: "c + t < 2 ^ 64" "a + s < 2 ^ 64"
    using ct fs(2) ends(3) head base by (auto simp: blk_ok_def head_ok_def)
  have far_ac: "far a c" "far a e" "far c e"
    using far_a all far_e far_end [OF blk(1) ends(3)] far_sym by auto
  have "\<exists>m'. insertBlockIntoFreeList (wd a) h = Some (h\<lparr>mem := m'\<rparr>) \<and>
    fseg m' (wd st)
      (ns @ (if c + t = a then glue (c, t + s) post else (c, t) # glue (a, s) post)) (wd e) \<and>
    (\<forall>x. x \<notin> {wd c, wd c + 8, wd a, wd a + 8} \<longrightarrow> m' x = mem h x) \<and>
    (c + t = a \<longrightarrow> m' (wd a + 8) = wd s)"
    by (rule insert_core [OF _ blk(2) it ends(2)])
      (use seg all far_a fars far_e far_ac bound in auto)
  then obtain m' where m': "insertBlockIntoFreeList (wd a) h = Some (h\<lparr>mem := m'\<rparr>)"
    "fseg m' (wd st) ((st, 0) # ainsert (a, s) fs) (wd e)"
    "\<And>x. x \<notin> {wd c, wd c + 8, wd a, wd a + 8} \<Longrightarrow> m' x = mem h x"
    "c + t = a \<longrightarrow> m' (wd a + 8) = wd s"
    unfolding abs by blast
  have "m' (wd b) = mem h (wd b) \<and> m' (wd b + 8) = mem h (wd b + 8)"
    if "\<forall>x \<in> set ((st, 0) # (a, s) # fs). far (fst x) b" for b
  proof -
    have "far c b" "far a b" using that ct by auto
    then show ?thesis by (intro conjI m'(3)) (auto simp: far_def)
  qed
  moreover have "\<exists>x. (a, x) \<in> set (ainsert (a, s) fs)" if "c + t \<noteq> a"
  proof -
    have "\<exists>x. (a, x) \<in> set (glue (a, s) post)" by (cases post) auto
    with that have "\<exists>x. (a, x) \<in> set ((st, 0) # ainsert (a, s) fs)" unfolding abs by auto
    with \<open>st \<noteq> a\<close> show ?thesis by simp
  qed
  ultimately show ?thesis using m'(1,2,4) by blast
qed

text \<open>The structures outside the free list: the end marker and the allocated blocks.\<close>

definition marks :: "memory \<Rightarrow> nat \<Rightarrow> blk list \<Rightarrow> bool" where
  "marks m e al \<longleftrightarrow> m (wd e) = 0 \<and> m (wd e + 8) = 0 \<and>
     (\<forall>x \<in> set al. m (wd (fst x)) = 0 \<and>
        m (wd (fst x) + 8) = wd (snd x) OR BLOCK_ALLOCATED_BITMASK)"

lemma marks_cong:
  "marks m e al \<Longrightarrow>
     \<forall>b \<in> insert e (fst ` set al). m' (wd b) = m (wd b) \<and> m' (wd b + 8) = m (wd b + 8) \<Longrightarrow>
     marks m' e al"
  by (auto simp: marks_def)

definition heap_rel :: "nat \<Rightarrow> blk list \<Rightarrow> blk list \<Rightarrow> heap \<Rightarrow> bool" where
  "heap_rel base fs al h \<longleftrightarrow>
     (let st = unat (freeListStart h); e = unat (freeListEnd h) in
      layout base e fs al \<and> head_ok st base e \<and>
      fseg (mem h) (wd st) ((st, 0) # fs) (wd e) \<and> marks (mem h) e al \<and>
      unat (bytesAvailable h) = total fs)"

lemma heap_relI:
  assumes "layout base e fs al" "head_ok st base e" "fseg (mem h) (wd st) ((st, 0) # fs) (wd e)"
    "marks (mem h) e al" "unat (bytesAvailable h) = total fs"
    "freeListStart h = wd st" "freeListEnd h = wd e"
  shows "heap_rel base fs al h"
proof -
  have "st < 2 ^ 64" "e < 2 ^ 64" using assms(1,2) by (auto simp: layout_def head_ok_def)
  with assms show ?thesis by (simp add: heap_rel_def unat_of_nat64)
qed

lemma heap_relE:
  assumes "heap_rel base fs al h"
  obtains st e where "layout base e fs al" "head_ok st base e"
    "fseg (mem h) (wd st) ((st, 0) # fs) (wd e)" "marks (mem h) e al"
    "unat (bytesAvailable h) = total fs" "freeListStart h = wd st" "freeListEnd h = wd e"
    "e + 16 \<le> 2 ^ 63"
  using assms that [of "unat (freeListEnd h)" "unat (freeListStart h)"]
  by (auto simp: heap_rel_def Let_def layout_def)

text \<open>An allocated block and the end marker lie apart from every structure of the list.\<close>

lemma far_marks:
  assumes "layout base e fs al" "head_ok st base e" "b \<in> insert e (fst ` set al)" "base \<le> e"
    "x \<in> set ((st, 0) # fs)"
  shows "far (fst x) b"
proof -
  have e: "e + 16 \<le> 2 ^ 63" using assms(1) by (simp add: layout_def)
  consider (mark) "b = e" | (block) y where "y \<in> set al" "b = fst y" using assms(3) by auto
  then show ?thesis
  proof cases
    case mark
    have "x \<in> set fs \<Longrightarrow> far (fst x) e"
      using far_end [OF _ e] layoutD(3) [OF assms(1)] by blast
    with mark show ?thesis using assms(2,4,5) far_head_end [OF _ _ e] by auto
  next
    case block
    have "x \<in> set fs \<Longrightarrow> far (fst x) (fst y)"
      using far_blocks [OF _ _ _ e] layoutD [OF assms(1)] block by blast
    moreover have "far st (fst y)"
      using far_head [OF _ assms(2) e] layoutD(4) [OF assms(1)] block by blast
    ultimately show ?thesis using assms(5) block by auto
  qed
qed

section \<open>Freeing implements the coalescing insertion\<close>

lemma mask_off:
  assumes "s < 2 ^ 63"
  shows "(wd s OR BLOCK_ALLOCATED_BITMASK) AND NOT BLOCK_ALLOCATED_BITMASK = wd s"
    and "(wd s OR BLOCK_ALLOCATED_BITMASK) AND BLOCK_ALLOCATED_BITMASK \<noteq> 0"
proof -
  have "\<not> bit (wd s) 63" using assms by (simp add: bit63_iff unat_of_nat64)
  then show "(wd s OR BLOCK_ALLOCATED_BITMASK) AND NOT BLOCK_ALLOCATED_BITMASK = wd s"
    and "(wd s OR BLOCK_ALLOCATED_BITMASK) AND BLOCK_ALLOCATED_BITMASK \<noteq> 0"
    using or_push_bit_one [of 63 "wd s"] unfolding BLOCK_ALLOCATED_BITMASK_def and_push_bit_one
    by simp_all
qed

lemma total_le: "x \<in> set bs \<Longrightarrow> snd x \<le> total bs"
  by (induction bs) auto

theorem internalFree_refines:
  assumes rel: "heap_rel base fs al h" and al: "(a, s) \<in> set al"
  shows "\<exists>h'. internalFree (wd a + structSize) h = Some h' \<and>
    heap_rel base (ainsert (a, s) fs) (remove1 (a, s) al) h' \<and>
    \<not> block_is_allocated (mem h') (wd a)"
proof -
  obtain st e where lay: "layout base e fs al" and head: "head_ok st base e"
    and seg: "fseg (mem h) (wd st) ((st, 0) # fs) (wd e)" and marks: "marks (mem h) e al"
    and avail: "unat (bytesAvailable h) = total fs"
    and ends: "freeListStart h = wd st" "freeListEnd h = wd e" "e + 16 \<le> 2 ^ 63"
    using rel by (rule heap_relE)
  have ok: "blk_ok base e (a, s)" and apart: "\<forall>x \<in> set fs. blk_ok base e x \<and> apart (a, s) x"
    using lay al apart_sym by (auto simp: layout_def)
  have sz: "mem h (wd a) = 0" "mem h (wd a + 8) = wd s OR BLOCK_ALLOCATED_BITMASK"
    using marks al by (auto simp: marks_def)
  have s: "s < 2 ^ 63" "0 < a" "base \<le> e" "a + 16 < 2 ^ 64"
    using ok ends lay by (auto simp: blk_ok_def layout_def)
  let ?h = "h\<lparr>mem := (mem h)(wd a + 8 := wd s), bytesAvailable := bytesAvailable h + wd s\<rparr>"
  have "a \<in> fst ` set al" using al by force
  then have far: "\<forall>x \<in> set ((st, 0) # fs). far (fst x) a"
    using far_marks [OF lay head _ s(3)] by blast
  obtain m' where ins: "insertBlockIntoFreeList (wd a) ?h = Some (?h\<lparr>mem := m'\<rparr>)"
    and seg': "fseg m' (wd st) ((st, 0) # ainsert (a, s) fs) (wd e)"
    and frame: "\<forall>b. (\<forall>x \<in> set ((st, 0) # (a, s) # fs). far (fst x) b) \<longrightarrow>
       m' (wd b) = mem ?h (wd b) \<and> m' (wd b + 8) = mem ?h (wd b + 8)"
    and own: "m' (wd a + 8) = wd s \<or> (\<exists>x. (a, x) \<in> set (ainsert (a, s) fs))"
    using insert_rel [of ?h st fs e base a s] seg far ends head lay apart ok
    by (auto simp: layout_def)
  note lay' = ainsert_layout [OF lay al]
  obtain x where "m' (wd a + 8) = wd x" "x < 2 ^ 63"
  proof (cases "m' (wd a + 8) = wd s")
    case False
    with own obtain x where x: "(a, x) \<in> set (ainsert (a, s) fs)" by blast
    then have "x < 2 ^ 63" using layoutD(1,3) [OF lay'] by (fastforce simp: blk_ok_def)
    moreover have "m' (wd a + 8) = wd x" using fseg_size [OF seg', of "(a, x)"] x by simp
    ultimately show ?thesis using that by blast
  qed (use s that in blast)
  then have unmarked: "\<not> block_is_allocated m' (wd a)"
    unfolding block_is_allocated_def blockSize_def BLOCK_ALLOCATED_BITMASK_def and_push_bit_one
    by (simp add: bit63_iff unat_of_nat64)
  have sub: "set (remove1 (a, s) al) \<subseteq> set al" by (rule set_remove1_subset)
  have "marks m' e (remove1 (a, s) al)"
  proof (rule marks_cong [of "mem h"])
    show "marks (mem h) e (remove1 (a, s) al)"
      using marks sub by (auto simp: marks_def)
    show "\<forall>b \<in> insert e (fst ` set (remove1 (a, s) al)).
        m' (wd b) = mem h (wd b) \<and> m' (wd b + 8) = mem h (wd b + 8)"
    proof
      fix b assume b: "b \<in> insert e (fst ` set (remove1 (a, s) al))"
      have "far a (fst y)" if "y \<in> set al" "y \<noteq> (a, s)" for y
        using far_blocks [OF ok layoutD(4) [OF lay that(1)] layoutD(6) [OF lay al that(1)] ends(3)]
          that(2) by auto
      with b have "far a b"
        using far_end [OF ok ends(3)] lay by (auto simp: layout_def)
      moreover have "\<forall>x \<in> set ((st, 0) # fs). far (fst x) b"
        using far_marks [OF lay head _ s(3), of b] b sub by blast
      ultimately show "m' (wd b) = mem h (wd b) \<and> m' (wd b + 8) = mem h (wd b + 8)"
        using frame far_cells [of a b] by simp
    qed
  qed
  moreover have "total fs + s \<le> e"
    using total_le [OF al] lay s(3) by (auto simp: layout_def)
  then have "unat (bytesAvailable h + wd s) = total (ainsert (a, s) fs)"
    using avail ends(3) s unat_plus [of "bytesAvailable h" "wd s"]
    by (simp add: total_ainsert unat_of_nat64)
  moreover have "wd a + 16 \<noteq> 0"
    using wd_inject [of "a + 16" 0] s by simp
  ultimately show ?thesis
    using ins seg' sz s head ends lay' mask_off [of s] unmarked
    by (auto simp: internalFree_def structSize_def block_is_allocated_def nextFreeBlock_def
        blockSize_def free_block_def set_size_def Let_def intro!: heap_relI)
qed

section \<open>Allocation implements first fit\<close>

lemma afit_split:
  "afit r fs = Some ((a, s), fs') \<Longrightarrow>
     \<exists>pre t rest. fs = pre @ (a, t) # rest \<and> r \<le> t \<and> (\<forall>x \<in> set pre. snd x < r) \<and>
       (if t - r > 32 then s = r \<and> fs' = pre @ (a + r, t - r) # rest
        else s = t \<and> fs' = pre @ rest)"
proof (induction r fs arbitrary: fs' rule: afit.induct)
  case (2 r b u fs)
  show ?case
  proof (cases "r \<le> u")
    case True
    with "2.prems" have "(b, u) # fs = [] @ (a, u) # fs \<and> r \<le> u \<and>
      (if u - r > 32 then s = r \<and> fs' = [] @ (a + r, u - r) # fs else s = u \<and> fs' = [] @ fs)"
      by (auto split: if_splits)
    then show ?thesis by (intro exI [of _ "[]"]) auto
  next
    case False
    with "2.prems" obtain fs'' where fs'': "afit r fs = Some ((a, s), fs'')" "fs' = (b, u) # fs''"
      by auto
    with "2.IH" [OF False fs''(1)] obtain pre t rest where
      "fs = pre @ (a, t) # rest \<and> r \<le> t \<and> (\<forall>x \<in> set pre. snd x < r) \<and>
       (if t - r > 32 then s = r \<and> fs'' = pre @ (a + r, t - r) # rest
        else s = t \<and> fs'' = pre @ rest)" by blast
    with fs''(2) False show ?thesis
      by (intro exI [of _ "(b, u) # pre"]) (auto split: if_splits)
  qed
qed simp

lemma firstFit_skip:
  "fseg m (m (wd (fst c))) pre y \<Longrightarrow> \<forall>x \<in> set pre. wd (snd x) < req \<and> m (wd (fst x)) \<noteq> NULL \<Longrightarrow>
     firstFit m (wd (fst c)) (m (wd (fst c))) req = firstFit m (wd (fst (last (c # pre)))) y req"
proof (induction pre arbitrary: c)
  case (Cons d pre)
  then show ?case
    by (simp add: firstFit.simps [of m _ "wd (fst d)"] blockSize_def nextFreeBlock_def)
qed simp

text \<open>In a well-formed list no block links to \<open>NULL\<close>: the last one links to the end marker.\<close>

lemma fseg_next_nonnull:
  "fseg m x fs (wd e) \<Longrightarrow> \<forall>y \<in> set fs. 0 < fst y \<and> fst y < 2 ^ 64 \<Longrightarrow> 0 < e \<Longrightarrow> e < 2 ^ 64 \<Longrightarrow>
     y \<in> set fs \<Longrightarrow> m (wd (fst y)) \<noteq> 0"
proof (induction fs arbitrary: x)
  case (Cons z fs)
  have "m (wd (fst z)) \<noteq> 0"
    using Cons.prems wd_inject [of _ 0] by (cases fs) auto
  with Cons show ?case by auto
qed simp

lemma firstFit_None:
  assumes "fseg m (wd st) ((st, 0) # fs) (wd e)" "marks m e al"
    "\<forall>x \<in> set fs. wd (snd x) < req \<and> m (wd (fst x)) \<noteq> NULL"
  shows "\<exists>p. firstFit m (wd st) (m (wd st)) req = Some (p, wd e)"
  using assms firstFit_skip [of m "(st, 0)" fs "wd e" req]
  by (simp add: firstFit.simps [of m _ "wd e"] blockSize_def nextFreeBlock_def marks_def)

lemma firstFit_Some:
  assumes "fseg m (wd st) ((st, 0) # pre @ (a, t) # rest) y"
    "\<forall>x \<in> set pre. wd (snd x) < req \<and> m (wd (fst x)) \<noteq> NULL" "req \<le> wd t"
  shows "firstFit m (wd st) (m (wd st)) req = Some (wd (fst (last ((st, 0) # pre))), wd a)"
proof -
  from assms(1) have "fseg m (m (wd st)) pre (wd a)" "m (wd a + 8) = wd t"
    by (auto simp: fseg_append)
  moreover have "\<not> wd t < req" using assms(3) by simp
  ultimately show ?thesis
    using assms(2) firstFit_skip [of m "(st, 0)" pre "wd a" req]
    by (simp add: firstFit.simps [of m _ "wd a"] blockSize_def)
qed

lemma ainsert_gap:
  assumes "sorted_wrt before (pre @ (a, s) # rest)" "\<forall>x \<in> set pre. 0 < snd x"
  shows "ainsert (a, s) (pre @ rest) = pre @ (a, s) # rest"
proof -
  have "\<forall>x \<in> set pre. fst x < a \<and> fst x + snd x \<noteq> a" "\<forall>x \<in> set rest. a + s < fst x"
    using assms by (auto simp: sorted_wrt_append before_def)
  moreover from this have "ainsert (a, s) rest = (a, s) # rest"
    by (cases rest) auto
  ultimately show ?thesis by (simp add: ainsert_pass)
qed

text \<open>\<open>previousBlock->nextFreeBlock = block->nextFreeBlock\<close> takes the block off the list.\<close>

lemma unlink:
  assumes seg: "fseg m (wd st) ((st, 0) # pre @ (a, t) # rest) (wd e)"
    and far: "sorted_wrt (\<lambda>x y. far (fst x) (fst y)) ((st, 0) # pre @ (a, t) # rest)"
  defines "c \<equiv> fst (last ((st, 0) # pre))"
  shows "m (wd c) = wd a" "far c a" "m (wd a + 8) = wd t"
    "fseg (m(wd c := m (wd a))) (wd st) ((st, 0) # pre @ rest) (wd e)"
proof -
  obtain ns u where ns: "(st, 0) # pre = ns @ [(c, u)]"
    unfolding c_def by (metis append_butlast_last_id list.distinct(1) surjective_pairing)
  then have all: "(st, 0) # pre @ (a, t) # rest = ns @ (c, u) # (a, t) # rest"
    and all': "(st, 0) # pre @ rest = ns @ (c, u) # rest" by simp_all
  from seg show "m (wd c) = wd a" "m (wd a + 8) = wd t"
    unfolding all by (auto simp: fseg_append)
  have far_c: "\<forall>x \<in> set ns. far (fst x) c" "far c a" "\<forall>x \<in> set rest. far (fst x) c"
    using far far_sym unfolding all by (auto simp: sorted_wrt_append)
  then show "far c a" by simp
  show "fseg (m(wd c := m (wd a))) (wd st) ((st, 0) # pre @ rest) (wd e)"
    using seg far_c unfolding all all' by (auto simp: fseg_append)
qed

text \<open>
  What both branches of \<open>internalMalloc\<close> (split or not) leave before the block is marked: the
  list of the abstract first fit, the size of the block, all other structures unchanged.
\<close>

definition taken ::
  "memory \<Rightarrow> memory \<Rightarrow> nat \<Rightarrow> nat \<Rightarrow> nat \<Rightarrow> nat \<Rightarrow> blk list \<Rightarrow> blk list \<Rightarrow> bool" where
  "taken m m' st e a s fs' others \<longleftrightarrow>
     fseg m' (wd st) ((st, 0) # fs') (wd e) \<and> m' (wd a + 8) = wd s \<and>
     (\<forall>b. (\<forall>x \<in> set ((st, 0) # others). far (fst x) b) \<and>
        (\<forall>x \<in> set fs'. far (fst x) b) \<longrightarrow>
        m' (wd b) = m (wd b) \<and> m' (wd b + 8) = m (wd b + 8))"

lemma take_whole:
  assumes seg: "fseg m (wd st) ((st, 0) # pre @ (a, t) # rest) (wd e)"
    and far: "sorted_wrt (\<lambda>x y. far (fst x) (fst y)) ((st, 0) # pre @ (a, t) # rest)"
  shows "taken m (m(wd (fst (last ((st, 0) # pre))) := m (wd a))) st e a t (pre @ rest)
    (pre @ (a, t) # rest)"
proof -
  let ?c = "fst (last ((st, 0) # pre))"
  have c: "\<exists>x \<in> set ((st, 0) # pre). fst x = ?c" by (metis last_in_set list.distinct(1))
  have "far ?c b" if "\<forall>x \<in> set ((st, 0) # pre). far (fst x) b" for b
    using c that by metis
  then show ?thesis
    using unlink [OF seg far] unfolding taken_def by auto
qed

lemma take_split:
  assumes seg: "fseg (mem h) (wd st) ((st, 0) # pre @ (a, t) # rest) (wd e)"
    and ends: "freeListStart h = wd st" "freeListEnd h = wd e" "e + 16 \<le> 2 ^ 63"
    and head: "head_ok st base e"
    and fs: "sorted_wrt before (pre @ (a, t) # rest)"
      "\<forall>x \<in> set (pre @ (a, t) # rest). blk_ok base e x"
    and r: "16 \<le> r" "8 dvd r" "r + 32 < t"
    and n: "n = a + r"
  defines "m1 \<equiv> (mem h)(wd (fst (last ((st, 0) # pre))) := mem h (wd a))"
  shows "\<exists>m'. insertBlockIntoFreeList (wd n)
      (h\<lparr>mem := m1(wd n + 8 := wd (t - r), wd a + 8 := wd r)\<rparr>) = Some (h\<lparr>mem := m'\<rparr>) \<and>
    taken (mem h) m' st e a r (pre @ (n, t - r) # rest) (pre @ (a, t) # rest)"
proof -
  let ?fs = "pre @ (a, t) # rest" and ?b = "(n, t - r)"
  let ?h = "h\<lparr>mem := m1(wd n + 8 := wd (t - r), wd a + 8 := wd r)\<rparr>"
  have far: "sorted_wrt (\<lambda>x y. far (fst x) (fst y)) ((st, 0) # ?fs)"
    by (rule far_list [OF fs head ends(3)])
  note u = unlink [OF seg far, folded m1_def]
  have b_ok: "blk_ok base e ?b"
    using fs(2) r n by (auto simp: blk_ok_def)
  have apart_b: "\<forall>x \<in> set (pre @ rest). blk_ok base e x \<and> apart ?b x"
    using fs r n by (auto simp: sorted_wrt_append before_def apart_def)
  have sorted: "sorted_wrt before (pre @ rest)" "sorted_wrt before (pre @ ?b # rest)"
    using fs(1) r n by (auto simp: sorted_wrt_append before_def)
  have "\<forall>x \<in> set (pre @ rest). far (fst x) (fst ?b)"
    using apart_b far_blocks [OF _ b_ok _ ends(3)] apart_sym by blast
  then have far_b: "\<forall>x \<in> set ((st, 0) # pre @ rest). far (fst x) n"
    using far_head [OF b_ok head ends(3)] by simp
  have far_ab: "far a n"
    using fs(2) r n ends(3) by (auto simp: blk_ok_def far_def)
  have far_a: "\<forall>x \<in> set ((st, 0) # pre @ rest). far (fst x) a"
    using far far_sym by (auto simp: sorted_wrt_append)
  have "fseg (mem ?h) (wd st) ((st, 0) # pre @ rest) (wd e)"
    using u(4) far_a far_b far_ab by simp
  moreover have "mem ?h (wd n + 8) = wd (t - r)" using far_ab by auto
  ultimately obtain m' where m': "insertBlockIntoFreeList (wd n) ?h = Some (?h\<lparr>mem := m'\<rparr>)"
    "fseg m' (wd st) ((st, 0) # ainsert ?b (pre @ rest)) (wd e)"
    "\<forall>b. (\<forall>x \<in> set ((st, 0) # ?b # pre @ rest). far (fst x) b) \<longrightarrow>
       m' (wd b) = mem ?h (wd b) \<and> m' (wd b + 8) = mem ?h (wd b + 8)"
    using insert_rel [of ?h st "pre @ rest" e base n "t - r"] ends head sorted(1) apart_b b_ok
    by auto
  have "\<forall>x \<in> set pre. 0 < snd x" using fs(2) blk_ok_pos by fastforce
  then have "ainsert ?b (pre @ rest) = pre @ ?b # rest" by (rule ainsert_gap [OF sorted(2)])
  moreover have "m' (wd a + 8) = wd r"
    using m'(3) far_a far_ab far_sym by auto
  moreover have "m' (wd b) = mem h (wd b) \<and> m' (wd b + 8) = mem h (wd b + 8)"
    if "\<forall>x \<in> set ((st, 0) # ?fs). far (fst x) b" "far n b" for b
  proof -
    have "\<exists>x \<in> set ((st, 0) # pre). fst x = fst (last ((st, 0) # pre))"
      by (metis last_in_set list.distinct(1))
    then have "far (fst (last ((st, 0) # pre))) b" using that by auto
    with m'(3) that show ?thesis by (auto simp: m1_def)
  qed
  ultimately show ?thesis using m'(1,2) by (auto simp: taken_def)
qed

lemma unat_alignedRequiredSize:
  assumes "0 < unat n" "unat n + 23 < 2 ^ 64"
  shows "unat (alignedRequiredSize n) = (unat n + 23) div 8 * 8"
proof -
  have n: "unat (n + 23) = unat n + 23" using assms unat_plus [of n 23] by simp
  have "n + 16 + 8 - 1 = n + 23" by simp
  then have "alignedRequiredSize n = (n + 23) AND NOT 7"
    using assms by (simp add: alignedRequiredSize_def align_up_def structSize_def
        addressByteSize_def word_less_nat_alt add.commute)
  then show ?thesis using unat_align_down [of "n + 23"] n minus_mod_eq_div_mult by metis
qed

text \<open>The rest of \<open>internalMalloc\<close> once the block is taken: account, mark, unlink.\<close>

lemma finish_malloc:
  assumes lay: "layout base e fs' ((a, s) # al)" and head: "head_ok st base e"
    and marks: "marks m e al" and old: "layout base e fs al" "\<exists>t. (a, t) \<in> set fs"
    and taken: "taken m m' st e a s fs' fs" and avail: "unat av = s + total fs'"
    and ends: "freeListStart h = wd st" "freeListEnd h = wd e"
  shows "heap_rel base fs' ((a, s) # al)
    (h\<lparr>mem := m'(wd a + 8 := wd s OR BLOCK_ALLOCATED_BITMASK, wd a := 0),
       bytesAvailable := av - wd s\<rparr>)" (is "heap_rel _ _ _ ?h")
proof (rule heap_relI [OF lay head])
  have ok: "blk_ok base e (a, s)" and base: "base \<le> e"
    using lay by (auto simp: layout_def blk_ok_def)
  have far_fs': "\<forall>x \<in> set ((st, 0) # fs'). far (fst x) a"
    using far_marks [OF lay head, of a] base by fastforce
  then show "fseg (mem ?h) (wd st) ((st, 0) # fs') (wd e)"
    using taken by (simp add: taken_def)
  have others: "m' (wd b) = m (wd b) \<and> m' (wd b + 8) = m (wd b + 8) \<and> far a b"
    if b: "b \<in> insert e (fst ` set al)" for b
  proof -
    have "b \<in> insert e (fst ` set ((a, s) # al))" using b by auto
    then have "\<forall>x \<in> set ((st, 0) # fs). far (fst x) b" "\<forall>x \<in> set fs'. far (fst x) b"
      using far_marks [OF old(1) head b base] far_marks [OF lay head _ base, of b]
      by (blast, meson list.set_intros(2))
    with old(2) taken show ?thesis by (fastforce simp: taken_def)
  qed
  then show "marks (mem ?h) e ((a, s) # al)"
    using marks by (auto simp: marks_def)
  have "s < 2 ^ 64" using ok layoutD(1) [OF lay] by (auto simp: blk_ok_def)
  then show "unat (bytesAvailable ?h) = total fs'"
    using avail unat_minus [of "wd s" av] by (simp add: unat_of_nat64)
qed (use ends in auto)

text \<open>The search stops at the abstract first fit, or at the end marker when there is none.\<close>

lemma next_nonnull:
  assumes lay: "layout base e fs al" and seg: "fseg m (wd st) ((st, 0) # fs) (wd e)"
    and x: "x \<in> set fs"
  shows "m (wd (fst x)) \<noteq> NULL"
proof (rule fseg_next_nonnull [OF _ _ _ _ x])
  show "fseg m (m (wd st)) fs (wd e)" using seg by simp
  have e: "e + 16 \<le> 2 ^ 63" by (rule layoutD(1) [OF lay])
  show "\<forall>y \<in> set fs. 0 < fst y \<and> fst y < 2 ^ 64"
    using layoutD(3) [OF lay] lay e by (fastforce simp: blk_ok_def layout_def)
  show "0 < e" "e < 2 ^ 64"
    using layoutD(3) [OF lay x] e by (auto simp: blk_ok_def)
qed

lemma search_Some:
  assumes lay: "layout base e (pre @ (a, t) # rest) al"
    and seg: "fseg m (wd st) ((st, 0) # pre @ (a, t) # rest) (wd e)"
    and small: "\<forall>x \<in> set pre. snd x < r" and r: "r \<le> t"
  shows "firstFit m (wd st) (m (wd st)) (wd r) =
    Some (wd (fst (last ((st, 0) # pre))), wd a)"
proof (rule firstFit_Some [OF seg])
  have "t < 2 ^ 63"
    using layoutD(1) [OF lay] layoutD(3) [OF lay, of "(a, t)"] by (auto simp: blk_ok_def)
  with r have t: "r < 2 ^ 64" "t < 2 ^ 64" by simp_all
  then show "wd r \<le> wd t" using r by (simp add: wd_le)
  have "wd (snd x) < wd r" if "x \<in> set pre" for x
    using small that t by (subst wd_less) fastforce+
  moreover have "m (wd (fst x)) \<noteq> NULL" if "x \<in> set pre" for x
    by (rule next_nonnull [OF lay seg]) (use that in simp)
  ultimately show "\<forall>x \<in> set pre. wd (snd x) < wd r \<and> m (wd (fst x)) \<noteq> NULL" by blast
qed

lemma search_None:
  assumes lay: "layout base e fs al" and seg: "fseg m (wd st) ((st, 0) # fs) (wd e)"
    and marks: "marks m e al" and r: "r < 2 ^ 64" and none: "afit r fs = None"
  shows "\<exists>p. firstFit m (wd st) (m (wd st)) (wd r) = Some (p, wd e)"
proof (rule firstFit_None [OF seg marks])
  have "wd (snd x) < wd r" if "x \<in> set fs" for x
    using none that r unfolding afit_None by (subst wd_less) fastforce+
  with next_nonnull [OF lay seg]
  show "\<forall>x \<in> set fs. wd (snd x) < wd r \<and> m (wd (fst x)) \<noteq> NULL" by blast
qed

text \<open>The size computation of \<open>internalMalloc\<close>, for a request that does not wrap around.\<close>

definition block_size_for :: "nat \<Rightarrow> nat" where
  "block_size_for n = (n + 23) div 8 * 8"

lemma block_size_for: "0 < n \<Longrightarrow> 16 \<le> block_size_for n \<and> n + 16 \<le> block_size_for n"
  "8 dvd block_size_for n" "block_size_for n \<le> n + 23"
  unfolding block_size_for_def by presburger+

lemma alignedRequiredSize_wd:
  assumes "0 < unat n" "unat n + 23 < 2 ^ 64"
  shows "alignedRequiredSize n = wd (block_size_for (unat n))"
    "block_size_for (unat n) < 2 ^ 64"
proof -
  show "block_size_for (unat n) < 2 ^ 64" using block_size_for(3) [of "unat n"] assms by simp
  have "wd (unat (alignedRequiredSize n)) = alignedRequiredSize n" by simp
  then show "alignedRequiredSize n = wd (block_size_for (unat n))"
    using unat_alignedRequiredSize [OF assms] unfolding block_size_for_def by metis
qed

lemma malloc_guard:
  "r < 2 ^ 63 \<Longrightarrow> wd r AND BLOCK_ALLOCATED_BITMASK = 0"
  "0 < r \<Longrightarrow> r < 2 ^ 64 \<Longrightarrow> 0 < wd r"
  "r < 2 ^ 64 \<Longrightarrow> wd r \<le> b \<longleftrightarrow> r \<le> unat b"
  unfolding BLOCK_ALLOCATED_BITMASK_def and_push_bit_one bit63_iff
  by (simp_all add: word_less_nat_alt word_le_nat_alt unat_of_nat64)

theorem internalMalloc_refines:
  assumes rel: "heap_rel base fs al h" and n: "0 < unat n" "unat n + 23 < 2 ^ 64"
    and fit: "afit (block_size_for (unat n)) fs = Some ((a, s), fs')"
  shows "\<exists>h'. internalMalloc n h = Some (wd a + structSize, h') \<and>
    heap_rel base fs' ((a, s) # al) h'"
proof -
  define r where "r = block_size_for (unat n)"
  have r: "16 \<le> r" "8 dvd r" and req: "alignedRequiredSize n = wd r"
    using block_size_for [of "unat n"] alignedRequiredSize_wd [OF n] n by (auto simp: r_def)
  obtain st e where lay: "layout base e fs al" and head: "head_ok st base e"
    and seg: "fseg (mem h) (wd st) ((st, 0) # fs) (wd e)" and marks: "marks (mem h) e al"
    and avail: "unat (bytesAvailable h) = total fs"
    and ends: "freeListStart h = wd st" "freeListEnd h = wd e" "e + 16 \<le> 2 ^ 63"
    using rel by (rule heap_relE)
  obtain pre t rest where fs: "fs = pre @ (a, t) # rest" and t: "r \<le> t"
    and pre: "\<forall>x \<in> set pre. snd x < r"
    and fs': "if t - r > 32 then s = r \<and> fs' = pre @ (a + r, t - r) # rest
      else s = t \<and> fs' = pre @ rest"
    using afit_split [OF fit [folded r_def]] by blast
  have ok: "\<forall>x \<in> set fs. blk_ok base e x" using layoutD(3) [OF lay] by blast
  then have a_ok: "a + t \<le> e" "t \<le> total fs" "0 < t" using fs by (auto simp: blk_ok_def)
  then have lt: "r < 2 ^ 63" "t < 2 ^ 63" "a < e" using t ends(3) by auto
  define c where "c = fst (last ((st, 0) # pre))"
  define m1 where "m1 = (mem h)(wd c := mem h (wd a))"
  have far: "sorted_wrt (\<lambda>x y. far (fst x) (fst y)) ((st, 0) # pre @ (a, t) # rest)"
    using far_list [OF layoutD(2) [OF lay] ok head ends(3)] fs by simp
  note seg' = seg [unfolded fs]
  note u = unlink [OF seg' far, folded c_def]
  note first = search_Some [OF lay [unfolded fs] seg' pre t, folded c_def]
  have guard: "wd r AND BLOCK_ALLOCATED_BITMASK = 0" "0 < wd r" "wd r \<le> bytesAvailable h"
    "wd a \<noteq> wd e"
    using malloc_guard [of r] lt r a_ok t avail ends(3) by (auto simp: wd_inject)
  have "wd t - wd r = wd (t - r)" using t by simp
  then have split: "wd t - wd r > 32 \<longleftrightarrow> t - r > 32"
    using lt by (simp add: word_less_nat_alt unat_of_nat64 del: of_nat_diff)
  note finish = finish_malloc [OF afit_layout [OF fit [folded r_def] lay r] head marks lay]
  have av: "unat (bytesAvailable h) = s + total fs'" using afit_total [OF fit] avail by simp
  show ?thesis
  proof (cases "t - r > 32")
    case True
    define n' where "n' = a + r"
    with True fs' have s: "s = r" "fs' = pre @ (n', t - r) # rest" and r32: "r + 32 < t" by auto
    obtain m' where ins: "insertBlockIntoFreeList (wd n')
        (h\<lparr>mem := m1(wd n' + 8 := wd (t - r), wd a + 8 := wd r)\<rparr>) = Some (h\<lparr>mem := m'\<rparr>)"
      and taken: "taken (mem h) m' st e a r fs' fs"
      using take_split [OF seg' ends head _ _ r _ n'_def] layoutD(2) [OF lay] ok fs s r32
      unfolding m1_def c_def by blast
    have "wd n' = wd a + wd r" by (simp add: n'_def)
    then have "internalMalloc n h = Some (wd a + structSize,
        h\<lparr>mem := m'(wd a + 8 := wd r OR BLOCK_ALLOCATED_BITMASK, wd a := 0),
          bytesAvailable := bytesAvailable h - wd r\<rparr>)"
      using first guard split True u req ends ins taken t
      by (simp add: internalMalloc_def Let_def nextFreeBlock_def blockSize_def set_next_def
          set_size_def allocate_block_def MINIMUM_BLOCK_SIZE_FOR_SPLIT_def structSize_def m1_def
          taken_def)
    then show ?thesis using finish [OF _ _ av ends(1,2)] taken fs s by auto
  next
    case False
    have taken: "taken (mem h) m1 st e a t fs' fs"
      using take_whole [OF seg' far] False fs' fs by (simp add: m1_def c_def)
    have "internalMalloc n h = Some (wd a + structSize,
        h\<lparr>mem := m1(wd a + 8 := wd t OR BLOCK_ALLOCATED_BITMASK, wd a := 0),
          bytesAvailable := bytesAvailable h - wd t\<rparr>)"
      using first guard split False u req ends
      by (simp add: internalMalloc_def Let_def nextFreeBlock_def blockSize_def set_next_def
          set_size_def allocate_block_def MINIMUM_BLOCK_SIZE_FOR_SPLIT_def structSize_def m1_def)
    then show ?thesis using finish [OF _ _ av ends(1,2)] taken fs False fs' by auto
  qed
qed

theorem internalMalloc_NULL:
  assumes rel: "heap_rel base fs al h" and n: "unat n + 23 < 2 ^ 64"
    and none: "unat n = 0 \<or> afit (block_size_for (unat n)) fs = None"
  shows "internalMalloc n h = Some (NULL, h)"
proof (cases "unat n = 0")
  case True
  then have "n = 0" by (simp add: unat_eq_0)
  then show ?thesis by (simp add: internalMalloc_def alignedRequiredSize_def)
next
  case False
  define r where "r = block_size_for (unat n)"
  have r: "0 < r" "r < 2 ^ 64" and req: "alignedRequiredSize n = wd r"
    using block_size_for(1) [of "unat n"] alignedRequiredSize_wd [OF _ n] False
    by (auto simp: r_def)
  obtain st e where lay: "layout base e fs al"
    and seg: "fseg (mem h) (wd st) ((st, 0) # fs) (wd e)" and marks: "marks (mem h) e al"
    and ends: "freeListStart h = wd st" "freeListEnd h = wd e"
    using rel by (rule heap_relE)
  have "afit r fs = None" using none False by (simp add: r_def)
  from search_None [OF lay seg marks r(2) this]
  show ?thesis using ends by (auto simp: internalMalloc_def Let_def req nextFreeBlock_def)
qed

end
