(* ===== verification/FreeHeap.thy ===== *)
theory FreeHeap
  imports FreeList
begin

text \<open>
  The life of a free-list heap (\<open>Kernel/c/freeListMM.c\<close>): initialisation establishes the
  invariant of theory \<open>FreeList\<close>, and every sequence of allocations, releases and writes
  into allocated payloads keeps it, so that the blocks a client holds never overlap and no
  call of the memory manager runs forever.
\<close>

section \<open>Initialisation\<close>

definition aligned_start :: "nat \<Rightarrow> nat" where
  "aligned_start a = (a + 7) div 8 * 8"

lemma align_up_wd: "a + 7 < 2 ^ 64 \<Longrightarrow> align_up (wd a) = wd (aligned_start a)"
proof -
  assume a: "a + 7 < 2 ^ 64"
  then have "unat (wd a + 7) = a + 7" using unat_plus [of "wd a" 7] by (simp add: unat_of_nat64)
  moreover have "align_up (wd a) = (wd a + 7) AND NOT 7"
    by (simp add: align_up_def addressByteSize_def algebra_simps)
  ultimately have "unat (align_up (wd a)) = aligned_start a"
    using unat_align_down [of "wd a + 7"] minus_mod_eq_div_mult [of "a + 7" 8]
    unfolding aligned_start_def by metis
  then have "wd (unat (align_up (wd a))) = wd (aligned_start a)" by (rule arg_cong)
  then show ?thesis by simp
qed

theorem internalFreeListInit_rel:
  assumes start: "0 < a" "a + unat sz + 7 \<le> 2 ^ 63"
    and sz: "8 dvd unat sz" "32 \<le> unat sz"
    and head: "st + 16 \<le> aligned_start a \<or> aligned_start a + unat sz \<le> st" "st + 16 \<le> 2 ^ 64"
  shows "heap_rel (aligned_start a) [(aligned_start a, unat sz - 16)] []
    (internalFreeListInit m (wd a) sz (wd st))"
proof -
  let ?b = "aligned_start a"
  define e where "e = ?b + (unat sz - 16)"
  have b: "0 < ?b" "8 dvd ?b" "?b < a + 8" "a \<le> ?b"
    using start unfolding aligned_start_def by presburger+
  have e: "e + 16 = ?b + unat sz" "e + 16 \<le> 2 ^ 63" using b start sz by (auto simp: e_def)
  have lay: "layout ?b e [(?b, unat sz - 16)] []"
    using b e sz by (auto simp: layout_def blk_ok_def e_def)
  have hd: "head_ok st ?b e" using head e by (auto simp: head_ok_def)
  have ok: "blk_ok ?b e (?b, unat sz - 16)" using layoutD(3) [OF lay] by simp
  have far: "far st ?b" "far st e" "far ?b e"
    using far_head [OF ok hd e(2)] far_end [OF ok e(2)] far_head_end [OF hd _ e(2)]
    by (auto simp: e_def)
  have "wd ?b + ucast sz = wd (?b + unat sz)" by (simp add: word_eq_unat)
  then have end_wd: "wd ?b + ucast sz - structSize = wd e"
    using e(1) [symmetric] by (simp add: structSize_def)
  have "e = unat sz - 16 + ?b" by (simp add: e_def)
  then have diff: "wd e - wd ?b = wd (unat sz - 16)" by (simp del: of_nat_diff)
  have "ucast sz = wd (16 + (unat sz - 16))" using sz by (simp add: word_eq_unat)
  then have diff': "ucast sz - structSize = wd (unat sz - 16)"
    by (simp only: of_nat_add structSize_def) simp
  have up: "align_up (wd a) = wd ?b" by (rule align_up_wd) (use start in simp)
  have lt: "unat sz - 16 < 2 ^ 64" using b start by auto
  show ?thesis
  proof (rule heap_relI [OF lay hd])
    let ?h = "internalFreeListInit m (wd a) sz (wd st)"
    show "fseg (mem ?h) (wd st) [(st, 0), (?b, unat sz - 16)] (wd e)"
      using far by (simp add: internalFreeListInit_def Let_def up end_wd diff diff' set_size_def set_next_def
          del: of_nat_diff)
    show "marks (mem ?h) e []"
      using far by (simp add: marks_def internalFreeListInit_def Let_def up end_wd diff diff' set_size_def set_next_def)
    show "unat (bytesAvailable ?h) = total [(?b, unat sz - 16)]"
      using lt by (simp add: internalFreeListInit_def Let_def up end_wd diff diff' set_size_def
          set_next_def blockSize_def unat_of_nat64 del: of_nat_diff)
  qed (simp_all add: internalFreeListInit_def Let_def up end_wd)
qed

section \<open>Freeing undoes allocating, once\<close>

text \<open>
  A freed block is not marked as allocated any more, even after it was merged with its
  neighbours, so a second \<open>internalFree\<close> of the same pointer changes nothing.
\<close>

lemma internalFree_unmarked:
  "\<not> block_is_allocated (mem h) (p - structSize) \<Longrightarrow> internalFree p h = Some h"
  by (simp add: internalFree_def Let_def)

theorem internalFree_twice:
  assumes "heap_rel base fs al h" "(a, s) \<in> set al"
    and "internalFree (wd a + structSize) h = Some h1"
  shows "internalFree (wd a + structSize) h1 = Some h1"
  using internalFree_refines [OF assms(1,2)] assms(3) by (auto intro: internalFree_unmarked)

theorem malloc_then_free:
  assumes rel: "heap_rel base fs al h" and n: "0 < unat n" "unat n + 23 < 2 ^ 64"
    and fit: "afit (block_size_for (unat n)) fs \<noteq> None"
  shows "\<exists>p h1 h2. internalMalloc n h = Some (p, h1) \<and> internalFree p h1 = Some h2 \<and>
    heap_rel base fs al h2"
proof -
  obtain a s fs' where f: "afit (block_size_for (unat n)) fs = Some ((a, s), fs')"
    using fit by auto
  obtain h1 where h1: "internalMalloc n h = Some (wd a + structSize, h1)"
    "heap_rel base fs' ((a, s) # al) h1"
    using internalMalloc_refines [OF rel n f] by blast
  obtain h2 where h2: "internalFree (wd a + structSize) h1 = Some h2"
    "heap_rel base (ainsert (a, s) fs') (remove1 (a, s) ((a, s) # al)) h2"
    using internalFree_refines [OF h1(2), of a s] by auto
  obtain st e where lay: "layout base e fs al" using rel by (rule heap_relE)
  have "\<forall>y \<in> set fs. 0 < snd y" using layoutD(3) [OF lay] blk_ok_pos by blast
  then have "ainsert (a, s) fs' = fs"
    using ainsert_afit [OF f layoutD(2) [OF lay]] block_size_for(1) [OF n(1)] by simp
  with h1(1) h2 show ?thesis by auto
qed

section \<open>All the heaps a client can reach\<close>

text \<open>
  The client's view: the heap and the pointers it holds, with the sizes it asked for. It may
  allocate, free a pointer it holds, and store into the payload of a block it holds.
\<close>

type_synonym client = "heap \<times> (addr \<times> u64) list"

inductive heap_step :: "client \<Rightarrow> client \<Rightarrow> bool" where
  malloc: "internalMalloc n h = Some (p, h') \<Longrightarrow> unat n + 23 < 2 ^ 64 \<Longrightarrow>
    heap_step (h, L) (h', if p = NULL then L else (p, n) # L)"
| free: "(p, n) \<in> set L \<Longrightarrow> internalFree p h = Some h' \<Longrightarrow>
    heap_step (h, L) (h', filter (\<lambda>x. fst x \<noteq> p) L)"
| store: "(p, n) \<in> set L \<Longrightarrow> unat p \<le> unat x \<Longrightarrow> unat x < unat p + unat n \<Longrightarrow> 8 dvd unat x \<Longrightarrow>
    heap_step (h, L) (h\<lparr>mem := (mem h)(x := v)\<rparr>, L)"

inductive_cases heap_stepE: "heap_step (h, L) c"

text \<open>Each held pointer is the payload of one allocated block that is large enough.\<close>

definition payload :: "addr \<times> u64 \<Rightarrow> blk \<Rightarrow> bool" where
  "payload x b \<longleftrightarrow> fst x = wd (fst b) + 16 \<and> unat (snd x) + 16 \<le> snd b"

definition holding :: "blk list \<Rightarrow> nat \<Rightarrow> client \<Rightarrow> bool" where
  "holding fs base c \<longleftrightarrow> (\<exists>al. heap_rel base fs al (fst c) \<and> list_all2 payload (snd c) al)"

definition held :: "nat \<Rightarrow> client \<Rightarrow> bool" where
  "held base c \<longleftrightarrow> (\<exists>fs al. heap_rel base fs al (fst c) \<and> list_all2 payload (snd c) al)"

lemma held_holding: "held base c \<longleftrightarrow> (\<exists>fs. holding fs base c)"
  by (auto simp: held_def holding_def)

lemma payload_addr:
  assumes "layout base e fs al" "b \<in> set al" "payload x b"
  shows "unat (fst x) = fst b + 16" "blk_ok base e b"
proof -
  show ok: "blk_ok base e b" by (rule layoutD(4) [OF assms(1,2)])
  have "fst b + 16 < 2 ^ 64" using ok layoutD(1) [OF assms(1)] by (auto simp: blk_ok_def)
  then have "unat (wd (fst b + 16)) = fst b + 16" by (rule unat_of_nat64)
  then show "unat (fst x) = fst b + 16" using assms(3) by (simp add: payload_def)
qed

lemma list_all2_filter:
  "list_all2 P xs ys \<Longrightarrow> (\<And>x y. x \<in> set xs \<Longrightarrow> y \<in> set ys \<Longrightarrow> P x y \<Longrightarrow> f x \<longleftrightarrow> g y) \<Longrightarrow>
     list_all2 P (filter f xs) (filter g ys)"
  by (induction rule: list_all2_induct) auto

lemma held_pointer:
  assumes "list_all2 payload L al" "x \<in> set L"
  obtains b where "b \<in> set al" "payload x b"
  using assms by (metis in_set_conv_nth list_all2_conv_all_nth)

lemma payload_inj:
  assumes lay: "layout base e fs al" and b: "b \<in> set al" "c \<in> set al"
    and "payload x b" "payload y c"
  shows "fst x = fst y \<longleftrightarrow> b = c"
proof
  assume "fst x = fst y"
  then have eq: "fst b = fst c"
    using payload_addr [OF lay b(1) assms(4)] payload_addr [OF lay b(2) assms(5)] by simp
  have "0 < snd b" "0 < snd c" using layoutD(4) [OF lay] b blk_ok_pos by blast+
  with eq show "b = c" using layoutD(6) [OF lay b] by (auto simp: apart_def)
qed (use assms in \<open>simp add: payload_def\<close>)

text \<open>A store into a payload misses every structure of the memory manager.\<close>

lemma payload_misses:
  assumes lay: "layout base e fs al" and head: "head_ok st base e" and a: "(a, s) \<in> set al"
    and y: "a + 16 \<le> y" "y < a + s" and b: "b \<in> insert st (insert e (fst ` (set fs \<union> set al)))"
  shows "wd y \<noteq> wd b \<and> wd y \<noteq> wd b + 8"
proof -
  have e: "e + 16 \<le> 2 ^ 63" and ok: "blk_ok base e (a, s)"
    using lay a by (auto simp: layout_def)
  have "(y < b \<or> b + 16 \<le> y) \<and> b + 16 \<le> 2 ^ 64"
  proof (cases "b \<in> {st, e}")
    case True
    with head e ok y show ?thesis by (auto simp: head_ok_def blk_ok_def)
  next
    case False
    then obtain c where c: "c \<in> set fs \<union> set al" "b = fst c" using b by auto
    then have "blk_ok base e c" using layoutD(3,4) [OF lay] by blast
    moreover have "c = (a, s) \<or> apart c (a, s)"
      using layoutD(5) [OF lay _ a] layoutD(6) [OF lay _ a] c(1) by blast
    ultimately show ?thesis using c(2) e y by (auto simp: blk_ok_def apart_def)
  qed
  moreover have "y < 2 ^ 64" using y ok e by (auto simp: blk_ok_def)
  ultimately show ?thesis using wd_inject [of y b] wd_inject [of y "b + 8"] by auto
qed

lemma heap_rel_store:
  assumes rel: "heap_rel base fs al h" and a: "(a, s) \<in> set al" and y: "a + 16 \<le> y" "y < a + s"
  shows "heap_rel base fs al (h\<lparr>mem := (mem h)(wd y := v)\<rparr>)"
proof -
  obtain st e where lay: "layout base e fs al" and head: "head_ok st base e"
    and seg: "fseg (mem h) (wd st) ((st, 0) # fs) (wd e)" and marks: "marks (mem h) e al"
    and rest: "unat (bytesAvailable h) = total fs" "freeListStart h = wd st" "freeListEnd h = wd e"
    using rel by (rule heap_relE)
  let ?m = "(mem h)(wd y := v)"
  have miss: "?m (wd b) = mem h (wd b) \<and> ?m (wd b + 8) = mem h (wd b + 8)"
    if "b \<in> insert st (insert e (fst ` (set fs \<union> set al)))" for b
    using payload_misses [OF lay head a y that] by auto
  show ?thesis
  proof (rule heap_relI [OF lay head])
    have "fseg ((mem h)(wd y := v)) (wd st) ((st, 0) # fs) (wd e) =
      fseg (mem h) (wd st) ((st, 0) # fs) (wd e)"
      by (rule fseg_cong, rule ballI, rule miss) auto
    with seg show "fseg (mem (h\<lparr>mem := (mem h)(wd y := v)\<rparr>)) (wd st) ((st, 0) # fs) (wd e)"
      by simp
    show "marks (mem (h\<lparr>mem := (mem h)(wd y := v)\<rparr>)) e al"
      by (rule marks_cong [OF marks]) (use miss in auto)
  qed (use rest in auto)
qed

lemma held_malloc:
  assumes held: "held base (h, L)" and n: "unat n + 23 < 2 ^ 64"
  shows "\<exists>p h'. internalMalloc n h = Some (p, h') \<and>
    held base (h', if p = NULL then L else (p, n) # L)"
proof -
  obtain fs al where rel: "heap_rel base fs al h" and L: "list_all2 payload L al"
    using held by (auto simp: held_def)
  show ?thesis
  proof (cases "unat n = 0 \<or> afit (block_size_for (unat n)) fs = None")
    case True
    with internalMalloc_NULL [OF rel n] held show ?thesis by auto
  next
    case False
    then obtain a s fs' where f: "afit (block_size_for (unat n)) fs = Some ((a, s), fs')" by auto
    obtain h' where h': "internalMalloc n h = Some (wd a + structSize, h')"
      "heap_rel base fs' ((a, s) # al) h'"
      using internalMalloc_refines [OF rel _ n f] False by blast
    have new: "payload (wd a + structSize, n) (a, s)"
      using afit_total [OF f] block_size_for(1) [of "unat n"] False
      by (simp add: payload_def structSize_def)
    obtain st e where lay: "layout base e fs' ((a, s) # al)" using h'(2) by (rule heap_relE)
    have "wd a + structSize \<noteq> NULL"
      using payload_addr(1) [OF lay _ new] by auto
    then show ?thesis using h' L new by (auto simp: held_def)
  qed
qed

lemma held_free:
  assumes held: "held base (h, L)" and p: "(p, n) \<in> set L"
  shows "\<exists>h'. internalFree p h = Some h' \<and> held base (h', filter (\<lambda>x. fst x \<noteq> p) L)"
proof -
  obtain fs al where rel: "heap_rel base fs al h" and L: "list_all2 payload L al"
    using held by (auto simp: held_def)
  obtain st e where lay: "layout base e fs al" using rel by (rule heap_relE)
  obtain b where b: "b \<in> set al" "payload (p, n) b" using held_pointer [OF L p] .
  obtain h' where h': "internalFree (wd (fst b) + structSize) h = Some h'"
    "heap_rel base (ainsert b fs) (remove1 b al) h'"
    using internalFree_refines [OF rel, of "fst b" "snd b"] b(1) by auto
  have "list_all2 payload (filter (\<lambda>x. fst x \<noteq> p) L) (filter (\<lambda>x. x \<noteq> b) al)"
    by (rule list_all2_filter [OF L]) (use payload_inj [OF lay _ b(1) _ b(2)] in auto)
  moreover have "filter (\<lambda>x. x \<noteq> b) al = remove1 b al"
    using lay distinct_remove1_removeAll [of al b]
    by (auto simp: layout_def removeAll_filter_not_eq intro: filter_cong)
  ultimately show ?thesis using h' b(2) by (auto simp: held_def payload_def structSize_def)
qed

lemma holding_store:
  assumes held: "holding fs base (h, L)" and p: "(p, n) \<in> set L"
    and x: "unat p \<le> unat x" "unat x < unat p + unat n"
  shows "holding fs base (h\<lparr>mem := (mem h)(x := v)\<rparr>, L)"
proof -
  obtain al where rel: "heap_rel base fs al h" and L: "list_all2 payload L al"
    using held by (auto simp: holding_def)
  obtain st e where lay: "layout base e fs al" using rel by (rule heap_relE)
  obtain b where b: "b \<in> set al" "payload (p, n) b" using held_pointer [OF L p] .
  have p: "unat p = fst b + 16" using payload_addr(1) [OF lay b] by simp
  have "heap_rel base fs al (h\<lparr>mem := (mem h)(wd (unat x) := v)\<rparr>)"
    by (rule heap_rel_store [OF rel, of "fst b" "snd b"])
      (use b x p in \<open>auto simp: payload_def\<close>)
  with L show ?thesis by (auto simp: holding_def)
qed

lemma held_store:
  "held base (h, L) \<Longrightarrow> (p, n) \<in> set L \<Longrightarrow> unat p \<le> unat x \<Longrightarrow> unat x < unat p + unat n \<Longrightarrow>
     held base (h\<lparr>mem := (mem h)(x := v)\<rparr>, L)"
  using holding_store unfolding held_holding by blast

lemma held_step [preserves]:
  assumes "heap_step c c'" "held base c"
  shows "held base c'"
  using assms
proof (induction rule: heap_step.induct)
  case (malloc n h p h' L)
  then show ?case using held_malloc by fastforce
next
  case (free p n L h h')
  then show ?case using held_free by fastforce
next
  case (store p n L x h v)
  then show ?case using held_store by blast
qed

lemma held_steps [preserves]: "heap_step\<^sup>*\<^sup>* c c' \<Longrightarrow> held base c \<Longrightarrow> held base c'"
  by (induction rule: rtranclp_induct) (auto intro: held_step)

text \<open>What the invariant gives the client.\<close>

definition disjoint_payloads :: "addr \<times> u64 \<Rightarrow> addr \<times> u64 \<Rightarrow> bool" where
  "disjoint_payloads x y \<longleftrightarrow>
     unat (fst x) + unat (snd x) \<le> unat (fst y) \<or> unat (fst y) + unat (snd y) \<le> unat (fst x)"

lemma held_disjoint:
  assumes "held base (h, L)"
  shows "sorted_wrt disjoint_payloads L"
proof -
  obtain fs al where rel: "heap_rel base fs al h" and L: "list_all2 payload L al"
    using assms by (auto simp: held_def)
  obtain st e where lay: "layout base e fs al" using rel by (rule heap_relE)
  have "disjoint_payloads (L ! i) (L ! j)" if "i < j" "j < length L" for i j
  proof -
    have al: "al ! i \<in> set al" "al ! j \<in> set al" "payload (L ! i) (al ! i)" "payload (L ! j) (al ! j)"
      using L that by (auto simp: list_all2_conv_all_nth)
    moreover have "al ! i \<noteq> al ! j"
      using lay that L by (auto simp: layout_def nth_eq_iff_index_eq list_all2_lengthD)
    ultimately have "apart (al ! i) (al ! j)" using layoutD(6) [OF lay] by blast
    then show ?thesis
      using al payload_addr(1) [OF lay al(1,3)] payload_addr(1) [OF lay al(2,4)]
      by (auto simp: apart_def disjoint_payloads_def payload_def)
  qed
  then show ?thesis by (simp add: sorted_wrt_iff_nth_less)
qed

lemma held_inside:
  assumes "held base (h, L)" "(p, n) \<in> set L"
  shows "base + 16 \<le> unat p \<and> unat p + unat n \<le> unat (freeListEnd h) \<and> 8 dvd unat p"
proof -
  obtain fs al where rel: "heap_rel base fs al h" and L: "list_all2 payload L al"
    using assms by (auto simp: held_def)
  obtain st e where lay: "layout base e fs al" and e: "freeListEnd h = wd e" "e + 16 \<le> 2 ^ 63"
    using rel by (rule heap_relE)
  obtain b where b: "b \<in> set al" "payload (p, n) b" using held_pointer [OF L assms(2)] .
  from payload_addr [OF lay b] b(2) e show ?thesis
    by (auto simp: payload_def blk_ok_def unat_of_nat64)
qed

lemma held_bound:
  assumes "held base (h, L)"
  shows "unat (freeListEnd h) + 16 \<le> 2 ^ 63"
proof -
  obtain fs al where rel: "heap_rel base fs al h" using assms by (auto simp: held_def)
  then show ?thesis by (auto simp: heap_rel_def Let_def layout_def)
qed

section \<open>The manager provides the interface of its clients\<close>

definition freelist_mm :: "heap mm" where
  "freelist_mm = \<lparr>mm_malloc = internalMalloc, mm_free = internalFree,
     mm_init = (\<lambda>p st h.
       let h' = freeListInit (mem h) p st
       in (freeListEnd h', bytesAvailable h', h\<lparr>mem := mem h'\<rparr>))\<rparr>"

definition freelist_ok :: "(addr \<rightharpoonup> u64) \<Rightarrow> heap \<Rightarrow> bool" where
  "freelist_ok A h \<longleftrightarrow> (\<exists>base L. held base (h, L) \<and> A = map_of L)"

lemma held_distinct:
  assumes "held base (h, L)"
  shows "distinct (map fst L)" "NULL \<notin> fst ` set L"
proof -
  obtain fs al where rel: "heap_rel base fs al h" and L: "list_all2 payload L al"
    using assms by (auto simp: held_def)
  obtain st e where lay: "layout base e fs al" using rel by (rule heap_relE)
  have "fst (L ! i) \<noteq> fst (L ! j)" if "i < length L" "j < length L" "i \<noteq> j" for i j
  proof -
    have "al ! i \<noteq> al ! j" "i < length al" "j < length al"
      using lay that L by (auto simp: layout_def nth_eq_iff_index_eq list_all2_lengthD)
    then show ?thesis
      using payload_inj [OF lay, of "al ! i" "al ! j" "L ! i" "L ! j"] L that
      by (simp add: list_all2_conv_all_nth)
  qed
  then show "distinct (map fst L)" by (simp add: distinct_conv_nth)
  have "fst x \<noteq> NULL" if x: "x \<in> set L" for x
  proof -
    obtain b where "b \<in> set al" "payload x b" using held_pointer [OF L x] .
    then have "unat (fst x) = fst b + 16" using payload_addr(1) [OF lay] by blast
    then show ?thesis by auto
  qed
  then show "NULL \<notin> fst ` set L" by auto
qed

lemma map_of_filter: "map_of (filter (\<lambda>x. fst x \<noteq> p) L) = (map_of L)(p := None)"
  by (induction L) auto

lemma freelist_malloc:
  assumes "freelist_ok A h" "unat n < 2 ^ 63"
  shows "\<exists>p h'. internalMalloc n h = Some (p, h') \<and>
    (p = NULL \<and> freelist_ok A h' \<or>
     p \<noteq> NULL \<and> p \<notin> dom A \<and> freelist_ok (A(p \<mapsto> n)) h' \<and> 8 dvd unat p \<and>
     unat p + unat n < 2 ^ 63)"
proof -
  obtain base L where L: "held base (h, L)" "A = map_of L"
    using assms(1) by (auto simp: freelist_ok_def)
  obtain p h' where run: "internalMalloc n h = Some (p, h')"
    and h': "held base (h', if p = NULL then L else (p, n) # L)"
    using held_malloc [OF L(1), of n] assms(2) by auto
  show ?thesis
  proof (cases "p = NULL")
    case True
    with run h' L show ?thesis by (auto simp: freelist_ok_def)
  next
    case False
    with h' have h': "held base (h', (p, n) # L)" by simp
    then have "p \<notin> dom A" using held_distinct(1) [OF h'] L(2) by (simp add: dom_map_of_conv_image_fst)
    moreover have "freelist_ok (A(p \<mapsto> n)) h'"
      unfolding freelist_ok_def using h' L(2) by (intro exI conjI) auto
    moreover have "8 dvd unat p" "unat p + unat n < 2 ^ 63"
      using held_inside [OF h', of p n] held_bound [OF h'] by auto
    ultimately show ?thesis using run False by auto
  qed
qed

lemma freelist_free:
  assumes "freelist_ok A h" "p \<in> dom A"
  shows "\<exists>h'. internalFree p h = Some h' \<and> freelist_ok (A(p := None)) h'"
proof -
  obtain base L n where L: "held base (h, L)" "A = map_of L" "(p, n) \<in> set L"
    using assms by (auto simp: freelist_ok_def dest: map_of_SomeD)
  obtain h' where "internalFree p h = Some h'" "held base (h', filter (\<lambda>x. fst x \<noteq> p) L)"
    using held_free [OF L(1,3)] by blast
  then show ?thesis
    unfolding freelist_ok_def L(2) map_of_filter [symmetric] by blast
qed

text \<open>The six stores of \<open>freeListInit\<close> stay inside the two blocks.\<close>

lemma holding_heap_init:
  assumes L: "holding fs base (h, L)" and in_L: "(p, 65536) \<in> set L" "(st, 16) \<in> set L"
  shows "holding fs base (h\<lparr>mem := mem (freeListInit (mem h) p st)\<rparr>, L)"
proof -
  have held: "held base (h, L)" using L unfolding held_holding by blast
  have p: "8 dvd unat p" "unat p + 65536 < 2 ^ 64" and st: "8 dvd unat st" "unat st + 16 < 2 ^ 64"
    using held_inside [OF held in_L(1)] held_inside [OF held in_L(2)] held_bound [OF held] by auto
  have up: "align_up p = p"
  proof -
    have "aligned_start (unat p) = unat p" using p(1) by (auto simp: aligned_start_def)
    then show ?thesis using align_up_wd [of "unat p"] p(2) by (simp del: of_nat_div)
  qed
  define e where "e = 65520 + p"
  have ue: "unat e = unat p + 65520" using unat_plus [of 65520 p] p by (simp add: e_def)
  have e8: "unat (e + 8) = unat p + 65528" using ue p by simp
  have p8: "unat (p + 8) = unat p + 8" "unat (st + 8) = unat st + 8" using p st by simp_all
  have "mem (freeListInit (mem h) p st) = (mem h)(st := p, st + 8 := 0, e + 8 := 0, e := 0,
      p + 8 := 65520, p := e)"
    by (simp add: freeListInit_def internalFreeListInit_def Let_def up PROCESS_HEAP_SIZE_def
        structSize_def set_size_def set_next_def e_def)
  moreover have "holding fs base (h\<lparr>mem := (mem h)(st := p, st + 8 := 0, e + 8 := 0, e := 0,
      p + 8 := 65520, p := e)\<rparr>, L)"
    using holding_store [OF holding_store [OF holding_store [OF holding_store [OF holding_store [OF holding_store
        [OF L in_L(2), of st p] in_L(2), of "st + 8" 0] in_L(1), of "e + 8" 0] in_L(1), of e 0]
        in_L(1), of "p + 8" 65520] in_L(1), of p e]
    using p8 ue e8 by simp
  ultimately show ?thesis by simp
qed

lemma freelist_heap_init:
  assumes "freelist_ok A h" "A p = Some 65536" "A st = Some 16"
  shows "freelist_ok A (h\<lparr>mem := mem (freeListInit (mem h) p st)\<rparr>)"
proof -
  obtain fs base L where "holding fs base (h, L)" "A = map_of L"
    using assms(1) by (auto simp: freelist_ok_def held_holding)
  then show ?thesis
    using holding_heap_init [of fs base h L p st] assms(2,3) map_of_SomeD
    unfolding freelist_ok_def held_holding by fast
qed

interpretation freelist: allocator freelist_mm freelist_ok
proof
  fix A h p st e n h'
  assume "freelist_ok A h" "A p = Some (ucast PROCESS_HEAP_SIZE)"
    "A st = Some sizeof_Block" "mm_init freelist_mm p st h = (e, n, h')"
  then show "freelist_ok A h'"
    using freelist_heap_init [of A h p st]
    by (auto simp: freelist_mm_def Let_def PROCESS_HEAP_SIZE_def sizeof_Block_def)
next
  fix A h
  assume "freelist_ok A h"
  then obtain base L where "held base (h, L)" "A = map_of L" by (auto simp: freelist_ok_def)
  then show "NULL \<notin> dom A" using held_distinct(2) by (simp add: dom_map_of_conv_image_fst)
qed (use freelist_malloc freelist_free in \<open>auto simp: freelist_mm_def internalFree_def\<close>)

text \<open>Room is a free block; an allocation takes at most 55 bytes more than it is asked for.\<close>

lemma afit_room:
  "afit r fs = Some (x, fs') \<Longrightarrow> y \<in> set fs \<Longrightarrow> r + 32 < snd y \<Longrightarrow> \<exists>z \<in> set fs'. snd y - r \<le> snd z"
proof (induction r fs arbitrary: x fs' rule: afit.induct)
  case (2 r a s fs)
  then show ?case by (cases "r \<le> s") (force split: if_splits)+
qed simp

definition freelist_room :: "(addr \<rightharpoonup> u64) \<Rightarrow> nat \<Rightarrow> heap \<Rightarrow> bool" where
  "freelist_room A k h \<longleftrightarrow> (\<exists>base L fs. holding fs base (h, L) \<and> A = map_of L \<and> (k = 0 \<or> (\<exists>x \<in> set fs. k \<le> snd x)))"

lemma freelist_room_malloc:
  assumes "freelist_room A k h" "0 < unat n" "unat n < 2 ^ 63" "unat n + 64 \<le> k"
  shows "\<exists>p h'. internalMalloc n h = Some (p, h') \<and> p \<noteq> NULL \<and> freelist_room (A(p \<mapsto> n)) (k - (unat n + 64)) h'"
proof -
  let ?r = "block_size_for (unat n)"
  obtain base L fs y where L: "holding fs base (h, L)" "A = map_of L" and y: "y \<in> set fs" "k \<le> snd y"
    using assms by (auto simp: freelist_room_def)
  obtain al where rel: "heap_rel base fs al h" and al: "list_all2 payload L al"
    using L(1) by (auto simp: holding_def)
  have r: "?r + 32 < snd y" "snd y - ?r \<ge> k - (unat n + 64)"
    using block_size_for(3) [of "unat n"] y(2) assms(4) by simp_all
  then have "afit ?r fs \<noteq> None" using y(1) by (auto simp: afit_None intro!: bexI [of _ y])
  then obtain a s fs' where fit: "afit ?r fs = Some ((a, s), fs')" by auto
  obtain h' where h': "internalMalloc n h = Some (wd a + structSize, h')" "heap_rel base fs' ((a, s) # al) h'"
    using internalMalloc_refines [OF rel assms(2) _ fit] assms(3) by auto
  have new: "payload (wd a + structSize, n) (a, s)"
    using afit_total [OF fit] block_size_for(1) [OF assms(2)] by (simp add: payload_def structSize_def)
  obtain st e where lay: "layout base e fs' ((a, s) # al)" using h'(2) by (rule heap_relE)
  have "wd a + structSize \<noteq> NULL" using payload_addr(1) [OF lay _ new] by auto
  then have p0: "wd a + structSize \<noteq> NULL" .
  obtain z where z: "z \<in> set fs'" "snd y - ?r \<le> snd z" using afit_room [OF fit y(1) r(1)] by blast
  have "holding fs' base (h', (wd a + structSize, n) # L)" using h'(2) al new by (auto simp: holding_def)
  moreover have "k - (unat n + 64) \<le> snd z" using z(2) r(2) by linarith
  ultimately have "freelist_room (A(wd a + structSize \<mapsto> n)) (k - (unat n + 64)) h'"
    unfolding freelist_room_def L(2) using z(1)
    by (intro exI [of _ base] exI [of _ "(wd a + structSize, n) # L"] exI [of _ fs']) auto
  then show ?thesis using h'(1) p0 by blast
qed

interpretation freelist_space: roomy_allocator freelist_mm freelist_ok freelist_room
proof
  fix A k h p st e n h'
  assume a: "freelist_room A k h" "A p = Some (ucast PROCESS_HEAP_SIZE)" "A st = Some sizeof_Block"
    "mm_init freelist_mm p st h = (e, n, h')"
  obtain base L fs where L: "holding fs base (h, L)" "A = map_of L" "k = 0 \<or> (\<exists>x \<in> set fs. k \<le> snd x)"
    using a(1) by (auto simp: freelist_room_def)
  have "(p, 65536) \<in> set L" "(st, 16) \<in> set L"
    using a(2,3) L(2) by (auto simp: PROCESS_HEAP_SIZE_def sizeof_Block_def dest: map_of_SomeD)
  from holding_heap_init [OF L(1) this] show "freelist_room A k h'"
    using a(4) L(2,3) by (auto simp: freelist_room_def freelist_mm_def Let_def)
next
  fix A k h j
  assume "freelist_room A k h" "j \<le> k"
  then show "freelist_room A j h" unfolding freelist_room_def by (metis le_trans le_zero_eq)
next
  fix A k h
  assume "freelist_room A k h"
  then show "freelist_ok A h" by (auto simp: freelist_room_def freelist_ok_def held_holding)
qed (use freelist_room_malloc in \<open>auto simp: freelist_mm_def\<close>)

lemma freelist_init:
  "0 < a \<Longrightarrow> a + unat sz + 7 \<le> 2 ^ 63 \<Longrightarrow> 8 dvd unat sz \<Longrightarrow> 32 \<le> unat sz \<Longrightarrow>
     st + 16 \<le> aligned_start a \<or> aligned_start a + unat sz \<le> st \<Longrightarrow> st + 16 \<le> 2 ^ 64 \<Longrightarrow>
     freelist_ok Map.empty (internalFreeListInit m (wd a) sz (wd st))"
proof -
  assume "0 < a" "a + unat sz + 7 \<le> 2 ^ 63" "8 dvd unat sz" "32 \<le> unat sz"
    "st + 16 \<le> aligned_start a \<or> aligned_start a + unat sz \<le> st" "st + 16 \<le> 2 ^ 64"
  from internalFreeListInit_rel [OF this]
  have "held (aligned_start a) (internalFreeListInit m (wd a) sz (wd st), [])"
    by (auto simp: held_def)
  then show ?thesis unfolding freelist_ok_def by force
qed

section \<open>Properties\<close>

text \<open>A concrete heap for the witnesses: 4096 bytes at address 4096, the list head at 256.\<close>

definition demo_heap :: heap where
  "demo_heap = internalFreeListInit (\<lambda>_. 0) (wd 4096) 4096 (wd 256)"

lemma demo_rel: "heap_rel 4096 [(4096, 4080)] [] demo_heap"
  using internalFreeListInit_rel [of 4096 4096 256 "\<lambda>_. 0"]
  by (simp add: demo_heap_def aligned_start_def)

text \<open>The abstract effect of a sequence of allocations; heaps with given blocks.\<close>

fun afits :: "nat list \<Rightarrow> blk list \<Rightarrow> blk list \<Rightarrow> (blk list \<times> blk list) option" where
  "afits [] fs al = Some (fs, al)"
| "afits (n # ns) fs al =
     (case afit (block_size_for n) fs of None \<Rightarrow> None | Some (x, fs') \<Rightarrow> afits ns fs' (x # al))"

lemma afits_rel:
  "heap_rel base fs al h \<Longrightarrow> \<forall>n \<in> set ns. 0 < n \<and> n < 2 ^ 32 \<Longrightarrow> afits ns fs al = Some (fs', al') \<Longrightarrow>
     \<exists>h'. heap_rel base fs' al' h'"
proof (induction ns arbitrary: fs al h)
  case (Cons n ns)
  then obtain a s fs1 where f: "afit (block_size_for n) fs = Some ((a, s), fs1)"
    "afits ns fs1 ((a, s) # al) = Some (fs', al')"
    by (auto split: option.splits)
  have n: "unat (word_of_nat n :: u64) = n" "0 < n" "n + 23 < 2 ^ 64"
    using Cons.prems(2) by (simp_all add: unat_of_nat64)
  obtain h1 where "heap_rel base fs1 ((a, s) # al) h1"
    using internalMalloc_refines [OF Cons.prems(1), of "word_of_nat n"] n f(1) by auto
  with Cons f(2) show ?case by auto
qed auto

lemma list_all2_maps: "(\<And>x. P (f x) (g x)) \<Longrightarrow> list_all2 P (map f xs) (map g xs)"
  by (induction xs) auto

text \<open>
  C1: whatever a client of an initialised heap does (allocations of any size, releases of
  pointers it holds, stores inside the payloads it holds, in any order), the payloads it holds
  are aligned, lie inside the region, do not overlap each other, and every further
  \<open>internalMalloc\<close> or \<open>internalFree\<close> of a held pointer returns: no list walk runs forever.
\<close>

theorem heap_runs_safe:
  assumes start: "0 < a" "a + unat sz + 7 \<le> 2 ^ 63"
    and sz: "8 dvd unat sz" "32 \<le> unat sz"
    and head: "st + 16 \<le> aligned_start a \<or> aligned_start a + unat sz \<le> st" "st + 16 \<le> 2 ^ 64"
    and run: "heap_step\<^sup>*\<^sup>* (internalFreeListInit m (wd a) sz (wd st), []) (h, L)"
  shows "sorted_wrt disjoint_payloads L \<and>
    (\<forall>(p, n) \<in> set L. aligned_start a + 16 \<le> unat p \<and> unat p + unat n \<le> unat (freeListEnd h) \<and>
       8 dvd unat p \<and> internalFree p h \<noteq> None) \<and>
    (\<forall>n. unat n + 23 < 2 ^ 64 \<longrightarrow> internalMalloc n h \<noteq> None)"
proof -
  have "held (aligned_start a) (internalFreeListInit m (wd a) sz (wd st), [])"
    using internalFreeListInit_rel [OF start sz head] by (auto simp: held_def)
  with run have h: "held (aligned_start a) (h, L)" by (rule held_steps)
  show ?thesis
    using held_disjoint [OF h] held_inside [OF h] held_free [OF h] held_malloc [OF h] by fastforce
qed

theorem heap_runs_safe_witness:
  "\<exists>p h. heap_step\<^sup>*\<^sup>* (demo_heap, []) (h, [(p, 100)]) \<and> internalFree p h \<noteq> None"
proof -
  have fit: "afit (block_size_for (unat (100::u64))) [(4096, 4080)] =
      Some ((4096, 120), [(4216, 3960)])"
    by (simp add: block_size_for_def)
  obtain h where h: "internalMalloc 100 demo_heap = Some (wd 4096 + structSize, h)"
    using internalMalloc_refines [OF demo_rel _ _ fit] by auto
  have "heap_step (demo_heap, []) (h, [(wd 4096 + structSize, 100)])"
    using heap_step.malloc [OF h, of "[]"] by (simp add: structSize_def)
  then have run: "heap_step\<^sup>*\<^sup>* (demo_heap, []) (h, [(wd 4096 + structSize, 100)])" by blast
  moreover have "internalFree (wd 4096 + structSize) h \<noteq> None"
    using heap_runs_safe [of 4096 4096 256 "\<lambda>_. 0", folded demo_heap_def, OF _ _ _ _ _ _ run]
    by (simp add: aligned_start_def)
  ultimately show ?thesis by blast
qed

text \<open>
  C2: \<open>internalMalloc\<close> implements first fit: for a request that does not wrap around it
  returns \<open>NULL\<close> and leaves the heap unchanged exactly when the request is 0 or no free block is
  large enough, and otherwise returns the payload of the block the abstract allocation takes
  (the first large enough one by address, split when more than 32 bytes remain).
\<close>

theorem malloc_first_fit:
  assumes "heap_rel base fs al h" "unat n + 23 < 2 ^ 64"
  shows "case (if unat n = 0 then None else afit (block_size_for (unat n)) fs) of
      None \<Rightarrow> internalMalloc n h = Some (NULL, h)
    | Some ((a, s), fs') \<Rightarrow> (\<exists>h'. internalMalloc n h = Some (wd a + structSize, h') \<and>
        wd a + structSize \<noteq> NULL \<and> unat n + 16 \<le> s \<and> heap_rel base fs' ((a, s) # al) h')"
proof (cases "if unat n = 0 then None else afit (block_size_for (unat n)) fs")
  case None
  then show ?thesis using internalMalloc_NULL [OF assms] by (simp split: if_splits)
next
  case (Some r)
  obtain a s fs' where r: "r = ((a, s), fs')" by (metis surj_pair)
  then have n: "0 < unat n" and fit: "afit (block_size_for (unat n)) fs = Some ((a, s), fs')"
    using Some by (auto split: if_splits)
  obtain h' where h': "internalMalloc n h = Some (wd a + structSize, h')"
    "heap_rel base fs' ((a, s) # al) h'"
    using internalMalloc_refines [OF assms(1) n assms(2) fit] by blast
  have s: "unat n + 16 \<le> s"
    using afit_total [OF fit] block_size_for(1) [OF n] by simp
  obtain st e where lay: "layout base e fs' ((a, s) # al)" using h'(2) by (rule heap_relE)
  have "wd a + structSize \<noteq> NULL"
    using payload_addr(1) [OF lay, of "(a, s)" "(wd a + structSize, n)"] s
    by (auto simp: payload_def structSize_def)
  with Some r h' s show ?thesis by simp
qed

theorem malloc_first_fit_witness:
  "\<exists>h'. internalMalloc 100 demo_heap = Some (wd 4096 + structSize, h') \<and>
     heap_rel 4096 [(4216, 3960)] [(4096, 120)] h'"
  using malloc_first_fit [OF demo_rel, of 100] by (auto simp: block_size_for_def)

text \<open>
  C3: \<open>internalFree\<close> of the pointer of an allocated block puts the block back by address and
  merges it with the free neighbours it touches; no two free blocks touch afterwards. A second
  \<open>internalFree\<close> of the same pointer changes nothing.
\<close>

theorem free_coalesces:
  assumes "heap_rel base fs al h" "(a, s) \<in> set al"
  shows "\<exists>h'. internalFree (wd a + structSize) h = Some h' \<and>
    heap_rel base (ainsert (a, s) fs) (remove1 (a, s) al) h' \<and>
    sorted_wrt before (ainsert (a, s) fs) \<and>
    internalFree (wd a + structSize) h' = Some h'"
proof -
  obtain h' where h': "internalFree (wd a + structSize) h = Some h'"
    "heap_rel base (ainsert (a, s) fs) (remove1 (a, s) al) h'"
    using internalFree_refines [OF assms] by blast
  obtain st e where "layout base e (ainsert (a, s) fs) (remove1 (a, s) al)"
    using h'(2) by (rule heap_relE)
  with h' internalFree_twice [OF assms h'(1)] show ?thesis by (auto simp: layout_def)
qed

theorem free_coalesces_witness:
  "\<exists>h h'. internalMalloc 100 demo_heap = Some (wd 4096 + structSize, h) \<and>
     internalFree (wd 4096 + structSize) h = Some h' \<and> heap_rel 4096 [(4096, 4080)] [] h'"
proof -
  have fit: "afit (block_size_for (unat (100::u64))) [(4096, 4080)] =
      Some ((4096, 120), [(4216, 3960)])"
    by (simp add: block_size_for_def)
  obtain h where h: "internalMalloc 100 demo_heap = Some (wd 4096 + structSize, h)"
    and rel: "heap_rel 4096 [(4216, 3960)] [(4096, 120)] h"
    using internalMalloc_refines [OF demo_rel _ _ fit] by auto
  with free_coalesces [OF rel, of 4096 120] show ?thesis by auto
qed

text \<open>
  A successful \<open>internalMalloc\<close> followed by \<open>internalFree\<close> of its result restores the free
  list: the block split off by the allocation is merged back.
\<close>

theorem malloc_free_restores:
  assumes "heap_rel base fs al h" "0 < unat n" "unat n + 23 < 2 ^ 64"
    and "afit (block_size_for (unat n)) fs \<noteq> None"
  shows "\<exists>p h1 h2. internalMalloc n h = Some (p, h1) \<and> p \<noteq> NULL \<and> internalFree p h1 = Some h2 \<and>
    heap_rel base fs al h2"
proof -
  obtain p h1 h2 where run: "internalMalloc n h = Some (p, h1)" "internalFree p h1 = Some h2"
    "heap_rel base fs al h2"
    using malloc_then_free [OF assms] by blast
  obtain a s fs' where fit: "afit (block_size_for (unat n)) fs = Some ((a, s), fs')"
    using assms(4) by auto
  obtain h1' where h1': "internalMalloc n h = Some (wd a + structSize, h1')"
    "heap_rel base fs' ((a, s) # al) h1'"
    using internalMalloc_refines [OF assms(1-3) fit] by blast
  obtain st e where lay: "layout base e fs' ((a, s) # al)" using h1'(2) by (rule heap_relE)
  have "unat n + 16 \<le> s" using afit_total [OF fit] block_size_for(1) [OF assms(2)] by simp
  then have "wd a + structSize \<noteq> NULL"
    using payload_addr(1) [OF lay, of "(a, s)" "(wd a + structSize, n)"]
    by (auto simp: payload_def structSize_def)
  with run h1'(1) show ?thesis by auto
qed

theorem malloc_free_restores_witness:
  "\<exists>p h1 h2. internalMalloc 100 demo_heap = Some (p, h1) \<and> p \<noteq> NULL \<and> internalFree p h1 = Some h2 \<and>
    heap_rel 4096 [(4096, 4080)] [] h2"
  by (rule malloc_free_restores [OF demo_rel]) (simp_all add: block_size_for_def)

text \<open>
  The size computation wraps around for the 23 largest requests: asked for \<open>2^64 - 1\<close> bytes,
  \<open>internalMalloc\<close> on a heap of 4080 free bytes returns a block without any payload byte
  (the whole block is its 16-byte structure) instead of \<open>NULL\<close>.
\<close>

theorem malloc_size_wraps:
  "\<exists>h'. internalMalloc (- 1) demo_heap = Some (wd 4096 + structSize, h') \<and>
     mem h' (wd 4096 + 8) = 16 OR BLOCK_ALLOCATED_BITMASK \<and> bytesAvailable h' = 4064"
proof -
  have m: "mem demo_heap 256 = 4096" "mem demo_heap 264 = 0" "mem demo_heap 4096 = 8176"
    "mem demo_heap 4104 = 4080" "mem demo_heap 8176 = 0" "mem demo_heap 8184 = 0"
    "freeListStart demo_heap = 256" "freeListEnd demo_heap = 8176" "bytesAvailable demo_heap = 4080"
    by (simp_all add: demo_heap_def internalFreeListInit_def Let_def align_up_def addressByteSize_def
        structSize_def set_size_def set_next_def blockSize_def)
  have mask: "BLOCK_ALLOCATED_BITMASK = 9223372036854775808"
    by (simp add: BLOCK_ALLOCATED_BITMASK_def)
  show ?thesis
    by (simp add: internalMalloc_def alignedRequiredSize_def align_up_def addressByteSize_def
        structSize_def mask m Let_def firstFit.simps insertPoint.simps insert_defs
        MINIMUM_BLOCK_SIZE_FOR_SPLIT_def allocate_block_def word_greater_zero_iff)
qed

end
