(* ===== verification/KArray.thy ===== *)
theory KArray
  imports Allocator
begin

text \<open>
  The kernel's growable arrays (\<open>Kernel/c/array.c\<close>, with \<open>shittyRealloc\<close> of
  \<open>Kernel/c/memory.c\<close>). The block \<open>a->array\<close> is a list of element slots, as many as fit in the
  bytes that were asked for (the product \<open>capacity * elementSize\<close> wraps around); a slot that
  was never written holds \<open>None\<close>. A pointer to an element is its index, and reading or
  writing outside the slots is the fault \<open>None\<close> of the option monad. An \<open>Array\<close> is a pointer:
  \<open>None\<close> there is \<open>NULL\<close>.
\<close>

record ('a, 'h) ArrayCDT =
  self :: addr  \<comment> \<open>the address of the structure\<close>
  array :: addr
  elementSize :: u64
  capacity :: u64
  len :: u64
  freeEleFn :: "('a \<Rightarrow> 'h \<Rightarrow> 'h option) option"
  slots :: "'a option list"

type_synonym ('a, 'h) Array = "('a, 'h) ArrayCDT option"

definition sizeof_ArrayCDT :: u64 where "sizeof_ArrayCDT = 40"

text \<open>The slots of a fresh block of \<open>n\<close> elements of \<open>sz\<close> bytes.\<close>

definition fresh_slots :: "u64 \<Rightarrow> u64 \<Rightarrow> 'a option list" where
  "fresh_slots n sz = replicate (unat (n * sz) div unat sz) None"

section \<open>The operations\<close>

definition Array_initialize ::
  "'h mm \<Rightarrow> u64 \<Rightarrow> u64 \<Rightarrow> ('a \<Rightarrow> 'h \<Rightarrow> 'h option) option \<Rightarrow> 'h \<Rightarrow> (('a, 'h) Array \<times> 'h) option" where
  "Array_initialize M sz initialCapacity freeFn h =
     (if sz = 0 then Some (None, h)
      else do {
        (a, h1) \<leftarrow> mm_malloc M sizeof_ArrayCDT h;
        if a = NULL then Some (None, h1)
        else do {
          let cap = (if initialCapacity \<noteq> 0 then initialCapacity else 1);
          (p, h2) \<leftarrow> mm_malloc M (cap * sz) h1;
          if p = NULL then do { h3 \<leftarrow> mm_free M a h2; Some (None, h3) }
          else Some (Some \<lparr>self = a, array = p, elementSize = sz, capacity = cap, len = 0,
                       freeEleFn = freeFn, slots = fresh_slots cap sz\<rparr>, h2)
        }
      })"

definition Array_get :: "('a, 'h) Array \<Rightarrow> int \<Rightarrow> nat option" where
  "Array_get a idx =
     (case a of None \<Rightarrow> None
      | Some c \<Rightarrow>
          if idx < 0 then (if - idx > uint (len c) then None else Some (nat (idx + uint (len c))))
          else if idx \<ge> uint (len c) then None
          else Some (nat idx))"

definition Array_getLen :: "('a, 'h) Array \<Rightarrow> u64" where
  "Array_getLen a = (case a of None \<Rightarrow> - 1 | Some c \<Rightarrow> len c)"

text \<open>Loading a slot: outside the block, or never written, is a fault.\<close>

definition slot :: "('a, 'h) ArrayCDT \<Rightarrow> nat \<Rightarrow> 'a option" where
  "slot c k = (if k < length (slots c) then slots c ! k else None)"

text \<open>\<open>a->freeEleFn(Array_get(a, i))\<close>: the element functions dereference their argument.\<close>

definition free_element ::
  "('a \<Rightarrow> 'h \<Rightarrow> 'h option) \<Rightarrow> ('a, 'h) ArrayCDT \<Rightarrow> int \<Rightarrow> 'h \<Rightarrow> 'h option" where
  "free_element f c i h = do { k \<leftarrow> Array_get (Some c) i; e \<leftarrow> slot c k; f e h }"

text \<open>\<open>for (i = from; i < from + n; ++i) a->freeEleFn(Array_get(a, i))\<close>\<close>

fun free_elements ::
  "('a \<Rightarrow> 'h \<Rightarrow> 'h option) \<Rightarrow> ('a, 'h) ArrayCDT \<Rightarrow> int \<Rightarrow> nat \<Rightarrow> 'h \<Rightarrow> 'h option" where
  "free_elements f c i 0 h = Some h"
| "free_elements f c i (Suc n) h = do { h1 \<leftarrow> free_element f c i h; free_elements f c (i + 1) n h1 }"

definition free_range :: "('a, 'h) ArrayCDT \<Rightarrow> int \<Rightarrow> nat \<Rightarrow> 'h \<Rightarrow> 'h option" where
  "free_range c i n h = (case freeEleFn c of None \<Rightarrow> Some h | Some f \<Rightarrow> free_elements f c i n h)"

text \<open>\<open>memcpy(a->array + a->elementSize * idx, eleArr, a->elementSize * n)\<close>\<close>

definition copynEleAt :: "('a, 'h) ArrayCDT \<Rightarrow> nat \<Rightarrow> 'a option list \<Rightarrow> ('a, 'h) ArrayCDT option" where
  "copynEleAt c idx eles =
     (if idx + length eles \<le> length (slots c)
      then Some (c\<lparr>slots := take idx (slots c) @ eles @ drop (idx + length eles) (slots c)\<rparr>)
      else None)"

definition copyEleAt :: "('a, 'h) ArrayCDT \<Rightarrow> nat \<Rightarrow> 'a option \<Rightarrow> ('a, 'h) ArrayCDT option" where
  "copyEleAt c idx ele = copynEleAt c idx [ele]"

text \<open>
  \<open>shittyRealloc(ptr, oldSize, newSize)\<close> on a block with slots: the old content is copied as a
  whole, so a new block with fewer slots is overrun.
\<close>

definition shittyRealloc ::
  "'h mm \<Rightarrow> addr \<Rightarrow> 'a option list \<Rightarrow> u64 \<Rightarrow> 'a option list \<Rightarrow> 'h \<Rightarrow>
   (addr \<times> 'a option list \<times> 'h) option" where
  "shittyRealloc M ptr old newSize fresh h = do {
     (p, h1) \<leftarrow> mm_malloc M newSize h;
     if p = NULL then Some (NULL, old, h1)
     else if length fresh < length old then None
     else do {
       let new = old @ drop (length old) fresh;
       h2 \<leftarrow> mm_free M ptr h1;
       Some (p, new, h2)
     }
   }"

definition growTo ::
  "'h mm \<Rightarrow> ('a, 'h) ArrayCDT \<Rightarrow> u64 \<Rightarrow> 'h \<Rightarrow> (bool \<times> ('a, 'h) ArrayCDT \<times> 'h) option" where
  "growTo M c newCapacity h = do {
     (aux, new, h1) \<leftarrow> shittyRealloc M (array c) (slots c) (newCapacity * elementSize c)
       (fresh_slots newCapacity (elementSize c)) h;
     if aux = NULL then Some (False, c, h1)
     else Some (True, c\<lparr>capacity := newCapacity, array := aux, slots := new\<rparr>, h1)
   }"

definition growBy ::
  "'h mm \<Rightarrow> ('a, 'h) ArrayCDT \<Rightarrow> u64 \<Rightarrow> 'h \<Rightarrow> (bool \<times> ('a, 'h) ArrayCDT \<times> 'h) option" where
  "growBy M c extraCapacity h = growTo M c (capacity c + extraCapacity) h"

text \<open>The boolean result of \<open>growBy\<close> is ignored by its callers.\<close>

definition Array_push ::
  "'h mm \<Rightarrow> ('a, 'h) Array \<Rightarrow> 'a option \<Rightarrow> 'h \<Rightarrow> (int \<times> ('a, 'h) Array \<times> 'h) option" where
  "Array_push M a ele h =
     (case (a, ele) of
        (Some c, Some e) \<Rightarrow> do {
          (_, c1, h1) \<leftarrow> (if len c \<ge> capacity c then growBy M c (capacity c) h
                        else Some (True, c, h));
          c2 \<leftarrow> copyEleAt c1 (unat (len c1)) (Some e);
          let c3 = c2\<lparr>len := len c2 + 1\<rparr>;
          Some (sint (len c3 - 1), Some c3, h1)
        }
      | _ \<Rightarrow> Some (- 1, a, h))"

definition Array_popGetEle ::
  "('a, 'h) Array \<Rightarrow> (bool \<times> 'a option \<times> ('a, 'h) Array) option" where
  "Array_popGetEle a =
     (case a of None \<Rightarrow> Some (False, None, a)
      | Some c \<Rightarrow>
          if len c = 0 then Some (False, None, a)
          else do {
            k \<leftarrow> Array_get a (- 1);
            if k < length (slots c) then Some (True, slots c ! k, Some (c\<lparr>len := len c - 1\<rparr>))
            else None
          })"

definition Array_pop :: "('a, 'h) Array \<Rightarrow> 'h \<Rightarrow> (bool \<times> ('a, 'h) Array \<times> 'h) option" where
  "Array_pop a h =
     (case a of None \<Rightarrow> Some (False, a, h)
      | Some c \<Rightarrow>
          if len c = 0 then Some (False, a, h)
          else do {
            h1 \<leftarrow> free_range c (- 1) 1 h;
            Some (True, Some (c\<lparr>len := len c - 1\<rparr>), h1)
          })"

text \<open>An index out of range returns \<open>false\<close> (the source returns \<open>NULL\<close> there, converted).\<close>

definition Array_setn ::
  "'h mm \<Rightarrow> ('a, 'h) Array \<Rightarrow> int \<Rightarrow> 'a option list \<Rightarrow> 'h \<Rightarrow> (bool \<times> ('a, 'h) Array \<times> 'h) option"
where
  "Array_setn M a idx eles h =
     (case a of None \<Rightarrow> Some (False, a, h)
      | Some c \<Rightarrow>
          if idx < 0 \<and> - idx > uint (len c) \<or> 0 \<le> idx \<and> idx \<ge> uint (len c)
          then Some (False, a, h)
          else do {
            let i = (if idx < 0 then idx + uint (len c) else idx);
            let n = (word_of_nat (length eles) :: u64);
            let rest = len c - word_of_int i;
            h1 \<leftarrow> free_range c i (length eles) h;
            (_, c1, h2) \<leftarrow> (if n > rest then growBy M c (n - rest) h1 else Some (True, c, h1));
            c2 \<leftarrow> copynEleAt c1 (nat i) eles;
            Some (True, Some c2, h2)
          })"

definition Array_set ::
  "'h mm \<Rightarrow> ('a, 'h) Array \<Rightarrow> int \<Rightarrow> 'a \<Rightarrow> 'h \<Rightarrow> (bool \<times> ('a, 'h) Array \<times> 'h) option" where
  "Array_set M a idx ele h = Array_setn M a idx [Some ele] h"

definition Array_clear :: "('a, 'h) Array \<Rightarrow> 'h \<Rightarrow> (bool \<times> ('a, 'h) Array \<times> 'h) option" where
  "Array_clear a h =
     (case a of None \<Rightarrow> Some (False, a, h)
      | Some c \<Rightarrow> do {
          h1 \<leftarrow> free_range c 0 (unat (len c)) h;
          Some (True, Some (c\<lparr>len := 0\<rparr>), h1)
        })"

definition Array_free :: "'h mm \<Rightarrow> ('a, 'h) Array \<Rightarrow> 'h \<Rightarrow> (bool \<times> 'h) option" where
  "Array_free M a h =
     (case a of None \<Rightarrow> Some (False, h)
      | Some c \<Rightarrow> do {
          h1 \<leftarrow> free_range c 0 (unat (len c)) h;
          h2 \<leftarrow> mm_free M (array c) h1;
          h3 \<leftarrow> mm_free M (self c) h2;
          Some (True, h3)
        })"

definition Array_fromVanillaArray ::
  "'h mm \<Rightarrow> 'a option list \<Rightarrow> u64 \<Rightarrow> ('a \<Rightarrow> 'h \<Rightarrow> 'h option) option \<Rightarrow> 'h \<Rightarrow>
   (('a, 'h) Array \<times> 'h) option" where
  "Array_fromVanillaArray M eles sz freeFn h = do {
     (a, h1) \<leftarrow> Array_initialize M sz (word_of_nat (length eles)) freeFn h;
     case a of None \<Rightarrow> Some (None, h1)
     | Some c \<Rightarrow> do {
         c1 \<leftarrow> copynEleAt (c\<lparr>len := word_of_nat (length eles)\<rparr>) 0 eles;
         Some (Some c1, h1)
       }
   }"

definition Array_concat ::
  "'h mm \<Rightarrow> ('a, 'h) Array \<Rightarrow> ('a, 'h) Array \<Rightarrow> 'h \<Rightarrow> (bool \<times> ('a, 'h) Array \<times> 'h) option" where
  "Array_concat M dst src h =
     (case (dst, src) of
        (Some d, Some s) \<Rightarrow>
          if elementSize d \<noteq> elementSize s then Some (False, dst, h)
          else do {
            let neededCapacity = len d + len s;
            (_, d1, h1) \<leftarrow> (if capacity d < neededCapacity then growTo M d neededCapacity h
                          else Some (True, d, h));
            if length (slots s) < unat (len s) then None
            else do {
              d2 \<leftarrow> copynEleAt d1 (unat (len d1)) (take (unat (len s)) (slots s));
              Some (True, Some (d2\<lparr>len := len d2 + len s\<rparr>), h1)
            }
          }
      | _ \<Rightarrow> Some (False, dst, h))"

text \<open>\<open>memcpy(array, a->array, a->length * a->elementSize)\<close> into a caller's array.\<close>

definition Array_copyVanillaArrayInto :: "('a, 'h) Array \<Rightarrow> 'a option list \<Rightarrow> 'a option list option" where
  "Array_copyVanillaArrayInto a dst =
     (case a of None \<Rightarrow> Some dst
      | Some c \<Rightarrow>
          let n = unat (len c)
          in if n \<le> length (slots c) \<and> n \<le> length dst
             then Some (take n (slots c) @ drop n dst) else None)"

definition Array_getVanillaArrayCopy ::
  "'h mm \<Rightarrow> ('a, 'h) Array \<Rightarrow> 'h \<Rightarrow> ((addr \<times> 'a option list) \<times> 'h) option" where
  "Array_getVanillaArrayCopy M a h =
     (case a of None \<Rightarrow> Some ((NULL, []), h)
      | Some c \<Rightarrow> do {
          (p, h1) \<leftarrow> mm_malloc M (len c * elementSize c) h;
          if p = NULL then None
          else do {
            dst \<leftarrow> Array_copyVanillaArrayInto a (fresh_slots (len c) (elementSize c));
            Some ((p, dst), h1)
          }
        })"

section \<open>The list an array stands for\<close>

text \<open>
  A sound array: its two blocks are allocated with the sizes the fields say, every slot below
  \<open>len\<close> was written, and the block is small enough for doubling not to wrap around.
\<close>

definition arr_shape :: "('a, 'h) ArrayCDT \<Rightarrow> bool" where
  "arr_shape c \<longleftrightarrow>
     0 < unat (elementSize c) \<and> unat (len c) \<le> unat (capacity c) \<and> 0 < unat (capacity c) \<and>
     length (slots c) = unat (capacity c) \<and> unat (capacity c) * unat (elementSize c) < 2 ^ 62 \<and>
     (\<forall>k < unat (len c). slots c ! k \<noteq> None)"

definition arr_owned :: "(addr \<rightharpoonup> u64) \<Rightarrow> ('a, 'h) ArrayCDT \<Rightarrow> bool" where
  "arr_owned L c \<longleftrightarrow> L (array c) = Some (capacity c * elementSize c) \<and>
     L (self c) = Some sizeof_ArrayCDT \<and> self c \<noteq> array c"

definition elems :: "('a, 'h) ArrayCDT \<Rightarrow> 'a list" where
  "elems c = map the (take (unat (len c)) (slots c))"

lemma length_elems: "arr_shape c \<Longrightarrow> length (elems c) = unat (len c)"
  by (simp add: elems_def arr_shape_def)

lemma slot_elems: "arr_shape c \<Longrightarrow> k < unat (len c) \<Longrightarrow> slot c k = Some (elems c ! k)"
  by (auto simp: slot_def elems_def arr_shape_def)

lemma unat_times: "unat a * unat b < 2 ^ 64 \<Longrightarrow> unat (a * b) = unat a * unat b" for a b :: u64
  by (simp add: unat_word_ariths)

lemma length_fresh:
  "0 < unat sz \<Longrightarrow> unat n * unat sz < 2 ^ 64 \<Longrightarrow> length (fresh_slots n sz) = unat n"
  by (simp add: fresh_slots_def unat_times)

text \<open>\<open>Array_get\<close>: indices count from the end when negative, as the list's own positions.\<close>

lemma Array_get_eq:
  "Array_get (Some c) idx =
     (if - uint (len c) \<le> idx \<and> idx < uint (len c)
      then Some (nat (if idx < 0 then idx + uint (len c) else idx)) else None)"
  by (auto simp: Array_get_def)

lemma Array_get_nth [simp]: "k < unat (len c) \<Longrightarrow> Array_get (Some c) (int k) = Some k"
proof -
  assume "k < unat (len c)"
  then have "int k < uint (len c)" by (metis of_nat_less_iff uint_nat)
  then show ?thesis by (simp add: Array_get_eq)
qed

lemma copyEleAt_eq:
  "k < length (slots c) \<Longrightarrow> copyEleAt c k e = Some (c\<lparr>slots := (slots c)[k := e]\<rparr>)"
  by (simp add: copyEleAt_def copynEleAt_def upd_conv_take_nth_drop)

section \<open>Growing keeps the content\<close>

lemma push_room:
  assumes c: "arr_shape c" and room: "len c < capacity c"
  shows "\<exists>c'. Array_push M (Some c) (Some e) h = Some (sint (len c), Some c', h) \<and>
    arr_shape c' \<and> elems c' = elems c @ [e] \<and> unat (len c') = Suc (unat (len c)) \<and>
    capacity c' = capacity c \<and> array c' = array c \<and> self c' = self c \<and>
    elementSize c' = elementSize c \<and> freeEleFn c' = freeEleFn c"
proof -
  let ?k = "unat (len c)"
  have k: "?k < unat (capacity c)" using room by (simp add: word_less_nat_alt)
  then have n: "unat (len c + 1) = Suc ?k"
    using unat_plus [of "len c" 1] unat_lt_u64 [of "capacity c"] by simp
  let ?c = "c\<lparr>slots := (slots c)[?k := Some e], len := len c + 1\<rparr>"
  have "arr_shape ?c"
    using c k n by (auto simp: arr_shape_def nth_list_update less_Suc_eq)
  moreover have "elems ?c = elems c @ [e]"
    using c k n by (simp add: elems_def arr_shape_def take_Suc_update)
  moreover have "Array_push M (Some c) (Some e) h = Some (sint (len c), Some ?c, h)"
    using c k room not_le [of "capacity c" "len c"]
    by (simp add: Array_push_def copyEleAt_eq arr_shape_def)
  ultimately show ?thesis using n by (intro exI [of _ ?c]) auto
qed

lemma pop_eq:
  assumes c: "arr_shape c" and ne: "elems c \<noteq> []"
  shows "Array_popGetEle (Some c) =
      Some (True, Some (last (elems c)), Some (c\<lparr>len := len c - 1\<rparr>))"
    "arr_shape (c\<lparr>len := len c - 1\<rparr>)" "elems (c\<lparr>len := len c - 1\<rparr>) = butlast (elems c)"
proof -
  obtain n where un: "unat (len c) = n" and u: "uint (len c) = int n" using uint_nat by blast
  have n: "0 < n" "n \<le> length (slots c)" "length (elems c) = n"
    using c length_elems [OF c] length_greater_0_conv [of "elems c"] ne un
    by (simp_all add: arr_shape_def)
  have dec: "unat (len c - 1) = n - 1" using n un unat_minus [of 1 "len c"] by simp
  have "Array_get (Some c) (- 1) = Some (n - 1)"
    using n by (simp add: Array_get_eq u nat_diff_distrib)
  moreover have "slots c ! (n - 1) = Some (last (elems c))"
    using slot_elems [OF c, of "n - 1"] n ne un
    by (simp add: slot_def last_conv_nth split: if_splits)
  moreover have "len c \<noteq> 0" using n un by auto
  ultimately show "Array_popGetEle (Some c) =
      Some (True, Some (last (elems c)), Some (c\<lparr>len := len c - 1\<rparr>))"
    using n by (simp add: Array_popGetEle_def)
  show "arr_shape (c\<lparr>len := len c - 1\<rparr>)" using c dec un by (auto simp: arr_shape_def)
  show "elems (c\<lparr>len := len c - 1\<rparr>) = butlast (elems c)"
    using n dec un by (simp add: elems_def map_butlast [symmetric] butlast_take)
qed

lemma pop_empty: "elems c = [] \<Longrightarrow> arr_shape c \<Longrightarrow> Array_popGetEle (Some c) = Some (False, None, Some c)"
  using length_elems [of c] by (simp add: Array_popGetEle_def unat_eq_0)

lemma set_eq:
  fixes c :: "('a, 'h) ArrayCDT" and e :: 'a
  assumes c: "arr_shape c" and i: "i < length (elems c)"
    and idx: "idx = int i \<or> idx = int i - int (length (elems c))"
    and free: "free_range c (int i) 1 h = Some h1"
  defines "c' \<equiv> c\<lparr>slots := (slots c)[i := Some e]\<rparr>"
  shows "Array_set M (Some c) idx e h = Some (True, Some c', h1)"
    "arr_shape c'" "elems c' = (elems c)[i := e]"
proof -
  obtain n where un: "unat (len c) = n" and u: "uint (len c) = int n" using uint_nat by blast
  have n: "i < n" "n \<le> length (slots c)" "length (elems c) = n"
    using i length_elems [OF c] c un by (auto simp: arr_shape_def)
  have "i < 2 ^ 64" using n(1) unat_lt_u64 [of "len c"] un by simp
  then have "unat (word_of_nat i :: u64) = i" by (rule unat_of_nat64)
  then have "unat (len c - word_of_nat i) = n - i"
    using n un unat_minus [of "word_of_nat i" "len c"] by simp
  then have room: "\<not> len c - word_of_nat i < 1" using n by (simp add: word_less_nat_alt)
  have j: "(if idx < 0 then idx + int n else idx) = int i" "\<not> (idx < 0 \<and> int n < - idx)"
    "\<not> (0 \<le> idx \<and> int n \<le> idx)"
    using idx n by auto
  show "Array_set M (Some c) idx e h = Some (True, Some c', h1)"
    unfolding Array_set_def Array_setn_def u Let_def option.case j(1)
    using free n room j(2,3) by (simp add: copynEleAt_def c'_def upd_conv_take_nth_drop)
  have "(slots c)[i := Some e] ! k \<noteq> None" if "k < unat (len c)" for k
    using c that by (cases "k = i") (auto simp: arr_shape_def)
  then show "arr_shape c'" using c by (simp add: arr_shape_def c'_def)
  show "elems c' = (elems c)[i := e]" using n un by (simp add: elems_def c'_def take_update_swap map_update)
qed

lemma set_out:
  "\<not> (- uint (len c) \<le> idx \<and> idx < uint (len c)) \<Longrightarrow>
     Array_set M (Some c) idx e h = Some (False, Some c, h)"
  by (auto simp: Array_set_def Array_setn_def)

text \<open>Arrays over any memory manager that keeps the laws of its interface.\<close>

locale array_heap = allocator M ok for M :: "'h mm" and ok
begin

text \<open>Growing to a larger capacity either fails without a change or moves the content.\<close>

lemma growTo_cases:
  fixes c :: "('e, 'h) ArrayCDT"
  assumes ok: "ok L h" and c: "arr_shape c" "arr_owned L c"
    and n: "capacity c \<le> n" "unat n * unat (elementSize c) < 2 ^ 62"
  obtains (full) h' where "growTo M c n h = Some (False, c, h')" "ok L h'"
      "mm_malloc M (n * elementSize c) h = Some (NULL, h')"
  | (moved) p h' ss where
      "growTo M c n h = Some (True, c\<lparr>capacity := n, array := p, slots := slots c @ ss\<rparr>, h')"
      "length (slots c @ ss) = unat n" "p \<noteq> NULL" "p \<notin> dom L"
      "ok (L(p \<mapsto> n * elementSize c, array c := None)) h'"
proof -
  let ?s = "elementSize c"
  have size: "unat (n * ?s) = unat n * unat ?s" using n(2) by (simp add: unat_times)
  then have lt: "unat (n * ?s) < 2 ^ 63" using n(2) by simp
  have slots: "length (fresh_slots n ?s :: 'e option list) = unat n"
    using c n by (intro length_fresh) (auto simp: arr_shape_def)
  have len: "length (slots c) \<le> unat n"
    using c(1) n(1) by (simp add: arr_shape_def word_le_nat_alt)
  from malloc_cases [OF ok lt] show ?thesis
  proof cases
    case (1 h')
    with that(1) show ?thesis by (simp add: growTo_def shittyRealloc_def)
  next
    case fresh: (2 p h1)
    have arr: "array c \<in> dom (L(p \<mapsto> n * ?s))" using c(2) by (auto simp: arr_owned_def)
    obtain h2 where h2: "mm_free M (array c) h1 = Some h2"
      "ok (L(p \<mapsto> n * ?s, array c := None)) h2"
      using free_ok [OF fresh(4) arr] by blast
    let ?ss = "drop (length (slots c)) (fresh_slots n ?s)"
    have "growTo M c n h = Some (True, c\<lparr>capacity := n, array := p, slots := slots c @ ?ss\<rparr>, h2)"
      using fresh(1,2) h2(1) len slots by (simp add: growTo_def shittyRealloc_def)
    moreover have "length (slots c @ ?ss) = unat n" using len slots by simp
    ultimately show ?thesis using that(2) fresh(2,3) h2(2) by blast
  qed
qed

text \<open>
  A push on a full array: when the allocation fails the element is stored past the end of the
  block, which is a fault; otherwise the array moves to a block of twice the capacity.
\<close>

lemma push_full:
  assumes ok: "ok L h" and c: "arr_shape c" "arr_owned L c" and full: "len c = capacity c"
    and n: "2 * (unat (capacity c) * unat (elementSize c)) < 2 ^ 62"
  shows "Array_push M (Some c) (Some e) h = None \<and>
      (\<exists>h'. mm_malloc M (2 * capacity c * elementSize c) h = Some (NULL, h')) \<or>
    (\<exists>c' h' L'. Array_push M (Some c) (Some e) h = Some (sint (len c), Some c', h') \<and>
       arr_shape c' \<and> elems c' = elems c @ [e] \<and> capacity c' = 2 * capacity c \<and>
       unat (len c') = Suc (unat (len c)) \<and>
       ok L' h' \<and> arr_owned L' c' \<and> L' = (L(array c' \<mapsto> capacity c' * elementSize c', array c := None)) \<and>
       array c' \<notin> dom L \<and> self c' = self c \<and> elementSize c' = elementSize c \<and>
       freeEleFn c' = freeEleFn c)"
proof -
  let ?n = "2 * capacity c"
  have cap: "0 < unat (capacity c)" "0 < unat (elementSize c)" using c(1) by (auto simp: arr_shape_def)
  have "unat (capacity c) \<le> unat (capacity c) * unat (elementSize c)" using cap by simp
  then have lt: "2 * unat (capacity c) < 2 ^ 62" using n by linarith
  then have dbl: "unat ?n = 2 * unat (capacity c)" using unat_plus [of "capacity c" "capacity c"] by simp
  have le: "capacity c \<le> ?n" by (simp add: word_le_nat_alt dbl)
  have size: "unat ?n * unat (elementSize c) < 2 ^ 62" using n by (simp add: dbl)
  from growTo_cases [OF ok c le size] show ?thesis
  proof cases
    case (1 h')
    then have "Array_push M (Some c) (Some e) h = None"
      using c(1) \<open>len c = capacity c\<close>
      by (simp add: Array_push_def growBy_def copyEleAt_def copynEleAt_def arr_shape_def)
    with 1 show ?thesis by blast
  next
    case moved: (2 p h' ss)
    let ?c = "c\<lparr>capacity := ?n, array := p, slots := slots c @ ss\<rparr>"
    have shape: "arr_shape ?c"
      using c(1) moved(2) dbl size cap by (auto simp: arr_shape_def nth_append)
    have room: "len ?c < capacity ?c"
      using dbl cap full by (simp add: word_less_nat_alt)
    obtain c' where c': "Array_push M (Some ?c) (Some e) h' = Some (sint (len c), Some c', h')"
      "arr_shape c'" "elems c' = elems ?c @ [e]" "unat (len c') = Suc (unat (len c))"
      "capacity c' = ?n" "array c' = p"
      "self c' = self c" "elementSize c' = elementSize c" "freeEleFn c' = freeEleFn c"
      using push_room [OF shape room, of M e h'] by auto
    have "Array_push M (Some c) (Some e) h = Array_push M (Some ?c) (Some e) h'"
      using full room moved(1) not_le [of "capacity ?c" "len ?c"]
      by (simp add: Array_push_def growBy_def)
    moreover have "elems ?c = elems c"
      using c(1) by (simp add: elems_def arr_shape_def)
    moreover have "arr_owned (L(p \<mapsto> ?n * elementSize c, array c := None)) c'"
      using c(2) c' moved(3,4) by (auto simp: arr_owned_def)
    ultimately show ?thesis
      using c' moved
      by (intro disjI2 exI [of _ c'] exI [of _ h']
          exI [of _ "L(p \<mapsto> ?n * elementSize c, array c := None)"]) auto
  qed
qed

end

end
