(* ===== verification/ArrayProps.thy ===== *)
theory ArrayProps
  imports KArray FreeHeap
begin

text \<open>
  What the kernel's growable arrays promise over the free-list memory manager: an array stands
  for the list \<open>elems\<close>, and its operations are those of the list.
\<close>

interpretation kernel_arrays: array_heap freelist_mm freelist_ok ..

text \<open>
  C16: \<open>Array_push\<close> appends the element to the list and returns its index. A full array moves
  to a new block of twice the capacity, the only one allocated for it afterwards. When that
  allocation fails, the ignored result of \<open>growBy\<close> makes the push write past the block.
\<close>

theorem push_appends:
  assumes "freelist_ok L h" "arr_shape c" "arr_owned L c"
    and "2 * (unat (capacity c) * unat (elementSize c)) < 2 ^ 62"
  shows "(\<exists>c' h' L'. Array_push freelist_mm (Some c) (Some e) h = Some (sint (len c), Some c', h') \<and>
      freelist_ok L' h' \<and> arr_shape c' \<and> arr_owned L' c' \<and> elems c' = elems c @ [e] \<and>
      capacity c' = (if len c < capacity c then capacity c else 2 * capacity c) \<and>
      dom L' - {array c'} = dom L - {array c}) \<or>
    len c = capacity c \<and> Array_push freelist_mm (Some c) (Some e) h = None \<and>
      (\<exists>h'. mm_malloc freelist_mm (2 * capacity c * elementSize c) h = Some (NULL, h'))"
proof (cases "len c < capacity c")
  case True
  from push_room [OF assms(2) True, of freelist_mm e h]
  obtain c' where c': "Array_push freelist_mm (Some c) (Some e) h = Some (sint (len c), Some c', h)"
    "arr_shape c'" "elems c' = elems c @ [e]" "capacity c' = capacity c" "array c' = array c"
    "self c' = self c" "elementSize c' = elementSize c" by blast
  moreover have "arr_owned L c'" using assms(3) c'(4-7) by (simp add: arr_owned_def)
  ultimately show ?thesis
    using assms(1) True by (intro disjI1 exI [of _ c'] exI [of _ h] exI [of _ L]) simp
next
  case False
  then have full: "len c = capacity c"
    using assms(2) by (simp add: arr_shape_def word_le_nat_alt word_less_nat_alt word_unat_eq_iff)
  from kernel_arrays.push_full [OF assms(1-3) full assms(4), of e] show ?thesis
  proof (elim disjE exE conjE)
    fix c' h' L' assume r: "Array_push freelist_mm (Some c) (Some e) h = Some (sint (len c), Some c', h')"
      "arr_shape c'" "elems c' = elems c @ [e]" "capacity c' = 2 * capacity c"
      "freelist_ok L' h'" "arr_owned L' c'"
      "L' = L(array c' \<mapsto> capacity c' * elementSize c', array c := None)" "array c' \<notin> dom L"
    have "array c \<in> dom L" using assms(3) by (auto simp: arr_owned_def)
    then have "dom L' - {array c'} = dom L - {array c}" using r(7,8) by auto
    with r False show ?thesis
      by (intro disjI1 exI [of _ c'] exI [of _ h'] exI [of _ L']) simp
  qed (use full in blast)
qed

text \<open>An array of capacity 2, full, in a heap with its two blocks.\<close>

definition demo_array :: "(u64, heap) ArrayCDT" where
  "demo_array = \<lparr>self = 4112, array = 4168, elementSize = 8, capacity = 2, len = 2,
     freeEleFn = None, slots = [Some 5, Some 6]\<rparr>"

lemma demo_array_heap: "\<exists>h. freelist_ok [4168 \<mapsto> 16, 4112 \<mapsto> 40] h"
proof -
  have "afits [40, 16] [(4096, 4080)] [] = Some ([(4184, 3992)], [(4152, 32), (4096, 56)])"
    by (simp add: block_size_for_def)
  from afits_rel [OF demo_rel _ this] obtain h where
    h: "heap_rel 4096 [(4184, 3992)] [(4152, 32), (4096, 56)] h" by auto
  have "list_all2 payload [(4168, 16), (4112, 40)] [(4152, 32), (4096, 56)]"
    by (simp add: payload_def)
  with h have "held 4096 (h, [(4168, 16), (4112, 40)])" by (auto simp: held_def)
  moreover have "[4168 \<mapsto> 16, 4112 \<mapsto> 40] = map_of [(4168 :: addr, 16 :: u64), (4112, 40)]" by auto
  ultimately show ?thesis unfolding freelist_ok_def by blast
qed

lemma demo_array_ok: "arr_shape demo_array" "arr_owned [4168 \<mapsto> 16, 4112 \<mapsto> 40] demo_array"
  "elems demo_array = [5, 6]"
proof -
  have "[Some 5, Some (6 :: u64)] ! k \<noteq> None" if "k < 2" for k
    using that by (cases k) auto
  then show "arr_shape demo_array" by (simp add: demo_array_def arr_shape_def)
qed (simp_all add: demo_array_def arr_owned_def elems_def sizeof_ArrayCDT_def)

theorem push_appends_witness:
  "\<exists>h. Array_push freelist_mm (Some demo_array) (Some 7) h = None \<or>
     (\<exists>c h'. Array_push freelist_mm (Some demo_array) (Some 7) h = Some (2, Some c, h') \<and>
        elems c = [5, 6, 7] \<and> capacity c = 4)"
proof -
  obtain h where h: "freelist_ok [4168 \<mapsto> 16, 4112 \<mapsto> 40] h" using demo_array_heap by blast
  show ?thesis
    using push_appends [OF h demo_array_ok(1,2), of 7] demo_array_ok(3)
    by (intro exI [of _ h]) (auto simp: demo_array_def)
qed

text \<open>
  \<open>Array_popGetEle\<close> returns false and leaves an empty array alone; otherwise it returns the
  last element and removes it: it undoes a push.
\<close>

theorem pop_takes_last:
  assumes "arr_shape c"
  shows "Array_popGetEle (Some c) =
      (if elems c = [] then Some (False, None, Some c)
       else Some (True, Some (last (elems c)), Some (c\<lparr>len := len c - 1\<rparr>))) \<and>
    arr_shape (if elems c = [] then c else c\<lparr>len := len c - 1\<rparr>) \<and>
    elems (if elems c = [] then c else c\<lparr>len := len c - 1\<rparr>) = butlast (elems c)"
  using assms pop_eq [OF assms] pop_empty [OF _ assms] by simp

theorem pop_takes_last_witness:
  "Array_popGetEle (Some demo_array) = Some (True, Some 6, Some (demo_array\<lparr>len := 1\<rparr>)) \<and>
     elems (demo_array\<lparr>len := 1\<rparr>) = [5]"
  using pop_takes_last [OF demo_array_ok(1)] demo_array_ok(3) by (simp add: demo_array_def)

text \<open>
  \<open>Array_set\<close> replaces the element at an index between \<open>- len\<close> and \<open>len - 1\<close>, a negative one
  counting from the end, after its destructor ran, and \<open>Array_get\<close> then finds the new element at
  the index; any other index returns false and changes nothing.
\<close>

theorem set_replaces:
  assumes "arr_shape c" "freeEleFn c = None"
  shows "if - int (length (elems c)) \<le> idx \<and> idx < int (length (elems c))
    then \<exists>c'. Array_set M (Some c) idx e h = Some (True, Some c', h) \<and> arr_shape c' \<and>
      elems c' = (elems c)[nat (idx mod int (length (elems c))) := e] \<and>
      do { k \<leftarrow> Array_get (Some c') idx; slot c' k } = Some e
    else Array_set M (Some c) idx e h = Some (False, Some c, h)"
proof -
  obtain n where un: "unat (len c) = n" and u: "uint (len c) = int n" using uint_nat by blast
  have len: "length (elems c) = n" using length_elems [OF assms(1)] un by simp
  show ?thesis
  proof (cases "- int n \<le> idx \<and> idx < int n")
    case True
    define i where "i = nat (idx mod int n)"
    have md: "idx mod int n = (if idx < 0 then idx + int n else idx)"
    proof (cases "idx < 0")
      case True
      then have "(idx + int n) mod int n = idx + int n" using \<open>- int n \<le> idx \<and> idx < int n\<close>
        by (intro mod_pos_pos_trivial) auto
      moreover have "(idx + int n) mod int n = idx mod int n" by simp
      ultimately show ?thesis using True by presburger
    qed (use True in simp)
    have i: "int i = (if idx < 0 then idx + int n else idx)" "i < n"
      using md True by (auto simp: i_def)
    have free: "free_range c (int i) 1 h = Some h" using assms(2) by (simp add: free_range_def)
    have ie: "i < length (elems c)" using i(2) len by simp
    have idx: "idx = int i \<or> idx = int i - int (length (elems c))" using i(1) len by (auto split: if_splits)
    note S = set_eq(1) [OF assms(1) ie idx free, where M = M and e = e]
      set_eq(2,3) [OF assms(1) ie idx free, where e = e]
    let ?c = "c\<lparr>slots := (slots c)[i := Some e]\<rparr>"
    have "Array_get (Some ?c) idx = Some i" using True u i by (auto simp: Array_get_eq)
    moreover have "slot ?c i = Some e"
      using assms(1) i(2) un by (simp add: slot_def arr_shape_def)
    ultimately show ?thesis using S True len i_def by auto
  next
    case False
    then show ?thesis using set_out [of c idx] u len by simp
  qed
qed

theorem set_replaces_witness:
  "(\<exists>c. Array_set freelist_mm (Some demo_array) (- 2) 9 demo_heap = Some (True, Some c, demo_heap) \<and>
      elems c = [9, 6]) \<and>
   Array_set freelist_mm (Some demo_array) 2 9 demo_heap = Some (False, Some demo_array, demo_heap)"
proof -
  have f: "freeEleFn demo_array = None" by (simp add: demo_array_def)
  show ?thesis
    using set_replaces [OF demo_array_ok(1) f, of "- 2" freelist_mm 9 demo_heap]
      set_replaces [OF demo_array_ok(1) f, of 2 freelist_mm 9 demo_heap] demo_array_ok(3)
    by auto
qed

end
