(* ===== verification/Scheduler.thy ===== *)
theory Scheduler
  imports Allocator KUtils
begin

text \<open>
  The scheduler and the process table (\<open>Kernel/c/scheduler.c\<close>, with \<open>stackAlloc\<close> of
  \<open>Kernel/c/memory.c\<close> and the initial stack frame of \<open>Kernel/asm/processes.asm\<close>).

  The kernel objects are stores from addresses to records: \<open>pcbs\<close> the \<open>PCB\<close>s and \<open>nodes\<close> the
  \<open>PCBNode\<close>s of the circular list. Following a pointer to an object that is not there (\<open>NULL\<close>,
  or freed) is the fault \<open>None\<close>. The only exception is the \<open>NULL\<close> that \<open>pcbList.current\<close>
  holds while the first processes are created: address 0 is mapped, and the word read there
  is the field \<open>lowWord\<close>.

  A kernel function runs on behalf of the current process. When it reaches
  \<open>contextSwitch()\<close> and another process (or the idle one) is chosen, the rest of the function
  runs only when its process is scheduled again: the result \<open>Away\<close>.
\<close>

unbundle bit_operations_syntax

datatype State = READY | RUNNING | BLOCKED | EXITED | WAITING_FOR_EXIT | BLOCKED_BY_USER

record ProcessPipes =
  pipeWrite :: int
  pipeRead :: int
  pipeErr :: int

record PCB =
  pid :: u32
  priority :: u8
  state :: State
  rsp :: addr
  rbp :: addr
  pname :: addr
  waitedProcessExitCode :: int
  waitingForMe :: "addr list"  \<comment> \<open>the array, of 10 entries\<close>
  parentProc :: addr
  wfmLen :: nat
  stack :: addr
  pipes :: ProcessPipes
  heap :: addr
  heapFreed :: bool
  freeListStart :: addr
  freeListEnd :: addr
  bytesAvailable :: u64

record PCBNode =
  pcb :: addr
  nextNode :: addr

record 'h kernel =
  pcbs :: "addr \<rightharpoonup> PCB"
  nodes :: "addr \<rightharpoonup> PCBNode"
  head :: addr
  tail :: addr
  current :: addr
  prev :: addr
  pcbLen :: int
  idleProcPCBNode :: addr
  processInForeground :: addr
  quantumsLeft :: int
  nextPid :: u32
  stacks :: "addr \<rightharpoonup> byte list"
  kheap :: 'h
  lowWord :: addr

datatype 'r run = Done 'r | Away

definition IDLE_PID :: u32 where "IDLE_PID = - 1"
definition KILL_EXIT_CODE :: int where "KILL_EXIT_CODE = 1"
definition MAX_NAME_LENGTH :: nat where "MAX_NAME_LENGTH = 60"
definition PIPE_STDOUT :: int where "PIPE_STDOUT = 0"
definition PIPE_STDIN :: int where "PIPE_STDIN = 1"
definition PIPE_STDERR :: int where "PIPE_STDERR = 2"

definition sizeof_PCBNode :: u64 where "sizeof_PCBNode = 16"
definition sizeof_PCB :: u64 where "sizeof_PCB = 208"

section \<open>Access to the stores\<close>

definition upd_pcb :: "addr \<Rightarrow> (PCB \<Rightarrow> PCB) \<Rightarrow> 'h kernel \<Rightarrow> 'h kernel option" where
  "upd_pcb p f s = do { c \<leftarrow> pcbs s p; Some (s\<lparr>pcbs := (pcbs s)(p \<mapsto> f c)\<rparr>) }"

definition upd_node :: "addr \<Rightarrow> (PCBNode \<Rightarrow> PCBNode) \<Rightarrow> 'h kernel \<Rightarrow> 'h kernel option" where
  "upd_node n f s = do { x \<leftarrow> nodes s n; Some (s\<lparr>nodes := (nodes s)(n \<mapsto> f x)\<rparr>) }"

text \<open>\<open>pcbList.current->pcb\<close>, and its record.\<close>

definition currentPCB :: "'h kernel \<Rightarrow> addr option" where
  "currentPCB s = map_option pcb (nodes s (current s))"

definition currentRec :: "'h kernel \<Rightarrow> PCB option" where
  "currentRec s = do { p \<leftarrow> currentPCB s; pcbs s p }"

definition kfree :: "'h mm \<Rightarrow> addr \<Rightarrow> 'h kernel \<Rightarrow> 'h kernel option" where
  "kfree M p s = do {
     h \<leftarrow> mm_free M p (kheap s);
     Some (s\<lparr>kheap := h, pcbs := (pcbs s)(p := None), nodes := (nodes s)(p := None),
            stacks := (stacks s)(p := None)\<rparr>)
   }"

definition kmalloc :: "'h mm \<Rightarrow> u64 \<Rightarrow> 'h kernel \<Rightarrow> (addr \<times> 'h kernel) option" where
  "kmalloc M n s = do { (p, h) \<leftarrow> mm_malloc M n (kheap s); Some (p, s\<lparr>kheap := h\<rparr>) }"

section \<open>The list of processes\<close>

definition createPCBNode ::
  "'h mm \<Rightarrow> u32 \<Rightarrow> u8 \<Rightarrow> State \<Rightarrow> addr \<Rightarrow> addr \<Rightarrow> addr \<Rightarrow> addr \<Rightarrow> ProcessPipes \<Rightarrow>
   'h kernel \<Rightarrow> (addr \<times> 'h kernel) option" where
  "createPCBNode M pid0 prio st stack0 rsp0 rbp0 name0 pipes0 s = do {
     (node, s1) \<leftarrow> kmalloc M sizeof_PCBNode s;
     if node = NULL then Some (NULL, s1)
     else do {
       (p, s2) \<leftarrow> kmalloc M sizeof_PCB s1;
       if p = NULL then do { s3 \<leftarrow> kfree M node s2; Some (NULL, s3) }
       else do {
         parent \<leftarrow> (if current s2 = NULL then Some (lowWord s2) else currentPCB s2);
         let c = \<lparr>pid = pid0, priority = prio, state = st, rsp = rsp0, rbp = rbp0, pname = name0,
                  waitedProcessExitCode = 0, waitingForMe = replicate 10 NULL, parentProc = parent,
                  wfmLen = 0, stack = stack0, pipes = pipes0, heap = NULL, heapFreed = False,
                  freeListStart = NULL, freeListEnd = NULL, bytesAvailable = 0\<rparr>;
         if pid0 = IDLE_PID
         then Some (node, s2\<lparr>pcbs := (pcbs s2)(p \<mapsto> c),
                              nodes := (nodes s2)(node \<mapsto> \<lparr>pcb = p, nextNode = NULL\<rparr>)\<rparr>)
         else do {
           (hp, s3) \<leftarrow> kmalloc M (ucast PROCESS_HEAP_SIZE) s2;
           if hp = NULL
           then do { s4 \<leftarrow> kfree M node s3; s5 \<leftarrow> kfree M p s4; Some (NULL, s5) }
           else do {
             (fl, s4) \<leftarrow> kmalloc M sizeof_Block s3;
             if fl = NULL
             then do {
               s5 \<leftarrow> kfree M node s4;
               s6 \<leftarrow> kfree M p s5;
               c1 \<leftarrow> pcbs s6 p;  \<comment> \<open>\<open>pcb->heap\<close> is read after \<open>globalFree(pcb)\<close>\<close>
               s7 \<leftarrow> kfree M (heap c1) s6;
               Some (NULL, s7)
             }
             else do {
               let (fe, n, h) = mm_init M hp fl (kheap s4);
               let c1 = c\<lparr>heap := hp, freeListStart := fl, freeListEnd := fe, bytesAvailable := n\<rparr>;
               Some (node, s4\<lparr>kheap := h, pcbs := (pcbs s4)(p \<mapsto> c1),
                              nodes := (nodes s4)(node \<mapsto> \<lparr>pcb = p, nextNode = NULL\<rparr>)\<rparr>)
             }
           }
         }
       }
     }
   }"

definition addPCB ::
  "'h mm \<Rightarrow> u32 \<Rightarrow> addr \<Rightarrow> addr \<Rightarrow> addr \<Rightarrow> addr \<Rightarrow> ProcessPipes \<Rightarrow> 'h kernel \<Rightarrow> (bool \<times> 'h kernel) option"
where
  "addPCB M pid0 stack0 rsp0 rbp0 name0 pipes0 s = do {
     (node, s1) \<leftarrow> createPCBNode M pid0 1 READY stack0 rsp0 rbp0 name0 pipes0 s;
     if node = NULL then Some (False, s1)
     else do {
       s2 \<leftarrow> (if head s1 = NULL
             then do {
               let s' = s1\<lparr>head := node\<rparr>;
               s'' \<leftarrow> upd_node (head s') (\<lambda>x. x\<lparr>nextNode := node\<rparr>) s';
               Some (s''\<lparr>tail := node\<rparr>)
             }
             else do {
               let s' = (if prev s1 = tail s1 then s1\<lparr>prev := node\<rparr> else s1);
               s'' \<leftarrow> upd_node node (\<lambda>x. x\<lparr>nextNode := head s'\<rparr>) s';
               s''' \<leftarrow> upd_node (tail s'') (\<lambda>x. x\<lparr>nextNode := node\<rparr>) s'';
               Some (s'''\<lparr>tail := node\<rparr>)
             });
       Some (True, s2\<lparr>pcbLen := pcbLen s2 + 1\<rparr>)
     }
   }"

definition freeCurrentProcess :: "'h mm \<Rightarrow> 'h kernel \<Rightarrow> 'h kernel option" where
  "freeCurrentProcess M s =
     (if current s = NULL \<or> head s = NULL then Some s
      else if head s = tail s then Some s
      else do {
        let toRemove = current s;
        node \<leftarrow> nodes s toRemove;
        let s1 = s\<lparr>current := nextNode node\<rparr>;
        s2 \<leftarrow> upd_node (prev s1) (\<lambda>x. x\<lparr>nextNode := current s1\<rparr>) s1;
        let s3 = (if head s2 = toRemove then s2\<lparr>head := current s2\<rparr>
                  else if tail s2 = toRemove then s2\<lparr>tail := prev s2\<rparr> else s2);
        node' \<leftarrow> nodes s3 toRemove;
        c \<leftarrow> pcbs s3 (pcb node');
        s4 \<leftarrow> (if \<not> heapFreed c then kfree M (heap c) s3 else Some s3);
        s5 \<leftarrow> kfree M (freeListStart c) s4;
        s6 \<leftarrow> kfree M (stack c) s5;
        s7 \<leftarrow> kfree M (pcb node') s6;
        s8 \<leftarrow> kfree M toRemove s7;
        Some (s8\<lparr>pcbLen := pcbLen s8 - 1\<rparr>)
      })"

definition nextPCB :: "'h kernel \<Rightarrow> 'h kernel option" where
  "nextPCB s =
     (if head s = NULL then Some s
      else if current s = NULL then Some (s\<lparr>current := head s, prev := tail s\<rparr>)
      else if current s = idleProcPCBNode s
      then do { x \<leftarrow> nodes s (prev s); Some (s\<lparr>current := nextNode x\<rparr>) }
      else do {
        let s1 = s\<lparr>prev := current s\<rparr>;
        x \<leftarrow> nodes s1 (current s1);
        Some (s1\<lparr>current := nextNode x\<rparr>)
      })"

section \<open>Choosing the next process\<close>

text \<open>The \<open>while (true)\<close> loop of \<open>schedule\<close>.\<close>

partial_function (option) schedLoop ::
  "'h mm \<Rightarrow> addr \<Rightarrow> 'h kernel \<Rightarrow> (addr \<times> 'h kernel) option" where
  "schedLoop M ogCurrent s = do {
     p \<leftarrow> currentPCB s;
     c \<leftarrow> pcbs s p;
     if state c = READY
     then Some (rsp c, s\<lparr>pcbs := (pcbs s)(p \<mapsto> c\<lparr>state := RUNNING\<rparr>),
                         quantumsLeft := uint (priority c) - 1\<rparr>)
     else if current s = ogCurrent
     then do {
       let s1 = s\<lparr>current := idleProcPCBNode s\<rparr>;
       ic \<leftarrow> currentRec s1;
       Some (rsp ic, s1)
     }
     else if state c = EXITED then do { s1 \<leftarrow> freeCurrentProcess M s; schedLoop M ogCurrent s1 }
     else do { s1 \<leftarrow> nextPCB s; schedLoop M ogCurrent s1 }
   }"

declare schedLoop.simps [code]

text \<open>\<open>rbp0\<close> is the word \<open>*(void**)(rsp + 8 * 8)\<close> of the interrupted process' stack.\<close>

definition schedule :: "'h mm \<Rightarrow> addr \<Rightarrow> addr \<Rightarrow> 'h kernel \<Rightarrow> (addr \<times> 'h kernel) option" where
  "schedule M rsp0 rbp0 s = do {
     p \<leftarrow> currentPCB s;
     s1 \<leftarrow> upd_pcb p (\<lambda>c. c\<lparr>rsp := rsp0, rbp := rbp0\<rparr>) s;
     c \<leftarrow> pcbs s1 p;
     if quantumsLeft s1 > 0 \<and> state c = RUNNING
     then Some (rsp0, s1\<lparr>quantumsLeft := quantumsLeft s1 - 1\<rparr>)
     else do {
       s2 \<leftarrow> (if state c = RUNNING then upd_pcb p (\<lambda>c. c\<lparr>state := READY\<rparr>) s1 else Some s1);
       s3 \<leftarrow> (if current s2 = idleProcPCBNode s2 then nextPCB s2 else Some s2);
       let ogCurrent = current s3;
       s4 \<leftarrow> nextPCB s3;
       schedLoop M ogCurrent s4
     }
   }"

text \<open>
  \<open>contextSwitch()\<close>: \<open>int 0x22\<close> saves the registers and continues with the process that
  \<open>schedule\<close> chose. \<open>ctx\<close> is the stack pointer after that and the saved \<open>rbp\<close>.
\<close>

definition contextSwitch :: "'h mm \<Rightarrow> addr \<times> addr \<Rightarrow> 'h kernel \<Rightarrow> (unit run \<times> 'h kernel) option" where
  "contextSwitch M ctx s = do {
     (_, s') \<leftarrow> schedule M (fst ctx) (snd ctx) s;
     Some (if current s' = current s then Done () else Away, s')
   }"

section \<open>Creating processes\<close>

definition stackSize :: u64 where "stackSize = push_bit 10 1 * 4"

text \<open>\<open>stackAlloc\<close>; the result of \<open>globalMalloc\<close> is not checked.\<close>

definition stackAlloc :: "'h mm \<Rightarrow> 'h kernel \<Rightarrow> (addr \<times> addr \<times> 'h kernel) option" where
  "stackAlloc M s = do {
     (stackEnd, s1) \<leftarrow> kmalloc M stackSize s;
     let stackStart = stackEnd + stackSize - 1;
     let stackStart = (stackStart - 8) AND NOT (8 - 1);
     Some (stackStart, stackEnd,
       if stackEnd = NULL then s1
       else s1\<lparr>stacks := (stacks s1)(stackEnd \<mapsto> replicate (unat stackSize) 0)\<rparr>)
   }"

text \<open>
  \<open>initializeProcessStack\<close>: the twenty words below \<open>stackStart\<close>, from the new stack pointer
  upwards: \<open>r15\<close> to \<open>r8\<close>, \<open>rbp\<close>, \<open>rdi\<close>, \<open>rsi\<close>, \<open>rdx\<close>, \<open>rcx\<close>, \<open>rbx\<close>, \<open>rax\<close>, then the interrupt
  frame \<open>rip\<close>, \<open>cs\<close>, \<open>rflags\<close>, \<open>rsp\<close>, \<open>ss\<close>.
\<close>

definition initialFrame :: "u64 \<Rightarrow> addr \<Rightarrow> addr \<Rightarrow> addr \<Rightarrow> u64 list" where
  "initialFrame argc argv processRip stackStart =
     replicate 8 0 @ [stackStart, argc, argv, 0, 0, 0, 0] @
     [processRip, 0x8, 0x202, stackStart, 0]"

definition le64 :: "u64 \<Rightarrow> byte list" where
  "le64 v = map (\<lambda>i. ucast (drop_bit (8 * i) v)) [0..<8]"

definition write_at :: "nat \<Rightarrow> byte list \<Rightarrow> byte list \<Rightarrow> byte list option" where
  "write_at off bs buf =
     (if off + length bs \<le> length buf
      then Some (take off buf @ bs @ drop (off + length bs) buf) else None)"

definition initializeProcessStack ::
  "u64 \<Rightarrow> addr \<Rightarrow> addr \<Rightarrow> addr \<Rightarrow> addr \<Rightarrow> byte list \<Rightarrow> (addr \<times> byte list) option" where
  "initializeProcessStack argc argv processRip stackStart stackEnd buf = do {
     let rsp0 = stackStart - 20 * 8;
     buf' \<leftarrow> write_at (unat (rsp0 - stackEnd))
       (concat (map le64 (initialFrame argc argv processRip stackStart))) buf;
     Some (rsp0, buf')
   }"

text \<open>
  The loop of \<open>createProcess\<close> that copies the arguments into the stack: \<open>i\<close> the index and
  \<open>arg\<close> the offset of the next string from the end of the stack.
\<close>

fun copyArgs :: "addr \<Rightarrow> nat \<Rightarrow> nat \<Rightarrow> byte list list \<Rightarrow> byte list \<Rightarrow> byte list option" where
  "copyArgs stackEnd i arg [] buf = Some buf"
| "copyArgs stackEnd i arg (a # argv) buf = do {
     buf1 \<leftarrow> write_at (8 * i) (le64 (stackEnd + word_of_nat arg)) buf;
     (dst, j) \<leftarrow> strncpy (drop arg buf1) a (int MAX_NAME_LENGTH);
     copyArgs stackEnd (Suc i) (arg + nat j + 1) argv (take arg buf1 @ dst)
   }"

text \<open>\<open>argvStack[0]\<close> is the first word of the stack block.\<close>

definition read_le64 :: "byte list \<Rightarrow> u64" where
  "read_le64 bs = (\<Sum>i<8. push_bit (8 * i) (ucast (bs ! i)))"

definition createProcess ::
  "'h mm \<Rightarrow> byte list list \<Rightarrow> addr \<Rightarrow> ProcessPipes \<Rightarrow> 'h kernel \<Rightarrow> (addr \<times> 'h kernel) option" where
  "createProcess M argv processRip pipes0 s = do {
     (stackStart, stackEnd, s1) \<leftarrow> stackAlloc M s;
     buf \<leftarrow> stacks s1 stackEnd;
     buf1 \<leftarrow> copyArgs stackEnd 0 (length argv * 8) argv buf;
     (rsp0, buf2) \<leftarrow>
       initializeProcessStack (word_of_nat (length argv)) stackEnd processRip stackStart stackEnd buf1;
     let s2 = s1\<lparr>stacks := (stacks s1)(stackEnd \<mapsto> buf2), nextPid := nextPid s1 + 1\<rparr>;
     (ok, s3) \<leftarrow> addPCB M (nextPid s1) stackEnd rsp0 stackStart (read_le64 buf2) pipes0 s2;
     if \<not> ok then Some (NULL, s3) else Some (rsp0, s3)
   }"

definition stdPipes :: ProcessPipes where
  "stdPipes = \<lparr>pipeWrite = PIPE_STDOUT, pipeRead = PIPE_STDIN, pipeErr = PIPE_STDERR\<rparr>"

definition initializePCBList :: "'h mm \<Rightarrow> addr \<Rightarrow> 'h kernel \<Rightarrow> 'h kernel option" where
  "initializePCBList M idleProc s = do {
     (stackStart, stackEnd, s1) \<leftarrow> stackAlloc M s;
     buf \<leftarrow> stacks s1 stackEnd;
     (rsp0, buf1) \<leftarrow> initializeProcessStack 0 NULL idleProc stackStart stackEnd buf;
     (node, s2) \<leftarrow> createPCBNode M IDLE_PID 1 READY stackEnd rsp0 rsp0 NULL stdPipes
       (s1\<lparr>stacks := (stacks s1)(stackEnd \<mapsto> buf1)\<rparr>);
     Some (s2\<lparr>idleProcPCBNode := node, head := NULL, tail := NULL, current := NULL, prev := NULL,
             pcbLen := 0\<rparr>)
   }"

text \<open>
  The first process, named \<open>init\<close>: \<open>createUserModuleProcess\<close> up to the start of the speaker's process,
  which is in theory \<open>Machine\<close>.
\<close>

definition createInit :: "'h mm \<Rightarrow> addr \<Rightarrow> 'h kernel \<Rightarrow> (addr \<times> 'h kernel) option" where
  "createInit M userModule s = do {
     (rsp0, s1) \<leftarrow> createProcess M [[105, 110, 105, 116, 0]] userModule stdPipes s;
     if rsp0 = NULL then Some (NULL, s1)
     else do {
       s2 \<leftarrow> nextPCB s1;
       p \<leftarrow> currentPCB s2;
       s3 \<leftarrow> upd_pcb p (\<lambda>c. c\<lparr>parentProc := NULL\<rparr>) (s2\<lparr>processInForeground := p\<rparr>);
       Some (rsp0, s3)
     }
   }"

definition createUserProcessWithPipeSwap ::
  "'h mm \<Rightarrow> byte list list \<Rightarrow> addr \<Rightarrow> ProcessPipes \<Rightarrow> 'h kernel \<Rightarrow> (int \<times> 'h kernel) option" where
  "createUserProcessWithPipeSwap M argv processRip pipes0 s = do {
     (r, s1) \<leftarrow> createProcess M argv processRip pipes0 s;
     Some (if r = NULL then - 1 else sint (nextPid s1 - 1), s1)
   }"

definition createUserProcess ::
  "'h mm \<Rightarrow> byte list list \<Rightarrow> addr \<Rightarrow> 'h kernel \<Rightarrow> (int \<times> 'h kernel) option" where
  "createUserProcess M argv processRip s = createUserProcessWithPipeSwap M argv processRip stdPipes s"

section \<open>Ending processes\<close>

text \<open>
  \<open>exitProcessByPCB\<close> and its loop over \<open>waitingForMe\<close>, which calls it again for a waiting
  process that was killed in the meantime.
\<close>

datatype exitCall = ExitProcess addr int | NotifyWaiters addr int nat

partial_function (option) exitGo ::
  "'h mm \<Rightarrow> addr \<times> addr \<Rightarrow> exitCall \<Rightarrow> 'h kernel \<Rightarrow> (unit run \<times> 'h kernel) option" where
  "exitGo M ctx call s =
     (case call of
        ExitProcess p exitCode \<Rightarrow> do {
          c \<leftarrow> pcbs s p;
          if state c = EXITED then Some (Done (), s)
          else if state c = BLOCKED
          then do {
            s1 \<leftarrow> upd_pcb p (\<lambda>c. c\<lparr>state := WAITING_FOR_EXIT\<rparr>) s;
            s2 \<leftarrow> kfree M (heap c) s1;
            s3 \<leftarrow> upd_pcb p (\<lambda>c. c\<lparr>heapFreed := True\<rparr>) s2;
            cur \<leftarrow> currentRec s3;
            if pid c = pid cur then contextSwitch M ctx s3 else Some (Done (), s3)
          }
          else do {
            s1 \<leftarrow> upd_pcb p (\<lambda>c. c\<lparr>state := EXITED\<rparr>) s;
            fg \<leftarrow> pcbs s1 (processInForeground s1);
            let s2 = (if pid c = pid fg then s1\<lparr>processInForeground := parentProc c\<rparr> else s1);
            exitGo M ctx (NotifyWaiters p exitCode 0) s2
          }
        }
      | NotifyWaiters p exitCode i \<Rightarrow> do {
          c \<leftarrow> pcbs s p;
          if i < wfmLen c
          then if length (waitingForMe c) \<le> i then None
          else do {
            let p2 = waitingForMe c ! i;
            c2 \<leftarrow> pcbs s p2;
            if state c2 = BLOCKED
            then do {
              s1 \<leftarrow> upd_pcb p2 (\<lambda>c. c\<lparr>state := READY, waitedProcessExitCode := exitCode\<rparr>) s;
              exitGo M ctx (NotifyWaiters p exitCode (Suc i)) s1
            }
            else if state c2 = WAITING_FOR_EXIT
            then do {
              (r, s1) \<leftarrow> exitGo M ctx (ExitProcess p2 KILL_EXIT_CODE) s;
              if r = Away then Some (Away, s1)
              else exitGo M ctx (NotifyWaiters p exitCode (Suc i)) s1
            }
            else exitGo M ctx (NotifyWaiters p exitCode (Suc i)) s
          }
          else do {
            cur \<leftarrow> currentRec s;
            if pid c = pid cur then contextSwitch M ctx s else Some (Done (), s)
          }
        })"

declare exitGo.simps [code]

definition exitProcessByPCB ::
  "'h mm \<Rightarrow> addr \<times> addr \<Rightarrow> addr \<Rightarrow> int \<Rightarrow> 'h kernel \<Rightarrow> (unit run \<times> 'h kernel) option" where
  "exitProcessByPCB M ctx p exitCode s = exitGo M ctx (ExitProcess p exitCode) s"

text \<open>Sequencing: what follows a call runs only when the caller is still running.\<close>

definition then_run ::
  "('a run \<times> 's) option \<Rightarrow> ('s \<Rightarrow> ('b run \<times> 's) option) \<Rightarrow> ('b run \<times> 's) option" where
  "then_run m k = do { (r, s) \<leftarrow> m; case r of Done _ \<Rightarrow> k s | Away \<Rightarrow> Some (Away, s) }"

definition exitCurrentProcess ::
  "'h mm \<Rightarrow> addr \<times> addr \<Rightarrow> int \<Rightarrow> 'h kernel \<Rightarrow> (unit run \<times> 'h kernel) option" where
  "exitCurrentProcess M ctx exitCode s = do {
     p \<leftarrow> currentPCB s;
     then_run (exitProcessByPCB M ctx p exitCode s) (contextSwitch M ctx)
   }"

definition exitCurrentProcessInForeground ::
  "'h mm \<Rightarrow> addr \<times> addr \<Rightarrow> int \<Rightarrow> 'h kernel \<Rightarrow> (unit run \<times> 'h kernel) option" where
  "exitCurrentProcessInForeground M ctx exitCode s =
     then_run (exitProcessByPCB M ctx (processInForeground s) exitCode s) (contextSwitch M ctx)"

section \<open>Operations on processes\<close>

text \<open>The loop of \<open>getPCBByPid\<close>, which relies on the list being ordered by pid.\<close>

partial_function (option) findPid :: "u32 \<Rightarrow> addr \<Rightarrow> 'h kernel \<Rightarrow> addr option" where
  "findPid k node s = do {
     x \<leftarrow> nodes s node;
     c \<leftarrow> pcbs s (pcb x);
     if pid c = k then Some (pcb x)
     else do {
       x' \<leftarrow> nodes s (nextNode x);
       c' \<leftarrow> pcbs s (pcb x');
       if pid c' \<le> k \<and> nextNode x \<noteq> head s then findPid k (nextNode x) s else Some NULL
     }
   }"

declare findPid.simps [code]

definition getPCBByPid :: "u32 \<Rightarrow> 'h kernel \<Rightarrow> addr option" where
  "getPCBByPid k s = findPid k (head s) s"

text \<open>
  \<open>waitPid\<close>. A caller that was switched away returns, when it runs again, with the exit code
  its PCB holds then: \<open>waitPid_resumed\<close>.
\<close>

definition waitPid ::
  "'h mm \<Rightarrow> addr \<times> addr \<Rightarrow> u32 \<Rightarrow> 'h kernel \<Rightarrow> (int run \<times> 'h kernel) option" where
  "waitPid M ctx k s = do {
     cp \<leftarrow> currentPCB s;
     cur \<leftarrow> pcbs s cp;
     if k = pid cur then Some (Done (waitedProcessExitCode cur), s)
     else do {
       p \<leftarrow> getPCBByPid k s;
       exited \<leftarrow> (if p = NULL then Some True else map_option (\<lambda>c. state c = EXITED) (pcbs s p));
       if exited then Some (Done (waitedProcessExitCode cur), s)
       else do {
         c \<leftarrow> pcbs s p;
         if length (waitingForMe c) \<le> wfmLen c then None
         else do {
           s1 \<leftarrow> upd_pcb p (\<lambda>c. c\<lparr>waitingForMe := (waitingForMe c)[wfmLen c := cp],
                                    wfmLen := wfmLen c + 1\<rparr>) s;
           s2 \<leftarrow> upd_pcb cp (\<lambda>c. c\<lparr>state := BLOCKED\<rparr>) s1;
           fg \<leftarrow> pcbs s2 (processInForeground s2);
           let s3 = (if pid cur = pid fg then s2\<lparr>processInForeground := p\<rparr> else s2);
           then_run (contextSwitch M ctx s3)
             (\<lambda>s4. do { cur' \<leftarrow> currentRec s4; Some (Done (waitedProcessExitCode cur'), s4) })
         }
       }
     }
   }"

definition waitPid_resumed :: "'h kernel \<Rightarrow> int option" where
  "waitPid_resumed s = map_option waitedProcessExitCode (currentRec s)"

definition blockCurrentProcess ::
  "'h mm \<Rightarrow> addr \<times> addr \<Rightarrow> 'h kernel \<Rightarrow> (unit run \<times> 'h kernel) option" where
  "blockCurrentProcess M ctx s = do {
     p \<leftarrow> currentPCB s;
     s1 \<leftarrow> upd_pcb p (\<lambda>c. c\<lparr>state := BLOCKED\<rparr>) s;
     contextSwitch M ctx s1
   }"

definition readyProcess :: "addr \<Rightarrow> 'h kernel \<Rightarrow> 'h kernel option" where
  "readyProcess p s = upd_pcb p (\<lambda>c. c\<lparr>state := READY\<rparr>) s"

definition getpid :: "'h kernel \<Rightarrow> u32 option" where
  "getpid s = map_option pid (currentRec s)"

definition kill ::
  "'h mm \<Rightarrow> addr \<times> addr \<Rightarrow> u32 \<Rightarrow> 'h kernel \<Rightarrow> (bool run \<times> 'h kernel) option" where
  "kill M ctx k s =
     (if k = 0 then Some (Done False, s)
      else do {
        p \<leftarrow> getPCBByPid k s;
        if p = NULL then Some (Done False, s)
        else do {
          c \<leftarrow> pcbs s p;
          if state c = EXITED \<or> state c = WAITING_FOR_EXIT then Some (Done False, s)
          else then_run (exitProcessByPCB M ctx p KILL_EXIT_CODE s) (\<lambda>s1. Some (Done True, s1))
        }
      })"

definition killCurrentProcess ::
  "'h mm \<Rightarrow> addr \<times> addr \<Rightarrow> 'h kernel \<Rightarrow> (bool run \<times> 'h kernel) option" where
  "killCurrentProcess M ctx s = do { c \<leftarrow> currentRec s; kill M ctx (pid c) s }"

definition killCurrentProcessInForeground ::
  "'h mm \<Rightarrow> addr \<times> addr \<Rightarrow> 'h kernel \<Rightarrow> (unit run \<times> 'h kernel) option" where
  "killCurrentProcessInForeground M ctx s = do {
     fg \<leftarrow> pcbs s (processInForeground s);
     if pid fg = 0 then Some (Done (), s)
     else then_run (exitProcessByPCB M ctx (processInForeground s) KILL_EXIT_CODE s)
            (contextSwitch M ctx)
   }"

definition changePriority :: "u32 \<Rightarrow> u8 \<Rightarrow> 'h kernel \<Rightarrow> (bool \<times> 'h kernel) option" where
  "changePriority k newPriority s =
     (if newPriority \<le> 0 \<or> newPriority > 9 then Some (False, s)
      else do {
        p \<leftarrow> getPCBByPid k s;
        if p = NULL then Some (False, s)
        else do { s1 \<leftarrow> upd_pcb p (\<lambda>c. c\<lparr>priority := newPriority\<rparr>) s; Some (True, s1) }
      })"

definition changePipeRead :: "int \<Rightarrow> 'h kernel \<Rightarrow> 'h kernel option" where
  "changePipeRead i s = do {
     p \<leftarrow> currentPCB s;
     upd_pcb p (\<lambda>c. c\<lparr>pipes := (pipes c)\<lparr>pipeRead := i\<rparr>\<rparr>) s
   }"

definition changePipeWrite :: "int \<Rightarrow> 'h kernel \<Rightarrow> 'h kernel option" where
  "changePipeWrite i s = do {
     p \<leftarrow> currentPCB s;
     upd_pcb p (\<lambda>c. c\<lparr>pipes := (pipes c)\<lparr>pipeWrite := i\<rparr>\<rparr>) s
   }"

definition getPipes :: "'h kernel \<Rightarrow> ProcessPipes option" where
  "getPipes s = map_option pipes (currentRec s)"

definition blockByUser ::
  "'h mm \<Rightarrow> addr \<times> addr \<Rightarrow> u32 \<Rightarrow> 'h kernel \<Rightarrow> (bool run \<times> 'h kernel) option" where
  "blockByUser M ctx k s = do {
     p \<leftarrow> getPCBByPid k s;
     if p = NULL then Some (Done False, s)
     else do {
       c \<leftarrow> pcbs s p;
       if state c = READY \<or> state c = RUNNING
       then do {
         s1 \<leftarrow> upd_pcb p (\<lambda>c. c\<lparr>state := BLOCKED_BY_USER\<rparr>) s;
         cur \<leftarrow> currentRec s1;
         if pid c = pid cur
         then then_run (contextSwitch M ctx s1) (\<lambda>s2. Some (Done True, s2))
         else Some (Done True, s1)
       }
       else Some (Done False, s)
     }
   }"

definition unblock :: "u32 \<Rightarrow> 'h kernel \<Rightarrow> (bool \<times> 'h kernel) option" where
  "unblock k s = do {
     p \<leftarrow> getPCBByPid k s;
     if p = NULL then Some (False, s)
     else do {
       c \<leftarrow> pcbs s p;
       if state c = BLOCKED_BY_USER
       then do { s1 \<leftarrow> upd_pcb p (\<lambda>c. c\<lparr>state := READY\<rparr>) s; Some (True, s1) }
       else Some (False, s)
     }
   }"

definition yield ::
  "'h mm \<Rightarrow> addr \<times> addr \<Rightarrow> 'h kernel \<Rightarrow> (unit run \<times> 'h kernel) option" where
  "yield M ctx s = do {
     p \<leftarrow> currentPCB s;
     s1 \<leftarrow> upd_pcb p (\<lambda>c. c\<lparr>state := READY\<rparr>) s;
     contextSwitch M ctx s1
   }"

section \<open>The process list for user land\<close>

record PCBForUserland =
  uPid :: u32
  uPriority :: u8
  uState :: string
  uRsp :: addr
  uRbp :: addr
  uName :: "byte list"
  uLocation :: string

fun StateString :: "State \<Rightarrow> string" where
  "StateString READY = ''READY''"
| "StateString RUNNING = ''RUNNING''"
| "StateString BLOCKED = ''BLOCKED''"
| "StateString EXITED = ''EXITED''"
| "StateString WAITING_FOR_EXIT = ''W-EXIT''"
| "StateString BLOCKED_BY_USER = ''BLK_USER''"

text \<open>\<open>mem\<close> gives the bytes from an address on; the name is copied into a field of 61 bytes.\<close>

definition copyPCBToPCBForUserland ::
  "(addr \<Rightarrow> byte list) \<Rightarrow> addr \<Rightarrow> 'h kernel \<Rightarrow> PCBForUserland option" where
  "copyPCBToPCBForUserland mem p s = do {
     c \<leftarrow> pcbs s p;
     (nm, _) \<leftarrow> strcpy (replicate (Suc MAX_NAME_LENGTH) 0) (mem (pname c));
     fg \<leftarrow> pcbs s (processInForeground s);
     Some \<lparr>uPid = pid c, uPriority = priority c, uState = StateString (state c), uRsp = rsp c,
           uRbp = rbp c, uName = nm,
           uLocation = (if pid c = pid fg then ''Fg'' else ''Bg'')\<rparr>
   }"

fun copyPCBs :: "(addr \<Rightarrow> byte list) \<Rightarrow> nat \<Rightarrow> addr \<Rightarrow> 'h kernel \<Rightarrow> PCBForUserland list option" where
  "copyPCBs mem 0 node s = Some []"
| "copyPCBs mem (Suc n) node s = do {
     x \<leftarrow> nodes s node;
     u \<leftarrow> copyPCBToPCBForUserland mem (pcb x) s;
     us \<leftarrow> copyPCBs mem n (nextNode x) s;
     Some (u # us)
   }"

text \<open>
  \<open>pcbArray\<close> is the result of \<open>malloc\<close> in the heap of the current process, \<open>NULL\<close> or not; the
  result has no entries when the function returns \<open>NULL\<close>.
\<close>

definition getPCBList ::
  "(addr \<Rightarrow> byte list) \<Rightarrow> addr \<Rightarrow> 'h kernel \<Rightarrow> (int \<times> PCBForUserland list) option" where
  "getPCBList mem pcbArray s =
     (if head s = NULL \<or> pcbArray = NULL then Some (pcbLen s, [])
      else do { us \<leftarrow> copyPCBs mem (nat (pcbLen s)) (head s) s; Some (pcbLen s, us) })"

end
