(* ===== verification/SchedInv.thy ===== *)
theory SchedInv
  imports Scheduler
begin

text \<open>
  The invariant of the process table (theory \<open>Scheduler\<close>) and what \<open>schedule\<close> does under it:
  round robin over the circular list, reaping of the exited processes it passes, the idle
  process when nobody is ready.
\<close>

section \<open>The circular list\<close>

text \<open>\<open>lseg N x ns y\<close>: following \<open>next\<close> from node \<open>x\<close> visits \<open>ns\<close> and arrives at \<open>y\<close>.\<close>

fun lseg :: "(addr \<rightharpoonup> PCBNode) \<Rightarrow> addr \<Rightarrow> addr list \<Rightarrow> addr \<Rightarrow> bool" where
  "lseg N x [] y \<longleftrightarrow> x = y"
| "lseg N x (n # ns) y \<longleftrightarrow> x = n \<and> (case N n of None \<Rightarrow> False | Some d \<Rightarrow> lseg N (nextNode d) ns y)"

lemma lseg_append: "lseg N x (ns @ ms) z \<longleftrightarrow> (\<exists>y. lseg N x ns y \<and> lseg N y ms z)"
  by (induction ns arbitrary: x) (auto split: option.splits)

lemma lseg_cong: "\<forall>n \<in> set ns. N' n = N n \<Longrightarrow> lseg N' x ns y = lseg N x ns y"
  by (induction ns arbitrary: x) (auto split: option.splits)

lemma lseg_start: "lseg N x (n # ns) y \<Longrightarrow> x = n"
  by simp

lemma lseg_dom: "lseg N x ns y \<Longrightarrow> n \<in> set ns \<Longrightarrow> N n \<noteq> None"
  by (induction ns arbitrary: x) (auto split: option.splits)

definition ring :: "(addr \<rightharpoonup> PCBNode) \<Rightarrow> addr list \<Rightarrow> bool" where
  "ring N ns \<longleftrightarrow> ns \<noteq> [] \<and> lseg N (hd ns) ns (hd ns)"

lemma ring_rotate: "ring N (us @ vs) \<Longrightarrow> us \<noteq> [] \<Longrightarrow> vs \<noteq> [] \<Longrightarrow> ring N (vs @ us)"
  by (cases us; cases vs) (auto simp: ring_def lseg_append split: option.splits)

lemma ring_rotate1: "ring N (x # ns) \<Longrightarrow> ring N (ns @ [x])"
  using ring_rotate [of N "[x]" ns] by (cases "ns = []") auto

lemma ring_next: "ring N (x # ns) \<Longrightarrow> \<exists>d. N x = Some d \<and> nextNode d = hd (ns @ [x])"
  by (cases ns) (auto simp: ring_def split: option.splits)

lemma ring_last_next: "ring N ns \<Longrightarrow> \<exists>d. N (last ns) = Some d \<and> nextNode d = hd ns"
  by (cases ns rule: rev_cases) (auto simp: ring_def lseg_append split: option.splits)

text \<open>\<open>prev->next = toRemove->next\<close> takes a node off the ring.\<close>

lemma ring_remove:
  assumes ring: "ring N (x # ns)" and ns: "ns \<noteq> []" and dist: "distinct (x # ns)"
    and d: "N (last ns) = Some d"
  shows "ring (N(last ns \<mapsto> d\<lparr>nextNode := hd ns\<rparr>)) ns"
proof -
  obtain ms where ms: "ns = ms @ [last ns]" using ns by (metis append_butlast_last_id)
  let ?N = "N(last ns \<mapsto> d\<lparr>nextNode := hd ns\<rparr>)"
  have "lseg N (hd ns) ns x"
    using ring ns by (cases ns) (auto simp: ring_def split: option.splits)
  then obtain y where y: "lseg N (hd ns) ms y" "y = last ns"
    using ms lseg_append [of N "hd ns" ms "[last ns]" x] by auto
  have "lseg ?N (hd ns) ms y"
    using y(1) dist ms by (subst lseg_cong [of ms ?N N]) (auto, metis distinct_append not_distinct_conv_prefix)
  then have "lseg ?N (hd ns) (ms @ [last ns]) (hd ns)" using y(2) by (simp add: lseg_append)
  then show ?thesis using ms ns by (simp add: ring_def)
qed

text \<open>One list is the other read from another node of the ring.\<close>

definition rotated :: "addr list \<Rightarrow> addr list \<Rightarrow> bool" where
  "rotated ns cs \<longleftrightarrow> (\<exists>us vs. ns = us @ vs \<and> cs = vs @ us)"

lemma rotated_set: "rotated ns cs \<Longrightarrow> set cs = set ns \<and> length cs = length ns"
  by (auto simp: rotated_def)

lemma rotated_distinct: "rotated ns cs \<Longrightarrow> distinct cs = distinct ns"
  by (auto simp: rotated_def)

lemma rotated_refl: "rotated ns ns"
  unfolding rotated_def by (intro exI [of _ "[]"] exI [of _ ns]) simp

lemma rotated_step: "rotated ns (x # cs) \<Longrightarrow> rotated ns (cs @ [x])"
proof -
  assume "rotated ns (x # cs)"
  then obtain us vs where uv: "ns = us @ vs" "x # cs = vs @ us" by (auto simp: rotated_def)
  show ?thesis
  proof (cases vs)
    case Nil
    with uv have "ns = [x] @ cs" by simp
    then show ?thesis unfolding rotated_def by blast
  next
    case (Cons v vs')
    with uv have "ns = (us @ [x]) @ vs'" "cs @ [x] = vs' @ (us @ [x])" by auto
    then show ?thesis unfolding rotated_def by blast
  qed
qed

text \<open>Removing the current node, seen from the head of the list.\<close>

lemma rotated_remove:
  assumes "rotated ns (x # cs)" "distinct ns" "cs \<noteq> []"
  shows "rotated (removeAll x ns) cs"
    "hd (removeAll x ns) = (if hd ns = x then hd cs else hd ns)"
    "last (removeAll x ns) = (if hd ns \<noteq> x \<and> last ns = x then last cs else last ns)"
proof -
  from assms(1) obtain us vs where uv: "ns = us @ vs" "x # cs = vs @ us" by (auto simp: rotated_def)
  have "rotated (removeAll x ns) cs \<and>
    hd (removeAll x ns) = (if hd ns = x then hd cs else hd ns) \<and>
    last (removeAll x ns) = (if hd ns \<noteq> x \<and> last ns = x then last cs else last ns)"
  proof (cases vs)
    case Nil
    with uv assms(2) have "ns = x # cs" "x \<notin> set cs" by auto
    with assms(3) show ?thesis by (auto simp: rotated_refl)
  next
    case (Cons v vs')
    with uv assms(2) have v: "v = x" "cs = vs' @ us" "x \<notin> set us" "x \<notin> set vs'" by auto
    with Cons uv have rm: "removeAll x ns = us @ vs'" by simp
    have "rotated (us @ vs') cs" unfolding rotated_def using v by blast
    moreover have "hd ns = x \<longleftrightarrow> us = []" using uv Cons v by (cases us) auto
    moreover have "us \<noteq> [] \<Longrightarrow> last ns = x \<longleftrightarrow> vs' = []"
      using uv Cons v by (cases vs' rule: rev_cases) auto
    ultimately show ?thesis using rm uv Cons v assms(3) by (cases "us = []"; cases "vs' = []") auto
  qed
  then show "rotated (removeAll x ns) cs"
    "hd (removeAll x ns) = (if hd ns = x then hd cs else hd ns)"
    "last (removeAll x ns) = (if hd ns \<noteq> x \<and> last ns = x then last cs else last ns)" by blast+
qed

section \<open>The invariant\<close>

definition proc :: "'h kernel \<Rightarrow> addr \<Rightarrow> PCB option" where
  "proc s n = do { x \<leftarrow> nodes s n; pcbs s (pcb x) }"

text \<open>The blocks a process owns; a process that was killed while blocked has lost its heap.\<close>

definition owns :: "'h kernel \<Rightarrow> addr \<Rightarrow> addr list" where
  "owns s n = (case nodes s n of None \<Rightarrow> [n]
     | Some x \<Rightarrow> (case pcbs s (pcb x) of None \<Rightarrow> [n, pcb x]
       | Some c \<Rightarrow> (if heapFreed c \<or> pid c = IDLE_PID then [] else [heap c]) @
           (if pid c = IDLE_PID then [] else [freeListStart c]) @ [stack c, pcb x, n]))"

lemma owns_eq:
  "nodes s n = Some x \<Longrightarrow> pcbs s (pcb x) = Some c \<Longrightarrow>
     owns s n = (if heapFreed c \<or> pid c = IDLE_PID then [] else [heap c]) @
       (if pid c = IDLE_PID then [] else [freeListStart c]) @ [stack c, pcb x, n]"
  by (simp add: owns_def)

definition owned :: "'h kernel \<Rightarrow> addr list \<Rightarrow> addr list" where
  "owned s ns = concat (map (owns s) (idleProcPCBNode s # ns))"

text \<open>
  \<open>ns\<close> is the list from \<open>pcbList.head\<close>, \<open>cs\<close> the same ring read from the current process (or,
  while the idle process runs, from the process that comes after \<open>pcbList.prev\<close>).
\<close>

definition table :: "'h kernel \<Rightarrow> addr list \<Rightarrow> addr list \<Rightarrow> bool" where
  "table s ns cs \<longleftrightarrow>
     ring (nodes s) cs \<and> rotated ns cs \<and> head s = hd ns \<and> tail s = last ns \<and>
     prev s = last cs \<and> (current s = hd cs \<or> current s = idleProcPCBNode s) \<and>
     pcbLen s = int (length ns) \<and>
     (\<forall>n \<in> insert (idleProcPCBNode s) (set cs). proc s n \<noteq> None) \<and>
     (\<forall>n \<in> set cs. \<forall>c. proc s n = Some c \<longrightarrow> pid c \<noteq> IDLE_PID)"

definition kinv :: "((addr \<rightharpoonup> u64) \<Rightarrow> 'h \<Rightarrow> bool) \<Rightarrow> (addr \<rightharpoonup> u64) \<Rightarrow> 'h kernel \<Rightarrow> addr list \<Rightarrow> addr list \<Rightarrow> bool"
where
  "kinv ok L s ns cs \<longleftrightarrow> ok L (kheap s) \<and> NULL \<notin> dom L \<and> table s ns cs \<and>
     distinct (owned s ns) \<and> set (owned s ns) \<subseteq> dom L"

lemma owns_self: "n \<in> set (owns s n)"
  by (auto simp: owns_def split: option.splits)

lemma owns_pcb: "nodes s n = Some x \<Longrightarrow> pcb x \<in> set (owns s n)"
  by (auto simp: owns_def split: option.splits)

lemma distinct_concat_map:
  "distinct (concat (map f xs)) \<longleftrightarrow>
     (\<forall>x \<in> set xs. distinct (f x)) \<and>
     sorted_wrt (\<lambda>x y. set (f x) \<inter> set (f y) = {}) xs"
  by (induction xs) auto

lemma sorted_wrt_neq: "sorted_wrt (\<noteq>) xs \<Longrightarrow> distinct xs"
  by (induction xs) auto

lemma kinvD:
  assumes "kinv ok L s ns cs"
  shows "ok L (kheap s)" "NULL \<notin> dom L" "table s ns cs" "distinct (owned s ns)"
    "set (owned s ns) \<subseteq> dom L" "distinct ns" "distinct cs" "idleProcPCBNode s \<notin> set cs"
    "NULL \<notin> set cs" "idleProcPCBNode s \<noteq> NULL" "cs \<noteq> []" "set ns = set cs"
proof -
  show basic: "ok L (kheap s)" "NULL \<notin> dom L" "table s ns cs" "distinct (owned s ns)"
    "set (owned s ns) \<subseteq> dom L" using assms by (auto simp: kinv_def)
  have dis: "sorted_wrt (\<lambda>x y. set (owns s x) \<inter> set (owns s y) = {}) (idleProcPCBNode s # ns)"
    using basic(4) unfolding owned_def distinct_concat_map by blast
  then have "sorted_wrt (\<noteq>) (idleProcPCBNode s # ns)"
    by (rule sorted_wrt_mono_rel [rotated]) (use owns_self in blast)
  then have d: "distinct (idleProcPCBNode s # ns)" by (rule sorted_wrt_neq)
  have rot: "rotated ns cs" using basic(3) by (simp add: table_def)
  show set: "set ns = set cs" using rotated_set [OF rot] by simp
  show "distinct ns" "distinct cs" "idleProcPCBNode s \<notin> set cs"
    using d rotated_distinct [OF rot] set by auto
  have "n \<in> dom L" if "n \<in> set (idleProcPCBNode s # ns)" for n
  proof -
    have "n \<in> set (owned s ns)" unfolding owned_def using that owns_self [of n s] by auto
    with basic(5) show ?thesis by blast
  qed
  then have "set (idleProcPCBNode s # ns) \<subseteq> dom L" by blast
  with basic(2) set show "NULL \<notin> set cs" "idleProcPCBNode s \<noteq> NULL" by fastforce+
  show "cs \<noteq> []" using basic(3) by (auto simp: table_def ring_def)
qed

text \<open>Two processes own different blocks.\<close>

lemma owns_apart:
  assumes "kinv ok L s ns cs" "m \<in> insert (idleProcPCBNode s) (set cs)"
    "n \<in> insert (idleProcPCBNode s) (set cs)" "m \<noteq> n"
  shows "set (owns s m) \<inter> set (owns s n) = {}"
proof -
  have "sorted_wrt (\<lambda>x y. set (owns s x) \<inter> set (owns s y) = {}) (idleProcPCBNode s # ns)"
    using kinvD(4) [OF assms(1)] unfolding owned_def distinct_concat_map by blast
  moreover have "m \<in> set (idleProcPCBNode s # ns)" "n \<in> set (idleProcPCBNode s # ns)"
    using assms(2,3) kinvD(12) [OF assms(1)] by auto
  ultimately show ?thesis
    using assms(4) unfolding sorted_wrt_iff_nth_less in_set_conv_nth
    by (metis Int_commute linorder_neqE_nat)
qed

lemma proc_some:
  "kinv ok L s ns cs \<Longrightarrow> n \<in> insert (idleProcPCBNode s) (set cs) \<Longrightarrow>
     \<exists>x c. nodes s n = Some x \<and> pcbs s (pcb x) = Some c \<and> proc s n = Some c"
proof -
  assume inv: "kinv ok L s ns cs" and n: "n \<in> insert (idleProcPCBNode s) (set cs)"
  have "proc s n \<noteq> None" using kinvD(3) [OF inv] n unfolding table_def by blast
  then show ?thesis by (cases "nodes s n") (auto simp: proc_def)
qed

text \<open>Updates of the scheduling fields of one PCB.\<close>

definition keeps_blocks :: "(PCB \<Rightarrow> PCB) \<Rightarrow> bool" where
  "keeps_blocks f \<longleftrightarrow> (\<forall>c. pid (f c) = pid c \<and> stack (f c) = stack c \<and> heap (f c) = heap c \<and>
     heapFreed (f c) = heapFreed c \<and> freeListStart (f c) = freeListStart c)"

lemma owns_upd:
  "keeps_blocks f \<Longrightarrow> pcbs s p = Some c \<Longrightarrow> owns (s\<lparr>pcbs := (pcbs s)(p \<mapsto> f c)\<rparr>) n = owns s n"
  by (auto simp: owns_def keeps_blocks_def split: option.splits)

lemma proc_upd:
  assumes "kinv ok L s ns cs" "m \<in> insert (idleProcPCBNode s) (set cs)"
    "n \<in> insert (idleProcPCBNode s) (set cs)" "nodes s m = Some x" "pcbs s (pcb x) = Some c"
  shows "proc (s\<lparr>pcbs := (pcbs s)(pcb x \<mapsto> c')\<rparr>) n = (if n = m then Some c' else proc s n)"
proof (cases "n = m")
  case False
  have "pcb y \<noteq> pcb x" if "nodes s n = Some y" for y
    using owns_apart [OF assms(1-3)] False owns_pcb [OF that] owns_pcb [OF assms(4)] by auto
  with False show ?thesis by (auto simp: proc_def split: option.splits bind_splits)
qed (use assms in \<open>simp add: proc_def\<close>)

lemma kinv_upd [preserves]:
  assumes inv: "kinv ok L s ns cs" and m: "m \<in> insert (idleProcPCBNode s) (set cs)"
    and x: "nodes s m = Some x" "pcbs s (pcb x) = Some c" and f: "keeps_blocks f"
  shows "kinv ok L (s\<lparr>pcbs := (pcbs s)(pcb x \<mapsto> f c)\<rparr>) ns cs"
proof -
  let ?s = "s\<lparr>pcbs := (pcbs s)(pcb x \<mapsto> f c)\<rparr>"
  have own: "owned ?s ns = owned s ns"
  proof -
    have "owns ?s = owns s" using owns_upd [OF f x(2)] by (rule ext)
    then show ?thesis by (simp add: owned_def)
  qed
  have "proc ?s n = (if n = m then Some (f c) else proc s n)"
    if "n \<in> insert (idleProcPCBNode s) (set cs)" for n
    using proc_upd [OF inv m that x] .
  moreover have "proc s m = Some c" using x by (simp add: proc_def)
  ultimately have "table ?s ns cs"
    using kinvD(3) [OF inv] f by (auto simp: table_def keeps_blocks_def)
  then show ?thesis using inv own by (simp add: kinv_def)
qed

section \<open>Freeing a process that ended\<close>

fun kfrees :: "'h mm \<Rightarrow> addr list \<Rightarrow> 'h kernel \<Rightarrow> 'h kernel option" where
  "kfrees M [] s = Some s"
| "kfrees M (p # ps) s = do { s1 \<leftarrow> kfree M p s; kfrees M ps s1 }"

lemma kfrees_append: "kfrees M (ps @ qs) s = do { s1 \<leftarrow> kfrees M ps s; kfrees M qs s1 }"
  by (induction ps arbitrary: s) (auto split: option.splits bind_splits)

text \<open>The state without the objects at the addresses \<open>A\<close>.\<close>

definition without :: "addr set \<Rightarrow> 'h \<Rightarrow> 'h kernel \<Rightarrow> 'h kernel" where
  "without A h s = s\<lparr>kheap := h, pcbs := pcbs s |` (- A), nodes := nodes s |` (- A),
     stacks := stacks s |` (- A)\<rparr>"

lemma restrict_del: "(m |` (- A))(p := None) = m |` (- insert p A)"
  by (auto simp: restrict_map_def fun_eq_iff)

lemma restrict_UNIV [simp]: "m |` UNIV = m"
  by (simp add: restrict_map_def)

lemma without_none: "without {} (kheap s) s = s"
  by (simp add: without_def)

text \<open>The process table over any memory manager that keeps the laws of its interface.\<close>

locale process_table = allocator M ok for M :: "'h mm" and ok
begin

end

context process_table
begin

lemma kfrees_ok:
  "ok (L |` (- A)) h \<Longrightarrow> distinct ps \<Longrightarrow> set ps \<subseteq> dom L - A \<Longrightarrow>
     \<exists>h'. kfrees M ps (without A h s) = Some (without (A \<union> set ps) h' s) \<and>
       ok (L |` (- (A \<union> set ps))) h'"
proof (induction ps arbitrary: A h)
  case (Cons p ps)
  then have "p \<in> dom (L |` (- A))" by auto
  from free_ok [OF Cons.prems(1) this, unfolded restrict_del]
  obtain h1 where h1: "mm_free M p h = Some h1" "ok (L |` (- insert p A)) h1" by blast
  have "kfree M p (without A h s) = Some (without (insert p A) h1 s)"
    using h1(1) by (simp add: kfree_def without_def restrict_del del: fun_upd_None_restrict)
  moreover have "set ps \<subseteq> dom L - insert p A" using Cons.prems by auto
  ultimately show ?case using Cons.IH [OF h1(2)] Cons.prems(2) by simp
qed auto

lemma kfrees_all:
  "ok L (kheap s) \<Longrightarrow> distinct ps \<Longrightarrow> set ps \<subseteq> dom L \<Longrightarrow>
     \<exists>h'. kfrees M ps s = Some (without (set ps) h' s) \<and> ok (L |` (- set ps)) h'"
  using kfrees_ok [of L "{}" "kheap s" ps s] without_none [of s] by simp

lemma freeCurrentProcess_ok:
  assumes inv: "kinv ok L s ns (x # cs)" and cur: "current s = x" and cs: "cs \<noteq> []"
  shows "\<exists>s'. freeCurrentProcess M s = Some s' \<and>
    kinv ok (L |` (- set (owns s x))) s' (removeAll x ns) cs \<and> current s' = hd cs \<and>
    (\<forall>n \<in> insert (idleProcPCBNode s) (set cs). proc s' n = proc s n \<and> owns s' n = owns s n) \<and>
    idleProcPCBNode s' = idleProcPCBNode s"
proof -
  note D = kinvD [OF inv]
  note T = D(3) [unfolded table_def]
  obtain d c where d: "nodes s x = Some d" "pcbs s (pcb d) = Some c" "proc s x = Some c"
    using proc_some [OF inv, of x] by auto
  have cpid: "pid c \<noteq> IDLE_PID" using T d(3) by simp
  have own: "owns s x = (if heapFreed c then [] else [heap c]) @
      [freeListStart c, stack c, pcb d, x]"
    using owns_eq [OF d(1,2)] cpid by simp
  have ns: "distinct ns" "set ns = insert x (set cs)" "x \<notin> set cs" using D(6,7,12) by auto
  have rot: "rotated ns (x # cs)" using T by simp
  note rm = rotated_remove [OF rot ns(1) cs]
  have prev: "prev s = last cs" using T cs by simp
  obtain e where e: "nodes s (last cs) = Some e"
    using proc_some [OF inv, of "last cs"] cs by auto
  have next_d: "nextNode d = hd cs"
    using ring_next [of "nodes s" x cs] T d(1) cs by auto
  have last_cs: "last cs \<noteq> x" "last cs \<in> set cs" using ns(3) cs by auto
  have not_null: "x \<noteq> NULL" "head s \<noteq> NULL" 
  proof -
    have "hd ns \<in> set (x # cs)" using D(12) hd_in_set [of ns] by force
    then show "x \<noteq> NULL" "head s \<noteq> NULL" using D(9) T by auto
  qed
  have "length ns = Suc (length cs)" using rotated_set [OF rot] by simp
  then have ht: "head s \<noteq> tail s"
    using ns(1) T cs by (cases ns) auto
  define N where "N = (nodes s)(last cs \<mapsto> e\<lparr>nextNode := hd cs\<rparr>)"
  define s3 where "s3 = s\<lparr>current := hd cs, nodes := N,
      head := (if head s = x then hd cs else head s),
      tail := (if head s \<noteq> x \<and> tail s = x then last cs else tail s)\<rparr>"
  have run: "freeCurrentProcess M s =
      do { s8 \<leftarrow> kfrees M (owns s x) s3; Some (s8\<lparr>pcbLen := pcbLen s8 - 1\<rparr>) }"
    using cur not_null ht d next_d prev e last_cs(1) own
    by (simp add: freeCurrentProcess_def upd_node_def Let_def s3_def N_def kfrees_append)
  have "set (owns s x) \<subseteq> set (owned s ns)" using ns(2) by (auto simp: owned_def)
  then have sub: "set (owns s x) \<subseteq> dom L" using D(5) by blast
  have "distinct (owns s x)"
    using D(4) ns(2) unfolding owned_def distinct_concat_map by auto
  from kfrees_all [OF _ this sub, of s3] D(1)
  obtain h' where h': "kfrees M (owns s x) s3 = Some (without (set (owns s x)) h' s3)"
    "ok (L |` (- set (owns s x))) h'"
    by (auto simp: s3_def)
  define s' where "s' = (without (set (owns s x)) h' s3)\<lparr>pcbLen := pcbLen s - 1\<rparr>"
  have ret: "freeCurrentProcess M s = Some s'"
    using run h'(1) by (simp add: s'_def without_def s3_def)
  have others: "set (owns s n) \<inter> set (owns s x) = {}"
    if "n \<in> insert (idleProcPCBNode s) (set cs)" for n
    using owns_apart [OF inv, of n x] that ns(3) D(8) by auto
  have keep: "nodes s' n = N n \<and> (\<forall>y. nodes s n = Some y \<longrightarrow> pcbs s' (pcb y) = pcbs s (pcb y))"
    if "n \<in> insert (idleProcPCBNode s) (set cs)" for n
    using others [OF that] owns_self [of n s] owns_pcb [of s n]
    by (auto simp: s'_def without_def s3_def restrict_map_def)
  have N: "N n = (if n = last cs then Some (e\<lparr>nextNode := hd cs\<rparr>) else nodes s n)" for n
    by (simp add: N_def)
  have proc': "proc s' n = proc s n" and owns': "owns s' n = owns s n"
    if "n \<in> insert (idleProcPCBNode s) (set cs)" for n
    using keep [OF that] proc_some [OF inv, of n] that N [of n] e
    by (auto simp: proc_def owns_def split: if_splits)
  have "ring N cs"
    unfolding N_def using ring_remove [of "nodes s" x cs e] T ns(3) D(7) cs e by auto
  then have ring': "ring (nodes s') cs"
    using lseg_cong [of cs "nodes s'" N] keep by (simp add: ring_def)
  have idle': "idleProcPCBNode s' = idleProcPCBNode s"
    by (simp add: s'_def without_def s3_def)
  have flds: "head s' = hd (removeAll x ns)" "tail s' = last (removeAll x ns)" "prev s' = last cs"
    "current s' = hd cs" "pcbLen s' = int (length (removeAll x ns))" "kheap s' = h'"
    using rm T prev cs rotated_set [OF rm(1)] rotated_set [OF rot]
    by (simp_all add: s'_def without_def s3_def)
  have "table s' (removeAll x ns) cs"
  proof -
    have "\<forall>n \<in> insert (idleProcPCBNode s) (set cs). proc s n \<noteq> None"
      "\<forall>n \<in> set cs. \<forall>c. proc s n = Some c \<longrightarrow> pid c \<noteq> IDLE_PID" using T by auto
    then have "\<forall>n \<in> insert (idleProcPCBNode s') (set cs). proc s' n \<noteq> None"
      "\<forall>n \<in> set cs. \<forall>c. proc s' n = Some c \<longrightarrow> pid c \<noteq> IDLE_PID"
      using proc' unfolding idle' by auto
    then show ?thesis unfolding table_def using flds ring' rm(1) by blast
  qed
  moreover have own': "owned s' (removeAll x ns) = concat (map (owns s) (idleProcPCBNode s # removeAll x ns))"
    unfolding owned_def idle' using owns' ns by (auto intro!: arg_cong [of _ _ concat])
  moreover have "distinct (concat (map (owns s) (idleProcPCBNode s # removeAll x ns)))"
    using D(4) unfolding owned_def distinct_concat_map
    by (auto simp: removeAll_filter_not_eq intro: sorted_wrt_filter)
  moreover have "set (concat (map (owns s) (idleProcPCBNode s # removeAll x ns))) \<subseteq>
      dom (L |` (- set (owns s x)))"
  proof
    fix p assume "p \<in> set (concat (map (owns s) (idleProcPCBNode s # removeAll x ns)))"
    then obtain n where n: "n \<in> set (idleProcPCBNode s # removeAll x ns)" "p \<in> set (owns s n)"
      by auto
    then have "n \<in> insert (idleProcPCBNode s) (set cs)" "n \<in> set (idleProcPCBNode s # ns)"
      using ns by auto
    then have "p \<notin> set (owns s x)" "p \<in> set (owned s ns)"
      using others n(2) unfolding owned_def by auto
    then show "p \<in> dom (L |` (- set (owns s x)))" using D(5) by auto
  qed
  ultimately have "kinv ok (L |` (- set (owns s x))) s' (removeAll x ns) cs"
    using h'(2) flds(6) D(2) by (simp add: kinv_def)
  with ret proc' owns' idle' flds(4) show ?thesis by blast
qed

end

section \<open>The round-robin choice\<close>

text \<open>
  The specification, over the candidates \<open>r\<close> in the order of the ring (the interrupted process
  is the last one): the processes passed over are those before the first ready one (never the
  last candidate); the ended ones among them are reaped, the others keep their order.
\<close>

definition pstate :: "'h kernel \<Rightarrow> addr \<Rightarrow> State" where
  "pstate s n = state (the (proc s n))"

definition chosen :: "(addr \<Rightarrow> State) \<Rightarrow> addr list \<Rightarrow> addr option" where
  "chosen st r = List.find (\<lambda>n. st n = READY) r"

definition passed :: "(addr \<Rightarrow> State) \<Rightarrow> addr list \<Rightarrow> addr list" where
  "passed st r = takeWhile (\<lambda>n. st n \<noteq> READY) (butlast r)"

definition reaped :: "(addr \<Rightarrow> State) \<Rightarrow> addr list \<Rightarrow> addr list" where
  "reaped st r = filter (\<lambda>n. st n = EXITED) (passed st r)"

definition order_after :: "(addr \<Rightarrow> State) \<Rightarrow> addr list \<Rightarrow> addr list \<Rightarrow> addr list" where
  "order_after st r p =
     drop (length (passed st r)) r @ p @ filter (\<lambda>n. st n \<noteq> EXITED) (passed st r)"

definition blocks_of :: "'h kernel \<Rightarrow> addr list \<Rightarrow> addr set" where
  "blocks_of s ns = (\<Union>n \<in> set ns. set (owns s n))"

definition removing :: "addr list \<Rightarrow> addr list \<Rightarrow> addr list" where
  "removing gone ns = filter (\<lambda>n. n \<notin> set gone) ns"

text \<open>What the state is after a choice among \<open>r\<close> (with \<open>p\<close> the rest of the ring after it).\<close>

definition sched_post ::
  "((addr \<rightharpoonup> u64) \<Rightarrow> 'h \<Rightarrow> bool) \<Rightarrow> (addr \<rightharpoonup> u64) \<Rightarrow> 'h kernel \<Rightarrow> addr list \<Rightarrow> addr list \<Rightarrow> addr list \<Rightarrow>
   addr \<Rightarrow> 'h kernel \<Rightarrow> bool" where
  "sched_post ok L s ns r p q s' \<longleftrightarrow>
     (let st = pstate s; gone = reaped st r in
      kinv ok (L |` (- blocks_of s gone)) s' (removing gone ns) (order_after st r p) \<and>
      idleProcPCBNode s' = idleProcPCBNode s \<and>
      (\<forall>n \<in> insert (idleProcPCBNode s) (set (r @ p) - set gone). Some n \<noteq> chosen st r \<longrightarrow>
         proc s' n = proc s n) \<and>
      (case chosen st r of
         Some n \<Rightarrow> current s' = n \<and> q = rsp (the (proc s n)) \<and>
           proc s' n = Some ((the (proc s n))\<lparr>state := RUNNING\<rparr>) \<and>
           quantumsLeft s' = uint (priority (the (proc s n))) - 1
       | None \<Rightarrow> current s' = idleProcPCBNode s \<and> q = rsp (the (proc s (idleProcPCBNode s)))))"

lemma spec_simps:
  "r \<noteq> [] \<Longrightarrow> passed st (x # r) = (if st x = READY then [] else x # passed st r)"
  "passed st [x] = []"
  "chosen st (x # r) = (if st x = READY then Some x else chosen st r)"
  "chosen st [] = None"
  by (simp_all add: passed_def chosen_def)

lemma spec_cong:
  assumes "\<forall>n \<in> set r. st n = st' n"
  shows "chosen st r = chosen st' r" "passed st r = passed st' r" "reaped st r = reaped st' r"
    "order_after st r p = order_after st' r p"
proof -
  show "chosen st r = chosen st' r"
    using assms unfolding chosen_def by (induction r) auto
  have b: "\<forall>n \<in> set (butlast r). st n = st' n" using assms in_set_butlastD by fast
  show passed: "passed st r = passed st' r"
    unfolding passed_def by (rule takeWhile_cong) (use b in auto)
  have "set (passed st' r) \<subseteq> set r"
    unfolding passed_def using set_takeWhileD in_set_butlastD by fast
  then show "reaped st r = reaped st' r" "order_after st r p = order_after st' r p"
    using assms by (auto simp: reaped_def order_after_def passed intro!: filter_cong)
qed

lemma removing_Nil: "removing [] ns = ns"
  by (simp add: removing_def)

lemma removing_Cons: "removing (x # gone) ns = removing gone (removeAll x ns)"
  by (auto simp: removing_def removeAll_filter_not_eq intro: filter_cong)

lemma blocks_Cons: "blocks_of s (x # gone) = set (owns s x) \<union> blocks_of s gone"
  by (simp add: blocks_of_def)

text \<open>Fields the invariant does not look at.\<close>

lemma kinv_fields [simp]:
  "kinv ok L (s\<lparr>quantumsLeft := v\<rparr>) ns cs = kinv ok L s ns cs"
  "kinv ok L (s\<lparr>processInForeground := w\<rparr>) ns cs = kinv ok L s ns cs"
  "kinv ok L (s\<lparr>nextPid := k\<rparr>) ns cs = kinv ok L s ns cs"
  "kinv ok L (s\<lparr>lowWord := w\<rparr>) ns cs = kinv ok L s ns cs"
  "kinv ok L (s\<lparr>stacks := ss\<rparr>) ns cs = kinv ok L s ns cs"
proof -
  have "owns (s\<lparr>quantumsLeft := v\<rparr>) = owns s" "owns (s\<lparr>processInForeground := w\<rparr>) = owns s"
    "owns (s\<lparr>nextPid := k\<rparr>) = owns s" "owns (s\<lparr>lowWord := w\<rparr>) = owns s"
    "owns (s\<lparr>stacks := ss\<rparr>) = owns s"
    by (auto simp: owns_def fun_eq_iff split: option.splits)
  then show "kinv ok L (s\<lparr>quantumsLeft := v\<rparr>) ns cs = kinv ok L s ns cs"
    "kinv ok L (s\<lparr>processInForeground := w\<rparr>) ns cs = kinv ok L s ns cs"
    "kinv ok L (s\<lparr>nextPid := k\<rparr>) ns cs = kinv ok L s ns cs"
    "kinv ok L (s\<lparr>lowWord := w\<rparr>) ns cs = kinv ok L s ns cs"
    "kinv ok L (s\<lparr>stacks := ss\<rparr>) ns cs = kinv ok L s ns cs"
    by (simp_all add: kinv_def table_def owned_def proc_def)
qed

lemma proc_fields [simp]:
  "proc (s\<lparr>quantumsLeft := v\<rparr>) n = proc s n"
  "proc (s\<lparr>current := c\<rparr>) n = proc s n"
  "proc (s\<lparr>prev := c\<rparr>) n = proc s n"
  by (simp_all add: proc_def)

lemma owns_fields [simp]:
  "owns (s\<lparr>current := c\<rparr>) = owns s"
  "owns (s\<lparr>prev := c\<rparr>) = owns s"
  by (auto simp: owns_def fun_eq_iff split: option.splits)

lemma kinv_move:
  assumes inv: "kinv ok L s ns (x # cs)"
  shows "kinv ok L (s\<lparr>prev := x, current := hd (cs @ [x])\<rparr>) ns (cs @ [x])"
proof -
  have "ring (nodes s) (cs @ [x])" "rotated ns (cs @ [x])"
    using kinvD(3) [OF inv] ring_rotate1 rotated_step by (auto simp: table_def)
  then show ?thesis using inv by (simp add: kinv_def table_def owned_def)
qed

lemma nextPCB_ok:
  assumes inv: "kinv ok L s ns (x # cs)" and cur: "current s = x"
  shows "nextPCB s = Some (s\<lparr>prev := x, current := hd (cs @ [x])\<rparr>)"
proof -
  note D = kinvD [OF inv]
  obtain d where "nodes s x = Some d" "nextNode d = hd (cs @ [x])"
    using ring_next [of "nodes s" x cs] D(3) by (auto simp: table_def)
  moreover have "x \<noteq> NULL" "x \<noteq> idleProcPCBNode s" using D(8,9) by auto
  moreover have "head s \<noteq> NULL"
  proof -
    have "hd ns \<in> set (x # cs)" using D(12) hd_in_set [of ns] by force
    then show ?thesis using D(3,9) by (auto simp: table_def)
  qed
  ultimately show ?thesis using cur by (simp add: nextPCB_def)
qed

lemma nextPCB_idle:
  assumes inv: "kinv ok L s ns cs" and cur: "current s = idleProcPCBNode s"
  shows "nextPCB s = Some (s\<lparr>current := hd cs\<rparr>)" "kinv ok L (s\<lparr>current := hd cs\<rparr>) ns cs"
proof -
  note D = kinvD [OF inv]
  obtain d where "nodes s (last cs) = Some d" "nextNode d = hd cs"
    using ring_last_next [of "nodes s" cs] D(3) by (auto simp: table_def)
  moreover have "head s \<noteq> NULL"
  proof -
    have "hd ns \<in> set cs" using D(11,12) hd_in_set [of ns] by force
    then show ?thesis using D(3,9) by (auto simp: table_def)
  qed
  ultimately show "nextPCB s = Some (s\<lparr>current := hd cs\<rparr>)"
    using cur D(3,10) by (simp add: nextPCB_def table_def)
  show "kinv ok L (s\<lparr>current := hd cs\<rparr>) ns cs"
    using inv by (simp add: kinv_def table_def owned_def)
qed

text \<open>Passing over one candidate does not change what is specified for the others.\<close>

lemma sched_post_skip:
  assumes post: "sched_post ok L s1 ns r (p @ [x]) q s'"
    and same: "\<forall>n. proc s1 n = proc s n" "\<forall>n. owns s1 n = owns s n"
      "idleProcPCBNode s1 = idleProcPCBNode s"
    and x: "pstate s x \<noteq> READY" "pstate s x \<noteq> EXITED" and r: "r \<noteq> []"
  shows "sched_post ok L s ns (x # r) p q s'"
proof -
  have st: "pstate s1 = pstate s" using same(1) by (simp add: pstate_def fun_eq_iff)
  have "owns s1 = owns s" using same(2) by blast
  then have b: "blocks_of s1 = blocks_of s" by (simp add: blocks_of_def fun_eq_iff)
  have "reaped (pstate s) (x # r) = reaped (pstate s) r"
    "order_after (pstate s) (x # r) p = order_after (pstate s) r (p @ [x])"
    "chosen (pstate s) (x # r) = chosen (pstate s) r"
    using x r by (simp_all add: reaped_def order_after_def spec_simps)
  moreover have "set (x # r @ p) = set (r @ p @ [x])" by auto
  moreover have p: "proc s1 = proc s" using same(1) by blast
  ultimately show ?thesis
    using post unfolding sched_post_def st b p same(3) by (simp add: Let_def)
qed

lemma sched_post_reap:
  assumes post: "sched_post ok (L |` (- set (owns s x))) s1 (removeAll x ns) r p q s'"
    and same: "\<forall>n \<in> insert (idleProcPCBNode s) (set (r @ p)). proc s1 n = proc s n \<and> owns s1 n = owns s n"
      "idleProcPCBNode s1 = idleProcPCBNode s"
    and x: "pstate s x = EXITED" "x \<notin> set (r @ p)" and r: "r \<noteq> []"
  shows "sched_post ok L s ns (x # r) p q s'"
proof -
  have st: "\<forall>n \<in> set r. pstate s1 n = pstate s n" using same(1) by (simp add: pstate_def)
  note cong = spec_cong [OF st]
  have sub: "set (reaped (pstate s) r) \<subseteq> set r"
    unfolding reaped_def passed_def using set_takeWhileD in_set_butlastD by fastforce
  have b: "blocks_of s1 (reaped (pstate s) r) = blocks_of s (reaped (pstate s) r)"
    unfolding blocks_of_def by (rule SUP_cong) (use sub same(1) in auto)
  have e: "reaped (pstate s) (x # r) = x # reaped (pstate s) r"
    "order_after (pstate s) (x # r) p = order_after (pstate s) r p"
    "chosen (pstate s) (x # r) = chosen (pstate s) r"
    using x r by (simp_all add: reaped_def order_after_def spec_simps)
  have L: "L |` (- set (owns s x)) |` (- blocks_of s (reaped (pstate s) r)) =
      L |` (- (set (owns s x) \<union> blocks_of s (reaped (pstate s) r)))"
    by (auto simp: restrict_map_def fun_eq_iff)
  have in_r: "n \<in> set r" if "chosen (pstate s) r = Some n" for n
    using that by (auto simp: chosen_def find_Some_iff)
  have "set ((x # r) @ p) - set (x # reaped (pstate s) r) = set (r @ p) - set (reaped (pstate s) r)"
    using x(2) by auto
  then show ?thesis
    using post same in_r unfolding sched_post_def cong b e removing_Cons blocks_Cons Let_def
    by (auto simp: L split: option.splits)
qed

context process_table
begin

theorem schedLoop_ok:
  assumes "kinv ok L s ns (r @ p)" "r \<noteq> []" "current s = hd r" "last r = og"
  shows "\<exists>q s'. schedLoop M og s = Some (q, s') \<and> sched_post ok L s ns r p q s'"
  using assms
proof (induction r arbitrary: L s ns p)
  case (Cons x r)
  note inv = Cons.prems(1) and cur = Cons.prems(3)
  note D = kinvD [OF inv]
  obtain d c where d: "nodes s x = Some d" "pcbs s (pcb d) = Some c" "proc s x = Some c"
    using proc_some [OF inv, of x] by auto
  have now: "currentPCB s = Some (pcb d)" "pstate s x = state c"
    using cur d by (simp_all add: currentPCB_def pstate_def)
  have dist: "x \<notin> set (r @ p)" using D(7) by simp
  consider (ready) "state c = READY" | (idle) "state c \<noteq> READY" "r = []"
    | (reap) "state c = EXITED" "r \<noteq> []" | (skip) "state c \<noteq> READY" "state c \<noteq> EXITED" "r \<noteq> []"
    by blast
  then show ?case
  proof cases
    case ready
    let ?s = "s\<lparr>pcbs := (pcbs s)(pcb d \<mapsto> c\<lparr>state := RUNNING\<rparr>), quantumsLeft := uint (priority c) - 1\<rparr>"
    have run: "schedLoop M og s = Some (rsp c, ?s)"
      using now(1) d ready by (subst schedLoop.simps) simp
    have kinv: "kinv ok L ?s ns (x # r @ p)"
      using kinv_upd [OF inv _ d(1,2), of "\<lambda>c. c\<lparr>state := RUNNING\<rparr>"]
      by (simp add: keeps_blocks_def)
    have procs: "proc ?s n = (if n = x then Some (c\<lparr>state := RUNNING\<rparr>) else proc s n)"
      if "n \<in> insert (idleProcPCBNode s) (set (x # r @ p))" for n
      using proc_upd [OF inv _ _ d(1,2), of n] that by simp
    have none: "reaped (pstate s) (x # r) = []" "order_after (pstate s) (x # r) p = x # r @ p"
      "chosen (pstate s) (x # r) = Some x"
      using ready now(2)
      by (cases r; simp add: reaped_def passed_def order_after_def chosen_def)+
    have "sched_post ok L s ns (x # r) p (rsp c) ?s"
      using kinv cur d(3) procs unfolding sched_post_def none Let_def
      by (simp add: blocks_of_def removing_Nil)
    with run show ?thesis by blast
  next
    case idle
    obtain ix ic where i: "nodes s (idleProcPCBNode s) = Some ix" "pcbs s (pcb ix) = Some ic"
      "proc s (idleProcPCBNode s) = Some ic"
      using proc_some [OF inv, of "idleProcPCBNode s"] by auto
    let ?s = "s\<lparr>current := idleProcPCBNode s\<rparr>"
    have run: "schedLoop M og s = Some (rsp ic, ?s)"
      using now(1) d idle cur Cons.prems(4) i
      by (subst schedLoop.simps) (simp add: currentRec_def currentPCB_def)
    have "kinv ok L ?s ns (x # p)"
      using inv idle by (simp add: kinv_def table_def owned_def)
    moreover have none: "reaped (pstate s) [x] = []" "order_after (pstate s) [x] p = x # p"
      "chosen (pstate s) [x] = None"
      using idle now(2) by (simp_all add: reaped_def passed_def order_after_def chosen_def)
    ultimately have "sched_post ok L s ns (x # r) p (rsp ic) ?s"
      using i idle unfolding sched_post_def idle(2) none Let_def
      by (simp add: blocks_of_def removing_Nil)
    with run show ?thesis by blast
  next
    case reap
    have og: "x \<noteq> og" using reap(2) Cons.prems(4) dist last_in_set [of r] by auto
    from freeCurrentProcess_ok [of L s ns x "r @ p"] inv cur reap(2)
    obtain s1 where s1: "freeCurrentProcess M s = Some s1"
      "kinv ok (L |` (- set (owns s x))) s1 (removeAll x ns) (r @ p)" "current s1 = hd r"
      "\<forall>n \<in> insert (idleProcPCBNode s) (set (r @ p)). proc s1 n = proc s n \<and> owns s1 n = owns s n"
      "idleProcPCBNode s1 = idleProcPCBNode s"
      by auto
    obtain q s' where q: "schedLoop M og s1 = Some (q, s')"
      "sched_post ok (L |` (- set (owns s x))) s1 (removeAll x ns) r p q s'"
      using Cons.IH [OF s1(2) reap(2) s1(3)] Cons.prems(4) reap(2) by auto
    have "schedLoop M og s = Some (q, s')"
      using now(1) d reap cur og s1(1) q(1) by (subst schedLoop.simps) simp
    moreover have "sched_post ok L s ns (x # r) p q s'"
      by (rule sched_post_reap [OF q(2) s1(4,5) _ dist reap(2)]) (simp add: now(2) reap(1))
    ultimately show ?thesis by blast
  next
    case skip
    have og: "x \<noteq> og" using skip(3) Cons.prems(4) dist last_in_set [of r] by auto
    let ?s1 = "s\<lparr>prev := x, current := hd ((r @ p) @ [x])\<rparr>"
    have nx: "nextPCB s = Some ?s1" using nextPCB_ok [of ok L s ns x "r @ p"] inv cur by simp
    have inv1: "kinv ok L ?s1 ns (r @ p @ [x])" using kinv_move [of ok L s ns x "r @ p"] inv by simp
    obtain q s' where q: "schedLoop M og ?s1 = Some (q, s')"
      "sched_post ok L ?s1 ns r (p @ [x]) q s'"
      using Cons.IH [OF inv1 skip(3)] Cons.prems(4) skip(3) by auto
    have "schedLoop M og s = Some (q, s')"
      using now(1) d skip cur og nx q(1) by (subst schedLoop.simps) simp
    moreover have "sched_post ok L s ns (x # r) p q s'"
      by (rule sched_post_skip [OF q(2)]) (use skip now(2) in auto)
    ultimately show ?thesis by blast
  qed
qed simp

end

text \<open>The state after the registers of the interrupted process were saved.\<close>

definition interrupted :: "addr \<Rightarrow> addr \<Rightarrow> PCB \<Rightarrow> PCB" where
  "interrupted rsp0 rbp0 c =
     c\<lparr>rsp := rsp0, rbp := rbp0, state := (if state c = RUNNING then READY else state c)\<rparr>"

definition save_current :: "addr \<Rightarrow> addr \<Rightarrow> 'h kernel \<Rightarrow> 'h kernel" where
  "save_current rsp0 rbp0 s = (case nodes s (current s) of None \<Rightarrow> s
     | Some x \<Rightarrow> (case pcbs s (pcb x) of None \<Rightarrow> s
       | Some c \<Rightarrow> s\<lparr>pcbs := (pcbs s)(pcb x \<mapsto> interrupted rsp0 rbp0 c)\<rparr>))"

lemma sched_post_fields:
  "sched_post ok L (s\<lparr>current := c\<rparr>) ns r p q s' = sched_post ok L s ns r p q s'"
  "sched_post ok L (s\<lparr>prev := d\<rparr>) ns r p q s' = sched_post ok L s ns r p q s'"
proof -
  have "pstate (s\<lparr>current := c\<rparr>) = pstate s" "pstate (s\<lparr>prev := d\<rparr>) = pstate s"
    "blocks_of (s\<lparr>current := c\<rparr>) = blocks_of s" "blocks_of (s\<lparr>prev := d\<rparr>) = blocks_of s"
    by (simp_all add: pstate_def blocks_of_def fun_eq_iff)
  then show "sched_post ok L (s\<lparr>current := c\<rparr>) ns r p q s' = sched_post ok L s ns r p q s'"
    "sched_post ok L (s\<lparr>prev := d\<rparr>) ns r p q s' = sched_post ok L s ns r p q s'"
    unfolding sched_post_def by (simp_all cong: option.case_cong)
qed

lemma current_cases:
  assumes "kinv ok L s ns cs"
  shows "current s \<in> insert (idleProcPCBNode s) (set cs)"
  using kinvD(3,11) [OF assms] by (auto simp: table_def)

context process_table
begin

lemma schedule_quantum:
  assumes "kinv ok L s ns cs" "proc s (current s) = Some c" "state c = RUNNING" "quantumsLeft s > 0"
  shows "\<exists>s'. schedule M rsp0 rbp0 s = Some (rsp0, s') \<and> kinv ok L s' ns cs \<and>
    current s' = current s \<and> quantumsLeft s' = quantumsLeft s - 1 \<and>
    proc s' (current s) = Some (c\<lparr>rsp := rsp0, rbp := rbp0\<rparr>)"
proof -
  obtain x where x: "nodes s (current s) = Some x" "pcbs s (pcb x) = Some c"
    using assms(2) by (auto simp: proc_def split: bind_splits)
  let ?s = "s\<lparr>pcbs := (pcbs s)(pcb x \<mapsto> c\<lparr>rsp := rsp0, rbp := rbp0\<rparr>), quantumsLeft := quantumsLeft s - 1\<rparr>"
  have "kinv ok L ?s ns cs"
    using kinv_upd [OF assms(1) current_cases [OF assms(1)] x, of "\<lambda>c. c\<lparr>rsp := rsp0, rbp := rbp0\<rparr>"]
    by (simp add: keeps_blocks_def)
  moreover have "schedule M rsp0 rbp0 s = Some (rsp0, ?s)"
    using x assms(3,4) by (simp add: schedule_def currentPCB_def upd_pcb_def)
  ultimately show ?thesis using x(1) by (simp add: proc_def)
qed

lemma schedule_switch:
  assumes inv: "kinv ok L s ns cs" and c: "proc s (current s) = Some c"
    and out: "\<not> (state c = RUNNING \<and> quantumsLeft s > 0)"
  shows "\<exists>q s'. schedule M rsp0 rbp0 s = Some (q, s') \<and>
    sched_post ok L (save_current rsp0 rbp0 s) ns (tl cs @ [hd cs]) [] q s'"
proof -
  obtain x where x: "nodes s (current s) = Some x" "pcbs s (pcb x) = Some c"
    using c by (auto simp: proc_def split: bind_splits)
  define s2 where "s2 = save_current rsp0 rbp0 s"
  have s2: "s2 = s\<lparr>pcbs := (pcbs s)(pcb x \<mapsto> interrupted rsp0 rbp0 c)\<rparr>"
    using x by (simp add: s2_def save_current_def)
  have inv2: "kinv ok L s2 ns cs"
    unfolding s2
    by (rule kinv_upd [OF inv current_cases [OF inv] x]) (simp add: keeps_blocks_def interrupted_def)
  have cs: "hd cs # tl cs = cs" using kinvD(11) [OF inv] by simp
  define s3 where "s3 = s2\<lparr>current := hd cs\<rparr>"
  have inv3: "kinv ok L s3 ns (hd cs # tl cs)" and
    to3: "(if current s2 = idleProcPCBNode s2 then nextPCB s2 else Some s2) = Some s3"
  proof -
    have "current s2 = hd cs \<or> current s2 = idleProcPCBNode s2"
      using kinvD(3) [OF inv2] by (simp add: table_def)
    moreover have "current s2 = hd cs \<Longrightarrow> s3 = s2" by (simp add: s3_def)
    moreover have "hd cs \<noteq> idleProcPCBNode s2" using kinvD(8,11) [OF inv2] hd_in_set by metis
    ultimately show "kinv ok L s3 ns (hd cs # tl cs)"
      "(if current s2 = idleProcPCBNode s2 then nextPCB s2 else Some s2) = Some s3"
      using inv2 nextPCB_idle [OF inv2, folded s3_def] cs by (cases "current s2 = hd cs"; simp)+
  qed
  let ?s4 = "s3\<lparr>prev := hd cs, current := hd (tl cs @ [hd cs])\<rparr>"
  have cur3: "current s3 = hd cs" by (simp add: s3_def)
  have next3: "nextPCB s3 = Some ?s4" by (rule nextPCB_ok [OF inv3 cur3])
  have "kinv ok L ?s4 ns ((tl cs @ [hd cs]) @ [])" using kinv_move [OF inv3] by simp
  from schedLoop_ok [OF this] obtain q s' where
    loop: "schedLoop M (hd cs) ?s4 = Some (q, s')"
      "sched_post ok L ?s4 ns (tl cs @ [hd cs]) [] q s'" by auto
  have "schedule M rsp0 rbp0 s = do {
      s3 \<leftarrow> (if current s2 = idleProcPCBNode s2 then nextPCB s2 else Some s2);
      s4 \<leftarrow> nextPCB s3; schedLoop M (current s3) s4 }"
    using x out by (auto simp: schedule_def currentPCB_def upd_pcb_def s2 interrupted_def)
  then have "schedule M rsp0 rbp0 s = Some (q, s')"
    using to3 next3 loop(1) cur3 by simp
  moreover have "sched_post ok L s2 ns (tl cs @ [hd cs]) [] q s'"
    using loop(2) by (simp add: sched_post_fields s3_def)
  ultimately show ?thesis by (auto simp: s2_def)
qed

end

end
