(* ===== verification/SchedCreate.thy ===== *)
theory SchedCreate
  imports SchedInv
begin

text \<open>
  Creating processes under the invariant of theory \<open>SchedInv\<close>: what \<open>createPCBNode\<close> and
  \<open>addPCB\<close> do when the memory manager returns memory, and on every failure of it.
\<close>

section \<open>The record of a new process\<close>

definition new_pcb ::
  "u32 \<Rightarrow> u8 \<Rightarrow> State \<Rightarrow> addr \<Rightarrow> addr \<Rightarrow> addr \<Rightarrow> addr \<Rightarrow> ProcessPipes \<Rightarrow> addr \<Rightarrow> PCB" where
  "new_pcb pid0 prio st stack0 rsp0 rbp0 name0 pipes0 parent =
     \<lparr>pid = pid0, priority = prio, state = st, rsp = rsp0, rbp = rbp0, pname = name0,
      waitedProcessExitCode = 0, waitingForMe = replicate 10 NULL, parentProc = parent,
      wfmLen = 0, stack = stack0, pipes = pipes0, heap = NULL, heapFreed = False,
      freeListStart = NULL, freeListEnd = NULL, bytesAvailable = 0\<rparr>"

definition parent_of :: "'h kernel \<Rightarrow> addr option" where
  "parent_of s = (if current s = NULL then Some (lowWord s) else currentPCB s)"

lemma kmalloc_kheap: "kmalloc M n (s\<lparr>kheap := h\<rparr>) = map_option (\<lambda>(p, h'). (p, s\<lparr>kheap := h'\<rparr>)) (mm_malloc M n h)"
  by (auto simp: kmalloc_def split: option.splits bind_splits)

lemma kmalloc_eq: "kmalloc M n s = map_option (\<lambda>(p, h'). (p, s\<lparr>kheap := h'\<rparr>)) (mm_malloc M n (kheap s))"
  using kmalloc_kheap [where h = "kheap s" and s = s] by simp

lemma parent_kheap [simp]: "parent_of (s\<lparr>kheap := h\<rparr>) = parent_of s"
  by (simp add: parent_of_def currentPCB_def)

lemma kfree_kheap:
  "mm_free M p h = Some h' \<Longrightarrow> kfree M p (s\<lparr>kheap := h\<rparr>) = Some (without {p} h' s)"
  by (auto simp: kfree_def without_def restrict_map_def fun_eq_iff)

lemma kfree_without:
  "mm_free M p h = Some h' \<Longrightarrow> kfree M p (without A h s) = Some (without (insert p A) h' s)"
  by (simp add: kfree_def without_def restrict_del del: fun_upd_None_restrict)

text \<open>The two objects a creation adds.\<close>

definition with_process :: "addr \<Rightarrow> addr \<Rightarrow> PCB \<Rightarrow> 'h \<Rightarrow> 'h kernel \<Rightarrow> 'h kernel" where
  "with_process node p c h s = s\<lparr>kheap := h, pcbs := (pcbs s)(p \<mapsto> c),
     nodes := (nodes s)(node \<mapsto> \<lparr>pcb = p, nextNode = NULL\<rparr>)\<rparr>"

lemmas create_simps = createPCBNode_def kmalloc_eq new_pcb_def [symmetric] parent_of_def [symmetric]

lemma sizes [simp]:
  "unat sizeof_PCBNode < 2 ^ 63" "unat sizeof_PCB < 2 ^ 63" "unat sizeof_Block < 2 ^ 63"
  "unat (ucast PROCESS_HEAP_SIZE :: u64) < 2 ^ 63" "unat stackSize < 2 ^ 63"
  by (simp_all add: sizeof_PCBNode_def sizeof_PCB_def sizeof_Block_def PROCESS_HEAP_SIZE_def
      stackSize_def push_bit_eq_mult)

text \<open>The first three allocations of \<open>createPCBNode\<close> succeed and the fourth does not.\<close>

definition last_malloc_fails :: "'h mm \<Rightarrow> 'h \<Rightarrow> bool" where
  "last_malloc_fails M h \<longleftrightarrow> (\<exists>node h1 p h2 hp h3 h4.
     mm_malloc M sizeof_PCBNode h = Some (node, h1) \<and> node \<noteq> NULL \<and>
     mm_malloc M sizeof_PCB h1 = Some (p, h2) \<and> p \<noteq> NULL \<and>
     mm_malloc M (ucast PROCESS_HEAP_SIZE) h2 = Some (hp, h3) \<and> hp \<noteq> NULL \<and>
     mm_malloc M sizeof_Block h3 = Some (NULL, h4))"

context process_table
begin

text \<open>
  Creating an ordinary process. The fault is the read of \<open>pcb->heap\<close> after \<open>globalFree(pcb)\<close>,
  reached when the fourth allocation fails; that path also never frees the private heap.
\<close>

lemma createPCBNode_cases:
  assumes ok: "ok L (kheap s)" and parent: "parent_of s = Some par" and pid0: "pid0 \<noteq> IDLE_PID"
  obtains (fault) "createPCBNode M pid0 prio st stack0 rsp0 rbp0 name0 pipes0 s = None"
      "last_malloc_fails M (kheap s)"
  | (null) A h' where
      "createPCBNode M pid0 prio st stack0 rsp0 rbp0 name0 pipes0 s = Some (NULL, without A h' s)"
      "A \<inter> dom L = {}" "ok L h'"
  | (new) node p hp fl fe n h' c where
      "createPCBNode M pid0 prio st stack0 rsp0 rbp0 name0 pipes0 s =
         Some (node, with_process node p c h' s)"
      "c = (new_pcb pid0 prio st stack0 rsp0 rbp0 name0 pipes0 par)
         \<lparr>heap := hp, freeListStart := fl, freeListEnd := fe, bytesAvailable := n\<rparr>"
      "distinct [hp, fl, p, node]" "set [hp, fl, p, node] \<inter> dom L = {}"
      "NULL \<notin> set [hp, fl, p, node]"
      "ok (L(node \<mapsto> sizeof_PCBNode, p \<mapsto> sizeof_PCB, hp \<mapsto> ucast PROCESS_HEAP_SIZE,
             fl \<mapsto> sizeof_Block)) h'"
proof -
  let ?run = "createPCBNode M pid0 prio st stack0 rsp0 rbp0 name0 pipes0 s"
  let ?c = "new_pcb pid0 prio st stack0 rsp0 rbp0 name0 pipes0 par"
  from malloc_cases [OF ok sizes(1)] show thesis
  proof cases
    case a: (1 h1)
    have "?run = Some (NULL, without {} h1 s)" using a by (simp add: create_simps without_def)
    then show ?thesis using null [of "{}" h1] a by simp
  next
    case a: (2 node h1)
    from malloc_cases [OF a(4) sizes(2)] show ?thesis
    proof cases
      case b: (1 h2)
      obtain h3 where h3: "mm_free M node h2 = Some h3" "ok (L(node := None)) h3"
        using free_ok [OF b(2), of node] by auto
      have "?run = Some (NULL, without {node} h3 s)"
        using a b h3 by (simp add: create_simps kfree_kheap)
      moreover have "L(node := None) = L" using a(3) by auto
      ultimately show ?thesis using null [of "{node}" h3] a(3) h3(2) by auto
    next
      case b: (2 p h2)
      from malloc_cases [OF b(4) sizes(4)] show ?thesis
      proof cases
        case d: (1 h3)
        obtain h4 where h4: "mm_free M node h3 = Some h4" "ok (L(p \<mapsto> sizeof_PCB)) h4"
          using free_ok [OF d(2), of node] a(3) b(3)
          by (auto simp: fun_upd_twist fun_upd_idem)
        obtain h5 where h5: "mm_free M p h4 = Some h5" "ok L h5"
          using free_ok [OF h4(2), of p] b(3) by (auto simp: fun_upd_idem)
        have "?run = Some (NULL, without {p, node} h5 s)"
          using a b d h4 h5 parent pid0 by (simp add: create_simps kfree_kheap kfree_without)
        then show ?thesis using null [of "{p, node}" h5] a(3) b(3) h5(2) by auto
      next
        case d: (2 hp h3)
        from malloc_cases [OF d(4) sizes(3)] show ?thesis
        proof cases
          case e: (1 h4)
          have "?run = None"
            using a(1,2) b(1,2) d(1,2) e(1) parent pid0
            by (auto simp: create_simps kfree_def split: bind_splits)
          moreover have "last_malloc_fails M (kheap s)"
            using a(1,2) b(1,2) d(1,2) e(1) unfolding last_malloc_fails_def by blast
          ultimately show ?thesis using fault by blast
        next
          case e: (2 fl h4)
          obtain fe n h5 where i: "mm_init M hp fl h4 = (fe, n, h5)" by (metis surj_pair)
          have "?run = Some (node, with_process node p
             (?c\<lparr>heap := hp, freeListStart := fl, freeListEnd := fe, bytesAvailable := n\<rparr>) h5 s)"
            using a b d e i parent pid0
            by (simp add: create_simps with_process_def Let_def)
          moreover have "ok (L(node \<mapsto> sizeof_PCBNode, p \<mapsto> sizeof_PCB,
              hp \<mapsto> ucast PROCESS_HEAP_SIZE, fl \<mapsto> sizeof_Block)) h5"
            by (rule init_ok [OF e(4) _ _ i]) (use e(3) in auto)
          ultimately show ?thesis
            using a(2,3) b(2,3) d(2,3) e(2,3)
            by (intro new [where hp = hp and fl = fl and fe = fe and n = n and node = node and p = p and h' = h5]) (auto simp: sorted_wrt.simps)
        qed
      qed
    qed
  qed
qed

end

section \<open>Appending to the list\<close>

lemma ring_append:
  assumes ring: "ring N ns" and dist: "distinct ns" "node \<notin> set ns" and d: "N (last ns) = Some d"
  shows "ring (N(node \<mapsto> \<lparr>pcb = p, nextNode = hd ns\<rparr>, last ns \<mapsto> d\<lparr>nextNode := node\<rparr>)) (ns @ [node])"
    (is "ring ?N _")
proof -
  have ns: "ns \<noteq> []" using ring by (auto simp: ring_def)
  then obtain ms where ms: "ns = ms @ [last ns]" by (metis append_butlast_last_id)
  obtain y where y: "lseg N (hd ns) ms y" "y = last ns"
    using ring ms lseg_append [of N "hd ns" ms "[last ns]" "hd ns"] by (auto simp: ring_def)
  have "last ns \<notin> set ms" using dist(1) ms by (metis distinct_append not_distinct_conv_prefix)
  moreover have "node \<notin> set ms" "node \<noteq> last ns" using dist(2) ms ns by (metis Un_iff set_append, auto)
  ultimately have "lseg ?N (hd ns) ms y"
    using y(1) by (subst lseg_cong [of ms ?N N]) auto
  then have "lseg ?N (hd ns) (ms @ [last ns, node]) (hd ns)"
    using y(2) \<open>node \<noteq> last ns\<close> by (simp add: lseg_append)
  moreover have app: "ns @ [node] = ms @ [last ns, node]" using ms by simp
  ultimately show ?thesis using ns unfolding ring_def app [symmetric] by simp
qed

lemma rotated_split:
  assumes "rotated ns cs" "ns \<noteq> []" "distinct ns"
  obtains us vs where "ns = us @ vs" "cs = vs @ us" "vs \<noteq> []" "last cs = last ns \<longleftrightarrow> us = []"
proof -
  obtain us vs where uv: "ns = us @ vs" "cs = vs @ us" using assms(1) by (auto simp: rotated_def)
  show thesis
  proof (cases "vs = []")
    case True
    with uv assms that [of "[]" ns] show ?thesis by simp
  next
    case False
    have "last us \<noteq> last vs" if "us \<noteq> []"
      using assms(3) uv(1) last_in_set [OF that] last_in_set [OF False] by auto
    then have "last cs = last ns \<longleftrightarrow> us = []" using uv False by (cases "us = []") auto
    with uv False that show ?thesis by blast
  qed
qed

text \<open>The state after a process is linked at the tail.\<close>

definition linked :: "addr \<Rightarrow> addr \<Rightarrow> PCB \<Rightarrow> 'h \<Rightarrow> PCBNode \<Rightarrow> 'h kernel \<Rightarrow> 'h kernel" where
  "linked node p c h d s = s\<lparr>kheap := h, pcbs := (pcbs s)(p \<mapsto> c),
     nodes := (nodes s)(node \<mapsto> \<lparr>pcb = p, nextNode = head s\<rparr>, tail s \<mapsto> d\<lparr>nextNode := node\<rparr>),
     prev := (if prev s = tail s then node else prev s), tail := node, pcbLen := pcbLen s + 1\<rparr>"

lemma linked_keeps:
  assumes inv: "kinv ok L s ns cs" and new: "node \<notin> dom L" "p \<notin> dom L" "node \<noteq> p"
    and d: "nodes s (tail s) = Some d" and n: "n \<in> insert (idleProcPCBNode s) (set cs)"
  shows "proc (linked node p c h d s) n = proc s n" "owns (linked node p c h d s) n = owns s n"
proof -
  obtain x e where x: "nodes s n = Some x" "pcbs s (pcb x) = Some e" "proc s n = Some e"
    using proc_some [OF inv n] by auto
  have "set (owns s n) \<subseteq> dom L"
    using n kinvD(5,12) [OF inv] by (auto simp: owned_def)
  then have "n \<noteq> node" "pcb x \<noteq> p" using owns_self [of n s] owns_pcb [OF x(1)] new by auto
  then have "pcb (the (nodes (linked node p c h d s) n)) = pcb x"
    "nodes (linked node p c h d s) n \<noteq> None" "pcbs (linked node p c h d s) (pcb x) = Some e"
    using x d by (auto simp: linked_def)
  then show "proc (linked node p c h d s) n = proc s n" "owns (linked node p c h d s) n = owns s n"
    using x by (auto simp: proc_def owns_def)
qed

lemma linked_new:
  assumes "node \<noteq> tail s" "pid c \<noteq> IDLE_PID" "\<not> heapFreed c"
  shows "proc (linked node p c h d s) node = Some c"
    "owns (linked node p c h d s) node = [heap c, freeListStart c, stack c, p, node]"
  using assms by (auto simp: linked_def proc_def owns_def)

lemma linked_kinv:
  assumes inv: "kinv ok L s ns cs" and L': "ok L' h" "NULL \<notin> dom L'" "L \<subseteq>\<^sub>m L'"
    and new: "node \<notin> dom L" "p \<notin> dom L" "heap c \<notin> dom L" "freeListStart c \<notin> dom L"
      "stack c \<in> dom L" "stack c \<notin> set (owned s ns)"
      "distinct [heap c, freeListStart c, p, node]"
      "{heap c, freeListStart c, p, node} \<subseteq> dom L'"
    and c: "pid c \<noteq> IDLE_PID" "\<not> heapFreed c"
    and d: "nodes s (tail s) = Some d"
  shows "\<exists>us vs. ns = us @ vs \<and> cs = vs @ us \<and> vs \<noteq> [] \<and>
    kinv ok L' (linked node p c h d s) (ns @ [node]) (vs @ [node] @ us)"
proof -
  let ?s = "linked node p c h d s"
  note D = kinvD [OF inv]
  note T = D(3) [unfolded table_def]
  have ns: "ns \<noteq> []" using D(11,12) by auto
  from rotated_split [OF _ ns D(6)] T obtain us vs where uv: "ns = us @ vs" "cs = vs @ us"
    "vs \<noteq> []" "last cs = last ns \<longleftrightarrow> us = []" by metis
  have own_L: "set (owns s n) \<subseteq> dom L" if "n \<in> insert (idleProcPCBNode s) (set cs)" for n
    using that D(5,12) by (auto simp: owned_def)
  have in_L: "insert (idleProcPCBNode s) (set cs) \<subseteq> dom L"
    using own_L owns_self by blast
  then have node: "node \<notin> set cs" "node \<noteq> idleProcPCBNode s" using new(1) by auto
  have tail: "tail s = last ns" "tail s \<in> set cs" using T D(12) ns by auto
  note keeps = linked_keeps [OF inv new(1,2) _ d, of _ c h]
  have np: "node \<noteq> p" using new(7) by auto
  have at: "node \<noteq> tail s" using node tail by auto
  have ring: "ring (nodes ?s) (ns @ [node])"
  proof -
    have "ring (nodes s) ns"
      using T uv ring_rotate [of "nodes s" vs us] by (cases "us = []") auto
    then show ?thesis
      using ring_append [of "nodes s" ns node d p] D(6) node(1) D(12) d T
      by (simp add: linked_def)
  qed
  then have ring': "ring (nodes ?s) (vs @ [node] @ us)"
    using ring_rotate [of "nodes ?s" us "vs @ [node]"] uv by (cases "us = []") auto
  have rot: "rotated (ns @ [node]) (vs @ [node] @ us)"
    unfolding rotated_def using uv by (intro exI [of _ us] exI [of _ "vs @ [node]"]) simp
  have prev: "prev ?s = last (vs @ [node] @ us)"
    using T uv tail by (cases "us = []") (auto simp: linked_def)
  have idle: "idleProcPCBNode ?s = idleProcPCBNode s" "current ?s = current s"
    by (simp_all add: linked_def)
  have procs: "\<forall>n \<in> insert (idleProcPCBNode s) (set cs). proc s n \<noteq> None"
    "\<forall>n \<in> set cs. \<forall>c. proc s n = Some c \<longrightarrow> pid c \<noteq> IDLE_PID" using T by auto
  have set': "set (vs @ [node] @ us) = insert node (set cs)" using uv by auto
  have table: "table ?s (ns @ [node]) (vs @ [node] @ us)"
  proof -
    have "\<forall>n \<in> insert (idleProcPCBNode ?s) (set (vs @ [node] @ us)). proc ?s n \<noteq> None"
      "\<forall>n \<in> set (vs @ [node] @ us). \<forall>c. proc ?s n = Some c \<longrightarrow> pid c \<noteq> IDLE_PID"
      using procs keeps(1) [OF np] linked_new(1) [OF at c, of p h d] c(1) unfolding set' idle
      by auto
    moreover have "current ?s = hd (vs @ [node] @ us) \<or> current ?s = idleProcPCBNode ?s"
      using T uv(2,3) unfolding idle by auto
    moreover have "head ?s = hd (ns @ [node])" "tail ?s = last (ns @ [node])"
      "pcbLen ?s = int (length (ns @ [node]))"
      using T ns by (simp_all add: linked_def)
    ultimately show ?thesis unfolding table_def using ring' rot prev by blast
  qed
  have same: "map (owns ?s) (idleProcPCBNode s # ns) = map (owns s) (idleProcPCBNode s # ns)"
    using keeps(2) [OF np] D(12) by (intro map_cong) auto
  have "owned ?s (ns @ [node]) =
      concat (map (owns ?s) (idleProcPCBNode s # ns)) @ owns ?s node"
    by (simp add: owned_def idle)
  then have own: "owned ?s (ns @ [node]) = owned s ns @ [heap c, freeListStart c, stack c, p, node]"
    unfolding same linked_new(2) [OF at c, of p h d] by (simp add: owned_def)
  have "distinct (owned ?s (ns @ [node]))"
    using D(4,5) new unfolding own by auto
  moreover have "set (owned ?s (ns @ [node])) \<subseteq> dom L'"
    using D(5) new(5,8) map_le_implies_dom_le [OF L'(3)] unfolding own by auto
  moreover have "kheap ?s = h" by (simp add: linked_def)
  ultimately have "kinv ok L' ?s (ns @ [node]) (vs @ [node] @ us)"
    using L'(1,2) table by (simp add: kinv_def)
  with uv show ?thesis by blast
qed

lemma parent_known: "kinv ok L s ns cs \<Longrightarrow> \<exists>par. parent_of s = Some par"
  using proc_some [OF _ current_cases] kinvD(9,10,11)
  by (fastforce simp: parent_of_def currentPCB_def)

lemma kinv_without:
  assumes inv: "kinv ok L s ns cs" and A: "A \<inter> dom L = {}" and h: "ok L h"
  shows "kinv ok L (without A h s) ns cs" (is "kinv ok L ?s ns cs")
proof -
  have "nodes ?s n = nodes s n \<and> (\<forall>x. nodes s n = Some x \<longrightarrow> pcbs ?s (pcb x) = pcbs s (pcb x))"
    if n: "n \<in> insert (idleProcPCBNode s) (set cs)" for n
  proof -
    have "set (owns s n) \<subseteq> dom L"
      using n kinvD(5,12) [OF inv] by (auto simp: owned_def)
    then show ?thesis
      using owns_self [of n s] owns_pcb [of s n] A by (auto simp: without_def restrict_map_def)
  qed
  note keep = this
  have procs: "proc ?s n = proc s n" "owns ?s n = owns s n"
    if "n \<in> insert (idleProcPCBNode s) (set cs)" for n
    using keep [OF that] by (auto simp: proc_def owns_def split: option.splits bind_splits)
  have "map (owns ?s) (idleProcPCBNode s # ns) = map (owns s) (idleProcPCBNode s # ns)"
    using procs(2) kinvD(12) [OF inv] by (intro map_cong) auto
  moreover have "idleProcPCBNode ?s = idleProcPCBNode s" by (simp add: without_def)
  ultimately have own: "owned ?s ns = owned s ns" unfolding owned_def by metis
  have "ring (nodes ?s) cs"
    using kinvD(3) [OF inv] lseg_cong [of cs "nodes ?s" "nodes s"] keep
    by (auto simp: table_def ring_def)
  then have "table ?s ns cs"
    using kinvD(3) [OF inv] procs(1) by (simp add: table_def without_def)
  then show ?thesis using inv own h by (simp add: kinv_def without_def)
qed

context process_table
begin

text \<open>
  Adding a process: the new node comes last in the order of pids, right before the head in the
  ring; every other process is as before. When memory runs out nothing changes, except on the
  fourth allocation, where a freed block is read.
\<close>

lemma addPCB_cases:
  assumes inv: "kinv ok L s ns cs" and pid0: "pid0 \<noteq> IDLE_PID"
    and st: "stack0 \<in> dom L" "stack0 \<notin> set (owned s ns)"
  obtains (fault) "addPCB M pid0 stack0 rsp0 rbp0 name0 pipes0 s = None"
      "last_malloc_fails M (kheap s)"
  | (null) A h' where
      "addPCB M pid0 stack0 rsp0 rbp0 name0 pipes0 s = Some (False, without A h' s)"
      "kinv ok L (without A h' s) ns cs"
  | (new) node p c h' d L' us vs where
      "addPCB M pid0 stack0 rsp0 rbp0 name0 pipes0 s = Some (True, linked node p c h' d s)"
      "nodes s (tail s) = Some d" "ns = us @ vs" "cs = vs @ us" "vs \<noteq> []"
      "kinv ok L' (linked node p c h' d s) (ns @ [node]) (vs @ [node] @ us)"
      "node \<notin> dom L" "p \<notin> dom L" "node \<noteq> p" "node \<noteq> tail s"
      "pid c = pid0" "priority c = 1" "state c = READY" "stack c = stack0" "rsp c = rsp0" "rbp c = rbp0"
      "\<not> heapFreed c" "parent_of s = Some (parentProc c)" "pipes c = pipes0" "pname c = name0"
proof -
  obtain par where par: "parent_of s = Some par" using parent_known [OF inv] by blast
  note D = kinvD [OF inv]
  have ns: "ns \<noteq> []" using D(11,12) by auto
  have ht: "head s \<in> set cs" "tail s \<in> set cs"
    using D(3,12) ns by (auto simp: table_def)
  have head0: "head s \<noteq> NULL" using ht D(9) by auto
  obtain d where d: "nodes s (tail s) = Some d" using proc_some [OF inv] ht by blast
  from createPCBNode_cases [OF D(1) par pid0, of 1 READY stack0 rsp0 rbp0 name0 pipes0]
  show thesis
  proof cases
    case 1
    then show ?thesis using fault by (simp add: addPCB_def)
  next
    case n: (2 A h')
    have "addPCB M pid0 stack0 rsp0 rbp0 name0 pipes0 s = Some (False, without A h' s)"
      using n(1) by (simp add: addPCB_def)
    then show ?thesis using null kinv_without [OF inv n(2,3)] by blast
  next
    case n: (3 node p hp fl fe n h' c)
    let ?L = "L(node \<mapsto> sizeof_PCBNode, p \<mapsto> sizeof_PCB, hp \<mapsto> ucast PROCESS_HEAP_SIZE,
        fl \<mapsto> sizeof_Block)"
    have L: "NULL \<notin> dom ?L" "L \<subseteq>\<^sub>m ?L"
      using n(4,5) D(2) by (auto simp: map_le_def)
    have c: "pid c = pid0" "\<not> heapFreed c" "heap c = hp" "freeListStart c = fl" "stack c = stack0"
      using n(2) by (simp_all add: new_pcb_def)
    have tail_L: "tail s \<in> dom L"
    proof -
      have "tail s \<in> set (owned s ns)"
        using ht(2) D(12) owns_self [of "tail s" s] by (auto simp: owned_def)
      then show ?thesis using D(5) by blast
    qed
    then have at: "node \<noteq> tail s" using n(4) by auto
    have "\<exists>us vs. ns = us @ vs \<and> cs = vs @ us \<and> vs \<noteq> [] \<and>
        kinv ok ?L (linked node p c h' d s) (ns @ [node]) (vs @ [node] @ us)"
      by (rule linked_kinv [OF inv n(6) L _ _ _ _ _ _ _ _ _ _ d])
        (use n c st pid0 in auto)
    then obtain us vs where uv: "ns = us @ vs" "cs = vs @ us" "vs \<noteq> []"
      "kinv ok ?L (linked node p c h' d s) (ns @ [node]) (vs @ [node] @ us)" by blast
    have run: "addPCB M pid0 stack0 rsp0 rbp0 name0 pipes0 s = Some (True, linked node p c h' d s)"
      using n(1,5) head0 d at
      by (auto simp: addPCB_def with_process_def upd_node_def linked_def Let_def fun_upd_twist)
    have fresh: "node \<notin> dom L" "p \<notin> dom L" "node \<noteq> p" using n(3,4) by auto
    have "priority c = 1" "state c = READY" "rsp c = rsp0" "rbp c = rbp0"
      "parent_of s = Some (parentProc c)" "pipes c = pipes0" "pname c = name0"
      using n(2) par by (simp_all add: new_pcb_def)
    then show ?thesis by (intro new [OF run d uv fresh at c(1) _ _ c(5) _ _ c(2)])
  qed
qed

end

end
