(* ===== verification/SchedArgs.thy ===== *)
theory SchedArgs
  imports Scheduler
begin

text \<open>
  The arguments of a new process (\<open>createProcess\<close> of \<open>Kernel/c/scheduler.c\<close>): the block of the
  stack holds the array \<open>argv\<close> at its low end and the strings after it, each pointer pointing
  to its string, and the first frame at its high end.
\<close>

section \<open>Words in memory\<close>

lemma length_le64 [simp]: "length (le64 v) = 8"
  by (simp add: le64_def)

lemma read_le64_le64: "read_le64 (le64 v @ bs) = v"
  unfolding read_le64_def by (rule word_of_bytes) (simp_all add: le64_def nth_append)

section \<open>Writing at an offset\<close>

lemma write_at_Some:
  assumes "write_at off bs buf = Some buf'"
  shows "length buf' = length buf" "take (length bs) (drop off buf') = bs"
    "j < off \<or> off + length bs \<le> j \<Longrightarrow> j < length buf \<Longrightarrow> buf' ! j = buf ! j"
  using assms by (auto simp: write_at_def nth_append min_def split: if_splits)

lemma take_drop_cong:
  assumes "length buf' = length buf" "off + n \<le> length buf"
    and "\<And>j. off \<le> j \<Longrightarrow> j < off + n \<Longrightarrow> buf' ! j = buf ! j"
  shows "take n (drop off buf') = take n (drop off buf)"
  using assms by (intro nth_equalityI) auto

lemma cstr_take: "cstr s = take (length (cstr s)) s"
  unfolding cstr_def by (metis takeWhile_eq_take)

lemma cstr_of_prefix: "take (Suc n) s = w @ [0] \<Longrightarrow> 0 \<notin> set w \<Longrightarrow> cstr s = w \<and> terminated s"
  using cstr_append_zero [of w "drop (Suc n) s"] terminated_append_zero [of w "drop (Suc n) s"]
  by (metis append.assoc append_Cons append_Nil append_take_drop_id)

section \<open>The arguments\<close>

definition arg_len :: "byte list \<Rightarrow> nat" where
  "arg_len a = min MAX_NAME_LENGTH (length (cstr a))"

definition args_size :: "byte list list \<Rightarrow> nat" where
  "args_size argv = sum_list (map (\<lambda>a. arg_len a + 1) argv)"

fun args_at :: "addr \<Rightarrow> nat \<Rightarrow> nat \<Rightarrow> byte list list \<Rightarrow> byte list \<Rightarrow> bool" where
  "args_at e i off [] buf \<longleftrightarrow> True"
| "args_at e i off (a # argv) buf \<longleftrightarrow>
     take 8 (drop (8 * i) buf) = le64 (e + word_of_nat off) \<and>
     take (Suc (arg_len a)) (drop off buf) = take (arg_len a) (cstr a) @ [0] \<and>
     args_at e (Suc i) (off + arg_len a + 1) argv buf"

lemma args_at_bound: "args_at e i off argv buf \<Longrightarrow> argv \<noteq> [] \<Longrightarrow> off < length buf"
  by (cases argv) (auto dest: arg_cong [of _ _ length])

theorem copyArgs_ok:
  "\<forall>a \<in> set argv. terminated a \<Longrightarrow> 8 * (i + length argv) \<le> off \<Longrightarrow>
     off + args_size argv \<le> length buf \<Longrightarrow>
     \<exists>buf'. copyArgs e i off argv buf = Some buf' \<and> length buf' = length buf \<and>
       args_at e i off argv buf' \<and>
       (\<forall>j < length buf. j < 8 * i \<or> 8 * (i + length argv) \<le> j \<and> j < off \<or>
          off + args_size argv \<le> j \<longrightarrow> buf' ! j = buf ! j)"
proof (induction argv arbitrary: i off buf)
  case (Cons a argv)
  let ?n = "arg_len a"
  let ?off = "off + ?n + 1"
  have room: "8 * i + 8 \<le> off" "?off + args_size argv \<le> length buf"
    "8 * (Suc i + length argv) \<le> ?off" "8 * (Suc i + length argv) \<le> off"
    using Cons.prems by (simp_all add: args_size_def)
  have "8 * i + length (le64 (e + word_of_nat off)) \<le> length buf" using room by simp
  then obtain buf1 where b1: "write_at (8 * i) (le64 (e + word_of_nat off)) buf = Some buf1"
    by (simp add: write_at_def)
  note w = write_at_Some [OF b1]
  have n: "min MAX_NAME_LENGTH (length (cstr a)) = ?n" by (simp add: arg_len_def)
  let ?w = "take ?n (cstr a)"
  have fits: "length (drop off buf1) > ?n" using w(1) room(2) by simp
  have cp: "strncpy (drop off buf1) a (int MAX_NAME_LENGTH) =
      Some (?w @ 0 # drop (Suc ?n) (drop off buf1), int ?n)"
  proof -
    have "take MAX_NAME_LENGTH (cstr a) = ?w" by (simp add: arg_len_def min_def)
    then show ?thesis
      using strncpy_from_returns [of MAX_NAME_LENGTH a 0 "drop off buf1", unfolded n]
        Cons.prems(1) fits
      by (simp add: strncpy_def)
  qed
  define buf2 where "buf2 = take off buf1 @ ?w @ 0 # drop (Suc ?n) (drop off buf1)"
  have lw: "length ?w = ?n" by (simp add: arg_len_def)
  have len2: "length buf2 = length buf"
    using w(1) room(2) lw by (simp add: buf2_def)
  have nth2: "buf2 ! j = buf1 ! j" if "j < off \<or> ?off \<le> j" "j < length buf" for j
  proof (cases "j < off")
    case True
    then show ?thesis using that(2) w(1) by (simp add: buf2_def nth_append)
  next
    case False
    with that(1) obtain k where j: "j = off + (?n + Suc k)" by (auto simp: le_iff_add)
    have "length (take off buf1) = off" using room(2) w(1) by simp
    then have "buf2 ! j = (?w @ 0 # drop (Suc ?n) (drop off buf1)) ! (?n + Suc k)"
      unfolding buf2_def j by (metis nth_append_length_plus)
    also have "\<dots> = drop (Suc ?n) (drop off buf1) ! k"
      using lw nth_append_length_plus [of ?w "0 # drop (Suc ?n) (drop off buf1)" "Suc k"] by simp
    also have "\<dots> = drop (off + Suc ?n) buf1 ! k" by (simp add: add.commute)
    also have "\<dots> = buf1 ! (off + Suc ?n + k)" using that(2) w(1) j by (intro nth_drop) simp
    also have "off + Suc ?n + k = j" using j by simp
    finally show ?thesis .
  qed
  have str2: "take (Suc ?n) (drop off buf2) = ?w @ [0]"
    using w(1) room(2) lw by (simp add: buf2_def)
  obtain buf' where b': "copyArgs e (Suc i) ?off argv buf2 = Some buf'" "length buf' = length buf"
    "args_at e (Suc i) ?off argv buf'"
    "\<forall>j < length buf. j < 8 * Suc i \<or> 8 * (Suc i + length argv) \<le> j \<and> j < ?off \<or>
       ?off + args_size argv \<le> j \<longrightarrow> buf' ! j = buf2 ! j"
    using Cons.IH [of "Suc i" ?off buf2] Cons.prems(1) room len2 by auto
  have "copyArgs e i off (a # argv) buf = Some buf'"
    using b1 cp b'(1) by (simp add: buf2_def add.assoc)
  moreover have "take 8 (drop (8 * i) buf') = take 8 (drop (8 * i) buf1)"
    by (rule take_drop_cong) (use b'(2,4) nth2 w(1) room in auto)
  then have "take 8 (drop (8 * i) buf') = le64 (e + word_of_nat off)" using w(2) by simp
  moreover have "take (Suc ?n) (drop off buf') = take (Suc ?n) (drop off buf2)"
    by (rule take_drop_cong) (use b'(2,4) len2 room in auto)
  then have "take (Suc ?n) (drop off buf') = ?w @ [0]" using str2 by simp
  moreover have "buf' ! j = buf ! j"
    if "j < length buf" "j < 8 * i \<or> 8 * (i + length (a # argv)) \<le> j \<and> j < off \<or>
          off + args_size (a # argv) \<le> j" for j
  proof -
    have "buf' ! j = buf2 ! j" using that b'(4) room by (auto simp: args_size_def)
    also have "\<dots> = buf1 ! j" using that nth2 [of j] room(1) by (auto simp: args_size_def)
    also have "\<dots> = buf ! j" using that w(3) room by auto
    finally show ?thesis .
  qed
  ultimately show ?case using b'(2,3) by auto
qed (simp add: args_size_def)

end
