(* ===== verification/SchedProps.thy ===== *)
theory SchedProps
  imports SchedCreate SchedArgs FreeHeap
begin

text \<open>
  The properties of the scheduler and the process table (\<open>Kernel/c/scheduler.c\<close>), for the
  kernel as it is built, with the free-list memory manager.
\<close>

interpretation kernel_heap: process_table freelist_mm freelist_ok
  by unfold_locales

section \<open>Looking up a process\<close>

text \<open>The list from the head is ordered by pid.\<close>

definition ordered :: "'h kernel \<Rightarrow> addr list \<Rightarrow> bool" where
  "ordered s ns \<longleftrightarrow> sorted_wrt (\<lambda>m n. pid (the (proc s m)) < pid (the (proc s n))) ns"

definition pcb_at :: "'h kernel \<Rightarrow> addr \<Rightarrow> addr" where
  "pcb_at s n = pcb (the (nodes s n))"

lemma findPid_suffix:
  assumes "lseg (nodes s) n (n # ms) (head s)" "\<forall>m \<in> set (n # ms). proc s m \<noteq> None"
    "proc s (head s) \<noteq> None" "head s \<notin> set ms" "ordered s (n # ms)"
  shows "findPid k n s =
    Some (case List.find (\<lambda>m. pid (the (proc s m)) = k) (n # ms) of None \<Rightarrow> NULL | Some m \<Rightarrow> pcb_at s m)"
  using assms
proof (induction ms arbitrary: n)
  case Nil
  then obtain x c where x: "nodes s n = Some x" "pcbs s (pcb x) = Some c" "nextNode x = head s"
    "proc s n = Some c"
    by (auto simp: proc_def split: option.splits bind_splits)
  obtain x' c' where "nodes s (head s) = Some x'" "pcbs s (pcb x') = Some c'"
    using Nil.prems(3) by (auto simp: proc_def split: option.splits bind_splits)
  with x show ?case by (simp add: findPid.simps [of k n] pcb_at_def)
next
  case (Cons m ms)
  then obtain x c where x: "nodes s n = Some x" "pcbs s (pcb x) = Some c" "nextNode x = m"
    "proc s n = Some c"
    by (auto simp: proc_def split: option.splits bind_splits)
  obtain x' c' where x': "nodes s m = Some x'" "pcbs s (pcb x') = Some c'" "proc s m = Some c'"
    using Cons.prems(2) by (auto simp: proc_def split: option.splits bind_splits)
  have IH: "findPid k m s = Some (case List.find (\<lambda>m. pid (the (proc s m)) = k) (m # ms) of
      None \<Rightarrow> NULL | Some m \<Rightarrow> pcb_at s m)"
    using Cons.prems x by (intro Cons.IH) (auto simp: ordered_def)
  have "List.find (\<lambda>m. pid (the (proc s m)) = k) (m # ms) = None" if "\<not> pid c' \<le> k"
    using that Cons.prems(5) x'(3) by (auto simp: ordered_def find_None_iff)
  moreover have "m \<noteq> head s" using Cons.prems(4) by auto
  ultimately show ?case
    using x x' IH by (simp add: findPid.simps [of k n] pcb_at_def del: List.find.simps(2))
      (simp add: pcb_at_def)
qed

text \<open>
  \<open>getPCBByPid\<close> always returns: on a process list ordered by pid it gives the PCB of the
  process with that pid, in whatever state it is, and \<open>NULL\<close> when there is none.
\<close>

theorem getPCBByPid_finds:
  assumes inv: "kinv ok L s ns cs" and ord: "ordered s ns"
  shows "getPCBByPid k s = Some (case List.find (\<lambda>n. pid (the (proc s n)) = k) ns of
    None \<Rightarrow> NULL | Some n \<Rightarrow> pcb_at s n)"
proof -
  note D = kinvD [OF inv]
  note T = D(3) [unfolded table_def]
  have ns: "ns \<noteq> []" using D(11,12) by auto
  from rotated_split [OF _ ns D(6)] T obtain us vs where uv: "ns = us @ vs" "cs = vs @ us" "vs \<noteq> []"
    by metis
  have "ring (nodes s) ns"
    using T uv ring_rotate [of "nodes s" vs us] by (cases "us = []") auto
  then obtain n ms where n: "ns = n # ms" "lseg (nodes s) n (n # ms) (head s)"
    using T ns by (cases ns) (auto simp: ring_def)
  have "\<forall>m \<in> set (n # ms). proc s m \<noteq> None" "proc s (head s) \<noteq> None"
    using T D(12) n(1) by auto
  moreover have "head s \<notin> set ms" using D(6) T n(1) by simp
  ultimately show ?thesis
    using findPid_suffix [OF n(2), of k] ord T n(1) by (simp add: getPCBByPid_def)
qed

section \<open>Concrete tables for the witnesses\<close>

text \<open>Fourteen blocks of 16 bytes: those of an idle process and of two others, and a spare one.\<close>

definition demo_blocks :: "(addr \<times> u64) list" where
  "demo_blocks = map (\<lambda>i. (word_of_nat (4112 + 32 * i), 16)) (rev [0..<14])"

lemma demo_heap_blocks: "\<exists>h. freelist_ok (map_of demo_blocks) h"
proof -
  have "afits [16, 16, 16, 16, 16, 16, 16, 16, 16, 16, 16, 16, 16, 16] [(4096, 4080)] [] =
      Some ([(4544, 3632)], map (\<lambda>i. (4096 + 32 * i, 32)) (rev [0..<14]))"
    by (simp add: block_size_for_def upt_conv_Cons)
  from afits_rel [OF demo_rel _ this] obtain h where
    h: "heap_rel 4096 [(4544, 3632)] (map (\<lambda>i. (4096 + 32 * i, 32)) (rev [0..<14])) h" by auto
  have "payload (word_of_nat (4112 + 32 * i), 16) (4096 + 32 * i, 32)" for i
    by (simp add: payload_def)
  then have "list_all2 payload demo_blocks (map (\<lambda>i. (4096 + 32 * i, 32)) (rev [0..<14]))"
    unfolding demo_blocks_def by (rule list_all2_maps)
  with h have "held 4096 (h, demo_blocks)" by (auto simp: held_def)
  then show ?thesis by (auto simp: freelist_ok_def)
qed

definition demo_pcb :: "u32 \<Rightarrow> State \<Rightarrow> addr \<Rightarrow> addr \<Rightarrow> addr \<Rightarrow> addr list \<Rightarrow> PCB" where
  "demo_pcb k st stk hp fl waiting =
     \<lparr>pid = k, priority = 2, state = st, rsp = stk + 8, rbp = stk, pname = stk,
      waitedProcessExitCode = 0, waitingForMe = waiting @ replicate (10 - length waiting) 0,
      parentProc = 0, wfmLen = length waiting, stack = stk, pipes = stdPipes, heap = hp,
      heapFreed = False, freeListStart = fl, freeListEnd = 0, bytesAvailable = 0\<rparr>"

text \<open>Process 0 (node 4336) is running, process 1 (node 4496) in state \<open>st\<close>.\<close>

definition demo_kernel :: "State \<Rightarrow> addr list \<Rightarrow> heap \<Rightarrow> heap kernel" where
  "demo_kernel st waiting h =
     \<lparr>pcbs = [4144 \<mapsto> demo_pcb IDLE_PID READY 4112 0 0 [],
              4304 \<mapsto> demo_pcb 0 RUNNING 4272 4208 4240 [],
              4464 \<mapsto> demo_pcb 1 st 4432 4368 4400 waiting],
      nodes = [4176 \<mapsto> \<lparr>pcb = 4144, nextNode = 0\<rparr>,
               4336 \<mapsto> \<lparr>pcb = 4304, nextNode = 4496\<rparr>,
               4496 \<mapsto> \<lparr>pcb = 4464, nextNode = 4336\<rparr>],
      head = 4336, tail = 4496, current = 4336, prev = 4496, pcbLen = 2, idleProcPCBNode = 4176,
      processInForeground = 4304, quantumsLeft = 0, nextPid = 2, stacks = Map.empty, kheap = h,
      lowWord = 0\<rparr>"

lemma demo_proc:
  "proc (demo_kernel st w h) 4336 = Some (demo_pcb 0 RUNNING 4272 4208 4240 [])"
  "proc (demo_kernel st w h) 4496 = Some (demo_pcb 1 st 4432 4368 4400 w)"
  "proc (demo_kernel st w h) 4176 = Some (demo_pcb IDLE_PID READY 4112 0 0 [])"
  by (simp_all add: proc_def demo_kernel_def)

lemma demo_dom: "dom (map_of demo_blocks) =
    {4112, 4144, 4176, 4208, 4240, 4272, 4304, 4336, 4368, 4400, 4432, 4464, 4496, 4528}"
  by (simp add: demo_blocks_def dom_map_of_conv_image_fst upt_conv_Cons insert_commute)

lemma demo_owned: "owned (demo_kernel st w h) [4336, 4496] =
    [4112, 4144, 4176, 4208, 4240, 4272, 4304, 4336, 4368, 4400, 4432, 4464, 4496]"
  by (simp add: owned_def owns_def demo_kernel_def demo_pcb_def IDLE_PID_def)

lemma demo_kinv:
  assumes "freelist_ok (map_of demo_blocks) h"
  shows "kinv freelist_ok (map_of demo_blocks) (demo_kernel st w h) [4336, 4496] [4336, 4496]"
proof -
  let ?s = "demo_kernel st w h"
  have "table ?s [4336, 4496] [4336, 4496]"
    using demo_proc [of st w h] rotated_refl
    by (simp add: table_def ring_def) (simp add: demo_kernel_def demo_pcb_def IDLE_PID_def)
  then show ?thesis
    using assms unfolding kinv_def demo_owned demo_dom by (simp add: demo_kernel_def)
qed

theorem getPCBByPid_finds_witness:
  "\<exists>h. getPCBByPid 1 (demo_kernel READY [] h) = Some 4464 \<and>
     getPCBByPid 7 (demo_kernel READY [] h) = Some NULL"
proof -
  obtain h where h: "freelist_ok (map_of demo_blocks) h" using demo_heap_blocks by blast
  have "ordered (demo_kernel READY [] h) [4336, 4496]"
    by (simp add: ordered_def demo_proc demo_pcb_def)
  from getPCBByPid_finds [OF demo_kinv [OF h] this, of 1] getPCBByPid_finds [OF demo_kinv [OF h] this, of 7]
  show ?thesis
    by (intro exI [of _ h]) (simp add: demo_proc demo_pcb_def, simp add: pcb_at_def demo_kernel_def)
qed

section \<open>Choosing the next process\<close>

text \<open>
  C9: outside a running process' quanta, \<open>schedule\<close> always returns and is the round robin
  specified by \<open>sched_post\<close>: the first ready process after the interrupted one in the ring runs
  (the interrupted one comes last), the idle process when there is none; the ended processes
  passed on the way are removed and all their blocks freed, once, and never the interrupted
  process, on whose stack the kernel runs; everything else is unchanged.
\<close>

theorem schedule_round_robin:
  assumes "kinv freelist_ok L s ns cs" "proc s (current s) = Some c"
    and "\<not> (state c = RUNNING \<and> quantumsLeft s > 0)"
  shows "\<exists>q s'. schedule freelist_mm rsp0 rbp0 s = Some (q, s') \<and>
    sched_post freelist_ok L (save_current rsp0 rbp0 s) ns (tl cs @ [hd cs]) [] q s'"
  by (rule kernel_heap.schedule_switch [OF assms])

lemma demo_saved:
  "save_current a b (demo_kernel st w h) =
     (demo_kernel st w h)\<lparr>pcbs := (pcbs (demo_kernel st w h))
        (4304 \<mapsto> (demo_pcb 0 RUNNING 4272 4208 4240 [])\<lparr>rsp := a, rbp := b, state := READY\<rparr>)\<rparr>"
  by (simp add: save_current_def demo_kernel_def interrupted_def demo_pcb_def)

lemma demo_pstate:
  "pstate (save_current a b (demo_kernel st w h)) 4336 = READY"
  "pstate (save_current a b (demo_kernel st w h)) 4496 = st"
  unfolding demo_saved
  by (simp_all add: pstate_def proc_def demo_kernel_def demo_pcb_def)

theorem schedule_round_robin_witness:
  "\<exists>h L q s'. schedule freelist_mm 4200 0 (demo_kernel EXITED [] h) = Some (q, s') \<and>
     current s' = 4336 \<and> q = 4200 \<and> kinv freelist_ok L s' [4336] [4336]"
proof -
  obtain h where h: "freelist_ok (map_of demo_blocks) h" using demo_heap_blocks by blast
  let ?s = "demo_kernel EXITED [] h"
  have cur: "proc ?s (current ?s) = Some (demo_pcb 0 RUNNING 4272 4208 4240 [])"
    using demo_proc(1) by (simp add: demo_kernel_def)
  have "quantumsLeft ?s = 0" by (simp add: demo_kernel_def)
  then obtain q s' where run: "schedule freelist_mm 4200 0 ?s = Some (q, s')" and
    post: "sched_post freelist_ok (map_of demo_blocks) (save_current 4200 0 ?s) [4336, 4496]
      (tl [4336, 4496] @ [hd [4336, 4496]]) [] q s'"
    using schedule_round_robin [OF demo_kinv [OF h] cur, of 4200 0] by auto
  have spec: "chosen (pstate (save_current 4200 0 ?s)) [4496, 4336] = Some 4336"
    "passed (pstate (save_current 4200 0 ?s)) [4496, 4336] = [4496]"
    by (simp_all add: chosen_def passed_def demo_pstate)
  then have "reaped (pstate (save_current 4200 0 ?s)) [4496, 4336] = [4496]"
    "order_after (pstate (save_current 4200 0 ?s)) [4496, 4336] [] = [4336]"
    by (simp_all add: reaped_def order_after_def demo_pstate)
  moreover have "rsp (the (proc (save_current 4200 0 ?s) 4336)) = 4200"
    unfolding demo_saved by (simp add: proc_def demo_kernel_def demo_pcb_def)
  ultimately have "current s' = 4336" "q = 4200"
    "kinv freelist_ok (map_of demo_blocks |` (- blocks_of (save_current 4200 0 ?s) [4496])) s'
      [4336] [4336]"
    using post spec by (simp_all add: sched_post_def Let_def removing_def)
  with run show ?thesis by blast
qed

text \<open>Timer ticks without any other event: \<open>schedule\<close> is called each time.\<close>

fun ticks :: "'h mm \<Rightarrow> addr \<Rightarrow> addr \<Rightarrow> nat \<Rightarrow> 'h kernel \<Rightarrow> 'h kernel option" where
  "ticks M rsp0 rbp0 0 s = Some s"
| "ticks M rsp0 rbp0 (Suc k) s = do { (_, s1) \<leftarrow> schedule M rsp0 rbp0 s; ticks M rsp0 rbp0 k s1 }"

lemma ticks_stay:
  "kinv freelist_ok L s ns cs \<Longrightarrow> proc s (current s) = Some c \<Longrightarrow> state c = RUNNING \<Longrightarrow>
     int k \<le> quantumsLeft s \<Longrightarrow>
     \<exists>s' c'. ticks freelist_mm rsp0 rbp0 k s = Some s' \<and> current s' = current s \<and>
       quantumsLeft s' = quantumsLeft s - int k \<and> kinv freelist_ok L s' ns cs \<and>
       proc s' (current s) = Some c' \<and> state c' = RUNNING"
proof (induction k arbitrary: s c)
  case (Suc k)
  then obtain s1 where s1: "schedule freelist_mm rsp0 rbp0 s = Some (rsp0, s1)"
    "kinv freelist_ok L s1 ns cs" "current s1 = current s" "quantumsLeft s1 = quantumsLeft s - 1"
    "proc s1 (current s) = Some (c\<lparr>rsp := rsp0, rbp := rbp0\<rparr>)"
    using kernel_heap.schedule_quantum [of L s ns cs c rsp0 rbp0] by auto
  have "int k \<le> quantumsLeft s1" using Suc.prems(4) s1(4) by simp
  from Suc.IH [OF s1(2) _ _ this] s1 Suc.prems(3) show ?case by fastforce
qed auto

text \<open>
  A process keeps the processor for as many ticks as its priority: chosen by \<open>schedule\<close>
  with priority \<open>p\<close>, it is still the running process after \<open>p - 1\<close> further ticks, with no
  quantum left then, so that the next tick chooses again.
\<close>

theorem priority_quanta:
  assumes inv: "kinv freelist_ok L s ns cs" and c: "proc s (current s) = Some c"
    and out: "\<not> (state c = RUNNING \<and> quantumsLeft s > 0)"
    and n: "chosen (pstate (save_current rsp0 rbp0 s)) (tl cs @ [hd cs]) = Some n"
    and p: "proc s n = Some d" "0 < priority d"
  shows "\<exists>s1 s2. ticks freelist_mm rsp0 rbp0 1 s = Some s1 \<and> current s1 = n \<and>
    ticks freelist_mm rsp0 rbp0 (unat (priority d) - 1) s1 = Some s2 \<and> current s2 = n \<and>
    quantumsLeft s2 = 0"
proof -
  let ?s = "save_current rsp0 rbp0 s"
  obtain q s' where run: "schedule freelist_mm rsp0 rbp0 s = Some (q, s')" and
    post: "sched_post freelist_ok L ?s ns (tl cs @ [hd cs]) [] q s'"
    using kernel_heap.schedule_switch [OF inv c out] by blast
  have prio: "priority (the (proc ?s n)) = priority d"
    using p(1) by (auto simp: save_current_def proc_def interrupted_def split: option.splits bind_splits)
  have s': "current s' = n" "proc s' n = Some ((the (proc ?s n))\<lparr>state := RUNNING\<rparr>)"
    "quantumsLeft s' = uint (priority d) - 1"
    using post n prio unfolding sched_post_def Let_def by auto
  obtain L' ns' cs' where inv': "kinv freelist_ok L' s' ns' cs'"
    using post unfolding sched_post_def Let_def by blast
  have "0 < unat (priority d)" using p(2) by (simp add: word_less_nat_alt)
  then have "int (unat (priority d) - 1) = quantumsLeft s'"
    using s'(3) by (simp add: of_nat_diff)
  then show ?thesis
    using ticks_stay [OF inv', of _ "unat (priority d) - 1" rsp0 rbp0] s' run by fastforce
qed

theorem priority_quanta_witness:
  "\<exists>h s1 s2. ticks freelist_mm 4200 0 1 (demo_kernel READY [] h) = Some s1 \<and> current s1 = 4496 \<and>
     ticks freelist_mm 4200 0 1 s1 = Some s2 \<and> current s2 = 4496 \<and> quantumsLeft s2 = 0"
proof -
  obtain h where h: "freelist_ok (map_of demo_blocks) h" using demo_heap_blocks by blast
  let ?s = "demo_kernel READY [] h"
  have cur: "proc ?s (current ?s) = Some (demo_pcb 0 RUNNING 4272 4208 4240 [])"
    using demo_proc(1) by (simp add: demo_kernel_def)
  have "chosen (pstate (save_current 4200 0 ?s)) (tl [4336, 4496] @ [hd [4336, 4496]]) = Some 4496"
    by (simp add: chosen_def demo_pstate)
  from priority_quanta [OF demo_kinv [OF h] cur _ this demo_proc(2)]
  show ?thesis by (intro exI [of _ h]) (simp add: demo_pcb_def demo_kernel_def)
qed

text \<open>The number of processes that come before \<open>n\<close> at the next choice.\<close>

definition wait_rank :: "addr \<Rightarrow> addr list \<Rightarrow> nat" where
  "wait_rank n cs = length (takeWhile (\<lambda>m. m \<noteq> n) (tl cs @ [hd cs]))"

lemma order_after_rank:
  assumes n: "n \<in> set r" "st n = READY" and m: "chosen st r = Some m" "m \<noteq> n"
  shows "n \<in> set (order_after st r []) \<and>
    wait_rank n (order_after st r []) < length (takeWhile (\<lambda>m. m \<noteq> n) r)"
proof -
  obtain pre post where r: "r = pre @ m # post" "st m = READY" "\<forall>x \<in> set pre. st x \<noteq> READY"
    using m(1) unfolding chosen_def find_Some_iff
    by (metis (no_types, lifting) id_take_nth_drop in_set_conv_nth length_take less_trans min_less_iff_conj nth_take)
  have n': "n \<in> set post" "n \<notin> set pre" using n m(2) r by auto
  have "passed st r = pre"
    using r n' by (auto simp: passed_def butlast_append takeWhile_append2 intro!: takeWhile_append2)
  then have oa: "order_after st r [] = m # post @ filter (\<lambda>x. st x \<noteq> EXITED) pre"
    using r(1) by (simp add: order_after_def)
  have "takeWhile (\<lambda>m. m \<noteq> n) r = pre @ m # takeWhile (\<lambda>m. m \<noteq> n) post"
  proof -
    have "\<forall>x \<in> set pre. x \<noteq> n" using n'(2) by blast
    then show ?thesis using r(1) m(2) by (simp add: takeWhile_append2)
  qed
  moreover have "takeWhile (\<lambda>m. m \<noteq> n) (post @ zs) = takeWhile (\<lambda>m. m \<noteq> n) post" for zs
    using n'(1) by (rule takeWhile_append1) simp
  ultimately show ?thesis using oa n'(1) by (simp add: wait_rank_def)
qed

text \<open>
  C10: no ready process starves: at every choice, a ready process either gets the processor or
  stays ready with strictly fewer processes before it at the next choice.
\<close>

theorem schedule_no_starvation:
  assumes inv: "kinv freelist_ok L s ns cs" and c: "proc s (current s) = Some c"
    and out: "\<not> (state c = RUNNING \<and> quantumsLeft s > 0)"
    and n: "n \<in> set cs" "n \<noteq> current s" "pstate s n = READY"
  shows "\<exists>q s' L' ns' cs'. schedule freelist_mm rsp0 rbp0 s = Some (q, s') \<and>
    kinv freelist_ok L' s' ns' cs' \<and>
    (current s' = n \<or> n \<in> set cs' \<and> pstate s' n = READY \<and> wait_rank n cs' < wait_rank n cs)"
proof -
  let ?s = "save_current rsp0 rbp0 s" and ?r = "tl cs @ [hd cs]"
  obtain q s' where run: "schedule freelist_mm rsp0 rbp0 s = Some (q, s')" and
    post: "sched_post freelist_ok L ?s ns ?r [] q s'"
    using kernel_heap.schedule_switch [OF inv c out] by blast
  obtain x where x: "nodes s (current s) = Some x" "pcbs s (pcb x) = Some c"
    using c by (auto simp: proc_def split: bind_splits)
  have same: "proc ?s n = proc s n"
    using proc_upd [OF inv current_cases [OF inv] _ x, of n] n(1,2) x by (simp add: save_current_def)
  then have st: "pstate ?s n = READY" using n(3) by (simp add: pstate_def)
  have in_r: "n \<in> set ?r" using n(1) kinvD(11) [OF inv] by (cases cs) auto
  have "List.find (\<lambda>m. pstate ?s m = READY) ?r \<noteq> None"
    unfolding find_None_iff using st in_r by blast
  then obtain m where m: "chosen (pstate ?s) ?r = Some m" by (auto simp: chosen_def)
  let ?gone = "reaped (pstate ?s) ?r" and ?cs = "order_after (pstate ?s) ?r []"
  have inv': "kinv freelist_ok (L |` (- blocks_of ?s ?gone)) s' (removing ?gone ns) ?cs"
    using post by (simp add: sched_post_def Let_def)
  show ?thesis
  proof (cases "m = n")
    case True
    then have "current s' = n" using post m by (simp add: sched_post_def Let_def)
    with run inv' show ?thesis by blast
  next
    case False
    have "n \<notin> set ?gone" using st by (auto simp: reaped_def)
    then have "proc s' n = proc ?s n"
      using post m False in_r by (auto simp: sched_post_def Let_def)
    then have "pstate s' n = READY" using st by (simp add: pstate_def)
    moreover have "n \<in> set ?cs" "wait_rank n ?cs < wait_rank n cs"
      using order_after_rank [OF in_r st m False] by (simp_all add: wait_rank_def)
    ultimately show ?thesis using run inv' by blast
  qed
qed

theorem schedule_no_starvation_witness:
  "\<exists>h q s' L' ns' cs'. schedule freelist_mm 4200 0 (demo_kernel READY [] h) = Some (q, s') \<and>
     kinv freelist_ok L' s' ns' cs' \<and>
     (current s' = 4496 \<or> 4496 \<in> set cs' \<and> pstate s' 4496 = READY \<and>
        wait_rank 4496 cs' < wait_rank 4496 [4336, 4496])"
proof -
  obtain h where h: "freelist_ok (map_of demo_blocks) h" using demo_heap_blocks by blast
  let ?s = "demo_kernel READY [] h"
  have cur: "proc ?s (current ?s) = Some (demo_pcb 0 RUNNING 4272 4208 4240 [])"
    using demo_proc(1) by (simp add: demo_kernel_def)
  have "pstate ?s 4496 = READY" by (simp add: pstate_def demo_proc demo_pcb_def)
  then have "\<exists>q s' L' ns' cs'. schedule freelist_mm 4200 0 ?s = Some (q, s') \<and>
     kinv freelist_ok L' s' ns' cs' \<and>
     (current s' = 4496 \<or> 4496 \<in> set cs' \<and> pstate s' 4496 = READY \<and>
        wait_rank 4496 cs' < wait_rank 4496 [4336, 4496])"
    by (intro schedule_no_starvation [OF demo_kinv [OF h] cur]) (simp_all add: demo_kernel_def)
  then show ?thesis by blast
qed

section \<open>Creating processes\<close>

text \<open>
  \<open>addPCB\<close> appends the new process, ready and with priority 1, as the last of the list and
  the last before the head in the ring, and leaves every other process alone; when memory runs
  out the table is unchanged, except when the fourth of the four allocations fails, where
  \<open>createPCBNode\<close> uses the \<open>PCB\<close> after freeing it.
\<close>

theorem addPCB_appends:
  assumes inv: "kinv freelist_ok L s ns cs" and pid0: "pid0 \<noteq> IDLE_PID"
    and st: "stack0 \<in> dom L" "stack0 \<notin> set (owned s ns)"
  shows "case addPCB freelist_mm pid0 stack0 rsp0 rbp0 name0 pipes0 s of
      None \<Rightarrow> last_malloc_fails freelist_mm (kheap s)
    | Some (False, s') \<Rightarrow> kinv freelist_ok L s' ns cs
    | Some (True, s') \<Rightarrow> \<exists>node c L' us vs. ns = us @ vs \<and> cs = vs @ us \<and> vs \<noteq> [] \<and>
        kinv freelist_ok L' s' (ns @ [node]) (vs @ [node] @ us) \<and> current s' = current s \<and>
        proc s' node = Some c \<and> pid c = pid0 \<and> priority c = 1 \<and> state c = READY \<and>
        stack c = stack0 \<and> rsp c = rsp0 \<and> rbp c = rbp0 \<and> pipes c = pipes0 \<and>
        (\<forall>n \<in> insert (idleProcPCBNode s) (set cs). proc s' n = proc s n)"
  using inv pid0 st
proof (rule kernel_heap.addPCB_cases [of L s ns cs pid0 stack0 rsp0 rbp0 name0 pipes0])
  fix node p c h' d L' us vs
  assume a: "addPCB freelist_mm pid0 stack0 rsp0 rbp0 name0 pipes0 s = Some (True, linked node p c h' d s)"
    "nodes s (tail s) = Some d" "ns = us @ vs" "cs = vs @ us" "vs \<noteq> []"
    "kinv freelist_ok L' (linked node p c h' d s) (ns @ [node]) (vs @ [node] @ us)"
    "node \<notin> dom L" "p \<notin> dom L" "node \<noteq> p" "node \<noteq> tail s"
    "pid c = pid0" "priority c = 1" "state c = READY" "stack c = stack0" "rsp c = rsp0" "rbp c = rbp0"
    "\<not> heapFreed c" "pipes c = pipes0"
  have "proc (linked node p c h' d s) node = Some c"
    using linked_new(1) [OF a(10) _ a(17)] a(11) pid0 by simp
  moreover have "\<forall>n \<in> insert (idleProcPCBNode s) (set cs). proc (linked node p c h' d s) n = proc s n"
    using linked_keeps(1) [OF inv a(7,8,9,2)] by blast
  moreover have "current (linked node p c h' d s) = current s" by (simp add: linked_def)
  ultimately show ?thesis
    using a
    by (simp, intro exI [of _ node] exI [of _ c] exI [of _ L'] exI [of _ us] exI [of _ vs] conjI)
      simp_all
qed auto

theorem addPCB_appends_witness:
  "\<exists>h L s. s = demo_kernel READY [] h \<and>
    (case addPCB freelist_mm 2 4528 0 0 0 stdPipes s of
      None \<Rightarrow> last_malloc_fails freelist_mm h
    | Some (False, s') \<Rightarrow> kinv freelist_ok L s' [4336, 4496] [4336, 4496]
    | Some (True, s') \<Rightarrow> \<exists>node c L' cs'. kinv freelist_ok L' s' [4336, 4496, node] cs' \<and>
        proc s' node = Some c \<and> pid c = 2 \<and> state c = READY)"
proof -
  obtain h where h: "freelist_ok (map_of demo_blocks) h" using demo_heap_blocks by blast
  let ?s = "demo_kernel READY [] h"
  have new: "4528 \<in> dom (map_of demo_blocks)" "4528 \<notin> set (owned ?s [4336, 4496])"
    by (simp_all add: demo_dom demo_owned)
  have pid2: "(2 :: u32) \<noteq> IDLE_PID" by (simp add: IDLE_PID_def)
  have heap: "kheap ?s = h" by (simp add: demo_kernel_def)
  note run = addPCB_appends [OF demo_kinv [OF h] pid2 new, of 0 0 stdPipes 0, unfolded heap]
  show ?thesis
  proof (cases "addPCB freelist_mm 2 4528 0 0 0 stdPipes ?s")
    case None
    with run show ?thesis
      by (intro exI [of _ h] exI [of _ "map_of demo_blocks"] exI [of _ ?s]) simp
  next
    case (Some r)
    obtain b s' where r: "r = (b, s')" by (cases r)
    with run Some show ?thesis
      by (intro exI [of _ h] exI [of _ "map_of demo_blocks"] exI [of _ ?s]) (cases b; auto)
  qed
qed

text \<open>
  C13: \<open>createProcess\<close> copies the arguments into the block of the new stack without writing out
  of it when they fit: word \<open>i\<close> of the block points to argument \<open>i\<close>, which is there in full,
  terminated, or cut at 60 characters, no argument overlaps another or the array of pointers,
  and the bytes after the last one are untouched.
\<close>

theorem copyArgs_layout:
  assumes "\<forall>a \<in> set argv. terminated a" "length argv * 8 + args_size argv \<le> length buf"
  shows "\<exists>buf'. copyArgs stackEnd 0 (length argv * 8) argv buf = Some buf' \<and>
    length buf' = length buf \<and> args_at stackEnd 0 (length argv * 8) argv buf' \<and>
    drop (length argv * 8 + args_size argv) buf' = drop (length argv * 8 + args_size argv) buf"
proof -
  obtain buf' where b: "copyArgs stackEnd 0 (length argv * 8) argv buf = Some buf'"
    "length buf' = length buf" "args_at stackEnd 0 (length argv * 8) argv buf'"
    "\<forall>j < length buf. length argv * 8 + args_size argv \<le> j \<longrightarrow> buf' ! j = buf ! j"
    using copyArgs_ok [of argv 0 "length argv * 8" buf stackEnd] assms by auto
  moreover have "drop (length argv * 8 + args_size argv) buf' = drop (length argv * 8 + args_size argv) buf"
    using b(2,4) by (intro nth_equalityI) auto
  ultimately show ?thesis by blast
qed

theorem copyArgs_layout_witness:
  "\<exists>buf'. copyArgs 65536 0 (length [[97, 0], [98, 99, 0::byte]] * 8) [[97, 0], [98, 99, 0]]
      (replicate 4096 0) = Some buf' \<and> args_at 65536 0 16 [[97, 0], [98, 99, 0]] buf'"
  using copyArgs_layout [of "[[97, 0], [98, 99, 0]]" "replicate 4096 0" 65536]
  by (auto simp: args_size_def arg_len_def MAX_NAME_LENGTH_def)

section \<open>Ending processes\<close>

text \<open>What the end of a process does to one that waits for it.\<close>

definition wake :: "int \<Rightarrow> addr \<Rightarrow> (addr \<rightharpoonup> PCB) \<Rightarrow> (addr \<rightharpoonup> PCB)" where
  "wake exitCode q P = (case P q of None \<Rightarrow> P
     | Some d \<Rightarrow> if state d = BLOCKED
         then P(q \<mapsto> d\<lparr>state := READY, waitedProcessExitCode := exitCode\<rparr>) else P)"

lemma wake_same: "r \<noteq> q \<Longrightarrow> wake k q P r = P r"
  by (auto simp: wake_def split: option.splits)

lemma wakes_other: "r \<notin> set qs \<Longrightarrow> fold (wake k) qs P r = P r"
  by (induction qs arbitrary: P) (auto simp: wake_same)

lemma wakes_done: "P q = Some d \<Longrightarrow> state d \<noteq> BLOCKED \<Longrightarrow> fold (wake k) qs P q = Some d"
proof (induction qs arbitrary: P)
  case (Cons r qs)
  have "wake k r P q = Some d"
    using Cons.prems by (cases "r = q") (auto simp: wake_def split: option.splits)
  with Cons show ?case by simp
qed simp

lemma wakes_member:
  "q \<in> set qs \<Longrightarrow> P q = Some d \<Longrightarrow> state d = BLOCKED \<Longrightarrow>
     fold (wake k) qs P q = Some (d\<lparr>state := READY, waitedProcessExitCode := k\<rparr>)"
proof (induction qs arbitrary: P)
  case (Cons r qs)
  show ?case
  proof (cases "r = q")
    case True
    with Cons.prems have "wake k r P q = Some (d\<lparr>state := READY, waitedProcessExitCode := k\<rparr>)"
      by (simp add: wake_def)
    then show ?thesis using wakes_done [of "wake k r P" q] by simp
  next
    case False
    then show ?thesis using Cons by (simp add: wake_same)
  qed
qed simp

lemma wake_pid: "P r = Some c \<Longrightarrow> \<exists>c'. wake k q P r = Some c' \<and> pid c' = pid c \<and>
    (state c \<noteq> WAITING_FOR_EXIT \<longrightarrow> state c' \<noteq> WAITING_FOR_EXIT)"
  by (cases "q = r") (auto simp: wake_def split: option.splits)

lemma notify_ok:
  assumes "pcbs s p = Some c" "wfmLen c \<le> length (waitingForMe c)"
    "\<forall>q \<in> set (drop i (take (wfmLen c) (waitingForMe c))).
       q \<noteq> p \<and> (\<exists>d. pcbs s q = Some d \<and> state d \<noteq> WAITING_FOR_EXIT)"
    "nodes s (current s) = Some x" "pcbs s (pcb x) = Some cur" "pid c \<noteq> pid cur"
    "i \<le> wfmLen c"
  shows "exitGo M ctx (NotifyWaiters p k i) s =
    Some (Done (), s\<lparr>pcbs := fold (wake k) (drop i (take (wfmLen c) (waitingForMe c))) (pcbs s)\<rparr>)"
  using assms
proof (induction "wfmLen c - i" arbitrary: i s cur)
  case 0
  then show ?case
    by (simp add: exitGo.simps [of M ctx] currentRec_def currentPCB_def)
next
  case (Suc n)
  then have i: "i < wfmLen c" by simp
  define q where "q = waitingForMe c ! i"
  have split: "drop i (take (wfmLen c) (waitingForMe c)) =
      q # drop (Suc i) (take (wfmLen c) (waitingForMe c))"
    using i Suc.prems(2) Cons_nth_drop_Suc [of i "take (wfmLen c) (waitingForMe c)"]
    by (simp add: q_def)
  then obtain d where d: "q \<noteq> p" "pcbs s q = Some d" "state d \<noteq> WAITING_FOR_EXIT"
    using Suc.prems(3) by auto
  let ?s = "s\<lparr>pcbs := wake k q (pcbs s)\<rparr>"
  obtain cur' where cur': "wake k q (pcbs s) (pcb x) = Some cur'" "pid cur' = pid cur"
    using wake_pid [of "pcbs s" "pcb x" cur k q] Suc.prems(5) by blast
  have rest: "\<forall>r \<in> set (drop (Suc i) (take (wfmLen c) (waitingForMe c))).
      r \<noteq> p \<and> (\<exists>d. pcbs ?s r = Some d \<and> state d \<noteq> WAITING_FOR_EXIT)"
  proof
    fix r assume r: "r \<in> set (drop (Suc i) (take (wfmLen c) (waitingForMe c)))"
    then obtain e where "r \<noteq> p" "pcbs s r = Some e" "state e \<noteq> WAITING_FOR_EXIT"
      using Suc.prems(3) unfolding split by auto
    with wake_pid [of "pcbs s" r e k q] show "r \<noteq> p \<and> (\<exists>d. pcbs ?s r = Some d \<and> state d \<noteq> WAITING_FOR_EXIT)"
      by auto
  qed
  have "exitGo M ctx (NotifyWaiters p k i) s = exitGo M ctx (NotifyWaiters p k (Suc i)) ?s"
    using Suc.prems(1,2) i d
    by (simp add: exitGo.simps [of M ctx "NotifyWaiters p k i"] q_def [symmetric] wake_def upd_pcb_def)
  also have "\<dots> = Some (Done (), ?s\<lparr>pcbs :=
      fold (wake k) (drop (Suc i) (take (wfmLen c) (waitingForMe c))) (pcbs ?s)\<rparr>)"
    by (rule Suc.hyps(1) [where cur = cur', OF _ _ Suc.prems(2) rest])
      (use Suc.hyps(2) Suc.prems d cur' wake_same [of p q] i in auto)
  finally show ?case unfolding split by simp
qed



end
