(* ===== verification/Font.thy ===== *)
theory Font
  imports Prelude
begin

text \<open>
  The character table of the screen (\<open>Kernel/c/asciiBitFields.c\<close>): one glyph for each character
  from \<open>' '\<close> to \<open>'~'\<close>, of 23 rows of 11 entries that are 0 or 1. A row is written as the binary
  numeral of its entries, from left to right; \<open>expand\<close> gives back the entries.
\<close>

definition ASCII_BF_WIDTH :: nat where "ASCII_BF_WIDTH = 11"
definition ASCII_BF_HEIGHT :: nat where "ASCII_BF_HEIGHT = 23"
definition ASCII_BF_MIN :: byte where "ASCII_BF_MIN = 32"
definition ASCII_BF_MAX :: byte where "ASCII_BF_MAX = 126"

definition glyphRow :: "nat \<Rightarrow> u8 list" where
  "glyphRow r = map (\<lambda>j. if bit r (10 - j) then 1 else 0) [0..<ASCII_BF_WIDTH]"

definition expand :: "nat list \<Rightarrow> u8 list" where
  "expand rows = concat (map glyphRow rows)"

definition glyphs_32_37 :: "nat list list" where
  "glyphs_32_37 = [
    \<comment> \<open>Space, 32\<close>
    [0b00000000000, 0b00000000000, 0b00000000000, 0b00000000000, 0b00000000000,
     0b00000000000, 0b00000000000, 0b00000000000, 0b00000000000, 0b00000000000,
     0b00000000000, 0b00000000000, 0b00000000000, 0b00000000000, 0b00000000000,
     0b00000000000, 0b00000000000, 0b00000000000, 0b00000000000, 0b00000000000,
     0b00000000000, 0b00000000000, 0b00000000000],
    \<comment> \<open>Exclamation mark, 33\<close>
    [0b00000000000, 0b00000100000, 0b00001110000, 0b00001110000, 0b00001110000,
     0b00001110000, 0b00001110000, 0b00001110000, 0b00000100000, 0b00000100000,
     0b00000100000, 0b00000100000, 0b00000100000, 0b00000000000, 0b00000000000,
     0b00000100000, 0b00001110000, 0b00000100000, 0b00000000000, 0b00000000000,
     0b00000000000, 0b00000000000, 0b00000000000],
    \<comment> \<open>Double quote, 34\<close>
    [0b00000000000, 0b00010010000, 0b00010010000, 0b00010010000, 0b00001001000,
     0b00001001000, 0b00001001000, 0b00000000000, 0b00000000000, 0b00000000000,
     0b00000000000, 0b00000000000, 0b00000000000, 0b00000000000, 0b00000000000,
     0b00000000000, 0b00000000000, 0b00000000000, 0b00000000000, 0b00000000000,
     0b00000000000, 0b00000000000, 0b00000000000],
    \<comment> \<open>Number, 35\<close>
    [0b00000000000, 0b00000000000, 0b00001000100, 0b00001000100, 0b00001000100,
     0b00010001000, 0b00010001000, 0b01111111110, 0b00010001000, 0b00010001000,
     0b00010001000, 0b01111111110, 0b00010001000, 0b00010001000, 0b00100010000,
     0b00100010000, 0b00100010000, 0b00000000000, 0b00000000000, 0b00000000000,
     0b00000000000, 0b00000000000, 0b00000000000],
    \<comment> \<open>Dollar sign, 36\<close>
    [0b00000000000, 0b00000100000, 0b00000100000, 0b00011111000, 0b00110101100,
     0b01100100110, 0b01000100000, 0b01100100000, 0b00111100000, 0b00001111000,
     0b00000101100, 0b00000100110, 0b00000100010, 0b00000100010, 0b01100100110,
     0b00110101100, 0b00011111000, 0b00000100000, 0b00000100000, 0b00000000000,
     0b00000000000, 0b00000000000, 0b00000000000],
    \<comment> \<open>Percent, 37\<close>
    [0b00000000000, 0b00110000110, 0b01001000100, 0b01001001100, 0b01001001000,
     0b00110011000, 0b00000010000, 0b00000110000, 0b00000100000, 0b00001100000,
     0b00001000000, 0b00011000000, 0b00010001100, 0b00110010010, 0b00100010010,
     0b01100010010, 0b01000001100, 0b00000000000, 0b00000000000, 0b00000000000,
     0b00000000000, 0b00000000000, 0b00000000000]]"

definition glyphs_38_43 :: "nat list list" where
  "glyphs_38_43 = [
    \<comment> \<open>Ampersand, 38\<close>
    [0b00000000000, 0b00011100000, 0b00110110000, 0b01100011000, 0b01000001000,
     0b01000011000, 0b01100110000, 0b00111100000, 0b00011000000, 0b00111000000,
     0b01101100000, 0b01000110010, 0b01000011010, 0b01000001100, 0b01100001100,
     0b00110011110, 0b00011110010, 0b00000000000, 0b00000000000, 0b00000000000,
     0b00000000000, 0b00000000000, 0b00000000000],
    \<comment> \<open>Single quote, 39\<close>
    [0b00000000000, 0b00000100000, 0b00000100000, 0b00000100000, 0b00000100000,
     0b00000100000, 0b00000100000, 0b00000000000, 0b00000000000, 0b00000000000,
     0b00000000000, 0b00000000000, 0b00000000000, 0b00000000000, 0b00000000000,
     0b00000000000, 0b00000000000, 0b00000000000, 0b00000000000, 0b00000000000,
     0b00000000000, 0b00000000000, 0b00000000000],
    \<comment> \<open>Left parenthesis, 40\<close>
    [0b00000000000, 0b00001100000, 0b00011000000, 0b00010000000, 0b00110000000,
     0b00100000000, 0b01100000000, 0b01000000000, 0b01000000000, 0b01000000000,
     0b01000000000, 0b01000000000, 0b01000000000, 0b01100000000, 0b00100000000,
     0b00110000000, 0b00010000000, 0b00011000000, 0b00001100000, 0b00000000000,
     0b00000000000, 0b00000000000, 0b00000000000],
    \<comment> \<open>Right parenthesis, 41\<close>
    [0b00000000000, 0b00000110000, 0b00000011000, 0b00000001000, 0b00000001100,
     0b00000000100, 0b00000000110, 0b00000000010, 0b00000000010, 0b00000000010,
     0b00000000010, 0b00000000010, 0b00000000010, 0b00000000110, 0b00000000100,
     0b00000001100, 0b00000001000, 0b00000011000, 0b00000110000, 0b00000000000,
     0b00000000000, 0b00000000000, 0b00000000000],
    \<comment> \<open>Asterisk, 42\<close>
    [0b00000000000, 0b00000000000, 0b00000100000, 0b00100100100, 0b00010101000,
     0b00001110000, 0b01111111110, 0b00001110000, 0b00010101000, 0b00100100100,
     0b00000100000, 0b00000000000, 0b00000000000, 0b00000000000, 0b00000000000,
     0b00000000000, 0b00000000000, 0b00000000000, 0b00000000000, 0b00000000000,
     0b00000000000, 0b00000000000, 0b00000000000],
    \<comment> \<open>Plus, 43\<close>
    [0b00000000000, 0b00000000000, 0b00000000000, 0b00000000000, 0b00000000000,
     0b00000000000, 0b00000100000, 0b00000100000, 0b00000100000, 0b00000100000,
     0b01111111110, 0b00000100000, 0b00000100000, 0b00000100000, 0b00000100000,
     0b00000000000, 0b00000000000, 0b00000000000, 0b00000000000, 0b00000000000,
     0b00000000000, 0b00000000000, 0b00000000000]]"

definition glyphs_44_49 :: "nat list list" where
  "glyphs_44_49 = [
    \<comment> \<open>Comma, 44\<close>
    [0b00000000000, 0b00000000000, 0b00000000000, 0b00000000000, 0b00000000000,
     0b00000000000, 0b00000000000, 0b00000000000, 0b00000000000, 0b00000000000,
     0b00000000000, 0b00000000000, 0b00000000000, 0b00000000000, 0b00000010000,
     0b00000010000, 0b00000110000, 0b00000100000, 0b00001100000, 0b00011000000,
     0b00110000000, 0b00000000000, 0b00000000000],
    \<comment> \<open>Minus, 45\<close>
    [0b00000000000, 0b00000000000, 0b00000000000, 0b00000000000, 0b00000000000,
     0b00000000000, 0b00000000000, 0b00000000000, 0b00000000000, 0b00000000000,
     0b01111111110, 0b00000000000, 0b00000000000, 0b00000000000, 0b00000000000,
     0b00000000000, 0b00000000000, 0b00000000000, 0b00000000000, 0b00000000000,
     0b00000000000, 0b00000000000, 0b00000000000],
    \<comment> \<open>Period, 46\<close>
    [0b00000000000, 0b00000000000, 0b00000000000, 0b00000000000, 0b00000000000,
     0b00000000000, 0b00000000000, 0b00000000000, 0b00000000000, 0b00000000000,
     0b00000000000, 0b00000000000, 0b00000000000, 0b00000000000, 0b00000000000,
     0b00001100000, 0b00001100000, 0b00000000000, 0b00000000000, 0b00000000000,
     0b00000000000, 0b00000000000, 0b00000000000],
    \<comment> \<open>Slash, 47\<close>
    [0b00000000000, 0b00000000010, 0b00000000110, 0b00000000100, 0b00000001100,
     0b00000001000, 0b00000011000, 0b00000010000, 0b00000110000, 0b00000100000,
     0b00000100000, 0b00001100000, 0b00001000000, 0b00011000000, 0b00010000000,
     0b00110000000, 0b00100000000, 0b00000000000, 0b00000000000, 0b00000000000,
     0b00000000000, 0b00000000000, 0b00000000000],
    \<comment> \<open>Zero, 48\<close>
    [0b00000000000, 0b00011111000, 0b00110001100, 0b00100000100, 0b01100000110,
     0b01000001010, 0b01000001010, 0b01000010010, 0b01000100010, 0b01000100010,
     0b01001000010, 0b01010000010, 0b01010000010, 0b01100000010, 0b00100000100,
     0b00110001100, 0b00011111000, 0b00000000000, 0b00000000000, 0b00000000000,
     0b00000000000, 0b00000000000, 0b00000000000],
    \<comment> \<open>One, 49\<close>
    [0b00000000000, 0b00000100000, 0b00001100000, 0b00010100000, 0b00100100000,
     0b00000100000, 0b00000100000, 0b00000100000, 0b00000100000, 0b00000100000,
     0b00000100000, 0b00000100000, 0b00000100000, 0b00000100000, 0b00000100000,
     0b00000100000, 0b00011111000, 0b00000000000, 0b00000000000, 0b00000000000,
     0b00000000000, 0b00000000000, 0b00000000000]]"

definition glyphs_50_55 :: "nat list list" where
  "glyphs_50_55 = [
    \<comment> \<open>Two, 50\<close>
    [0b00000000000, 0b00011111000, 0b00100000100, 0b01000000010, 0b01000000010,
     0b00000000010, 0b00000000010, 0b00000000100, 0b00000001000, 0b00000010000,
     0b00000100000, 0b00001000000, 0b00010000000, 0b00100000000, 0b01000000000,
     0b01000000000, 0b01111111110, 0b00000000000, 0b00000000000, 0b00000000000,
     0b00000000000, 0b00000000000, 0b00000000000],
    \<comment> \<open>Three, 51\<close>
    [0b00000000000, 0b00011111000, 0b00100000100, 0b01000000010, 0b01000000010,
     0b00000000010, 0b00000000010, 0b00000000100, 0b00001111000, 0b00000000100,
     0b00000000010, 0b00000000010, 0b00000000010, 0b01000000010, 0b01000000010,
     0b00100000100, 0b00011111000, 0b00000000000, 0b00000000000, 0b00000000000,
     0b00000000000, 0b00000000000, 0b00000000000],
    \<comment> \<open>Four, 52\<close>
    [0b00000000000, 0b00001000100, 0b00001000100, 0b00010000100, 0b00010000100,
     0b00010000100, 0b00100000100, 0b00100000100, 0b00111111100, 0b00000000100,
     0b00000000100, 0b00000000100, 0b00000000100, 0b00000000100, 0b00000000100,
     0b00000000100, 0b00000000100, 0b00000000000, 0b00000000000, 0b00000000000,
     0b00000000000, 0b00000000000, 0b00000000000],
    \<comment> \<open>Five, 53\<close>
    [0b00000000000, 0b00111111100, 0b01000000000, 0b01000000000, 0b01000000000,
     0b01000000000, 0b01000000000, 0b01000000000, 0b00111111000, 0b00000000100,
     0b00000000010, 0b00000000010, 0b00000000010, 0b00000000010, 0b01000000010,
     0b00100000100, 0b00011111000, 0b00000000000, 0b00000000000, 0b00000000000,
     0b00000000000, 0b00000000000, 0b00000000000],
    \<comment> \<open>Six, 54\<close>
    [0b00000000000, 0b00001111100, 0b00010000000, 0b00100000000, 0b00100000000,
     0b01000000000, 0b01000000000, 0b01000000000, 0b01011111000, 0b01100000100,
     0b01000000010, 0b01000000010, 0b01000000010, 0b01000000010, 0b01000000010,
     0b00100000100, 0b00011111000, 0b00000000000, 0b00000000000, 0b00000000000,
     0b00000000000, 0b00000000000, 0b00000000000],
    \<comment> \<open>Seven, 55\<close>
    [0b00000000000, 0b01111111110, 0b00000000010, 0b00000000100, 0b00000001000,
     0b00000001000, 0b00000010000, 0b00000010000, 0b00000100000, 0b00000100000,
     0b00000100000, 0b00001000000, 0b00001000000, 0b00001000000, 0b00010000000,
     0b00010000000, 0b00010000000, 0b00000000000, 0b00000000000, 0b00000000000,
     0b00000000000, 0b00000000000, 0b00000000000]]"

definition glyphs_56_61 :: "nat list list" where
  "glyphs_56_61 = [
    \<comment> \<open>Eight, 56\<close>
    [0b00000000000, 0b00011111000, 0b00100000100, 0b01000000010, 0b01000000010,
     0b01000000010, 0b01000000010, 0b00100000100, 0b00011111000, 0b00100000100,
     0b01000000010, 0b01000000010, 0b01000000010, 0b01000000010, 0b01000000010,
     0b00100000100, 0b00011111000, 0b00000000000, 0b00000000000, 0b00000000000,
     0b00000000000, 0b00000000000, 0b00000000000],
    \<comment> \<open>Nine, 57\<close>
    [0b00000000000, 0b00011111000, 0b00100000100, 0b01000000010, 0b01000000010,
     0b01000000010, 0b01000000010, 0b01000000010, 0b00100000110, 0b00011111010,
     0b00000000010, 0b00000000010, 0b00000000010, 0b00000000100, 0b00000000100,
     0b00000001000, 0b00111110000, 0b00000000000, 0b00000000000, 0b00000000000,
     0b00000000000, 0b00000000000, 0b00000000000],
    \<comment> \<open>Colon, 58\<close>
    [0b00000000000, 0b00000000000, 0b00000000000, 0b00000000000, 0b00000000000,
     0b00000000000, 0b00001100000, 0b00001100000, 0b00000000000, 0b00000000000,
     0b00000000000, 0b00000000000, 0b00000000000, 0b00000000000, 0b00000000000,
     0b00001100000, 0b00001100000, 0b00000000000, 0b00000000000, 0b00000000000,
     0b00000000000, 0b00000000000, 0b00000000000],
    \<comment> \<open>Semicolon, 59\<close>
    [0b00000000000, 0b00000000000, 0b00000000000, 0b00000000000, 0b00000000000,
     0b00000000000, 0b00001100000, 0b00001100000, 0b00000000000, 0b00000000000,
     0b00000000000, 0b00000000000, 0b00000000000, 0b00000000000, 0b00000100000,
     0b00000100000, 0b00001100000, 0b00001000000, 0b00011000000, 0b00110000000,
     0b00000000000, 0b00000000000, 0b00000000000],
    \<comment> \<open>Less than, 60\<close>
    [0b00000000000, 0b00000000000, 0b00000000000, 0b00000000000, 0b00000000000,
     0b00000000100, 0b00000011000, 0b00001100000, 0b00110000000, 0b01000000000,
     0b01000000000, 0b00110000000, 0b00001100000, 0b00000011000, 0b00000000100,
     0b00000000000, 0b00000000000, 0b00000000000, 0b00000000000, 0b00000000000,
     0b00000000000, 0b00000000000, 0b00000000000],
    \<comment> \<open>Equality sign, 61\<close>
    [0b00000000000, 0b00000000000, 0b00000000000, 0b00000000000, 0b00000000000,
     0b00000000000, 0b00000000000, 0b00111111100, 0b00000000000, 0b00000000000,
     0b00000000000, 0b00111111100, 0b00000000000, 0b00000000000, 0b00000000000,
     0b00000000000, 0b00000000000, 0b00000000000, 0b00000000000, 0b00000000000,
     0b00000000000, 0b00000000000, 0b00000000000]]"

definition glyphs_62_67 :: "nat list list" where
  "glyphs_62_67 = [
    \<comment> \<open>Greater than, 62\<close>
    [0b00000000000, 0b00000000000, 0b00000000000, 0b00000000000, 0b00000000000,
     0b00100000000, 0b00011000000, 0b00000110000, 0b00000001100, 0b00000000010,
     0b00000000010, 0b00000001100, 0b00000110000, 0b00011000000, 0b00100000000,
     0b00000000000, 0b00000000000, 0b00000000000, 0b00000000000, 0b00000000000,
     0b00000000000, 0b00000000000, 0b00000000000],
    \<comment> \<open>Question mark, 63\<close>
    [0b00000000000, 0b00011110000, 0b00110011000, 0b01100001100, 0b00000000100,
     0b00000000100, 0b00000000100, 0b00000001100, 0b00000011000, 0b00000110000,
     0b00001100000, 0b00011000000, 0b00011000000, 0b00000000000, 0b00000000000,
     0b00011000000, 0b00011000000, 0b00000000000, 0b00000000000, 0b00000000000,
     0b00000000000, 0b00000000000, 0b00000000000],
    \<comment> \<open>At sign, 64\<close>
    [0b00000000000, 0b00000000000, 0b00001111000, 0b00011001100, 0b00110000100,
     0b00100000010, 0b01100110010, 0b01001001010, 0b01010001010, 0b01010001010,
     0b01010001010, 0b01010001010, 0b01010001010, 0b01010001110, 0b01001110000,
     0b01100000000, 0b00100000000, 0b00110000100, 0b00011111000, 0b00000000000,
     0b00000000000, 0b00000000000, 0b00000000000],
    \<comment> \<open>Capital A, 65\<close>
    [0b00000000000, 0b00001110000, 0b00001010000, 0b00001010000, 0b00010001000,
     0b00010001000, 0b00010001000, 0b00010001000, 0b00100000100, 0b00100000100,
     0b00111111100, 0b00100000100, 0b00100000100, 0b01000000010, 0b01000000010,
     0b01000000010, 0b01000000010, 0b00000000000, 0b00000000000, 0b00000000000,
     0b00000000000, 0b00000000000, 0b00000000000],
    \<comment> \<open>Capital B, 66\<close>
    [0b00000000000, 0b01111110000, 0b01000001000, 0b01000000100, 0b01000000100,
     0b01000000100, 0b01000000100, 0b01000001000, 0b01111110000, 0b01000001000,
     0b01000000100, 0b01000000100, 0b01000000100, 0b01000000100, 0b01000000100,
     0b01000001000, 0b01111110000, 0b00000000000, 0b00000000000, 0b00000000000,
     0b00000000000, 0b00000000000, 0b00000000000],
    \<comment> \<open>Capital C, 67\<close>
    [0b00000000000, 0b00001111110, 0b00011000010, 0b00110000000, 0b01100000000,
     0b01000000000, 0b01000000000, 0b01000000000, 0b01000000000, 0b01000000000,
     0b01000000000, 0b01000000000, 0b01000000000, 0b01100000000, 0b00100000010,
     0b00111001110, 0b00001111000, 0b00000000000, 0b00000000000, 0b00000000000,
     0b00000000000, 0b00000000000, 0b00000000000]]"

definition glyphs_68_73 :: "nat list list" where
  "glyphs_68_73 = [
    \<comment> \<open>Capital D, 68\<close>
    [0b00000000000, 0b01111000000, 0b01001110000, 0b01000011000, 0b01000001100,
     0b01000000100, 0b01000000110, 0b01000000010, 0b01000000010, 0b01000000010,
     0b01000000010, 0b01000000110, 0b01000000100, 0b01000001100, 0b01000011000,
     0b01001110000, 0b01111000000, 0b00000000000, 0b00000000000, 0b00000000000,
     0b00000000000, 0b00000000000, 0b00000000000],
    \<comment> \<open>Capital E, 69\<close>
    [0b00000000000, 0b01111111100, 0b01000000000, 0b01000000000, 0b01000000000,
     0b01000000000, 0b01000000000, 0b01000000000, 0b01111111000, 0b01000000000,
     0b01000000000, 0b01000000000, 0b01000000000, 0b01000000000, 0b01000000000,
     0b01000000000, 0b01111111100, 0b00000000000, 0b00000000000, 0b00000000000,
     0b00000000000, 0b00000000000, 0b00000000000],
    \<comment> \<open>Capital F, 70\<close>
    [0b00000000000, 0b00111111110, 0b00100000000, 0b00100000000, 0b00100000000,
     0b00100000000, 0b00100000000, 0b00100000000, 0b00111111000, 0b00100000000,
     0b00100000000, 0b00100000000, 0b00100000000, 0b00100000000, 0b00100000000,
     0b00100000000, 0b00100000000, 0b00000000000, 0b00000000000, 0b00000000000,
     0b00000000000, 0b00000000000, 0b00000000000],
    \<comment> \<open>Capital G, 71\<close>
    [0b00000000000, 0b00001111000, 0b00110000100, 0b00100000000, 0b01000000000,
     0b01000000000, 0b01000000000, 0b01000000000, 0b01000000000, 0b01001111100,
     0b01000000010, 0b01000000010, 0b01000000010, 0b01000000010, 0b01100000010,
     0b00110000110, 0b00011111100, 0b00000000000, 0b00000000000, 0b00000000000,
     0b00000000000, 0b00000000000, 0b00000000000],
    \<comment> \<open>Capital H, 72\<close>
    [0b00000000000, 0b01000000010, 0b01000000010, 0b01000000010, 0b01000000010,
     0b01000000010, 0b01000000010, 0b01000000010, 0b01111111110, 0b01000000010,
     0b01000000010, 0b01000000010, 0b01000000010, 0b01000000010, 0b01000000010,
     0b01000000010, 0b01000000010, 0b00000000000, 0b00000000000, 0b00000000000,
     0b00000000000, 0b00000000000, 0b00000000000],
    \<comment> \<open>Capital I, 73\<close>
    [0b00000000000, 0b00111111100, 0b00000100000, 0b00000100000, 0b00000100000,
     0b00000100000, 0b00000100000, 0b00000100000, 0b00000100000, 0b00000100000,
     0b00000100000, 0b00000100000, 0b00000100000, 0b00000100000, 0b00000100000,
     0b00000100000, 0b00111111100, 0b00000000000, 0b00000000000, 0b00000000000,
     0b00000000000, 0b00000000000, 0b00000000000]]"

definition glyphs_74_79 :: "nat list list" where
  "glyphs_74_79 = [
    \<comment> \<open>Capital J, 74\<close>
    [0b00000000000, 0b00000000100, 0b00000000100, 0b00000000100, 0b00000000100,
     0b00000000100, 0b00000000100, 0b00000000100, 0b00000000100, 0b00000000100,
     0b00000000100, 0b00000000100, 0b00000000100, 0b00000000100, 0b01000001100,
     0b01100011000, 0b00111110000, 0b00000000000, 0b00000000000, 0b00000000000,
     0b00000000000, 0b00000000000, 0b00000000000],
    \<comment> \<open>Capital K, 75\<close>
    [0b00000000000, 0b01000000110, 0b01000001100, 0b01000011000, 0b01000110000,
     0b01001100000, 0b01011000000, 0b01110000000, 0b01111000000, 0b01001100000,
     0b01000100000, 0b01000110000, 0b01000011000, 0b01000001100, 0b01000000100,
     0b01000000110, 0b01000000010, 0b00000000000, 0b00000000000, 0b00000000000,
     0b00000000000, 0b00000000000, 0b00000000000],
    \<comment> \<open>Capital L, 76\<close>
    [0b00000000000, 0b00100000000, 0b00100000000, 0b00100000000, 0b00100000000,
     0b00100000000, 0b00100000000, 0b00100000000, 0b00100000000, 0b00100000000,
     0b00100000000, 0b00100000000, 0b00100000000, 0b00100000000, 0b00100000000,
     0b00100000000, 0b00111111100, 0b00000000000, 0b00000000000, 0b00000000000,
     0b00000000000, 0b00000000000, 0b00000000000],
    \<comment> \<open>Capital M, 77\<close>
    [0b00000000000, 0b01000000010, 0b01100000110, 0b01100000110, 0b01010001010,
     0b01010001010, 0b01010001010, 0b01001010010, 0b01001010010, 0b01001010010,
     0b01000100010, 0b01000000010, 0b01000000010, 0b01000000010, 0b01000000010,
     0b01000000010, 0b01000000010, 0b00000000000, 0b00000000000, 0b00000000000,
     0b00000000000, 0b00000000000, 0b00000000000],
    \<comment> \<open>Capital N, 78\<close>
    [0b00000000000, 0b01100000010, 0b01100000010, 0b01010000010, 0b01010000010,
     0b01001000010, 0b01001000010, 0b01001000010, 0b01000100010, 0b01000100010,
     0b01000010010, 0b01000010010, 0b01000010010, 0b01000001010, 0b01000001010,
     0b01000000110, 0b01000000110, 0b00000000000, 0b00000000000, 0b00000000000,
     0b00000000000, 0b00000000000, 0b00000000000],
    \<comment> \<open>Capital O, 79\<close>
    [0b00000000000, 0b00001110000, 0b00010001000, 0b00100000100, 0b00100000100,
     0b01000000010, 0b01000000010, 0b01000000010, 0b01000000010, 0b01000000010,
     0b01000000010, 0b01000000010, 0b01000000010, 0b00100000100, 0b00100000100,
     0b00010001000, 0b00001110000, 0b00000000000, 0b00000000000, 0b00000000000,
     0b00000000000, 0b00000000000, 0b00000000000]]"

definition glyphs_80_85 :: "nat list list" where
  "glyphs_80_85 = [
    \<comment> \<open>Capital P, 80\<close>
    [0b00000000000, 0b00111110000, 0b00100011100, 0b00100000110, 0b00100000010,
     0b00100000010, 0b00100000010, 0b00100000110, 0b00100011100, 0b00111110000,
     0b00100000000, 0b00100000000, 0b00100000000, 0b00100000000, 0b00100000000,
     0b00100000000, 0b00100000000, 0b00000000000, 0b00000000000, 0b00000000000,
     0b00000000000, 0b00000000000, 0b00000000000],
    \<comment> \<open>Capital Q, 81\<close>
    [0b00000000000, 0b00001110000, 0b00010001000, 0b00100000100, 0b00100000100,
     0b01000000010, 0b01000000010, 0b01000000010, 0b01000000010, 0b01000000010,
     0b01000000010, 0b01000000010, 0b01001100010, 0b00100100100, 0b00100110100,
     0b00010011000, 0b00001111100, 0b00000000100, 0b00000000110, 0b00000000010,
     0b00000000000, 0b00000000000, 0b00000000000],
    \<comment> \<open>Capital R, 82\<close>
    [0b00000000000, 0b00111110000, 0b00100011100, 0b00100000110, 0b00100000010,
     0b00100000010, 0b00100000010, 0b00100000110, 0b00100011100, 0b00111110000,
     0b00101100000, 0b00100110000, 0b00100011000, 0b00100001000, 0b00100001100,
     0b00100000110, 0b00100000010, 0b00000000000, 0b00000000000, 0b00000000000,
     0b00000000000, 0b00000000000, 0b00000000000],
    \<comment> \<open>Capital S, 83\<close>
    [0b00000000000, 0b00011111000, 0b00110001100, 0b01100000110, 0b01000000000,
     0b01000000000, 0b01100000000, 0b00110000000, 0b00011111000, 0b00000001100,
     0b00000000110, 0b00000000010, 0b00000000010, 0b00000000010, 0b01100000110,
     0b00110001100, 0b00011111000, 0b00000000000, 0b00000000000, 0b00000000000,
     0b00000000000, 0b00000000000, 0b00000000000],
    \<comment> \<open>Capital T, 84\<close>
    [0b00000000000, 0b01111111110, 0b00000100000, 0b00000100000, 0b00000100000,
     0b00000100000, 0b00000100000, 0b00000100000, 0b00000100000, 0b00000100000,
     0b00000100000, 0b00000100000, 0b00000100000, 0b00000100000, 0b00000100000,
     0b00000100000, 0b00000100000, 0b00000000000, 0b00000000000, 0b00000000000,
     0b00000000000, 0b00000000000, 0b00000000000],
    \<comment> \<open>Capital U, 85\<close>
    [0b00000000000, 0b01000000010, 0b01000000010, 0b01000000010, 0b01000000010,
     0b01000000010, 0b01000000010, 0b01000000010, 0b01000000010, 0b01000000010,
     0b01000000010, 0b01000000010, 0b01000000010, 0b01100000110, 0b00100000100,
     0b00110001100, 0b00011111000, 0b00000000000, 0b00000000000, 0b00000000000,
     0b00000000000, 0b00000000000, 0b00000000000]]"

definition glyphs_86_91 :: "nat list list" where
  "glyphs_86_91 = [
    \<comment> \<open>Capital V, 86\<close>
    [0b00000000000, 0b01000000010, 0b01000000010, 0b01000000010, 0b00100000100,
     0b00100000100, 0b00100000100, 0b00010001000, 0b00010001000, 0b00010001000,
     0b00010001000, 0b00001010000, 0b00001010000, 0b00001010000, 0b00001110000,
     0b00000100000, 0b00000100000, 0b00000000000, 0b00000000000, 0b00000000000,
     0b00000000000, 0b00000000000, 0b00000000000],
    \<comment> \<open>Capital W, 87\<close>
    [0b00000000000, 0b01000000010, 0b01000000010, 0b01000000010, 0b01000000010,
     0b01000000010, 0b01000000010, 0b00100000100, 0b00100000100, 0b00100000100,
     0b00100000100, 0b00100100100, 0b00101110100, 0b00101010100, 0b00110001100,
     0b00110001100, 0b00100000100, 0b00000000000, 0b00000000000, 0b00000000000,
     0b00000000000, 0b00000000000, 0b00000000000],
    \<comment> \<open>Capital X, 88\<close>
    [0b00000000000, 0b01000000010, 0b00100000100, 0b00100000100, 0b00010001000,
     0b00010001000, 0b00001010000, 0b00001010000, 0b00000100000, 0b00000100000,
     0b00001010000, 0b00001010000, 0b00010001000, 0b00010001000, 0b00100000100,
     0b00100000100, 0b01000000010, 0b00000000000, 0b00000000000, 0b00000000000,
     0b00000000000, 0b00000000000, 0b00000000000],
    \<comment> \<open>Capital Y, 89\<close>
    [0b00000000000, 0b01000000010, 0b01000000010, 0b00100000100, 0b00100000100,
     0b00010001000, 0b00010001000, 0b00001010000, 0b00001010000, 0b00000100000,
     0b00000100000, 0b00000100000, 0b00000100000, 0b00000100000, 0b00000100000,
     0b00000100000, 0b00000100000, 0b00000000000, 0b00000000000, 0b00000000000,
     0b00000000000, 0b00000000000, 0b00000000000],
    \<comment> \<open>Capital Z, 90\<close>
    [0b00000000000, 0b01111111110, 0b00000000110, 0b00000000100, 0b00000001100,
     0b00000011000, 0b00000010000, 0b00000110000, 0b00000100000, 0b00001100000,
     0b00011000000, 0b00010000000, 0b00110000000, 0b00100000000, 0b01100000000,
     0b01000000000, 0b01111111110, 0b00000000000, 0b00000000000, 0b00000000000,
     0b00000000000, 0b00000000000, 0b00000000000],
    \<comment> \<open>Left square bracket, 91\<close>
    [0b00000000000, 0b00011111000, 0b00010000000, 0b00010000000, 0b00010000000,
     0b00010000000, 0b00010000000, 0b00010000000, 0b00010000000, 0b00010000000,
     0b00010000000, 0b00010000000, 0b00010000000, 0b00010000000, 0b00010000000,
     0b00010000000, 0b00010000000, 0b00010000000, 0b00011111000, 0b00000000000,
     0b00000000000, 0b00000000000, 0b00000000000]]"

definition glyphs_92_97 :: "nat list list" where
  "glyphs_92_97 = [
    \<comment> \<open>Backslash, 92\<close>
    [0b00000000000, 0b01000000000, 0b01100000000, 0b00100000000, 0b00110000000,
     0b00010000000, 0b00011000000, 0b00001000000, 0b00001100000, 0b00000100000,
     0b00000100000, 0b00000110000, 0b00000010000, 0b00000011000, 0b00000001000,
     0b00000001100, 0b00000000100, 0b00000000000, 0b00000000000, 0b00000000000,
     0b00000000000, 0b00000000000, 0b00000000000],
    \<comment> \<open>Right square bracket, 93\<close>
    [0b00000000000, 0b00011111000, 0b00000001000, 0b00000001000, 0b00000001000,
     0b00000001000, 0b00000001000, 0b00000001000, 0b00000001000, 0b00000001000,
     0b00000001000, 0b00000001000, 0b00000001000, 0b00000001000, 0b00000001000,
     0b00000001000, 0b00000001000, 0b00000001000, 0b00011111000, 0b00000000000,
     0b00000000000, 0b00000000000, 0b00000000000],
    \<comment> \<open>Caret / circumflex, 94\<close>
    [0b00000000000, 0b00000000000, 0b00000100000, 0b00001110000, 0b00001010000,
     0b00011011000, 0b00010001000, 0b00110001100, 0b00100000100, 0b01100000110,
     0b01000000010, 0b00000000000, 0b00000000000, 0b00000000000, 0b00000000000,
     0b00000000000, 0b00000000000, 0b00000000000, 0b00000000000, 0b00000000000,
     0b00000000000, 0b00000000000, 0b00000000000],
    \<comment> \<open>Underscore, 95\<close>
    [0b00000000000, 0b00000000000, 0b00000000000, 0b00000000000, 0b00000000000,
     0b00000000000, 0b00000000000, 0b00000000000, 0b00000000000, 0b00000000000,
     0b00000000000, 0b00000000000, 0b00000000000, 0b00000000000, 0b00000000000,
     0b00000000000, 0b00000000000, 0b00000000000, 0b01111111110, 0b00000000000,
     0b00000000000, 0b00000000000, 0b00000000000],
    \<comment> \<open>Grave / accent, 96\<close>
    [0b00000000000, 0b00111000000, 0b00011100000, 0b00000110000, 0b00000011000,
     0b00000000000, 0b00000000000, 0b00000000000, 0b00000000000, 0b00000000000,
     0b00000000000, 0b00000000000, 0b00000000000, 0b00000000000, 0b00000000000,
     0b00000000000, 0b00000000000, 0b00000000000, 0b00000000000, 0b00000000000,
     0b00000000000, 0b00000000000, 0b00000000000],
    \<comment> \<open>Small a, 97\<close>
    [0b00000000000, 0b00000000000, 0b00000000000, 0b00000000000, 0b00000000000,
     0b00011111000, 0b00110001100, 0b01100000110, 0b00000000010, 0b00000000010,
     0b00000000010, 0b00111111010, 0b01100001110, 0b01000000110, 0b01000000110,
     0b01100001110, 0b00111111010, 0b00000000000, 0b00000000000, 0b00000000000,
     0b00000000000, 0b00000000000, 0b00000000000]]"

definition glyphs_98_103 :: "nat list list" where
  "glyphs_98_103 = [
    \<comment> \<open>Small b, 98\<close>
    [0b00000000000, 0b00100000000, 0b00100000000, 0b00100000000, 0b00100000000,
     0b00100000000, 0b00101111000, 0b00110000100, 0b00100000100, 0b00100000010,
     0b00100000010, 0b00100000010, 0b00100000010, 0b00100000010, 0b00100000110,
     0b00110001100, 0b00101111000, 0b00000000000, 0b00000000000, 0b00000000000,
     0b00000000000, 0b00000000000, 0b00000000000],
    \<comment> \<open>Small c, 99\<close>
    [0b00000000000, 0b00000000000, 0b00000000000, 0b00000000000, 0b00000000000,
     0b00011111000, 0b00110001100, 0b01100000110, 0b01000000010, 0b01000000000,
     0b01000000000, 0b01000000000, 0b01000000000, 0b01000000010, 0b01100000110,
     0b00110001100, 0b00011111000, 0b00000000000, 0b00000000000, 0b00000000000,
     0b00000000000, 0b00000000000, 0b00000000000],
    \<comment> \<open>Small d, 100\<close>
    [0b00000000000, 0b00000000100, 0b00000000100, 0b00000000100, 0b00000000100,
     0b00000000100, 0b00000111100, 0b00011000100, 0b00110000100, 0b00100000100,
     0b01000000100, 0b01000000100, 0b01000000100, 0b01000000100, 0b01000001100,
     0b01100010100, 0b00111100100, 0b00000000000, 0b00000000000, 0b00000000000,
     0b00000000000, 0b00000000000, 0b00000000000],
    \<comment> \<open>Small e, 101\<close>
    [0b00000000000, 0b00000000000, 0b00000000000, 0b00000000000, 0b00000000000,
     0b00001111100, 0b00111000110, 0b00100000010, 0b01100000010, 0b01010000110,
     0b01011111100, 0b01000000000, 0b01000000000, 0b01100000000, 0b00100000000,
     0b00110000110, 0b00001111100, 0b00000000000, 0b00000000000, 0b00000000000,
     0b00000000000, 0b00000000000, 0b00000000000],
    \<comment> \<open>Small f, 102\<close>
    [0b00000000000, 0b00001111000, 0b00011001100, 0b00010000100, 0b00010000000,
     0b00010000000, 0b00010000000, 0b00010000000, 0b01111110000, 0b00010000000,
     0b00010000000, 0b00010000000, 0b00010000000, 0b00010000000, 0b00010000000,
     0b00010000000, 0b00010000000, 0b00000000000, 0b00000000000, 0b00000000000,
     0b00000000000, 0b00000000000, 0b00000000000],
    \<comment> \<open>Small g, 103\<close>
    [0b00000000000, 0b00000000000, 0b00000000000, 0b00000000000, 0b00000000000,
     0b00001111000, 0b00011001100, 0b00110000100, 0b00100000100, 0b00100001100,
     0b00111011100, 0b00011111100, 0b00000000100, 0b00000000100, 0b00000000100,
     0b00000000100, 0b00000000100, 0b00100000100, 0b00100001100, 0b00100001000,
     0b00110011000, 0b00011110000, 0b00000000000]]"

definition glyphs_104_109 :: "nat list list" where
  "glyphs_104_109 = [
    \<comment> \<open>Small h, 104\<close>
    [0b00000000000, 0b00100000000, 0b00100000000, 0b00100000000, 0b00100000000,
     0b00100000000, 0b00101111000, 0b00111001100, 0b00110000100, 0b00100000100,
     0b00100000100, 0b00100000100, 0b00100000100, 0b00100000100, 0b00100000100,
     0b00100000100, 0b00100000100, 0b00000000000, 0b00000000000, 0b00000000000,
     0b00000000000, 0b00000000000, 0b00000000000],
    \<comment> \<open>Small i, 105\<close>
    [0b00000000000, 0b00000000000, 0b00001100000, 0b00001100000, 0b00000000000,
     0b00000000000, 0b00000000000, 0b00001100000, 0b00000100000, 0b00001000000,
     0b00000100000, 0b00001000000, 0b00000100000, 0b00001000000, 0b00000100000,
     0b00001000000, 0b00001100000, 0b00000000000, 0b00000000000, 0b00000000000,
     0b00000000000, 0b00000000000, 0b00000000000],
    \<comment> \<open>Small j, 106\<close>
    [0b00000000000, 0b00000000000, 0b00000001100, 0b00000001100, 0b00000000000,
     0b00000000000, 0b00000001000, 0b00000001000, 0b00000001000, 0b00000001000,
     0b00000001000, 0b00000001000, 0b00000001000, 0b00000001000, 0b00000001000,
     0b00000001000, 0b00000001000, 0b00000001000, 0b00100001000, 0b00100001000,
     0b00110011000, 0b00011110000, 0b00000000000],
    \<comment> \<open>Small k, 107\<close>
    [0b00000000000, 0b00000000000, 0b00100000000, 0b00100000000, 0b00100000000,
     0b00100000110, 0b00100001100, 0b00100011000, 0b00100110000, 0b00101100000,
     0b00111000000, 0b00111100000, 0b00100110000, 0b00100011000, 0b00100001100,
     0b00100000110, 0b00100000010, 0b00000000000, 0b00000000000, 0b00000000000,
     0b00000000000, 0b00000000000, 0b00000000000],
    \<comment> \<open>Small l, 108\<close>
    [0b00000000000, 0b00000010000, 0b00000010000, 0b00000010000, 0b00000010000,
     0b00000010000, 0b00000010000, 0b00000010000, 0b00000010000, 0b00000010000,
     0b00000010000, 0b00000010000, 0b00000010000, 0b00000010000, 0b00000010000,
     0b00000010000, 0b00000010000, 0b00000000000, 0b00000000000, 0b00000000000,
     0b00000000000, 0b00000000000, 0b00000000000],
    \<comment> \<open>Small m, 109\<close>
    [0b00000000000, 0b00000000000, 0b00000000000, 0b00000000000, 0b00000000000,
     0b01000000000, 0b01011001100, 0b01100110010, 0b01000100010, 0b01000100010,
     0b01000100010, 0b01000100010, 0b01000100010, 0b01000100010, 0b01000100010,
     0b01000100010, 0b01000100010, 0b00000000000, 0b00000000000, 0b00000000000,
     0b00000000000, 0b00000000000, 0b00000000000]]"

definition glyphs_110_115 :: "nat list list" where
  "glyphs_110_115 = [
    \<comment> \<open>Small n, 110\<close>
    [0b00000000000, 0b00000000000, 0b00000000000, 0b00000000000, 0b00000000000,
     0b00100000000, 0b00101111000, 0b00111001100, 0b00110000100, 0b00100000100,
     0b00100000100, 0b00100000100, 0b00100000100, 0b00100000100, 0b00100000100,
     0b00100000100, 0b00100000100, 0b00000000000, 0b00000000000, 0b00000000000,
     0b00000000000, 0b00000000000, 0b00000000000],
    \<comment> \<open>Small o, 111\<close>
    [0b00000000000, 0b00000000000, 0b00000000000, 0b00000000000, 0b00000000000,
     0b00011111000, 0b00110001100, 0b00100000100, 0b01100000110, 0b01000000010,
     0b01000000010, 0b01000000010, 0b01000000010, 0b01100000110, 0b00100000100,
     0b00110001100, 0b00011111000, 0b00000000000, 0b00000000000, 0b00000000000,
     0b00000000000, 0b00000000000, 0b00000000000],
    \<comment> \<open>Small p, 112\<close>
    [0b00000000000, 0b00000000000, 0b00000000000, 0b00000000000, 0b00000000000,
     0b01011111000, 0b01110001100, 0b01100000100, 0b01100000110, 0b01000000010,
     0b01000000010, 0b01000000010, 0b01100000110, 0b01100000100, 0b01110001100,
     0b01011111000, 0b01000000000, 0b01000000000, 0b01000000000, 0b01000000000,
     0b01000000000, 0b01000000000, 0b00000000000],
    \<comment> \<open>Small q, 113\<close>
    [0b00000000000, 0b00000000000, 0b00000000000, 0b00000000000, 0b00000000000,
     0b00011111010, 0b00110001110, 0b01100000110, 0b01000000110, 0b01000000010,
     0b01000000010, 0b01000000010, 0b01000000110, 0b01100000110, 0b00110001110,
     0b00011111010, 0b00000000010, 0b00000000010, 0b00000000010, 0b00000000010,
     0b00000000010, 0b00000000010, 0b00000000000],
    \<comment> \<open>Small r, 114\<close>
    [0b00000000000, 0b00000000000, 0b00000000000, 0b00000000000, 0b00000000000,
     0b00100111100, 0b00101100110, 0b00111000010, 0b00110000000, 0b00110000000,
     0b00100000000, 0b00100000000, 0b00100000000, 0b00100000000, 0b00100000000,
     0b00100000000, 0b00100000000, 0b00000000000, 0b00000000000, 0b00000000000,
     0b00000000000, 0b00000000000, 0b00000000000],
    \<comment> \<open>Small s, 115\<close>
    [0b00000000000, 0b00000000000, 0b00000000000, 0b00000000000, 0b00000000000,
     0b00011111000, 0b00110001100, 0b00100000100, 0b00110000000, 0b00011100000,
     0b00000111000, 0b00000001100, 0b01000000110, 0b01000000110, 0b01100000110,
     0b00110001100, 0b00011111000, 0b00000000000, 0b00000000000, 0b00000000000,
     0b00000000000, 0b00000000000, 0b00000000000]]"

definition glyphs_116_121 :: "nat list list" where
  "glyphs_116_121 = [
    \<comment> \<open>Small t, 116\<close>
    [0b00000000000, 0b00010000000, 0b00010000000, 0b00010000000, 0b00010000000,
     0b01111111000, 0b00010000000, 0b00010000000, 0b00010000000, 0b00010000000,
     0b00010000000, 0b00010000000, 0b00010000000, 0b00010000000, 0b00010000000,
     0b00010000000, 0b00001111000, 0b00000000000, 0b00000000000, 0b00000000000,
     0b00000000000, 0b00000000000, 0b00000000000],
    \<comment> \<open>Small u, 117\<close>
    [0b00000000000, 0b00000000000, 0b00000000000, 0b00000000000, 0b00000000000,
     0b00100000100, 0b00100000100, 0b00100000100, 0b00100000100, 0b00100000100,
     0b00100000100, 0b00100000100, 0b00100000100, 0b00100000100, 0b00100000100,
     0b00110001100, 0b00011111010, 0b00000000000, 0b00000000000, 0b00000000000,
     0b00000000000, 0b00000000000, 0b00000000000],
    \<comment> \<open>Small v, 118\<close>
    [0b00000000000, 0b00000000000, 0b00000000000, 0b00000000000, 0b00000000000,
     0b01000000010, 0b01100000110, 0b00100000100, 0b00100000100, 0b00110001100,
     0b00010001000, 0b00010001000, 0b00011011000, 0b00001010000, 0b00001110000,
     0b00000100000, 0b00000100000, 0b00000000000, 0b00000000000, 0b00000000000,
     0b00000000000, 0b00000000000, 0b00000000000],
    \<comment> \<open>Small w, 119\<close>
    [0b00000000000, 0b00000000000, 0b00000000000, 0b00000000000, 0b00000000000,
     0b01000000010, 0b01000000010, 0b01000000010, 0b01000000010, 0b01000000010,
     0b00100000100, 0b00100000100, 0b00100100100, 0b00100100100, 0b00100100100,
     0b00011011000, 0b00010001000, 0b00000000000, 0b00000000000, 0b00000000000,
     0b00000000000, 0b00000000000, 0b00000000000],
    \<comment> \<open>Small x, 120\<close>
    [0b00000000000, 0b00000000000, 0b00000000000, 0b00000000000, 0b00000000000,
     0b01000000010, 0b01100000110, 0b00110001100, 0b00010001000, 0b00011011000,
     0b00001110000, 0b00001110000, 0b00011011000, 0b00010001000, 0b00110001100,
     0b01100000110, 0b01000000010, 0b00000000000, 0b00000000000, 0b00000000000,
     0b00000000000, 0b00000000000, 0b00000000000],
    \<comment> \<open>Small y, 121\<close>
    [0b00000000000, 0b00000000000, 0b00000000000, 0b00000000000, 0b00000000000,
     0b01000000010, 0b01000000010, 0b01100000110, 0b00100000100, 0b00110001100,
     0b00010001000, 0b00011011000, 0b00001010000, 0b00001110000, 0b00001100000,
     0b00001000000, 0b00011000000, 0b00010000000, 0b00110000000, 0b00100000000,
     0b01100000000, 0b01000000000, 0b00000000000]]"

definition glyphs_122_126 :: "nat list list" where
  "glyphs_122_126 = [
    \<comment> \<open>Small z, 122\<close>
    [0b00000000000, 0b00000000000, 0b00000000000, 0b00000000000, 0b00000000000,
     0b01111111110, 0b00000000110, 0b00000001100, 0b00000011000, 0b00000110000,
     0b00000100000, 0b00001100000, 0b00011000000, 0b00010000000, 0b00110000000,
     0b01100000000, 0b01111111110, 0b00000000000, 0b00000000000, 0b00000000000,
     0b00000000000, 0b00000000000, 0b00000000000],
    \<comment> \<open>Left curly bracket, 123\<close>
    [0b00000000000, 0b00000000000, 0b00000111000, 0b00001100000, 0b00001000000,
     0b00001000000, 0b00001000000, 0b00001000000, 0b00011000000, 0b00110000000,
     0b01100000000, 0b00110000000, 0b00011000000, 0b00001000000, 0b00001000000,
     0b00001000000, 0b00001000000, 0b00001100000, 0b00000111000, 0b00000000000,
     0b00000000000, 0b00000000000, 0b00000000000],
    \<comment> \<open>Vertical bar, 124\<close>
    [0b00000000000, 0b00000100000, 0b00000100000, 0b00000100000, 0b00000100000,
     0b00000100000, 0b00000100000, 0b00000100000, 0b00000100000, 0b00000100000,
     0b00000100000, 0b00000100000, 0b00000100000, 0b00000100000, 0b00000100000,
     0b00000100000, 0b00000100000, 0b00000100000, 0b00000100000, 0b00000100000,
     0b00000100000, 0b00000100000, 0b00000000000],
    \<comment> \<open>Right curly bracket, 125\<close>
    [0b00000000000, 0b00000000000, 0b00011100000, 0b00000110000, 0b00000010000,
     0b00000010000, 0b00000010000, 0b00000010000, 0b00000011000, 0b00000001100,
     0b00000000110, 0b00000001100, 0b00000011000, 0b00000010000, 0b00000010000,
     0b00000010000, 0b00000010000, 0b00000110000, 0b00011100000, 0b00000000000,
     0b00000000000, 0b00000000000, 0b00000000000],
    \<comment> \<open>Tilde, 126\<close>
    [0b00000000000, 0b00000000000, 0b00000000000, 0b00000000000, 0b00000000000,
     0b00000000000, 0b00000000000, 0b00000000000, 0b00111000010, 0b01101110110,
     0b01000011100, 0b00000000000, 0b00000000000, 0b00000000000, 0b00000000000,
     0b00000000000, 0b00000000000, 0b00000000000, 0b00000000000, 0b00000000000,
     0b00000000000, 0b00000000000, 0b00000000000]]"

definition asciiBitFields :: "u8 list list" where
  "asciiBitFields = map expand (
     glyphs_32_37 @
     glyphs_38_43 @
     glyphs_44_49 @
     glyphs_50_55 @
     glyphs_56_61 @
     glyphs_62_67 @
     glyphs_68_73 @
     glyphs_74_79 @
     glyphs_80_85 @
     glyphs_86_91 @
     glyphs_92_97 @
     glyphs_98_103 @
     glyphs_104_109 @
     glyphs_110_115 @
     glyphs_116_121 @
     glyphs_122_126)"

definition ASCII_BF_COUNT :: u32 where "ASCII_BF_COUNT = word_of_nat (length asciiBitFields)"

section \<open>The shape of the table\<close>

definition glyph_rows :: "nat list \<Rightarrow> bool" where "glyph_rows g \<longleftrightarrow> length g = ASCII_BF_HEIGHT"

lemma glyphs_ok:
  "list_all glyph_rows glyphs_32_37"
  "list_all glyph_rows glyphs_38_43"
  "list_all glyph_rows glyphs_44_49"
  "list_all glyph_rows glyphs_50_55"
  "list_all glyph_rows glyphs_56_61"
  "list_all glyph_rows glyphs_62_67"
  "list_all glyph_rows glyphs_68_73"
  "list_all glyph_rows glyphs_74_79"
  "list_all glyph_rows glyphs_80_85"
  "list_all glyph_rows glyphs_86_91"
  "list_all glyph_rows glyphs_92_97"
  "list_all glyph_rows glyphs_98_103"
  "list_all glyph_rows glyphs_104_109"
  "list_all glyph_rows glyphs_110_115"
  "list_all glyph_rows glyphs_116_121"
  "list_all glyph_rows glyphs_122_126"
  by (simp_all add: glyph_rows_def ASCII_BF_HEIGHT_def glyphs_32_37_def glyphs_38_43_def glyphs_44_49_def glyphs_50_55_def glyphs_56_61_def
      glyphs_62_67_def glyphs_68_73_def glyphs_74_79_def glyphs_80_85_def glyphs_86_91_def
      glyphs_92_97_def glyphs_98_103_def glyphs_104_109_def glyphs_110_115_def glyphs_116_121_def
      glyphs_122_126_def)

lemma glyphs_count:
  "length asciiBitFields = 95"
  by (simp add: asciiBitFields_def glyphs_32_37_def glyphs_38_43_def glyphs_44_49_def glyphs_50_55_def glyphs_56_61_def
      glyphs_62_67_def glyphs_68_73_def glyphs_74_79_def glyphs_80_85_def glyphs_86_91_def
      glyphs_92_97_def glyphs_98_103_def glyphs_104_109_def glyphs_110_115_def glyphs_116_121_def
      glyphs_122_126_def)

lemma glyphRow_shape: "length (glyphRow r) = ASCII_BF_WIDTH" "set (glyphRow r) \<subseteq> {0, 1}"
  by (auto simp: glyphRow_def)

lemma expand_shape: "length (expand g) = length g * ASCII_BF_WIDTH" "set (expand g) \<subseteq> {0, 1}"
proof -
  show "length (expand g) = length g * ASCII_BF_WIDTH"
    by (induction g) (simp_all add: expand_def glyphRow_shape)
  show "set (expand g) \<subseteq> {0, 1}" using glyphRow_shape(2) by (fastforce simp: expand_def)
qed

text \<open>The entry in row \<open>i\<close> and column \<open>j\<close> of a glyph.\<close>

lemma expand_nth:
  "i < length g \<Longrightarrow> j < ASCII_BF_WIDTH \<Longrightarrow>
     expand g ! (i * ASCII_BF_WIDTH + j) = (if bit (g ! i) (10 - j) then 1 else 0)"
proof (induction g arbitrary: i)
  case (Cons r g)
  have e: "expand (r # g) = glyphRow r @ expand g" by (simp add: expand_def)
  show ?case
  proof (cases i)
    case 0
    with Cons.prems show ?thesis unfolding e by (simp add: nth_append glyphRow_shape glyphRow_def)
  next
    case (Suc k)
    have "(glyphRow r @ expand g) ! (ASCII_BF_WIDTH + (k * ASCII_BF_WIDTH + j)) = expand g ! (k * ASCII_BF_WIDTH + j)"
      using nth_append_length_plus [of "glyphRow r" "expand g"] by (simp add: glyphRow_shape)
    with Suc Cons show ?thesis unfolding e by (simp add: add.assoc)
  qed
qed simp

lemma font_glyph:
  assumes "k < 95"
  shows "length (asciiBitFields ! k) = ASCII_BF_HEIGHT * ASCII_BF_WIDTH"
    "set (asciiBitFields ! k) \<subseteq> {0, 1}"
proof -
  have "asciiBitFields ! k \<in> set asciiBitFields" using assms glyphs_count by simp
  then obtain g where g: "asciiBitFields ! k = expand g" "glyph_rows g"
    unfolding asciiBitFields_def set_map set_append using glyphs_ok unfolding list_all_iff by blast
  then show "length (asciiBitFields ! k) = ASCII_BF_HEIGHT * ASCII_BF_WIDTH"
    "set (asciiBitFields ! k) \<subseteq> {0, 1}"
    using expand_shape [of g] by (simp_all add: glyph_rows_def)
qed

end
