(* ===== verification/Video.thy ===== *)
theory Video
  imports Font KUtils "HOL-Library.Signed_Division"
begin

text \<open>
  The text screen (\<open>Kernel/c/videoDriver.c\<close>) over a linear frame buffer. The frame buffer is the
  list of its pixels; a store outside it is the fault \<open>None\<close>. The \<open>int32_t\<close> variables are
  integers: with the sizes of a screen no computation on them leaves the range of the type.
\<close>

record RGBColor =
  blue :: u8
  green :: u8
  red :: u8

text \<open>The fields of \<open>vbe_mode_info_structure\<close> that are used, and the variables of the file.\<close>

record Screen =
  width :: int
  height :: int
  pitch :: int
  bpp :: int
  framebuffer :: "RGBColor list"
  bgColor :: RGBColor
  fontColor :: RGBColor
  cursorColor :: RGBColor
  fontSize :: int
  fontCols :: int
  fontRows :: int
  charSeparation :: int
  cursorCol :: int
  cursorRow :: int

datatype ColorType = BACKGROUND | FONT | CURSOR

definition MAX_FONT_SIZE :: int where "MAX_FONT_SIZE = 4"

section \<open>The grid of characters\<close>

definition charWidth :: "Screen \<Rightarrow> int" where
  "charWidth s = int ASCII_BF_WIDTH * fontSize s + charSeparation s"

definition charHeight :: "Screen \<Rightarrow> int" where
  "charHeight s = int ASCII_BF_HEIGHT * fontSize s + charSeparation s"

definition setFontGridValues :: "Screen \<Rightarrow> Screen" where
  "setFontGridValues s = s\<lparr>fontCols := width s sdiv charWidth s, fontRows := height s sdiv charHeight s\<rparr>"

definition getFontSize :: "Screen \<Rightarrow> int" where "getFontSize s = fontSize s"
definition getScreenWidth :: "Screen \<Rightarrow> int" where "getScreenWidth s = width s"
definition getScreenHeight :: "Screen \<Rightarrow> int" where "getScreenHeight s = height s"
definition getCharSeparation :: "Screen \<Rightarrow> int" where "getCharSeparation s = charSeparation s"

definition setFontSize :: "int \<Rightarrow> Screen \<Rightarrow> int \<times> Screen" where
  "setFontSize fs s =
     (let s1 = (if 1 \<le> fs \<and> fs \<le> MAX_FONT_SIZE then setFontGridValues (s\<lparr>fontSize := fs\<rparr>) else s)
      in (fontSize s1, s1))"

definition colRowToXY :: "Screen \<Rightarrow> int \<Rightarrow> int \<Rightarrow> int \<times> int" where
  "colRowToXY s col row = (col * charWidth s, row * charHeight s)"

section \<open>Pixels\<close>

text \<open>The offset becomes a \<open>uint64_t\<close>, so a negative one is far outside as well.\<close>

definition pixelOffset :: "Screen \<Rightarrow> int \<Rightarrow> int \<Rightarrow> int" where
  "pixelOffset s x y = x + (y * pitch s) sdiv (bpp s div 8)"

definition printPixel :: "int \<Rightarrow> int \<Rightarrow> RGBColor \<Rightarrow> Screen \<Rightarrow> Screen option" where
  "printPixel x y color s =
     (if bpp s div 8 = 0 then None
      else if 0 \<le> pixelOffset s x y \<and> pixelOffset s x y < int (length (framebuffer s))
      then Some (s\<lparr>framebuffer := (framebuffer s)[nat (pixelOffset s x y) := color]\<rparr>)
      else None)"

definition fillRectangle :: "int \<Rightarrow> int \<Rightarrow> int \<Rightarrow> int \<Rightarrow> RGBColor \<Rightarrow> Screen \<Rightarrow> Screen option" where
  "fillRectangle x y w h color s =
     for_n 0 (nat h) (\<lambda>i. for_n 0 (nat w) (\<lambda>j. printPixel (x + int j) (y + int i) color)) s"

definition initializeFrameBuffer :: "RGBColor list \<Rightarrow> Screen \<Rightarrow> Screen" where
  "initializeFrameBuffer fb s = s\<lparr>framebuffer := fb\<rparr>"

section \<open>Characters\<close>

text \<open>\<open>char\<close> is signed. An entry outside the table would be a fault.\<close>

definition glyphBit :: "byte \<Rightarrow> nat \<Rightarrow> nat \<Rightarrow> u8 option" where
  "glyphBit c i j =
     (let k = unat (c - ASCII_BF_MIN)
      in if k < length asciiBitFields \<and> i * ASCII_BF_WIDTH + j < length (asciiBitFields ! k)
         then Some (asciiBitFields ! k ! (i * ASCII_BF_WIDTH + j)) else None)"

definition printCharXY :: "int \<Rightarrow> int \<Rightarrow> byte \<Rightarrow> int \<Rightarrow> Screen \<Rightarrow> Screen option" where
  "printCharXY x y c fs s =
     (if sint c < sint ASCII_BF_MIN \<or> sint c > sint ASCII_BF_MAX then Some s
      else for_n 0 ASCII_BF_HEIGHT (\<lambda>i. for_n 0 ASCII_BF_WIDTH (\<lambda>j s. do {
        b \<leftarrow> glyphBit c i j;
        if b \<noteq> 0 then fillRectangle (x + int j * fs) (y + int i * fs) fs fs (fontColor s) s
        else Some s
      })) s)"

definition printChar :: "int \<Rightarrow> int \<Rightarrow> byte \<Rightarrow> Screen \<Rightarrow> Screen option" where
  "printChar col row c s =
     (let (x, y) = colRowToXY s col row in printCharXY x y c (fontSize s) s)"

section \<open>The cursor\<close>

definition printCursorOfColor :: "RGBColor \<Rightarrow> Screen \<Rightarrow> Screen option" where
  "printCursorOfColor color s =
     (if cursorCol s \<le> 0 then Some s
      else let (x, y) = colRowToXY s (cursorCol s) (cursorRow s)
           in fillRectangle (x - 2) y (fontSize s) ((int ASCII_BF_HEIGHT - 3) * fontSize s) color s)"

definition printCursor :: "Screen \<Rightarrow> Screen option" where
  "printCursor s = printCursorOfColor (cursorColor s) s"

definition eraseCursor :: "Screen \<Rightarrow> Screen option" where
  "eraseCursor s = printCursorOfColor (bgColor s) s"

definition moveCursor :: "int \<Rightarrow> int \<Rightarrow> Screen \<Rightarrow> Screen" where
  "moveCursor col row s =
     (if col < 0 \<or> row < 0 \<or> col \<ge> fontCols s \<or> row \<ge> fontRows s then s
      else s\<lparr>cursorCol := col, cursorRow := row\<rparr>)"

definition cursorHasNext :: "Screen \<Rightarrow> bool" where
  "cursorHasNext s \<longleftrightarrow> cursorCol s < fontCols s \<and> cursorRow s < fontRows s"

definition cursorNext :: "Screen \<Rightarrow> (int \<times> Screen) option" where
  "cursorNext s = do {
     s1 \<leftarrow> eraseCursor s;
     let s2 = s1\<lparr>cursorCol := cursorCol s1 + 1\<rparr>;
     if cursorCol s2 \<ge> fontCols s2
     then do {
       let s3 = s2\<lparr>cursorRow := cursorRow s2 + 1\<rparr>;
       if cursorRow s3 \<ge> fontRows s3
       then Some (1, s3\<lparr>cursorRow := fontRows s3 - 1, cursorCol := fontCols s3\<rparr>)
       else do { s4 \<leftarrow> printCursor (s3\<lparr>cursorCol := 0\<rparr>); Some (0, s4) }
     }
     else do { s3 \<leftarrow> printCursor s2; Some (0, s3) }
   }"

definition cursorPrev :: "Screen \<Rightarrow> (int \<times> Screen) option" where
  "cursorPrev s = do {
     s1 \<leftarrow> eraseCursor s;
     let s2 = s1\<lparr>cursorCol := cursorCol s1 - 1\<rparr>;
     if cursorCol s2 < 0
     then do {
       let s3 = s2\<lparr>cursorRow := cursorRow s2 - 1\<rparr>;
       if cursorRow s3 < 0 then Some (1, s3\<lparr>cursorRow := 0, cursorCol := 0\<rparr>)
       else do { s4 \<leftarrow> printCursor (s3\<lparr>cursorCol := fontCols s3 - 1\<rparr>); Some (0, s4) }
     }
     else do { s3 \<leftarrow> printCursor s2; Some (0, s3) }
   }"

definition eraseChar :: "Screen \<Rightarrow> Screen option" where
  "eraseChar s = do {
     (r, s1) \<leftarrow> cursorPrev s;
     if r \<noteq> 0 then Some s1
     else do {
       let (x, y) = colRowToXY s1 (cursorCol s1) (cursorRow s1);
       for_n 0 ASCII_BF_HEIGHT (\<lambda>i. for_n 0 ASCII_BF_WIDTH (\<lambda>j s.
         fillRectangle (x + int j * fontSize s) (y + int i * fontSize s) (fontSize s) (fontSize s)
           (bgColor s) s)) s1
     }
   }"

section \<open>Printing text\<close>

text \<open>Moving the text up by a row: \<open>framebuffer[i] = framebuffer[i + pixelsInCharRow]\<close>, then a blank row.\<close>

definition loadPixel :: "Screen \<Rightarrow> nat \<Rightarrow> RGBColor option" where
  "loadPixel s i = (if i < length (framebuffer s) then Some (framebuffer s ! i) else None)"

definition storePixel :: "nat \<Rightarrow> RGBColor \<Rightarrow> Screen \<Rightarrow> Screen option" where
  "storePixel i color s =
     (if i < length (framebuffer s) then Some (s\<lparr>framebuffer := (framebuffer s)[i := color]\<rparr>) else None)"

definition scrollUp :: "Screen \<Rightarrow> Screen option" where
  "scrollUp s =
     (let pixelsInCharRow = nat (charHeight s * width s); pixelsInScreen = nat (width s * height s)
      in if pixelsInScreen < pixelsInCharRow then None
      else do {
        s1 \<leftarrow> for_n 0 (pixelsInScreen - pixelsInCharRow) (\<lambda>i s. do {
          c \<leftarrow> loadPixel s (i + pixelsInCharRow);
          storePixel i c s
        }) s;
        for_n (pixelsInScreen - pixelsInCharRow) (pixelsInScreen - (pixelsInScreen - pixelsInCharRow))
          (\<lambda>i s. storePixel i (bgColor s) s) s1
      })"

text \<open>
  \<open>printNextChar\<close> prints a tab by printing the string \<open>tab\<close>, of two spaces: \<open>printTab\<close> is that
  call, in which no tab comes up again.
\<close>

definition printNextChar_with :: "(Screen \<Rightarrow> Screen option) \<Rightarrow> byte \<Rightarrow> Screen \<Rightarrow> Screen option" where
  "printNextChar_with printTab c s =
     (if c = 8 then eraseChar s
      else if c = 10 then do {
        s1 \<leftarrow> eraseCursor s;
        Some (s1\<lparr>cursorRow := cursorRow s1 + 1, cursorCol := 0\<rparr>)
      }
      else do {
        s1 \<leftarrow> (if \<not> cursorHasNext s
              then scrollUp (s\<lparr>cursorCol := 0, cursorRow := fontRows s - 1\<rparr>) else Some s);
        s2 \<leftarrow> (if c = 9 then printTab s1 else printChar (cursorCol s1) (cursorRow s1) c s1);
        (_, s3) \<leftarrow> cursorNext s2;
        Some s3
      })"

fun printString_with :: "(byte \<Rightarrow> Screen \<Rightarrow> Screen option) \<Rightarrow> byte list \<Rightarrow> Screen \<Rightarrow> Screen option" where
  "printString_with f [] s = None"
| "printString_with f (c # cs) s =
     (if c = 0 then Some s else do { s1 \<leftarrow> f c s; printString_with f cs s1 })"

definition tab :: "byte list" where "tab = [32, 32, 0]"

definition printNextChar :: "byte \<Rightarrow> Screen \<Rightarrow> Screen option" where
  "printNextChar = printNextChar_with (printString_with (printNextChar_with (\<lambda>_. None)) tab)"

definition printNextString :: "byte list \<Rightarrow> Screen \<Rightarrow> Screen option" where
  "printNextString = printString_with printNextChar"

definition printNextBuf :: "byte list \<Rightarrow> u32 \<Rightarrow> Screen \<Rightarrow> Screen option" where
  "printNextBuf buf len s =
     for_n 0 (unat len) (\<lambda>i s. if i < length buf then printNextChar (buf ! i) s else None) s"

text \<open>The local \<open>buffer\<close> has as many characters as the screen has columns of pixels.\<close>

definition printNextBase :: "u64 \<Rightarrow> u32 \<Rightarrow> Screen \<Rightarrow> Screen option" where
  "printNextBase v base s = do {
     (buffer, _) \<leftarrow> uintToBase v (replicate (nat (getScreenWidth s)) 0) base;
     printNextString buffer s
   }"

definition printNextDec :: "u64 \<Rightarrow> Screen \<Rightarrow> Screen option" where
  "printNextDec v = printNextBase v 10"

definition hexPrefix :: "byte list" where "hexPrefix = [48, 120, 0]"

definition printNextHex :: "u64 \<Rightarrow> Screen \<Rightarrow> Screen option" where
  "printNextHex v s = do { s1 \<leftarrow> printNextString hexPrefix s; printNextBase v 16 s1 }"

definition printNextHexWithPadding :: "u64 \<Rightarrow> Screen \<Rightarrow> Screen option" where
  "printNextHexWithPadding v s = do {
     (_, digits) \<leftarrow> uintToBase v (replicate (nat (getScreenWidth s)) 0) 16;
     s1 \<leftarrow> printNextString hexPrefix s;
     s2 \<leftarrow> for_n digits (16 - digits) (\<lambda>_. printNextChar 48) s1;
     printNextBase v 16 s2
   }"

section \<open>Colours\<close>

definition setRGBColor :: "u32 \<Rightarrow> RGBColor" where
  "setRGBColor hexColor =
     \<lparr>blue = ucast (hexColor AND 0xFF), green = ucast (drop_bit 8 hexColor AND 0xFF),
      red = ucast (drop_bit 16 hexColor AND 0xFF)\<rparr>"

fun setColor :: "ColorType \<Rightarrow> u32 \<Rightarrow> Screen \<Rightarrow> Screen" where
  "setColor BACKGROUND hexColor s = s\<lparr>bgColor := setRGBColor hexColor\<rparr>"
| "setColor FONT hexColor s = s\<lparr>fontColor := setRGBColor hexColor\<rparr>"
| "setColor CURSOR hexColor s = s\<lparr>cursorColor := setRGBColor hexColor\<rparr>"

definition clearScreen :: "Screen \<Rightarrow> Screen option" where
  "clearScreen s = do {
     s1 \<leftarrow> fillRectangle 0 0 (width s) (height s) (bgColor s) s;
     Some (moveCursor 0 0 s1)
   }"

end
