(* ===== verification/VideoProps.thy ===== *)
theory VideoProps
  imports Video
begin

text \<open>
  Correctness of the text screen: which pixels the drawing operations change, and that printing
  stays inside the frame buffer. A drawing operation is described by the set of frame-buffer
  offsets it paints (\<open>paints\<close>).
\<close>

section \<open>Painting\<close>

text \<open>A mode of 24 bits per pixel without padding at the end of the lines.\<close>

definition plain_mode :: "Screen \<Rightarrow> bool" where
  "plain_mode s \<longleftrightarrow> bpp s = 24 \<and> pitch s = 3 * width s \<and> 0 < width s \<and> 0 < height s \<and>
     int (length (framebuffer s)) = width s * height s"

definition paints :: "Screen \<Rightarrow> nat set \<Rightarrow> RGBColor \<Rightarrow> Screen \<Rightarrow> bool" where
  "paints s0 A color s \<longleftrightarrow> (\<exists>fb. s = s0\<lparr>framebuffer := fb\<rparr> \<and> length fb = length (framebuffer s0) \<and>
     (\<forall>k < length fb. fb ! k = (if k \<in> A then color else framebuffer s0 ! k)))"

lemma paints_refl: "paints s {} color s"
  unfolding paints_def by (intro exI [of _ "framebuffer s"]) simp

lemma paints_fields:
  assumes "paints s0 A color s"
  shows "width s = width s0" "height s = height s0" "fontSize s = fontSize s0" "pitch s = pitch s0"
    "bpp s = bpp s0" "fontColor s = fontColor s0" "bgColor s = bgColor s0" "fontCols s = fontCols s0"
    "fontRows s = fontRows s0" "charSeparation s = charSeparation s0" "cursorCol s = cursorCol s0"
    "cursorRow s = cursorRow s0" "cursorColor s = cursorColor s0"
    "length (framebuffer s) = length (framebuffer s0)"
  using assms by (auto simp: paints_def)

lemma pixelOffset_plain: "plain_mode s \<Longrightarrow> pixelOffset s x y = x + y * width s"
proof -
  have "(y * (3 * w)) sdiv 3 = y * w" for w :: int
    using signed_divide_int_def [of "y * (3 * w)" 3] by (auto simp: sgn_mult abs_mult mult_ac sgn_if abs_if split: if_splits)
  then show "plain_mode s \<Longrightarrow> pixelOffset s x y = x + y * width s"
    by (simp add: pixelOffset_def plain_mode_def)
qed

lemma printPixel_paints:
  assumes "paints s0 A color s" "plain_mode s0"
    and "0 \<le> x + y * width s0" "x + y * width s0 < width s0 * height s0"
  shows "\<exists>s'. printPixel x y color s = Some s' \<and> paints s0 (insert (nat (x + y * width s0)) A) color s'"
proof -
  obtain fb where fb: "s = s0\<lparr>framebuffer := fb\<rparr>" "length fb = length (framebuffer s0)"
    "\<forall>k < length fb. fb ! k = (if k \<in> A then color else framebuffer s0 ! k)"
    using assms(1) by (auto simp: paints_def)
  have plain: "plain_mode s" using assms(2) fb by (simp add: plain_mode_def)
  let ?k = "nat (x + y * width s0)"
  have w: "width s = width s0" using fb(1) by simp
  have len: "int (length fb) = width s0 * height s0" using assms(2) fb(2) by (simp add: plain_mode_def)
  have "printPixel x y color s = Some (s0\<lparr>framebuffer := fb[?k := color]\<rparr>)"
    using pixelOffset_plain [OF plain, of x y] assms(3,4) len w fb(1) plain
    by (simp add: printPixel_def plain_mode_def)
  moreover have "paints s0 (insert ?k A) color (s0\<lparr>framebuffer := fb[?k := color]\<rparr>)"
    unfolding paints_def using fb(2,3) assms(3,4) len
    by (intro exI [of _ "fb[?k := color]"]) (auto simp: nth_list_update)
  ultimately show ?thesis by blast
qed

text \<open>The offsets of a rectangle on lines of \<open>W\<close> pixels.\<close>

definition rect :: "int \<Rightarrow> int \<Rightarrow> int \<Rightarrow> int \<Rightarrow> int \<Rightarrow> nat set" where
  "rect W x y w h = {nat (x + j + (y + i) * W) |i j. 0 \<le> i \<and> i < h \<and> 0 \<le> j \<and> j < w}"

lemma rectI: "0 \<le> i \<Longrightarrow> i < h \<Longrightarrow> 0 \<le> j \<Longrightarrow> j < w \<Longrightarrow> nat (x + j + (y + i) * W) \<in> rect W x y w h"
  unfolding rect_def by blast

lemma rect_mono: "h \<le> h' \<Longrightarrow> w \<le> w' \<Longrightarrow> rect W x y w h \<subseteq> rect W x y w' h'"
  unfolding rect_def by force

lemma rect_rows:
  "rect W x y w (int (Suc n)) = rect W x y w (int n) \<union> rect W x (y + int n) w 1" (is "?A = ?B \<union> ?C")
proof (intro equalityI subsetI)
  fix k assume "k \<in> ?A"
  then obtain i j where ij: "k = nat (x + j + (y + i) * W)" "0 \<le> i" "i < int (Suc n)" "0 \<le> j" "j < w"
    by (auto simp: rect_def)
  show "k \<in> ?B \<union> ?C"
  proof (cases "i < int n")
    case False
    then have "i = int n" using ij(3) by simp
    then show ?thesis using ij rectI [of 0 1 j w x "y + int n" W] by simp
  qed (use ij rectI in blast)
next
  fix k assume "k \<in> ?B \<union> ?C"
  then show "k \<in> ?A"
  proof
    assume "k \<in> ?C"
    then obtain i j where ij: "k = nat (x + j + (y + int n + i) * W)" "0 \<le> i" "i < 1" "0 \<le> j" "j < w"
      by (auto simp: rect_def)
    then have "i = 0" by simp
    with ij show ?thesis using rectI [of "int n" "int (Suc n)" j w x y W] by simp
  qed (use rect_mono [of "int n" "int (Suc n)" w w] in auto)
qed

lemma rect_cols: "rect W x y (int (Suc n)) 1 = insert (nat (x + int n + y * W)) (rect W x y (int n) 1)"
  (is "?A = insert ?k ?B")
proof (intro equalityI subsetI)
  fix k assume "k \<in> ?A"
  then obtain i j where ij: "k = nat (x + j + (y + i) * W)" "0 \<le> i" "i < 1" "0 \<le> j" "j < int (Suc n)"
    by (auto simp: rect_def)
  then have i: "i = 0" by simp
  show "k \<in> insert ?k ?B"
  proof (cases "j < int n")
    case False
    then have "j = int n" using ij(5) by simp
    then show ?thesis using ij(1) i by simp
  qed (use ij rectI in blast)
next
  fix k assume "k \<in> insert ?k ?B"
  then show "k \<in> ?A"
    using rectI [of 0 1 "int n" "int (Suc n)" x y W] rect_mono [of 1 1 "int n" "int (Suc n)" W x y] by auto
qed

lemma rect_empty [simp]: "rect W x y w 0 = {}" "rect W x y 0 h = {}"
  by (auto simp: rect_def)

lemma span_paints:
  assumes s: "paints s0 A color s" and m: "plain_mode s0" and y: "0 \<le> y" "0 \<le> x"
    and fits: "x + int n - 1 + y * width s0 < width s0 * height s0"
  shows "\<exists>s'. for_n 0 n (\<lambda>j. printPixel (x + int j) y color) s = Some s' \<and>
    paints s0 (A \<union> rect (width s0) x y (int n) 1) color s'"
proof -
  have "\<exists>s'. for_n 0 n (\<lambda>j. printPixel (x + int j) y color) s = Some s' \<and>
      paints s0 (A \<union> rect (width s0) x y (int (0 + n)) 1) color s'"
  proof (rule for_n_inv [where P = "\<lambda>j. paints s0 (A \<union> rect (width s0) x y (int j) 1) color"])
    fix j s assume j: "0 \<le> j" "j < 0 + n" "paints s0 (A \<union> rect (width s0) x y (int j) 1) color s"
    have "0 \<le> y * width s0" using y m by (simp add: plain_mode_def)
    then show "\<exists>s'. printPixel (x + int j) y color s = Some s' \<and>
        paints s0 (A \<union> rect (width s0) x y (int (Suc j)) 1) color s'"
      unfolding rect_cols using printPixel_paints [OF j(3) m, of "x + int j" y] y fits j(2) by simp
  qed (use s in simp)
  then show ?thesis by simp
qed

definition fits :: "Screen \<Rightarrow> int \<Rightarrow> int \<Rightarrow> int \<Rightarrow> int \<Rightarrow> bool" where
  "fits s x y w h \<longleftrightarrow> 0 \<le> x \<and> 0 \<le> y \<and> 0 \<le> w \<and> 0 \<le> h \<and>
     x + w - 1 + (y + h - 1) * width s < width s * height s"

lemma fillRectangle_paints:
  assumes s: "paints s0 A color s" and m: "plain_mode s0" and f: "fits s0 x y w h"
  shows "\<exists>s'. fillRectangle x y w h color s = Some s' \<and> paints s0 (A \<union> rect (width s0) x y w h) color s'"
proof -
  have "\<exists>s'. fillRectangle x y w h color s = Some s' \<and>
      paints s0 (A \<union> rect (width s0) x y w (int (0 + nat h))) color s'"
    unfolding fillRectangle_def
  proof (rule for_n_inv [where P = "\<lambda>i. paints s0 (A \<union> rect (width s0) x y w (int i)) color"])
    fix i s assume i: "0 \<le> i" "i < 0 + nat h" "paints s0 (A \<union> rect (width s0) x y w (int i)) color s"
    have "(y + int i) * width s0 \<le> (y + h - 1) * width s0"
      using i(2) m by (intro mult_right_mono) (auto simp: plain_mode_def)
    then have "x + int (nat w) - 1 + (y + int i) * width s0 < width s0 * height s0"
      using f by (simp add: fits_def)
    from span_paints [OF i(3) m _ _ this] f show "\<exists>s'. for_n 0 (nat w) (\<lambda>j. printPixel (x + int j) (y + int i) color) s = Some s' \<and>
        paints s0 (A \<union> rect (width s0) x y w (int (Suc i))) color s'"
      unfolding rect_rows by (simp add: fits_def Un_assoc)
  qed (use s in simp)
  then show ?thesis using f by (simp add: fits_def)
qed

section \<open>Characters\<close>

text \<open>The offsets of the entries of a glyph that are set, each a square of \<open>fs\<close> pixels.\<close>

definition glyphOffsets :: "int \<Rightarrow> byte \<Rightarrow> int \<Rightarrow> int \<Rightarrow> int \<Rightarrow> nat set" where
  "glyphOffsets W c x y fs =
     (\<Union>i \<in> {..<ASCII_BF_HEIGHT}. \<Union>j \<in> {..<ASCII_BF_WIDTH}.
        if glyphBit c i j = Some 1 then rect W (x + int j * fs) (y + int i * fs) fs fs else {})"

definition printable :: "byte \<Rightarrow> bool" where
  "printable c \<longleftrightarrow> 32 \<le> unat c \<and> unat c \<le> 126"

lemma printable_iff: "\<not> (sint c < sint ASCII_BF_MIN \<or> sint c > sint ASCII_BF_MAX) \<longleftrightarrow> printable c"
proof -
  obtain n where n: "unat c = n" "uint c = int n" using uint_nat by blast
  have "unat c < 2 ^ LENGTH(8)" by (rule unsigned_less)
  with n(1) have "n < 256" by simp
  have "sint c = (int n + 128) mod 256 - 128"
    using n(2) by (simp add: sint_uint signed_take_bit_eq_take_bit_shift take_bit_eq_mod)
  then have "sint c = (if n < 128 then int n else int n - 256)"
  proof (cases "n < 128")
    case False
    then have "(int n + 128) mod 256 = (int n - 128 + 1 * 256) mod 256" by (simp add: add.commute)
    also have "\<dots> = (int n - 128) mod 256" by (rule mod_mult_self1)
    also have "\<dots> = int n - 128" using False \<open>n < 256\<close> by (intro mod_pos_pos_trivial) auto
    finally show ?thesis using False \<open>sint c = (int n + 128) mod 256 - 128\<close> by simp
  qed simp
  moreover have "sint ASCII_BF_MIN = 32" "sint ASCII_BF_MAX = 126"
    by (simp_all add: ASCII_BF_MIN_def ASCII_BF_MAX_def)
  ultimately show ?thesis using n(1) \<open>n < 256\<close> by (auto simp: printable_def)
qed

lemma glyphBit_some:
  assumes "printable c" "i < ASCII_BF_HEIGHT" "j < ASCII_BF_WIDTH"
  shows "glyphBit c i j = Some 0 \<or> glyphBit c i j = Some 1"
proof -
  let ?k = "unat (c - ASCII_BF_MIN)"
  have "ASCII_BF_MIN \<le> c" using assms(1) by (simp add: printable_def ASCII_BF_MIN_def word_le_nat_alt)
  then have "?k = unat c - 32" by (simp add: unat_sub ASCII_BF_MIN_def)
  with assms(1) have k: "?k < 95" unfolding printable_def by linarith
  note G = font_glyph [OF k]
  have "i * ASCII_BF_WIDTH + j < ASCII_BF_HEIGHT * ASCII_BF_WIDTH"
  proof -
    have "i * ASCII_BF_WIDTH + j < Suc i * ASCII_BF_WIDTH" using assms(3) by simp
    also have "\<dots> \<le> ASCII_BF_HEIGHT * ASCII_BF_WIDTH" using assms(2) by (intro mult_right_mono) auto
    finally show ?thesis .
  qed
  with G k glyphs_count have "glyphBit c i j = Some (asciiBitFields ! ?k ! (i * ASCII_BF_WIDTH + j))"
    "asciiBitFields ! ?k ! (i * ASCII_BF_WIDTH + j) \<in> set (asciiBitFields ! ?k)"
    by (simp_all add: glyphBit_def Let_def)
  with G(2) show ?thesis by auto
qed

lemma printCharXY_paints:
  assumes c: "printable c" and m: "plain_mode s" and fs: "0 < fs"
    and box: "0 \<le> x" "0 \<le> y" "x + int ASCII_BF_WIDTH * fs \<le> width s" "y + int ASCII_BF_HEIGHT * fs \<le> height s"
  shows "\<exists>s'. printCharXY x y c fs s = Some s' \<and> paints s (glyphOffsets (width s) c x y fs) (fontColor s) s'"
proof -
  define cell where "cell i j = (if glyphBit c i j = Some 1
    then rect (width s) (x + int j * fs) (y + int i * fs) fs fs else {})" for i j
  define row where "row i n = (\<Union>j \<in> {..<n}. cell i j)" for i n :: nat
  have row_simps: "row i 0 = {}" "row i (Suc n) = row i n \<union> cell i n" for i n
    by (auto simp: row_def lessThan_Suc)
  define rows where "rows n = (\<Union>i \<in> {..<n}. row i ASCII_BF_WIDTH)" for n :: nat
  have rows_simps: "rows 0 = {}" "rows (Suc n) = rows n \<union> row n ASCII_BF_WIDTH" for n
    by (auto simp: rows_def lessThan_Suc)
  let ?P = "\<lambda>A. paints s A (fontColor s)"
  have cell_fits: "fits s (x + int j * fs) (y + int i * fs) fs fs"
    if "i < ASCII_BF_HEIGHT" "j < ASCII_BF_WIDTH" for i j
  proof -
    have "int j * fs + fs \<le> int ASCII_BF_WIDTH * fs" "int i * fs + fs \<le> int ASCII_BF_HEIGHT * fs"
      using that fs mult_right_mono [of "int j + 1" "int ASCII_BF_WIDTH" fs]
        mult_right_mono [of "int i + 1" "int ASCII_BF_HEIGHT" fs] by (auto simp: distrib_right)
    then have b: "x + int j * fs + fs \<le> width s" "y + int i * fs + fs \<le> height s" using box by auto
    have "(y + int i * fs + fs - 1) * width s \<le> (height s - 1) * width s"
      using b m by (intro mult_right_mono) (auto simp: plain_mode_def)
    also have "\<dots> = width s * height s - width s" by (simp add: algebra_simps)
    finally show ?thesis using b box fs by (simp add: fits_def)
  qed
  let ?body = "\<lambda>i j s. glyphBit c i j \<bind> (\<lambda>b. if b \<noteq> 0
      then fillRectangle (x + int j * fs) (y + int i * fs) fs fs (fontColor s) s else Some s)"
  have cell: "\<exists>s2. ?body i j s1 = Some s2 \<and> ?P (A \<union> cell i j) s2"
    if "i < ASCII_BF_HEIGHT" "j < ASCII_BF_WIDTH" "?P A s1" for i j A s1
    using glyphBit_some [OF c that(1,2)] that(3) paints_fields(6) [OF that(3)]
      fillRectangle_paints [OF that(3) m cell_fits [OF that(1,2)]] by (auto simp: cell_def)
  have line: "\<exists>s2. for_n 0 ASCII_BF_WIDTH (?body i) s1 = Some s2 \<and> ?P (A \<union> row i ASCII_BF_WIDTH) s2"
    if i: "i < ASCII_BF_HEIGHT" and s1: "?P A s1" for i A s1
  proof -
    have "\<exists>s2. for_n 0 ASCII_BF_WIDTH (?body i) s1 = Some s2 \<and> ?P (A \<union> row i (0 + ASCII_BF_WIDTH)) s2"
    proof (rule for_n_inv [where P = "\<lambda>j. ?P (A \<union> row i j)"])
      fix j s2 assume "0 \<le> j" "j < 0 + ASCII_BF_WIDTH" "?P (A \<union> row i j) s2"
      then show "\<exists>s3. ?body i j s2 = Some s3 \<and> ?P (A \<union> row i (Suc j)) s3"
        using cell [OF i, of j "A \<union> row i j" s2] by (simp add: row_simps Un_assoc)
    qed (use s1 in \<open>simp add: row_simps\<close>)
    then show ?thesis by simp
  qed
  have "\<exists>s2. for_n 0 ASCII_BF_HEIGHT (\<lambda>i. for_n 0 ASCII_BF_WIDTH (?body i)) s = Some s2 \<and>
      ?P (rows (0 + ASCII_BF_HEIGHT)) s2"
  proof (rule for_n_inv [where P = "\<lambda>i. ?P (rows i)"])
    fix i s2 assume "0 \<le> i" "i < 0 + ASCII_BF_HEIGHT" "?P (rows i) s2"
    then show "\<exists>s3. for_n 0 ASCII_BF_WIDTH (?body i) s2 = Some s3 \<and> ?P (rows (Suc i)) s3"
      using line [of i "rows i" s2] by (simp add: rows_simps)
  qed (use paints_refl in \<open>simp add: rows_simps\<close>)
  moreover have "rows ASCII_BF_HEIGHT = glyphOffsets (width s) c x y fs"
    by (simp add: rows_def row_def cell_def glyphOffsets_def)
  ultimately show ?thesis
    using c printable_iff [of c] by (simp add: printCharXY_def)
qed

section \<open>Pixels by coordinates\<close>

definition pixel :: "Screen \<Rightarrow> int \<Rightarrow> int \<Rightarrow> RGBColor" where
  "pixel s px py = framebuffer s ! nat (px + py * width s)"

definition on_screen :: "Screen \<Rightarrow> int \<Rightarrow> int \<Rightarrow> bool" where
  "on_screen s px py \<longleftrightarrow> 0 \<le> px \<and> px < width s \<and> 0 \<le> py \<and> py < height s"

lemma offset_inj:
  fixes W :: int
  assumes "0 \<le> a" "a < W" "0 \<le> b" "b < W" "0 \<le> c" "0 \<le> d" "nat (a + c * W) = nat (b + d * W)"
  shows "a = b \<and> c = d"
proof -
  have "0 \<le> c * W" "0 \<le> d * W" using assms by auto
  then have eq: "a + c * W = b + d * W" using assms by (simp add: nat_eq_iff2)
  have "(a + c * W) mod W = a" "(b + d * W) mod W = b" using assms by auto
  then have "a = b" using eq by simp
  then show ?thesis using eq assms by auto
qed

lemma rect_coords:
  assumes "0 \<le> px" "px < W" "0 \<le> py" "0 \<le> x" "0 \<le> y" "x + w \<le> W"
  shows "nat (px + py * W) \<in> rect W x y w h \<longleftrightarrow> x \<le> px \<and> px < x + w \<and> y \<le> py \<and> py < y + h"
proof
  assume "nat (px + py * W) \<in> rect W x y w h"
  then obtain i j where ij: "nat (px + py * W) = nat (x + j + (y + i) * W)"
    "0 \<le> i" "i < h" "0 \<le> j" "j < w" by (auto simp: rect_def)
  have "px = x + j \<and> py = y + i" by (rule offset_inj [where W = W]) (use assms ij in auto)
  with ij show "x \<le> px \<and> px < x + w \<and> y \<le> py \<and> py < y + h" by auto
next
  assume "x \<le> px \<and> px < x + w \<and> y \<le> py \<and> py < y + h"
  then show "nat (px + py * W) \<in> rect W x y w h" using rectI [of "py - y" h "px - x" w x y W] by simp
qed

lemma offset_lt:
  "plain_mode s \<Longrightarrow> on_screen s px py \<Longrightarrow> nat (px + py * width s) < length (framebuffer s)"
proof -
  assume m: "plain_mode s" and p: "on_screen s px py"
  have "py * width s \<le> (height s - 1) * width s"
    using m p by (intro mult_right_mono) (auto simp: plain_mode_def on_screen_def)
  also have "\<dots> = width s * height s - width s" by (simp add: algebra_simps)
  finally have "px + py * width s < int (length (framebuffer s))"
    using m p by (simp add: plain_mode_def on_screen_def)
  then show "nat (px + py * width s) < length (framebuffer s)"
    by (metis nat_less_iff length_greater_0_conv m nat_int of_nat_0_less_iff plain_mode_def zero_less_mult_iff zless_nat_conj)
qed

lemma paints_pixel:
  assumes "paints s A color s'" "plain_mode s" "on_screen s px py"
  shows "pixel s' px py = (if nat (px + py * width s) \<in> A then color else pixel s px py)"
  using assms(1) offset_lt [OF assms(2,3)] by (auto simp: paints_def pixel_def)

lemma div_lt_iff: "0 < fs \<Longrightarrow> a div fs < n \<longleftrightarrow> a < n * fs" for a :: int
proof -
  assume fs: "0 < fs"
  have a: "a = a div fs * fs + a mod fs" "0 \<le> a mod fs" "a mod fs < fs" using fs by auto
  show ?thesis
  proof (cases "a div fs < n")
    case True
    then have "(a div fs + 1) * fs \<le> n * fs" using fs by (intro mult_right_mono) auto
    then have "a div fs * fs + fs \<le> n * fs" by (simp add: distrib_right)
    then show ?thesis using True a by linarith
  next
    case False
    then have "n * fs \<le> a div fs * fs" using fs by (intro mult_right_mono) auto
    then show ?thesis using False a by linarith
  qed
qed

lemma div_cell:
  "0 < fs \<Longrightarrow> x + int k * fs \<le> px \<and> px < x + int k * fs + fs \<longleftrightarrow> x \<le> px \<and> k = nat ((px - x) div fs)"
  for fs :: int
proof -
  assume fs: "0 < fs"
  show ?thesis
  proof
    assume a: "x + int k * fs \<le> px \<and> px < x + int k * fs + fs"
    have "0 \<le> int k * fs" using fs by simp
    then have "x \<le> px" using a by linarith
    moreover have "(px - x) div fs = int k"
    proof -
      have "(px - x - int k * fs) div fs = 0" using a by (intro div_pos_pos_trivial) auto
      moreover have "px - x = (px - x - int k * fs) + int k * fs" by simp
      moreover have "((px - x - int k * fs) + int k * fs) div fs = int k + (px - x - int k * fs) div fs"
        using fs by (intro div_mult_self1) simp
      ultimately show ?thesis by simp
    qed
    ultimately show "x \<le> px \<and> k = nat ((px - x) div fs)" using a by (auto intro: order_trans)
  next
    assume a: "x \<le> px \<and> k = nat ((px - x) div fs)"
    then have "int k = (px - x) div fs" using fs by (simp add: pos_imp_zdiv_nonneg_iff)
    moreover have "px - x = (px - x) div fs * fs + (px - x) mod fs" by (rule div_mult_mod_eq [symmetric])
    moreover have "0 \<le> (px - x) mod fs" "(px - x) mod fs < fs" using fs by auto
    ultimately have "px - x = int k * fs + (px - x) mod fs" "0 \<le> (px - x) mod fs" "(px - x) mod fs < fs"
      by auto
    then show "x + int k * fs \<le> px \<and> px < x + int k * fs + fs" by linarith
  qed
qed

text \<open>
  \<open>printCharXY\<close> of a character from \<open>' '\<close> to \<open>'~'\<close> whose box is on the screen draws its glyph
  at the scale of the font: the pixels of the box whose entry in the table is 1 get the font
  colour and every other pixel of the screen keeps its colour.
\<close>

theorem printCharXY_draws:
  assumes "printable c" "plain_mode s" "0 < fs" "0 \<le> x" "0 \<le> y"
    and "x + int ASCII_BF_WIDTH * fs \<le> width s" "y + int ASCII_BF_HEIGHT * fs \<le> height s"
  shows "\<exists>s'. printCharXY x y c fs s = Some s' \<and> (\<forall>px py. on_screen s px py \<longrightarrow>
    pixel s' px py =
      (if x \<le> px \<and> px < x + int ASCII_BF_WIDTH * fs \<and> y \<le> py \<and> py < y + int ASCII_BF_HEIGHT * fs \<and>
          glyphBit c (nat ((py - y) div fs)) (nat ((px - x) div fs)) = Some 1
       then fontColor s else pixel s px py))"
proof -
  obtain s' where s': "printCharXY x y c fs s = Some s'"
    "paints s (glyphOffsets (width s) c x y fs) (fontColor s) s'"
    using printCharXY_paints [OF assms] by blast
  let ?i = "\<lambda>py. nat ((py - y) div fs)" and ?j = "\<lambda>px. nat ((px - x) div fs)"
  have "nat (px + py * width s) \<in> glyphOffsets (width s) c x y fs \<longleftrightarrow>
      x \<le> px \<and> px < x + int ASCII_BF_WIDTH * fs \<and> y \<le> py \<and> py < y + int ASCII_BF_HEIGHT * fs \<and>
      glyphBit c (?i py) (?j px) = Some 1" if p: "on_screen s px py" for px py
  proof -
    have cell: "nat (px + py * width s) \<in> rect (width s) (x + int j * fs) (y + int i * fs) fs fs \<longleftrightarrow>
        x \<le> px \<and> j = ?j px \<and> y \<le> py \<and> i = ?i py" if j: "j < ASCII_BF_WIDTH" for i j
    proof -
      have "int j * fs + fs \<le> int ASCII_BF_WIDTH * fs"
        using j assms(3) mult_right_mono [of "int j + 1" "int ASCII_BF_WIDTH" fs] by (auto simp: distrib_right)
      then have "x + int j * fs + fs \<le> width s" using assms(6) by linarith
      then show ?thesis
        using p assms(3-5) div_cell [OF assms(3), of x j px] div_cell [OF assms(3), of y i py]
        by (subst rect_coords) (auto simp: on_screen_def)
    qed
    have bound: "k < n \<longleftrightarrow> q < z + int n * fs" if "z \<le> q" "k = nat ((q - z) div fs)" for k n q z
    proof -
      have "k < n \<longleftrightarrow> (q - z) div fs < int n"
        using that assms(3) by (simp add: nat_less_iff pos_imp_zdiv_nonneg_iff)
      also have "\<dots> \<longleftrightarrow> q - z < int n * fs" using div_lt_iff [OF assms(3)] .
      finally show ?thesis by auto
    qed
    show ?thesis
      using cell bound [of x px "?j px" ASCII_BF_WIDTH] bound [of y py "?i py" ASCII_BF_HEIGHT]
      by (auto simp: glyphOffsets_def split: if_splits)
  qed
  then show ?thesis using s' paints_pixel [OF s'(2) assms(2)] by (intro exI [of _ s']) simp
qed

section \<open>Scrolling\<close>

text \<open>The screen with other pixels.\<close>

definition repainted :: "Screen \<Rightarrow> Screen \<Rightarrow> bool" where
  "repainted s0 s \<longleftrightarrow> (\<exists>fb. s = s0\<lparr>framebuffer := fb\<rparr> \<and> length fb = length (framebuffer s0))"

lemma repainted_paints: "paints s0 A color s \<Longrightarrow> repainted s0 s"
  by (auto simp: paints_def repainted_def)

lemma repainted_trans: "repainted s0 s1 \<Longrightarrow> repainted s1 s2 \<Longrightarrow> repainted s0 s2"
  by (auto simp: repainted_def)

lemma repainted_refl: "repainted s s"
  unfolding repainted_def by (intro exI [of _ "framebuffer s"]) simp

lemma storePixel_fb:
  "k < length fb \<Longrightarrow> storePixel k c (s\<lparr>framebuffer := fb\<rparr>) = Some (s\<lparr>framebuffer := fb[k := c]\<rparr>)"
  by (simp add: storePixel_def)

lemma scrollUp_moves:
  assumes m: "plain_mode s" and h: "0 < charHeight s" "charHeight s \<le> height s"
  shows "\<exists>s'. scrollUp s = Some s' \<and> repainted s s' \<and> (\<forall>px py. on_screen s px py \<longrightarrow>
    pixel s' px py =
      (if py < height s - charHeight s then pixel s px (py + charHeight s) else bgColor s))"
proof -
  define R where "R = nat (charHeight s * width s)"
  define N where "N = nat (width s * height s)"
  let ?fb = "framebuffer s"
  have "width s * height s = int (length ?fb)" using m by (simp add: plain_mode_def)
  then have len: "length ?fb = N" by (simp add: N_def)
  have le: "charHeight s * width s \<le> width s * height s"
    using h m by (simp add: plain_mode_def mult.commute)
  then have RN: "R \<le> N" by (simp add: R_def N_def)
  let ?copy = "\<lambda>i s. loadPixel s (i + R) \<bind> (\<lambda>c. storePixel i c s)"
  define P where "P n s1 \<longleftrightarrow> (\<exists>fb. s1 = s\<lparr>framebuffer := fb\<rparr> \<and> length fb = N \<and>
    (\<forall>k < N. fb ! k = (if k < n then ?fb ! (k + R) else ?fb ! k)))" for n s1
  have "\<exists>s1. for_n 0 (N - R) ?copy s = Some s1 \<and> P (0 + (N - R)) s1"
  proof (rule for_n_inv [where P = P])
    show "P 0 s" unfolding P_def using len by (intro exI [of _ ?fb]) simp
  next
    fix i s1 assume i: "i < 0 + (N - R)" and "P i s1"
    then obtain fb where fb: "s1 = s\<lparr>framebuffer := fb\<rparr>" "length fb = N"
      "\<forall>k < N. fb ! k = (if k < i then ?fb ! (k + R) else ?fb ! k)" by (auto simp: P_def)
    have "?copy i s1 = Some (s\<lparr>framebuffer := fb[i := ?fb ! (i + R)]\<rparr>)"
      using fb i by (simp add: loadPixel_def storePixel_fb)
    moreover have "P (Suc i) (s\<lparr>framebuffer := fb[i := ?fb ! (i + R)]\<rparr>)"
      unfolding P_def using fb(2,3) i
      by (intro exI [of _ "fb[i := ?fb ! (i + R)]"]) (auto simp: nth_list_update less_Suc_eq)
    ultimately show "\<exists>s'. ?copy i s1 = Some s' \<and> P (Suc i) s'" by blast
  qed
  then obtain s1 fb1 where s1: "for_n 0 (N - R) ?copy s = Some s1" "s1 = s\<lparr>framebuffer := fb1\<rparr>"
    "length fb1 = N" "\<forall>k < N. fb1 ! k = (if k < N - R then ?fb ! (k + R) else ?fb ! k)"
    by (auto simp: P_def)
  let ?blank = "\<lambda>i s. storePixel i (bgColor s) s"
  define B where "B n s2 \<longleftrightarrow> (\<exists>fb. s2 = s\<lparr>framebuffer := fb\<rparr> \<and> length fb = N \<and>
    (\<forall>k < N. fb ! k = (if N - R \<le> k \<and> k < n then bgColor s else fb1 ! k)))" for n s2
  have "\<exists>s2. for_n (N - R) (N - (N - R)) ?blank s1 = Some s2 \<and> B (N - R + (N - (N - R))) s2"
  proof (rule for_n_inv [where P = B])
    show "B (N - R) s1" unfolding B_def using s1 by (intro exI [of _ fb1]) auto
  next
    fix i s2 assume i: "N - R \<le> i" "i < N - R + (N - (N - R))" and "B i s2"
    then obtain fb where fb: "s2 = s\<lparr>framebuffer := fb\<rparr>" "length fb = N"
      "\<forall>k < N. fb ! k = (if N - R \<le> k \<and> k < i then bgColor s else fb1 ! k)" by (auto simp: B_def)
    have iN: "i < N" using i RN by simp
    have "?blank i s2 = Some (s\<lparr>framebuffer := fb[i := bgColor s]\<rparr>)"
      using fb(1,2) iN by (simp add: storePixel_fb)
    moreover have "B (Suc i) (s\<lparr>framebuffer := fb[i := bgColor s]\<rparr>)"
      unfolding B_def using fb(2,3) i(1) iN
      by (intro exI [of _ "fb[i := bgColor s]"]) (auto simp: nth_list_update less_Suc_eq)
    ultimately show "\<exists>s'. ?blank i s2 = Some s' \<and> B (Suc i) s'" by blast
  qed
  then obtain fb2 where s2: "for_n (N - R) (N - (N - R)) ?blank s1 = Some (s\<lparr>framebuffer := fb2\<rparr>)"
    "length fb2 = N" "\<forall>k < N. fb2 ! k = (if N - R \<le> k then bgColor s else ?fb ! (k + R))"
    using RN s1(4) by (auto simp: B_def)
  have "scrollUp s = Some (s\<lparr>framebuffer := fb2\<rparr>)"
    using s1(1) s2(1) RN unfolding scrollUp_def R_def [symmetric] N_def [symmetric] by simp
  moreover have "pixel (s\<lparr>framebuffer := fb2\<rparr>) px py =
      (if py < height s - charHeight s then pixel s px (py + charHeight s) else bgColor s)"
    if p: "on_screen s px py" for px py
  proof -
    have k: "nat (px + py * width s) < N" using offset_lt [OF m p] len by simp
    have sh: "nat (px + py * width s) + R = nat (px + (py + charHeight s) * width s)"
      using p h m by (simp add: R_def on_screen_def plain_mode_def distrib_right nat_add_distrib [symmetric] add.assoc)
    have NR: "int (N - R) = (height s - charHeight s) * width s"
    proof -
      have "int N = width s * height s" "int R = charHeight s * width s"
        using m h by (simp_all add: N_def R_def plain_mode_def)
      then show ?thesis using RN by (simp add: of_nat_diff algebra_simps)
    qed
    have "N - R \<le> nat (px + py * width s) \<longleftrightarrow> height s - charHeight s \<le> py"
    proof
      assume "N - R \<le> nat (px + py * width s)"
      then have a: "(height s - charHeight s) * width s \<le> px + py * width s"
        using NR p m by (simp add: le_nat_iff on_screen_def plain_mode_def)
      show "height s - charHeight s \<le> py"
      proof (rule ccontr)
        assume "\<not> height s - charHeight s \<le> py"
        then have "(py + 1) * width s \<le> (height s - charHeight s) * width s"
          using m by (intro mult_right_mono) (auto simp: plain_mode_def)
        with a p show False by (simp add: on_screen_def distrib_right)
      qed
    next
      assume "height s - charHeight s \<le> py"
      then have "(height s - charHeight s) * width s \<le> py * width s"
        using m by (intro mult_right_mono) (auto simp: plain_mode_def)
      then have "int (N - R) \<le> px + py * width s" using NR p unfolding on_screen_def by linarith
      then show "N - R \<le> nat (px + py * width s)" by linarith
    qed
    then show ?thesis using s2(3) k sh by (auto simp: pixel_def)
  qed
  moreover have "repainted s (s\<lparr>framebuffer := fb2\<rparr>)" using s2(2) len by (auto simp: repainted_def)
  ultimately show ?thesis by blast
qed

section \<open>Printing text\<close>

text \<open>The grid fits on the screen, and the cursor is on it or at the start of a line below it.\<close>

definition text_ok :: "Screen \<Rightarrow> bool" where
  "text_ok s \<longleftrightarrow> plain_mode s \<and> charSeparation s = 3 \<and> 1 \<le> fontSize s \<and> fontSize s \<le> MAX_FONT_SIZE \<and>
     1 \<le> fontCols s \<and> 1 \<le> fontRows s \<and>
     fontCols s * charWidth s \<le> width s \<and> fontRows s * charHeight s \<le> height s \<and>
     0 \<le> cursorCol s \<and> cursorCol s \<le> fontCols s \<and> 0 \<le> cursorRow s \<and>
     (cursorRow s < fontRows s \<or> cursorCol s = 0)"

lemmas geometry = charWidth_def charHeight_def ASCII_BF_WIDTH_def ASCII_BF_HEIGHT_def MAX_FONT_SIZE_def

lemma text_ok_repainted: "text_ok s \<Longrightarrow> repainted s s' \<Longrightarrow> text_ok s'"
  by (auto simp: text_ok_def repainted_def plain_mode_def charWidth_def charHeight_def)

lemma text_ok_cursor:
  "text_ok s \<Longrightarrow> 0 \<le> c \<Longrightarrow> c \<le> fontCols s \<Longrightarrow> 0 \<le> r \<Longrightarrow> r < fontRows s \<or> c = 0 \<Longrightarrow>
     text_ok (s\<lparr>cursorCol := c, cursorRow := r\<rparr>)"
  by (auto simp: text_ok_def plain_mode_def charWidth_def charHeight_def)

lemma repainted_fields:
  assumes "repainted s0 s"
  shows "cursorCol s = cursorCol s0" "cursorRow s = cursorRow s0" "fontCols s = fontCols s0"
    "fontRows s = fontRows s0" "cursorColor s = cursorColor s0" "bgColor s = bgColor s0"
    "width s = width s0" "height s = height s0" "fontSize s = fontSize s0"
    "charSeparation s = charSeparation s0"
  using assms by (auto simp: repainted_def)

lemma grid_cell:
  assumes "text_ok s" "0 \<le> r" "r < fontRows s" "0 \<le> c" "c < fontCols s"
  shows "0 \<le> c * charWidth s" "0 \<le> r * charHeight s" "c * charWidth s + charWidth s \<le> width s"
    "r * charHeight s + charHeight s \<le> height s"
proof -
  have pos: "0 < charWidth s" "0 < charHeight s" using assms(1) by (auto simp: text_ok_def geometry)
  show "0 \<le> c * charWidth s" "0 \<le> r * charHeight s" using pos assms by auto
  have "(c + 1) * charWidth s \<le> fontCols s * charWidth s" "(r + 1) * charHeight s \<le> fontRows s * charHeight s"
    using pos assms by (auto intro!: mult_right_mono)
  then show "c * charWidth s + charWidth s \<le> width s" "r * charHeight s + charHeight s \<le> height s"
    using assms(1) by (auto simp: text_ok_def distrib_right)
qed

text \<open>The bar of the cursor, also one column after the last character.\<close>

lemma printCursorOfColor_ok:
  assumes ok: "text_ok s"
  shows "\<exists>s'. printCursorOfColor color s = Some s' \<and> repainted s s'"
proof (cases "cursorCol s \<le> 0")
  case True
  then show ?thesis by (simp add: printCursorOfColor_def repainted_refl)
next
  case False
  then have r: "0 \<le> cursorRow s" "cursorRow s < fontRows s" using ok by (auto simp: text_ok_def)
  have c: "0 \<le> cursorCol s - 1" "cursorCol s - 1 < fontCols s" using ok False by (auto simp: text_ok_def)
  note G = grid_cell [OF ok r c]
  let ?x = "cursorCol s * charWidth s" and ?y = "cursorRow s * charHeight s" and ?fs = "fontSize s"
  have m: "plain_mode s" using ok by (simp add: text_ok_def)
  have fs: "1 \<le> ?fs" "?fs \<le> 4" "charHeight s = 23 * ?fs + 3" "charWidth s = 11 * ?fs + 3"
    using ok by (auto simp: text_ok_def geometry)
  have x: "14 \<le> ?x" "?x \<le> width s"
  proof -
    have "(cursorCol s - 1) * charWidth s = ?x - charWidth s" by (simp add: left_diff_distrib)
    with G(1,3) fs(1,4) show "14 \<le> ?x" "?x \<le> width s" by linarith+
  qed
  have y: "?y + 20 * ?fs - 1 \<le> height s - 7" using G(4) fs by linarith
  have "(?y + 20 * ?fs - 1) * width s \<le> (height s - 7) * width s"
    using y m by (intro mult_right_mono) (auto simp: plain_mode_def)
  also have "\<dots> = width s * height s - 7 * width s" by (simp add: algebra_simps)
  finally have "?x - 2 + ?fs - 1 + (?y + 20 * ?fs - 1) * width s < width s * height s"
    using x fs m unfolding plain_mode_def by linarith
  then have "fits s (?x - 2) ?y ?fs ((int ASCII_BF_HEIGHT - 3) * ?fs)"
    using x G(2) fs by (simp add: fits_def ASCII_BF_HEIGHT_def)
  from fillRectangle_paints [OF paints_refl m this] obtain s' where
    "fillRectangle (?x - 2) ?y ?fs ((int ASCII_BF_HEIGHT - 3) * ?fs) color s = Some s'" "repainted s s'"
    using repainted_paints by blast
  then show ?thesis using False by (simp add: printCursorOfColor_def colRowToXY_def)
qed

lemma printChar_ok:
  assumes ok: "text_ok s" and c: "printable c"
    and p: "0 \<le> r" "r < fontRows s" "0 \<le> col" "col < fontCols s"
  shows "\<exists>s'. printChar col r c s = Some s' \<and> repainted s s'"
proof -
  note G = grid_cell [OF ok p]
  have fs: "1 \<le> fontSize s" "charHeight s = 23 * fontSize s + 3" "charWidth s = 11 * fontSize s + 3"
    "plain_mode s" using ok by (auto simp: text_ok_def geometry)
  have "0 < fontSize s" using fs(1) by simp
  have box: "col * charWidth s + int ASCII_BF_WIDTH * fontSize s \<le> width s"
    "r * charHeight s + int ASCII_BF_HEIGHT * fontSize s \<le> height s"
    using G(3,4) fs(2,3) by (auto simp: ASCII_BF_WIDTH_def ASCII_BF_HEIGHT_def)
  from printCharXY_paints [OF c fs(4) \<open>0 < fontSize s\<close> G(1,2) box]
  show ?thesis using repainted_paints by (fastforce simp: printChar_def colRowToXY_def)
qed

lemma printChar_any:
  assumes "text_ok s" "0 \<le> r" "r < fontRows s" "0 \<le> col" "col < fontCols s"
  shows "\<exists>s'. printChar col r c s = Some s' \<and> repainted s s'"
proof (cases "printable c")
  case False
  then have "printChar col r c s = Some s"
    using printable_iff [of c] by (simp add: printChar_def colRowToXY_def printCharXY_def)
  then show ?thesis using repainted_refl by blast
qed (use printChar_ok assms in blast)

lemma cursorNext_ok:
  assumes ok: "text_ok s" and on: "cursorRow s < fontRows s"
  shows "\<exists>r s'. cursorNext s = Some (r, s') \<and> text_ok s' \<and> cursorRow s' < fontRows s'"
proof -
  obtain s1 where s1: "eraseCursor s = Some s1" "repainted s s1"
    using printCursorOfColor_ok [OF ok] by (auto simp: eraseCursor_def)
  note F = repainted_fields [OF s1(2)]
  have ok1: "text_ok s1" by (rule text_ok_repainted [OF ok s1(2)])
  have T: "0 \<le> cursorCol s1" "0 \<le> cursorRow s1" "1 \<le> fontRows s1" "1 \<le> fontCols s1"
    using ok1 by (auto simp: text_ok_def)
  have move: "text_ok (s1\<lparr>cursorCol := c, cursorRow := r\<rparr>)"
    if "0 \<le> c" "c \<le> fontCols s1" "0 \<le> r" "r < fontRows s1" for c r
    using text_ok_cursor [OF ok1 that(1-3)] that(4) by simp
  have show_cursor: "\<exists>s3. printCursor s2 = Some s3 \<and> text_ok s3 \<and> cursorRow s3 = cursorRow s2 \<and>
      fontRows s3 = fontRows s2" if "text_ok s2" for s2
    using printCursorOfColor_ok [OF that, of "cursorColor s2"] text_ok_repainted [OF that] repainted_fields
    by (fastforce simp: printCursor_def)
  consider (col) "cursorCol s1 + 1 < fontCols s1" | (line) "\<not> cursorCol s1 + 1 < fontCols s1" "cursorRow s1 + 1 < fontRows s1"
    | (last) "\<not> cursorCol s1 + 1 < fontCols s1" "\<not> cursorRow s1 + 1 < fontRows s1" by blast
  then show ?thesis
  proof cases
    case col
    have "text_ok (s1\<lparr>cursorCol := cursorCol s1 + 1, cursorRow := cursorRow s1\<rparr>)"
      by (rule move) (use T on F col in auto)
    then have "text_ok (s1\<lparr>cursorCol := cursorCol s1 + 1\<rparr>)" by simp
    from show_cursor [OF this] show ?thesis using s1(1) col on F by (auto simp: cursorNext_def)
  next
    case line
    have "text_ok (s1\<lparr>cursorCol := 0, cursorRow := cursorRow s1 + 1\<rparr>)" by (rule move) (use T line in auto)
    moreover have "s1\<lparr>cursorCol := 0, cursorRow := cursorRow s1 + 1\<rparr> =
        s1\<lparr>cursorRow := cursorRow s1 + 1, cursorCol := 0\<rparr>" by simp
    ultimately have "text_ok (s1\<lparr>cursorRow := cursorRow s1 + 1, cursorCol := 0\<rparr>)" by metis
    from show_cursor [OF this] show ?thesis using s1(1) line by (auto simp: cursorNext_def)
  next
    case last
    have "text_ok (s1\<lparr>cursorCol := fontCols s1, cursorRow := fontRows s1 - 1\<rparr>)" by (rule move) (use T in auto)
    moreover have "s1\<lparr>cursorCol := fontCols s1, cursorRow := fontRows s1 - 1\<rparr> =
        s1\<lparr>cursorRow := fontRows s1 - 1, cursorCol := fontCols s1\<rparr>" by simp
    ultimately have "text_ok (s1\<lparr>cursorRow := fontRows s1 - 1, cursorCol := fontCols s1\<rparr>)" by metis
    then show ?thesis using s1(1) last by (simp add: cursorNext_def)
  qed
qed

lemma scroll_ok:
  assumes ok: "text_ok s"
  shows "\<exists>s'. scrollUp (s\<lparr>cursorCol := 0, cursorRow := fontRows s - 1\<rparr>) = Some s' \<and> text_ok s' \<and>
    cursorCol s' < fontCols s' \<and> cursorRow s' < fontRows s'"
proof -
  let ?s = "s\<lparr>cursorCol := 0, cursorRow := fontRows s - 1\<rparr>"
  have ok': "text_ok ?s" by (rule text_ok_cursor [OF ok]) (use ok in \<open>auto simp: text_ok_def\<close>)
  have "1 * charHeight s \<le> fontRows s * charHeight s"
    using ok by (intro mult_right_mono) (auto simp: text_ok_def geometry)
  then have "charHeight s \<le> height s" "0 < charHeight s"
    using ok by (auto simp: text_ok_def) (auto simp: charHeight_def ASCII_BF_HEIGHT_def)
  then have h: "0 < charHeight ?s" "charHeight ?s \<le> height ?s" by (simp_all add: charHeight_def)
  obtain s' where s': "scrollUp ?s = Some s'" "repainted ?s s'"
    using scrollUp_moves [OF _ h] ok' by (auto simp: text_ok_def)
  then show ?thesis
    using text_ok_repainted [OF ok' s'(2)] repainted_fields [OF s'(2)] ok
    by (intro exI [of _ s']) (auto simp: text_ok_def)
qed

text \<open>A character other than a backspace, over any way to print the tab that keeps the invariant.\<close>

lemma printNextChar_with_ok:
  assumes ok: "text_ok s" and c: "c \<noteq> 8"
    and tab: "\<And>s. c = 9 \<Longrightarrow> text_ok s \<Longrightarrow> cursorRow s < fontRows s \<Longrightarrow> cursorCol s < fontCols s \<Longrightarrow>
      \<exists>s'. printTab s = Some s' \<and> text_ok s' \<and> cursorRow s' < fontRows s'"
  shows "\<exists>s'. printNextChar_with printTab c s = Some s' \<and> text_ok s' \<and> (c \<noteq> 10 \<longrightarrow> cursorRow s' < fontRows s')"
proof -
  consider (newline) "c = 10" | (char) "c \<noteq> 10" by blast
  then show ?thesis
  proof cases
    case newline
    obtain s1 where s1: "eraseCursor s = Some s1" "repainted s s1"
      using printCursorOfColor_ok [OF ok] by (auto simp: eraseCursor_def)
    have ok1: "text_ok s1" by (rule text_ok_repainted [OF ok s1(2)])
    have "text_ok (s1\<lparr>cursorCol := 0, cursorRow := cursorRow s1 + 1\<rparr>)"
      by (rule text_ok_cursor [OF ok1]) (use ok1 in \<open>auto simp: text_ok_def\<close>)
    moreover have "s1\<lparr>cursorCol := 0, cursorRow := cursorRow s1 + 1\<rparr> =
        s1\<lparr>cursorRow := cursorRow s1 + 1, cursorCol := 0\<rparr>" by simp
    ultimately show ?thesis using newline s1(1) by (simp add: printNextChar_with_def)
  next
    case char
    obtain s1 where s1: "(if \<not> cursorHasNext s
        then scrollUp (s\<lparr>cursorCol := 0, cursorRow := fontRows s - 1\<rparr>) else Some s) = Some s1"
      "text_ok s1" "cursorCol s1 < fontCols s1" "cursorRow s1 < fontRows s1"
      using scroll_ok [OF ok] ok by (cases "cursorHasNext s") (auto simp: cursorHasNext_def)
    obtain s2 where s2: "(if c = 9 then printTab s1 else printChar (cursorCol s1) (cursorRow s1) c s1) = Some s2"
      "text_ok s2" "cursorRow s2 < fontRows s2"
    proof (cases "c = 9")
      case True
      then show ?thesis using that tab [OF True s1(2,4,3)] by auto
    next
      case False
      have "0 \<le> cursorRow s1" "0 \<le> cursorCol s1" using s1(2) by (auto simp: text_ok_def)
      from printChar_any [OF s1(2) this(1) s1(4) this(2) s1(3)]
      obtain s2 where "printChar (cursorCol s1) (cursorRow s1) c s1 = Some s2" "repainted s1 s2" by blast
      then show ?thesis
        using that False text_ok_repainted [OF s1(2)] repainted_fields [of s1 s2] s1(4) by simp
    qed
    from cursorNext_ok [OF s2(2,3)] obtain r s3 where
      "cursorNext s2 = Some (r, s3)" "text_ok s3" "cursorRow s3 < fontRows s3" by blast
    then show ?thesis using char c s1(1) s2(1) by (simp add: printNextChar_with_def)
  qed
qed

lemma printNextChar_ok:
  assumes "text_ok s" "c \<noteq> 8"
  shows "\<exists>s'. printNextChar c s = Some s' \<and> text_ok s'"
proof -
  have space: "\<exists>s'. printNextChar_with (\<lambda>_. None) 32 s = Some s' \<and> text_ok s' \<and> cursorRow s' < fontRows s'"
    if "text_ok s" for s
    using printNextChar_with_ok [OF that, of 32 "\<lambda>_. None"] by auto
  have "\<exists>s'. printString_with (printNextChar_with (\<lambda>_. None)) tab s = Some s' \<and> text_ok s' \<and>
      cursorRow s' < fontRows s'" if s: "text_ok s" for s
  proof -
    obtain s1 where "printNextChar_with (\<lambda>_. None) 32 s = Some s1" "text_ok s1" using space [OF s] by blast
    moreover obtain s2 where "printNextChar_with (\<lambda>_. None) 32 s1 = Some s2" "text_ok s2"
      "cursorRow s2 < fontRows s2" using space [OF calculation(2)] by blast
    ultimately show ?thesis by (simp add: tab_def)
  qed
  then show ?thesis
    using printNextChar_with_ok [OF assms] unfolding printNextChar_def by blast
qed

text \<open>
  C17: printing any text without backspaces on a screen whose grid fits never writes outside the
  frame buffer, also when the text wraps or scrolls, and leaves the cursor in its range.
\<close>

theorem print_stays_inside:
  assumes "text_ok s" "unat n \<le> length buf" "8 \<notin> set (take (unat n) buf)"
  shows "\<exists>s'. printNextBuf buf n s = Some s' \<and> text_ok s'"
proof -
  have "\<exists>s'. printNextBuf buf n s = Some s' \<and> (\<lambda>_. text_ok) (0 + unat n) s'"
    unfolding printNextBuf_def
  proof (rule for_n_inv [where P = "\<lambda>_. text_ok"])
    fix k s assume k: "k < 0 + unat n" "text_ok s"
    then have "buf ! k \<in> set (take (unat n) buf)" using assms(2) by (auto simp: in_set_conv_nth)
    then have "buf ! k \<noteq> 8" using assms(3) by metis
    with printNextChar_ok [OF k(2)] assms(2) k(1)
    show "\<exists>s'. (if k < length buf then printNextChar (buf ! k) s else None) = Some s' \<and> text_ok s'"
      by simp
  qed (rule assms(1))
  then show ?thesis by simp
qed

text \<open>A screen of one line of two characters.\<close>

definition demo_screen :: Screen where
  "demo_screen = \<lparr>width = 28, height = 26, pitch = 84, bpp = 24,
     framebuffer = replicate 728 \<lparr>blue = 0, green = 0, red = 0\<rparr>,
     bgColor = \<lparr>blue = 0, green = 0, red = 0\<rparr>, fontColor = \<lparr>blue = 255, green = 255, red = 255\<rparr>,
     cursorColor = \<lparr>blue = 0, green = 0, red = 255\<rparr>, fontSize = 1, fontCols = 2, fontRows = 1,
     charSeparation = 3, cursorCol = 0, cursorRow = 0\<rparr>"

lemma demo_screen_ok: "text_ok demo_screen" "plain_mode demo_screen"
  by (simp_all add: demo_screen_def text_ok_def plain_mode_def geometry)

theorem print_stays_inside_witness:
  "\<exists>s'. printNextBuf [65, 9, 66, 10, 67] 5 demo_screen = Some s' \<and> text_ok s'"
  by (rule print_stays_inside [OF demo_screen_ok(1)]) simp_all

lemma bang_bit: "glyphBit 33 1 5 = Some 1" "glyphBit 33 0 0 = Some 0"
proof -
  have "asciiBitFields ! 1 = expand (glyphs_32_37 ! 1)"
    by (simp add: asciiBitFields_def nth_append glyphs_32_37_def)
  moreover have "expand (glyphs_32_37 ! 1) ! 16 = 1" "expand (glyphs_32_37 ! 1) ! 0 = 0"
    using expand_nth [of 1 "glyphs_32_37 ! 1" 5] expand_nth [of 0 "glyphs_32_37 ! 1" 0]
    by (simp_all add: glyphs_32_37_def ASCII_BF_WIDTH_def bit_0)
  moreover have "length (asciiBitFields ! 1) = 253"
    using font_glyph(1) [of 1] by (simp add: ASCII_BF_HEIGHT_def ASCII_BF_WIDTH_def)
  ultimately show "glyphBit 33 1 5 = Some 1" "glyphBit 33 0 0 = Some 0"
    by (auto simp: glyphBit_def Let_def ASCII_BF_MIN_def ASCII_BF_WIDTH_def glyphs_count)
qed

theorem printCharXY_draws_witness:
  "\<exists>s'. printCharXY 0 0 33 1 demo_screen = Some s' \<and>
     pixel s' 5 1 = fontColor demo_screen \<and> pixel s' 0 0 = bgColor demo_screen"
proof -
  have "printable 33" by (simp add: printable_def)
  from printCharXY_draws [OF this demo_screen_ok(2), of 1 0 0] obtain s' where
    s': "printCharXY 0 0 33 1 demo_screen = Some s'"
    "\<forall>px py. on_screen demo_screen px py \<longrightarrow> pixel s' px py =
      (if 0 \<le> px \<and> px < 0 + int ASCII_BF_WIDTH * 1 \<and> 0 \<le> py \<and> py < 0 + int ASCII_BF_HEIGHT * 1 \<and>
          glyphBit 33 (nat ((py - 0) div 1)) (nat ((px - 0) div 1)) = Some 1
       then fontColor demo_screen else pixel demo_screen px py)"
    by (auto simp: demo_screen_def ASCII_BF_WIDTH_def ASCII_BF_HEIGHT_def)
  have "on_screen demo_screen 5 1" "on_screen demo_screen 0 0"
    by (simp_all add: on_screen_def demo_screen_def)
  from this [THEN s'(2) [rule_format]] bang_bit
  have "pixel s' 5 1 = fontColor demo_screen" "pixel s' 0 0 = pixel demo_screen 0 0"
    by (simp_all add: ASCII_BF_WIDTH_def ASCII_BF_HEIGHT_def)
  moreover have "pixel demo_screen 0 0 = bgColor demo_screen" by (simp add: pixel_def demo_screen_def)
  ultimately have "pixel s' 5 1 = fontColor demo_screen" "pixel s' 0 0 = bgColor demo_screen" by auto
  with s'(1) show ?thesis by blast
qed

text \<open>
  The screen scrolls by a line of text: every pixel takes the colour of the one a line of
  characters below, and the last line of characters takes the background colour.
\<close>

theorem scrollUp_shifts:
  assumes "plain_mode s" "0 < charHeight s" "charHeight s \<le> height s"
  shows "\<exists>s'. scrollUp s = Some s' \<and> (\<forall>px py. on_screen s px py \<longrightarrow>
    pixel s' px py =
      (if py < height s - charHeight s then pixel s px (py + charHeight s) else bgColor s))"
  using scrollUp_moves [OF assms] by blast

theorem scrollUp_shifts_witness:
  "\<exists>s'. scrollUp (demo_screen\<lparr>bgColor := \<lparr>blue = 1, green = 2, red = 3\<rparr>\<rparr>) = Some s' \<and>
     pixel s' 27 25 = \<lparr>blue = 1, green = 2, red = 3\<rparr>"
proof -
  let ?s = "demo_screen\<lparr>bgColor := \<lparr>blue = 1, green = 2, red = 3\<rparr>\<rparr>"
  have "plain_mode ?s" "0 < charHeight ?s" "charHeight ?s \<le> height ?s" "on_screen ?s 27 25"
    by (simp_all add: demo_screen_def plain_mode_def geometry on_screen_def)
  moreover have "charHeight ?s = 26" "height ?s = 26" by (simp_all add: demo_screen_def geometry)
  ultimately show ?thesis using scrollUp_shifts [of ?s] by fastforce
qed


end
