(* ===== verification/Semaphores.thy ===== *)
theory Semaphores
  imports Scheduler KArray
begin

text \<open>
  The semaphores of the kernel (\<open>Kernel/c/semaphores.c\<close>, with the lock of
  \<open>Kernel/asm/semaphores.asm\<close>). A \<open>Semaphore*\<close> obtained from \<open>Array_get\<close> is the index of its
  slot in \<open>semArray\<close>; the queue of waiting processes is a list of nodes in the store
  \<open>semNodes\<close>. The processes are those of theory \<open>Scheduler\<close>.
\<close>

record PCBNodeSem =
  semPcb :: addr
  semNext :: addr

record Semaphore =
  svalue :: u32
  slock :: int
  sdestroyed :: bool
  pcbNodeHead :: addr
  pcbNodeTail :: addr
  sname :: "byte list"

record 'h sems =
  kern :: "'h kernel"
  semArray :: "(Semaphore, 'h) Array"
  freedPositions :: "(int, 'h) Array"
  semNodes :: "addr \<rightharpoonup> PCBNodeSem"

definition MAX_SEM_NAME :: nat where "MAX_SEM_NAME = 50"
definition SEM_INITIAL_CAPACITY :: u64 where "SEM_INITIAL_CAPACITY = 50"
definition sizeof_PCBNodeSem :: u64 where "sizeof_PCBNodeSem = 16"
definition sizeof_Semaphore :: u64 where "sizeof_Semaphore = 88"

section \<open>Access to the stores\<close>

text \<open>\<open>Semaphore* sem = Array_get(semArray, semId)\<close>, and loads and stores through it.\<close>

definition sem_ptr :: "'h sems \<Rightarrow> int \<Rightarrow> nat option" where
  "sem_ptr s semId = Array_get (semArray s) semId"

definition load_sem :: "'h sems \<Rightarrow> nat \<Rightarrow> Semaphore option" where
  "load_sem s k = do { c \<leftarrow> semArray s; slot c k }"

definition upd_sem :: "nat \<Rightarrow> (Semaphore \<Rightarrow> Semaphore) \<Rightarrow> 'h sems \<Rightarrow> 'h sems option" where
  "upd_sem k f s = do {
     c \<leftarrow> semArray s;
     x \<leftarrow> slot c k;
     Some (s\<lparr>semArray := Some (c\<lparr>slots := (slots c)[k := Some (f x)]\<rparr>)\<rparr>)
   }"

text \<open>A kernel operation on processes, run inside.\<close>

definition in_kern :: "('h kernel \<Rightarrow> ('r \<times> 'h kernel) option) \<Rightarrow> 'h sems \<Rightarrow> ('r \<times> 'h sems) option" where
  "in_kern f s = do { (r, k) \<leftarrow> f (kern s); Some (r, s\<lparr>kern := k\<rparr>) }"

definition in_heap :: "('h \<Rightarrow> ('r \<times> 'h) option) \<Rightarrow> 'h sems \<Rightarrow> ('r \<times> 'h sems) option" where
  "in_heap f s = do { (r, h) \<leftarrow> f (kheap (kern s)); Some (r, s\<lparr>kern := (kern s)\<lparr>kheap := h\<rparr>\<rparr>) }"

section \<open>The lock\<close>

text \<open>
  \<open>_enter_region\<close>: exchange the lock with 1; while it was taken, let another process run and
  try again. \<open>_leave_region\<close> stores 0.
\<close>

partial_function (option) enter_region ::
  "'h mm \<Rightarrow> addr \<times> addr \<Rightarrow> nat \<Rightarrow> 'h sems \<Rightarrow> (unit run \<times> 'h sems) option" where
  "enter_region M ctx k s = do {
     x \<leftarrow> load_sem s k;
     s1 \<leftarrow> upd_sem k (\<lambda>x. x\<lparr>slock := 1\<rparr>) s;
     if slock x = 0 then Some (Done (), s1)
     else do {
       (r, s2) \<leftarrow> in_kern (contextSwitch M ctx) s1;
       if r = Away then Some (Away, s2) else enter_region M ctx k s2
     }
   }"

declare enter_region.simps [code]

definition leave_region :: "nat \<Rightarrow> 'h sems \<Rightarrow> 'h sems option" where
  "leave_region k s = upd_sem k (\<lambda>x. x\<lparr>slock := 0\<rparr>) s"

section \<open>Creation\<close>

definition initializeSemaphores :: "'h mm \<Rightarrow> 'h sems \<Rightarrow> 'h sems option" where
  "initializeSemaphores M s = do {
     (a, s1) \<leftarrow> in_heap (Array_initialize M sizeof_Semaphore SEM_INITIAL_CAPACITY None) s;
     (f, s2) \<leftarrow> in_heap (Array_initialize M 4 SEM_INITIAL_CAPACITY None) s1;
     Some (s2\<lparr>semArray := a, freedPositions := f\<rparr>)
   }"

text \<open>The copy of the name: the character it stops at, and the field.\<close>

fun copyName :: "byte list \<Rightarrow> nat \<Rightarrow> byte list \<Rightarrow> (byte \<times> byte list) option" where
  "copyName [] i buf = None"
| "copyName (c # cs) i buf =
     (if i < MAX_SEM_NAME \<and> c \<noteq> 0 then copyName cs (Suc i) (buf[i := c]) else Some (c, buf))"

definition addSem :: "'h mm \<Rightarrow> byte list \<Rightarrow> u32 \<Rightarrow> 'h sems \<Rightarrow> (int \<times> 'h sems) option" where
  "addSem M nm initialValue s = do {
     (c, field) \<leftarrow> copyName nm 0 (replicate (Suc MAX_SEM_NAME) 0);
     if c \<noteq> 0 then Some (- 1, s)
     else do {
       let sem = \<lparr>svalue = initialValue, slock = 0, sdestroyed = False, pcbNodeHead = NULL,
                  pcbNodeTail = NULL, sname = field\<rparr>;
       (popped, pos, f) \<leftarrow> Array_popGetEle (freedPositions s);
       let s1 = s\<lparr>freedPositions := f\<rparr>;
       if popped
       then do {
         i \<leftarrow> pos;
         ((_, a), s2) \<leftarrow> in_heap (\<lambda>h. do { (b, a, h') \<leftarrow> Array_set M (semArray s1) i sem h;
                                         Some ((b, a), h') }) s1;
         Some (i, s2\<lparr>semArray := a\<rparr>)
       }
       else do {
         ((i, a), s2) \<leftarrow> in_heap (\<lambda>h. do { (i, a, h') \<leftarrow> Array_push M (semArray s1) (Some sem) h;
                                         Some ((i, a), h') }) s1;
         Some (i, s2\<lparr>semArray := a\<rparr>)
       }
     }
   }"

definition semInit :: "'h mm \<Rightarrow> u32 \<Rightarrow> 'h sems \<Rightarrow> (int \<times> 'h sems) option" where
  "semInit M initialValue s = addSem M [0] initialValue s"

text \<open>The loop of \<open>findName\<close> from index \<open>i\<close>, over the \<open>n\<close> entries that are left.\<close>

fun findFrom :: "byte list \<Rightarrow> nat \<Rightarrow> nat \<Rightarrow> 'h sems \<Rightarrow> int option" where
  "findFrom nm i 0 s = Some (- 1)"
| "findFrom nm i (Suc n) s = do {
     k \<leftarrow> sem_ptr s (int i);
     x \<leftarrow> load_sem s k;
     r \<leftarrow> (if sdestroyed x then Some 1 else strcmp nm (sname x));
     if \<not> sdestroyed x \<and> r = 0 then Some (int i) else findFrom nm (Suc i) n s
   }"

definition findName :: "byte list \<Rightarrow> 'h sems \<Rightarrow> int option" where
  "findName nm s = findFrom nm 0 (unat (Array_getLen (semArray s))) s"

definition createSemaphore :: "'h mm \<Rightarrow> byte list \<Rightarrow> u32 \<Rightarrow> 'h sems \<Rightarrow> (int \<times> 'h sems) option" where
  "createSemaphore M nm initialValue s = do {
     i \<leftarrow> findName nm s;
     if i \<ge> 0 then Some (- 1, s) else addSem M nm initialValue s
   }"

definition openSemaphore :: "'h mm \<Rightarrow> byte list \<Rightarrow> u32 \<Rightarrow> 'h sems \<Rightarrow> (int \<times> 'h sems) option" where
  "openSemaphore M nm v s = do {
     i \<leftarrow> findName nm s;
     if i < 0 then addSem M nm v s else Some (i, s)
   }"

section \<open>The queue of waiting processes\<close>

definition fifoQueue :: "'h mm \<Rightarrow> int \<Rightarrow> addr \<Rightarrow> 'h sems \<Rightarrow> (bool \<times> 'h sems) option" where
  "fifoQueue M semId p s =
     (case sem_ptr s semId of None \<Rightarrow> Some (False, s)
      | Some k \<Rightarrow> do {
          (node, s1) \<leftarrow> in_heap (mm_malloc M sizeof_PCBNodeSem) s;
          if node = NULL then Some (False, s1)
          else do {
            let s2 = s1\<lparr>semNodes := (semNodes s1)(node \<mapsto> \<lparr>semPcb = p, semNext = NULL\<rparr>)\<rparr>;
            x \<leftarrow> load_sem s2 k;
            if pcbNodeHead x = NULL
            then do {
              s3 \<leftarrow> upd_sem k (\<lambda>x. x\<lparr>pcbNodeHead := node, pcbNodeTail := node\<rparr>) s2;
              Some (True, s3)
            }
            else do {
              t \<leftarrow> semNodes s2 (pcbNodeTail x);
              let s3 = s2\<lparr>semNodes := (semNodes s2)(pcbNodeTail x \<mapsto> t\<lparr>semNext := node\<rparr>)\<rparr>;
              s4 \<leftarrow> upd_sem k (\<lambda>x. x\<lparr>pcbNodeTail := node\<rparr>) s3;
              Some (True, s4)
            }
          }
        })"

definition fifoUnqueue :: "'h mm \<Rightarrow> int \<Rightarrow> 'h sems \<Rightarrow> (addr \<times> 'h sems) option" where
  "fifoUnqueue M semId s =
     (case sem_ptr s semId of None \<Rightarrow> Some (NULL, s)
      | Some k \<Rightarrow> do {
          x \<leftarrow> load_sem s k;
          if pcbNodeHead x = NULL then Some (NULL, s)
          else do {
            let temp = pcbNodeHead x;
            n \<leftarrow> semNodes s temp;
            s1 \<leftarrow> upd_sem k (\<lambda>x. x\<lparr>pcbNodeHead := semNext n\<rparr>) s;
            (_, s2) \<leftarrow> in_heap (\<lambda>h. map_option (Pair ()) (mm_free M temp h)) s1;
            Some (semPcb n, s2\<lparr>semNodes := (semNodes s2)(temp := None)\<rparr>)
          }
        })"

section \<open>Waiting and posting\<close>

definition waitSemaphore ::
  "'h mm \<Rightarrow> addr \<times> addr \<Rightarrow> int \<Rightarrow> 'h sems \<Rightarrow> (bool run \<times> 'h sems) option" where
  "waitSemaphore M ctx semId s =
     (if semId < 0 then Some (Done False, s)
      else case sem_ptr s semId of None \<Rightarrow> Some (Done False, s)
      | Some k \<Rightarrow> do {
          x \<leftarrow> load_sem s k;
          if sdestroyed x then Some (Done False, s)
          else then_run (enter_region M ctx k s) (\<lambda>s1. do {
            y \<leftarrow> load_sem s1 k;
            if svalue y > 0
            then do {
              s2 \<leftarrow> upd_sem k (\<lambda>x. x\<lparr>svalue := svalue x - 1\<rparr>) s1;
              s3 \<leftarrow> leave_region k s2;
              Some (Done True, s3)
            }
            else do {
              p \<leftarrow> currentPCB (kern s1);
              (_, s2) \<leftarrow> fifoQueue M semId p s1;
              s3 \<leftarrow> leave_region k s2;
              then_run (in_kern (blockCurrentProcess M ctx) s3) (\<lambda>s4. Some (Done True, s4))
            }
          })
        })"

definition decSemOnlyForKernel :: "int \<Rightarrow> 'h sems \<Rightarrow> (bool \<times> 'h sems) option" where
  "decSemOnlyForKernel semId s =
     (if semId < 0 then Some (False, s)
      else do {
        k \<leftarrow> sem_ptr s semId;
        x \<leftarrow> load_sem s k;
        if svalue x > 0
        then do { s1 \<leftarrow> upd_sem k (\<lambda>x. x\<lparr>svalue := svalue x - 1\<rparr>) s; Some (True, s1) }
        else Some (True, s)
      })"

text \<open>\<open>readyProcess\<close> and \<open>exitProcessByPCB\<close> on a process taken from the queue.\<close>

definition ready_in :: "addr \<Rightarrow> 'h sems \<Rightarrow> 'h sems option" where
  "ready_in p s = do { k \<leftarrow> readyProcess p (kern s); Some (s\<lparr>kern := k\<rparr>) }"

partial_function (option) postLoop ::
  "'h mm \<Rightarrow> addr \<times> addr \<Rightarrow> int \<Rightarrow> nat \<Rightarrow> 'h sems \<Rightarrow> (unit run \<times> 'h sems) option" where
  "postLoop M ctx semId k s = do {
     (toReady, s1) \<leftarrow> fifoUnqueue M semId s;
     if toReady \<noteq> NULL
     then do {
       c \<leftarrow> pcbs (kern s1) toReady;
       if state c = BLOCKED then do { s2 \<leftarrow> ready_in toReady s1; Some (Done (), s2) }
       else if state c = WAITING_FOR_EXIT
       then do {
         (r, s2) \<leftarrow> in_kern (exitProcessByPCB M ctx toReady KILL_EXIT_CODE) s1;
         if r = Away then Some (Away, s2) else postLoop M ctx semId k s2
       }
       else postLoop M ctx semId k s1
     }
     else do {
       s2 \<leftarrow> upd_sem k (\<lambda>x. x\<lparr>svalue := svalue x + 1\<rparr>) s1;
       Some (Done (), s2)
     }
   }"

declare postLoop.simps [code]

definition postSemaphore ::
  "'h mm \<Rightarrow> addr \<times> addr \<Rightarrow> int \<Rightarrow> 'h sems \<Rightarrow> (bool run \<times> 'h sems) option" where
  "postSemaphore M ctx semId s =
     (if semId < 0 then Some (Done False, s)
      else case sem_ptr s semId of None \<Rightarrow> Some (Done False, s)
      | Some k \<Rightarrow> do {
          x \<leftarrow> load_sem s k;
          if sdestroyed x then Some (Done False, s)
          else then_run (enter_region M ctx k s) (\<lambda>s1.
                 then_run (postLoop M ctx semId k s1) (\<lambda>s2. do {
                   s3 \<leftarrow> leave_region k s2;
                   Some (Done True, s3)
                 }))
        })"

section \<open>Destruction\<close>

partial_function (option) destroyLoop ::
  "'h mm \<Rightarrow> addr \<times> addr \<Rightarrow> int \<Rightarrow> nat \<Rightarrow> 'h sems \<Rightarrow> (unit run \<times> 'h sems) option" where
  "destroyLoop M ctx semId k s = do {
     x \<leftarrow> load_sem s k;
     if pcbNodeHead x = NULL then Some (Done (), s)
     else do {
       (toReady, s1) \<leftarrow> fifoUnqueue M semId s;
       s2 \<leftarrow> leave_region k s1;
       c \<leftarrow> pcbs (kern s2) toReady;
       if state c = BLOCKED then do { s3 \<leftarrow> ready_in toReady s2; destroyLoop M ctx semId k s3 }
       else if state c = WAITING_FOR_EXIT
       then do {
         (r, s3) \<leftarrow> in_kern (exitProcessByPCB M ctx toReady KILL_EXIT_CODE) s2;
         if r = Away then Some (Away, s3) else destroyLoop M ctx semId k s3
       }
       else destroyLoop M ctx semId k s2
     }
   }"

declare destroyLoop.simps [code]

definition destroySemaphore ::
  "'h mm \<Rightarrow> addr \<times> addr \<Rightarrow> int \<Rightarrow> 'h sems \<Rightarrow> (bool run \<times> 'h sems) option" where
  "destroySemaphore M ctx semId s =
     (if semId < 0 then Some (Done False, s)
      else case sem_ptr s semId of None \<Rightarrow> Some (Done False, s)
      | Some k \<Rightarrow> do {
          x \<leftarrow> load_sem s k;
          if sdestroyed x then Some (Done False, s)
          else then_run (enter_region M ctx k s) (\<lambda>s1.
                 then_run (destroyLoop M ctx semId k s1) (\<lambda>s2. do {
                   s3 \<leftarrow> leave_region k s2;
                   s4 \<leftarrow> upd_sem k (\<lambda>x. x\<lparr>sdestroyed := True\<rparr>) s3;
                   (f, s5) \<leftarrow> in_heap (\<lambda>h. do {
                     (_, f, h') \<leftarrow> Array_push M (freedPositions s4) (Some semId) h; Some (f, h') }) s4;
                   Some (Done True, s5\<lparr>freedPositions := f\<rparr>)
                 }))
        })"

definition destroySemaphoreByName ::
  "'h mm \<Rightarrow> addr \<times> addr \<Rightarrow> byte list \<Rightarrow> 'h sems \<Rightarrow> (bool run \<times> 'h sems) option" where
  "destroySemaphoreByName M ctx nm s = do { i \<leftarrow> findName nm s; destroySemaphore M ctx i s }"

end
