(* ===== verification/Pipes.thy ===== *)
theory Pipes
  imports Semaphores Video
begin

text \<open>
  The pipes (\<open>Kernel/c/pipes.c\<close>) and the system calls \<open>read\<close> and \<open>write\<close> of
  \<open>Kernel/c/scheduler.c\<close> that choose between the keyboard, the screen and a pipe. A \<open>Pipe*\<close> is an
  address in the store \<open>pipeStore\<close>. The variables \<open>stdinPipe\<close> and \<open>stderrPipe\<close> are copies of the
  pipes 1 and 2 and have buffers of their own. A byte of a buffer that was never written is \<open>None\<close>.
\<close>

definition BUFFER_SIZE :: nat where "BUFFER_SIZE = 40"
definition PIPES_INITIAL_CAPACITY :: u64 where "PIPES_INITIAL_CAPACITY = 20"
definition sizeof_Pipe :: u64 where "sizeof_Pipe = 64"

record Pipe =
  buffer :: "byte option list"
  writeIdx :: int
  readIdx :: int
  mutex :: int
  emptyCountSem :: int
  writtenCountSem :: int
  pdestroyed :: bool

record 'h pipeSys =
  sems :: "'h sems"
  pipeArray :: "(addr, 'h) Array"
  freedPipes :: "(int, 'h) Array"
  pipeStore :: "addr \<rightharpoonup> Pipe"
  stdinPipe :: Pipe
  stderrPipe :: Pipe

section \<open>The steps on the buffer\<close>

text \<open>\<open>buf[pos++] = p->buffer[p->readIdx]; p->readIdx = (p->readIdx + 1) % BUFFER_SIZE\<close>, with
  \<open>p->readIdx == p->writeIdx\<close> afterwards as the last result.\<close>

definition take_byte :: "Pipe \<Rightarrow> (byte \<times> Pipe \<times> bool) option" where
  "take_byte p =
     (if 0 \<le> readIdx p \<and> nat (readIdx p) < length (buffer p)
      then do {
        c \<leftarrow> buffer p ! nat (readIdx p);
        let p1 = p\<lparr>readIdx := (readIdx p + 1) mod int BUFFER_SIZE\<rparr>;
        Some (c, p1, readIdx p1 = writeIdx p1)
      }
      else None)"

text \<open>\<open>p->buffer[p->writeIdx] = c; p->writeIdx = (p->writeIdx + 1) % BUFFER_SIZE\<close>\<close>

definition put_byte :: "byte \<Rightarrow> Pipe \<Rightarrow> Pipe option" where
  "put_byte c p =
     (if 0 \<le> writeIdx p \<and> nat (writeIdx p) < length (buffer p)
      then Some (p\<lparr>buffer := (buffer p)[nat (writeIdx p) := Some c],
                   writeIdx := (writeIdx p + 1) mod int BUFFER_SIZE\<rparr>)
      else None)"

section \<open>Calls of the semaphores\<close>

text \<open>A call of another module, on its part of the state.\<close>

definition in_sems ::
  "('h sems \<Rightarrow> ('r \<times> 'h sems) option) \<Rightarrow> 'h pipeSys \<Rightarrow> ('r \<times> 'h pipeSys) option" where
  "in_sems f s = do { (r, t) \<leftarrow> f (sems s); Some (r, s\<lparr>sems := t\<rparr>) }"

definition alloc_in :: "('h \<Rightarrow> ('r \<times> 'h) option) \<Rightarrow> 'h pipeSys \<Rightarrow> ('r \<times> 'h pipeSys) option" where
  "alloc_in f s = in_sems (in_heap f) s"

definition wait_sem ::
  "'h mm \<Rightarrow> addr \<times> addr \<Rightarrow> int \<Rightarrow> 'h pipeSys \<Rightarrow> (bool run \<times> 'h pipeSys) option" where
  "wait_sem M ctx i s = in_sems (waitSemaphore M ctx i) s"

definition post_sem ::
  "'h mm \<Rightarrow> addr \<times> addr \<Rightarrow> int \<Rightarrow> 'h pipeSys \<Rightarrow> (bool run \<times> 'h pipeSys) option" where
  "post_sem M ctx i s = in_sems (postSemaphore M ctx i) s"

section \<open>Creating and destroying\<close>

text \<open>\<open>globalFree(*p)\<close>, the destructor of the elements of \<open>pipeArray\<close>.\<close>

definition freePipe :: "'h mm \<Rightarrow> addr \<Rightarrow> 'h \<Rightarrow> 'h option" where
  "freePipe M p h = mm_free M p h"

text \<open>
  The result of \<open>globalMalloc\<close> is used without a test. When a freed position is used again,
  \<open>Array_set\<close> frees the pipe that was there.
\<close>

definition pipeInit :: "'h mm \<Rightarrow> 'h pipeSys \<Rightarrow> (int \<times> 'h pipeSys) option" where
  "pipeInit M s = do {
     (p, s1) \<leftarrow> alloc_in (mm_malloc M sizeof_Pipe) s;
     if p = NULL then None
     else do {
       (mx, s2) \<leftarrow> in_sems (semInit M 1) s1;
       (wr, s3) \<leftarrow> in_sems (semInit M 0) s2;
       (em, s4) \<leftarrow> in_sems (semInit M (word_of_nat BUFFER_SIZE)) s3;
       let pipe = \<lparr>buffer = replicate BUFFER_SIZE None, writeIdx = 0, readIdx = 0, mutex = mx,
                   emptyCountSem = em, writtenCountSem = wr, pdestroyed = False\<rparr>;
       (popped, pos, f) \<leftarrow> Array_popGetEle (freedPipes s4);
       let s5 = s4\<lparr>freedPipes := f\<rparr>;
       if popped
       then do {
         i \<leftarrow> pos;
         c \<leftarrow> pipeArray s5;
         k \<leftarrow> Array_get (pipeArray s5) i;
         old \<leftarrow> slot c k;
         (a, s6) \<leftarrow> alloc_in (\<lambda>h. do { (_, a, h') \<leftarrow> Array_set M (pipeArray s5) i p h; Some (a, h') }) s5;
         Some (i, s6\<lparr>pipeArray := a, pipeStore := (pipeStore s6)(old := None, p \<mapsto> pipe)\<rparr>)
       }
       else do {
         ((i, a), s6) \<leftarrow> alloc_in (\<lambda>h. do { (i, a, h') \<leftarrow> Array_push M (pipeArray s5) (Some p) h;
                                           Some ((i, a), h') }) s5;
         Some (i, s6\<lparr>pipeArray := a, pipeStore := (pipeStore s6)(p \<mapsto> pipe)\<rparr>)
       }
     }
   }"

definition getPipe :: "int \<Rightarrow> 'h pipeSys \<Rightarrow> addr option" where
  "getPipe pipeId s =
     (if pipeId < 0 then Some NULL
      else case Array_get (pipeArray s) pipeId of None \<Rightarrow> Some NULL
      | Some k \<Rightarrow> do {
          c \<leftarrow> pipeArray s;
          p \<leftarrow> slot c k;
          pipe \<leftarrow> pipeStore s p;
          Some (if pdestroyed pipe then NULL else p)
        })"

text \<open>\<open>**(Pipe**)Array_get(pipeArray, pipeInit())\<close>\<close>

definition pipeAt :: "int \<Rightarrow> 'h pipeSys \<Rightarrow> Pipe option" where
  "pipeAt i s = do {
     k \<leftarrow> Array_get (pipeArray s) i; c \<leftarrow> pipeArray s; p \<leftarrow> slot c k; pipeStore s p }"

definition initializePipes :: "'h mm \<Rightarrow> 'h pipeSys \<Rightarrow> 'h pipeSys option" where
  "initializePipes M s = do {
     (a, s1) \<leftarrow> alloc_in (Array_initialize M 8 PIPES_INITIAL_CAPACITY (Some (freePipe M))) s;
     (f, s2) \<leftarrow> alloc_in (Array_initialize M 4 PIPES_INITIAL_CAPACITY None) s1;
     (_, s3) \<leftarrow> pipeInit M (s2\<lparr>pipeArray := a, freedPipes := f\<rparr>);
     (i, s4) \<leftarrow> pipeInit M s3;
     p \<leftarrow> pipeAt i s4;
     (j, s5) \<leftarrow> pipeInit M (s4\<lparr>stdinPipe := p\<rparr>);
     q \<leftarrow> pipeAt j s5;
     Some (s5\<lparr>stderrPipe := q\<rparr>)
   }"

definition destroyPipe ::
  "'h mm \<Rightarrow> addr \<times> addr \<Rightarrow> int \<Rightarrow> 'h pipeSys \<Rightarrow> (bool run \<times> 'h pipeSys) option" where
  "destroyPipe M ctx pipeId s =
     (if 0 \<le> pipeId \<and> pipeId \<le> 2 then Some (Done False, s)
      else do {
        p \<leftarrow> getPipe pipeId s;
        if p = NULL then Some (Done False, s)
        else do {
          pipe \<leftarrow> pipeStore s p;
          let s1 = s\<lparr>pipeStore := (pipeStore s)(p \<mapsto> pipe\<lparr>pdestroyed := True\<rparr>)\<rparr>;
          (f, s2) \<leftarrow> alloc_in (\<lambda>h. do { (_, f, h') \<leftarrow> Array_push M (freedPipes s1) (Some pipeId) h;
                                       Some (f, h') }) s1;
          then_run (in_sems (destroySemaphore M ctx (mutex pipe)) (s2\<lparr>freedPipes := f\<rparr>)) (\<lambda>s3.
            then_run (in_sems (destroySemaphore M ctx (writtenCountSem pipe)) s3) (\<lambda>s4.
              then_run (in_sems (destroySemaphore M ctx (emptyCountSem pipe)) s4) (\<lambda>s5.
                Some (Done True, s5))))
        }
      })"

section \<open>Reading and writing\<close>

text \<open>
  The body of the loop of \<open>readPipe\<close>, and the loop: \<open>n\<close> is \<open>len - pos\<close>, \<open>acc\<close> what was stored
  in \<open>buf\<close> so far. A wait can switch to another process; what is left then runs when the
  process is chosen again.
\<close>

definition readByte ::
  "'h mm \<Rightarrow> addr \<times> addr \<Rightarrow> addr \<Rightarrow> 'h pipeSys \<Rightarrow> ((byte \<times> bool) run \<times> 'h pipeSys) option" where
  "readByte M ctx p s = do {
     pipe0 \<leftarrow> pipeStore s p;
     then_run (wait_sem M ctx (writtenCountSem pipe0) s) (\<lambda>s1.
       do { pipe1 \<leftarrow> pipeStore s1 p; then_run (wait_sem M ctx (mutex pipe1) s1) (\<lambda>s2. do {
         pipe \<leftarrow> pipeStore s2 p;
         (c, pipe1, reachedEnd) \<leftarrow> take_byte pipe;
         let s3 = s2\<lparr>pipeStore := (pipeStore s2)(p \<mapsto> pipe1)\<rparr>;
         then_run (post_sem M ctx (mutex pipe1) s3) (\<lambda>s4.
           then_run (post_sem M ctx (emptyCountSem pipe1) s4) (\<lambda>s5. Some (Done (c, reachedEnd), s5)))
       }) })
   }"

fun readLoop ::
  "('s \<Rightarrow> ((byte \<times> bool) run \<times> 's) option) \<Rightarrow> nat \<Rightarrow> byte list \<Rightarrow> 's \<Rightarrow> (byte list run \<times> 's) option"
where
  "readLoop step 0 acc s = Some (Done acc, s)"
| "readLoop step (Suc n) acc s = do {
     (r, s1) \<leftarrow> step s;
     case r of Away \<Rightarrow> Some (Away, s1)
     | Done (c, reachedEnd) \<Rightarrow>
         if reachedEnd then Some (Done (acc @ [c]), s1) else readLoop step n (acc @ [c]) s1
   }"

text \<open>The result is the return value and the bytes stored in \<open>buf\<close>.\<close>

definition read_result :: "(byte list run \<times> 's) option \<Rightarrow> ((int \<times> byte list) run \<times> 's) option" where
  "read_result m = do {
     (r, s) \<leftarrow> m;
     Some (case r of Away \<Rightarrow> Away | Done bs \<Rightarrow> Done (int (length bs), bs), s) }"

definition readPipe ::
  "'h mm \<Rightarrow> addr \<times> addr \<Rightarrow> int \<Rightarrow> int \<Rightarrow> 'h pipeSys \<Rightarrow> ((int \<times> byte list) run \<times> 'h pipeSys) option" where
  "readPipe M ctx pipeId n s =
     (if n \<le> 0 then Some (Done (0, []), s)
      else do {
        p \<leftarrow> getPipe pipeId s;
        if p = NULL then Some (Done (- 1, []), s)
        else read_result (readLoop (readByte M ctx p) (nat n) [] s)
      })"

definition writeByte ::
  "'h mm \<Rightarrow> addr \<times> addr \<Rightarrow> addr \<Rightarrow> byte \<Rightarrow> 'h pipeSys \<Rightarrow> (unit run \<times> 'h pipeSys) option" where
  "writeByte M ctx p c s = do {
     pipe0 \<leftarrow> pipeStore s p;
     then_run (wait_sem M ctx (emptyCountSem pipe0) s) (\<lambda>s1.
       do { pipe1 \<leftarrow> pipeStore s1 p; then_run (wait_sem M ctx (mutex pipe1) s1) (\<lambda>s2. do {
         pipe \<leftarrow> pipeStore s2 p;
         pipe1 \<leftarrow> put_byte c pipe;
         let s3 = s2\<lparr>pipeStore := (pipeStore s2)(p \<mapsto> pipe1)\<rparr>;
         then_run (post_sem M ctx (mutex pipe1) s3) (\<lambda>s4.
           then_run (post_sem M ctx (writtenCountSem pipe1) s4) (\<lambda>s5. Some (Done (), s5)))
       }) })
   }"

text \<open>The loop over the \<open>n\<close> bytes that are left of \<open>buf\<close>.\<close>

fun writeLoop ::
  "'h mm \<Rightarrow> addr \<times> addr \<Rightarrow> addr \<Rightarrow> byte list \<Rightarrow> nat \<Rightarrow> 'h pipeSys \<Rightarrow> (unit run \<times> 'h pipeSys) option"
where
  "writeLoop M ctx p cs 0 s = Some (Done (), s)"
| "writeLoop M ctx p [] (Suc n) s = None"
| "writeLoop M ctx p (c # cs) (Suc n) s = then_run (writeByte M ctx p c s) (writeLoop M ctx p cs n)"

definition writePipe ::
  "'h mm \<Rightarrow> addr \<times> addr \<Rightarrow> int \<Rightarrow> byte list \<Rightarrow> int \<Rightarrow> 'h pipeSys \<Rightarrow> (int run \<times> 'h pipeSys) option" where
  "writePipe M ctx pipeId buf n s =
     (if pipeId = PIPE_STDIN then Some (Done (- 1), s)
      else if n \<le> 0 then Some (Done 0, s)
      else do {
        p \<leftarrow> getPipe pipeId s;
        if p = NULL then Some (Done (- 1), s)
        else then_run (writeLoop M ctx p buf (nat n) s) (\<lambda>s1. Some (Done n, s1))
      })"

section \<open>The standard input\<close>

definition writeStdin ::
  "'h mm \<Rightarrow> addr \<times> addr \<Rightarrow> byte \<Rightarrow> 'h pipeSys \<Rightarrow> (unit run \<times> 'h pipeSys) option" where
  "writeStdin M ctx c s = do {
     p \<leftarrow> put_byte c (stdinPipe s);
     then_run (post_sem M ctx (writtenCountSem p) (s\<lparr>stdinPipe := p\<rparr>)) (\<lambda>s1. Some (Done (), s1))
   }"

definition readStdinByte ::
  "'h mm \<Rightarrow> addr \<times> addr \<Rightarrow> 'h pipeSys \<Rightarrow> ((byte \<times> bool) run \<times> 'h pipeSys) option" where
  "readStdinByte M ctx s =
     then_run (wait_sem M ctx (writtenCountSem (stdinPipe s)) s) (\<lambda>s1.
       then_run (wait_sem M ctx (mutex (stdinPipe s1)) s1) (\<lambda>s2. do {
         (c, p, reachedEnd) \<leftarrow> take_byte (stdinPipe s2);
         then_run (post_sem M ctx (mutex p) (s2\<lparr>stdinPipe := p\<rparr>)) (\<lambda>s3.
           Some (Done (c, reachedEnd), s3))
       }))"

definition readStdin ::
  "'h mm \<Rightarrow> addr \<times> addr \<Rightarrow> int \<Rightarrow> 'h pipeSys \<Rightarrow> ((int \<times> byte list) run \<times> 'h pipeSys) option" where
  "readStdin M ctx n s =
     (if n \<le> 0 then Some (Done (0, []), s)
      else read_result (readLoop (readStdinByte M ctx) (nat n) [] s))"

section \<open>The system calls\<close>

definition sys_read ::
  "'h mm \<Rightarrow> addr \<times> addr \<Rightarrow> int \<Rightarrow> int \<Rightarrow> 'h pipeSys \<Rightarrow> ((int \<times> byte list) run \<times> 'h pipeSys) option" where
  "sys_read M ctx pipeId n s =
     (if pipeId = PIPE_STDIN then readStdin M ctx n s else readPipe M ctx pipeId n s)"

text \<open>\<open>printNextBuf\<close> takes the length as a \<open>uint32_t\<close>.\<close>

definition sys_write ::
  "'h mm \<Rightarrow> addr \<times> addr \<Rightarrow> int \<Rightarrow> byte list \<Rightarrow> int \<Rightarrow> 'h pipeSys \<times> Screen \<Rightarrow>
   (int run \<times> 'h pipeSys \<times> Screen) option" where
  "sys_write M ctx pipeId buf n = (\<lambda>(s, scr).
     if pipeId = PIPE_STDOUT then do {
       scr1 \<leftarrow> printNextBuf buf (word_of_int n) scr;
       Some (Done n, s, scr1)
     }
     else do { (r, s1) \<leftarrow> writePipe M ctx pipeId buf n s; Some (r, s1, scr) })"

end
