(* ===== verification/SemProps.thy ===== *)
theory SemProps
  imports Semaphores SchedProps
begin

text \<open>
  Correctness of the semaphores. A semaphore stands for the pair of its value and the list of
  the processes that wait on it, in the order in which they came (\<open>abs_sem\<close>); \<open>wait\<close> and \<open>post\<close>
  on such pairs are the specification (\<open>await\<close>, \<open>apost\<close>) which the linked queues refine. The
  lemmas hold over every memory manager that keeps the laws of theory \<open>Allocator\<close>.
\<close>

section \<open>The linked queue\<close>

fun qseg :: "(addr \<rightharpoonup> PCBNodeSem) \<Rightarrow> addr \<Rightarrow> addr list \<Rightarrow> bool" where
  "qseg N a [] \<longleftrightarrow> a = NULL"
| "qseg N a (n # ns) \<longleftrightarrow> a = n \<and> n \<noteq> NULL \<and> (\<exists>d. N n = Some d \<and> qseg N (semNext d) ns)"

lemma qseg_cong: "\<forall>n \<in> set ns. N' n = N n \<Longrightarrow> qseg N' a ns = qseg N a ns"
  by (induction ns arbitrary: a) auto

lemma qseg_dom: "qseg N a ns \<Longrightarrow> n \<in> set ns \<Longrightarrow> N n \<noteq> None"
  by (induction ns arbitrary: a) auto

lemma qseg_head: "qseg N a ns \<Longrightarrow> a = NULL \<longleftrightarrow> ns = []"
  by (cases ns) auto

text \<open>A new node after the last one.\<close>

lemma qseg_snoc:
  "qseg N a ns \<Longrightarrow> ns \<noteq> [] \<Longrightarrow> distinct ns \<Longrightarrow> n \<notin> set ns \<Longrightarrow> n \<noteq> NULL \<Longrightarrow> N n = Some d \<Longrightarrow>
     semNext d = NULL \<Longrightarrow> N (last ns) = Some t \<Longrightarrow>
     qseg (N(last ns \<mapsto> t\<lparr>semNext := n\<rparr>)) a (ns @ [n])"
proof (induction ns arbitrary: a)
  case (Cons m ns)
  show ?case
  proof (cases "ns = []")
    case True
    with Cons.prems show ?thesis by auto
  next
    case False
    with Cons.prems(3) have "m \<noteq> last ns" by auto
    with Cons False show ?thesis by auto
  qed
qed simp

definition waiters :: "'h sems \<Rightarrow> addr list \<Rightarrow> addr list" where
  "waiters s ns = map (\<lambda>n. semPcb (the (semNodes s n))) ns"

definition sem_queue :: "'h sems \<Rightarrow> Semaphore \<Rightarrow> addr list \<Rightarrow> bool" where
  "sem_queue s x ns \<longleftrightarrow>
     qseg (semNodes s) (pcbNodeHead x) ns \<and> (ns \<noteq> [] \<longrightarrow> pcbNodeTail x = last ns)"

lemma sem_queue_cong:
  "\<forall>n \<in> set ns. semNodes s' n = semNodes s n \<Longrightarrow>
     sem_queue s' x ns = sem_queue s x ns \<and> waiters s' ns = waiters s ns"
  unfolding sem_queue_def waiters_def using qseg_cong [of ns "semNodes s'" "semNodes s"] by auto

section \<open>The semaphore array\<close>

definition sem_count :: "'h sems \<Rightarrow> nat" where
  "sem_count s = (case semArray s of None \<Rightarrow> 0 | Some c \<Rightarrow> unat (len c))"

text \<open>
  The semaphores are sound: \<open>Q k\<close> are the nodes of the queue of semaphore \<open>k\<close>; all nodes are
  different allocated blocks.
\<close>

definition sems_ok :: "(addr \<rightharpoonup> u64) \<Rightarrow> 'h sems \<Rightarrow> (nat \<Rightarrow> addr list) \<Rightarrow> bool" where
  "sems_ok L s Q \<longleftrightarrow>
     (\<exists>c. semArray s = Some c \<and> arr_shape c) \<and>
     (\<forall>k < sem_count s. \<exists>x. load_sem s k = Some x \<and> sem_queue s x (Q k)) \<and>
     distinct (concat (map Q [0..<sem_count s])) \<and>
     set (concat (map Q [0..<sem_count s])) \<subseteq> dom L"

definition abs_sem :: "'h sems \<Rightarrow> (nat \<Rightarrow> addr list) \<Rightarrow> nat \<Rightarrow> u32 \<times> addr list" where
  "abs_sem s Q k = (svalue (the (load_sem s k)), waiters s (Q k))"

text \<open>What only one semaphore's operation may leave different: that semaphore.\<close>

definition only_sem :: "nat \<Rightarrow> 'h sems \<Rightarrow> 'h sems \<Rightarrow> bool" where
  "only_sem k s s' \<longleftrightarrow> sem_count s' = sem_count s \<and> (\<forall>j. j \<noteq> k \<longrightarrow> load_sem s' j = load_sem s j) \<and>
     freedPositions s' = freedPositions s"

lemma load_upd:
  assumes "upd_sem k f s = Some s'"
  shows "load_sem s' j = (if j = k then map_option f (load_sem s k) else load_sem s j)"
    "sem_count s' = sem_count s" "kern s' = kern s" "semNodes s' = semNodes s"
    "freedPositions s' = freedPositions s"
  using assms by (auto simp: upd_sem_def load_sem_def slot_def sem_count_def split: bind_splits if_splits)

lemma upd_sem_some: "load_sem s k = Some x \<Longrightarrow> \<exists>s'. upd_sem k f s = Some s'"
  by (auto simp: upd_sem_def load_sem_def split: bind_splits)

lemma arr_shape_upd: "arr_shape c \<Longrightarrow> arr_shape (c\<lparr>slots := (slots c)[k := Some e]\<rparr>)"
proof -
  assume c: "arr_shape c"
  then have "(slots c)[k := Some e] ! j \<noteq> None" if "j < unat (len c)" for j
    using that by (cases "j = k") (auto simp: arr_shape_def)
  with c show ?thesis by (simp add: arr_shape_def)
qed

lemma upd_sem_shape:
  "upd_sem k f s = Some s' \<Longrightarrow> \<exists>c. semArray s = Some c \<and> arr_shape c \<Longrightarrow>
     \<exists>c. semArray s' = Some c \<and> arr_shape c"
  by (auto simp: upd_sem_def arr_shape_upd split: bind_splits)

lemma only_upd [preserves]: "upd_sem k f s = Some s' \<Longrightarrow> only_sem k s s'"
  using load_upd [of k f s s'] by (auto simp: only_sem_def)

lemma only_trans [preserves]: "only_sem k s s' \<Longrightarrow> only_sem k s' s'' \<Longrightarrow> only_sem k s s''"
  by (auto simp: only_sem_def)

lemma distinct_concat_apart:
  assumes "distinct (concat (map Q [0..<n]))" "i < n" "j < n" "i \<noteq> j"
  shows "set (Q i) \<inter> set (Q j) = {}"
proof -
  have s: "sorted_wrt (\<lambda>x y. set (Q x) \<inter> set (Q y) = {}) [0..<n]"
    using assms(1) unfolding distinct_concat_map by blast
  have lt: "set (Q a) \<inter> set (Q b) = {}" if "a < b" "b < n" for a b
    using sorted_wrt_nth_less [OF s, of a b] that by simp
  show ?thesis using lt [of i j] lt [of j i] assms(2-4) by (cases "i < j") (auto simp: Int_commute)
qed

lemma sems_okD:
  assumes "sems_ok L s Q" "k < sem_count s"
  shows "sem_ptr s (int k) = Some k" "\<exists>x. load_sem s k = Some x \<and> sem_queue s x (Q k)"
    "distinct (Q k)" "set (Q k) \<subseteq> dom L"
    "\<And>j. j < sem_count s \<Longrightarrow> j \<noteq> k \<Longrightarrow> set (Q j) \<inter> set (Q k) = {}"
proof -
  have k: "k \<in> set [0..<sem_count s]" using assms(2) by simp
  have d: "distinct (concat (map Q [0..<sem_count s]))" using assms(1) by (simp add: sems_ok_def)
  show "sem_ptr s (int k) = Some k"
    using assms by (auto simp: sems_ok_def sem_ptr_def sem_count_def)
  show "\<exists>x. load_sem s k = Some x \<and> sem_queue s x (Q k)" using assms by (simp add: sems_ok_def)
  show "distinct (Q k)" using d k unfolding distinct_concat_map by blast
  have "set (concat (map Q [0..<sem_count s])) \<subseteq> dom L" using assms(1) by (simp add: sems_ok_def)
  moreover have "set (Q k) \<subseteq> set (concat (map Q [0..<sem_count s]))"
    unfolding set_concat set_map using k by blast
  ultimately show "set (Q k) \<subseteq> dom L" by blast
  show "set (Q j) \<inter> set (Q k) = {}" if "j < sem_count s" "j \<noteq> k" for j
    using distinct_concat_apart [OF d that(1) assms(2) that(2)] .
qed

lemma distinct_concat_upt:
  "distinct (concat (map Q [0..<n])) \<longleftrightarrow>
     (\<forall>i < n. distinct (Q i)) \<and> (\<forall>i < n. \<forall>j < n. i \<noteq> j \<longrightarrow> set (Q i) \<inter> set (Q j) = {})"
proof
  assume d: "distinct (concat (map Q [0..<n]))"
  have "\<forall>q \<in> set [0..<n]. distinct (Q q)" using d unfolding distinct_concat_map by blast
  then show "(\<forall>i < n. distinct (Q i)) \<and> (\<forall>i < n. \<forall>j < n. i \<noteq> j \<longrightarrow> set (Q i) \<inter> set (Q j) = {})"
    using distinct_concat_apart [OF d] by simp
next
  assume r: "(\<forall>i < n. distinct (Q i)) \<and> (\<forall>i < n. \<forall>j < n. i \<noteq> j \<longrightarrow> set (Q i) \<inter> set (Q j) = {})"
  then show "distinct (concat (map Q [0..<n]))"
    unfolding distinct_concat_map by (simp add: sorted_wrt_iff_nth_less)
qed

lemma distinct_concat_upd:
  "distinct (concat (map Q [0..<n])) \<Longrightarrow> k < n \<Longrightarrow> distinct q \<Longrightarrow>
     (\<forall>j < n. j \<noteq> k \<longrightarrow> set (Q j) \<inter> set q = {}) \<Longrightarrow> distinct (concat (map (Q(k := q)) [0..<n]))"
  unfolding distinct_concat_upt by (simp add: Int_commute)

text \<open>Changing one semaphore and its queue keeps the others.\<close>

lemma sems_ok_change:
  assumes inv: "sems_ok L s Q" and k: "k < sem_count s" and only: "only_sem k s s'"
    and shape: "\<exists>c. semArray s' = Some c \<and> arr_shape c"
    and x: "load_sem s' k = Some x" "sem_queue s' x q"
    and frame: "\<forall>n \<in> dom L - set (Q k). semNodes s' n = semNodes s n"
    and q: "distinct q" "set q - set (Q k) \<subseteq> - dom L"
    and L': "set q \<subseteq> dom L'" "dom L - set (Q k) \<subseteq> dom L'"
  shows "sems_ok L' s' (Q(k := q))" "\<forall>j < sem_count s. j \<noteq> k \<longrightarrow> abs_sem s' (Q(k := q)) j = abs_sem s Q j"
proof -
  note D = sems_okD [OF inv]
  have n: "sem_count s' = sem_count s" using only by (simp add: only_sem_def)
  have keep: "load_sem s' j = load_sem s j \<and> (\<forall>n \<in> set (Q j). semNodes s' n = semNodes s n)"
    if "j < sem_count s" "j \<noteq> k" for j
    using that frame D(4) [OF that(1)] D(5) [OF k that] only by (auto simp: only_sem_def)
  have "\<exists>y. load_sem s' j = Some y \<and> sem_queue s' y ((Q(k := q)) j)" if "j < sem_count s" for j
  proof (cases "j = k")
    case False
    with that D(2) [OF that] keep [OF that] sem_queue_cong [of "Q j" s' s] show ?thesis by auto
  qed (use x in simp)
  moreover have "distinct (concat (map (Q(k := q)) [0..<sem_count s]))"
  proof (rule distinct_concat_upd)
    show "\<forall>j < sem_count s. j \<noteq> k \<longrightarrow> set (Q j) \<inter> set q = {}"
      using D(4,5) k q(2) by blast
  qed (use inv k q in \<open>auto simp: sems_ok_def\<close>)
  moreover have "set (concat (map (Q(k := q)) [0..<sem_count s])) \<subseteq> dom L'"
  proof -
    have "set (Q j) \<subseteq> dom L'" if "j < sem_count s" "j \<noteq> k" for j
      using D(4) [OF that(1)] D(5) [OF k that] L'(2) by blast
    then have "set ((Q(k := q)) j) \<subseteq> dom L'" if "j < sem_count s" for j
      using that L'(1) by (cases "j = k") auto
    then have "(\<Union>j \<in> {..<sem_count s}. set ((Q(k := q)) j)) \<subseteq> dom L'" by blast
    moreover have "set (concat (map (Q(k := q)) [0..<sem_count s])) =
        (\<Union>j \<in> {..<sem_count s}. set ((Q(k := q)) j))"
      unfolding set_concat set_map set_upt atLeast0LessThan by blast
    ultimately show ?thesis by blast
  qed
  ultimately show "sems_ok L' s' (Q(k := q))" using shape n by (simp add: sems_ok_def)
  show "\<forall>j < sem_count s. j \<noteq> k \<longrightarrow> abs_sem s' (Q(k := q)) j = abs_sem s Q j"
  proof (intro allI impI)
    fix j assume j: "j < sem_count s" "j \<noteq> k"
    then have "waiters s' (Q j) = waiters s (Q j)"
      using keep [OF j] by (simp add: waiters_def)
    with keep [OF j] j show "abs_sem s' (Q(k := q)) j = abs_sem s Q j" by (simp add: abs_sem_def)
  qed
qed

section \<open>Queueing and unqueueing\<close>

locale semaphores = process_table M ok for M :: "'h mm" and ok
begin

text \<open>
  \<open>fifoQueue\<close> appends the process, or the allocation failed and nothing but the heap changed.
\<close>

lemma fifoQueue_cases:
  assumes inv: "sems_ok L s Q" and k: "k < sem_count s" and ok: "ok L (kheap (kern s))"
  obtains (full) h' where "fifoQueue M (int k) p s = Some (False, s\<lparr>kern := (kern s)\<lparr>kheap := h'\<rparr>\<rparr>)"
      "ok L h'" "mm_malloc M sizeof_PCBNodeSem (kheap (kern s)) = Some (NULL, h')"
  | (queued) n h' s' where "fifoQueue M (int k) p s = Some (True, s')" "n \<notin> dom L"
      "kern s' = (kern s)\<lparr>kheap := h'\<rparr>" "ok (L(n \<mapsto> sizeof_PCBNodeSem)) h'" "only_sem k s s'"
      "sems_ok (L(n \<mapsto> sizeof_PCBNodeSem)) s' (Q(k := Q k @ [n]))"
      "\<forall>j < sem_count s. j \<noteq> k \<longrightarrow> abs_sem s' (Q(k := Q k @ [n])) j = abs_sem s Q j"
      "\<exists>x t. load_sem s k = Some x \<and>
         load_sem s' k = Some (x\<lparr>pcbNodeHead := hd (Q k @ [n]), pcbNodeTail := t\<rparr>)"
      "waiters s' (Q k @ [n]) = waiters s (Q k) @ [p]"
proof -
  note D = sems_okD [OF inv k]
  obtain x where x: "load_sem s k = Some x" "sem_queue s x (Q k)" using D(2) by blast
  have sz: "unat sizeof_PCBNodeSem < 2 ^ 63" by (simp add: sizeof_PCBNodeSem_def)
  from malloc_cases [OF ok sz] show thesis
  proof cases
    case (1 h')
    have "fifoQueue M (int k) p s = Some (False, s\<lparr>kern := (kern s)\<lparr>kheap := h'\<rparr>\<rparr>)"
      using 1 D(1) by (simp add: fifoQueue_def in_heap_def)
    with 1 full show ?thesis by blast
  next
    case (2 n h')
    let ?d = "\<lparr>semPcb = p, semNext = NULL\<rparr>" and ?L = "L(n \<mapsto> sizeof_PCBNodeSem)"
    let ?s2 = "s\<lparr>kern := (kern s)\<lparr>kheap := h'\<rparr>, semNodes := (semNodes s)(n \<mapsto> ?d)\<rparr>"
    have fresh: "n \<notin> set (Q k)" using 2(3) D(4) by blast
    have load2: "load_sem ?s2 j = load_sem s j" for j by (simp add: load_sem_def)
    have null: "NULL \<notin> dom L" using null_free [OF ok] .
    show ?thesis
    proof (cases "Q k = []")
      case True
      with x(2) have hd: "pcbNodeHead x = NULL" by (simp add: sem_queue_def)
      obtain s3 where s3: "upd_sem k (\<lambda>x. x\<lparr>pcbNodeHead := n, pcbNodeTail := n\<rparr>) ?s2 = Some s3"
        using upd_sem_some [of ?s2 k x] x(1) load2 by auto
      note U = load_upd [OF s3]
      have run: "fifoQueue M (int k) p s = Some (True, s3)"
        using 2(1,2) D(1) x(1) hd s3 load2 by (simp add: fifoQueue_def in_heap_def)
      have only: "only_sem k s s3"
        using only_upd [OF s3] load2 by (simp add: only_sem_def sem_count_def)
      have shape: "\<exists>c. semArray s3 = Some c \<and> arr_shape c"
        using upd_sem_shape [OF s3] inv by (simp add: sems_ok_def)
      have ld: "load_sem s3 k = Some (x\<lparr>pcbNodeHead := n, pcbNodeTail := n\<rparr>)"
        using U(1) x(1) load2 by simp
      have sq: "sem_queue s3 (x\<lparr>pcbNodeHead := n, pcbNodeTail := n\<rparr>) (Q k @ [n])"
        using True U(4) 2(2) by (simp add: sem_queue_def)
      note ch = sems_ok_change [OF inv k only shape ld sq, of ?L]
      show ?thesis
        by (rule queued [OF run 2(3) _ 2(4) only ch])
          (use U D(3,4) fresh 2(3) True x(1) ld in \<open>auto simp: waiters_def\<close>)
    next
      case False
      then have hd: "pcbNodeHead x \<noteq> NULL" and tl: "pcbNodeTail x = last (Q k)"
        using x(2) qseg_head [of "semNodes s"] by (auto simp: sem_queue_def)
      have last: "last (Q k) \<in> set (Q k)" "last (Q k) \<noteq> n" using False fresh by auto
      obtain t where t: "semNodes s (last (Q k)) = Some t"
        using x(2) qseg_dom [of "semNodes s" _ "Q k"] last(1) by (fastforce simp: sem_queue_def)
      let ?s3 = "?s2\<lparr>semNodes := (semNodes ?s2)(last (Q k) \<mapsto> t\<lparr>semNext := n\<rparr>)\<rparr>"
      have load3: "load_sem ?s3 j = load_sem s j" for j by (simp add: load_sem_def)
      obtain s4 where s4: "upd_sem k (\<lambda>x. x\<lparr>pcbNodeTail := n\<rparr>) ?s3 = Some s4"
        using upd_sem_some [of ?s3 k x] x(1) load3 by auto
      note U = load_upd [OF s4]
      have run: "fifoQueue M (int k) p s = Some (True, s4)"
        using 2(1,2) D(1) x(1) hd tl t last(2) s4 load2 by (simp add: fifoQueue_def in_heap_def)
      have only: "only_sem k s s4"
        using only_upd [OF s4] load3 by (simp add: only_sem_def sem_count_def)
      have shape: "\<exists>c. semArray s4 = Some c \<and> arr_shape c"
        using upd_sem_shape [OF s4] inv by (simp add: sems_ok_def)
      have ld: "load_sem s4 k = Some (x\<lparr>pcbNodeTail := n\<rparr>)"
        using U(1) x(1) load3 by simp
      have "qseg (semNodes ?s2) (pcbNodeHead x) (Q k)"
        using x(2) qseg_cong [of "Q k" "semNodes ?s2" "semNodes s"] fresh by (auto simp: sem_queue_def)
      from qseg_snoc [OF this False D(3) fresh 2(2), of ?d t]
      have sq: "sem_queue s4 (x\<lparr>pcbNodeTail := n\<rparr>) (Q k @ [n])"
        using U(4) t last(2) by (simp add: sem_queue_def)
      note ch = sems_ok_change [OF inv k only shape ld sq, of ?L]
      have w: "waiters s4 (Q k @ [n]) = waiters s (Q k) @ [p]"
        using U(4) t last(2) fresh by (auto simp: waiters_def)
      have head: "pcbNodeHead x = hd (Q k @ [n])"
        using x(2) False by (cases "Q k") (auto simp: sem_queue_def)
      have ldx: "load_sem s4 k = Some (x\<lparr>pcbNodeHead := hd (Q k @ [n]), pcbNodeTail := n\<rparr>)"
        unfolding head [symmetric] using ld by simp
      have fr: "\<forall>m \<in> dom L - set (Q k). semNodes s4 m = semNodes s m"
        using U(4) 2(3) last(1) by auto
      show ?thesis
        by (rule queued [OF run 2(3) _ 2(4) only ch(1) ch(2)])
          (use U fr D(3,4) fresh 2(3) w x(1) ldx in auto)
    qed
  qed
qed

lemma fifoUnqueue_empty:
  assumes "sems_ok L s Q" "k < sem_count s" "Q k = []"
  shows "fifoUnqueue M (int k) s = Some (NULL, s)"
  using sems_okD(1,2) [OF assms(1,2)] assms(3) by (auto simp: fifoUnqueue_def sem_queue_def)

lemma fifoUnqueue_head:
  assumes inv: "sems_ok L s Q" and k: "k < sem_count s" and ok: "ok L (kheap (kern s))"
    and q: "Q k = n # ns"
  obtains h' s' where
    "fifoUnqueue M (int k) s = Some (hd (waiters s (Q k)), s')"
    "kern s' = (kern s)\<lparr>kheap := h'\<rparr>" "ok (L(n := None)) h'" "only_sem k s s'"
    "sems_ok (L(n := None)) s' (Q(k := ns))"
    "\<forall>j < sem_count s. j \<noteq> k \<longrightarrow> abs_sem s' (Q(k := ns)) j = abs_sem s Q j"
    "\<exists>x h. load_sem s k = Some x \<and> load_sem s' k = Some (x\<lparr>pcbNodeHead := h\<rparr>)"
    "waiters s' ns = tl (waiters s (Q k))"
proof -
  note D = sems_okD [OF inv k]
  obtain x where x: "load_sem s k = Some x" "sem_queue s x (Q k)" using D(2) by blast
  obtain d where d: "pcbNodeHead x = n" "n \<noteq> NULL" "semNodes s n = Some d"
    "qseg (semNodes s) (semNext d) ns"
    using x(2) q by (auto simp: sem_queue_def)
  have n: "n \<in> dom L" "n \<notin> set ns" "distinct ns" using D(3,4) q by auto
  obtain h' where h': "mm_free M n (kheap (kern s)) = Some h'" "ok (L(n := None)) h'"
    using free_ok [OF ok n(1)] by blast
  obtain s1 where s1: "upd_sem k (\<lambda>x. x\<lparr>pcbNodeHead := semNext d\<rparr>) s = Some s1"
    using upd_sem_some [of s k x] x(1) by auto
  note U = load_upd [OF s1]
  let ?s' = "s1\<lparr>kern := (kern s1)\<lparr>kheap := h'\<rparr>, semNodes := (semNodes s1)(n := None)\<rparr>"
  have load: "load_sem ?s' j = load_sem s1 j" for j by (simp add: load_sem_def)
  have only: "only_sem k s ?s'"
    using only_upd [OF s1] load by (simp add: only_sem_def sem_count_def)
  have shape: "\<exists>c. semArray ?s' = Some c \<and> arr_shape c"
    using upd_sem_shape [OF s1] inv by (simp add: sems_ok_def)
  have ld: "load_sem ?s' k = Some (x\<lparr>pcbNodeHead := semNext d\<rparr>)" using U(1) x(1) load by simp
  have "qseg (semNodes ?s') (semNext d) ns"
    using d(4) qseg_cong [of ns "semNodes ?s'" "semNodes s"] n(2) U(4) by auto
  then have sq: "sem_queue ?s' (x\<lparr>pcbNodeHead := semNext d\<rparr>) ns"
    using x(2) q by (auto simp: sem_queue_def)
  note ch = sems_ok_change [OF inv k only shape ld sq, of "L(n := None)"]
  show ?thesis
  proof (rule that [of ?s' h'])
    show "fifoUnqueue M (int k) s = Some (hd (waiters s (Q k)), ?s')"
      using x(1) d D(1) s1 h'(1) U(3) q by (simp add: fifoUnqueue_def in_heap_def waiters_def)
    show "sems_ok (L(n := None)) ?s' (Q(k := ns))"
      "\<forall>j < sem_count s. j \<noteq> k \<longrightarrow> abs_sem ?s' (Q(k := ns)) j = abs_sem s Q j"
      by (rule ch; use n q D(4) U(4) in auto)+
    show "waiters ?s' ns = tl (waiters s (Q k))"
      using n(2) U(4) q by (auto simp: waiters_def)
    show "\<exists>x h. load_sem s k = Some x \<and> load_sem ?s' k = Some (x\<lparr>pcbNodeHead := h\<rparr>)"
      using x(1) ld by blast
  qed (use only U(3) h'(2) in auto)
qed

end

section \<open>The specification\<close>

text \<open>
  \<open>await\<close>: take one if there is one, else queue up. \<open>apost\<close>: drop the processes that were killed
  while they waited; hand over to the first other one, or add one.
\<close>

definition await :: "addr \<Rightarrow> u32 \<times> addr list \<Rightarrow> u32 \<times> addr list" where
  "await p vq = (if fst vq > 0 then (fst vq - 1, snd vq) else (0, snd vq @ [p]))"

definition apost :: "(addr \<Rightarrow> bool) \<Rightarrow> u32 \<times> addr list \<Rightarrow> u32 \<times> addr list" where
  "apost dead vq = (case dropWhile dead (snd vq) of [] \<Rightarrow> (fst vq + 1, []) | p # q \<Rightarrow> (fst vq, q))"

definition in_state :: "State \<Rightarrow> 'h kernel \<Rightarrow> addr \<Rightarrow> bool" where
  "in_state st s p \<longleftrightarrow> (\<exists>c. pcbs s p = Some c \<and> state c = st)"

abbreviation killed :: "'h kernel \<Rightarrow> addr \<Rightarrow> bool" where
  "killed \<equiv> in_state WAITING_FOR_EXIT"

text \<open>A killed process that can be ended right away: nobody waits for it, it is not the current
  process nor the one in the foreground.\<close>

definition can_reap :: "'h kernel \<Rightarrow> addr \<Rightarrow> bool" where
  "can_reap s p \<longleftrightarrow> (\<exists>c cur fg. pcbs s p = Some c \<and> wfmLen c = 0 \<and> currentRec s = Some cur \<and>
     pid c \<noteq> pid cur \<and> pcbs s (processInForeground s) = Some fg \<and> pid c \<noteq> pid fg)"

text \<open>The process table after a post: the killed processes are ended, the first other one is ready.\<close>

definition set_states :: "State \<Rightarrow> addr set \<Rightarrow> (addr \<rightharpoonup> PCB) \<Rightarrow> (addr \<rightharpoonup> PCB)" where
  "set_states st A P = (\<lambda>p. if p \<in> A then map_option (\<lambda>c. c\<lparr>state := st\<rparr>) (P p) else P p)"

definition after_post :: "'h kernel \<Rightarrow> addr list \<Rightarrow> (addr \<rightharpoonup> PCB)" where
  "after_post s q = set_states READY (set (take 1 (dropWhile (killed s) q)))
     (set_states EXITED (set (takeWhile (killed s) q)) (pcbs s))"

lemma reap_one:
  assumes "can_reap s p" "pcbs s p = Some c" "state c = WAITING_FOR_EXIT"
  shows "exitProcessByPCB M ctx p k s =
    Some (Done (), s\<lparr>pcbs := (pcbs s)(p \<mapsto> c\<lparr>state := EXITED\<rparr>)\<rparr>)"
proof -
  obtain cur fg x where c: "wfmLen c = 0" "nodes s (current s) = Some x" "pcbs s (pcb x) = Some cur"
    "pid c \<noteq> pid cur" "pcbs s (processInForeground s) = Some fg" "pid c \<noteq> pid fg"
    using assms by (auto simp: can_reap_def currentRec_def currentPCB_def split: bind_splits)
  then have "processInForeground s \<noteq> p" "pcb x \<noteq> p" using assms(2) by auto
  with c assms show ?thesis
    by (simp add: exitProcessByPCB_def exitGo.simps [of M ctx "ExitProcess p k"]
        exitGo.simps [of M ctx "NotifyWaiters p k 0"] upd_pcb_def currentRec_def currentPCB_def)
qed

lemma can_reap_keep:
  assumes "can_reap s q" "can_reap s p" "pcbs s p = Some c" "q \<noteq> p"
  shows "can_reap (s\<lparr>kheap := h, pcbs := (pcbs s)(p \<mapsto> c\<lparr>state := st\<rparr>)\<rparr>) q"
proof -
  obtain cur fg x where c: "nodes s (current s) = Some x" "pcbs s (pcb x) = Some cur"
    "pid c \<noteq> pid cur" "pcbs s (processInForeground s) = Some fg" "pid c \<noteq> pid fg"
    using assms(2,3) by (auto simp: can_reap_def currentRec_def currentPCB_def split: bind_splits)
  then have "processInForeground s \<noteq> p" "pcb x \<noteq> p" using assms(3) by auto
  with c assms(1,4) show ?thesis by (auto simp: can_reap_def currentRec_def currentPCB_def)
qed

lemma set_states_empty [simp]: "set_states st {} P = P"
  by (simp add: set_states_def fun_eq_iff)

lemma after_post_simps:
  "after_post s [] = pcbs s"
  "in_state BLOCKED s p \<Longrightarrow> pcbs s p = Some c \<Longrightarrow>
     after_post s (p # q) = (pcbs s)(p \<mapsto> c\<lparr>state := READY\<rparr>)"
  by (auto simp: after_post_def set_states_def in_state_def fun_eq_iff)

text \<open>Ending the first killed process of the queue and going on is the same as doing all at once.\<close>

lemma after_post_killed:
  assumes "killed s p" "pcbs s p = Some c" "p \<notin> set q"
  shows "after_post (s\<lparr>kheap := h, pcbs := (pcbs s)(p \<mapsto> c\<lparr>state := EXITED\<rparr>)\<rparr>) q =
    after_post s (p # q)"
proof -
  let ?s = "s\<lparr>kheap := h, pcbs := (pcbs s)(p \<mapsto> c\<lparr>state := EXITED\<rparr>)\<rparr>"
  have "killed ?s r = killed s r" if "r \<in> set q" for r
    using that assms(3) by (auto simp: in_state_def)
  then have "takeWhile (killed ?s) q = takeWhile (killed s) q" "dropWhile (killed ?s) q = dropWhile (killed s) q"
    by (auto intro: takeWhile_cong dropWhile_cong)
  moreover have "p \<notin> set (take 1 (dropWhile (killed s) q))"
    using assms(3) set_dropWhileD in_set_takeD by fastforce
  ultimately show ?thesis
    using assms set_takeWhileD [of p "killed s" q]
    by (auto simp: after_post_def set_states_def fun_eq_iff)
qed

lemma apost_Cons: "dead p \<Longrightarrow> apost dead (v, p # q) = apost dead (v, q)"
  "\<not> dead p \<Longrightarrow> apost dead (v, p # q) = (v, q)" "apost dead (v, []) = (v + 1, [])"
  unfolding apost_def snd_conv fst_conv dropWhile.simps by simp_all

lemma apost_drop:
  "dropWhile dead q = [] \<Longrightarrow> apost dead (v, q) = (v + 1, [])"
  "dropWhile dead q = r # rs \<Longrightarrow> apost dead (v, q) = (v, rs)"
  unfolding apost_def snd_conv fst_conv by (simp_all del: dropWhile_eq_Nil_conv)

lemma apost_cong: "\<forall>p \<in> set q. dead p = dead' p \<Longrightarrow> apost dead (v, q) = apost dead' (v, q)"
  using dropWhile_cong [of q q dead dead'] by (simp add: apost_def)

lemma map_upd_id: "m x = Some y \<Longrightarrow> m(x \<mapsto> y) = m"
  by auto

text \<open>What an operation on semaphore \<open>k\<close> promises: its new abstract value, and the others kept.\<close>

definition sem_op ::
  "(addr \<rightharpoonup> u64) \<Rightarrow> (nat \<Rightarrow> addr list) \<Rightarrow> 'h sems \<Rightarrow> nat \<Rightarrow> u32 \<times> addr list \<Rightarrow> (addr \<rightharpoonup> u64) \<Rightarrow>
   (nat \<Rightarrow> addr list) \<Rightarrow> 'h sems \<Rightarrow> bool" where
  "sem_op L Q s k vq L' Q' s' \<longleftrightarrow>
     sems_ok L' s' Q' \<and> only_sem k s s' \<and> abs_sem s' Q' k = vq \<and>
     (\<forall>j < sem_count s. j \<noteq> k \<longrightarrow> abs_sem s' Q' j = abs_sem s Q j) \<and>
     (\<exists>x y. load_sem s k = Some x \<and> load_sem s' k = Some y \<and> slock y = slock x \<and>
        sdestroyed y = sdestroyed x \<and> sname y = sname x)"

lemma sem_op_trans:
  assumes "sem_op L Q s k vq L1 Q1 s1" "sem_op L1 Q1 s1 k vq' L2 Q2 s2"
  shows "sem_op L Q s k vq' L2 Q2 s2"
proof -
  have "\<exists>x y. load_sem s k = Some x \<and> load_sem s2 k = Some y \<and> slock y = slock x \<and>
      sdestroyed y = sdestroyed x \<and> sname y = sname x"
  proof -
    obtain x y y' z where "load_sem s k = Some x" "load_sem s1 k = Some y" "load_sem s1 k = Some y'"
      "load_sem s2 k = Some z" "slock y = slock x" "slock z = slock y'" "sdestroyed y = sdestroyed x"
      "sdestroyed z = sdestroyed y'" "sname y = sname x" "sname z = sname y'"
      using assms unfolding sem_op_def by metis
    then show ?thesis by simp
  qed
  moreover have "abs_sem s2 Q2 j = abs_sem s Q j" if "j < sem_count s" "j \<noteq> k" for j
    using assms that by (simp add: sem_op_def only_sem_def)
  moreover have "only_sem k s s2"
    using assms only_trans unfolding sem_op_def by blast
  ultimately show ?thesis using assms(2) unfolding sem_op_def by blast
qed

lemma sem_op_kern:
  "load_sem (s\<lparr>kern := K\<rparr>) j = load_sem s j" "sem_count (s\<lparr>kern := K\<rparr>) = sem_count s"
  "waiters (s\<lparr>kern := K\<rparr>) q = waiters s q" "sem_queue (s\<lparr>kern := K\<rparr>) x q = sem_queue s x q"
  "sems_ok L (s\<lparr>kern := K\<rparr>) Q = sems_ok L s Q" "abs_sem (s\<lparr>kern := K\<rparr>) Q j = abs_sem s Q j"
  "only_sem k (s\<lparr>kern := K\<rparr>) s' = only_sem k s s'" "only_sem k s' (s\<lparr>kern := K\<rparr>) = only_sem k s' s"
  "sem_op L Q (s\<lparr>kern := K\<rparr>) k vq L' Q' s' = sem_op L Q s k vq L' Q' s'"
  "sem_op L Q s' k vq L' Q' (s\<lparr>kern := K\<rparr>) = sem_op L Q s' k vq L' Q' s"
  by (simp_all add: load_sem_def sem_count_def waiters_def sem_queue_def sems_ok_def abs_sem_def
      only_sem_def sem_op_def)

text \<open>Changing only the fields of a semaphore that are not part of its queue.\<close>

lemma sem_op_upd:
  assumes inv: "sems_ok L s Q" and k: "k < sem_count s" and x: "load_sem s k = Some x"
    and f: "pcbNodeHead (f x) = pcbNodeHead x" "pcbNodeTail (f x) = pcbNodeTail x"
    and s': "upd_sem k f s = Some s'"
  shows "sems_ok L s' Q" "only_sem k s s'" "abs_sem s' Q k = (svalue (f x), waiters s (Q k))"
    "\<forall>j < sem_count s. j \<noteq> k \<longrightarrow> abs_sem s' Q j = abs_sem s Q j" "load_sem s' k = Some (f x)"
    "kern s' = kern s"
proof -
  note U = load_upd [OF s'] and D = sems_okD [OF inv k]
  have sq: "sem_queue s' (f x) (Q k)" using D(2) x f U(4) by (auto simp: sem_queue_def)
  have ld: "load_sem s' k = Some (f x)" using U(1) x by simp
  have shape: "\<exists>c. semArray s' = Some c \<and> arr_shape c"
    using upd_sem_shape [OF s'] inv by (simp add: sems_ok_def)
  have Q: "Q(k := Q k) = Q" by simp
  note ch = sems_ok_change [OF inv k only_upd [OF s'] shape ld sq, of L, unfolded Q]
  show "sems_ok L s' Q" "\<forall>j < sem_count s. j \<noteq> k \<longrightarrow> abs_sem s' Q j = abs_sem s Q j"
    by (rule ch; use D(3,4) U(4) in auto)+
  show "only_sem k s s'" using only_upd [OF s'] .
  show "abs_sem s' Q k = (svalue (f x), waiters s (Q k))" using ld U(4) by (simp add: abs_sem_def waiters_def)
  show "load_sem s' k = Some (f x)" "kern s' = kern s" using ld U(3) by auto
qed

context semaphores
begin

lemma postLoop_ok:
  assumes "sems_ok L s Q" "k < sem_count s" "ok L (kheap (kern s))"
    and "distinct (waiters s (Q k))" "NULL \<notin> set (waiters s (Q k))"
    and "\<forall>p \<in> set (waiters s (Q k)). in_state BLOCKED (kern s) p \<or> killed (kern s) p \<and> can_reap (kern s) p"
  shows "\<exists>s' L' q h'. postLoop M ctx (int k) k s = Some (Done (), s') \<and>
    sem_op L Q s k (apost (killed (kern s)) (abs_sem s Q k)) L' (Q(k := q)) s' \<and>
    ok L' (kheap (kern s')) \<and>
    kern s' = (kern s)\<lparr>kheap := h', pcbs := after_post (kern s) (waiters s (Q k))\<rparr>"
  using assms
proof (induction "Q k" arbitrary: L s Q)
  case Nil
  note D = sems_okD [OF Nil.prems(1,2)]
  obtain x where x: "load_sem s k = Some x" using D(2) by blast
  obtain s' where s': "upd_sem k (\<lambda>x. x\<lparr>svalue := svalue x + 1\<rparr>) s = Some s'"
    using upd_sem_some [OF x] by blast
  note U = sem_op_upd [OF Nil.prems(1,2) x _ _ s', simplified]
  have empty: "waiters s (Q k) = []" using Nil.hyps by (simp add: waiters_def)
  have "postLoop M ctx (int k) k s = Some (Done (), s')"
    using fifoUnqueue_empty [OF Nil.prems(1,2)] Nil.hyps s'
    by (simp add: postLoop.simps [of M ctx "int k" k s])
  moreover have "apost (killed (kern s)) (abs_sem s Q k) = (svalue x + 1, [])"
    using x empty by (simp add: apost_def abs_sem_def)
  moreover have "Q(k := []) = Q" using Nil.hyps by auto
  ultimately show ?case
    using U x empty Nil.prems(3)
    by (intro exI [of _ s'] exI [of _ L] exI [of _ "[]"] exI [of _ "kheap (kern s)"])
      (simp add: sem_op_def after_post_simps)
next
  case (Cons n ns)
  let ?K = "kern s"
  have q: "Q k = n # ns" using Cons.hyps(2) by simp
  obtain h1 s1 where s1: "fifoUnqueue M (int k) s = Some (hd (waiters s (Q k)), s1)"
    "kern s1 = ?K\<lparr>kheap := h1\<rparr>" "ok (L(n := None)) h1" "only_sem k s s1"
    "sems_ok (L(n := None)) s1 (Q(k := ns))"
    "\<forall>j < sem_count s. j \<noteq> k \<longrightarrow> abs_sem s1 (Q(k := ns)) j = abs_sem s Q j"
    "\<exists>x h. load_sem s k = Some x \<and> load_sem s1 k = Some (x\<lparr>pcbNodeHead := h\<rparr>)"
    "waiters s1 ns = tl (waiters s (Q k))"
    by (rule fifoUnqueue_head [OF Cons.prems(1-3) q])
  obtain p where p: "waiters s (Q k) = p # waiters s1 ns" "p = hd (waiters s (Q k))"
    using s1(8) q by (simp add: waiters_def)
  have p_ns: "p \<noteq> NULL" "p \<notin> set (waiters s1 ns)" "distinct (waiters s1 ns)"
    using Cons.prems(4,5) p(1) by auto
  have val: "abs_sem s1 (Q(k := ns)) k = (svalue (the (load_sem s k)), waiters s1 ns)"
    using s1(7) by (auto simp: abs_sem_def)
  have now: "abs_sem s Q k = (svalue (the (load_sem s k)), p # waiters s1 ns)"
    using p(1) by (simp add: abs_sem_def)
  obtain c where c: "pcbs ?K p = Some c" using Cons.prems(6) p(1) by (auto simp: in_state_def)
  have op1: "sem_op L Q s k (abs_sem s1 (Q(k := ns)) k) (L(n := None)) (Q(k := ns)) s1"
    using s1(4-7) by (auto simp: sem_op_def)
  have first: "in_state BLOCKED ?K p \<or> killed ?K p \<and> can_reap ?K p" using Cons.prems(6) p(1) by simp
  show ?case
  proof (cases "killed ?K p")
    case False
    let ?s' = "s1\<lparr>kern := ?K\<lparr>kheap := h1, pcbs := (pcbs ?K)(p \<mapsto> c\<lparr>state := READY\<rparr>)\<rparr>\<rparr>"
    have b: "in_state BLOCKED ?K p" "state c = BLOCKED" using first False c by (auto simp: in_state_def)
    have "postLoop M ctx (int k) k s = Some (Done (), ?s')"
      using s1(1,2) p(2) p_ns(1) c b(2)
      by (simp add: postLoop.simps [of M ctx "int k" k s] ready_in_def readyProcess_def upd_pcb_def)
    moreover have "apost (killed ?K) (abs_sem s Q k) = abs_sem s1 (Q(k := ns)) k"
      using False val now by (simp add: apost_Cons)
    ultimately show ?thesis
      using op1 s1(3) after_post_simps(2) [OF b(1) c] p(1)
      by (intro exI [of _ ?s'] exI [of _ "L(n := None)"] exI [of _ ns] exI [of _ h1])
        (simp add: sem_op_kern)
  next
    case True
    let ?c = "c\<lparr>state := EXITED\<rparr>"
    let ?K2 = "?K\<lparr>kheap := h1, pcbs := (pcbs ?K)(p \<mapsto> ?c)\<rparr>"
    let ?s2 = "s1\<lparr>kern := ?K2\<rparr>" and ?L = "L(n := None)"
    have reap: "can_reap ?K p" "state c = WAITING_FOR_EXIT"
      using True first c by (auto simp: in_state_def)
    then have "can_reap (kern s1) p"
      using s1(2) by (simp add: can_reap_def currentRec_def currentPCB_def)
    from reap_one [OF this, of c M ctx KILL_EXIT_CODE]
    have loop: "postLoop M ctx (int k) k s = postLoop M ctx (int k) k ?s2"
      using s1(1,2) p(2) p_ns(1) c reap(2)
      by (simp add: postLoop.simps [of M ctx "int k" k s] in_kern_def)
    have other: "killed ?K2 r = killed ?K r" if "r \<in> set (waiters s1 ns)" for r
      using that p_ns(2) by (auto simp: in_state_def)
    have st: "\<forall>r \<in> set (waiters s1 ns). in_state BLOCKED ?K2 r \<or> killed ?K2 r \<and> can_reap ?K2 r"
    proof
      fix r assume r: "r \<in> set (waiters s1 ns)"
      then have "r \<noteq> p" "in_state BLOCKED ?K r \<or> killed ?K r \<and> can_reap ?K r"
        using p_ns(2) Cons.prems(6) p(1) by auto
      with can_reap_keep [where q = r and h = h1 and st = EXITED, OF _ reap(1) c] other [OF r] c
      show "in_state BLOCKED ?K2 r \<or> killed ?K2 r \<and> can_reap ?K2 r" by (auto simp: in_state_def)
    qed
    have hyp: "ns = (Q(k := ns)) k" "sems_ok ?L ?s2 (Q(k := ns))" "k < sem_count ?s2"
      "ok ?L (kheap (kern ?s2))" "waiters ?s2 ((Q(k := ns)) k) = waiters s1 ns" "kern ?s2 = ?K2"
      using s1(3-5) Cons.prems(2) by (simp_all add: sem_op_kern only_sem_def)
    obtain s' L' q h' where r: "postLoop M ctx (int k) k ?s2 = Some (Done (), s')"
      "sem_op ?L (Q(k := ns)) ?s2 k (apost (killed ?K2) (abs_sem ?s2 (Q(k := ns)) k)) L' ((Q(k := ns))(k := q)) s'"
      "ok L' (kheap (kern s'))"
      "kern s' = ?K2\<lparr>kheap := h', pcbs := after_post ?K2 (waiters s1 ns)\<rparr>"
      using Cons.hyps(1) [OF hyp(1,2,3,4), unfolded hyp(5,6)] p_ns st Cons.prems(5) p(1) by auto
    have ap: "apost (killed ?K2) (abs_sem s1 (Q(k := ns)) k) = apost (killed ?K) (abs_sem s Q k)"
      unfolding now val
      using True apost_cong [of "waiters s1 ns" "killed ?K2" "killed ?K"] other by (simp add: apost_Cons)
    have "after_post ?K2 (waiters s1 ns) = after_post ?K (waiters s (Q k))"
      unfolding p(1) by (rule after_post_killed [OF True c p_ns(2)])
    then show ?thesis
      using loop r(1,3,4) sem_op_trans [OF op1 r(2) [unfolded sem_op_kern ap]]
      by (intro exI [of _ s'] exI [of _ L'] exI [of _ q] exI [of _ h']) simp
  qed
qed

end

section \<open>Blocking the current process\<close>

lemma kinv_heap:
  assumes "kinv ok L s ns cs" "ok L' h'" "dom L \<subseteq> dom L'" "NULL \<notin> dom L'"
  shows "kinv ok L' (s\<lparr>kheap := h'\<rparr>) ns cs"
proof -
  have "owns (s\<lparr>kheap := h'\<rparr>) = owns s" by (auto simp: owns_def fun_eq_iff split: option.splits)
  then have "owned (s\<lparr>kheap := h'\<rparr>) ns = owned s ns" "table (s\<lparr>kheap := h'\<rparr>) ns cs = table s ns cs"
    by (simp_all add: owned_def table_def proc_def)
  moreover have "set (owned s ns) \<subseteq> dom L'"
    using assms(1,3) unfolding kinv_def by blast
  ultimately show ?thesis using assms unfolding kinv_def by simp
qed

lemma blocks_owned:
  "kinv ok L s ns cs \<Longrightarrow> set gone \<subseteq> set cs \<Longrightarrow> blocks_of s gone \<subseteq> set (owned s ns)"
  using kinvD(12) [of ok L s ns cs] by (auto simp: blocks_of_def owned_def)

context process_table
begin

lemma block_current:
  assumes inv: "kinv ok L s ns cs" and cur: "current s = hd cs"
    and c: "proc s (current s) = Some c"
  obtains s' gone cs' where "blockCurrentProcess M ctx s = Some (Away, s')"
    "set gone \<subseteq> set cs" "hd cs \<notin> set gone"
    "kinv ok (L |` (- blocks_of s gone)) s' (removing gone ns) cs'"
    "current s' \<noteq> current s"
    "proc s' (current s) = Some (c\<lparr>rsp := fst ctx, rbp := snd ctx, state := BLOCKED\<rparr>)"
proof -
  obtain x where x: "nodes s (current s) = Some x" "pcbs s (pcb x) = Some c"
    using c by (auto simp: proc_def split: bind_splits)
  let ?b = "c\<lparr>state := BLOCKED\<rparr>"
  let ?s1 = "s\<lparr>pcbs := (pcbs s)(pcb x \<mapsto> ?b)\<rparr>"
  have inv1: "kinv ok L ?s1 ns cs"
    using kinv_upd [OF inv current_cases [OF inv] x, of "\<lambda>c. c\<lparr>state := BLOCKED\<rparr>"]
    by (simp add: keeps_blocks_def)
  have c1: "proc ?s1 (current ?s1) = Some ?b" using x by (simp add: proc_def)
  have out: "\<not> (state ?b = RUNNING \<and> quantumsLeft ?s1 > 0)" by simp
  obtain q s' where s': "schedule M (fst ctx) (snd ctx) ?s1 = Some (q, s')"
    "sched_post ok L (save_current (fst ctx) (snd ctx) ?s1) ns (tl cs @ [hd cs]) [] q s'"
    using schedule_switch [OF inv1 c1 out] by blast
  let ?s2 = "save_current (fst ctx) (snd ctx) ?s1" and ?r = "tl cs @ [hd cs]"
  let ?c2 = "c\<lparr>rsp := fst ctx, rbp := snd ctx, state := BLOCKED\<rparr>"
  have s2: "?s2 = s\<lparr>pcbs := (pcbs s)(pcb x \<mapsto> ?c2)\<rparr>"
    using x by (simp add: save_current_def interrupted_def)
  let ?gone = "reaped (pstate ?s2) ?r"
  note post = s'(2) [unfolded sched_post_def Let_def]
  have cs: "cs = hd cs # tl cs" "distinct cs" using kinvD(7,11) [OF inv] by auto
  then have notin: "hd cs \<notin> set (tl cs)" by (metis distinct.simps(2))
  have gone: "set ?gone \<subseteq> set (tl cs)"
    using set_takeWhileD by (fastforce simp: reaped_def passed_def)
  have pc2: "proc ?s2 (hd cs) = Some ?c2" unfolding s2 using x cur by (simp add: proc_def)
  have nch: "Some (hd cs) \<noteq> chosen (pstate ?s2) ?r"
  proof
    assume "Some (hd cs) = chosen (pstate ?s2) ?r"
    then have "pstate ?s2 (hd cs) = READY" unfolding chosen_def find_Some_iff2 by auto
    then show False using pc2 by (simp add: pstate_def)
  qed
  have idle: "hd cs \<noteq> idleProcPCBNode s" using kinvD(8) [OF inv] cs(1) by (metis list.set_intros(1))
  have away: "current s' \<noteq> hd cs"
    using post nch idle by (auto simp: s2 split: option.splits)
  have proc': "proc s' (hd cs) = Some ?c2"
    using post nch notin gone pc2 by auto
  have run: "blockCurrentProcess M ctx s = Some (Away, s')"
    using x s'(1) away cur
    by (simp add: blockCurrentProcess_def currentPCB_def upd_pcb_def contextSwitch_def)
  have blocks: "blocks_of ?s2 ?gone = blocks_of s ?gone"
  proof -
    have "owns ?s2 n = owns s n" for n
      unfolding s2 using owns_upd [of "\<lambda>c. c\<lparr>rsp := fst ctx, rbp := snd ctx, state := BLOCKED\<rparr>" s "pcb x" c n] x(2)
      by (simp add: keeps_blocks_def)
    then show ?thesis by (simp add: blocks_of_def)
  qed
  have sub: "set ?gone \<subseteq> set cs" using gone list.set_sel(2) [OF kinvD(11) [OF inv]] by blast
  have keep: "hd cs \<notin> set ?gone" using gone notin by blast
  note inv' = conjunct1 [OF post, unfolded blocks]
  show thesis
    by (rule that [OF run sub keep inv']) (use away proc' cur in simp_all)
qed

end

section \<open>Waiting and posting\<close>

context semaphores
begin

lemma enter_free:
  "load_sem s k = Some x \<Longrightarrow> slock x = 0 \<Longrightarrow>
     enter_region M ctx k s = map_option (Pair (Done ())) (upd_sem k (\<lambda>x. x\<lparr>slock := 1\<rparr>) s)"
  by (cases "upd_sem k (\<lambda>x. x\<lparr>slock := 1\<rparr>) s") (simp_all add: enter_region.simps [of M ctx k s])

lemma post_ok:
  assumes inv: "sems_ok L s Q" and k: "k < sem_count s" and ok: "ok L (kheap (kern s))"
    and x: "load_sem s k = Some x" "\<not> sdestroyed x" "slock x = 0"
    and w: "distinct (waiters s (Q k))" "NULL \<notin> set (waiters s (Q k))"
      "\<forall>p \<in> set (waiters s (Q k)).
         in_state BLOCKED (kern s) p \<or> killed (kern s) p \<and> can_reap (kern s) p"
  shows "\<exists>s' L' q h'. postSemaphore M ctx (int k) s = Some (Done True, s') \<and>
    sem_op L Q s k (apost (killed (kern s)) (abs_sem s Q k)) L' (Q(k := q)) s' \<and>
    ok L' (kheap (kern s')) \<and>
    kern s' = (kern s)\<lparr>kheap := h', pcbs := after_post (kern s) (waiters s (Q k))\<rparr>"
proof -
  note D = sems_okD [OF inv k]
  obtain s1 where s1: "upd_sem k (\<lambda>x. x\<lparr>slock := 1\<rparr>) s = Some s1" using upd_sem_some [OF x(1)] by blast
  note U = sem_op_upd [OF inv k x(1) _ _ s1, simplified]
  have w1: "waiters s1 (Q k) = waiters s (Q k)" and a1: "abs_sem s1 Q k = abs_sem s Q k"
    using U(3) x(1) by (auto simp: abs_sem_def)
  have k1: "k < sem_count s1" using U(2) k by (simp add: only_sem_def)
  obtain s2 L' q h' where s2: "postLoop M ctx (int k) k s1 = Some (Done (), s2)"
    "sem_op L Q s1 k (apost (killed (kern s)) (abs_sem s Q k)) L' (Q(k := q)) s2"
    "ok L' (kheap (kern s2))"
    "kern s2 = (kern s)\<lparr>kheap := h', pcbs := after_post (kern s) (waiters s (Q k))\<rparr>"
    using postLoop_ok [OF U(1) k1, of ctx] ok w unfolding w1 a1 U(6) by blast
  obtain y where y: "load_sem s2 k = Some y" "sdestroyed y = sdestroyed x" "sname y = sname x"
    "slock y = 1" using s2(2) U(5) by (auto simp: sem_op_def)
  have i2: "sems_ok L' s2 (Q(k := q))" "k < sem_count s2"
    using s2(2) k1 by (auto simp: sem_op_def only_sem_def)
  obtain s3 where s3: "upd_sem k (\<lambda>x. x\<lparr>slock := 0\<rparr>) s2 = Some s3" using upd_sem_some [OF y(1)] by blast
  note V = sem_op_upd [OF i2 y(1) _ _ s3, simplified]
  have "postSemaphore M ctx (int k) s = Some (Done True, s3)"
    using D(1) x s1 s2(1) s3 enter_free [OF x(1,3)]
    by (simp add: postSemaphore_def then_run_def leave_region_def)
  moreover have "sem_op L Q s k (apost (killed (kern s)) (abs_sem s Q k)) L' (Q(k := q)) s3"
  proof -
    have "abs_sem s3 (Q(k := q)) k = apost (killed (kern s)) (abs_sem s Q k)"
      using V(3) s2(2) y(1) by (auto simp: sem_op_def abs_sem_def)
    moreover have "\<forall>j < sem_count s. j \<noteq> k \<longrightarrow> abs_sem s3 (Q(k := q)) j = abs_sem s Q j"
      using V(4) s2(2) U(2,4) by (auto simp: sem_op_def only_sem_def)
    moreover have "only_sem k s s3"
      using only_trans [OF only_trans [OF U(2)] V(2)] s2(2) by (simp add: sem_op_def)
    ultimately show ?thesis using V(1,5) x y by (auto simp: sem_op_def)
  qed
  ultimately show ?thesis using s2(3,4) V(6) by (intro exI [of _ s3]) auto
qed

lemma wait_take:
  assumes inv: "sems_ok L s Q" and k: "k < sem_count s"
    and x: "load_sem s k = Some x" "\<not> sdestroyed x" "slock x = 0" "svalue x > 0"
  shows "\<exists>s'. waitSemaphore M ctx (int k) s = Some (Done True, s') \<and>
    sem_op L Q s k (await p (abs_sem s Q k)) L Q s' \<and> kern s' = kern s"
proof -
  note D = sems_okD [OF inv k]
  obtain s1 where s1: "upd_sem k (\<lambda>x. x\<lparr>slock := 1\<rparr>) s = Some s1" using upd_sem_some [OF x(1)] by blast
  note U = sem_op_upd [OF inv k x(1) _ _ s1, simplified]
  have k1: "k < sem_count s1" using U(2) k by (simp add: only_sem_def)
  obtain s2 where s2: "upd_sem k (\<lambda>x. x\<lparr>svalue := svalue x - 1\<rparr>) s1 = Some s2"
    using upd_sem_some [OF U(5)] by blast
  note V = sem_op_upd [OF U(1) k1 U(5) _ _ s2, simplified]
  have k2: "k < sem_count s2" using V(2) k1 by (simp add: only_sem_def)
  obtain s3 where s3: "upd_sem k (\<lambda>x. x\<lparr>slock := 0\<rparr>) s2 = Some s3" using upd_sem_some [OF V(5)] by blast
  note W = sem_op_upd [OF V(1) k2 V(5) _ _ s3, simplified]
  have "waitSemaphore M ctx (int k) s = Some (Done True, s3)"
    using D(1) x s1 s2 s3 U(5) enter_free [OF x(1,3)]
    by (simp add: waitSemaphore_def then_run_def leave_region_def)
  moreover have "abs_sem s3 Q k = await p (abs_sem s Q k)"
  proof -
    have "waiters s2 (Q k) = waiters s (Q k)" using V(3) U(3) by (simp add: abs_sem_def)
    then show ?thesis using W(3) x by (simp add: await_def abs_sem_def)
  qed
  moreover have "\<forall>j < sem_count s. j \<noteq> k \<longrightarrow> abs_sem s3 Q j = abs_sem s Q j"
    using U(2,4) V(2,4) W(4) by (simp add: only_sem_def)
  moreover have "only_sem k s s3" using only_trans [OF only_trans [OF U(2) V(2)] W(2)] .
  ultimately show ?thesis using W(1,5,6) V(6) U(6) x by (auto simp: sem_op_def)
qed

end

lemma sems_ok_mono:
  assumes "sems_ok L s Q" "\<forall>k < sem_count s. set (Q k) \<subseteq> dom L'"
  shows "sems_ok L' s Q"
proof -
  have "(\<Union>j \<in> {..<sem_count s}. set (Q j)) \<subseteq> dom L'" using assms(2) by blast
  then have "set (concat (map Q [0..<sem_count s])) \<subseteq> dom L'"
    unfolding set_concat set_map set_upt atLeast0LessThan image_image by blast
  with assms(1) show ?thesis by (simp add: sems_ok_def)
qed

context semaphores
begin

text \<open>
  A wait on a semaphore whose value is 0: the caller is blocked and another process runs. It is
  in the queue, unless the allocation of its node failed, in which case no post will ever find it.
\<close>

lemma wait_block:
  assumes kinv: "kinv ok L (kern s) ns cs" and cur: "current (kern s) = hd cs"
    and c: "proc (kern s) (hd cs) = Some c" and p: "currentPCB (kern s) = Some p"
    and inv: "sems_ok L s Q" and k: "k < sem_count s"
    and x: "load_sem s k = Some x" "\<not> sdestroyed x" "slock x = 0" "svalue x = 0"
    and apart: "\<forall>j < sem_count s. set (Q j) \<inter> set (owned (kern s) ns) = {}"
  shows "\<exists>s' L' Q' ns' cs'. waitSemaphore M ctx (int k) s = Some (Away, s') \<and>
    kinv ok L' (kern s') ns' cs' \<and>
    proc (kern s') (hd cs) = Some (c\<lparr>rsp := fst ctx, rbp := snd ctx, state := BLOCKED\<rparr>) \<and>
    (sem_op L Q s k (await p (abs_sem s Q k)) L' Q' s' \<or>
     (\<exists>h. mm_malloc M sizeof_PCBNodeSem (kheap (kern s)) = Some (NULL, h)) \<and>
     sem_op L Q s k (abs_sem s Q k) L' Q' s')"
proof -
  note D = sems_okD [OF inv k] and K = kinvD [OF kinv]
  obtain s1 where s1: "upd_sem k (\<lambda>x. x\<lparr>slock := 1\<rparr>) s = Some s1" using upd_sem_some [OF x(1)] by blast
  note U = sem_op_upd [OF inv k x(1) _ _ s1, simplified]
  have k1: "k < sem_count s1" and n1: "sem_count s1 = sem_count s" using U(2) k by (auto simp: only_sem_def)
  have w1: "waiters s1 (Q k) = waiters s (Q k)" using U(3) by (simp add: abs_sem_def)
  have null: "NULL \<notin> dom L" using null_free K(1) by blast
  have ok1: "ok L (kheap (kern s1))" using K(1) U(6) by simp
  define P where "P q s2 L2 y \<longleftrightarrow> fifoQueue M (int k) p s1 = Some (q, s2) \<and>
    dom L \<subseteq> dom L2 \<and> NULL \<notin> dom L2 \<and> ok L2 (kheap (kern s2)) \<and>
    kern s2 = (kern s)\<lparr>kheap := kheap (kern s2)\<rparr> \<and> only_sem k s1 s2 \<and> load_sem s2 k = Some y \<and>
    sdestroyed y = sdestroyed x \<and> sname y = sname x \<and> svalue y = 0" for q s2 L2 y
  have "\<exists>q s2 L2 Q' y. P q s2 L2 y \<and> sems_ok L2 s2 Q' \<and>
    (\<forall>j < sem_count s. set (Q' j) \<inter> set (owned (kern s) ns) = {}) \<and>
    (\<forall>j < sem_count s. j \<noteq> k \<longrightarrow> abs_sem s2 Q' j = abs_sem s Q j) \<and>
    (waiters s2 (Q' k) = waiters s (Q k) @ [p] \<or> waiters s2 (Q' k) = waiters s (Q k) \<and>
      (\<exists>h. mm_malloc M sizeof_PCBNodeSem (kheap (kern s)) = Some (NULL, h)))"
  proof (rule fifoQueue_cases [OF U(1) k1 ok1, of p])
    fix h' assume f: "fifoQueue M (int k) p s1 = Some (False, s1\<lparr>kern := kern s1\<lparr>kheap := h'\<rparr>\<rparr>)"
      "ok L h'" "mm_malloc M sizeof_PCBNodeSem (kheap (kern s1)) = Some (NULL, h')"
    then have "P False (s1\<lparr>kern := kern s1\<lparr>kheap := h'\<rparr>\<rparr>) L (x\<lparr>slock := 1\<rparr>)"
      using U null x(4) by (simp add: P_def sem_op_kern only_sem_def)
    then show ?thesis
      using f(3) U apart w1 n1
      by (intro exI [of _ False] exI [of _ "s1\<lparr>kern := kern s1\<lparr>kheap := h'\<rparr>\<rparr>"] exI [of _ L]
          exI [of _ Q] exI [of _ "x\<lparr>slock := 1\<rparr>"]) (simp add: sem_op_kern)
  next
    fix n h' s2 assume f: "fifoQueue M (int k) p s1 = Some (True, s2)" "n \<notin> dom L"
      "kern s2 = kern s1\<lparr>kheap := h'\<rparr>" "ok (L(n \<mapsto> sizeof_PCBNodeSem)) h'" "only_sem k s1 s2"
      "sems_ok (L(n \<mapsto> sizeof_PCBNodeSem)) s2 (Q(k := Q k @ [n]))"
      "\<forall>j < sem_count s1. j \<noteq> k \<longrightarrow> abs_sem s2 (Q(k := Q k @ [n])) j = abs_sem s1 Q j"
      "\<exists>x t. load_sem s1 k = Some x \<and>
         load_sem s2 k = Some (x\<lparr>pcbNodeHead := hd (Q k @ [n]), pcbNodeTail := t\<rparr>)"
      "waiters s2 (Q k @ [n]) = waiters s1 (Q k) @ [p]"
    obtain t where t: "load_sem s2 k = Some (x\<lparr>slock := 1, pcbNodeHead := hd (Q k @ [n]), pcbNodeTail := t\<rparr>)"
      using f(8) U(5) by auto
    have "P True s2 (L(n \<mapsto> sizeof_PCBNodeSem)) (x\<lparr>slock := 1, pcbNodeHead := hd (Q k @ [n]), pcbNodeTail := t\<rparr>)"
      using f(1-5) t null x(4) U(6) null_free [OF f(4)] by (auto simp: P_def)
    moreover have "n \<notin> set (owned (kern s) ns)" using K(5) f(2) by blast
    then have "\<forall>j < sem_count s. set ((Q(k := Q k @ [n])) j) \<inter> set (owned (kern s) ns) = {}"
      using apart by auto
    ultimately show ?thesis
      using f(6,7,9) U(4) w1 n1
      by (intro exI [of _ True] exI [of _ s2] exI [of _ "L(n \<mapsto> sizeof_PCBNodeSem)"]
          exI [of _ "Q(k := Q k @ [n])"] exI [of _ "x\<lparr>slock := 1, pcbNodeHead := hd (Q k @ [n]), pcbNodeTail := t\<rparr>"]) simp
  qed
  then obtain q s2 L2 Q' y where q: "fifoQueue M (int k) p s1 = Some (q, s2)" "dom L \<subseteq> dom L2"
    "NULL \<notin> dom L2" "ok L2 (kheap (kern s2))" "kern s2 = (kern s)\<lparr>kheap := kheap (kern s2)\<rparr>"
    "only_sem k s1 s2" "load_sem s2 k = Some y" "sdestroyed y = sdestroyed x" "sname y = sname x"
    "svalue y = 0" "sems_ok L2 s2 Q'"
    "\<forall>j < sem_count s. set (Q' j) \<inter> set (owned (kern s) ns) = {}"
    "\<forall>j < sem_count s. j \<noteq> k \<longrightarrow> abs_sem s2 Q' j = abs_sem s Q j"
    "waiters s2 (Q' k) = waiters s (Q k) @ [p] \<or> waiters s2 (Q' k) = waiters s (Q k) \<and>
      (\<exists>h. mm_malloc M sizeof_PCBNodeSem (kheap (kern s)) = Some (NULL, h))"
    unfolding P_def by blast
  have k2: "k < sem_count s2" "sem_count s2 = sem_count s" using q(6) k1 n1 by (auto simp: only_sem_def)
  obtain s3 where s3: "upd_sem k (\<lambda>x. x\<lparr>slock := 0\<rparr>) s2 = Some s3" using upd_sem_some [OF q(7)] by blast
  note W = sem_op_upd [OF q(11) k2(1) q(7) _ _ s3, simplified]
  let ?K = "(kern s)\<lparr>kheap := kheap (kern s2)\<rparr>"
  have K3: "kern s3 = ?K" using W(6) q(5) by simp
  have kinv3: "kinv ok L2 ?K ns cs" by (rule kinv_heap [OF kinv q(4,2,3)])
  have own: "owned ?K ns = owned (kern s) ns"
  proof -
    have "owns ?K = owns (kern s)" by (auto simp: owns_def fun_eq_iff split: option.splits)
    then show ?thesis by (simp add: owned_def)
  qed
  have c3: "current ?K = hd cs" "proc ?K (current ?K) = Some c" using cur c by (simp_all add: proc_def)
  obtain K' gone cs' where K': "blockCurrentProcess M ctx ?K = Some (Away, K')" "set gone \<subseteq> set cs"
    "kinv ok (L2 |` (- blocks_of ?K gone)) K' (removing gone ns) cs'"
    "proc K' (current ?K) = Some (c\<lparr>rsp := fst ctx, rbp := snd ctx, state := BLOCKED\<rparr>)"
    by (rule block_current [OF kinv3 c3, of ctx]) blast
  let ?s' = "s3\<lparr>kern := K'\<rparr>" and ?L' = "L2 |` (- blocks_of ?K gone)"
  have run: "waitSemaphore M ctx (int k) s = Some (Away, ?s')"
    using D(1) x U(5,6) s1 q(1) s3 p K'(1) K3 enter_free [OF x(1,3)]
    by (simp add: waitSemaphore_def then_run_def leave_region_def in_kern_def)
  have bl: "blocks_of ?K gone \<subseteq> set (owned (kern s) ns)" using blocks_owned [OF kinv3 K'(2)] own by simp
  have "set (Q' j) \<subseteq> dom ?L'" if "j < sem_count s3" for j
  proof -
    have j: "j < sem_count s2" "j < sem_count s" using that W(2) k2 by (auto simp: only_sem_def)
    have "set (Q' j) \<subseteq> dom L2" by (rule sems_okD(4) [OF q(11) j(1)])
    moreover have "set (Q' j) \<inter> blocks_of ?K gone = {}" using q(12) j(2) bl by blast
    ultimately show ?thesis unfolding dom_restrict by blast
  qed
  then have ok': "sems_ok ?L' ?s' Q'" using sems_ok_mono [OF W(1)] by (simp add: sem_op_kern)
  have only': "only_sem k s ?s'"
    using only_trans [OF only_trans [OF U(2) q(6)] W(2)] by (simp add: sem_op_kern)
  have others: "\<forall>j < sem_count s. j \<noteq> k \<longrightarrow> abs_sem ?s' Q' j = abs_sem s Q j"
    using W(4) q(13) k2 by (simp add: sem_op_kern)
  have op: "sem_op L Q s k vq ?L' Q' ?s'" if "vq = (0, waiters s2 (Q' k))" for vq
    using ok' only' others that W(3,5) x q(8-10) by (auto simp: sem_op_def sem_op_kern)
  have "sem_op L Q s k (await p (abs_sem s Q k)) ?L' Q' ?s' \<or>
     (\<exists>h. mm_malloc M sizeof_PCBNodeSem (kheap (kern s)) = Some (NULL, h)) \<and>
     sem_op L Q s k (abs_sem s Q k) ?L' Q' ?s'"
    using q(14) op x by (auto simp: await_def abs_sem_def)
  moreover have "kern ?s' = K'" by simp
  ultimately show ?thesis
    using run K'(3) K'(4) [unfolded c3(1)]
    by (intro exI [of _ ?s'] exI [of _ ?L'] exI [of _ Q'] exI [of _ "removing gone ns"]
        exI [of _ cs'] conjI) auto
qed

end

section \<open>Mutual exclusion\<close>

text \<open>What every call on semaphore \<open>k\<close> relies on: sound queues, a free lock, a running caller,
  and the processes in the queue blocked or killed meanwhile.\<close>

definition sem_ready :: "nat \<Rightarrow> (addr \<rightharpoonup> u64) \<Rightarrow> (nat \<Rightarrow> addr list) \<Rightarrow> heap sems \<Rightarrow> bool" where
  "sem_ready k L Q s \<longleftrightarrow> sems_ok L s Q \<and> k < sem_count s \<and>
     (\<exists>x. load_sem s k = Some x \<and> \<not> sdestroyed x \<and> slock x = 0) \<and>
     (\<exists>ns cs c. kinv freelist_ok L (kern s) ns cs \<and> current (kern s) = hd cs \<and>
        proc (kern s) (hd cs) = Some c \<and> state c = RUNNING \<and>
        (\<forall>j < sem_count s. set (Q j) \<inter> set (owned (kern s) ns) = {})) \<and>
     distinct (waiters s (Q k)) \<and> NULL \<notin> set (waiters s (Q k)) \<and>
     (\<forall>p \<in> set (waiters s (Q k)).
        in_state BLOCKED (kern s) p \<or> killed (kern s) p \<and> can_reap (kern s) p)"

text \<open>
  The calls of processes on semaphore \<open>k\<close>, and anything else the kernel does to its processes in
  between. The second component are the processes inside: those whose \<open>wait\<close> went through and
  that have not posted since.
\<close>

inductive sem_step :: "nat \<Rightarrow> heap sems \<times> addr set \<Rightarrow> heap sems \<times> addr set \<Rightarrow> bool" for k where
  enters: "sem_ready k L Q s \<Longrightarrow> currentPCB (kern s) = Some p \<Longrightarrow> p \<notin> C \<Longrightarrow>
    waitSemaphore freelist_mm ctx (int k) s = Some (Done True, s') \<Longrightarrow>
    sem_step k (s, C) (s', insert p C)"
| sleeps: "sem_ready k L Q s \<Longrightarrow> currentPCB (kern s) = Some p \<Longrightarrow> p \<notin> C \<Longrightarrow>
    waitSemaphore freelist_mm ctx (int k) s = Some (Away, s') \<Longrightarrow> sem_step k (s, C) (s', C)"
| leaves: "sem_ready k L Q s \<Longrightarrow> currentPCB (kern s) = Some p \<Longrightarrow> p \<in> C \<Longrightarrow>
    postSemaphore freelist_mm ctx (int k) s = Some (Done True, s') \<Longrightarrow>
    sem_step k (s, C)
      (s', C - {p} \<union> set (take 1 (dropWhile (killed (kern s)) (waiters s (Q k)))))"
| other: "sem_step k (s, C) (s\<lparr>kern := K\<rparr>, C)"

definition inside_inv :: "nat \<Rightarrow> nat \<Rightarrow> heap sems \<times> addr set \<Rightarrow> bool" where
  "inside_inv n k = (\<lambda>(s, C). finite C \<and>
     (\<exists>x. load_sem s k = Some x \<and> unat (svalue x) + card C = n) \<and>
     (\<forall>L Q. sems_ok L s Q \<longrightarrow> k < sem_count s \<longrightarrow> set (waiters s (Q k)) \<inter> C = {}))"

lemma qseg_unique: "qseg N a ns \<Longrightarrow> qseg N a ms \<Longrightarrow> ns = ms"
proof (induction ns arbitrary: a ms)
  case Nil
  then show ?case by (cases ms) auto
next
  case (Cons n ns)
  then show ?case by (cases ms) auto
qed

lemma queue_unique:
  "sems_ok L s Q \<Longrightarrow> sems_ok L' s Q' \<Longrightarrow> k < sem_count s \<Longrightarrow> Q k = Q' k"
  using sems_okD(2) [of L s Q k] sems_okD(2) [of L' s Q' k] qseg_unique
  by (fastforce simp: sem_queue_def)

text \<open>The invariant follows from the new abstract value.\<close>

lemma inside_invI:
  assumes "sem_op L Q s k (v, ws) L' Q' s'" "finite C" "unat v + card C = n" "set ws \<inter> C = {}"
  shows "inside_inv n k (s', C)"
proof -
  obtain y where y: "load_sem s' k = Some y" using assms(1) by (auto simp: sem_op_def)
  have a: "abs_sem s' Q' k = (v, ws)" "sems_ok L' s' Q'" using assms(1) by (auto simp: sem_op_def)
  have "set (waiters s' (R k)) \<inter> C = {}" if "sems_ok L1 s' R" "k < sem_count s'" for L1 R
    using queue_unique [OF that(1) a(2) that(2)] a(1) assms(4) by (simp add: abs_sem_def)
  then show ?thesis using assms(2,3) y a(1) by (auto simp: inside_inv_def abs_sem_def)
qed

interpretation kernel_sems: semaphores freelist_mm freelist_ok ..

lemma sem_ready_wait:
  assumes r: "sem_ready k L Q s" and p: "currentPCB (kern s) = Some p"
    and x: "load_sem s k = Some x"
  shows "svalue x > 0 \<Longrightarrow> \<exists>s'. waitSemaphore freelist_mm ctx (int k) s = Some (Done True, s') \<and>
      sem_op L Q s k (svalue x - 1, waiters s (Q k)) L Q s'"
    "svalue x = 0 \<Longrightarrow> \<exists>s' L' Q' w. waitSemaphore freelist_mm ctx (int k) s = Some (Away, s') \<and>
      sem_op L Q s k (0, w) L' Q' s' \<and> set w \<subseteq> insert p (set (waiters s (Q k)))"
proof -
  have R: "sems_ok L s Q" "k < sem_count s" "\<not> sdestroyed x" "slock x = 0"
    using r x by (auto simp: sem_ready_def)
  show "\<exists>s'. waitSemaphore freelist_mm ctx (int k) s = Some (Done True, s') \<and>
      sem_op L Q s k (svalue x - 1, waiters s (Q k)) L Q s'" if v: "svalue x > 0"
    using kernel_sems.wait_take [OF R(1,2) x R(3,4) v, of ctx p] v x
    by (simp add: await_def abs_sem_def) blast
  show "\<exists>s' L' Q' w. waitSemaphore freelist_mm ctx (int k) s = Some (Away, s') \<and>
      sem_op L Q s k (0, w) L' Q' s' \<and> set w \<subseteq> insert p (set (waiters s (Q k)))"
    if v: "svalue x = 0"
  proof -
    obtain ns cs c where K: "kinv freelist_ok L (kern s) ns cs" "current (kern s) = hd cs"
      "proc (kern s) (hd cs) = Some c" "\<forall>j < sem_count s. set (Q j) \<inter> set (owned (kern s) ns) = {}"
      using r by (auto simp: sem_ready_def)
    obtain s' L' Q' where s': "waitSemaphore freelist_mm ctx (int k) s = Some (Away, s')"
      "sem_op L Q s k (await p (abs_sem s Q k)) L' Q' s' \<or> sem_op L Q s k (abs_sem s Q k) L' Q' s'"
      using kernel_sems.wait_block [OF K(1-3) p R(1,2) x R(3,4) v K(4), of ctx] by blast
    from s'(2) have "sem_op L Q s k (0, waiters s (Q k) @ [p]) L' Q' s' \<or>
        sem_op L Q s k (0, waiters s (Q k)) L' Q' s'"
      using x v by (simp add: await_def abs_sem_def)
    with s'(1) show ?thesis by fastforce
  qed
qed

lemma inside_preserved [preserves]:
  assumes "sem_step k a b" "inside_inv n k a" "n < 2 ^ 32"
  shows "inside_inv n k b"
  using assms(1,2)
proof (cases rule: sem_step.cases)
  case (enters L Q s p C ctx s')
  obtain x where x: "load_sem s k = Some x" "unat (svalue x) + card C = n" "finite C"
    "set (waiters s (Q k)) \<inter> C = {}"
    using assms(2) enters(1,3) by (auto simp: inside_inv_def sem_ready_def)
  note W = sem_ready_wait [OF enters(3,4) x(1), of ctx]
  have v: "svalue x > 0" using W(2) enters(6) by (cases "svalue x = 0") (auto simp: word_gt_0)
  with W(1) enters(6) have op: "sem_op L Q s k (svalue x - 1, waiters s (Q k)) L Q s'" by auto
  have "p \<notin> set (waiters s (Q k))"
    using enters(3,4) by (auto simp: sem_ready_def in_state_def proc_def currentPCB_def split: bind_splits)
  moreover have "unat (svalue x - 1) = unat (svalue x) - 1" "0 < unat (svalue x)"
    using v by (simp_all add: word_gt_0 unat_minus_one unat_gt_0)
  ultimately show ?thesis
    unfolding enters(2) by (intro inside_invI [OF op]) (use x enters(5) in auto)
next
  case (sleeps L Q s p C ctx s')
  obtain x where x: "load_sem s k = Some x" "unat (svalue x) + card C = n" "finite C"
    "set (waiters s (Q k)) \<inter> C = {}"
    using assms(2) sleeps(1,3) by (auto simp: inside_inv_def sem_ready_def)
  note W = sem_ready_wait [OF sleeps(3,4) x(1), of ctx]
  have v: "svalue x = 0" using W(1) sleeps(6) by (cases "svalue x = 0") (auto simp: word_gt_0)
  then obtain L' Q' w where op: "sem_op L Q s k (0, w) L' Q' s'"
    "set w \<subseteq> insert p (set (waiters s (Q k)))"
    using W(2) sleeps(6) by auto
  show ?thesis
    unfolding sleeps(2) by (intro inside_invI [OF op(1)]) (use x v op(2) sleeps(5) in auto)
next
  case (leaves L Q s p C ctx s')
  obtain x where x: "load_sem s k = Some x" "unat (svalue x) + card C = n" "finite C"
    "set (waiters s (Q k)) \<inter> C = {}"
    using assms(2) leaves(1,3) by (auto simp: inside_inv_def sem_ready_def)
  have R: "sems_ok L s Q" "k < sem_count s" "\<not> sdestroyed x" "slock x = 0"
    "freelist_ok L (kheap (kern s))" "distinct (waiters s (Q k))" "NULL \<notin> set (waiters s (Q k))"
    "\<forall>p \<in> set (waiters s (Q k)).
       in_state BLOCKED (kern s) p \<or> killed (kern s) p \<and> can_reap (kern s) p"
    using leaves(3) x(1) by (auto simp: sem_ready_def kinv_def)
  let ?d = "dropWhile (killed (kern s)) (waiters s (Q k))"
  obtain L' q where op: "sem_op L Q s k (apost (killed (kern s)) (abs_sem s Q k)) L' (Q(k := q)) s'"
    using kernel_sems.post_ok [OF R(1,2,5) x(1) R(3,4,6-8), of ctx] leaves(6) by auto
  have sub: "set ?d \<subseteq> set (waiters s (Q k))" using set_dropWhileD by fastforce
  have dist: "distinct ?d" using R(6) by simp
  have p: "0 < card C" using leaves(5) x(3) card_gt_0_iff by blast
  show ?thesis
  proof (cases ?d)
    case Nil
    then have "apost (killed (kern s)) (abs_sem s Q k) = (svalue x + 1, [])"
      using x(1) apost_drop(1) by (simp add: abs_sem_def del: dropWhile_eq_Nil_conv)
    with op have "sem_op L Q s k (svalue x + 1, []) L' (Q(k := q)) s'" by simp
    moreover have "unat (svalue x + 1) = unat (svalue x) + 1"
      using x(2) p assms(3) by (simp add: unat_word_ariths)
    ultimately show ?thesis
      unfolding leaves(2) Nil by (intro inside_invI) (use x p leaves(5) in auto)
  next
    case (Cons r rs)
    then have "apost (killed (kern s)) (abs_sem s Q k) = (svalue x, rs)"
      using x(1) apost_drop(2) by (simp add: abs_sem_def)
    with op have "sem_op L Q s k (svalue x, rs) L' (Q(k := q)) s'" by simp
    moreover have "r \<notin> C" "r \<notin> set rs" "set rs \<inter> C = {}" using sub dist x(4) Cons by auto
    moreover have "card (insert r (C - {p})) = card C"
      using x(3) leaves(5) calculation(2) p by (simp add: card_insert_if)
    ultimately show ?thesis
      unfolding leaves(2) Cons by (intro inside_invI) (use x in auto)
  qed
next
  case (other s C K)
  then show ?thesis using assms(2) by (simp add: inside_inv_def sem_op_kern)
qed

section \<open>The properties\<close>

text \<open>A state with one semaphore, of value \<open>v\<close>, in whose queue process 1 waits when \<open>q\<close> is set.\<close>

definition demo_sem :: "u32 \<Rightarrow> bool \<Rightarrow> Semaphore" where
  "demo_sem v q = \<lparr>svalue = v, slock = 0, sdestroyed = False, pcbNodeHead = (if q then 4528 else 0),
     pcbNodeTail = (if q then 4528 else 0), sname = [0]\<rparr>"

definition demo_sems :: "State \<Rightarrow> u32 \<Rightarrow> bool \<Rightarrow> heap \<Rightarrow> heap sems" where
  "demo_sems st v q h = \<lparr>kern = demo_kernel st [] h,
     semArray = Some \<lparr>self = 8, array = 48, elementSize = 88, capacity = 1, len = 1,
       freeEleFn = None, slots = [Some (demo_sem v q)]\<rparr>,
     freedPositions = None,
     semNodes = (if q then [4528 \<mapsto> \<lparr>semPcb = 4464, semNext = 0\<rparr>] else Map.empty)\<rparr>"

lemma demo_sems_simps:
  "kern (demo_sems st v q h) = demo_kernel st [] h" "sem_count (demo_sems st v q h) = 1"
  "load_sem (demo_sems st v q h) 0 = Some (demo_sem v q)"
  "waiters (demo_sems st v q h) (if q then [4528] else []) = (if q then [4464] else [])"
  by (simp_all add: demo_sems_def sem_count_def load_sem_def slot_def waiters_def)

lemma demo_sems_ok: "sems_ok (map_of demo_blocks) (demo_sems st v q h) (\<lambda>_. if q then [4528] else [])"
proof -
  have "4528 \<in> dom (map_of demo_blocks)" by (simp add: demo_dom)
  moreover have "sem_queue (demo_sems st v q h) (demo_sem v q) (if q then [4528] else [])"
    by (simp add: sem_queue_def demo_sem_def demo_sems_def)
  moreover have "\<exists>c. semArray (demo_sems st v q h) = Some c \<and> arr_shape c"
    by (simp add: demo_sems_def arr_shape_def)
  ultimately show ?thesis by (auto simp: sems_ok_def demo_sems_simps)
qed

text \<open>
  \<open>waitSemaphore\<close> on a semaphore whose value is positive and whose lock is free takes one
  and returns true: the value is one less, the queue, the other semaphores and all processes
  are as before and the lock is free again.
\<close>

theorem wait_takes:
  assumes "sems_ok L s Q" "k < sem_count s" "load_sem s k = Some x"
    and "\<not> sdestroyed x" "slock x = 0" "svalue x > 0"
  shows "\<exists>s'. waitSemaphore freelist_mm ctx (int k) s = Some (Done True, s') \<and>
    sems_ok L s' Q \<and> abs_sem s' Q k = (svalue x - 1, waiters s (Q k)) \<and>
    (\<forall>j < sem_count s. j \<noteq> k \<longrightarrow> abs_sem s' Q j = abs_sem s Q j) \<and>
    map_option slock (load_sem s' k) = Some 0 \<and> kern s' = kern s"
  using kernel_sems.wait_take [OF assms, of ctx undefined] assms(3,5,6)
  by (auto simp: sem_op_def await_def abs_sem_def)

theorem wait_takes_witness:
  "\<exists>h s'. waitSemaphore freelist_mm (0, 0) 0 (demo_sems READY 3 False h) = Some (Done True, s') \<and>
     abs_sem s' (\<lambda>_. []) 0 = (2, []) \<and> kern s' = demo_kernel READY [] h"
proof -
  obtain h where h: "freelist_ok (map_of demo_blocks) h" using demo_heap_blocks by blast
  have "\<not> sdestroyed (demo_sem 3 False)" "slock (demo_sem 3 False) = 0" "svalue (demo_sem 3 False) > 0"
    by (simp_all add: demo_sem_def)
  from wait_takes [OF demo_sems_ok [of READY 3 False h] _ demo_sems_simps(3) this, of "(0, 0)"]
  show ?thesis
    using demo_sems_simps(4) [of READY 3 False h] by (auto simp: demo_sems_simps demo_sem_def)
qed

text \<open>
  \<open>waitSemaphore\<close> of a process on a semaphore whose value is 0 blocks the process and
  switches to another one; the process is then last in the queue of the semaphore, the lock is
  free and the other semaphores are as before. The only exception is an allocation that fails:
  the process is blocked all the same, but in no queue.
\<close>

theorem wait_blocks:
  assumes "kinv freelist_ok L (kern s) ns cs" "current (kern s) = hd cs"
    and "proc (kern s) (hd cs) = Some c" "currentPCB (kern s) = Some p"
    and "sems_ok L s Q" "k < sem_count s" "load_sem s k = Some x"
    and "\<not> sdestroyed x" "slock x = 0" "svalue x = 0"
    and "\<forall>j < sem_count s. set (Q j) \<inter> set (owned (kern s) ns) = {}"
  shows "\<exists>s' L' Q' ns' cs'. waitSemaphore freelist_mm ctx (int k) s = Some (Away, s') \<and>
    kinv freelist_ok L' (kern s') ns' cs' \<and> sems_ok L' s' Q' \<and>
    proc (kern s') (hd cs) = Some (c\<lparr>rsp := fst ctx, rbp := snd ctx, state := BLOCKED\<rparr>) \<and>
    (abs_sem s' Q' k = (0, waiters s (Q k) @ [p]) \<or> abs_sem s' Q' k = (0, waiters s (Q k)) \<and>
      (\<exists>h. mm_malloc freelist_mm sizeof_PCBNodeSem (kheap (kern s)) = Some (NULL, h))) \<and>
    (\<forall>j < sem_count s. j \<noteq> k \<longrightarrow> abs_sem s' Q' j = abs_sem s Q j) \<and>
    map_option slock (load_sem s' k) = Some 0"
proof -
  obtain s' L' Q' ns' cs' where s': "waitSemaphore freelist_mm ctx (int k) s = Some (Away, s')"
    "kinv freelist_ok L' (kern s') ns' cs'"
    "proc (kern s') (hd cs) = Some (c\<lparr>rsp := fst ctx, rbp := snd ctx, state := BLOCKED\<rparr>)"
    "sem_op L Q s k (await p (abs_sem s Q k)) L' Q' s' \<or>
     (\<exists>h. mm_malloc freelist_mm sizeof_PCBNodeSem (kheap (kern s)) = Some (NULL, h)) \<and>
     sem_op L Q s k (abs_sem s Q k) L' Q' s'"
    using kernel_sems.wait_block [OF assms, of ctx] by blast
  have a: "abs_sem s Q k = (0, waiters s (Q k))" "await p (0, waiters s (Q k)) = (0, waiters s (Q k) @ [p])"
    using assms(7,10) by (simp_all add: abs_sem_def await_def)
  have "sems_ok L' s' Q' \<and> (\<forall>j < sem_count s. j \<noteq> k \<longrightarrow> abs_sem s' Q' j = abs_sem s Q j) \<and>
      map_option slock (load_sem s' k) = Some 0"
    using s'(4) assms(7,9) by (auto simp: sem_op_def)
  moreover have "abs_sem s' Q' k = (0, waiters s (Q k) @ [p]) \<or> abs_sem s' Q' k = (0, waiters s (Q k)) \<and>
      (\<exists>h. mm_malloc freelist_mm sizeof_PCBNodeSem (kheap (kern s)) = Some (NULL, h))"
    using s'(4) unfolding a by (auto simp: sem_op_def)
  ultimately show ?thesis using s'(1-3) by blast
qed

theorem wait_blocks_witness:
  "\<exists>h s' L' Q'. waitSemaphore freelist_mm (7, 9) 0 (demo_sems READY 0 True h) = Some (Away, s') \<and>
     sems_ok L' s' Q' \<and> abs_sem s' Q' 0 \<in> {(0, [4464, 4304]), (0, [4464])} \<and>
     map_option state (proc (kern s') 4336) = Some BLOCKED"
proof -
  obtain h where h: "freelist_ok (map_of demo_blocks) h" using demo_heap_blocks by blast
  let ?s = "demo_sems READY 0 True h"
  have k: "kinv freelist_ok (map_of demo_blocks) (kern ?s) [4336, 4496] [4336, 4496]"
    using demo_kinv [OF h] by (simp add: demo_sems_simps)
  have c: "current (kern ?s) = hd [4336, 4496]" "currentPCB (kern ?s) = Some 4304"
    "proc (kern ?s) (hd [4336, 4496]) = Some (demo_pcb 0 RUNNING 4272 4208 4240 [])"
    by (simp_all add: demo_sems_simps demo_proc) (simp_all add: demo_kernel_def currentPCB_def)
  have x: "\<not> sdestroyed (demo_sem 0 True)" "slock (demo_sem 0 True) = 0" "svalue (demo_sem 0 True) = 0"
    by (simp_all add: demo_sem_def)
  have apart: "\<forall>j < sem_count ?s. set (if True then [4528] else []) \<inter> set (owned (kern ?s) [4336, 4496]) = {}"
    by (simp add: demo_sems_simps demo_owned)
  have w: "waiters ?s [4528] = [4464]" using demo_sems_simps(4) [of READY 0 True h] by simp
  obtain s' L' Q' where s': "waitSemaphore freelist_mm (7, 9) 0 ?s = Some (Away, s')" "sems_ok L' s' Q'"
    "proc (kern s') 4336 = Some ((demo_pcb 0 RUNNING 4272 4208 4240 [])\<lparr>rsp := 7, rbp := 9, state := BLOCKED\<rparr>)"
    "abs_sem s' Q' 0 = (0, [4464, 4304]) \<or> abs_sem s' Q' 0 = (0, [4464])"
    using wait_blocks [OF k c(1,3,2) demo_sems_ok _ demo_sems_simps(3) x apart, of "(7, 9)"] w
    by (auto simp: demo_sems_simps)
  then show ?thesis by (intro exI [of _ h] exI [of _ s'] exI [of _ L'] exI [of _ Q']) auto
qed

text \<open>
  C14: \<open>postSemaphore\<close> on a semaphore whose lock is free returns true: the processes at the
  front of the queue that were killed while they waited are ended, the first other one becomes
  ready and leaves the queue with the value unchanged, and only an empty queue makes the value
  one larger. No other process and no other semaphore changes, and the lock is free again.
\<close>

theorem post_hands_over:
  assumes "sems_ok L s Q" "k < sem_count s" "freelist_ok L (kheap (kern s))"
    and "load_sem s k = Some x" "\<not> sdestroyed x" "slock x = 0"
    and "distinct (waiters s (Q k))" "NULL \<notin> set (waiters s (Q k))"
    and "\<forall>p \<in> set (waiters s (Q k)).
      in_state BLOCKED (kern s) p \<or> killed (kern s) p \<and> can_reap (kern s) p"
  shows "\<exists>s' L' Q'. postSemaphore freelist_mm ctx (int k) s = Some (Done True, s') \<and>
    sems_ok L' s' Q' \<and> freelist_ok L' (kheap (kern s')) \<and>
    abs_sem s' Q' k = apost (killed (kern s)) (svalue x, waiters s (Q k)) \<and>
    (\<forall>j < sem_count s. j \<noteq> k \<longrightarrow> abs_sem s' Q' j = abs_sem s Q j) \<and>
    map_option slock (load_sem s' k) = Some 0 \<and>
    pcbs (kern s') = after_post (kern s) (waiters s (Q k))"
proof -
  obtain s' L' q h' where "postSemaphore freelist_mm ctx (int k) s = Some (Done True, s')"
    "sem_op L Q s k (apost (killed (kern s)) (abs_sem s Q k)) L' (Q(k := q)) s'"
    "freelist_ok L' (kheap (kern s'))"
    "kern s' = (kern s)\<lparr>kheap := h', pcbs := after_post (kern s) (waiters s (Q k))\<rparr>"
    using kernel_sems.post_ok [OF assms, of ctx] by blast
  then show ?thesis using assms(4,6)
    by (intro exI [of _ s'] exI [of _ L'] exI [of _ "Q(k := q)"]) (auto simp: sem_op_def abs_sem_def)
qed

theorem post_hands_over_witness:
  "\<exists>h s' L' Q'. postSemaphore freelist_mm (7, 9) 0 (demo_sems BLOCKED 0 True h) = Some (Done True, s') \<and>
     sems_ok L' s' Q' \<and> abs_sem s' Q' 0 = (0, []) \<and> in_state READY (kern s') 4464"
proof -
  obtain h where h: "freelist_ok (map_of demo_blocks) h" using demo_heap_blocks by blast
  let ?s = "demo_sems BLOCKED 0 True h"
  have ok: "freelist_ok (map_of demo_blocks) (kheap (kern ?s))"
    using h by (simp add: demo_sems_simps demo_kernel_def)
  have w: "waiters ?s [4528] = [4464]" using demo_sems_simps(4) [of BLOCKED 0 True h] by simp
  have b: "pcbs (kern ?s) 4464 = Some (demo_pcb 1 BLOCKED 4432 4368 4400 [])"
    by (simp add: demo_sems_simps demo_kernel_def)
  then have st: "in_state BLOCKED (kern ?s) 4464" by (simp add: in_state_def demo_pcb_def)
  have nk: "\<not> killed (kern ?s) 4464" using b by (simp add: in_state_def demo_pcb_def)
  obtain s' L' Q' where s': "postSemaphore freelist_mm (7, 9) 0 ?s = Some (Done True, s')"
    "sems_ok L' s' Q'" "abs_sem s' Q' 0 = apost (killed (kern ?s)) (0, [4464])"
    "pcbs (kern s') = after_post (kern ?s) [4464]"
    using post_hands_over [OF demo_sems_ok _ ok demo_sems_simps(3), of "(7, 9)"] w st
    by (auto simp: demo_sems_simps demo_sem_def)
  show ?thesis
    by (intro exI [of _ h] exI [of _ s'] exI [of _ L'] exI [of _ Q'])
      (use s' nk in \<open>simp add: apost_Cons\<close>,
        simp add: s'(4) after_post_simps(2) [OF st b] in_state_def)
qed



end
