(* ===== verification/PipeProps.thy ===== *)
theory PipeProps
  imports Pipes SemProps
begin

text \<open>
  Correctness of the pipes: the ring buffer of a pipe stands for the list of the bytes that were
  written and not read yet (\<open>ring_rep\<close>), its two counting semaphores count the bytes and the
  free places, and reading and writing are those of a first-in first-out queue.
\<close>

section \<open>The ring buffer as a list\<close>

definition ring_rep :: "Pipe \<Rightarrow> byte list \<Rightarrow> bool" where
  "ring_rep p q \<longleftrightarrow> length (buffer p) = BUFFER_SIZE \<and> 0 \<le> readIdx p \<and> readIdx p < int BUFFER_SIZE \<and>
     length q \<le> BUFFER_SIZE \<and> writeIdx p = (readIdx p + int (length q)) mod int BUFFER_SIZE \<and>
     (\<forall>i < length q. buffer p ! nat ((readIdx p + int i) mod int BUFFER_SIZE) = Some (q ! i))"

lemma ring_slot_inj:
  fixes r :: int
  assumes "0 \<le> r" "r < int n" "i < n" "j < n" "(r + int i) mod int n = (r + int j) mod int n"
  shows "i = j"
proof -
  have "int n dvd int i - int j" using assms(5) by (simp add: mod_eq_dvd_iff)
  then show ?thesis using assms(3,4) zdvd_imp_le [of "int n" "int i - int j"]
      zdvd_imp_le [of "int n" "int j - int i"]
    by (cases i j rule: linorder_cases) (auto simp: dvd_diff_commute)
qed

lemma put_byte_ring:
  assumes p: "ring_rep p q" and room: "length q < BUFFER_SIZE"
  shows "\<exists>p'. put_byte c p = Some p' \<and> ring_rep p' (q @ [c]) \<and> mutex p' = mutex p \<and>
    emptyCountSem p' = emptyCountSem p \<and> writtenCountSem p' = writtenCountSem p \<and>
    pdestroyed p' = pdestroyed p"
proof -
  let ?N = "int BUFFER_SIZE" and ?w = "writeIdx p" and ?r = "readIdx p"
  have N: "0 < ?N" by (simp add: BUFFER_SIZE_def)
  have w: "0 \<le> ?w" "?w < ?N" "nat ?w < length (buffer p)"
    using p N by (auto simp: ring_rep_def nat_less_iff)
  let ?p = "p\<lparr>buffer := (buffer p)[nat ?w := Some c], writeIdx := (?w + 1) mod ?N\<rparr>"
  have "ring_rep ?p (q @ [c])"
  proof -
    have "?w = (?r + int (length q)) mod ?N" using p by (simp add: ring_rep_def)
    then have "(?w + 1) mod ?N = (?r + int (length q) + 1) mod ?N" by (simp only: mod_add_left_eq)
    then have "(?w + 1) mod ?N = (?r + int (length (q @ [c]))) mod ?N" by (simp add: ac_simps)
    moreover have "(buffer p)[nat ?w := Some c] ! nat ((?r + int i) mod ?N) = Some ((q @ [c]) ! i)"
      if i: "i < length (q @ [c])" for i
    proof (cases "i = length q")
      case True
      then show ?thesis using p w by (simp add: ring_rep_def)
    next
      case False
      with i have lt: "i < length q" by simp
      have "(?r + int i) mod ?N \<noteq> ?w"
        using ring_slot_inj [of ?r BUFFER_SIZE i "length q"] p lt room by (auto simp: ring_rep_def)
      then have "nat ((?r + int i) mod ?N) \<noteq> nat ?w"
        using w N by (simp add: nat_eq_iff2 eq_nat_nat_iff)
      then show ?thesis using p lt by (simp add: ring_rep_def nth_append)
    qed
    ultimately show ?thesis using p room by (simp add: ring_rep_def)
  qed
  then show ?thesis using w by (simp add: put_byte_def)
qed

lemma take_byte_ring:
  assumes p: "ring_rep p (c # q)"
  shows "\<exists>p'. take_byte p = Some (c, p', q = []) \<and> ring_rep p' q \<and> mutex p' = mutex p \<and>
    emptyCountSem p' = emptyCountSem p \<and> writtenCountSem p' = writtenCountSem p \<and>
    pdestroyed p' = pdestroyed p"
proof -
  let ?N = "int BUFFER_SIZE" and ?r = "readIdx p"
  have N: "0 < ?N" by (simp add: BUFFER_SIZE_def)
  have r: "0 \<le> ?r" "?r < ?N" "nat ?r < length (buffer p)" using p by (auto simp: ring_rep_def nat_less_iff)
  have "buffer p ! nat ((?r + int 0) mod ?N) = Some ((c # q) ! 0)"
    using p unfolding ring_rep_def by blast
  then have first: "buffer p ! nat ?r = Some c" using r by simp
  let ?p = "p\<lparr>readIdx := (?r + 1) mod ?N\<rparr>"
  have "writeIdx p = (?r + 1 + int (length q)) mod ?N" using p by (simp add: ring_rep_def ac_simps)
  then have w: "writeIdx p = ((?r + 1) mod ?N + int (length q)) mod ?N" by (simp only: mod_add_left_eq)
  have "ring_rep ?p q"
  proof -
    have "buffer p ! nat (((?r + 1) mod ?N + int i) mod ?N) = Some (q ! i)" if "i < length q" for i
    proof -
      have "buffer p ! nat ((?r + int (Suc i)) mod ?N) = Some ((c # q) ! Suc i)"
        using p that unfolding ring_rep_def by (metis length_Cons Suc_mono)
      moreover have "((?r + 1) mod ?N + int i) mod ?N = (?r + 1 + int i) mod ?N"
        by (simp only: mod_add_left_eq)
      moreover have "?r + 1 + int i = ?r + int (Suc i)" by simp
      ultimately show ?thesis by simp
    qed
    then have "\<forall>i < length q. buffer ?p ! nat ((readIdx ?p + int i) mod ?N) = Some (q ! i)" by simp
    moreover have "writeIdx ?p = (readIdx ?p + int (length q)) mod ?N" using w by simp
    ultimately show ?thesis using p N unfolding ring_rep_def by simp
  qed
  moreover have e: "((?r + 1) mod ?N = writeIdx p) = (q = [])"
  proof
    assume e: "(?r + 1) mod ?N = writeIdx p"
    have "length q < BUFFER_SIZE" using p by (simp add: ring_rep_def)
    moreover have "((?r + 1) mod ?N + int 0) mod ?N = ((?r + 1) mod ?N + int (length q)) mod ?N"
      using e w by simp
    moreover have "0 \<le> (?r + 1) mod ?N" "(?r + 1) mod ?N < ?N" using N by auto
    ultimately have "0 = length q" using ring_slot_inj [of "(?r + 1) mod ?N" BUFFER_SIZE 0 "length q"]
      by (auto simp: BUFFER_SIZE_def)
    then show "q = []" by simp
  next
    assume "q = []"
    then have "writeIdx p = ((?r + 1) mod ?N) mod ?N" using w by simp
    then show "(?r + 1) mod ?N = writeIdx p" by (simp only: mod_mod_trivial)
  qed
  moreover have "take_byte p = Some (c, ?p, (?r + 1) mod ?N = writeIdx p)"
    using first r(1,3) unfolding take_byte_def by simp
  ultimately show ?thesis unfolding e by (intro exI [of _ ?p]) simp
qed

section \<open>Semaphores without waiting processes\<close>

definition quiet :: "'h sems \<Rightarrow> (nat \<Rightarrow> addr list) \<Rightarrow> int \<Rightarrow> nat \<Rightarrow> bool" where
  "quiet s Q i v \<longleftrightarrow> 0 \<le> i \<and> nat i < sem_count s \<and> Q (nat i) = [] \<and>
     (\<exists>x. load_sem s (nat i) = Some x \<and> \<not> sdestroyed x \<and> slock x = 0 \<and> unat (svalue x) = v)"

lemma quiet_other: "only_sem k s s' \<Longrightarrow> nat j \<noteq> k \<Longrightarrow> quiet s Q j v \<Longrightarrow> quiet s' Q j v"
  by (auto simp: quiet_def only_sem_def)

locale pipes = semaphores M ok for M :: "'h mm" and ok
begin

lemma wait_quiet:
  assumes "sems_ok L s Q" "quiet s Q i (Suc v)"
  shows "\<exists>s'. waitSemaphore M ctx i s = Some (Done True, s') \<and> sems_ok L s' Q \<and> quiet s' Q i v \<and>
    only_sem (nat i) s s' \<and> kern s' = kern s"
proof -
  obtain x where x: "load_sem s (nat i) = Some x" "\<not> sdestroyed x" "slock x = 0"
    "unat (svalue x) = Suc v" using assms(2) by (auto simp: quiet_def)
  have k: "nat i < sem_count s" "int (nat i) = i" "Q (nat i) = []" using assms(2) by (auto simp: quiet_def)
  have pos: "svalue x > 0" using x(4) by (simp add: word_less_nat_alt)
  obtain s' where s': "waitSemaphore M ctx i s = Some (Done True, s')"
    "sem_op L Q s (nat i) (await 0 (abs_sem s Q (nat i))) L Q s'" "kern s' = kern s"
    using wait_take [OF assms(1) k(1) x(1-3) pos, of ctx 0] k(2) by auto
  have "unat (svalue x - 1) = v" using x(4) pos by (simp add: unat_minus_one word_gt_0)
  moreover have "abs_sem s' Q (nat i) = (svalue x - 1, waiters s (Q (nat i)))"
    using s'(2) x(1) pos by (simp add: sem_op_def await_def abs_sem_def)
  moreover obtain y where "load_sem s' (nat i) = Some y" "slock y = 0" "\<not> sdestroyed y"
    using s'(2) x(1-3) by (auto simp: sem_op_def)
  ultimately have "quiet s' Q i v"
    using s'(2) k assms(2) by (auto simp: sem_op_def only_sem_def quiet_def abs_sem_def)
  then show ?thesis using s' by (auto simp: sem_op_def)
qed

lemma post_quiet:
  assumes inv: "sems_ok L s Q" and q: "quiet s Q i v" and v: "Suc v < 2 ^ 32"
  shows "\<exists>s'. postSemaphore M ctx i s = Some (Done True, s') \<and> sems_ok L s' Q \<and> quiet s' Q i (Suc v) \<and>
    only_sem (nat i) s s' \<and> kern s' = kern s"
proof -
  let ?k = "nat i"
  obtain x where x: "load_sem s ?k = Some x" "\<not> sdestroyed x" "slock x = 0"
    "unat (svalue x) = v" using q by (auto simp: quiet_def)
  have k: "?k < sem_count s" "int ?k = i" "Q ?k = []" "0 \<le> i" using q by (auto simp: quiet_def)
  note D = sems_okD(1) [OF inv k(1), unfolded k(2)]
  obtain s1 where s1: "upd_sem ?k (\<lambda>x. x\<lparr>slock := 1\<rparr>) s = Some s1" using upd_sem_some [OF x(1)] by blast
  note U = sem_op_upd [OF inv k(1) x(1) _ _ s1, simplified]
  have k1: "?k < sem_count s1" using U(2) k(1) by (simp add: only_sem_def)
  obtain s2 where s2: "upd_sem ?k (\<lambda>x. x\<lparr>svalue := svalue x + 1\<rparr>) s1 = Some s2"
    using upd_sem_some [OF U(5)] by blast
  note V = sem_op_upd [OF U(1) k1 U(5) _ _ s2, simplified]
  have k2: "?k < sem_count s2" using V(2) k1 by (simp add: only_sem_def)
  obtain s3 where s3: "upd_sem ?k (\<lambda>x. x\<lparr>slock := 0\<rparr>) s2 = Some s3" using upd_sem_some [OF V(5)] by blast
  note W = sem_op_upd [OF V(1) k2 V(5) _ _ s3, simplified]
  have "postLoop M ctx i ?k s1 = Some (Done (), s2)"
    using fifoUnqueue_empty [OF U(1) k1 k(3)] k(2) s2 by (simp add: postLoop.simps [of M ctx i ?k s1])
  then have "postSemaphore M ctx i s = Some (Done True, s3)"
    using D x s1 s3 enter_free [OF x(1,3)] k(4) by (simp add: postSemaphore_def then_run_def leave_region_def)
  moreover have "unat (svalue x + 1) = Suc v" using x(4) v by (simp add: unat_word_ariths)
  moreover have "only_sem ?k s s3" using only_trans [OF only_trans [OF U(2) V(2)] W(2)] .
  ultimately show ?thesis using W(1,5,6) V(6) U(6) x k by (auto simp: quiet_def only_sem_def)
qed

end

section \<open>Reading and writing a byte\<close>

text \<open>A pipe \<open>P\<close> that holds the bytes \<open>q\<close>, with no process waiting on its semaphores.\<close>

definition pipe_ok ::
  "(addr \<rightharpoonup> u64) \<Rightarrow> (nat \<Rightarrow> addr list) \<Rightarrow> 'h sems \<Rightarrow> Pipe \<Rightarrow> byte list \<Rightarrow> bool" where
  "pipe_ok L Q t P q \<longleftrightarrow> sems_ok L t Q \<and> ring_rep P q \<and> \<not> pdestroyed P \<and>
     quiet t Q (mutex P) 1 \<and> quiet t Q (writtenCountSem P) (length q) \<and>
     quiet t Q (emptyCountSem P) (BUFFER_SIZE - length q) \<and>
     distinct [mutex P, emptyCountSem P, writtenCountSem P]"

text \<open>The state after an operation on the pipe at \<open>p\<close>.\<close>

definition after_op :: "'h pipeSys \<Rightarrow> addr \<Rightarrow> 'h sems \<Rightarrow> Pipe \<Rightarrow> 'h pipeSys" where
  "after_op s p t P = s\<lparr>sems := t, pipeStore := (pipeStore s)(p \<mapsto> P)\<rparr>"

lemma after_op_simps [simp]:
  "after_op (after_op s p t P) p t' P' = after_op s p t' P'" "sems (after_op s p t P) = t"
  "pipeStore (after_op s p t P) p = Some P" "pipeArray (after_op s p t P) = pipeArray s"
  "pipeStore s p = Some P \<Longrightarrow> after_op s p (sems s) P = s"
  by (simp_all add: after_op_def fun_upd_idem)

lemma quiet_apart: "quiet s Q i v \<Longrightarrow> quiet s Q j w \<Longrightarrow> i \<noteq> j \<Longrightarrow> nat i \<noteq> nat j"
  by (auto simp: quiet_def)

context pipes
begin

text \<open>The four calls around a step on the buffer: \<open>a\<close> is waited for first, \<open>b\<close> posted last.\<close>

lemma around_ok:
  assumes inv: "sems_ok L t Q" and q: "quiet t Q a (Suc v)" "quiet t Q m 1" "quiet t Q b w"
    and dist: "distinct [a, m, b]" and w: "Suc w < 2 ^ 32"
  shows "\<exists>t1 t2 t3 t4. waitSemaphore M ctx a t = Some (Done True, t1) \<and>
    waitSemaphore M ctx m t1 = Some (Done True, t2) \<and>
    postSemaphore M ctx m t2 = Some (Done True, t3) \<and>
    postSemaphore M ctx b t3 = Some (Done True, t4) \<and>
    sems_ok L t4 Q \<and> quiet t4 Q a v \<and> quiet t4 Q m 1 \<and> quiet t4 Q b (Suc w) \<and> kern t4 = kern t"
proof -
  have d: "nat a \<noteq> nat m" "nat a \<noteq> nat b" "nat m \<noteq> nat b"
    using dist quiet_apart [OF q(1,2)] quiet_apart [OF q(1,3)] quiet_apart [OF q(2,3)] by auto
  obtain t1 where t1: "waitSemaphore M ctx a t = Some (Done True, t1)" "sems_ok L t1 Q" "quiet t1 Q a v"
    "only_sem (nat a) t t1" "kern t1 = kern t" using wait_quiet [OF inv q(1)] by blast
  have m1: "quiet t1 Q m (Suc 0)" using quiet_other [OF t1(4) _ q(2)] d by simp
  obtain t2 where t2: "waitSemaphore M ctx m t1 = Some (Done True, t2)" "sems_ok L t2 Q" "quiet t2 Q m 0"
    "only_sem (nat m) t1 t2" "kern t2 = kern t1" using wait_quiet [OF t1(2) m1] by blast
  obtain t3 where t3: "postSemaphore M ctx m t2 = Some (Done True, t3)" "sems_ok L t3 Q"
    "quiet t3 Q m (Suc 0)" "only_sem (nat m) t2 t3" "kern t3 = kern t2"
    using post_quiet [OF t2(2,3), of ctx] by auto
  have b3: "quiet t3 Q b w"
    using quiet_other [OF t3(4) _ quiet_other [OF t2(4) _ quiet_other [OF t1(4) _ q(3)]]] d by metis
  obtain t4 where t4: "postSemaphore M ctx b t3 = Some (Done True, t4)" "sems_ok L t4 Q"
    "quiet t4 Q b (Suc w)" "only_sem (nat b) t3 t4" "kern t4 = kern t3"
    using post_quiet [OF t3(2) b3 w] by blast
  have "quiet t4 Q a v"
    using quiet_other [OF t4(4) _ quiet_other [OF t3(4) _ quiet_other [OF t2(4) _ t1(3)]]] d by metis
  moreover have "quiet t4 Q m 1" using quiet_other [OF t4(4) _ t3(3)] d by simp
  ultimately show ?thesis using t1 t2 t3 t4 by auto
qed

lemma readByte_ok:
  assumes P: "pipeStore s p = Some P" and ok: "pipe_ok L Q (sems s) P (c # q)"
  shows "\<exists>t P'. readByte M ctx p s = Some (Done (c, q = []),
      after_op s p t P') \<and> pipe_ok L Q t P' q"
proof -
  have ring: "ring_rep P (c # q)" using ok by (simp add: pipe_ok_def)
  obtain P' where P': "take_byte P = Some (c, P', q = [])" "ring_rep P' q" "mutex P' = mutex P"
    "emptyCountSem P' = emptyCountSem P" "writtenCountSem P' = writtenCountSem P"
    "pdestroyed P' = pdestroyed P" using take_byte_ring [OF ring] by blast
  have "Suc (length q) \<le> BUFFER_SIZE" using ring by (simp add: ring_rep_def)
  then have bound: "Suc (BUFFER_SIZE - Suc (length q)) = BUFFER_SIZE - length q"
    "Suc (BUFFER_SIZE - Suc (length q)) < 2 ^ 32" by (simp_all add: BUFFER_SIZE_def)
  have "\<exists>t1 t2 t3 t4. waitSemaphore M ctx (writtenCountSem P) (sems s) = Some (Done True, t1) \<and>
    waitSemaphore M ctx (mutex P) t1 = Some (Done True, t2) \<and>
    postSemaphore M ctx (mutex P) t2 = Some (Done True, t3) \<and>
    postSemaphore M ctx (emptyCountSem P) t3 = Some (Done True, t4) \<and>
    sems_ok L t4 Q \<and> quiet t4 Q (writtenCountSem P) (length q) \<and> quiet t4 Q (mutex P) 1 \<and>
    quiet t4 Q (emptyCountSem P) (Suc (BUFFER_SIZE - Suc (length q))) \<and> kern t4 = kern (sems s)"
    by (rule around_ok [where w = "BUFFER_SIZE - Suc (length q)"]) (use ok bound in \<open>auto simp: pipe_ok_def\<close>)
  then obtain t1 t2 t3 t4 where t: "waitSemaphore M ctx (writtenCountSem P) (sems s) = Some (Done True, t1)"
    "waitSemaphore M ctx (mutex P) t1 = Some (Done True, t2)"
    "postSemaphore M ctx (mutex P) t2 = Some (Done True, t3)"
    "postSemaphore M ctx (emptyCountSem P) t3 = Some (Done True, t4)"
    "sems_ok L t4 Q" "quiet t4 Q (writtenCountSem P) (length q)" "quiet t4 Q (mutex P) 1"
    "quiet t4 Q (emptyCountSem P) (BUFFER_SIZE - length q)" unfolding bound(1) by blast
  have "readByte M ctx p s = Some (Done (c, q = []),
      after_op s p t4 P')"
    using P P' t(1-4) by (simp add: readByte_def wait_sem_def post_sem_def in_sems_def then_run_def after_op_def)
  moreover have "pipe_ok L Q t4 P' q" using t(5-8) P' ok by (simp add: pipe_ok_def)
  ultimately show ?thesis by blast
qed

lemma writeByte_ok:
  assumes P: "pipeStore s p = Some P" and ok: "pipe_ok L Q (sems s) P q" and room: "length q < BUFFER_SIZE"
  shows "\<exists>t P'. writeByte M ctx p c s = Some (Done (),
      after_op s p t P') \<and> pipe_ok L Q t P' (q @ [c])"
proof -
  have ring: "ring_rep P q" using ok by (simp add: pipe_ok_def)
  obtain P' where P': "put_byte c P = Some P'" "ring_rep P' (q @ [c])" "mutex P' = mutex P"
    "emptyCountSem P' = emptyCountSem P" "writtenCountSem P' = writtenCountSem P"
    "pdestroyed P' = pdestroyed P" using put_byte_ring [OF ring room] by blast
  have bound: "BUFFER_SIZE - length q = Suc (BUFFER_SIZE - Suc (length q))"
    "Suc (length q) < 2 ^ 32" using room by (simp_all add: BUFFER_SIZE_def)
  have "\<exists>t1 t2 t3 t4. waitSemaphore M ctx (emptyCountSem P) (sems s) = Some (Done True, t1) \<and>
    waitSemaphore M ctx (mutex P) t1 = Some (Done True, t2) \<and>
    postSemaphore M ctx (mutex P) t2 = Some (Done True, t3) \<and>
    postSemaphore M ctx (writtenCountSem P) t3 = Some (Done True, t4) \<and>
    sems_ok L t4 Q \<and> quiet t4 Q (emptyCountSem P) (BUFFER_SIZE - Suc (length q)) \<and> quiet t4 Q (mutex P) 1 \<and>
    quiet t4 Q (writtenCountSem P) (Suc (length q)) \<and> kern t4 = kern (sems s)"
    by (rule around_ok) (use ok bound in \<open>auto simp: pipe_ok_def\<close>)
  then obtain t1 t2 t3 t4 where t: "waitSemaphore M ctx (emptyCountSem P) (sems s) = Some (Done True, t1)"
    "waitSemaphore M ctx (mutex P) t1 = Some (Done True, t2)"
    "postSemaphore M ctx (mutex P) t2 = Some (Done True, t3)"
    "postSemaphore M ctx (writtenCountSem P) t3 = Some (Done True, t4)"
    "sems_ok L t4 Q" "quiet t4 Q (emptyCountSem P) (BUFFER_SIZE - Suc (length q))" "quiet t4 Q (mutex P) 1"
    "quiet t4 Q (writtenCountSem P) (Suc (length q))" by blast
  have "writeByte M ctx p c s = Some (Done (), after_op s p t4 P')"
    using P P' t(1-4) by (simp add: writeByte_def wait_sem_def post_sem_def in_sems_def then_run_def after_op_def)
  moreover have "pipe_ok L Q t4 P' (q @ [c])" using t(5-8) P' ok by (simp add: pipe_ok_def)
  ultimately show ?thesis by blast
qed

section \<open>Reading and writing\<close>

lemma readLoop_ok:
  "pipeStore s p = Some P \<Longrightarrow> pipe_ok L Q (sems s) P q \<Longrightarrow> q \<noteq> [] \<Longrightarrow> 0 < n \<Longrightarrow>
     \<exists>t P'. readLoop (readByte M ctx p) n acc s = Some (Done (acc @ take n q),
       after_op s p t P') \<and> pipe_ok L Q t P' (drop n q)"
proof (induction n arbitrary: s P q acc)
  case (Suc n)
  obtain c q' where q: "q = c # q'" using Suc.prems(3) by (cases q) auto
  obtain t P' where r: "readByte M ctx p s = Some (Done (c, q' = []),
      after_op s p t P')" "pipe_ok L Q t P' q'"
    using readByte_ok [OF Suc.prems(1)] Suc.prems(2) q by blast
  let ?s = "after_op s p t P'"
  consider (stop) "q' = []" | (out) "q' \<noteq> []" "n = 0" | (more) "q' \<noteq> []" "0 < n" by blast
  then show ?case
  proof cases
    case more
    have "\<exists>t P''. readLoop (readByte M ctx p) n (acc @ [c]) ?s = Some (Done ((acc @ [c]) @ take n q'),
        after_op ?s p t P'') \<and> pipe_ok L Q t P'' (drop n q')"
      by (rule Suc.IH [of ?s P']) (use r(2) more in auto)
    then show ?thesis using r(1) more q by auto
  qed (use r q in auto)
qed simp

lemma writeLoop_ok:
  "pipeStore s p = Some P \<Longrightarrow> pipe_ok L Q (sems s) P q \<Longrightarrow> n \<le> length cs \<Longrightarrow>
     length q + n \<le> BUFFER_SIZE \<Longrightarrow>
     \<exists>t P'. writeLoop M ctx p cs n s = Some (Done (),
       after_op s p t P') \<and> pipe_ok L Q t P' (q @ take n cs)"
proof (induction n arbitrary: s P q cs)
  case 0
  then show ?case by (intro exI [of _ "sems s"] exI [of _ P]) simp
next
  case (Suc n)
  obtain c cs' where cs: "cs = c # cs'" using Suc.prems(3) by (cases cs) auto
  obtain t P' where r: "writeByte M ctx p c s = Some (Done (),
      after_op s p t P')" "pipe_ok L Q t P' (q @ [c])"
    using writeByte_ok [OF Suc.prems(1,2)] Suc.prems(4) by fastforce
  let ?s = "after_op s p t P'"
  have "\<exists>t P''. writeLoop M ctx p cs' n ?s = Some (Done (),
      after_op ?s p t P'') \<and> pipe_ok L Q t P'' ((q @ [c]) @ take n cs')"
    by (rule Suc.IH [of ?s P']) (use r(2) Suc.prems(3,4) cs in auto)
  then show ?case using r(1) cs by (auto simp: then_run_def)
qed

end

context pipes
begin

lemma readPipe_ok:
  assumes "getPipe i s = Some p" "p \<noteq> NULL" "pipeStore s p = Some P" "pipe_ok L Q (sems s) P q"
    and "q \<noteq> []" "0 < n"
  shows "\<exists>t P'. readPipe M ctx i n s = Some (Done (int (min (nat n) (length q)), take (nat n) q),
      after_op s p t P') \<and> pipe_ok L Q t P' (drop (nat n) q)"
proof -
  have n: "0 < nat n" using assms(6) by simp
  obtain t P' where "readLoop (readByte M ctx p) (nat n) [] s = Some (Done ([] @ take (nat n) q), after_op s p t P')"
    "pipe_ok L Q t P' (drop (nat n) q)" using readLoop_ok [OF assms(3-5) n] by blast
  then show ?thesis
    using assms(1,2,6) by (intro exI [of _ t] exI [of _ P']) (simp add: readPipe_def read_result_def min.commute)
qed

lemma writePipe_ok:
  assumes "getPipe i s = Some p" "p \<noteq> NULL" "i \<noteq> PIPE_STDIN" "pipeStore s p = Some P"
    and "pipe_ok L Q (sems s) P q" "0 < n" "nat n \<le> length cs" "length q + nat n \<le> BUFFER_SIZE"
  shows "\<exists>t P'. writePipe M ctx i cs n s = Some (Done n, after_op s p t P') \<and>
    pipe_ok L Q t P' (q @ take (nat n) cs)"
proof -
  obtain t P' where "writeLoop M ctx p cs (nat n) s = Some (Done (), after_op s p t P')"
    "pipe_ok L Q t P' (q @ take (nat n) cs)" using writeLoop_ok [OF assms(4,5,7,8)] by blast
  then show ?thesis
    using assms(1-3,6) by (intro exI [of _ t] exI [of _ P']) (simp add: writePipe_def then_run_def)
qed

text \<open>The keyboard's writes do not wait for room. On a full buffer the oldest byte is replaced.\<close>

lemma stdin_full:
  assumes ok: "sems_ok L (sems s) Q" and ring: "ring_rep (stdinPipe s) q" and full: "length q = BUFFER_SIZE"
    and sem: "quiet (sems s) Q (mutex (stdinPipe s)) 1"
      "quiet (sems s) Q (writtenCountSem (stdinPipe s)) BUFFER_SIZE"
      "mutex (stdinPipe s) \<noteq> writtenCountSem (stdinPipe s)" and n: "0 < n"
  shows "\<exists>s1 s2. writeStdin M ctx c s = Some (Done (), s1) \<and> readStdin M ctx n s1 = Some (Done (1, [c]), s2)"
proof -
  let ?P = "stdinPipe s" and ?r = "readIdx (stdinPipe s)" and ?N = "int BUFFER_SIZE"
  have r: "0 \<le> ?r" "?r < ?N" "length (buffer ?P) = BUFFER_SIZE" using ring by (auto simp: ring_rep_def)
  have "writeIdx ?P = (?r + ?N) mod ?N" using ring full by (simp add: ring_rep_def)
  then have w: "writeIdx ?P = ?r" using r by simp
  let ?P1 = "?P\<lparr>buffer := (buffer ?P)[nat ?r := Some c], writeIdx := (?r + 1) mod ?N\<rparr>"
  let ?P2 = "?P1\<lparr>readIdx := (?r + 1) mod ?N\<rparr>"
  have idx: "nat ?r < BUFFER_SIZE" using r by (simp add: nat_less_iff)
  have put: "put_byte c ?P = Some ?P1" using r w idx by (simp add: put_byte_def)
  have take: "take_byte ?P1 = Some (c, ?P2, True)" using r idx by (simp add: take_byte_def)
  have d: "nat (mutex ?P) \<noteq> nat (writtenCountSem ?P)" using quiet_apart [OF sem(1,2)] sem(3) by simp
  obtain t where t: "postSemaphore M ctx (writtenCountSem ?P) (sems s) = Some (Done True, t)"
    "sems_ok L t Q" "quiet t Q (writtenCountSem ?P) (Suc BUFFER_SIZE)"
    "only_sem (nat (writtenCountSem ?P)) (sems s) t"
    using post_quiet [OF ok sem(2), of ctx] by (auto simp: BUFFER_SIZE_def)
  let ?s1 = "s\<lparr>stdinPipe := ?P1, sems := t\<rparr>"
  have wr: "writeStdin M ctx c s = Some (Done (), ?s1)"
    using put t(1) by (simp add: writeStdin_def post_sem_def in_sems_def then_run_def)
  have m: "quiet t Q (mutex ?P) (Suc 0)" using quiet_other [OF t(4) d sem(1)] by simp
  obtain t1 where t1: "waitSemaphore M ctx (writtenCountSem ?P) t = Some (Done True, t1)" "sems_ok L t1 Q"
    "only_sem (nat (writtenCountSem ?P)) t t1" using wait_quiet [OF t(2,3), of ctx] by blast
  obtain t2 where t2: "waitSemaphore M ctx (mutex ?P) t1 = Some (Done True, t2)" "sems_ok L t2 Q"
    "quiet t2 Q (mutex ?P) 0" using wait_quiet [OF t1(2) quiet_other [OF t1(3) d m], of ctx] by blast
  obtain t3 where t3: "postSemaphore M ctx (mutex ?P) t2 = Some (Done True, t3)"
    using post_quiet [OF t2(2,3), of ctx] by auto
  have "readStdinByte M ctx ?s1 = Some (Done (c, True), ?s1\<lparr>stdinPipe := ?P2, sems := t3\<rparr>)"
    using take t1(1) t2(1) t3
    by (simp add: readStdinByte_def wait_sem_def post_sem_def in_sems_def then_run_def)
  moreover obtain k where "nat n = Suc k" using n gr0_implies_Suc [of "nat n"] by auto
  ultimately have "readStdin M ctx n ?s1 = Some (Done (1, [c]), ?s1\<lparr>stdinPipe := ?P2, sems := t3\<rparr>)"
    using n by (simp add: readStdin_def read_result_def)
  with wr show ?thesis by blast
qed

end

section \<open>The properties\<close>

interpretation kernel_pipes: pipes freelist_mm freelist_ok ..

text \<open>A state with the pipe 2 (at address 4096), which holds the bytes \<open>q\<close>.\<close>

definition demo_pipe :: "byte list \<Rightarrow> Pipe" where
  "demo_pipe q = \<lparr>buffer = map Some q @ replicate (BUFFER_SIZE - length q) None,
     writeIdx = int (length q) mod int BUFFER_SIZE, readIdx = 0, mutex = 0, emptyCountSem = 1,
     writtenCountSem = 2, pdestroyed = False\<rparr>"

definition sem_of :: "nat \<Rightarrow> Semaphore" where
  "sem_of v = \<lparr>svalue = word_of_nat v, slock = 0, sdestroyed = False, pcbNodeHead = 0,
     pcbNodeTail = 0, sname = [0]\<rparr>"

definition demo_pipes :: "byte list \<Rightarrow> heap pipeSys" where
  "demo_pipes q =
     \<lparr>sems = \<lparr>kern = demo_kernel READY [] demo_heap,
        semArray = Some \<lparr>self = 8, array = 48, elementSize = 88, capacity = 3, len = 3,
          freeEleFn = None,
          slots = [Some (sem_of 1), Some (sem_of (BUFFER_SIZE - length q)), Some (sem_of (length q))]\<rparr>,
        freedPositions = None, semNodes = Map.empty\<rparr>,
      pipeArray = Some \<lparr>self = 8, array = 48, elementSize = 8, capacity = 3, len = 3,
        freeEleFn = None, slots = [Some 4000, Some 4048, Some 4096]\<rparr>,
      freedPipes = None, pipeStore = [4096 \<mapsto> demo_pipe q], stdinPipe = demo_pipe q,
      stderrPipe = demo_pipe []\<rparr>"

lemma nth_three: "k < 3 \<Longrightarrow> P a \<Longrightarrow> P b \<Longrightarrow> P c \<Longrightarrow> P ([a, b, c] ! k)"
  by (auto simp: less_Suc_eq numeral_3_eq_3)

lemma demo_pipe_ring: "length q \<le> BUFFER_SIZE \<Longrightarrow> ring_rep (demo_pipe q) q"
  by (auto simp: ring_rep_def demo_pipe_def nth_append BUFFER_SIZE_def)

lemma demo_sem_load:
  "sem_count (sems (demo_pipes q)) = 3" "load_sem (sems (demo_pipes q)) 0 = Some (sem_of 1)"
  "load_sem (sems (demo_pipes q)) 1 = Some (sem_of (BUFFER_SIZE - length q))"
  "load_sem (sems (demo_pipes q)) 2 = Some (sem_of (length q))"
  by (simp_all add: demo_pipes_def sem_count_def load_sem_def slot_def)

lemma demo_pipe_sems: "sems_ok Map.empty (sems (demo_pipes q)) (\<lambda>_. [])"
proof -
  have "arr_shape (the (semArray (sems (demo_pipes q))))"
  proof -
    have "[Some (sem_of 1), Some (sem_of (BUFFER_SIZE - length q)), Some (sem_of (length q))] ! k \<noteq> None"
      if "k < 3" for k by (rule nth_three [OF that]) simp_all
    then show ?thesis by (simp add: demo_pipes_def arr_shape_def)
  qed
  moreover have "\<exists>x. load_sem (sems (demo_pipes q)) k = Some x \<and> sem_queue (sems (demo_pipes q)) x []"
    if "k < 3" for k
  proof -
    have "k = 0 \<or> k = 1 \<or> k = 2" using that by auto
    then show ?thesis using demo_sem_load [of q] by (auto simp: sem_queue_def sem_of_def)
  qed
  moreover have "\<exists>c. semArray (sems (demo_pipes q)) = Some c" by (simp add: demo_pipes_def)
  ultimately show ?thesis unfolding sems_ok_def demo_sem_load(1) by (auto simp: concat_eq_Nil_conv [THEN iffD2])
qed

lemma demo_pipe_quiet:
  assumes "length q \<le> BUFFER_SIZE"
  shows "quiet (sems (demo_pipes q)) (\<lambda>_. []) 0 1"
    "quiet (sems (demo_pipes q)) (\<lambda>_. []) 1 (BUFFER_SIZE - length q)"
    "quiet (sems (demo_pipes q)) (\<lambda>_. []) 2 (length q)"
proof -
  have "unat (svalue (sem_of v)) = v" if "v \<le> BUFFER_SIZE" for v
    using that by (simp add: sem_of_def unat_of_nat take_bit_nat_eq_self BUFFER_SIZE_def)
  then have v: "unat (svalue (sem_of 1)) = 1" "unat (svalue (sem_of (length q))) = length q"
    "unat (svalue (sem_of (BUFFER_SIZE - length q))) = BUFFER_SIZE - length q"
    using assms by (auto simp: BUFFER_SIZE_def)
  have s: "\<not> sdestroyed (sem_of v)" "slock (sem_of v) = 0" for v by (simp_all add: sem_of_def)
  show "quiet (sems (demo_pipes q)) (\<lambda>_. []) 0 1"
    "quiet (sems (demo_pipes q)) (\<lambda>_. []) 1 (BUFFER_SIZE - length q)"
    "quiet (sems (demo_pipes q)) (\<lambda>_. []) 2 (length q)"
    unfolding quiet_def using demo_sem_load [of q] v s by simp_all
qed

lemma demo_pipe_ok:
  "length q \<le> BUFFER_SIZE \<Longrightarrow> pipe_ok Map.empty (\<lambda>_. []) (sems (demo_pipes q)) (demo_pipe q) q"
  using demo_pipe_quiet [of q] demo_pipe_ring [of q] demo_pipe_sems [of q]
  by (simp add: pipe_ok_def demo_pipe_def)

lemma demo_getPipe:
  "getPipe 2 (demo_pipes q) = Some 4096" "pipeStore (demo_pipes q) 4096 = Some (demo_pipe q)"
  by (simp_all add: getPipe_def demo_pipes_def Array_get_def slot_def demo_pipe_def)

text \<open>
  C19: \<open>writePipe\<close> of \<open>n\<close> bytes that fit in the buffer of a pipe no process waits on returns \<open>n\<close>
  without blocking, and the pipe holds its former bytes followed by the new ones.
\<close>

theorem pipe_write_appends:
  assumes "getPipe i s = Some p" "p \<noteq> NULL" "i \<noteq> PIPE_STDIN" "pipeStore s p = Some P"
    and "pipe_ok L Q (sems s) P q" "0 < n" "nat n \<le> length cs" "length q + nat n \<le> BUFFER_SIZE"
  shows "\<exists>s' P'. writePipe freelist_mm ctx i cs n s = Some (Done n, s') \<and>
    pipeStore s' p = Some P' \<and> pipe_ok L Q (sems s') P' (q @ take (nat n) cs)"
  using kernel_pipes.writePipe_ok [OF assms, of ctx] by fastforce

theorem pipe_write_appends_witness:
  "\<exists>s' P' L Q. writePipe freelist_mm (0, 0) 2 [8, 9] 2 (demo_pipes [7]) = Some (Done 2, s') \<and>
     pipeStore s' 4096 = Some P' \<and> pipe_ok L Q (sems s') P' [7, 8, 9]"
proof -
  have P: "pipe_ok Map.empty (\<lambda>_. []) (sems (demo_pipes [7])) (demo_pipe [7]) [7]"
    by (rule demo_pipe_ok) (simp add: BUFFER_SIZE_def)
  from pipe_write_appends [OF demo_getPipe(1) _ _ demo_getPipe(2) P, of 2 "[8, 9]" "(0, 0)"]
  show ?thesis by (auto simp: BUFFER_SIZE_def PIPE_STDIN_def)
qed

text \<open>
  C20: \<open>readPipe\<close> of at most \<open>n\<close> bytes from a pipe that holds some returns without blocking the
  first of them, in the order they were written: all of them when there are no more than \<open>n\<close>.
\<close>

theorem pipe_read_takes:
  assumes "getPipe i s = Some p" "p \<noteq> NULL" "pipeStore s p = Some P" "pipe_ok L Q (sems s) P q"
    and "q \<noteq> []" "0 < n"
  shows "\<exists>s' P'. readPipe freelist_mm ctx i n s =
      Some (Done (int (min (nat n) (length q)), take (nat n) q), s') \<and>
    pipeStore s' p = Some P' \<and> pipe_ok L Q (sems s') P' (drop (nat n) q)"
  using kernel_pipes.readPipe_ok [OF assms, of ctx] by fastforce

theorem pipe_read_takes_witness:
  "\<exists>s' P' L Q. readPipe freelist_mm (0, 0) 2 2 (demo_pipes [7, 8, 9]) = Some (Done (2, [7, 8]), s') \<and>
     pipeStore s' 4096 = Some P' \<and> pipe_ok L Q (sems s') P' [9]"
proof -
  have P: "pipe_ok Map.empty (\<lambda>_. []) (sems (demo_pipes [7, 8, 9])) (demo_pipe [7, 8, 9]) [7, 8, 9]"
    by (rule demo_pipe_ok) (simp add: BUFFER_SIZE_def)
  have "take (nat 2) [7, 8, 9] = [7, 8 :: byte]" "drop (nat 2) [7, 8, 9] = [9 :: byte]" by simp_all
  with pipe_read_takes [OF demo_getPipe(1) _ demo_getPipe(2) P, of 2 "(0, 0)"]
  show ?thesis by simp blast
qed

text \<open>
  What is written to an empty pipe is what is read from it, and the pipe is empty again.
\<close>

theorem pipe_roundtrip:
  assumes "getPipe i s = Some p" "p \<noteq> NULL" "i \<noteq> PIPE_STDIN" "pipeStore s p = Some P"
    and "pipe_ok L Q (sems s) P []" "cs \<noteq> []" "length cs \<le> BUFFER_SIZE" "int (length cs) \<le> n"
  shows "\<exists>s1 s2 P'. writePipe freelist_mm ctx i cs (int (length cs)) s = Some (Done (int (length cs)), s1) \<and>
    readPipe freelist_mm ctx i n s1 = Some (Done (int (length cs), cs), s2) \<and>
    pipeStore s2 p = Some P' \<and> pipe_ok L Q (sems s2) P' []"
proof -
  have pos: "0 < int (length cs)" using assms(6) by simp
  then have n: "0 < n" using assms(8) by linarith
  obtain t P1 where w: "writePipe freelist_mm ctx i cs (int (length cs)) s =
      Some (Done (int (length cs)), after_op s p t P1)" "pipe_ok L Q t P1 cs"
    using kernel_pipes.writePipe_ok [OF assms(1-5) pos, of cs ctx] assms(7) by auto
  let ?s1 = "after_op s p t P1"
  have get: "getPipe i ?s1 = Some p"
    using assms(1,2,4) w(2) by (auto simp: getPipe_def after_op_def pipe_ok_def split: option.splits bind_splits if_splits)
  have "pipeStore ?s1 p = Some P1" "pipe_ok L Q (sems ?s1) P1 cs" using w(2) by simp_all
  from kernel_pipes.readPipe_ok [OF get assms(2) this assms(6) n, of ctx]
  obtain t2 P2 where "readPipe freelist_mm ctx i n ?s1 =
      Some (Done (int (min (nat n) (length cs)), take (nat n) cs), after_op ?s1 p t2 P2)"
    "pipe_ok L Q t2 P2 (drop (nat n) cs)" by blast
  moreover have "length cs \<le> nat n" using assms(8) by simp
  ultimately show ?thesis using w(1)
    by (intro exI [of _ ?s1] exI [of _ "after_op ?s1 p t2 P2"] exI [of _ P2]) (simp add: min_def)
qed

theorem pipe_roundtrip_witness:
  "\<exists>s1 s2. writePipe freelist_mm (0, 0) 2 [1, 2, 3] 3 (demo_pipes []) = Some (Done 3, s1) \<and>
     readPipe freelist_mm (0, 0) 2 100 s1 = Some (Done (3, [1, 2, 3]), s2)"
proof -
  have P: "pipe_ok Map.empty (\<lambda>_. []) (sems (demo_pipes [])) (demo_pipe []) []"
    by (rule demo_pipe_ok) simp
  from pipe_roundtrip [OF demo_getPipe(1) _ _ demo_getPipe(2) P, of "[1, 2, 3]" 100 "(0, 0)"]
  show ?thesis by (auto simp: BUFFER_SIZE_def PIPE_STDIN_def)
qed

text \<open>
  \<open>writeStdin\<close> does not wait for room: a key typed when 40 are unread replaces the oldest
  one, and the next read returns that key alone, before the 39 older ones.
\<close>

theorem stdin_overflow:
  assumes "sems_ok L (sems s) Q" "ring_rep (stdinPipe s) q" "length q = BUFFER_SIZE"
    and "quiet (sems s) Q (mutex (stdinPipe s)) 1"
    and "quiet (sems s) Q (writtenCountSem (stdinPipe s)) BUFFER_SIZE"
    and "mutex (stdinPipe s) \<noteq> writtenCountSem (stdinPipe s)" "0 < n"
  shows "\<exists>s1 s2. writeStdin freelist_mm ctx c s = Some (Done (), s1) \<and>
    readStdin freelist_mm ctx n s1 = Some (Done (1, [c]), s2)"
  by (rule kernel_pipes.stdin_full [OF assms])

theorem stdin_overflow_witness:
  "\<exists>s1 s2. writeStdin freelist_mm (0, 0) 66 (demo_pipes (replicate BUFFER_SIZE 65)) = Some (Done (), s1) \<and>
     readStdin freelist_mm (0, 0) 40 s1 = Some (Done (1, [66]), s2)"
proof -
  let ?q = "replicate BUFFER_SIZE (65 :: byte)"
  have P: "stdinPipe (demo_pipes ?q) = demo_pipe ?q" by (simp add: demo_pipes_def)
  have len: "length ?q \<le> BUFFER_SIZE" "length ?q = BUFFER_SIZE" by simp_all
  show ?thesis
    by (rule stdin_overflow [OF demo_pipe_sems, of ?q ?q])
      (use demo_pipe_quiet [OF len(1)] demo_pipe_ring [OF len(1)] P in \<open>simp_all add: demo_pipe_def\<close>)
qed

end
