(* ===== verification/Timer.thy ===== *)
theory Timer
  imports Complex_Main SemProps
begin

text \<open>
  The timer (\<open>Kernel/c/timer.c\<close>): the count of ticks, the list of sleeping processes and the
  conversions between ticks and milliseconds; with them the interrupt handler that runs
  \<open>schedule\<close> and then \<open>incTicks\<close> (\<open>timerTickIrqHandler\<close> of \<open>Kernel/asm/interruptions.asm\<close>).

  The kernel is built without SSE, so the operations on \<open>double\<close> run in the registers of the
  floating point unit: their results are rounded to 64 significant bits, and to 53 when they
  are stored in a variable.
\<close>

record SleptProcess =
  ticksRemaining :: u64
  spcb :: addr
  snext :: addr

record 'h timer =
  tkern :: "'h kernel"
  ticks :: u64
  sfirst :: addr
  slept :: "addr \<rightharpoonup> SleptProcess"

definition sizeof_SleptProcess :: u64 where "sizeof_SleptProcess = 24"

section \<open>Ticks and milliseconds\<close>

function bits_of :: "int \<Rightarrow> int" where
  "bits_of n = (if n \<le> 0 then 0 else 1 + bits_of (n div 2))"
  by auto
termination by (relation "measure nat") auto

declare bits_of.simps [simp del]

text \<open>To the nearest integer, to the even one of two.\<close>

definition round_even :: "rat \<Rightarrow> int" where
  "round_even q =
     (let d = q - of_int \<lfloor>q\<rfloor>
      in if d < 1 / 2 \<or> d = 1 / 2 \<and> even \<lfloor>q\<rfloor> then \<lfloor>q\<rfloor> else \<lfloor>q\<rfloor> + 1)"

text \<open>The quotient \<open>a / b\<close> rounded to \<open>p\<close> significant bits.\<close>

definition round_bits :: "nat \<Rightarrow> rat \<Rightarrow> rat" where
  "round_bits p q =
     (if q \<le> 0 then 0
      else let (a, b) = quotient_of q;
               e = bits_of a - bits_of b;
               e = (if q < 2 powi e then e - 1 else e);
               u = 2 powi (e - int p + 1)
           in of_int (round_even (q / u)) * u)"

definition freq :: rat where
  "freq = round_bits 53 (round_bits 64 (65536 / 3600))"

text \<open>The conversion to \<open>uint64_t\<close> cuts the fraction.\<close>

definition getMs :: "'h timer \<Rightarrow> u64" where
  "getMs s = word_of_int \<lfloor>round_bits 64 (of_int (uint (ticks s * 1000)) / freq)\<rfloor>"

definition calcTicks :: "u64 \<Rightarrow> u64" where
  "calcTicks ms = word_of_int
     \<lfloor>round_bits 64 (round_bits 64 (of_int (uint ms) / 1000) * freq)\<rfloor>"

definition getTicks :: "'h timer \<Rightarrow> u64" where
  "getTicks s = ticks s"

section \<open>The list of sleeping processes\<close>

text \<open>A kernel operation on processes, and a release.\<close>

definition on_kern ::
  "('h kernel \<Rightarrow> ('r \<times> 'h kernel) option) \<Rightarrow> 'h timer \<Rightarrow> ('r \<times> 'h timer) option" where
  "on_kern f s = do { (r, k) \<leftarrow> f (tkern s); Some (r, s\<lparr>tkern := k\<rparr>) }"

definition free_slept :: "'h mm \<Rightarrow> addr \<Rightarrow> 'h timer \<Rightarrow> 'h timer option" where
  "free_slept M p s = do {
     h \<leftarrow> mm_free M p (kheap (tkern s));
     Some (s\<lparr>tkern := (tkern s)\<lparr>kheap := h\<rparr>, slept := (slept s)(p := None)\<rparr>)
   }"

text \<open>The result is \<open>current->next\<close>.\<close>

definition removeFromSleepList ::
  "'h mm \<Rightarrow> addr \<Rightarrow> addr \<Rightarrow> 'h timer \<Rightarrow> (addr \<times> 'h timer) option" where
  "removeFromSleepList M prv cur s = do {
     x \<leftarrow> slept s cur;
     s1 \<leftarrow> (if prv = NULL then Some (s\<lparr>sfirst := snext x\<rparr>)
           else do {
             y \<leftarrow> slept s prv;
             Some (s\<lparr>slept := (slept s)(prv \<mapsto> y\<lparr>snext := snext x\<rparr>)\<rparr>)
           });
     s2 \<leftarrow> free_slept M cur s1;
     Some (snext x, s2)
   }"

text \<open>
  The loop of \<open>incTicks\<close>. It has no branch for a process that is neither \<open>BLOCKED\<close> nor
  \<open>WAITING_FOR_EXIT\<close>: \<open>current\<close> does not move then and the loop does not end.
\<close>

partial_function (option) incLoop ::
  "'h mm \<Rightarrow> addr \<times> addr \<Rightarrow> addr \<Rightarrow> addr \<Rightarrow> 'h timer \<Rightarrow> (unit run \<times> 'h timer) option" where
  "incLoop M ctx prv cur s =
     (if cur = NULL then Some (Done (), s)
      else do {
        x \<leftarrow> slept s cur;
        c \<leftarrow> pcbs (tkern s) (spcb x);
        if state c = BLOCKED
        then do {
          let x1 = x\<lparr>ticksRemaining := ticksRemaining x - 1\<rparr>;
          let s1 = s\<lparr>slept := (slept s)(cur \<mapsto> x1)\<rparr>;
          if ticksRemaining x1 = 0
          then do {
            k \<leftarrow> readyProcess (spcb x1) (tkern s1);
            (nxt, s2) \<leftarrow> removeFromSleepList M prv cur (s1\<lparr>tkern := k\<rparr>);
            incLoop M ctx prv nxt s2
          }
          else incLoop M ctx cur (snext x1) s1
        }
        else if state c = WAITING_FOR_EXIT
        then do {
          (r, s1) \<leftarrow> on_kern (exitProcessByPCB M ctx (spcb x) KILL_EXIT_CODE) s;
          if r = Away then Some (Away, s1)
          else do {
            (nxt, s2) \<leftarrow> removeFromSleepList M prv cur s1;
            incLoop M ctx prv nxt s2
          }
        }
        else incLoop M ctx prv cur s
      })"

declare incLoop.simps [code]

definition incTicks :: "'h mm \<Rightarrow> addr \<times> addr \<Rightarrow> 'h timer \<Rightarrow> (unit run \<times> 'h timer) option" where
  "incTicks M ctx s = incLoop M ctx NULL (sfirst s) (s\<lparr>ticks := ticks s + 1\<rparr>)"

text \<open>
  The sleeping process is added at the front, unless the time is less than a tick. The result
  of \<open>globalMalloc\<close> is used without a test.
\<close>

definition sleep ::
  "'h mm \<Rightarrow> addr \<times> addr \<Rightarrow> u64 \<Rightarrow> 'h timer \<Rightarrow> (unit run \<times> 'h timer) option" where
  "sleep M ctx ms s =
     (let initialTicks = calcTicks ms
      in if initialTicks > 0
      then do {
        (aux, s1) \<leftarrow> on_kern (kmalloc M sizeof_SleptProcess) s;
        if aux = NULL then None
        else do {
          p \<leftarrow> currentPCB (tkern s1);
          let s2 = s1\<lparr>slept := (slept s1)(aux \<mapsto>
              \<lparr>ticksRemaining = initialTicks, spcb = p, snext = sfirst s1\<rparr>), sfirst := aux\<rparr>;
          on_kern (blockCurrentProcess M ctx) s2
        }
      }
      else Some (Done (), s))"

text \<open>
  \<open>timerTickIrqHandler\<close>: the handler goes on with \<open>incTicks\<close> on the stack of the process that
  \<open>schedule\<close> chose; the result is the stack pointer it returns to. \<open>ctx\<close> is the interrupted
  context.
\<close>

definition timerTickIrqHandler ::
  "'h mm \<Rightarrow> addr \<times> addr \<Rightarrow> 'h timer \<Rightarrow> (unit run \<times> 'h timer) option" where
  "timerTickIrqHandler M ctx s =
     do { (sp, s1) \<leftarrow> on_kern (schedule M (fst ctx) (snd ctx)) s; incTicks M (sp, snd ctx) s1 }"

end
