(* ===== verification/TimerProps.thy ===== *)
theory TimerProps
  imports Timer
begin

text \<open>
  What a tick does to the sleeping processes: the abstract value of the timer is the list of its
  nodes with the process and the number of ticks that each has left.
\<close>

section \<open>The linked list\<close>

fun sseg :: "(addr \<rightharpoonup> SleptProcess) \<Rightarrow> addr \<Rightarrow> addr list \<Rightarrow> bool" where
  "sseg N a [] \<longleftrightarrow> a = NULL"
| "sseg N a (n # ns) \<longleftrightarrow> a = n \<and> n \<noteq> NULL \<and> (\<exists>x. N n = Some x \<and> sseg N (snext x) ns)"

lemma sseg_cong: "\<forall>n \<in> set ns. N' n = N n \<Longrightarrow> sseg N' a ns = sseg N a ns"
  by (induction ns arbitrary: a) auto

lemma sseg_other [simp]: "v \<notin> set ns \<Longrightarrow> sseg (N(v := z)) a ns = sseg N a ns"
  by (rule sseg_cong) auto

definition first_of :: "addr list \<Rightarrow> addr" where
  "first_of ns = (case ns of [] \<Rightarrow> NULL | n # _ \<Rightarrow> n)"

definition last_of :: "addr list \<Rightarrow> addr" where
  "last_of ns = (if ns = [] then NULL else last ns)"

lemma first_of_simps [simp]: "first_of [] = NULL" "first_of (n # ns) = n"
  by (simp_all add: first_of_def)

lemma last_of_snoc [simp]: "last_of (us @ [v]) = v"
  by (simp add: last_of_def)

lemma sseg_first: "sseg N a ns \<Longrightarrow> a = first_of ns"
  by (cases ns) auto

lemma sseg_append: "sseg N a (us @ vs) \<Longrightarrow> us \<noteq> [] \<Longrightarrow>
    \<exists>x. N (last us) = Some x \<and> snext x = first_of vs \<and> sseg N (snext x) vs"
proof (induction us arbitrary: a)
  case (Cons u us)
  then show ?case by (cases "us = []") (auto simp: sseg_first)
qed simp

lemma sseg_node: "sseg N a (us @ v # vs) \<Longrightarrow> \<exists>x. N v = Some x \<and> v \<noteq> NULL \<and> snext x = first_of vs"
  by (induction us arbitrary: a) (auto simp: sseg_first)

text \<open>A change that keeps the links.\<close>

lemma sseg_upd: "sseg N a ns \<Longrightarrow> N v = Some x \<Longrightarrow> snext y = snext x \<Longrightarrow> sseg (N(v \<mapsto> y)) a ns"
  by (induction ns arbitrary: a) auto

lemma sseg_unlink:
  "sseg N a (us @ v # vs) \<Longrightarrow> distinct (us @ v # vs) \<Longrightarrow> us \<noteq> [] \<Longrightarrow> N (last us) = Some y \<Longrightarrow>
     sseg (N(last us \<mapsto> y\<lparr>snext := first_of vs\<rparr>, v := None)) a (us @ vs)"
proof (induction us arbitrary: a)
  case (Cons u us)
  show ?case
  proof (cases "us = []")
    case True
    with Cons.prems obtain x where x: "a = u" "u \<noteq> NULL" "N v = Some x" "sseg N (snext x) vs"
      by auto
    have "sseg (N(u \<mapsto> y\<lparr>snext := first_of vs\<rparr>, v := None)) (first_of vs) vs"
      using x(4) Cons.prems(2) True sseg_first [OF x(4)] by auto
    with x Cons.prems(2) True show ?thesis by (simp del: fun_upd_apply add: fun_upd_same fun_upd_other)
  next
    case False
    with Cons.prems(2) have "u \<noteq> last us" "u \<noteq> v" by auto
    with Cons False show ?thesis by auto
  qed
qed simp

section \<open>Removing a process\<close>

definition sl :: "'h timer \<Rightarrow> addr \<Rightarrow> SleptProcess" where
  "sl s n = the (slept s n)"

definition nap :: "'h timer \<Rightarrow> addr \<Rightarrow> addr \<times> u64" where
  "nap s n = (spcb (sl s n), ticksRemaining (sl s n))"

text \<open>A change of the list only: the processes, the other naps and the clock stay.\<close>

definition same_but :: "addr set \<Rightarrow> 'h timer \<Rightarrow> 'h timer \<Rightarrow> bool" where
  "same_but A s s' \<longleftrightarrow> (\<exists>h. tkern s' = (tkern s)\<lparr>kheap := h\<rparr>) \<and> ticks s' = ticks s \<and>
     (\<forall>n. n \<notin> A \<longrightarrow> nap s' n = nap s n)"

context process_table
begin

lemma removeFromSleepList_ok:
  assumes seg: "sseg (slept s) (sfirst s) (us @ v # vs)" "distinct (us @ v # vs)"
    and h: "ok L (kheap (tkern s))" "v \<in> dom L"
  shows "\<exists>s'. removeFromSleepList M (last_of us) v s = Some (first_of vs, s') \<and>
    sseg (slept s') (sfirst s') (us @ vs) \<and> ok (L(v := None)) (kheap (tkern s')) \<and> same_but {v} s s'"
proof -
  obtain h' where h': "mm_free M v (kheap (tkern s)) = Some h'" "ok (L(v := None)) h'"
    using free_ok [OF h] by blast
  obtain x where x: "slept s v = Some x" "v \<noteq> NULL" "snext x = first_of vs"
    using sseg_node [OF seg(1)] by blast
  show ?thesis
  proof (cases "us = []")
    case True
    define s' where "s' = s\<lparr>sfirst := first_of vs, tkern := (tkern s)\<lparr>kheap := h'\<rparr>,
        slept := (slept s)(v := None)\<rparr>"
    have "removeFromSleepList M (last_of us) v s = Some (first_of vs, s')"
      using True x h' by (simp add: removeFromSleepList_def free_slept_def last_of_def s'_def)
    moreover have "sseg (slept s') (sfirst s') vs"
      using seg x True by (auto simp: s'_def)
    ultimately show ?thesis
      using True h' by (intro exI [of _ s']) (auto simp: s'_def same_but_def nap_def sl_def)
  next
    case False
    obtain y where y: "slept s (last us) = Some y" using sseg_append [OF seg(1) False] by blast
    have eq: "us @ v # vs = butlast us @ last us # v # vs"
      using False append_butlast_last_id [of us] by (metis append.assoc append_Cons append_Nil)
    have l: "last us \<noteq> NULL" "last us \<noteq> v"
      using sseg_node [OF seg(1) [unfolded eq]] last_in_set [OF False] seg(2) by auto
    define s' where "s' = s\<lparr>tkern := (tkern s)\<lparr>kheap := h'\<rparr>,
        slept := (slept s)(last us \<mapsto> y\<lparr>snext := first_of vs\<rparr>, v := None)\<rparr>"
    have "removeFromSleepList M (last_of us) v s = Some (first_of vs, s')"
      using False x h' y l by (simp add: removeFromSleepList_def free_slept_def last_of_def s'_def)
    moreover have "sseg (slept s') (sfirst s') (us @ vs)"
      using sseg_unlink [OF seg False y] by (simp add: s'_def)
    moreover have "nap s' n = nap s n" if "n \<noteq> v" for n
      using that y by (auto simp: s'_def nap_def sl_def)
    ultimately show ?thesis using h' by (intro exI [of _ s']) (auto simp: s'_def same_but_def)
  qed
qed

end

section \<open>A tick\<close>

text \<open>The state of a sleeping process with \<open>t\<close> ticks left after a tick.\<close>

definition tick_state :: "u64 \<Rightarrow> State \<Rightarrow> State" where
  "tick_state t st = (if st = WAITING_FOR_EXIT then EXITED
     else if st = BLOCKED \<and> t = 1 then READY else st)"

definition sleeping :: "'h timer \<Rightarrow> addr \<Rightarrow> bool" where
  "sleeping s n \<longleftrightarrow> (\<exists>c. pcbs (tkern s) (spcb (sl s n)) = Some c \<and>
     (state c = BLOCKED \<or> state c = WAITING_FOR_EXIT \<and> can_reap (tkern s) (spcb (sl s n))))"

definition sleeps_on :: "'h timer \<Rightarrow> addr \<Rightarrow> bool" where
  "sleeps_on s n \<longleftrightarrow> in_state BLOCKED (tkern s) (spcb (sl s n)) \<and> ticksRemaining (sl s n) \<noteq> 1"

definition tick_pcb :: "'h timer \<Rightarrow> addr list \<Rightarrow> addr \<Rightarrow> PCB \<Rightarrow> PCB" where
  "tick_pcb s ns p c = (case List.find (\<lambda>n. spcb (sl s n) = p) ns of None \<Rightarrow> c
     | Some n \<Rightarrow> c\<lparr>state := tick_state (ticksRemaining (sl s n)) (state c)\<rparr>)"

definition ticked :: "'h timer \<Rightarrow> addr list \<Rightarrow> 'h timer \<Rightarrow> bool" where
  "ticked s ns s' \<longleftrightarrow>
     (\<exists>h. tkern s' = (tkern s)\<lparr>kheap := h,
       pcbs := (\<lambda>p. map_option (tick_pcb s ns p) (pcbs (tkern s) p))\<rparr>) \<and>
     ticks s' = ticks s \<and> (\<forall>n. n \<notin> set ns \<longrightarrow> nap s' n = nap s n) \<and>
     (\<forall>n \<in> set (filter (sleeps_on s) ns).
        nap s' n = (spcb (sl s n), ticksRemaining (sl s n) - 1))"

text \<open>The tick of the first process, then that of the others.\<close>

lemma tick_pcb_one: "tick_pcb s [v] p c =
    (if spcb (sl s v) = p then c\<lparr>state := tick_state (ticksRemaining (sl s v)) (state c)\<rparr> else c)"
  by (simp add: tick_pcb_def)

lemma tick_pcb_same [simp]: "pid (tick_pcb s ns p c) = pid c" "wfmLen (tick_pcb s ns p c) = wfmLen c"
  by (simp_all add: tick_pcb_def split: option.splits)

lemma find_map_cong: "(\<And>n. n \<in> set ns \<Longrightarrow> P n = Q n) \<Longrightarrow> List.find P ns = List.find Q ns"
  by (induction ns) auto

lemma nap_sl: "nap s' n = nap s n \<longleftrightarrow>
    spcb (sl s' n) = spcb (sl s n) \<and> ticksRemaining (sl s' n) = ticksRemaining (sl s n)"
  by (simp add: nap_def)

lemma ticked_one:
  assumes "ticked s [v] s1" "n \<noteq> v" "spcb (sl s n) \<noteq> spcb (sl s v)"
  shows "spcb (sl s1 n) = spcb (sl s n)" "ticksRemaining (sl s1 n) = ticksRemaining (sl s n)"
    "pcbs (tkern s1) (spcb (sl s n)) = pcbs (tkern s) (spcb (sl s n))" "sleeps_on s1 n = sleeps_on s n"
proof -
  show s: "spcb (sl s1 n) = spcb (sl s n)" "ticksRemaining (sl s1 n) = ticksRemaining (sl s n)"
    using assms(1,2) by (auto simp: ticked_def nap_sl)
  have "pcbs (tkern s1) = (\<lambda>p. map_option (tick_pcb s [v] p) (pcbs (tkern s) p))"
    using assms(1) by (auto simp: ticked_def)
  then show p: "pcbs (tkern s1) (spcb (sl s n)) = pcbs (tkern s) (spcb (sl s n))"
    using assms(3) by (cases "pcbs (tkern s) (spcb (sl s n))") (auto simp: tick_pcb_one)
  show "sleeps_on s1 n = sleeps_on s n" using s p by (simp add: sleeps_on_def in_state_def)
qed

lemma ticked_Cons:
  assumes "ticked s [v] s1" "ticked s1 vs s'" "v \<notin> set vs"
    "spcb (sl s v) \<notin> (\<lambda>n. spcb (sl s n)) ` set vs"
  shows "ticked s (v # vs) s'"
proof -
  have one: "spcb (sl s1 n) = spcb (sl s n)" "ticksRemaining (sl s1 n) = ticksRemaining (sl s n)"
    "sleeps_on s1 n = sleeps_on s n" if "n \<in> set vs" for n
    using ticked_one [OF assms(1), of n] assms(3,4) that by (metis imageI)+
  obtain h h' where h: "tkern s1 = (tkern s)\<lparr>kheap := h,
       pcbs := (\<lambda>p. map_option (tick_pcb s [v] p) (pcbs (tkern s) p))\<rparr>"
    "tkern s' = (tkern s1)\<lparr>kheap := h',
       pcbs := (\<lambda>p. map_option (tick_pcb s1 vs p) (pcbs (tkern s1) p))\<rparr>"
    using assms(1,2) unfolding ticked_def by blast
  have find: "List.find (\<lambda>n. spcb (sl s1 n) = p) vs = List.find (\<lambda>n. spcb (sl s n) = p) vs" for p
    by (rule find_map_cong) (simp add: one(1))
  have none: "List.find (\<lambda>n. spcb (sl s n) = spcb (sl s v)) vs = None"
    using assms(4) by (auto simp: find_None_iff image_iff)
  have comp: "tick_pcb s1 vs p (tick_pcb s [v] p c) = tick_pcb s (v # vs) p c" for p c
  proof (cases "spcb (sl s v) = p")
    case True
    then show ?thesis using none by (simp add: tick_pcb_def find)
  next
    case False
    have "ticksRemaining (sl s1 n) = ticksRemaining (sl s n)"
      if "List.find (\<lambda>n. spcb (sl s n) = p) vs = Some n" for n
      using that one(2) by (auto simp: find_Some_iff)
    with False show ?thesis by (simp add: tick_pcb_def find split: option.splits)
  qed
  have "(\<lambda>p. map_option (tick_pcb s1 vs p) (pcbs (tkern s1) p)) =
      (\<lambda>p. map_option (tick_pcb s (v # vs) p) (pcbs (tkern s) p))"
    using h(1) comp by (simp add: option.map_comp comp_def)
  then have "tkern s' = (tkern s)\<lparr>kheap := h',
       pcbs := (\<lambda>p. map_option (tick_pcb s (v # vs) p) (pcbs (tkern s) p))\<rparr>"
    using h by simp
  moreover have "nap s' n = (spcb (sl s n), ticksRemaining (sl s n) - 1)"
    if "n \<in> set (v # vs)" "sleeps_on s n" for n
  proof (cases "n = v")
    case True
    with assms that show ?thesis by (auto simp: ticked_def)
  next
    case False
    with that have "n \<in> set vs" by simp
    then show ?thesis using assms(2) that(2) one [of n] by (auto simp: ticked_def)
  qed
  ultimately show ?thesis using assms(1,2) by (auto simp: ticked_def)
qed

lemma can_reap_fields:
  assumes "can_reap k q" "\<And>p c. pid (f p c) = pid c \<and> wfmLen (f p c) = wfmLen c"
  shows "can_reap (k\<lparr>kheap := h, pcbs := (\<lambda>p. map_option (f p) (pcbs k p))\<rparr>) q"
  using assms unfolding can_reap_def currentRec_def currentPCB_def
  by (auto split: bind_splits)

lemma sleeping_one:
  assumes "ticked s [v] s1" "n \<noteq> v" "spcb (sl s n) \<noteq> spcb (sl s v)" "sleeping s n"
  shows "sleeping s1 n"
proof -
  obtain h where h: "tkern s1 = (tkern s)\<lparr>kheap := h,
       pcbs := (\<lambda>p. map_option (tick_pcb s [v] p) (pcbs (tkern s) p))\<rparr>"
    using assms(1) unfolding ticked_def by blast
  have "can_reap (tkern s1) (spcb (sl s n))" if "can_reap (tkern s) (spcb (sl s n))"
    unfolding h by (rule can_reap_fields [OF that]) simp
  with assms(4) ticked_one [OF assms(1-3)] show ?thesis by (auto simp: sleeping_def)
qed

lemma tick_pcbs_one: "pcbs (tkern s) (spcb (sl s v)) = Some c \<Longrightarrow>
    (\<lambda>p. map_option (tick_pcb s [v] p) (pcbs (tkern s) p)) = (pcbs (tkern s))
      (spcb (sl s v) \<mapsto> c\<lparr>state := tick_state (ticksRemaining (sl s v)) (state c)\<rparr>)"
  by (auto simp: fun_eq_iff tick_pcb_one option.map_ident cong: map_option_cong)

lemma state_triv: "c\<lparr>state := state c\<rparr> = c"
  by (cases c) simp

lemma ticked_removed:
  assumes x: "sl s v = x" "pcbs (tkern s) (spcb x) = Some c" "\<not> sleeps_on s v"
    and s1: "tkern s1 = (tkern s)\<lparr>pcbs := (pcbs (tkern s))
        (spcb x \<mapsto> c\<lparr>state := tick_state (ticksRemaining x) (state c)\<rparr>)\<rparr>"
      "\<forall>n. n \<noteq> v \<longrightarrow> nap s1 n = nap s n" "ticks s1 = ticks s"
    and s2: "same_but {v} s1 s2"
  shows "ticked s [v] s2"
proof -
  obtain h where "tkern s2 = (tkern s1)\<lparr>kheap := h\<rparr>" using s2 by (auto simp: same_but_def)
  then have "tkern s2 = (tkern s)\<lparr>kheap := h,
      pcbs := (\<lambda>p. map_option (tick_pcb s [v] p) (pcbs (tkern s) p))\<rparr>"
    using s1(1) x(1,2) tick_pcbs_one [of s v c] by simp
  then show ?thesis using s1 s2 x(3) by (auto simp: ticked_def same_but_def)
qed

context process_table
begin

lemma incLoop_prefix:
  "sseg (slept s) (sfirst s) (us @ vs @ ws) \<Longrightarrow> distinct (us @ vs @ ws) \<Longrightarrow> ok L (kheap (tkern s)) \<Longrightarrow>
   set vs \<subseteq> dom L \<Longrightarrow> distinct (map (\<lambda>n. spcb (sl s n)) vs) \<Longrightarrow> \<forall>n \<in> set vs. sleeping s n \<Longrightarrow>
     \<exists>s'. incLoop M ctx (last_of us) (first_of (vs @ ws)) s =
         incLoop M ctx (last_of (us @ filter (sleeps_on s) vs)) (first_of ws) s' \<and>
       sseg (slept s') (sfirst s') (us @ filter (sleeps_on s) vs @ ws) \<and> ticked s vs s' \<and>
       ok (L |` (- set (filter (\<lambda>n. \<not> sleeps_on s n) vs))) (kheap (tkern s'))"
proof (induction vs arbitrary: us s L)
  case Nil
  have "tick_pcb s [] p = (\<lambda>c. c)" for p by (simp add: tick_pcb_def fun_eq_iff)
  then have "\<exists>h. tkern s = (tkern s)\<lparr>kheap := h, pcbs := (\<lambda>p. map_option (tick_pcb s [] p) (pcbs (tkern s) p))\<rparr>"
    by (intro exI [of _ "kheap (tkern s)"]) (simp add: option.map_ident)
  with Nil show ?case by (intro exI [of _ s]) (simp add: ticked_def)
next
  case (Cons v vs)
  have seg0: "sseg (slept s) (sfirst s) (us @ v # vs @ ws)" "distinct (us @ v # vs @ ws)"
    using Cons.prems(1,2) by simp_all
  obtain x where x: "slept s v = Some x" "v \<noteq> NULL" "snext x = first_of (vs @ ws)"
    using sseg_node [OF seg0(1)] by blast
  then have sl: "sl s v = x" by (simp add: sl_def)
  have "sleeping s v" using Cons.prems(6) by simp
  then obtain c where c: "pcbs (tkern s) (spcb x) = Some c"
    "state c = BLOCKED \<or> state c = WAITING_FOR_EXIT \<and> can_reap (tkern s) (spcb x)"
    by (auto simp: sleeping_def sl)
  have notin: "v \<notin> set vs" "spcb (sl s v) \<notin> (\<lambda>n. spcb (sl s n)) ` set vs"
    using Cons.prems(2,5) by auto
  have go: "\<exists>s'. incLoop M ctx (last_of us') (first_of (vs @ ws)) s1 =
         incLoop M ctx (last_of (us' @ filter (sleeps_on s) vs)) (first_of ws) s' \<and>
       sseg (slept s') (sfirst s') (us' @ filter (sleeps_on s) vs @ ws) \<and> ticked s (v # vs) s' \<and>
       ok (L' |` (- set (filter (\<lambda>n. \<not> sleeps_on s n) vs))) (kheap (tkern s'))"
    if "ticked s [v] s1" "sseg (slept s1) (sfirst s1) (us' @ vs @ ws)" "distinct (us' @ vs @ ws)"
      "ok L' (kheap (tkern s1))" "set vs \<subseteq> dom L'" for s1 us' L'
  proof -
    have keep: "n \<noteq> v \<and> spcb (sl s n) \<noteq> spcb (sl s v)" if "n \<in> set vs" for n
      using notin that by (metis imageI)
    have same: "map (\<lambda>n. spcb (sl s1 n)) vs = map (\<lambda>n. spcb (sl s n)) vs"
      "filter (sleeps_on s1) vs = filter (sleeps_on s) vs"
      "filter (\<lambda>n. \<not> sleeps_on s1 n) vs = filter (\<lambda>n. \<not> sleeps_on s n) vs"
      using ticked_one [OF that(1)] keep by (auto intro: filter_cong)
    have "\<forall>n \<in> set vs. sleeping s1 n"
      using sleeping_one [OF that(1)] keep Cons.prems(6) by simp
    from Cons.IH [OF that(2-5) _ this, unfolded same] Cons.prems(5)
    show ?thesis using ticked_Cons [OF that(1) _ notin] by auto
  qed
  show ?case
  proof (cases "state c = BLOCKED \<and> ticksRemaining x \<noteq> 1")
    case True
    let ?y = "x\<lparr>ticksRemaining := ticksRemaining x - 1\<rparr>"
    let ?s = "s\<lparr>slept := (slept s)(v \<mapsto> ?y)\<rparr>"
    have stay: "sleeps_on s v" using True c by (simp add: sleeps_on_def in_state_def sl)
    have "tick_state (ticksRemaining x) (state c) = state c" using True by (simp add: tick_state_def)
    then have "(\<lambda>p. map_option (tick_pcb s [v] p) (pcbs (tkern s) p)) = pcbs (tkern s)"
      using tick_pcbs_one [of s v c] sl c(1) state_triv [of c] by (simp add: map_upd_id)
    then have "\<exists>h. tkern s = (tkern s)\<lparr>kheap := h, pcbs := (\<lambda>p. map_option (tick_pcb s [v] p) (pcbs (tkern s) p))\<rparr>"
      by (intro exI [of _ "kheap (tkern s)"]) simp
    then have tk: "ticked s [v] ?s"
      using stay sl by (auto simp: ticked_def nap_def sl_def)
    have run: "incLoop M ctx (last_of us) (first_of ((v # vs) @ ws)) s =
        incLoop M ctx (last_of (us @ [v])) (first_of (vs @ ws)) ?s"
      using True x c last_of_snoc by (simp add: incLoop.simps [of M ctx "last_of us" v])
    show ?thesis unfolding run
      using go [OF tk, of "us @ [v]" L] Cons.prems(1-4) sseg_upd [OF Cons.prems(1) x(1), of ?y] stay
      by simp
  next
    case False
    then have gone: "\<not> sleeps_on s v" using c(1) by (auto simp: sleeps_on_def in_state_def sl)
    define y where "y = x\<lparr>ticksRemaining := (if state c = BLOCKED then 0 else ticksRemaining x)\<rparr>"
    define s1 where "s1 = s\<lparr>slept := (slept s)(v \<mapsto> y), tkern := (tkern s)\<lparr>pcbs := (pcbs (tkern s))
        (spcb x \<mapsto> c\<lparr>state := tick_state (ticksRemaining x) (state c)\<rparr>)\<rparr>\<rparr>"
    have seg: "sseg (slept s1) (sfirst s1) (us @ v # vs @ ws)"
      using sseg_upd [OF seg0(1) x(1), of y] by (simp add: s1_def y_def)
    have h: "ok L (kheap (tkern s1))" "v \<in> dom L" using Cons.prems(3,4) by (simp_all add: s1_def)
    obtain s2 where s2: "removeFromSleepList M (last_of us) v s1 = Some (first_of (vs @ ws), s2)"
      "sseg (slept s2) (sfirst s2) (us @ vs @ ws)" "ok (L(v := None)) (kheap (tkern s2))" "same_but {v} s1 s2"
      using removeFromSleepList_ok [OF seg seg0(2) h] by blast
    have run: "incLoop M ctx (last_of us) (first_of ((v # vs) @ ws)) s =
        incLoop M ctx (last_of us) (first_of (vs @ ws)) s2"
    proof (cases "state c = BLOCKED")
      case True
      with False have "ticksRemaining x = 1" by simp
      with True x c s2(1) show ?thesis
        by (simp add: incLoop.simps [of M ctx "last_of us" v] readyProcess_def upd_pcb_def
            tick_state_def s1_def y_def)
    next
      case other: False
      then have st: "state c = WAITING_FOR_EXIT" "can_reap (tkern s) (spcb x)" using c(2) by auto
      have "s1 = s\<lparr>tkern := (tkern s)\<lparr>pcbs := (pcbs (tkern s))(spcb x \<mapsto> c\<lparr>state := EXITED\<rparr>)\<rparr>\<rparr>"
        using st x(1) by (simp add: s1_def y_def tick_state_def map_upd_id)
      with st x c s2(1) reap_one [OF st(2) c(1) st(1), of M ctx KILL_EXIT_CODE] show ?thesis
        by (simp add: incLoop.simps [of M ctx "last_of us" v] on_kern_def)
    qed
    have tk: "ticked s [v] s2"
      by (rule ticked_removed [OF sl c(1) gone _ _ _ s2(4)]) (simp_all add: s1_def nap_def sl_def)
    have r: "(L(v := None)) |` (- A) = L |` (- insert v A)" for A
      by (auto simp: restrict_map_def fun_eq_iff)
    have "distinct (us @ vs @ ws)" "set vs \<subseteq> dom (L(v := None))"
      using Cons.prems(2,4) notin(1) by auto
    from go [OF tk s2(2) this(1) s2(3) this(2), unfolded r] show ?thesis unfolding run
      using gone by simp
  qed
qed

end

section \<open>The properties\<close>

text \<open>\<open>ns\<close> are the nodes of the sleeping processes, each allocated and of another process.\<close>

definition timer_ok :: "(addr \<rightharpoonup> u64) \<Rightarrow> heap timer \<Rightarrow> addr list \<Rightarrow> bool" where
  "timer_ok L s ns \<longleftrightarrow> sseg (slept s) (sfirst s) ns \<and> distinct ns \<and>
     freelist_ok L (kheap (tkern s)) \<and> set ns \<subseteq> dom L \<and> distinct (map (\<lambda>n. spcb (sl s n)) ns)"

lemma sl_start [simp]: "sl (s\<lparr>ticks := t\<rparr>) = sl s"
  by (simp add: sl_def fun_eq_iff)

lemma nap_start [simp]: "nap (s\<lparr>ticks := t\<rparr>) n = nap s n"
    "sleeps_on (s\<lparr>ticks := t\<rparr>) = sleeps_on s" "sleeping (s\<lparr>ticks := t\<rparr>) = sleeping s"
    "tick_pcb (s\<lparr>ticks := t\<rparr>) = tick_pcb s"
  by (simp_all add: nap_def sleeps_on_def sleeping_def tick_pcb_def fun_eq_iff cong: option.case_cong)

lemma incTicks_ok:
  assumes "timer_ok L s ns" "\<forall>n \<in> set ns. sleeping s n"
  shows "\<exists>s'. incTicks freelist_mm ctx s = Some (Done (), s') \<and> ticks s' = ticks s + 1 \<and>
    timer_ok (L |` (- set (filter (\<lambda>n. \<not> sleeps_on s n) ns))) s' (filter (sleeps_on s) ns) \<and>
    (\<forall>n \<in> set (filter (sleeps_on s) ns). nap s' n = (spcb (sl s n), ticksRemaining (sl s n) - 1)) \<and>
    (\<exists>h. tkern s' = (tkern s)\<lparr>kheap := h,
       pcbs := (\<lambda>p. map_option (tick_pcb s ns p) (pcbs (tkern s) p))\<rparr>)"
proof -
  let ?s = "s\<lparr>ticks := ticks s + 1\<rparr>"
  note t = assms(1) [unfolded timer_ok_def]
  have "sseg (slept ?s) (sfirst ?s) ([] @ ns @ [])" using t by simp
  from kernel_heap.incLoop_prefix [OF this, of L ctx] t assms(2)
  obtain s' where s': "incLoop freelist_mm ctx (last_of []) (first_of ns) ?s =
      incLoop freelist_mm ctx (last_of (filter (sleeps_on s) ns)) NULL s'"
    "sseg (slept s') (sfirst s') (filter (sleeps_on s) ns)" "ticked ?s ns s'"
    "freelist_ok (L |` (- set (filter (\<lambda>n. \<not> sleeps_on s n) ns))) (kheap (tkern s'))"
    by auto
  have naps: "nap s' n = (spcb (sl s n), ticksRemaining (sl s n) - 1)"
    if "n \<in> set (filter (sleeps_on s) ns)" for n
    using s'(3) that by (auto simp: ticked_def)
  then have pcbs: "map (\<lambda>n. spcb (sl s' n)) (filter (sleeps_on s) ns) =
      map (\<lambda>n. spcb (sl s n)) (filter (sleeps_on s) ns)"
    by (auto simp: nap_def)
  have "distinct (map (\<lambda>n. spcb (sl s' n)) (filter (sleeps_on s) ns))"
    unfolding pcbs using t by (simp add: distinct_map_filter)
  then have "timer_ok (L |` (- set (filter (\<lambda>n. \<not> sleeps_on s n) ns))) s' (filter (sleeps_on s) ns)"
    using s'(2,4) t by (auto simp: timer_ok_def)
  moreover have "incTicks freelist_mm ctx s = Some (Done (), s')"
    using s'(1) sseg_first [of "slept s" "sfirst s" ns] t
    by (simp add: incTicks_def incLoop.simps [of freelist_mm ctx _ NULL] last_of_def)
  ultimately show ?thesis using s'(3) naps by (auto simp: ticked_def)
qed

text \<open>
  \<open>incTicks\<close> counts the tick and goes through the whole list: each sleeping process has one
  tick less, the ones that had one tick left are ready and off the list, the killed ones are
  ended and off the list, and no other process changes.
\<close>

theorem incTicks_wakes:
  assumes "timer_ok L s ns" "\<forall>n \<in> set ns. sleeping s n"
  shows "\<exists>s'. incTicks freelist_mm ctx s = Some (Done (), s') \<and> ticks s' = ticks s + 1 \<and>
    timer_ok (L |` (- set (filter (\<lambda>n. \<not> sleeps_on s n) ns))) s' (filter (sleeps_on s) ns) \<and>
    (\<forall>n \<in> set (filter (sleeps_on s) ns). nap s' n = (spcb (sl s n), ticksRemaining (sl s n) - 1)) \<and>
    (\<exists>h. tkern s' = (tkern s)\<lparr>kheap := h,
       pcbs := (\<lambda>p. map_option (tick_pcb s ns p) (pcbs (tkern s) p))\<rparr>)"
  by (rule incTicks_ok [OF assms])

definition demo_timer :: "State \<Rightarrow> u64 \<Rightarrow> heap \<Rightarrow> heap timer" where
  "demo_timer st t h = \<lparr>tkern = (demo_kernel st [] h)\<lparr>quantumsLeft := 5\<rparr>, ticks = 0, sfirst = 4528,
     slept = [4528 \<mapsto> \<lparr>ticksRemaining = t, spcb = 4464, snext = 0\<rparr>]\<rparr>"

lemma demo_sl: "sl (demo_timer st t h) 4528 = \<lparr>ticksRemaining = t, spcb = 4464, snext = 0\<rparr>"
  by (simp add: sl_def demo_timer_def)

lemma demo_timer_pcb:
  "pcbs (tkern (demo_timer st t h)) 4464 = Some (demo_pcb 1 st 4432 4368 4400 [])"
  by (simp add: demo_timer_def demo_kernel_def)

lemma demo_timer_ok: "freelist_ok (map_of demo_blocks) h \<Longrightarrow>
    timer_ok (map_of demo_blocks) (demo_timer st t h) [4528]"
  by (simp add: timer_ok_def demo_dom) (simp add: demo_timer_def demo_kernel_def)

theorem incTicks_wakes_witness:
  "\<exists>h s'. incTicks freelist_mm (0, 0) (demo_timer BLOCKED 1 h) = Some (Done (), s') \<and> sfirst s' = 0 \<and>
     pcbs (tkern s') 4464 = Some (demo_pcb 1 READY 4432 4368 4400 [])"
proof -
  obtain h where h: "freelist_ok (map_of demo_blocks) h" using demo_heap_blocks by blast
  let ?s = "demo_timer BLOCKED 1 h"
  have "\<forall>n \<in> set [4528]. sleeping ?s n"
    by (simp add: sleeping_def demo_sl demo_timer_pcb demo_pcb_def)
  from incTicks_wakes [OF demo_timer_ok [OF h] this, of "(0, 0)"]
  obtain s' h' where s': "incTicks freelist_mm (0, 0) ?s = Some (Done (), s')"
    "timer_ok (map_of demo_blocks |` (- set (filter (\<lambda>n. \<not> sleeps_on ?s n) [4528]))) s'
       (filter (sleeps_on ?s) [4528])"
    "tkern s' = (tkern ?s)\<lparr>kheap := h', pcbs := (\<lambda>p. map_option (tick_pcb ?s [4528] p) (pcbs (tkern ?s) p))\<rparr>"
    by blast
  have "\<not> sleeps_on ?s 4528" by (simp add: sleeps_on_def demo_sl)
  then have "sfirst s' = 0" using s'(2) by (simp add: timer_ok_def)
  moreover have "pcbs (tkern s') 4464 = Some (demo_pcb 1 READY 4432 4368 4400 [])"
    using s'(3) demo_timer_pcb [of BLOCKED 1 h]
    by (simp add: tick_pcb_def demo_sl tick_state_def demo_pcb_def)
  ultimately show ?thesis using s'(1) by blast
qed

text \<open>A run of timer interrupts, each with its own context.\<close>

fun run_ticks :: "heap mm \<Rightarrow> (addr \<times> addr) list \<Rightarrow> heap timer \<Rightarrow> heap timer option" where
  "run_ticks M [] s = Some s"
| "run_ticks M (ctx # ctxs) s = do {
     (r, s1) \<leftarrow> incTicks M ctx s;
     if r = Away then None else run_ticks M ctxs s1
   }"

lemma find_member: "List.find P xs = Some x \<Longrightarrow> x \<in> set xs \<and> P x"
  by (auto simp: find_Some_iff)

lemma find_only: "x \<in> set xs \<Longrightarrow> P x \<Longrightarrow> (\<And>y. y \<in> set xs \<Longrightarrow> P y \<Longrightarrow> y = x) \<Longrightarrow> List.find P xs = Some x"
  using find_member [of P xs] find_None_iff [of P xs] by (cases "List.find P xs") blast+

lemma tick_blocked:
  assumes "timer_ok L s ns" "n \<in> set ns" "in_state BLOCKED (tkern s) (spcb (sl s n))"
    and s': "tkern s' = (tkern s)\<lparr>kheap := h,
       pcbs := (\<lambda>p. map_option (tick_pcb s ns p) (pcbs (tkern s) p))\<rparr>"
  shows "in_state (if ticksRemaining (sl s n) = 1 then READY else BLOCKED) (tkern s') (spcb (sl s n))"
proof -
  have "inj_on (\<lambda>n. spcb (sl s n)) (set ns)" using assms(1) by (simp add: timer_ok_def distinct_map)
  then have "List.find (\<lambda>m. spcb (sl s m) = spcb (sl s n)) ns = Some n"
    using assms(2) by (intro find_only) (auto dest: inj_onD)
  moreover obtain c where "pcbs (tkern s) (spcb (sl s n)) = Some c" "state c = BLOCKED"
    using assms(3) by (auto simp: in_state_def)
  ultimately show ?thesis by (simp add: in_state_def tick_pcb_def tick_state_def s')
qed

lemma tick_others: "p \<notin> (\<lambda>n. spcb (sl s n)) ` set ns \<Longrightarrow> tick_pcb s ns p c = c"
  by (auto simp: tick_pcb_def dest: find_member split: option.splits)

lemma run_ticks_ok:
  "timer_ok L s ns \<Longrightarrow>
   \<forall>n \<in> set ns. in_state BLOCKED (tkern s) (spcb (sl s n)) \<and> ticksRemaining (sl s n) \<noteq> 0 \<Longrightarrow>
     \<exists>s'. run_ticks freelist_mm ctxs s = Some s' \<and>
       (\<forall>n \<in> set ns. in_state (if unat (ticksRemaining (sl s n)) \<le> length ctxs then READY else BLOCKED)
          (tkern s') (spcb (sl s n))) \<and>
       (\<forall>p. p \<notin> (\<lambda>n. spcb (sl s n)) ` set ns \<longrightarrow> pcbs (tkern s') p = pcbs (tkern s) p)"
proof (induction ctxs arbitrary: s ns L)
  case Nil
  then show ?case by (auto simp: unat_eq_0)
next
  case (Cons ctx ctxs)
  have "\<forall>n \<in> set ns. sleeping s n" using Cons.prems(2) by (auto simp: sleeping_def in_state_def)
  from incTicks_ok [OF Cons.prems(1) this, of ctx]
  obtain s1 h where s1: "incTicks freelist_mm ctx s = Some (Done (), s1)"
    "timer_ok (L |` (- set (filter (\<lambda>n. \<not> sleeps_on s n) ns))) s1 (filter (sleeps_on s) ns)"
    "\<forall>n \<in> set (filter (sleeps_on s) ns). nap s1 n = (spcb (sl s n), ticksRemaining (sl s n) - 1)"
    "tkern s1 = (tkern s)\<lparr>kheap := h, pcbs := (\<lambda>p. map_option (tick_pcb s ns p) (pcbs (tkern s) p))\<rparr>"
    by blast
  let ?ks = "filter (sleeps_on s) ns" and ?p = "\<lambda>n. spcb (sl s n)"
  have kept: "spcb (sl s1 n) = ?p n" "ticksRemaining (sl s1 n) = ticksRemaining (sl s n) - 1"
    if "n \<in> set ?ks" for n using s1(3) that by (auto simp: nap_def)
  have state1: "in_state (if ticksRemaining (sl s n) = 1 then READY else BLOCKED) (tkern s1) (?p n)"
    if "n \<in> set ns" for n
    using tick_blocked [OF Cons.prems(1) that _ s1(4)] Cons.prems(2) that by blast
  have "\<forall>n \<in> set ?ks. in_state BLOCKED (tkern s1) (spcb (sl s1 n)) \<and> ticksRemaining (sl s1 n) \<noteq> 0"
    using state1 kept by (force simp: sleeps_on_def)
  from Cons.IH [OF s1(2) this] obtain s' where s': "run_ticks freelist_mm ctxs s1 = Some s'"
    "\<forall>n \<in> set ?ks. in_state (if unat (ticksRemaining (sl s1 n)) \<le> length ctxs then READY else BLOCKED)
       (tkern s') (spcb (sl s1 n))"
    "\<forall>p. p \<notin> (\<lambda>n. spcb (sl s1 n)) ` set ?ks \<longrightarrow> pcbs (tkern s') p = pcbs (tkern s1) p" by blast
  have img: "(\<lambda>n. spcb (sl s1 n)) ` set ?ks = ?p ` set ?ks" using kept(1) by (intro image_cong) auto
  have inj: "inj_on ?p (set ns)" using Cons.prems(1) by (simp add: timer_ok_def distinct_map)
  have "in_state (if unat (ticksRemaining (sl s n)) \<le> Suc (length ctxs) then READY else BLOCKED)
      (tkern s') (?p n)" if n: "n \<in> set ns" for n
  proof (cases "ticksRemaining (sl s n) = 1")
    case True
    then have "n \<notin> set ?ks" by (simp add: sleeps_on_def)
    then have "?p n \<notin> ?p ` set ?ks" using inj n by (auto dest: inj_onD)
    then have "pcbs (tkern s') (?p n) = pcbs (tkern s1) (?p n)" using s'(3) img by metis
    then show ?thesis using True state1 [OF n] by (simp add: in_state_def)
  next
    case False
    then have "n \<in> set ?ks" using Cons.prems(2) n by (simp add: sleeps_on_def)
    moreover have "unat (ticksRemaining (sl s n) - 1) \<le> length ctxs \<longleftrightarrow>
        unat (ticksRemaining (sl s n)) \<le> Suc (length ctxs)"
      using Cons.prems(2) n unat_minus_one [of "ticksRemaining (sl s n)"] by auto
    ultimately show ?thesis using s'(2) kept [of n] by auto
  qed
  moreover have "pcbs (tkern s') p = pcbs (tkern s) p" if "p \<notin> ?p ` set ns" for p
  proof -
    have "p \<notin> ?p ` set ?ks" using that by auto
    then have "pcbs (tkern s') p = pcbs (tkern s1) p" using s'(3) img by metis
    then show ?thesis using tick_others [OF that]
      by (cases "pcbs (tkern s) p") (simp_all add: s1(4))
  qed
  ultimately show ?case using s1(1) s'(1) by auto
qed

text \<open>
  C21: over a run of \<open>k\<close> timer interrupts every sleeping process that had at most \<open>k\<close> ticks left
  is made ready, and every other one still sleeps.
\<close>

theorem sleep_lasts:
  assumes "timer_ok L s ns"
    and "\<forall>n \<in> set ns. in_state BLOCKED (tkern s) (spcb (sl s n)) \<and> ticksRemaining (sl s n) \<noteq> 0"
  shows "\<exists>s'. run_ticks freelist_mm ctxs s = Some s' \<and>
    (\<forall>n \<in> set ns. in_state (if unat (ticksRemaining (sl s n)) \<le> length ctxs then READY else BLOCKED)
       (tkern s') (spcb (sl s n)))"
  using run_ticks_ok [OF assms] by blast

theorem sleep_lasts_witness:
  "\<exists>h s'. run_ticks freelist_mm [(0, 0), (0, 0)] (demo_timer BLOCKED 3 h) = Some s' \<and>
     in_state BLOCKED (tkern s') 4464"
proof -
  obtain h where h: "freelist_ok (map_of demo_blocks) h" using demo_heap_blocks by blast
  have "\<forall>n \<in> set [4528]. in_state BLOCKED (tkern (demo_timer BLOCKED 3 h)) (spcb (sl (demo_timer BLOCKED 3 h) n)) \<and>
      ticksRemaining (sl (demo_timer BLOCKED 3 h) n) \<noteq> 0"
    by (simp add: demo_sl in_state_def demo_timer_pcb demo_pcb_def)
  from sleep_lasts [OF demo_timer_ok [OF h] this, of "[(0, 0), (0, 0)]"]
  show ?thesis by (auto simp: demo_sl)
qed

text \<open>A process on the list that is neither blocked nor killed stops the loop from advancing.\<close>

lemma incLoop_stuck:
  assumes "slept s cur = Some x" "pcbs (tkern s) (spcb x) = Some c" "cur \<noteq> NULL"
    "state c \<noteq> BLOCKED" "state c \<noteq> WAITING_FOR_EXIT"
  shows "incLoop M ctx prv cur s = None"
proof -
  have "incLoop M1 ctx1 p1 c1 s1 = Some r \<Longrightarrow> \<not> (c1 = cur \<and> s1 = s)" for M1 ctx1 p1 c1 s1 r
    by (erule incLoop.raw_induct [where P = "\<lambda>M ctx p c s1 r. \<not> (c = cur \<and> s1 = s)", rotated])
      (use assms in fastforce)
  then show ?thesis by (cases "incLoop M ctx prv cur s") blast+
qed

lemma slept_on_list: "sseg N a ns \<Longrightarrow> n \<in> set ns \<Longrightarrow> N n \<noteq> None"
  by (induction ns arbitrary: a) auto

text \<open>
  C22: \<open>incTicks\<close> returns exactly when every process on its list is blocked or killed: with any
  other process there the interrupt handler never ends.
\<close>

theorem incTicks_returns_iff:
  assumes "timer_ok L s ns" "\<forall>n \<in> set ns. pcbs (tkern s) (spcb (sl s n)) \<noteq> None"
    and "\<forall>n \<in> set ns. killed (tkern s) (spcb (sl s n)) \<longrightarrow> can_reap (tkern s) (spcb (sl s n))"
  shows "(\<exists>r. incTicks freelist_mm ctx s = Some r) \<longleftrightarrow>
    (\<forall>n \<in> set ns. in_state BLOCKED (tkern s) (spcb (sl s n)) \<or> killed (tkern s) (spcb (sl s n)))"
proof -
  have good: "sleeping s n \<longleftrightarrow> in_state BLOCKED (tkern s) (spcb (sl s n)) \<or> killed (tkern s) (spcb (sl s n))"
    if "n \<in> set ns" for n using assms(3) that by (auto simp: sleeping_def in_state_def)
  show ?thesis
  proof (cases "\<forall>n \<in> set ns. sleeping s n")
    case True
    with incTicks_ok [OF assms(1)] good show ?thesis by blast
  next
    case False
    then obtain us v ws where ns: "ns = us @ v # ws" "\<forall>n \<in> set us. sleeping s n" "\<not> sleeping s v"
      using split_list_first_prop [of ns "\<lambda>n. \<not> sleeping s n"] by blast
    let ?s = "s\<lparr>ticks := ticks s + 1\<rparr>"
    note t = assms(1) [unfolded timer_ok_def ns(1)]
    have seg: "sseg (slept ?s) (sfirst ?s) ([] @ us @ v # ws)" "distinct ([] @ us @ v # ws)"
      "freelist_ok L (kheap (tkern ?s))" "set us \<subseteq> dom L" "distinct (map (\<lambda>n. spcb (sl ?s n)) us)"
      "\<forall>n \<in> set us. sleeping ?s n" using t ns(2) by simp_all
    from kernel_heap.incLoop_prefix [OF this, of ctx] obtain s' where
      s': "incLoop freelist_mm ctx NULL (first_of ns) ?s =
        incLoop freelist_mm ctx (last_of (filter (sleeps_on s) us)) v s'"
      "sseg (slept s') (sfirst s') (filter (sleeps_on s) us @ v # ws)" "ticked ?s us s'"
      by (auto simp: last_of_def ns(1))
    obtain x where x: "slept s' v = Some x" "v \<noteq> NULL" using sseg_node [OF s'(2)] by blast
    obtain c where c: "pcbs (tkern s) (spcb (sl s v)) = Some c" using assms(2) ns(1) by auto
    have notin: "v \<notin> set us" "spcb (sl s v) \<notin> (\<lambda>n. spcb (sl s n)) ` set us" using t by auto
    have "spcb x = spcb (sl s v)" using s'(3) x(1) notin(1) by (auto simp: ticked_def nap_def sl_def)
    moreover have "pcbs (tkern s') (spcb (sl s v)) = Some c"
      using s'(3) c tick_others [OF notin(2)] by (auto simp: ticked_def)
    moreover have "state c \<noteq> BLOCKED" "state c \<noteq> WAITING_FOR_EXIT"
      using good [of v] ns(1,3) c by (auto simp: in_state_def)
    ultimately have "incLoop freelist_mm ctx (last_of (filter (sleeps_on s) us)) v s' = None"
      using incLoop_stuck [OF x(1) _ x(2)] by metis
    then have "incTicks freelist_mm ctx s = None"
      using s'(1) sseg_first [of "slept s" "sfirst s" ns] t ns(1) by (simp add: incTicks_def)
    then show ?thesis using False good by auto
  qed
qed

theorem incTicks_returns_iff_witness:
  "\<exists>h. freelist_ok (map_of demo_blocks) h \<and>
     incTicks freelist_mm (0, 0) (demo_timer READY 1 h) = None \<and>
     (\<exists>r. incTicks freelist_mm (0, 0) (demo_timer BLOCKED 1 h) = Some r)"
proof -
  obtain h where h: "freelist_ok (map_of demo_blocks) h" using demo_heap_blocks by blast
  have "(\<exists>r. incTicks freelist_mm (0, 0) (demo_timer st 1 h) = Some r) = (st = BLOCKED)"
    if "st \<noteq> WAITING_FOR_EXIT" for st
    using incTicks_returns_iff [OF demo_timer_ok [OF h], of st 1 "(0, 0)"] that
    by (auto simp: demo_sl in_state_def demo_timer_pcb demo_pcb_def)
  from this [of READY] this [of BLOCKED] h show ?thesis
    by (auto simp: not_Some_eq [symmetric])
qed

section \<open>Ctrl+C on a process that sleeps\<close>

text \<open>The current process \<open>p\<close> keeps the processor for this quantum.\<close>

definition runs_on :: "'h kernel \<Rightarrow> addr \<Rightarrow> u32 \<Rightarrow> bool" where
  "runs_on k p i \<longleftrightarrow> currentPCB k = Some p \<and>
     (\<exists>r. pcbs k p = Some r \<and> state r = RUNNING \<and> pid r = i)"

lemma schedule_stays:
  assumes "runs_on k p i" "quantumsLeft k > 0"
  shows "\<exists>k'. schedule M sp bp k = Some (sp, k') \<and> runs_on k' p i \<and> current k' = current k \<and>
    quantumsLeft k' = quantumsLeft k - 1 \<and> processInForeground k' = processInForeground k \<and>
    (\<forall>q. q \<noteq> p \<longrightarrow> pcbs k' q = pcbs k q)"
  using assms by (auto simp: runs_on_def schedule_def upd_pcb_def currentPCB_def)

text \<open>The first \<open>Ctrl+C\<close> marks the blocked process as killed, the second one as ended.\<close>

lemma ctrl_c_blocked:
  assumes run: "runs_on k p i" "quantumsLeft k > 0"
    and c: "pcbs k f = Some c" "state c = BLOCKED" "pid c \<noteq> 0" "pid c \<noteq> i" "processInForeground k = f"
    and h: "mm_free M (heap c) (kheap k) = Some h" "heap c \<notin> {p, f, current k}"
  shows "\<exists>k'. killCurrentProcessInForeground M ctx k = Some (Done (), k') \<and> runs_on k' p i \<and>
    quantumsLeft k' = quantumsLeft k - 1 \<and> processInForeground k' = f \<and>
    pcbs k' f = Some (c\<lparr>state := WAITING_FOR_EXIT, heapFreed := True\<rparr>)"
proof -
  obtain r where r: "currentPCB k = Some p" "pcbs k p = Some r" "state r = RUNNING" "pid r = i"
    using run(1) by (auto simp: runs_on_def)
  obtain x where x: "nodes k (current k) = Some x" "pcb x = p" using r(1) by (auto simp: currentPCB_def)
  let ?c = "c\<lparr>state := WAITING_FOR_EXIT, heapFreed := True\<rparr>"
  have pf: "p \<noteq> f" using r c by auto
  have ne: "p \<noteq> heap c" "f \<noteq> heap c" "current k \<noteq> heap c" using h(2) by auto
  define k1 where "k1 = k\<lparr>kheap := h, pcbs := (pcbs k)(f \<mapsto> c\<lparr>state := WAITING_FOR_EXIT\<rparr>,
      heap c := None, f \<mapsto> ?c), nodes := (nodes k)(heap c := None), stacks := (stacks k)(heap c := None)\<rparr>"
  have k1: "runs_on k1 p i" "quantumsLeft k1 > 0" "processInForeground k1 = f"
    using r x h(2) pf run(2) c(5) by (auto simp: k1_def runs_on_def currentPCB_def)
  have "exitProcessByPCB M ctx f KILL_EXIT_CODE k = Some (Done (), k1)"
    using c r x h(1) ne pf by (simp add: exitProcessByPCB_def exitGo.simps [of M ctx "ExitProcess f _"]
        upd_pcb_def kfree_def k1_def currentRec_def currentPCB_def)
  moreover obtain k' where "schedule M (fst ctx) (snd ctx) k1 = Some (fst ctx, k')" "runs_on k' p i"
    "current k' = current k1" "quantumsLeft k' = quantumsLeft k1 - 1"
    "processInForeground k' = processInForeground k1" "\<forall>q. q \<noteq> p \<longrightarrow> pcbs k' q = pcbs k1 q"
    using schedule_stays [OF k1(1,2)] by blast
  ultimately show ?thesis using c(1,3,5) pf k1(3)
    by (simp add: killCurrentProcessInForeground_def then_run_def contextSwitch_def)
      (simp add: k1_def)
qed

lemma ctrl_c_killed:
  assumes run: "runs_on k p i" "quantumsLeft k > 0"
    and c: "pcbs k f = Some c" "state c = WAITING_FOR_EXIT" "pid c \<noteq> 0" "pid c \<noteq> i"
      "processInForeground k = f" "wfmLen c = 0"
  shows "\<exists>k'. killCurrentProcessInForeground M ctx k = Some (Done (), k') \<and> runs_on k' p i \<and>
    quantumsLeft k' = quantumsLeft k - 1 \<and> pcbs k' f = Some (c\<lparr>state := EXITED\<rparr>)"
proof -
  obtain r where r: "currentPCB k = Some p" "pcbs k p = Some r" "state r = RUNNING" "pid r = i"
    using run(1) by (auto simp: runs_on_def)
  obtain x where x: "nodes k (current k) = Some x" "pcb x = p" using r(1) by (auto simp: currentPCB_def)
  have pf: "p \<noteq> f" using r c by auto
  define k1 where "k1 = k\<lparr>pcbs := (pcbs k)(f \<mapsto> c\<lparr>state := EXITED\<rparr>), processInForeground := parentProc c\<rparr>"
  have k1: "runs_on k1 p i" "quantumsLeft k1 > 0"
    using r x pf run(2) by (auto simp: k1_def runs_on_def currentPCB_def)
  have "exitProcessByPCB M ctx f KILL_EXIT_CODE k = Some (Done (), k1)"
    using c r x pf by (simp add: exitProcessByPCB_def exitGo.simps [of M ctx "ExitProcess f _"]
        exitGo.simps [of M ctx "NotifyWaiters f _ 0"] upd_pcb_def k1_def currentRec_def currentPCB_def)
  moreover obtain k' where "schedule M (fst ctx) (snd ctx) k1 = Some (fst ctx, k')" "runs_on k' p i"
    "current k' = current k1" "quantumsLeft k' = quantumsLeft k1 - 1"
    "\<forall>q. q \<noteq> p \<longrightarrow> pcbs k' q = pcbs k1 q"
    using schedule_stays [OF k1] by blast
  ultimately show ?thesis using c(1,3,5) pf
    by (simp add: killCurrentProcessInForeground_def then_run_def contextSwitch_def)
      (simp add: k1_def)
qed



end
