(* ===== verification/Keyboard.thy ===== *)
theory Keyboard
  imports Pipes
begin

text \<open>
  The keyboard driver (\<open>Kernel/c/keyboard.c\<close>) with the tables of \<open>Kernel/include/layouts.h\<close>:
  from the code of a key to the character it puts into the standard input. The code is what
  \<open>readKeyCode\<close> reads from the port of the device.
\<close>

record ModifierKeys =
  leftShiftPressed :: bool
  rightShiftPressed :: bool
  ctrlPressed :: bool
  altPressed :: bool
  capsLockActive :: bool

record 'h keyboard =
  psys :: "'h pipeSys"
  md :: ModifierKeys
  kbLayout :: u32

definition CAPS_LOCK :: byte where "CAPS_LOCK = 0x3A"
definition LEFT_SHIFT :: byte where "LEFT_SHIFT = 0x2A"
definition RIGHT_SHIFT :: byte where "RIGHT_SHIFT = 0x36"
definition CTRL :: byte where "CTRL = 0x1D"
definition ALT :: byte where "ALT = 0x38"

lemmas key_codes = CAPS_LOCK_def LEFT_SHIFT_def RIGHT_SHIFT_def CTRL_def ALT_def

definition QWERTY_LATAM :: u32 where "QWERTY_LATAM = 0"
definition QWERTY_US :: u32 where "QWERTY_US = 1"

definition LAYOUT_SIZE :: byte where "LAYOUT_SIZE = 0x57"

definition EOF :: byte where "EOF = - 1"

section \<open>The layouts\<close>

definition layoutMaps :: "byte list list" where
  "layoutMaps =
    [[0, 27, 49, 50, 51, 52, 53, 54, 55, 56, 57, 48, 39, 0, 8, 9, 113, 119, 101, 114, 116, 121,
      117, 105, 111, 112, 0, 43, 10, 0, 97, 115, 100, 102, 103, 104, 106, 107, 108, 0, 123, 0, 0, 125,
      122, 120, 99, 118, 98, 110, 109, 44, 46, 45, 0, 0, 0, 32, 0, 0, 0, 0, 0, 0, 0, 0,
      0, 0, 0, 0, 0, 0, 0, 0, 0, 0, 0, 0, 0, 0, 0, 0, 0, 0, 0, 0, 60],
     [0, 27, 49, 50, 51, 52, 53, 54, 55, 56, 57, 48, 45, 61, 8, 9, 113, 119, 101, 114, 116, 121,
      117, 105, 111, 112, 91, 93, 10, 0, 97, 115, 100, 102, 103, 104, 106, 107, 108, 59, 39, 0, 0, 0,
      122, 120, 99, 118, 98, 110, 109, 44, 46, 47, 0, 0, 0, 32, 0, 0, 0, 0, 0, 0, 0, 0,
      0, 0, 0, 0, 0, 0, 0, 0, 0, 0, 0, 0, 0, 0, 0, 0, 0, 0, 0, 0, 0]]"

definition layoutShiftMaps :: "byte list list" where
  "layoutShiftMaps =
    [[0, 27, 33, 34, 35, 36, 37, 38, 47, 40, 41, 61, 63, 0, 8, 9, 81, 87, 69, 82, 84, 89,
      85, 73, 79, 80, 0, 42, 10, 0, 65, 83, 68, 70, 71, 72, 74, 75, 76, 0, 91, 0, 0, 93,
      90, 88, 67, 86, 66, 78, 77, 59, 58, 95, 0, 0, 0, 32, 0, 0, 0, 0, 0, 0, 0, 0,
      0, 0, 0, 0, 0, 0, 0, 0, 0, 0, 0, 0, 0, 0, 0, 0, 0, 0, 0, 0, 62],
     [0, 27, 33, 64, 35, 36, 37, 94, 38, 42, 40, 41, 95, 43, 8, 9, 81, 87, 69, 82, 84, 89,
      85, 73, 79, 80, 123, 125, 10, 0, 65, 83, 68, 70, 71, 72, 74, 75, 76, 58, 34, 0, 0, 0,
      90, 88, 67, 86, 66, 78, 77, 60, 62, 63, 0, 0, 0, 32, 0, 0, 0, 0, 0, 0, 0, 0,
      0, 0, 0, 0, 0, 0, 0, 0, 0, 0, 0, 0, 0, 0, 0, 0, 0, 0, 0, 0, 0]]"

text \<open>\<open>setLayout\<close> is a system call that takes any number; \<open>getLayout\<close> reads it back.\<close>

definition setLayout :: "u32 \<Rightarrow> 'h keyboard \<Rightarrow> 'h keyboard" where
  "setLayout layout s = s\<lparr>kbLayout := layout\<rparr>"

definition getLayout :: "'h keyboard \<Rightarrow> u32" where
  "getLayout s = kbLayout s"

text \<open>\<open>maps[kbLayout][code]\<close>, a fault when there is no such layout.\<close>

definition layout_char :: "byte list list \<Rightarrow> u32 \<Rightarrow> byte \<Rightarrow> byte option" where
  "layout_char maps layout code =
     (if unat layout < length maps \<and> unat code < length (maps ! unat layout)
      then Some (maps ! unat layout ! unat code) else None)"

section \<open>A key\<close>

text \<open>The cases of the \<open>switch\<close> for the modifier keys; \<open>None\<close> is its \<open>default\<close>.\<close>

definition modifier :: "byte \<Rightarrow> (ModifierKeys \<Rightarrow> ModifierKeys) option" where
  "modifier code =
     (if code = LEFT_SHIFT then Some (leftShiftPressed_update (\<lambda>_. True))
      else if code = LEFT_SHIFT + 0x80 then Some (leftShiftPressed_update (\<lambda>_. False))
      else if code = RIGHT_SHIFT then Some (rightShiftPressed_update (\<lambda>_. True))
      else if code = RIGHT_SHIFT + 0x80 then Some (rightShiftPressed_update (\<lambda>_. False))
      else if code = CTRL then Some (ctrlPressed_update (\<lambda>_. True))
      else if code = CTRL + 0x80 then Some (ctrlPressed_update (\<lambda>_. False))
      else if code = ALT then Some (altPressed_update (\<lambda>_. True))
      else if code = ALT + 0x80 then Some (altPressed_update (\<lambda>_. False))
      else if code = CAPS_LOCK then Some (\<lambda>m. m\<lparr>capsLockActive := \<not> capsLockActive m\<rparr>)
      else None)"

definition in_pipes ::
  "('h pipeSys \<Rightarrow> ('r \<times> 'h pipeSys) option) \<Rightarrow> 'h keyboard \<Rightarrow> ('r \<times> 'h keyboard) option" where
  "in_pipes f s = do { (r, p) \<leftarrow> f (psys s); Some (r, s\<lparr>psys := p\<rparr>) }"

text \<open>The \<open>default\<close> case.\<close>

definition character_key ::
  "'h mm \<Rightarrow> addr \<times> addr \<Rightarrow> byte \<Rightarrow> 'h keyboard \<Rightarrow> (unit run \<times> 'h keyboard) option" where
  "character_key M ctx code s =
     (if code \<ge> LAYOUT_SIZE then Some (Done (), s)
      else do {
        c \<leftarrow> layout_char
          (if capsLockActive (md s) \<noteq> (leftShiftPressed (md s) \<or> rightShiftPressed (md s))
           then layoutShiftMaps else layoutMaps) (kbLayout s) code;
        if c = 0 then Some (Done (), s)
        else if ctrlPressed (md s) \<and> (c = 67 \<or> c = 99)
        then in_pipes (in_sems (in_kern (killCurrentProcessInForeground M ctx))) s
        else in_pipes (writeStdin M ctx
               (if ctrlPressed (md s) \<and> (c = 68 \<or> c = 100) then EOF else c)) s
      })"

definition readKeyToBuffer ::
  "'h mm \<Rightarrow> addr \<times> addr \<Rightarrow> byte \<Rightarrow> 'h keyboard \<Rightarrow> (unit run \<times> 'h keyboard) option" where
  "readKeyToBuffer M ctx code s =
     (case modifier code of
        Some f \<Rightarrow> Some (Done (), s\<lparr>md := f (md s)\<rparr>)
      | None \<Rightarrow> character_key M ctx code s)"

definition getModKeys :: "'h keyboard \<Rightarrow> ModifierKeys" where
  "getModKeys s = \<lparr>leftShiftPressed = leftShiftPressed (md s), rightShiftPressed = rightShiftPressed (md s),
     ctrlPressed = ctrlPressed (md s), altPressed = altPressed (md s),
     capsLockActive = capsLockActive (md s)\<rparr>"

end
