(* ===== verification/KeyProps.thy ===== *)
theory KeyProps
  imports Keyboard PipeProps
begin

text \<open>
  What the keyboard driver makes of a sequence of key codes: the modifiers are a function of the
  history of the codes, and the characters arrive in the standard input in order.
\<close>

section \<open>The modifiers as history\<close>

text \<open>Whether a key is held: the last of its two codes in the history is that of the press.\<close>

definition held_key :: "byte \<Rightarrow> byte list \<Rightarrow> bool" where
  "held_key k h = (case filter (\<lambda>c. c = k \<or> c = k + 0x80) (rev h) of [] \<Rightarrow> False | c # _ \<Rightarrow> c = k)"

definition caps_on :: "byte list \<Rightarrow> bool" where
  "caps_on h = odd (length (filter (\<lambda>c. c = CAPS_LOCK) h))"

definition mods_of :: "byte list \<Rightarrow> ModifierKeys" where
  "mods_of h = \<lparr>leftShiftPressed = held_key LEFT_SHIFT h, rightShiftPressed = held_key RIGHT_SHIFT h,
     ctrlPressed = held_key CTRL h, altPressed = held_key ALT h, capsLockActive = caps_on h\<rparr>"

lemma held_snoc: "held_key k (h @ [c]) = (if c = k then True else if c = k + 0x80 then False else held_key k h)"
  by (simp add: held_key_def)

lemma caps_snoc: "caps_on (h @ [c]) = (caps_on h \<noteq> (c = CAPS_LOCK))"
  by (simp add: caps_on_def)

lemma modifier_history:
  "mods_of (h @ [c]) = (case modifier c of None \<Rightarrow> mods_of h | Some f \<Rightarrow> f (mods_of h))"
  by (auto simp: mods_of_def held_snoc caps_snoc modifier_def key_codes split: option.splits)

section \<open>The characters\<close>

text \<open>The character of a key with the modifiers \<open>m\<close>: none, one, or (\<open>None\<close>) the end of the process in
  the foreground or a layout that does not exist.\<close>

definition key_chars :: "u32 \<Rightarrow> ModifierKeys \<Rightarrow> byte \<Rightarrow> byte list option" where
  "key_chars lay m code =
     (if modifier code \<noteq> None \<or> code \<ge> LAYOUT_SIZE then Some []
      else do {
        c \<leftarrow> layout_char (if capsLockActive m \<noteq> (leftShiftPressed m \<or> rightShiftPressed m)
               then layoutShiftMaps else layoutMaps) lay code;
        if c = 0 then Some []
        else if ctrlPressed m \<and> (c = 67 \<or> c = 99) then None
        else Some [if ctrlPressed m \<and> (c = 68 \<or> c = 100) then EOF else c]
      })"

fun typed :: "u32 \<Rightarrow> byte list \<Rightarrow> byte list \<Rightarrow> byte list option" where
  "typed lay h [] = Some []"
| "typed lay h (code # codes) = do {
     cs \<leftarrow> key_chars lay (mods_of h) code;
     ds \<leftarrow> typed lay (h @ [code]) codes;
     Some (cs @ ds)
   }"

text \<open>The interrupts of a sequence of keys.\<close>

fun run_keys :: "'h mm \<Rightarrow> addr \<times> addr \<Rightarrow> byte list \<Rightarrow> 'h keyboard \<Rightarrow> (unit run \<times> 'h keyboard) option" where
  "run_keys M ctx [] s = Some (Done (), s)"
| "run_keys M ctx (code # codes) s = then_run (readKeyToBuffer M ctx code s) (run_keys M ctx codes)"

text \<open>The standard input holds the bytes \<open>q\<close> and no process waits for it.\<close>

definition stdin_ok :: "(addr \<rightharpoonup> u64) \<Rightarrow> (nat \<Rightarrow> addr list) \<Rightarrow> 'h pipeSys \<Rightarrow> byte list \<Rightarrow> bool" where
  "stdin_ok L Q s q \<longleftrightarrow> sems_ok L (sems s) Q \<and> ring_rep (stdinPipe s) q \<and>
     quiet (sems s) Q (writtenCountSem (stdinPipe s)) (length q)"

context pipes
begin

lemma writeStdin_ok:
  assumes ok: "stdin_ok L Q s q" and room: "length q < BUFFER_SIZE"
  shows "\<exists>s'. writeStdin M ctx c s = Some (Done (), s') \<and> stdin_ok L Q s' (q @ [c])"
proof -
  have ring: "ring_rep (stdinPipe s) q" using ok by (simp add: stdin_ok_def)
  obtain p where p: "put_byte c (stdinPipe s) = Some p" "ring_rep p (q @ [c])"
    "writtenCountSem p = writtenCountSem (stdinPipe s)"
    using put_byte_ring [OF ring room] by blast
  have "Suc (length q) < 2 ^ 32" using room by (simp add: BUFFER_SIZE_def)
  then obtain t where t: "postSemaphore M ctx (writtenCountSem p) (sems s) = Some (Done True, t)"
    "sems_ok L t Q" "quiet t Q (writtenCountSem p) (Suc (length q))"
    using post_quiet [of L "sems s" Q "writtenCountSem p" "length q" ctx] ok p(3)
    by (auto simp: stdin_ok_def)
  show ?thesis
    by (intro exI [of _ "s\<lparr>stdinPipe := p, sems := t\<rparr>"])
      (use p(1,2) t in \<open>simp add: writeStdin_def post_sem_def in_sems_def then_run_def stdin_ok_def\<close>)
qed

lemma key_ok:
  assumes "stdin_ok L Q (psys s) q" "md s = mods_of h" "key_chars (kbLayout s) (mods_of h) code = Some cs"
    and "length (q @ cs) \<le> BUFFER_SIZE"
  shows "\<exists>s'. readKeyToBuffer M ctx code s = Some (Done (), s') \<and> stdin_ok L Q (psys s') (q @ cs) \<and>
    md s' = mods_of (h @ [code]) \<and> kbLayout s' = kbLayout s"
proof (cases "modifier code")
  case None
  then have m: "mods_of (h @ [code]) = mods_of h" by (simp add: modifier_history)
  show ?thesis
  proof (cases "cs = []")
    case True
    with assms None m show ?thesis
      by (auto simp: readKeyToBuffer_def character_key_def key_chars_def split: if_splits bind_splits)
  next
    case False
    then obtain c where c: "cs = [c]" "character_key M ctx code s = in_pipes (writeStdin M ctx c) s"
      using assms(2,3) None by (auto simp: key_chars_def character_key_def split: if_splits bind_splits)
    have "length q < BUFFER_SIZE" using assms(4) c(1) by simp
    then obtain p where "writeStdin M ctx c (psys s) = Some (Done (), p)" "stdin_ok L Q p (q @ [c])"
      using writeStdin_ok [OF assms(1)] by blast
    with c None m assms(2) show ?thesis by (simp add: readKeyToBuffer_def in_pipes_def)
  qed
next
  case (Some f)
  with assms show ?thesis by (auto simp: readKeyToBuffer_def key_chars_def modifier_history)
qed

lemma run_keys_ok:
  "stdin_ok L Q (psys s) q \<Longrightarrow> md s = mods_of h \<Longrightarrow> typed (kbLayout s) h codes = Some out \<Longrightarrow>
   length (q @ out) \<le> BUFFER_SIZE \<Longrightarrow>
     \<exists>s'. run_keys M ctx codes s = Some (Done (), s') \<and> stdin_ok L Q (psys s') (q @ out) \<and>
       md s' = mods_of (h @ codes)"
proof (induction codes arbitrary: s q h out)
  case (Cons code codes)
  then obtain cs ds where d: "key_chars (kbLayout s) (mods_of h) code = Some cs"
    "typed (kbLayout s) (h @ [code]) codes = Some ds" "out = cs @ ds"
    by (auto split: bind_splits)
  obtain s1 where s1: "readKeyToBuffer M ctx code s = Some (Done (), s1)" "stdin_ok L Q (psys s1) (q @ cs)"
    "md s1 = mods_of (h @ [code])" "kbLayout s1 = kbLayout s"
    using key_ok [OF Cons.prems(1,2) d(1), of ctx] Cons.prems(4) d(3) by auto
  from Cons.IH [OF s1(2,3), of ds] d Cons.prems(4) s1
  show ?case by (simp add: then_run_def)
qed simp

end

text \<open>
  Over a sequence of key codes that does not end the foreground process and whose characters fit
  in the standard input, every interrupt returns, the characters arrive in the order of the keys,
  upper case exactly when caps lock is on and no shift key is held or the other way round, and a
  modifier is on exactly when the last code of its key was that of the press (caps lock: when it
  was pressed an odd number of times).
\<close>

theorem keys_typed:
  assumes "stdin_ok L Q (psys s) q" "md s = mods_of h" "typed (kbLayout s) h codes = Some out"
    and "length (q @ out) \<le> BUFFER_SIZE"
  shows "\<exists>s'. run_keys freelist_mm ctx codes s = Some (Done (), s') \<and> stdin_ok L Q (psys s') (q @ out) \<and>
    getModKeys s' = mods_of (h @ codes)"
  using kernel_pipes.run_keys_ok [OF assms, of ctx] by (auto simp: getModKeys_def)

text \<open>Left shift, \<open>a\<close>, release, \<open>b\<close>, control, \<open>d\<close>.\<close>

theorem keys_typed_witness:
  "\<exists>s'. run_keys freelist_mm (0, 0) [0x2A, 0x1E, 0xAA, 0x30, 0x1D, 0x20]
       \<lparr>psys = demo_pipes [7], md = mods_of [], kbLayout = QWERTY_US\<rparr> = Some (Done (), s') \<and>
     stdin_ok Map.empty (\<lambda>_. []) (psys s') [7, 65, 98, - 1] \<and> ctrlPressed (getModKeys s')"
proof -
  let ?s = "\<lparr>psys = demo_pipes [7], md = mods_of [], kbLayout = QWERTY_US\<rparr>"
  have "length [7 :: byte] \<le> BUFFER_SIZE" by (simp add: BUFFER_SIZE_def)
  then have ok: "stdin_ok Map.empty (\<lambda>_. []) (psys ?s) [7]"
    using demo_pipe_sems [of "[7]"] demo_pipe_ring [of "[7]"] demo_pipe_quiet [of "[7]"]
    by (simp add: stdin_ok_def demo_pipes_def demo_pipe_def)
  have out: "typed (kbLayout ?s) [] [0x2A, 0x1E, 0xAA, 0x30, 0x1D, 0x20] = Some [65, 98, - 1]"
    by code_simp
  have "ctrlPressed (mods_of [0x2A, 0x1E, 0xAA, 0x30, 0x1D, 0x20])" by code_simp
  with keys_typed [OF ok _ out, of "(0, 0)"] show ?thesis by (simp add: BUFFER_SIZE_def) metis
qed

end
