(* ===== verification/UArray.thy ===== *)
theory UArray
  imports Allocator
begin

text \<open>
  The growable arrays of user land (\<open>Userland/UserModule/c2/array.c\<close>, with \<open>shittyRealloc\<close> of
  \<open>utils.c\<close>). They differ from the kernel's ones (theory \<open>KArray\<close>) in what they do on an error:
  \<open>exitWithError\<close> ends the process, the outcome \<open>Exit\<close>. As there, the block is a list of slots,
  a pointer to an element is its index, and an access outside of the block is the fault \<open>None\<close>.
  The \<open>int32_t\<close> counters of the loops are those of arrays shorter than \<open>2^31\<close> elements.
  The heap is the one of the process, behind the system calls \<open>sysMalloc\<close> and \<open>sysFree\<close>.
\<close>

datatype 'r outcome = Ok 'r | Exit

definition exitWithError :: "'h \<Rightarrow> ('r outcome \<times> 'h) option" where
  "exitWithError h = Some (Exit, h)"

definition and_then ::
  "('a outcome \<times> 'h) option \<Rightarrow> ('a \<Rightarrow> 'h \<Rightarrow> ('b outcome \<times> 'h) option) \<Rightarrow> ('b outcome \<times> 'h) option" where
  "and_then m k = do { (r, h) \<leftarrow> m; case r of Ok x \<Rightarrow> k x h | Exit \<Rightarrow> Some (Exit, h) }"

lemma and_then_simps [simp]:
  "and_then (Some (Ok x, h)) k = k x h" "and_then (Some (Exit, h)) k = Some (Exit, h)"
  "and_then None k = None"
  by (simp_all add: and_then_def)

record ('a, 'h) UArrayCDT =
  uself :: addr
  uarray :: addr
  uelementSize :: u64
  ucapacity :: u64
  ulen :: u64
  ufreeEleFn :: "('a \<Rightarrow> 'h \<Rightarrow> 'h option) option"
  ucmpEleFn :: "('a \<Rightarrow> 'a \<Rightarrow> int option) option"
  uslots :: "'a option list"

type_synonym ('a, 'h) UArray = "('a, 'h) UArrayCDT option"

definition sizeof_UArrayCDT :: u64 where "sizeof_UArrayCDT = 48"

definition fresh_uslots :: "u64 \<Rightarrow> u64 \<Rightarrow> 'a option list" where
  "fresh_uslots n sz = replicate (unat (n * sz) div unat sz) None"

section \<open>The operations\<close>

definition UArray_initialize ::
  "'h mm \<Rightarrow> u64 \<Rightarrow> u64 \<Rightarrow> ('a \<Rightarrow> 'h \<Rightarrow> 'h option) option \<Rightarrow> ('a \<Rightarrow> 'a \<Rightarrow> int option) option \<Rightarrow>
   'h \<Rightarrow> (('a, 'h) UArrayCDT outcome \<times> 'h) option" where
  "UArray_initialize M sz initialCapacity freeFn cmpFn h =
     (if sz = 0 then exitWithError h
      else do {
        (a, h1) \<leftarrow> mm_malloc M sizeof_UArrayCDT h;
        if a = NULL then exitWithError h1
        else do {
          let cap = (if initialCapacity \<noteq> 0 then initialCapacity else 1);
          (p, h2) \<leftarrow> mm_malloc M (cap * sz) h1;
          if p = NULL then do { h3 \<leftarrow> mm_free M a h2; exitWithError h3 }
          else Some (Ok \<lparr>uself = a, uarray = p, uelementSize = sz, ucapacity = cap, ulen = 0,
                       ufreeEleFn = freeFn, ucmpEleFn = cmpFn, uslots = fresh_uslots cap sz\<rparr>, h2)
        }
      })"

text \<open>The result is \<open>-1\<close> outside of the array.\<close>

definition toRealIdx :: "('a, 'h) UArrayCDT \<Rightarrow> int \<Rightarrow> int" where
  "toRealIdx c idx =
     (if idx < 0 then if - idx > uint (ulen c) then - 1 else idx + uint (ulen c)
      else if idx \<ge> uint (ulen c) then - 1 else idx)"

definition UArray_get :: "('a, 'h) UArray \<Rightarrow> int \<Rightarrow> nat option" where
  "UArray_get a idx =
     (case a of None \<Rightarrow> None
      | Some c \<Rightarrow> if toRealIdx c idx < 0 then None else Some (nat (toRealIdx c idx)))"

definition uslot :: "('a, 'h) UArrayCDT \<Rightarrow> nat \<Rightarrow> 'a option" where
  "uslot c k = (if k < length (uslots c) then uslots c ! k else None)"

definition UArray_getLen :: "('a, 'h) UArray \<Rightarrow> 'h \<Rightarrow> (u64 outcome \<times> 'h) option" where
  "UArray_getLen a h = (case a of None \<Rightarrow> exitWithError h | Some c \<Rightarrow> Some (Ok (ulen c), h))"

definition UArray_getEleSize :: "('a, 'h) UArray \<Rightarrow> 'h \<Rightarrow> (u64 outcome \<times> 'h) option" where
  "UArray_getEleSize a h = (case a of None \<Rightarrow> exitWithError h | Some c \<Rightarrow> Some (Ok (uelementSize c), h))"

definition ufree_element ::
  "('a \<Rightarrow> 'h \<Rightarrow> 'h option) \<Rightarrow> ('a, 'h) UArrayCDT \<Rightarrow> int \<Rightarrow> 'h \<Rightarrow> 'h option" where
  "ufree_element f c i h = do { k \<leftarrow> UArray_get (Some c) i; e \<leftarrow> uslot c k; f e h }"

text \<open>\<open>for (i = from; i < from + n; ++i) a->freeEleFn(Array_get(a, i))\<close>\<close>

fun ufree_elements ::
  "('a \<Rightarrow> 'h \<Rightarrow> 'h option) \<Rightarrow> ('a, 'h) UArrayCDT \<Rightarrow> int \<Rightarrow> nat \<Rightarrow> 'h \<Rightarrow> 'h option" where
  "ufree_elements f c i 0 h = Some h"
| "ufree_elements f c i (Suc n) h = do { h1 \<leftarrow> ufree_element f c i h; ufree_elements f c (i + 1) n h1 }"

definition ufree_range :: "('a, 'h) UArrayCDT \<Rightarrow> int \<Rightarrow> nat \<Rightarrow> 'h \<Rightarrow> 'h option" where
  "ufree_range c i n h = (case ufreeEleFn c of None \<Rightarrow> Some h | Some f \<Rightarrow> ufree_elements f c i n h)"

definition ucopynEleAt :: "('a, 'h) UArrayCDT \<Rightarrow> nat \<Rightarrow> 'a option list \<Rightarrow> ('a, 'h) UArrayCDT option" where
  "ucopynEleAt c idx eles =
     (if idx + length eles \<le> length (uslots c)
      then Some (c\<lparr>uslots := take idx (uslots c) @ eles @ drop (idx + length eles) (uslots c)\<rparr>)
      else None)"

definition ucopyEleAt :: "('a, 'h) UArrayCDT \<Rightarrow> nat \<Rightarrow> 'a option \<Rightarrow> ('a, 'h) UArrayCDT option" where
  "ucopyEleAt c idx ele = ucopynEleAt c idx [ele]"

definition ushittyRealloc ::
  "'h mm \<Rightarrow> addr \<Rightarrow> 'a option list \<Rightarrow> u64 \<Rightarrow> 'a option list \<Rightarrow> 'h \<Rightarrow>
   (addr \<times> 'a option list \<times> 'h) option" where
  "ushittyRealloc M ptr old newSize fresh h = do {
     (p, h1) \<leftarrow> mm_malloc M newSize h;
     if p = NULL then Some (NULL, old, h1)
     else if length fresh < length old then None
     else do {
       let new = old @ drop (length old) fresh;
       h2 \<leftarrow> mm_free M ptr h1;
       Some (p, new, h2)
     }
   }"

definition ugrowTo ::
  "'h mm \<Rightarrow> ('a, 'h) UArrayCDT \<Rightarrow> u64 \<Rightarrow> 'h \<Rightarrow> (('a, 'h) UArrayCDT outcome \<times> 'h) option" where
  "ugrowTo M c newCapacity h = do {
     (aux, new, h1) \<leftarrow> ushittyRealloc M (uarray c) (uslots c) (newCapacity * uelementSize c)
       (fresh_uslots newCapacity (uelementSize c)) h;
     if aux = NULL then exitWithError h1
     else Some (Ok (c\<lparr>ucapacity := newCapacity, uarray := aux, uslots := new\<rparr>), h1)
   }"

definition ugrowBy ::
  "'h mm \<Rightarrow> ('a, 'h) UArrayCDT \<Rightarrow> u64 \<Rightarrow> 'h \<Rightarrow> (('a, 'h) UArrayCDT outcome \<times> 'h) option" where
  "ugrowBy M c extraCapacity h = ugrowTo M c (ucapacity c + extraCapacity) h"

definition UArray_free :: "'h mm \<Rightarrow> ('a, 'h) UArray \<Rightarrow> 'h \<Rightarrow> (unit outcome \<times> 'h) option" where
  "UArray_free M a h =
     (case a of None \<Rightarrow> exitWithError h
      | Some c \<Rightarrow> do {
          h1 \<leftarrow> ufree_range c 0 (unat (ulen c)) h;
          h2 \<leftarrow> mm_free M (uarray c) h1;
          h3 \<leftarrow> mm_free M (uself c) h2;
          Some (Ok (), h3)
        })"

definition UArray_push ::
  "'h mm \<Rightarrow> ('a, 'h) UArray \<Rightarrow> 'a option \<Rightarrow> 'h \<Rightarrow> (('a, 'h) UArrayCDT outcome \<times> 'h) option" where
  "UArray_push M a ele h =
     (case (a, ele) of
        (Some c, Some e) \<Rightarrow>
          and_then (if ulen c \<ge> ucapacity c then ugrowBy M c (ucapacity c) h else Some (Ok c, h))
            (\<lambda>c1 h1. do {
               c2 \<leftarrow> ucopyEleAt c1 (unat (ulen c1)) (Some e);
               Some (Ok (c2\<lparr>ulen := ulen c2 + 1\<rparr>), h1)
             })
      | _ \<Rightarrow> exitWithError h)"

definition UArray_popGetEle ::
  "('a, 'h) UArray \<Rightarrow> 'h \<Rightarrow> ((bool \<times> 'a option \<times> ('a, 'h) UArrayCDT) outcome \<times> 'h) option" where
  "UArray_popGetEle a h =
     (case a of None \<Rightarrow> exitWithError h
      | Some c \<Rightarrow>
          if ulen c = 0 then Some (Ok (False, None, c), h)
          else do {
            k \<leftarrow> UArray_get a (- 1);
            if k < length (uslots c)
            then Some (Ok (True, uslots c ! k, c\<lparr>ulen := ulen c - 1\<rparr>), h) else None
          })"

definition UArray_pop :: "('a, 'h) UArray \<Rightarrow> 'h \<Rightarrow> (('a, 'h) UArrayCDT outcome \<times> 'h) option" where
  "UArray_pop a h =
     (case a of None \<Rightarrow> exitWithError h
      | Some c \<Rightarrow>
          if ulen c = 0 then Some (Ok c, h)
          else do {
            h1 \<leftarrow> ufree_range c (- 1) 1 h;
            Some (Ok (c\<lparr>ulen := ulen c - 1\<rparr>), h1)
          })"

text \<open>
  \<open>eles\<close> are the \<open>length\<close> elements at \<open>eleArray\<close>; when that points into the block itself, as in
  \<open>Array_remove\<close>, they are read before they are overwritten (the copy goes forward and the
  destination is below).
\<close>

definition UArray_setn ::
  "'h mm \<Rightarrow> ('a, 'h) UArray \<Rightarrow> int \<Rightarrow> 'a option list \<Rightarrow> bool \<Rightarrow> 'h \<Rightarrow>
   (('a, 'h) UArrayCDT outcome \<times> 'h) option"
where
  "UArray_setn M a idx eles fre h =
     (case a of None \<Rightarrow> exitWithError h
      | Some c \<Rightarrow>
          let i = toRealIdx c idx; n = (word_of_nat (length eles) :: u64)
          in if i < 0 then exitWithError h
          else if eles = [] then Some (Ok c, h)
          else do {
            h1 \<leftarrow> (if fre then ufree_range c i (length eles) h else Some h);
            and_then (if n > ulen c - word_of_int i
                      then ugrowBy M c (n - (ulen c - word_of_int i)) h1 else Some (Ok c, h1))
              (\<lambda>c1 h2. do { c2 \<leftarrow> ucopynEleAt c1 (nat i) eles; Some (Ok c2, h2) })
          })"

definition UArray_set ::
  "'h mm \<Rightarrow> ('a, 'h) UArray \<Rightarrow> int \<Rightarrow> 'a \<Rightarrow> 'h \<Rightarrow> (('a, 'h) UArrayCDT outcome \<times> 'h) option" where
  "UArray_set M a idx ele h = UArray_setn M a idx [Some ele] True h"

definition UArray_getnCopy ::
  "('a, 'h) UArray \<Rightarrow> int \<Rightarrow> u64 \<Rightarrow> 'h \<Rightarrow> ('a option list outcome \<times> 'h) option" where
  "UArray_getnCopy a idx n h =
     (case a of None \<Rightarrow> exitWithError h
      | Some c \<Rightarrow>
          let i = toRealIdx c idx
          in if i < 0 then exitWithError h
          else if word_of_int i + n > ulen c then exitWithError h
          else if nat i + unat n \<le> length (uslots c)
          then Some (Ok (take (unat n) (drop (nat i) (uslots c))), h) else None)"

definition UArray_clear :: "('a, 'h) UArray \<Rightarrow> 'h \<Rightarrow> (('a, 'h) UArrayCDT outcome \<times> 'h) option" where
  "UArray_clear a h =
     (case a of None \<Rightarrow> exitWithError h
      | Some c \<Rightarrow> do {
          h1 \<leftarrow> ufree_range c 0 (unat (ulen c)) h;
          Some (Ok (c\<lparr>ulen := 0\<rparr>), h1)
        })"

definition UArray_concat ::
  "'h mm \<Rightarrow> ('a, 'h) UArray \<Rightarrow> ('a, 'h) UArray \<Rightarrow> 'h \<Rightarrow> (('a, 'h) UArrayCDT outcome \<times> 'h) option" where
  "UArray_concat M dst src h =
     (case (dst, src) of
        (Some d, Some s) \<Rightarrow>
          if uelementSize d \<noteq> uelementSize s then exitWithError h
          else
            let neededCapacity = ulen d + ulen s
            in and_then (if ucapacity d < neededCapacity then ugrowTo M d neededCapacity h
                         else Some (Ok d, h))
              (\<lambda>d1 h1.
                 if length (uslots s) < unat (ulen s) then None
                 else do {
                   d2 \<leftarrow> ucopynEleAt d1 (unat (ulen d1)) (take (unat (ulen s)) (uslots s));
                   Some (Ok (d2\<lparr>ulen := ulen d2 + ulen s\<rparr>), h1)
                 })
      | _ \<Rightarrow> exitWithError h)"

text \<open>The pointer to the block: its slots.\<close>

definition UArray_getVanillaArray :: "('a, 'h) UArray \<Rightarrow> 'h \<Rightarrow> ('a option list outcome \<times> 'h) option" where
  "UArray_getVanillaArray a h = (case a of None \<Rightarrow> exitWithError h | Some c \<Rightarrow> Some (Ok (uslots c), h))"

definition UArray_copyVanillaArrayInto ::
  "('a, 'h) UArray \<Rightarrow> 'a option list \<Rightarrow> 'h \<Rightarrow> ('a option list outcome \<times> 'h) option" where
  "UArray_copyVanillaArrayInto a dst h =
     (case a of None \<Rightarrow> None
      | Some c \<Rightarrow> and_then (UArray_getnCopy a 0 (ulen c) h) (\<lambda>es h1.
          if length es \<le> length dst then Some (Ok (es @ drop (length es) dst), h1) else None))"

definition UArray_getVanillaArrayCopy ::
  "'h mm \<Rightarrow> ('a, 'h) UArray \<Rightarrow> 'h \<Rightarrow> ((addr \<times> 'a option list) outcome \<times> 'h) option" where
  "UArray_getVanillaArrayCopy M a h =
     (case a of None \<Rightarrow> exitWithError h
      | Some c \<Rightarrow> do {
          (p, h1) \<leftarrow> mm_malloc M (ulen c * uelementSize c) h;
          and_then (UArray_copyVanillaArrayInto a (fresh_uslots (ulen c) (uelementSize c)) h1)
            (\<lambda>es h2. if p = NULL then None else Some (Ok (p, es), h2))
        })"

text \<open>
  The loop of \<open>Array_equals\<close>, over the indices of the first array only: where the second one is
  shorter, the comparison dereferences \<open>NULL\<close>.
\<close>

fun equals_loop ::
  "('a \<Rightarrow> 'a \<Rightarrow> int option) \<Rightarrow> ('a, 'h) UArrayCDT \<Rightarrow> ('a, 'h) UArrayCDT \<Rightarrow> int \<Rightarrow> nat \<Rightarrow> bool option" where
  "equals_loop cmp c1 c2 i 0 = Some True"
| "equals_loop cmp c1 c2 i (Suc n) = do {
     k1 \<leftarrow> UArray_get (Some c1) i;
     k2 \<leftarrow> UArray_get (Some c2) i;
     x \<leftarrow> uslot c1 k1;
     y \<leftarrow> uslot c2 k2;
     r \<leftarrow> cmp x y;
     if r \<noteq> 0 then Some False else equals_loop cmp c1 c2 (i + 1) n
   }"

definition UArray_equals ::
  "('a, 'h) UArray \<Rightarrow> ('a, 'h) UArray \<Rightarrow> 'h \<Rightarrow> (bool outcome \<times> 'h) option" where
  "UArray_equals a1 a2 h =
     (case (a1, a2) of
        (Some c1, Some c2) \<Rightarrow>
          if uelementSize c1 \<noteq> uelementSize c2 then exitWithError h
          else (case (case ucmpEleFn c1 of Some f \<Rightarrow> Some f | None \<Rightarrow> ucmpEleFn c2) of
              None \<Rightarrow> exitWithError h
            | Some cmp \<Rightarrow> do { b \<leftarrow> equals_loop cmp c1 c2 0 (unat (ulen c1)); Some (Ok b, h) })
      | _ \<Rightarrow> exitWithError h)"

fun find_loop :: "('a \<Rightarrow> 'a \<Rightarrow> int option) \<Rightarrow> ('a, 'h) UArrayCDT \<Rightarrow> 'a \<Rightarrow> nat \<Rightarrow> nat \<Rightarrow> int option" where
  "find_loop cmp c ele i 0 = Some (- 1)"
| "find_loop cmp c ele i (Suc n) = do {
     k \<leftarrow> UArray_get (Some c) (int i);
     x \<leftarrow> uslot c k;
     r \<leftarrow> cmp ele x;
     if r = 0 then Some (int i) else find_loop cmp c ele (Suc i) n
   }"

definition UArray_find :: "('a, 'h) UArray \<Rightarrow> 'a \<Rightarrow> 'h \<Rightarrow> (int outcome \<times> 'h) option" where
  "UArray_find a ele h =
     (case a of None \<Rightarrow> exitWithError h
      | Some c \<Rightarrow> (case ucmpEleFn c of None \<Rightarrow> exitWithError h
          | Some cmp \<Rightarrow> do { i \<leftarrow> find_loop cmp c ele 0 (unat (ulen c)); Some (Ok i, h) }))"

definition UArray_has :: "('a, 'h) UArray \<Rightarrow> 'a \<Rightarrow> 'h \<Rightarrow> (bool outcome \<times> 'h) option" where
  "UArray_has a ele h = and_then (UArray_find a ele h) (\<lambda>i h1. Some (Ok (i \<ge> 0), h1))"

definition UArray_remove ::
  "'h mm \<Rightarrow> ('a, 'h) UArray \<Rightarrow> int \<Rightarrow> 'h \<Rightarrow> (('a, 'h) UArrayCDT outcome \<times> 'h) option" where
  "UArray_remove M a idx h =
     (case a of None \<Rightarrow> exitWithError h
      | Some c \<Rightarrow>
          let i = toRealIdx c idx
          in if i < 0 then exitWithError h
          else if i = uint (ulen c) - 1 then UArray_pop a h
          else do {
            h1 \<leftarrow> ufree_range c i 1 h;
            let n = unat (ulen c) - (nat i + 1);
            and_then (UArray_setn M a i (take n (drop (nat i + 1) (uslots c))) False h1)
              (\<lambda>c1 h2. Some (Ok (c1\<lparr>ulen := ulen c1 - 1\<rparr>), h2))
          })"

end
