(* ===== verification/UHistory.thy ===== *)
theory UHistory
  imports UArray
begin

text \<open>
  The circular buffer that keeps the commands of the shell
  (\<open>Userland/UserModule/c2/circularHistoryBuffer.c\<close>): an array that is written round and round, with
  a position from which it is read backwards and forwards. With it the arithmetic on circular
  indices of \<open>circularBuffer.c\<close>.
\<close>

record ('a, 'h) CHB =
  cbSize :: u64
  cbReadIdx :: u64
  cbWriteIdx :: u64
  toReadBackwards :: u64
  cbElementSize :: u64
  cbFreeEleFn :: "('a \<Rightarrow> 'h \<Rightarrow> 'h option) option"
  cbArray :: "('a, 'h) UArrayCDT"
  cbSelf :: addr

definition sizeof_CHB :: u64 where "sizeof_CHB = 56"

section \<open>Indices\<close>

text \<open>The remainder by zero is a fault.\<close>

definition getIncreasedIdxBy :: "('a, 'h) CHB \<Rightarrow> u64 \<Rightarrow> u64 \<Rightarrow> u64 option" where
  "getIncreasedIdxBy cb idx val = (if cbSize cb = 0 then None else Some ((idx + val) mod cbSize cb))"

definition getDecreasedIdxBy :: "('a, 'h) CHB \<Rightarrow> u64 \<Rightarrow> u64 \<Rightarrow> u64" where
  "getDecreasedIdxBy cb idx val =
     (let v = val mod (ulen (cbArray cb) + 1)
      in if idx < v then idx + (ulen (cbArray cb) - v) else idx - v)"

definition increaseWriteIdx :: "('a, 'h) CHB \<Rightarrow> ('a, 'h) CHB option" where
  "increaseWriteIdx cb = do { i \<leftarrow> getIncreasedIdxBy cb (cbWriteIdx cb) 1; Some (cb\<lparr>cbWriteIdx := i\<rparr>) }"

definition decreaseWriteIdx :: "('a, 'h) CHB \<Rightarrow> ('a, 'h) CHB" where
  "decreaseWriteIdx cb = cb\<lparr>cbWriteIdx := getDecreasedIdxBy cb (cbWriteIdx cb) 1\<rparr>"

definition increaseReadIdx :: "('a, 'h) CHB \<Rightarrow> ('a, 'h) CHB option" where
  "increaseReadIdx cb = do { i \<leftarrow> getIncreasedIdxBy cb (cbReadIdx cb) 1; Some (cb\<lparr>cbReadIdx := i\<rparr>) }"

definition decreaseReadIdx :: "('a, 'h) CHB \<Rightarrow> ('a, 'h) CHB" where
  "decreaseReadIdx cb = cb\<lparr>cbReadIdx := getDecreasedIdxBy cb (cbReadIdx cb) 1\<rparr>"

section \<open>The operations\<close>

text \<open>The instance is never \<open>NULL\<close> here: a \<open>NULL\<close> one ends the process.\<close>

definition CHB_initialize ::
  "'h mm \<Rightarrow> u64 \<Rightarrow> u64 \<Rightarrow> ('a \<Rightarrow> 'h \<Rightarrow> 'h option) option \<Rightarrow> ('a \<Rightarrow> 'a \<Rightarrow> int option) option \<Rightarrow> 'h \<Rightarrow>
   (('a, 'h) CHB outcome \<times> 'h) option" where
  "CHB_initialize M elementSize size0 freeFn cmpFn h = do {
     (p, h1) \<leftarrow> mm_malloc M sizeof_CHB h;
     if p = NULL then exitWithError h1
     else and_then (UArray_initialize M elementSize size0 freeFn cmpFn h1) (\<lambda>c h2.
       Some (Ok \<lparr>cbSize = size0, cbReadIdx = 0, cbWriteIdx = 0, toReadBackwards = 0,
         cbElementSize = elementSize, cbFreeEleFn = freeFn, cbArray = c, cbSelf = p\<rparr>, h2))
   }"

definition CHB_readRest :: "('a, 'h) CHB \<Rightarrow> ('a, 'h) CHB" where
  "CHB_readRest cb = cb\<lparr>cbReadIdx := cbWriteIdx cb, toReadBackwards := ulen (cbArray cb)\<rparr>"

definition CHB_push ::
  "'h mm \<Rightarrow> ('a, 'h) CHB \<Rightarrow> 'a \<Rightarrow> 'h \<Rightarrow> (('a, 'h) CHB outcome \<times> 'h) option" where
  "CHB_push M cb ele h =
     and_then (if ulen (cbArray cb) < cbSize cb then UArray_push M (Some (cbArray cb)) (Some ele) h
               else UArray_set M (Some (cbArray cb)) (sint (cbWriteIdx cb)) ele h)
       (\<lambda>c h1. do {
          cb1 \<leftarrow> increaseWriteIdx (cb\<lparr>cbArray := c\<rparr>);
          Some (Ok (CHB_readRest cb1), h1)
        })"

text \<open>The result is the index of the element, \<open>None\<close> for \<open>NULL\<close>.\<close>

definition CHB_readNext :: "('a, 'h) CHB \<Rightarrow> (nat option \<times> ('a, 'h) CHB) option" where
  "CHB_readNext cb =
     (if toReadBackwards cb + 1 \<ge> ulen (cbArray cb) then Some (None, cb)
      else do {
        cb1 \<leftarrow> increaseReadIdx cb;
        let cb2 = cb1\<lparr>toReadBackwards := toReadBackwards cb1 + 1\<rparr>;
        Some (UArray_get (Some (cbArray cb2)) (sint (cbReadIdx cb2)), cb2)
      })"

definition CHB_readPrev :: "('a, 'h) CHB \<Rightarrow> nat option \<times> ('a, 'h) CHB" where
  "CHB_readPrev cb =
     (if toReadBackwards cb = 0 then (None, cb)
      else let cb1 = decreaseReadIdx cb;
               cb2 = cb1\<lparr>toReadBackwards := toReadBackwards cb1 - 1\<rparr>
           in (UArray_get (Some (cbArray cb2)) (sint (cbReadIdx cb2)), cb2))"

definition CHB_getLen :: "('a, 'h) CHB \<Rightarrow> u64" where
  "CHB_getLen cb = toReadBackwards cb"

definition CHB_getSize :: "('a, 'h) CHB \<Rightarrow> u64" where
  "CHB_getSize cb = cbSize cb"

definition CHB_has :: "('a, 'h) CHB \<Rightarrow> 'a \<Rightarrow> 'h \<Rightarrow> (bool outcome \<times> 'h) option" where
  "CHB_has cb ele h = UArray_has (Some (cbArray cb)) ele h"

definition CHB_free :: "'h mm \<Rightarrow> ('a, 'h) CHB \<Rightarrow> 'h \<Rightarrow> (unit outcome \<times> 'h) option" where
  "CHB_free M cb h = and_then (UArray_free M (Some (cbArray cb)) h) (\<lambda>_ h1. do {
     h2 \<leftarrow> mm_free M (cbSelf cb) h1; Some (Ok (), h2) })"

text \<open>
  An element that is there (and not the oldest one in a full buffer) is freed and \<open>ele\<close> takes its
  place as the newest; the elements after it move one place. Otherwise \<open>ele\<close> is pushed.
\<close>

definition CHB_moveToFrontOrPush ::
  "'h mm \<Rightarrow> ('a, 'h) CHB \<Rightarrow> 'a \<Rightarrow> 'h \<Rightarrow> (('a, 'h) CHB outcome \<times> 'h) option" where
  "CHB_moveToFrontOrPush M cb ele h =
     and_then (UArray_find (Some (cbArray cb)) ele h) (\<lambda>idx h1.
       let w = uint (cbWriteIdx cb); c = cbArray cb
       in if idx \<ge> 0 \<and> idx \<noteq> w
       then do {
         k \<leftarrow> UArray_get (Some c) idx;
         old \<leftarrow> uslot c k;
         f \<leftarrow> cbFreeEleFn cb;
         h2 \<leftarrow> f old h1;
         if idx < w
         then
           and_then (UArray_setn M (Some c) idx
               (take (nat (w - (idx + 1))) (drop (nat idx + 1) (uslots c))) False h2) (\<lambda>c1 h3.
             and_then (UArray_setn M (Some c1) (w - 1) [Some ele] False h3) (\<lambda>c2 h4.
               Some (Ok (CHB_readRest (cb\<lparr>cbArray := c2\<rparr>)), h4)))
         else
           and_then (UArray_getnCopy (Some c) w (word_of_int (idx - w)) h2) (\<lambda>es h3.
             and_then (UArray_setn M (Some c) (w + 1) es False h3) (\<lambda>c1 h4.
               and_then (UArray_setn M (Some c1) w [Some ele] False h4) (\<lambda>c2 h5. do {
                 cb1 \<leftarrow> increaseWriteIdx (cb\<lparr>cbArray := c2\<rparr>);
                 Some (Ok (CHB_readRest cb1), h5)
               })))
       }
       else CHB_push M cb ele h1)"

section \<open>Circular indices\<close>

text \<open>\<open>circularBuffer.c\<close>; the remainder is the one of C.\<close>

definition smod_c :: "int \<Rightarrow> int \<Rightarrow> int option" where
  "smod_c a b = (if b = 0 then None else Some (sgn a * (\<bar>a\<bar> mod \<bar>b\<bar>)))"

definition incCircularIdxBy :: "int \<Rightarrow> int \<Rightarrow> int \<Rightarrow> int option" where
  "incCircularIdxBy idx val n = smod_c (idx + val) n"

definition incCircularIdx :: "int \<Rightarrow> int \<Rightarrow> int option" where
  "incCircularIdx idx n = incCircularIdxBy idx 1 n"

definition decCircularIdxBy :: "int \<Rightarrow> int \<Rightarrow> int \<Rightarrow> int" where
  "decCircularIdxBy idx val n = (if idx - val < 0 then n + (idx - val) else idx - val)"

definition decCircularIdx :: "int \<Rightarrow> int \<Rightarrow> int" where
  "decCircularIdx idx n = decCircularIdxBy idx 1 n"

end
