(* ===== verification/HistoryProps.thy ===== *)
theory HistoryProps
  imports UHistory
begin

text \<open>
  The command history of the shell as a list, oldest first, without duplicates and of bounded
  length: \<open>CHB_moveToFrontOrPush\<close> is the update of a list of most recently used elements.
\<close>

section \<open>An array as a list\<close>

definition uarr_rep :: "('a, 'h) UArrayCDT \<Rightarrow> 'a list \<Rightarrow> bool" where
  "uarr_rep c xs \<longleftrightarrow> unat (ulen c) = length xs \<and> length xs \<le> length (uslots c) \<and>
     length (uslots c) < 2 ^ 31 \<and> take (length xs) (uslots c) = map Some xs"

text \<open>The fields that the operations on elements keep.\<close>

definition same_block :: "('a, 'h) UArrayCDT \<Rightarrow> ('a, 'h) UArrayCDT \<Rightarrow> bool" where
  "same_block c c' \<longleftrightarrow> uself c' = uself c \<and> uarray c' = uarray c \<and> ucapacity c' = ucapacity c \<and>
     uelementSize c' = uelementSize c \<and> ufreeEleFn c' = ufreeEleFn c \<and> ucmpEleFn c' = ucmpEleFn c \<and>
     length (uslots c') = length (uslots c)"

lemma same_block_trans: "same_block c c' \<Longrightarrow> same_block c' c'' \<Longrightarrow> same_block c c''"
  by (simp add: same_block_def)

lemma rep_len: "uarr_rep c xs \<Longrightarrow> uint (ulen c) = int (length xs)"
  by (simp add: uarr_rep_def uint_nat)

lemma rep_idx [simp]: "uarr_rep c xs \<Longrightarrow> i < length xs \<Longrightarrow> toRealIdx c (int i) = int i"
  by (simp add: toRealIdx_def rep_len)

lemma rep_get: "uarr_rep c xs \<Longrightarrow> i < length xs \<Longrightarrow> UArray_get (Some c) (int i) = Some i"
  by (simp add: UArray_get_def)

lemma rep_slot: "uarr_rep c xs \<Longrightarrow> i < length xs \<Longrightarrow> uslot c i = Some (xs ! i)"
  using nth_take [of i "length xs" "uslots c"] by (simp add: uarr_rep_def uslot_def)

lemma rep_part: "uarr_rep c xs \<Longrightarrow> i + n \<le> length xs \<Longrightarrow>
    take n (drop i (uslots c)) = map Some (take n (drop i xs))"
proof -
  assume r: "uarr_rep c xs" and n: "i + n \<le> length xs"
  have "take n (drop i (uslots c)) = take n (drop i (take (length xs) (uslots c)))"
    using n by (simp add: drop_take)
  then show ?thesis using r by (simp add: uarr_rep_def drop_map take_map)
qed

lemma setn_ok:
  assumes r: "uarr_rep c xs" and i: "i < length xs" "i + length es \<le> length xs"
    and fre: "(if fre then ufree_range c (int i) (length es) h else Some h) = Some h1" "es = [] \<longrightarrow> h1 = h"
  shows "\<exists>c'. UArray_setn M (Some c) (int i) (map Some es) fre h = Some (Ok c', h1) \<and>
    uarr_rep c' (take i xs @ es @ drop (i + length es) xs) \<and> same_block c c'"
proof (cases "es = []")
  case True
  with r i fre show ?thesis by (simp add: UArray_setn_def same_block_def)
next
  case False
  have b: "length xs < 2 ^ 31" "length es < 2 ^ 64" using r i by (auto simp: uarr_rep_def)
  have "unat (ulen c - word_of_nat i) = length xs - i"
    using r i b by (simp add: uarr_rep_def unat_sub_if' unat_of_nat take_bit_nat_eq_self)
  then have "\<not> (word_of_nat (length es) > ulen c - word_of_nat i)"
    using i b by (simp add: word_less_nat_alt unat_of_nat take_bit_nat_eq_self)
  moreover have room: "i + length es \<le> length (uslots c)" using r i by (simp add: uarr_rep_def)
  ultimately have run: "UArray_setn M (Some c) (int i) (map Some es) fre h = Some (Ok (c\<lparr>uslots :=
      take i (uslots c) @ map Some es @ drop (i + length es) (uslots c)\<rparr>), h1)"
    using r i False fre by (cases fre) (simp_all add: UArray_setn_def Let_def ucopynEleAt_def)
  have "take (length xs) (take i (uslots c) @ map Some es @ drop (i + length es) (uslots c)) =
      map Some (take i xs @ es @ drop (i + length es) xs)"
    using rep_part [OF r, of 0 i] rep_part [OF r, of "i + length es" "length xs - (i + length es)"] i room
    by (simp add: min_def)
  then have "uarr_rep (c\<lparr>uslots := take i (uslots c) @ map Some es @ drop (i + length es) (uslots c)\<rparr>)
      (take i xs @ es @ drop (i + length es) xs)"
    using r i room by (simp add: uarr_rep_def)
  with run room show ?thesis by (auto simp: same_block_def)
qed

text \<open>On the elements in \<open>D\<close> the comparison returns, and it returns 0 for equal keys.\<close>

definition compares :: "('a \<Rightarrow> bool) \<Rightarrow> ('a \<Rightarrow> 'k) \<Rightarrow> ('a \<Rightarrow> 'a \<Rightarrow> int option) \<Rightarrow> bool" where
  "compares D key cmp \<longleftrightarrow> (\<forall>x y. D x \<longrightarrow> D y \<longrightarrow> (\<exists>d. cmp x y = Some d \<and> (d = 0 \<longleftrightarrow> key x = key y)))"

lemma find_ok:
  assumes r: "uarr_rep c xs" and cmp: "compares D key cmp" and D: "D e" "\<And>x. x \<in> set xs \<Longrightarrow> D x"
  shows "i + n = length xs \<Longrightarrow> find_loop cmp c e i n =
    Some (case List.find (\<lambda>j. key (xs ! j) = key e) [i..<length xs] of None \<Rightarrow> - 1 | Some j \<Rightarrow> int j)"
proof (induction n arbitrary: i)
  case (Suc n)
  then have i: "i < length xs" by simp
  obtain d where "cmp e (xs ! i) = Some d" "d = 0 \<longleftrightarrow> key e = key (xs ! i)"
    using cmp D i unfolding compares_def by (metis nth_mem)
  with i Suc r show ?case by (auto simp: rep_get rep_slot upt_conv_Cons eq_commute [of "key e"])
qed simp

lemma sint_small: "unat w < 2 ^ 31 \<Longrightarrow> sint w = int (unat w)" for w :: u64
proof -
  assume "unat w < 2 ^ 31"
  then have "unat w < 2147483648" by simp
  then have "int (unat w) < int 2147483648" by (simp only: of_nat_less_iff)
  then have "uint w < 2147483648" by simp
  moreover have "- 9223372036854775808 \<le> uint w" by (rule order_trans [of _ 0]) simp_all
  ultimately have "signed_take_bit 63 (uint w) = uint w" by (intro signed_take_bit_int_eq_self) simp_all
  then show ?thesis by (simp add: sint_uint)
qed

lemma uint_of: "unat w = n \<Longrightarrow> uint w = int n" for w :: u64
  by (simp add: uint_nat)

section \<open>The buffer as a list, oldest first\<close>

definition chb_rep :: "('a \<Rightarrow> bool) \<Rightarrow> ('a \<Rightarrow> 'k) \<Rightarrow> ('a, 'h) CHB \<Rightarrow> 'a list \<Rightarrow> bool" where
  "chb_rep D key cb q \<longleftrightarrow> (\<exists>xs w n. uarr_rep (cbArray cb) xs \<and> unat (cbWriteIdx cb) = w \<and>
     unat (cbSize cb) = n \<and> ucapacity (cbArray cb) = cbSize cb \<and> length (uslots (cbArray cb)) = n \<and>
     w < n \<and> length xs \<le> n \<and> (length xs < n \<longrightarrow> w = length xs) \<and> q = drop w xs @ take w xs \<and>
     distinct (map key q) \<and> ufreeEleFn (cbArray cb) = cbFreeEleFn cb \<and>
     (\<forall>x \<in> set q. D x) \<and> (\<exists>cmp. ucmpEleFn (cbArray cb) = Some cmp \<and> compares D key cmp))"

text \<open>The specification: \<open>e\<close> becomes the newest element of at most \<open>n\<close>, and what is freed.\<close>

definition used :: "('a \<Rightarrow> 'k) \<Rightarrow> nat \<Rightarrow> 'a \<Rightarrow> 'a list \<Rightarrow> 'a list" where
  "used key n e q = (let r = filter (\<lambda>x. key x \<noteq> key e) q @ [e] in drop (length r - n) r)"

definition dropped :: "('a \<Rightarrow> 'k) \<Rightarrow> nat \<Rightarrow> 'a \<Rightarrow> 'a list \<Rightarrow> 'a list" where
  "dropped key n e q =
     (case filter (\<lambda>x. key x = key e) q of x # _ \<Rightarrow> [x] | [] \<Rightarrow> if length q = n then take 1 q else [])"

fun free_all :: "('a \<Rightarrow> 'h \<Rightarrow> 'h option) \<Rightarrow> 'a list \<Rightarrow> 'h \<Rightarrow> 'h option" where
  "free_all f [] h = Some h"
| "free_all f (x # xs) h = do { h1 \<leftarrow> f x h; free_all f xs h1 }"

text \<open>Removing the only element with the key from a list.\<close>

lemma filter_only:
  assumes "distinct (map key (us @ x # vs))" "key x = key e"
  shows "filter (\<lambda>y. key y \<noteq> key e) (us @ x # vs) = us @ vs"
    "filter (\<lambda>y. key y = key e) (us @ x # vs) = [x]"
proof -
  have "key x \<notin> key ` set us" "key x \<notin> key ` set vs" using assms(1) by auto
  then have n: "\<forall>y \<in> set us. key y \<noteq> key e" "\<forall>y \<in> set vs. key y \<noteq> key e"
    using assms(2) by (metis imageI)+
  then have "filter (\<lambda>y. key y \<noteq> key e) us = us" "filter (\<lambda>y. key y \<noteq> key e) vs = vs"
    "filter (\<lambda>y. key y = key e) us = []" "filter (\<lambda>y. key y = key e) vs = []"
    by (simp_all add: filter_empty_conv)
  then show "filter (\<lambda>y. key y \<noteq> key e) (us @ x # vs) = us @ vs"
    "filter (\<lambda>y. key y = key e) (us @ x # vs) = [x]"
    using assms(2) by simp_all
qed

lemma used_only:
  assumes "distinct (map key (us @ x # vs))" "key x = key e" "length (us @ x # vs) \<le> n"
  shows "used key n e (us @ x # vs) = us @ vs @ [e]" "dropped key n e (us @ x # vs) = [x]"
    "distinct (map key (us @ vs @ [e]))"
proof -
  show "used key n e (us @ x # vs) = us @ vs @ [e]" "dropped key n e (us @ x # vs) = [x]"
    using assms(3) unfolding used_def dropped_def filter_only [OF assms(1,2)] by simp_all
  show "distinct (map key (us @ vs @ [e]))" using assms(1,2) by auto
qed

lemma used_new:
  assumes "key e \<notin> key ` set q" "length q \<le> n" "0 < n"
  shows "used key n e q = (if length q = n then tl q @ [e] else q @ [e])"
    "dropped key n e q = (if length q = n then take 1 q else [])"
proof -
  have none: "filter (\<lambda>x. key x = key e) q = []" "filter (\<lambda>x. key x \<noteq> key e) q = q"
    using assms(1) by (auto simp: filter_empty_conv filter_id_conv image_iff)
  show "dropped key n e q = (if length q = n then take 1 q else [])" by (simp add: dropped_def none)
  show "used key n e q = (if length q = n then tl q @ [e] else q @ [e])"
    using assms(2,3) unfolding used_def none Let_def by (cases q) auto
qed

section \<open>Using an element\<close>

lemma drop_take_update:
  "w < length xs \<Longrightarrow> drop (Suc w) (xs[w := e]) @ take (Suc w) (xs[w := e]) = tl (drop w xs @ take w xs) @ [e]"
proof -
  assume w: "w < length xs"
  then have "tl (drop w xs @ take w xs) = drop (Suc w) xs @ take w xs"
    by (simp add: tl_append2 drop_Suc tl_drop)
  then show ?thesis using w by (simp add: take_Suc_conv_app_nth)
qed

lemma chb_repI:
  assumes "chb_rep D key cb q" "uarr_rep c xs" "same_block (cbArray cb) c" "unat w < unat (cbSize cb)"
    "length xs \<le> unat (cbSize cb)" "length xs < unat (cbSize cb) \<longrightarrow> unat w = length xs"
    "r = drop (unat w) xs @ take (unat w) xs" "distinct (map key r)" "\<forall>x \<in> set xs. D x"
  shows "chb_rep D key (CHB_readRest (cb\<lparr>cbArray := c, cbWriteIdx := w\<rparr>)) r"
proof -
  have c: "ucapacity (cbArray cb) = cbSize cb" "length (uslots (cbArray cb)) = unat (cbSize cb)"
    "ufreeEleFn (cbArray cb) = cbFreeEleFn cb" "\<exists>cmp. ucmpEleFn (cbArray cb) = Some cmp \<and> compares D key cmp"
    using assms(1) unfolding chb_rep_def by blast+
  have "set r = set xs" using assms(7) set_append [of "take (unat w) xs" "drop (unat w) xs"] by auto
  with assms(9) have D: "\<forall>x \<in> set r. D x" by simp
  show ?thesis
    unfolding chb_rep_def
    by (intro exI [of _ xs] exI [of _ "unat w"] exI [of _ "unat (cbSize cb)"] conjI)
      (use assms(2-8) c D in \<open>simp_all add: CHB_readRest_def same_block_def\<close>)
qed

text \<open>Pushing at the write position.\<close>

lemma push_ok:
  assumes r: "chb_rep D key cb q" and f: "cbFreeEleFn cb = Some f" and n: "unat (cbSize cb) = n"
    and De: "D e" and old: "length q = n \<longrightarrow> key (hd q) = key e \<or> key e \<notin> key ` set q"
      "length q < n \<longrightarrow> key e \<notin> key ` set q"
    and h': "free_all f (if length q = n then take 1 q else []) h = Some h'"
  shows "\<exists>cb'. CHB_push M cb e h = Some (Ok cb', h') \<and>
    chb_rep D key cb' ((if length q = n then tl q else q) @ [e]) \<and>
    cbSize cb' = cbSize cb \<and> CHB_readRest cb' = cb'"
proof -
  obtain xs w where x: "uarr_rep (cbArray cb) xs" "unat (cbWriteIdx cb) = w"
    "ucapacity (cbArray cb) = cbSize cb" "length (uslots (cbArray cb)) = n" "w < n" "length xs \<le> n"
    "length xs < n \<longrightarrow> w = length xs" "q = drop w xs @ take w xs" "distinct (map key q)"
    "ufreeEleFn (cbArray cb) = cbFreeEleFn cb"
    "\<exists>cmp. ucmpEleFn (cbArray cb) = Some cmp \<and> compares D key cmp" "\<forall>x \<in> set q. D x"
    using r n unfolding chb_rep_def by blast
  have bound: "n < 2 ^ 31" "unat (ulen (cbArray cb)) = length xs" using x(1,4) by (auto simp: uarr_rep_def)
  have len: "length q = length xs" using x(8) by simp
  have wsint: "sint (cbWriteIdx cb) = int w" using sint_small [of "cbWriteIdx cb"] x(2,5) bound(1) by simp
  have inc: "increaseWriteIdx (cb\<lparr>cbArray := c\<rparr>) =
      Some (cb\<lparr>cbArray := c, cbWriteIdx := (cbWriteIdx cb + 1) mod cbSize cb\<rparr>)" for c
    using n x(5) by (auto simp: increaseWriteIdx_def getIncreasedIdxBy_def)
  have w1: "unat ((cbWriteIdx cb + 1) mod cbSize cb) = Suc w mod n"
    using x(2,5) n bound(1) by (simp add: unat_mod unat_word_ariths)
  let ?cb = "\<lambda>c. CHB_readRest (cb\<lparr>cbArray := c, cbWriteIdx := (cbWriteIdx cb + 1) mod cbSize cb\<rparr>)"
  show ?thesis
  proof (cases "length xs = n")
    case True
    have q: "q \<noteq> []" "hd q = xs ! w" using x(5,8) True by (auto simp: hd_drop_conv_nth)
    then have "take 1 q = [xs ! w]" by (cases q) auto
    then have fr: "f (xs ! w) h = Some h'" using h' len True by (simp split: bind_splits)
    have "ufree_range (cbArray cb) (int w) (length [e]) h = Some h'"
      using x(5,10) True f fr rep_get [OF x(1)] rep_slot [OF x(1)]
      by (simp add: ufree_range_def ufree_element_def)
    then obtain c where c: "UArray_setn M (Some (cbArray cb)) (int w) [Some e] True h = Some (Ok c, h')"
      "uarr_rep c (xs[w := e])" "same_block (cbArray cb) c"
      using setn_ok [OF x(1), of w "[e]" True h h' M] x(5) True by (auto simp: upd_conv_take_nth_drop)
    have ulc: "unat (ulen c) = n" using c(2) True by (simp add: uarr_rep_def)
    have run: "CHB_push M cb e h = Some (Ok (?cb c), h')"
      using c(1) True bound n inc [of c] wsint
      by (simp add: CHB_push_def UArray_set_def word_less_nat_alt)
    have q': "tl q @ [e] = drop (Suc w mod n) (xs[w := e]) @ take (Suc w mod n) (xs[w := e])"
    proof (cases "Suc w = n")
      case True
      then show ?thesis using x(8) \<open>length xs = n\<close> drop_take_update [of w xs e] by simp
    next
      case False
      with x(5) have "Suc w mod n = Suc w" by simp
      then show ?thesis using x(5,8) True drop_take_update [of w xs e] by simp
    qed
    have Dq: "\<forall>x \<in> set (tl q @ [e]). D x" using x(12) De q(1) by (auto dest: list.set_sel(2))
    have "distinct (map key (tl q @ [e]))"
      using x(9) old(1) len True q by (cases q) auto
    then have "chb_rep D key (?cb c) (tl q @ [e])"
      unfolding chb_rep_def
      using c(2,3) w1 n x(3-6,10,11) True q' Dq
      by (intro exI [of _ "xs[w := e]"] exI [of _ "Suc w mod n"] exI [of _ n])
        (auto simp: CHB_readRest_def same_block_def)
    with run len True show ?thesis by (auto simp: CHB_readRest_def)
  next
    case False
    then have lt: "length xs < n" using x(6) by simp
    then have h: "h' = h" using h' len by simp
    have slots: "length xs < length (uslots (cbArray cb))" using lt x(4) by simp
    define c where "c = (cbArray cb)\<lparr>uslots := (uslots (cbArray cb))[length xs := Some e],
      ulen := ulen (cbArray cb) + 1\<rparr>"
    have ul: "unat (ulen (cbArray cb) + 1) = Suc (length xs)"
      using bound lt by (simp add: unat_word_ariths)
    have rc: "uarr_rep c (xs @ [e])"
      using x(1) slots ul by (simp add: uarr_rep_def c_def take_Suc_conv_app_nth)
    have "\<not> ulen (cbArray cb) \<ge> ucapacity (cbArray cb)" using lt bound x(3) n by (simp add: word_le_nat_alt)
    then have "UArray_push M (Some (cbArray cb)) (Some e) h = Some (Ok c, h)"
      using slots bound
      by (simp add: UArray_push_def ucopyEleAt_def ucopynEleAt_def c_def upd_conv_take_nth_drop)
    then have run: "CHB_push M cb e h = Some (Ok (?cb c), h')"
      using lt bound n inc [of c] h by (simp add: CHB_push_def word_less_nat_alt)
    have w: "w = length xs" using x(7) lt by simp
    have q': "q @ [e] = drop (Suc w mod n) (xs @ [e]) @ take (Suc w mod n) (xs @ [e])"
      using w x(8) lt by (cases "Suc w = n") auto
    have Dq: "\<forall>x \<in> set (xs @ [e]). D x" using x(8,12) De w by auto
    have d: "distinct (map key (q @ [e]))" using x(9) old(2) len lt by simp
    have sb: "same_block (cbArray cb) c" by (simp add: same_block_def c_def)
    have i: "unat ((cbWriteIdx cb + 1) mod cbSize cb) < unat (cbSize cb)" using w1 n x(5) by simp
    have l: "length (xs @ [e]) \<le> unat (cbSize cb)" using lt n by simp
    have m: "length (xs @ [e]) < unat (cbSize cb) \<longrightarrow> unat ((cbWriteIdx cb + 1) mod cbSize cb) = length (xs @ [e])"
      using w1 w n by simp
    have "chb_rep D key (?cb c) (q @ [e])"
      by (rule chb_repI [OF r rc sb i l m q' [folded w1] d Dq])
    with run len False show ?thesis by (auto simp: CHB_readRest_def)
  qed
qed

lemma split_below: "j < w \<Longrightarrow> w \<le> length xs \<Longrightarrow>
    take w xs = take j xs @ xs ! j # drop (Suc j) (take w xs)"
  using id_take_nth_drop [of j "take w xs"] by (simp add: min_def)

lemma split_above: "w \<le> j \<Longrightarrow> j < length xs \<Longrightarrow>
    drop w xs = take (j - w) (drop w xs) @ xs ! j # drop (Suc j) xs"
  using id_take_nth_drop [of "j - w" "drop w xs"] by simp

lemma move_ok:
  assumes r: "chb_rep D key cb q" and De: "D e" and f: "cbFreeEleFn cb = Some f" and n: "unat (cbSize cb) = n"
    and h': "free_all f (dropped key n e q) h = Some h'"
  shows "\<exists>cb'. CHB_moveToFrontOrPush M cb e h = Some (Ok cb', h') \<and>
    chb_rep D key cb' (used key n e q) \<and>
    cbSize cb' = cbSize cb \<and> CHB_readRest cb' = cb'"
proof -
  obtain xs w where x: "uarr_rep (cbArray cb) xs" "unat (cbWriteIdx cb) = w"
    "w < n" "length xs \<le> n" "length xs < n \<longrightarrow> w = length xs" "q = drop w xs @ take w xs"
    "distinct (map key q)" "length (uslots (cbArray cb)) = n"
    "\<exists>cmp. ucmpEleFn (cbArray cb) = Some cmp \<and> compares D key cmp" "\<forall>x \<in> set q. D x"
    using r n unfolding chb_rep_def by blast
  let ?c = "cbArray cb" and ?j = "List.find (\<lambda>j. key (xs ! j) = key e) [0..<length xs]"
  have ul: "unat (ulen ?c) = length xs" using x(1) by (simp add: uarr_rep_def)
  have len: "length q = length xs" "set q = set xs"
    using x(6) set_append [of "take w xs" "drop w xs"] by auto
  have wint: "uint (cbWriteIdx cb) = int w" using x(2) by (rule uint_of)
  obtain cmp where cmp: "ucmpEleFn ?c = Some cmp" "compares D key cmp"
    using x(9) by blast
  have fnd: "UArray_find (Some ?c) e h = Some (Ok (case ?j of None \<Rightarrow> - 1 | Some j \<Rightarrow> int j), h)"
    using find_ok [OF x(1) cmp(2) De, where i = 0 and n = "length xs"] cmp(1) ul x(10) len(2) by (simp add: UArray_find_def)
  have n0: "0 < n" using x(3) by simp
  show ?thesis
  proof (cases ?j)
    case None
    then have new: "key e \<notin> key ` set q"
      unfolding len(2) by (auto simp: find_None_iff in_set_conv_nth)
    have run: "CHB_moveToFrontOrPush M cb e h = CHB_push M cb e h"
      using fnd None by (simp add: CHB_moveToFrontOrPush_def Let_def)
    show ?thesis unfolding run
      using push_ok [OF r f n De, where h = h and h' = h' and M = M] new h' used_new [OF new _ n0] len(1) x(4) by auto
  next
    case (Some j)
    then have j: "j < length xs" "key (xs ! j) = key e" by (auto simp: find_Some_iff)
    consider "j = w" | "j < w" | "w < j" by linarith
    then show ?thesis
    proof cases
      case 1
      have full: "length xs = n" using 1 j(1) x(4,5) by auto
      have q: "q = [] @ xs ! w # drop (Suc w) xs @ take w xs"
        using x(6) 1 j(1) by (simp add: Cons_nth_drop_Suc [symmetric])
      have u: "used key n e q = tl q @ [e]" "dropped key n e q = take 1 q" "hd q = xs ! w"
        using used_only [of key "[]" "xs ! w" "drop (Suc w) xs @ take w xs" e n] x(7) q 1 j(2) full len(1)
        by simp_all
      have run: "CHB_moveToFrontOrPush M cb e h = CHB_push M cb e h"
        using fnd Some 1 wint by (simp add: CHB_moveToFrontOrPush_def Let_def)
      show ?thesis unfolding run
        using push_ok [OF r f n De, where h = h and h' = h' and M = M] u j(2) 1 full len(1) h' q by auto
    next
      case 2
      have w: "w \<le> length xs" using x(3-5) by (cases "length xs < n") auto
      let ?vs = "drop (Suc j) (take w xs)" and ?ys = "take j xs @ drop (Suc j) (take w xs) @ drop (w - 1) xs"
      have q: "q = (drop w xs @ take j xs) @ xs ! j # ?vs" using x(6) split_below [OF 2 w] by simp
      have u: "used key n e q = (drop w xs @ take j xs) @ ?vs @ [e]" "dropped key n e q = [xs ! j]"
        "distinct (map key (used key n e q))"
        using used_only [of key "drop w xs @ take j xs" "xs ! j" ?vs e n] x(7) q j(2) len(1) x(4) by simp_all
      have fr: "f (xs ! j) h = Some h'" using h' u(2) by (simp split: bind_splits)
      have vs: "take (nat (int w - (int j + 1))) (drop (nat (int j) + 1) (uslots ?c)) = map Some ?vs"
      proof -
        have "nat (int w - (int j + 1)) = w - Suc j" "nat (int j) + 1 = Suc j" by simp_all
        then show ?thesis using rep_part [OF x(1), of "Suc j" "w - Suc j"] 2 w by (simp add: take_drop)
      qed
      have "j + length ?vs \<le> length xs" using 2 w by simp
      then obtain c1 where c1: "UArray_setn M (Some ?c) (int j) (map Some ?vs) False h' = Some (Ok c1, h')"
        "uarr_rep c1 (take j xs @ ?vs @ drop (j + length ?vs) xs)" "same_block ?c c1"
        using setn_ok [OF x(1) j(1), where es = ?vs and fre = False and h = h' and ?h1.0 = h' and M = M] by auto
      let ?zs = "take j xs @ ?vs @ drop (j + length ?vs) xs"
      have jl: "j + length ?vs = w - 1" "w - 1 < length xs" "length ?zs = length xs" using 2 w by auto
      obtain c2 where c2: "UArray_setn M (Some c1) (int (w - 1)) (map Some [e]) False h' = Some (Ok c2, h')"
        "uarr_rep c2 (take (w - 1) ?zs @ [e] @ drop w ?zs)" "same_block c1 c2"
        using setn_ok [OF c1(2), where i = "w - 1" and es = "[e]" and fre = False and h = h' and ?h1.0 = h' and M = M]
          jl 2 w by auto
      have zs: "take (w - 1) ?zs @ [e] @ drop w ?zs = (take j xs @ ?vs @ [e]) @ drop w xs"
        using jl 2 w by simp
      have Dq: "\<forall>x \<in> set ((take j xs @ ?vs @ [e]) @ drop w xs). D x"
        using x(10) De len(2) by (auto dest!: in_set_takeD in_set_dropD)
      have run: "CHB_moveToFrontOrPush M cb e h = Some (Ok (CHB_readRest (cb\<lparr>cbArray := c2\<rparr>)), h')"
        using fnd Some 2 wint x(1) j f fr vs c1(1) c2(1) rep_get [OF x(1) j(1)] rep_slot [OF x(1) j(1)]
        by (simp add: CHB_moveToFrontOrPush_def Let_def of_nat_diff)
      have "chb_rep D key (CHB_readRest (cb\<lparr>cbArray := c2, cbWriteIdx := cbWriteIdx cb\<rparr>)) (used key n e q)"
        by (rule chb_repI [OF r c2(2) same_block_trans [OF c1(3) c2(3)]])
          (use zs Dq u x(2-5) n 2 w jl Suc_pred [of "length xs"] j(1) in \<open>simp_all add: Suc_diff_Suc\<close>)
      with run show ?thesis by (simp add: CHB_readRest_def)
    next
      case 3
      have full: "length xs = n" using 3 j(1) x(4,5) by auto
      let ?es = "take (j - w) (drop w xs)" and ?vs = "drop (Suc j) xs @ take w xs"
      have q: "q = ?es @ xs ! j # ?vs" using x(6) split_above [of w j xs] 3 j(1) by simp
      have u: "used key n e q = ?es @ ?vs @ [e]" "dropped key n e q = [xs ! j]"
        "distinct (map key (used key n e q))"
        using used_only [of key ?es "xs ! j" ?vs e n] x(7) q j(2) len(1) x(4) by simp_all
      have fr: "f (xs ! j) h = Some h'" using h' u(2) by (simp split: bind_splits)
      have small: "length xs < 2 ^ 31" using x(1) by (simp add: uarr_rep_def)
      have nw: "unat (word_of_int (int j - int w) :: u64) = j - w"
        using 3 j(1) small by (simp add: unat_of_nat take_bit_nat_eq_self flip: of_nat_diff)
      have "unat (word_of_int (int w) + word_of_int (int j - int w) :: u64) = j"
        using 3 j(1) small nw by (simp add: unat_word_ariths unat_of_nat take_bit_nat_eq_self)
      then have "\<not> word_of_int (int w) + word_of_int (int j - int w) > ulen ?c"
        using j(1) ul by (simp add: word_less_nat_alt)
      then have cp: "UArray_getnCopy (Some ?c) (int w) (word_of_int (int j - int w)) h' = Some (Ok (map Some ?es), h')"
        using rep_part [OF x(1), of w "j - w"] rep_idx [OF x(1), of w] 3 j(1) nw x(1) full x(8)
        by (simp add: UArray_getnCopy_def Let_def)
      have les: "Suc w < length xs" "Suc w + length ?es = Suc j" using 3 j(1) by auto
      let ?zs = "take (Suc w) xs @ ?es @ drop (Suc j) xs"
      obtain c1 where c1: "UArray_setn M (Some ?c) (int (Suc w)) (map Some ?es) False h' = Some (Ok c1, h')"
        "uarr_rep c1 ?zs" "same_block ?c c1"
        using setn_ok [OF x(1) les(1), where es = ?es and fre = False and h = h' and ?h1.0 = h' and M = M]
          les j(1) by auto
      obtain c2 where c2: "UArray_setn M (Some c1) (int w) (map Some [e]) False h' = Some (Ok c2, h')"
        "uarr_rep c2 (take w ?zs @ [e] @ drop (Suc w) ?zs)" "same_block c1 c2"
        using setn_ok [OF c1(2), where i = w and es = "[e]" and fre = False and h = h' and ?h1.0 = h' and M = M]
          les by auto
      have zs: "take w ?zs @ [e] @ drop (Suc w) ?zs = (take w xs @ [e]) @ ?es @ drop (Suc j) xs"
        using les 3 j(1) by simp
      have Dq: "\<forall>x \<in> set ((take w xs @ [e]) @ ?es @ drop (Suc j) xs). D x"
        using x(10) De len(2) by (auto dest!: in_set_takeD in_set_dropD)
      let ?w = "(cbWriteIdx cb + 1) mod cbSize cb"
      have w1: "unat ?w = Suc w"
        using x(2,3) n small full 3 j(1) by (simp add: unat_mod unat_word_ariths)
      have "increaseWriteIdx (cb\<lparr>cbArray := c2\<rparr>) = Some (cb\<lparr>cbArray := c2, cbWriteIdx := ?w\<rparr>)"
        using n n0 by (auto simp: increaseWriteIdx_def getIncreasedIdxBy_def)
      then have run: "CHB_moveToFrontOrPush M cb e h =
          Some (Ok (CHB_readRest (cb\<lparr>cbArray := c2, cbWriteIdx := ?w\<rparr>)), h')"
        using fnd Some 3 wint j f fr cp c1(1) c2(1) rep_get [OF x(1) j(1)] rep_slot [OF x(1) j(1)]
        by (simp add: CHB_moveToFrontOrPush_def Let_def add.commute [of 1])
      have "chb_rep D key (CHB_readRest (cb\<lparr>cbArray := c2, cbWriteIdx := ?w\<rparr>)) (used key n e q)"
        by (rule chb_repI [OF r c2(2) same_block_trans [OF c1(3) c2(3)]])
          (use zs Dq u x(2-5) n full 3 w1 les j(1) in simp_all)
      with run show ?thesis by (auto simp: CHB_readRest_def)
    qed
  qed
qed

section \<open>Reading back and forth\<close>

text \<open>The read position is before the element \<open>q ! p\<close> of the list, or at the end.\<close>

definition chb_at :: "('a, 'h) CHB \<Rightarrow> nat \<Rightarrow> bool" where
  "chb_at cb p \<longleftrightarrow> unat (toReadBackwards cb) = p \<and> p \<le> unat (ulen (cbArray cb)) \<and>
     unat (cbReadIdx cb) = (if unat (ulen (cbArray cb)) < unat (cbSize cb) then p
                            else (unat (cbWriteIdx cb) + p) mod unat (cbSize cb))"

lemma chb_repD:
  assumes "chb_rep D key cb q"
  obtains xs where "uarr_rep (cbArray cb) xs" "length xs = length q" "unat (ulen (cbArray cb)) = length q"
    "unat (cbWriteIdx cb) < unat (cbSize cb)" "length q \<le> unat (cbSize cb)" "unat (cbSize cb) < 2 ^ 31"
    "length q < unat (cbSize cb) \<longrightarrow> unat (cbWriteIdx cb) = length q"
    "q = drop (unat (cbWriteIdx cb)) xs @ take (unat (cbWriteIdx cb)) xs"
proof -
  obtain xs where x: "uarr_rep (cbArray cb) xs" "length (uslots (cbArray cb)) = unat (cbSize cb)"
    "unat (cbWriteIdx cb) < unat (cbSize cb)" "length xs \<le> unat (cbSize cb)"
    "length xs < unat (cbSize cb) \<longrightarrow> unat (cbWriteIdx cb) = length xs"
    "q = drop (unat (cbWriteIdx cb)) xs @ take (unat (cbWriteIdx cb)) xs"
    using assms unfolding chb_rep_def by blast
  have "length xs = length q" "unat (cbSize cb) < 2 ^ 31" "unat (ulen (cbArray cb)) = length xs"
    using x by (auto simp: uarr_rep_def)
  with x that [of xs] show thesis by metis
qed

lemma chb_sizes:
  assumes "chb_rep D key cb q"
  shows "unat (ulen (cbArray cb)) = length q" "unat (cbWriteIdx cb) < unat (cbSize cb)"
    "length q \<le> unat (cbSize cb)" "unat (cbSize cb) < 2 ^ 31"
    "length q < unat (cbSize cb) \<Longrightarrow> unat (cbWriteIdx cb) = length q"
proof -
  obtain xs where "unat (ulen (cbArray cb)) = length q" "unat (cbWriteIdx cb) < unat (cbSize cb)"
    "length q \<le> unat (cbSize cb)" "unat (cbSize cb) < 2 ^ 31"
    "length q < unat (cbSize cb) \<longrightarrow> unat (cbWriteIdx cb) = length q"
    by (rule chb_repD [OF assms])
  then show "unat (ulen (cbArray cb)) = length q" "unat (cbWriteIdx cb) < unat (cbSize cb)"
    "length q \<le> unat (cbSize cb)" "unat (cbSize cb) < 2 ^ 31"
    "length q < unat (cbSize cb) \<Longrightarrow> unat (cbWriteIdx cb) = length q" by blast+
qed

lemma readRest_at: "chb_rep D key cb q \<Longrightarrow> CHB_readRest cb = cb \<Longrightarrow> chb_at cb (length q)"
proof -
  assume r: "chb_rep D key cb q" "CHB_readRest cb = cb"
  have idx: "cbReadIdx cb = cbWriteIdx cb" "toReadBackwards cb = ulen (cbArray cb)"
    using arg_cong [OF r(2), of cbReadIdx] arg_cong [OF r(2), of toReadBackwards]
    by (simp_all add: CHB_readRest_def)
  note n = chb_sizes [OF r(1)]
  show ?thesis
  proof (cases "length q < unat (cbSize cb)")
    case False
    then have "length q = unat (cbSize cb)" using n(3) by simp
    then show ?thesis using n by (simp add: chb_at_def idx)
  qed (use n in \<open>simp add: chb_at_def idx\<close>)
qed

text \<open>The element of the list at a place in the array.\<close>

lemma nth_rotated:
  assumes "w \<le> length xs" "p < length xs"
  shows "(drop w xs @ take w xs) ! p = xs ! ((w + p) mod length xs)"
proof (cases "w + p < length xs")
  case True
  then show ?thesis using assms by (simp add: nth_append less_diff_conv add.commute)
next
  case False
  then have "(w + p) mod length xs = w + p - length xs" using assms by (simp add: mod_if)
  with False assms show ?thesis by (auto simp: nth_append intro!: arg_cong [where f = "nth xs"])
qed

lemma chb_element:
  assumes r: "chb_rep D key cb q" and p: "chb_at cb p" "p < length q"
  shows "UArray_get (Some (cbArray cb)) (sint (cbReadIdx cb)) = Some (unat (cbReadIdx cb)) \<and>
    uslot (cbArray cb) (unat (cbReadIdx cb)) = Some (q ! p)"
proof (rule chb_repD [OF r])
  fix xs
  assume x: "uarr_rep (cbArray cb) xs" "length xs = length q" "unat (ulen (cbArray cb)) = length q"
    "unat (cbWriteIdx cb) < unat (cbSize cb)" "length q \<le> unat (cbSize cb)" "unat (cbSize cb) < 2 ^ 31"
    "length q < unat (cbSize cb) \<longrightarrow> unat (cbWriteIdx cb) = length q"
    "q = drop (unat (cbWriteIdx cb)) xs @ take (unat (cbWriteIdx cb)) xs"
  have i: "unat (cbReadIdx cb) < length xs \<and> xs ! unat (cbReadIdx cb) = q ! p"
  proof (cases "length q < unat (cbSize cb)")
    case True
    have "unat (cbReadIdx cb) = p" using True p(1) x(3) by (simp add: chb_at_def)
    moreover have "q = xs" using x(2,7) True by (subst x(8)) simp
    ultimately show ?thesis using p(2) by simp
  next
    case False
    then have full: "length xs = unat (cbSize cb)" using x(2,5) by linarith
    have a: "unat (cbReadIdx cb) = (unat (cbWriteIdx cb) + p) mod length xs"
      using False p(1) x(3) by (simp add: chb_at_def full)
    have b: "q ! p = xs ! ((unat (cbWriteIdx cb) + p) mod length xs)"
      unfolding x(8) by (rule nth_rotated) (use x(2,4) full p(2) in linarith)+
    have "0 < length xs" using p(2) x(2) by linarith
    then show ?thesis unfolding a b by (intro conjI mod_less_divisor refl)
  qed
  then have "unat (cbReadIdx cb) < 2 ^ 31" using x(2,5,6) by linarith
  then have s: "sint (cbReadIdx cb) = int (unat (cbReadIdx cb))" by (rule sint_small)
  have g: "UArray_get (Some (cbArray cb)) (int (unat (cbReadIdx cb))) = Some (unat (cbReadIdx cb))"
    using i by (intro rep_get [OF x(1)]) simp
  have u: "uslot (cbArray cb) (unat (cbReadIdx cb)) = Some (xs ! unat (cbReadIdx cb))"
    using i by (intro rep_slot [OF x(1)]) simp
  have e: "xs ! unat (cbReadIdx cb) = q ! p" using i by blast
  show ?thesis unfolding s by (rule conjI [OF g u [unfolded e]])
qed

section \<open>The properties\<close>

text \<open>
  C24: \<open>CHB_moveToFrontOrPush\<close> of an element makes it the newest of the history: an element with the
  same key leaves its place (wherever the write position is), and when there is none the oldest
  one leaves a full history; the element that leaves is freed, once, and nothing else is. The
  history stays in order, without duplicates and within its size.
\<close>

theorem history_moves_to_front:
  assumes "chb_rep D key cb q" "D e" "cbFreeEleFn cb = Some f"
    and "free_all f (dropped key (unat (cbSize cb)) e q) h = Some h'"
  shows "\<exists>cb'. CHB_moveToFrontOrPush M cb e h = Some (Ok cb', h') \<and>
    chb_rep D key cb' (used key (unat (cbSize cb)) e q) \<and>
    cbSize cb' = cbSize cb \<and> CHB_readRest cb' = cb'"
  using move_ok [OF assms(1-3) refl assms(4)] .

text \<open>A full history of four: 3, 4 and 5, 6, the write position in the middle; the log is the list of
  freed elements.\<close>

definition demo_chb :: "(nat, nat list) CHB" where
  "demo_chb = \<lparr>cbSize = 4, cbReadIdx = 2, cbWriteIdx = 2, toReadBackwards = 4, cbElementSize = 8,
     cbFreeEleFn = Some (\<lambda>x h. Some (h @ [x])),
     cbArray = \<lparr>uself = 8, uarray = 64, uelementSize = 8, ucapacity = 4, ulen = 4,
       ufreeEleFn = Some (\<lambda>x h. Some (h @ [x])),
       ucmpEleFn = Some (\<lambda>x y. Some (int x - int y)), uslots = map Some [5, 6, 3, 4]\<rparr>, cbSelf = 128\<rparr>"

lemma demo_chb_rep: "chb_rep (\<lambda>_. True) id demo_chb [3, 4, 5, 6]"
  unfolding chb_rep_def
  by (intro exI [of _ "[5, 6, 3, 4]"] exI [of _ 2] exI [of _ 4]) (simp add: demo_chb_def uarr_rep_def compares_def)

definition no_mm :: "nat list mm" where
  "no_mm = \<lparr>mm_malloc = (\<lambda>n h. Some (NULL, h)), mm_free = (\<lambda>p h. Some h),
     mm_init = (\<lambda>p st h. (NULL, 0, h))\<rparr>"

theorem history_moves_to_front_witness:
  "\<exists>cb'. CHB_moveToFrontOrPush no_mm demo_chb 4 [] = Some (Ok cb', [4]) \<and> chb_rep (\<lambda>_. True) id cb' [3, 5, 6, 4]"
proof -
  have f: "cbFreeEleFn demo_chb = Some (\<lambda>x h. Some (h @ [x]))" and n: "unat (cbSize demo_chb) = 4"
    by (simp_all add: demo_chb_def)
  from history_moves_to_front [OF demo_chb_rep TrueI f, of 4 "[]" "[4]" no_mm] n
  show ?thesis by (auto simp: used_def dropped_def)
qed

end
