(* ===== verification/HistoryNav.thy ===== *)
theory HistoryNav
  imports HistoryProps
begin

text \<open>
  Reading the history of commands back and forth: the positions of \<open>CHB_readPrev\<close> and
  \<open>CHB_readNext\<close> follow the list of commands, oldest first.
\<close>

lemma rep_read: "chb_rep D key (cb\<lparr>cbReadIdx := i, toReadBackwards := n\<rparr>) q \<longleftrightarrow> chb_rep D key cb q"
  by (simp add: chb_rep_def)

lemma prev_ok:
  assumes r: "chb_rep D key cb q" and p: "chb_at cb p" "0 < p"
  shows "\<exists>i cb'. CHB_readPrev cb = (Some i, cb') \<and> chb_rep D key cb' q \<and> chb_at cb' (p - 1) \<and>
    cbArray cb' = cbArray cb \<and> cbSize cb' = cbSize cb \<and> cbFreeEleFn cb' = cbFreeEleFn cb \<and>
    uslot (cbArray cb) i = Some (q ! (p - 1))"
proof -
  note n = chb_sizes [OF r]
  let ?cb = "cb\<lparr>cbReadIdx := getDecreasedIdxBy cb (cbReadIdx cb) 1, toReadBackwards := toReadBackwards cb - 1\<rparr>"
  have pl: "p \<le> length q" and to: "unat (toReadBackwards cb) = p" using p(1) n(1) by (simp_all add: chb_at_def)
  have small: "length q < 2 ^ 31" using n(3,4) by linarith
  have "unat (ulen (cbArray cb) + 1) = length q + 1" using n(1) small by (simp add: unat_word_ariths)
  moreover have "1 < length q + 1" using pl p(2) by linarith
  ultimately have v: "1 mod (ulen (cbArray cb) + 1) = 1" by (simp add: word_eq_unat unat_mod)
  have len0: "ulen (cbArray cb) \<noteq> 0" using n(1) pl p(2) by auto
  have dec: "unat (getDecreasedIdxBy cb (cbReadIdx cb) 1) =
      (if unat (cbReadIdx cb) = 0 then length q - 1 else unat (cbReadIdx cb) - 1)"
  proof (cases "cbReadIdx cb = 0")
    case True
    have "unat (ulen (cbArray cb) - 1) = length q - 1" using n(1) pl p(2) unat_minus [of 1 "ulen (cbArray cb)"] by simp
    then show ?thesis using True len0 by (simp add: getDecreasedIdxBy_def v)
  next
    case False
    then have nz: "0 < unat (cbReadIdx cb)" by (simp add: word_neq_0_conv unat_gt_0)
    then have "\<not> cbReadIdx cb < 1" by (simp add: word_less_nat_alt)
    then show ?thesis using False nz len0 unat_minus [of 1 "cbReadIdx cb"] by (simp add: getDecreasedIdxBy_def v)
  qed
  have t1: "unat (toReadBackwards cb - 1) = p - 1" using to p(2) unat_minus [of 1 "toReadBackwards cb"] by simp
  have at: "chb_at ?cb (p - 1)"
  proof (cases "length q < unat (cbSize cb)")
    case True
    then have "unat (cbReadIdx cb) = p" using p(1) n(1) by (simp add: chb_at_def)
    then show ?thesis using True dec t1 pl p(2) n(1) by (simp add: chb_at_def)
  next
    case False
    then have full: "length q = unat (cbSize cb)" using n(3) by simp
    have "unat (cbReadIdx cb) = (unat (cbWriteIdx cb) + p) mod length q"
      using False p(1) n(1) full by (simp add: chb_at_def)
    then have "unat (getDecreasedIdxBy cb (cbReadIdx cb) 1) = (unat (cbWriteIdx cb) + (p - 1)) mod length q"
      using dec p(2) mod_Suc [of "unat (cbWriteIdx cb) + (p - 1)" "length q"] pl
      by (auto split: if_splits)
    then show ?thesis using False t1 pl n(1) full by (simp add: chb_at_def)
  qed
  have rr: "chb_rep D key ?cb q" using r by (simp add: rep_read)
  have "p - 1 < length q" using pl p(2) by linarith
  from chb_element [OF rr at this] have e: "UArray_get (Some (cbArray ?cb)) (sint (cbReadIdx ?cb)) =
      Some (unat (cbReadIdx ?cb))" "uslot (cbArray ?cb) (unat (cbReadIdx ?cb)) = Some (q ! (p - 1))" by blast+
  have "toReadBackwards cb \<noteq> 0" using to p(2) by auto
  then have "CHB_readPrev cb = (Some (unat (cbReadIdx ?cb)), ?cb)"
    using e(1) by (simp add: CHB_readPrev_def decreaseReadIdx_def Let_def)
  then show ?thesis using rr at e(2) by (intro exI [of _ "unat (cbReadIdx ?cb)"] exI [of _ ?cb]) simp
qed

lemma prev_start: "chb_at cb 0 \<Longrightarrow> CHB_readPrev cb = (None, cb)"
  by (simp add: CHB_readPrev_def chb_at_def unat_eq_0)

lemma next_ok:
  assumes r: "chb_rep D key cb q" and p: "chb_at cb p" "p + 1 < length q"
  shows "\<exists>i cb'. CHB_readNext cb = Some (Some i, cb') \<and> chb_rep D key cb' q \<and> chb_at cb' (p + 1) \<and>
    cbArray cb' = cbArray cb \<and> cbSize cb' = cbSize cb \<and> cbFreeEleFn cb' = cbFreeEleFn cb \<and>
    uslot (cbArray cb) i = Some (q ! (p + 1))"
proof -
  note n = chb_sizes [OF r]
  let ?cb = "cb\<lparr>cbReadIdx := (cbReadIdx cb + 1) mod cbSize cb, toReadBackwards := toReadBackwards cb + 1\<rparr>"
  have to: "unat (toReadBackwards cb) = p" using p(1) by (simp add: chb_at_def)
  have small: "length q < 2 ^ 31" using n(3,4) by linarith
  have t1: "unat (toReadBackwards cb + 1) = p + 1" using to p(2) small by (simp add: unat_word_ariths)
  have size: "cbSize cb \<noteq> 0" using n(2) by auto
  have ri: "unat (cbReadIdx cb) < 2 ^ 31"
  proof (cases "length q < unat (cbSize cb)")
    case True
    then show ?thesis using p n(1) small by (simp add: chb_at_def)
  next
    case False
    then have "unat (cbReadIdx cb) = (unat (cbWriteIdx cb) + p) mod unat (cbSize cb)"
      using p(1) n(1) by (simp add: chb_at_def)
    moreover have "(unat (cbWriteIdx cb) + p) mod unat (cbSize cb) < unat (cbSize cb)"
      using n(2) by (intro mod_less_divisor) simp
    ultimately show ?thesis using n(4) by linarith
  qed
  then have inc: "unat ((cbReadIdx cb + 1) mod cbSize cb) = Suc (unat (cbReadIdx cb)) mod unat (cbSize cb)"
    by (simp add: unat_mod unat_word_ariths)
  have at: "chb_at ?cb (p + 1)"
  proof (cases "length q < unat (cbSize cb)")
    case True
    then have "unat (cbReadIdx cb) = p" using p(1) n(1) by (simp add: chb_at_def)
    then show ?thesis using True inc t1 p(2) n(1) by (simp add: chb_at_def)
  next
    case False
    then have "unat (cbReadIdx cb) = (unat (cbWriteIdx cb) + p) mod unat (cbSize cb)"
      using p(1) n(1) by (simp add: chb_at_def)
    then have "unat ((cbReadIdx cb + 1) mod cbSize cb) = (unat (cbWriteIdx cb) + (p + 1)) mod unat (cbSize cb)"
      unfolding inc by (simp add: mod_Suc_eq)
    then show ?thesis using False t1 p(2) n(1) by (simp add: chb_at_def)
  qed
  have rr: "chb_rep D key ?cb q" using r by (simp add: rep_read)
  from chb_element [OF rr at p(2)] have e: "UArray_get (Some (cbArray ?cb)) (sint (cbReadIdx ?cb)) =
      Some (unat (cbReadIdx ?cb))" "uslot (cbArray ?cb) (unat (cbReadIdx ?cb)) = Some (q ! (p + 1))" by blast+
  have "\<not> toReadBackwards cb + 1 \<ge> ulen (cbArray cb)" using t1 p(2) n(1) by (simp add: word_le_nat_alt)
  then have "CHB_readNext cb = Some (Some (unat (cbReadIdx ?cb)), ?cb)"
    using e(1) size by (simp add: CHB_readNext_def increaseReadIdx_def getIncreasedIdxBy_def Let_def)
  then show ?thesis using rr at e(2) by (intro exI [of _ "unat (cbReadIdx ?cb)"] exI [of _ ?cb]) simp
qed

lemma next_end:
  assumes r: "chb_rep D key cb q" and p: "chb_at cb p" "length q \<le> p + 1"
  shows "CHB_readNext cb = Some (None, cb)"
proof -
  note n = chb_sizes [OF r]
  have "p \<le> length q" "length q < 2 ^ 31" "unat (toReadBackwards cb) = p" using p(1) n by (simp_all add: chb_at_def)
  then have "unat (toReadBackwards cb + 1) = p + 1" by (simp add: unat_word_ariths)
  then have "toReadBackwards cb + 1 \<ge> ulen (cbArray cb)" using n(1) p(2) by (simp add: word_le_nat_alt)
  then show ?thesis by (simp add: CHB_readNext_def)
qed

end
