(* ===== verification/Philosophers.thy ===== *)
theory Philosophers
  imports Main
begin

text \<open>
  The dining philosophers of user land (\<open>Userland/UserModule/c2/phyloTest.c\<close>). The program of a
  process is the list of its actions; the system calls on semaphores are the actions \<open>Wait\<close> and
  \<open>Post\<close>, with the meaning that the kernel's semaphores are shown to have (theory \<open>SemProps\<close>): a
  wait takes one from a positive value or joins the end of the queue, a post hands over to the
  first of the queue or adds one to the value. The processes are interleaved in every order.
\<close>

datatype phylo_state = EATING | HUNGRY | THINKING | NOTHING

text \<open>\<open>phylo[i].fork_at_index\<close>, \<open>change_phylos_sem\<close> and \<open>print_mutex\<close>.\<close>

datatype semaphore = Fork nat | Change | PrintMutex

datatype action =
  Wait semaphore
| Post semaphore
| SetState phylo_state
| Sleep  \<comment> \<open>\<open>sysSleep(randBetween(600, 800))\<close>\<close>
| PrintTable  \<comment> \<open>the loop and the line end of \<open>monitor\<close>\<close>

definition PHYLO_AMOUNT :: nat where "PHYLO_AMOUNT = 5"
definition PHYLO_MAX_AMOUNT :: nat where "PHYLO_MAX_AMOUNT = 10"
definition PHYLO_MIN_AMOUNT :: nat where "PHYLO_MIN_AMOUNT = 2"

section \<open>The program of a philosopher\<close>

text \<open>\<open>n\<close> is \<open>phylos_on_table\<close>.\<close>

definition right_fork :: "nat \<Rightarrow> nat \<Rightarrow> nat" where
  "right_fork n i = (i + 1) mod n"

definition monitor :: "action list" where
  "monitor = [Wait PrintMutex, PrintTable, Post PrintMutex]"

definition takeForks :: "nat \<Rightarrow> nat \<Rightarrow> action list" where
  "takeForks n i = SetState HUNGRY #
     (if odd i then [Wait (Fork (right_fork n i)), Wait (Fork i)]
      else [Wait (Fork i), Wait (Fork (right_fork n i))])"

definition leaveForks :: "nat \<Rightarrow> nat \<Rightarrow> action list" where
  "leaveForks n i = [Post (Fork i), Post (Fork (right_fork n i)), SetState NOTHING]"

definition think :: "action list" where
  "think = [SetState THINKING, Sleep]"

definition eat :: "action list" where
  "eat = [SetState EATING, Sleep] @ monitor"

text \<open>The body of the loop of \<open>myPhyloProcess\<close>.\<close>

definition phyloBody :: "nat \<Rightarrow> nat \<Rightarrow> action list" where
  "phyloBody n i = [Wait Change] @ think @ takeForks n i @ eat @ leaveForks n i @ [Post Change]"

section \<open>The runs\<close>

text \<open>
  For each philosopher the position in its body and whether it waits there in a queue; for each
  semaphore its value and its queue; the array \<open>phylo\<close> of states.
\<close>

record phylos =
  at :: "nat \<Rightarrow> nat"
  blocked :: "nat \<Rightarrow> bool"
  value_of :: "semaphore \<Rightarrow> nat"
  queue_of :: "semaphore \<Rightarrow> nat list"
  phylo :: "nat \<Rightarrow> phylo_state"

text \<open>On to the next action, around the endless loop.\<close>

definition advance :: "nat \<Rightarrow> nat \<Rightarrow> phylos \<Rightarrow> phylos" where
  "advance n i s = s\<lparr>at := (at s)(i := Suc (at s i) mod length (phyloBody n i))\<rparr>"

fun exec :: "nat \<Rightarrow> nat \<Rightarrow> action \<Rightarrow> phylos \<Rightarrow> phylos" where
  "exec n i (Wait x) s =
     (if value_of s x > 0
      then advance n i (s\<lparr>value_of := (value_of s)(x := value_of s x - 1)\<rparr>)
      else s\<lparr>queue_of := (queue_of s)(x := queue_of s x @ [i]), blocked := (blocked s)(i := True)\<rparr>)"
| "exec n i (Post x) s =
     advance n i
       (case queue_of s x of
          [] \<Rightarrow> s\<lparr>value_of := (value_of s)(x := value_of s x + 1)\<rparr>
        | j # q \<Rightarrow> advance n j (s\<lparr>queue_of := (queue_of s)(x := q), blocked := (blocked s)(j := False)\<rparr>))"
| "exec n i (SetState st) s = advance n i (s\<lparr>phylo := (phylo s)(i := st)\<rparr>)"
| "exec n i Sleep s = advance n i s"
| "exec n i PrintTable s = advance n i s"

text \<open>One action of one philosopher that is not waiting.\<close>

inductive phylo_step :: "nat \<Rightarrow> phylos \<Rightarrow> phylos \<Rightarrow> bool" for n where
  act: "i < n \<Longrightarrow> \<not> blocked s i \<Longrightarrow> phylo_step n s (exec n i (phyloBody n i ! at s i) s)"

text \<open>The table after \<open>commandPhylo\<close> has called \<open>freeAll\<close>.\<close>

definition phylos_init :: "nat \<Rightarrow> phylos" where
  "phylos_init n = \<lparr>at = (\<lambda>_. 0), blocked = (\<lambda>_. False),
     value_of = (\<lambda>x. case x of Change \<Rightarrow> n | _ \<Rightarrow> 1), queue_of = (\<lambda>_. []), phylo = (\<lambda>_. THINKING)\<rparr>"

section \<open>Adding and removing philosophers\<close>

definition blockAll :: "nat \<Rightarrow> action list" where
  "blockAll n = replicate n (Wait Change)"

definition blockAllToInitiate :: "action list" where
  "blockAllToInitiate = replicate PHYLO_AMOUNT (Wait Change)"

definition freeAll :: "nat \<Rightarrow> action list" where
  "freeAll n = replicate n (Post Change)"

text \<open>
  \<open>addPhylo(pos)\<close> with \<open>sem\<close> the result of \<open>sysSemInit(1)\<close>: the return value, the actions on
  \<open>change_phylos_sem\<close> and the new \<open>phylos_on_table\<close>.
\<close>

definition addPhylo :: "nat \<Rightarrow> int \<Rightarrow> int \<Rightarrow> int \<times> action list \<times> nat" where
  "addPhylo n pos sem =
     (if pos < int PHYLO_MIN_AMOUNT \<or> pos \<ge> int PHYLO_MAX_AMOUNT then (- 2, [], n)
      else if sem = - 1 then (- 1, blockAll n @ freeAll n, n)
      else (0, blockAll n @ freeAll (n + 1), n + 1))"

text \<open>\<open>remPhylo(pos)\<close> with the results of \<open>sysKill\<close> and \<open>sysDestroySemaphore\<close>.\<close>

definition remPhylo :: "nat \<Rightarrow> int \<Rightarrow> bool \<Rightarrow> bool \<Rightarrow> int \<times> action list \<times> nat" where
  "remPhylo n pos killed destroyed =
     (if pos < int PHYLO_MIN_AMOUNT \<or> pos \<ge> int n then (- 2, [], n)
      else if \<not> killed \<or> \<not> destroyed then (- 1, blockAll n @ freeAll n, n)
      else (0, blockAll n @ freeAll (nat pos), nat pos))"

end
