(* ===== verification/PhyloProps.thy ===== *)
theory PhyloProps
  imports Philosophers
begin

text \<open>
  Two neighbours never hold the fork between them at once, and the philosophers never all wait:
  the even ones take their own fork first, the odd ones the other.
\<close>

section \<open>What a philosopher holds\<close>

text \<open>The effect of an action on what the process holds of a semaphore, and the sum over its actions so
  far.\<close>

fun effect :: "semaphore \<Rightarrow> action \<Rightarrow> int" where
  "effect x (Wait y) = (if y = x then 1 else 0)"
| "effect x (Post y) = (if y = x then - 1 else 0)"
| "effect x _ = 0"

definition holds :: "nat \<Rightarrow> nat \<Rightarrow> nat \<Rightarrow> semaphore \<Rightarrow> int" where
  "holds n i k x = sum_list (map (effect x) (take k (phyloBody n i)))"

definition init_value :: "nat \<Rightarrow> semaphore \<Rightarrow> int" where
  "init_value n x = int (value_of (phylos_init n) x)"

lemma body_length [simp]: "length (phyloBody n i) = 15"
  by (simp add: phyloBody_def think_def takeForks_def eat_def monitor_def leaveForks_def)

lemma body_nth: "phyloBody n i =
    [Wait Change, SetState THINKING, Sleep, SetState HUNGRY,
     Wait (Fork (if odd i then right_fork n i else i)), Wait (Fork (if odd i then i else right_fork n i)),
     SetState EATING, Sleep, Wait PrintMutex, PrintTable, Post PrintMutex,
     Post (Fork i), Post (Fork (right_fork n i)), SetState NOTHING, Post Change]"
  by (simp add: phyloBody_def think_def takeForks_def eat_def monitor_def leaveForks_def)

lemma holds_Suc:
  "k < 15 \<Longrightarrow> holds n i (Suc k mod 15) x = holds n i k x + effect x (phyloBody n i ! k)"
proof (cases "Suc k = 15")
  case True
  then have "k = 14" by simp
  then show ?thesis by (auto simp: holds_def body_nth)
next
  case False
  assume "k < 15"
  with False show ?thesis by (simp add: holds_def take_Suc_conv_app_nth)
qed

lemma holds_zero: "holds n i 0 x = 0"
  by (simp add: holds_def)

text \<open>By the position: what is held where.\<close>

lemma holds_cases:
  assumes "k < 15"
  shows "holds n i k Change = (if 1 \<le> k then 1 else 0)"
    "holds n i k PrintMutex = (if 9 \<le> k \<and> k \<le> 10 then 1 else 0)"
    "right_fork n i \<noteq> i \<Longrightarrow> holds n i k (Fork f) =
       (if f = i then (if (if odd i then 6 else 5) \<le> k \<and> k \<le> 11 then 1 else 0)
        else if f = right_fork n i then (if (if odd i then 5 else 6) \<le> k \<and> k \<le> 12 then 1 else 0)
        else 0)"
proof -
  have "k = 0 \<or> k = 1 \<or> k = 2 \<or> k = 3 \<or> k = 4 \<or> k = 5 \<or> k = 6 \<or> k = 7 \<or> k = 8 \<or> k = 9 \<or> k = 10 \<or>
      k = 11 \<or> k = 12 \<or> k = 13 \<or> k = 14" using assms by presburger
  then show "holds n i k Change = (if 1 \<le> k then 1 else 0)"
    "holds n i k PrintMutex = (if 9 \<le> k \<and> k \<le> 10 then 1 else 0)"
    "right_fork n i \<noteq> i \<Longrightarrow> holds n i k (Fork f) =
       (if f = i then (if (if odd i then 6 else 5) \<le> k \<and> k \<le> 11 then 1 else 0)
        else if f = right_fork n i then (if (if odd i then 5 else 6) \<le> k \<and> k \<le> 12 then 1 else 0)
        else 0)"
    by (elim disjE; simp add: holds_def body_nth)+
qed

lemma right_fork_neq: "2 \<le> n \<Longrightarrow> i < n \<Longrightarrow> right_fork n i \<noteq> i"
  by (cases "Suc i = n") (auto simp: right_fork_def)

lemma holds_range: "2 \<le> n \<Longrightarrow> i < n \<Longrightarrow> k < 15 \<Longrightarrow> 0 \<le> holds n i k x \<and> holds n i k x \<le> 1"
  using holds_cases [of k n i] right_fork_neq [of n i] by (cases x) simp_all

section \<open>The invariant\<close>

definition waiting :: "nat \<Rightarrow> phylos \<Rightarrow> semaphore \<Rightarrow> nat set" where
  "waiting n s x = {i. i < n \<and> blocked s i \<and> phyloBody n i ! at s i = Wait x}"

definition phylo_inv :: "nat \<Rightarrow> phylos \<Rightarrow> bool" where
  "phylo_inv n s \<longleftrightarrow> (\<forall>i. at s i < 15) \<and>
     (\<forall>x. int (value_of s x) + (\<Sum>i<n. holds n i (at s i) x) = init_value n x) \<and>
     (\<forall>x. distinct (queue_of s x) \<and> set (queue_of s x) = waiting n s x) \<and>
     (\<forall>x. value_of s x > 0 \<longrightarrow> queue_of s x = []) \<and>
     (\<forall>i. blocked s i \<longrightarrow> i < n \<and> (\<exists>x. phyloBody n i ! at s i = Wait x))"

lemma phylo_inv_init: "phylo_inv n (phylos_init n)"
  by (simp add: phylo_inv_def phylos_init_def waiting_def init_value_def holds_zero)

lemma advance_simps [simp]:
  "value_of (advance n i s) = value_of s" "queue_of (advance n i s) = queue_of s"
  "blocked (advance n i s) = blocked s" "phylo (advance n i s) = phylo s"
  "at (advance n i s) = (at s)(i := Suc (at s i) mod 15)"
  by (simp_all add: advance_def)

lemma sum_advance:
  assumes "i < n" "at s i < 15"
  shows "(\<Sum>j<n. holds n j (at (advance n i s) j) x) =
    (\<Sum>j<n. holds n j (at s j) x) + effect x (phyloBody n i ! at s i)"
proof -
  have "(\<Sum>j<n. holds n j (at (advance n i s) j) x) =
      (\<Sum>j \<in> {..<n} - {i}. holds n j (at s j) x) + holds n i (Suc (at s i) mod 15) x"
    using assms(1) by (simp add: sum.remove [of "{..<n}" i])
  moreover have "(\<Sum>j<n. holds n j (at s j) x) =
      (\<Sum>j \<in> {..<n} - {i}. holds n j (at s j) x) + holds n i (at s i) x"
    using assms(1) by (simp add: sum.remove [of "{..<n}" i])
  ultimately show ?thesis using holds_Suc [OF assms(2), of n i x] by simp
qed

text \<open>The four kinds of step.\<close>

lemma inv_advance:
  assumes inv: "phylo_inv n s" and i: "i < n" "\<not> blocked s i"
    and v: "\<And>x. int (v x) + effect x (phyloBody n i ! at s i) = int (value_of s x)"
    and q: "\<And>x. v x > 0 \<Longrightarrow> queue_of s x = []"
  shows "phylo_inv n (advance n i (s\<lparr>value_of := v, phylo := p\<rparr>))"
proof -
  let ?s = "advance n i (s\<lparr>value_of := v, phylo := p\<rparr>)"
  have w: "waiting n ?s x = waiting n s x" for x using i by (auto simp: waiting_def)
  have "int (v x) + (\<Sum>j<n. holds n j (at ?s j) x) = init_value n x" for x
  proof -
    have "at s i < 15" using inv by (simp add: phylo_inv_def)
    then have "(\<Sum>j<n. holds n j (at ?s j) x) =
        (\<Sum>j<n. holds n j (at s j) x) + effect x (phyloBody n i ! at s i)"
      using sum_advance [OF i(1), of "s\<lparr>value_of := v, phylo := p\<rparr>" x] by simp
    moreover have "int (value_of s x) + (\<Sum>j<n. holds n j (at s j) x) = init_value n x"
      using inv by (simp add: phylo_inv_def)
    ultimately show ?thesis using v [of x] by linarith
  qed
  moreover have "\<forall>j. blocked ?s j \<longrightarrow> j < n \<and> (\<exists>x. phyloBody n j ! at ?s j = Wait x)"
    using inv i(2) by (auto simp: phylo_inv_def)
  ultimately show ?thesis using inv q w by (simp add: phylo_inv_def)
qed

lemma inv_block:
  assumes inv: "phylo_inv n s" and i: "i < n" "\<not> blocked s i"
    and x: "phyloBody n i ! at s i = Wait x" "value_of s x = 0"
  shows "phylo_inv n (s\<lparr>queue_of := (queue_of s)(x := queue_of s x @ [i]), blocked := (blocked s)(i := True)\<rparr>)"
proof -
  have "waiting n (s\<lparr>queue_of := (queue_of s)(x := queue_of s x @ [i]), blocked := (blocked s)(i := True)\<rparr>) y =
      (if y = x then insert i (waiting n s x) else waiting n s y)" for y
    using i x by (auto simp: waiting_def)
  moreover have "i \<notin> waiting n s x" using i(2) by (simp add: waiting_def)
  ultimately show ?thesis using inv i x by (auto simp: phylo_inv_def)
qed

lemma inv_hand_over:
  assumes inv: "phylo_inv n s" and i: "i < n" "\<not> blocked s i"
    and x: "phyloBody n i ! at s i = Post x" "queue_of s x = j # q"
  shows "phylo_inv n (advance n i (advance n j
    (s\<lparr>queue_of := (queue_of s)(x := q), blocked := (blocked s)(j := False)\<rparr>)))"
proof -
  let ?t = "s\<lparr>queue_of := (queue_of s)(x := q), blocked := (blocked s)(j := False)\<rparr>"
  let ?s = "advance n i (advance n j ?t)"
  have "distinct (queue_of s x)" "set (queue_of s x) = waiting n s x" "value_of s x = 0"
    using inv x(2) unfolding phylo_inv_def by (blast, blast, metis gr0I list.distinct(1))
  then have d: "distinct (j # q)" "set (j # q) = waiting n s x" "value_of s x = 0"
    unfolding x(2) by simp_all
  then have j: "j < n" "blocked s j" "phyloBody n j ! at s j = Wait x" "j \<notin> set q"
    "set q = waiting n s x - {j}" by (auto simp: waiting_def)
  have ij: "i \<noteq> j" using i j by auto
  have lt: "at s i < 15" "at s j < 15" using inv by (auto simp: phylo_inv_def)
  have w: "waiting n ?s y = waiting n s y - {j}" for y
    using i j ij by (auto simp: waiting_def)
  have "waiting n s y - {j} = waiting n s y" if "y \<noteq> x" for y using j that by (auto simp: waiting_def)
  then have qs: "set (queue_of ?s y) = waiting n ?s y" "distinct (queue_of ?s y)" for y
    using inv w j d(1) by (auto simp: phylo_inv_def)
  have "int (value_of s y) + (\<Sum>k<n. holds n k (at ?s k) y) = init_value n y" for y
  proof -
    have "(\<Sum>k<n. holds n k (at ?s k) y) = (\<Sum>k<n. holds n k (at (advance n j ?t) k) y) + effect y (Post x)"
      using sum_advance [OF i(1), of "advance n j ?t" y] lt ij x(1) by simp
    also have "\<dots> = (\<Sum>k<n. holds n k (at s k) y) + effect y (Wait x) + effect y (Post x)"
      using sum_advance [OF j(1), of ?t y] lt j(3) by simp
    finally show ?thesis using inv by (simp add: phylo_inv_def)
  qed
  moreover have "\<forall>k. blocked ?s k \<longrightarrow> k < n \<and> (\<exists>x. phyloBody n k ! at ?s k = Wait x)"
    using inv i(2) by (auto simp: phylo_inv_def)
  moreover have "value_of ?s y > 0 \<longrightarrow> queue_of ?s y = []" for y
    using inv d(3) by (auto simp: phylo_inv_def)
  ultimately show ?thesis using inv qs by (auto simp: phylo_inv_def)
qed

lemma phylo_inv_step: "phylo_step n s s' \<Longrightarrow> phylo_inv n s \<Longrightarrow> phylo_inv n s'"
proof (induction rule: phylo_step.cases)
  case (act i s)
  then have i: "i < n" "\<not> blocked s i" and inv: "phylo_inv n s" by simp_all
  have q: "\<And>x. value_of s x > 0 \<Longrightarrow> queue_of s x = []" using inv by (simp add: phylo_inv_def)
  note adv = inv_advance [OF inv i]
  show ?case
  proof (cases "phyloBody n i ! at s i")
    case (Wait x)
    show ?thesis
    proof (cases "value_of s x > 0")
      case True
      let ?v = "(value_of s)(x := value_of s x - 1)"
      have "phylo_inv n (advance n i (s\<lparr>value_of := ?v, phylo := phylo s\<rparr>))"
        by (rule adv) (use True Wait q in \<open>auto split: if_splits\<close>)
      then show ?thesis using act Wait True by simp
    next
      case False
      then show ?thesis using inv_block [OF inv i Wait] act Wait by simp
    qed
  next
    case (Post x)
    show ?thesis
    proof (cases "queue_of s x")
      case Nil
      let ?v = "(value_of s)(x := value_of s x + 1)"
      have "phylo_inv n (advance n i (s\<lparr>value_of := ?v, phylo := phylo s\<rparr>))"
        by (rule adv) (use Nil Post q in \<open>auto split: if_splits\<close>)
      then show ?thesis using act Post Nil by simp
    next
      case (Cons j q)
      then show ?thesis using inv_hand_over [OF inv i Post Cons] act Post by simp
    qed
  next
    case (SetState st)
    have "phylo_inv n (advance n i (s\<lparr>value_of := value_of s, phylo := (phylo s)(i := st)\<rparr>))"
      by (rule adv) (use SetState q in auto)
    then show ?thesis using act SetState by simp
  next
    case Sleep
    have "phylo_inv n (advance n i (s\<lparr>value_of := value_of s, phylo := phylo s\<rparr>))"
      by (rule adv) (use Sleep q in auto)
    then show ?thesis using act Sleep by simp
  next
    case PrintTable
    have "phylo_inv n (advance n i (s\<lparr>value_of := value_of s, phylo := phylo s\<rparr>))"
      by (rule adv) (use PrintTable q in auto)
    then show ?thesis using act PrintTable by simp
  qed
qed

lemma phylo_inv_reachable: "(phylo_step n)\<^sup>*\<^sup>* (phylos_init n) s \<Longrightarrow> phylo_inv n s"
  by (induction rule: rtranclp_induct) (auto intro: phylo_inv_init phylo_inv_step)

section \<open>Exclusion\<close>

lemma phylo_invD:
  assumes "phylo_inv n s"
  shows "at s i < 15" "int (value_of s x) + (\<Sum>i<n. holds n i (at s i) x) = init_value n x"
    "blocked s i \<Longrightarrow> i < n \<and> (\<exists>x. phyloBody n i ! at s i = Wait x)"
    "blocked s i \<Longrightarrow> phyloBody n i ! at s i = Wait x \<Longrightarrow> value_of s x = 0"
proof -
  show "at s i < 15" "int (value_of s x) + (\<Sum>i<n. holds n i (at s i) x) = init_value n x"
    "blocked s i \<Longrightarrow> i < n \<and> (\<exists>x. phyloBody n i ! at s i = Wait x)"
    using assms by (simp_all add: phylo_inv_def)
  assume b: "blocked s i" "phyloBody n i ! at s i = Wait x"
  then have "i \<in> waiting n s x" using assms by (auto simp: phylo_inv_def waiting_def)
  then have "queue_of s x \<noteq> []" using assms unfolding phylo_inv_def by (metis empty_iff list.set(1))
  then show "value_of s x = 0" using assms unfolding phylo_inv_def by blast
qed

text \<open>Two different philosophers hold at most what the semaphore had at first.\<close>

lemma holds_two:
  assumes inv: "phylo_inv n s" and n: "2 \<le> n" and ij: "i < n" "j < n" "i \<noteq> j"
  shows "holds n i (at s i) x + holds n j (at s j) x \<le> init_value n x"
proof -
  have "0 \<le> holds n k (at s k) x" if "k < n" for k
    using holds_range [OF n that phylo_invD(1) [OF inv]] by simp
  then have "(\<Sum>k \<in> {i, j}. holds n k (at s k) x) \<le> (\<Sum>k<n. holds n k (at s k) x)"
    using ij by (intro sum_mono2) auto
  moreover have "(\<Sum>k<n. holds n k (at s k) x) \<le> init_value n x"
    using phylo_invD(2) [OF inv, of x] by linarith
  ultimately show ?thesis using ij(3) by simp
qed

text \<open>A semaphore on which a process waits is held by another.\<close>

lemma holder:
  assumes inv: "phylo_inv n s" and n: "2 \<le> n" and b: "blocked s i" "phyloBody n i ! at s i = Wait x"
    and pos: "init_value n x > 0"
  obtains j where "j < n" "holds n j (at s j) x = 1"
proof -
  have "(\<Sum>k<n. holds n k (at s k) x) > 0"
    using phylo_invD(2) [OF inv, of x] phylo_invD(4) [OF inv b] pos by simp
  then obtain k where k: "k < n" "holds n k (at s k) x > 0"
    by (metis (no_types, lifting) lessThan_iff not_less sum_nonpos)
  moreover have "holds n k (at s k) x \<le> 1" using holds_range [OF n k(1) phylo_invD(1) [OF inv]] by simp
  ultimately show thesis using that [of k] by simp
qed

lemma init_simps [simp]: "init_value n (Fork f) = 1" "init_value n PrintMutex = 1" "init_value n Change = int n"
  by (simp_all add: init_value_def phylos_init_def)

text \<open>The part of the body between the second fork and the first release.\<close>

definition has_forks :: "phylos \<Rightarrow> nat \<Rightarrow> bool" where
  "has_forks s i \<longleftrightarrow> 6 \<le> at s i \<and> at s i \<le> 11"

lemma exclude:
  assumes inv: "phylo_inv n s" and n: "2 \<le> n" and i: "i < n"
  shows "\<not> (has_forks s i \<and> has_forks s (right_fork n i))"
proof
  let ?j = "right_fork n i"
  assume h: "has_forks s i \<and> has_forks s ?j"
  have j: "?j < n" "i \<noteq> ?j" using right_fork_neq [OF n i] n by (auto simp: right_fork_def)
  have "holds n i (at s i) (Fork ?j) = 1" "holds n ?j (at s ?j) (Fork ?j) = 1"
    using h j holds_cases(3) [OF phylo_invD(1) [OF inv]] right_fork_neq [OF n i] right_fork_neq [OF n j(1)]
    by (simp_all add: has_forks_def)
  then show False using holds_two [OF inv n i j, of "Fork ?j"] by simp
qed

section \<open>Progress\<close>

lemma blocked_at:
  assumes inv: "phylo_inv n s" and b: "blocked s i"
  obtains "at s i = 0" | "at s i = 8"
  | "at s i = 4" "phyloBody n i ! at s i = Wait (Fork (if odd i then right_fork n i else i))"
  | "at s i = 5" "phyloBody n i ! at s i = Wait (Fork (if odd i then i else right_fork n i))"
proof -
  obtain x where x: "phyloBody n i ! at s i = Wait x" using phylo_invD(3) [OF inv b] by blast
  have "at s i < 15" using phylo_invD(1) [OF inv] .
  then have "at s i = 0 \<or> at s i = 1 \<or> at s i = 2 \<or> at s i = 3 \<or> at s i = 4 \<or> at s i = 5 \<or> at s i = 6 \<or>
      at s i = 7 \<or> at s i = 8 \<or> at s i = 9 \<or> at s i = 10 \<or> at s i = 11 \<or> at s i = 12 \<or> at s i = 13 \<or>
      at s i = 14" by presburger
  then show thesis using x that by (elim disjE) (simp_all add: body_nth)
qed

lemma progress:
  assumes inv: "phylo_inv n s" and n: "2 \<le> n"
  shows "\<exists>i < n. \<not> blocked s i"
proof (rule ccontr)
  assume "\<not> (\<exists>i < n. \<not> blocked s i)"
  then have all: "blocked s i" if "i < n" for i using that by blast
  let ?first = "\<lambda>j. if odd j then right_fork n j else j"
  let ?second = "\<lambda>j. if odd j then j else right_fork n j"
  have not0: "at s i \<noteq> 0" if i: "i < n" for i
  proof
    assume "at s i = 0"
    then have w: "phyloBody n i ! at s i = Wait Change" "holds n i (at s i) Change = 0"
      by (simp_all add: body_nth holds_zero)
    have "(\<Sum>k<n. holds n k (at s k) Change) = int n"
      using phylo_invD(2) [OF inv, of Change] phylo_invD(4) [OF inv all [OF i] w(1)] by simp
    moreover have "(\<Sum>k<n. holds n k (at s k) Change) = (\<Sum>k \<in> {..<n} - {i}. holds n k (at s k) Change)"
      using i w(2) by (simp add: sum.remove [of "{..<n}" i])
    moreover have "(\<Sum>k \<in> {..<n} - {i}. holds n k (at s k) Change) \<le> (\<Sum>k \<in> {..<n} - {i}. 1)"
      by (rule sum_mono) (use holds_range [OF n _ phylo_invD(1) [OF inv]] in auto)
    ultimately show False using i by simp
  qed
  have not8: "at s i \<noteq> 8" if i: "i < n" for i
  proof
    assume "at s i = 8"
    then have "phyloBody n i ! at s i = Wait PrintMutex" by (simp add: body_nth)
    then obtain j where j: "j < n" "holds n j (at s j) PrintMutex = 1"
      using holder [OF inv n all [OF i], of PrintMutex] by auto
    then have "9 \<le> at s j" "at s j \<le> 10"
      using holds_cases(2) [OF phylo_invD(1) [OF inv, of j], of n j] by (auto split: if_splits)
    with blocked_at [OF inv all [OF j(1)]] show False by fastforce
  qed
  have who: "at s j = 5 \<and> f = ?first j" if "j < n" "holds n j (at s j) (Fork f) = 1" for j f
  proof -
    have "at s j = 4 \<or> at s j = 5" using blocked_at [OF inv all [OF that(1)]] not0 [OF that(1)] not8 [OF that(1)] by metis
    then show ?thesis
      using that(2) holds_cases(3) [OF phylo_invD(1) [OF inv] right_fork_neq [OF n that(1)], where f = f]
      by (auto split: if_splits)
  qed
  have waits: "\<exists>j < n. at s j = 5 \<and> f = ?first j"
    if i: "i < n" and w: "phyloBody n i ! at s i = Wait (Fork f)" for i f
  proof -
    obtain j where "j < n" "holds n j (at s j) (Fork f) = 1"
      using holder [OF inv n all [OF i] w] by auto
    then show ?thesis using who by blast
  qed
  have second: "phyloBody n i ! at s i = Wait (Fork (?second i))" if "at s i = 5" for i
    using that by (simp add: body_nth)
  have even1: "even (?first j)" if "j < n" for j
    using that by (cases "Suc j = n") (auto simp: right_fork_def)
  have odd5: False if i: "i < n" "at s i = 5" and odd: "odd (?second i)" for i
  proof -
    obtain j where "j < n" "?second i = ?first j" using waits [OF i(1) second [OF i(2)]] by blast
    then show False using even1 [of j] odd by simp
  qed
  have not5: "at s i \<noteq> 5" if i: "i < n" for i
  proof
    assume at5: "at s i = 5"
    have sec: "even (?second i)" using odd5 [OF i at5] by blast
    then have ei: "even i" by (cases "odd i") simp_all
    with sec have "even (right_fork n i)" by simp
    with ei have "\<not> Suc i < n" by (auto simp: right_fork_def)
    with i have "Suc i = n" by simp
    with ei have e: "even i" "Suc i = n" "right_fork n i = 0" by (simp_all add: right_fork_def)
    obtain j where j: "j < n" "at s j = 5" "?first j = 0"
      using waits [OF i second [OF at5]] e by auto
    have "j = 0"
    proof (cases "odd j")
      case True
      with j have "Suc j mod n = 0" by (simp add: right_fork_def)
      then have "Suc j = n" using j(1) by (metis Suc_leI le_neq_implies_less mod_less nat.distinct(1))
      with e(2) have "i = j" by simp
      with e(1) True show ?thesis by simp
    qed (use j in simp)
    then show False using odd5 [of 0] j n by (simp add: right_fork_def)
  qed
  have "0 < n" using n by simp
  then have "at s 0 = 4" using blocked_at [OF inv all] not0 not8 not5 by metis
  then have "phyloBody n 0 ! at s 0 = Wait (Fork 0)" by (simp add: body_nth)
  then show False using waits [OF \<open>0 < n\<close>] not5 by blast
qed

section \<open>Runs\<close>

text \<open>The run that lets the named philosophers act in turn, when none of them waits.\<close>

fun phylo_run :: "nat \<Rightarrow> nat list \<Rightarrow> phylos \<Rightarrow> phylos option" where
  "phylo_run n [] s = Some s"
| "phylo_run n (i # is) s =
     (if i < n \<and> \<not> blocked s i then phylo_run n is (exec n i (phyloBody n i ! at s i) s) else None)"

lemma phylo_run_reachable: "phylo_run n is s = Some s' \<Longrightarrow> (phylo_step n)\<^sup>*\<^sup>* s s'"
  by (induction "is" arbitrary: s)
    (auto split: if_splits intro: phylo_step.act converse_rtranclp_into_rtranclp)

text \<open>
  C25: two neighbours never hold their forks at once: in every state that any interleaving of the
  philosophers reaches from the table as it is laid, at most one of two neighbours is between the
  taking of its second fork and the release of its first.
\<close>

theorem neighbours_exclude:
  assumes "(phylo_step n)\<^sup>*\<^sup>* (phylos_init n) s" and "2 \<le> n" and "i < n"
  shows "\<not> (has_forks s i \<and> has_forks s (right_fork n i))"
  by (rule exclude [OF phylo_inv_reachable [OF assms(1)] assms(2,3)])

theorem neighbours_exclude_witness:
  "\<exists>s. phylo_run 5 [0, 1, 0, 1, 0, 1, 0, 1, 0, 1, 0, 1] (phylos_init 5) = Some s \<and> has_forks s 0 \<and>
       \<not> has_forks s 1"
proof -
  have r: "phylo_run 5 [0, 1, 0, 1, 0, 1, 0, 1, 0, 1, 0, 1] (phylos_init 5) \<noteq> None"
    "has_forks (the (phylo_run 5 [0, 1, 0, 1, 0, 1, 0, 1, 0, 1, 0, 1] (phylos_init 5))) 0"
    by (simp_all add: phylos_init_def body_nth right_fork_def has_forks_def)
  then obtain s where s: "phylo_run 5 [0, 1, 0, 1, 0, 1, 0, 1, 0, 1, 0, 1] (phylos_init 5) = Some s"
    by blast
  then show ?thesis
    using r(2) neighbours_exclude [OF phylo_run_reachable [OF s], of 0] by (simp add: right_fork_def)
qed

text \<open>
  C26: the philosophers never all wait: in every reachable state some philosopher can act, because
  the even ones take their own fork first and the odd ones the other one first.
\<close>

theorem philosophers_progress:
  assumes "(phylo_step n)\<^sup>*\<^sup>* (phylos_init n) s" and "2 \<le> n"
  shows "\<exists>i s'. i < n \<and> \<not> blocked s i \<and> s' = exec n i (phyloBody n i ! at s i) s \<and> phylo_step n s s'"
  using progress [OF phylo_inv_reachable [OF assms(1)] assms(2)] phylo_step.act by blast

theorem philosophers_progress_witness:
  "\<exists>s. phylo_run 2 [0, 0, 0, 0, 0, 1, 1, 1, 1, 1, 0] (phylos_init 2) = Some s \<and>
       blocked s 1 \<and> (\<exists>s'. phylo_step 2 s s')"
proof -
  have r: "phylo_run 2 [0, 0, 0, 0, 0, 1, 1, 1, 1, 1, 0] (phylos_init 2) \<noteq> None"
    "blocked (the (phylo_run 2 [0, 0, 0, 0, 0, 1, 1, 1, 1, 1, 0] (phylos_init 2))) 1"
    by (simp_all add: phylos_init_def body_nth right_fork_def)
  then obtain s where s: "phylo_run 2 [0, 0, 0, 0, 0, 1, 1, 1, 1, 1, 0] (phylos_init 2) = Some s"
    by blast
  then show ?thesis using r(2) philosophers_progress [OF phylo_run_reachable [OF s]] by auto
qed

text \<open>
  \<open>leaveForks\<close> releases the forks before it changes the state, so the table that \<open>monitor\<close> prints
  may show two neighbours eating: here philosopher 0 has released its forks and philosopher 1
  prints the table.
\<close>

lemma neighbours_shown_eating:
  "\<exists>s. (phylo_step 5)\<^sup>*\<^sup>* (phylos_init 5) s \<and> phylo s 0 = EATING \<and> phylo s 1 = EATING \<and>
       phyloBody 5 1 ! at s 1 = PrintTable"
proof -
  let ?r = "phylo_run 5 (replicate 13 0 @ replicate 9 1) (phylos_init 5)"
  have r: "\<not> Option.is_none ?r" "phylo (the ?r) 0 = EATING" "phylo (the ?r) 1 = EATING" "at (the ?r) 1 = 9"
    by code_simp+
  from r(1) obtain s where s: "?r = Some s" by (cases ?r) simp_all
  have "phylo s 0 = EATING \<and> phylo s 1 = EATING \<and> at s 1 = 9" using r(2-4) by (simp only: s option.sel)
  with phylo_run_reachable [OF s] show ?thesis by (intro exI [of _ s]) (simp add: body_nth)
qed

end
