(* ===== verification/UStdlib.thy ===== *)
theory UStdlib
  imports KUtils
begin

text \<open>
  The C library of user land (\<open>Userland/UserModule/c2/stdlib.c\<close>). A process reads from the pipe it
  takes as its input and writes to the one it takes as its output: the state holds the bytes still
  to come, the bytes written so far, the static variables of the padding of \<open>printf\<close> and the seed
  of \<open>rand\<close>. Strings are byte lists as in \<open>KUtils\<close>, whose \<open>strlen\<close>, \<open>strcmp\<close> and \<open>uintToBase\<close> have the
  same bodies as the ones here. The \<open>int32_t\<close> counts of printed characters are those of texts shorter
  than \<open>2^31\<close>.
\<close>

text \<open>A string literal, without its terminator and with it.\<close>

definition text_of :: "string \<Rightarrow> byte list" where "text_of s = map of_char s"

definition lit :: "string \<Rightarrow> byte list" where "lit s = map of_char s @ [0]"

definition byte_at :: "byte list \<Rightarrow> nat \<Rightarrow> byte option" where
  "byte_at s i = (if i < length s then Some (s ! i) else None)"

record uio =
  uin :: "byte list"
  uinOpen :: bool
  uout :: "byte list"
  uoutOpen :: bool
  paddingChar :: byte
  paddingLen :: int
  paddingSign :: int
  srand :: u32

definition MAX_PADDING_DIGITS :: nat where "MAX_PADDING_DIGITS = 2"

text \<open>\<open>EOF\<close> as a \<open>char\<close>.\<close>

definition EOF_char :: byte where "EOF_char = - 1"

section \<open>Characters and strings\<close>

definition TO_LOWER :: "byte \<Rightarrow> byte" where
  "TO_LOWER c = (if 65 \<le> sint c \<and> sint c \<le> 90 then c + 97 - 65 else c)"

definition IS_HEX_LETTER :: "byte \<Rightarrow> bool" where
  "IS_HEX_LETTER c \<longleftrightarrow> 97 \<le> sint (TO_LOWER c) \<and> sint (TO_LOWER c) \<le> 102"

definition IS_DIGIT :: "byte \<Rightarrow> bool" where
  "IS_DIGIT c \<longleftrightarrow> 48 \<le> sint c \<and> sint c \<le> 57"

definition toLower :: "byte \<Rightarrow> byte" where "toLower c = TO_LOWER c"

fun strFindChar_from :: "byte list \<Rightarrow> byte \<Rightarrow> int \<Rightarrow> int option" where
  "strFindChar_from [] c i = None"
| "strFindChar_from (x # s) c i =
     (if x = 0 then Some (- 1) else if x = c then Some i else strFindChar_from s c (i + 1))"

definition strFindChar :: "byte list \<Rightarrow> byte \<Rightarrow> int option" where
  "strFindChar s c = strFindChar_from s c 0"

fun strTrimStartOffset :: "byte list \<Rightarrow> int option" where
  "strTrimStartOffset [] = None"
| "strTrimStartOffset (x # s) = (if x = 32 then map_option (\<lambda>i. i + 1) (strTrimStartOffset s) else Some 0)"

fun strContains_loop :: "byte list \<Rightarrow> byte \<Rightarrow> bool option" where
  "strContains_loop [] c = None"
| "strContains_loop (x # s) c =
     (if x = 0 then Some False else if x = c then Some True else strContains_loop s c)"

definition strContains :: "byte list \<Rightarrow> byte \<Rightarrow> bool option" where
  "strContains s c = (if sint c \<le> 0 then Some False else strContains_loop s c)"

text \<open>\<open>pow\<close> in \<open>long\<close> arithmetic.\<close>

fun pow_loop :: "u64 \<Rightarrow> u64 \<Rightarrow> nat \<Rightarrow> u64" where
  "pow_loop x res 0 = res"
| "pow_loop x res (Suc n) = pow_loop x (res * x) n"

definition pow :: "u32 \<Rightarrow> u32 \<Rightarrow> u64" where
  "pow x n = (if sint n < 0 then scast x else pow_loop (scast x) 1 (nat (sint n)))"

section \<open>Numbers\<close>

text \<open>
  \<open>intToBase\<close>: a minus sign and the digits of the absolute value; the negation of the least value
  is undefined. The result counts the digits without the sign.
\<close>

definition intToBase :: "u64 \<Rightarrow> byte list \<Rightarrow> u32 \<Rightarrow> (byte list \<times> nat) option" where
  "intToBase v buf base =
     (if sint v < 0
      then if sint v = - (2 ^ 63) then None
        else case buf of [] \<Rightarrow> None
             | _ # r \<Rightarrow> map_option (\<lambda>(r', d). (45 # r', d)) (uintToBase (- v) r base)
      else uintToBase v buf base)"

definition hexCharToDec :: "byte \<Rightarrow> u32" where
  "hexCharToDec c =
     (let c = TO_LOWER c
      in if IS_DIGIT c then scast c - 48 else if IS_HEX_LETTER c then scast c - 97 + 10 else - 1)"

text \<open>The loop of \<open>strToInt\<close> at \<open>j = n - 1\<close>, in wrapping \<open>int32_t\<close> arithmetic.\<close>

fun strToInt_loop :: "u32 \<Rightarrow> byte list \<Rightarrow> nat \<Rightarrow> u32 \<Rightarrow> u32 \<Rightarrow> u32" where
  "strToInt_loop base s 0 n k = n"
| "strToInt_loop base s (Suc j) n k =
     (if IS_DIGIT (s ! j) \<or> base = 16 \<and> IS_HEX_LETTER (s ! j)
      then strToInt_loop base s j (n + hexCharToDec (s ! j) * k) (k * base)
      else n)"

definition strToInt :: "byte list \<Rightarrow> u32 option" where
  "strToInt s = do {
     c \<leftarrow> byte_at s 0;
     let (multiplier, s1) = (if c = 45 then (- 1, tl s) else (1, s));
     d \<leftarrow> byte_at s1 0;
     (base, s2) \<leftarrow> (if d = 48
        then do { x \<leftarrow> byte_at s1 1; Some (if x = 120 then (16, drop 2 s1) else (10, s1)) }
        else Some (10, s1));
     j \<leftarrow> strlen s2;
     Some (strToInt_loop base s2 j 0 1 * multiplier) }"

section \<open>Random numbers\<close>

definition setSrand :: "u32 \<Rightarrow> uio \<Rightarrow> uio" where
  "setSrand seed s = s\<lparr>srand := seed\<rparr>"

definition rand_next :: "u32 \<Rightarrow> u32" where
  "rand_next x = ucast (((22695477 * ucast x + 1) mod push_bit 31 2 :: u64) AND 0x3FFFFFFF)"

definition rand :: "uio \<Rightarrow> u32 \<times> uio" where
  "rand s = (rand_next (srand s), s\<lparr>srand := rand_next (srand s)\<rparr>)"

text \<open>The remainder by zero is the divide error.\<close>

definition randBetween :: "u32 \<Rightarrow> u32 \<Rightarrow> uio \<Rightarrow> (u32 \<times> uio) option" where
  "randBetween mn mx s =
     (let (r, s1) = rand s
      in if mx - mn + 1 = 0 then None else Some (r mod (mx - mn + 1) + mn, s1))"

section \<open>Input and output\<close>

text \<open>\<open>sysRead(pipes.read, &c, 1)\<close>: it waits, here for ever, when no byte comes.\<close>

definition sysRead1 :: "uio \<Rightarrow> (int \<times> byte option \<times> uio) option" where
  "sysRead1 s =
     (if uinOpen s then (case uin s of [] \<Rightarrow> None | c # r \<Rightarrow> Some (1, Some c, s\<lparr>uin := r\<rparr>))
      else Some (- 1, None, s))"

definition getChar :: "uio \<Rightarrow> (byte \<times> uio) option" where
  "getChar s = do {
     (n, c, s1) \<leftarrow> sysRead1 s;
     if n < 0 then Some (EOF_char, s1) else do { x \<leftarrow> c; Some (x, s1) } }"

text \<open>\<open>getKey\<close> returns whether the character it stored is not \<open>EOF\<close>; the modifier keys are those of the
  keyboard (theory \<open>Keyboard\<close>).\<close>

definition getKey :: "byte \<Rightarrow> uio \<Rightarrow> (byte \<times> bool \<times> uio) option" where
  "getKey old s = do {
     (n, c, s1) \<leftarrow> sysRead1 s;
     let x = (case c of None \<Rightarrow> old | Some x \<Rightarrow> x);
     Some (x, x \<noteq> EOF_char, s1) }"

definition uprintChar :: "byte \<Rightarrow> uio \<Rightarrow> int \<times> uio" where
  "uprintChar c s = (if uoutOpen s then (1, s\<lparr>uout := uout s @ [c]\<rparr>) else (- 1, s))"

fun uprintString :: "byte list \<Rightarrow> uio \<Rightarrow> (int \<times> uio) option" where
  "uprintString [] s = None"
| "uprintString (c # r) s =
     (if c \<noteq> 0 then do { (n, s1) \<leftarrow> uprintString r (snd (uprintChar c s)); Some (n + 1, s1) }
      else Some (0, s))"

definition puts :: "byte list \<Rightarrow> uio \<Rightarrow> uio option" where
  "puts t s = do { (n, s1) \<leftarrow> uprintString t s; Some (snd (uprintChar 10 s1)) }"

definition digit_buffer :: "byte list" where "digit_buffer = replicate 255 0"

definition printAsBase :: "u64 \<Rightarrow> u32 \<Rightarrow> uio \<Rightarrow> (int \<times> uio) option" where
  "printAsBase n base s = do { (buf, d) \<leftarrow> intToBase n digit_buffer base; uprintString buf s }"

definition printUintAsBase :: "u64 \<Rightarrow> u32 \<Rightarrow> uio \<Rightarrow> (int \<times> uio) option" where
  "printUintAsBase n base s = do { (buf, d) \<leftarrow> uintToBase n digit_buffer base; uprintString buf s }"

text \<open>\<open>printChar(paddingChar)\<close>, \<open>n\<close> times.\<close>

fun pad_loop :: "nat \<Rightarrow> uio \<Rightarrow> uio" where
  "pad_loop 0 s = s"
| "pad_loop (Suc n) s = pad_loop n (snd (uprintChar (paddingChar s) s))"

text \<open>The result is the length asked for, which may be negative.\<close>

definition printPadding :: "uio \<Rightarrow> int \<times> uio" where
  "printPadding s = (paddingLen s, (pad_loop (nat (paddingLen s)) s)\<lparr>paddingLen := 0\<rparr>)"

definition printStringWithAlignedPadding :: "byte list \<Rightarrow> uio \<Rightarrow> (int \<times> uio) option" where
  "printStringWithAlignedPadding t s =
     (if paddingSign s > 0
      then let (a, s1) = printPadding s in do { (b, s2) \<leftarrow> uprintString t s1; Some (a + b, s2) }
      else do { (a, s1) \<leftarrow> uprintString t s; let (b, s2) = printPadding s1; Some (a + b, s2) })"

definition printAsBaseWithPadding :: "u64 \<Rightarrow> u32 \<Rightarrow> uio \<Rightarrow> (int \<times> uio) option" where
  "printAsBaseWithPadding n base s = do {
     (buf, digits) \<leftarrow> intToBase n digit_buffer base;
     let s1 = s\<lparr>paddingLen := paddingLen s - int digits\<rparr>;
     if sint n < 0
     then do {
       let s2 = snd (uprintChar 45 s1);
       (l, s3) \<leftarrow> printStringWithAlignedPadding (tl buf) (s2\<lparr>paddingLen := paddingLen s2 - 1\<rparr>);
       Some (1 + l, s3) }
     else printStringWithAlignedPadding buf s1 }"

definition printUintAsBaseWithPadding :: "u64 \<Rightarrow> u32 \<Rightarrow> uio \<Rightarrow> (int \<times> uio) option" where
  "printUintAsBaseWithPadding n base s = do {
     (buf, digits) \<leftarrow> uintToBase n digit_buffer base;
     printStringWithAlignedPadding buf (s\<lparr>paddingLen := paddingLen s - int digits\<rparr>) }"

text \<open>\<open>for (i = 0; s[i] != 0 && paddingLen > 0; ++i) --paddingLen\<close>.\<close>

fun shrink_padding :: "byte list \<Rightarrow> int \<Rightarrow> int option" where
  "shrink_padding [] p = None"
| "shrink_padding (c # t) p = (if c \<noteq> 0 \<and> p > 0 then shrink_padding t (p - 1) else Some p)"

definition printStringWithPadding :: "byte list \<Rightarrow> uio \<Rightarrow> (int \<times> uio) option" where
  "printStringWithPadding t s = do {
     p \<leftarrow> shrink_padding t (paddingLen s);
     printStringWithAlignedPadding t (s\<lparr>paddingLen := p\<rparr>) }"

section \<open>printf\<close>

text \<open>
  An argument is a 64-bit register or stack slot or a pointer to a string; \<open>va_arg(p, int)\<close> reads the
  lower half of a slot. A missing argument or one of the other kind is the fault \<open>None\<close>.
\<close>

datatype varg = Num u64 | Str "byte list"

fun va_int :: "varg list \<Rightarrow> (u64 \<times> varg list) option" where
  "va_int (Num w # r) = Some (scast (ucast w :: u32), r)"
| "va_int _ = None"

fun va_long :: "varg list \<Rightarrow> (u64 \<times> varg list) option" where
  "va_long (Num w # r) = Some (w, r)"
| "va_long _ = None"

fun va_str :: "varg list \<Rightarrow> (byte list \<times> varg list) option" where
  "va_str (Str t # r) = Some (t, r)"
| "va_str _ = None"

text \<open>
  How one step of the loop ends: with the index, the arguments, the count and the state, or with the
  messages that \<open>printf\<close> prints by calling itself before it returns \<open>-1\<close>.
\<close>

datatype pstep =
  Go nat "varg list" int uio
| Fail "byte list" "varg list" "(byte list \<times> varg list) option" uio

definition ret_len :: "nat \<Rightarrow> varg list \<Rightarrow> int \<Rightarrow> (int \<times> uio) option \<Rightarrow> pstep option" where
  "ret_len i args len m = do { (l, s) \<leftarrow> m; Some (Go i args (len + l) s) }"

text \<open>\<open>while (IS_DIGIT(fmt[i]) && j < MAX_PADDING_DIGITS) nbr[j++] = fmt[i++]\<close>, with \<open>n\<close> more digits to take.\<close>

fun take_digits :: "byte list \<Rightarrow> nat \<Rightarrow> nat \<Rightarrow> (byte list \<times> nat) option" where
  "take_digits fmt i 0 = Some ([], i)"
| "take_digits fmt i (Suc n) = do {
     c \<leftarrow> byte_at fmt i;
     if IS_DIGIT c then do { (ds, j) \<leftarrow> take_digits fmt (Suc i) n; Some (c # ds, j) }
     else Some ([], i) }"

text \<open>The \<open>default\<close> case: a padding, read from index \<open>i\<close>.\<close>

definition printf_padding :: "byte list \<Rightarrow> nat \<Rightarrow> varg list \<Rightarrow> int \<Rightarrow> uio \<Rightarrow> pstep option" where
  "printf_padding fmt i args len s = do {
     c \<leftarrow> byte_at fmt i;
     let (s1, i1) = (if c = 45 then (s\<lparr>paddingSign := - 1\<rparr>, Suc i) else (s\<lparr>paddingSign := 1\<rparr>, i));
     c1 \<leftarrow> byte_at fmt i1;
     if IS_DIGIT c1
     then do {
       let (s2, i2) = (if c1 = 48 then (s1\<lparr>paddingChar := 48\<rparr>, Suc i1) else (s1\<lparr>paddingChar := 32\<rparr>, i1));
       (nbr, i3) \<leftarrow> take_digits fmt i2 MAX_PADDING_DIGITS;
       c3 \<leftarrow> byte_at fmt i3;
       if IS_DIGIT c3
       then Some (Fail (lit ''...\<newline>Format error: \"%s\"\<newline>'') [Str fmt]
              (Some (lit ''Maximum padding of %li exceeded\<newline>'', [Num (pow 10 (of_nat MAX_PADDING_DIGITS) - 1)])) s2)
       else do { n \<leftarrow> strToInt (nbr @ [0]); Some (Go i3 args len (s2\<lparr>paddingLen := sint n\<rparr>)) } }
     else Some (Fail (lit ''\<newline>Unkown option: %%%c\<newline>'') [Num (scast c1)] None s1) }"

definition no_pad :: "(int \<times> uio) option \<Rightarrow> (int \<times> uio) option" where
  "no_pad m = do { (l, s) \<leftarrow> m; Some (l, s\<lparr>paddingLen := 0\<rparr>) }"

text \<open>The case \<open>'l'\<close>, at the index after the letter.\<close>

definition printf_long :: "byte list \<Rightarrow> nat \<Rightarrow> varg list \<Rightarrow> int \<Rightarrow> uio \<Rightarrow> pstep option" where
  "printf_long fmt i args len s = do {
     c \<leftarrow> byte_at fmt i;
     if c = of_char CHR ''x'' then do {
       (l, s1) \<leftarrow> uprintString (lit ''0x'') s;
       (n, args1) \<leftarrow> va_long args;
       ret_len i args1 (len + l) (printUintAsBaseWithPadding n 16 s1) }
     else if c = of_char CHR ''i'' then do {
       (n, args1) \<leftarrow> va_int args;
       ret_len i args1 len (printAsBaseWithPadding n 10 s) }
     else if c = of_char CHR ''u'' then do {
       (n, args1) \<leftarrow> va_long args;
       ret_len i args1 len (printUintAsBaseWithPadding n 10 s) }
     else Some (Fail (lit ''...\<newline>Unkown identifier `l`. Did you mean `li`, `lu` or `lx`?.\<newline>'') [] None s) }"

text \<open>The \<open>switch\<close>, at the index of the conversion.\<close>

definition printf_conv :: "byte list \<Rightarrow> nat \<Rightarrow> varg list \<Rightarrow> int \<Rightarrow> uio \<Rightarrow> pstep option" where
  "printf_conv fmt i args len s = do {
     c \<leftarrow> byte_at fmt i;
     if c = of_char CHR ''%'' then Some (Go i args (len + 1) (snd (uprintChar c s)))
     else if c = of_char CHR ''d'' then do {
       (n, args1) \<leftarrow> va_int args; ret_len i args1 len (no_pad (printAsBaseWithPadding n 10 s)) }
     else if c = of_char CHR ''u'' then do {
       (n, args1) \<leftarrow> va_int args; ret_len i args1 len (no_pad (printUintAsBaseWithPadding n 10 s)) }
     else if c = of_char CHR ''l'' then printf_long fmt (Suc i) args len s
     else if c = of_char CHR ''f'' then ret_len i args len (uprintString (39 # text_of ''TODO print float'' @ [39, 0]) s)
     else if c = of_char CHR ''x'' then do {
       (l, s1) \<leftarrow> uprintString (lit ''0x'') s;
       (n, args1) \<leftarrow> va_int args;
       ret_len i args1 (len + l) (printUintAsBaseWithPadding n 16 s1) }
     else if c = of_char CHR ''p'' then do {
       (l, s1) \<leftarrow> uprintString (lit ''0x'') (s\<lparr>paddingLen := 8, paddingSign := 1, paddingChar := 48\<rparr>);
       (n, args1) \<leftarrow> va_long args;
       ret_len i args1 (len + l) (printUintAsBaseWithPadding n 16 s1) }
     else if c = of_char CHR ''b'' then do {
       (l, s1) \<leftarrow> uprintString (lit ''0b'') s;
       (n, args1) \<leftarrow> va_int args;
       ret_len i args1 (len + l) (printAsBase n 2 s1) }
     else if c = of_char CHR ''s'' then do {
       (t, args1) \<leftarrow> va_str args; ret_len i args1 len (printStringWithPadding t s) }
     else if c = of_char CHR ''c'' then do {
       (n, args1) \<leftarrow> va_int args; Some (Go i args1 (len + 1) (snd (uprintChar (ucast n) s))) }
     else printf_padding fmt i args len s }"

text \<open>The rest of the loop from index \<open>i\<close>.\<close>

partial_function (option) printf_loop ::
  "byte list \<Rightarrow> varg list \<Rightarrow> nat \<Rightarrow> int \<Rightarrow> uio \<Rightarrow> (int \<times> uio) option" where
  [code]: "printf_loop fmt args i len s = do {
     c \<leftarrow> byte_at fmt i;
     if c = 0 then Some (len, s)
     else if c \<noteq> of_char CHR ''%'' \<and> paddingLen s = 0
     then printf_loop fmt args (Suc i) (len + 1) (snd (uprintChar c s))
     else do {
       ok \<leftarrow> (if paddingLen s = 0 then Some True else strContains (lit ''udlxs'') c);
       r \<leftarrow> (if ok then printf_conv fmt (if paddingLen s = 0 then Suc i else i) args len s
            else Some (Fail (lit ''...\<newline>Error: Only '%%s', '%%d', '%%l' and '%%x' identifier accept padding.\<newline>'') [] None s));
       case r of
         Go j args1 len1 s1 \<Rightarrow> printf_loop fmt args1 (if paddingLen s1 = 0 then Suc j else j) len1 s1
       | Fail m a nxt s1 \<Rightarrow> do {
           (_, s2) \<leftarrow> printf_loop m a 0 0 (s1\<lparr>paddingLen := 0\<rparr>);
           case nxt of
             None \<Rightarrow> Some (- 1, s2)
           | Some (m2, a2) \<Rightarrow> do {
               (_, s3) \<leftarrow> printf_loop m2 a2 0 0 (s2\<lparr>paddingLen := 0\<rparr>);
               Some (- 1, s3) } } } }"

definition printf :: "byte list \<Rightarrow> varg list \<Rightarrow> uio \<Rightarrow> (int \<times> uio) option" where
  "printf fmt args s = printf_loop fmt args 0 0 (s\<lparr>paddingLen := 0\<rparr>)"

text \<open>\<open>printKey\<close>, of a character and the five modifiers in the order in which they are printed.\<close>

definition printKey :: "byte \<Rightarrow> bool \<Rightarrow> bool \<Rightarrow> bool \<Rightarrow> bool \<Rightarrow> bool \<Rightarrow> uio \<Rightarrow> (int \<times> uio) option" where
  "printKey c ctrl lshift rshift caps alt s = printf (lit ''('%c')%s%s%s%s%s\<newline>'')
     [Num (scast c), Str (if ctrl then lit '' + ctrl'' else [0]),
      Str (if lshift then lit '' + l-shift'' else [0]), Str (if rshift then lit '' + r-shift'' else [0]),
      Str (if caps then lit '' + capsLock'' else [0]), Str (if alt then lit '' + alt'' else [0])] s"

text \<open>
  \<open>printStringXY\<close> as the list of its calls of \<open>sysWriteCharXY\<close>; \<open>cw\<close>, \<open>ch\<close> and \<open>sep\<close> are \<open>charWidth\<close>,
  \<open>charHeight\<close> and \<open>charSeparation\<close> of the system information.
\<close>

fun printStringXY_loop ::
  "int \<Rightarrow> int \<Rightarrow> int \<Rightarrow> int \<Rightarrow> int \<Rightarrow> int \<Rightarrow> int \<Rightarrow> int \<Rightarrow> int \<Rightarrow> byte list \<Rightarrow> (int \<times> int \<times> byte) list option" where
  "printStringXY_loop cw ch sep fontSize charsPerRow i col x y [] = None"
| "printStringXY_loop cw ch sep fontSize charsPerRow i col x y (c # s) =
     (if c = 0 then Some []
      else map_option ((#) (x + i * cw * fontSize + sep, y, c))
        (if charsPerRow \<noteq> 0 \<and> col > charsPerRow
         then printStringXY_loop cw ch sep fontSize charsPerRow (i + 1) 1 0 (y + ch * fontSize + sep) s
         else printStringXY_loop cw ch sep fontSize charsPerRow (i + 1) (col + 1) x y s))"

definition printStringXY ::
  "int \<Rightarrow> int \<Rightarrow> int \<Rightarrow> int \<Rightarrow> int \<Rightarrow> byte list \<Rightarrow> int \<Rightarrow> int \<Rightarrow> (int \<times> int \<times> byte) list option" where
  "printStringXY cw ch sep x y s fontSize charsPerRow =
     printStringXY_loop cw ch sep fontSize charsPerRow 0 0 x y s"

end
