(* ===== verification/UStdlibProps.thy ===== *)
theory UStdlibProps
  imports UStdlib
begin

text \<open>
  What the user library does: numbers survive printing and reading, the conversions and paddings of
  \<open>printf\<close> against a reference that renders a parsed format, and the numbers of \<open>rand\<close>.
\<close>

section \<open>Numerals\<close>

text \<open>The numeral of \<open>n\<close>, and the buffer that holds it.\<close>

definition numeral_text :: "nat \<Rightarrow> nat \<Rightarrow> byte list" where
  "numeral_text b n = map ndigit (rev (digs b n))"

lemma ndigit_reads:
  "d < 10 \<Longrightarrow> IS_DIGIT (ndigit d)" "10 \<le> d \<Longrightarrow> d < 16 \<Longrightarrow> IS_HEX_LETTER (ndigit d)"
  "d < 16 \<Longrightarrow> hexCharToDec (ndigit d) = of_nat d" "d < 16 \<Longrightarrow> ndigit d \<noteq> 45" "d < 16 \<Longrightarrow> ndigit d \<noteq> 120"
  "d < 16 \<Longrightarrow> ndigit d = 48 \<longleftrightarrow> d = 0"
proof -
  have "\<forall>d \<in> set [0..<16]. (d < 10 \<longrightarrow> IS_DIGIT (ndigit d)) \<and> (10 \<le> d \<longrightarrow> IS_HEX_LETTER (ndigit d)) \<and>
      hexCharToDec (ndigit d) = of_nat d \<and> ndigit d \<noteq> 45 \<and> ndigit d \<noteq> 120 \<and> (ndigit d = 48 \<longleftrightarrow> d = 0)"
    by (simp add: upt_conv_Cons IS_DIGIT_def IS_HEX_LETTER_def hexCharToDec_def TO_LOWER_def ndigit_def
      digit_char_def)
  then show "d < 10 \<Longrightarrow> IS_DIGIT (ndigit d)" "10 \<le> d \<Longrightarrow> d < 16 \<Longrightarrow> IS_HEX_LETTER (ndigit d)"
    "d < 16 \<Longrightarrow> hexCharToDec (ndigit d) = of_nat d" "d < 16 \<Longrightarrow> ndigit d \<noteq> 45" "d < 16 \<Longrightarrow> ndigit d \<noteq> 120"
    "d < 16 \<Longrightarrow> ndigit d = 48 \<longleftrightarrow> d = 0" by auto
qed

lemma strToInt_loop_digits:
  assumes "b = 10 \<or> b = 16" and "\<forall>d \<in> set ds. d < b"
  shows "strToInt_loop (of_nat b) (map ndigit (rev ds) @ t) (length ds) n k =
    n + of_nat (foldr (\<lambda>d acc. d + b * acc) ds 0) * k"
  using assms(2)
proof (induction ds arbitrary: t n k)
  case (Cons d ds)
  have "d < 16" using Cons.prems assms(1) by auto
  moreover have "IS_DIGIT (ndigit d) \<or> (of_nat b :: u32) = 16 \<and> IS_HEX_LETTER (ndigit d)"
    using assms(1) Cons.prems ndigit_reads(1,2) [of d] by (cases "d < 10") auto
  ultimately show ?case
    using Cons.IH [of "ndigit d # t" "n + of_nat d * k" "k * of_nat b"] Cons.prems
    by (simp add: nth_append ndigit_reads(3) algebra_simps)
qed simp

lemma numeral_text_no_zero: "2 \<le> b \<Longrightarrow> b \<le> 36 \<Longrightarrow> 0 \<notin> set (numeral_text b n)"
  using cstr_digits [of b n "[]"] cstr_no_zero by (metis numeral_text_def)

lemma strToInt_loop_numeral:
  assumes "b = 10 \<or> b = 16"
  shows "strToInt_loop (of_nat b) (numeral_text b n @ t) (length (numeral_text b n)) 0 1 = of_nat n"
  using strToInt_loop_digits [OF assms, of "digs b n" t 0 1] assms digs_less [of b _ n] digs_value [of b n]
  by (auto simp: numeral_text_def)

lemma strlen_numeral:
  "2 \<le> b \<Longrightarrow> b \<le> 36 \<Longrightarrow> strlen (numeral_text b n @ 0 # t) = Some (length (numeral_text b n))"
  by (simp add: strlen_eq terminated_append_zero cstr_append_zero numeral_text_no_zero)

text \<open>A decimal numeral: its first byte, and that it is not a hexadecimal prefix.\<close>

lemma numeral_text_first:
  assumes "b = 10 \<or> b = 16"
  obtains d r where "d < b" "numeral_text b n = ndigit d # r" "d = 0 \<longleftrightarrow> n = 0" "n = 0 \<Longrightarrow> r = []"
proof
  have b: "2 \<le> b" using assms by auto
  let ?r = "map ndigit (tl (rev (digs b n)))"
  show "last (digs b n) < b" by (rule digs_less [OF b, where n = n]) simp
  show "numeral_text b n = ndigit (last (digs b n)) # ?r"
    by (simp add: numeral_text_def flip: list.map(2) hd_rev)
  have z: "digs b 0 = [0]" using b by (simp add: digs.simps [of b 0])
  show "last (digs b n) = 0 \<longleftrightarrow> n = 0" using digs_last [OF b, of n] z by (cases "n = 0") auto
  show "?r = []" if "n = 0" using that z by simp
qed

lemma strToInt_decimal:
  "strToInt (numeral_text 10 n @ 0 # t) = Some (of_nat n)"
  "strToInt (45 # numeral_text 10 n @ 0 # t) = Some (- of_nat n)"
proof -
  obtain d r where d: "d < 10" "numeral_text 10 n = ndigit d # r" "d = 0 \<longleftrightarrow> n = 0" "n = 0 \<Longrightarrow> r = []"
    by (rule numeral_text_first [of 10 n]) auto
  have x: "byte_at (ndigit d # r @ 0 # t) (Suc 0) = Some 0" if "ndigit d = 48"
    using that d ndigit_reads(6) [of d] by (simp add: byte_at_def)
  have len: "strlen (ndigit d # r @ 0 # t) = Some (length (ndigit d # r))"
    using strlen_numeral [of 10 n t] d(2) by simp
  have loop: "strToInt_loop 10 (ndigit d # r @ 0 # t) (length (ndigit d # r)) 0 1 = of_nat n"
    using strToInt_loop_numeral [of 10 n "0 # t"] d(2) by simp
  have "ndigit d \<noteq> 45" using d(1) by (simp add: ndigit_reads(4))
  then show "strToInt (numeral_text 10 n @ 0 # t) = Some (of_nat n)"
    "strToInt (45 # numeral_text 10 n @ 0 # t) = Some (- of_nat n)"
    using x len loop unfolding d(2) strToInt_def
    by (auto simp: byte_at_def [of _ 0] simp del: strlen.simps strToInt_loop.simps)
qed

lemma uintToBase_text:
  assumes "2 \<le> unat base" "unat base \<le> 36" "65 \<le> length buf"
  shows "uintToBase v buf base = (let t = numeral_text (unat base) (unat v)
    in Some (t @ 0 # drop (Suc (length t)) buf, length t))"
  using uintToBase_returns [OF assms(1), of v buf] digs_length_u64 [OF assms(1), of v] assms(3)
  by (simp add: numeral_text_def Let_def)

text \<open>The unsigned readings of a signed number.\<close>

lemma unat_uminus: fixes v :: u64 assumes "sint v < 0" shows "unat (- v) = nat (- sint v)"
proof -
  have "- (2 ^ 63) \<le> sint v" using sint_ge [of v] by simp
  then have "take_bit 64 (- sint v) = - sint v" using assms by (intro take_bit_int_eq_self) auto
  moreover have "uint (- v) = take_bit 64 (- sint v)" using uint_word_of_int_eq [where 'a = 64, of "- sint v"] by simp
  ultimately show ?thesis by (simp add: unat_eq_nat_uint)
qed

lemma unat_nonneg: fixes v :: u64 assumes "0 \<le> sint v" shows "unat v = nat (sint v)"
proof -
  have "sint v < 2 ^ 63" using sint_lt [of v] by simp
  then have "take_bit 64 (sint v) = sint v" using assms by (intro take_bit_int_eq_self) auto
  moreover have "uint v = take_bit 64 (sint v)" using uint_word_of_int_eq [where 'a = 64, of "sint v"] by simp
  ultimately show ?thesis by (simp add: unat_eq_nat_uint)
qed

lemma intToBase_text:
  assumes b: "2 \<le> unat base" "unat base \<le> 36" and buf: "66 \<le> length buf" and v: "- (2 ^ 63) < sint v"
  shows "\<exists>r. intToBase v buf base =
    Some ((if sint v < 0 then [45] else []) @ numeral_text (unat base) (nat \<bar>sint v\<bar>) @ 0 # r,
      length (numeral_text (unat base) (nat \<bar>sint v\<bar>)))"
proof (cases "sint v < 0")
  case True
  obtain c r where r: "buf = c # r" "65 \<le> length r" using buf by (cases buf) auto
  then show ?thesis using True v uintToBase_text [OF b r(2), of "- v"] unat_uminus [OF True]
    by (simp add: intToBase_def Let_def)
next
  case False
  have "65 \<le> length buf" using buf by simp
  then show ?thesis using False uintToBase_text [OF b, of buf v] unat_nonneg [of v]
    by (simp add: intToBase_def Let_def)
qed

text \<open>
  C28: a number in the range of \<open>int32_t\<close> that \<open>intToBase\<close> prints in decimal is read back by \<open>strToInt\<close>,
  with its sign, and one of 32 bits that \<open>uintToBase\<close> prints in base 16 is read back behind the
  prefix \<open>0x\<close>.
\<close>

theorem numbers_roundtrip:
  assumes v: "- (2 ^ 31) \<le> sint v" "sint v < 2 ^ 31" and buf: "66 \<le> length buf"
  shows "(\<exists>buf' d. intToBase v buf 10 = Some (buf', d) \<and> strToInt buf' = Some (ucast v)) \<and>
    (\<exists>buf' d. uintToBase (ucast w) buf 16 = Some (buf', d) \<and> strToInt (text_of ''0x'' @ buf') = Some w)"
proof
  have cast: "(if sint v < 0 then - of_nat (nat \<bar>sint v\<bar>) else of_nat (nat \<bar>sint v\<bar>)) = (ucast v :: u32)"
  proof -
    have "(word_of_int (sint v) :: u32) = ucast v"
      by (rule bit_word_eqI) (auto simp: bit_simps not_le min_def)
    then show ?thesis by (auto simp: of_nat_nat)
  qed
  obtain r where "intToBase v buf 10 =
      Some ((if sint v < 0 then [45] else []) @ numeral_text 10 (nat \<bar>sint v\<bar>) @ 0 # r,
        length (numeral_text 10 (nat \<bar>sint v\<bar>)))"
    using intToBase_text [of 10 buf v] buf v by auto
  then show "\<exists>buf' d. intToBase v buf 10 = Some (buf', d) \<and> strToInt buf' = Some (ucast v)"
    using cast by (cases "sint v < 0") (auto simp: strToInt_decimal)
next
  let ?t = "numeral_text 16 (unat (ucast w :: u64))" and ?u = "drop (Suc (length (numeral_text 16 (unat w)))) buf"
  have run: "uintToBase (ucast w) buf 16 = Some (?t @ 0 # ?u, length ?t)"
    using uintToBase_text [of 16 buf "ucast w"] buf by (simp add: Let_def)
  have "strToInt (48 # 120 # ?t @ 0 # ?u) = Some (of_nat (unat w))"
    using strToInt_loop_numeral [of 16 "unat w" "0 # ?u"] strlen_numeral [of 16 "unat w" ?u]
    by (simp add: strToInt_def byte_at_def del: strlen.simps)
  then show "\<exists>buf' d. uintToBase (ucast w) buf 16 = Some (buf', d) \<and> strToInt (text_of ''0x'' @ buf') = Some w"
    using run by (simp add: text_of_def)
qed

theorem numbers_roundtrip_witness:
  "(\<exists>buf' d. intToBase (- 42) digit_buffer 10 = Some (buf', d) \<and> strToInt buf' = Some (- 42)) \<and>
   (\<exists>buf' d. uintToBase 48879 digit_buffer 16 = Some (buf', d) \<and> strToInt (text_of ''0x'' @ buf') = Some 48879)"
proof -
  have u: "(ucast (- 42 :: u64) :: u32) = - 42" "(ucast (48879 :: u32) :: u64) = 48879" by code_simp+
  show ?thesis
    by (rule numbers_roundtrip [of "- 42" digit_buffer 48879, unfolded u]) (simp_all add: digit_buffer_def)
qed

section \<open>Random numbers\<close>

lemma even_unat: "even (unat w) \<longleftrightarrow> even w" for w :: u32
proof -
  have "bit (unat w) 0 \<longleftrightarrow> bit w 0" by (simp add: bit_unsigned_iff)
  then show ?thesis by (simp add: bit_0)
qed

lemma rand_next_eq: "unat (rand_next x) = (22695477 * unat x + 1) mod 2 ^ 30"
proof -
  have and30: "(w AND 0x3FFFFFFF) = take_bit 30 w" for w :: u64
    by (simp add: take_bit_eq_mask mask_numeral)
  have "unat x < 2 ^ 32" using unsigned_less [of x] by simp
  then have "unat (22695477 * ucast x + 1 :: u64) = 22695477 * unat x + 1"
    by (simp add: unat_word_ariths)
  then show ?thesis by (simp add: rand_next_def and30 unsigned_ucast_eq unsigned_take_bit_eq unat_mod take_bit_eq_mod mod_mod_cancel)
qed

text \<open>
  \<open>rand\<close> returns a number below \<open>2^30\<close>, as its comment says, and the comment's suspicion holds: its
  parity is always the other one than that of the number before. So the numbers that
  \<open>randBetween\<close> draws between 0 and 1 are not random at all.
\<close>

theorem rand_alternates:
  "unat (fst (rand s)) < 2 ^ 30 \<and> (even (unat (fst (rand s))) \<longleftrightarrow> odd (unat (srand s))) \<and>
   srand (snd (rand s)) = fst (rand s) \<and>
   (\<exists>s'. randBetween 0 1 s = Some (if even (unat (srand s)) then 1 else 0, s') \<and>
         (\<exists>s''. randBetween 0 1 s' = Some (if even (unat (srand s)) then 0 else 1, s'')))"
proof -
  have parity: "even (unat (rand_next x)) \<longleftrightarrow> odd (unat x)" for x
    unfolding rand_next_eq by (simp add: dvd_mod_iff)
  have draw: "\<exists>s'. randBetween 0 1 s = Some (if even (unat (srand s)) then 1 else 0, s') \<and>
      srand s' = rand_next (srand s)" for s
  proof -
    have "rand_next (srand s) mod 2 = (if even (unat (srand s)) then 1 else 0)"
      using parity [of "srand s"] even_unat [of "rand_next (srand s)"] by (simp add: mod_2_eq_odd)
    then show ?thesis by (simp add: randBetween_def rand_def)
  qed
  obtain s' where s': "randBetween 0 1 s = Some (if even (unat (srand s)) then 1 else 0, s')"
      "srand s' = rand_next (srand s)" using draw by blast
  obtain s'' where "randBetween 0 1 s' = Some (if even (unat (srand s')) then 1 else 0, s'')" using draw by blast
  then have "randBetween 0 1 s' = Some (if even (unat (srand s)) then 0 else 1, s'')"
    using parity [of "srand s"] s'(2) by simp
  moreover have "unat (rand_next (srand s)) < 2 ^ 30" by (simp add: rand_next_eq)
  ultimately show ?thesis using s'(1) parity [of "srand s"] by (simp add: rand_def)
qed

end
