(* ===== verification/UPrintf.thy ===== *)
theory UPrintf
  imports UStdlibProps
begin

text \<open>
  \<open>printf\<close> against a reference: a format is a list of pieces, \<open>unparse\<close> gives the string that is written
  in the program and \<open>render\<close> what it stands for.
\<close>

section \<open>The reference\<close>

datatype conv = Dec | Uns | Hex | LHex | LInt | LUns | Bin | Text | Chr | Ptr

datatype padding = Pad (left: bool) (zero: bool) (width: nat)

datatype piece = Lit byte | Percent | Conv "padding option" conv

fun letters :: "conv \<Rightarrow> byte list" where
  "letters Dec = text_of ''d''" | "letters Uns = text_of ''u''" | "letters Hex = text_of ''x''"
| "letters LHex = text_of ''lx''" | "letters LInt = text_of ''li''" | "letters LUns = text_of ''lu''"
| "letters Bin = text_of ''b''" | "letters Text = text_of ''s''" | "letters Chr = text_of ''c''"
| "letters Ptr = text_of ''p''"

fun unparse_padding :: "padding \<Rightarrow> byte list" where
  "unparse_padding (Pad l z w) = (if l then [45] else []) @ (if z then [48] else []) @ numeral_text 10 w"

fun unparse :: "piece \<Rightarrow> byte list" where
  "unparse (Lit c) = [c]"
| "unparse Percent = text_of ''%%''"
| "unparse (Conv None k) = 37 # letters k"
| "unparse (Conv (Some p) k) = 37 # unparse_padding p @ letters k"

fun takes_padding :: "conv \<Rightarrow> bool" where
  "takes_padding Bin = False" | "takes_padding Chr = False" | "takes_padding Ptr = False"
| "takes_padding _ = True"

fun valid :: "piece \<Rightarrow> bool" where
  "valid (Lit c) = (c \<noteq> 0 \<and> c \<noteq> 37)"
| "valid (Conv (Some (Pad l z w)) k) = (takes_padding k \<and> 1 \<le> w \<and> w < 100)"
| "valid _ = True"

text \<open>A text in a field, of which \<open>used\<close> places are taken.\<close>

fun pad_to :: "padding option \<Rightarrow> nat \<Rightarrow> byte list \<Rightarrow> byte list" where
  "pad_to None used t = t"
| "pad_to (Some (Pad l z w)) used t =
     (let f = replicate (w - used) (if z then 48 else 32) in if l then t @ f else f @ t)"

definition padded :: "padding option \<Rightarrow> byte list \<Rightarrow> byte list" where
  "padded p t = pad_to p (length t) t"

text \<open>A signed number: the sign stands before the padding.\<close>

definition signed_text :: "padding option \<Rightarrow> nat \<Rightarrow> int \<Rightarrow> byte list" where
  "signed_text p b v =
     (let t = numeral_text b (nat \<bar>v\<bar>) in if v < 0 then 45 # pad_to p (length t + 1) t else padded p t)"

definition low_half :: "u64 \<Rightarrow> u64" where "low_half w = scast (ucast w :: u32)"

fun render_conv :: "padding option \<Rightarrow> conv \<Rightarrow> varg \<Rightarrow> byte list option" where
  "render_conv p Dec (Num w) = Some (signed_text p 10 (sint (low_half w)))"
| "render_conv p Uns (Num w) = Some (padded p (numeral_text 10 (unat (low_half w))))"
| "render_conv p Hex (Num w) = Some (text_of ''0x'' @ padded p (numeral_text 16 (unat (low_half w))))"
| "render_conv p LHex (Num w) = Some (text_of ''0x'' @ padded p (numeral_text 16 (unat w)))"
| "render_conv p LInt (Num w) = Some (signed_text p 10 (sint (low_half w)))"
| "render_conv p LUns (Num w) = Some (padded p (numeral_text 10 (unat w)))"
| "render_conv p Bin (Num w) = Some (text_of ''0b'' @ signed_text None 2 (sint (low_half w)))"
| "render_conv p Text (Str t) = (if terminated t then Some (padded p (cstr t)) else None)"
| "render_conv p Chr (Num w) = Some [ucast w]"
| "render_conv p Ptr (Num w) =
     Some (text_of ''0x'' @ padded (Some (Pad False True 8)) (numeral_text 16 (unat w)))"
| "render_conv p _ _ = None"

fun render :: "piece list \<Rightarrow> varg list \<Rightarrow> byte list option" where
  "render [] args = Some []"
| "render (Lit c # ps) args = map_option ((#) c) (render ps args)"
| "render (Percent # ps) args = map_option ((#) 37) (render ps args)"
| "render (Conv p k # ps) [] = None"
| "render (Conv p k # ps) (a # args) =
     do { t \<leftarrow> render_conv p k a; u \<leftarrow> render ps args; Some (t @ u) }"

section \<open>Printing\<close>

definition wrote :: "byte list \<Rightarrow> uio \<Rightarrow> uio" where
  "wrote t s = s\<lparr>uout := uout s @ t\<rparr>"

lemma wrote_simps [simp]:
  "uoutOpen (wrote t s) = uoutOpen s" "paddingLen (wrote t s) = paddingLen s"
  "paddingSign (wrote t s) = paddingSign s" "paddingChar (wrote t s) = paddingChar s"
  "uout (wrote t s) = uout s @ t" "wrote u (wrote t s) = wrote (t @ u) s"
  "wrote t s\<lparr>paddingLen := n\<rparr> = wrote t (s\<lparr>paddingLen := n\<rparr>)"
  by (simp_all add: wrote_def)

lemma wrote_nil [simp]: "wrote [] s = s"
  by (simp add: wrote_def)

lemma uprintChar_open: "uoutOpen s \<Longrightarrow> uprintChar c s = (1, wrote [c] s)"
  by (simp add: uprintChar_def wrote_def)

lemma uprintString_open:
  "terminated t \<Longrightarrow> uoutOpen s \<Longrightarrow> uprintString t s = Some (int (length (cstr t)), wrote (cstr t) s)"
  by (induction t arbitrary: s) (auto simp: uprintChar_open)

lemma pad_loop_open: "uoutOpen s \<Longrightarrow> pad_loop n s = wrote (replicate n (paddingChar s)) s"
  by (induction n arbitrary: s) (auto simp: uprintChar_open)

text \<open>The padding of the state, as the reference has it.\<close>

definition pad_state :: "padding option \<Rightarrow> uio \<Rightarrow> uio" where
  "pad_state p s = (case p of None \<Rightarrow> s\<lparr>paddingLen := 0\<rparr> | Some (Pad l z w) \<Rightarrow>
     s\<lparr>paddingLen := int w, paddingSign := (if l then - 1 else 1), paddingChar := (if z then 48 else 32)\<rparr>)"

lemma pad_state_open [simp]: "uoutOpen (pad_state p s) = uoutOpen s" "uout (pad_state p s) = uout s"
  by (simp_all add: pad_state_def split: option.split padding.split)

definition pad_width :: "padding option \<Rightarrow> nat" where
  "pad_width p = (case p of None \<Rightarrow> 0 | Some (Pad l z w) \<Rightarrow> w)"

text \<open>What a print of padded text leaves: the text is written and the padding is used up.\<close>

definition printed :: "byte list \<Rightarrow> uio \<Rightarrow> (int \<times> uio) option \<Rightarrow> bool" where
  "printed t s r \<longleftrightarrow> (\<exists>n s'. r = Some (n, s') \<and> uout s' = uout s @ t \<and> uoutOpen s' \<and> paddingLen s' = 0)"

lemma aligned_printed:
  assumes "uoutOpen s" "terminated t" "nat (paddingLen s) = pad_width p - used"
    "\<And>l z w. p = Some (Pad l z w) \<Longrightarrow> paddingSign s = (if l then - 1 else 1) \<and> paddingChar s = (if z then 48 else 32)"
  shows "printed (pad_to p used (cstr t)) s (printStringWithAlignedPadding t s)"
proof (cases p)
  case None
  then have "nat (paddingLen s) = 0" using assms(3) by (simp add: pad_width_def)
  then show ?thesis using assms(1,2) None
    by (auto simp: printed_def printStringWithAlignedPadding_def printPadding_def uprintString_open wrote_def)
next
  case (Some q)
  obtain l z w where q: "q = Pad l z w" by (cases q)
  have "nat (paddingLen s) = w - used" using assms(3) Some q by (simp add: pad_width_def)
  then show ?thesis using assms(1,2) assms(4) [of l z w] Some q
    by (auto simp: printed_def printStringWithAlignedPadding_def printPadding_def uprintString_open pad_loop_open
      Let_def)
qed

lemma pad_state_padding [simp]:
  "paddingLen (pad_state p s) = int (pad_width p)"
  "p = Some (Pad l z w) \<Longrightarrow> paddingSign (pad_state p s) = (if l then - 1 else 1)"
  "p = Some (Pad l z w) \<Longrightarrow> paddingChar (pad_state p s) = (if z then 48 else 32)"
  by (simp_all add: pad_state_def pad_width_def split: option.split padding.split)

lemma printed_outD: "printed t s r \<Longrightarrow> uout s' = uout s \<Longrightarrow> printed t s' r"
  by (auto simp: printed_def)

text \<open>The numerals, unsigned and signed.\<close>

lemma cstr_numeral: "2 \<le> b \<Longrightarrow> b \<le> 36 \<Longrightarrow> cstr (numeral_text b n @ 0 # r) = numeral_text b n"
  by (simp add: cstr_append_zero numeral_text_no_zero)

lemma unsigned_printed:
  assumes s: "uoutOpen s" and b: "2 \<le> unat base" "unat base \<le> 36" and w: "paddingLen s = int (pad_width p)"
    and p: "\<And>l z w. p = Some (Pad l z w) \<Longrightarrow> paddingSign s = (if l then - 1 else 1) \<and> paddingChar s = (if z then 48 else 32)"
  shows "printed (padded p (numeral_text (unat base) (unat n))) s (printUintAsBaseWithPadding n base s)"
proof -
  let ?t = "numeral_text (unat base) (unat n)"
  obtain r where r: "uintToBase n digit_buffer base = Some (?t @ 0 # r, length ?t)"
    using uintToBase_text [OF b, of digit_buffer n] by (simp add: digit_buffer_def Let_def)
  let ?s = "s\<lparr>paddingLen := paddingLen s - int (length ?t)\<rparr>"
  have "printed (pad_to p (length ?t) (cstr (?t @ 0 # r))) ?s (printStringWithAlignedPadding (?t @ 0 # r) ?s)"
    by (rule aligned_printed) (use s w p in \<open>auto simp: terminated_append_zero\<close>)
  then show ?thesis
    using r by (auto simp: printUintAsBaseWithPadding_def padded_def cstr_numeral [OF b] intro: printed_outD)
qed

lemma signed_printed:
  assumes s: "uoutOpen s" and b: "2 \<le> unat base" "unat base \<le> 36" and w: "paddingLen s = int (pad_width p)"
    and p: "\<And>l z w. p = Some (Pad l z w) \<Longrightarrow> paddingSign s = (if l then - 1 else 1) \<and> paddingChar s = (if z then 48 else 32)"
    and n: "- (2 ^ 63) < sint n"
  shows "printed (signed_text p (unat base) (sint n)) s (printAsBaseWithPadding n base s)"
proof -
  let ?t = "numeral_text (unat base) (nat \<bar>sint n\<bar>)"
  obtain r where r: "intToBase n digit_buffer base =
      Some ((if sint n < 0 then [45] else []) @ ?t @ 0 # r, length ?t)"
    using intToBase_text [OF b _ n, of digit_buffer] by (auto simp: digit_buffer_def)
  show ?thesis
  proof (cases "sint n < 0")
    case True
    let ?s = "wrote [45] s\<lparr>paddingLen := paddingLen s - int (length ?t) - 1\<rparr>"
    have "printed (pad_to p (length ?t + 1) (cstr (?t @ 0 # r))) ?s (printStringWithAlignedPadding (?t @ 0 # r) ?s)"
      by (rule aligned_printed) (use s w p in \<open>auto simp: terminated_append_zero\<close>)
    then show ?thesis
      using r True s
      by (auto simp: printAsBaseWithPadding_def signed_text_def cstr_numeral [OF b] uprintChar_open printed_def
        Let_def wrote_def)
  next
    case False
    let ?s = "s\<lparr>paddingLen := paddingLen s - int (length ?t)\<rparr>"
    have "printed (pad_to p (length ?t) (cstr (?t @ 0 # r))) ?s (printStringWithAlignedPadding (?t @ 0 # r) ?s)"
      by (rule aligned_printed) (use s w p in \<open>auto simp: terminated_append_zero\<close>)
    then show ?thesis
      using r False by (auto simp: printAsBaseWithPadding_def signed_text_def padded_def cstr_numeral [OF b]
        Let_def printed_def)
  qed
qed

lemma shrink_padding_eq:
  "terminated t \<Longrightarrow> 0 \<le> k \<Longrightarrow> \<exists>m. shrink_padding t k = Some m \<and> nat m = nat k - length (cstr t)"
proof (induction t arbitrary: k)
  case (Cons c t)
  show ?case
  proof (cases "c \<noteq> 0 \<and> 0 < k")
    case True
    then obtain m where "shrink_padding t (k - 1) = Some m" "nat m = nat (k - 1) - length (cstr t)"
      using Cons by (metis terminated_simps(2) int_one_le_iff_zero_less diff_ge_0_iff_ge)
    with True show ?thesis by (intro exI [of _ m]) (simp add: nat_diff_distrib)
  qed (use Cons.prems in auto)
qed simp

lemma string_printed:
  assumes s: "uoutOpen s" and t: "terminated t" and w: "paddingLen s = int (pad_width p)"
    and p: "\<And>l z w. p = Some (Pad l z w) \<Longrightarrow> paddingSign s = (if l then - 1 else 1) \<and> paddingChar s = (if z then 48 else 32)"
  shows "printed (padded p (cstr t)) s (printStringWithPadding t s)"
proof -
  obtain m where m: "shrink_padding t (paddingLen s) = Some m" "nat m = pad_width p - length (cstr t)"
    using shrink_padding_eq [OF t, of "paddingLen s"] w by auto
  have "printed (pad_to p (length (cstr t)) (cstr t)) (s\<lparr>paddingLen := m\<rparr>)
      (printStringWithAlignedPadding t (s\<lparr>paddingLen := m\<rparr>))"
    by (rule aligned_printed) (use s t m p in auto)
  then show ?thesis using m by (auto simp: printStringWithPadding_def padded_def printed_def)
qed

section \<open>One conversion\<close>

lemma byte_at_drop: "drop i fmt = c # r \<Longrightarrow> byte_at fmt i = Some c" "drop i fmt = c # r \<Longrightarrow> drop (Suc i) fmt = r"
proof -
  assume d: "drop i fmt = c # r"
  then have i: "i < length fmt" by (metis drop_all not_less list.distinct(1))
  with d have "fmt ! i # drop (Suc i) fmt = c # r" by (simp add: Cons_nth_drop_Suc)
  with i show "byte_at fmt i = Some c" "drop (Suc i) fmt = r" by (simp_all add: byte_at_def)
qed

lemma low_half_range: "- (2 ^ 63) < sint (low_half w)"
proof -
  have "- (2 ^ 31) \<le> sint (ucast w :: u32)" "sint (ucast w :: u32) < 2 ^ 31"
    using sint_ge [of "ucast w :: u32"] sint_lt [of "ucast w :: u32"] by simp_all
  then show ?thesis unfolding low_half_def by (simp add: signed_scast_eq signed_take_bit_int_eq_self)
qed

text \<open>The conversion has printed \<open>t\<close> and left no padding.\<close>

definition converted :: "byte list \<Rightarrow> nat \<Rightarrow> varg list \<Rightarrow> uio \<Rightarrow> pstep option \<Rightarrow> bool" where
  "converted t i args s r \<longleftrightarrow>
     (\<exists>n s'. r = Some (Go i args n s') \<and> uout s' = uout s @ t \<and> uoutOpen s' \<and> paddingLen s' = 0)"

lemma converted_ret: "printed t s m \<Longrightarrow> converted t i args s (ret_len i args len m)"
  by (auto simp: printed_def converted_def ret_len_def)

lemma printed_no_pad: "printed t s m \<Longrightarrow> printed t s (no_pad m)"
  by (auto simp: printed_def no_pad_def)

lemma printed_prefix: "printed t (wrote [x, y] s) r \<Longrightarrow> printed (x # y # t) s r"
  by (simp add: printed_def)

lemma prefix_printed:
  "uoutOpen s \<Longrightarrow> uprintString (lit ''0x'') s = Some (2, wrote (text_of ''0x'') s)"
  "uoutOpen s \<Longrightarrow> uprintString (lit ''0b'') s = Some (2, wrote (text_of ''0b'') s)"
  by (simp_all add: uprintChar_open lit_def text_of_def)

lemma pad_state_wrote [simp]: "pad_state p (wrote t s) = wrote t (pad_state p s)"
  by (simp add: pad_state_def wrote_def split: option.split padding.split)

lemma printed_pad: "printed t (pad_state p s) r \<Longrightarrow> printed t s r"
  by (simp add: printed_def)

lemma uns_pad_printed:
  "uoutOpen s \<Longrightarrow> 2 \<le> unat base \<Longrightarrow> unat base \<le> 36 \<Longrightarrow>
     printed (padded p (numeral_text (unat base) (unat n))) s
       (printUintAsBaseWithPadding n base (pad_state p s))"
  by (rule printed_pad [where p = p], rule unsigned_printed) auto

lemma str_pad_printed:
  "uoutOpen s \<Longrightarrow> terminated t \<Longrightarrow> printed (padded p (cstr t)) s (printStringWithPadding t (pad_state p s))"
  by (rule printed_pad [where p = p], rule string_printed) auto

lemma sig_pad_printed:
  "uoutOpen s \<Longrightarrow> printed (signed_text p 10 (sint (low_half n))) s
     (printAsBaseWithPadding (low_half n) 10 (pad_state p s))"
  using signed_printed [of "pad_state p s" 10 p "low_half n"] low_half_range printed_pad by simp

lemma bin_printed:
  "uoutOpen s \<Longrightarrow> paddingLen s = 0 \<Longrightarrow> printed (signed_text None 2 (sint (low_half n))) s (printAsBase (low_half n) 2 s)"
proof -
  assume s: "uoutOpen s" "paddingLen s = 0"
  let ?t = "numeral_text 2 (nat \<bar>sint (low_half n)\<bar>)" and ?m = "if sint (low_half n) < 0 then [45] else []"
  obtain r where "intToBase (low_half n) digit_buffer 2 = Some (?m @ ?t @ 0 # r, length ?t)"
    using intToBase_text [of 2 digit_buffer "low_half n"] low_half_range by (auto simp: digit_buffer_def)
  then show ?thesis
    using s by (auto simp: printAsBase_def printed_def uprintString_open terminated_append_zero cstr_numeral
      signed_text_def padded_def Let_def)
qed

lemma low_byte: "(ucast (scast (ucast w :: u32) :: u64) :: byte) = ucast w" for w :: u64
  by (rule bit_word_eqI) (auto simp: bit_simps)

lemma ptr_pad:
  "(pad_state p s)\<lparr>paddingLen := 8, paddingSign := 1, paddingChar := 48\<rparr> = pad_state (Some (Pad False True 8)) s"
  by (simp add: pad_state_def split: option.split padding.split)

lemma conv_step:
  assumes s: "uoutOpen s" and fmt: "drop i fmt = letters k @ post" and t: "render_conv p k a = Some t"
    and p: "p = None \<or> takes_padding k"
  shows "converted t (i + length (letters k) - 1) args s (printf_conv fmt i (a # args) len (pad_state p s))"
proof -
  show ?thesis
  proof (cases k)
    case Dec
    then show ?thesis
      using t fmt s byte_at_drop(1) [of i fmt 100 post] sig_pad_printed [of s p]
      by (cases a) (auto simp: printf_conv_def text_of_def low_half_def
        intro!: converted_ret printed_no_pad)
  next
    case Uns
    then show ?thesis
      using t fmt s byte_at_drop(1) [of i fmt 117 post] uns_pad_printed [of s 10 p]
      by (cases a) (auto simp: printf_conv_def text_of_def low_half_def
        intro!: converted_ret printed_no_pad)
  next
    case Hex
    then show ?thesis
      using t fmt s byte_at_drop(1) [of i fmt 120 post] uns_pad_printed [of "wrote (text_of ''0x'') s" 16 p]
      by (cases a) (auto simp: printf_conv_def text_of_def low_half_def prefix_printed
        intro!: converted_ret printed_prefix)
  next
    case LHex
    then show ?thesis
      using t fmt s byte_at_drop [of i fmt 108 "120 # post"] byte_at_drop(1) [of "Suc i" fmt 120 post]
        uns_pad_printed [of "wrote (text_of ''0x'') s" 16 p]
      by (cases a) (auto simp: printf_conv_def printf_long_def text_of_def prefix_printed
        intro!: converted_ret printed_prefix)
  next
    case LInt
    then show ?thesis
      using t fmt s byte_at_drop [of i fmt 108 "105 # post"] byte_at_drop(1) [of "Suc i" fmt 105 post]
        sig_pad_printed [of s p]
      by (cases a) (auto simp: printf_conv_def printf_long_def text_of_def low_half_def
        intro!: converted_ret)
  next
    case LUns
    then show ?thesis
      using t fmt s byte_at_drop [of i fmt 108 "117 # post"] byte_at_drop(1) [of "Suc i" fmt 117 post]
        uns_pad_printed [of s 10 p]
      by (cases a) (auto simp: printf_conv_def printf_long_def text_of_def
        intro!: converted_ret)
  next
    case Bin
    then show ?thesis
      using t fmt s p byte_at_drop(1) [of i fmt 98 post] bin_printed [of "wrote (text_of ''0b'') (pad_state None s)"] printed_pad [of _ None "wrote (text_of ''0b'') s"]
      by (cases a) (auto simp: printf_conv_def text_of_def low_half_def prefix_printed pad_width_def
        intro!: converted_ret printed_prefix)
  next
    case Text
    then show ?thesis
      using t fmt s byte_at_drop(1) [of i fmt 115 post] str_pad_printed [of s _ p]
      by (cases a) (auto simp: printf_conv_def text_of_def split: if_splits
        intro!: converted_ret)
  next
    case Chr
    then show ?thesis
      using t fmt s p byte_at_drop(1) [of i fmt 99 post]
      by (cases a) (auto simp: printf_conv_def text_of_def converted_def uprintChar_open pad_width_def
        low_byte)
  next
    case Ptr
    then show ?thesis
      using t fmt s byte_at_drop(1) [of i fmt 112 post]
        uns_pad_printed [of "wrote (text_of ''0x'') s" 16 "Some (Pad False True 8)"]
      by (cases a) (auto simp: printf_conv_def text_of_def prefix_printed ptr_pad
        intro!: converted_ret printed_prefix)
  qed
qed

section \<open>One padding\<close>

lemma two_digits: "1 \<le> w \<Longrightarrow> w < 100 \<Longrightarrow> numeral_text 10 w =
    (if w < 10 then [ndigit w] else [ndigit (w div 10), ndigit (w mod 10)])"
proof -
  assume "1 \<le> w" "w < 100"
  then have "w div 10 < 10" by linarith
  then show ?thesis by (simp add: numeral_text_def digs.simps [of 10 w] digs.simps [of 10 "w div 10"])
qed

lemma digit_not_letter:
  "c = 45 \<or> IS_DIGIT c \<Longrightarrow> byte_at fmt i = Some c \<Longrightarrow> printf_conv fmt i args len s = printf_padding fmt i args len s"
  by (auto simp: printf_conv_def IS_DIGIT_def)

lemma letters_first: obtains c r where "letters k = c # r" "\<not> IS_DIGIT c" "c \<noteq> 0"
  "takes_padding k \<Longrightarrow> strContains (lit ''udlxs'') c = Some True"
  by (cases k) (auto simp: text_of_def lit_def IS_DIGIT_def strContains_def)

lemma take_two_digits:
  assumes w: "1 \<le> w" "w < 100" and c: "\<not> IS_DIGIT c" and fmt: "drop i fmt = numeral_text 10 w @ c # post"
  shows "take_digits fmt i MAX_PADDING_DIGITS = Some (numeral_text 10 w, i + length (numeral_text 10 w))"
    "drop (i + length (numeral_text 10 w)) fmt = c # post"
proof -
  have d: "IS_DIGIT (ndigit (w div 10))" "IS_DIGIT (ndigit (w mod 10))" "w < 10 \<Longrightarrow> IS_DIGIT (ndigit w)"
    using w by (auto intro!: ndigit_reads(1))
  show "take_digits fmt i MAX_PADDING_DIGITS = Some (numeral_text 10 w, i + length (numeral_text 10 w))"
    using fmt d c byte_at_drop [of i fmt] byte_at_drop [of "Suc i" fmt]
    by (cases "w < 10") (auto simp: two_digits [OF w] MAX_PADDING_DIGITS_def numeral_2_eq_2)
  have "drop (length (numeral_text 10 w)) (drop i fmt) = c # post" using fmt by simp
  then show "drop (i + length (numeral_text 10 w)) fmt = c # post" by (simp add: add.commute)
qed

lemma padding_tail:
  assumes w: "1 \<le> w" "w < 100" and c: "\<not> IS_DIGIT c" and fmt: "drop i fmt = numeral_text 10 w @ c # post"
  shows "(do { (nbr, i3) \<leftarrow> take_digits fmt i MAX_PADDING_DIGITS;
       c3 \<leftarrow> byte_at fmt i3;
       if IS_DIGIT c3 then F c3 else do { n \<leftarrow> strToInt (nbr @ [0]); Some (Go i3 args len (s\<lparr>paddingLen := sint n\<rparr>)) } }) =
    Some (Go (i + length (numeral_text 10 w)) args len (s\<lparr>paddingLen := int w\<rparr>))"
proof -
  have "sint (of_nat w :: u32) = int w"
    using w by (simp add: signed_of_nat signed_take_bit_int_eq_self)
  then show ?thesis
    using take_two_digits [OF assms] c byte_at_drop(1) strToInt_decimal(1) [of w "[]"] by simp
qed

lemma padding_step:
  assumes w: "1 \<le> w" "w < 100" and c: "\<not> IS_DIGIT c"
    and fmt: "drop i fmt = unparse_padding (Pad l z w) @ c # post"
  shows "printf_conv fmt i args len s =
    Some (Go (i + length (unparse_padding (Pad l z w))) args len (pad_state (Some (Pad l z w)) s))"
proof -
  obtain d t where d: "d < 10" "numeral_text 10 w = ndigit d # t" "d \<noteq> 0"
    using numeral_text_first [of 10 w] w by (metis not_one_le_zero)
  have dig: "IS_DIGIT (ndigit d)" "ndigit d \<noteq> 45" "ndigit d \<noteq> 48" "IS_DIGIT 48"
    using d ndigit_reads [of d] by (auto simp: IS_DIGIT_def)
  let ?i1 = "if l then Suc i else i" and ?s1 = "s\<lparr>paddingSign := (if l then - 1 else 1)\<rparr>"
  let ?i2 = "if z then Suc ?i1 else ?i1"
  obtain c0 r0 where c0: "unparse_padding (Pad l z w) = c0 # r0" "c0 = 45 \<or> IS_DIGIT c0"
    using d(2) dig by (cases l; cases z) auto
  have "drop i fmt = c0 # r0 @ c # post" using fmt unfolding c0(1) by simp
  then have first: "byte_at fmt i = Some c0" by (rule byte_at_drop(1))
  have conv: "printf_conv fmt i args len s = printf_padding fmt i args len s"
    by (rule digit_not_letter [OF c0(2) first])
  have d1: "drop ?i1 fmt = (if z then [48] else []) @ numeral_text 10 w @ c # post"
    using fmt byte_at_drop(2) [of i fmt 45] by (cases l) auto
  have d2: "drop ?i2 fmt = numeral_text 10 w @ c # post"
    using d1 byte_at_drop(2) [of ?i1 fmt 48] by (cases z) auto
  have second: "byte_at fmt ?i1 = Some (if z then 48 else ndigit d)"
    using d1 byte_at_drop(1) [of ?i1 fmt] d(2) by (cases z) auto
  have is_l: "c0 = 45 \<longleftrightarrow> l" using c0(1) d(2) dig by (auto split: if_splits)
  have "printf_padding fmt i args len s =
    Some (Go (?i2 + length (numeral_text 10 w)) args len
      (?s1\<lparr>paddingChar := (if z then 48 else 32), paddingLen := int w\<rparr>))"
    unfolding printf_padding_def
    using first second is_l dig padding_tail [OF w c d2] by (cases l; cases z) simp_all
  moreover have "?i2 + length (numeral_text 10 w) = i + length (unparse_padding (Pad l z w))" by simp
  ultimately show ?thesis using conv by (simp add: pad_state_def)
qed

section \<open>The loop\<close>

lemma drop_past: "drop i fmt = u @ post \<Longrightarrow> drop (i + length u) fmt = post"
  by (metis append_eq_conv_conj add.commute drop_drop)

text \<open>The two ways into the \<open>switch\<close> that go on.\<close>

lemma loop_conversion:
  assumes "byte_at fmt i = Some 37" "paddingLen s = 0" "printf_conv fmt (Suc i) args len s = Some (Go j args1 n s1)"
  shows "printf_loop fmt args i len s = printf_loop fmt args1 (if paddingLen s1 = 0 then Suc j else j) n s1"
  using assms by (subst printf_loop.simps) simp

lemma loop_padded:
  assumes "byte_at fmt i = Some c" "c \<noteq> 0" "paddingLen s \<noteq> 0" "strContains (lit ''udlxs'') c = Some True"
    "printf_conv fmt i args len s = Some (Go j args1 n s1)"
  shows "printf_loop fmt args i len s = printf_loop fmt args1 (if paddingLen s1 = 0 then Suc j else j) n s1"
  using assms by (subst printf_loop.simps) simp

lemma loop_literal:
  assumes "byte_at fmt i = Some c" "c \<noteq> 0" "c \<noteq> 37" "paddingLen s = 0" "uoutOpen s"
  shows "printf_loop fmt args i len s = printf_loop fmt args (Suc i) (len + 1) (wrote [c] s)"
  using assms by (subst printf_loop.simps) (simp add: uprintChar_open)

definition steps_to ::
  "byte list \<Rightarrow> varg list \<Rightarrow> nat \<Rightarrow> uio \<Rightarrow> varg list \<Rightarrow> nat \<Rightarrow> byte list \<Rightarrow> bool" where
  "steps_to fmt args i s args' i' t \<longleftrightarrow> (\<forall>len. \<exists>n s'. printf_loop fmt args i len s = printf_loop fmt args' i' n s' \<and>
     uout s' = uout s @ t \<and> uoutOpen s' \<and> paddingLen s' = 0)"

lemma no_pad_state: "paddingLen s = 0 \<Longrightarrow> pad_state None s = s"
  by (simp add: pad_state_def)

lemma conv_steps:
  assumes s: "uoutOpen s" "paddingLen s = 0" and fmt: "drop i fmt = unparse (Conv p k) @ post"
    and ok: "valid (Conv p k)" and t: "render_conv p k a = Some t"
  shows "steps_to fmt (a # args) i s args (i + length (unparse (Conv p k))) t"
proof (cases p)
  case None
  have d: "drop (Suc i) fmt = letters k @ post" "byte_at fmt i = Some 37"
    using fmt byte_at_drop [of i fmt 37] None by simp_all
  obtain c r where k: "letters k = c # r" using letters_first by metis
  show ?thesis
    unfolding steps_to_def
  proof
    fix len
    obtain n s' where r: "printf_conv fmt (Suc i) (a # args) len s = Some (Go (Suc i + length (letters k) - 1) args n s')"
        "uout s' = uout s @ t" "uoutOpen s'" "paddingLen s' = 0"
      using conv_step [OF s(1) d(1) t] None no_pad_state [OF s(2)] unfolding converted_def by fastforce
    then show "\<exists>n s'. printf_loop fmt (a # args) i len s =
        printf_loop fmt args (i + length (unparse (Conv p k))) n s' \<and>
        uout s' = uout s @ t \<and> uoutOpen s' \<and> paddingLen s' = 0"
      using loop_conversion [OF d(2) s(2) r(1)] None k by auto
  qed
next
  case (Some q)
  obtain l z w where q: "q = Pad l z w" by (cases q)
  have w: "1 \<le> w" "w < 100" "takes_padding k" using ok Some q by auto
  obtain c r where k: "letters k = c # r" "\<not> IS_DIGIT c" "c \<noteq> 0" "strContains (lit ''udlxs'') c = Some True"
    using letters_first w(3) by metis
  let ?u = "unparse_padding (Pad l z w)"
  let ?i = "Suc i + length ?u" and ?s = "pad_state (Some (Pad l z w)) s"
  have d: "drop (Suc i) fmt = ?u @ c # r @ post" "byte_at fmt i = Some 37"
    using fmt byte_at_drop [of i fmt 37] Some q k by simp_all
  have e: "drop ?i fmt = letters k @ post" using drop_past [OF d(1)] k by simp
  have s': "paddingLen ?s \<noteq> 0" using w by (simp add: pad_width_def)
  show ?thesis
    unfolding steps_to_def
  proof
    fix len
    have 1: "printf_loop fmt (a # args) i len s = printf_loop fmt (a # args) ?i len ?s"
      using loop_conversion [OF d(2) s(2) padding_step [OF w(1,2) k(2) d(1)]] s' by simp
    obtain n s1 where r: "printf_conv fmt ?i (a # args) len ?s = Some (Go (?i + length (letters k) - 1) args n s1)"
        "uout s1 = uout s @ t" "uoutOpen s1" "paddingLen s1 = 0"
      using conv_step [OF s(1) e] t Some q w(3) unfolding converted_def by blast
    have "byte_at fmt ?i = Some c" using e k(1) byte_at_drop(1) by simp
    from loop_padded [OF this k(3) s' k(4) r(1)] r(4)
    have "printf_loop fmt (a # args) ?i len ?s = printf_loop fmt args (Suc (?i + length (letters k) - 1)) n s1"
      by simp
    moreover have "Suc (?i + length (letters k) - 1) = i + length (unparse (Conv p k))"
      using Some q k(1) by simp
    ultimately have "printf_loop fmt (a # args) i len s =
        printf_loop fmt args (i + length (unparse (Conv p k))) n s1" using 1 by metis
    with r show "\<exists>n s'. printf_loop fmt (a # args) i len s =
        printf_loop fmt args (i + length (unparse (Conv p k))) n s' \<and>
        uout s' = uout s @ t \<and> uoutOpen s' \<and> paddingLen s' = 0" by blast
  qed
qed

lemma percent_steps:
  assumes "uoutOpen s" "paddingLen s = 0" "drop i fmt = unparse Percent @ post"
  shows "steps_to fmt args i s args (i + length (unparse Percent)) [37]"
proof -
  have d: "byte_at fmt i = Some 37" "byte_at fmt (Suc i) = Some 37"
    using assms(3) byte_at_drop [of i fmt 37 "37 # post"] byte_at_drop(1) [of "Suc i" fmt 37 post]
    by (simp_all add: text_of_def)
  then have "printf_conv fmt (Suc i) args len s = Some (Go (Suc i) args (len + 1) (wrote [37] s))" for len
    using assms(1) by (simp add: printf_conv_def uprintChar_open)
  from loop_conversion [OF d(1) assms(2) this] show ?thesis
    using assms(1,2) by (fastforce simp: steps_to_def text_of_def)
qed

lemma literal_steps:
  assumes "uoutOpen s" "paddingLen s = 0" "drop i fmt = c # post" "c \<noteq> 0" "c \<noteq> 37"
  shows "steps_to fmt args i s args (Suc i) [c]"
  using loop_literal [OF byte_at_drop(1) [OF assms(3)] assms(4,5,2,1)] assms(1,2) by (fastforce simp: steps_to_def)

lemma printf_loop_renders:
  "uoutOpen s \<Longrightarrow> paddingLen s = 0 \<Longrightarrow> drop i fmt = concat (map unparse ps) @ 0 # rest \<Longrightarrow>
   list_all valid ps \<Longrightarrow> render ps args = Some t \<Longrightarrow> printed t s (printf_loop fmt args i len s)"
proof (induction ps args arbitrary: i len s t rule: render.induct)
  case (1 args)
  then have "byte_at fmt i = Some 0" using byte_at_drop(1) by simp
  then show ?case using 1 by (subst printf_loop.simps) (simp add: printed_def)
next
  case (2 c ps args)
  then obtain u where u: "render ps args = Some u" "t = c # u" by auto
  have "steps_to fmt args i s args (Suc i) [c]" by (rule literal_steps) (use 2 in auto)
  then obtain n s' where s': "printf_loop fmt args i len s = printf_loop fmt args (Suc i) n s'"
      "uout s' = uout s @ [c]" "uoutOpen s'" "paddingLen s' = 0" unfolding steps_to_def by blast
  have "printed u s' (printf_loop fmt args (Suc i) n s')"
    using "2.IH" [OF s'(3,4) _ _ u(1)] "2.prems"(3,4) byte_at_drop(2) by simp
  then show ?case using s' u by (simp add: printed_def)
next
  case (3 ps args)
  then obtain u where u: "render ps args = Some u" "t = 37 # u" by auto
  have d: "drop i fmt = unparse Percent @ concat (map unparse ps) @ 0 # rest" using 3 by simp
  obtain n s' where s': "printf_loop fmt args i len s = printf_loop fmt args (i + length (unparse Percent)) n s'"
      "uout s' = uout s @ [37]" "uoutOpen s'" "paddingLen s' = 0"
    using percent_steps [OF "3.prems"(1,2) d] unfolding steps_to_def by blast
  have "printed u s' (printf_loop fmt args (i + length (unparse Percent)) n s')"
    using "3.IH" [OF s'(3,4) drop_past [OF d] _ u(1)] "3.prems"(4) by simp
  then show ?case using s' u by (simp add: printed_def)
next
  case (4 p k ps)
  then show ?case by simp
next
  case (5 p k ps a args)
  then obtain t1 u where u: "render_conv p k a = Some t1" "render ps args = Some u" "t = t1 @ u"
    by (auto split: bind_splits)
  have d: "drop i fmt = unparse (Conv p k) @ concat (map unparse ps) @ 0 # rest" using 5 by simp
  have ok: "valid (Conv p k)" using 5 by simp
  obtain n s' where s': "printf_loop fmt (a # args) i len s =
        printf_loop fmt args (i + length (unparse (Conv p k))) n s'"
      "uout s' = uout s @ t1" "uoutOpen s'" "paddingLen s' = 0"
    using conv_steps [OF "5.prems"(1,2) d ok u(1)] unfolding steps_to_def by blast
  have "printed u s' (printf_loop fmt args (i + length (unparse (Conv p k))) n s')"
    using "5.IH" [OF u(1) s'(3,4) drop_past [OF d] _ u(2)] "5.prems"(4) by simp
  then show ?case using s' u by (simp add: printed_def)
qed

section \<open>Properties\<close>

text \<open>
  C27: on every format made of literal characters, \<open>%%\<close> and the conversions of the library, with or
  without a padding from 1 to 99, \<open>printf\<close> returns and has written exactly the reference rendering of
  its arguments: numerals in their base, signs before the padding, strings up to their terminator,
  blanks or zeros on the side asked for.
\<close>

theorem printf_renders:
  assumes "list_all valid ps" and "render ps args = Some t" and "uoutOpen s"
  shows "\<exists>n s'. printf (concat (map unparse ps) @ 0 # rest) args s = Some (n, s') \<and>
    uout s' = uout s @ t \<and> paddingLen s' = 0"
proof -
  have "printed t (s\<lparr>paddingLen := 0\<rparr>)
      (printf_loop (concat (map unparse ps) @ 0 # rest) args 0 0 (s\<lparr>paddingLen := 0\<rparr>))"
    by (rule printf_loop_renders [OF _ _ _ assms(1,2)]) (simp_all add: assms(3))
  then show ?thesis by (auto simp: printf_def printed_def)
qed

text \<open>A state to start from.\<close>

definition fresh_uio :: "byte list \<Rightarrow> uio" where
  "fresh_uio inp = \<lparr>uin = inp, uinOpen = True, uout = [], uoutOpen = True, paddingChar = 0, paddingLen = 0,
     paddingSign = 1, srand = 0\<rparr>"

theorem printf_renders_witness:
  "\<exists>n s'. printf (lit ''[%5d|%-4s%%'') [Num (- 42), Str (lit ''hi'')] (fresh_uio []) = Some (n, s') \<and>
    uout s' = text_of ''[-  42|hi  %'' \<and> paddingLen s' = 0"
proof -
  let ?ps = "[Lit 91, Conv (Some (Pad False False 5)) Dec, Lit 124, Conv (Some (Pad True False 4)) Text, Percent]"
  have fmt: "concat (map unparse ?ps) @ 0 # [] = lit ''[%5d|%-4s%%''"
    by (simp add: lit_def text_of_def two_digits ndigit_def digit_char_def)
  have t: "render ?ps [Num (- 42), Str (lit ''hi'')] = Some (text_of ''[-  42|hi  %'')" by code_simp
  have s: "list_all valid ?ps" "uoutOpen (fresh_uio [])" "uout (fresh_uio []) = []"
    by (simp_all add: fresh_uio_def)
  show ?thesis using printf_renders [OF s(1) t s(2), of "[]"] unfolding fmt s(3) by simp
qed

text \<open>
  The result of \<open>printf\<close> is meant to count the characters, but the unused part of a padding is
  subtracted from it: without a padding a number counts for nothing.
\<close>

lemma printf_count:
  "\<exists>s'. printf (lit ''%d'') [Num 42] (fresh_uio []) = Some (0, s') \<and> uout s' = text_of ''42''"
proof -
  have "map_option fst (printf (lit ''%d'') [Num 42] (fresh_uio [])) = Some 0"
    "map_option (uout \<circ> snd) (printf (lit ''%d'') [Num 42] (fresh_uio [])) = Some (text_of ''42'')"
    by code_simp+
  then show ?thesis by auto
qed

end
