(* ===== verification/UShell.thy ===== *)
theory UShell
  imports UStdlib UHistory
begin

text \<open>
  The shell (\<open>Userland/UserModule/c2/shell.c\<close>): the line being typed, its completion and deletion,
  the splitting of a line into the words of one command or of two joined by a pipe, the processes it
  starts for them, and the history. An \<open>Array\<close> of characters is the list of its elements: reading it
  as a string that has no terminator among them is the fault \<open>None\<close>, as in \<open>KUtils\<close>. The history is
  the circular buffer of \<open>UHistory\<close>. A system call is recorded, and its result is the next answer of
  the kernel, a function of the calls so far.
\<close>

type_synonym argv = "byte list list"

text \<open>A function of the table of commands is named by its symbol.\<close>

record command =
  cname :: "byte list"
  cdescription :: "byte list"
  cfunction :: string

datatype syscall =
  CreateProcess argv string
| CreateProcessWithPipeSwap argv string int int int  \<comment> \<open>the write, read and error pipes\<close>
| WaitPid int
| PipeInit
| WriteEof int
| DestroyPipe int
| ClearScreen  \<comment> \<open>\<open>clearScreen\<close>: the cursor to the origin and an empty rectangle\<close>
| SetFontSize int
| SetColor string u32
| SetLayout int
| Kill int
| BlockByUser int
| Unblock int
| ChangePriority int int
| Sleep int
| GetTicks
| PCBList
| Free int
| GetPid
| Halt
| GetPipes  \<comment> \<open>the answer is the read pipe\<close>
| WritePipe int "byte list"
| CreateSemaphore string int
| OpenSem string int
| SemInit int
| SemWait int
| SemPost int
| DestroySemaphore int
| SysYield
| PlaySound int int
| FillRectangle int int int int u32
| SystemInfo

record 'h shell =
  io :: uio
  currentCommand :: "byte list"
  commandHistory :: "(argv, 'h) CHB"
  commandReturnCode :: int
  currentPromptLen :: int
  commands :: "command list"
  heap_of :: 'h
  calls :: "syscall list"

type_synonym kernel_answers = "syscall list \<Rightarrow> int"

definition SUCCESS :: int where "SUCCESS = 0"
definition COMMAND_NOT_FOUND :: int where "COMMAND_NOT_FOUND = 3"

definition CommandResultStrings :: "byte list list" where
  "CommandResultStrings = map lit [''Success'', ''Too many arguments'', ''Argument too long'', ''Command not found'',
     ''Missing arguments'', ''Illegal argument'', ''Argument of bounds'', ''Process failure'', ''No memory available'']"

definition call :: "kernel_answers \<Rightarrow> syscall \<Rightarrow> 'h shell \<Rightarrow> int \<times> 'h shell" where
  "call ans c sh = (let cs = calls sh @ [c] in (ans cs, sh\<lparr>calls := cs\<rparr>))"

definition put :: "byte \<Rightarrow> 'h shell \<Rightarrow> 'h shell" where
  "put c sh = sh\<lparr>io := snd (uprintChar c (io sh))\<rparr>"

text \<open>\<open>printChar(c); Array_push(currentCommand, &c)\<close>\<close>

definition type_char :: "byte \<Rightarrow> 'h shell \<Rightarrow> 'h shell" where
  "type_char c sh = (put c sh)\<lparr>currentCommand := currentCommand sh @ [c]\<rparr>"

text \<open>\<open>for (i = 0; s[i] != 0; ++i) { printChar(s[i]); Array_push(currentCommand, s + i); }\<close>\<close>

fun type_string :: "byte list \<Rightarrow> 'h shell \<Rightarrow> 'h shell option" where
  "type_string [] sh = None"
| "type_string (c # s) sh = (if c \<noteq> 0 then type_string s (type_char c sh) else Some sh)"

section \<open>The line\<close>

fun put_n :: "nat \<Rightarrow> byte \<Rightarrow> 'h shell \<Rightarrow> 'h shell" where
  "put_n 0 c sh = sh"
| "put_n (Suc n) c sh = put_n n c (put c sh)"

definition clearLine :: "'h shell \<Rightarrow> 'h shell" where
  "clearLine sh = (put_n (length (currentCommand sh)) 8 sh)\<lparr>currentCommand := []\<rparr>"

definition getCurrentChar :: "byte list \<Rightarrow> byte" where
  "getCurrentChar cc = (if cc = [] then 0 else last cc)"

definition word_sep :: "byte \<Rightarrow> bool" where
  "word_sep c \<longleftrightarrow> strContains (lit '' -.:,;'') c = Some True"

text \<open>The loops of \<open>deleteWord\<close>: characters that are separators or not, as the last one is.\<close>

function delete_loop :: "bool \<Rightarrow> byte list \<Rightarrow> uio \<Rightarrow> byte list \<times> uio" where
  "delete_loop sep cc s =
     (let s1 = snd (uprintChar 8 s); cc1 = butlast cc; c = getCurrentChar cc1
      in if c \<noteq> 0 \<and> word_sep c = sep then delete_loop sep cc1 s1 else (cc1, s1))"
  by pat_completeness auto
termination
  by (relation "measure (\<lambda>(sep, cc, s). length cc)") (auto simp: getCurrentChar_def split: if_splits intro!: diff_less)

declare delete_loop.simps [simp del]

definition deleteWord :: "'h shell \<Rightarrow> 'h shell" where
  "deleteWord sh =
     (let c = getCurrentChar (currentCommand sh)
      in if c = 0 then sh
         else let (cc, s) = delete_loop (word_sep c) (currentCommand sh) (io sh)
              in sh\<lparr>currentCommand := cc, io := s\<rparr>)"

definition newPrompt :: "'h shell \<Rightarrow> 'h shell option" where
  "newPrompt sh =
     (let (p, n) = (if commandReturnCode sh = 0 then (lit '' > '', 3) else (lit '' >! '', 4))
      in do { (_, s) \<leftarrow> uprintString p (io sh); Some (sh\<lparr>io := s, currentPromptLen := n\<rparr>) })"

fun put_all :: "byte list \<Rightarrow> 'h shell \<Rightarrow> 'h shell" where
  "put_all [] sh = sh"
| "put_all (c # s) sh = put_all s (put c sh)"

definition clearScreenKeepCommand :: "kernel_answers \<Rightarrow> 'h shell \<Rightarrow> 'h shell option" where
  "clearScreenKeepCommand ans sh = do {
     sh1 \<leftarrow> newPrompt (snd (call ans ClearScreen sh));
     Some (put_all (currentCommand sh1) sh1) }"

text \<open>\<open>fontSize\<close> is the one of the system information.\<close>

definition incFont :: "kernel_answers \<Rightarrow> int \<Rightarrow> 'h shell \<Rightarrow> 'h shell option" where
  "incFont ans fontSize sh = clearScreenKeepCommand ans (snd (call ans (SetFontSize (fontSize + 1)) sh))"

definition decFont :: "kernel_answers \<Rightarrow> int \<Rightarrow> 'h shell \<Rightarrow> 'h shell option" where
  "decFont ans fontSize sh = clearScreenKeepCommand ans (snd (call ans (SetFontSize (fontSize - 1)) sh))"

definition setShellColors :: "kernel_answers \<Rightarrow> u32 \<Rightarrow> u32 \<Rightarrow> u32 \<Rightarrow> 'h shell \<Rightarrow> 'h shell" where
  "setShellColors ans fontColor bgColor cursorColor sh =
     snd (call ans (SetColor ''cursor'' cursorColor) (snd (call ans (SetColor ''background'' bgColor)
       (snd (call ans (SetColor ''font'' fontColor) sh)))))"

section \<open>The table of commands\<close>

definition addCommand :: "byte list \<Rightarrow> byte list \<Rightarrow> string \<Rightarrow> 'h shell \<Rightarrow> 'h shell" where
  "addCommand name description function sh =
     sh\<lparr>commands := commands sh @ [\<lparr>cname = name, cdescription = description, cfunction = function\<rparr>]\<rparr>"

fun getCommand_loop :: "byte list \<Rightarrow> command list \<Rightarrow> string option option" where
  "getCommand_loop name [] = Some None"
| "getCommand_loop name (c # cs) = do {
     d \<leftarrow> strcmp name (cname c);
     if d = 0 then Some (Some (cfunction c)) else getCommand_loop name cs }"

definition getCommand :: "byte list \<Rightarrow> 'h shell \<Rightarrow> string option option" where
  "getCommand name sh = getCommand_loop name (commands sh)"

text \<open>The table that \<open>shell\<close> fills before its loop: name, description and function.\<close>

definition shell_table :: "(string \<times> string \<times> string) list" where
  "shell_table = [
     (''help'', ''List all commands and their descriptions.'',
      ''commandHelp''),
     (''echo'', ''Print all arguments.'',
      ''commandEcho''),
     (''$?'', ''Print previous command return code.'',
      ''commandGetReturnCode''),
     (''realTime'', ''Get current time'',
      ''commandRealTime''),
     (''keyInfo'', ''Get pressed key info. Exit with ctrl+c.'',
      ''commandGetKeyInfo''),
     (''rand'', ''Generate random numbers.'',
      ''commandRand''),
     (''layout'', ''Get or set current layout. \<newline>    Available flags: --help, --list'',
      ''commandLayout''),
     (''setColors'', ''Set font and background colors.'',
      ''commandSetColors''),
     (''sysInfo'', ''Get some system information.'',
      ''commandSysInfo''),
     (''getRegisters'', ''Get the values of the saved registers.\<newline>    Available flags: --help'',
      ''commandGetRegisters''),
     (''mem'', ''View the state of the memory for the whole system or\<newline>    process-wise by specifying pid'',
      ''commandGetMemoryState''),
     (''zeroDivisionError'', ''Test the zero division error.'',
      ''commandZeroDivisionError''),
     (''invalidOpcodeError'', ''Test the invalid opcode error.'',
      ''commandInvalidOpcodeError''),
     (''ps'', ''Print process list.'',
      ''commandPs''),
     (''testSem'', ''Test semaphores by using multiple processes to\<newline>    modifying shared variable.'',
      ''commandTestSem''),
     (''testMM'', ''Test Memory manager.'',
      ''commandTestMM''),
     (''kill'', ''Kill process by pid.'',
      ''commandKill''),
     (''nice'', ''Change priority of a process by pid'',
      ''commandNice''),
     (''loop'', ''Sends a message with the PID every given seconds'',
      ''commandLoop''),
     (''testPipe'', ''Test pipes with reader and writer processes'',
      ''commandTestPipes''),
     (''phylo'', ''Starts the philosophers problem.\<newline>    `e` to Exit, `a` to Add philosopher, `r` to Remove philosopher'',
      ''commandPhylo''),
     (''block'', ''Blocks the process with the pid given'',
      ''commandBlock''),
     (''unblock'', ''Unblocks the process with the pid given'',
      ''commandUnBlock''),
     (''testPriority'', ''Checks the priority functionality. 0: small wait.\<newline>    1: long wait'',
      ''commandTestPriority''),
     (''testProcesses'', ''Checks the process creation, blocking,\<newline>    unblocking and destruction'',
      ''commandTestProcesses''),
     (''cat'', ''Read from stdin and output to stdout'',
      ''commandCat''),
     (''wc'', ''Cound words from stdin'',
      ''commandWordCount''),
     (''filter'', ''Return the given array without vocals'',
      ''commandFilterVocals''),
     (''superSecret'', ''???'',
      ''commandSuperSecret'')]"

definition shell_commands :: "command list" where
  "shell_commands = map (\<lambda>(n, d, f). \<lparr>cname = lit n, cdescription = lit d, cfunction = f\<rparr>) shell_table"

text \<open>
  One command against the line, from the characters \<open>cc\<close> and \<open>name\<close> left to compare: \<open>None\<close> inside when
  the function returns at a blank, otherwise whether they match and the index \<open>k\<close> that was reached.
\<close>

fun match_loop :: "byte list \<Rightarrow> byte list \<Rightarrow> nat \<Rightarrow> (bool \<times> nat) option option" where
  "match_loop [] name k = Some (Some (True, k))"
| "match_loop (c # cc) [] k = None"
| "match_loop (c # cc) (d # name) k =
     (if d = 0 then Some (Some (True, k))
      else if c = 32 then Some None
      else if c \<noteq> d then Some (Some (False, k + 1))
      else match_loop cc name (k + 1))"

text \<open>The loop over the commands: the count of matches, the last of them and the length it shares.\<close>

fun autocomplete_loop ::
  "byte list \<Rightarrow> command list \<Rightarrow> nat \<Rightarrow> nat \<times> nat \<times> nat \<Rightarrow> (nat \<times> nat \<times> nat) option option" where
  "autocomplete_loop cc [] i m = Some (Some m)"
| "autocomplete_loop cc (c # cs) i (matchCount, matchIdx, n) = do {
     r \<leftarrow> match_loop cc (cname c) 0;
     case r of
       None \<Rightarrow> Some None
     | Some (match, k) \<Rightarrow> do {
         d \<leftarrow> (if match then byte_at (cname c) k else Some 0);
         if match \<and> d \<noteq> 0
         then if matchCount + 1 > 1 then Some None else autocomplete_loop cc cs (i + 1) (matchCount + 1, i, k)
         else autocomplete_loop cc cs (i + 1) (matchCount, matchIdx, n) } }"

definition autocomplete :: "'h shell \<Rightarrow> 'h shell option" where
  "autocomplete sh = do {
     r \<leftarrow> autocomplete_loop (currentCommand sh) (commands sh) 0 (0, 0, 0);
     case r of
       None \<Rightarrow> Some sh
     | Some (matchCount, matchIdx, n) \<Rightarrow>
         if matchCount = 0 then Some sh else type_string (drop n (cname (commands sh ! matchIdx))) sh }"

section \<open>The history\<close>

fun historyCopy_loop :: "argv \<Rightarrow> 'h shell \<Rightarrow> 'h shell option" where
  "historyCopy_loop [] sh = Some sh"
| "historyCopy_loop (arg # args) sh = do {
     sh1 \<leftarrow> type_string arg sh;
     historyCopy_loop args (if args \<noteq> [] then type_char 32 sh1 else sh1) }"

definition historyCopy :: "argv \<Rightarrow> 'h shell \<Rightarrow> 'h shell option" where
  "historyCopy argv sh = historyCopy_loop argv (clearLine sh)"

definition historyPrev :: "'h shell \<Rightarrow> 'h shell option" where
  "historyPrev sh =
     (let (k, cb) = CHB_readPrev (commandHistory sh); sh1 = sh\<lparr>commandHistory := cb\<rparr>
      in case k of None \<Rightarrow> Some sh1 | Some i \<Rightarrow> do { argv \<leftarrow> uslot (cbArray cb) i; historyCopy argv sh1 })"

definition historyNext :: "'h shell \<Rightarrow> 'h shell option" where
  "historyNext sh = do {
     (k, cb) \<leftarrow> CHB_readNext (commandHistory sh);
     case k of
       None \<Rightarrow> Some ((clearLine sh)\<lparr>commandHistory := CHB_readRest cb\<rparr>)
     | Some i \<Rightarrow> do { argv \<leftarrow> uslot (cbArray cb) i; historyCopy argv (sh\<lparr>commandHistory := cb\<rparr>) } }"

text \<open>The comparisons of arguments and of whole commands that the history is given.\<close>

definition compareArgs :: "byte list \<Rightarrow> byte list \<Rightarrow> int option" where
  "compareArgs arg1 arg2 =
     (let cmp = int (length arg1) - int (length arg2) in if cmp = 0 then strcmp arg1 arg2 else Some cmp)"

text \<open>\<open>Array_equals\<close> of two arrays of the same length, with \<open>compareArgs\<close>.\<close>

fun args_equal :: "argv \<Rightarrow> argv \<Rightarrow> bool option" where
  "args_equal (x # xs) (y # ys) = do { d \<leftarrow> compareArgs x y; if d \<noteq> 0 then Some False else args_equal xs ys }"
| "args_equal _ _ = Some True"

definition compareArgv :: "argv \<Rightarrow> argv \<Rightarrow> int option" where
  "compareArgv argv1 argv2 =
     (let cmp = int (length argv1) - int (length argv2)
      in if cmp = 0 then do { e \<leftarrow> args_equal argv1 argv2; Some (of_bool (\<not> e)) } else Some cmp)"

section \<open>Parsing and running a line\<close>

text \<open>
  The words so far, before and after the last \<open>!\<close>; \<open>arg\<close> is the last word of \<open>currentArgv\<close>. A new word
  after the word \<open>!\<close> starts a new \<open>argv2\<close>.
\<close>

type_synonym words = "argv \<times> argv option"

definition current_argv :: "words \<Rightarrow> argv" where
  "current_argv w = (case snd w of None \<Rightarrow> fst w | Some a2 \<Rightarrow> a2)"

definition set_current :: "argv \<Rightarrow> words \<Rightarrow> words" where
  "set_current a w = (case snd w of None \<Rightarrow> (a, None) | Some _ \<Rightarrow> (fst w, Some a))"

definition new_word :: "words \<Rightarrow> words" where
  "new_word w =
     (if current_argv w \<noteq> [] \<and> last (current_argv w) = [33] then (fst w, Some [[]])
      else set_current (current_argv w @ [[]]) w)"

definition push_char :: "byte \<Rightarrow> words \<Rightarrow> words" where
  "push_char c w = set_current (butlast (current_argv w) @ [last (current_argv w) @ [c]]) w"

fun split_loop :: "byte list \<Rightarrow> bool \<Rightarrow> words \<Rightarrow> words" where
  "split_loop [] newWord w = w"
| "split_loop (c # cc) newWord w =
     (if c = 32 then split_loop cc True w
      else split_loop cc False (push_char c (if newWord then new_word w else w)))"

definition verifyCommand :: "argv \<Rightarrow> 'h shell \<Rightarrow> (string option \<times> 'h shell) option" where
  "verifyCommand argv sh = do {
     argv0 \<leftarrow> (case argv of [] \<Rightarrow> None | a # _ \<Rightarrow> Some a);
     f \<leftarrow> getCommand argv0 sh;
     case f of
       Some g \<Rightarrow> Some (Some g, sh)
     | None \<Rightarrow> do {
         (_, s) \<leftarrow> printf (lit ''%s: %s\<newline>'') [Str (CommandResultStrings ! nat COMMAND_NOT_FOUND), Str argv0] (io sh);
         Some (None, sh\<lparr>io := s\<rparr>) } }"

definition setArgsNullTerminaor :: "argv \<Rightarrow> argv" where
  "setArgsNullTerminaor argv = map (\<lambda>a. a @ [0]) argv"

text \<open>\<open>stdout\<close>, \<open>stdin\<close> and \<open>stderr\<close> are the pipes 0, 1 and 2.\<close>

definition run_pipe :: "kernel_answers \<Rightarrow> argv \<Rightarrow> string \<Rightarrow> argv \<Rightarrow> string \<Rightarrow> 'h shell \<Rightarrow> int \<times> 'h shell" where
  "run_pipe ans argv command argv2 command2 sh =
     (let (pipe, sh1) = call ans PipeInit sh;
          (pid, sh2) = call ans (CreateProcessWithPipeSwap argv command pipe 1 2) sh1;
          (pid2, sh3) = call ans (CreateProcessWithPipeSwap argv2 command2 0 pipe 2) sh2;
          (_, sh4) = call ans (WaitPid pid) sh3;
          (_, sh5) = call ans (WriteEof pipe) sh4;
          (ret, sh6) = call ans (WaitPid pid2) sh5;
          (_, sh7) = call ans (DestroyPipe pipe) sh6
      in (ret, sh7))"

text \<open>The result is the return code with the words as they go into the history.\<close>

definition parse_two :: "kernel_answers \<Rightarrow> argv \<Rightarrow> argv \<Rightarrow> 'h shell \<Rightarrow> (int \<times> argv \<times> 'h shell) option" where
  "parse_two ans argv argv2 sh = do {
     (command2, sh1) \<leftarrow> verifyCommand argv2 sh;
     case command2 of
       None \<Rightarrow> Some (COMMAND_NOT_FOUND, argv @ argv2, sh1)
     | Some f2 \<Rightarrow> do {
         (command, sh2) \<leftarrow> verifyCommand argv sh1;
         case command of
           None \<Rightarrow> Some (COMMAND_NOT_FOUND, argv @ argv2, sh2)
         | Some f \<Rightarrow>
             (let a = setArgsNullTerminaor argv; a2 = setArgsNullTerminaor argv2;
                  (ret, sh3) = run_pipe ans (butlast a) f a2 f2 sh2
              in Some (ret, a @ a2, sh3)) } }"

definition parse_one :: "kernel_answers \<Rightarrow> argv \<Rightarrow> 'h shell \<Rightarrow> (int \<times> argv \<times> 'h shell) option" where
  "parse_one ans argv0 sh = do {
     let argv = setArgsNullTerminaor argv0;
     (command, sh1) \<leftarrow> verifyCommand argv sh;
     case command of
       None \<Rightarrow> Some (COMMAND_NOT_FOUND, argv, sh1)
     | Some f \<Rightarrow> do {
         d \<leftarrow> strcmp (last argv) (lit ''&'');
         if d = 0
         then do {
           let (pid, sh2) = call ans (CreateProcess (butlast argv) f) sh1;
           (_, s) \<leftarrow> printf (lit ''Running in background '%s', pid: %d\<newline>'') [Str (hd argv), Num (word_of_int pid)] (io sh2);
           Some (SUCCESS, argv, sh2\<lparr>io := s\<rparr>) }
         else
           (let (pid, sh2) = call ans (CreateProcess argv f) sh1;
                (ret, sh3) = call ans (WaitPid pid) sh2
            in Some (ret, argv, sh3)) } }"

definition parseCommand :: "'h mm \<Rightarrow> kernel_answers \<Rightarrow> 'h shell \<Rightarrow> (int outcome \<times> 'h shell) option" where
  "parseCommand M ans sh =
     (let (argv, argv2) = split_loop (currentCommand sh) True ([], None)
      in if argv = [] then Some (Ok SUCCESS, sh)
         else do {
           (ret, words, sh1) \<leftarrow> (case argv2 of Some a2 \<Rightarrow> parse_two ans argv a2 sh | None \<Rightarrow> parse_one ans argv sh);
           (r, h) \<leftarrow> CHB_moveToFrontOrPush M (commandHistory sh1) words (heap_of sh1);
           case r of
             Exit \<Rightarrow> Some (Exit, sh1\<lparr>heap_of := h\<rparr>)
           | Ok cb \<Rightarrow> Some (Ok ret, sh1\<lparr>commandHistory := cb, heap_of := h\<rparr>) })"

definition MAX_HISTORY_LEN :: u64 where "MAX_HISTORY_LEN = 20"

text \<open>
  What \<open>shell\<close> does before its loop; \<open>free\<close> is \<open>freeArrayPtr\<close>, and the blocks of the arrays of
  characters and of commands are not followed.
\<close>

definition shell_start ::
  "'h mm \<Rightarrow> kernel_answers \<Rightarrow> (argv \<Rightarrow> 'h \<Rightarrow> 'h option) \<Rightarrow> uio \<Rightarrow> 'h \<Rightarrow> ('h shell outcome \<times> 'h) option" where
  "shell_start M ans free s h =
     and_then (CHB_initialize M 8 MAX_HISTORY_LEN (Some free) (Some compareArgv) h) (\<lambda>cb h1. do {
       let sh = \<lparr>io = s, currentCommand = [], commandHistory = cb, commandReturnCode = 0, currentPromptLen = 0,
         commands = [], heap_of = h1, calls = []\<rparr>;
       let sh1 = snd (call ans ClearScreen (setShellColors ans 0xC0CAF5 0x1A1B26 0xFFFF11 sh));
       let sh2 = fold (\<lambda>(n, d, f). addCommand (lit n) (lit d) f) shell_table sh1;
       let (pid, sh3) = call ans (CreateProcess [lit ''help''] ''commandHelp'') sh2;
       sh4 \<leftarrow> newPrompt (snd (call ans (WaitPid pid) sh3));
       Some (Ok sh4, h1) })"

section \<open>The loop of the shell\<close>

text \<open>One key, with the state of the control key.\<close>

definition shell_key ::
  "'h mm \<Rightarrow> kernel_answers \<Rightarrow> int \<Rightarrow> bool \<Rightarrow> byte \<Rightarrow> 'h shell \<Rightarrow> (unit outcome \<times> 'h shell) option" where
  "shell_key M ans fontSize ctrlPressed c sh =
     (let ok = map_option (\<lambda>sh'. (Ok (), sh'))
      in if ctrlPressed
         then let k = toLower c
              in if k = of_char CHR ''+'' then ok (incFont ans fontSize sh)
                 else if k = of_char CHR ''-'' then ok (decFont ans fontSize sh)
                 else if k = of_char CHR ''l'' then ok (clearScreenKeepCommand ans sh)
                 else if k = of_char CHR ''w'' then ok (Some (deleteWord sh))
                 else if k = of_char CHR ''k'' then ok (historyPrev sh)
                 else if k = of_char CHR ''j'' then ok (historyNext sh)
                 else ok (Some sh)
         else if c = 10
         then do {
           (r, sh1) \<leftarrow> parseCommand M ans (put c sh);
           case r of
             Exit \<Rightarrow> Some (Exit, sh1)
           | Ok ret \<Rightarrow> do {
               sh2 \<leftarrow> newPrompt (sh1\<lparr>commandReturnCode := ret\<rparr>);
               Some (Ok (), sh2\<lparr>currentCommand := []\<rparr>) } }
         else if c = 8
         then ok (Some (if currentCommand sh \<noteq> [] then (put c sh)\<lparr>currentCommand := butlast (currentCommand sh)\<rparr> else sh))
         else if c = 9 then ok (autocomplete sh)
         else ok (Some (type_char c sh)))"

end
