(* ===== verification/ShellProps.thy ===== *)
theory ShellProps
  imports UShell UPrintf HistoryNav "HOL-Library.Sublist"
begin

text \<open>
  What the shell does with a line: its words, the process it starts for them and what it leaves in
  the history; the completion of a name; what a pipe between two commands reads.
\<close>

section \<open>Words\<close>

text \<open>The reference: the maximal runs of characters other than blanks.\<close>

function words_of :: "byte list \<Rightarrow> argv" where
  "words_of [] = []"
| "words_of (c # cs) = (if c = 32 then words_of cs
     else (c # takeWhile (\<lambda>x. x \<noteq> 32) cs) # words_of (dropWhile (\<lambda>x. x \<noteq> 32) cs))"
  by pat_completeness auto
termination
  by (relation "measure length") (auto simp: le_imp_less_Suc length_dropWhile_le)

text \<open>
  A word \<open>!\<close> that is not the last one joins two commands: the first has the words up to the first \<open>!\<close>
  and the second those after the last one. What stands between the two is lost.
\<close>

definition pipe_split :: "argv \<Rightarrow> words" where
  "pipe_split ws =
     (if [33] \<in> set (butlast ws)
      then (takeWhile (\<lambda>w. w \<noteq> [33]) ws @ [[33]], Some (rev (takeWhile (\<lambda>w. w \<noteq> [33]) (rev (butlast ws))) @ [last ws]))
      else (ws, None))"

lemma pipe_split_snoc: "pipe_split (ws @ [u]) =
    (if [33] \<in> set ws
     then (takeWhile (\<lambda>w. w \<noteq> [33]) ws @ [[33]], Some (rev (takeWhile (\<lambda>w. w \<noteq> [33]) (rev ws)) @ [u]))
     else (ws @ [u], None))"
  by (auto simp: pipe_split_def takeWhile_append1)

lemma pipe_split_nil [simp]: "pipe_split [] = ([], None)"
  by (simp add: pipe_split_def)

lemma push_char_split: "push_char c (pipe_split (ws @ [u])) = pipe_split (ws @ [u @ [c]])"
  by (simp add: pipe_split_snoc push_char_def current_argv_def set_current_def)

lemma takeWhile_snoc: "takeWhile P (vs @ [v]) = (if \<forall>x \<in> set vs. P x then vs @ (if P v then [v] else []) else takeWhile P vs)"
  by (induction vs) auto

lemma new_word_split: "push_char c (new_word (pipe_split ws)) = pipe_split (ws @ [[c]])"
proof (cases ws rule: rev_cases)
  case Nil
  then show ?thesis
    by (simp add: pipe_split_def new_word_def push_char_def current_argv_def set_current_def)
next
  case (snoc vs v)
  have cur: "current_argv (pipe_split ws) \<noteq> [] \<and> last (current_argv (pipe_split ws)) = v"
    by (simp add: snoc pipe_split_snoc current_argv_def)
  show ?thesis
  proof (cases "v = [33]")
    case True
    then have "new_word (pipe_split ws) = (fst (pipe_split ws), Some [[]])" using cur by (simp add: new_word_def)
    then have "push_char c (new_word (pipe_split ws)) = (fst (pipe_split ws), Some [[c]])"
      by (simp add: push_char_def current_argv_def set_current_def)
    moreover have "pipe_split (ws @ [[c]]) = (fst (pipe_split ws), Some [[c]])"
      unfolding pipe_split_snoc by (auto simp: snoc True pipe_split_snoc takeWhile_snoc)
    ultimately show ?thesis by simp
  next
    case False
    then have "new_word (pipe_split ws) = set_current (current_argv (pipe_split ws) @ [[]]) (pipe_split ws)"
      using cur by (simp add: new_word_def)
    moreover have "pipe_split (ws @ [[c]]) =
        set_current (current_argv (pipe_split ws) @ [[c]]) (pipe_split ws)"
      using False unfolding pipe_split_snoc by (auto simp: snoc pipe_split_snoc current_argv_def set_current_def)
    ultimately show ?thesis
      by (cases "snd (pipe_split ws)") (auto simp: push_char_def current_argv_def set_current_def)
  qed
qed

lemma split_loop_words:
  "split_loop cs True (pipe_split ws) = pipe_split (ws @ words_of cs)"
  "split_loop cs False (pipe_split (ws @ [u])) =
     pipe_split (ws @ (u @ takeWhile (\<lambda>x. x \<noteq> 32) cs) # words_of (dropWhile (\<lambda>x. x \<noteq> 32) cs))"
proof (induction cs arbitrary: ws u)
  case (Cons c cs)
  {
    case 1
    then show ?case using Cons.IH(1) [of ws] Cons.IH(2) [of ws "[c]"] by (simp add: new_word_split)
  next
    case 2
    then show ?case
      using Cons.IH(1) [of "ws @ [u]"] Cons.IH(2) [of ws "u @ [c]"] by (simp add: push_char_split)
  }
qed simp_all

lemma words_of_props:
  "0 \<notin> set cs \<Longrightarrow> w \<in> set (words_of cs) \<Longrightarrow> w \<noteq> [] \<and> 0 \<notin> set w"
proof (induction cs rule: words_of.induct)
  case (2 c cs)
  then show ?case
    using set_takeWhileD [of _ "\<lambda>x. x \<noteq> 32" cs] set_dropWhileD [of _ "\<lambda>x. x \<noteq> 32" cs]
    by (auto split: if_splits)
qed simp

section \<open>The table of commands\<close>

definition table_ok :: "command list \<Rightarrow> bool" where
  "table_ok cs \<longleftrightarrow> (\<forall>c \<in> set cs. terminated (cname c) \<and> 32 \<notin> set (cstr (cname c)))"

definition find_command :: "byte list \<Rightarrow> command list \<Rightarrow> command option" where
  "find_command name cs = List.find (\<lambda>c. cstr (cname c) = name) cs"

lemma getCommand_finds:
  "terminated name \<Longrightarrow> table_ok cs \<Longrightarrow>
     getCommand_loop name cs = Some (map_option cfunction (find_command (cstr name) cs))"
  by (induction cs) (auto simp: table_ok_def find_command_def strcmp_eq)

text \<open>A name without a terminator is always read past its end, or matches no command.\<close>

lemma strcmp_unterminated: "\<not> terminated name \<Longrightarrow> terminated t \<Longrightarrow> strcmp name t \<noteq> Some 0"
  by (induction name t rule: strcmp.induct) auto

lemma getCommand_unterminated:
  "\<not> terminated name \<Longrightarrow> table_ok cs \<Longrightarrow> getCommand_loop name cs = None \<or> getCommand_loop name cs = Some None"
  using strcmp_unterminated by (induction cs) (auto simp: table_ok_def split: bind_splits)

section \<open>Completion\<close>

text \<open>
  The commands that the line is a proper beginning of. The reference completes the line when there is
  exactly one.
\<close>

definition completions :: "byte list \<Rightarrow> command list \<Rightarrow> byte list list" where
  "completions cc cs = map (\<lambda>c. cstr (cname c)) (filter (\<lambda>c. strict_prefix cc (cstr (cname c))) cs)"

lemma match_loop_eq:
  assumes "terminated name" "32 \<notin> set (cstr name)" "0 \<notin> set cc"
  shows "(strict_prefix cc (cstr name) \<longrightarrow> match_loop cc name k = Some (Some (True, k + length cc)) \<and>
       (\<exists>d. byte_at name (length cc) = Some d \<and> d \<noteq> 0)) \<and>
    (\<not> strict_prefix cc (cstr name) \<longrightarrow> match_loop cc name k = Some None \<and> 32 \<in> set cc \<or>
       (\<exists>b n. match_loop cc name k = Some (Some (b, n)) \<and> (b \<longrightarrow> k \<le> n \<and> byte_at name (n - k) = Some 0)))"
  using assms
proof (induction cc name k rule: match_loop.induct)
  case (1 name k)
  then show ?case by (cases name) (auto simp: byte_at_def strict_prefix_simps)
next
  case (2 c cc k)
  then show ?case by simp
next
  case (3 c cc d name k)
  show ?case
  proof (cases "d = 0 \<or> c = 32 \<or> c \<noteq> d")
    case True
    then show ?thesis using 3 by (auto simp: byte_at_def)
  next
    case False
    then have IH: "(strict_prefix cc (cstr name) \<longrightarrow> match_loop cc name (k + 1) = Some (Some (True, k + 1 + length cc)) \<and>
       (\<exists>d. byte_at name (length cc) = Some d \<and> d \<noteq> 0)) \<and>
      (\<not> strict_prefix cc (cstr name) \<longrightarrow> match_loop cc name (k + 1) = Some None \<and> 32 \<in> set cc \<or>
       (\<exists>b n. match_loop cc name (k + 1) = Some (Some (b, n)) \<and>
         (b \<longrightarrow> k + 1 \<le> n \<and> byte_at name (n - (k + 1)) = Some 0)))"
      using 3 by auto
    have at: "byte_at (d # name) (Suc i) = byte_at name i" for i by (simp add: byte_at_def)
    show ?thesis
    proof (cases "strict_prefix cc (cstr name)")
      case True
      then show ?thesis using False IH at by auto
    next
      case no: False
      then have "match_loop cc name (k + 1) = Some None \<and> 32 \<in> set cc \<or>
        (\<exists>b n. match_loop cc name (k + 1) = Some (Some (b, n)) \<and>
          (b \<longrightarrow> k + 1 \<le> n \<and> byte_at (d # name) (n - k) = Some 0))"
        using IH at [of "n - (k + 1)" for n] by (metis Suc_diff_le Suc_eq_plus1 diff_Suc_Suc)
      with no False show ?thesis by auto
    qed
  qed
qed

text \<open>When the line has a blank in it nothing is a completion.\<close>

lemma no_completion_blank: "table_ok cs \<Longrightarrow> 32 \<in> set cc \<Longrightarrow> completions cc cs = []"
  by (auto simp: completions_def table_ok_def filter_empty_conv strict_prefix_def prefix_def)

lemma match_loop_miss:
  assumes "table_ok (c # cs)" "0 \<notin> set cc" "\<not> strict_prefix cc (cstr (cname c))"
  shows "match_loop cc (cname c) 0 = Some None \<and> 32 \<in> set cc \<or>
    (\<exists>b m. match_loop cc (cname c) 0 = Some (Some (b, m)) \<and> (b \<longrightarrow> byte_at (cname c) m = Some 0))"
proof -
  have "terminated (cname c)" "32 \<notin> set (cstr (cname c))" using assms(1) by (simp_all add: table_ok_def)
  from match_loop_eq [OF this assms(2), of 0] assms(3) show ?thesis by auto
qed

lemma autocomplete_none:
  assumes "table_ok cs" "0 \<notin> set cc" "\<forall>c \<in> set cs. \<not> strict_prefix cc (cstr (cname c))"
  shows "autocomplete_loop cc cs i (cnt, idx, n) = Some (Some (cnt, idx, n)) \<or>
    32 \<in> set cc \<and> autocomplete_loop cc cs i (cnt, idx, n) = Some None"
  using assms
proof (induction cs arbitrary: i)
  case (Cons c cs)
  then consider "match_loop cc (cname c) 0 = Some None" "32 \<in> set cc"
    | b m where "match_loop cc (cname c) 0 = Some (Some (b, m))" "b \<longrightarrow> byte_at (cname c) m = Some 0"
    using match_loop_miss [of c cs cc] by auto
  then show ?case
  proof cases
    case 2
    then show ?thesis using Cons by (cases b) (auto simp: table_ok_def)
  qed simp
qed simp

lemma autocomplete_hit:
  assumes "table_ok (c # cs)" "0 \<notin> set cc" "strict_prefix cc (cstr (cname c))"
  shows "autocomplete_loop cc (c # cs) i (cnt, idx, n) =
    (if cnt > 0 then Some None else autocomplete_loop cc cs (i + 1) (cnt + 1, i, length cc))"
proof -
  obtain d where "match_loop cc (cname c) 0 = Some (Some (True, length cc))"
    "byte_at (cname c) (length cc) = Some d" "d \<noteq> 0"
    using assms match_loop_eq [of "cname c" cc 0] unfolding table_ok_def by fastforce
  then show ?thesis by simp
qed

lemma autocomplete_miss:
  assumes "table_ok (c # cs)" "0 \<notin> set cc" "32 \<notin> set cc" "\<not> strict_prefix cc (cstr (cname c))"
  shows "autocomplete_loop cc (c # cs) i m = autocomplete_loop cc cs (i + 1) m"
proof -
  obtain cnt idx n where m: "m = (cnt, idx, n)" by (cases m)
  obtain b q where q: "match_loop cc (cname c) 0 = Some (Some (b, q))" "b \<longrightarrow> byte_at (cname c) q = Some 0"
    using match_loop_miss [OF assms(1,2,4)] assms(3) by blast
  then show ?thesis unfolding m by (cases b) auto
qed

lemma autocomplete_loop_eq:
  assumes "0 \<notin> set cc" "32 \<notin> set cc"
  shows "table_ok cs \<Longrightarrow>
    (case filter (\<lambda>c. strict_prefix cc (cstr (cname c))) cs of
       [] \<Rightarrow> autocomplete_loop cc cs i (0, 0, 0) = Some (Some (0, 0, 0))
     | [c] \<Rightarrow> \<exists>j < length cs. cs ! j = c \<and> autocomplete_loop cc cs i (0, 0, 0) = Some (Some (1, i + j, length cc))
     | _ \<Rightarrow> autocomplete_loop cc cs i (0, 0, 0) = Some None)"
proof (induction cs arbitrary: i)
  case (Cons c cs)
  have ok: "table_ok cs" using Cons.prems by (simp add: table_ok_def)
  show ?case
  proof (cases "strict_prefix cc (cstr (cname c))")
    case False
    then show ?thesis
      using Cons.IH [OF ok, of "i + 1"] autocomplete_miss [OF Cons.prems assms False]
      by (auto split: list.splits)
  next
    case True
    have rest: "autocomplete_loop cc cs k (1, i, length cc) =
        (if filter (\<lambda>c. strict_prefix cc (cstr (cname c))) cs = [] then Some (Some (1, i, length cc)) else Some None)"
      if "table_ok cs" for k cs
      using that
    proof (induction cs arbitrary: k)
      case (Cons d ds)
      then have ds: "table_ok ds" by (simp add: table_ok_def)
      show ?case
        using autocomplete_hit [OF Cons.prems assms(1)] autocomplete_miss [OF Cons.prems assms] Cons.IH [OF ds]
        by (cases "strict_prefix cc (cstr (cname d))") auto
    qed simp
    show ?thesis
      using True autocomplete_hit [OF Cons.prems assms(1) True, of i 0 0 0] rest [OF ok]
      by (auto split: list.splits)
  qed
qed simp

lemma type_string_eq:
  "terminated s \<Longrightarrow> uoutOpen (io sh) \<Longrightarrow> type_string s sh =
     Some (sh\<lparr>currentCommand := currentCommand sh @ cstr s, io := wrote (cstr s) (io sh)\<rparr>)"
proof (induction s arbitrary: sh)
  case (Cons c s)
  then show ?case
    by (cases "c = 0") (auto simp: type_char_def put_def uprintChar_open)
qed simp

lemma cstr_drop: "terminated s \<Longrightarrow> n \<le> length (cstr s) \<Longrightarrow> terminated (drop n s) \<and> cstr (drop n s) = drop n (cstr s)"
proof (induction s arbitrary: n)
  case (Cons c s)
  then show ?case by (cases n) (auto split: if_splits)
qed simp

lemma autocomplete_eq:
  assumes ok: "table_ok (commands sh)" and cc: "0 \<notin> set (currentCommand sh)" and out: "uoutOpen (io sh)"
  shows "autocomplete sh = Some (case completions (currentCommand sh) (commands sh) of
      [name] \<Rightarrow> sh\<lparr>currentCommand := name, io := wrote (drop (length (currentCommand sh)) name) (io sh)\<rparr>
    | _ \<Rightarrow> sh)"
proof (cases "32 \<in> set (currentCommand sh)")
  case True
  have none: "completions (currentCommand sh) (commands sh) = []" by (rule no_completion_blank [OF ok True])
  then have "\<forall>c \<in> set (commands sh). \<not> strict_prefix (currentCommand sh) (cstr (cname c))"
    by (auto simp: completions_def filter_empty_conv)
  from autocomplete_none [OF ok cc this, of 0 0 0 0] none show ?thesis by (auto simp: autocomplete_def)
next
  case False
  let ?hits = "filter (\<lambda>c. strict_prefix (currentCommand sh) (cstr (cname c))) (commands sh)"
  note loop = autocomplete_loop_eq [OF cc False ok, of 0]
  show ?thesis
  proof (cases ?hits)
    case Nil
    then show ?thesis using loop by (simp add: autocomplete_def completions_def)
  next
    case (Cons c r)
    show ?thesis
    proof (cases r)
      case r: Nil
      then obtain j where j: "j < length (commands sh)" "commands sh ! j = c"
        "autocomplete_loop (currentCommand sh) (commands sh) 0 (0, 0, 0) = Some (Some (1, j, length (currentCommand sh)))"
        using loop Cons by auto
      have "c \<in> set ?hits" using Cons by simp
      then have p: "strict_prefix (currentCommand sh) (cstr (cname c))" "terminated (cname c)"
        using ok by (auto simp: table_ok_def)
      then have len: "length (currentCommand sh) \<le> length (cstr (cname c))"
        using prefix_length_less [of "currentCommand sh" "cstr (cname c)"] by simp
      have "currentCommand sh @ drop (length (currentCommand sh)) (cstr (cname c)) = cstr (cname c)"
        using p(1) by (auto simp: strict_prefix_def prefix_def)
      then show ?thesis
        using j cstr_drop [OF p(2) len] type_string_eq [OF _ out] Cons r
        by (simp add: autocomplete_def completions_def)
    next
      case (Cons d s)
      then show ?thesis using loop \<open>?hits = c # r\<close> by (simp add: autocomplete_def completions_def)
    qed
  qed
qed

section \<open>Deletion of a word\<close>

lemma delete_loop_eq:
  "cc \<noteq> [] \<Longrightarrow> 0 \<notin> set cc \<Longrightarrow> uoutOpen s \<Longrightarrow> word_sep (last cc) = sep \<Longrightarrow>
   delete_loop sep cc s = (rev (dropWhile (\<lambda>c. word_sep c = sep) (rev cc)),
     wrote (replicate (length (takeWhile (\<lambda>c. word_sep c = sep) (rev cc))) 8) s)"
proof (induction cc arbitrary: s rule: rev_induct)
  case (snoc c cc)
  show ?case
  proof (cases "cc = [] \<or> word_sep (last cc) \<noteq> sep")
    case True
    then have "takeWhile (\<lambda>c. word_sep c = sep) (rev cc) = [] \<and> dropWhile (\<lambda>c. word_sep c = sep) (rev cc) = rev cc"
      by (cases cc rule: rev_cases) auto
    then show ?thesis using True snoc.prems
      by (subst delete_loop.simps) (auto simp: Let_def getCurrentChar_def uprintChar_open)
  next
    case False
    then have "last cc \<in> set cc" by (intro last_in_set) simp
    then have "last cc \<noteq> 0" using snoc.prems(2) by (metis Un_iff set_append)
    then show ?thesis using False snoc.prems snoc.IH [of "wrote [8] s"]
      by (subst delete_loop.simps) (auto simp: Let_def getCurrentChar_def uprintChar_open)
  qed
qed simp

lemma deleteWord_eq:
  assumes "0 \<notin> set (currentCommand sh)" "uoutOpen (io sh)" "currentCommand sh \<noteq> []"
  shows "deleteWord sh =
    (let same = (\<lambda>c. word_sep c = word_sep (last (currentCommand sh))); r = rev (currentCommand sh)
     in sh\<lparr>currentCommand := rev (dropWhile same r), io := wrote (replicate (length (takeWhile same r)) 8) (io sh)\<rparr>)"
proof -
  have "last (currentCommand sh) \<noteq> 0" using assms(1,3) by (metis last_in_set)
  then show ?thesis using delete_loop_eq [OF assms(3,1,2)] assms(3)
    by (simp add: deleteWord_def getCurrentChar_def Let_def)
qed

section \<open>The history of commands\<close>

definition word_ok :: "byte list \<Rightarrow> bool" where
  "word_ok w \<longleftrightarrow> (\<exists>s. w = s @ [0] \<and> 0 \<notin> set s)"

definition words_ok :: "argv \<Rightarrow> bool" where
  "words_ok a \<longleftrightarrow> (\<forall>w \<in> set a. word_ok w)"

lemma word_ok_simps: "word_ok w \<Longrightarrow> terminated w" "word_ok w \<Longrightarrow> cstr w = butlast w"
  "word_ok w \<Longrightarrow> word_ok v \<Longrightarrow> cstr w = cstr v \<longleftrightarrow> w = v"
  by (auto simp: word_ok_def terminated_append_zero cstr_append_zero)

lemma compareArgs_eq: "word_ok x \<Longrightarrow> word_ok y \<Longrightarrow> \<exists>d. compareArgs x y = Some d \<and> (d = 0 \<longleftrightarrow> x = y)"
  by (auto simp: compareArgs_def strcmp_eq word_ok_simps(1,3) Let_def)

lemma args_equal_eq:
  "words_ok xs \<Longrightarrow> words_ok ys \<Longrightarrow> length xs = length ys \<Longrightarrow> args_equal xs ys = Some (xs = ys)"
proof (induction xs ys rule: args_equal.induct)
  case (1 x xs y ys)
  obtain d where "compareArgs x y = Some d" "d = 0 \<longleftrightarrow> x = y"
    using compareArgs_eq [of x y] 1 by (auto simp: words_ok_def)
  then show ?case using 1 by (cases "d = 0") (auto simp: words_ok_def)
qed (auto simp: words_ok_def)

lemma compareArgv_compares: "compares words_ok id compareArgv"
  by (auto simp: compares_def compareArgv_def args_equal_eq Let_def)

lemma fin_words_ok: "\<forall>w \<in> set ws. 0 \<notin> set w \<Longrightarrow> words_ok (setArgsNullTerminaor ws)"
  by (auto simp: words_ok_def word_ok_def setArgsNullTerminaor_def)

section \<open>One command\<close>

text \<open>What a line with the words \<open>ws\<close> does: the return code, the system calls and what is printed.\<close>

definition single_spec ::
  "kernel_answers \<Rightarrow> syscall list \<Rightarrow> argv \<Rightarrow> command option \<Rightarrow> int \<times> syscall list \<times> byte list" where
  "single_spec ans cs ws c =
     (case c of
        None \<Rightarrow> (COMMAND_NOT_FOUND, [], text_of ''Command not found: '' @ hd ws @ [10])
      | Some c \<Rightarrow>
          if last ws = [38]
          then let create = CreateProcess (butlast (setArgsNullTerminaor ws)) (cfunction c); pid = ans (cs @ [create])
               in (SUCCESS, [create], text_of ''Running in background '' @ [39] @ hd ws @ [39] @ text_of '', pid: '' @
                     signed_text None 10 (sint (low_half (word_of_int pid))) @ [10])
          else let create = CreateProcess (setArgsNullTerminaor ws) (cfunction c); wait = WaitPid (ans (cs @ [create]))
               in (ans (cs @ [create, wait]), [create, wait], []))"

text \<open>A \<open>printf\<close> of a format given by its pieces.\<close>

lemma printf_pieces:
  assumes "list_all valid ps" "render ps args = Some t" "uoutOpen s"
  shows "\<exists>n s'. printf (concat (map unparse ps) @ [0]) args s = Some (n, s') \<and> uout s' = uout s @ t \<and> uoutOpen s'"
proof -
  have "printed t (s\<lparr>paddingLen := 0\<rparr>)
      (printf_loop (concat (map unparse ps) @ 0 # []) args 0 0 (s\<lparr>paddingLen := 0\<rparr>))"
    by (rule printf_loop_renders [OF _ _ _ assms(1,2)]) (simp_all add: assms(3))
  then show ?thesis by (auto simp: printf_def printed_def)
qed

lemma not_found_message:
  assumes "word_ok w" "uoutOpen s"
  shows "\<exists>n s'. printf (lit ''%s: %s\<newline>'') [Str (CommandResultStrings ! nat COMMAND_NOT_FOUND), Str w] s = Some (n, s') \<and>
    uout s' = uout s @ text_of ''Command not found: '' @ butlast w @ [10] \<and> uoutOpen s'"
proof -
  let ?ps = "[Conv None Text, Lit 58, Lit 32, Conv None Text, Lit 10]"
  have f: "concat (map unparse ?ps) @ [0] = lit ''%s: %s\<newline>''" by (simp add: lit_def text_of_def)
  have "CommandResultStrings ! nat COMMAND_NOT_FOUND = text_of ''Command not found'' @ [0]"
    by (simp add: CommandResultStrings_def COMMAND_NOT_FOUND_def lit_def text_of_def)
  then have "render ?ps [Str (CommandResultStrings ! nat COMMAND_NOT_FOUND), Str w] =
      Some (text_of ''Command not found: '' @ butlast w @ [10])"
    using assms(1) by (simp add: word_ok_simps terminated_append_zero padded_def text_of_def)
  from printf_pieces [OF _ this assms(2)] show ?thesis unfolding f by simp
qed

lemma background_message:
  assumes "word_ok w" "uoutOpen s"
  shows "\<exists>n s'. printf (lit ''Running in background '%s', pid: %d\<newline>'') [Str w, Num p] s = Some (n, s') \<and>
    uout s' = uout s @ text_of ''Running in background '' @ [39] @ butlast w @ [39] @ text_of '', pid: '' @
      signed_text None 10 (sint (low_half p)) @ [10] \<and> uoutOpen s'"
proof -
  let ?ps = "map Lit (text_of ''Running in background '') @ [Lit 39, Conv None Text, Lit 39] @
    map Lit (text_of '', pid: '') @ [Conv None Dec, Lit 10]"
  have f: "concat (map unparse ?ps) @ [0] = lit ''Running in background '%s', pid: %d\<newline>''"
    by (simp add: lit_def text_of_def)
  have "render ?ps [Str w, Num p] = Some (text_of ''Running in background '' @ [39] @ butlast w @ [39] @
      text_of '', pid: '' @ signed_text None 10 (sint (low_half p)) @ [10])"
    using assms(1) by (simp add: word_ok_simps padded_def text_of_def)
  from printf_pieces [OF _ this assms(2)] show ?thesis unfolding f by (simp add: text_of_def)
qed

lemma calls_same [simp]: "sh\<lparr>io := s, calls := calls sh\<rparr> = sh\<lparr>io := s\<rparr>"
  "sh\<lparr>io := io sh, calls := cs\<rparr> = sh\<lparr>calls := cs\<rparr>"
  by (cases sh, simp)+

lemma parse_one_eq:
  assumes ok: "\<forall>w \<in> set ws. 0 \<notin> set w" "ws \<noteq> []" and tab: "table_ok (commands sh)" and out: "uoutOpen (io sh)"
    and spec: "single_spec ans (calls sh) ws (find_command (hd ws) (commands sh)) = (ret, cs, msg)"
  shows "\<exists>s. parse_one ans ws sh = Some (ret, setArgsNullTerminaor ws, sh\<lparr>io := s, calls := calls sh @ cs\<rparr>) \<and>
    uout s = uout (io sh) @ msg \<and> uoutOpen s"
proof -
  let ?a = "setArgsNullTerminaor ws"
  obtain w r where ws: "ws = w # r" "0 \<notin> set w" using ok by (cases ws) auto
  have w: "word_ok (w @ [0])" "butlast (w @ [0]) = w" using ws(2) by (auto simp: word_ok_def)
  have a: "?a = (w @ [0]) # setArgsNullTerminaor r" by (simp add: ws setArgsNullTerminaor_def)
  have get: "getCommand (w @ [0]) sh = Some (map_option cfunction (find_command w (commands sh)))"
    using getCommand_finds [OF word_ok_simps(1) [OF w(1)] tab] word_ok_simps(2) [OF w(1)]
    by (simp add: getCommand_def)
  have last: "last ?a = last ws @ [0]" using ok(2) by (simp add: setArgsNullTerminaor_def last_map)
  have "0 \<notin> set (last ws)" using ok by simp
  then have amp: "strcmp (last ?a) (lit ''&'') = Some d \<Longrightarrow> d = 0 \<longleftrightarrow> last ws = [38]" for d
    unfolding last by (auto simp: strcmp_eq terminated_append_zero cstr_append_zero lit_def split: if_splits)
  obtain d where d: "strcmp (last ?a) (lit ''&'') = Some d"
    unfolding last by (simp add: strcmp_eq terminated_append_zero lit_def)
  show ?thesis
  proof (cases "find_command w (commands sh)")
    case None
    obtain n s where s: "printf (lit ''%s: %s\<newline>'') [Str (CommandResultStrings ! nat COMMAND_NOT_FOUND), Str (w @ [0])] (io sh) = Some (n, s)"
      "uout s = uout (io sh) @ text_of ''Command not found: '' @ w @ [10]" "uoutOpen s"
      using not_found_message [OF w(1) out] w(2) by auto
    have "verifyCommand ?a sh = Some (None, sh\<lparr>io := s\<rparr>)"
      using None get s(1) by (simp add: verifyCommand_def a)
    then show ?thesis
      using None spec ws s(2,3) by (auto simp: parse_one_def single_spec_def Let_def)
  next
    case (Some c)
    have ver: "verifyCommand ?a sh = Some (Some (cfunction c), sh)"
      using Some get by (simp add: verifyCommand_def a)
    show ?thesis
    proof (cases "d = 0")
      case True
      let ?k = "CreateProcess (butlast ?a) (cfunction c)"
      let ?pid = "ans (calls sh @ [?k])"
      obtain n s where s: "printf (lit ''Running in background '%s', pid: %d\<newline>'') [Str (w @ [0]), Num (word_of_int ?pid)] (io sh) = Some (n, s)"
        "uout s = uout (io sh) @ text_of ''Running in background '' @ [39] @ w @ [39] @ text_of '', pid: '' @
          signed_text None 10 (sint (low_half (word_of_int ?pid))) @ [10]" "uoutOpen s"
        using background_message [OF w(1) out, of "word_of_int ?pid"] w(2) by auto
      have "hd ?a = w @ [0]" by (simp add: a)
      moreover have "last ws = [38]" using True amp [OF d] by simp
      ultimately have "parse_one ans ws sh = Some (SUCCESS, ?a, sh\<lparr>io := s, calls := calls sh @ [?k]\<rparr>)"
        "ret = SUCCESS" "cs = [?k]" "uout s = uout (io sh) @ msg"
        using True ver d s spec Some ws by (auto simp: parse_one_def single_spec_def call_def Let_def)
      then show ?thesis using s(3) by blast
    next
      case False
      then have "last ws \<noteq> [38]" using amp [OF d] by simp
      then have "parse_one ans ws sh = Some (ret, ?a, sh\<lparr>calls := calls sh @ cs\<rparr>)" "msg = []"
        using False ver d spec Some ws by (auto simp: parse_one_def single_spec_def call_def Let_def)
      then show ?thesis using out by (intro exI [of _ "io sh"]) simp
    qed
  qed
qed

section \<open>An unterminated name\<close>

lemma uprintString_unterminated: "\<not> terminated t \<Longrightarrow> uprintString t s = None"
  by (induction t arbitrary: s) auto

lemma unterminated_printed: "\<not> terminated t \<Longrightarrow> printStringWithPadding t s = None"
  by (auto simp: printStringWithPadding_def printStringWithAlignedPadding_def printPadding_def
    uprintString_unterminated split: bind_splits)

lemma not_found_unterminated:
  assumes t: "\<not> terminated t" and u: "terminated u" and s: "uoutOpen s"
  shows "printf (lit ''%s: %s\<newline>'') [Str u, Str t] s = None"
proof -
  let ?f = "lit ''%s: %s\<newline>''" and ?s = "s\<lparr>paddingLen := 0\<rparr>"
  have f: "?f = [37, 115, 58, 32, 37, 115, 10, 0]" by (simp add: lit_def)
  have "steps_to ?f [Str u, Str t] 0 ?s [Str t] (0 + length (unparse (Conv None Text))) (cstr u)"
    by (rule conv_steps [where post = "[58, 32, 37, 115, 10, 0]"]) (use s u in \<open>simp_all add: f text_of_def padded_def\<close>)
  moreover have l: "0 + length (unparse (Conv None Text)) = 2" by (simp add: text_of_def)
  ultimately obtain n s1 where 1: "printf_loop ?f [Str u, Str t] 0 0 ?s = printf_loop ?f [Str t] 2 n s1"
    "uoutOpen s1" "paddingLen s1 = 0" unfolding steps_to_def l by blast
  have "printf_loop ?f [Str t] 2 n s1 = printf_loop ?f [Str t] 4 (n + 1 + 1) (wrote [32] (wrote [58] s1))"
    using loop_literal [of ?f 2 58 s1 "[Str t]" n] loop_literal [of ?f 3 32 "wrote [58] s1" "[Str t]" "n + 1"] 1(2,3)
    by (simp add: f byte_at_def)
  also have "\<dots> = None"
    using t 1(3) by (subst printf_loop.simps)
      (simp add: f byte_at_def printf_conv_def unterminated_printed ret_len_def)
  finally show ?thesis using 1(1) by (simp add: printf_def)
qed

lemma parse_two_unterminated:
  assumes "\<not> terminated w" "table_ok (commands sh)" "uoutOpen (io sh)"
  shows "parse_two ans ws (w # r) sh = None"
proof -
  have "terminated (CommandResultStrings ! nat COMMAND_NOT_FOUND)"
    by (simp add: CommandResultStrings_def COMMAND_NOT_FOUND_def lit_def)
  then have "verifyCommand (w # r) sh = None"
    using getCommand_unterminated [OF assms(1,2)] not_found_unterminated [OF assms(1) _ assms(3)]
    by (auto simp: verifyCommand_def getCommand_def)
  then show ?thesis by (simp add: parse_two_def)
qed

section \<open>Recalling a command\<close>

fun unwords :: "argv \<Rightarrow> byte list" where
  "unwords [] = []"
| "unwords [w] = cstr w"
| "unwords (w # v # r) = cstr w @ 32 # unwords (v # r)"

lemma put_n_eq: "uoutOpen (io sh) \<Longrightarrow> put_n n c sh = sh\<lparr>io := wrote (replicate n c) (io sh)\<rparr>"
proof (induction n arbitrary: sh)
  case (Suc n)
  then show ?case by (simp add: put_def uprintChar_open)
qed (cases sh, simp)

lemma historyCopy_loop_eq:
  "words_ok a \<Longrightarrow> uoutOpen (io sh) \<Longrightarrow> historyCopy_loop a sh =
     Some (sh\<lparr>currentCommand := currentCommand sh @ unwords a, io := wrote (unwords a) (io sh)\<rparr>)"
proof (induction a arbitrary: sh rule: unwords.induct)
  case 1
  then show ?case by (cases sh) simp
next
  case (2 w)
  then show ?case by (simp add: type_string_eq words_ok_def word_ok_simps)
next
  case (3 w v r)
  then have "words_ok (v # r)" "terminated w" by (simp_all add: words_ok_def word_ok_simps)
  then show ?case using 3 by (simp add: type_string_eq type_char_def put_def uprintChar_open)
qed

lemma historyPrev_eq:
  assumes r: "chb_rep words_ok id (commandHistory sh) q" and p: "chb_at (commandHistory sh) p" "0 < p"
    and out: "uoutOpen (io sh)"
  shows "\<exists>cb. historyPrev sh = Some (sh\<lparr>commandHistory := cb, currentCommand := unwords (q ! (p - 1)),
      io := wrote (replicate (length (currentCommand sh)) 8 @ unwords (q ! (p - 1))) (io sh)\<rparr>) \<and>
    chb_rep words_ok id cb q \<and> chb_at cb (p - 1)"
proof -
  obtain i cb where cb: "CHB_readPrev (commandHistory sh) = (Some i, cb)" "chb_rep words_ok id cb q"
    "chb_at cb (p - 1)" "cbArray cb = cbArray (commandHistory sh)"
    "uslot (cbArray (commandHistory sh)) i = Some (q ! (p - 1))"
    using prev_ok [OF r p] by blast
  have "p \<le> length q" using p(1) chb_sizes(1) [OF r] by (simp add: chb_at_def)
  then have "q ! (p - 1) \<in> set q" using p(2) by simp
  then have "words_ok (q ! (p - 1))" using r unfolding chb_rep_def by blast
  then have "historyPrev sh = Some (sh\<lparr>commandHistory := cb, currentCommand := unwords (q ! (p - 1)),
      io := wrote (replicate (length (currentCommand sh)) 8 @ unwords (q ! (p - 1))) (io sh)\<rparr>)"
    using cb(1,4,5) out by (simp add: historyPrev_def historyCopy_def clearLine_def put_n_eq historyCopy_loop_eq)
  with cb(2,3) show ?thesis by blast
qed

lemma word_part:
  "32 \<notin> set w \<Longrightarrow> takeWhile (\<lambda>x. x \<noteq> 32) (w @ 32 # cs) = w \<and> dropWhile (\<lambda>x. x \<noteq> 32) (w @ 32 # cs) = 32 # cs"
  "32 \<notin> set w \<Longrightarrow> takeWhile (\<lambda>x. x \<noteq> 32) w = w \<and> dropWhile (\<lambda>x. x \<noteq> 32) w = []"
  for w :: "byte list"
  by (induction w) auto

lemma words_of_append:
  "w \<noteq> [] \<Longrightarrow> 32 \<notin> set w \<Longrightarrow> words_of (w @ 32 # cs) = w # words_of cs"
  "w \<noteq> [] \<Longrightarrow> 32 \<notin> set w \<Longrightarrow> words_of w = [w]"
  by (cases w, simp, simp add: word_part)+

lemma words_of_no_blank: "w \<in> set (words_of cs) \<Longrightarrow> 32 \<notin> set w"
proof (induction cs rule: words_of.induct)
  case (2 c cs)
  then show ?case by (auto split: if_splits dest: set_takeWhileD)
qed simp

lemma words_of_unwords:
  "\<forall>w \<in> set ws. w \<noteq> [] \<and> 32 \<notin> set w \<and> 0 \<notin> set w \<Longrightarrow> words_of (unwords (setArgsNullTerminaor ws)) = ws"
proof (induction ws)
  case (Cons w ws)
  then show ?case
    by (cases ws) (auto simp: setArgsNullTerminaor_def cstr_append_zero words_of_append)
qed (simp add: setArgsNullTerminaor_def)

section \<open>Properties\<close>

text \<open>
  C31: the words of a line are its maximal runs of characters other than blanks, and a word \<open>!\<close> that
  another word follows splits them: \<open>parseCommand\<close> runs the words before and after it as two commands
  joined by a pipe (of several \<open>!\<close> the first and the last count).
\<close>

theorem line_words:
  "split_loop cc True ([], None) = pipe_split (words_of cc)"
  using split_loop_words(1) [of cc "[]"] by simp

lemma line_split: "split_loop cc True ([], None) = pipe_split (words_of cc)"
  using split_loop_words(1) [of cc "[]"] by simp

text \<open>
  C32: a line with one command: a name of the table starts a process with the words of the line,
  each with its terminator, and waits for it, or does not wait when the last word is \<open>&\<close>; any other
  name is reported. The return code is the one of the process, 0 or \<open>COMMAND_NOT_FOUND\<close>, and in every
  case the words become the newest entry of the history.
\<close>

theorem single_command_runs:
  assumes "chb_rep words_ok id (commandHistory sh) q" and "cbFreeEleFn (commandHistory sh) = Some f"
    and "pipe_split (words_of (currentCommand sh)) = (ws, None)" and "ws \<noteq> []" and "0 \<notin> set (currentCommand sh)"
    and "table_ok (commands sh)" and "uoutOpen (io sh)"
    and "free_all f (dropped id (unat (cbSize (commandHistory sh))) (setArgsNullTerminaor ws) q) (heap_of sh) = Some h'"
    and "single_spec ans (calls sh) ws (find_command (hd ws) (commands sh)) = (ret, cs, msg)"
  shows "\<exists>s cb. parseCommand M ans sh =
      Some (Ok ret, sh\<lparr>io := s, calls := calls sh @ cs, commandHistory := cb, heap_of := h'\<rparr>) \<and>
    uout s = uout (io sh) @ msg \<and>
    chb_rep words_ok id cb (used id (unat (cbSize (commandHistory sh))) (setArgsNullTerminaor ws) q) \<and>
    chb_at cb (length (used id (unat (cbSize (commandHistory sh))) (setArgsNullTerminaor ws) q))"
proof -
  have ws: "ws = words_of (currentCommand sh)" using assms(3) by (auto simp: pipe_split_def split: if_splits)
  then have ok: "\<forall>w \<in> set ws. 0 \<notin> set w" using words_of_props [OF assms(5)] by blast
  obtain s where s: "parse_one ans ws sh = Some (ret, setArgsNullTerminaor ws, sh\<lparr>io := s, calls := calls sh @ cs\<rparr>)"
    "uout s = uout (io sh) @ msg"
    using parse_one_eq [OF ok assms(4,6,7,9)] by blast
  obtain cb where cb: "CHB_moveToFrontOrPush M (commandHistory sh) (setArgsNullTerminaor ws) (heap_of sh) = Some (Ok cb, h')"
    "chb_rep words_ok id cb (used id (unat (cbSize (commandHistory sh))) (setArgsNullTerminaor ws) q)"
    "CHB_readRest cb = cb"
    using move_ok [OF assms(1) fin_words_ok [OF ok] assms(2) refl assms(8)] by blast
  have "parseCommand M ans sh =
      Some (Ok ret, sh\<lparr>io := s, calls := calls sh @ cs, commandHistory := cb, heap_of := h'\<rparr>)"
    using s(1) cb(1) assms(3,4) by (simp add: parseCommand_def line_split)
  then show ?thesis using s(2) cb(2) readRest_at [OF cb(2,3)] by blast
qed


text \<open>
  The tabulator completes the line to a command exactly when the line is a proper beginning of one
  command of the table and of no other, and then prints what was missing.
\<close>

theorem autocomplete_completes:
  assumes "table_ok (commands sh)" and "0 \<notin> set (currentCommand sh)" and "uoutOpen (io sh)"
  shows "autocomplete sh = Some (case completions (currentCommand sh) (commands sh) of
      [name] \<Rightarrow> sh\<lparr>currentCommand := name, io := wrote (drop (length (currentCommand sh)) name) (io sh)\<rparr>
    | _ \<Rightarrow> sh)"
  by (rule autocomplete_eq [OF assms])

text \<open>
  Going back in the history puts a line on the screen that has the same words as the line that
  was run, however many blanks there were between them, and moves the position one command back.
\<close>

theorem history_recalls_words:
  assumes "chb_rep words_ok id (commandHistory sh) q" and "chb_at (commandHistory sh) p" and "0 < p"
    and "q ! (p - 1) = setArgsNullTerminaor (words_of cc)" and "0 \<notin> set cc" and "uoutOpen (io sh)"
  shows "\<exists>cb line. historyPrev sh = Some (sh\<lparr>commandHistory := cb, currentCommand := line,
      io := wrote (replicate (length (currentCommand sh)) 8 @ line) (io sh)\<rparr>) \<and>
    words_of line = words_of cc \<and> chb_rep words_ok id cb q \<and> chb_at cb (p - 1)"
proof -
  have "words_of (unwords (q ! (p - 1))) = words_of cc"
    unfolding assms(4) by (rule words_of_unwords) (use words_of_props [OF assms(5)] words_of_no_blank in blast)
  then show ?thesis using historyPrev_eq [OF assms(1-3,6)] by blast
qed

section \<open>A shell at work\<close>

definition demo_history :: "(argv, nat) CHB" where
  "demo_history = \<lparr>cbSize = 2, cbReadIdx = 1, cbWriteIdx = 1, toReadBackwards = 1, cbElementSize = 8,
     cbFreeEleFn = Some (\<lambda>x h. Some (Suc h)),
     cbArray = \<lparr>uself = 8, uarray = 64, uelementSize = 8, ucapacity = 2, ulen = 1,
       ufreeEleFn = Some (\<lambda>x h. Some (Suc h)), ucmpEleFn = Some compareArgv,
       uslots = [Some [lit ''ps'', lit ''x''], None]\<rparr>, cbSelf = 128\<rparr>"

definition demo_shell :: "byte list \<Rightarrow> nat shell" where
  "demo_shell cc = \<lparr>io = fresh_uio [], currentCommand = cc, commandHistory = demo_history, commandReturnCode = 0,
     currentPromptLen = 3, commands = [\<lparr>cname = lit ''ps'', cdescription = lit ''-'', cfunction = ''commandPs''\<rparr>,
       \<lparr>cname = lit ''phylo'', cdescription = lit ''-'', cfunction = ''commandPhylo''\<rparr>],
     heap_of = 0, calls = []\<rparr>"

lemma demo_shell_facts:
  "chb_rep words_ok id (commandHistory (demo_shell cc)) [[lit ''ps'', lit ''x'']]"
  "chb_at (commandHistory (demo_shell cc)) 1" "table_ok (commands (demo_shell cc))" "uoutOpen (io (demo_shell cc))"
  "currentCommand (demo_shell cc) = cc" "unat (cbSize (commandHistory (demo_shell cc))) = 2"
  "cbFreeEleFn (commandHistory (demo_shell cc)) = Some (\<lambda>x h. Some (Suc h))"
proof -
  have "words_ok [lit ''ps'', lit ''x'']"
    by (auto simp: words_ok_def word_ok_def lit_def)
  then show "chb_rep words_ok id (commandHistory (demo_shell cc)) [[lit ''ps'', lit ''x'']]"
    unfolding chb_rep_def
    by (intro exI [of _ "[[lit ''ps'', lit ''x'']]"] exI [of _ 1] exI [of _ 2])
      (simp add: demo_shell_def demo_history_def uarr_rep_def compareArgv_compares)
  show "chb_at (commandHistory (demo_shell cc)) 1" "table_ok (commands (demo_shell cc))" "uoutOpen (io (demo_shell cc))"
    "currentCommand (demo_shell cc) = cc" "unat (cbSize (commandHistory (demo_shell cc))) = 2"
    "cbFreeEleFn (commandHistory (demo_shell cc)) = Some (\<lambda>x h. Some (Suc h))"
    by (simp_all add: demo_shell_def demo_history_def chb_at_def fresh_uio_def table_ok_def lit_def)
qed

definition demo_mm :: "nat mm" where
  "demo_mm = \<lparr>mm_malloc = (\<lambda>n h. Some (NULL, h)), mm_free = (\<lambda>p h. Some h), mm_init = (\<lambda>p st h. (NULL, 0, h))\<rparr>"

theorem single_command_runs_witness:
  "\<exists>s cb. parseCommand demo_mm (\<lambda>cs. int (length cs) + 40) (demo_shell (text_of ''  phylo '')) =
      Some (Ok 42, (demo_shell (text_of ''  phylo ''))\<lparr>io := s,
        calls := [CreateProcess [lit ''phylo''] ''commandPhylo'', WaitPid 41], commandHistory := cb, heap_of := 0\<rparr>) \<and>
    uout s = [] \<and> chb_rep words_ok id cb [[lit ''ps'', lit ''x''], [lit ''phylo'']] \<and> chb_at cb 2"
proof -
  let ?sh = "demo_shell (text_of ''  phylo '')" and ?ans = "\<lambda>cs. int (length cs) + 40" and ?ws = "[text_of ''phylo'']"
  have w: "pipe_split (words_of (currentCommand ?sh)) = (?ws, None)" "0 \<notin> set (currentCommand ?sh)"
    by (simp_all add: demo_shell_facts text_of_def pipe_split_def)
  have a: "setArgsNullTerminaor ?ws = [lit ''phylo'']" by (simp add: setArgsNullTerminaor_def lit_def text_of_def)
  have u: "used id 2 [lit ''phylo''] [[lit ''ps'', lit ''x'']] = [[lit ''ps'', lit ''x''], [lit ''phylo'']]"
    "dropped id 2 [lit ''phylo''] [[lit ''ps'', lit ''x'']] = []"
    by (simp_all add: used_def dropped_def)
  have c: "single_spec ?ans (calls ?sh) ?ws (find_command (hd ?ws) (commands ?sh)) =
      (42, [CreateProcess [lit ''phylo''] ''commandPhylo'', WaitPid 41], [])"
    unfolding single_spec_def a
    by (simp add: demo_shell_def find_command_def lit_def text_of_def Let_def)
  have f: "free_all (\<lambda>x h. Some (Suc h)) (dropped id (unat (cbSize (commandHistory ?sh))) (setArgsNullTerminaor ?ws) [[lit ''ps'', lit ''x'']]) (heap_of ?sh) = Some 0"
    unfolding a demo_shell_facts(6) u by (simp add: demo_shell_def)
  have e: "calls ?sh = []" "uout (io ?sh) = []" by (simp_all add: demo_shell_def fresh_uio_def)
  from single_command_runs [OF demo_shell_facts(1,7) w(1) _ w(2) demo_shell_facts(3,4) f c, of demo_mm]
  show ?thesis unfolding a demo_shell_facts(6) u e by (simp add: numeral_2_eq_2)
qed


theorem autocomplete_completes_witness:
  "autocomplete (demo_shell (text_of ''ph'')) =
     Some ((demo_shell (text_of ''ph''))\<lparr>currentCommand := text_of ''phylo'', io := wrote (text_of ''ylo'') (fresh_uio [])\<rparr>) \<and>
   autocomplete (demo_shell (text_of ''p'')) = Some (demo_shell (text_of ''p''))"
proof -
  have z: "0 \<notin> set (currentCommand (demo_shell (text_of ''ph'')))" "0 \<notin> set (currentCommand (demo_shell (text_of ''p'')))"
    by (simp_all add: demo_shell_facts text_of_def)
  have c: "completions (currentCommand (demo_shell (text_of ''ph''))) (commands (demo_shell (text_of ''ph''))) = [text_of ''phylo'']"
    "completions (currentCommand (demo_shell (text_of ''p''))) (commands (demo_shell (text_of ''p''))) = [text_of ''ps'', text_of ''phylo'']"
    by (simp_all add: demo_shell_def completions_def text_of_def lit_def strict_prefix_def)
  have i: "io (demo_shell (text_of ''ph'')) = fresh_uio []" "length (currentCommand (demo_shell (text_of ''ph''))) = 2"
    by (simp_all add: demo_shell_def text_of_def)
  show ?thesis
    unfolding autocomplete_completes [OF demo_shell_facts(3) z(1) demo_shell_facts(4)]
      autocomplete_completes [OF demo_shell_facts(3) z(2) demo_shell_facts(4)] c i
    by (simp add: text_of_def)
qed

theorem history_recalls_words_witness:
  "\<exists>cb line. historyPrev (demo_shell [65]) = Some ((demo_shell [65])\<lparr>commandHistory := cb, currentCommand := line,
      io := wrote (replicate (length (currentCommand (demo_shell [65]))) 8 @ line) (io (demo_shell [65]))\<rparr>) \<and>
    words_of line = words_of (text_of '' ps   x'') \<and> chb_rep words_ok id cb [[lit ''ps'', lit ''x'']] \<and> chb_at cb 0"
proof -
  have w: "[[lit ''ps'', lit ''x'']] ! (1 - 1) = setArgsNullTerminaor (words_of (text_of '' ps   x''))"
    "0 \<notin> set (text_of '' ps   x'')"
    by (simp_all add: text_of_def lit_def setArgsNullTerminaor_def)
  show ?thesis
    using history_recalls_words [OF demo_shell_facts(1,2) _ w demo_shell_facts(4)] by simp
qed

end
