(* ===== verification/UCommands.thy ===== *)
theory UCommands
  imports UShell
begin

text \<open>
  The commands of the shell (\<open>Userland/UserModule/c2/shellCommands.c\<close>). A command is a process in the
  memory of the shell, so it runs on the shell's state with its own input and output in \<open>io\<close>; its
  result is the code that it gives to \<open>sysExit\<close>. A command that never ends has no result.
\<close>

type_synonym 'h process = "'h shell \<Rightarrow> (int \<times> 'h shell) option"

definition TOO_MANY_ARGUMENTS :: int where "TOO_MANY_ARGUMENTS = 1"
definition MISSING_ARGUMENTS :: int where "MISSING_ARGUMENTS = 4"
definition ILLEGAL_ARGUMENT :: int where "ILLEGAL_ARGUMENT = 5"
definition OUT_OF_BOUNDS :: int where "OUT_OF_BOUNDS = 6"
definition PROCESS_FAILURE :: int where "PROCESS_FAILURE = 7"

definition sysExit :: "int \<Rightarrow> 'h process" where "sysExit n sh = Some (n, sh)"

text \<open>\<open>printf\<close> and the printing of a string on the output of the process.\<close>

definition pf :: "byte list \<Rightarrow> varg list \<Rightarrow> 'h shell \<Rightarrow> 'h shell option" where
  "pf fmt args sh = do { (_, s) \<leftarrow> printf fmt args (io sh); Some (sh\<lparr>io := s\<rparr>) }"

definition on_io :: "(uio \<Rightarrow> uio option) \<Rightarrow> 'h shell \<Rightarrow> 'h shell option" where
  "on_io f sh = do { s \<leftarrow> f (io sh); Some (sh\<lparr>io := s\<rparr>) }"

definition arg_at :: "argv \<Rightarrow> nat \<Rightarrow> byte list option" where
  "arg_at argv i = (if i < length argv then Some (argv ! i) else None)"

definition i32 :: "int \<Rightarrow> varg" where "i32 n = Num (word_of_int n)"

definition int_arg :: "argv \<Rightarrow> nat \<Rightarrow> int option" where
  "int_arg argv i = do { a \<leftarrow> arg_at argv i; n \<leftarrow> strToInt a; Some (sint n) }"

section \<open>Printing\<close>

fun echo_loop :: "argv \<Rightarrow> 'h shell \<Rightarrow> 'h shell option" where
  "echo_loop [] sh = Some sh"
| "echo_loop (a # as) sh = do { sh1 \<leftarrow> pf (lit ''%s '') [Str a] sh; echo_loop as sh1 }"

definition commandEcho :: "argv \<Rightarrow> 'h process" where
  "commandEcho argv sh = do { sh1 \<leftarrow> echo_loop (tl argv) sh; sysExit SUCCESS (put 10 sh1) }"

text \<open>The code is an index into the table of names: the codes of other processes are outside of it.\<close>

definition commandGetReturnCode :: "'h process" where
  "commandGetReturnCode sh = do {
     let rc = commandReturnCode sh;
     name \<leftarrow> (if 0 \<le> rc \<and> nat rc < length CommandResultStrings then Some (CommandResultStrings ! nat rc) else None);
     sh1 \<leftarrow> pf (lit ''%s - Code: %d\<newline>'') [Str name, i32 rc] sh;
     sysExit SUCCESS sh1 }"

text \<open>\<open>time\<close> is the string that \<open>sysGetCurrentTime\<close> fills in.\<close>

definition commandRealTime :: "byte list \<Rightarrow> 'h process" where
  "commandRealTime time sh = do { sh1 \<leftarrow> pf (lit ''%s\<newline>'') [Str time] sh; sysExit SUCCESS sh1 }"

definition COMMANDS_PER_PAGE :: int where "COMMANDS_PER_PAGE = 10"

text \<open>\<open>Array_get(commands, i)\<close>: a negative index counts from the end, and \<open>NULL\<close> is then dereferenced.\<close>

definition command_at :: "'h shell \<Rightarrow> int \<Rightarrow> command option" where
  "command_at sh i =
     (let n = int (length (commands sh)); j = (if i < 0 then i + n else i)
      in if 0 \<le> j \<and> j < n then Some (commands sh ! nat j) else None)"

fun help_loop :: "int \<Rightarrow> nat \<Rightarrow> 'h shell \<Rightarrow> 'h shell option" where
  "help_loop i 0 sh = Some sh"
| "help_loop i (Suc n) sh = do {
     c \<leftarrow> command_at sh i;
     sh1 \<leftarrow> pf (9 # lit ''- %s: %s\<newline>'') [Str (cname c), Str (cdescription c)] sh;
     help_loop (i + 1) n sh1 }"

definition commandHelp :: "argv \<Rightarrow> 'h process" where
  "commandHelp argv sh = do {
     let commandCount = int (length (commands sh));
     let nbrPages = (commandCount + COMMANDS_PER_PAGE - 1) div COMMANDS_PER_PAGE;
     page \<leftarrow> (if length argv > 1 then int_arg argv 1 else Some 1);
     if page > nbrPages
     then do { sh1 \<leftarrow> on_io (\<lambda>s. map_option snd (uprintString (lit ''No such page\<newline>'') s)) sh; sysExit ILLEGAL_ARGUMENT sh1 }
     else do {
       sh1 \<leftarrow> pf (lit ''Available commands (Page %d/%d)\<newline>'') [i32 page, i32 nbrPages] sh;
       let startIdx = (page - 1) * COMMANDS_PER_PAGE;
       let endIdx = min commandCount (startIdx + COMMANDS_PER_PAGE);
       sh2 \<leftarrow> help_loop startIdx (nat (endIdx - startIdx)) sh1;
       sh3 \<leftarrow> pf (lit ''Switch between pages with `help [pageNr]`\<newline>'') [] sh2;
       sysExit SUCCESS sh3 } }"

text \<open>\<open>systemInfo\<close> is the list of the fields of the structure, in their order.\<close>

definition system_info_fields :: "string list" where
  "system_info_fields = [''screenWidth'', ''screenHeight'', ''charWidth'', ''charHeight'', ''layout'', ''fontSize'',
     ''charSeparation'', ''fontCols'', ''fontRows'']"

fun info_loop :: "(string \<times> int) list \<Rightarrow> 'h shell \<Rightarrow> 'h shell option" where
  "info_loop [] sh = Some sh"
| "info_loop ((n, v) # r) sh = do { sh1 \<leftarrow> pf (lit (n @ '': %d\<newline>'')) [i32 v] sh; info_loop r sh1 }"

definition commandSysInfo :: "int list \<Rightarrow> 'h process" where
  "commandSysInfo systemInfo sh = do { sh1 \<leftarrow> info_loop (zip system_info_fields systemInfo) sh; sysExit SUCCESS sh1 }"

section \<open>Numbers\<close>

fun rand_loop :: "nat \<Rightarrow> u32 \<Rightarrow> u32 \<Rightarrow> 'h shell \<Rightarrow> 'h shell option" where
  "rand_loop 0 mn mx sh = Some sh"
| "rand_loop (Suc count) mn mx sh = do {
     (r, s) \<leftarrow> randBetween mn mx (io sh);
     sh1 \<leftarrow> pf (lit ''%u%s'') [Num (ucast r), Str (if count = 0 then [0] else lit '', '')] (sh\<lparr>io := s\<rparr>);
     rand_loop count mn mx sh1 }"

text \<open>
  \<open>initialized\<close> is the static variable \<open>randInitialized\<close>. A negative count wraps around: \<open>count--\<close> then
  counts \<open>2^32\<close> minus its absolute value numbers.
\<close>

definition commandRand :: "kernel_answers \<Rightarrow> bool \<Rightarrow> argv \<Rightarrow> 'h process" where
  "commandRand ans initialized argv sh = do {
     let sh0 = (if initialized then sh
                else let (t, sh') = call ans GetTicks sh in sh'\<lparr>io := setSrand (word_of_int t) (io sh')\<rparr>);
     if length argv < 3
     then do {
       a \<leftarrow> arg_at argv 0;
       sh1 \<leftarrow> on_io (puts (lit ''Usage:'')) sh0;
       sh2 \<leftarrow> pf (9 # 9 # lit ''%s <min> <max> [count]\<newline>'') [Str a] sh1;
       sh3 \<leftarrow> pf (lit ''Where all arguments are integers and count is optional.\<newline>'') [] sh2;
       sysExit MISSING_ARGUMENTS sh3 }
     else do {
       mn \<leftarrow> int_arg argv 1;
       mx \<leftarrow> int_arg argv 2;
       if mx < mn
       then do {
         sh1 \<leftarrow> pf (lit ''Error: min (%d) can't be greater than max (%d)\<newline>'') [i32 mn, i32 mx] sh0;
         sysExit ILLEGAL_ARGUMENT sh1 }
       else do {
         count \<leftarrow> (if length argv > 3 then int_arg argv 3 else Some 1);
         sh1 \<leftarrow> rand_loop (unat (word_of_int count :: u32)) (word_of_int mn) (word_of_int mx) sh0;
         sh2 \<leftarrow> pf (lit ''\<newline>'') [] sh1;
         sysExit SUCCESS sh2 } } }"

section \<open>Keyboard layout and colours\<close>

definition LayoutStrings :: "byte list list" where
  "LayoutStrings = map lit [''QWERTY LATAM'', ''QWERTY US'']"

text \<open>\<open>layout\<close> is the one of the system information.\<close>

definition commandLayout :: "kernel_answers \<Rightarrow> int \<Rightarrow> argv \<Rightarrow> 'h process" where
  "commandLayout ans layout argv sh =
     (if length argv = 1
      then do {
        name \<leftarrow> (if 0 \<le> layout \<and> nat layout < length LayoutStrings then Some (LayoutStrings ! nat layout) else None);
        sh1 \<leftarrow> pf (lit ''Current layout: %s - %d\<newline>'') [Str name, i32 layout] sh;
        sysExit SUCCESS sh1 }
      else do {
        a0 \<leftarrow> arg_at argv 0;
        a1 \<leftarrow> arg_at argv 1;
        help \<leftarrow> strcmp a1 (lit ''--help'');
        list \<leftarrow> strcmp a1 (lit ''--list'');
        if help = 0
        then do {
          sh1 \<leftarrow> pf (lit ''Usage\<newline>'') [] sh;
          sh2 \<leftarrow> pf (9 # 9 # lit ''%s [option] [layout]\<newline>'') [Str a0] sh1;
          sh3 \<leftarrow> pf (lit ''Options:\<newline>'') [] sh2;
          sh4 \<leftarrow> pf (9 # 9 # lit ''--help    print this help message.\<newline>'') [] sh3;
          sh5 \<leftarrow> pf (9 # 9 # lit ''--list    list all available layouts.\<newline>'') [] sh4;
          sh6 \<leftarrow> pf (lit ''If `layout` is not included then get current layout. If `layout` included then set system layout.\<newline>'') [] sh5;
          sh7 \<leftarrow> pf (lit ''`layout` should be a valid code. To see valid values for the`layout` argument use the --list option\<newline>'') [] sh6;
          sysExit SUCCESS sh7 }
        else if list = 0
        then do {
          sh1 \<leftarrow> pf (lit ''- %s: %d\<newline>'') [Str (LayoutStrings ! 0), i32 0] sh;
          sh2 \<leftarrow> pf (lit ''- %s: %d\<newline>'') [Str (LayoutStrings ! 1), i32 1] sh1;
          sysExit SUCCESS sh2 }
        else do {
          code \<leftarrow> int_arg argv 1;
          if code \<noteq> 0 \<and> code \<noteq> 1
          then do { sh1 \<leftarrow> pf (lit ''Layout not available: %s\<newline>'') [Str a1] sh; sysExit ILLEGAL_ARGUMENT sh1 }
          else do {
            sh1 \<leftarrow> pf (lit ''Layout set to %s\<newline>'') [Str (LayoutStrings ! nat code)] (snd (call ans (SetLayout code) sh));
            sysExit SUCCESS sh1 } } })"

definition commandSetColors :: "kernel_answers \<Rightarrow> argv \<Rightarrow> 'h process" where
  "commandSetColors ans argv sh =
     (if length argv < 4
      then do {
        a0 \<leftarrow> arg_at argv 0;
        sh1 \<leftarrow> on_io (puts (lit ''Usage:'')) sh;
        sh2 \<leftarrow> pf (9 # 9 # lit ''%s <fontColor> <backgroundColor> <cursorColor>\<newline>'') [Str a0] sh1;
        sh3 \<leftarrow> pf (lit ''Where all arguments should be numeric representations of rgb colors (can use '0x' prefix for hexa).\<newline>'') [] sh2;
        sysExit MISSING_ARGUMENTS sh3 }
      else do {
        fontColor \<leftarrow> do { a \<leftarrow> arg_at argv 1; strToInt a };
        bgColor \<leftarrow> do { a \<leftarrow> arg_at argv 2; strToInt a };
        cursorColor \<leftarrow> do { a \<leftarrow> arg_at argv 3; strToInt a };
        sh1 \<leftarrow> clearScreenKeepCommand ans (setShellColors ans fontColor bgColor cursorColor sh);
        sysExit SUCCESS sh1 })"

section \<open>Registers, processes and memory\<close>

text \<open>\<open>registers\<close> are the names and values that \<open>sysGetRegisters\<close> fills in; \<open>i\<close> counts them.\<close>

fun registers_loop :: "nat \<Rightarrow> (byte list \<times> u64) list \<Rightarrow> 'h shell \<Rightarrow> 'h shell option" where
  "registers_loop i [] sh = Some sh"
| "registers_loop i ((n, v) # rs) sh = do {
     sh1 \<leftarrow> pf (lit ''%s %016lx '') [Str n, Num v] sh;
     sh2 \<leftarrow> (if i mod 3 = 0 then pf (lit ''\<newline>'') [] sh1 else Some sh1);
     registers_loop (Suc i) rs sh2 }"

definition commandGetRegisters :: "(byte list \<times> u64) list \<Rightarrow> argv \<Rightarrow> 'h process" where
  "commandGetRegisters registers argv sh = do {
     help \<leftarrow> (if length argv \<ge> 2 then strcmp (argv ! 1) (lit ''--help'') else Some 1);
     if help = 0
     then do {
       a0 \<leftarrow> arg_at argv 0;
       sh1 \<leftarrow> on_io (puts (lit ''Usage:'')) sh;
       sh2 \<leftarrow> pf (9 # 9 # lit ''%s\<newline>'') [Str a0] sh1;
       sh3 \<leftarrow> pf (lit ''You can save the values of the registers at any time by pressing F1 and by running this command without this flag it will print the saved values of the registers.\<newline>'') [] sh2;
       sysExit SUCCESS sh3 }
     else do {
       sh1 \<leftarrow> registers_loop 0 registers sh;
       sh2 \<leftarrow> pf (lit ''\<newline>'') [] sh1;
       sh3 \<leftarrow> pf (lit ''For more info add --help to the command\<newline>'') [] sh2;
       sysExit SUCCESS sh3 } }"

text \<open>What \<open>sysPCBList\<close> returns of a process.\<close>

record pcb_row =
  row_pid :: int
  row_name :: "byte list"
  row_state :: "byte list"
  row_location :: "byte list"
  row_rsp :: u64
  row_rbp :: u64
  row_priority :: int

fun rows_loop :: "pcb_row list \<Rightarrow> 'h shell \<Rightarrow> 'h shell option" where
  "rows_loop [] sh = Some sh"
| "rows_loop (p # ps) sh = do {
     sh1 \<leftarrow> pf (lit ''%3u, %-14s, %-9s, %-5s, %p, %p, %8d\<newline>'')
       [i32 (row_pid p), Str (row_name p), Str (row_state p), Str (row_location p), Num (row_rsp p), Num (row_rbp p),
        i32 (row_priority p)] sh;
     rows_loop ps sh1 }"

text \<open>\<open>list\<close> is the address of the list of processes.\<close>

definition printPCBList :: "kernel_answers \<Rightarrow> int \<Rightarrow> pcb_row list \<Rightarrow> 'h shell \<Rightarrow> 'h shell option" where
  "printPCBList ans list rows sh = do {
     sh1 \<leftarrow> pf (lit ''%3s, %-14s, %-9s, %-5s, %10s, %10s, %8s\<newline>'')
       (map (Str \<circ> lit) [''PID'', ''Name'', ''State'', ''Fg/Bg'', ''rsp'', ''rbp'', ''Priority'']) sh;
     sh2 \<leftarrow> rows_loop rows sh1;
     Some (snd (call ans (Free list) sh2)) }"

definition commandPs :: "kernel_answers \<Rightarrow> pcb_row list \<Rightarrow> 'h process" where
  "commandPs ans rows sh = do {
     let (list, sh1) = call ans PCBList sh;
     sh2 \<leftarrow> printPCBList ans list rows sh1;
     sysExit SUCCESS (snd (call ans (Free list) sh2)) }"

fun kill_loop :: "kernel_answers \<Rightarrow> argv \<Rightarrow> 'h process" where
  "kill_loop ans [] sh = sysExit SUCCESS sh"
| "kill_loop ans (a # as) sh = do {
     n \<leftarrow> strToInt a;
     let pid = sint n;
     if pid = 0
     then do {
       zero \<leftarrow> strcmp a (lit ''0'');
       sh1 \<leftarrow> (if zero = 0 then pf (lit ''https://youtu.be/31g0YE61PLQ?si=G3tv2y_iw8InNCec\<newline>'') [] sh
              else pf (lit ''Invalid pid: %s\<newline>'') [Str a] sh);
       sysExit ILLEGAL_ARGUMENT sh1 }
     else do {
       let (ok, sh1) = call ans (Kill pid) sh;
       if ok = 0
       then do {
         sh2 \<leftarrow> pf (lit ''Process with pid %d not found or has already exited\<newline>'') [i32 pid] sh1;
         sysExit OUT_OF_BOUNDS sh2 }
       else kill_loop ans as sh1 } }"

definition commandKill :: "kernel_answers \<Rightarrow> argv \<Rightarrow> 'h process" where
  "commandKill ans argv sh =
     (if length argv < 2
      then do { sh1 \<leftarrow> pf (lit ''Usage: kill <pid_1> [pid_2] ... [pid_n]\<newline>'') [] sh; sysExit ILLEGAL_ARGUMENT sh1 }
      else kill_loop ans (tl argv) sh)"

text \<open>\<open>memState pid\<close> is the report of the kernel on a process, or on all memory without a pid.\<close>

definition commandGetMemoryState :: "(int option \<Rightarrow> byte list option) \<Rightarrow> argv \<Rightarrow> 'h process" where
  "commandGetMemoryState memState argv sh = do {
     m \<leftarrow> (if length argv > 1 then do { pid \<leftarrow> int_arg argv 1; Some (memState (Some pid)) } else Some (memState None));
     case m of
       None \<Rightarrow> do {
         sh1 \<leftarrow> pf (lit ''Either no process found for given pid or all the memory for current process is being used and memory for satate message cannot be allocated.\<newline>'') [] sh;
         sysExit ILLEGAL_ARGUMENT sh1 }
     | Some t \<Rightarrow> do { sh1 \<leftarrow> pf (lit ''%s\<newline>'') [Str t] sh; sysExit SUCCESS sh1 } }"

text \<open>The loop does not end.\<close>

partial_function (option) loop_forever :: "kernel_answers \<Rightarrow> int \<Rightarrow> 'h shell \<Rightarrow> 'h shell option" where
  [code]: "loop_forever ans secs sh = do {
     let sh1 = snd (call ans (Sleep (secs * 1000)) sh);
     let (pid, sh2) = call ans GetPid sh1;
     sh3 \<leftarrow> pf (lit ''Hola! Soy el proceso: %u\<newline>'') [i32 pid] sh2;
     loop_forever ans secs sh3 }"

definition commandLoop :: "kernel_answers \<Rightarrow> argv \<Rightarrow> 'h process" where
  "commandLoop ans argv sh =
     (if length argv < 2
      then do {
        a0 \<leftarrow> arg_at argv 0;
        sh1 \<leftarrow> on_io (puts (lit ''Usage:'')) sh;
        sh2 \<leftarrow> pf (9 # 9 # lit ''%s <secs>\<newline>'') [Str a0] sh1;
        sysExit MISSING_ARGUMENTS sh2 }
      else do {
        secs \<leftarrow> int_arg argv 1;
        sh1 \<leftarrow> pf (lit ''secs: %d\<newline>'') [i32 secs] sh;
        sh2 \<leftarrow> (if secs > 0 then loop_forever ans secs sh1 else Some sh1);
        sysExit PROCESS_FAILURE sh2 })"

definition commandNice :: "kernel_answers \<Rightarrow> argv \<Rightarrow> 'h process" where
  "commandNice ans argv sh =
     (let usage = (\<lambda>code. do {
        a0 \<leftarrow> arg_at argv 0;
        sh1 \<leftarrow> on_io (puts (lit ''Usage:'')) sh;
        sh2 \<leftarrow> pf (9 # 9 # lit ''%s <pid> <priority between 1-9>\<newline>'') [Str a0] sh1;
        sysExit code sh2 })
      in if length argv < 3 then usage MISSING_ARGUMENTS
         else do {
           newPriority \<leftarrow> int_arg argv 2;
           if newPriority \<le> 0 \<or> newPriority \<ge> 10 then usage ILLEGAL_ARGUMENT
           else do {
             pid \<leftarrow> int_arg argv 1;
             sysExit SUCCESS (snd (call ans (ChangePriority pid newPriority) sh)) } })"

definition commandBlock :: "kernel_answers \<Rightarrow> argv \<Rightarrow> 'h process" where
  "commandBlock ans argv sh =
     (if length argv < 2
      then do { sh1 \<leftarrow> pf (lit ''Usage: block <pid>\<newline>'') [] sh; sysExit ILLEGAL_ARGUMENT sh1 }
      else do {
        pid \<leftarrow> int_arg argv 1;
        let (ok, sh1) = call ans (BlockByUser pid) sh;
        if ok = 0
        then do { sh2 \<leftarrow> pf (lit ''Process %d not found or already blocked or exited\<newline>'') [i32 pid] sh1; sysExit ILLEGAL_ARGUMENT sh2 }
        else sysExit SUCCESS sh1 })"

definition commandUnBlock :: "kernel_answers \<Rightarrow> argv \<Rightarrow> 'h process" where
  "commandUnBlock ans argv sh =
     (if length argv < 2
      then do { sh1 \<leftarrow> pf (lit ''Usage: unblock <pid>\<newline>'') [] sh; sysExit ILLEGAL_ARGUMENT sh1 }
      else do {
        pid \<leftarrow> int_arg argv 1;
        if pid = 0
        then do { sh1 \<leftarrow> pf (lit ''https://youtu.be/31g0YE61PLQ?si=G3tv2y_iw8InNCec\<newline>'') [] sh; sysExit ILLEGAL_ARGUMENT sh1 }
        else sysExit SUCCESS (snd (call ans (Unblock pid) sh)) })"

section \<open>Filters\<close>

partial_function (option) cat_loop :: "'h process" where
  [code]: "cat_loop sh = do {
     (c, s) \<leftarrow> getChar (io sh);
     if c = EOF_char then sysExit SUCCESS (sh\<lparr>io := s\<rparr>)
     else do {
       let (n, s1) = uprintChar c s;
       if n < 0 then sysExit PROCESS_FAILURE (sh\<lparr>io := s1\<rparr>) else cat_loop (sh\<lparr>io := s1\<rparr>) } }"

definition commandCat :: "'h process" where "commandCat = cat_loop"

text \<open>The counters and flags of \<open>commandWordCount\<close>: \<open>words\<close>, \<open>lines\<close>, \<open>inWord\<close> and \<open>lastReadNewLine\<close>.\<close>

type_synonym wc = "int \<times> int \<times> bool \<times> bool"

definition wc_char :: "byte \<Rightarrow> wc \<Rightarrow> wc" where
  "wc_char c w =
     (let (words, lines, inWord, _) = w
      in if c = 32 \<or> c = 10
         then (if inWord then words + 1 else words, if c = 10 then lines + 1 else lines, False, c = 10)
         else (words, lines, True, False))"

text \<open>\<open>None\<close> inside is the failure to print.\<close>

partial_function (option) wc_loop :: "wc \<Rightarrow> 'h shell \<Rightarrow> (wc option \<times> 'h shell) option" where
  [code]: "wc_loop w sh = do {
     (c, s) \<leftarrow> getChar (io sh);
     if c = EOF_char then Some (Some w, sh\<lparr>io := s\<rparr>)
     else do {
       let (n, s1) = uprintChar c s;
       if n < 0 then Some (None, sh\<lparr>io := s1\<rparr>) else wc_loop (wc_char c w) (sh\<lparr>io := s1\<rparr>) } }"

definition commandWordCount :: "'h process" where
  "commandWordCount sh = do {
     (w, sh1) \<leftarrow> wc_loop (0, 0, False, False) sh;
     case w of
       None \<Rightarrow> sysExit PROCESS_FAILURE sh1
     | Some (words, lines, inWord, lastReadNewLine) \<Rightarrow> do {
         sh2 \<leftarrow> pf (lit ''\<newline>Word count: %d\<newline>'') [i32 (if inWord then words + 1 else words)] sh1;
         sh3 \<leftarrow> pf (lit ''Line count: %d\<newline>'') [i32 (if lastReadNewLine then lines else lines + 1)] sh2;
         sysExit SUCCESS sh3 } }"

definition charIsAVocal :: "byte \<Rightarrow> bool" where
  "charIsAVocal c \<longleftrightarrow> c \<in> set (text_of ''aAeEiIoOuU'')"

partial_function (option) filter_loop :: "'h shell \<Rightarrow> 'h shell option" where
  [code]: "filter_loop sh = do {
     (c, s) \<leftarrow> getChar (io sh);
     if c = EOF_char then Some (sh\<lparr>io := s\<rparr>)
     else if charIsAVocal c then filter_loop (sh\<lparr>io := s\<rparr>)
     else do { sh1 \<leftarrow> pf (lit ''%c'') [Num (scast c)] (sh\<lparr>io := s\<rparr>); filter_loop sh1 } }"

definition commandFilterVocals :: "'h process" where
  "commandFilterVocals sh = do { sh1 \<leftarrow> filter_loop sh; sh2 \<leftarrow> pf (lit ''\<newline>'') [] sh1; sysExit SUCCESS sh2 }"

end
