(* ===== verification/CommandProps.thy ===== *)
theory CommandProps
  imports UCommands UPrintf ShellProps
begin

text \<open>
  Properties of the commands: what the filters write and count for every input.
\<close>

section \<open>Reading until the end mark\<close>

lemma getChar_next: "uinOpen s \<Longrightarrow> uin s = c # r \<Longrightarrow> getChar s = Some (c, s\<lparr>uin := r\<rparr>)"
  by (simp add: getChar_def sysRead1_def)

lemma wrote_uin [simp]: "uin (wrote t s) = uin s" "uinOpen (wrote t s) = uinOpen s"
  "wrote t (s\<lparr>uin := r\<rparr>) = (wrote t s)\<lparr>uin := r\<rparr>"
  by (simp_all add: wrote_def)

definition streams_open :: "uio \<Rightarrow> bool" where
  "streams_open s \<longleftrightarrow> uinOpen s \<and> uoutOpen s"

lemma wc_loop_eq:
  "EOF_char \<notin> set cs \<Longrightarrow> streams_open (io sh) \<Longrightarrow> uin (io sh) = cs @ EOF_char # r \<Longrightarrow>
     wc_loop w sh = Some (Some (fold wc_char cs w), sh\<lparr>io := (wrote cs (io sh))\<lparr>uin := r\<rparr>\<rparr>)"
proof (induction cs arbitrary: w sh)
  case Nil
  then show ?case by (subst wc_loop.simps) (simp add: getChar_next streams_open_def)
next
  case (Cons c cs)
  let ?sh = "sh\<lparr>io := wrote [c] ((io sh)\<lparr>uin := cs @ EOF_char # r\<rparr>)\<rparr>"
  have "wc_loop (wc_char c w) ?sh =
      Some (Some (fold wc_char cs (wc_char c w)), ?sh\<lparr>io := (wrote cs (io ?sh))\<lparr>uin := r\<rparr>\<rparr>)"
    by (rule Cons.IH) (use Cons.prems in \<open>auto simp: streams_open_def\<close>)
  moreover have "c \<noteq> EOF_char" using Cons.prems(1) by auto
  ultimately show ?case using Cons.prems
    by (subst wc_loop.simps) (simp add: getChar_next streams_open_def uprintChar_open)
qed

lemma cat_loop_eq:
  "EOF_char \<notin> set cs \<Longrightarrow> streams_open (io sh) \<Longrightarrow> uin (io sh) = cs @ EOF_char # r \<Longrightarrow>
     cat_loop sh = Some (SUCCESS, sh\<lparr>io := (wrote cs (io sh))\<lparr>uin := r\<rparr>\<rparr>)"
proof (induction cs arbitrary: sh)
  case Nil
  then show ?case by (subst cat_loop.simps) (simp add: getChar_next streams_open_def sysExit_def)
next
  case (Cons c cs)
  let ?sh = "sh\<lparr>io := wrote [c] ((io sh)\<lparr>uin := cs @ EOF_char # r\<rparr>)\<rparr>"
  have "cat_loop ?sh = Some (SUCCESS, ?sh\<lparr>io := (wrote cs (io ?sh))\<lparr>uin := r\<rparr>\<rparr>)"
    by (rule Cons.IH) (use Cons.prems in \<open>auto simp: streams_open_def\<close>)
  moreover have "c \<noteq> EOF_char" using Cons.prems(1) by auto
  ultimately show ?case using Cons.prems
    by (subst cat_loop.simps) (simp add: getChar_next streams_open_def uprintChar_open)
qed

section \<open>Counting\<close>

definition blank :: "byte \<Rightarrow> bool" where "blank c \<longleftrightarrow> c = 32 \<or> c = 10"

text \<open>The reference: the words are counted by their first characters.\<close>

definition word_starts :: "byte list \<Rightarrow> nat list" where
  "word_starts cs = filter (\<lambda>i. \<not> blank (cs ! i) \<and> (i = 0 \<or> blank (cs ! (i - 1)))) [0..<length cs]"

definition line_count :: "byte list \<Rightarrow> nat" where
  "line_count cs = count_list cs 10 + (if cs \<noteq> [] \<and> last cs = 10 then 0 else 1)"

lemma word_starts_snoc: "length (word_starts (cs @ [c])) =
    length (word_starts cs) + (if \<not> blank c \<and> (cs = [] \<or> blank (last cs)) then 1 else 0)"
proof -
  have "filter (\<lambda>i. \<not> blank ((cs @ [c]) ! i) \<and> (i = 0 \<or> blank ((cs @ [c]) ! (i - 1)))) [0..<length cs] = word_starts cs"
    unfolding word_starts_def by (rule filter_cong) (auto simp: nth_append)
  moreover have "cs \<noteq> [] \<Longrightarrow> (cs @ [c]) ! (length cs - 1) = last cs" by (simp add: nth_append last_conv_nth)
  ultimately show ?thesis by (cases "cs = []") (auto simp: word_starts_def)
qed

lemma wc_fold:
  "\<exists>n. fold wc_char cs (0, 0, False, False) =
     (n, int (count_list cs 10), cs \<noteq> [] \<and> \<not> blank (last cs), cs \<noteq> [] \<and> last cs = 10) \<and>
   n + (if cs \<noteq> [] \<and> \<not> blank (last cs) then 1 else 0) = int (length (word_starts cs))"
proof (induction cs rule: rev_induct)
  case Nil
  then show ?case by (simp add: word_starts_def)
next
  case (snoc c cs)
  then show ?case by (auto simp: wc_char_def word_starts_snoc blank_def)
qed

lemma low_word: "(ucast (word_of_int i :: u64) :: u32) = word_of_int i"
  by (rule bit_word_eqI) (simp add: bit_simps bit_word_of_int_iff)

lemma sint_small_nat: "n < 2 ^ 31 \<Longrightarrow> sint (low_half (word_of_int (int n))) = int n"
proof -
  assume n: "n < 2 ^ 31"
  have s: "sint (word_of_int (int n) :: u32) = int n"
    by (subst sint_sbintrunc', rule signed_take_bit_int_eq_self) (use n in simp_all)
  have "sint (scast (word_of_int (int n) :: u32) :: u64) = signed_take_bit 63 (int n)"
    by (simp only: signed_scast_eq s) simp
  also have "\<dots> = int n" using n by (simp add: signed_take_bit_int_eq_self)
  finally show ?thesis by (simp only: low_half_def low_word)
qed

lemma pf_pieces:
  assumes "list_all valid ps" "render ps args = Some t" "uoutOpen (io sh)" "concat (map unparse ps) @ [0] = fmt"
  shows "\<exists>s. pf fmt args sh = Some (sh\<lparr>io := s\<rparr>) \<and> uout s = uout (io sh) @ t \<and> uoutOpen s"
  using printf_pieces [OF assms(1-3)] unfolding assms(4) by (auto simp: pf_def)

lemma render_lits: "render (map Lit l @ ps) args = map_option ((@) l) (render ps args)"
  by (induction l) (auto simp: option.map_comp comp_def option.map_ident split: option.splits)

lemma unparse_lits: "concat (map unparse (map Lit m)) = m"
  by (induction m) auto

text \<open>A message without and with one number.\<close>

lemma literal_message:
  assumes "list_all valid (map Lit m)" "uoutOpen (io sh)"
  shows "\<exists>s. pf (m @ [0]) [] sh = Some (sh\<lparr>io := s\<rparr>) \<and> uout s = uout (io sh) @ m \<and> uoutOpen s"
proof (rule pf_pieces [OF assms(1) _ assms(2)])
  show "render (map Lit m) [] = Some m" using render_lits [of m "[]" "[]"] by simp
qed (simp only: unparse_lits)

lemma number_message:
  assumes m: "list_all valid (map Lit m)" "list_all valid (map Lit m')" and n: "render_conv None k (Num w) = Some t"
    and out: "uoutOpen (io sh)" and fmt: "m @ 37 # letters k @ m' @ [0] = fmt"
  shows "\<exists>s. pf fmt [Num w] sh = Some (sh\<lparr>io := s\<rparr>) \<and> uout s = uout (io sh) @ m @ t @ m' \<and> uoutOpen s"
proof (rule pf_pieces [OF _ _ out])
  let ?ps = "map Lit m @ Conv None k # map Lit m'"
  show "list_all valid ?ps" using m by simp
  show "render ?ps [Num w] = Some (m @ t @ m')" using n render_lits [of m' "[]" "[]"] by (simp add: render_lits)
  show "concat (map unparse ?ps) @ [0] = fmt" using fmt unparse_lits [of m] unparse_lits [of m'] by simp
qed

text \<open>A message with one decimal count in it, ended by a newline.\<close>

lemma count_message:
  assumes n: "n < 2 ^ 31" and out: "uoutOpen (io sh)" and m: "list_all valid (map Lit m)"
    and fmt: "m @ [37, 100, 10, 0] = fmt"
  shows "\<exists>s. pf fmt [i32 (int n)] sh = Some (sh\<lparr>io := s\<rparr>) \<and>
      uout s = uout (io sh) @ m @ numeral_text 10 n @ [10] \<and> uoutOpen s"
proof -
  let ?ps = "map Lit m @ [Conv None Dec, Lit 10]"
  have f: "concat (map unparse ?ps) @ [0] = fmt" using fmt unparse_lits [of m] by (simp add: text_of_def)
  have "list_all valid ?ps" using m by simp
  moreover have "render ?ps [i32 (int n)] = Some (m @ numeral_text 10 n @ [10])"
    using sint_small_nat [OF n] by (simp add: render_lits i32_def signed_text_def padded_def)
  ultimately show ?thesis using out f by (rule pf_pieces)
qed

section \<open>Properties\<close>

text \<open>
  \<open>wc\<close> copies its input up to the end mark and then reports how many words it has, which are the
  runs of characters other than blanks and line ends, and how many lines: a last line without its
  end counts, and so does an empty input.
\<close>

theorem wc_counts:
  assumes "EOF_char \<notin> set cs" and "streams_open (io sh)" and "uin (io sh) = cs @ EOF_char # r" and "length cs < 2 ^ 31 - 1"
  shows "\<exists>s. commandWordCount sh = Some (SUCCESS, sh\<lparr>io := s\<rparr>) \<and>
    uout s = uout (io sh) @ cs @ text_of ''\<newline>Word count: '' @ numeral_text 10 (length (word_starts cs)) @ [10] @
      text_of ''Line count: '' @ numeral_text 10 (line_count cs) @ [10]"
proof -
  let ?sh = "sh\<lparr>io := (wrote cs (io sh))\<lparr>uin := r\<rparr>\<rparr>"
  obtain n where n: "fold wc_char cs (0, 0, False, False) =
     (n, int (count_list cs 10), cs \<noteq> [] \<and> \<not> blank (last cs), cs \<noteq> [] \<and> last cs = 10)"
   "n + (if cs \<noteq> [] \<and> \<not> blank (last cs) then 1 else 0) = int (length (word_starts cs))"
    using wc_fold by blast
  have loop: "wc_loop (0, 0, False, False) sh = Some (Some (fold wc_char cs (0, 0, False, False)), ?sh)"
    by (rule wc_loop_eq [OF assms(1-3)])
  have words: "(if cs \<noteq> [] \<and> \<not> blank (last cs) then n + 1 else n) = int (length (word_starts cs))" using n(2) by auto
  have lines: "(if cs \<noteq> [] \<and> last cs = 10 then int (count_list cs 10) else int (count_list cs 10) + 1) = int (line_count cs)"
    by (simp add: line_count_def)
  have "length (word_starts cs) \<le> length [0..<length cs]" unfolding word_starts_def by (rule length_filter_le)
  then have b1: "length (word_starts cs) < 2 ^ 31" using assms(4) by simp
  have "line_count cs \<le> length cs + 1" using count_le_length [of cs 10] by (simp add: line_count_def)
  then have b2: "line_count cs < 2 ^ 31" using assms(4) by linarith
  have out: "uoutOpen (io ?sh)" using assms(2) by (simp add: streams_open_def)
  obtain s1 where s1: "pf (lit ''\<newline>Word count: %d\<newline>'') [i32 (int (length (word_starts cs)))] ?sh = Some (?sh\<lparr>io := s1\<rparr>)"
    "uout s1 = uout (io ?sh) @ text_of ''\<newline>Word count: '' @ numeral_text 10 (length (word_starts cs)) @ [10]" "uoutOpen s1"
    using count_message [OF b1 out, of "text_of ''\<newline>Word count: ''"] by (auto simp: text_of_def lit_def)
  have out1: "uoutOpen (io (?sh\<lparr>io := s1\<rparr>))" using s1(3) by simp
  obtain s2 where s2: "pf (lit ''Line count: %d\<newline>'') [i32 (int (line_count cs))] (?sh\<lparr>io := s1\<rparr>) = Some (?sh\<lparr>io := s1\<rparr>\<lparr>io := s2\<rparr>)"
    "uout s2 = uout s1 @ text_of ''Line count: '' @ numeral_text 10 (line_count cs) @ [10]"
    using count_message [OF b2 out1, of "text_of ''Line count: ''"] by (auto simp: text_of_def lit_def)
  have "commandWordCount sh = Some (SUCCESS, sh\<lparr>io := s2\<rparr>)"
    using s1(1) s2(1) by (simp add: commandWordCount_def loop n(1) words lines sysExit_def)
  moreover have "uout s2 = uout (io sh) @ cs @ text_of ''\<newline>Word count: '' @ numeral_text 10 (length (word_starts cs)) @ [10] @
      text_of ''Line count: '' @ numeral_text 10 (line_count cs) @ [10]"
    using s1(2) s2(2) by simp
  ultimately show ?thesis by (intro exI [of _ s2] conjI)
qed

theorem wc_counts_witness:
  "\<exists>s. commandWordCount ((demo_shell [])\<lparr>io := fresh_uio (text_of ''two words'' @ [EOF_char])\<rparr>) =
      Some (SUCCESS, (demo_shell [])\<lparr>io := s\<rparr>) \<and>
    uout s = text_of ''two words\<newline>Word count: 2\<newline>Line count: 1\<newline>''"
proof -
  let ?cs = "text_of ''two words''" and ?sh = "(demo_shell [])\<lparr>io := fresh_uio (text_of ''two words'' @ [EOF_char])\<rparr>"
  have a: "EOF_char \<notin> set ?cs" "streams_open (io ?sh)" "uin (io ?sh) = ?cs @ EOF_char # []" "length ?cs < 2 ^ 31 - 1"
    by (simp_all add: text_of_def EOF_char_def streams_open_def fresh_uio_def)
  have c: "length (word_starts ?cs) = 2" "line_count ?cs = 1"
    by (simp_all add: text_of_def word_starts_def line_count_def blank_def upt_rec)
  have t: "numeral_text 10 2 = [50]" "numeral_text 10 1 = [49]" by (simp_all add: two_digits ndigit_def digit_char_def)
  from wc_counts [OF a] show ?thesis unfolding c t by (simp add: text_of_def fresh_uio_def)
qed

end
