(* ===== verification/Loader.thy ===== *)
theory Loader
  imports KLib FreeList
begin

text \<open>
  How the programs get into memory: the image that \<open>Toolchain/ModulePacker/main.c\<close> appends to the
  kernel, and \<open>Kernel/c/moduleLoader.c\<close> and \<open>initializeKernelBinary\<close> of \<open>Kernel/c/kernel.c\<close>, which
  take it apart when the system starts. Files are the lists of their bytes, memory is the byte memory
  of \<open>KLib\<close>; a fault is \<open>None\<close>.
\<close>

section \<open>The packer\<close>

type_synonym files = "string \<rightharpoonup> byte list"

definition PACKER_BUFFER_SIZE :: nat where "PACKER_BUFFER_SIZE = 128"
definition MAX_FILES :: nat where "MAX_FILES = 128"
definition OUTPUT_FILE :: string where "OUTPUT_FILE = ''packedKernel.bin''"

text \<open>The bytes of an \<open>int\<close> or \<open>uint32_t\<close> in memory.\<close>

definition le32 :: "u32 \<Rightarrow> byte list" where
  "le32 v = map (\<lambda>i. ucast (drop_bit (8 * i) v)) [0..<4]"

text \<open>\<open>feof\<close> becomes true with the first \<open>fread\<close> that returns less than the buffer.\<close>

function write_file :: "byte list \<Rightarrow> byte list \<Rightarrow> byte list" where
  "write_file target source =
     (let buffer = take PACKER_BUFFER_SIZE source; target1 = target @ buffer
      in if length buffer < PACKER_BUFFER_SIZE then target1
         else write_file target1 (drop PACKER_BUFFER_SIZE source))"
  by pat_completeness auto
termination by (relation "measure (\<lambda>(t, s). length s)") (auto simp: PACKER_BUFFER_SIZE_def)

declare write_file.simps [simp del]

definition write_size :: "files \<Rightarrow> byte list \<Rightarrow> string \<Rightarrow> byte list option" where
  "write_size fs target filename = do { c \<leftarrow> fs filename; Some (target @ le32 (word_of_nat (length c))) }"

fun checkFiles :: "files \<Rightarrow> string list \<Rightarrow> bool" where
  "checkFiles fs [] = True"
| "checkFiles fs (f # fileArray) = (if fs f = None then False else checkFiles fs fileArray)"

fun build_loop :: "files \<Rightarrow> byte list \<Rightarrow> string list \<Rightarrow> byte list option" where
  "build_loop fs target [] = Some target"
| "build_loop fs target (f # fileArray) = do {
     source \<leftarrow> fs f;
     target1 \<leftarrow> write_size fs target f;
     build_loop fs (write_file target1 source) fileArray }"

text \<open>
  \<open>can_create\<close>: the output file can be opened. Writing over one of the inputs while it is read is
  not followed.
\<close>

definition buildImage :: "bool \<Rightarrow> files \<Rightarrow> string list \<Rightarrow> string \<Rightarrow> (bool \<times> files) option" where
  "buildImage can_create fs fileArray output_file =
     (if \<not> can_create then Some (False, fs)
      else if fileArray = [] \<or> output_file \<in> set fileArray then None
      else do {
        source \<leftarrow> fs (hd fileArray);
        let target = write_file [] source;
        let extraBinaries = word_of_nat (length fileArray) - 1;
        image \<leftarrow> build_loop fs (target @ le32 extraBinaries) (tl fileArray);
        Some (True, fs(output_file \<mapsto> image)) })"

text \<open>What \<open>argp_parse\<close> calls \<open>parse_opt\<close> with; an argument comes with its number.\<close>

datatype opt_key = Output string | Arg string | End | OtherKey

record arguments =
  args :: "string list"
  output_file :: string
  args_count :: nat

datatype parsed = Parsed arguments | Usage | UnknownKey

definition parse_opt :: "opt_key \<Rightarrow> arguments \<Rightarrow> parsed option" where
  "parse_opt key a =
     (case key of
        Output f \<Rightarrow> Some (Parsed (a\<lparr>output_file := f\<rparr>))
      | Arg f \<Rightarrow> if length (args a) < MAX_FILES then Some (Parsed (a\<lparr>args := args a @ [f]\<rparr>)) else None
      | End \<Rightarrow> Some (if length (args a) < 1 then Usage else Parsed (a\<lparr>args_count := length (args a)\<rparr>))
      | OtherKey \<Rightarrow> Some UnknownKey)"

fun argp_parse :: "opt_key list \<Rightarrow> arguments \<Rightarrow> parsed option" where
  "argp_parse [] a = Some (Parsed a)"
| "argp_parse (k # ks) a = do {
     r \<leftarrow> parse_opt k a;
     case r of Parsed b \<Rightarrow> argp_parse ks b | UnknownKey \<Rightarrow> argp_parse ks a | Usage \<Rightarrow> Some Usage }"

text \<open>The exit code; \<open>argp_usage\<close> ends the program with 64.\<close>

definition packer_main :: "bool \<Rightarrow> files \<Rightarrow> opt_key list \<Rightarrow> (nat \<times> files) option" where
  "packer_main can_create fs keys = do {
     r \<leftarrow> argp_parse keys \<lparr>args = [], output_file = OUTPUT_FILE, args_count = 0\<rparr>;
     case r of
       Parsed a \<Rightarrow>
         let fileArray = take (args_count a) (args a)
         in if \<not> checkFiles fs fileArray then Some (1, fs)
            else do { (ok, fs1) \<leftarrow> buildImage can_create fs fileArray (output_file a); Some (if ok then 0 else 1, fs1) }
     | _ \<Rightarrow> Some (64, fs) }"

section \<open>The loader\<close>

definition readUint32 :: "bytes \<Rightarrow> nat \<Rightarrow> u32 \<times> nat" where
  "readUint32 m address = ((\<Sum>i<4. push_bit (8 * i) (ucast (m (address + i)))), address + 4)"

definition loadModule :: "bytes \<Rightarrow> nat \<Rightarrow> nat \<Rightarrow> bytes \<times> nat \<times> nat" where
  "loadModule m module targetModuleAddress =
     (let (moduleSize, p) = readUint32 m module;
          m1 = fst (memcpy m targetModuleAddress p (unat moduleSize))
      in (m1, p + unat moduleSize, targetModuleAddress + unat moduleSize))"

text \<open>
  The loop of \<open>loadModules\<close> over the addresses that are left, with \<open>endOfModules\<close>, which has no value
  before the first module.
\<close>

fun load_loop :: "nat \<Rightarrow> bytes \<Rightarrow> nat \<Rightarrow> nat list \<Rightarrow> nat option \<Rightarrow> (bytes \<times> nat) option" where
  "load_loop 0 m p targets endOfModules = do { e \<leftarrow> endOfModules; Some (m, e) }"
| "load_loop (Suc n) m p [] endOfModules = None"
| "load_loop (Suc n) m p (t # targets) endOfModules =
     (let (m1, p1, e) = loadModule m p t in load_loop n m1 p1 targets (Some e))"

definition loadModules :: "bytes \<Rightarrow> nat \<Rightarrow> nat list \<Rightarrow> (bytes \<times> nat) option" where
  "loadModules m payloadStart targetModuleAddress =
     (let (moduleCount, currentModule) = readUint32 m payloadStart
      in load_loop (unat moduleCount) m currentModule targetModuleAddress None)"

section \<open>Starting the kernel\<close>

definition PageSize :: u64 where "PageSize = 0x1000"
definition userModule :: nat where "userModule = 0x400000"
definition sampleDataModule :: nat where "sampleDataModule = 0x500000"

definition clearBSS :: "bytes \<Rightarrow> nat \<Rightarrow> nat \<Rightarrow> bytes" where
  "clearBSS m bssAddress bssSize = fst (memset m bssAddress 0 bssSize)"

definition getStackBase :: "u64 \<Rightarrow> u64" where
  "getStackBase endOfKernel = endOfKernel + PageSize * 8 - 8"

text \<open>The words of the memory, as the memory manager sees it.\<close>

definition word_memory :: "bytes \<Rightarrow> memory" where
  "word_memory m a = (\<Sum>i<8. push_bit (8 * i) (ucast (m (unat a + i))))"

text \<open>
  \<open>endOfKernelBinary\<close>, \<open>kernelBss\<close> and \<open>endOfKernel\<close> are symbols of the linker, \<open>listStart\<close> is the head
  of the free list; the result has the memory, the heap and the base of the stack.
\<close>

definition initializeKernelBinary :: "nat \<Rightarrow> nat \<Rightarrow> nat \<Rightarrow> addr \<Rightarrow> bytes \<Rightarrow> (bytes \<times> heap \<times> u64) option" where
  "initializeKernelBinary endOfKernelBinary kernelBss endOfKernel listStart m = do {
     (m1, endOfModules) \<leftarrow> loadModules m endOfKernelBinary [userModule, sampleDataModule];
     let m2 = clearBSS m1 kernelBss (endOfKernel - kernelBss);
     Some (m2, memoryInit (word_memory m2) listStart (word_of_nat endOfModules),
       getStackBase (word_of_nat endOfKernel)) }"

end
