(* ===== verification/LoaderProps.thy ===== *)
theory LoaderProps
  imports Loader
begin

text \<open>
  The loader takes apart what the packer put together: every module arrives unchanged at its
  address.
\<close>

section \<open>The image\<close>

lemma write_file_eq: "write_file t s = t @ s"
proof (induction t s rule: write_file.induct)
  case (1 t s)
  show ?case
  proof (cases "length (take PACKER_BUFFER_SIZE s) < PACKER_BUFFER_SIZE")
    case True
    then have "length s < PACKER_BUFFER_SIZE" by simp
    then show ?thesis by (subst write_file.simps) (simp add: Let_def)
  next
    case False
    with 1 show ?thesis by (subst write_file.simps) (simp add: Let_def)
  qed
qed

definition packed :: "byte list \<Rightarrow> byte list" where
  "packed c = le32 (word_of_nat (length c)) @ c"

lemma build_loop_eq:
  "\<forall>f \<in> set fl. fs f \<noteq> None \<Longrightarrow> build_loop fs t fl = Some (t @ concat (map (\<lambda>f. packed (the (fs f))) fl))"
  by (induction fl arbitrary: t) (auto simp: write_size_def write_file_eq packed_def)

definition payload :: "byte list list \<Rightarrow> byte list" where
  "payload cs = le32 (word_of_nat (length cs)) @ concat (map packed cs)"

lemma checkFiles_eq: "checkFiles fs fl \<longleftrightarrow> (\<forall>f \<in> set fl. fs f \<noteq> None)"
  by (induction fl) auto

lemma argp_parse_args:
  "length (args a) + length fl \<le> MAX_FILES \<Longrightarrow> args a @ fl \<noteq> [] \<Longrightarrow>
     argp_parse (map Arg fl @ [End]) a = Some (Parsed (a\<lparr>args := args a @ fl, args_count := length (args a @ fl)\<rparr>))"
proof (induction fl arbitrary: a)
  case Nil
  then show ?case by (cases "args a") (auto simp: parse_opt_def)
next
  case (Cons f fl)
  from Cons.prems Cons.IH [of "a\<lparr>args := args a @ [f]\<rparr>"] show ?case by (simp add: parse_opt_def)
qed

lemma packer_runs:
  assumes "length ms < 128" and "\<forall>f \<in> set (ker # ms). fs f \<noteq> None" and "OUTPUT_FILE \<notin> set (ker # ms)"
  shows "packer_main True fs (map Arg (ker # ms) @ [End]) =
    Some (0, fs(OUTPUT_FILE \<mapsto> the (fs ker) @ payload (map (the \<circ> fs) ms)))"
proof -
  let ?a = "\<lparr>args = [], output_file = OUTPUT_FILE, args_count = 0\<rparr>"
  obtain k where k: "fs ker = Some k" using assms(2) by auto
  have "argp_parse (map Arg (ker # ms) @ [End]) ?a =
      Some (Parsed (?a\<lparr>args := ker # ms, args_count := length (ker # ms)\<rparr>))"
    using argp_parse_args [of ?a "ker # ms"] assms(1) by (simp add: MAX_FILES_def)
  moreover have "buildImage True fs (ker # ms) OUTPUT_FILE =
      Some (True, fs(OUTPUT_FILE \<mapsto> k @ payload (map (the \<circ> fs) ms)))"
    using assms(2,3) k by (simp add: buildImage_def build_loop_eq write_file_eq payload_def comp_def)
  moreover have "checkFiles fs (ker # ms)" unfolding checkFiles_eq by (rule assms(2))
  ultimately show ?thesis
    using k by (simp add: packer_main_def Let_def del: checkFiles.simps argp_parse.simps list.map append_Cons)
qed

section \<open>Loading\<close>

definition holds :: "bytes \<Rightarrow> nat \<Rightarrow> byte list \<Rightarrow> bool" where
  "holds m a bs \<longleftrightarrow> (\<forall>i < length bs. m (a + i) = bs ! i)"

lemma holds_append: "holds m a (xs @ ys) \<longleftrightarrow> holds m a xs \<and> holds m (a + length xs) ys"
proof -
  have "holds m (a + length xs) ys" if h: "holds m a (xs @ ys)"
    unfolding holds_def
  proof (intro allI impI)
    fix i assume "i < length ys"
    with h show "m (a + length xs + i) = ys ! i"
      unfolding holds_def by (auto dest: spec [of _ "length xs + i"] simp: nth_append add.assoc)
  qed
  moreover have "holds m a xs" if "holds m a (xs @ ys)"
    using that by (auto simp: holds_def nth_append)
  moreover have "holds m a (xs @ ys)" if "holds m a xs" "holds m (a + length xs) ys"
    unfolding holds_def
  proof (intro allI impI)
    fix i assume "i < length (xs @ ys)"
    with that show "m (a + i) = (xs @ ys) ! i"
      by (cases "i < length xs") (auto simp: holds_def nth_append dest: spec [of _ "i - length xs"])
  qed
  ultimately show ?thesis by blast
qed

lemma holds_cong: "holds m a bs \<Longrightarrow> (\<And>x. a \<le> x \<Longrightarrow> x < a + length bs \<Longrightarrow> m' x = m x) \<Longrightarrow> holds m' a bs"
  by (simp add: holds_def)

lemma length_le32 [simp]: "length (le32 v) = 4"
  by (simp add: le32_def)

lemma readUint32_holds: "holds m a (le32 v) \<Longrightarrow> readUint32 m a = (v, a + 4)"
  unfolding readUint32_def by (auto intro!: word_of_bytes simp: holds_def le32_def)

definition overlaid :: "bytes \<Rightarrow> nat \<Rightarrow> byte list \<Rightarrow> bytes" where
  "overlaid m t c = (\<lambda>a. if t \<le> a \<and> a < t + length c then c ! (a - t) else m a)"

lemma loadModule_eq:
  assumes "holds m p (packed c)" "length c < 2 ^ 32" "t \<le> p \<or> p + length (packed c) \<le> t"
  shows "loadModule m p t = (overlaid m t c, p + length (packed c), t + length c)"
proof -
  have n: "unat (word_of_nat (length c) :: u32) = length c"
    using assms(2) by (simp add: unat_of_nat take_bit_nat_eq_self)
  have h: "readUint32 m p = (word_of_nat (length c), p + 4)" "holds m (p + 4) c"
    using assms(1) by (simp_all add: packed_def holds_append readUint32_holds)
  have "t \<le> p + 4 \<or> p + 4 + length c \<le> t" using assms(3) by (auto simp: packed_def)
  then have "fst (memcpy m t (p + 4) (length c)) = overlaid m t c"
    using h(2) by (auto simp: fun_eq_iff memcpy_eq overlaid_def holds_def add_diff_assoc [symmetric] simp del: add_diff_assoc)
  with h(1) n show ?thesis by (simp add: loadModule_def packed_def)
qed

text \<open>The modules with their addresses, put into memory one after the other.\<close>

fun placed :: "bytes \<Rightarrow> (nat \<times> byte list) list \<Rightarrow> bytes" where
  "placed m [] = m"
| "placed m ((t, c) # mods) = placed (overlaid m t c) mods"

definition clear_of :: "nat \<Rightarrow> nat \<Rightarrow> nat \<times> byte list \<Rightarrow> bool" where
  "clear_of p n x \<longleftrightarrow> fst x + length (snd x) \<le> p \<or> p + n \<le> fst x"

lemma load_loop_eq:
  "mods \<noteq> [] \<Longrightarrow> holds m p (concat (map (packed \<circ> snd) mods)) \<Longrightarrow> \<forall>x \<in> set mods. length (snd x) < 2 ^ 32 \<Longrightarrow>
     \<forall>x \<in> set mods. clear_of p (length (concat (map (packed \<circ> snd) mods))) x \<Longrightarrow>
     load_loop (length mods) m p (map fst mods) e =
       Some (placed m mods, fst (last mods) + length (snd (last mods)))"
proof (induction mods arbitrary: m p e)
  case (Cons x mods)
  obtain t c where x: "x = (t, c)" by (cases x)
  let ?n = "length (concat (map (packed \<circ> snd) mods))" and ?q = "p + length (packed c)"
  have one: "loadModule m p t = (overlaid m t c, ?q, t + length c)"
    using Cons.prems(2-4) by (intro loadModule_eq) (auto simp: x holds_append clear_of_def)
  show ?case
  proof (cases "mods = []")
    case True
    with one show ?thesis by (simp add: x)
  next
    case False
    have "holds m ?q (concat (map (packed \<circ> snd) mods))" using Cons.prems(2) by (simp add: x holds_append comp_def)
    then have "holds (overlaid m t c) ?q (concat (map (packed \<circ> snd) mods))"
      by (rule holds_cong) (use Cons.prems(4) in \<open>auto simp: x overlaid_def clear_of_def comp_def\<close>)
    moreover have "\<forall>y \<in> set mods. clear_of ?q ?n y"
      using Cons.prems(4) by (auto simp: x clear_of_def comp_def)
    ultimately have "load_loop (length mods) (overlaid m t c) ?q (map fst mods) (Some (t + length c)) =
        Some (placed (overlaid m t c) mods, fst (last mods) + length (snd (last mods)))"
      by (intro Cons.IH [OF False]) (use Cons.prems(3) in \<open>simp_all add: comp_def\<close>)
    with one False show ?thesis by (simp add: x)
  qed
qed simp

lemma loadModules_eq:
  assumes "mods \<noteq> []" "holds m p (payload (map snd mods))" "\<forall>x \<in> set mods. length (snd x) < 2 ^ 32" "length mods < 2 ^ 32"
    "\<forall>x \<in> set mods. clear_of p (length (payload (map snd mods))) x"
  shows "loadModules m p (map fst mods) = Some (placed m mods, fst (last mods) + length (snd (last mods)))"
proof -
  have n: "unat (word_of_nat (length mods) :: u32) = length mods"
    using assms(4) by (simp add: unat_of_nat take_bit_nat_eq_self)
  have "readUint32 m p = (word_of_nat (length mods), p + 4)" "holds m (p + 4) (concat (map (packed \<circ> snd) mods))"
    using assms(2) by (simp_all add: payload_def holds_append readUint32_holds)
  moreover have "\<forall>x \<in> set mods. clear_of (p + 4) (length (concat (map (packed \<circ> snd) mods))) x"
    using assms(5) by (auto simp: payload_def clear_of_def)
  ultimately show ?thesis
    using assms(1,3) n load_loop_eq [of mods m "p + 4" None] by (simp add: loadModules_def)
qed

lemma placed_outside: "\<forall>x \<in> set mods. a < fst x \<or> fst x + length (snd x) \<le> a \<Longrightarrow> placed m mods a = m a"
  by (induction m mods rule: placed.induct) (auto simp: overlaid_def)

lemma placed_holds:
  "sorted_wrt (\<lambda>x y. clear_of (fst x) (length (snd x)) y) mods \<Longrightarrow> x \<in> set mods \<Longrightarrow> holds (placed m mods) (fst x) (snd x)"
proof (induction m mods rule: placed.induct)
  case (2 m t c mods)
  show ?case
  proof (cases "x = (t, c)")
    case True
    have "placed (overlaid m t c) mods a = overlaid m t c a" if "t \<le> a" "a < t + length c" for a
      using "2.prems"(1) that by (intro placed_outside) (auto simp: clear_of_def)
    then have "holds (placed (overlaid m t c) mods) t c" by (simp add: holds_def overlaid_def)
    with True show ?thesis by simp
  qed (use 2 in auto)
qed simp

section \<open>Properties\<close>

text \<open>
  C29: the packer writes the kernel and the modules into one file, and when that file is in memory the
  loader, given the address after the kernel, copies every module unchanged to its address and returns
  the end of the last one. The areas of the modules must be clear of the image and of each other.
\<close>

theorem packed_modules_load:
  assumes "length ms < 128" and "\<forall>f \<in> set (ker # ms). fs f \<noteq> None" and "OUTPUT_FILE \<notin> set (ker # ms)"
    and "ms \<noteq> []" and "length ts = length ms" and "mods = zip ts (map (the \<circ> fs) ms)"
    and "\<forall>x \<in> set mods. length (snd x) < 2 ^ 32" and "img = the (fs ker) @ payload (map snd mods)"
    and "holds m base img" and "\<forall>x \<in> set mods. clear_of base (length img) x"
    and "sorted_wrt (\<lambda>x y. clear_of (fst x) (length (snd x)) y) mods"
  shows "packer_main True fs (map Arg (ker # ms) @ [End]) = Some (0, fs(OUTPUT_FILE \<mapsto> img)) \<and>
    (\<exists>m'. loadModules m (base + length (the (fs ker))) ts =
        Some (m', fst (last mods) + length (snd (last mods))) \<and>
      list_all (\<lambda>x. holds m' (fst x) (snd x)) mods \<and> holds m' base img)"
proof -
  have cs: "map snd mods = map (the \<circ> fs) ms" "map fst mods = ts" "mods \<noteq> []" "length mods < 2 ^ 32"
    using assms(1,4,5,6) by auto
  have "holds m (base + length (the (fs ker))) (payload (map snd mods))"
    using assms(9) by (simp add: assms(8) holds_append)
  moreover have "\<forall>x \<in> set mods. clear_of (base + length (the (fs ker))) (length (payload (map snd mods))) x"
    using assms(10) by (auto simp: assms(8) clear_of_def)
  ultimately have "loadModules m (base + length (the (fs ker))) (map fst mods) =
      Some (placed m mods, fst (last mods) + length (snd (last mods)))"
    using cs(3,4) assms(7) by (intro loadModules_eq)
  moreover have "holds (placed m mods) base img"
    using assms(9) by (rule holds_cong) (use assms(10) in \<open>intro placed_outside; force simp: clear_of_def\<close>)
  ultimately show ?thesis
    using packer_runs [OF assms(1-3)] placed_holds [OF assms(11)] cs(1,2) by (auto simp: assms(8) list_all_iff)
qed

text \<open>A kernel of three bytes with two modules, in memory from address 16.\<close>

definition demo_files :: files where
  "demo_files = [''kernel.bin'' \<mapsto> [1, 2, 3], ''user.bin'' \<mapsto> [4, 5], ''data.bin'' \<mapsto> [6]]"

theorem packed_modules_load_witness:
  "\<exists>img m'. packer_main True demo_files (map Arg [''kernel.bin'', ''user.bin'', ''data.bin''] @ [End]) =
      Some (0, demo_files(OUTPUT_FILE \<mapsto> img)) \<and>
    loadModules (overlaid (\<lambda>a. 0) 16 img) 19 [64, 80] = Some (m', 81) \<and> holds m' 64 [4, 5] \<and> holds m' 80 [6]"
proof -
  let ?mods = "[(64, [4, 5]), (80, [6])] :: (nat \<times> byte list) list"
  let ?image = "the (demo_files ''kernel.bin'') @ payload (map snd ?mods)" and ?fs = demo_files
  let ?m = "overlaid (\<lambda>a. 0) 16 ?image"
  have e: "?fs ''kernel.bin'' = Some [1, 2, 3]" "?fs ''user.bin'' = Some [4, 5]" "?fs ''data.bin'' = Some [6]"
    by (simp_all add: demo_files_def)
  have len: "length ?image = 18" by (simp add: e payload_def packed_def)
  have "holds ?m 16 ?image" by (simp add: holds_def overlaid_def)
  moreover have "\<forall>x \<in> set ?mods. clear_of 16 (length ?image) x" unfolding len by (simp add: clear_of_def)
  ultimately show ?thesis
    using packed_modules_load [of "[''user.bin'', ''data.bin'']" "''kernel.bin''" ?fs "[64, 80]" ?mods ?image ?m 16] e
    by (auto simp: OUTPUT_FILE_def clear_of_def)
qed

end
