(* ===== verification/Machine.thy ===== *)
theory Machine
  imports Keyboard Timer Loader
begin

text \<open>
  The rest of the kernel around its components: the clock, the saved registers, the speaker, the
  interrupt table and its handlers, the table of the system calls and the start of the system
  (\<open>clock.c\<close>, \<open>registers.c\<close>, \<open>sysinfo.c\<close>, \<open>pcSpeaker.c\<close>, \<open>exceptions.c\<close>, \<open>interruptions.c\<close>, \<open>syscalls.c\<close>
  and \<open>kernel.c\<close> of \<open>Kernel/c\<close>). The state of the whole machine holds the one process table of the
  components, inside their semaphores, inside their pipes, inside the keyboard.
\<close>

record Sound =
  sfreq :: u32
  sms :: u32

record 'h machine =
  keys :: "'h keyboard"
  screen :: Screen
  mticks :: u64
  mfirst :: addr
  mslept :: "addr \<rightharpoonup> SleptProcess"
  spk_sem :: int
  sounds :: "(Sound, 'h) Array"
  registerValues :: "u64 list"
  exceptionRegisterValues :: "u64 list"

section \<open>The components in the machine\<close>

definition kernel_of :: "'h machine \<Rightarrow> 'h kernel" where
  "kernel_of m = kern (sems (psys (keys m)))"

definition on_sems :: "('h sems \<Rightarrow> ('r \<times> 'h sems) option) \<Rightarrow> 'h machine \<Rightarrow> ('r \<times> 'h machine) option" where
  "on_sems f m = do {
     (r, k) \<leftarrow> in_pipes (in_sems f) (keys m);
     Some (r, m\<lparr>keys := k\<rparr>) }"

definition on_kernel :: "('h kernel \<Rightarrow> ('r \<times> 'h kernel) option) \<Rightarrow> 'h machine \<Rightarrow> ('r \<times> 'h machine) option" where
  "on_kernel f m = on_sems (in_kern f) m"

definition on_timer :: "('h timer \<Rightarrow> ('r \<times> 'h timer) option) \<Rightarrow> 'h machine \<Rightarrow> ('r \<times> 'h machine) option" where
  "on_timer f m = do {
     (r, t) \<leftarrow> f \<lparr>tkern = kernel_of m, ticks = mticks m, sfirst = mfirst m, slept = mslept m\<rparr>;
     (_, m1) \<leftarrow> on_kernel (\<lambda>_. Some ((), tkern t)) m;
     Some (r, m1\<lparr>mticks := ticks t, mfirst := sfirst t, mslept := slept t\<rparr>) }"

definition on_screen :: "(Screen \<Rightarrow> Screen option) \<Rightarrow> 'h machine \<Rightarrow> 'h machine option" where
  "on_screen f m = do { s \<leftarrow> f (screen m); Some (m\<lparr>screen := s\<rparr>) }"

section \<open>The clock\<close>

record Time =
  hours :: u8
  minutes :: u8
  seconds :: u8
  tstring :: "byte list"

text \<open>The hour of the clock chip, three hours back; \<open>sub\<close> and the signed comparison are on bytes.\<close>

definition getCurrentHours :: "u8 \<Rightarrow> u8" where
  "getCurrentHours rtc = (let al = rtc - 3 in if sint al \<ge> 0 then al else al + 24)"

definition two_digits_of :: "u8 \<Rightarrow> byte list" where
  "two_digits_of n = [n div 10 + 48, n mod 10 + 48]"

definition getCurrentTime :: "u8 \<Rightarrow> u8 \<Rightarrow> u8 \<Rightarrow> Time" where
  "getCurrentTime rtcHours rtcMinutes rtcSeconds =
     (let h = getCurrentHours rtcHours
      in \<lparr>hours = h, minutes = rtcMinutes, seconds = rtcSeconds,
          tstring = two_digits_of h @ [58] @ two_digits_of rtcMinutes @ [58] @ two_digits_of rtcSeconds @ [0]\<rparr>)"

section \<open>The registers\<close>

definition REGISTER_QUANTITY :: nat where "REGISTER_QUANTITY = 17"
definition STR_LEN :: nat where "STR_LEN = 4"

definition registerNames :: "byte list list" where
  "registerNames = map (\<lambda>s. map of_char s @ [0]) [''RIP'', ''RAX'', ''RBX'', ''RCX'', ''RDX'', ''RBP'', ''RSP'', ''RDI'',
     ''RSI'', ''R08'', ''R09'', ''R10'', ''R11'', ''R12'', ''R13'', ''R14'', ''R15'']"

text \<open>The name and the value of each register, as they are stored into the array of the caller.\<close>

definition getRegisters :: "u64 list \<Rightarrow> (byte list \<times> u64) list" where
  "getRegisters values =
     map (\<lambda>i. (map (\<lambda>j. registerNames ! i ! j) [0..<STR_LEN], values ! i)) [0..<REGISTER_QUANTITY]"

definition printGenericRegisters :: "u64 list \<Rightarrow> Screen \<Rightarrow> Screen option" where
  "printGenericRegisters regs s = do {
     s1 \<leftarrow> for_n 0 REGISTER_QUANTITY (\<lambda>i s. do {
       s1 \<leftarrow> printNextString (registerNames ! i) s;
       s2 \<leftarrow> printNextChar 32 s1;
       s3 \<leftarrow> (if i < length regs then printNextHexWithPadding (regs ! i) s2 else None);
       s4 \<leftarrow> printNextChar 32 s3;
       if i mod 3 = 0 then printNextChar 10 s4 else Some s4 }) s;
     printNextChar 10 s1 }"

definition printRegisters :: "'h machine \<Rightarrow> 'h machine option" where
  "printRegisters m = on_screen (printGenericRegisters (registerValues m)) m"

definition printExceptionRegisters :: "'h machine \<Rightarrow> 'h machine option" where
  "printExceptionRegisters m = on_screen (printGenericRegisters (exceptionRegisterValues m)) m"

text \<open>
  \<open>saveRegisters\<close> copies the seventeen words that \<open>pushState\<close> left on the stack; with the code 1 they
  are those of the key, otherwise those of an exception.
\<close>

definition saveRegisters :: "nat \<Rightarrow> u64 list \<Rightarrow> 'h machine \<Rightarrow> 'h machine option" where
  "saveRegisters code frame m =
     (if length frame < REGISTER_QUANTITY then None
      else let vs = take REGISTER_QUANTITY frame
           in Some (if code = 1 then m\<lparr>registerValues := vs\<rparr> else m\<lparr>exceptionRegisterValues := vs\<rparr>))"

section \<open>System information\<close>

text \<open>\<open>screenWidth\<close>, \<open>screenHeight\<close>, \<open>charWidth\<close>, \<open>charHeight\<close>, \<open>layout\<close>, \<open>fontSize\<close> and \<open>charSeparation\<close>.\<close>

definition getSysInfo :: "'h machine \<Rightarrow> int list" where
  "getSysInfo m =
     [getScreenWidth (screen m), getScreenHeight (screen m), int ASCII_BF_WIDTH, int ASCII_BF_HEIGHT,
      uint (getLayout (keys m)), getFontSize (screen m), getCharSeparation (screen m)]"

section \<open>The speaker\<close>

definition SOUNDS_CAPACITY :: u64 where "SOUNDS_CAPACITY = 500"
definition sizeof_Sound :: u64 where "sizeof_Sound = 8"

text \<open>\<open>speakerRip\<close> is the address of \<open>speakerProcess\<close>; the name of its process is \<open>speaker\<close>.\<close>

definition initializeSpeaker :: "'h mm \<Rightarrow> addr \<Rightarrow> 'h machine \<Rightarrow> 'h machine option" where
  "initializeSpeaker M speakerRip m = do {
     (sem, m1) \<leftarrow> on_sems (semInit M 0) m;
     (a, m2) \<leftarrow> on_sems (in_heap (Array_initialize M sizeof_Sound SOUNDS_CAPACITY None)) (m1\<lparr>spk_sem := sem\<rparr>);
     (_, m3) \<leftarrow> on_kernel (createUserProcess M [[115, 112, 101, 97, 107, 101, 114, 0]] speakerRip)
       (m2\<lparr>sounds := a\<rparr>);
     Some m3 }"

definition playSoundForCertainMs ::
  "'h mm \<Rightarrow> addr \<times> addr \<Rightarrow> u32 \<Rightarrow> u32 \<Rightarrow> 'h machine \<Rightarrow> (unit run \<times> 'h machine) option" where
  "playSoundForCertainMs M ctx nFrequence ms m =
     (if ms \<le> 0 \<or> nFrequence = 0 then Some (Done (), m)
      else do {
        (a, m1) \<leftarrow> on_sems (in_heap (\<lambda>h. do {
          (_, a, h') \<leftarrow> Array_push M (sounds m) (Some \<lparr>sfreq = nFrequence, sms = ms\<rparr>) h; Some (a, h') })) m;
        then_run (on_sems (postSemaphore M ctx (spk_sem m)) (m1\<lparr>sounds := a\<rparr>)) (\<lambda>m2. Some (Done (), m2)) })"

text \<open>
  The loop of \<open>speakerProcess\<close> in the three parts between which other processes run: waiting for a
  sound; starting it, with the frequency that is given to the speaker; and going on after the sleep.
  \<open>i\<close> is the local counter.
\<close>

definition speaker_wait :: "'h mm \<Rightarrow> addr \<times> addr \<Rightarrow> 'h machine \<Rightarrow> (unit run \<times> 'h machine) option" where
  "speaker_wait M ctx m = then_run (on_sems (waitSemaphore M ctx (spk_sem m)) m) (\<lambda>m1. Some (Done (), m1))"

definition speaker_start ::
  "'h mm \<Rightarrow> addr \<times> addr \<Rightarrow> u32 \<Rightarrow> 'h machine \<Rightarrow> (u32 \<times> u32 \<times> unit run \<times> 'h machine) option" where
  "speaker_start M ctx i m = do {
     c \<leftarrow> sounds m;
     k \<leftarrow> Array_get (sounds m) (uint i);
     x \<leftarrow> slot c k;
     (r, m1) \<leftarrow> on_timer (sleep M ctx (ucast (sms x))) m;
     Some (sfreq x, i + 1, r, m1) }"

definition speaker_next :: "'h mm \<Rightarrow> u32 \<Rightarrow> 'h machine \<Rightarrow> (u32 \<times> 'h machine) option" where
  "speaker_next M i m =
     (if uint i = uint (Array_getLen (sounds m))
      then do {
        (a, m1) \<leftarrow> on_sems (in_heap (\<lambda>h. do { (_, a, h') \<leftarrow> Array_clear (sounds m) h; Some (a, h') })) m;
        Some (0, m1\<lparr>sounds := a\<rparr>) }
      else Some (i, m))"

section \<open>Exceptions and interrupts\<close>

definition exception_text :: "byte list \<Rightarrow> 'h machine \<Rightarrow> 'h machine option" where
  "exception_text title m = do {
     m1 \<leftarrow> on_screen clearScreen m;
     m2 \<leftarrow> on_screen (printNextString title) m1;
     m3 \<leftarrow> printExceptionRegisters m2;
     on_screen (printNextString (map of_char ''Returning to shell in 10 seconds\<newline>'' @ [0])) m3 }"

definition exception_titles :: "byte list list" where
  "exception_titles = map (\<lambda>s. map of_char s @ [10, 10, 0])
     [''An exception occurred | ExceptionId: 0 - ZeroDivision Error'',
      ''An exception occurred | ExceptionId: 6 - InvalidOpcode Error'']"

text \<open>A handler up to its sleep, and what is left of \<open>exceptionDispatcher\<close> after it.\<close>

definition exceptionDispatcher ::
  "'h mm \<Rightarrow> addr \<times> addr \<Rightarrow> nat \<Rightarrow> 'h machine \<Rightarrow> (unit run \<times> 'h machine) option" where
  "exceptionDispatcher M ctx index m =
     (if index < length exception_titles
      then do { m1 \<leftarrow> exception_text (exception_titles ! index) m; on_timer (sleep M ctx 10000) m1 }
      else None)"

definition exception_end :: "'h mm \<Rightarrow> addr \<times> addr \<Rightarrow> 'h machine \<Rightarrow> (bool run \<times> 'h machine) option" where
  "exception_end M ctx m = do { m1 \<leftarrow> on_screen clearScreen m; on_kernel (killCurrentProcess M ctx) m1 }"

text \<open>\<open>code\<close> is the code that the keyboard handler reads from its port.\<close>

definition irqDispatcher ::
  "'h mm \<Rightarrow> addr \<times> addr \<Rightarrow> byte \<Rightarrow> nat \<Rightarrow> 'h machine \<Rightarrow> (unit run \<times> 'h machine) option" where
  "irqDispatcher M ctx code index m =
     (if index = 0 then on_timer (incTicks M ctx) m
      else if index = 1
      then do { (r, k) \<leftarrow> readKeyToBuffer M ctx code (keys m); Some (r, m\<lparr>keys := k\<rparr>) }
      else None)"

text \<open>
  \<open>keyboardIrqHandler\<close> looks at the code first: F1 saves the registers and F2 gives up the processor.
\<close>

definition keyboardIrqHandler ::
  "'h mm \<Rightarrow> addr \<times> addr \<Rightarrow> byte \<Rightarrow> u64 list \<Rightarrow> 'h machine \<Rightarrow> (unit run \<times> 'h machine) option" where
  "keyboardIrqHandler M ctx code frame m =
     (if code = 0x3b then do { m1 \<leftarrow> saveRegisters 1 frame m; Some (Done (), m1) }
      else if code = 0x3c then on_kernel (contextSwitch M ctx) m
      else irqDispatcher M ctx code 1 m)"

section \<open>The interrupt table\<close>

record InterruptionDescriptor =
  offset_0_15 :: "16 word"
  segmentSelector :: "16 word"
  empty1 :: u8
  accessPrivileges :: u8
  offset_16_31 :: "16 word"
  offset_32_63 :: u32
  empty2 :: u32

definition ACS_INT :: u8 where "ACS_INT = (0x80 OR 0x0E)"

definition setupIdtEntry ::
  "nat \<Rightarrow> u64 \<Rightarrow> (nat \<Rightarrow> InterruptionDescriptor) \<Rightarrow> nat \<Rightarrow> InterruptionDescriptor" where
  "setupIdtEntry index irqHandler idt =
     idt(index := \<lparr>offset_0_15 = ucast (irqHandler AND 0xFFFF), segmentSelector = 0x08, empty1 = 0,
       accessPrivileges = ACS_INT, offset_16_31 = ucast (drop_bit 16 irqHandler AND 0xFFFF),
       offset_32_63 = ucast (drop_bit 32 irqHandler AND 0xFFFFFFFF), empty2 = 0\<rparr>)"

definition TIMER_TICK_MASK :: "16 word" where "TIMER_TICK_MASK = 0xFFFE"
definition KEYBOARD_MASK :: "16 word" where "KEYBOARD_MASK = 0xFFFD"

text \<open>The handlers by number, and the mask that is written to the interrupt controllers.\<close>

definition idt_handlers :: "(nat \<times> string) list" where
  "idt_handlers = [(0x00, ''exception00Handler''), (0x06, ''exception01Handler''), (0x20, ''timerTickIrqHandler''),
     (0x21, ''keyboardIrqHandler''), (0x22, ''asdf''), (0x80, ''syscallDispatcher'')]"

definition loadIdt ::
  "(string \<Rightarrow> u64) \<Rightarrow> (nat \<Rightarrow> InterruptionDescriptor) \<Rightarrow> (nat \<Rightarrow> InterruptionDescriptor) \<times> 16 word" where
  "loadIdt address idt =
     (fold (\<lambda>(index, f). setupIdtEntry index (address f)) idt_handlers idt, TIMER_TICK_MASK AND KEYBOARD_MASK)"

section \<open>The system calls\<close>

definition syscalls :: "string list" where
  "syscalls = [''haltTillNextInterruption'', ''getTicks'', ''getSysInfo'', ''setLayout'', ''setFontSize'', ''setColor'',
     ''getModKeys'', ''printCharXY'', ''printNextChar'', ''moveCursor'', ''printPixel'', ''fillRectangle'',
     ''playSoundForCertainMs'', ''getCurrentTime'', ''getRegisters'', ''malloc'', ''free'', ''getGlobalMemoryState'',
     ''getProcessMemoryState'', ''createUserProcess'', ''createUserProcessWithPipeSwap'', ''exitCurrentProcess'',
     ''waitPid'', ''getPCBList'', ''semInit'', ''createSemaphore'', ''destroySemaphore'', ''destroySemaphoreByName'',
     ''waitSemaphore'', ''postSemaphore'', ''openSemaphore'', ''memcpy'', ''getpid'', ''kill'', ''sleep'',
     ''changePriority'', ''pipeInit'', ''destroyPipe'', ''changePipeRead'', ''changePipeWrite'', ''getPipes'', ''read'',
     ''write'', ''blockByUser'', ''unblock'', ''yield'']"

text \<open>\<open>call [rax + r9 * 8]\<close>: the number is not compared with the length of the table.\<close>

definition syscallDispatcher :: "nat \<Rightarrow> string option" where
  "syscallDispatcher r9 = (if r9 < length syscalls then Some (syscalls ! r9) else None)"

section \<open>Starting the system\<close>

definition createUserModuleProcess :: "'h mm \<Rightarrow> addr \<Rightarrow> 'h machine \<Rightarrow> (addr \<times> 'h machine) option" where
  "createUserModuleProcess M speakerRip m = do {
     (rsp0, m1) \<leftarrow> on_kernel (createInit M (word_of_nat userModule)) m;
     if rsp0 = NULL then Some (NULL, m1)
     else do { m2 \<leftarrow> initializeSpeaker M speakerRip m1; Some (rsp0, m2) } }"

text \<open>
  \<open>main\<close> after \<open>loadIdt\<close>: \<open>fb\<close> is the frame buffer that the boot loader set up, \<open>idleProc\<close> the code of the
  idle process; the result is the stack pointer of the first process.
\<close>

definition kernel_main :: "'h mm \<Rightarrow> RGBColor list \<Rightarrow> addr \<Rightarrow> addr \<Rightarrow> 'h machine \<Rightarrow> (addr \<times> 'h machine) option" where
  "kernel_main M fb idleProc speakerRip m = do {
     let m1 = m\<lparr>screen := setFontGridValues (initializeFrameBuffer fb (screen m))\<rparr>;
     (_, m2) \<leftarrow> on_kernel (\<lambda>k. map_option (Pair ()) (initializePCBList M idleProc k)) m1;
     (_, m3) \<leftarrow> on_sems (\<lambda>s. map_option (Pair ()) (initializeSemaphores M s)) m2;
     (_, m4) \<leftarrow> (do { (r, k) \<leftarrow> in_pipes (\<lambda>p. map_option (Pair ()) (initializePipes M p)) (keys m3);
                     Some (r, m3\<lparr>keys := k\<rparr>) });
     createUserModuleProcess M speakerRip m4 }"

end
