(* ===== verification/SchedBoot.thy ===== *)
theory SchedBoot
  imports SchedCreate SchedArgs
begin

text \<open>
  The start of the system: with enough free memory \<open>initializePCBList\<close> and the creation of the first
  process never fail, and they establish the invariant of the process table under which the theorems
  on the scheduler hold.
\<close>

section \<open>The stack of a new process\<close>

lemma stackSize_unat: "unat stackSize = 4096"
  by (simp add: stackSize_def push_bit_eq_mult)

lemma stack_start:
  fixes e :: u64
  assumes "8 dvd unat e" "unat e + 4096 < 2 ^ 63"
  shows "(e + stackSize - 1 - 8) AND NOT (8 - 1) = e + 4080"
proof -
  have s: "e + stackSize - 1 - 8 = e + 4087" by (simp add: stackSize_def push_bit_eq_mult)
  have u: "unat (e + 4087) = unat e + 4087" "unat (e + 4080) = unat e + 4080"
    using assms(2) by (simp_all add: unat_plus)
  have "(unat e + 4087) mod 8 = 7" using assms(1) by presburger
  then have "unat ((e + 4087) AND NOT 7) = unat (e + 4080)" using unat_align_down [of "e + 4087"] u by simp
  then show ?thesis unfolding s by (simp add: word_eq_unat)
qed

lemma length_frame: "length (concat (map le64 (initialFrame argc argv rip st))) = 160"
  by (simp add: initialFrame_def length_concat comp_def sum_list_replicate)

lemma process_stack:
  assumes "8 dvd unat e" "unat e + 4096 < 2 ^ 63" "length buf = 4096"
  shows "\<exists>buf'. initializeProcessStack argc argv rip (e + 4080) e buf = Some (e + 3920, buf')"
  using assms(3) length_frame [of argc argv rip "e + 4080"]
  by (simp add: initializeProcessStack_def write_at_def Let_def)

definition init_name :: "byte list" where "init_name = [105, 110, 105, 116, 0]"

lemma blank_stack: "length (replicate (unat stackSize) (0 :: byte)) = 4096"
  unfolding length_replicate by (rule stackSize_unat)

lemma init_args: "\<exists>buf'. copyArgs e 0 8 [init_name] (replicate (unat stackSize) 0) = Some buf' \<and> length buf' = 4096"
  using copyArgs_ok [of "[init_name]" 0 8 "replicate (unat stackSize) 0" e] stackSize_unat
  by (auto simp: args_size_def arg_len_def init_name_def MAX_NAME_LENGTH_def)

lemmas unat_sizes = stackSize_unat sizeof_PCBNode_def sizeof_PCB_def sizeof_Block_def PROCESS_HEAP_SIZE_def push_bit_eq_mult

text \<open>
  The table before the first process: only the idle process, which is not on the list.
\<close>

definition bare :: "(addr \<rightharpoonup> u64) \<Rightarrow> 'h kernel \<Rightarrow> bool" where
  "bare L s \<longleftrightarrow> current s = NULL \<and> head s = NULL \<and> pcbLen s = 0 \<and>
     (\<exists>c. proc s (idleProcPCBNode s) = Some c \<and> pid c = IDLE_PID) \<and>
     distinct (owns s (idleProcPCBNode s)) \<and> set (owns s (idleProcPCBNode s)) \<subseteq> dom L"

text \<open>The process table over a manager with room.\<close>

locale kernel_room = process_table M ok + roomy_allocator M ok room
  for M :: "'h mm" and ok and room
begin

end

context kernel_room
begin

lemma stackAlloc_room:
  assumes "room L k (kheap s)" "4160 \<le> k"
  obtains e h where "stackAlloc M s = Some (e + 4080, e, s\<lparr>kheap := h, stacks := (stacks s)(e \<mapsto> replicate (unat stackSize) 0)\<rparr>)"
    "e \<noteq> NULL" "e \<notin> dom L" "8 dvd unat e" "unat e + 4096 < 2 ^ 63" "room (L(e \<mapsto> stackSize)) (k - 4160) h"
proof -
  obtain e h where e: "mm_malloc M stackSize (kheap s) = Some (e, h)" "e \<noteq> NULL" "e \<notin> dom L"
    "8 dvd unat e" "unat e + unat stackSize < 2 ^ 63" "room (L(e \<mapsto> stackSize)) (k - (unat stackSize + 64)) h"
    by (rule room_malloc_cases [OF assms(1), of stackSize]) (use assms(2) in \<open>auto simp: stackSize_unat\<close>)
  have "(e + stackSize - 1 - 8) AND NOT (8 - 1) = e + 4080"
    using stack_start [OF e(4)] e(5) by (simp add: stackSize_unat)
  then have "stackAlloc M s = Some (e + 4080, e, s\<lparr>kheap := h, stacks := (stacks s)(e \<mapsto> replicate (unat stackSize) 0)\<rparr>)"
    using e(1,2) by (simp add: stackAlloc_def kmalloc_def Let_def)
  moreover have "unat e + 4096 < 2 ^ 63" "room (L(e \<mapsto> stackSize)) (k - 4160) h" using e(5,6) unfolding stackSize_unat by simp_all
  ultimately show ?thesis using that e(2-4) by blast
qed

lemma createPCBNode_idle:
  assumes "room L k (kheap s)" "352 \<le> k" "parent_of s = Some par"
  obtains node p h where
    "createPCBNode M IDLE_PID prio st stack0 rsp0 rbp0 name0 pipes0 s =
       Some (node, with_process node p (new_pcb IDLE_PID prio st stack0 rsp0 rbp0 name0 pipes0 par) h s)"
    "distinct [p, node]" "set [p, node] \<inter> dom L = {}" "room (L(node \<mapsto> sizeof_PCBNode, p \<mapsto> sizeof_PCB)) (k - 352) h"
proof -
  obtain node h1 where a: "mm_malloc M sizeof_PCBNode (kheap s) = Some (node, h1)" "node \<noteq> NULL" "node \<notin> dom L"
    "room (L(node \<mapsto> sizeof_PCBNode)) (k - 80) h1"
    by (rule room_malloc_cases [OF assms(1), of sizeof_PCBNode]) (use assms(2) in \<open>auto simp: unat_sizes\<close>)
  obtain p h2 where b: "mm_malloc M sizeof_PCB h1 = Some (p, h2)" "p \<noteq> NULL" "p \<notin> dom (L(node \<mapsto> sizeof_PCBNode))"
    "room (L(node \<mapsto> sizeof_PCBNode, p \<mapsto> sizeof_PCB)) (k - 80 - 272) h2"
    by (rule room_malloc_cases [OF a(4), of sizeof_PCB]) (use assms(2) in \<open>auto simp: unat_sizes\<close>)
  have "createPCBNode M IDLE_PID prio st stack0 rsp0 rbp0 name0 pipes0 s =
      Some (node, with_process node p (new_pcb IDLE_PID prio st stack0 rsp0 rbp0 name0 pipes0 par) h2 s)"
    using a b assms(3) by (simp add: create_simps with_process_def Let_def)
  then show ?thesis using that a b by auto
qed

lemma createPCBNode_room:
  assumes "room L k (kheap s)" "66032 \<le> k" "parent_of s = Some par" "pid0 \<noteq> IDLE_PID"
  obtains node p hp fl fe n h c L' where
    "createPCBNode M pid0 prio st stack0 rsp0 rbp0 name0 pipes0 s = Some (node, with_process node p c h s)"
    "c = (new_pcb pid0 prio st stack0 rsp0 rbp0 name0 pipes0 par)
       \<lparr>heap := hp, freeListStart := fl, freeListEnd := fe, bytesAvailable := n\<rparr>"
    "distinct [hp, fl, p, node]" "set [hp, fl, p, node] \<inter> dom L = {}" "NULL \<notin> set [hp, fl, p, node]"
    "L' = L(node \<mapsto> sizeof_PCBNode, p \<mapsto> sizeof_PCB, hp \<mapsto> ucast PROCESS_HEAP_SIZE, fl \<mapsto> sizeof_Block)"
    "room L' (k - 66032) h"
proof -
  obtain node h1 where a: "mm_malloc M sizeof_PCBNode (kheap s) = Some (node, h1)" "node \<noteq> NULL" "node \<notin> dom L"
    "room (L(node \<mapsto> sizeof_PCBNode)) (k - 80) h1"
    by (rule room_malloc_cases [OF assms(1), of sizeof_PCBNode]) (use assms(2) in \<open>auto simp: unat_sizes\<close>)
  obtain p h2 where b: "mm_malloc M sizeof_PCB h1 = Some (p, h2)" "p \<noteq> NULL" "p \<notin> dom (L(node \<mapsto> sizeof_PCBNode))"
    "room (L(node \<mapsto> sizeof_PCBNode, p \<mapsto> sizeof_PCB)) (k - 80 - 272) h2"
    by (rule room_malloc_cases [OF a(4), of sizeof_PCB]) (use assms(2) in \<open>auto simp: unat_sizes\<close>)
  obtain hp h3 where d: "mm_malloc M (ucast PROCESS_HEAP_SIZE) h2 = Some (hp, h3)" "hp \<noteq> NULL"
    "hp \<notin> dom (L(node \<mapsto> sizeof_PCBNode, p \<mapsto> sizeof_PCB))"
    "room (L(node \<mapsto> sizeof_PCBNode, p \<mapsto> sizeof_PCB, hp \<mapsto> ucast PROCESS_HEAP_SIZE)) (k - 80 - 272 - 65600) h3"
    by (rule room_malloc_cases [OF b(4), of "ucast PROCESS_HEAP_SIZE"]) (use assms(2) in \<open>auto simp: unat_sizes\<close>)
  let ?L = "L(node \<mapsto> sizeof_PCBNode, p \<mapsto> sizeof_PCB, hp \<mapsto> ucast PROCESS_HEAP_SIZE)"
  obtain fl h4 where e: "mm_malloc M sizeof_Block h3 = Some (fl, h4)" "fl \<noteq> NULL" "fl \<notin> dom ?L"
    "room (?L(fl \<mapsto> sizeof_Block)) (k - 80 - 272 - 65600 - 80) h4"
    by (rule room_malloc_cases [OF d(4), of sizeof_Block]) (use assms(2) in \<open>auto simp: unat_sizes\<close>)
  obtain fe n h5 where i: "mm_init M hp fl h4 = (fe, n, h5)" by (metis surj_pair)
  let ?c = "(new_pcb pid0 prio st stack0 rsp0 rbp0 name0 pipes0 par)
       \<lparr>heap := hp, freeListStart := fl, freeListEnd := fe, bytesAvailable := n\<rparr>"
  have run: "createPCBNode M pid0 prio st stack0 rsp0 rbp0 name0 pipes0 s = Some (node, with_process node p ?c h5 s)"
    using a b d e i assms(3,4) by (simp add: create_simps with_process_def Let_def)
  have rm: "room (?L(fl \<mapsto> sizeof_Block)) (k - 66032) h5"
    by (rule room_init [OF _ _ _ i]) (use e d(3) in auto)
  show ?thesis
    by (rule that [OF run refl _ _ _ refl rm]) (use a(2,3) b(2,3) d(2,3) e(2,3) in auto)
qed

text \<open>The table with the idle process.\<close>

lemma initializePCBList_bare:
  assumes "room L k (kheap s)" "4512 \<le> k" "current s = NULL"
  shows "\<exists>s' L'. initializePCBList M idleProc s = Some s' \<and> bare L' s' \<and> room L' (k - 4512) (kheap s') \<and>
    nextPid s' = nextPid s"
proof -
  obtain e h where e: "stackAlloc M s = Some (e + 4080, e, s\<lparr>kheap := h, stacks := (stacks s)(e \<mapsto> replicate (unat stackSize) 0)\<rparr>)"
    "e \<noteq> NULL" "e \<notin> dom L" "8 dvd unat e" "unat e + 4096 < 2 ^ 63" "room (L(e \<mapsto> stackSize)) (k - 4160) h"
    using stackAlloc_room [OF assms(1)] assms(2) by auto
  obtain buf where buf: "initializeProcessStack 0 NULL idleProc (e + 4080) e (replicate (unat stackSize) 0) = Some (e + 3920, buf)"
    using process_stack [OF e(4,5) blank_stack] by blast
  let ?s = "s\<lparr>kheap := h, stacks := (stacks s)(e \<mapsto> buf)\<rparr>"
  have r1: "room (L(e \<mapsto> stackSize)) (k - 4160) (kheap ?s)" and r2: "352 \<le> k - 4160" using e(6) assms(2) by simp_all
  have par: "parent_of ?s = Some (lowWord s)" using assms(3) by (simp add: parent_of_def)
  obtain node p h' where n: "createPCBNode M IDLE_PID 1 READY e (e + 3920) (e + 3920) NULL stdPipes ?s =
      Some (node, with_process node p (new_pcb IDLE_PID 1 READY e (e + 3920) (e + 3920) NULL stdPipes (lowWord s)) h' ?s)"
    "distinct [p, node]" "set [p, node] \<inter> dom (L(e \<mapsto> stackSize)) = {}"
    "room (L(e \<mapsto> stackSize, node \<mapsto> sizeof_PCBNode, p \<mapsto> sizeof_PCB)) (k - 4160 - 352) h'"
    by (rule createPCBNode_idle [OF r1 r2 par, of 1 READY e "e + 3920" "e + 3920" NULL stdPipes])
  let ?c = "new_pcb IDLE_PID 1 READY e (e + 3920) (e + 3920) NULL stdPipes (lowWord s)"
  let ?r = "(with_process node p ?c h' ?s)\<lparr>idleProcPCBNode := node, head := NULL, tail := NULL, current := NULL,
    prev := NULL, pcbLen := 0\<rparr>"
  let ?L = "L(e \<mapsto> stackSize, node \<mapsto> sizeof_PCBNode, p \<mapsto> sizeof_PCB)"
  have "initializePCBList M idleProc s = Some ?r"
    using e(1) buf n(1) by (simp add: initializePCBList_def)
  moreover have "proc ?r node = Some ?c" "owns ?r node = [e, p, node]"
    using n(2) by (simp_all add: with_process_def proc_def owns_def new_pcb_def)
  then have "bare ?L ?r"
    using n(2,3) by (auto simp: bare_def new_pcb_def)
  moreover have "room ?L (k - 4512) (kheap ?r)" "nextPid ?r = nextPid s"
    using n(4) by (simp_all add: with_process_def)
  ultimately show ?thesis by blast
qed

text \<open>What is left of \<open>createProcess\<close> when its stack is set up.\<close>

lemma createProcess_room:
  assumes "room L k (kheap s)" "4160 \<le> k" "\<forall>a \<in> set argv. terminated a" "length argv * 8 + args_size argv \<le> 4096"
  obtains e h buf nm where
    "createProcess M argv rip pipes0 s = do {
       (ok, s3) \<leftarrow> addPCB M (nextPid s) e (e + 3920) (e + 4080) nm pipes0
         (s\<lparr>kheap := h, stacks := (stacks s)(e \<mapsto> buf), nextPid := nextPid s + 1\<rparr>);
       Some (if ok then e + 3920 else NULL, s3) }"
    "e + 3920 \<noteq> NULL" "e \<notin> dom L" "room (L(e \<mapsto> stackSize)) (k - 4160) h"
proof -
  obtain e h where e: "stackAlloc M s = Some (e + 4080, e, s\<lparr>kheap := h, stacks := (stacks s)(e \<mapsto> replicate (unat stackSize) 0)\<rparr>)"
    "e \<noteq> NULL" "e \<notin> dom L" "8 dvd unat e" "unat e + 4096 < 2 ^ 63" "room (L(e \<mapsto> stackSize)) (k - 4160) h"
    using stackAlloc_room [OF assms(1,2)] .
  obtain buf1 where b1: "copyArgs e 0 (length argv * 8) argv (replicate (unat stackSize) 0) = Some buf1" "length buf1 = 4096"
    using copyArgs_ok [OF assms(3), of 0 "length argv * 8" "replicate (unat stackSize) 0" e] assms(4)
    unfolding blank_stack by auto
  obtain buf2 where b2: "initializeProcessStack (word_of_nat (length argv)) e rip (e + 4080) e buf1 = Some (e + 3920, buf2)"
    using process_stack [OF e(4,5) b1(2)] by blast
  have "unat (e + 3920) = unat e + 3920" using e(5) by (simp add: unat_plus)
  then have "e + 3920 \<noteq> NULL" by (metis add_is_0 unat_0 zero_neq_numeral)
  moreover have "createProcess M argv rip pipes0 s = do {
       (ok, s3) \<leftarrow> addPCB M (nextPid s) e (e + 3920) (e + 4080) (read_le64 buf2) pipes0
         (s\<lparr>kheap := h, stacks := (stacks s)(e \<mapsto> buf2), nextPid := nextPid s + 1\<rparr>);
       Some (if ok then e + 3920 else NULL, s3) }"
    using e(1) b1(1) b2 by (auto simp: createProcess_def Let_def intro!: Option.bind_cong)
  ultimately show ?thesis using that e(3,6) by blast
qed

text \<open>The first process.\<close>

lemma createInit_kinv:
  assumes b: "bare L s" and r: "room L k (kheap s)" "70192 \<le> k" and pid0: "nextPid s \<noteq> IDLE_PID"
  shows "\<exists>rsp0 s' n c L'. createInit M rip s = Some (rsp0, s') \<and> rsp0 \<noteq> NULL \<and> kinv ok L' s' [n] [n] \<and>
    room L' (k - 70192) (kheap s') \<and> current s' = n \<and> proc s' n = Some c \<and> pid c = nextPid s \<and>
    state c = READY \<and> priority c = 1 \<and> pipes c = stdPipes \<and> parentProc c = NULL \<and>
    currentPCB s' = Some (processInForeground s') \<and> nextPid s' = nextPid s + 1"
proof -
  obtain ci where idle: "current s = NULL" "head s = NULL" "pcbLen s = 0" "proc s (idleProcPCBNode s) = Some ci"
    "pid ci = IDLE_PID" "distinct (owns s (idleProcPCBNode s))" "set (owns s (idleProcPCBNode s)) \<subseteq> dom L"
    using b by (auto simp: bare_def)
  have k0: "4160 \<le> k" using r(2) by simp
  have args: "\<forall>a \<in> set [init_name]. terminated a" "length [init_name] * 8 + args_size [init_name] \<le> 4096"
    by (simp_all add: init_name_def args_size_def arg_len_def MAX_NAME_LENGTH_def)
  obtain e h buf nm where e: "createProcess M [init_name] rip stdPipes s = do {
       (ok, s3) \<leftarrow> addPCB M (nextPid s) e (e + 3920) (e + 4080) nm stdPipes
         (s\<lparr>kheap := h, stacks := (stacks s)(e \<mapsto> buf), nextPid := nextPid s + 1\<rparr>);
       Some (if ok then e + 3920 else NULL, s3) }"
    "e + 3920 \<noteq> NULL" "e \<notin> dom L" "room (L(e \<mapsto> stackSize)) (k - 4160) h"
    by (rule createProcess_room [OF r(1) k0 args, of rip stdPipes])
  let ?s = "s\<lparr>kheap := h, stacks := (stacks s)(e \<mapsto> buf), nextPid := nextPid s + 1\<rparr>"
  have r1: "room (L(e \<mapsto> stackSize)) (k - 4160) (kheap ?s)" "66032 \<le> k - 4160" using e(4) r(2) by simp_all
  have par: "parent_of ?s = Some (lowWord s)" using idle(1) by (simp add: parent_of_def)
  obtain node p hp fl fe n h' c L' where n: "createPCBNode M (nextPid s) 1 READY e (e + 3920) (e + 4080) nm stdPipes ?s =
      Some (node, with_process node p c h' ?s)"
    "c = (new_pcb (nextPid s) 1 READY e (e + 3920) (e + 4080) nm stdPipes (lowWord s))
       \<lparr>heap := hp, freeListStart := fl, freeListEnd := fe, bytesAvailable := n\<rparr>"
    "distinct [hp, fl, p, node]" "set [hp, fl, p, node] \<inter> dom (L(e \<mapsto> stackSize)) = {}" "NULL \<notin> set [hp, fl, p, node]"
    "L' = L(e \<mapsto> stackSize, node \<mapsto> sizeof_PCBNode, p \<mapsto> sizeof_PCB, hp \<mapsto> ucast PROCESS_HEAP_SIZE, fl \<mapsto> sizeof_Block)"
    "room L' (k - 4160 - 66032) h'"
    by (rule createPCBNode_room [OF r1 par pid0])
  let ?c = "c\<lparr>parentProc := NULL\<rparr>"
  let ?s' = "(with_process node p ?c h' ?s)\<lparr>nodes := (nodes s)(node \<mapsto> \<lparr>pcb = p, nextNode = node\<rparr>), head := node,
    tail := node, current := node, prev := node, pcbLen := 1, processInForeground := p\<rparr>"
  have c: "pid c = nextPid s" "state c = READY" "priority c = 1" "pipes c = stdPipes" "heap c = hp"
    "freeListStart c = fl" "stack c = e" "\<not> heapFreed c"
    using n(2) by (simp_all add: new_pcb_def)
  have "createInit M rip s = Some (e + 3920, ?s')"
    using e(1,2) n(1,3,5) idle(1-3)
    by (simp add: createInit_def init_name_def [symmetric] addPCB_def with_process_def upd_node_def upd_pcb_def nextPCB_def
      currentPCB_def Let_def)
  moreover have at: "proc ?s' node = Some ?c" "owns ?s' node = [hp, fl, e, p, node]"
    using c pid0 by (simp_all add: with_process_def proc_def owns_def)
  obtain x where x: "nodes s (idleProcPCBNode s) = Some x" "pcbs s (pcb x) = Some ci"
    using idle(4) by (auto simp: proc_def split: bind_splits)
  have "idleProcPCBNode s \<in> dom L" "pcb x \<in> dom L"
    using idle(7) owns_self [of "idleProcPCBNode s" s] owns_pcb [OF x(1)] by auto
  then have apart: "node \<noteq> idleProcPCBNode s" "p \<noteq> pcb x" using n(4) by auto
  then have same: "proc ?s' (idleProcPCBNode s) = Some ci" "owns ?s' (idleProcPCBNode s) = owns s (idleProcPCBNode s)"
    using x by (simp_all add: with_process_def proc_def owns_def)
  have "table ?s' [node] [node]"
    using at(1) same(1) c(1) pid0 by (simp add: table_def ring_def rotated_refl with_process_def)
  moreover have own: "owned ?s' [node] = owns s (idleProcPCBNode s) @ [hp, fl, e, p, node]"
    using at(2) same(2) by (simp add: owned_def with_process_def)
  have "distinct (owned ?s' [node])" "set (owned ?s' [node]) \<subseteq> dom L'"
    unfolding own using idle(6,7) e(3) n(3,4,6) by auto
  moreover have "ok L' (kheap ?s')" "room L' (k - 70192) (kheap ?s')"
    using room_ok [OF n(7)] n(7) by (simp_all add: with_process_def)
  moreover have "NULL \<notin> dom L'" using null_free [OF room_ok [OF n(7)]] .
  ultimately have "kinv ok L' ?s' [node] [node]" by (simp add: kinv_def)
  then show ?thesis
    using \<open>createInit M rip s = Some (e + 3920, ?s')\<close> e(2) \<open>room L' (k - 70192) (kheap ?s')\<close> at(1) c
    by (intro exI [of _ "e + 3920"] exI [of _ ?s'] exI [of _ node] exI [of _ ?c] exI [of _ L'])
      (simp add: with_process_def currentPCB_def)
qed

end

section \<open>Further processes\<close>

lemma same_processes:
  "nodes t = nodes s \<Longrightarrow> pcbs t = pcbs s \<Longrightarrow> proc t n = proc s n \<and> owns t n = owns s n"
  by (auto simp: proc_def owns_def split: option.split)

lemma kinv_grow:
  assumes "kinv ok L s ns cs" "ok (L(e \<mapsto> n)) h" "e \<noteq> NULL"
  shows "kinv ok (L(e \<mapsto> n)) (s\<lparr>kheap := h, stacks := S, nextPid := i\<rparr>) ns cs"
proof -
  let ?s = "s\<lparr>kheap := h, stacks := S, nextPid := i\<rparr>"
  have "proc ?s = proc s" "owns ?s = owns s" using same_processes [of ?s s] by (auto simp: fun_eq_iff)
  then have "table ?s ns cs = table s ns cs" "owned ?s ns = owned s ns" by (simp_all add: table_def owned_def)
  then show ?thesis using assms unfolding kinv_def by auto
qed

context kernel_room
begin

lemma addPCB_room:
  assumes inv: "kinv ok L s ns cs" and r: "room L k (kheap s)" "66032 \<le> k" and pid0: "pid0 \<noteq> IDLE_PID"
  shows "\<exists>s'. addPCB M pid0 stack0 rsp0 rbp0 name0 pipes0 s = Some (True, s')"
proof -
  obtain par where par: "parent_of s = Some par" using parent_known [OF inv] by blast
  obtain node p hp fl fe n h' c L' where n: "createPCBNode M pid0 1 READY stack0 rsp0 rbp0 name0 pipes0 s =
      Some (node, with_process node p c h' s)" "set [hp, fl, p, node] \<inter> dom L = {}" "NULL \<notin> set [hp, fl, p, node]"
    by (rule createPCBNode_room [OF r par pid0])
  note D = kinvD [OF inv]
  have "ns \<noteq> []" using D(11,12) by auto
  then have "head s \<in> set cs" "tail s \<in> set cs" using D(3,12) by (auto simp: table_def)
  moreover obtain d where "nodes s (tail s) = Some d" using proc_some [OF inv] calculation(2) by blast
  ultimately show ?thesis
    using n D(9) by (auto simp: addPCB_def with_process_def upd_node_def Let_def)
qed

lemma createUserProcess_kinv:
  assumes inv: "kinv ok L s ns cs" and r: "room L k (kheap s)" "70192 \<le> k" and pid0: "nextPid s \<noteq> IDLE_PID"
    and args: "\<forall>a \<in> set argv. terminated a" "length argv * 8 + args_size argv \<le> 4096"
  shows "\<exists>s' node c L' us vs. createUserProcessWithPipeSwap M argv rip pipes0 s = Some (sint (nextPid s), s') \<and>
    ns = us @ vs \<and> cs = vs @ us \<and> vs \<noteq> [] \<and> kinv ok L' s' (ns @ [node]) (vs @ [node] @ us) \<and>
    current s' = current s \<and> proc s' node = Some c \<and> pid c = nextPid s \<and> state c = READY \<and> pipes c = pipes0 \<and>
    (\<forall>n \<in> insert (idleProcPCBNode s) (set cs). proc s' n = proc s n)"
proof -
  have k0: "4160 \<le> k" using r(2) by simp
  obtain e h buf nm where e: "createProcess M argv rip pipes0 s = do {
       (ok, s3) \<leftarrow> addPCB M (nextPid s) e (e + 3920) (e + 4080) nm pipes0
         (s\<lparr>kheap := h, stacks := (stacks s)(e \<mapsto> buf), nextPid := nextPid s + 1\<rparr>);
       Some (if ok then e + 3920 else NULL, s3) }"
    "e + 3920 \<noteq> NULL" "e \<notin> dom L" "room (L(e \<mapsto> stackSize)) (k - 4160) h"
    by (rule createProcess_room [OF r(1) k0 args, of rip pipes0])
  let ?s = "s\<lparr>kheap := h, stacks := (stacks s)(e \<mapsto> buf), nextPid := nextPid s + 1\<rparr>"
  have ok1: "ok (L(e \<mapsto> stackSize)) h" using room_ok [OF e(4)] .
  then have "e \<noteq> NULL" using null_free [OF ok1] by auto
  then have inv1: "kinv ok (L(e \<mapsto> stackSize)) ?s ns cs" by (rule kinv_grow [OF inv ok1])
  have r1: "room (L(e \<mapsto> stackSize)) (k - 4160) (kheap ?s)" "66032 \<le> k - 4160" using e(4) r(2) by simp_all
  obtain s1 where s1: "addPCB M (nextPid s) e (e + 3920) (e + 4080) nm pipes0 ?s = Some (True, s1)"
    using addPCB_room [OF inv1 r1 pid0] by blast
  have fresh: "e \<in> dom (L(e \<mapsto> stackSize))" "e \<notin> set (owned ?s ns)"
  proof -
    have "owns ?s = owns s" using same_processes [of ?s s] by (auto simp: fun_eq_iff)
    then have "owned ?s ns = owned s ns" by (simp add: owned_def)
    then show "e \<notin> set (owned ?s ns)" using kinvD(5) [OF inv] e(3) by auto
  qed simp
  from inv1 pid0 fresh show ?thesis
  proof (rule addPCB_cases [of "L(e \<mapsto> stackSize)" ?s ns cs "nextPid s" e "e + 3920" "e + 4080" nm pipes0])
    fix node p c h' d L' us vs
    let ?t = "linked node p c h' d ?s"
    assume a: "addPCB M (nextPid s) e (e + 3920) (e + 4080) nm pipes0 ?s = Some (True, ?t)"
      "nodes ?s (tail ?s) = Some d" "ns = us @ vs" "cs = vs @ us" "vs \<noteq> []"
      "kinv ok L' ?t (ns @ [node]) (vs @ [node] @ us)"
      "node \<notin> dom (L(e \<mapsto> stackSize))" "p \<notin> dom (L(e \<mapsto> stackSize))" "node \<noteq> p" "node \<noteq> tail ?s"
      "pid c = nextPid s" "state c = READY" "\<not> heapFreed c" "pipes c = pipes0"
    have "createUserProcessWithPipeSwap M argv rip pipes0 s = Some (sint (nextPid s), ?t)"
      using e(1,2) a(1) by (simp add: createUserProcessWithPipeSwap_def linked_def)
    moreover have "proc ?t node = Some c"
      using linked_new(1) [OF a(10) _ a(13)] a(11) pid0 by simp
    moreover have "\<forall>n \<in> insert (idleProcPCBNode s) (set cs). proc ?t n = proc s n"
    proof
      fix n assume "n \<in> insert (idleProcPCBNode s) (set cs)"
      then have "proc ?t n = proc ?s n" using linked_keeps(1) [OF inv1 a(7,8,9,2)] by simp
      then show "proc ?t n = proc s n" by (simp add: proc_def)
    qed
    moreover have "current ?t = current s" by (simp add: linked_def)
    ultimately show ?thesis using a
      by (intro exI [of _ ?t] exI [of _ node] exI [of _ c] exI [of _ L'] exI [of _ us] exI [of _ vs]) simp
  qed (use s1 in simp_all)
qed

end

end
