(* ===== verification/Boot.thy ===== *)
theory Boot
  imports Machine SchedBoot SchedProps
begin

text \<open>
  The start of the system (\<open>main\<close> of \<open>Kernel/c/kernel.c\<close>, theory \<open>Machine\<close>) over the free-list manager,
  the interrupt table and the speaker.
\<close>

interpretation kernel_space: kernel_room freelist_mm freelist_ok freelist_room ..

section \<open>The first processes\<close>

lemma fresh_room:
  assumes "0 < a" "a + unat sz + 7 \<le> 2 ^ 63" "8 dvd unat sz" "32 \<le> unat sz"
    "st + 16 \<le> aligned_start a \<or> aligned_start a + unat sz \<le> st" "st + 16 \<le> 2 ^ 64"
  shows "freelist_room Map.empty (unat sz - 16) (internalFreeListInit m (wd a) sz (wd st))"
proof -
  have "holding [(aligned_start a, unat sz - 16)] (aligned_start a) (internalFreeListInit m (wd a) sz (wd st), [])"
    using internalFreeListInit_rel [OF assms] by (simp add: holding_def)
  then show ?thesis unfolding freelist_room_def
    by (intro exI [of _ "aligned_start a"] exI [of _ "[]"] exI [of _ "[(aligned_start a, unat sz - 16)]"]) simp
qed

definition speaker_name :: "byte list" where "speaker_name = [115, 112, 101, 97, 107, 101, 114, 0]"


text \<open>A kernel that has just been cleared, with one megabyte of memory at 6 MB.\<close>

definition cleared_kernel :: "heap kernel" where
  "cleared_kernel = \<lparr>pcbs = Map.empty, nodes = Map.empty, head = NULL, tail = NULL, current = NULL, prev = NULL,
     pcbLen = 0, idleProcPCBNode = NULL, processInForeground = NULL, quantumsLeft = 0, nextPid = 0,
     stacks = Map.empty, kheap = internalFreeListInit (\<lambda>_. 0) (wd 0x600000) 0x100000 (wd 256), lowWord = 0\<rparr>"


section \<open>The interrupt table\<close>

definition handler_address :: "InterruptionDescriptor \<Rightarrow> u64" where
  "handler_address d = ucast (offset_0_15 d) OR push_bit 16 (ucast (offset_16_31 d)) OR push_bit 32 (ucast (offset_32_63 d))"

lemma setupIdtEntry_address: "handler_address (setupIdtEntry i a idt i) = a"
proof -
  have m: "(0xFFFF :: u64) = mask 16" "(0xFFFFFFFF :: u64) = mask 32" by (simp_all add: mask_eq_exp_minus_1)
  have "ucast (ucast (a AND 0xFFFF) :: 16 word) = take_bit 16 a"
    "ucast (ucast (drop_bit 16 a AND 0xFFFF) :: 16 word) = take_bit 16 (drop_bit 16 a)"
    "ucast (ucast (drop_bit 32 a AND 0xFFFFFFFF) :: u32) = take_bit 32 (drop_bit 32 a)"
    unfolding m by (auto intro!: bit_eqI simp: bit_simps)
  then have e: "handler_address (setupIdtEntry i a idt i) =
      take_bit 16 a OR push_bit 16 (take_bit 16 (drop_bit 16 a)) OR push_bit 32 (take_bit 32 (drop_bit 32 a))"
    by (simp add: handler_address_def setupIdtEntry_def)
  show ?thesis unfolding e
  proof (rule bit_word_eqI)
    fix n assume n: "n < LENGTH(64)"
    consider "n < 16" | "16 \<le> n" "n < 32" | "32 \<le> n" by linarith
    then show "bit (take_bit 16 a OR push_bit 16 (take_bit 16 (drop_bit 16 a)) OR push_bit 32 (take_bit 32 (drop_bit 32 a))) n = bit a n"
      using n by cases (simp_all add: bit_simps less_diff_conv2)
  qed
qed

lemma setupIdtEntry_upd: "setupIdtEntry i a idt = idt(i := setupIdtEntry 0 a idt 0)"
  by (simp add: setupIdtEntry_def)

lemma setupIdtEntry_flags: "segmentSelector (setupIdtEntry i a idt i) = 8" "accessPrivileges (setupIdtEntry i a idt i) = 0x8E"
  by (simp_all add: setupIdtEntry_def ACS_INT_def)

text \<open>
  The processor finds every handler that \<open>loadIdt\<close> sets up at its address, through a descriptor that
  is present and of ring 0, and the two interrupt lines that are left open are those of the timer and
  the keyboard.
\<close>

theorem loadIdt_handlers:
  "list_all (\<lambda>(i, f). handler_address (fst (loadIdt address idt) i) = address f \<and>
      segmentSelector (fst (loadIdt address idt) i) = 8 \<and> accessPrivileges (fst (loadIdt address idt) i) = 0x8E)
    idt_handlers \<and>
   {i. fst (loadIdt address idt) i \<noteq> idt i} \<subseteq> fst ` set idt_handlers \<and>
   {k. k < 16 \<and> \<not> bit (snd (loadIdt address idt)) k} = {0, 1}"
proof (intro conjI)
  let ?d = "\<lambda>f idt. setupIdtEntry 0 (address f) idt 0"
  show "list_all (\<lambda>(i, f). handler_address (fst (loadIdt address idt) i) = address f \<and>
      segmentSelector (fst (loadIdt address idt) i) = 8 \<and> accessPrivileges (fst (loadIdt address idt) i) = 0x8E)
    idt_handlers"
    by (simp add: loadIdt_def idt_handlers_def setupIdtEntry_upd [of "Suc 0"] setupIdtEntry_upd [of "numeral k" for k]
      setupIdtEntry_address setupIdtEntry_flags)
  show "{i. fst (loadIdt address idt) i \<noteq> idt i} \<subseteq> fst ` set idt_handlers"
    by (auto simp: loadIdt_def idt_handlers_def setupIdtEntry_def)
  have "bit (0xFFFC :: 16 word) k \<longleftrightarrow> 2 \<le> k" if "k < 16" for k
    using that by (auto simp: less_Suc_eq numeral_eq_Suc)
  then show "{k. k < 16 \<and> \<not> bit (snd (loadIdt address idt)) k} = {0, 1}"
    by (auto simp: loadIdt_def TIMER_TICK_MASK_def KEYBOARD_MASK_def)
qed

end
