(* ===== verification/Buddy.thy ===== *)
theory Buddy
  imports Prelude
begin

text \<open>
  The other memory manager, \<open>Kernel/c/buddyMM.c\<close> (built when \<open>BUDDY\<close> is defined). Memory is the
  \<open>Block\<close> structures in it, by address; a heap is that memory with its array \<open>freeList\<close>, one list for
  each order. \<open>None\<close> is a loop that never ends or an access out of bounds: a block that is split below
  the size of its structure, whose halves would overlap, is one.
\<close>

unbundle bit_operations_syntax

section \<open>The structures\<close>

record block =
  bnext :: addr
  bsize :: u32
  isFree :: bool

type_synonym block_memory = "addr \<Rightarrow> block"

record buddy_heap =
  bmem :: block_memory
  freeList :: "addr list"

definition sizeof_BuddyBlock :: u64 where "sizeof_BuddyBlock = 16"
definition ORDER_COUNT :: nat where "ORDER_COUNT = 27"
definition BUDDY_MAX_MEMORY :: u32 where "BUDDY_MAX_MEMORY = push_bit (ORDER_COUNT - 1) 1"
definition PROCESS_HEAP_ORDER_COUNT :: nat where "PROCESS_HEAP_ORDER_COUNT = 17"

definition set_block :: "addr \<Rightarrow> (block \<Rightarrow> block) \<Rightarrow> buddy_heap \<Rightarrow> buddy_heap" where
  "set_block b f h = h\<lparr>bmem := (bmem h)(b := f (bmem h b))\<rparr>"

text \<open>\<open>freeList[order]\<close>\<close>

definition list_at :: "buddy_heap \<Rightarrow> nat \<Rightarrow> addr option" where
  "list_at h order = (if order < length (freeList h) then Some (freeList h ! order) else None)"

definition set_list :: "nat \<Rightarrow> addr \<Rightarrow> buddy_heap \<Rightarrow> buddy_heap option" where
  "set_list order b h =
     (if order < length (freeList h) then Some (h\<lparr>freeList := (freeList h)[order := b]\<rparr>) else None)"

section \<open>Initialisation\<close>

definition buddyFreeListInit :: "nat \<Rightarrow> addr \<Rightarrow> u32 \<Rightarrow> block_memory \<Rightarrow> buddy_heap" where
  "buddyFreeListInit orderCount heapStart heapSize m =
     (let initialBlock = (heapStart + 8 - 1) AND NOT (8 - 1)
      in \<lparr>bmem = m(initialBlock := \<lparr>bnext = NULL, bsize = heapSize, isFree = True\<rparr>),
          freeList = (replicate orderCount NULL)[orderCount - 1 := initialBlock]\<rparr>)"

definition buddyInit :: "addr \<Rightarrow> block_memory \<Rightarrow> buddy_heap" where
  "buddyInit heapStart m = buddyFreeListInit PROCESS_HEAP_ORDER_COUNT heapStart (push_bit (PROCESS_HEAP_ORDER_COUNT - 1) 1) m"

definition buddyMemoryInit :: "addr \<Rightarrow> block_memory \<Rightarrow> buddy_heap" where
  "buddyMemoryInit endOfModules m = buddyFreeListInit ORDER_COUNT endOfModules BUDDY_MAX_MEMORY m"

section \<open>Allocation\<close>

text \<open>The loop of \<open>getOrder\<close>: \<open>iniBlockSize\<close> wraps around to 0 after \<open>2 ^ 31\<close>.\<close>

partial_function (option) getOrder_loop :: "u32 \<Rightarrow> u32 \<Rightarrow> u32 \<Rightarrow> u32 option" where
  "getOrder_loop sz order iniBlockSize =
     (if iniBlockSize < sz then getOrder_loop sz (order + 1) (push_bit 1 iniBlockSize) else Some order)"

declare getOrder_loop.simps [code]

definition getOrder :: "u32 \<Rightarrow> nat option" where
  "getOrder sz = map_option unat (getOrder_loop sz 0 1)"

definition splitBlock :: "addr \<Rightarrow> buddy_heap \<Rightarrow> (addr \<times> buddy_heap) option" where
  "splitBlock b h =
     (let newBlockSize = bsize (bmem h b) div 2;
          h1 = set_block b (\<lambda>x. x\<lparr>bsize := newBlockSize\<rparr>) h;
          buddy = b + ucast newBlockSize
      in if newBlockSize < 16 then None
         else Some (buddy, set_block buddy (\<lambda>x. x\<lparr>bsize := newBlockSize, isFree := True\<rparr>) h1))"

fun halving_loop :: "nat \<Rightarrow> nat \<Rightarrow> addr \<Rightarrow> buddy_heap \<Rightarrow> buddy_heap option" where
  "halving_loop order 0 b h = Some h"
| "halving_loop order (Suc currentOrder) b h =
     (if order < Suc currentOrder
      then do {
        (buddy, h1) \<leftarrow> splitBlock b h;
        l \<leftarrow> list_at h1 currentOrder;
        h2 \<leftarrow> set_list currentOrder buddy (set_block buddy (\<lambda>x. x\<lparr>bnext := l\<rparr>) h1);
        halving_loop order currentOrder b h2 }
      else Some h)"

text \<open>The loop over the orders, of which \<open>n\<close> are left from \<open>currentOrder\<close> on.\<close>

fun order_loop :: "nat \<Rightarrow> nat \<Rightarrow> nat \<Rightarrow> buddy_heap \<Rightarrow> (addr \<times> buddy_heap) option" where
  "order_loop order currentOrder 0 h = Some (NULL, h)"
| "order_loop order currentOrder (Suc n) h = do {
     b \<leftarrow> list_at h currentOrder;
     if b \<noteq> NULL \<and> isFree (bmem h b)
     then do {
       h1 \<leftarrow> set_list currentOrder (bnext (bmem h b)) h;
       h2 \<leftarrow> halving_loop order currentOrder b h1;
       Some (b + sizeof_BuddyBlock, set_block b (\<lambda>x. x\<lparr>isFree := False\<rparr>) h2) }
     else order_loop order (Suc currentOrder) n h }"

definition buddyMalloc :: "u64 \<Rightarrow> nat \<Rightarrow> buddy_heap \<Rightarrow> (addr \<times> buddy_heap) option" where
  "buddyMalloc sz orderCount h = do {
     order \<leftarrow> getOrder (ucast (sz + sizeof_BuddyBlock));
     order_loop order order (orderCount - order) h }"

definition buddyGlobalMalloc :: "u64 \<Rightarrow> buddy_heap \<Rightarrow> (addr \<times> buddy_heap) option" where
  "buddyGlobalMalloc sz h = buddyMalloc sz ORDER_COUNT h"

definition buddyProcessMalloc :: "u64 \<Rightarrow> buddy_heap \<Rightarrow> (addr \<times> buddy_heap) option" where
  "buddyProcessMalloc sz h = buddyMalloc sz PROCESS_HEAP_ORDER_COUNT h"

section \<open>Release\<close>

text \<open>The walk of \<open>removeFromFreeList\<close>: the block whose successor is \<open>toRemove\<close>, or \<open>NULL\<close>.\<close>

partial_function (option) before_block :: "block_memory \<Rightarrow> addr \<Rightarrow> addr \<Rightarrow> addr option" where
  "before_block m toRemove currentBlock =
     (if currentBlock \<noteq> NULL \<and> bnext (m currentBlock) \<noteq> toRemove
      then before_block m toRemove (bnext (m currentBlock)) else Some currentBlock)"

declare before_block.simps [code]

definition removeFromFreeList :: "addr \<Rightarrow> nat \<Rightarrow> buddy_heap \<Rightarrow> buddy_heap option" where
  "removeFromFreeList toRemove order h = do {
     let h1 = set_block toRemove (\<lambda>x. x\<lparr>isFree := False\<rparr>) h;
     l \<leftarrow> list_at h1 order;
     if l = toRemove then set_list order (bnext (bmem h1 toRemove)) h1
     else do {
       currentBlock \<leftarrow> before_block (bmem h1) toRemove l;
       let h2 = (if currentBlock \<noteq> NULL
                 then set_block currentBlock (\<lambda>x. x\<lparr>bnext := bnext (bmem h1 toRemove)\<rparr>) h1 else h1);
       Some (set_block toRemove (\<lambda>x. x\<lparr>bnext := NULL\<rparr>) h2) } }"

datatype blockAlignment = LEFT | RIGHT

text \<open>The distance is cut to 32 bits; a division by 0 is a fault.\<close>

definition getAlignment :: "addr \<Rightarrow> addr \<Rightarrow> buddy_heap \<Rightarrow> blockAlignment option" where
  "getAlignment b heapStart h =
     (if bsize (bmem h b) = 0 then None
      else Some (if (ucast (b - heapStart) :: u32) div bsize (bmem h b) mod 2 = 0 then LEFT else RIGHT))"

partial_function (option) mergeBlock :: "addr \<Rightarrow> nat \<Rightarrow> addr \<Rightarrow> u64 \<Rightarrow> buddy_heap \<Rightarrow> buddy_heap option" where
  "mergeBlock b order heapStart maxMem h =
     (if ucast (bsize (bmem h b)) = maxMem then set_list order b h
      else do {
        side \<leftarrow> getAlignment b heapStart h;
        let buddy = (if side = LEFT then b + ucast (bsize (bmem h b)) else b - ucast (bsize (bmem h b)));
        if buddy = NULL \<or> \<not> isFree (bmem h buddy) \<or> bsize (bmem h buddy) \<noteq> bsize (bmem h b)
        then do {
          l \<leftarrow> list_at h order;
          set_list order b (set_block b (\<lambda>x. x\<lparr>bnext := l\<rparr>) h) }
        else do {
          h1 \<leftarrow> removeFromFreeList b order h;
          h2 \<leftarrow> removeFromFreeList buddy order h1;
          let b' = (if side = RIGHT then buddy else b);
          mergeBlock b' (Suc order) heapStart maxMem
            (set_block b' (\<lambda>x. x\<lparr>bsize := bsize x * 2, isFree := True\<rparr>) h2) } })"

declare mergeBlock.simps [code]

definition buddyFree :: "addr \<Rightarrow> addr \<Rightarrow> u64 \<Rightarrow> buddy_heap \<Rightarrow> buddy_heap option" where
  "buddyFree ptr heapStart maxMem h =
     (if ptr = NULL then Some h
      else do {
        let b = ptr - sizeof_BuddyBlock;
        let h1 = set_block b (\<lambda>x. x\<lparr>isFree := True\<rparr>) h;
        order \<leftarrow> getOrder (bsize (bmem h1 b));
        mergeBlock b order heapStart maxMem h1 })"

definition buddyGlobalFree :: "addr \<Rightarrow> addr \<Rightarrow> buddy_heap \<Rightarrow> buddy_heap option" where
  "buddyGlobalFree iniAddress ptr h = buddyFree ptr iniAddress (ucast BUDDY_MAX_MEMORY) h"

text \<open>A pointer outside the heap of the process is ignored.\<close>

definition buddyProcessFree :: "addr \<Rightarrow> addr \<Rightarrow> buddy_heap \<Rightarrow> buddy_heap option" where
  "buddyProcessFree heapStart ptr h =
     (if ptr = NULL then Some h
      else if ptr < heapStart \<or> ptr \<ge> heapStart + push_bit (PROCESS_HEAP_ORDER_COUNT - 1) 1 then Some h
      else buddyFree ptr heapStart (push_bit (PROCESS_HEAP_ORDER_COUNT - 1) 1) h)"

section \<open>The report\<close>

text \<open>The sums over the lists: the free bytes and the number of blocks, as 32-bit numbers.\<close>

partial_function (option) list_totals :: "block_memory \<Rightarrow> addr \<Rightarrow> u32 \<times> u32 \<Rightarrow> (u32 \<times> u32) option" where
  "list_totals m currentBlock tot =
     (if currentBlock \<noteq> NULL
      then list_totals m (bnext (m currentBlock)) (fst tot + bsize (m currentBlock), snd tot + 1)
      else Some tot)"

declare list_totals.simps [code]

fun totals :: "block_memory \<Rightarrow> addr list \<Rightarrow> u32 \<times> u32 \<Rightarrow> (u32 \<times> u32) option" where
  "totals m [] tot = Some tot"
| "totals m (l # ls) tot = do { tot1 \<leftarrow> list_totals m l tot; totals m ls tot1 }"

end
