(* ===== verification/BuddySpec.thy ===== *)
theory BuddySpec
  imports Main
begin

text \<open>
  What the buddy memory manager (\<open>Kernel/c/buddyMM.c\<close>) promises, stated on offsets from the start of
  the heap: a heap of \<open>2 ^ K\<close> bytes is tiled by blocks whose sizes are powers of two and whose offsets
  are multiples of their sizes; a block is split into two halves, and a free block is merged with its
  buddy, the other half of the block they both come from.
\<close>

text \<open>Offset and order of a block.\<close>

type_synonym bblk = "nat \<times> nat"

definition extent :: "bblk \<Rightarrow> nat set" where
  "extent x = {fst x..<fst x + 2 ^ snd x}"

definition dyadic :: "nat \<Rightarrow> bblk \<Rightarrow> bool" where
  "dyadic K x \<longleftrightarrow> 2 ^ snd x dvd fst x \<and> snd x \<le> K \<and> fst x + 2 ^ snd x \<le> 2 ^ K"

definition tiling :: "nat \<Rightarrow> bblk set \<Rightarrow> bool" where
  "tiling K B \<longleftrightarrow> (\<forall>x \<in> B. dyadic K x) \<and> (\<forall>x \<in> B. \<forall>y \<in> B. x \<noteq> y \<longrightarrow> extent x \<inter> extent y = {}) \<and>
     (\<Union>x \<in> B. extent x) = {..<2 ^ K}"

lemma tilingD:
  assumes "tiling K B"
  shows "x \<in> B \<Longrightarrow> dyadic K x" "x \<in> B \<Longrightarrow> y \<in> B \<Longrightarrow> x \<noteq> y \<Longrightarrow> extent x \<inter> extent y = {}"
    "(\<Union>x \<in> B. extent x) = {..<2 ^ K}"
  using assms by (auto simp: tiling_def)

lemma mem_extent:
  assumes "2 ^ snd x dvd fst x"
  shows "z \<in> extent x \<longleftrightarrow> z div 2 ^ snd x = fst x div 2 ^ snd x"
proof -
  obtain q where q: "fst x = q * 2 ^ snd x" using assms by (metis dvd_def mult.commute)
  have "z \<in> extent x \<longleftrightarrow> q * 2 ^ snd x \<le> z \<and> z < q * 2 ^ snd x + 2 ^ snd x" by (auto simp: extent_def q)
  also have "\<dots> \<longleftrightarrow> z div 2 ^ snd x = q"
  proof
    assume z: "q * 2 ^ snd x \<le> z \<and> z < q * 2 ^ snd x + 2 ^ snd x"
    show "z div 2 ^ snd x = q" by (rule div_nat_eqI) (use z in \<open>simp_all add: mult.commute\<close>)
  next
    assume z: "z div 2 ^ snd x = q"
    have "z mod 2 ^ snd x < 2 ^ snd x" by (rule mod_less_divisor) simp
    then show "q * 2 ^ snd x \<le> z \<and> z < q * 2 ^ snd x + 2 ^ snd x"
      using div_mult_mod_eq [of z "2 ^ snd x"] unfolding z by linarith
  qed
  finally show ?thesis by (simp add: q)
qed

lemma self_extent: "fst x \<in> extent x"
  by (simp add: extent_def)

text \<open>Two such blocks are nested or apart.\<close>

lemma nested:
  assumes "2 ^ snd x dvd fst x" "2 ^ snd y dvd fst y" "snd x \<le> snd y" "extent x \<inter> extent y \<noteq> {}"
  shows "extent x \<subseteq> extent y"
proof
  fix w assume w: "w \<in> extent x"
  obtain z where z: "z \<in> extent x" "z \<in> extent y" using assms(4) by blast
  have up: "v div 2 ^ snd y = (v div 2 ^ snd x) div 2 ^ (snd y - snd x)" for v :: nat
    using assms(3) by (simp add: div_mult2_eq [symmetric] power_add [symmetric])
  have "w div 2 ^ snd x = z div 2 ^ snd x" using w z(1) mem_extent [OF assms(1)] by simp
  then have "w div 2 ^ snd y = z div 2 ^ snd y" unfolding up by simp
  then show "w \<in> extent y" using z(2) mem_extent [OF assms(2)] by simp
qed

section \<open>Buddies\<close>

definition left_half :: "bblk \<Rightarrow> bool" where
  "left_half x \<longleftrightarrow> even (fst x div 2 ^ snd x)"

definition sib :: "bblk \<Rightarrow> bblk" where
  "sib x = (if left_half x then fst x + 2 ^ snd x else fst x - 2 ^ snd x, snd x)"

definition parent :: "bblk \<Rightarrow> bblk" where
  "parent x = (if left_half x then fst x else fst x - 2 ^ snd x, Suc (snd x))"

lemma left_half_iff:
  assumes "2 * 2 ^ k dvd Q"
  shows "left_half (Q, k)" "\<not> left_half (Q + 2 ^ k, k)"
proof -
  obtain q where q: "Q = 2 * q * 2 ^ k" using assms by (auto elim!: dvdE simp: mult_ac)
  have "Q div 2 ^ k = 2 * q" unfolding q by simp
  moreover have "(Q + 2 ^ k) div 2 ^ k = 2 * q + 1" unfolding q by (simp add: div_add_self2)
  ultimately show "left_half (Q, k)" "\<not> left_half (Q + 2 ^ k, k)" by (simp_all add: left_half_def)
qed

lemma halves:
  assumes "dyadic K (a, k)" "k < K"
  obtains "left_half (a, k)" "2 * 2 ^ k dvd a" "a + 2 * 2 ^ k \<le> 2 ^ K"
  | Q where "\<not> left_half (a, k)" "a = Q + 2 ^ k" "2 * 2 ^ k dvd Q" "Q + 2 * 2 ^ k \<le> 2 ^ K"
proof -
  obtain r where r: "a = r * 2 ^ k" using assms(1) by (auto simp: dyadic_def elim!: dvdE)
  have K: "2 ^ K = 2 ^ (K - Suc k) * (2 * 2 ^ k :: nat)"
    using assms(2) by (simp flip: power_Suc power_add)
  have "(r + 1) * 2 ^ k \<le> 2 ^ (K - Suc k) * 2 * 2 ^ k"
    using assms(1) by (simp add: dyadic_def r K)
  then have r2: "r + 1 \<le> 2 ^ (K - Suc k) * 2" by (meson mult_le_cancel2 zero_less_numeral zero_less_power)
  obtain q where q: "r = 2 * q \<or> r = 2 * q + 1" by (metis oddE evenE)
  have "q + 1 \<le> 2 ^ (K - Suc k)" using r2 q by presburger
  then have "(q + 1) * (2 * 2 ^ k) \<le> 2 ^ K" unfolding K by (rule mult_le_mono1)
  then have Q: "q * (2 * 2 ^ k) + 2 * 2 ^ k \<le> 2 ^ K" by (simp add: add_mult_distrib)
  have dvd: "2 * 2 ^ k dvd q * (2 * 2 ^ k)" by (rule dvd_triv_right)
  from q show ?thesis
  proof
    assume "r = 2 * q"
    then have "a = q * (2 * 2 ^ k)" by (simp add: r)
    then show ?thesis using that(1) Q dvd left_half_iff(1) [OF dvd] by metis
  next
    assume "r = 2 * q + 1"
    then have "a = q * (2 * 2 ^ k) + 2 ^ k" by (simp add: r)
    then show ?thesis using that(2) Q dvd left_half_iff(2) [OF dvd] by metis
  qed
qed

lemma buddies:
  assumes "dyadic K x" "snd x < K"
  shows "dyadic K (sib x)" "dyadic K (parent x)" "extent (parent x) = extent x \<union> extent (sib x)"
    "extent x \<inter> extent (sib x) = {}" "sib (sib x) = x" "parent (sib x) = parent x" "sib x \<noteq> x"
    "left_half (sib x) \<longleftrightarrow> \<not> left_half x" "snd (sib x) = snd x"
proof -
  obtain a k where x: "x = (a, k)" by (cases x)
  let ?P = "\<lambda>x. dyadic K (sib x) \<and> dyadic K (parent x) \<and> extent (parent x) = extent x \<union> extent (sib x) \<and>
    extent x \<inter> extent (sib x) = {} \<and> sib (sib x) = x \<and> parent (sib x) = parent x \<and> sib x \<noteq> x \<and>
    (left_half (sib x) \<longleftrightarrow> \<not> left_half x) \<and> snd (sib x) = snd x"
  have "?P (a, k)"
    using assms [unfolded x snd_conv]
  proof (cases rule: halves)
    case 1
    have s: "sib (a, k) = (a + 2 ^ k, k)" using 1 by (simp add: sib_def)
    have n: "\<not> left_half (a + 2 ^ k, k)" by (rule left_half_iff(2) [OF 1(2)])
    have d: "2 ^ k dvd a" using 1(2) by (metis dvd_mult_right)
    show ?thesis
      unfolding s using 1 n d assms(2) x
      by (auto simp: dyadic_def parent_def sib_def extent_def)
  next
    case (2 Q)
    have s: "sib (a, k) = (Q, k)" using 2 by (simp add: sib_def)
    have n: "left_half (Q, k)" by (rule left_half_iff(1) [OF 2(3)])
    have d: "2 ^ k dvd Q" using 2(3) by (metis dvd_mult_right)
    show ?thesis
      unfolding s using 2 n d assms(2) x
      by (auto simp: dyadic_def parent_def sib_def extent_def)
  qed
  then show "dyadic K (sib x)" "dyadic K (parent x)" "extent (parent x) = extent x \<union> extent (sib x)"
    "extent x \<inter> extent (sib x) = {}" "sib (sib x) = x" "parent (sib x) = parent x" "sib x \<noteq> x"
    "left_half (sib x) \<longleftrightarrow> \<not> left_half x" "snd (sib x) = snd x" unfolding x by blast+
qed

section \<open>Tilings\<close>

lemma extent_nonempty: "extent x \<noteq> {}"
  using self_extent [of x] by blast

lemma tile_split:
  assumes B: "tiling K B" and x: "parent y \<in> B" and y: "dyadic K y" "snd y < K"
  shows "tiling K (insert y (insert (sib y) (B - {parent y})))"
  unfolding tiling_def
proof (intro conjI ballI impI)
  note b = buddies [OF y]
  have apart: "extent z \<inter> extent (parent y) = {}" if "z \<in> B - {parent y}" for z
    using tilingD(2) [OF B _ x] that by blast
  show "dyadic K z" if "z \<in> insert y (insert (sib y) (B - {parent y}))" for z
    using that y(1) b(1) tilingD(1) [OF B] by blast
  show "extent z \<inter> extent w = {}"
    if "z \<in> insert y (insert (sib y) (B - {parent y}))" "w \<in> insert y (insert (sib y) (B - {parent y}))"
      "z \<noteq> w" for z w
    using that apart [of z] apart [of w] b(3,4) tilingD(2) [OF B, of z w] by blast
  show "(\<Union>z \<in> insert y (insert (sib y) (B - {parent y})). extent z) = {..<2 ^ K}"
    unfolding tilingD(3) [OF B, symmetric] using x b(3) by auto
qed

lemma tile_merge:
  assumes B: "tiling K B" and y: "y \<in> B" "sib y \<in> B" "snd y < K"
  shows "tiling K (insert (parent y) (B - {y, sib y}))"
  unfolding tiling_def
proof (intro conjI ballI impI)
  note b = buddies [OF tilingD(1) [OF B y(1)] y(3)]
  have apart: "extent z \<inter> extent (parent y) = {}" if "z \<in> B - {y, sib y}" for z
    using tilingD(2) [OF B _ y(1), of z] tilingD(2) [OF B _ y(2), of z] that b(3) by blast
  show "dyadic K z" if "z \<in> insert (parent y) (B - {y, sib y})" for z
    using that b(2) tilingD(1) [OF B] by blast
  show "extent z \<inter> extent w = {}"
    if "z \<in> insert (parent y) (B - {y, sib y})" "w \<in> insert (parent y) (B - {y, sib y})" "z \<noteq> w" for z w
    using that apart [of z] apart [of w] tilingD(2) [OF B, of z w] by blast
  show "(\<Union>z \<in> insert (parent y) (B - {y, sib y}). extent z) = {..<2 ^ K}"
    unfolding tilingD(3) [OF B, symmetric] using y b(3) by auto
qed

text \<open>Where the buddy of a block begins, a block of at most its order begins.\<close>

lemma sib_start:
  assumes B: "tiling K B" and x: "x \<in> B" "snd x < K"
  obtains i where "i \<le> snd x" "(fst (sib x), i) \<in> B"
proof -
  note dx = tilingD(1) [OF B x(1)]
  note b = buddies [OF dx x(2)]
  have "fst (sib x) + 2 ^ snd (sib x) \<le> 2 ^ K" using b(1) by (simp add: dyadic_def)
  then have "fst (sib x) < 2 ^ K" using zero_less_power [of "2 :: nat" "snd (sib x)"] by linarith
  then obtain y where y: "y \<in> B" "fst (sib x) \<in> extent y" using tilingD(3) [OF B] by blast
  have d: "2 ^ snd y dvd fst y" "2 ^ snd (sib x) dvd fst (sib x)" "2 ^ snd (parent x) dvd fst (parent x)"
    using tilingD(1) [OF B y(1)] b(1,2) by (simp_all add: dyadic_def)
  show ?thesis
  proof (cases "snd y \<le> snd x")
    case True
    then have "extent y \<subseteq> extent (sib x)" using nested [OF d(1,2)] y(2) self_extent [of "sib x"] b(9) by auto
    then have "fst y \<ge> fst (sib x)" using self_extent [of y] by (auto simp: extent_def)
    then have "y = (fst (sib x), snd y)" using y(2) by (cases y) (simp add: extent_def)
    then show ?thesis using that True y(1) by metis
  next
    case False
    then have "extent (parent x) \<subseteq> extent y"
      using nested [OF d(3,1)] y(2) self_extent [of "sib x"] b(3) by (auto simp: parent_def)
    then have "extent x \<inter> extent y \<noteq> {}" using b(3) self_extent [of x] by blast
    then show ?thesis using tilingD(2) [OF B x(1) y(1)] False by auto
  qed
qed

lemma starts_differ:
  assumes "tiling K B" "x \<in> B" "y \<in> B" "fst x = fst y"
  shows "x = y"
  using tilingD(2) [OF assms(1-3)] self_extent [of x] self_extent [of y] assms(4) by auto

lemma tiling_whole: "tiling K {(0, K)}"
  by (auto simp: tiling_def dyadic_def extent_def)

lemma whole_only:
  assumes "tiling K B" "(0, K) \<in> B"
  shows "B = {(0, K)}"
proof -
  have "x = (0, K)" if "x \<in> B" for x
  proof (rule ccontr)
    assume "x \<noteq> (0, K)"
    then have "extent x \<inter> extent (0, K) = {}" using tilingD(2) [OF assms(1) that assms(2)] by simp
    moreover have "extent x \<subseteq> extent (0, K)"
      using tilingD(3) [OF assms(1)] that by (auto simp: extent_def atLeast0LessThan)
    ultimately show False using extent_nonempty [of x] by blast
  qed
  then show ?thesis using assms(2) by blast
qed

section \<open>Coalescing\<close>

text \<open>No two free blocks are buddies.\<close>

definition normal :: "bblk set \<Rightarrow> bool" where
  "normal F \<longleftrightarrow> (\<forall>x \<in> F. sib x \<notin> F)"

text \<open>If all blocks are free, there is only one.\<close>

lemma normal_whole:
  assumes B: "tiling K B" and n: "normal B"
  shows "B = {(0, K)}"
proof -
  have "B \<noteq> {}" using tilingD(3) [OF B] by (metis UN_empty lessThan_iff empty_iff zero_less_numeral zero_less_power)
  then obtain x where x: "x \<in> B" "\<forall>y \<in> B. snd x \<le> snd y"
    using ex_has_least_nat [of "\<lambda>y. y \<in> B" _ snd] by blast
  have "\<not> snd x < K"
  proof
    assume less: "snd x < K"
    obtain i where i: "i \<le> snd x" "(fst (sib x), i) \<in> B" by (rule sib_start [OF B x(1) less])
    have "i = snd x" using x(2) i by force
    then have "sib x \<in> B" using i(2) buddies(9) [OF tilingD(1) [OF B x(1)] less] by (metis prod.collapse)
    then show False using n x(1) by (simp add: normal_def)
  qed
  then have "x = (0, K)" using tilingD(1) [OF B x(1)] by (cases x) (auto simp: dyadic_def)
  then show ?thesis using whole_only [OF B] x(1) by simp
qed

function coalesce :: "nat \<Rightarrow> bblk set \<Rightarrow> bblk \<Rightarrow> bblk set" where
  "coalesce K F x = (if snd x < K \<and> sib x \<in> F then coalesce K (F - {sib x}) (parent x) else insert x F)"
  by pat_completeness auto
termination by (relation "measure (\<lambda>(K, F, x). K - snd x)") (auto simp: parent_def)

declare coalesce.simps [simp del]

lemma sib_neq: "sib x \<noteq> x"
proof
  assume s: "sib x = x"
  then have "\<not> left_half x" by (auto simp: sib_def prod_eq_iff split: if_splits)
  then have "fst x \<noteq> 0" unfolding left_half_def by (metis div_0 even_zero)
  then have "fst x - 2 ^ snd x < fst x" by (intro diff_less) simp_all
  then show False using s by (auto simp: sib_def prod_eq_iff split: if_splits)
qed

lemma parent_fresh:
  assumes "tiling K B" "x \<in> B" "snd x < K"
  shows "parent x \<notin> B"
proof
  assume "parent x \<in> B"
  then have "extent x \<inter> extent (parent x) = {}"
    using tilingD(2) [OF assms(1,2)] by (metis parent_def snd_conv n_not_Suc_n)
  then show False
    using buddies(3) [OF tilingD(1) [OF assms(1,2)] assms(3)] self_extent [of x] by blast
qed

lemma normal_insert:
  assumes B: "tiling K B" "x \<in> B" "F \<subseteq> B - {x}" and n: "normal F" and s: "snd x < K \<Longrightarrow> sib x \<notin> F"
  shows "normal (insert x F)"
proof (cases "snd x < K")
  case True
  have "sib y \<noteq> x" if y: "y \<in> F" for y
  proof
    assume e: "sib y = x"
    then have "snd y < K" using True by (auto simp: sib_def)
    then have "sib x = y" using buddies(5) [OF tilingD(1) [OF B(1), of y]] y B(3) e by auto
    then show False using s [OF True] y by simp
  qed
  then show ?thesis using n s [OF True] sib_neq [of x] by (auto simp: normal_def)
next
  case False
  then have "x = (0, K)" using tilingD(1) [OF B(1,2)] by (cases x) (auto simp: dyadic_def)
  then have "F = {}" using whole_only [OF B(1)] B(2,3) by auto
  then show ?thesis using sib_neq [of x] by (simp add: normal_def)
qed

lemma normal_subset: "normal F \<Longrightarrow> G \<subseteq> F \<Longrightarrow> normal G"
  by (auto simp: normal_def)

end
