(* ===== verification/BuddyRep.thy ===== *)
theory BuddyRep
  imports Buddy BuddySpec
begin

text \<open>
  The blocks of \<open>BuddySpec\<close> in the memory of the buddy memory manager (\<open>buds\<close>): the header of every block
  states its size and whether it is free, and the list of each order holds the free blocks of that
  order. The steps the operations are made of keep this: marking a block, taking the head of a list,
  entering a list, splitting, and \<open>removeFromFreeList\<close>.
\<close>

section \<open>The blocks of a heap\<close>

definition off :: "addr \<Rightarrow> nat \<Rightarrow> addr" where
  "off H a = H + of_nat a"

definition space :: "addr \<Rightarrow> nat \<Rightarrow> bool" where
  "space H K \<longleftrightarrow> 0 < H \<and> K \<le> 31 \<and> unat H + 2 ^ K \<le> 2 ^ 63"

fun blist :: "block_memory \<Rightarrow> addr \<Rightarrow> addr list \<Rightarrow> bool" where
  "blist m p [] \<longleftrightarrow> p = NULL"
| "blist m p (x # xs) \<longleftrightarrow> p = x \<and> x \<noteq> NULL \<and> blist m (bnext (m x)) xs"

definition blists :: "addr \<Rightarrow> nat \<Rightarrow> bblk set \<Rightarrow> buddy_heap \<Rightarrow> bool" where
  "blists H K F h \<longleftrightarrow> (\<forall>k \<le> K. \<exists>xs. blist (bmem h) (freeList h ! k) (map (off H) xs) \<and>
     distinct xs \<and> set xs = {a. (a, k) \<in> F})"

definition headers :: "addr \<Rightarrow> bblk set \<Rightarrow> bblk set \<Rightarrow> buddy_heap \<Rightarrow> bool" where
  "headers H B A h \<longleftrightarrow> (\<forall>y \<in> B. bsize (bmem h (off H (fst y))) = 2 ^ snd y \<and>
     (isFree (bmem h (off H (fst y))) \<longleftrightarrow> y \<in> A))"

text \<open>The blocks are \<open>B\<close>, those marked free are \<open>A\<close>, and those in the lists are \<open>F\<close>.\<close>

definition buds :: "addr \<Rightarrow> nat \<Rightarrow> bblk set \<Rightarrow> bblk set \<Rightarrow> bblk set \<Rightarrow> buddy_heap \<Rightarrow> bool" where
  "buds H K B A F h \<longleftrightarrow> space H K \<and> length (freeList h) = Suc K \<and> tiling K B \<and> A \<subseteq> B \<and> F \<subseteq> A \<and>
     normal F \<and> headers H B A h \<and> blists H K F h \<and> ((0, K) \<in> B \<longrightarrow> bnext (bmem h (off H 0)) = NULL)"

lemma budsD:
  assumes "buds H K B A F h"
  shows "space H K" "length (freeList h) = Suc K" "tiling K B" "A \<subseteq> B" "F \<subseteq> A" "normal F"
    "headers H B A h" "blists H K F h" "(0, K) \<in> B \<Longrightarrow> bnext (bmem h (off H 0)) = NULL"
  using assms by (auto simp: buds_def)

lemma pow_K:
  assumes "space H K" "k \<le> K"
  shows "unat (2 ^ k :: u32) = 2 ^ k" "unat (2 ^ k :: u64) = 2 ^ k" "(2 :: nat) ^ k \<le> 2 ^ 31"
proof -
  have k: "k \<le> 31" using assms by (simp add: space_def)
  then show p: "(2 :: nat) ^ k \<le> 2 ^ 31" by (rule power_increasing) simp
  then have "(2 :: nat) ^ k < 2 ^ 32" "(2 :: nat) ^ k < 2 ^ 64" by simp_all
  then show "unat (2 ^ k :: u32) = 2 ^ k" "unat (2 ^ k :: u64) = 2 ^ k"
    using unat_of_nat [of "2 ^ k", where 'a = 32] unat_of_nat [of "2 ^ k", where 'a = 64] by simp_all
qed

lemma off_add: "off H (a + b) = off H a + of_nat b"
  by (simp add: off_def add.assoc)

lemma off_unat:
  assumes "space H K" "a < 2 ^ K"
  shows "unat (off H a) = unat H + a"
proof -
  have K: "(2 :: nat) ^ K \<le> 2 ^ 31" using pow_K(3) [OF assms(1) order_refl] .
  have a: "unat (of_nat a :: u64) = a" using assms(2) K by (simp add: unat_of_nat)
  have "unat H + a < 2 ^ 64" using assms by (simp add: space_def)
  then show ?thesis by (simp add: off_def unat_word_ariths(1) a)
qed

lemma off_inj: "space H K \<Longrightarrow> a < 2 ^ K \<Longrightarrow> b < 2 ^ K \<Longrightarrow> off H a = off H b \<longleftrightarrow> a = b"
  by (metis off_unat add_left_imp_eq)

lemma off_NULL: "space H K \<Longrightarrow> a < 2 ^ K \<Longrightarrow> off H a \<noteq> NULL"
  using off_unat [of H K a] by (auto simp: space_def word_less_nat_alt)

lemma fst_bound: "dyadic K x \<Longrightarrow> fst x < 2 ^ K"
  unfolding dyadic_def using zero_less_power [of "2 :: nat" "snd x"] by linarith

lemma off_eq:
  assumes "space H K" "tiling K B" "x \<in> B" "y \<in> B"
  shows "off H (fst x) = off H (fst y) \<longleftrightarrow> x = y"
  using off_inj [OF assms(1)] fst_bound tilingD(1) [OF assms(2)] starts_differ [OF assms(2-4)] assms(3,4)
  by metis

lemma off_not_NULL: "space H K \<Longrightarrow> tiling K B \<Longrightarrow> x \<in> B \<Longrightarrow> off H (fst x) \<noteq> NULL"
  using off_NULL fst_bound tilingD(1) by metis

lemma headers_cong:
  assumes "headers H B A h"
    "\<And>b. bsize (bmem h' b) = bsize (bmem h b)" "\<And>b. isFree (bmem h' b) = isFree (bmem h b)"
  shows "headers H B A h'"
  using assms by (simp add: headers_def)

section \<open>Lists\<close>

lemma blist_cong: "(\<forall>x \<in> set xs. bnext (m' x) = bnext (m x)) \<Longrightarrow> blist m' p xs = blist m p xs"
  by (induction xs arbitrary: p) auto

lemma blists_update:
  assumes "blists H K F h"
    and "\<And>l. l \<noteq> k \<Longrightarrow> l \<le> K \<Longrightarrow> freeList h' ! l = freeList h ! l"
    and "\<And>a l. (a, l) \<in> F \<Longrightarrow> l \<noteq> k \<Longrightarrow> bnext (bmem h' (off H a)) = bnext (bmem h (off H a))"
    and "\<And>a l. l \<noteq> k \<Longrightarrow> (a, l) \<in> F' \<longleftrightarrow> (a, l) \<in> F"
    and "blist (bmem h') (freeList h' ! k) (map (off H) xs)" "distinct xs" "set xs = {a. (a, k) \<in> F'}"
  shows "blists H K F' h'"
  unfolding blists_def
proof (intro allI impI)
  fix l assume l: "l \<le> K"
  show "\<exists>xs. blist (bmem h') (freeList h' ! l) (map (off H) xs) \<and> distinct xs \<and> set xs = {a. (a, l) \<in> F'}"
  proof (cases "l = k")
    case True
    then show ?thesis using assms(5-7) by blast
  next
    case False
    obtain ys where ys: "blist (bmem h) (freeList h ! l) (map (off H) ys)" "distinct ys" "set ys = {a. (a, l) \<in> F}"
      using assms(1) l by (auto simp: blists_def)
    have "\<forall>x \<in> set (map (off H) ys). bnext (bmem h' x) = bnext (bmem h x)" using assms(3) False ys(3) by auto
    then have "blist (bmem h') (freeList h' ! l) (map (off H) ys)" unfolding assms(2) [OF False l] using ys(1) by (rule iffD2 [OF blist_cong])
    then show ?thesis using ys(2,3) assms(4) [OF False] by auto
  qed
qed

lemma blists_frame:
  assumes "blists H K F h" "freeList h' = freeList h"
    "\<And>y. y \<in> F \<Longrightarrow> bnext (bmem h' (off H (fst y))) = bnext (bmem h (off H (fst y)))"
  shows "blists H K F h'"
  unfolding blists_def
proof (intro allI impI)
  fix l assume l: "l \<le> K"
  obtain ys where ys: "blist (bmem h) (freeList h ! l) (map (off H) ys)" "distinct ys" "set ys = {a. (a, l) \<in> F}"
    using assms(1) l by (auto simp: blists_def)
  have "\<forall>x \<in> set (map (off H) ys). bnext (bmem h' x) = bnext (bmem h x)" using assms(3) ys(3) by fastforce
  then show "\<exists>xs. blist (bmem h') (freeList h' ! l) (map (off H) xs) \<and> distinct xs \<and> set xs = {a. (a, l) \<in> F}"
    using ys assms(2) by (metis blist_cong)
qed

lemma list_head:
  assumes "blists H K F h" "k \<le> K"
  obtains (none) "freeList h ! k = NULL" "\<forall>a. (a, k) \<notin> F"
  | (some) a xs where "freeList h ! k = off H a" "off H a \<noteq> NULL" "blist (bmem h) (bnext (bmem h (off H a))) (map (off H) xs)"
      "distinct (a # xs)" "set (a # xs) = {a. (a, k) \<in> F}"
proof -
  obtain ys where ys: "blist (bmem h) (freeList h ! k) (map (off H) ys)" "distinct ys" "set ys = {a. (a, k) \<in> F}"
    using assms by (auto simp: blists_def)
  show ?thesis
  proof (cases ys)
    case Nil
    then show ?thesis using ys by (intro none) auto
  next
    case (Cons a xs)
    then show ?thesis using ys by (intro some [of a xs]) auto
  qed
qed

section \<open>Steps\<close>

lemma set_block_simps [simp]:
  "freeList (set_block b f h) = freeList h"
  "bmem (set_block b f h) = (bmem h)(b := f (bmem h b))"
  by (simp_all add: set_block_def)

text \<open>A block is marked.\<close>

lemma buds_mark:
  assumes b: "buds H K B A F h" and x: "x \<in> B" "x \<notin> F"
  shows "buds H K B (if v then insert x A else A - {x}) F (set_block (off H (fst x)) (\<lambda>y. y\<lparr>isFree := v\<rparr>) h)"
    (is "buds H K B ?A F ?h")
proof -
  note d = budsD [OF b]
  have e: "off H (fst y) = off H (fst x) \<longleftrightarrow> y = x" if "y \<in> B" for y using off_eq [OF d(1,3) that x(1)] .
  have "headers H B ?A ?h"
    unfolding headers_def using d(7) e by (auto simp: headers_def)
  moreover have "blists H K F ?h" by (rule blists_frame [OF d(8)]) simp_all
  ultimately show ?thesis using d x unfolding buds_def by auto
qed

text \<open>The first block of a list is taken.\<close>

lemma buds_take:
  assumes b: "buds H K B A F h" and x: "(a, k) \<in> F" "freeList h ! k = off H a"
  shows "buds H K B A (F - {(a, k)}) (h\<lparr>freeList := (freeList h)[k := bnext (bmem h (off H a))]\<rparr>)"
    (is "buds H K B A ?F ?h")
proof -
  note d = budsD [OF b]
  have k: "k \<le> K" using tilingD(1) [OF d(3)] d(4,5) x(1) by (auto simp: dyadic_def)
  from d(8) k have "blists H K ?F ?h"
  proof (cases rule: list_head)
    case none
    then show ?thesis using x(1) by blast
  next
    case (some c xs)
    have "(c, k) \<in> F" using some(5) by auto
    then have "c = a"
      using some(1) x off_eq [OF d(1,3), of "(c, k)" "(a, k)"] d(4,5) by auto
    show ?thesis
    proof (rule blists_update [OF d(8), of k])
      show "blist (bmem ?h) (freeList ?h ! k) (map (off H) xs)" using some(3) \<open>c = a\<close> k d(2) by simp
      show "distinct xs" "set xs = {a'. (a', k) \<in> ?F}" using some(4,5) \<open>c = a\<close> by auto
    qed auto
  qed
  moreover have "headers H B A ?h" using d(7) by (simp add: headers_def)
  moreover have "normal ?F" by (rule normal_subset [OF d(6)]) blast
  ultimately show ?thesis using d unfolding buds_def by auto
qed

text \<open>A block enters the list of its order.\<close>

lemma buds_push:
  assumes b: "buds H K B A F h" and x: "(a, k) \<in> A" "(a, k) \<notin> F" "k < K" "sib (a, k) \<notin> F"
  shows "buds H K B A (insert (a, k) F) ((set_block (off H a) (\<lambda>x. x\<lparr>bnext := freeList h ! k\<rparr>) h)
    \<lparr>freeList := (freeList h)[k := off H a]\<rparr>)"
    (is "buds H K B A ?F ?h")
proof -
  note d = budsD [OF b]
  have xB: "(a, k) \<in> B" using d(4) x(1) by blast
  have e: "off H (fst y) = off H a \<longleftrightarrow> y = (a, k)" if "y \<in> B" for y using off_eq [OF d(1,3) that xB] by simp
  have n: "off H a \<noteq> NULL" using off_not_NULL [OF d(1,3) xB] by simp
  have other: "bnext (bmem ?h (off H (fst y))) = bnext (bmem h (off H (fst y)))" if "y \<in> F" for y
  proof -
    have "y \<in> B" "y \<noteq> (a, k)" using that d(4,5) x(2) by auto
    then show ?thesis using e by simp
  qed
  obtain xs where xs: "blist (bmem h) (freeList h ! k) (map (off H) xs)" "distinct xs" "set xs = {a. (a, k) \<in> F}"
    using d(8) less_imp_le [OF x(3)] by (auto simp: blists_def)
  have "blists H K ?F ?h"
  proof (rule blists_update [OF d(8), of k])
    have "\<forall>x \<in> set (map (off H) xs). bnext (bmem ?h x) = bnext (bmem h x)" using other xs(3) by fastforce
    then have "blist (bmem ?h) (freeList h ! k) (map (off H) xs)" using xs(1) by (rule iffD2 [OF blist_cong])
    then show "blist (bmem ?h) (freeList ?h ! k) (map (off H) (a # xs))" using n d(2) x(3) by simp
    show "distinct (a # xs)" "set (a # xs) = {a'. (a', k) \<in> ?F}" using xs x(2) by auto
    show "bnext (bmem ?h (off H c)) = bnext (bmem h (off H c))" if "(c, l) \<in> F" for c l
      using other [OF that] by simp
  qed auto
  moreover have "headers H B A ?h" using d(7) by (rule headers_cong) simp_all
  moreover have "normal ?F" using normal_insert [OF d(3) xB _ d(6)] d(4,5) x(2,4) by auto
  moreover have "(0, K) \<notin> B" using whole_only [OF d(3)] xB x(3) by auto
  ultimately show ?thesis using d x(1) unfolding buds_def by auto
qed

text \<open>The block that is the whole heap becomes its list.\<close>

lemma buds_top:
  assumes b: "buds H K B A F h" and x: "(0, K) \<in> A" "(0, K) \<notin> F"
  shows "F = {}" "buds H K B A {(0, K)} (h\<lparr>freeList := (freeList h)[K := off H 0]\<rparr>)"
    (is "buds H K B A ?F ?h")
proof -
  note d = budsD [OF b]
  have xB: "(0, K) \<in> B" using d(4) x(1) by blast
  have w: "B = {(0, K)}" by (rule whole_only [OF d(3) xB])
  then show F: "F = {}" using d(4,5) x(2) by auto
  have n: "off H 0 \<noteq> NULL" using off_not_NULL [OF d(1,3) xB] by simp
  have "blists H K ?F ?h"
  proof (rule blists_update [OF d(8), of K])
    show "blist (bmem ?h) (freeList ?h ! K) (map (off H) [0])" using n d(2) d(9) [OF xB] by simp
  qed (auto simp: F)
  moreover have "headers H B A ?h" using d(7) by (rule headers_cong) simp_all
  moreover have "normal ?F" using sib_neq [of "(0, K)"] by (simp add: normal_def)
  ultimately show "buds H K B A ?F ?h" using d x(1) unfolding buds_def by auto
qed

text \<open>A block is split.\<close>

lemma half_pow: "space H K \<Longrightarrow> k < K \<Longrightarrow> (2 ^ Suc k :: u32) div 2 = 2 ^ k"
  using pow_K(1) [of H K "Suc k"] pow_K(1) [of H K k]
  by (intro word_unat_eq_iff [THEN iffD2]) (simp add: unat_div del: power_Suc, simp)

lemma ucast_pow: "space H K \<Longrightarrow> k \<le> K \<Longrightarrow> ucast (2 ^ k :: u32) = (2 ^ k :: u64)"
  using pow_K [of H K k] by (simp add: word_eq_unat)

lemma split_block:
  assumes b: "buds H K B A F h" and x: "(a, Suc k) \<in> A" "(a, Suc k) \<notin> F" "4 \<le> k"
  obtains h' where "splitBlock (off H a) h = Some (off H (a + 2 ^ k), h')" "freeList h' = freeList h"
    "buds H K (insert (a, k) (insert (a + 2 ^ k, k) (B - {(a, Suc k)})))
      (insert (a, k) (insert (a + 2 ^ k, k) (A - {(a, Suc k)}))) F h'"
    "(a, k) \<notin> B" "(a + 2 ^ k, k) \<notin> B" "sib (a + 2 ^ k, k) = (a, k)"
proof -
  note d = budsD [OF b]
  let ?y = "(a, k)" and ?x = "(a, Suc k)"
  have xB: "?x \<in> B" using d(4) x(1) by blast
  have dx: "2 * 2 ^ k dvd a" "Suc k \<le> K" "a + 2 * 2 ^ k \<le> 2 ^ K"
    using tilingD(1) [OF d(3) xB] by (auto simp: dyadic_def)
  have lh: "left_half ?y" by (rule left_half_iff(1) [OF dx(1)])
  have dy: "dyadic K ?y" using dx by (auto simp: dyadic_def dest: dvd_mult_right)
  have sy: "sib ?y = (a + 2 ^ k, k)" "parent ?y = ?x" using lh by (simp_all add: sib_def parent_def)
  note bb = buddies [OF dy, unfolded snd_conv sy]
  have k: "k < K" using dx by simp
  let ?B = "insert ?y (insert (a + 2 ^ k, k) (B - {?x}))"
  let ?A = "insert ?y (insert (a + 2 ^ k, k) (A - {?x}))"
  have tB: "tiling K ?B" using tile_split [OF d(3) _ dy] xB k sy by simp
  have yB: "?y \<notin> B" using starts_differ [OF d(3) _ xB, of ?y] by auto
  have rB: "(a + 2 ^ k, k) \<notin> B"
    using tilingD(2) [OF d(3) _ xB, of "(a + 2 ^ k, k)"] bb(3) k self_extent [of "(a + 2 ^ k, k)"] by auto
  define h' where "h' = set_block (off H (a + 2 ^ k)) (\<lambda>x. x\<lparr>bsize := 2 ^ k, isFree := True\<rparr>)
    (set_block (off H a) (\<lambda>x. x\<lparr>bsize := 2 ^ k\<rparr>) h)"
  have hd: "bsize (bmem h (off H a)) = 2 ^ Suc k" "isFree (bmem h (off H a))"
    using d(7) xB x(1) by (force simp: headers_def)+
  have "(16 :: nat) \<le> 2 ^ k" using power_increasing [of 4 k "2 :: nat"] x(3) by simp
  then have "\<not> (2 ^ k :: u32) < 16" using pow_K(1) [OF d(1), of k] k by (simp add: word_less_nat_alt)
  then have r: "splitBlock (off H a) h = Some (off H (a + 2 ^ k), h')"
    using half_pow [OF d(1) k] ucast_pow [OF d(1), of k] k
    by (simp add: splitBlock_def hd(1) h'_def Let_def off_add del: power_Suc)
  have e: "off H (fst z) = off H (fst y) \<longleftrightarrow> z = y" if "z \<in> ?B" "y \<in> ?B" for z y
    by (rule off_eq [OF d(1) tB that])
  have e1: "off H (fst z) = off H a \<longleftrightarrow> z = ?y" if "z \<in> ?B" for z using e [OF that, of ?y] by simp
  have e2: "off H (fst z) = off H (a + 2 ^ k) \<longleftrightarrow> z = (a + 2 ^ k, k)" if "z \<in> ?B" for z
    using e [OF that, of "(a + 2 ^ k, k)"] by simp
  have "headers H ?B ?A h'"
    unfolding headers_def
  proof (intro ballI)
    fix z assume z: "z \<in> ?B"
    consider "z = ?y" | "z = (a + 2 ^ k, k)" | "z \<in> B" "z \<noteq> ?x" "z \<noteq> ?y" "z \<noteq> (a + 2 ^ k, k)" using z by blast
    then show "bsize (bmem h' (off H (fst z))) = 2 ^ snd z \<and> isFree (bmem h' (off H (fst z))) = (z \<in> ?A)"
    proof cases
      case 1
      then show ?thesis using hd(2) e2 [OF z] by (simp add: h'_def)
    next
      case 2
      then show ?thesis by (simp add: h'_def)
    next
      case 3
      then show ?thesis using d(7) e1 [OF z] e2 [OF z] by (simp add: h'_def headers_def)
    qed
  qed
  moreover have "blists H K F h'"
    by (rule blists_frame [OF d(8)]) (simp_all add: h'_def)
  moreover have "(0, K) \<notin> ?B"
  proof
    assume "(0, K) \<in> ?B"
    then have "?y \<in> {(0, K)}" using whole_only [OF tB] by blast
    then show False using k by simp
  qed
  ultimately have "buds H K ?B ?A F h'" using d tB x(2) unfolding buds_def by (auto simp: h'_def)
  then show ?thesis using that r yB rB bb(5) k by (auto simp: h'_def)
qed

text \<open>One turn of the loop that splits: the right half enters its list.\<close>

lemma split_turn:
  assumes b: "buds H K B A F h" and x: "(a, Suc k) \<in> A" "(a, Suc k) \<notin> F" "4 \<le> k" "order < Suc k"
  obtains h' where "halving_loop order (Suc k) (off H a) h = halving_loop order k (off H a) h'"
    "buds H K (insert (a, k) (insert (a + 2 ^ k, k) (B - {(a, Suc k)})))
      (insert (a, k) (insert (a + 2 ^ k, k) (A - {(a, Suc k)}))) (insert (a + 2 ^ k, k) F) h'"
    "(a, k) \<notin> insert (a + 2 ^ k, k) F" "(a, k) \<notin> B" "(a + 2 ^ k, k) \<notin> B"
proof -
  obtain h1 where h1: "splitBlock (off H a) h = Some (off H (a + 2 ^ k), h1)" "freeList h1 = freeList h"
    "buds H K (insert (a, k) (insert (a + 2 ^ k, k) (B - {(a, Suc k)})))
      (insert (a, k) (insert (a + 2 ^ k, k) (A - {(a, Suc k)}))) F h1"
    "(a, k) \<notin> B" "(a + 2 ^ k, k) \<notin> B" "sib (a + 2 ^ k, k) = (a, k)"
    by (rule split_block [OF b x(1-3)])
  note d = budsD [OF b]
  have k: "k < K" using tilingD(1) [OF d(3), of "(a, Suc k)"] d(4) x(1) by (auto simp: dyadic_def)
  have F: "(a, k) \<notin> F" "(a + 2 ^ k, k) \<notin> F" using h1(4,5) d(4,5) by auto
  note p = buds_push [OF h1(3), of "a + 2 ^ k" k]
  show ?thesis
  proof (rule that)
    show "halving_loop order (Suc k) (off H a) h = halving_loop order k (off H a)
      ((set_block (off H (a + 2 ^ k)) (\<lambda>x. x\<lparr>bnext := freeList h1 ! k\<rparr>) h1)
        \<lparr>freeList := (freeList h1)[k := off H (a + 2 ^ k)]\<rparr>)"
      using x(4) k d(2) h1(2) by (simp add: h1(1) list_at_def set_list_def)
  qed (use p F k h1(4-6) in auto)
qed

section \<open>Removal from a list\<close>

lemma before_none:
  assumes "blist m p ps" "t \<notin> set ps" "t \<noteq> NULL"
  shows "before_block m t p = Some NULL"
  using assms
proof (induction ps arbitrary: p)
  case Nil
  then show ?case by (simp add: before_block.simps)
next
  case (Cons q qs)
  have "bnext (m q) \<noteq> t" using Cons.prems by (cases qs) auto
  then show ?case using Cons by (subst before_block.simps) simp
qed

lemma before_found:
  assumes "blist m p (us @ u # t # vs)" "distinct (us @ u # t # vs)"
  shows "before_block m t p = Some u"
  using assms
proof (induction us arbitrary: p)
  case Nil
  then show ?case by (simp add: before_block.simps)
next
  case (Cons q qs)
  have "bnext (m q) \<noteq> t" using Cons.prems by (cases qs) auto
  then show ?case using Cons by (subst before_block.simps) simp
qed

lemma blist_remove:
  assumes "blist m p (us @ u # t # vs)" "distinct (us @ u # t # vs)"
    "\<And>z. z \<noteq> t \<Longrightarrow> bnext (m' z) = (if z = u then bnext (m t) else bnext (m z))"
  shows "blist m' p (us @ u # vs)"
  using assms(1,2)
proof (induction us arbitrary: p)
  case Nil
  have "bnext (m' z) = bnext (m z)" if "z \<in> set vs" for z
  proof -
    have "z \<noteq> t" "z \<noteq> u" using Nil(2) that by auto
    then show ?thesis using assms(3) [of z] by simp
  qed
  then have "\<forall>z \<in> set vs. bnext (m' z) = bnext (m z)" by blast
  then show ?case using Nil assms(3) [of u] blist_cong [of vs m' m] by simp
next
  case (Cons q qs)
  then show ?case using assms(3) [of q] by auto
qed

lemma remove_absent:
  assumes b: "buds H K B A F h" and x: "(a, k) \<in> B" "(a, k) \<notin> F"
  obtains h' where "removeFromFreeList (off H a) k h = Some h'" "buds H K B (A - {(a, k)}) F h'"
    "bnext (bmem h' (off H a)) = NULL"
proof -
  note d = budsD [OF b]
  note e = off_eq [OF d(1,3)]
  have k: "k \<le> K" using tilingD(1) [OF d(3) x(1)] by (simp add: dyadic_def)
  have n: "off H a \<noteq> NULL" using off_not_NULL [OF d(1,3) x(1)] by simp
  define h1 where "h1 = set_block (off H a) (\<lambda>y. y\<lparr>isFree := False\<rparr>) h"
  have b1: "buds H K B (A - {(a, k)}) F h1"
    using buds_mark [OF b x(1,2), of False] by (simp add: h1_def)
  note d1 = budsD [OF b1]
  obtain xs where xs: "blist (bmem h1) (freeList h1 ! k) (map (off H) xs)" "set xs = {a. (a, k) \<in> F}"
    using d1(8) k by (auto simp: blists_def)
  have na: "off H a \<notin> set (map (off H) xs)"
  proof
    assume "off H a \<in> set (map (off H) xs)"
    then obtain c where "(c, k) \<in> F" "off H a = off H c" using xs(2) by auto
    then show False using e [of "(a, k)" "(c, k)"] x d(4,5) by auto
  qed
  have ne: "freeList h1 ! k \<noteq> off H a" using xs(1) na n by (cases xs) auto
  let ?h = "set_block (off H a) (\<lambda>x. x\<lparr>bnext := NULL\<rparr>) h1"
  have r: "removeFromFreeList (off H a) k h = Some ?h"
    using before_none [OF xs(1) na n] ne k d1(2)
    by (simp add: removeFromFreeList_def h1_def [symmetric] list_at_def)
  have "blists H K F ?h"
  proof (rule blists_frame [OF d1(8)])
    fix y assume "y \<in> F"
    then have "off H (fst y) \<noteq> off H a" using e [of y "(a, k)"] x d(4,5) by auto
    then show "bnext (bmem ?h (off H (fst y))) = bnext (bmem h1 (off H (fst y)))" by simp
  qed simp
  moreover have "headers H B (A - {(a, k)}) ?h" using d1(7) by (rule headers_cong) simp_all
  ultimately have "buds H K B (A - {(a, k)}) F ?h" using d1 unfolding buds_def by auto
  then show ?thesis using that [OF r] by simp
qed

lemma remove_present:
  assumes b: "buds H K B A F h" and x: "(a, k) \<in> F" "k < K"
  obtains h' where "removeFromFreeList (off H a) k h = Some h'" "buds H K B (A - {(a, k)}) (F - {(a, k)}) h'"
    "\<And>y. y \<in> B - F \<Longrightarrow> bnext (bmem h' (off H (fst y))) = bnext (bmem h (off H (fst y)))"
    "(\<forall>c. (c, k) \<in> F \<longrightarrow> c = a) \<Longrightarrow> bnext (bmem h' (off H a)) = NULL"
proof -
  note d = budsD [OF b]
  note e = off_eq [OF d(1,3)]
  let ?F = "F - {(a, k)}"
  have xB: "(a, k) \<in> B" using x d(4,5) by blast
  have nK: "(0, K) \<notin> B" using whole_only [OF d(3)] xB x(2) by auto
  have F: "normal ?F" by (rule normal_subset [OF d(6)]) blast
  have n: "off H a \<noteq> NULL" using off_not_NULL [OF d(1,3) xB] by simp
  define h1 where "h1 = set_block (off H a) (\<lambda>y. y\<lparr>isFree := False\<rparr>) h"
  have nx: "bnext (bmem h1 z) = bnext (bmem h z)" for z by (simp add: h1_def)
  have hd1: "headers H B (A - {(a, k)}) h1"
    unfolding headers_def
  proof (intro ballI)
    fix y assume y: "y \<in> B"
    then show "bsize (bmem h1 (off H (fst y))) = 2 ^ snd y \<and> isFree (bmem h1 (off H (fst y))) = (y \<in> A - {(a, k)})"
      using e [OF y xB] d(7) by (auto simp: headers_def h1_def)
  qed
  have bl1: "blists H K F h1" by (rule blists_frame [OF d(8)]) (simp_all add: h1_def)
  have len: "length (freeList h1) = Suc K" using d(2) by (simp add: h1_def)
  obtain xs where xs: "blist (bmem h1) (freeList h1 ! k) (map (off H) xs)" "distinct xs" "set xs = {a. (a, k) \<in> F}"
    using bl1 less_imp_le [OF x(2)] by (auto simp: blists_def)
  have "a \<in> set xs" using xs(3) x(1) by simp
  then obtain us vs where sp: "xs = us @ a # vs" by (meson split_list)
  have inj: "inj_on (off H) (set xs)"
  proof (rule inj_onI)
    fix c c' assume "c \<in> set xs" "c' \<in> set xs" "off H c = off H c'"
    then show "c = c'" using e [of "(c, k)" "(c', k)"] xs(3) d(4,5) by auto
  qed
  then have dm: "distinct (map (off H) xs)" using xs(2) by (simp add: distinct_map)
  show ?thesis
  proof (cases us rule: rev_cases)
    case Nil
    let ?h = "h1\<lparr>freeList := (freeList h1)[k := bnext (bmem h1 (off H a))]\<rparr>"
    have hd: "freeList h1 ! k = off H a" using xs(1) by (simp add: sp Nil)
    have r: "removeFromFreeList (off H a) k h = Some ?h"
      using hd x(2) len
      by (simp add: removeFromFreeList_def h1_def [symmetric] list_at_def set_list_def)
    have "blists H K ?F ?h"
    proof (rule blists_update [OF bl1, of k])
      show "blist (bmem ?h) (freeList ?h ! k) (map (off H) vs)" using xs(1) len x(2) by (simp add: sp Nil)
      show "distinct vs" "set vs = {a'. (a', k) \<in> ?F}" using xs(2,3) by (auto simp: sp Nil)
    qed auto
    moreover have "headers H B (A - {(a, k)}) ?h" using hd1 by (rule headers_cong) simp_all
    ultimately have bb: "buds H K B (A - {(a, k)}) ?F ?h" using d F nK unfolding buds_def by (auto simp: len)
    have "bnext (bmem ?h (off H a)) = NULL" if only: "\<forall>c. (c, k) \<in> F \<longrightarrow> c = a"
    proof -
      have "set xs = {a}" unfolding xs(3) using only x(1) by blast
      then have "length xs = 1" using distinct_card [OF xs(2)] by simp
      then have "vs = []" by (simp add: sp Nil)
      then show ?thesis using xs(1) by (simp add: sp Nil)
    qed
    then show ?thesis using that [OF r bb] nx by simp
  next
    case (snoc us' u)
    let ?h2 = "set_block (off H u) (\<lambda>x. x\<lparr>bnext := bnext (bmem h1 (off H a))\<rparr>) h1"
    let ?h = "set_block (off H a) (\<lambda>x. x\<lparr>bnext := NULL\<rparr>) ?h2"
    have li: "map (off H) xs = map (off H) us' @ off H u # off H a # map (off H) vs" by (simp add: sp snoc)
    have ua: "off H u \<noteq> off H a" using dm unfolding li by auto
    have uF: "(u, k) \<in> F" using xs(3) by (auto simp: sp snoc)
    have nu: "off H u \<noteq> NULL" using off_not_NULL [OF d(1,3), of "(u, k)"] uF d(4,5) by auto
    have ne: "freeList h1 ! k \<noteq> off H a" using xs(1) dm unfolding li by (cases us') auto
    have bf: "before_block (bmem h1) (off H a) (freeList h1 ! k) = Some (off H u)"
      using before_found xs(1) dm unfolding li by blast
    have r: "removeFromFreeList (off H a) k h = Some ?h"
      using bf ne nu x(2) len
      by (simp add: removeFromFreeList_def h1_def [symmetric] list_at_def Let_def)
    have other: "bnext (bmem ?h (off H (fst y))) = bnext (bmem h1 (off H (fst y)))"
      if "y \<in> B" "y \<noteq> (u, k)" "y \<noteq> (a, k)" for y
    proof -
      have "off H (fst y) \<noteq> off H u" "off H (fst y) \<noteq> off H a"
        using e [of y "(u, k)"] e [of y "(a, k)"] that uF x(1) d(4,5) by auto
      then show ?thesis by simp
    qed
    have "blists H K ?F ?h"
    proof (rule blists_update [OF bl1, of k])
      show "blist (bmem ?h) (freeList ?h ! k) (map (off H) (us' @ u # vs))"
        using blist_remove [of "bmem h1" "freeList h1 ! k" "map (off H) us'" "off H u" "off H a" "map (off H) vs" "bmem ?h"]
          xs(1) dm unfolding li by simp
      show "distinct (us' @ u # vs)" "set (us' @ u # vs) = {a'. (a', k) \<in> ?F}"
        using xs(2,3) by (auto simp: sp snoc)
      show "bnext (bmem ?h (off H c)) = bnext (bmem h1 (off H c))" if "(c, l) \<in> F" "l \<noteq> k" for c l
        using other [of "(c, l)"] that d(4,5) by auto
    qed auto
    moreover have "headers H B (A - {(a, k)}) ?h" using hd1 by (rule headers_cong) simp_all
    ultimately have bb: "buds H K B (A - {(a, k)}) ?F ?h" using d F nK unfolding buds_def by (auto simp: len)
    have "bnext (bmem ?h (off H (fst y))) = bnext (bmem h (off H (fst y)))" if "y \<in> B - F" for y
    proof -
      have "y \<in> B" "y \<noteq> (u, k)" "y \<noteq> (a, k)" using that uF x(1) by auto
      then show ?thesis using other [of y] unfolding nx by blast
    qed
    moreover have "bnext (bmem ?h (off H a)) = NULL" by simp
    ultimately show ?thesis using that [OF r bb] by blast
  qed
qed

end
