(* ===== verification/BuddyProps.thy ===== *)
theory BuddyProps
  imports BuddyRep
begin

text \<open>
  The operations of the buddy memory manager: the merge loop computes \<open>coalesce\<close>, \<open>getOrder\<close> the least
  order, the loops of \<open>internalMalloc\<close> take the smallest block that is large enough and split it; and
  what follows for any sequence of calls and of stores by the users of the blocks.
\<close>

section \<open>Merging\<close>

text \<open>Two buddies that are in no list become one block.\<close>

lemma buds_join:
  assumes b: "buds H K B A F h" and y: "y \<in> B" "sib y \<in> B" "y \<notin> A" "sib y \<notin> A" "snd y < K" "left_half y"
    and n: "Suc (snd y) = K \<Longrightarrow> bnext (bmem h (off H (fst y))) = NULL"
  shows "buds H K (insert (parent y) (B - {y, sib y})) (insert (parent y) A) F
    (set_block (off H (fst y)) (\<lambda>x. x\<lparr>bsize := bsize x * 2, isFree := True\<rparr>) h)"
    (is "buds H K ?B ?A F ?h")
proof -
  note d = budsD [OF b]
  have tB: "tiling K ?B" by (rule tile_merge [OF d(3) y(1,2,5)])
  have p: "parent y = (fst y, Suc (snd y))" using y(6) by (simp add: parent_def)
  have hy: "bsize (bmem h (off H (fst y))) = 2 ^ snd y" using d(7) y(1) by (simp add: headers_def)
  have pB: "parent y \<in> ?B" by simp
  have "headers H ?B ?A ?h"
    unfolding headers_def
  proof (intro ballI)
    fix z assume z: "z \<in> ?B"
    have e: "off H (fst z) = off H (fst y) \<longleftrightarrow> z = parent y" using off_eq [OF d(1) tB z pB] by (simp add: p)
    show "bsize (bmem ?h (off H (fst z))) = 2 ^ snd z \<and> isFree (bmem ?h (off H (fst z))) = (z \<in> ?A)"
    proof (cases "z = parent y")
      case True
      then show ?thesis by (simp add: p hy)
    next
      case False
      then have "z \<in> B" using z by blast
      then show ?thesis using d(7) e False by (simp add: headers_def)
    qed
  qed
  moreover have "blists H K F ?h" by (rule blists_frame [OF d(8)]) simp_all
  moreover have "(0, K) \<in> ?B \<Longrightarrow> bnext (bmem ?h (off H 0)) = NULL"
  proof -
    assume "(0, K) \<in> ?B"
    then have "parent y = (0, K)" using whole_only [OF tB] pB by blast
    then show ?thesis using n by (simp add: p)
  qed
  moreover have "?A \<subseteq> ?B" "F \<subseteq> ?A" using d(4,5) y(3,4) by auto
  ultimately show ?thesis using d(1,2,6) tB unfolding buds_def by (auto simp: set_block_def)
qed

lemma ucast_of_nat_64_32: "(ucast (of_nat a :: u64) :: u32) = of_nat a"
  by transfer (simp add: take_bit_of_nat)

lemma getAlignment_half:
  assumes b: "buds H K B A F h" and x: "(a, k) \<in> B"
  shows "getAlignment (off H a) H h = Some (if left_half (a, k) then LEFT else RIGHT)"
proof -
  note d = budsD [OF b]
  have k: "k \<le> K" "a < 2 ^ K" using tilingD(1) [OF d(3) x] fst_bound [of K "(a, k)"] by (auto simp: dyadic_def)
  have u: "unat (2 ^ k :: u32) = 2 ^ k" "a < 2 ^ 31" using pow_K [OF d(1) k(1)] pow_K(3) [OF d(1) order_refl] k(2) by auto
  have s: "bsize (bmem h (off H a)) = 2 ^ k" using d(7) x by (force simp: headers_def)
  have nz: "(2 ^ k :: u32) \<noteq> 0" using u(1) by (metis unat_0 power_not_zero zero_neq_numeral)
  have o: "(ucast (off H a - H) :: u32) = of_nat a" by (simp add: off_def ucast_of_nat_64_32)
  have a: "unat (of_nat a :: u32) = a" using u(2) by (simp add: unat_of_nat)
  have "unat ((of_nat a :: u32) div 2 ^ k mod 2) = a div 2 ^ k mod 2" by (simp add: unat_div unat_mod a u(1))
  then have "(of_nat a :: u32) div 2 ^ k mod 2 = 0 \<longleftrightarrow> even (a div 2 ^ k)"
    by (metis unat_0 unat_eq_zero even_iff_mod_2_eq_zero)
  moreover have "k < 32" using d(1) k(1) by (simp add: space_def)
  ultimately show ?thesis by (simp add: getAlignment_def s nz o left_half_def)
qed

text \<open>The test of the merge: whether the buddy of the block is in its list.\<close>

lemma buddy_header:
  assumes b: "buds H K B (insert x F) F h" and x: "x \<in> B" "x \<notin> F" "snd x < K"
  shows "isFree (bmem h (off H (fst (sib x)))) \<and> bsize (bmem h (off H (fst (sib x)))) = 2 ^ snd x \<longleftrightarrow> sib x \<in> F"
proof -
  note d = budsD [OF b]
  have dx: "dyadic K x" by (rule tilingD(1) [OF d(3) x(1)])
  obtain i where i: "i \<le> snd x" "(fst (sib x), i) \<in> B" by (rule sib_start [OF d(3) x(1,3)])
  let ?z = "(fst (sib x), i)"
  have hz: "bsize (bmem h (off H (fst (sib x)))) = 2 ^ i" "isFree (bmem h (off H (fst (sib x)))) \<longleftrightarrow> ?z \<in> insert x F"
    using bspec [OF d(7) [unfolded headers_def] i(2)] by simp_all
  have inj: "(2 ^ i :: u32) = 2 ^ snd x \<longleftrightarrow> i = snd x"
    using pow_K(1) [OF d(1), of i] pow_K(1) [OF d(1), of "snd x"] i(1) x(3)
    by (metis less_imp_le order_trans power_inject_exp one_less_numeral_iff semiring_norm(76))
  have sx: "?z = sib x \<longleftrightarrow> i = snd x" using buddies(9) [OF dx x(3)] by (cases "sib x") auto
  have ne: "sib x \<noteq> x" by (rule sib_neq)
  have "sib x \<in> F \<Longrightarrow> ?z = sib x" using starts_differ [OF d(3) i(2), of "sib x"] d(4,5) by auto
  then show ?thesis using hz inj sx ne by (cases "i = snd x") auto
qed

lemma sib_address:
  assumes "space H K" "dyadic K x" "snd x < K"
  shows "(if left_half x then off H (fst x) + 2 ^ snd x else off H (fst x) - 2 ^ snd x) = off H (fst (sib x))"
proof (cases "left_half x")
  case True
  then show ?thesis by (simp add: sib_def off_add)
next
  case False
  obtain Q where "fst x = Q + 2 ^ snd x"
    using halves [of K "fst x" "snd x"] assms(2,3) False by (metis prod.collapse)
  then show ?thesis using False by (simp add: sib_def off_add)
qed

text \<open>The blocks between two steps: \<open>x\<close> is free but in no list.\<close>

definition pend :: "addr \<Rightarrow> nat \<Rightarrow> bblk \<Rightarrow> bblk set \<Rightarrow> bblk set \<Rightarrow> buddy_heap \<Rightarrow> bool" where
  "pend H K x F U h \<longleftrightarrow> buds H K (insert x (F \<union> U)) (insert x F) F h \<and> x \<notin> F \<and> x \<notin> U \<and> F \<inter> U = {}"

text \<open>The blocks between two calls: those of \<open>F\<close> are free, those of \<open>U\<close> are in use.\<close>

definition rep :: "addr \<Rightarrow> nat \<Rightarrow> bblk set \<Rightarrow> bblk set \<Rightarrow> buddy_heap \<Rightarrow> bool" where
  "rep H K F U h \<longleftrightarrow> buds H K (F \<union> U) F F h \<and> F \<inter> U = {}"

lemma merge_turn:
  assumes p: "pend H K x F U h" and s: "snd x < K" "sib x \<in> F"
  obtains h' where "mergeBlock (off H (fst x)) (snd x) H (2 ^ K) h =
      mergeBlock (off H (fst (parent x))) (Suc (snd x)) H (2 ^ K) h'"
    "pend H K (parent x) (F - {sib x}) U h'"
proof -
  let ?B = "insert x (F \<union> U)"
  have b: "buds H K ?B (insert x F) F h" and x: "x \<notin> F" "x \<notin> U" "F \<inter> U = {}" using p by (auto simp: pend_def)
  note d = budsD [OF b]
  have dx: "dyadic K x" using tilingD(1) [OF d(3)] by blast
  note bb = buddies [OF dx s(1)]
  have p1: "fst (parent x) = (if left_half x then fst x else fst (sib x))"
    by (simp add: parent_def sib_def)
  obtain h1 where h1: "removeFromFreeList (off H (fst x)) (snd x) h = Some h1" "buds H K ?B F F h1"
    "bnext (bmem h1 (off H (fst x))) = NULL"
    using remove_absent [OF b, of "fst x" "snd x"] x by auto
  obtain h2 where h2: "removeFromFreeList (off H (fst (sib x))) (snd x) h1 = Some h2"
    "buds H K ?B (F - {sib x}) (F - {sib x}) h2"
    "bnext (bmem h2 (off H (fst x))) = NULL"
    "(\<forall>c. (c, snd x) \<in> F \<longrightarrow> c = fst (sib x)) \<Longrightarrow> bnext (bmem h2 (off H (fst (sib x)))) = NULL"
    using remove_present [OF h1(2), of "fst (sib x)" "snd x"] s bb(9) x(1) h1(3)
    by (metis Diff_iff insertI1 prod.collapse)
  define y where "y = (if left_half x then x else sib x)"
  have y: "fst (parent x) = fst y" "{y, sib y} = {x, sib x}" "parent y = parent x" "left_half y" "snd y = snd x"
    using bb(5-9) p1 by (auto simp: y_def)
  have top: "bnext (bmem h2 (off H (fst y))) = NULL" if "Suc (snd y) = K"
  proof (cases "left_half x")
    case True
    then show ?thesis using h2(3) by (simp add: y_def)
  next
    case False
    have "parent x = (0, K)" using bb(2) that y(5) by (cases "parent x") (auto simp: dyadic_def parent_def)
    then have "insert (parent x) (?B - {x, sib x}) = {(0, K)}"
      using whole_only [OF tile_merge [OF d(3) _ _ s(1)]] s(2) by auto
    then have "F \<subseteq> {x, sib x, (0, K)}" by blast
    then have only: "z \<noteq> x \<Longrightarrow> z \<noteq> (0, K) \<Longrightarrow> z = sib x" if "z \<in> F" for z using that by blast
    have "\<forall>c. (c, snd x) \<in> F \<longrightarrow> c = fst (sib x)"
    proof (intro allI impI)
      fix c assume c: "(c, snd x) \<in> F"
      then have "(c, snd x) \<noteq> x" "(c, snd x) \<noteq> (0, K)" using x(1) s(1) by auto
      then have "(c, snd x) = sib x" using only [OF c] by blast
      then show "c = fst (sib x)" by (metis fst_conv)
    qed
    then show ?thesis using h2(4) False by (simp add: y_def)
  qed
  have new: "parent x \<notin> ?B" using parent_fresh [OF d(3) _ s(1)] by blast
  let ?h = "set_block (off H (fst y)) (\<lambda>x. x\<lparr>bsize := bsize x * 2, isFree := True\<rparr>) h2"
  have yx: "y \<in> {x, sib x}" "sib y \<in> {x, sib x}" using y(2) by (simp_all add: y(2) [symmetric])
  have "{x, sib x} \<subseteq> ?B" "{x, sib x} \<inter> (F - {sib x}) = {}" using s(2) x(1) by auto
  then have "y \<in> ?B" "sib y \<in> ?B" "y \<notin> F - {sib x}" "sib y \<notin> F - {sib x}" using yx by blast+
  from buds_join [OF h2(2) this _ y(4) top]
  have j: "buds H K (insert (parent x) (?B - {x, sib x})) (insert (parent x) (F - {sib x})) (F - {sib x}) ?h"
    unfolding y(2,3,5) using s(1) by blast
  have eq: "insert (parent x) (?B - {x, sib x}) = insert (parent x) ((F - {sib x}) \<union> U)" using s(2) x by blast
  have "pend H K (parent x) (F - {sib x}) U ?h" unfolding pend_def using j new x unfolding eq by blast
  moreover have "mergeBlock (off H (fst x)) (snd x) H (2 ^ K) h =
      mergeBlock (off H (fst (parent x))) (Suc (snd x)) H (2 ^ K) ?h"
  proof -
    have hx: "bsize (bmem h (off H (fst x))) = 2 ^ snd x" using d(7) by (simp add: headers_def)
    have uc: "ucast (2 ^ snd x :: u32) = (2 ^ snd x :: u64)" by (rule ucast_pow [OF d(1)]) (use s(1) in simp)
    have ne: "(2 ^ snd x :: u64) \<noteq> 2 ^ K"
      using pow_K(2) [OF d(1), of "snd x"] pow_K(2) [OF d(1) order_refl] s(1) by auto
    have al: "getAlignment (off H (fst x)) H h = Some (if left_half x then LEFT else RIGHT)"
      using getAlignment_half [OF b, of "fst x" "snd x"] by simp
    have sa: "(if left_half x then off H (fst x) + 2 ^ snd x else off H (fst x) - 2 ^ snd x) = off H (fst (sib x))"
      by (rule sib_address [OF d(1) dx s(1)])
    have hs: "isFree (bmem h (off H (fst (sib x))))" "bsize (bmem h (off H (fst (sib x)))) = 2 ^ snd x"
      using buddy_header [OF b _ x(1) s(1)] s(2) by auto
    have nn: "off H (fst (sib x)) \<noteq> NULL" using off_not_NULL [OF d(1,3), of "sib x"] s(2) by simp
    show ?thesis
    proof (cases "left_half x")
      case True
      then show ?thesis
        using sa p1 by (subst mergeBlock.simps) (simp add: hx uc ne al hs nn h1(1) h2(1) y_def Let_def)
    next
      case False
      then show ?thesis
        using sa p1 by (subst mergeBlock.simps) (simp add: hx uc ne al hs nn h1(1) h2(1) y_def Let_def)
    qed
  qed
  ultimately show ?thesis using that by blast
qed

lemma merge_last:
  assumes p: "pend H K x F U h" and s: "snd x \<ge> K \<or> sib x \<notin> F"
  obtains h' where "mergeBlock (off H (fst x)) (snd x) H (2 ^ K) h = Some h'" "rep H K (insert x F) U h'"
proof -
  let ?B = "insert x (F \<union> U)"
  have b: "buds H K ?B (insert x F) F h" and x: "x \<notin> F" "x \<notin> U" "F \<inter> U = {}" using p by (auto simp: pend_def)
  note d = budsD [OF b]
  have dx: "dyadic K x" using tilingD(1) [OF d(3)] by blast
  have k: "snd x \<le> K" using dx by (simp add: dyadic_def)
  have hx: "bsize (bmem h (off H (fst x))) = 2 ^ snd x" using d(7) by (simp add: headers_def)
  have uc: "ucast (2 ^ snd x :: u32) = (2 ^ snd x :: u64)" by (rule ucast_pow [OF d(1) k])
  have R: "rep H K (insert x F) U h'" if "buds H K ?B (insert x F) (insert x F) h'" for h'
    using that x by (simp add: rep_def)
  show ?thesis
  proof (cases "snd x = K")
    case True
    then have x0: "x = (0, K)" using dx by (cases x) (auto simp: dyadic_def)
    note t = buds_top [OF b, folded x0, OF _ x(1)]
    have "mergeBlock (off H (fst x)) (snd x) H (2 ^ K) h = Some (h\<lparr>freeList := (freeList h)[K := off H 0]\<rparr>)"
      using hx uc True d(2) by (subst mergeBlock.simps) (simp add: set_list_def x0)
    then show ?thesis using that t R by (simp add: x0)
  next
    case False
    then have sk: "snd x < K" using k by simp
    then have nF: "sib x \<notin> F" using s by simp
    have ne: "(2 ^ snd x :: u64) \<noteq> 2 ^ K"
      using pow_K(2) [OF d(1) k] pow_K(2) [OF d(1) order_refl] sk by auto
    have al: "getAlignment (off H (fst x)) H h = Some (if left_half x then LEFT else RIGHT)"
      using getAlignment_half [OF b, of "fst x" "snd x"] by simp
    have sa: "(if left_half x then off H (fst x) + 2 ^ snd x else off H (fst x) - 2 ^ snd x) = off H (fst (sib x))"
      by (rule sib_address [OF d(1) dx sk])
    have hs: "\<not> (isFree (bmem h (off H (fst (sib x)))) \<and> bsize (bmem h (off H (fst (sib x)))) = 2 ^ snd x)"
      using buddy_header [OF b _ x(1) sk] nF by auto
    have pu: "buds H K ?B (insert x F) (insert x F) ((set_block (off H (fst x)) (\<lambda>y. y\<lparr>bnext := freeList h ! snd x\<rparr>) h)
      \<lparr>freeList := (freeList h)[snd x := off H (fst x)]\<rparr>)"
      using buds_push [OF b, of "fst x" "snd x"] x(1) sk nF by simp
    have "mergeBlock (off H (fst x)) (snd x) H (2 ^ K) h =
        Some ((set_block (off H (fst x)) (\<lambda>y. y\<lparr>bnext := freeList h ! snd x\<rparr>) h)
          \<lparr>freeList := (freeList h)[snd x := off H (fst x)]\<rparr>)"
    proof (cases "left_half x")
      case True
      then show ?thesis
        using sa hs d(2) sk by (subst mergeBlock.simps) (auto simp: hx uc ne al list_at_def set_list_def)
    next
      case False
      then show ?thesis
        using sa hs d(2) sk by (subst mergeBlock.simps) (auto simp: hx uc ne al list_at_def set_list_def)
    qed
    then show ?thesis using that R [OF pu] by blast
  qed
qed

text \<open>The merge loop computes \<open>coalesce\<close>.\<close>

lemma merge_coalesces:
  assumes "pend H K x F U h"
  shows "\<exists>h'. mergeBlock (off H (fst x)) (snd x) H (2 ^ K) h = Some h' \<and> rep H K (coalesce K F x) U h'"
  using assms
proof (induction K F x arbitrary: h rule: coalesce.induct)
  case (1 K F x)
  show ?case
  proof (cases "snd x < K \<and> sib x \<in> F")
    case True
    then obtain h' where h': "mergeBlock (off H (fst x)) (snd x) H (2 ^ K) h =
      mergeBlock (off H (fst (parent x))) (Suc (snd x)) H (2 ^ K) h'" "pend H K (parent x) (F - {sib x}) U h'"
      using merge_turn [OF "1.prems"] by blast
    have "snd (parent x) = Suc (snd x)" by (simp add: parent_def)
    then show ?thesis using "1.IH" [OF True h'(2)] True h'(1) by (subst coalesce.simps) simp
  next
    case False
    then have "snd x \<ge> K \<or> sib x \<notin> F" by auto
    then obtain h' where "mergeBlock (off H (fst x)) (snd x) H (2 ^ K) h = Some h'" "rep H K (insert x F) U h'"
      by (rule merge_last [OF "1.prems"])
    moreover have "coalesce K F x = insert x F" using False by (subst coalesce.simps) (simp only: if_False)
    ultimately show ?thesis by simp
  qed
qed

section \<open>Orders\<close>

lemma getOrder_loop_least:
  assumes "unat sz \<le> 2 ^ 31" "j \<le> 31" "\<forall>i < j. 2 ^ i < unat sz"
  obtains k where "k \<le> 31" "getOrder_loop sz (of_nat j) (2 ^ j) = Some (of_nat k)" "unat sz \<le> 2 ^ k"
    "\<forall>i < k. 2 ^ i < unat sz"
  using assms
proof (induction "31 - j" arbitrary: j thesis)
  case (0 j)
  have u: "unat (2 ^ j :: u32) = 2 ^ j" using pow_K(1) [of 1 31 j] 0(4) by (simp add: space_def)
  have j: "j = 31" using 0(1,4) by simp
  have n: "\<not> 2 ^ j < sz" using 0(3) u by (simp add: j word_less_nat_alt)
  have "getOrder_loop sz (of_nat j) (2 ^ j) = Some (of_nat j)"
    by (subst getOrder_loop.simps) (simp only: n if_False)
  then show ?case using 0(2) [of j] 0(3-5) by (simp add: j)
next
  case (Suc n j)
  have j: "j < 31" using Suc.hyps(2) by simp
  have u: "unat (2 ^ j :: u32) = 2 ^ j" using pow_K(1) [of 1 31 j] j by (simp add: space_def)
  have st: "getOrder_loop sz (of_nat j) (2 ^ j) =
      (if 2 ^ j < unat sz then getOrder_loop sz (of_nat (Suc j)) (2 ^ Suc j) else Some (of_nat j))"
    by (subst getOrder_loop.simps) (simp add: word_less_nat_alt u add.commute push_bit_eq_mult mult.commute)
  show ?case
  proof (cases "2 ^ j < unat sz")
    case True
    show ?thesis
    proof (rule Suc.hyps(1) [of "Suc j"])
      show "\<forall>i < Suc j. 2 ^ i < unat sz" using True Suc.prems(4) less_Suc_eq by auto
    qed (use Suc j st True in auto)
  next
    case False
    then show ?thesis using Suc.prems(1) [of j] Suc.prems(3,4) st by simp
  qed
qed

lemma getOrder_least:
  assumes "unat sz \<le> 2 ^ 31"
  obtains k where "getOrder sz = Some k" "k \<le> 31" "unat sz \<le> 2 ^ k" "\<forall>i < k. 2 ^ i < unat sz"
proof -
  obtain k where k: "k \<le> 31" "getOrder_loop sz (of_nat 0) (2 ^ 0) = Some (of_nat k)" "unat sz \<le> 2 ^ k"
    "\<forall>i < k. 2 ^ i < unat sz"
    by (rule getOrder_loop_least [of sz 0]) (use assms in auto)
  have "unat (of_nat k :: u32) = k" using k(1) by (simp add: unat_of_nat)
  then show ?thesis using that k by (simp add: getOrder_def)
qed

lemma getOrder_pow:
  assumes "space H K" "k \<le> K"
  shows "getOrder (2 ^ k) = Some k"
proof -
  have u: "unat (2 ^ k :: u32) = 2 ^ k" by (rule pow_K(1) [OF assms])
  obtain l where l: "getOrder (2 ^ k) = Some l" "(2 :: nat) ^ k \<le> 2 ^ l" "\<forall>i < l. (2 :: nat) ^ i < 2 ^ k"
    by (rule getOrder_least [of "2 ^ k"]) (use u pow_K(3) [OF assms] in auto)
  have "l = k" using l(2,3) by (metis less_irrefl linorder_neqE_nat not_le power_strict_increasing one_less_numeral_iff semiring_norm(76))
  then show ?thesis using l(1) by simp
qed

section \<open>Allocation\<close>

text \<open>The right halves that splitting a block of order \<open>i\<close> at \<open>a\<close> down to \<open>order\<close> leaves.\<close>

definition halves_of :: "nat \<Rightarrow> nat \<Rightarrow> nat \<Rightarrow> bblk set" where
  "halves_of a order i = (\<lambda>l. (a + 2 ^ l, l)) ` {order..<i}"

lemma halves_of_Suc: "order \<le> i \<Longrightarrow> halves_of a order (Suc i) = insert (a + 2 ^ i, i) (halves_of a order i)"
  by (auto simp: halves_of_def atLeastLessThanSuc)

lemma split_loop_pend:
  assumes "pend H K (a, i) F U h" "4 \<le> order" "order \<le> i"
  obtains h' where "halving_loop order i (off H a) h = Some h'" "pend H K (a, order) (F \<union> halves_of a order i) U h'"
  using assms
proof (induction i arbitrary: F h thesis)
  case 0
  then show ?case by simp
next
  case (Suc i)
  show ?case
  proof (cases "order = Suc i")
    case True
    then show ?thesis using Suc.prems(1) [of h] Suc.prems(2) by (simp add: halves_of_def)
  next
    case False
    then have o: "order \<le> i" using Suc.prems(4) by simp
    let ?x = "(a, Suc i)" and ?y = "(a, i)" and ?r = "(a + 2 ^ i, i)"
    have b: "buds H K (insert ?x (F \<union> U)) (insert ?x F) F h" and x: "?x \<notin> F" "?x \<notin> U" "F \<inter> U = {}"
      using Suc.prems(2) by (auto simp: pend_def)
    obtain h1 where h1: "halving_loop order (Suc i) (off H a) h = halving_loop order i (off H a) h1"
      "buds H K (insert ?y (insert ?r (insert ?x (F \<union> U) - {?x}))) (insert ?y (insert ?r (insert ?x F - {?x})))
        (insert ?r F) h1" "?y \<notin> insert ?r F" "?y \<notin> insert ?x (F \<union> U)" "?r \<notin> insert ?x (F \<union> U)"
    proof (rule split_turn [OF b _ x(1)])
      show "?x \<in> insert ?x F" "4 \<le> i" "order < Suc i" using o Suc.prems(3) by simp_all
    qed
    have eq: "insert ?x (F \<union> U) - {?x} = F \<union> U" "insert ?x F - {?x} = F" using x by auto
    have "pend H K ?y (insert ?r F) U h1"
      using h1(2-5) x(3) unfolding eq pend_def by auto
    then show ?thesis
    proof (rule Suc.IH [rotated])
      fix h' assume h': "halving_loop order i (off H a) h1 = Some h'"
        "pend H K (a, order) (insert ?r F \<union> halves_of a order i) U h'"
      show thesis
        using Suc.prems(1) [of h'] h' h1(1) by (simp add: halves_of_Suc [OF o] del: halving_loop.simps)
    qed (use o Suc.prems(3) in auto)
  qed
qed

text \<open>The loop over the orders takes the first block of the first list that is not empty.\<close>

lemma order_loop_takes:
  assumes r: "rep H K F U h" and o: "4 \<le> order" "order \<le> j" "j + n = Suc K"
  shows "(\<forall>x \<in> F. snd x < j) \<Longrightarrow> order_loop order j n h = Some (NULL, h)"
    "(a0, i0) \<in> F \<Longrightarrow> j \<le> i0 \<Longrightarrow> \<exists>a i h'. (a, i) \<in> F \<and> j \<le> i \<and> (\<forall>x \<in> F. snd x < j \<or> i \<le> snd x) \<and>
       order_loop order j n h = Some (off H a + 16, h') \<and>
       rep H K (F - {(a, i)} \<union> halves_of a order i) (insert (a, order) U) h'"
proof -
  have b: "buds H K (F \<union> U) F F h" and x: "F \<inter> U = {}" using r by (auto simp: rep_def)
  note d = budsD [OF b]
  have empty: "order_loop order j (Suc n) h = order_loop order (Suc j) n h"
    if "\<forall>a. (a, j) \<notin> F" "j \<le> K" for j n
    using d(8) that(2)
  proof (cases rule: list_head)
    case none
    then show ?thesis using that(2) d(2) by (simp add: list_at_def)
  next
    case (some a xs)
    then show ?thesis using that(1) by auto
  qed
  show "(\<forall>x \<in> F. snd x < j) \<Longrightarrow> order_loop order j n h = Some (NULL, h)"
    using o(3)
  proof (induction n arbitrary: j)
    case (Suc n)
    then have "order_loop order (Suc j) n h = Some (NULL, h)" by (metis add_Suc_shift less_SucI)
    then show ?case using empty [of j n] Suc.prems by force
  qed simp
  show "(a0, i0) \<in> F \<Longrightarrow> j \<le> i0 \<Longrightarrow> \<exists>a i h'. (a, i) \<in> F \<and> j \<le> i \<and> (\<forall>x \<in> F. snd x < j \<or> i \<le> snd x) \<and>
       order_loop order j n h = Some (off H a + 16, h') \<and>
       rep H K (F - {(a, i)} \<union> halves_of a order i) (insert (a, order) U) h'"
    using o(2,3)
  proof (induction n arbitrary: j)
    case 0
    then have "i0 \<le> K" using tilingD(1) [OF d(3), of "(a0, i0)"] by (auto simp: dyadic_def)
    then show ?case using 0 by simp
  next
    case (Suc n)
    have j: "j \<le> K" using Suc.prems by simp
    from d(8) j show ?case
    proof (cases rule: list_head)
      case none
      then have ne: "i0 \<noteq> j" using Suc.prems(1) by auto
      have "\<exists>a i h'. (a, i) \<in> F \<and> Suc j \<le> i \<and> (\<forall>x \<in> F. snd x < Suc j \<or> i \<le> snd x) \<and>
        order_loop order (Suc j) n h = Some (off H a + 16, h') \<and>
        rep H K (F - {(a, i)} \<union> halves_of a order i) (insert (a, order) U) h'"
        by (rule Suc.IH) (use Suc.prems ne in auto)
      then obtain a i h' where h': "(a, i) \<in> F" "Suc j \<le> i" "\<forall>x \<in> F. snd x < Suc j \<or> i \<le> snd x"
        "order_loop order (Suc j) n h = Some (off H a + 16, h')"
        "rep H K (F - {(a, i)} \<union> halves_of a order i) (insert (a, order) U) h'" by blast
      have "snd x < j \<or> i \<le> snd x" if "x \<in> F" for x
        using h'(3) none(2) that by (metis less_SucE prod.collapse)
      then show ?thesis using h' empty [OF none(2) j, of n] by (metis Suc_leD)
    next
      case (some a xs)
      let ?x = "(a, j)"
      have xF: "?x \<in> F" using some(5) by auto
      let ?h1 = "h\<lparr>freeList := (freeList h)[j := bnext (bmem h (off H a))]\<rparr>"
      have bt: "buds H K (F \<union> U) F (F - {?x}) ?h1" by (rule buds_take [OF b xF some(1)])
      have eq: "insert ?x (F - {?x} \<union> U) = F \<union> U" "insert ?x (F - {?x}) = F" using xF by auto
      have p1: "pend H K ?x (F - {?x}) U ?h1" unfolding pend_def eq using bt xF x by blast
      obtain h2 where h2: "halving_loop order j (off H a) ?h1 = Some h2"
        "pend H K (a, order) (F - {?x} \<union> halves_of a order j) U h2"
        by (rule split_loop_pend [OF p1 o(1) Suc.prems(3)])
      let ?F = "F - {?x} \<union> halves_of a order j" and ?y = "(a, order)"
      let ?h = "set_block (off H a) (\<lambda>x. x\<lparr>isFree := False\<rparr>) h2"
      have b2: "buds H K (insert ?y (?F \<union> U)) (insert ?y ?F) ?F h2" and y: "?y \<notin> ?F" "?y \<notin> U" "?F \<inter> U = {}"
        using h2(2) by (auto simp: pend_def)
      have "buds H K (insert ?y (?F \<union> U)) (insert ?y ?F - {?y}) ?F ?h"
        using buds_mark [OF b2, of ?y False] y(1) by simp
      moreover have "insert ?y ?F - {?y} = ?F" using y(1) by simp
      ultimately have "rep H K ?F (insert ?y U) ?h" using y by (simp add: rep_def)
      moreover have "isFree (bmem h (off H a))" using bspec [OF d(7) [unfolded headers_def], of ?x] xF by simp
      then have "order_loop order j (Suc n) h = Some (off H a + 16, ?h)"
        using some(1,2) j d(2) h2(1) by (simp add: list_at_def set_list_def sizeof_BuddyBlock_def)
      moreover have "\<forall>x \<in> F. snd x < j \<or> j \<le> snd x" by auto
      ultimately show ?thesis using xF by blast
    qed
  qed
qed

lemma halves_of_empty [simp]: "halves_of a i i = {}"
  by (simp add: halves_of_def)

lemma unat_ucast_64_32: "unat (ucast w :: u32) = unat w mod 2 ^ 32" for w :: u64
  by (simp add: unsigned_ucast_eq unsigned_take_bit_eq take_bit_eq_mod)

lemma buddy_size:
  assumes "unat sz \<le> 2 ^ 31 - 16"
  shows "unat (ucast (sz + sizeof_BuddyBlock) :: u32) = unat sz + 16"
proof -
  have "unat (sz + sizeof_BuddyBlock) = unat sz + 16"
    using assms by (simp add: sizeof_BuddyBlock_def unat_word_ariths(1))
  then show ?thesis using assms by (simp add: unat_ucast_64_32)
qed

text \<open>
  Allocation takes a smallest block among those that are large enough, splits it down to the order of
  the request, and returns \<open>NULL\<close> only if there is none.
\<close>

lemma buddy_malloc:
  assumes "rep H K F U h" "unat sz \<le> 2 ^ 31 - 16"
  shows "\<exists>order. unat sz + 16 \<le> 2 ^ order \<and> (\<forall>i < order. 2 ^ i < unat sz + 16) \<and>
    ((\<forall>x \<in> F. snd x < order) \<and> buddyMalloc sz (Suc K) h = Some (NULL, h) \<or>
     (\<exists>a i h'. (a, i) \<in> F \<and> order \<le> i \<and> (\<forall>x \<in> F. snd x < order \<or> i \<le> snd x) \<and>
       buddyMalloc sz (Suc K) h = Some (off H a + 16, h') \<and>
       rep H K (F - {(a, i)} \<union> halves_of a order i) (insert (a, order) U) h'))"
proof -
  have b: "buds H K (F \<union> U) F F h" using assms(1) by (simp add: rep_def)
  note d = budsD [OF b]
  have u: "unat (ucast (sz + sizeof_BuddyBlock) :: u32) = unat sz + 16" by (rule buddy_size [OF assms(2)])
  obtain k where k: "getOrder (ucast (sz + sizeof_BuddyBlock)) = Some k" "unat sz + 16 \<le> 2 ^ k"
    "\<forall>i < k. 2 ^ i < unat sz + 16"
    by (rule getOrder_least [of "ucast (sz + sizeof_BuddyBlock)"]) (use u assms(2) in auto)
  have k4: "4 \<le> k"
  proof (rule ccontr)
    assume "\<not> 4 \<le> k"
    then have "(2 :: nat) ^ k \<le> 2 ^ 3" by (intro power_increasing) simp_all
    then show False using k(2) by simp
  qed
  have m: "buddyMalloc sz (Suc K) h = order_loop k k (Suc K - k) h" by (simp add: buddyMalloc_def k(1))
  have small: "snd x \<le> K" if "x \<in> F" for x using tilingD(1) [OF d(3), of x] that by (auto simp: dyadic_def)
  show ?thesis
  proof (intro exI [of _ k] conjI k(2,3))
    consider "\<forall>x \<in> F. snd x < k" | a i where "(a, i) \<in> F" "k \<le> i" by (metis not_le prod.collapse)
    then show "(\<forall>x \<in> F. snd x < k) \<and> buddyMalloc sz (Suc K) h = Some (NULL, h) \<or>
      (\<exists>a i h'. (a, i) \<in> F \<and> k \<le> i \<and> (\<forall>x \<in> F. snd x < k \<or> i \<le> snd x) \<and>
        buddyMalloc sz (Suc K) h = Some (off H a + 16, h') \<and>
        rep H K (F - {(a, i)} \<union> halves_of a k i) (insert (a, k) U) h')"
    proof cases
      case 1
      have "order_loop k k (Suc K - k) h = Some (NULL, h)"
      proof (cases "k \<le> Suc K")
        case True
        then show ?thesis using order_loop_takes(1) [OF assms(1) k4 order_refl, of "Suc K - k"] 1 by simp
      qed simp
      then show ?thesis using 1 m by simp
    next
      case 2
      then have "k + (Suc K - k) = Suc K" using small [OF 2(1)] by simp
      from order_loop_takes(2) [OF assms(1) k4 order_refl this 2] show ?thesis unfolding m by blast
    qed
  qed
qed

text \<open>Release puts the block back and merges it with its buddies as far as they are free.\<close>

lemma buddy_free:
  assumes "rep H K F U h" "(a, k) \<in> U"
  shows "\<exists>h'. buddyFree (off H a + 16) H (2 ^ K) h = Some h' \<and> rep H K (coalesce K F (a, k)) (U - {(a, k)}) h'"
proof -
  have b: "buds H K (F \<union> U) F F h" and x: "F \<inter> U = {}" using assms(1) by (auto simp: rep_def)
  note d = budsD [OF b]
  let ?x = "(a, k)" and ?h = "set_block (off H a) (\<lambda>x. x\<lparr>isFree := True\<rparr>) h"
  have xB: "?x \<in> F \<union> U" and xF: "?x \<notin> F" using assms(2) x by auto
  have k: "k \<le> K" using tilingD(1) [OF d(3) xB] by (simp add: dyadic_def)
  have bm: "buds H K (F \<union> U) (insert ?x F) F ?h" using buds_mark [OF b xB xF, of True] by simp
  have eq: "insert ?x (F \<union> (U - {?x})) = F \<union> U" using assms(2) by auto
  have "pend H K ?x F (U - {?x}) ?h" unfolding pend_def eq using bm xF x by blast
  from merge_coalesces [OF this] obtain h' where h': "mergeBlock (off H a) k H (2 ^ K) ?h = Some h'"
    "rep H K (coalesce K F ?x) (U - {?x}) h'" by auto
  have s: "bsize (bmem h (off H a)) = 2 ^ k" using bspec [OF d(7) [unfolded headers_def] xB] by simp
  have n: "unat (off H a + 16) = unat (off H a) + 16"
    using off_unat [OF d(1), of a] fst_bound [OF tilingD(1) [OF d(3) xB]] d(1)
    by (simp add: space_def unat_word_ariths(1))
  then have nn: "off H a + 16 \<noteq> NULL" by (metis add_is_0 unat_0 zero_neq_numeral)
  have "buddyFree (off H a + 16) H (2 ^ K) h = mergeBlock (off H a) k H (2 ^ K) ?h"
    using nn by (simp add: buddyFree_def sizeof_BuddyBlock_def Let_def s getOrder_pow [OF d(1) k])
  then show ?thesis using h' by auto
qed

end
