(* ===== verification/BuddyRuns.thy ===== *)
theory BuddyRuns
  imports BuddyProps
begin

text \<open>
  The life of a heap of the buddy memory manager: its initialisation, any sequence of calls by a client
  that also writes into the areas it holds, the report of the memory in use, and the requests for which
  \<open>internalMalloc\<close> never returns.
\<close>

section \<open>Initialisation\<close>

lemma align_up_aligned:
  fixes H :: addr
  assumes "8 dvd unat H" "unat H < 2 ^ 63"
  shows "(H + 8 - 1) AND NOT (8 - 1) = H"
proof -
  obtain q where q: "unat H = 8 * q" using assms(1) by (elim dvdE)
  have "unat (H + 7) = 8 * q + 7" using assms(2) by (simp add: unat_word_ariths(1) q)
  then have "unat ((H + 7) AND NOT 7) = unat H" unfolding unat_align_down by (simp add: q)
  then have "(H + 7) AND NOT 7 = H" by (rule word_eq_unat [THEN iffD2])
  then show ?thesis by (simp add: add_diff_eq [symmetric])
qed

lemma init_rep:
  assumes sp: "space H K" and al: "8 dvd unat H"
  shows "rep H K {(0, K)} {} (buddyFreeListInit (Suc K) H (2 ^ K) m)" (is "rep H K _ _ ?h")
    "freeList (buddyFreeListInit (Suc K) H (2 ^ K) m) = (replicate (Suc K) NULL)[K := H]"
proof -
  have "unat H < 2 ^ 63" using sp zero_less_power [of "2 :: nat" K] unfolding space_def by linarith
  then have a: "(H + 8 - 1) AND NOT (8 - 1) = H" by (rule align_up_aligned [OF al])
  have o: "off H 0 = H" by (simp add: off_def)
  have h: "?h = \<lparr>bmem = m(H := \<lparr>bnext = NULL, bsize = 2 ^ K, isFree = True\<rparr>), freeList = (replicate (Suc K) NULL)[K := H]\<rparr>"
    unfolding buddyFreeListInit_def a by simp
  then show "freeList ?h = (replicate (Suc K) NULL)[K := H]" by simp
  have nth: "(replicate (Suc K) NULL)[K := H] ! k = (if k = K then H else NULL)" if "k \<le> K" for k
    using that by (subst nth_list_update) (simp_all del: replicate.simps)
  have nn: "H \<noteq> NULL" using sp by (auto simp: space_def)
  have "blists H K {(0, K)} ?h"
    unfolding blists_def
  proof (intro allI impI)
    fix k assume k: "k \<le> K"
    show "\<exists>xs. blist (bmem ?h) (freeList ?h ! k) (map (off H) xs) \<and> distinct xs \<and> set xs = {a. (a, k) \<in> {(0, K)}}"
    proof (cases "k = K")
      case True
      then show ?thesis using nn nth [OF k] by (intro exI [of _ "[0]"]) (simp add: h o del: replicate.simps)
    next
      case False
      then show ?thesis using nth [OF k] by (intro exI [of _ "[]"]) (simp add: h del: replicate.simps)
    qed
  qed
  moreover have "normal {(0, K)}" using sib_neq [of "(0, K)"] by (simp add: normal_def)
  ultimately show "rep H K {(0, K)} {} ?h"
    using sp tiling_whole by (simp add: rep_def buds_def headers_def h o del: replicate.simps)
qed

text \<open>The two heaps of the system: that of the kernel and that of a process.\<close>

lemma kernel_heap_init:
  "buddyMemoryInit endOfModules m = buddyFreeListInit (Suc 26) endOfModules (2 ^ 26) m"
  by (simp add: buddyMemoryInit_def ORDER_COUNT_def BUDDY_MAX_MEMORY_def push_bit_eq_mult)

lemma process_heap_init:
  "buddyInit heapStart m = buddyFreeListInit (Suc 16) heapStart (2 ^ 16) m"
  by (simp add: buddyInit_def PROCESS_HEAP_ORDER_COUNT_def push_bit_eq_mult)

lemma kernel_heap_calls:
  "buddyGlobalMalloc sz h = buddyMalloc sz (Suc 26) h"
  "buddyGlobalFree H p h = buddyFree p H (2 ^ 26) h"
  by (simp_all add: buddyGlobalMalloc_def buddyGlobalFree_def ORDER_COUNT_def BUDDY_MAX_MEMORY_def push_bit_eq_mult)

section \<open>Runs\<close>

text \<open>
  The client holds the areas \<open>L\<close>, each a pointer with the size it asked for, at most \<open>2 ^ 31 - 16\<close>. A store
  changes only memory that overlaps an area.
\<close>

type_synonym areas = "(addr \<times> u64) set"

definition writes_in :: "areas \<Rightarrow> block_memory \<Rightarrow> block_memory \<Rightarrow> bool" where
  "writes_in L m m' \<longleftrightarrow>
     (\<forall>b. (\<forall>x \<in> L. unat b + 16 \<le> unat (fst x) \<or> unat (fst x) + unat (snd x) \<le> unat b) \<longrightarrow> m' b = m b)"

inductive buddy_run :: "addr \<Rightarrow> nat \<Rightarrow> buddy_heap \<Rightarrow> areas \<Rightarrow> bool" for H K where
  start: "buddy_run H K (buddyFreeListInit (Suc K) H (2 ^ K) m) {}"
| malloc: "buddy_run H K h L \<Longrightarrow> unat sz \<le> 2 ^ 31 - 16 \<Longrightarrow> buddyMalloc sz (Suc K) h = Some (p, h') \<Longrightarrow>
    buddy_run H K h' (if p = NULL then L else insert (p, sz) L)"
| free: "buddy_run H K h L \<Longrightarrow> (p, sz) \<in> L \<Longrightarrow> buddyFree p H (2 ^ K) h = Some h' \<Longrightarrow> buddy_run H K h' (L - {(p, sz)})"
| store: "buddy_run H K h L \<Longrightarrow> writes_in L (bmem h) m' \<Longrightarrow> buddy_run H K (h\<lparr>bmem := m'\<rparr>) L"

text \<open>The areas are those of the blocks in use.\<close>

definition area :: "addr \<Rightarrow> (bblk \<Rightarrow> u64) \<Rightarrow> bblk \<Rightarrow> addr \<times> u64" where
  "area H g x = (off H (fst x) + 16, g x)"

definition run_inv :: "addr \<Rightarrow> nat \<Rightarrow> buddy_heap \<Rightarrow> areas \<Rightarrow> bblk set \<Rightarrow> bblk set \<Rightarrow> (bblk \<Rightarrow> u64) \<Rightarrow> bool" where
  "run_inv H K h L F U g \<longleftrightarrow> rep H K F U h \<and> L = area H g ` U \<and> (\<forall>x \<in> U. unat (g x) + 16 \<le> 2 ^ snd x)"

lemma repD:
  assumes "rep H K F U h"
  shows "space H K" "tiling K (F \<union> U)" "F \<inter> U = {}" "normal F" "x \<in> F \<union> U \<Longrightarrow> dyadic K x"
  using assms budsD [of H K "F \<union> U" F F h] tilingD(1) [of K "F \<union> U" x] by (auto simp: rep_def)

lemma area_bounds:
  assumes r: "rep H K F U h" and x: "x \<in> U" and g: "unat (g x) + 16 \<le> 2 ^ snd x"
  shows "unat (fst (area H g x)) = unat H + fst x + 16" "unat H + fst x + 2 ^ snd x \<le> unat H + 2 ^ K"
    "fst (area H g x) \<noteq> NULL"
proof -
  note d = repD [OF r]
  have dx: "dyadic K x" using d(5) x by blast
  then show le: "unat H + fst x + 2 ^ snd x \<le> unat H + 2 ^ K" by (simp add: dyadic_def)
  have "unat H + 2 ^ K \<le> 2 ^ 63" using d(1) by (simp add: space_def)
  then have "unat H + fst x + 16 < 2 ^ 64" using le g by simp
  then show u: "unat (fst (area H g x)) = unat H + fst x + 16"
    using off_unat [OF d(1) fst_bound [OF dx]] by (simp add: area_def unat_word_ariths(1))
  then show "fst (area H g x) \<noteq> NULL" by (metis add_is_0 unat_0 zero_neq_numeral)
qed

lemma inj_area: "rep H K F U h \<Longrightarrow> inj_on (area H g) U"
proof (rule inj_onI)
  fix x y assume r: "rep H K F U h" and xy: "x \<in> U" "y \<in> U" "area H g x = area H g y"
  then show "x = y" using off_eq [OF repD(1,2) [OF r], of x y] by (simp add: area_def)
qed

lemma run_malloc:
  assumes i: "run_inv H K h L F U g" and sz: "unat sz \<le> 2 ^ 31 - 16" and m: "buddyMalloc sz (Suc K) h = Some (p, h')"
  shows "\<exists>F U g. run_inv H K h' (if p = NULL then L else insert (p, sz) L) F U g"
proof -
  have r: "rep H K F U h" and L: "L = area H g ` U" and g: "\<forall>x \<in> U. unat (g x) + 16 \<le> 2 ^ snd x"
    using i by (auto simp: run_inv_def)
  obtain order where o: "unat sz + 16 \<le> 2 ^ order" and c:
    "(\<forall>x \<in> F. snd x < order) \<and> buddyMalloc sz (Suc K) h = Some (NULL, h) \<or>
     (\<exists>a i h'. (a, i) \<in> F \<and> order \<le> i \<and> (\<forall>x \<in> F. snd x < order \<or> i \<le> snd x) \<and>
       buddyMalloc sz (Suc K) h = Some (off H a + 16, h') \<and>
       rep H K (F - {(a, i)} \<union> halves_of a order i) (insert (a, order) U) h')"
    using buddy_malloc [OF r sz] by blast
  from c show ?thesis
  proof (elim disjE exE conjE)
    assume "buddyMalloc sz (Suc K) h = Some (NULL, h)"
    then show ?thesis using m i by auto
  next
    fix a k h1 assume a: "(a, k) \<in> F" "order \<le> k" "buddyMalloc sz (Suc K) h = Some (off H a + 16, h1)"
      and r1: "rep H K (F - {(a, k)} \<union> halves_of a order k) (insert (a, order) U) h1"
    have h: "h1 = h'" "p = off H a + 16" using m a(3) by auto
    let ?x = "(a, order)"
    have new: "?x \<notin> U"
    proof
      assume u: "?x \<in> U"
      have "?x = (a, k)" using starts_differ [OF repD(2) [OF r], of ?x "(a, k)"] u a(1) by simp
      then show False using u a(1) repD(3) [OF r] by auto
    qed
    let ?g = "g(?x := sz)"
    have "area H ?g ` insert ?x U = insert (p, sz) (area H g ` U)"
    proof -
      have "area H ?g y = area H g y" if "y \<in> U" for y using that new by (auto simp: area_def)
      then have "area H ?g ` U = area H g ` U" by (rule image_cong [OF refl])
      then show ?thesis by (simp add: area_def h)
    qed
    moreover have "\<forall>y \<in> insert ?x U. unat (?g y) + 16 \<le> 2 ^ snd y" using o g new by auto
    ultimately have i1: "run_inv H K h' (insert (p, sz) L) (F - {(a, k)} \<union> halves_of a order k) (insert ?x U) ?g"
      using r1 by (simp add: run_inv_def L h)
    have "p \<noteq> NULL" using area_bounds(3) [OF r1, of ?x ?g] o by (simp add: area_def h)
    then show ?thesis using i1 by auto
  qed
qed

lemma run_free:
  assumes i: "run_inv H K h L F U g" and p: "(p, sz) \<in> L"
  shows "\<exists>h' F' U'. buddyFree p H (2 ^ K) h = Some h' \<and> run_inv H K h' (L - {(p, sz)}) F' U' g"
proof -
  have r: "rep H K F U h" and L: "L = area H g ` U" and g: "\<forall>x \<in> U. unat (g x) + 16 \<le> 2 ^ snd x"
    using i by (auto simp: run_inv_def)
  obtain x where x: "x \<in> U" "(p, sz) = area H g x" using p L by blast
  obtain a k where ak: "x = (a, k)" by (cases x)
  have pa: "p = off H a + 16" using x(2) ak by (simp add: area_def)
  obtain h' where h': "buddyFree p H (2 ^ K) h = Some h'" "rep H K (coalesce K F (a, k)) (U - {(a, k)}) h'"
    using buddy_free [OF r] x(1) ak pa by blast
  have "area H g ` U - {area H g x} = area H g ` (U - {x})"
    using inj_on_image_set_diff [OF inj_area [OF r], of U "{x}"] x(1) by simp
  then have "run_inv H K h' (L - {(p, sz)}) (coalesce K F (a, k)) (U - {(a, k)}) g"
    unfolding run_inv_def L x(2) using h'(2) g ak by auto
  then show ?thesis using h'(1) by blast
qed

lemma blocks_apart:
  assumes "tiling K B" "x \<in> B" "y \<in> B" "x \<noteq> y" "fst x \<le> fst y"
  shows "fst x + 2 ^ snd x \<le> fst y"
  using tilingD(2) [OF assms(1-4)] assms(5) self_extent [of y] by (force simp: extent_def)

lemma areas_apart:
  assumes r: "rep H K F U h" and x: "x \<in> U" and y: "y \<in> U" "x \<noteq> y"
    and g: "\<forall>x \<in> U. unat (g x) + 16 \<le> 2 ^ snd x" and le: "fst x \<le> fst y"
  shows "unat (fst (area H g x)) + unat (snd (area H g x)) \<le> unat (fst (area H g y))"
  using blocks_apart [OF repD(2) [OF r], of x y] area_bounds(1) [OF r x, of g] area_bounds(1) [OF r y(1), of g] g x y le
  by (fastforce simp: area_def)

lemma rep_cong:
  assumes r: "rep H K F U h" and m: "\<And>x. x \<in> F \<union> U \<Longrightarrow> m' (off H (fst x)) = bmem h (off H (fst x))"
  shows "rep H K F U (h\<lparr>bmem := m'\<rparr>)"
proof -
  have b: "buds H K (F \<union> U) F F h" using r by (simp add: rep_def)
  note d = budsD [OF b]
  have "headers H (F \<union> U) F (h\<lparr>bmem := m'\<rparr>)" using d(7) m unfolding headers_def by simp
  moreover have "blists H K F (h\<lparr>bmem := m'\<rparr>)" by (rule blists_frame [OF d(8)]) (simp_all add: m)
  moreover have "(0, K) \<in> F \<union> U \<Longrightarrow> bnext (m' (off H 0)) = NULL" using d(9) m [of "(0, K)"] by simp
  ultimately show ?thesis using r d unfolding rep_def buds_def by simp
qed

lemma run_store:
  assumes i: "run_inv H K h L F U g" and w: "writes_in L (bmem h) m'"
  shows "run_inv H K (h\<lparr>bmem := m'\<rparr>) L F U g"
proof -
  have r: "rep H K F U h" and L: "L = area H g ` U" and g: "\<forall>x \<in> U. unat (g x) + 16 \<le> 2 ^ snd x"
    using i by (auto simp: run_inv_def)
  have "rep H K F U (h\<lparr>bmem := m'\<rparr>)"
  proof (rule rep_cong [OF r])
    fix x assume x: "x \<in> F \<union> U"
    note d = repD [OF r]
    have u: "unat (off H (fst x)) = unat H + fst x" using off_unat [OF d(1) fst_bound [OF d(5) [OF x]]] .
    have "unat (off H (fst x)) + 16 \<le> unat (fst z) \<or> unat (fst z) + unat (snd z) \<le> unat (off H (fst x))" if z: "z \<in> L" for z
    proof -
      obtain y where y: "y \<in> U" "z = area H g y" using z unfolding L by blast
      have zy: "unat (fst z) = unat H + fst y + 16" "unat (snd z) + 16 \<le> 2 ^ snd y"
        using area_bounds(1) [OF r y(1), of g] g y by (auto simp: area_def)
      show ?thesis
      proof (cases "fst x \<le> fst y")
        case True
        then show ?thesis using zy(1) u by simp
      next
        case False
        then have "fst y + 2 ^ snd y \<le> fst x" using blocks_apart [OF d(2), of y x] y(1) x by auto
        then show ?thesis using zy u by simp
      qed
    qed
    then show "m' (off H (fst x)) = bmem h (off H (fst x))" using w unfolding writes_in_def by blast
  qed
  then show ?thesis using L g by (simp add: run_inv_def)
qed

lemma buddy_run_inv:
  assumes "buddy_run H K h L" "space H K" "8 dvd unat H"
  shows "\<exists>F U g. run_inv H K h L F U g"
  using assms
proof (induction rule: buddy_run.induct)
  case (start m)
  then have "run_inv H K (buddyFreeListInit (Suc K) H (2 ^ K) m) {} {(0, K)} {} (\<lambda>_. 0)"
    using init_rep(1) by (simp add: run_inv_def)
  then show ?case by blast
next
  case (malloc h L sz p h')
  then show ?case using run_malloc by blast
next
  case (free h L p sz h')
  then show ?case using run_free by fastforce
next
  case (store h L m')
  then show ?case using run_store by blast
qed

section \<open>What the calls guarantee\<close>

definition no_blocks :: block_memory where
  "no_blocks = (\<lambda>_. \<lparr>bnext = NULL, bsize = 0, isFree = False\<rparr>)"

lemma sample_space: "space 8 6" "8 dvd unat (8 :: addr)"
  by (simp_all add: space_def)

text \<open>
  C5: allocation computes the least order that fits the request and its header, takes a smallest block
  among the free ones of at least that order, splits it down and keeps the right halves free; it
  returns \<open>NULL\<close>, and changes nothing, only if no free block is large enough.
\<close>

theorem buddy_malloc_best:
  assumes "rep H K F U h" "unat sz \<le> 2 ^ 31 - 16"
  shows "\<exists>order. unat sz + 16 \<le> 2 ^ order \<and> (\<forall>i < order. 2 ^ i < unat sz + 16) \<and>
    ((\<forall>x \<in> F. snd x < order) \<and> buddyMalloc sz (Suc K) h = Some (NULL, h) \<or>
     (\<exists>a i h'. (a, i) \<in> F \<and> order \<le> i \<and> (\<forall>x \<in> F. snd x < order \<or> i \<le> snd x) \<and>
       buddyMalloc sz (Suc K) h = Some (off H a + 16, h') \<and>
       rep H K (F - {(a, i)} \<union> halves_of a order i) (insert (a, order) U) h'))"
  by (rule buddy_malloc [OF assms])

theorem buddy_malloc_best_witness:
  "\<exists>order. unat (10 :: u64) + 16 \<le> 2 ^ order \<and> (\<forall>i < order. 2 ^ i < unat (10 :: u64) + 16) \<and>
    ((\<forall>x \<in> {(0 :: nat, 6)}. snd x < order) \<and>
      buddyMalloc 10 (Suc 6) (buddyFreeListInit (Suc 6) 8 (2 ^ 6) no_blocks) =
        Some (NULL, buddyFreeListInit (Suc 6) 8 (2 ^ 6) no_blocks) \<or>
     (\<exists>a i h'. (a, i) \<in> {(0, 6)} \<and> order \<le> i \<and> (\<forall>x \<in> {(0 :: nat, 6)}. snd x < order \<or> i \<le> snd x) \<and>
       buddyMalloc 10 (Suc 6) (buddyFreeListInit (Suc 6) 8 (2 ^ 6) no_blocks) = Some (off 8 a + 16, h') \<and>
       rep 8 6 ({(0, 6)} - {(a, i)} \<union> halves_of a order i) (insert (a, order) {}) h'))"
  by (rule buddy_malloc_best [OF init_rep(1) [OF sample_space]]) simp

text \<open>
  C6: release marks the block free and merges it with its buddy as long as the buddy is free, which is
  what \<open>coalesce\<close> says of the set of free blocks; the other blocks in use stay as they are.
\<close>

theorem buddy_free_coalesces:
  assumes "rep H K F U h" "(a, k) \<in> U"
  shows "\<exists>h'. buddyFree (off H a + 16) H (2 ^ K) h = Some h' \<and> rep H K (coalesce K F (a, k)) (U - {(a, k)}) h'"
  by (rule buddy_free [OF assms])

lemma sample_used: "\<exists>h. rep 8 6 {} {(0, 6)} h"
proof -
  have b: "buds 8 6 {(0, 6)} {(0, 6)} {(0, 6)} (buddyFreeListInit (Suc 6) 8 (2 ^ 6) no_blocks)" (is "buds 8 6 _ _ _ ?h")
    using init_rep(1) [OF sample_space, of no_blocks] by (simp add: rep_def)
  have "freeList ?h ! 6 = off 8 0"
    using init_rep(2) [OF sample_space, of no_blocks] by (simp add: off_def del: replicate.simps)
  from buds_take [OF b _ this] obtain h1 where "buds 8 6 {(0, 6)} {(0, 6)} {} h1" by force
  from buds_mark [OF this, of "(0, 6)" False] show ?thesis by (auto simp: rep_def)
qed

theorem buddy_free_coalesces_witness:
  "\<exists>h h'. rep 8 6 {} {(0, 6)} h \<and> buddyFree (off 8 0 + 16) 8 (2 ^ 6) h = Some h' \<and> rep 8 6 {(0, 6)} {} h'"
proof -
  obtain h where h: "rep 8 6 {} {(0, 6)} h" using sample_used by blast
  have "coalesce 6 {} (0, 6) = {(0, 6)}" by (simp add: coalesce.simps)
  then show ?thesis using h buddy_free_coalesces [OF h, of 0 6] by auto
qed

text \<open>
  C4: whatever the client allocates, releases and writes, the areas it holds lie inside the heap, behind
  the header of their block, and apart from each other; every allocation of at most \<open>2 ^ 31 - 16\<close> bytes and
  every release of an area returns.
\<close>

theorem buddy_runs_safe:
  assumes "buddy_run H K h L" "space H K" "8 dvd unat H"
  shows "(\<forall>x \<in> L. unat H + 16 \<le> unat (fst x) \<and> unat (fst x) + unat (snd x) \<le> unat H + 2 ^ K) \<and>
    (\<forall>x \<in> L. \<forall>y \<in> L. x \<noteq> y \<longrightarrow>
      unat (fst x) + unat (snd x) \<le> unat (fst y) \<or> unat (fst y) + unat (snd y) \<le> unat (fst x)) \<and>
    (\<forall>sz. unat sz \<le> 2 ^ 31 - 16 \<longrightarrow> buddyMalloc sz (Suc K) h \<noteq> None) \<and>
    (\<forall>x \<in> L. buddyFree (fst x) H (2 ^ K) h \<noteq> None)"
proof -
  obtain F U g where i: "run_inv H K h L F U g" using buddy_run_inv [OF assms] by blast
  then have r: "rep H K F U h" and L: "L = area H g ` U" and g: "\<forall>x \<in> U. unat (g x) + 16 \<le> 2 ^ snd x"
    by (auto simp: run_inv_def)
  have bounds: "unat H + 16 \<le> unat (fst x) \<and> unat (fst x) + unat (snd x) \<le> unat H + 2 ^ K" if x: "x \<in> L" for x
  proof -
    obtain y where y: "y \<in> U" "x = area H g y" using x unfolding L by blast
    then show ?thesis using area_bounds(1,2) [OF r y(1), of g] g by (fastforce simp: area_def)
  qed
  have apart: "unat (fst x) + unat (snd x) \<le> unat (fst y) \<or> unat (fst y) + unat (snd y) \<le> unat (fst x)"
    if xy: "x \<in> L" "y \<in> L" "x \<noteq> y" for x y
  proof -
    obtain u v where uv: "u \<in> U" "v \<in> U" "x = area H g u" "y = area H g v" using xy unfolding L by blast
    then have "u \<noteq> v" using xy(3) by blast
    then show ?thesis using areas_apart [OF r uv(1,2) _ g] areas_apart [OF r uv(2,1) _ g] uv(3,4) by fastforce
  qed
  have m: "buddyMalloc sz (Suc K) h \<noteq> None" if "unat sz \<le> 2 ^ 31 - 16" for sz
    using buddy_malloc [OF r that] by fastforce
  have f: "buddyFree (fst x) H (2 ^ K) h \<noteq> None" if "x \<in> L" for x
    using run_free [OF i, of "fst x" "snd x"] that by auto
  show ?thesis using bounds apart m f by blast
qed

text \<open>A run that allocates 10 bytes.\<close>

lemma sample_run: "\<exists>h p. buddy_run 8 6 h {(p, 10)}"
proof -
  let ?h = "buddyFreeListInit (Suc 6) 8 (2 ^ 6) no_blocks"
  have r: "rep 8 6 {(0, 6)} {} ?h" by (rule init_rep(1) [OF sample_space])
  have s: "unat (10 :: u64) \<le> 2 ^ 31 - 16" by simp
  obtain order where o: "\<forall>i < order. 2 ^ i < unat (10 :: u64) + 16"
    "(\<forall>x \<in> {(0 :: nat, 6)}. snd x < order) \<or> (\<exists>a i h'. (a, i) \<in> {(0 :: nat, 6)} \<and>
       buddyMalloc 10 (Suc 6) ?h = Some (off 8 a + 16, h'))"
    using buddy_malloc [OF r s] by blast
  have "\<not> 6 < order" using o(1) [rule_format, of 6] by auto
  then obtain h' where h': "buddyMalloc 10 (Suc 6) ?h = Some (off 8 0 + 16, h')" using o(2) by auto
  have "off 8 0 + 16 \<noteq> NULL" by (simp add: off_def)
  then show ?thesis using buddy_run.malloc [OF buddy_run.start s h'] by auto
qed

theorem buddy_runs_safe_witness:
  "\<exists>h p. buddy_run 8 6 h {(p, 10)} \<and> 24 \<le> unat p \<and> unat p + 10 \<le> 72 \<and> buddyFree p 8 (2 ^ 6) h \<noteq> None"
proof -
  obtain h p where r: "buddy_run 8 6 h {(p, 10)}" using sample_run by blast
  then show ?thesis using buddy_runs_safe [OF r sample_space] by auto
qed

text \<open>
  C7: when the client has released every area, the heap is one free block again: the list of the
  largest order holds it and the other lists are empty.
\<close>

theorem buddy_all_freed:
  assumes "buddy_run H K h {}" "space H K" "8 dvd unat H"
  shows "freeList h = (replicate (Suc K) NULL)[K := H] \<and> bmem h H = \<lparr>bnext = NULL, bsize = 2 ^ K, isFree = True\<rparr>"
proof -
  obtain F U g where "run_inv H K h {} F U g" using buddy_run_inv [OF assms] by blast
  then have r: "rep H K F {} h" by (auto simp: run_inv_def)
  then have F: "F = {(0, K)}" using normal_whole [of K F] repD(2,4) [OF r] by simp
  have b: "buds H K {(0, K)} {(0, K)} {(0, K)} h" using r by (simp add: rep_def F)
  note d = budsD [OF b]
  have o: "off H 0 = H" by (simp add: off_def)
  have hd: "bsize (bmem h H) = 2 ^ K" "isFree (bmem h H)" "bnext (bmem h H) = NULL"
    using d(7,9) by (simp_all add: headers_def o)
  have "freeList h = (replicate (Suc K) NULL)[K := H]"
  proof (rule nth_equalityI)
    fix k assume "k < length (freeList h)"
    then have k: "k \<le> K" using d(2) by simp
    from d(8) k show "freeList h ! k = (replicate (Suc K) NULL)[K := H] ! k"
    proof (cases rule: list_head)
      case none
      then have "k \<noteq> K" by blast
      then show ?thesis using none(1) k by (subst nth_list_update) (simp_all del: replicate.simps)
    next
      case (some a xs)
      have "a \<in> {a. (a, k) \<in> {(0, K)}}" unfolding some(5) [symmetric] by simp
      then have "a = 0" "k = K" by simp_all
      then show ?thesis using some(1) o by (simp del: replicate.simps)
    qed
  qed (simp add: d(2) del: replicate.simps)
  then show ?thesis using hd by simp
qed

theorem buddy_all_freed_witness:
  "\<exists>h p h'. buddy_run 8 6 h {(p, 10)} \<and> buddyFree p 8 (2 ^ 6) h = Some h' \<and>
    freeList h' = [0, 0, 0, 0, 0, 0, 8] \<and> bmem h' 8 = \<lparr>bnext = NULL, bsize = 64, isFree = True\<rparr>"
proof -
  obtain h p where r: "buddy_run 8 6 h {(p, 10)}" using sample_run by blast
  obtain F U g where i: "run_inv 8 6 h {(p, 10)} F U g" using buddy_run_inv [OF r sample_space] by blast
  obtain h' where h': "buddyFree p 8 (2 ^ 6) h = Some h'" using run_free [OF i, of p 10] by auto
  have "buddy_run 8 6 h' {}" using buddy_run.free [OF r _ h', of 10] by simp
  from buddy_all_freed [OF this sample_space]
  have "freeList h' = [0, 0, 0, 0, 0, 0, 8] \<and> bmem h' 8 = \<lparr>bnext = NULL, bsize = 64, isFree = True\<rparr>"
    by (simp add: eval_nat_numeral)
  then show ?thesis using r h' by blast
qed

section \<open>Requests that never return\<close>

text \<open>Above \<open>2 ^ 31\<close> the size that \<open>getOrder\<close> doubles wraps around to 0 and stays there.\<close>

lemma getOrder_loop_zero: "0 < sz \<Longrightarrow> getOrder_loop sz j 0 = None"
proof (rule ccontr)
  assume sz: "0 < sz" and "getOrder_loop sz j 0 \<noteq> None"
  then obtain r where "getOrder_loop sz j 0 = Some r" by blast
  then have "(0 :: u32) = 0 \<longrightarrow> \<not> 0 < sz"
    by (rule getOrder_loop.raw_induct [of "\<lambda>sz j b r. b = 0 \<longrightarrow> \<not> 0 < sz", rotated]) (auto split: if_splits)
  then show False using sz by simp
qed

lemma getOrder_loop_wraps:
  assumes "2 ^ 31 < unat sz" "j \<le> 31"
  shows "getOrder_loop sz (of_nat j) (2 ^ j) = None"
  using assms(2)
proof (induction "31 - j" arbitrary: j)
  case (0 j)
  then have j: "j = 31" by simp
  have l: "(2 ^ 31 :: u32) < sz" "0 < sz" using assms(1) by (auto simp: word_less_nat_alt)
  have z: "push_bit 1 (2 ^ 31 :: u32) = 0" by (simp add: push_bit_eq_mult word_unat_eq_iff)
  show ?case unfolding j by (subst getOrder_loop.simps) (simp only: l(1) if_True z getOrder_loop_zero [OF l(2)])
next
  case (Suc n j)
  have u: "unat (2 ^ j :: u32) = 2 ^ j" using pow_K(1) [of 1 31 j] Suc(3) by (simp add: space_def)
  have "(2 :: nat) ^ j \<le> 2 ^ 31" using Suc(3) by (intro power_increasing) simp_all
  then have l: "(2 ^ j :: u32) < sz" using assms(1) u by (simp add: word_less_nat_alt)
  have "getOrder_loop sz (of_nat (Suc j)) (2 ^ Suc j) = None" by (rule Suc.hyps(1)) (use Suc.hyps(2) in simp_all)
  then show ?case by (subst getOrder_loop.simps) (simp add: l add.commute push_bit_eq_mult mult.commute)
qed

text \<open>
  C8: a request of more than \<open>2 ^ 31 - 16\<close> and less than \<open>2 ^ 32 - 16\<close> bytes never returns, on whatever heap:
  the loop of \<open>getOrder\<close> does not end.
\<close>

theorem buddy_malloc_hangs:
  assumes "2 ^ 31 - 16 < unat sz" "unat sz < 2 ^ 32 - 16"
  shows "buddyMalloc sz orderCount h = None"
proof -
  have "unat (sz + sizeof_BuddyBlock) = unat sz + 16"
    using assms(2) by (simp add: sizeof_BuddyBlock_def unat_word_ariths(1))
  then have "2 ^ 31 < unat (ucast (sz + sizeof_BuddyBlock) :: u32)" using assms by (simp add: unat_ucast_64_32)
  from getOrder_loop_wraps [OF this, of 0] show ?thesis by (simp add: buddyMalloc_def getOrder_def)
qed

theorem buddy_malloc_hangs_witness:
  "buddyGlobalMalloc 2147483648 (buddyMemoryInit 8 no_blocks) = None"
  unfolding buddyGlobalMalloc_def by (rule buddy_malloc_hangs) simp_all

end
