(* ===== verification/MemReport.thy ===== *)
theory MemReport
  imports Scheduler FreeList BuddyRuns UStdlibProps
begin

text \<open>
  The report of the memory in use (\<open>internalGetMemoryState\<close> of \<open>Kernel/c/freeListMM.c\<close> and of
  \<open>Kernel/c/buddyMM.c\<close>). It is written into a block of the heap of the running process, whose content
  is a list of bytes; \<open>malloc\<close> is the call that provides it (\<open>None\<close> for \<open>NULL\<close>), and the numbers are
  read after it.
\<close>

section \<open>Writing the report\<close>

definition MAX_STRING_SIZE :: u64 where "MAX_STRING_SIZE = 1000"

text \<open>\<open>i += strcpy(toReturn + i, s)\<close> and \<open>i += uintToBase(v, toReturn + i, 10)\<close>.\<close>

definition add_text :: "byte list \<Rightarrow> byte list \<times> nat \<Rightarrow> (byte list \<times> nat) option" where
  "add_text s b = do {
     (buf, n) \<leftarrow> strcpy (drop (snd b) (fst b)) s;
     Some (take (snd b) (fst b) @ buf, snd b + n) }"

definition add_number :: "u64 \<Rightarrow> byte list \<times> nat \<Rightarrow> (byte list \<times> nat) option" where
  "add_number v b = do {
     (buf, n) \<leftarrow> uintToBase v (drop (snd b) (fst b)) 10;
     Some (take (snd b) (fst b) @ buf, snd b + n) }"

definition end_text :: "byte list \<times> nat \<Rightarrow> byte list option" where
  "end_text b = (if snd b < length (fst b) then Some ((fst b)[snd b := 0]) else None)"

text \<open>The text that both managers write: the size of the heap, the used bytes and the free ones.\<close>

definition report_text :: "u64 \<Rightarrow> u64 \<Rightarrow> u64 \<Rightarrow> byte list \<times> nat \<Rightarrow> (byte list \<times> nat) option" where
  "report_text heap_size used unused b = do {
     b1 \<leftarrow> add_text (lit ''Total: '') b;
     b2 \<leftarrow> add_number heap_size b1;
     b3 \<leftarrow> add_text (lit '' B '') b2;
     b4 \<leftarrow> add_text (lit ''| Used: '') b3;
     b5 \<leftarrow> add_number used b4;
     b6 \<leftarrow> add_text (lit '' B '') b5;
     b7 \<leftarrow> add_text (lit ''| Unused: '') b6;
     b8 \<leftarrow> add_number unused b7;
     add_text (lit '' B '') b8 }"

section \<open>The free-list manager\<close>

text \<open>\<open>heapSize -= structSize\<close> is computed in 64 bits and cut to 32; the size is widened with its sign.\<close>

definition internalGetMemoryState ::
  "('m \<Rightarrow> (byte list option \<times> 'm) option) \<Rightarrow> u32 \<Rightarrow> ('m \<Rightarrow> u64 option) \<Rightarrow> 'm \<Rightarrow> (byte list option \<times> 'm) option" where
  "internalGetMemoryState malloc heapSize available s = do {
     let heapSize1 = heapSize - ucast structSize;
     (toReturn, s1) \<leftarrow> malloc s;
     case toReturn of
       None \<Rightarrow> Some (None, s1)
     | Some buf \<Rightarrow> do {
         bytesAvailable \<leftarrow> available s1;
         b \<leftarrow> report_text (scast heapSize1) (scast heapSize1 - bytesAvailable) bytesAvailable (buf, 0);
         t \<leftarrow> end_text b;
         Some (Some t, s1) } }"

definition getGlobalMemoryState ::
  "('m \<Rightarrow> (byte list option \<times> 'm) option) \<Rightarrow> ('m \<Rightarrow> u64) \<Rightarrow> 'm \<Rightarrow> (byte list option \<times> 'm) option" where
  "getGlobalMemoryState malloc freeBytesRemaining s = internalGetMemoryState malloc MAX_MEMORY_AVAILABLE (Some \<circ> freeBytesRemaining) s"

definition getProcessMemoryState ::
  "('h kernel \<Rightarrow> (byte list option \<times> 'h kernel) option) \<Rightarrow> u32 \<Rightarrow> 'h kernel \<Rightarrow> (byte list option \<times> 'h kernel) option" where
  "getProcessMemoryState malloc k s = do {
     p \<leftarrow> getPCBByPid k s;
     if p = NULL then Some (None, s)
     else internalGetMemoryState malloc PROCESS_HEAP_SIZE (\<lambda>s1. map_option PCB.bytesAvailable (pcbs s1 p)) s }"

section \<open>The buddy manager\<close>

definition buddyMemoryState ::
  "('m \<Rightarrow> (byte list option \<times> 'm) option) \<Rightarrow> nat \<Rightarrow> u32 \<Rightarrow> ('m \<Rightarrow> buddy_heap) \<Rightarrow> 'm \<Rightarrow> (byte list option \<times> 'm) option" where
  "buddyMemoryState malloc orderCount heapSize heap_of s = do {
     (toReturn, s1) \<leftarrow> malloc s;
     case toReturn of
       None \<Rightarrow> Some (None, s1)
     | Some buf \<Rightarrow> do {
         (totalFreeMemory, totalBlocks) \<leftarrow>
           totals (bmem (heap_of s1)) (take orderCount (freeList (heap_of s1))) (0, 0);
         b1 \<leftarrow> report_text (scast heapSize) (ucast (heapSize - totalFreeMemory)) (ucast totalFreeMemory) (buf, 0);
         b2 \<leftarrow> add_text (lit ''in '') b1;
         b3 \<leftarrow> add_number (ucast totalBlocks) b2;
         b4 \<leftarrow> add_text (lit '' blocks '') b3;
         t \<leftarrow> end_text b4;
         Some (Some t, s1) } }"

definition buddyGlobalMemoryState ::
  "('m \<Rightarrow> (byte list option \<times> 'm) option) \<Rightarrow> ('m \<Rightarrow> buddy_heap) \<Rightarrow> 'm \<Rightarrow> (byte list option \<times> 'm) option" where
  "buddyGlobalMemoryState malloc heap_of s = buddyMemoryState malloc ORDER_COUNT BUDDY_MAX_MEMORY heap_of s"

text \<open>\<open>freeList_of p\<close> is the heap of the process of the block \<open>p\<close>, with its lists \<open>pcb->freeList\<close>.\<close>

definition buddyProcessMemoryState ::
  "('h kernel \<Rightarrow> (byte list option \<times> 'h kernel) option) \<Rightarrow> (addr \<Rightarrow> 'h kernel \<Rightarrow> buddy_heap) \<Rightarrow> u32 \<Rightarrow> 'h kernel \<Rightarrow>
    (byte list option \<times> 'h kernel) option" where
  "buddyProcessMemoryState malloc freeList_of k s = do {
     p \<leftarrow> getPCBByPid k s;
     if p = NULL then Some (None, s)
     else buddyMemoryState malloc PROCESS_HEAP_ORDER_COUNT PROCESS_HEAP_SIZE (freeList_of p) s }"

section \<open>What the report says\<close>

text \<open>\<open>t\<close> is the text written so far, in a buffer of \<open>n\<close> bytes.\<close>

definition written :: "byte list \<Rightarrow> nat \<Rightarrow> byte list \<times> nat \<Rightarrow> bool" where
  "written t n b \<longleftrightarrow> take (snd b) (fst b) = t \<and> snd b = length t \<and> length (fst b) = n \<and> 0 \<notin> set t"

lemma add_text_written:
  assumes "written t n b" "length t + length s < n" "0 \<notin> set s"
  obtains b' where "add_text (s @ [0]) b = Some b'" "written (t @ s) n b'"
proof -
  obtain buf i where b: "b = (buf, i)" by (cases b)
  have w: "take i buf = t" "i = length t" "length buf = n" "0 \<notin> set t" using assms(1) by (auto simp: written_def b)
  have c: "cstr (s @ [0]) = s" using cstr_append_zero [OF assms(3)] by simp
  have "strcpy (drop i buf) (s @ [0]) = Some (s @ 0 # drop (Suc (length s)) (drop i buf), length s)"
    using strcpy_from_returns [of "s @ [0]" 0 "drop i buf"] assms(2) w c by (simp add: strcpy_def terminated_append_zero)
  then have "add_text (s @ [0]) b = Some (t @ s @ 0 # drop (Suc (length s)) (drop i buf), i + length s)"
    by (simp add: add_text_def b w(1))
  moreover have "written (t @ s) n (t @ s @ 0 # drop (Suc (length s)) (drop i buf), i + length s)"
    using w assms(2,3) by (simp add: written_def)
  ultimately show ?thesis using that by blast
qed

lemma numeral_short: "length (numeral_text 10 (unat v)) \<le> 20" for v :: u64
proof -
  have "unat v < 2 ^ 64" by (rule unat_lt_u64)
  also have "(2 :: nat) ^ 64 < 10 ^ Suc 19" by simp
  finally show ?thesis using digs_length [of 10 "unat v" 19] by (simp add: numeral_text_def)
qed

lemma add_number_written:
  assumes "written t n b" "length t + 20 < n"
  obtains b' where "add_number v b = Some b'" "written (t @ numeral_text 10 (unat v)) n b'"
proof -
  obtain buf i where b: "b = (buf, i)" by (cases b)
  have w: "take i buf = t" "i = length t" "length buf = n" "0 \<notin> set t" using assms(1) by (auto simp: written_def b)
  let ?s = "numeral_text 10 (unat v)"
  have "uintToBase v (drop i buf) 10 = Some (?s @ 0 # drop (Suc (length ?s)) (drop i buf), length ?s)"
    using uintToBase_returns [of 10 v "drop i buf"] numeral_short [of v] assms(2) w
    by (simp add: Let_def numeral_text_def)
  then have "add_number v b = Some (t @ ?s @ 0 # drop (Suc (length ?s)) (drop i buf), i + length ?s)"
    by (simp add: add_number_def b w(1))
  moreover have "written (t @ ?s) n (t @ ?s @ 0 # drop (Suc (length ?s)) (drop i buf), i + length ?s)"
    using w assms(2) numeral_short [of v] numeral_text_no_zero [of 10 "unat v"] by (simp add: written_def)
  ultimately show ?thesis using that by blast
qed

lemma end_text_written:
  assumes "written t n b" "length t < n"
  obtains t' where "end_text b = Some t'" "cstr t' = t" "length t' = n"
proof -
  obtain buf i where b: "b = (buf, i)" by (cases b)
  have w: "take i buf = t" "i = length t" "length buf = n" "0 \<notin> set t" using assms(1) by (auto simp: written_def b)
  have "buf[i := 0] = t @ 0 # drop (Suc i) buf" using w assms(2) by (simp add: upd_conv_take_nth_drop)
  then show ?thesis using that [of "buf[i := 0]"] w assms(2) cstr_append_zero [OF w(4)] by (simp add: end_text_def b)
qed

text \<open>The report in words.\<close>

definition memory_report :: "u64 \<Rightarrow> u64 \<Rightarrow> u64 \<Rightarrow> byte list" where
  "memory_report heap_size used unused =
     text_of ''Total: '' @ numeral_text 10 (unat heap_size) @ text_of '' B | Used: '' @ numeral_text 10 (unat used) @
     text_of '' B | Unused: '' @ numeral_text 10 (unat unused) @ text_of '' B ''"

lemma lit_text: "lit s = text_of s @ [0]"
  by (simp add: lit_def text_of_def)

text \<open>\<open>f\<close> appends the text \<open>s\<close>, of at most \<open>m\<close> bytes.\<close>

definition appends :: "(byte list \<times> nat \<Rightarrow> (byte list \<times> nat) option) \<Rightarrow> byte list \<Rightarrow> nat \<Rightarrow> bool" where
  "appends f s m \<longleftrightarrow> length s \<le> m \<and>
     (\<forall>t n b. written t n b \<longrightarrow> length t + m < n \<longrightarrow> (\<exists>b'. f b = Some b' \<and> written (t @ s) n b'))"

named_theorems writes

lemma appends_text [writes]: "0 \<notin> set (text_of s) \<Longrightarrow> appends (add_text (lit s)) (text_of s) (length s)"
  unfolding appends_def lit_text by (metis add_text_written length_map order_refl text_of_def)

lemma appends_number [writes]: "appends (add_number v) (numeral_text 10 (unat v)) 20"
  unfolding appends_def by (metis add_number_written numeral_short)

lemma appendsD:
  assumes "appends f s m" "written t n b" "length t + m < n"
  obtains b' where "f b = Some b'" "written (t @ s) n b'"
  using assms unfolding appends_def by blast

lemma appends_bind [writes]:
  assumes "appends f s m" "appends g u k"
  shows "appends (\<lambda>b. f b \<bind> g) (s @ u) (m + k)"
  unfolding appends_def
proof (intro conjI allI impI)
  show "length (s @ u) \<le> m + k" using assms by (simp add: appends_def)
  fix t n b assume t: "written t n b" "length t + (m + k) < n"
  then have "length t + m < n" by simp
  with assms(1) t(1) obtain b1 where b1: "f b = Some b1" "written (t @ s) n b1" by (rule appendsD)
  have "length (t @ s) + k < n" using t(2) assms(1) by (simp add: appends_def)
  then obtain b2 where "g b1 = Some b2" "written ((t @ s) @ u) n b2" by (rule appendsD [OF assms(2) b1(2)])
  then show "\<exists>b'. f b \<bind> g = Some b' \<and> written (t @ s @ u) n b'" using b1(1) by simp
qed

lemma report_text_appends: "appends (report_text heap_size used unused) (memory_report heap_size used unused) 94"
proof -
  have "appends (report_text heap_size used unused)
     (text_of ''Total: '' @ numeral_text 10 (unat heap_size) @ text_of '' B '' @ text_of ''| Used: '' @
      numeral_text 10 (unat used) @ text_of '' B '' @ text_of ''| Unused: '' @ numeral_text 10 (unat unused) @ text_of '' B '')
     (length ''Total: '' + (20 + (length '' B '' + (length ''| Used: '' + (20 + (length '' B '' + (length ''| Unused: '' +
      (20 + length '' B ''))))))))"
    unfolding report_text_def by (intro writes) (simp_all add: text_of_def)
  then show ?thesis by (simp add: memory_report_def text_of_def)
qed

lemma report_ends:
  assumes "appends f s m" "m < 1000" "length buf = 1000"
  obtains b t where "f (buf, 0) = Some b" "end_text b = Some t" "cstr t = s" "length t = 1000"
proof -
  have w: "written [] 1000 (buf, 0)" using assms(3) by (simp add: written_def)
  have "length ([] :: byte list) + m < 1000" using assms(2) by simp
  with assms(1) w obtain b where b: "f (buf, 0) = Some b" "written ([] @ s) 1000 b" by (rule appendsD)
  have "length s < 1000" using assms(1,2) by (simp add: appends_def)
  then obtain t where "end_text b = Some t" "cstr t = s" "length t = 1000"
    using b(2) end_text_written [of s 1000 b] by auto
  then show ?thesis using that b(1) by blast
qed

section \<open>The sums of the buddy manager\<close>

lemma list_totals_sum:
  "blist m p xs \<Longrightarrow> (\<And>x. x \<in> set xs \<Longrightarrow> bsize (m x) = w) \<Longrightarrow>
     list_totals m p (t, n) = Some (t + of_nat (length xs) * w, n + of_nat (length xs))"
proof (induction xs arbitrary: p t n)
  case Nil
  then show ?case by (simp add: list_totals.simps)
next
  case (Cons x xs)
  then show ?case by (subst list_totals.simps) (simp add: algebra_simps)
qed

definition of_order :: "bblk set \<Rightarrow> nat \<Rightarrow> bblk set" where
  "of_order F k = {x \<in> F. snd x = k}"

lemma order_totals:
  assumes b: "buds H K B F F h" and k: "k \<le> K"
  shows "list_totals (bmem h) (freeList h ! k) (t, n) =
    Some (t + of_nat (card (of_order F k) * 2 ^ k), n + of_nat (card (of_order F k)))"
proof -
  note d = budsD [OF b]
  obtain xs where xs: "blist (bmem h) (freeList h ! k) (map (off H) xs)" "distinct xs" "set xs = {a. (a, k) \<in> F}"
    using d(8) k by (auto simp: blists_def)
  have "of_order F k = (\<lambda>a. (a, k)) ` set xs" unfolding xs(3) by (auto simp: of_order_def)
  then have c: "card (of_order F k) = length xs"
    using distinct_card [OF xs(2)] by (simp add: card_image inj_on_def)
  have "bsize (bmem h x) = 2 ^ k" if x: "x \<in> set (map (off H) xs)" for x
  proof -
    obtain a where a: "(a, k) \<in> F" "x = off H a" using x xs(3) by auto
    then show ?thesis using bspec [OF d(7) [unfolded headers_def], of "(a, k)"] d(4) by auto
  qed
  from list_totals_sum [OF xs(1) this] show ?thesis by (simp add: c)
qed

lemma totals_sum:
  assumes b: "buds H K B F F h"
  shows "j \<le> Suc K \<Longrightarrow> totals (bmem h) (drop j (freeList h)) (t, n) =
    Some (t + of_nat (\<Sum>k = j..<Suc K. card (of_order F k) * 2 ^ k), n + of_nat (\<Sum>k = j..<Suc K. card (of_order F k)))"
proof (induction "Suc K - j" arbitrary: j t n)
  case 0
  then show ?case using budsD(2) [OF b] by simp
next
  case (Suc i)
  then have j: "j < length (freeList h)" "j < Suc K" "j \<le> K" using budsD(2) [OF b] by simp_all
  have "drop j (freeList h) = freeList h ! j # drop (Suc j) (freeList h)" by (rule Cons_nth_drop_Suc [OF j(1), symmetric])
  moreover have "i = Suc K - Suc j" "Suc j \<le> Suc K" using Suc.hyps(2) j(3) by simp_all
  ultimately show ?case
    using Suc.hyps(1) [of "Suc j"] order_totals [OF b j(3)]
    by (simp add: sum.atLeast_Suc_lessThan [OF j(2)] add.assoc del: sum.op_ivl_Suc)
qed

lemma tiling_finite: "tiling K B \<Longrightarrow> finite B"
proof -
  assume B: "tiling K B"
  have "inj_on fst B" using starts_differ [OF B] by (auto simp: inj_on_def)
  moreover have "fst ` B \<subseteq> {..<2 ^ K}" using fst_bound tilingD(1) [OF B] by blast
  ultimately show "finite B" using finite_imageD finite_subset by blast
qed

lemma tiling_bytes:
  assumes B: "tiling K B"
  shows "(\<Sum>x \<in> B. 2 ^ snd x) = (2 :: nat) ^ K"
proof -
  have "card (\<Union>x \<in> B. extent x) = (\<Sum>x \<in> B. card (extent x))"
    by (rule card_UN_disjoint) (use tiling_finite [OF B] tilingD(2) [OF B] in \<open>auto simp: extent_def\<close>)
  then show ?thesis using tilingD(3) [OF B] by (simp add: extent_def)
qed

lemma sum_by_order:
  assumes "finite F" "\<forall>x \<in> F. snd x \<le> K"
  shows "(\<Sum>k = 0..<Suc K. card (of_order F k) * 2 ^ k) = (\<Sum>x \<in> F. (2 :: nat) ^ snd x)"
    "(\<Sum>k = 0..<Suc K. card (of_order F k)) = card F"
proof -
  have s: "snd ` F \<subseteq> {0..<Suc K}" using assms(2) by auto
  have "(\<Sum>x \<in> of_order F k. (2 :: nat) ^ snd x) = card (of_order F k) * 2 ^ k" for k
    by (simp add: of_order_def)
  then show "(\<Sum>k = 0..<Suc K. card (of_order F k) * 2 ^ k) = (\<Sum>x \<in> F. (2 :: nat) ^ snd x)"
    using sum.group [OF assms(1) finite_atLeastLessThan s, of "\<lambda>x. (2 :: nat) ^ snd x"] by (simp add: of_order_def)
  show "(\<Sum>k = 0..<Suc K. card (of_order F k)) = card F"
    using sum.group [OF assms(1) finite_atLeastLessThan s, of "\<lambda>_. 1 :: nat"] by (simp add: of_order_def)
qed

definition bytes_of :: "bblk set \<Rightarrow> nat" where "bytes_of F = (\<Sum>x \<in> F. 2 ^ snd x)"

lemma buddy_totals:
  assumes r: "rep H K F U h"
  shows "totals (bmem h) (freeList h) (0, 0) = Some (of_nat (bytes_of F), of_nat (card F))"
    "bytes_of F + bytes_of U = 2 ^ K" "card F \<le> bytes_of F"
proof -
  note d = repD [OF r]
  have b: "buds H K (F \<union> U) F F h" using r by (simp add: rep_def)
  have fin: "finite F" "finite U" using tiling_finite [OF d(2)] by simp_all
  have "\<forall>x \<in> F. snd x \<le> K" using d(5) by (auto simp: dyadic_def)
  note s = sum_by_order [OF fin(1) this]
  show "totals (bmem h) (freeList h) (0, 0) = Some (of_nat (bytes_of F), of_nat (card F))"
    using totals_sum [OF b, of 0 0 0] unfolding bytes_of_def s(1) [symmetric] s(2) [symmetric] by simp
  show "bytes_of F + bytes_of U = 2 ^ K"
    using tiling_bytes [OF d(2)] sum.union_disjoint [OF fin d(3), of "\<lambda>x. (2 :: nat) ^ snd x"] by (simp add: bytes_of_def)
  show "card F \<le> bytes_of F"
    using sum_mono [of F "\<lambda>_. 1 :: nat" "\<lambda>x. 2 ^ snd x"] by (simp add: bytes_of_def)
qed

section \<open>The reports\<close>

lemma freelist_report:
  assumes "malloc s = Some (Some buf, s1)" "length buf = 1000" "available s1 = Some n"
  obtains t where "internalGetMemoryState malloc heapSize available s = Some (Some t, s1)" "length t = 1000"
    "cstr t = memory_report (scast (heapSize - 16)) (scast (heapSize - 16) - n) n"
proof -
  let ?z = "scast (heapSize - 16) :: u64"
  obtain b t where b: "report_text ?z (?z - n) n (buf, 0) = Some b" "end_text b = Some t"
    "cstr t = memory_report ?z (?z - n) n" "length t = 1000"
    by (rule report_ends [OF report_text_appends _ assms(2)]) simp
  have "internalGetMemoryState malloc heapSize available s = Some (Some t, s1)"
    using assms(1,3) b(1,2) by (simp add: internalGetMemoryState_def structSize_def)
  then show ?thesis using that b(3,4) by blast
qed

text \<open>
  The report of the buddy manager names the size of the heap, the sum of the blocks in use, the sum
  of the free blocks and their number, all as they are after the call that provided the buffer; the
  text fits in the buffer.
\<close>

theorem buddy_report:
  assumes r: "rep H K F U (heap_of s1)" and K: "K < 31" and m: "malloc s = Some (Some buf, s1)" "length buf = unat MAX_STRING_SIZE"
  shows "\<exists>t. buddyMemoryState malloc (Suc K) (2 ^ K) heap_of s = Some (Some t, s1) \<and>
    cstr t = memory_report (2 ^ K) (of_nat (bytes_of U)) (of_nat (bytes_of F)) @
      text_of ''in '' @ numeral_text 10 (card F) @ text_of '' blocks ''"
proof -
  note tt = buddy_totals [OF r]
  have len: "length (freeList (heap_of s1)) = Suc K" using r budsD(2) [of H K "F \<union> U" F F] by (simp add: rep_def)
  have K31: "(2 :: nat) ^ K \<le> 2 ^ 30" using K by (intro power_increasing) simp_all
  have sp: "space H K" using repD(1) [OF r] .
  have F32: "unat (of_nat (bytes_of F) :: u32) = bytes_of F" "unat (of_nat (card F) :: u32) = card F"
    using tt(2,3) K31 by (simp_all add: unat_of_nat)
  have nF: "(ucast (of_nat (bytes_of F) :: u32) :: u64) = of_nat (bytes_of F)"
    "unat (ucast (of_nat (card F) :: u32) :: u64) = card F"
    using F32 tt(2) K31 by (simp_all add: word_unat_eq_iff unat_of_nat)
  have "unat (2 ^ K - of_nat (bytes_of F) :: u32) = bytes_of U"
  proof -
    have "(2 ^ K - of_nat (bytes_of F) :: u32) = of_nat (2 ^ K - bytes_of F)" using tt(2) by (simp add: of_nat_diff)
    also have "2 ^ K - bytes_of F = bytes_of U" using tt(2) by simp
    finally show ?thesis using tt(2) K31 by (simp add: unat_of_nat)
  qed
  then have nU: "(ucast (2 ^ K - of_nat (bytes_of F) :: u32) :: u64) = of_nat (bytes_of U)"
    using tt(2) K31 by (simp add: word_unat_eq_iff unat_of_nat)
  have sK: "(scast (2 ^ K :: u32) :: u64) = 2 ^ K"
    using K by (intro bit_word_eqI) (auto simp: bit_signed_iff bit_exp_iff)
  let ?f = "\<lambda>b. report_text (2 ^ K) (of_nat (bytes_of U)) (of_nat (bytes_of F)) b \<bind> (\<lambda>b1. add_text (lit ''in '') b1 \<bind>
    (\<lambda>b2. add_number (ucast (of_nat (card F) :: u32)) b2 \<bind> add_text (lit '' blocks '')))"
  let ?t = "memory_report (2 ^ K) (of_nat (bytes_of U)) (of_nat (bytes_of F)) @
      text_of ''in '' @ numeral_text 10 (unat (ucast (of_nat (card F) :: u32) :: u64)) @ text_of '' blocks ''"
  have "appends ?f ?t (94 + (length ''in '' + (20 + length '' blocks '')))"
    by (intro writes report_text_appends) (simp_all add: text_of_def)
  then obtain b t where b: "?f (buf, 0) = Some b" "end_text b = Some t" "cstr t = ?t" "length t = 1000"
    by (rule report_ends) (use m(2) in \<open>simp_all add: MAX_STRING_SIZE_def\<close>)
  have "buddyMemoryState malloc (Suc K) (2 ^ K) heap_of s = ?f (buf, 0) \<bind> (\<lambda>b. end_text b \<bind> (\<lambda>t. Some (Some t, s1)))"
    using tt(1) by (simp add: buddyMemoryState_def m(1) len nF(1) nU sK)
  then show ?thesis using b nF(2) by auto
qed

theorem buddy_report_witness:
  "\<exists>t. buddyMemoryState (\<lambda>h. Some (Some (replicate (unat MAX_STRING_SIZE) 0), h)) (Suc 6) (2 ^ 6) (\<lambda>h. h)
      (buddyFreeListInit (Suc 6) 8 (2 ^ 6) no_blocks) = Some (Some t, buddyFreeListInit (Suc 6) 8 (2 ^ 6) no_blocks) \<and>
    cstr t = memory_report 64 0 64 @ text_of ''in '' @ numeral_text 10 1 @ text_of '' blocks ''"
proof -
  let ?h = "buddyFreeListInit (Suc 6) 8 (2 ^ 6) no_blocks"
    and ?m = "\<lambda>h :: buddy_heap. Some (Some (replicate (unat MAX_STRING_SIZE) (0 :: byte)), h)"
  have r: "rep 8 6 {(0, 6)} {} ?h" using init_rep(1) [OF sample_space] by simp
  show ?thesis
    using buddy_report [of 8 6 "{(0, 6)}" "{}" "\<lambda>h. h" ?h ?m ?h, OF r] by (simp add: bytes_of_def)
qed

text \<open>The report of the free-list manager: \<open>total fs\<close> are the bytes of the free blocks of the heap.\<close>

theorem freelist_report_totals:
  assumes "heap_rel base fs al (heap_of s1)" "malloc s = Some (Some buf, s1)" "length buf = unat MAX_STRING_SIZE"
  shows "\<exists>t. getGlobalMemoryState malloc (\<lambda>s. heap.bytesAvailable (heap_of s)) s = Some (Some t, s1) \<and>
    cstr t = memory_report 67108848 (67108848 - of_nat (total fs)) (of_nat (total fs))"
proof -
  have "unat (heap.bytesAvailable (heap_of s1)) = total fs" using assms(1) by (simp add: heap_rel_def Let_def)
  then have n: "heap.bytesAvailable (heap_of s1) = of_nat (total fs)" by (metis of_nat_unat ucast_id)
  have "length buf = 1000" using assms(3) by (simp add: MAX_STRING_SIZE_def)
  then obtain t where t: "internalGetMemoryState malloc MAX_MEMORY_AVAILABLE (Some \<circ> (\<lambda>s. heap.bytesAvailable (heap_of s))) s = Some (Some t, s1)"
    "cstr t = memory_report (scast (MAX_MEMORY_AVAILABLE - 16)) (scast (MAX_MEMORY_AVAILABLE - 16) - of_nat (total fs)) (of_nat (total fs))"
    by (rule freelist_report [of malloc s buf s1 "Some \<circ> (\<lambda>s. heap.bytesAvailable (heap_of s))" "of_nat (total fs)" MAX_MEMORY_AVAILABLE,
        OF assms(2)]) (simp_all add: n)
  have "(scast (MAX_MEMORY_AVAILABLE - 16) :: u64) = 67108848" by (simp add: MAX_MEMORY_AVAILABLE_def push_bit_eq_mult)
  then show ?thesis using t by (simp add: getGlobalMemoryState_def)
qed

end
