(* ===== verification/NaiveConsole.thy ===== *)
theory NaiveConsole
  imports UStdlibProps Keyboard
begin

text \<open>
  The text-mode console for debugging (\<open>Kernel/c/naiveConsole.c\<close>): 25 lines of 80 cells of two bytes, the
  character and its attribute, and a pointer to the cell that comes next. A write outside the cells or
  outside the buffer of 64 bytes for the digits is the fault \<open>None\<close>. \<open>uintToBase\<close> has the body of
  the one in \<open>KUtils\<close>.
\<close>

section \<open>The console\<close>

definition nc_width :: nat where "nc_width = 80"
definition nc_height :: nat where "nc_height = 25"

record console =
  video :: "byte list"
  currentVideo :: nat
  digit_space :: "byte list"

text \<open>\<open>maxVideo\<close>, as an offset from \<open>video\<close>\<close>

definition maxVideo :: nat where "maxVideo = 2 * 80 * 25"

definition console_init :: "byte list \<Rightarrow> console" where
  "console_init cells = \<lparr>video = cells, currentVideo = 0, digit_space = replicate 64 0\<rparr>"

fun clear_cells :: "nat \<Rightarrow> byte list \<Rightarrow> byte list" where
  "clear_cells 0 v = v"
| "clear_cells (Suc n) v = (clear_cells n v)[n * 2 := 32]"

definition ncClear :: "console \<Rightarrow> console" where
  "ncClear s = s\<lparr>video := clear_cells (nc_height * nc_width) (video s), currentVideo := 0\<rparr>"

definition ncPrintChar :: "byte \<Rightarrow> console \<Rightarrow> console option" where
  "ncPrintChar c s =
     (if currentVideo s < length (video s)
      then let s1 = s\<lparr>video := (video s)[currentVideo s := c], currentVideo := currentVideo s + 2\<rparr>
           in Some (if currentVideo s1 > maxVideo then ncClear s1 else s1)
      else None)"

fun ncPrint :: "byte list \<Rightarrow> console \<Rightarrow> console option" where
  "ncPrint [] s = None"
| "ncPrint (c # cs) s = (if c \<noteq> 0 then do { s1 \<leftarrow> ncPrintChar c s; ncPrint cs s1 } else Some s)"

text \<open>The loop that fills the line with blanks.\<close>

function ncNewline :: "console \<Rightarrow> console option" where
  "ncNewline s =
     (case ncPrintChar 32 s of
        None \<Rightarrow> None
      | Some s1 \<Rightarrow> if currentVideo s1 mod (nc_width * 2) \<noteq> 0 then ncNewline s1 else Some s1)"
  by pat_completeness auto
termination
  by (relation "measure (\<lambda>s. maxVideo + 1 - currentVideo s)")
    (auto simp: ncPrintChar_def ncClear_def Let_def split: if_splits)

declare ncNewline.simps [simp del]

definition ncPrintBase :: "u64 \<Rightarrow> u32 \<Rightarrow> console \<Rightarrow> console option" where
  "ncPrintBase value base s = do {
     (buf, _) \<leftarrow> uintToBase value (digit_space s) base;
     ncPrint buf (s\<lparr>digit_space := buf\<rparr>) }"

definition ncPrintDec :: "u64 \<Rightarrow> console \<Rightarrow> console option" where
  "ncPrintDec value s = ncPrintBase value 10 s"

definition ncPrintHex :: "u64 \<Rightarrow> console \<Rightarrow> console option" where
  "ncPrintHex value s = do { s1 \<leftarrow> ncPrint (lit ''0x'') s; ncPrintBase value 16 s1 }"

definition ncPrintBin :: "u64 \<Rightarrow> console \<Rightarrow> console option" where
  "ncPrintBin value s = ncPrintBase value 2 s"

section \<open>Keys\<close>

definition printBool :: "bool \<Rightarrow> console \<Rightarrow> console option" where
  "printBool b s = (if b then ncPrint (lit ''True'') s else ncPrint (lit ''False'') s)"

record KeyStruct =
  code :: byte
  key :: byte
  key_md :: ModifierKeys

definition printKeyStruct :: "KeyStruct \<Rightarrow> console \<Rightarrow> console option" where
  "printKeyStruct k s =
     (if key k = 0 then do { s1 \<leftarrow> ncPrint (lit ''No key'') s; ncNewline s1 }
      else do {
        s \<leftarrow> ncPrint [key k, 0] s;
        s \<leftarrow> ncPrint (lit '' | '') s;
        s \<leftarrow> ncPrintHex (ucast (code k)) s;
        s \<leftarrow> ncPrint (lit '': { '') s;
        s \<leftarrow> ncPrint (lit ''l-shift: '') s;
        s \<leftarrow> printBool (rightShiftPressed (key_md k)) s;
        s \<leftarrow> ncPrint (lit '', '') s;
        s \<leftarrow> ncPrint (lit ''r-shift: '') s;
        s \<leftarrow> printBool (rightShiftPressed (key_md k)) s;
        s \<leftarrow> ncPrint (lit '', '') s;
        s \<leftarrow> ncPrint (lit ''ctrl: '') s;
        s \<leftarrow> printBool (ctrlPressed (key_md k)) s;
        s \<leftarrow> ncPrint (lit '', '') s;
        s \<leftarrow> ncPrint (lit ''caps lock: '') s;
        s \<leftarrow> printBool (capsLockActive (key_md k)) s;
        s \<leftarrow> ncPrint (lit '', '') s;
        s \<leftarrow> ncPrint (lit ''alt: '') s;
        s \<leftarrow> printBool (altPressed (key_md k)) s;
        s \<leftarrow> ncPrint (lit '' }'') s;
        ncNewline s })"

fun printBuffer2 :: "KeyStruct list \<Rightarrow> console \<Rightarrow> console option" where
  "printBuffer2 [] s = Some s"
| "printBuffer2 (k # ks) s = do { s1 \<leftarrow> printKeyStruct k s; printBuffer2 ks s1 }"

section \<open>What the console shows\<close>

text \<open>The character of cell \<open>i\<close>.\<close>

definition cell :: "nat \<Rightarrow> console \<Rightarrow> byte" where "cell i s = video s ! (2 * i)"

definition on_cell :: "nat \<Rightarrow> console \<Rightarrow> bool" where
  "on_cell k s \<longleftrightarrow> length (video s) = maxVideo \<and> currentVideo s = 2 * k"

lemma maxVideo_cells: "maxVideo = 2 * 2000"
  by (simp add: maxVideo_def)

lemma print_char_shows:
  assumes "on_cell k s"
  shows "k < 2000 \<Longrightarrow> \<exists>s'. ncPrintChar c s = Some s' \<and> on_cell (Suc k) s' \<and> cell k s' = c \<and>
      (\<forall>i. i \<noteq> k \<longrightarrow> cell i s' = cell i s) \<and> digit_space s' = digit_space s"
    "2000 \<le> k \<Longrightarrow> ncPrintChar c s = None"
  using assms by (auto simp: ncPrintChar_def on_cell_def maxVideo_cells cell_def Let_def)

text \<open>The text \<open>cs\<close> in the cells from \<open>k\<close> on, and nothing else changed.\<close>

definition shown :: "nat \<Rightarrow> byte list \<Rightarrow> console \<Rightarrow> console \<Rightarrow> bool" where
  "shown k cs s s' \<longleftrightarrow> on_cell (k + length cs) s' \<and> digit_space s' = digit_space s \<and>
     (\<forall>i. cell i s' = (if k \<le> i \<and> i < k + length cs then cs ! (i - k) else cell i s))"

lemma ncPrint_text:
  assumes "on_cell k s" "0 \<notin> set cs"
  shows "k + length cs \<le> 2000 \<Longrightarrow> \<exists>s'. ncPrint (cs @ 0 # t) s = Some s' \<and> shown k cs s s'"
    "k \<le> 2000 \<Longrightarrow> 2000 < k + length cs \<Longrightarrow> ncPrint (cs @ 0 # t) s = None"
proof -
  show "k + length cs \<le> 2000 \<Longrightarrow> \<exists>s'. ncPrint (cs @ 0 # t) s = Some s' \<and> shown k cs s s'"
    using assms
  proof (induction cs arbitrary: k s)
    case Nil
    then show ?case by (auto simp: shown_def)
  next
    case (Cons c cs)
    obtain s1 where s1: "ncPrintChar c s = Some s1" "on_cell (Suc k) s1" "cell k s1 = c"
      "\<forall>i. i \<noteq> k \<longrightarrow> cell i s1 = cell i s" "digit_space s1 = digit_space s"
      using print_char_shows(1) [OF Cons.prems(2), of c] Cons.prems(1) by auto
    obtain s' where s': "ncPrint (cs @ 0 # t) s1 = Some s'" "shown (Suc k) cs s1 s'"
      using Cons.IH [OF _ s1(2)] Cons.prems by auto
    have "cell i s' = (if k \<le> i \<and> i < k + length (c # cs) then (c # cs) ! (i - k) else cell i s)" for i
    proof (cases "i = k")
      case True
      then show ?thesis using s'(2) s1(3) by (simp add: shown_def)
    next
      case False
      then show ?thesis using s'(2) s1(4) by (auto simp: shown_def nth_Cons')
    qed
    then have "shown k (c # cs) s s'" using s'(2) s1(5) by (simp add: shown_def)
    then show ?case using s1(1) s'(1) Cons.prems(3) by auto
  qed
  show "k \<le> 2000 \<Longrightarrow> 2000 < k + length cs \<Longrightarrow> ncPrint (cs @ 0 # t) s = None"
    using assms
  proof (induction cs arbitrary: k s)
    case (Cons c cs)
    show ?case
    proof (cases "k < 2000")
      case True
      then obtain s1 where s1: "ncPrintChar c s = Some s1" "on_cell (Suc k) s1"
        using print_char_shows(1) [OF Cons.prems(3), of c] by auto
      then show ?thesis using Cons.IH [OF _ _ s1(2)] Cons.prems True by auto
    next
      case False
      then show ?thesis using print_char_shows(2) [OF Cons.prems(3), of c] Cons.prems by auto
    qed
  qed simp
qed

text \<open>
  A text is shown in the cells from the pointer on as long as it fits on the rest of the 2000 cells;
  otherwise it is written past the last cell, since the pointer is only reset once it has passed the
  cell behind it.
\<close>

theorem nc_print_fits:
  assumes "on_cell k s" "k \<le> 2000" "0 \<notin> set cs"
  shows "if k + length cs \<le> 2000 then \<exists>s'. ncPrint (cs @ [0]) s = Some s' \<and> shown k cs s s'
    else ncPrint (cs @ [0]) s = None"
  using ncPrint_text [OF assms(1,3), of "[]"] assms(2) by auto

theorem nc_print_fits_witness:
  "\<exists>s'. ncPrint (text_of ''ok'' @ [0]) (console_init (replicate 4000 7)) = Some s' \<and>
    shown 0 (text_of ''ok'') (console_init (replicate 4000 7)) s'"
proof -
  have "on_cell 0 (console_init (replicate 4000 7))" by (simp add: on_cell_def console_init_def maxVideo_def)
  from nc_print_fits [OF this, of "text_of ''ok''"] show ?thesis by (simp add: text_of_def)
qed

lemma digs_length_ge: "2 \<le> b \<Longrightarrow> b ^ k \<le> n \<Longrightarrow> k < length (digs b n)"
proof (induction k arbitrary: n)
  case 0
  then show ?case using digs_nonempty [of b n] by simp
next
  case (Suc k)
  have "b \<le> b ^ Suc k" using Suc.prems(1) by simp
  then have n: "\<not> n < b" using Suc.prems(2) by linarith
  have "b ^ k \<le> n div b" using Suc.prems by (simp add: less_eq_div_iff_mult_less_eq mult.commute)
  then show ?case using Suc.IH [of "n div b"] Suc.prems(1) n by (subst digs.simps) simp
qed

text \<open>
  A number is printed in binary unless it needs all 64 digits: then the terminator is written past
  the end of the buffer for the digits.
\<close>

theorem nc_bin_overflow:
  assumes "on_cell k s" "k + 64 \<le> 2000" "length (digit_space s) = 64"
  shows "if unat v < 2 ^ 63 then \<exists>s' buf. ncPrintBin v s = Some s' \<and>
      shown k (numeral_text 2 (unat v)) (s\<lparr>digit_space := buf\<rparr>) s'
    else ncPrintBin v s = None"
proof (cases "unat v < 2 ^ 63")
  case True
  then have l: "length (digs 2 (unat v)) \<le> 63" using digs_length [of 2 "unat v" 62] by simp
  let ?t = "numeral_text 2 (unat v)"
  have u: "uintToBase v (digit_space s) 2 = Some (?t @ 0 # drop (Suc (length ?t)) (digit_space s), length ?t)"
    using uintToBase_returns [of 2 v "digit_space s"] l assms(3) by (simp add: Let_def numeral_text_def)
  let ?b = "?t @ 0 # drop (Suc (length ?t)) (digit_space s)"
  have c: "on_cell k (s\<lparr>digit_space := ?b\<rparr>)" using assms(1) by (simp add: on_cell_def)
  have "k + length ?t \<le> 2000" using l assms(2) by (simp add: numeral_text_def)
  then obtain s' where "ncPrint ?b (s\<lparr>digit_space := ?b\<rparr>) = Some s'" "shown k ?t (s\<lparr>digit_space := ?b\<rparr>) s'"
    using ncPrint_text(1) [OF c, of ?t] numeral_text_no_zero [of 2 "unat v"] by auto
  then show ?thesis using True u by (auto simp: ncPrintBin_def ncPrintBase_def)
next
  case False
  have "length (digs 2 (unat v)) = 64"
    using digs_length_ge [of 2 63 "unat v"] False digs_length_u64 [of 2 v] by simp
  then have "uintToBase v (digit_space s) 2 = None"
    using digit_loop_returns [of 2 0 v "digit_space s"] assms(3) by (simp add: uintToBase_def)
  then show ?thesis using False by (simp add: ncPrintBin_def ncPrintBase_def)
qed

theorem nc_bin_overflow_witness:
  "ncPrintBin (2 ^ 63) (console_init (replicate 4000 7)) = None"
proof -
  have "on_cell 0 (console_init (replicate 4000 7))" by (simp add: on_cell_def console_init_def maxVideo_def)
  from nc_bin_overflow [OF this, of "2 ^ 63"] show ?thesis by (simp add: console_init_def)
qed

end
