(* ===== verification/SemTest.thy ===== *)
theory SemTest
  imports Prelude
begin

text \<open>
  The test of the semaphores (\<open>Userland/UserModule/c2/semTest.c\<close>): some processes add their increment
  \<open>n\<close> times to a global variable with \<open>slowInc\<close>, which yields between the read and the write. The program
  of one iteration is a list of actions; the system calls on the semaphore have the meaning that the
  kernel's semaphores are shown to have (theory \<open>SemProps\<close>). The processes are interleaved in every order.
\<close>

section \<open>The processes\<close>

datatype sem_action = WaitSem | PostSem | LoadAux | Yield | AddAux | StoreGlobal

definition TOTAL_PAIR_PROCESSES :: nat where "TOTAL_PAIR_PROCESSES = 2"

definition slowInc :: "sem_action list" where
  "slowInc = [LoadAux, Yield, AddAux, StoreGlobal]"

text \<open>The body of the loop of \<open>my_process_inc\<close>.\<close>

definition inc_body :: "bool \<Rightarrow> sem_action list" where
  "inc_body use_sem = (if use_sem then [WaitSem] @ slowInc @ [PostSem] else slowInc)"

text \<open>
  The global variable, and for each process its variable \<open>aux\<close>, its position in the body, the iterations
  it still has to do and whether it waits in the queue of the semaphore.
\<close>

record sem_test =
  globalForSemTest :: u64
  aux :: "nat \<Rightarrow> u64"
  place :: "nat \<Rightarrow> nat"
  left :: "nat \<Rightarrow> nat"
  waiting :: "nat \<Rightarrow> bool"
  sem_value :: nat
  sem_queue :: "nat list"

text \<open>On to the next action or the next iteration.\<close>

definition go_on :: "bool \<Rightarrow> nat \<Rightarrow> sem_test \<Rightarrow> sem_test" where
  "go_on use_sem i s =
     (if Suc (place s i) < length (inc_body use_sem)
      then s\<lparr>place := (place s)(i := Suc (place s i))\<rparr>
      else s\<lparr>place := (place s)(i := 0), left := (left s)(i := left s i - 1)\<rparr>)"

fun act :: "bool \<Rightarrow> (nat \<Rightarrow> u64) \<Rightarrow> nat \<Rightarrow> sem_action \<Rightarrow> sem_test \<Rightarrow> sem_test" where
  "act us inc i WaitSem s =
     (if sem_value s > 0 then go_on us i (s\<lparr>sem_value := sem_value s - 1\<rparr>)
      else s\<lparr>sem_queue := sem_queue s @ [i], waiting := (waiting s)(i := True)\<rparr>)"
| "act us inc i PostSem s =
     go_on us i
       (case sem_queue s of
          [] \<Rightarrow> s\<lparr>sem_value := sem_value s + 1\<rparr>
        | j # q \<Rightarrow> go_on us j (s\<lparr>sem_queue := q, waiting := (waiting s)(j := False)\<rparr>))"
| "act us inc i LoadAux s = go_on us i (s\<lparr>aux := (aux s)(i := globalForSemTest s)\<rparr>)"
| "act us inc i Yield s = go_on us i s"
| "act us inc i AddAux s = go_on us i (s\<lparr>aux := (aux s)(i := aux s i + inc i)\<rparr>)"
| "act us inc i StoreGlobal s = go_on us i (s\<lparr>globalForSemTest := aux s i\<rparr>)"

text \<open>One action of a process that has not finished and does not wait.\<close>

inductive sem_test_step :: "bool \<Rightarrow> nat \<Rightarrow> (nat \<Rightarrow> u64) \<Rightarrow> sem_test \<Rightarrow> sem_test \<Rightarrow> bool" for us m inc where
  step: "i < m \<Longrightarrow> left s i > 0 \<Longrightarrow> \<not> waiting s i \<Longrightarrow> sem_test_step us m inc s (act us inc i (inc_body us ! place s i) s)"

inductive_cases sem_test_stepE: "sem_test_step us m inc s s'"

text \<open>The state after \<open>commandTestSem\<close> has created the processes, with \<open>sysCreateSemaphore(SEM_NAME, 1)\<close>.\<close>

definition sem_test_start :: "u64 \<Rightarrow> nat \<Rightarrow> sem_test" where
  "sem_test_start v n = \<lparr>globalForSemTest = v, aux = (\<lambda>_. 0), place = (\<lambda>_. 0), left = (\<lambda>_. n), waiting = (\<lambda>_. False),
     sem_value = 1, sem_queue = []\<rparr>"

text \<open>The increments: the processes of the even numbers decrement, in the order of their creation.\<close>

definition pair_inc :: "nat \<Rightarrow> u64" where
  "pair_inc i = (if even i then - 1 else 1)"

section \<open>With the semaphore\<close>

text \<open>What process \<open>i\<close> has added so far.\<close>

definition added :: "nat \<Rightarrow> (nat \<Rightarrow> u64) \<Rightarrow> sem_test \<Rightarrow> nat \<Rightarrow> u64" where
  "added n inc s i = of_nat (n - left s i + (if place s i = 5 then 1 else 0)) * inc i"

definition inside :: "nat \<Rightarrow> sem_test \<Rightarrow> nat set" where
  "inside m s = {i. i < m \<and> place s i > 0}"

definition sem_test_inv :: "u64 \<Rightarrow> nat \<Rightarrow> nat \<Rightarrow> (nat \<Rightarrow> u64) \<Rightarrow> sem_test \<Rightarrow> bool" where
  "sem_test_inv v n m inc s \<longleftrightarrow>
     (sem_value s = 1 \<and> inside m s = {} \<and> sem_queue s = [] \<or> sem_value s = 0 \<and> (\<exists>h. inside m s = {h})) \<and>
     distinct (sem_queue s) \<and> set (sem_queue s) = {i. waiting s i} \<and>
     (\<forall>i. waiting s i \<longrightarrow> i < m \<and> place s i = 0 \<and> left s i > 0) \<and>
     (\<forall>i < m. place s i \<le> 5 \<and> left s i \<le> n \<and> (place s i > 0 \<longrightarrow> left s i > 0)) \<and>
     (\<forall>i < m. place s i = 2 \<or> place s i = 3 \<longrightarrow> aux s i = globalForSemTest s) \<and>
     (\<forall>i < m. place s i = 4 \<longrightarrow> aux s i = globalForSemTest s + inc i) \<and>
     globalForSemTest s = v + (\<Sum>i < m. added n inc s i)"

lemma inc_body_sem: "inc_body True = [WaitSem, LoadAux, Yield, AddAux, StoreGlobal, PostSem]"
  by (simp add: inc_body_def slowInc_def)

lemma start_inv: "sem_test_inv v n m inc (sem_test_start v n)"
  by (auto simp: sem_test_inv_def sem_test_start_def inside_def added_def)

lemma sum_change:
  fixes f g :: "nat \<Rightarrow> u64"
  assumes "i < m" "\<And>j. j \<noteq> i \<Longrightarrow> g j = f j" "g i = f i + d"
  shows "(\<Sum>j < m. g j) = (\<Sum>j < m. f j) + d"
proof -
  have "(\<Sum>j < m. g j) = (\<Sum>j \<in> {..<m} - {i}. g j) + g i" using assms(1) by (simp add: sum.remove [of _ i] add.commute)
  also have "(\<Sum>j \<in> {..<m} - {i}. g j) = (\<Sum>j \<in> {..<m} - {i}. f j)" by (rule sum.cong) (use assms(2) in auto)
  also have "\<dots> + g i = (\<Sum>j < m. f j) + d" using assms(1,3) by (simp add: sum.remove [of _ i] add_ac)
  finally show ?thesis .
qed

lemma same_sum:
  "(\<And>i. i < m \<Longrightarrow> added n inc s' i = added n inc s i) \<Longrightarrow> (\<Sum>i < m. added n inc s' i) = (\<Sum>i < m. added n inc s i)"
  by (rule sum.cong) simp_all

lemma invD:
  assumes "sem_test_inv v n m inc s"
  shows "sem_value s = 1 \<and> inside m s = {} \<and> sem_queue s = [] \<or> sem_value s = 0 \<and> (\<exists>h. inside m s = {h})"
    "distinct (sem_queue s)" "set (sem_queue s) = {i. waiting s i}"
    "waiting s i \<Longrightarrow> i < m" "waiting s i \<Longrightarrow> place s i = 0" "waiting s i \<Longrightarrow> left s i > 0"
    "i < m \<Longrightarrow> place s i \<le> 5" "i < m \<Longrightarrow> left s i \<le> n" "i < m \<Longrightarrow> place s i > 0 \<Longrightarrow> left s i > 0"
    "i < m \<Longrightarrow> place s i = 2 \<or> place s i = 3 \<Longrightarrow> aux s i = globalForSemTest s"
    "i < m \<Longrightarrow> place s i = 4 \<Longrightarrow> aux s i = globalForSemTest s + inc i"
    "globalForSemTest s = v + (\<Sum>i < m. added n inc s i)"
  using assms by (auto simp: sem_test_inv_def)

lemma only_inside:
  assumes "sem_test_inv v n m inc s" "i < m" "place s i > 0" "j < m" "j \<noteq> i"
  shows "place s j = 0" "sem_value s = 0" "inside m s = {i}"
proof -
  have "i \<in> inside m s" using assms(2,3) by (simp add: inside_def)
  then have h: "sem_value s = 0" "inside m s = {i}" using invD(1) [OF assms(1)] by auto
  then show "sem_value s = 0" "inside m s = {i}" by blast+
  have "j \<notin> inside m s" using h(2) assms(5) by simp
  then show "place s j = 0" using assms(4) by (simp add: inside_def)
qed

lemma alone_inside:
  assumes "sem_test_inv v n m inc s" "i < m" "place s i > 0"
  shows "\<forall>j < m. j \<noteq> i \<longrightarrow> place s j = 0" "sem_value s = 0" "inside m s = {i}"
proof -
  have "i \<in> inside m s" using assms(2,3) by (simp add: inside_def)
  then show h: "sem_value s = 0" "inside m s = {i}" using invD(1) [OF assms(1)] by auto
  show "\<forall>j < m. j \<noteq> i \<longrightarrow> place s j = 0"
  proof (intro allI impI)
    fix j assume "j < m" "j \<noteq> i"
    then have "j \<notin> inside m s" using h(2) by simp
    then show "place s j = 0" using \<open>j < m\<close> by (simp add: inside_def)
  qed
qed

text \<open>An action inside, other than the last: only the process itself, the variable and its copy change.\<close>

lemma inner_step:
  assumes I: "sem_test_inv v n m inc s" and i: "i < m" "place s i > 0" "place s i < 5"
    and s': "s' = s\<lparr>place := (place s)(i := Suc (place s i)), aux := (aux s)(i := x), globalForSemTest := g\<rparr>"
    and x: "place s i = 1 \<or> place s i = 2 \<Longrightarrow> x = g" "place s i = 3 \<Longrightarrow> x = g + inc i"
    and g: "g = globalForSemTest s + (if place s i = 4 then inc i else 0)"
  shows "sem_test_inv v n m inc s'"
proof -
  note a = alone_inside [OF I i(1,2)]
  have nw: "\<not> waiting s i" using invD(5) [OF I, of i] i(2) by auto
  have "inside m s' = {i}" using a(1) i(1) by (auto simp: inside_def s')
  moreover have "(\<Sum>j < m. added n inc s' j) = (\<Sum>j < m. added n inc s j) + (if place s i = 4 then inc i else 0)"
  proof (rule sum_change [OF i(1)])
    show "added n inc s' j = added n inc s j" if "j \<noteq> i" for j using that by (simp add: added_def s')
    show "added n inc s' i = added n inc s i + (if place s i = 4 then inc i else 0)"
      using i(3) by (simp add: added_def s' algebra_simps)
  qed
  then have "g = v + (\<Sum>j < m. added n inc s' j)" using g invD(12) [OF I] by (simp add: add.assoc)
  ultimately show ?thesis
    using a invD(2-9) [OF I] nw i x g unfolding sem_test_inv_def s' by auto
qed

lemma wait_step:
  assumes I: "sem_test_inv v n m inc s" and i: "i < m" "place s i = 0" "left s i > 0" "\<not> waiting s i"
  shows "sem_test_inv v n m inc (act True inc i WaitSem s)"
proof (cases "sem_value s > 0")
  case True
  then have e: "sem_value s = 1" "inside m s = {}" "sem_queue s = []" using invD(1) [OF I] by auto
  let ?s = "s\<lparr>sem_value := 0, place := (place s)(i := 1)\<rparr>"
  have a: "act True inc i WaitSem s = ?s" using e i by (simp add: go_on_def inc_body_sem)
  have out: "place s j = 0" if "j < m" for j using e(2) that by (auto simp: inside_def)
  have "inside m ?s = {i}" using i(1) out by (auto simp: inside_def)
  moreover have "(\<Sum>j < m. added n inc ?s j) = (\<Sum>j < m. added n inc s j)"
    by (rule same_sum) (use i in \<open>simp add: added_def\<close>)
  ultimately show ?thesis
    unfolding a sem_test_inv_def using invD(2-12) [OF I] e i out by auto
next
  case False
  let ?s = "s\<lparr>sem_queue := sem_queue s @ [i], waiting := (waiting s)(i := True)\<rparr>"
  have a: "act True inc i WaitSem s = ?s" using False by simp
  have "(\<Sum>j < m. added n inc ?s j) = (\<Sum>j < m. added n inc s j)" by (rule same_sum) (simp add: added_def)
  moreover have "inside m ?s = inside m s" by (simp add: inside_def)
  moreover have "i \<notin> set (sem_queue s)" using invD(3) [OF I] i(4) by simp
  ultimately show ?thesis
    unfolding a sem_test_inv_def using invD [OF I] False i by auto
qed

lemma post_step:
  assumes I: "sem_test_inv v n m inc s" and i: "i < m" "place s i = 5"
  shows "sem_test_inv v n m inc (act True inc i PostSem s)"
proof -
  have p: "place s i > 0" using i(2) by simp
  note al = alone_inside [OF I i(1) p]
  have l: "left s i > 0" "left s i \<le> n" using invD(8,9) [OF I i(1)] p by auto
  have nw: "\<not> waiting s i" using invD(5) [OF I, of i] i(2) by auto
  have ln: "left s i - 1 \<le> n" using l by simp
  have same_i: "of_nat (n - (left s i - 1)) = (of_nat (n - left s i + 1) :: u64)"
  proof -
    have "n - (left s i - 1) = n - left s i + 1" using l by simp
    then show ?thesis by simp
  qed
  show ?thesis
  proof (cases "sem_queue s")
    case Nil
    let ?s = "s\<lparr>sem_value := 1, place := (place s)(i := 0), left := (left s)(i := left s i - 1)\<rparr>"
    have a: "act True inc i PostSem s = ?s" using Nil i(2) al(2) by (simp add: go_on_def inc_body_sem)
    have w: "\<not> waiting s j" for j using invD(3) [OF I] Nil by auto
    have "inside m ?s = {}" using al(1) by (auto simp: inside_def)
    moreover have "(\<Sum>j < m. added n inc ?s j) = (\<Sum>j < m. added n inc s j)"
    proof (rule same_sum)
      show "added n inc ?s j = added n inc s j" for j using i(2) same_i by (cases "j = i") (simp_all add: added_def)
    qed
    ultimately show ?thesis
      unfolding a sem_test_inv_def using invD(7-12) [OF I] Nil al(1) w ln by auto
  next
    case (Cons j q)
    have j: "waiting s j" using invD(3) [OF I] Cons by auto
    have jm: "j < m" "place s j = 0" "left s j > 0" using invD(4-6) [OF I j] by blast+
    have ji: "j \<noteq> i" using j nw by auto
    let ?s = "s\<lparr>sem_queue := q, waiting := (waiting s)(j := False), place := (place s)(j := 1, i := 0),
      left := (left s)(i := left s i - 1)\<rparr>"
    have a: "act True inc i PostSem s = ?s" using Cons i(2) jm ji by (simp add: go_on_def inc_body_sem)
    have q: "distinct q" "j \<notin> set q" "set q = {k. waiting s k} - {j}" using invD(2,3) [OF I] Cons by auto
    have "inside m ?s = {j}" using al(1) jm(1) ji by (auto simp: inside_def)
    moreover have "(\<Sum>k < m. added n inc ?s k) = (\<Sum>k < m. added n inc s k)"
    proof (rule same_sum)
      show "added n inc ?s k = added n inc s k" for k
        using i(2) same_i jm(2) ji by (cases "k = i"; cases "k = j") (simp_all add: added_def)
    qed
    moreover have "waiting s k \<Longrightarrow> k \<noteq> i" for k using nw by auto
    ultimately show ?thesis
      unfolding a sem_test_inv_def using invD(4-12) [OF I] q al(1,2) jm ji ln by (auto split: if_splits)
  qed
qed

lemma step_inv:
  assumes I: "sem_test_inv v n m inc s" and st: "sem_test_step True m inc s s'"
  shows "sem_test_inv v n m inc s'"
  using st
proof cases
  case (step i)
  have "place s i \<le> 5" using invD(7) [OF I step(2)] .
  then consider "place s i = 0" | "place s i = 1" | "place s i = 2" | "place s i = 3" | "place s i = 4" | "place s i = 5" by linarith
  then show ?thesis
  proof cases
    case 1
    then show ?thesis using wait_step [OF I] step by (simp add: inc_body_sem)
  next
    case 2
    show ?thesis
      by (rule inner_step [OF I step(2), of _ "globalForSemTest s" "globalForSemTest s"])
        (use 2 step(1) in \<open>simp_all add: inc_body_sem go_on_def\<close>)
  next
    case 3
    have u: "aux s i = globalForSemTest s" using invD(10) [OF I step(2)] 3 by simp
    show ?thesis
    proof (rule inner_step [OF I step(2)])
      show "s' = s\<lparr>place := (place s)(i := Suc (place s i)), aux := (aux s)(i := aux s i), globalForSemTest := globalForSemTest s\<rparr>"
        using 3 step(1) by (simp add: inc_body_sem go_on_def)
    qed (use 3 u in simp_all)
  next
    case 4
    have u: "aux s i = globalForSemTest s" using invD(10) [OF I step(2)] 4 by simp
    show ?thesis
    proof (rule inner_step [OF I step(2)])
      show "s' = s\<lparr>place := (place s)(i := Suc (place s i)), aux := (aux s)(i := aux s i + inc i), globalForSemTest := globalForSemTest s\<rparr>"
        using 4 step(1) by (simp add: inc_body_sem go_on_def)
    qed (use 4 u in simp_all)
  next
    case 5
    have u: "aux s i = globalForSemTest s + inc i" using invD(11) [OF I step(2)] 5 by simp
    show ?thesis
    proof (rule inner_step [OF I step(2)])
      show "s' = s\<lparr>place := (place s)(i := Suc (place s i)), aux := (aux s)(i := aux s i), globalForSemTest := aux s i\<rparr>"
        using 5 step(1) by (simp add: inc_body_sem go_on_def)
    qed (use 5 u in simp_all)
  next
    case 6
    then show ?thesis using post_step [OF I step(2)] step(1) by (simp add: inc_body_sem)
  qed
qed

lemma runs_inv:
  "(sem_test_step True m inc)\<^sup>*\<^sup>* (sem_test_start v n) s \<Longrightarrow> sem_test_inv v n m inc s"
  by (induction rule: rtranclp_induct) (auto intro: start_inv step_inv)

text \<open>A run by the numbers of the processes that act; \<open>None\<close> if one of them cannot.\<close>

fun sem_test_run :: "bool \<Rightarrow> nat \<Rightarrow> (nat \<Rightarrow> u64) \<Rightarrow> nat list \<Rightarrow> sem_test \<Rightarrow> sem_test option" where
  "sem_test_run us m inc [] s = Some s"
| "sem_test_run us m inc (i # is) s =
     (if i < m \<and> left s i > 0 \<and> \<not> waiting s i
      then sem_test_run us m inc is (act us inc i (inc_body us ! place s i) s) else None)"

lemma run_steps: "sem_test_run us m inc is s = Some s' \<Longrightarrow> (sem_test_step us m inc)\<^sup>*\<^sup>* s s'"
proof (induction us m inc "is" s rule: sem_test_run.induct)
  case (2 us m inc i ks s)
  then have "sem_test_step us m inc s (act us inc i (inc_body us ! place s i) s)"
    by (intro sem_test_step.step) (auto split: if_splits)
  then show ?case using 2 by (auto split: if_splits intro: converse_rtranclp_into_rtranclp)
qed simp

text \<open>
  C34: with the semaphore every run of the \<open>2 k\<close> processes that lets all of them finish leaves the global
  variable as it was, and as long as some process has not finished, one of them can act.
\<close>

theorem sem_test_keeps:
  assumes "(sem_test_step True (2 * k) pair_inc)\<^sup>*\<^sup>* (sem_test_start v n) s"
  shows "((\<forall>i < 2 * k. left s i = 0) \<longrightarrow> globalForSemTest s = v) \<and>
    ((\<exists>i < 2 * k. left s i > 0) \<longrightarrow> (\<exists>s'. sem_test_step True (2 * k) pair_inc s s'))"
proof (intro conjI impI)
  note I = runs_inv [OF assms]
  {
    assume fin: "\<forall>i < 2 * k. left s i = 0"
    have out: "place s i = 0" if "i < 2 * k" for i using invD(9) [OF I that] fin that by fastforce
    have "(\<Sum>i < 2 * k. added n pair_inc s i) = (\<Sum>i < 2 * k. of_nat n * pair_inc i)"
      by (rule sum.cong) (use fin out in \<open>simp_all add: added_def\<close>)
    also have "\<dots> = 0"
    proof (induction k)
      case (Suc k)
      have "{..<2 * Suc k} = insert (2 * k + 1) (insert (2 * k) {..<2 * k})" by auto
      then show ?case using Suc by (simp add: pair_inc_def)
    qed simp
    finally show "globalForSemTest s = v" using invD(12) [OF I] by simp
  }
  {
    assume "\<exists>i < 2 * k. left s i > 0"
    then obtain i where i: "i < 2 * k" "left s i > 0" by blast
    have "\<exists>j < 2 * k. left s j > 0 \<and> \<not> waiting s j"
    proof (cases "waiting s i")
      case True
      then have "sem_queue s \<noteq> []" using invD(3) [OF I] by auto
      then obtain h where "inside (2 * k) s = {h}" using invD(1) [OF I] by blast
      then have "h < 2 * k" "place s h > 0" by (auto simp: inside_def)
      then show ?thesis using invD(5) [OF I, of h] invD(9) [OF I, of h] by auto
    qed (use i in blast)
    then show "\<exists>s'. sem_test_step True (2 * k) pair_inc s s'" using sem_test_step.step by blast
  }
qed

theorem sem_test_keeps_witness:
  "\<exists>s. sem_test_run True (2 * 1) pair_inc [0, 1, 0, 0, 0, 0, 0, 1, 1, 1, 1, 1] (sem_test_start 7 1) = Some s \<and>
     left s 0 = 0 \<and> left s 1 = 0 \<and> globalForSemTest s = 7"
proof -
  obtain s where s: "sem_test_run True (2 * 1) pair_inc [0, 1, 0, 0, 0, 0, 0, 1, 1, 1, 1, 1] (sem_test_start 7 1) = Some s"
    "left s 0 = 0" "left s 1 = 0"
    by (simp add: inc_body_def slowInc_def go_on_def sem_test_start_def)
  have "\<forall>i < 2 * 1. left s i = 0" using s(2,3) by (auto simp: less_Suc_eq numeral_2_eq_2)
  then show ?thesis using sem_test_keeps [OF run_steps [OF s(1)]] s by auto
qed

section \<open>Without the semaphore\<close>

text \<open>
  Without the semaphore four processes with one iteration each can lose an update, so that the
  variable does not get back its value.
\<close>

theorem sem_test_race:
  "\<exists>s. (sem_test_step False (2 * TOTAL_PAIR_PROCESSES) pair_inc)\<^sup>*\<^sup>* (sem_test_start 0 1) s \<and>
     left s 0 = 0 \<and> left s 1 = 0 \<and> left s 2 = 0 \<and> left s 3 = 0 \<and> globalForSemTest s \<noteq> 0"
proof -
  obtain s where s: "sem_test_run False 4 pair_inc [0, 1, 0, 1, 0, 1, 0, 1, 2, 2, 2, 2, 3, 3, 3, 3] (sem_test_start 0 1) = Some s"
    "left s 0 = 0" "left s 1 = 0" "left s 2 = 0" "left s 3 = 0" "globalForSemTest s = 1"
    by (simp add: inc_body_def slowInc_def go_on_def sem_test_start_def pair_inc_def)
  show ?thesis using run_steps [OF s(1)] s(2-6) by (auto simp: TOTAL_PAIR_PROCESSES_def)
qed

end
