(* ===== verification/UTests.thy ===== *)
theory UTests
  imports UCommands Timer
begin

text \<open>
  The test programs of user land: \<open>testUtil.c\<close>, \<open>testProcesses.c\<close>, \<open>testPrio.c\<close>, the sequential parts of
  \<open>semTest.c\<close> and the test of the pipes in \<open>shellCommands.c\<close>. They run like the commands of the shell
  (theory \<open>UCommands\<close>). \<open>None\<close> is a program that never ends or a fault.
\<close>

unbundle bit_operations_syntax

section \<open>Random numbers\<close>

record rng =
  m_z :: u32
  m_w :: u32

definition rng_init :: rng where "rng_init = \<lparr>m_z = 362436069, m_w = 521288629\<rparr>"

definition GetUint :: "rng \<Rightarrow> u32 \<times> rng" where
  "GetUint r =
     (let z = 36969 * (m_z r AND 65535) + drop_bit 16 (m_z r);
          w = 18000 * (m_w r AND 65535) + drop_bit 16 (m_w r)
      in (push_bit 16 z + w, \<lparr>m_z = z, m_w = w\<rparr>))"

text \<open>The product is computed by the floating point unit, as in theory \<open>Timer\<close>, and cut to 32 bits.\<close>

definition uniform_of :: "u32 \<Rightarrow> u32 \<Rightarrow> u32" where
  "uniform_of u mx =
     word_of_int \<lfloor>round_bits 64 (round_bits 64 ((of_nat (unat u) + 1) * round_bits 53 (2328306435454494 / 10 ^ 25)) * of_nat (unat mx))\<rfloor>"

definition GetUniform :: "u32 \<Rightarrow> rng \<Rightarrow> u32 \<times> rng" where
  "GetUniform mx r = (let (u, r1) = GetUint r in (uniform_of u mx, r1))"

section \<open>Memory and parameters\<close>

fun memcheck :: "byte list \<Rightarrow> byte \<Rightarrow> nat \<Rightarrow> bool option" where
  "memcheck p v 0 = Some True"
| "memcheck [] v (Suc n) = None"
| "memcheck (x # p) v (Suc n) = (if x \<noteq> v then Some False else memcheck p v n)"

fun setMem :: "byte list \<Rightarrow> byte \<Rightarrow> nat \<Rightarrow> byte list option" where
  "setMem p c 0 = Some p"
| "setMem [] c (Suc n) = None"
| "setMem (x # p) c (Suc n) = map_option ((#) c) (setMem p c n)"

fun satoi_loop :: "byte list \<Rightarrow> u64 \<Rightarrow> u64 \<Rightarrow> u64 option" where
  "satoi_loop [] res sign = None"
| "satoi_loop (c # str) res sign =
     (if c = 0 then Some (res * sign)
      else if sint c < 48 \<or> sint c > 57 then Some 0
      else satoi_loop str (res * 10 + scast c - 48) sign)"

text \<open>The result is an \<open>int64_t\<close>; \<open>None\<close> inside is \<open>NULL\<close>.\<close>

definition satoi :: "byte list option \<Rightarrow> u64 option" where
  "satoi str =
     (case str of
        None \<Rightarrow> Some 0
      | Some s \<Rightarrow> do {
          c \<leftarrow> byte_at s 0;
          if c = 45 then satoi_loop (tl s) 0 (- 1) else satoi_loop s 0 1 })"

section \<open>Processes to test with\<close>

partial_function (option) endless_loop :: "kernel_answers \<Rightarrow> 'h process" where
  [code]: "endless_loop ans sh = endless_loop ans (snd (call ans Halt sh))"

partial_function (option) print_pid_loop :: "int \<Rightarrow> 'h process" where
  [code]: "print_pid_loop child sh = do { sh1 \<leftarrow> pf (lit ''%lu '') [i32 child] sh; print_pid_loop child sh1 }"

text \<open>The busy waits between two lines change nothing.\<close>

definition endless_loop_print :: "kernel_answers \<Rightarrow> argv \<Rightarrow> 'h process" where
  "endless_loop_print ans argv sh =
     (if length argv \<noteq> 2
      then do { sh1 \<leftarrow> pf (lit ''Argument error'') [] sh; sysExit ILLEGAL_ARGUMENT sh1 }
      else do {
        wait_type \<leftarrow> int_arg argv 1;
        let (child, sh1) = call ans GetPid sh;
        print_pid_loop child sh1 })"

section \<open>Test of the processes\<close>

datatype rq_state = RQ_RUNNING | RQ_BLOCKED | RQ_KILLED

type_synonym p_rq = "int \<times> rq_state"

definition printUsage :: "byte list \<Rightarrow> 'h shell \<Rightarrow> 'h shell option" where
  "printUsage procName sh = do {
     sh1 \<leftarrow> pf (lit ''Usage:\<newline>'') [] sh;
     sh2 \<leftarrow> pf (9 # lit ''%s <max_processes> <print_status_changes> <ps_and_step>\<newline>'') [Str procName] sh1;
     sh3 \<leftarrow> pf (9 # 9 # lit ''max_processes: natural number\<newline>'') [] sh2;
     sh4 \<leftarrow> pf (9 # 9 # lit ''print_status_changes: 1 to print, 0 to hide\<newline>'') [] sh3;
     pf (9 # 9 # lit ''ps_and_step: omit to deactivate, anything to activate. Print real process list after each iteration and wait for input before continuing\<newline>'') [] sh4 }"

definition say :: "bool \<Rightarrow> byte list \<Rightarrow> int \<Rightarrow> 'h shell \<Rightarrow> 'h shell option" where
  "say active fmt child sh = (if active then pf fmt [i32 child] sh else Some sh)"

text \<open>
  \<open>p_rqs\<close>, \<open>alive\<close>, the numbers and the process itself; a loop ends with them or with an exit.
\<close>

record 'h test_processes =
  p_rqs :: "p_rq list"
  alive :: u8
  numbers :: rng
  proc :: "'h shell"

type_synonym 'h tp_result = "((int \<times> 'h shell) + 'h test_processes) option"

definition tp_exit :: "int \<Rightarrow> 'h shell \<Rightarrow> 'h tp_result" where
  "tp_exit n sh = Some (Inl (n, sh))"

text \<open>\<open>p_rqs[rq]\<close>, with the check that the array is that long.\<close>

definition rq_at :: "u8 \<Rightarrow> 'h test_processes \<Rightarrow> p_rq option" where
  "rq_at rq s = (if unat rq < length (p_rqs s) then Some (p_rqs s ! unat rq) else None)"

definition set_rq :: "u8 \<Rightarrow> p_rq \<Rightarrow> 'h test_processes \<Rightarrow> 'h test_processes" where
  "set_rq rq x s = s\<lparr>p_rqs := (p_rqs s)[unat rq := x]\<rparr>"

text \<open>The creation of the processes; the counter \<open>rq\<close> has 8 bits.\<close>

partial_function (option) create_loop ::
  "kernel_answers \<Rightarrow> bool \<Rightarrow> u64 \<Rightarrow> u8 \<Rightarrow> 'h test_processes \<Rightarrow> 'h tp_result" where
  [code]: "create_loop ans act max_processes rq s =
     (if ucast rq < max_processes
      then do {
        let (child, sh1) = call ans (CreateProcess [lit ''endless_loop''] ''endless_loop'') (proc s);
        x \<leftarrow> rq_at rq s;
        sh2 \<leftarrow> say act (lit ''Process (PID=%d) was created successfully\<newline>'') child sh1;
        if child = - 1
        then do { sh3 \<leftarrow> pf (lit ''test_processes: ERROR creating process\<newline>'') [] sh2; tp_exit PROCESS_FAILURE sh3 }
        else create_loop ans act max_processes (rq + 1) ((set_rq rq (child, RQ_RUNNING) s)\<lparr>alive := alive s + 1, proc := sh2\<rparr>) }
      else Some (Inr s))"

definition couldnt_be_killed :: "byte list" where
  "couldnt_be_killed = text_of ''Process couldn'' @ [0xC2, 0xB4] @ lit ''t be killed''"

text \<open>The \<open>switch\<close> on the action for one process.\<close>

definition act_on :: "kernel_answers \<Rightarrow> bool \<Rightarrow> u8 \<Rightarrow> u32 \<Rightarrow> 'h test_processes \<Rightarrow> 'h tp_result" where
  "act_on ans act rq action s = do {
     (child, st) \<leftarrow> rq_at rq s;
     if action = 0 \<and> (st = RQ_RUNNING \<or> st = RQ_BLOCKED)
     then do {
       let (ok, sh1) = call ans (Kill child) (proc s);
       if ok = 0 then do { sh2 \<leftarrow> pf couldnt_be_killed [] sh1; tp_exit PROCESS_FAILURE sh2 }
       else do {
         sh2 \<leftarrow> say act (lit ''Process (PID=%d) was killed successfully\<newline>'') child sh1;
         Some (Inr ((set_rq rq (child, RQ_KILLED) s)\<lparr>alive := alive s - 1, proc := sh2\<rparr>)) } }
     else if action = 1 \<and> st = RQ_RUNNING
     then do {
       let (ok, sh1) = call ans (BlockByUser child) (proc s);
       if ok = 0 then do { sh2 \<leftarrow> pf (lit ''test_processes: ERROR blocking process\<newline>'') [] sh1; tp_exit PROCESS_FAILURE sh2 }
       else do {
         sh2 \<leftarrow> say act (lit ''Process (PID=%d) was blocked successfully\<newline>'') child sh1;
         Some (Inr ((set_rq rq (child, RQ_BLOCKED) s)\<lparr>proc := sh2\<rparr>)) } }
     else Some (Inr s) }"

partial_function (option) action_loop ::
  "kernel_answers \<Rightarrow> bool \<Rightarrow> u64 \<Rightarrow> u8 \<Rightarrow> 'h test_processes \<Rightarrow> 'h tp_result" where
  [code]: "action_loop ans act max_processes rq s =
     (if ucast rq < max_processes
      then do {
        let (u, r) = GetUniform 100 (numbers s);
        res \<leftarrow> act_on ans act rq (u mod 2) (s\<lparr>numbers := r\<rparr>);
        case res of Inl e \<Rightarrow> Some (Inl e) | Inr s1 \<Rightarrow> action_loop ans act max_processes (rq + 1) s1 }
      else Some (Inr s))"

text \<open>The test of \<open>state == BLOCKED\<close> comes before the random number is drawn.\<close>

definition unblock_one :: "kernel_answers \<Rightarrow> bool \<Rightarrow> u8 \<Rightarrow> 'h test_processes \<Rightarrow> 'h tp_result" where
  "unblock_one ans act rq s = do {
     (child, st) \<leftarrow> rq_at rq s;
     if st = RQ_BLOCKED
     then do {
       let (u, r) = GetUniform 100 (numbers s);
       if u mod 2 \<noteq> 0
       then do {
         let (ok, sh1) = call ans (Unblock child) (proc s);
         if ok = 0 then do { sh2 \<leftarrow> pf (lit ''test_processes: ERROR unblocking process\<newline>'') [] sh1; tp_exit PROCESS_FAILURE sh2 }
         else do {
           sh2 \<leftarrow> say act (lit ''Process (PID=%d) was unblocked successfully\<newline>'') child sh1;
           Some (Inr ((set_rq rq (child, RQ_RUNNING) s)\<lparr>numbers := r, proc := sh2\<rparr>)) } }
       else Some (Inr (s\<lparr>numbers := r\<rparr>)) }
     else Some (Inr s) }"

partial_function (option) unblock_loop ::
  "kernel_answers \<Rightarrow> bool \<Rightarrow> u64 \<Rightarrow> u8 \<Rightarrow> 'h test_processes \<Rightarrow> 'h tp_result" where
  [code]: "unblock_loop ans act max_processes rq s =
     (if ucast rq < max_processes
      then do {
        res \<leftarrow> unblock_one ans act rq s;
        case res of Inl e \<Rightarrow> Some (Inl e) | Inr s1 \<Rightarrow> unblock_loop ans act max_processes (rq + 1) s1 }
      else Some (Inr s))"

text \<open>The step of \<open>printPs\<close>: \<open>rows\<close> are the processes that the kernel lists.\<close>

definition show_step :: "kernel_answers \<Rightarrow> pcb_row list \<Rightarrow> 'h shell \<Rightarrow> 'h shell option" where
  "show_step ans rows sh = do {
     let (list, sh1) = call ans PCBList sh;
     sh2 \<leftarrow> printPCBList ans list rows sh1;
     let sh3 = snd (call ans (Free list) sh2);
     (c, s) \<leftarrow> getChar (io sh3);
     Some (sh3\<lparr>io := s\<rparr>) }"

partial_function (option) alive_loop ::
  "kernel_answers \<Rightarrow> bool \<Rightarrow> bool \<Rightarrow> pcb_row list \<Rightarrow> u64 \<Rightarrow> 'h test_processes \<Rightarrow> 'h tp_result" where
  [code]: "alive_loop ans act printPs rows max_processes s =
     (if alive s > 0
      then do {
        res1 \<leftarrow> action_loop ans act max_processes 0 s;
        case res1 of
          Inl e \<Rightarrow> Some (Inl e)
        | Inr s1 \<Rightarrow> do {
            res2 \<leftarrow> unblock_loop ans act max_processes 0 s1;
            case res2 of
              Inl e \<Rightarrow> Some (Inl e)
            | Inr s2 \<Rightarrow> do {
                sh \<leftarrow> (if printPs then show_step ans rows (proc s2) else Some (proc s2));
                alive_loop ans act printPs rows max_processes (s2\<lparr>proc := sh\<rparr>) } } }
      else Some (Inr s))"

text \<open>\<open>entries n\<close>: the array of \<open>max_processes\<close> entries on the stack, with what it holds.\<close>

definition test_rounds ::
  "kernel_answers \<Rightarrow> bool \<Rightarrow> bool \<Rightarrow> pcb_row list \<Rightarrow> u64 \<Rightarrow> 'h test_processes \<Rightarrow> (int \<times> 'h shell) option" where
  "test_rounds ans act printPs rows max_processes s = do {
     res1 \<leftarrow> create_loop ans act max_processes 0 s;
     case res1 of
       Inl e \<Rightarrow> Some e
     | Inr s1 \<Rightarrow> do {
         res2 \<leftarrow> alive_loop ans act printPs rows max_processes s1;
         case res2 of
           Inl e \<Rightarrow> Some e
         | Inr s2 \<Rightarrow> do {
             sh \<leftarrow> pf (lit ''%d processes alive. Execution of testProcesses ended successfully\<newline>'')
               [i32 (uint (alive s2))] (proc s2);
             sysExit SUCCESS sh } } }"

definition commandTestProcesses ::
  "kernel_answers \<Rightarrow> (u64 \<Rightarrow> p_rq list) \<Rightarrow> pcb_row list \<Rightarrow> argv \<Rightarrow> 'h process" where
  "commandTestProcesses ans entries rows argv sh =
     (if length argv < 3
      then do { a0 \<leftarrow> arg_at argv 0; sh1 \<leftarrow> printUsage a0 sh; sysExit MISSING_ARGUMENTS sh1 }
      else do {
        print \<leftarrow> do { a \<leftarrow> arg_at argv 2; satoi (Some a) };
        max_processes \<leftarrow> do { a \<leftarrow> arg_at argv 1; satoi (Some a) };
        let print_is_active = (ucast print :: u32);
        if max_processes = 0 \<or> print_is_active \<noteq> 1 \<and> print_is_active \<noteq> 0
        then do { a0 \<leftarrow> arg_at argv 0; sh1 \<leftarrow> printUsage a0 sh; sysExit ILLEGAL_ARGUMENT sh1 }
        else test_rounds ans (print_is_active = 1) (length argv > 3) rows max_processes
               \<lparr>p_rqs = entries max_processes, alive = 0, numbers = rng_init, proc = sh\<rparr> })"

section \<open>Test of the priorities\<close>

definition TOTAL_PROCESSES :: nat where "TOTAL_PROCESSES = 3"

text \<open>\<open>LOWEST\<close>, \<open>MEDIUM\<close>, \<open>HIGHEST\<close>\<close>

definition prio :: "int list" where "prio = [1, 5, 9]"

definition call_all :: "kernel_answers \<Rightarrow> (int \<Rightarrow> syscall) \<Rightarrow> int list \<Rightarrow> 'h shell \<Rightarrow> 'h shell" where
  "call_all ans f xs sh = fold (\<lambda>x sh. snd (call ans (f x) sh)) xs sh"

fun create_all :: "kernel_answers \<Rightarrow> syscall \<Rightarrow> nat \<Rightarrow> 'h shell \<Rightarrow> int list \<times> 'h shell" where
  "create_all ans c 0 sh = ([], sh)"
| "create_all ans c (Suc n) sh =
     (let (child, sh1) = call ans c sh; (children, sh2) = create_all ans c n sh1 in (child # children, sh2))"

definition commandTestPriority :: "kernel_answers \<Rightarrow> argv \<Rightarrow> 'h process" where
  "commandTestPriority ans argv sh =
     (let usage = (\<lambda>n. do {
        a0 \<leftarrow> arg_at argv 0;
        sh1 \<leftarrow> pf (lit ''Usage: %s <0: small wait, 1: long wait>\<newline>'') [Str a0] sh;
        sysExit n sh1 })
      in if length argv \<noteq> 2 then usage TOO_MANY_ARGUMENTS
         else do {
           a1 \<leftarrow> arg_at argv 1;
           zero \<leftarrow> strcmp a1 (lit ''0'');
           one \<leftarrow> strcmp a1 (lit ''1'');
           if zero \<noteq> 0 \<and> one \<noteq> 0 then usage ILLEGAL_ARGUMENT
           else do {
             let (pids, sh1) = create_all ans (CreateProcess [lit ''commandLoop'', a1] ''endless_loop_print'') TOTAL_PROCESSES sh;
             sh2 \<leftarrow> pf (lit ''\<newline>CHANGING PRIORITIES...\<newline>'') [] sh1;
             let sh3 = fold (\<lambda>(p, q) sh. snd (call ans (ChangePriority p q) sh)) (zip pids prio) sh2;
             sh4 \<leftarrow> pf (lit ''\<newline>BLOCKING...\<newline>'') [] sh3;
             sh5 \<leftarrow> pf (lit ''CHANGING PRIORITIES WHILE BLOCKED...\<newline>'') [] (call_all ans BlockByUser pids sh4);
             sh6 \<leftarrow> pf (lit ''UNBLOCKING...\<newline>'') [] (call_all ans (\<lambda>p. ChangePriority p (prio ! 1)) pids sh5);
             sh7 \<leftarrow> pf (lit ''\<newline>KILLING...\<newline>'') [] (call_all ans Unblock pids sh6);
             sysExit SUCCESS (call_all ans Kill pids sh7) } })"

section \<open>Test of the semaphores\<close>

definition SEM_NAME :: string where "SEM_NAME = ''sem''"

text \<open>
  The arguments of \<open>my_process_inc\<close> and the semaphore it opens: an exit, or the number of iterations, the
  increment and whether the semaphore is used, for the loop of theory \<open>SemTest\<close>.
\<close>

definition my_process_inc :: "kernel_answers \<Rightarrow> argv \<Rightarrow> 'h shell \<Rightarrow> (((int \<times> 'h shell) + (u64 \<times> u64 \<times> bool)) \<times> 'h shell) option" where
  "my_process_inc ans argv sh =
     (if length argv \<noteq> 4 then Some (Inl (MISSING_ARGUMENTS, sh), sh)
      else do {
        n \<leftarrow> satoi (Some (argv ! 1));
        inc \<leftarrow> satoi (Some (argv ! 2));
        use_sem \<leftarrow> satoi (Some (argv ! 3));
        if sint n \<le> 0 \<or> inc = 0 \<or> sint use_sem < 0 then Some (Inl (ILLEGAL_ARGUMENT, sh), sh)
        else if use_sem \<noteq> 0
        then do {
          let (sem, sh1) = call ans (OpenSem SEM_NAME 1) sh;
          if sem < 0
          then do {
            sh2 \<leftarrow> pf (lit ''my_process_inc: ERROR opening semaphore\<newline>'') [] sh1;
            Some (Inl (MISSING_ARGUMENTS, sh2), sh2) }
          else Some (Inr (n, inc, True), sh1) }
        else Some (Inr (n, inc, False), sh) })"

text \<open>The creation of the pairs: the decrementing process before the incrementing one.\<close>

fun create_pairs :: "kernel_answers \<Rightarrow> argv \<Rightarrow> argv \<Rightarrow> nat \<Rightarrow> 'h shell \<Rightarrow> (int \<times> int) list \<times> 'h shell" where
  "create_pairs ans dec inc 0 sh = ([], sh)"
| "create_pairs ans dec inc (Suc n) sh =
     (let (d, sh1) = call ans (CreateProcess dec ''my_process_inc'') sh;
          (i, sh2) = call ans (CreateProcess inc ''my_process_inc'') sh1;
          (ps, sh3) = create_pairs ans dec inc n sh2
      in ((d, i) # ps, sh3))"

text \<open>\<open>final\<close> is the value of \<open>globalForSemTest\<close> when the processes have ended.\<close>

definition commandTestSem :: "kernel_answers \<Rightarrow> u64 \<Rightarrow> argv \<Rightarrow> 'h process" where
  "commandTestSem ans final argv sh =
     (if length argv \<noteq> 4
      then do {
        a0 \<leftarrow> arg_at argv 0;
        sh1 \<leftarrow> pf (lit ''Usage: %s <n> <use_sem> <expected_val>\<newline>'') [Str a0] sh;
        sh2 \<leftarrow> pf (9 # lit ''n: number of iterations for each process.\<newline>'') [] sh1;
        sh3 \<leftarrow> pf (9 # lit ''use_sem: 0 for no semaphores, not 0 to use semaphores.\<newline>'') [] sh2;
        sh4 \<leftarrow> pf (9 # lit ''expected_val: initial value for global variable, it should remain the same at the end of the process.\<newline>'') [] sh3;
        sysExit MISSING_ARGUMENTS sh4 }
      else do {
        value \<leftarrow> satoi (Some (argv ! 3));
        let (sem, sh1) = call ans (CreateSemaphore SEM_NAME 1) sh;
        let (pairs, sh2) = create_pairs ans [lit ''my_process_dec'', argv ! 1, lit ''-1'', argv ! 2]
                             [lit ''my_process_inc'', argv ! 1, lit ''1'', argv ! 2] 2 sh1;
        let sh3 = fold (\<lambda>(d, i) sh. snd (call ans (WaitPid i) (snd (call ans (WaitPid d) sh)))) pairs sh2;
        sh4 \<leftarrow> pf (lit ''Final value: %li\<newline>'') [Num final] sh3;
        sysExit SUCCESS (snd (call ans (DestroySemaphore sem) sh4)) })"

section \<open>Test of the pipes\<close>

definition pipe_words :: "byte list list" where
  "pipe_words = map lit [''0000000'', ''1111111'', ''2222222'', ''3333333'', ''4444444'', ''5555555'', ''6666666'',
     ''7777777'', ''8888888'', ''9999999'']"

definition pipe_bufLen :: nat where "pipe_bufLen = 5 * 10 * 7"

text \<open>The loop that fills the buffer; every word has a terminator behind it.\<close>

partial_function (option) fill_loop :: "byte list \<Rightarrow> nat \<Rightarrow> nat \<Rightarrow> byte list option" where
  [code]: "fill_loop buf i j =
     (if i < pipe_bufLen
      then do {
        (b, n) \<leftarrow> strcpy (drop i buf) (pipe_words ! (j mod length pipe_words));
        fill_loop (take i buf @ b) (i + n) (j + 1) }
      else Some buf)"

text \<open>\<open>buf\<close> is the array of \<open>bufLen\<close> bytes on the stack.\<close>

definition pipeWriter :: "byte list \<Rightarrow> 'h process" where
  "pipeWriter buf sh = do {
     b \<leftarrow> fill_loop buf 0 0;
     sh1 \<leftarrow> pf (lit ''%s'') [Str b] sh;
     sysExit SUCCESS sh1 }"

text \<open>\<open>sysRead(pipes.read, buf, 40)\<close>: as many of the bytes there are, at most 40.\<close>

definition sysRead40 :: "uio \<Rightarrow> (byte list option \<times> uio) option" where
  "sysRead40 s =
     (if uinOpen s
      then (if uin s = [] then None else Some (Some (take 40 (uin s)), s\<lparr>uin := drop 40 (uin s)\<rparr>))
      else Some (None, s))"

partial_function (option) reader_loop :: "kernel_answers \<Rightarrow> byte list \<Rightarrow> int \<Rightarrow> int \<Rightarrow> 'h process" where
  [code]: "reader_loop ans a0 child tot sh = do {
     (got, s) \<leftarrow> sysRead40 (io sh);
     case got of
       None \<Rightarrow> do {
         sh1 \<leftarrow> pf (lit ''%s - %u: pipe not found, exiting...\<newline>'') [Str a0, i32 child] (sh\<lparr>io := s\<rparr>);
         sysExit PROCESS_FAILURE sh1 }
     | Some b \<Rightarrow> do {
         let i = int (length b);
         sh1 \<leftarrow> pf (lit ''%s - %u - Current read: %li - Total read: %li\<newline>'')
           [Str a0, i32 child, Num (word_of_int i), Num (word_of_int (tot + i))] (sh\<lparr>io := s\<rparr>);
         sh2 \<leftarrow> pf (lit ''%s\<newline>'') [Str (b @ [0])] sh1;
         let sh3 = snd (call ans (Sleep 500) sh2);
         if last b \<noteq> EOF_char then reader_loop ans a0 child (tot + i) sh3
         else do {
           sh4 \<leftarrow> pf (lit ''%s - %u: Found EOF\<newline>'') [Str a0, i32 child] sh3;
           sysExit SUCCESS sh4 } } }"

definition pipeReader :: "kernel_answers \<Rightarrow> argv \<Rightarrow> 'h process" where
  "pipeReader ans argv sh = do {
     let sh1 = snd (call ans GetPipes sh);
     let (child, sh2) = call ans GetPid sh1;
     a0 \<leftarrow> arg_at argv 0;
     reader_loop ans a0 child 0 sh2 }"

text \<open>The numbers 0, 1 and 2 are \<open>stdin\<close>, \<open>stdout\<close> and \<open>stderr\<close> of the process.\<close>

definition commandTestPipes :: "kernel_answers \<Rightarrow> int \<times> int \<times> int \<Rightarrow> argv \<Rightarrow> 'h process" where
  "commandTestPipes ans std argv sh = do {
     let (stdin, stdout, stderr) = std;
     a0 \<leftarrow> arg_at argv 0;
     let (child, sh1) = call ans GetPid sh;
     let (pipe, sh2) = call ans PipeInit sh1;
     sh3 \<leftarrow> pf (lit ''%s - %u - Using pipe: %d\<newline>'') [Str a0, i32 child, i32 pipe] sh2;
     let (writer, sh4) = call ans (CreateProcessWithPipeSwap [lit ''pipeWriter''] ''pipeWriter'' pipe stdin stderr) sh3;
     let (reader, sh5) = call ans (CreateProcessWithPipeSwap [lit ''pipeReader''] ''pipeReader'' stdout pipe stderr) sh4;
     let sh6 = snd (call ans (WaitPid writer) sh5);
     let sh7 = snd (call ans (WritePipe pipe [EOF_char]) sh6);
     let sh8 = snd (call ans (WaitPid reader) sh7);
     sh9 \<leftarrow> pf (lit ''%s - %u: Destroying pipe...\<newline>'') [Str a0, i32 child] sh8;
     let (ok, sh10) = call ans (DestroyPipe pipe) (snd (call ans (Sleep 1000) sh9));
     sh11 \<leftarrow> (if ok = 0 then pf (lit ''%s - %u - Error destroying pipe: %d\<newline>'') [Str a0, i32 child, i32 pipe] sh10 else Some sh10);
     sysExit SUCCESS sh11 }"

section \<open>Keys and exceptions\<close>

text \<open>\<open>mods n\<close> are the modifiers of the keyboard at the \<open>n\<close>-th key: \<open>ctrl\<close>, both shifts, the caps lock and \<open>alt\<close>.\<close>

partial_function (option) key_info_loop ::
  "(nat \<Rightarrow> bool \<times> bool \<times> bool \<times> bool \<times> bool) \<Rightarrow> nat \<Rightarrow> byte \<Rightarrow> 'h process" where
  [code]: "key_info_loop mods n old sh = do {
     (x, go, s) \<leftarrow> getKey old (io sh);
     if go
     then do {
       (_, s1) \<leftarrow> (case mods n of (ctrl, lshift, rshift, caps, alt) \<Rightarrow> printKey x ctrl lshift rshift caps alt s);
       key_info_loop mods (n + 1) x (sh\<lparr>io := s1\<rparr>) }
     else sysExit SUCCESS (sh\<lparr>io := s\<rparr>) }"

definition commandGetKeyInfo :: "(nat \<Rightarrow> bool \<times> bool \<times> bool \<times> bool \<times> bool) \<Rightarrow> byte \<Rightarrow> 'h process" where
  "commandGetKeyInfo mods uninitialised sh = key_info_loop mods 0 uninitialised sh"

text \<open>The division by 0 is the divide error, which ends the process.\<close>

definition quotient :: "u32 \<Rightarrow> u32 \<Rightarrow> u32 option" where
  "quotient a b = (if b = 0 then None else Some (a div b))"

definition commandZeroDivisionError :: "kernel_answers \<Rightarrow> 'h process" where
  "commandZeroDivisionError ans sh = do {
     let (t, sh1) = call ans GetTicks sh;
     let (r, s) = rand (setSrand (word_of_int t) (io sh1));
     q \<leftarrow> quotient r 0;
     sysExit (uint q) (sh1\<lparr>io := s\<rparr>) }"

end
