(* ===== verification/UTestProps.thy ===== *)
theory UTestProps
  imports UTests
begin

text \<open>
  What the test programs of user land do: the writer of the pipe test runs past its buffer, the process
  test never finishes its creations with more than 255 processes, and it reports success only when it has
  killed every process it created; the random numbers below a bound are below it.
\<close>

section \<open>The pipe test\<close>

lemma pipe_word:
  obtains w where "pipe_words ! (j mod length pipe_words) = w @ [0]" "length w = 7" "0 \<notin> set w"
proof -
  have "\<forall>x \<in> set pipe_words. last x = 0 \<and> length (butlast x) = 7 \<and> 0 \<notin> set (butlast x) \<and> x \<noteq> []"
    by (simp add: pipe_words_def lit_def)
  moreover have "pipe_words ! (j mod length pipe_words) \<in> set pipe_words"
    by (rule nth_mem) (simp add: pipe_words_def)
  ultimately show ?thesis using that by (metis append_butlast_last_id)
qed

lemma fill_loop_overruns: "length buf = 350 \<Longrightarrow> j \<le> 49 \<Longrightarrow> fill_loop buf (7 * j) j = None"
proof (induction "49 - j" arbitrary: buf j)
  case 0
  obtain w where w: "pipe_words ! (j mod length pipe_words) = w @ [0]" "length w = 7" "0 \<notin> set w" by (rule pipe_word)
  have c: "cstr (w @ [0]) = w" using cstr_append_zero [OF w(3)] by simp
  have "strcpy (drop (7 * j) buf) (w @ [0]) = None"
    unfolding strcpy_def by (rule strcpy_from_faults) (use 0 c w(2) in simp)
  moreover have "j = 49" using 0 by simp
  ultimately show ?case using w(1) by (subst fill_loop.simps) (simp add: pipe_bufLen_def)
next
  case (Suc n)
  then have j: "j < 49" by simp
  obtain w where w: "pipe_words ! (j mod length pipe_words) = w @ [0]" "length w = 7" "0 \<notin> set w" by (rule pipe_word)
  have c: "cstr (w @ [0]) = w" using cstr_append_zero [OF w(3)] by simp
  let ?b = "w @ 0 # drop 8 (drop (7 * j) buf)"
  have "strcpy (drop (7 * j) buf) (w @ [0]) = Some (?b, 7)"
    using strcpy_from_returns [of "w @ [0]" 0 "drop (7 * j) buf"] Suc.prems j w c
    by (simp add: strcpy_def terminated_append_zero)
  moreover have "length (take (7 * j) buf @ ?b) = 350" using Suc.prems j w(2) by simp
  then have "fill_loop (take (7 * j) buf @ ?b) (7 * Suc j) (Suc j) = None"
    using Suc.hyps(1) [of "Suc j" "take (7 * j) buf @ ?b"] Suc.hyps(2) j by simp
  ultimately show ?case using j by (subst fill_loop.simps) (simp add: w(1) pipe_bufLen_def add.commute)
qed

text \<open>
  The writer of the pipe test always writes the terminator of its last word one byte past the end of
  its buffer, whatever the stack holds.
\<close>

theorem pipe_writer_overruns:
  assumes "length buf = pipe_bufLen"
  shows "pipeWriter buf sh = None"
  using fill_loop_overruns [of buf 0] assms by (simp add: pipeWriter_def pipe_bufLen_def)

section \<open>The process test\<close>

lemma unat_ucast_8_64: "unat (ucast b :: u64) = unat b" for b :: u8
  by transfer simp

lemma create_loop_wraps:
  assumes "create_loop ans a mx rq s = Some r" "255 < mx"
  shows "\<exists>sh. r = Inl (PROCESS_FAILURE, sh)"
proof -
  have "255 < mx \<longrightarrow> (\<exists>sh. r = Inl (PROCESS_FAILURE, sh))"
  proof (rule create_loop.raw_induct [of "\<lambda>ans a mx rq s r. 255 < mx \<longrightarrow> (\<exists>sh. r = Inl (PROCESS_FAILURE, sh))", OF _ assms(1)],
      intro impI)
    fix loop ans a and mx :: u64 and rq :: u8 and s r
    assume IH: "\<And>ans a mx rq s r. loop ans a mx rq s = Some r \<Longrightarrow> 255 < mx \<longrightarrow> (\<exists>sh. r = Inl (PROCESS_FAILURE, sh))"
      and body: "(if ucast rq < mx
      then do {
        let (child, sh1) = call ans (CreateProcess [lit ''endless_loop''] ''endless_loop'') (proc s);
        x \<leftarrow> rq_at rq s;
        sh2 \<leftarrow> say a (lit ''Process (PID=%d) was created successfully\<newline>'') child sh1;
        if child = - 1
        then do { sh3 \<leftarrow> pf (lit ''test_processes: ERROR creating process\<newline>'') [] sh2; tp_exit PROCESS_FAILURE sh3 }
        else loop ans a mx (rq + 1) ((set_rq rq (child, RQ_RUNNING) s)\<lparr>alive := alive s + 1, proc := sh2\<rparr>) }
      else Some (Inr s)) = Some r" and mx: "255 < mx"
    have "ucast rq < mx"
    proof -
      have "unat (ucast rq :: u64) = unat rq" by (rule unat_ucast_8_64)
      moreover have "unat rq < 2 ^ 8" using unsigned_less [of rq, where 'a = nat] by simp
      ultimately have "unat (ucast rq :: u64) \<le> 255" by simp
      then show ?thesis using mx by (simp add: word_less_nat_alt)
    qed
    then show "\<exists>sh. r = Inl (PROCESS_FAILURE, sh)"
      using body IH mx by (auto simp: tp_exit_def Let_def bind_eq_Some_conv split: prod.splits if_splits)
  qed
  then show ?thesis using assms(2) by blast
qed

text \<open>
  With more than 255 processes the creation never finishes, since its counter has 8 bits: if it
  ends at all, then because a process could not be created.
\<close>

theorem create_loop_never_finishes:
  assumes "255 < max_processes"
  shows "case create_loop ans act max_processes 0 s of None \<Rightarrow> True | Some r \<Rightarrow> \<exists>sh. r = Inl (PROCESS_FAILURE, sh)"
  using create_loop_wraps [OF _ assms] by (auto split: option.split)

theorem create_loop_never_finishes_witness:
  "\<forall>ans act s. case create_loop ans act 256 0 s of None \<Rightarrow> True | Some r \<Rightarrow> \<exists>sh. r = Inl (PROCESS_FAILURE, sh)"
  by (intro allI create_loop_never_finishes) simp

theorem pipe_writer_overruns_witness: "\<forall>sh. pipeWriter (replicate 350 0) sh = None"
  by (intro allI pipe_writer_overruns) (simp add: pipe_bufLen_def)

lemma pf_calls: "pf fmt args sh = Some sh' \<Longrightarrow> calls sh' = calls sh"
  by (auto simp: pf_def bind_eq_Some_conv)

lemma say_calls: "say a fmt n sh = Some sh' \<Longrightarrow> calls sh' = calls sh"
  by (auto simp: say_def pf_calls split: if_splits)

lemma call_calls [simp]: "calls (snd (call ans c sh)) = calls sh @ [c]"
  by (simp add: call_def Let_def)

text \<open>The entries: how many are not killed, and that the kernel was asked to kill the others.\<close>

definition not_killed :: "p_rq list \<Rightarrow> nat" where
  "not_killed xs = length (filter (\<lambda>x. snd x \<noteq> RQ_KILLED) xs)"

definition tp_inv :: "nat \<Rightarrow> 'h test_processes \<Rightarrow> bool" where
  "tp_inv n s \<longleftrightarrow> length (p_rqs s) = n \<and> alive s = of_nat (not_killed (p_rqs s)) \<and>
     (\<forall>x \<in> set (p_rqs s). snd x = RQ_KILLED \<longrightarrow> Kill (fst x) \<in> set (calls (proc s)))"

lemma not_killed_update:
  assumes "i < length xs"
  shows "not_killed (xs[i := x]) + (if snd (xs ! i) \<noteq> RQ_KILLED then 1 else 0) = not_killed xs + (if snd x \<noteq> RQ_KILLED then 1 else 0)"
proof -
  have "not_killed xs = not_killed (take i xs @ xs ! i # drop (Suc i) xs)" by (rule arg_cong [OF id_take_nth_drop [OF assms]])
  then have "not_killed xs = not_killed (take i xs) + (if snd (xs ! i) \<noteq> RQ_KILLED then 1 else 0) + not_killed (drop (Suc i) xs)"
    unfolding not_killed_def by (simp only: filter.simps filter_append length_append) simp
  moreover have "not_killed (xs[i := x]) = not_killed (take i xs) + (if snd x \<noteq> RQ_KILLED then 1 else 0) + not_killed (drop (Suc i) xs)"
    using assms by (simp add: upd_conv_take_nth_drop not_killed_def)
  ultimately show ?thesis by simp
qed

text \<open>An entry changes and the calls grow.\<close>

lemma tp_inv_update:
  assumes "tp_inv n s" "rq_at rq s = Some (child, st)" "set (calls (proc s)) \<subseteq> set (calls sh)"
    and "st' = RQ_KILLED \<Longrightarrow> Kill child \<in> set (calls sh)"
    and "a + (if st \<noteq> RQ_KILLED then 1 else 0) = alive s + (if st' \<noteq> RQ_KILLED then 1 else 0)"
  shows "tp_inv n ((set_rq rq (child, st') s)\<lparr>alive := a, proc := sh\<rparr>)"
proof -
  have i: "unat rq < length (p_rqs s)" "p_rqs s ! unat rq = (child, st)" using assms(2) by (auto simp: rq_at_def split: if_splits)
  have c: "not_killed ((p_rqs s)[unat rq := (child, st')]) + (if st \<noteq> RQ_KILLED then 1 else 0) =
    not_killed (p_rqs s) + (if st' \<noteq> RQ_KILLED then 1 else 0)"
    using not_killed_update [OF i(1), of "(child, st')"] i(2) by simp
  let ?d = "if st \<noteq> RQ_KILLED then 1 else 0 :: u8" and ?e = "if st' \<noteq> RQ_KILLED then 1 else 0 :: u8"
  have "of_nat (not_killed ((p_rqs s)[unat rq := (child, st')])) + ?d = of_nat (not_killed (p_rqs s)) + ?e"
    using arg_cong [OF c, of "of_nat :: nat \<Rightarrow> u8"] by (simp split: if_splits)
  then have "a + ?d = of_nat (not_killed ((p_rqs s)[unat rq := (child, st')])) + ?d"
    using assms(5) assms(1) unfolding tp_inv_def by simp
  then have "a = of_nat (not_killed ((p_rqs s)[unat rq := (child, st')]))" by (rule add_right_imp_eq)
  moreover have "x \<in> set ((p_rqs s)[unat rq := (child, st')]) \<Longrightarrow> x = (child, st') \<or> x \<in> set (p_rqs s)" for x
    using set_update_subset_insert by fastforce
  ultimately show ?thesis using assms(1,3,4) by (fastforce simp: tp_inv_def set_rq_def)
qed

lemma call_pair: "call ans c sh = (r, sh1) \<Longrightarrow> calls sh1 = calls sh @ [c]"
  using call_calls [of ans c sh] by simp

lemma tp_inv_rng [simp]: "tp_inv n (s\<lparr>numbers := r\<rparr>) = tp_inv n s" "rq_at rq (s\<lparr>numbers := r\<rparr>) = rq_at rq s"
  by (simp_all add: tp_inv_def rq_at_def)

lemma tp_inv_proc: "tp_inv n s \<Longrightarrow> set (calls (proc s)) \<subseteq> set (calls sh) \<Longrightarrow> tp_inv n (s\<lparr>proc := sh\<rparr>)"
  by (auto simp: tp_inv_def)

lemma act_on_inv:
  assumes "act_on ans act rq action s = Some (Inr s')" "tp_inv n s"
  shows "tp_inv n s'"
proof -
  obtain child st where x: "rq_at rq s = Some (child, st)" using assms(1) by (auto simp: act_on_def bind_eq_Some_conv)
  obtain k1 sh1 where k1: "call ans (Kill child) (proc s) = (k1, sh1)" by fastforce
  obtain k2 sh2 where k2: "call ans (BlockByUser child) (proc s) = (k2, sh2)" by fastforce
  consider (kill) "action = 0" "st = RQ_RUNNING \<or> st = RQ_BLOCKED"
    | (block) "\<not> (action = 0 \<and> (st = RQ_RUNNING \<or> st = RQ_BLOCKED))" "action = 1" "st = RQ_RUNNING"
    | (none) "\<not> (action = 0 \<and> (st = RQ_RUNNING \<or> st = RQ_BLOCKED))" "\<not> (action = 1 \<and> st = RQ_RUNNING)" by blast
  then show ?thesis
  proof cases
    case kill
    obtain sh where sh: "say act (lit ''Process (PID=%d) was killed successfully\<newline>'') child sh1 = Some sh"
      "s' = (set_rq rq (child, RQ_KILLED) s)\<lparr>alive := alive s - 1, proc := sh\<rparr>"
      using assms(1) kill by (auto simp: act_on_def x k1 tp_exit_def bind_eq_Some_conv split: if_splits)
    have "calls sh = calls (proc s) @ [Kill child]" using call_pair [OF k1] say_calls [OF sh(1)] by simp
    then have "set (calls (proc s)) \<subseteq> set (calls sh)" "Kill child \<in> set (calls sh)" by auto
    then show ?thesis unfolding sh(2) using tp_inv_update [OF assms(2) x, of sh RQ_KILLED "alive s - 1"] kill by auto
  next
    case block
    obtain sh where sh: "say act (lit ''Process (PID=%d) was blocked successfully\<newline>'') child sh2 = Some sh"
      "s' = (set_rq rq (child, RQ_BLOCKED) s)\<lparr>proc := sh\<rparr>"
      using assms(1) block by (auto simp: act_on_def x k2 tp_exit_def bind_eq_Some_conv split: if_splits)
    have "calls sh = calls (proc s) @ [BlockByUser child]" using call_pair [OF k2] say_calls [OF sh(1)] by simp
    then have "set (calls (proc s)) \<subseteq> set (calls sh)" by auto
    then show ?thesis
      unfolding sh(2) using tp_inv_update [OF assms(2) x, of sh RQ_BLOCKED "alive s"] block by (simp add: set_rq_def)
  next
    case none
    have "s' = s" using assms(1) none by (simp add: act_on_def x split: if_splits)
    then show ?thesis using assms(2) by simp
  qed
qed

lemma unblock_one_inv:
  assumes "unblock_one ans act rq s = Some (Inr s')" "tp_inv n s"
  shows "tp_inv n s'"
proof -
  obtain child st where x: "rq_at rq s = Some (child, st)" using assms(1) by (auto simp: unblock_one_def bind_eq_Some_conv)
  obtain u r where g: "GetUniform 100 (numbers s) = (u, r)" by fastforce
  obtain k1 sh1 where k1: "call ans (Unblock child) (proc s) = (k1, sh1)" by fastforce
  consider (unblock) "st = RQ_BLOCKED" "u mod 2 \<noteq> 0" | (draw) "st = RQ_BLOCKED" "u mod 2 = 0" | (none) "st \<noteq> RQ_BLOCKED" by argo
  then show ?thesis
  proof cases
    case unblock
    obtain sh where sh: "say act (lit ''Process (PID=%d) was unblocked successfully\<newline>'') child sh1 = Some sh"
      "s' = (set_rq rq (child, RQ_RUNNING) s)\<lparr>numbers := r, proc := sh\<rparr>"
      using assms(1) unblock by (auto simp: unblock_one_def x g k1 tp_exit_def bind_eq_Some_conv split: if_splits)
    have "calls sh = calls (proc s) @ [Unblock child]" using call_pair [OF k1] say_calls [OF sh(1)] by simp
    then have "set (calls (proc s)) \<subseteq> set (calls sh)" by auto
    then have "tp_inv n ((set_rq rq (child, RQ_RUNNING) s)\<lparr>alive := alive s, proc := sh\<rparr>)"
      using tp_inv_update [OF assms(2) x, of sh RQ_RUNNING "alive s"] unblock(1) by simp
    then show ?thesis unfolding sh(2) by (simp add: tp_inv_def set_rq_def)
  next
    case draw
    have "s' = s\<lparr>numbers := r\<rparr>" using assms(1) draw by (simp add: unblock_one_def x g)
    then show ?thesis using assms(2) by simp
  next
    case none
    have "s' = s" using assms(1) none by (simp add: unblock_one_def x)
    then show ?thesis using assms(2) by simp
  qed
qed

text \<open>A loop over the entries keeps what its body keeps.\<close>

lemma action_loop_inv:
  assumes "action_loop ans act mx rq s = Some r" "tp_inv n s"
  shows "\<forall>s'. r = Inr s' \<longrightarrow> tp_inv n s'"
proof -
  have "tp_inv n s \<longrightarrow> (\<forall>s'. r = Inr s' \<longrightarrow> tp_inv n s')"
  proof (rule action_loop.raw_induct [of "\<lambda>ans act mx rq s r. tp_inv n s \<longrightarrow> (\<forall>s'. r = Inr s' \<longrightarrow> tp_inv n s')", OF _ assms(1)], goal_cases)
    case (1 loop ans act mx rq s r)
    show ?case
    proof (intro impI)
      assume s: "tp_inv n s"
      show "\<forall>s'. r = Inr s' \<longrightarrow> tp_inv n s'"
      proof (cases "ucast rq < mx")
        case True
        obtain u g where g: "GetUniform 100 (numbers s) = (u, g)" by fastforce
        obtain res where res: "act_on ans act rq (u mod 2) (s\<lparr>numbers := g\<rparr>) = Some res"
          "(case res of Inl e \<Rightarrow> Some (Inl e) | Inr s1 \<Rightarrow> loop ans act mx (rq + 1) s1) = Some r"
          using 1(2) True by (auto simp: g bind_eq_Some_conv)
        show ?thesis
        proof (cases res)
          case (Inl e)
          then show ?thesis using res(2) by auto
        next
          case (Inr s1)
          have "tp_inv n s1" using act_on_inv [of ans act rq "u mod 2" "s\<lparr>numbers := g\<rparr>" s1 n] res(1) Inr s by simp
          then show ?thesis using 1(1) res(2) Inr by auto
        qed
      next
        case False
        then show ?thesis using 1(2) s by auto
      qed
    qed
  qed
  then show ?thesis using assms(2) by blast
qed

lemma unblock_loop_inv:
  assumes "unblock_loop ans act mx rq s = Some r" "tp_inv n s"
  shows "\<forall>s'. r = Inr s' \<longrightarrow> tp_inv n s'"
proof -
  have "tp_inv n s \<longrightarrow> (\<forall>s'. r = Inr s' \<longrightarrow> tp_inv n s')"
  proof (rule unblock_loop.raw_induct [of "\<lambda>ans act mx rq s r. tp_inv n s \<longrightarrow> (\<forall>s'. r = Inr s' \<longrightarrow> tp_inv n s')", OF _ assms(1)], goal_cases)
    case (1 loop ans act mx rq s r)
    show ?case
    proof (intro impI)
      assume s: "tp_inv n s"
      show "\<forall>s'. r = Inr s' \<longrightarrow> tp_inv n s'"
      proof (cases "ucast rq < mx")
        case True
        obtain res where res: "unblock_one ans act rq s = Some res"
          "(case res of Inl e \<Rightarrow> Some (Inl e) | Inr s1 \<Rightarrow> loop ans act mx (rq + 1) s1) = Some r"
          using 1(2) True by (auto simp: bind_eq_Some_conv)
        show ?thesis
        proof (cases res)
          case (Inl e)
          then show ?thesis using res(2) by auto
        next
          case (Inr s1)
          have "tp_inv n s1" by (rule unblock_one_inv) (use res(1) Inr s in simp_all)
          then show ?thesis using 1(1) res(2) Inr by auto
        qed
      next
        case False
        then show ?thesis using 1(2) s by auto
      qed
    qed
  qed
  then show ?thesis using assms(2) by blast
qed

lemma create_loop_inv:
  assumes "create_loop ans act mx rq s = Some r" "unat mx = n" "n \<le> 255"
    and "length (p_rqs s) = n" "unat rq \<le> n" "alive s = rq" "\<forall>i < unat rq. snd (p_rqs s ! i) = RQ_RUNNING"
  shows "\<forall>s'. r = Inr s' \<longrightarrow> tp_inv n s'"
proof -
  let ?C = "\<lambda>rq s. length (p_rqs s) = n \<and> unat rq \<le> n \<and> alive s = rq \<and> (\<forall>i < unat rq. snd (p_rqs s ! i) = RQ_RUNNING)"
  have "unat mx = n \<and> ?C rq s \<longrightarrow> (\<forall>s'. r = Inr s' \<longrightarrow> tp_inv n s')"
  proof (rule create_loop.raw_induct [of "\<lambda>ans act mx rq s r. unat mx = n \<and> ?C rq s \<longrightarrow> (\<forall>s'. r = Inr s' \<longrightarrow> tp_inv n s')", OF _ assms(1)], goal_cases)
    case (1 loop ans act mx rq s r)
    show ?case
    proof (intro impI, elim conjE)
      assume mx: "unat mx = n" and s: "length (p_rqs s) = n" "unat rq \<le> n" "alive s = rq" "\<forall>i < unat rq. snd (p_rqs s ! i) = RQ_RUNNING"
      have lt: "ucast rq < mx \<longleftrightarrow> unat rq < n" by (simp add: word_less_nat_alt unat_ucast_8_64 mx)
      show "\<forall>s'. r = Inr s' \<longrightarrow> tp_inv n s'"
      proof (cases "unat rq < n")
        case True
        obtain child sh1 where c: "call ans (CreateProcess [lit ''endless_loop''] ''endless_loop'') (proc s) = (child, sh1)" by fastforce
        obtain sh2 where sh2: "say act (lit ''Process (PID=%d) was created successfully\<newline>'') child sh1 = Some sh2"
          using 1(2) True lt by (auto simp: c bind_eq_Some_conv)
        show ?thesis
        proof (cases "child = - 1")
          case True
          then show ?thesis using 1(2) \<open>unat rq < n\<close> lt by (auto simp: c sh2 tp_exit_def bind_eq_Some_conv)
        next
          case False
          let ?s = "(set_rq rq (child, RQ_RUNNING) s)\<lparr>alive := alive s + 1, proc := sh2\<rparr>"
          have r: "loop ans act mx (rq + 1) ?s = Some r"
            using 1(2) \<open>unat rq < n\<close> lt False by (auto simp: c sh2 bind_eq_Some_conv)
          have "unat (rq + 1) = Suc (unat rq)" using True assms(3) by (simp add: unat_word_ariths(1))
          then have "?C (rq + 1) ?s" using s True by (auto simp: set_rq_def nth_list_update less_Suc_eq)
          then show ?thesis using 1(1) [OF r] mx by blast
        qed
      next
        case False
        then have n: "unat rq = n" using s(2) by simp
        have run: "snd x = RQ_RUNNING" if "x \<in> set (p_rqs s)" for x using s(1,4) n that by (metis in_set_conv_nth)
        then have "filter (\<lambda>x. snd x \<noteq> RQ_KILLED) (p_rqs s) = p_rqs s" by (intro filter_True) simp
        then have "not_killed (p_rqs s) = n" using s(1) by (simp add: not_killed_def)
        moreover have "rq = of_nat n" using n by (metis of_nat_unat ucast_id)
        ultimately have "tp_inv n s" using s(1,3) run by (simp add: tp_inv_def)
        then show ?thesis using 1(2) False lt by auto
      qed
    qed
  qed
  then show ?thesis using assms by blast
qed

lemma rows_loop_calls: "rows_loop rows sh = Some sh' \<Longrightarrow> calls sh' = calls sh"
proof (induction rows arbitrary: sh)
  case (Cons p ps)
  then obtain sh1 fmt args where sh1: "pf fmt args sh = Some sh1" "rows_loop ps sh1 = Some sh'" by (auto simp: bind_eq_Some_conv)
  show ?case using Cons.IH [OF sh1(2)] pf_calls [OF sh1(1)] by simp
qed simp

lemma show_step_calls: "show_step ans rows sh = Some sh' \<Longrightarrow> set (calls sh) \<subseteq> set (calls sh')"
proof -
  assume a: "show_step ans rows sh = Some sh'"
  obtain list sh1 where c: "call ans PCBList sh = (list, sh1)" by fastforce
  obtain sh2 where sh2: "printPCBList ans list rows sh1 = Some sh2" "calls sh' = calls sh2 @ [Free list]"
    using a by (auto simp: show_step_def c bind_eq_Some_conv Let_def)
  obtain fmt args sh3 sh4 where sh3: "pf fmt args sh1 = Some sh3" "rows_loop rows sh3 = Some sh4" "calls sh2 = calls sh4 @ [Free list]"
    using sh2(1) by (auto simp: printPCBList_def bind_eq_Some_conv)
  show ?thesis using sh2(2) sh3(3) rows_loop_calls [OF sh3(2)] pf_calls [OF sh3(1)] call_pair [OF c] by auto
qed

lemma alive_loop_inv:
  assumes "alive_loop ans act printPs rows mx s = Some r" "tp_inv n s"
  shows "\<forall>s'. r = Inr s' \<longrightarrow> tp_inv n s' \<and> alive s' = 0"
proof -
  have "tp_inv n s \<longrightarrow> (\<forall>s'. r = Inr s' \<longrightarrow> tp_inv n s' \<and> alive s' = 0)"
  proof (rule alive_loop.raw_induct [of "\<lambda>ans act printPs rows mx s r. tp_inv n s \<longrightarrow> (\<forall>s'. r = Inr s' \<longrightarrow> tp_inv n s' \<and> alive s' = 0)",
        OF _ assms(1)], goal_cases)
    case (1 loop ans act printPs rows mx s r)
    show ?case
    proof (intro impI)
      assume s: "tp_inv n s"
      show "\<forall>s'. r = Inr s' \<longrightarrow> tp_inv n s' \<and> alive s' = 0"
      proof (cases "alive s > 0")
        case True
        obtain res1 where res1: "action_loop ans act mx 0 s = Some res1" using 1(2) True by (auto simp: bind_eq_Some_conv)
        show ?thesis
        proof (cases res1)
          case (Inl e)
          then show ?thesis using 1(2) True res1 by auto
        next
          case (Inr s1)
          have s1: "tp_inv n s1" using action_loop_inv [OF res1 s] Inr by blast
          obtain res2 where res2: "unblock_loop ans act mx 0 s1 = Some res2" using 1(2) True res1 Inr by (auto simp: bind_eq_Some_conv)
          show ?thesis
          proof (cases res2)
            case (Inl e)
            then show ?thesis using 1(2) True res1 \<open>res1 = Inr s1\<close> res2 by auto
          next
            case (Inr s2)
            have s2: "tp_inv n s2" using unblock_loop_inv [OF res2 s1] Inr by blast
            obtain sh where sh: "(if printPs then show_step ans rows (proc s2) else Some (proc s2)) = Some sh"
              "loop ans act printPs rows mx (s2\<lparr>proc := sh\<rparr>) = Some r"
              using 1(2) True res1 \<open>res1 = Inr s1\<close> res2 Inr by (auto simp: bind_eq_Some_conv)
            have "set (calls (proc s2)) \<subseteq> set (calls sh)" using sh(1) show_step_calls [of ans rows "proc s2" sh] by (simp split: if_splits)
            then have "tp_inv n (s2\<lparr>proc := sh\<rparr>)" by (rule tp_inv_proc [OF s2])
            then show ?thesis using 1(1) [OF sh(2)] by blast
          qed
        qed
      next
        case False
        then have "alive s = 0" by (simp add: word_gt_0)
        then show ?thesis using 1(2) s False by auto
      qed
    qed
  qed
  then show ?thesis using assms(2) by blast
qed

lemma kills_all:
  assumes "create_loop ans act max_processes 0 s = Some (Inr s1)" "alive_loop ans act printPs rows max_processes s1 = Some (Inr s2)"
    and "unat max_processes = length (p_rqs s)" "unat max_processes \<le> 255" "alive s = 0"
  shows "\<forall>x \<in> set (p_rqs s2). snd x = RQ_KILLED \<and> Kill (fst x) \<in> set (calls (proc s2))"
proof -
  have "tp_inv (unat max_processes) s1"
    using create_loop_inv [OF assms(1) refl assms(4)] assms(3,5) by simp
  then have s2: "tp_inv (unat max_processes) s2" "alive s2 = 0" using alive_loop_inv [OF assms(2)] by blast+
  have "not_killed (p_rqs s2) \<le> 255"
    using s2(1) assms(4) by (auto simp: tp_inv_def not_killed_def intro: order_trans [OF length_filter_le])
  moreover have "(of_nat (not_killed (p_rqs s2)) :: u8) = 0" using s2 by (simp add: tp_inv_def)
  ultimately have "not_killed (p_rqs s2) = 0"
    using unat_of_nat [of "not_killed (p_rqs s2)", where 'a = 8] by simp
  then have "\<forall>x \<in> set (p_rqs s2). snd x = RQ_KILLED" by (simp add: not_killed_def filter_empty_conv)
  then show ?thesis using s2(1) by (simp add: tp_inv_def)
qed

text \<open>
  With at most 255 processes, the process test comes to its report of success only when all of them
  are marked as killed and the kernel has been asked to kill each one, whatever the kernel answers and
  whatever numbers are drawn.
\<close>

theorem test_kills_all:
  assumes "unat max_processes = length (p_rqs s)" "unat max_processes \<le> 255" "alive s = 0"
  shows "case create_loop ans act max_processes 0 s of
      Some (Inr s1) \<Rightarrow>
        (case alive_loop ans act printPs rows max_processes s1 of
           Some (Inr s2) \<Rightarrow> \<forall>x \<in> set (p_rqs s2). snd x = RQ_KILLED \<and> Kill (fst x) \<in> set (calls (proc s2))
         | _ \<Rightarrow> True)
    | _ \<Rightarrow> True"
  using kills_all [OF _ _ assms] by (auto split: option.split sum.split)

theorem test_kills_all_witness:
  "\<forall>ans act printPs rows sh.
    case create_loop ans act 3 0 \<lparr>p_rqs = replicate 3 (0, RQ_KILLED), alive = 0, numbers = rng_init, proc = sh\<rparr> of
      Some (Inr s1) \<Rightarrow>
        (case alive_loop ans act printPs rows 3 s1 of
           Some (Inr s2) \<Rightarrow> \<forall>x \<in> set (p_rqs s2). snd x = RQ_KILLED \<and> Kill (fst x) \<in> set (calls (proc s2))
         | _ \<Rightarrow> True)
    | _ \<Rightarrow> True"
  by (intro allI test_kills_all) simp_all

section \<open>The random numbers\<close>

lemma bits_of_bounds: "0 < a \<Longrightarrow> 2 ^ nat (bits_of a - 1) \<le> a \<and> a < 2 ^ nat (bits_of a) \<and> 1 \<le> bits_of a"
proof (induction a rule: bits_of.induct)
  case (1 n)
  show ?case
  proof (cases "n div 2 = 0")
    case True
    then have "n = 1" using 1(2) by simp
    then show ?thesis by (simp add: bits_of.simps [of 1] bits_of.simps [of 0])
  next
    case False
    then have d: "0 < n div 2" using 1(2) by simp
    have ih: "2 ^ nat (bits_of (n div 2) - 1) \<le> n div 2" "n div 2 < 2 ^ nat (bits_of (n div 2))" "1 \<le> bits_of (n div 2)"
      using 1(1) [OF _ d] 1(2) by auto
    have b: "bits_of n = 1 + bits_of (n div 2)" using 1(2) by (simp add: bits_of.simps [of n])
    have e: "nat (bits_of (n div 2)) = Suc (nat (bits_of (n div 2) - 1))" using ih(3) by simp
    have "2 * (n div 2) \<le> n" "n < 2 * (n div 2) + 2" by presburger+
    moreover have "2 ^ nat (bits_of n - 1) = 2 * (2 ^ nat (bits_of (n div 2) - 1) :: int)" using b e by simp
    moreover have "2 ^ nat (bits_of n) = 2 * (2 ^ nat (bits_of (n div 2)) :: int)" using b ih(3) by (simp add: nat_add_distrib)
    ultimately show ?thesis using ih b by linarith
  qed
qed

lemma round_even_bound: "of_int (round_even x) \<le> x + 1 / 2"
proof -
  have "of_int \<lfloor>x\<rfloor> \<le> x" by (rule of_int_floor_le)
  moreover have "round_even x = \<lfloor>x\<rfloor> \<or> (round_even x = \<lfloor>x\<rfloor> + 1 \<and> 1 / 2 \<le> x - of_int \<lfloor>x\<rfloor>)"
    by (simp add: round_even_def Let_def)
  ultimately show ?thesis by (elim disjE conjE) (simp only: of_int_add of_int_1, linarith)+
qed

lemma round_even_nonneg: "0 \<le> x \<Longrightarrow> 0 \<le> round_even x"
  by (auto simp: round_even_def Let_def)

lemma round_bits_nonneg: "0 \<le> round_bits p q"
  by (auto simp: round_bits_def Let_def split: prod.split intro!: mult_nonneg_nonneg round_even_nonneg divide_nonneg_nonneg)

text \<open>The exponent that \<open>round_bits\<close> chooses.\<close>

lemma exponent_below:
  fixes q :: rat
  assumes "quotient_of q = (a, b)" "0 < q"
  shows "2 powi (bits_of a - bits_of b - 1) \<le> q"
proof -
  have b: "0 < b" using quotient_of_denom_pos [OF assms(1)] .
  have q: "q = of_int a / of_int b" by (rule quotient_of_div [OF assms(1)])
  then have a: "0 < a" using assms(2) b by (simp add: zero_less_divide_iff)
  have "(2 :: rat) ^ nat (bits_of a - 1) \<le> of_int a" "of_int b \<le> (2 :: rat) ^ nat (bits_of b)"
    using bits_of_bounds [OF a] bits_of_bounds [OF b] by (metis of_int_le_iff of_int_numeral of_int_power, metis less_imp_le of_int_le_iff of_int_numeral of_int_power)
  then have "(2 :: rat) ^ nat (bits_of a - 1) / 2 ^ nat (bits_of b) \<le> of_int a / of_int b"
    using a b by (intro frac_le) simp_all
  moreover have "(2 :: rat) powi (bits_of a - bits_of b - 1) = 2 ^ nat (bits_of a - 1) / 2 ^ nat (bits_of b)"
  proof -
    have "(2 :: rat) powi (bits_of a - bits_of b - 1) = 2 powi ((bits_of a - 1) - bits_of b)" by (simp add: algebra_simps)
    also have "\<dots> = 2 powi (bits_of a - 1) / 2 powi (bits_of b)" by (rule power_int_diff) simp
    also have "\<dots> = 2 ^ nat (bits_of a - 1) / 2 ^ nat (bits_of b)"
      using bits_of_bounds [OF a] bits_of_bounds [OF b] by (simp add: power_int_def)
    finally show ?thesis .
  qed
  ultimately show ?thesis using q by simp
qed

lemma round_bits_bound:
  assumes "0 \<le> q"
  shows "round_bits p q \<le> q * (1 + 1 / 2 ^ p)"
proof (cases "q = 0")
  case True
  then show ?thesis by (simp add: round_bits_def)
next
  case False
  then have q: "0 < q" using assms by simp
  obtain a b where ab: "quotient_of q = (a, b)" by fastforce
  let ?e0 = "bits_of a - bits_of b"
  let ?e = "if q < 2 powi ?e0 then ?e0 - 1 else ?e0"
  let ?u = "(2 :: rat) powi (?e - int p + 1)"
  have r: "round_bits p q = of_int (round_even (q / ?u)) * ?u" using q by (simp add: round_bits_def ab Let_def)
  have e: "2 powi ?e \<le> q" using exponent_below [OF ab q] by simp
  have u: "0 < ?u" by simp
  have "of_int (round_even (q / ?u)) * ?u \<le> (q / ?u + 1 / 2) * ?u"
    using round_even_bound [of "q / ?u"] u by (intro mult_right_mono) simp_all
  also have "\<dots> = q + ?u / 2" using u by (simp add: distrib_right)
  also have "?u / 2 = 2 powi ?e / 2 ^ p"
    by (simp add: power_int_add power_int_diff power_int_minus divide_simps)
  also have "q + 2 powi ?e / 2 ^ p \<le> q + q / 2 ^ p" using e by (simp add: divide_right_mono)
  also have "\<dots> = q * (1 + 1 / 2 ^ p)" by (simp add: distrib_left)
  finally show ?thesis unfolding r .
qed

text \<open>The constant \<open>2.328306435454494e-10\<close> is a little below \<open>1 / 2 ^ 32\<close>.\<close>

lemma uniform_constant:
  fixes n :: rat
  assumes "0 \<le> n" "n \<le> 2 ^ 32" "0 < mx"
  shows "round_bits 64 (round_bits 64 (n * round_bits 53 (2328306435454494 / 10 ^ 25)) * mx) < mx"
proof -
  let ?C = "2328306435454494 / 10 ^ 25 :: rat"
  have c: "round_bits 53 ?C \<le> ?C * (1 + 1 / 2 ^ 53)" by (rule round_bits_bound) simp
  have "n * round_bits 53 ?C \<le> 2 ^ 32 * (?C * (1 + 1 / 2 ^ 53))"
    using assms c by (intro mult_mono) (simp_all add: round_bits_nonneg)
  then have "n * round_bits 53 ?C * (1 + 1 / 2 ^ 64) \<le> 2 ^ 32 * (?C * (1 + 1 / 2 ^ 53)) * (1 + 1 / 2 ^ 64)"
    by (rule mult_right_mono) simp
  moreover have "round_bits 64 (n * round_bits 53 ?C) \<le> n * round_bits 53 ?C * (1 + 1 / 2 ^ 64)"
    using assms by (intro round_bits_bound mult_nonneg_nonneg round_bits_nonneg)
  ultimately have p: "round_bits 64 (n * round_bits 53 ?C) \<le> 2 ^ 32 * (?C * (1 + 1 / 2 ^ 53)) * (1 + 1 / 2 ^ 64)"
    by linarith
  have "round_bits 64 (round_bits 64 (n * round_bits 53 ?C) * mx) \<le> round_bits 64 (n * round_bits 53 ?C) * mx * (1 + 1 / 2 ^ 64)"
    using assms by (intro round_bits_bound mult_nonneg_nonneg round_bits_nonneg) simp
  also have "\<dots> = round_bits 64 (n * round_bits 53 ?C) * (1 + 1 / 2 ^ 64) * mx" by (simp add: ac_simps)
  also have "\<dots> < 1 * mx"
  proof (rule mult_strict_right_mono)
    have "round_bits 64 (n * round_bits 53 ?C) * (1 + 1 / 2 ^ 64)
          \<le> 2 ^ 32 * (?C * (1 + 1 / 2 ^ 53)) * (1 + 1 / 2 ^ 64) * (1 + 1 / 2 ^ 64)"
      using p by (rule mult_right_mono) simp
    also have "\<dots> < 1" by simp
    finally show "round_bits 64 (n * round_bits 53 ?C) * (1 + 1 / 2 ^ 64) < 1" .
  qed (rule assms)
  finally show ?thesis by simp
qed

lemma word_of_int_below:
  fixes w :: "'a :: len word"
  assumes "0 \<le> k" "k < int (unat w)"
  shows "word_of_int k < w"
proof -
  have "k mod 2 ^ LENGTH('a) \<le> k" using assms(1) by (rule zmod_le_nonneg_dividend)
  then show ?thesis using assms by (simp add: word_less_def uint_word_of_int)
qed

lemma uniform_of_less:
  assumes "0 < mx"
  shows "uniform_of u mx < mx"
proof -
  let ?q = "round_bits 64 (round_bits 64 ((of_nat (unat u) + 1) * round_bits 53 (2328306435454494 / 10 ^ 25)) * of_nat (unat mx))"
  have m: "0 < unat mx" using assms by (simp add: word_less_nat_alt)
  have "unat u < 2 ^ LENGTH(32)" by (rule unsigned_less)
  then have "of_nat (unat u + 1) \<le> (of_nat (2 ^ 32) :: rat)" by (intro of_nat_mono) simp
  then have ub: "of_nat (unat u) + 1 \<le> (2 ^ 32 :: rat)"
    by (simp only: of_nat_add of_nat_1 of_nat_power of_nat_numeral)
  have lt: "?q < of_nat (unat mx)"
  proof (rule uniform_constant [OF _ ub])
    show "0 \<le> (of_nat (unat u) :: rat) + 1" by (rule add_nonneg_nonneg [OF of_nat_0_le_iff zero_le_one])
    show "0 < (of_nat (unat mx) :: rat)" using m by (simp only: of_nat_0_less_iff)
  qed
  have nn: "0 \<le> ?q" by (rule round_bits_nonneg)
  have fl: "\<lfloor>?q\<rfloor> < int (unat mx)" using lt by (simp only: floor_less_iff of_int_of_nat_eq)
  have "0 \<le> \<lfloor>?q\<rfloor>" using nn by (simp only: zero_le_floor)
  then show ?thesis unfolding uniform_of_def using fl by (rule word_of_int_below)
qed

lemma uniform_of_0: "uniform_of u 0 = 0"
  by (simp add: uniform_of_def round_bits_def)

text \<open>
  A random number below a positive bound is really below it, in every state of the generator: the
  rounding of the floating point product never reaches the bound.
\<close>

theorem GetUniform_below: "0 < mx \<Longrightarrow> fst (GetUniform mx r) < mx"
  using uniform_of_less [of mx] by (simp add: GetUniform_def split: prod.split)

theorem GetUniform_below_witness: "fst (GetUniform 100 rng_init) < 100"
  by (rule GetUniform_below) simp

end
