(* ===== verification/UDraw.thy ===== *)
theory UDraw
  imports UTests VideoProps KLib
begin

text \<open>
  The first program of user land and its smaller files: \<open>main.c\<close>, \<open>_loader.c\<close>, \<open>sysinfo.c\<close>, \<open>colors.c\<close>,
  \<open>draw.c\<close> and \<open>superSecret.c\<close>. Drawing is done with the system call \<open>sysFillRectangle\<close>, which the kernel
  serves with \<open>fillRectangle\<close> (theory \<open>Video\<close>); the last section puts the two sides together. The
  \<open>int32_t\<close> coordinates are integers, as in theory \<open>Video\<close>.
\<close>

unbundle bit_operations_syntax

section \<open>The variables\<close>

record sysinfo =
  si_screenWidth :: int
  si_screenHeight :: int
  si_charWidth :: int
  si_charHeight :: int
  si_layout :: int
  si_fontSize :: int
  si_charSeparation :: int
  si_fontCols :: int
  si_fontRows :: int

text \<open>The colors of \<open>colors.c\<close>, \<open>systemInfo\<close>, and the process.\<close>

record 'h uprogram =
  ubgColor :: RGBColor
  ubgColorHex :: u32
  ufontColor :: RGBColor
  ufontColorHex :: u32
  ucursorColor :: RGBColor
  ucursorColorHex :: u32
  fillColor :: RGBColor
  strokeColor :: RGBColor
  systemInfo :: sysinfo
  ush :: "'h shell"

definition ask :: "kernel_answers \<Rightarrow> syscall \<Rightarrow> 'h uprogram \<Rightarrow> 'h uprogram" where
  "ask ans c g = g\<lparr>ush := snd (call ans c (ush g))\<rparr>"

section \<open>Colors\<close>

definition user_setRGBColor :: "u32 \<Rightarrow> RGBColor" where
  "user_setRGBColor hexColor =
     \<lparr>blue = ucast (hexColor AND 0xFF), green = ucast (drop_bit 8 hexColor AND 0xFF),
      red = ucast (drop_bit 16 hexColor AND 0xFF)\<rparr>"

definition setBgColor :: "kernel_answers \<Rightarrow> u32 \<Rightarrow> 'h uprogram \<Rightarrow> 'h uprogram" where
  "setBgColor ans hexColor g =
     (ask ans (SetColor ''background'' hexColor) g)\<lparr>ubgColor := user_setRGBColor hexColor, ubgColorHex := hexColor\<rparr>"

definition getBgColor :: "'h uprogram \<Rightarrow> u32" where "getBgColor g = ubgColorHex g"

definition setFontColor :: "kernel_answers \<Rightarrow> u32 \<Rightarrow> 'h uprogram \<Rightarrow> 'h uprogram" where
  "setFontColor ans hexColor g =
     (ask ans (SetColor ''font'' hexColor) g)\<lparr>ufontColor := user_setRGBColor hexColor, ufontColorHex := hexColor\<rparr>"

definition getFontColor :: "'h uprogram \<Rightarrow> u32" where "getFontColor g = ufontColorHex g"

definition setCursorColor :: "kernel_answers \<Rightarrow> u32 \<Rightarrow> 'h uprogram \<Rightarrow> 'h uprogram" where
  "setCursorColor ans hexColor g =
     (ask ans (SetColor ''cursor'' hexColor) g)\<lparr>ucursorColor := user_setRGBColor hexColor, ucursorColorHex := hexColor\<rparr>"

definition getCursorColor :: "'h uprogram \<Rightarrow> u32" where "getCursorColor g = ucursorColorHex g"

definition setFillColor :: "u32 \<Rightarrow> 'h uprogram \<Rightarrow> 'h uprogram" where
  "setFillColor hexColor g = g\<lparr>fillColor := user_setRGBColor hexColor\<rparr>"

definition setStrokeColor :: "u32 \<Rightarrow> 'h uprogram \<Rightarrow> 'h uprogram" where
  "setStrokeColor hexColor g = g\<lparr>strokeColor := user_setRGBColor hexColor\<rparr>"

section \<open>Drawing\<close>

text \<open>A color is passed in a register, with its first byte, the blue one, as the lowest.\<close>

definition rgb_word :: "RGBColor \<Rightarrow> u32" where
  "rgb_word c = ucast (blue c) OR push_bit 8 (ucast (green c)) OR push_bit 16 (ucast (red c))"

definition sysFillRectangle :: "kernel_answers \<Rightarrow> int \<Rightarrow> int \<Rightarrow> int \<Rightarrow> int \<Rightarrow> RGBColor \<Rightarrow> 'h uprogram \<Rightarrow> 'h uprogram" where
  "sysFillRectangle ans x y w h color g = ask ans (FillRectangle x y w h (rgb_word color)) g"

definition strokeHorizontalLine :: "kernel_answers \<Rightarrow> int \<Rightarrow> int \<Rightarrow> int \<Rightarrow> int \<Rightarrow> 'h uprogram \<Rightarrow> 'h uprogram" where
  "strokeHorizontalLine ans x y l w g = sysFillRectangle ans x y l w (strokeColor g) g"

definition strokeVerticalLine :: "kernel_answers \<Rightarrow> int \<Rightarrow> int \<Rightarrow> int \<Rightarrow> int \<Rightarrow> 'h uprogram \<Rightarrow> 'h uprogram" where
  "strokeVerticalLine ans x y l w g = sysFillRectangle ans x y w l (strokeColor g) g"

definition strokeRectangle :: "kernel_answers \<Rightarrow> int \<Rightarrow> int \<Rightarrow> int \<Rightarrow> int \<Rightarrow> int \<Rightarrow> 'h uprogram \<Rightarrow> 'h uprogram" where
  "strokeRectangle ans x y w h strokeWidth g =
     (let g1 = strokeHorizontalLine ans x y w strokeWidth g;
          g2 = strokeHorizontalLine ans x (y + h - strokeWidth) w strokeWidth g1;
          g3 = strokeVerticalLine ans x (y + strokeWidth) (h - strokeWidth) strokeWidth g2
      in strokeVerticalLine ans (x + w - strokeWidth) (y + strokeWidth) (h - strokeWidth) strokeWidth g3)"

definition strokeRectangleOutward :: "kernel_answers \<Rightarrow> int \<Rightarrow> int \<Rightarrow> int \<Rightarrow> int \<Rightarrow> int \<Rightarrow> 'h uprogram \<Rightarrow> 'h uprogram" where
  "strokeRectangleOutward ans x y w h strokeWidth g =
     (let g1 = strokeHorizontalLine ans (x - strokeWidth) (y - strokeWidth) (w + 2 * strokeWidth) strokeWidth g;
          g2 = strokeHorizontalLine ans (x - strokeWidth) (y + h) (w + 2 * strokeWidth) strokeWidth g1;
          g3 = strokeVerticalLine ans (x - strokeWidth) y h strokeWidth g2
      in strokeVerticalLine ans (x + w) y h strokeWidth g3)"

definition user_fillRectangle :: "kernel_answers \<Rightarrow> int \<Rightarrow> int \<Rightarrow> int \<Rightarrow> int \<Rightarrow> 'h uprogram \<Rightarrow> 'h uprogram" where
  "user_fillRectangle ans x y w h g = sysFillRectangle ans x y w h (fillColor g) g"

definition clearRectangle :: "kernel_answers \<Rightarrow> int \<Rightarrow> int \<Rightarrow> int \<Rightarrow> int \<Rightarrow> 'h uprogram \<Rightarrow> 'h uprogram" where
  "clearRectangle ans x y w h g = sysFillRectangle ans x y w h (ubgColor g) g"

definition fillRectangleWithBorder :: "kernel_answers \<Rightarrow> int \<Rightarrow> int \<Rightarrow> int \<Rightarrow> int \<Rightarrow> int \<Rightarrow> 'h uprogram \<Rightarrow> 'h uprogram" where
  "fillRectangleWithBorder ans x y w h strokeWidth g =
     strokeRectangle ans x y w h strokeWidth (sysFillRectangle ans x y w h (fillColor g) g)"

section \<open>The information about the system\<close>

text \<open>A division by zero is a fault.\<close>

definition user_setFontGridValues :: "'h uprogram \<Rightarrow> 'h uprogram option" where
  "user_setFontGridValues g =
     (let i = systemInfo g;
          cw = si_charWidth i * si_fontSize i + si_charSeparation i;
          ch = si_charHeight i * si_fontSize i + si_charSeparation i
      in if cw = 0 \<or> ch = 0 then None
         else Some (g\<lparr>systemInfo := i\<lparr>si_fontCols := si_screenWidth i sdiv cw, si_fontRows := si_screenHeight i sdiv ch\<rparr>\<rparr>))"

text \<open>\<open>info\<close> are the values that the kernel stores, in the order of the structure.\<close>

definition store_info :: "int list \<Rightarrow> sysinfo \<Rightarrow> sysinfo" where
  "store_info info i =
     (case info of
        [sw, sh, cw, ch, ly, fs, sep] \<Rightarrow> i\<lparr>si_screenWidth := sw, si_screenHeight := sh, si_charWidth := cw,
          si_charHeight := ch, si_layout := ly, si_fontSize := fs, si_charSeparation := sep\<rparr>
      | _ \<Rightarrow> i)"

definition user_getSysInfo :: "kernel_answers \<Rightarrow> int list \<Rightarrow> 'h uprogram \<Rightarrow> 'h uprogram option" where
  "user_getSysInfo ans info g =
     user_setFontGridValues ((ask ans SystemInfo g)\<lparr>systemInfo := store_info info (systemInfo g)\<rparr>)"

definition user_setFontSize :: "kernel_answers \<Rightarrow> int \<Rightarrow> 'h uprogram \<Rightarrow> 'h uprogram option" where
  "user_setFontSize ans fs g =
     (let (r, sh) = call ans (SetFontSize fs) (ush g)
      in user_setFontGridValues (g\<lparr>ush := sh, systemInfo := (systemInfo g)\<lparr>si_fontSize := r\<rparr>\<rparr>))"

definition user_setLayout :: "kernel_answers \<Rightarrow> int \<Rightarrow> 'h uprogram \<Rightarrow> 'h uprogram" where
  "user_setLayout ans layoutCode g =
     ask ans (SetLayout layoutCode) (g\<lparr>systemInfo := (systemInfo g)\<lparr>si_layout := layoutCode\<rparr>\<rparr>)"

section \<open>Starting user land\<close>

text \<open>The endless loop of \<open>main\<close>: a shell is started again whenever it ends.\<close>

definition shell_round :: "kernel_answers \<Rightarrow> 'h uprogram \<Rightarrow> 'h uprogram" where
  "shell_round ans g =
     (let (child, sh) = call ans (CreateProcess [lit ''shell'', lit ''test arg 1'', lit ''test arg 2''] ''shell'') (ush g)
      in ask ans (WaitPid child) (g\<lparr>ush := sh\<rparr>))"

partial_function (option) shell_loop :: "kernel_answers \<Rightarrow> 'h uprogram \<Rightarrow> int option" where
  [code]: "shell_loop ans g = shell_loop ans (shell_round ans g)"

definition user_main :: "kernel_answers \<Rightarrow> int list \<Rightarrow> 'h uprogram \<Rightarrow> int option" where
  "user_main ans info g = do { g1 \<leftarrow> user_getSysInfo ans info g; shell_loop ans g1 }"

text \<open>\<open>_start\<close> clears the memory after the binary first; its \<open>memset\<close> has the body of the kernel's.\<close>

definition user_start :: "nat \<Rightarrow> nat \<Rightarrow> bytes \<Rightarrow> bytes" where
  "user_start userlandBss endOfBinary m = fst (memset m userlandBss 0 (endOfBinary - userlandBss))"

section \<open>The song\<close>

definition song_notes :: "int list" where
  "song_notes =
     (let a3f = (208 :: int); b3f = (233 :: int); c4s = (277 :: int); a4f = (415 :: int); b4f = (466 :: int); c5 = (523 :: int); c5s = (554 :: int); e5f = (622 :: int); f5 = (698 :: int); a5f = (831 :: int); silence = (0 :: int)
      in [b4f, b4f, a4f, a4f, f5, f5, e5f, b4f, b4f, a4f, a4f, e5f, e5f, c5s, c5, b4f, c5s, c5s, c5s, c5s,
          c5s, e5f, c5, b4f, a4f, a4f, a4f, e5f, c5s, b4f, b4f, a4f, a4f, f5, f5, e5f, b4f, b4f, a4f, a4f,
          a5f, c5, c5s, c5, b4f, c5s, c5s, c5s, c5s, c5s, e5f, c5, b4f, a4f, silence, a4f, e5f, c5s, silence])"

definition song_lengths :: "int list" where
  "song_lengths = [1, 1, 1, 1, 3, 3, 6, 1, 1, 1, 1, 3, 3, 3, 1, 2, 1, 1, 1, 1, 3, 3, 3, 1, 2, 2, 2, 4, 8, 1,
     1, 1, 1, 3, 3, 6, 1, 1, 1, 1, 3, 3, 3, 1, 2, 1, 1, 1, 1, 3, 3, 3, 1, 2, 2, 2, 4, 8, 4]"

text \<open>\<open>yyy[i]\<close> outside of its array would be a fault.\<close>

fun song_loop :: "kernel_answers \<Rightarrow> int list \<Rightarrow> int list \<Rightarrow> 'h shell \<Rightarrow> 'h shell option" where
  "song_loop ans [] ys sh = Some sh"
| "song_loop ans (x # xs) [] sh = None"
| "song_loop ans (x # xs) (y # ys) sh = song_loop ans xs ys (snd (call ans (PlaySound x (100 * y)) sh))"

definition commandSuperSecret :: "kernel_answers \<Rightarrow> 'h process" where
  "commandSuperSecret ans sh = do { sh1 \<leftarrow> song_loop ans song_notes song_lengths sh; sysExit SUCCESS sh1 }"

section \<open>What the kernel draws\<close>

text \<open>The kernel takes the color out of the register.\<close>

fun serve :: "syscall list \<Rightarrow> Screen \<Rightarrow> Screen option" where
  "serve [] s = Some s"
| "serve (FillRectangle x y w h c # cs) s = do { s1 \<leftarrow> fillRectangle x y w h (setRGBColor c) s; serve cs s1 }"
| "serve (_ # cs) s = serve cs s"

lemma byte_bits: "i < 8 \<Longrightarrow> bit (255 :: 'a :: len word) i \<longleftrightarrow> i < LENGTH('a)"
proof -
  have m: "(255 :: 'a word) = mask 8" by (simp add: mask_eq_exp_minus_1)
  show "i < 8 \<Longrightarrow> bit (255 :: 'a word) i \<longleftrightarrow> i < LENGTH('a)" unfolding m by (simp add: bit_mask_iff)
qed

lemma rgb_word_inverse: "setRGBColor (rgb_word c) = c"
proof -
  have "bit (ucast (rgb_word c AND 0xFF) :: u8) i = bit (blue c) i" if "i < 8" for i
    using that byte_bits [OF that, where 'a = 32] by (simp add: rgb_word_def bit_simps)
  moreover have "bit (ucast (drop_bit 8 (rgb_word c) AND 0xFF) :: u8) i = bit (green c) i" if "i < 8" for i
    using that byte_bits [OF that, where 'a = 32] by (simp add: rgb_word_def bit_simps) (auto dest: bit_imp_le_length)
  moreover have "bit (ucast (drop_bit 16 (rgb_word c) AND 0xFF) :: u8) i = bit (red c) i" if "i < 8" for i
    using that byte_bits [OF that, where 'a = 32] by (simp add: rgb_word_def bit_simps) (auto dest: bit_imp_le_length)
  ultimately show ?thesis
    by (cases c) (auto simp: setRGBColor_def intro!: bit_word_eqI)
qed

text \<open>Rectangles inside the screen, some of which may be empty.\<close>

definition inside_screen :: "Screen \<Rightarrow> int \<Rightarrow> int \<Rightarrow> int \<Rightarrow> int \<Rightarrow> bool" where
  "inside_screen s x y w h \<longleftrightarrow> 0 \<le> x \<and> 0 \<le> y \<and> 0 \<le> w \<and> 0 \<le> h \<and> x + w \<le> width s \<and> y + h \<le> height s"

lemma inside_fits: "plain_mode s \<Longrightarrow> inside_screen s x y w h \<Longrightarrow> fits s x y w h"
proof -
  assume m: "plain_mode s" and i: "inside_screen s x y w h"
  have "(y + h - 1) * width s \<le> (height s - 1) * width s"
    using m i by (intro mult_right_mono) (auto simp: plain_mode_def inside_screen_def)
  also have "\<dots> = width s * height s - width s" by (simp add: algebra_simps)
  finally show "fits s x y w h" using i by (auto simp: fits_def inside_screen_def)
qed

text \<open>The area of a call, and what it is to draw the areas \<open>A\<close> of the screen in one color.\<close>

definition in_area :: "int \<Rightarrow> int \<Rightarrow> int \<Rightarrow> int \<Rightarrow> int \<Rightarrow> int \<Rightarrow> bool" where
  "in_area x y w h px py \<longleftrightarrow> x \<le> px \<and> px < x + w \<and> y \<le> py \<and> py < y + h"

definition drawn :: "Screen \<Rightarrow> (int \<Rightarrow> int \<Rightarrow> bool) \<Rightarrow> RGBColor \<Rightarrow> Screen \<Rightarrow> bool" where
  "drawn s A color s' \<longleftrightarrow> plain_mode s' \<and> width s' = width s \<and> height s' = height s \<and>
     (\<forall>px py. on_screen s px py \<longrightarrow> pixel s' px py = (if A px py then color else pixel s px py))"

lemma drawn_refl: "plain_mode s \<Longrightarrow> drawn s (\<lambda>_ _. False) c s"
  by (simp add: drawn_def)

lemma fill_drawn:
  assumes "drawn s A c s1" "inside_screen s x y w h"
  shows "\<exists>s2. fillRectangle x y w h c s1 = Some s2 \<and> drawn s (\<lambda>px py. A px py \<or> in_area x y w h px py) c s2"
proof -
  have m: "plain_mode s1" and i: "inside_screen s1 x y w h"
    using assms by (simp_all add: drawn_def inside_screen_def)
  obtain s2 where s2: "fillRectangle x y w h c s1 = Some s2" "paints s1 ({} \<union> rect (width s1) x y w h) c s2"
    using fillRectangle_paints [OF paints_refl m inside_fits [OF m i]] by blast
  have "plain_mode s2" "width s2 = width s1" "height s2 = height s1"
    using paints_fields [OF s2(2)] m by (simp_all add: plain_mode_def)
  moreover have "pixel s2 px py = (if in_area x y w h px py then c else pixel s1 px py)" if "on_screen s px py" for px py
  proof -
    have on: "on_screen s1 px py" using that assms(1) by (simp add: on_screen_def drawn_def)
    have "nat (px + py * width s1) \<in> rect (width s1) x y w h \<longleftrightarrow> in_area x y w h px py"
      unfolding in_area_def by (rule rect_coords) (use on i in \<open>auto simp: on_screen_def inside_screen_def\<close>)
    then show ?thesis using paints_pixel [OF s2(2) m on] by simp
  qed
  ultimately have "drawn s (\<lambda>px py. A px py \<or> in_area x y w h px py) c s2"
    using assms(1) by (auto simp: drawn_def)
  then show ?thesis using s2(1) by blast
qed

lemma calls_ask [simp]: "calls (ush (ask ans c g)) = calls (ush g) @ [c]" "strokeColor (ask ans c g) = strokeColor g"
  by (simp_all add: ask_def call_def Let_def)

lemmas stroke_defs = strokeHorizontalLine_def strokeVerticalLine_def sysFillRectangle_def Let_def

text \<open>
  A border drawn by user land, with the calls it makes carried out by the kernel, colors exactly the
  pixels of the rectangle that are less than the width of the stroke away from its edge, and no other
  pixel of the screen.
\<close>

theorem strokeRectangle_border:
  assumes "plain_mode s" "inside_screen s x y w h" "0 \<le> b" "b \<le> w" "b \<le> h"
  shows "\<exists>cs s'. calls (ush (strokeRectangle ans x y w h b g)) = calls (ush g) @ cs \<and> serve cs s = Some s' \<and>
    drawn s (\<lambda>px py. in_area x y w h px py \<and> \<not> in_area (x + b) (y + b) (w - 2 * b) (h - 2 * b) px py) (strokeColor g) s'"
proof -
  let ?c = "strokeColor g"
  let ?r = "\<lambda>x y w h. FillRectangle x y w h (rgb_word ?c)"
  let ?cs = "[?r x y w b, ?r x (y + h - b) w b, ?r x (y + b) b (h - b), ?r (x + w - b) (y + b) b (h - b)]"
  have calls: "calls (ush (strokeRectangle ans x y w h b g)) = calls (ush g) @ ?cs"
    by (simp add: strokeRectangle_def stroke_defs)
  have i: "inside_screen s x y w b" "inside_screen s x (y + h - b) w b" "inside_screen s x (y + b) b (h - b)"
    "inside_screen s (x + w - b) (y + b) b (h - b)"
    using assms(2-5) by (auto simp: inside_screen_def)
  obtain s1 where s1: "fillRectangle x y w b ?c s = Some s1" "drawn s (\<lambda>px py. False \<or> in_area x y w b px py) ?c s1"
    using fill_drawn [OF drawn_refl [OF assms(1)] i(1)] by blast
  note s2 = fill_drawn [OF s1(2) i(2)]
  then obtain s2 where s2: "fillRectangle x (y + h - b) w b ?c s1 = Some s2"
    "drawn s (\<lambda>px py. (False \<or> in_area x y w b px py) \<or> in_area x (y + h - b) w b px py) ?c s2" by blast
  obtain s3 where s3: "fillRectangle x (y + b) b (h - b) ?c s2 = Some s3"
    "drawn s (\<lambda>px py. ((False \<or> in_area x y w b px py) \<or> in_area x (y + h - b) w b px py) \<or> in_area x (y + b) b (h - b) px py) ?c s3"
    using fill_drawn [OF s2(2) i(3)] by blast
  obtain s4 where s4: "fillRectangle (x + w - b) (y + b) b (h - b) ?c s3 = Some s4"
    "drawn s (\<lambda>px py. (((False \<or> in_area x y w b px py) \<or> in_area x (y + h - b) w b px py) \<or> in_area x (y + b) b (h - b) px py)
      \<or> in_area (x + w - b) (y + b) b (h - b) px py) ?c s4"
    using fill_drawn [OF s3(2) i(4)] by blast
  have "serve ?cs s = Some s4" using s1(1) s2(1) s3(1) s4(1) by (simp add: rgb_word_inverse)
  moreover have "(((False \<or> in_area x y w b px py) \<or> in_area x (y + h - b) w b px py) \<or> in_area x (y + b) b (h - b) px py)
      \<or> in_area (x + w - b) (y + b) b (h - b) px py \<longleftrightarrow>
      in_area x y w h px py \<and> \<not> in_area (x + b) (y + b) (w - 2 * b) (h - 2 * b) px py" for px py
    using assms(3-5) by (auto simp: in_area_def)
  ultimately show ?thesis using calls s4(2) by (intro exI [of _ ?cs] exI [of _ s4]) simp
qed

theorem strokeRectangle_border_witness:
  "\<forall>ans g. \<exists>cs s'. calls (ush (strokeRectangle ans 2 3 10 8 2 g)) = calls (ush g) @ cs \<and> serve cs demo_screen = Some s' \<and>
    drawn demo_screen (\<lambda>px py. in_area 2 3 10 8 px py \<and> \<not> in_area (2 + 2) (3 + 2) (10 - 2 * 2) (8 - 2 * 2) px py) (strokeColor g) s'"
  by (intro allI strokeRectangle_border [OF demo_screen_ok(2)]) (simp_all add: inside_screen_def demo_screen_def)

end
