(* ===== verification/UTestMm.thy ===== *)
theory UTestMm
  imports UTestProps CommandProps FreeHeap
begin

text \<open>
  The memory test of user land (\<open>testMm.c\<close>) over the memory manager of the kernel: it allocates blocks,
  fills each with a byte of its own, compares and releases them. The contents of its blocks are a
  memory of bytes; \<open>None\<close> is a fault or a program that never ends.
\<close>

definition MAX_BLOCKS :: nat where "MAX_BLOCKS = 10"
definition NO_MEMORY_AVAILABLE :: int where "NO_MEMORY_AVAILABLE = 8"

text \<open>\<open>mm_rqs\<close> up to \<open>rq\<close>, the bytes of the memory, and the process.\<close>

record 'h mm_test =
  mm_rqs :: "(addr \<times> u32) list"
  mt_bytes :: "addr \<Rightarrow> byte"
  mt_numbers :: rng
  mt_sh :: "'h shell"

type_synonym 'h mt_result = "((int \<times> 'h shell) + 'h mm_test) option"

definition usageMessage :: "byte list" where
  "usageMessage = text_of ''Usage: %s <max_memory>\<newline>'' @ 9 # lit ''max_memory: maximum number of KB to allocate\<newline>''"

section \<open>The program\<close>

definition printMemState :: "kernel_answers \<Rightarrow> int \<Rightarrow> 'h shell \<Rightarrow> 'h shell option" where
  "printMemState ans child sh = do {
     (buf, _) \<leftarrow> uintToBase (word_of_int child) (replicate 200 0) 10;
     let pidStr = cstr buf @ [0];
     let (printer, sh1) = call ans (CreateProcess [text_of ''mem_p'' @ pidStr, pidStr] ''commandGetMemoryState'') sh;
     Some (snd (call ans (WaitPid printer) sh1)) }"

text \<open>The loop that requests blocks; \<open>tot\<close> is the variable \<open>total\<close>, of 32 bits, \<open>max_memory\<close> is a positive \<open>int64_t\<close>.\<close>

function request_loop :: "'h mm \<Rightarrow> kernel_answers \<Rightarrow> int \<Rightarrow> u64 \<Rightarrow> u32 \<Rightarrow> 'h mm_test \<Rightarrow> 'h mt_result" where
  "request_loop M ans child max_memory tot s =
     (if length (mm_rqs s) < MAX_BLOCKS \<and> sint (ucast tot :: u64) < sint max_memory
      then do {
        let (u, r) = GetUniform (ucast (max_memory - ucast tot - 1)) (mt_numbers s);
        let size = u + 1;
        (address, h) \<leftarrow> mm_malloc M (ucast size) (heap_of (mt_sh s));
        if address \<noteq> NULL
        then request_loop M ans child max_memory (tot + size)
               (s\<lparr>mm_rqs := mm_rqs s @ [(address, size)], mt_numbers := r, mt_sh := (mt_sh s)\<lparr>heap_of := h\<rparr>\<rparr>)
        else do {
          sh1 \<leftarrow> pf (lit ''Not enough memory to allocate: %u B\<newline>'') [Num (ucast size)] ((mt_sh s)\<lparr>heap_of := h\<rparr>);
          sh2 \<leftarrow> printMemState ans child sh1;
          Some (Inl (NO_MEMORY_AVAILABLE, sh2)) } }
      else Some (Inr s))"
  by pat_completeness auto
termination
  by (relation "measure (\<lambda>(M, ans, child, max_memory, tot, s). MAX_BLOCKS - length (mm_rqs s))") auto

declare request_loop.simps [simp del]

text \<open>The bytes of a block, and their replacement.\<close>

definition load_area :: "addr \<Rightarrow> nat \<Rightarrow> (addr \<Rightarrow> byte) \<Rightarrow> byte list" where
  "load_area a n m = map (\<lambda>k. m (a + of_nat k)) [0..<n]"

definition store_area :: "addr \<Rightarrow> byte list \<Rightarrow> (addr \<Rightarrow> byte) \<Rightarrow> addr \<Rightarrow> byte" where
  "store_area a bs m = (\<lambda>x. if unat (x - a) < length bs then bs ! unat (x - a) else m x)"

fun set_loop :: "nat \<Rightarrow> (addr \<times> u32) list \<Rightarrow> (addr \<Rightarrow> byte) \<Rightarrow> (addr \<Rightarrow> byte) option" where
  "set_loop i [] m = Some m"
| "set_loop i ((a, n) # rqs) m =
     (if a \<noteq> NULL
      then do { bs \<leftarrow> setMem (load_area a (unat n) m) (of_nat i) (unat n); set_loop (Suc i) rqs (store_area a bs m) }
      else set_loop (Suc i) rqs m)"

text \<open>Whether every block still holds its byte.\<close>

fun check_loop :: "nat \<Rightarrow> (addr \<times> u32) list \<Rightarrow> (addr \<Rightarrow> byte) \<Rightarrow> bool option" where
  "check_loop i [] m = Some True"
| "check_loop i ((a, n) # rqs) m =
     (if a \<noteq> NULL
      then do { ok \<leftarrow> memcheck (load_area a (unat n) m) (of_nat i) (unat n); if ok then check_loop (Suc i) rqs m else Some False }
      else check_loop (Suc i) rqs m)"

fun free_loop :: "'h mm \<Rightarrow> (addr \<times> u32) list \<Rightarrow> 'h \<Rightarrow> 'h option" where
  "free_loop M [] h = Some h"
| "free_loop M ((a, n) # rqs) h = do { h1 \<leftarrow> (if a \<noteq> NULL then mm_free M a h else Some h); free_loop M rqs h1 }"

text \<open>One round of the loop of \<open>commandTestMM\<close>.\<close>

definition mm_round :: "'h mm \<Rightarrow> kernel_answers \<Rightarrow> int \<Rightarrow> u64 \<Rightarrow> 'h mm_test \<Rightarrow> 'h mt_result" where
  "mm_round M ans child max_memory s = do {
     res \<leftarrow> request_loop M ans child max_memory 0 (s\<lparr>mm_rqs := []\<rparr>);
     case res of
       Inl e \<Rightarrow> Some (Inl e)
     | Inr s1 \<Rightarrow> do {
         let sh1 = snd (call ans (Sleep 1000) (mt_sh s1));
         m \<leftarrow> set_loop 0 (mm_rqs s1) (mt_bytes s1);
         sh2 \<leftarrow> pf (lit ''After allocation:\<newline>'') [] sh1;
         sh3 \<leftarrow> printMemState ans child sh2;
         ok \<leftarrow> check_loop 0 (mm_rqs s1) m;
         if \<not> ok
         then do { sh4 \<leftarrow> pf (lit ''test_mm ERROR\<newline>'') [] sh3; Some (Inl (OUT_OF_BOUNDS, sh4)) }
         else do {
           h \<leftarrow> free_loop M (mm_rqs s1) (heap_of sh3);
           sh4 \<leftarrow> pf (lit ''After free:\<newline>'') [] (sh3\<lparr>heap_of := h\<rparr>);
           sh5 \<leftarrow> printMemState ans child sh4;
           Some (Inr (s1\<lparr>mt_bytes := m, mt_sh := sh5\<rparr>)) } } }"

partial_function (option) mm_rounds :: "'h mm \<Rightarrow> kernel_answers \<Rightarrow> int \<Rightarrow> u64 \<Rightarrow> 'h mm_test \<Rightarrow> (int \<times> 'h shell) option" where
  [code]: "mm_rounds M ans child max_memory s = do {
     res \<leftarrow> mm_round M ans child max_memory s;
     case res of Inl e \<Rightarrow> Some e | Inr s1 \<Rightarrow> mm_rounds M ans child max_memory s1 }"

text \<open>\<open>gen\<close> is the state that the generator of the program has at its start, \<open>m\<close> the memory.\<close>

definition commandTestMM :: "'h mm \<Rightarrow> kernel_answers \<Rightarrow> rng \<Rightarrow> (addr \<Rightarrow> byte) \<Rightarrow> argv \<Rightarrow> 'h process" where
  "commandTestMM M ans gen m argv sh = do {
     let (child, sh0) = call ans GetPid sh;
     if length argv < 2
     then do { a0 \<leftarrow> arg_at argv 0; sh1 \<leftarrow> pf usageMessage [Str a0] sh0; sysExit MISSING_ARGUMENTS sh1 }
     else do {
       n \<leftarrow> int_arg argv 1;
       if n \<le> 0
       then do { a0 \<leftarrow> arg_at argv 0; sh1 \<leftarrow> pf usageMessage [Str a0] sh0; sysExit ILLEGAL_ARGUMENT sh1 }
       else mm_rounds M ans child (word_of_int n * 2 ^ 10)
              \<lparr>mm_rqs = [], mt_bytes = m, mt_numbers = gen, mt_sh = sh0\<rparr> } }"

section \<open>Memory managers with separate blocks\<close>

locale separated_allocator = allocator M ok for M :: "'h mm" and ok +
  assumes blocks_apart: "ok L h \<Longrightarrow> L p = Some m \<Longrightarrow> L q = Some n \<Longrightarrow> p \<noteq> q \<Longrightarrow>
      unat p + unat m \<le> unat q \<or> unat q + unat n \<le> unat p"
begin

end

text \<open>What a client holds after the requests \<open>rqs\<close>.\<close>

fun requested :: "(addr \<times> u32) list \<Rightarrow> (addr \<rightharpoonup> u64) \<Rightarrow> addr \<rightharpoonup> u64" where
  "requested [] L = L"
| "requested ((a, n) # rqs) L = requested rqs (L(a \<mapsto> ucast n))"

lemma requested_snoc: "requested (rqs @ [(a, n)]) L = (requested rqs L)(a \<mapsto> ucast n)"
  by (induction rqs arbitrary: L) auto

lemma requested_other: "a \<notin> fst ` set rqs \<Longrightarrow> requested rqs L a = L a"
  by (induction rqs arbitrary: L) auto

lemma requested_upd: "a \<notin> fst ` set rqs \<Longrightarrow> (requested rqs L)(a := v) = requested rqs (L(a := v))"
proof (induction rqs arbitrary: L)
  case (Cons x rqs)
  obtain b n where x: "x = (b, n)" by (cases x)
  have eq: "L(b \<mapsto> ucast n, a := v) = L(a := v, b \<mapsto> ucast n)" using Cons.prems x by (intro fun_upd_twist) auto
  have "(requested rqs (L(b \<mapsto> ucast n)))(a := v) = requested rqs (L(b \<mapsto> ucast n, a := v))"
    by (rule Cons.IH) (use Cons.prems in simp)
  then show ?case unfolding x requested.simps eq .
qed simp

lemma requested_dom: "dom (requested rqs L) = dom L \<union> fst ` set rqs"
  by (induction rqs L rule: requested.induct) (simp_all del: fun_upd_apply)

lemma requested_in: "(a, n) \<in> set rqs \<Longrightarrow> distinct (map fst rqs) \<Longrightarrow> requested rqs L a = Some (ucast n)"
proof (induction rqs arbitrary: L)
  case (Cons x rqs)
  obtain b k where x: "x = (b, k)" by (cases x)
  show ?case
  proof (cases "x = (a, n)")
    case True
    then have "a \<notin> fst ` set rqs" using Cons.prems(2) by auto
    then show ?thesis using True by (simp add: requested_other)
  next
    case False
    then show ?thesis using Cons x by auto
  qed
qed simp

text \<open>Areas that do not wrap around and do not overlap.\<close>

definition area_ok :: "addr \<times> u32 \<Rightarrow> bool" where
  "area_ok x \<longleftrightarrow> fst x \<noteq> NULL \<and> unat (fst x) + unat (snd x) < 2 ^ 63"

definition areas_apart :: "addr \<times> u32 \<Rightarrow> addr \<times> u32 \<Rightarrow> bool" where
  "areas_apart x y \<longleftrightarrow> unat (fst x) + unat (snd x) \<le> unat (fst y) \<or> unat (fst y) + unat (snd y) \<le> unat (fst x)"

definition separate :: "(addr \<times> u32) list \<Rightarrow> bool" where
  "separate rqs \<longleftrightarrow> list_all area_ok rqs \<and> sorted_wrt areas_apart rqs"

section \<open>Filling and comparing\<close>

lemma setMem_replicate: "setMem p c (length p) = Some (replicate (length p) c)"
  by (induction p) auto

lemma memcheck_replicate: "memcheck (replicate n c) c n = Some True"
  by (induction n) auto

lemma load_length [simp]: "length (load_area a n m) = n"
  by (simp add: load_area_def)

lemma set_area: "setMem (load_area a n m) c n = Some (replicate n c)"
  using setMem_replicate [of "load_area a n m" c] by simp

lemma area_offset:
  assumes "k < n" "unat a + n < 2 ^ 63"
  shows "unat (a + of_nat k - a :: addr) = k" "unat (a + of_nat k) = unat a + k"
proof -
  have k: "unat (of_nat k :: addr) = k" using assms by (simp add: unat_of_nat)
  then show "unat (a + of_nat k - a) = k" by simp
  show "unat (a + of_nat k) = unat a + k" using assms k by (simp add: unat_plus_if_size word_size)
qed

lemma load_store_same: "unat a + length bs < 2 ^ 63 \<Longrightarrow> load_area a (length bs) (store_area a bs m) = bs"
proof (rule nth_equalityI)
  fix k assume a: "unat a + length bs < 2 ^ 63" "k < length (load_area a (length bs) (store_area a bs m))"
  then have "unat (a + of_nat k - a) = k" by (intro area_offset) simp_all
  then show "load_area a (length bs) (store_area a bs m) ! k = bs ! k" using a(2) by (simp add: load_area_def store_area_def)
qed simp

lemma load_store_other:
  assumes "unat a + n < 2 ^ 63" "unat b + length bs < 2 ^ 63" "unat a + n \<le> unat b \<or> unat b + length bs \<le> unat a"
  shows "load_area a n (store_area b bs m) = load_area a n m"
proof -
  have "\<not> unat (a + of_nat k - b) < length bs" if k: "k < n" for k
  proof
    let ?x = "a + of_nat k"
    assume lt: "unat (?x - b) < length bs"
    have x: "unat ?x = unat a + k" using area_offset(2) [OF k assms(1)] .
    show False
    proof (cases "b \<le> ?x")
      case True
      then have "unat (?x - b) = unat ?x - unat b" "unat b \<le> unat ?x" by (simp_all add: unat_sub word_le_nat_alt)
      then show ?thesis using lt x k assms(3) by linarith
    next
      case False
      then have l: "unat ?x < unat b" by (simp add: word_le_nat_alt)
      then have "unat (?x - b) = 2 ^ 64 + unat ?x - unat b" by (simp add: unat_sub_if_size word_size)
      moreover have "(2 :: nat) ^ 64 = 18446744073709551616" "(2 :: nat) ^ 63 = 9223372036854775808" by simp_all
      ultimately show ?thesis using lt assms(2) by linarith
    qed
  qed
  then show ?thesis by (simp add: load_area_def store_area_def)
qed

text \<open>Every block gets its byte, and the blocks before keep theirs.\<close>

lemma set_loop_fills:
  assumes "separate rqs"
  shows "\<exists>m'. set_loop i rqs m = Some m' \<and>
    (\<forall>j < length rqs. load_area (fst (rqs ! j)) (unat (snd (rqs ! j))) m' = replicate (unat (snd (rqs ! j))) (of_nat (i + j))) \<and>
    (\<forall>x. area_ok x \<longrightarrow> list_all (areas_apart x) rqs \<longrightarrow> load_area (fst x) (unat (snd x)) m' = load_area (fst x) (unat (snd x)) m)"
  using assms
proof (induction rqs arbitrary: i m)
  case (Cons y rqs)
  obtain a n where y: "y = (a, n)" by (cases y)
  have a: "a \<noteq> NULL" "unat a + unat n < 2 ^ 63" using Cons.prems y by (simp_all add: separate_def area_ok_def)
  let ?bs = "replicate (unat n) (of_nat i :: byte)"
  obtain m' where m': "set_loop (Suc i) rqs (store_area a ?bs m) = Some m'"
    "\<forall>j < length rqs. load_area (fst (rqs ! j)) (unat (snd (rqs ! j))) m' = replicate (unat (snd (rqs ! j))) (of_nat (Suc i + j))"
    "\<forall>x. area_ok x \<longrightarrow> list_all (areas_apart x) rqs \<longrightarrow>
       load_area (fst x) (unat (snd x)) m' = load_area (fst x) (unat (snd x)) (store_area a ?bs m)"
    using Cons.IH [of "Suc i" "store_area a ?bs m"] Cons.prems by (auto simp: separate_def)
  have "set_loop i (y # rqs) m = Some m'" using m'(1) a(1) y by (simp add: set_area)
  moreover have "load_area (fst ((y # rqs) ! j)) (unat (snd ((y # rqs) ! j))) m' =
      replicate (unat (snd ((y # rqs) ! j))) (of_nat (i + j))" if "j < length (y # rqs)" for j
  proof (cases j)
    case 0
    have "area_ok y" "list_all (areas_apart y) rqs" using Cons.prems by (auto simp: separate_def list_all_iff)
    then have "load_area a (unat n) m' = load_area a (unat n) (store_area a ?bs m)" using m'(3) y by auto
    then show ?thesis using 0 y load_store_same [of a ?bs m] a(2) by simp
  next
    case (Suc k)
    then show ?thesis using m'(2) that by simp
  qed
  moreover have "load_area (fst x) (unat (snd x)) m' = load_area (fst x) (unat (snd x)) m"
    if "area_ok x" "list_all (areas_apart x) (y # rqs)" for x
    using m'(3) that y a(2) load_store_other [of "fst x" "unat (snd x)" a ?bs m] by (auto simp: area_ok_def areas_apart_def)
  ultimately show ?case by blast
qed simp

lemma check_loop_passes:
  assumes "\<forall>j < length rqs. load_area (fst (rqs ! j)) (unat (snd (rqs ! j))) m = replicate (unat (snd (rqs ! j))) (of_nat (i + j))"
  shows "check_loop i rqs m = Some True"
  using assms
proof (induction rqs arbitrary: i)
  case (Cons y rqs)
  obtain a n where y: "y = (a, n)" by (cases y)
  have "load_area a (unat n) m = replicate (unat n) (of_nat i)" using Cons.prems y by auto
  moreover have "check_loop (Suc i) rqs m = Some True" using Cons.prems by (intro Cons.IH) (auto simp: nth_Cons')
  ultimately show ?case using y by (simp add: memcheck_replicate)
qed simp

section \<open>The requests\<close>

lemma widened: "unat (ucast w :: u64) = unat w \<and> unat w < 2 ^ 32" for w :: u32
proof -
  have "unat w < 2 ^ 32" using unsigned_less [of w] by simp
  then show ?thesis by (simp add: unsigned_ucast_eq take_bit_nat_eq_self)
qed

lemma request_size:
  fixes max_memory :: u64 and tot :: u32
  assumes "sint (ucast tot :: u64) < sint max_memory" "uniform_of u (ucast (max_memory - ucast tot - 1)) + 1 = (k :: u32)"
  shows "unat tot + unat k \<le> unat max_memory \<and> 0 < unat k"
proof -
  let ?m = "ucast (max_memory - ucast tot - 1 :: u64) :: u32"
  have below: "unat w < 2 ^ 32" for w :: u32 using widened by blast
  have t: "unat (ucast tot :: u64) = unat tot" using widened by blast
  have s: "sint (ucast tot :: u64) = int (unat tot)"
  proof -
    have "uint tot < 4294967296" "0 \<le> uint tot" using unsigned_less [of tot] by simp_all
    then have "0 \<le> uint tot" "- (9223372036854775808) \<le> uint tot" "uint tot < 9223372036854775808" "uint tot < 18446744073709551616"
      by linarith+
    then have "take_bit 64 (uint tot) = uint tot" "signed_take_bit 63 (uint tot) = uint tot" by (intro take_bit_int_eq_self signed_take_bit_int_eq_self; simp)+
    then show ?thesis by (simp add: sint_uint unsigned_ucast_eq)
  qed
  then have lt: "int (unat tot) < sint max_memory" using assms(1) by simp
  then have pos: "0 < sint max_memory" by (rule le_less_trans [OF of_nat_0_le_iff])
  then have m: "sint max_memory = int (unat max_memory)" using unat_nonneg [of max_memory] pos by simp
  then have lt: "unat tot < unat max_memory" using lt by (simp only: of_nat_less_iff)
  have d: "unat (max_memory - ucast tot - 1) = unat max_memory - unat tot - 1"
  proof -
    have le: "(ucast tot :: u64) \<le> max_memory" using lt t by (simp add: word_le_nat_alt)
    then have e: "unat (max_memory - ucast tot) = unat max_memory - unat tot" using t by (simp add: unat_sub)
    then have "1 \<le> max_memory - ucast tot" using lt by (simp add: word_le_nat_alt)
    then show ?thesis using e by (simp add: unat_sub)
  qed
  have mb: "unat ?m \<le> unat max_memory - unat tot - 1" using d by (simp add: unsigned_ucast_eq take_bit_nat_def)
  show ?thesis
  proof (cases "?m = 0")
    case True
    then have "k = 1" using assms(2) by (simp add: uniform_of_0)
    then show ?thesis using lt by simp
  next
    case False
    then have "0 < ?m" by (simp add: word_gt_0)
    then have u: "unat (uniform_of u ?m) < unat ?m" using uniform_of_less [of ?m u] by (simp add: word_less_nat_alt)
    then have "unat (uniform_of u ?m) + 1 < 2 ^ 32" using below [of ?m] by linarith
    then have "unat k = unat (uniform_of u ?m) + 1" using assms(2) by (auto simp: unat_plus_simple [THEN iffD1] unat_word_ariths)
    then show ?thesis using u mb lt by linarith
  qed
qed

definition rq_inv :: "((addr \<rightharpoonup> u64) \<Rightarrow> 'h \<Rightarrow> bool) \<Rightarrow> (addr \<rightharpoonup> u64) \<Rightarrow> 'h mm_test \<Rightarrow> bool" where
  "rq_inv ok L s \<longleftrightarrow> ok (requested (mm_rqs s) L) (heap_of (mt_sh s)) \<and> distinct (map fst (mm_rqs s)) \<and>
     fst ` set (mm_rqs s) \<inter> dom L = {} \<and> list_all area_ok (mm_rqs s) \<and> uoutOpen (io (mt_sh s)) \<and>
     length (mm_rqs s) \<le> MAX_BLOCKS"

definition rq_sum :: "'h mm_test \<Rightarrow> nat" where
  "rq_sum s = sum_list (map (\<lambda>x. unat (snd x)) (mm_rqs s))"

lemma printMemState_ok: "\<exists>cs. printMemState ans child sh = Some (sh\<lparr>calls := cs\<rparr>)"
  using uintToBase_text [of 10 "replicate 200 0" "word_of_int child"]
  by (auto simp: printMemState_def Let_def call_def)

lemma no_memory_message:
  assumes "uoutOpen (io sh)"
  shows "\<exists>s. pf (lit ''Not enough memory to allocate: %u B\<newline>'') [Num w] sh = Some (sh\<lparr>io := s\<rparr>)"
  using number_message [OF _ _ _ assms, of "text_of ''Not enough memory to allocate: ''" "text_of '' B\<newline>''" Uns w]
  by (auto simp: text_of_def lit_def)

lemma plain_messages:
  assumes "uoutOpen (io sh)"
  shows "\<exists>s. pf (lit ''After allocation:\<newline>'') [] sh = Some (sh\<lparr>io := s\<rparr>) \<and> uoutOpen s"
    "\<exists>s. pf (lit ''After free:\<newline>'') [] sh = Some (sh\<lparr>io := s\<rparr>) \<and> uoutOpen s"
  using literal_message [OF _ assms, of "text_of ''After allocation:\<newline>''"] literal_message [OF _ assms, of "text_of ''After free:\<newline>''"]
  by (auto simp: text_of_def lit_def)

context separated_allocator
begin

lemma requests_ok:
  assumes "rq_inv ok L s"
  shows "\<exists>r. request_loop M ans child max_memory tot s = Some r \<and>
    (case r of Inl (code, sh) \<Rightarrow> code = NO_MEMORY_AVAILABLE | Inr s' \<Rightarrow> rq_inv ok L s')"
  using assms
proof (induction "MAX_BLOCKS - length (mm_rqs s)" arbitrary: tot s rule: less_induct)
  case less
  show ?case
  proof (cases "length (mm_rqs s) < MAX_BLOCKS \<and> sint (ucast tot :: u64) < sint max_memory")
    case False
    then have "request_loop M ans child max_memory tot s = Some (Inr s)" by (subst request_loop.simps) (simp only: if_False)
    then show ?thesis using less.prems by simp
  next
    case True
    obtain u r where u: "GetUniform (ucast (max_memory - ucast tot - 1)) (mt_numbers s) = (u, r)" by fastforce
    let ?n = "u + 1"
    have n: "unat (ucast ?n :: u64) < 2 ^ 63" "unat (ucast ?n :: u64) = unat ?n" using widened [of ?n] by simp_all
    have ok: "ok (requested (mm_rqs s) L) (heap_of (mt_sh s))" using less.prems by (simp add: rq_inv_def)
    from ok n(1) show ?thesis
    proof (cases rule: malloc_cases)
      case (full h)
      obtain io1 where "pf (lit ''Not enough memory to allocate: %u B\<newline>'') [Num (ucast ?n)] ((mt_sh s)\<lparr>heap_of := h\<rparr>) =
          Some ((mt_sh s)\<lparr>heap_of := h, io := io1\<rparr>)"
        using no_memory_message [of "(mt_sh s)\<lparr>heap_of := h\<rparr>" "ucast ?n"] less.prems by (auto simp: rq_inv_def)
      moreover obtain cs where "printMemState ans child ((mt_sh s)\<lparr>heap_of := h, io := io1\<rparr>) =
          Some ((mt_sh s)\<lparr>heap_of := h, io := io1, calls := cs\<rparr>)"
        using printMemState_ok by blast
      ultimately show ?thesis using True u full(1) by (subst request_loop.simps) (simp add: Let_def)
    next
      case (fresh p h)
      let ?s = "s\<lparr>mm_rqs := mm_rqs s @ [(p, ?n)], mt_numbers := r, mt_sh := (mt_sh s)\<lparr>heap_of := h\<rparr>\<rparr>"
      have "rq_inv ok L ?s"
        using less.prems fresh(2-4,6) n(2) True
        by (auto simp: rq_inv_def requested_snoc requested_dom area_ok_def)
      moreover have "MAX_BLOCKS - length (mm_rqs ?s) < MAX_BLOCKS - length (mm_rqs s)" using True by (auto intro: diff_less_mono2)
      ultimately obtain res where res: "request_loop M ans child max_memory (tot + ?n) ?s = Some res"
        "case res of Inl (code, sh) \<Rightarrow> code = NO_MEMORY_AVAILABLE | Inr s' \<Rightarrow> rq_inv ok L s'"
        using less.hyps by blast
      have "request_loop M ans child max_memory tot s = request_loop M ans child max_memory (tot + ?n) ?s"
        using True u fresh(1,2) by (subst request_loop.simps) (simp add: Let_def)
      then show ?thesis using res by simp
    qed
  qed
qed

lemma requests_separate:
  assumes "rq_inv ok L s"
  shows "separate (mm_rqs s)"
proof -
  let ?rqs = "mm_rqs s"
  have "areas_apart (?rqs ! i) (?rqs ! j)" if "i < j" "j < length ?rqs" for i j
  proof -
    obtain a n b k where x: "?rqs ! i = (a, n)" "?rqs ! j = (b, k)" by fastforce
    have d: "distinct (map fst ?rqs)" using assms by (simp add: rq_inv_def)
    have "a \<noteq> b" using nth_eq_iff_index_eq [OF d, of i j] that x by auto
    moreover have "(a, n) \<in> set ?rqs" "(b, k) \<in> set ?rqs" using that x by (metis nth_mem order.strict_trans)+
    then have "requested ?rqs L a = Some (ucast n)" "requested ?rqs L b = Some (ucast k)" using requested_in d by blast+
    ultimately show ?thesis using assms blocks_apart [of "requested ?rqs L" "heap_of (mt_sh s)" a "ucast n" b "ucast k"] x
      by (auto simp: rq_inv_def areas_apart_def widened)
  qed
  then show ?thesis using assms by (simp add: separate_def rq_inv_def sorted_wrt_iff_nth_less)
qed

lemma free_loop_ok:
  assumes "ok (requested rqs L) h" "distinct (map fst rqs)" "fst ` set rqs \<inter> dom L = {}" "list_all area_ok rqs"
  shows "\<exists>h'. free_loop M rqs h = Some h' \<and> ok L h'"
  using assms
proof (induction rqs arbitrary: h)
  case (Cons x rqs)
  obtain a n where x: "x = (a, n)" by (cases x)
  have a: "a \<noteq> NULL" "a \<notin> fst ` set rqs" "a \<notin> dom L" using Cons.prems x by (auto simp: area_ok_def)
  have "(requested (x # rqs) L)(a := None) = requested rqs (L(a := None))"
    using requested_upd [OF a(2), of "L(a \<mapsto> ucast n)" None] x by simp
  moreover have "L(a := None) = L" using a(3) by (auto simp: dom_def)
  moreover have "a \<in> dom (requested (x # rqs) L)" using x by (simp add: requested_dom)
  ultimately obtain h1 where h1: "mm_free M a h = Some h1" "ok (requested rqs L) h1"
    using free_ok [OF Cons.prems(1), of a] by auto
  then show ?case using Cons.IH [OF h1(2)] Cons.prems a(1) x by auto
qed simp

lemma round_ok:
  assumes "ok L (heap_of (mt_sh s))" "uoutOpen (io (mt_sh s))"
  shows "\<exists>r. mm_round M ans child max_memory s = Some r \<and>
    (case r of Inl (code, sh) \<Rightarrow> code = NO_MEMORY_AVAILABLE
     | Inr s' \<Rightarrow> ok L (heap_of (mt_sh s')) \<and> uoutOpen (io (mt_sh s')) \<and>
         (\<exists>s1. request_loop M ans child max_memory 0 (s\<lparr>mm_rqs := []\<rparr>) = Some (Inr s1) \<and> mm_rqs s' = mm_rqs s1))"
proof -
  have "rq_inv ok L (s\<lparr>mm_rqs := []\<rparr>)" using assms by (simp add: rq_inv_def)
  from requests_ok [OF this, of ans child max_memory 0] obtain r where
    r: "request_loop M ans child max_memory 0 (s\<lparr>mm_rqs := []\<rparr>) = Some r"
    "case r of Inl (code, sh) \<Rightarrow> code = NO_MEMORY_AVAILABLE | Inr s' \<Rightarrow> rq_inv ok L s'" by blast
  show ?thesis
  proof (cases r)
    case (Inl e)
    then show ?thesis using r by (simp add: mm_round_def)
  next
    case (Inr s1)
    let ?rqs = "mm_rqs s1"
    have inv: "rq_inv ok L s1" using r(2) Inr by simp
    obtain m where m: "set_loop 0 ?rqs (mt_bytes s1) = Some m"
      "\<forall>j < length ?rqs. load_area (fst (?rqs ! j)) (unat (snd (?rqs ! j))) m = replicate (unat (snd (?rqs ! j))) (of_nat (0 + j))"
      using set_loop_fills [OF requests_separate [OF inv], of 0 "mt_bytes s1"] by blast
    have check: "check_loop 0 ?rqs m = Some True" using m(2) by (rule check_loop_passes)
    let ?sh1 = "snd (call ans (Sleep 1000) (mt_sh s1))"
    have sh1: "uoutOpen (io ?sh1)" "heap_of ?sh1 = heap_of (mt_sh s1)" using inv by (simp_all add: rq_inv_def call_def Let_def)
    obtain io2 where io2: "pf (lit ''After allocation:\<newline>'') [] ?sh1 = Some (?sh1\<lparr>io := io2\<rparr>)" "uoutOpen io2"
      using plain_messages(1) [OF sh1(1)] by blast
    obtain cs3 where sh3: "printMemState ans child (?sh1\<lparr>io := io2\<rparr>) = Some (?sh1\<lparr>io := io2, calls := cs3\<rparr>)"
      using printMemState_ok by blast
    obtain h where h: "free_loop M ?rqs (heap_of (mt_sh s1)) = Some h" "ok L h"
      using free_loop_ok inv by (fastforce simp: rq_inv_def)
    let ?sh3 = "?sh1\<lparr>io := io2, calls := cs3, heap_of := h\<rparr>"
    obtain io4 where io4: "pf (lit ''After free:\<newline>'') [] ?sh3 = Some (?sh3\<lparr>io := io4\<rparr>)" "uoutOpen io4"
      using plain_messages(2) [of ?sh3] io2(2) by auto
    obtain cs5 where sh5: "printMemState ans child (?sh3\<lparr>io := io4\<rparr>) = Some (?sh3\<lparr>io := io4, calls := cs5\<rparr>)"
      using printMemState_ok by blast
    have "mm_round M ans child max_memory s = Some (Inr (s1\<lparr>mt_bytes := m, mt_sh := ?sh3\<lparr>io := io4, calls := cs5\<rparr>\<rparr>))"
      using r(1) Inr m(1) io2(1) sh3 check h(1) sh1(2) io4(1) sh5 by (simp add: mm_round_def Let_def)
    then show ?thesis using h(2) io4(2) r(1) Inr by auto
  qed
qed

end

text \<open>Never more than ten blocks, and never more bytes than the parameter allows.\<close>

lemma requests_bounded:
  assumes "request_loop M ans child max_memory tot s = Some (Inr s')" "length (mm_rqs s) \<le> MAX_BLOCKS"
    "unat tot = rq_sum s" "rq_sum s \<le> unat max_memory" "unat max_memory < 2 ^ 32"
  shows "length (mm_rqs s') \<le> MAX_BLOCKS \<and> rq_sum s' \<le> unat max_memory"
  using assms
proof (induction "MAX_BLOCKS - length (mm_rqs s)" arbitrary: tot s rule: less_induct)
  case less
  show ?case
  proof (cases "length (mm_rqs s) < MAX_BLOCKS \<and> sint (ucast tot :: u64) < sint max_memory")
    case False
    then have "request_loop M ans child max_memory tot s = Some (Inr s)" by (subst request_loop.simps) (simp only: if_False)
    then show ?thesis using less.prems by simp
  next
    case True
    obtain u r where u: "GetUniform (ucast (max_memory - ucast tot - 1)) (mt_numbers s) = (u, r)" by fastforce
    let ?n = "u + 1"
    obtain p h where p: "mm_malloc M (ucast ?n) (heap_of (mt_sh s)) = Some (p, h)" "p \<noteq> NULL"
      "request_loop M ans child max_memory (tot + ?n)
         (s\<lparr>mm_rqs := mm_rqs s @ [(p, ?n)], mt_numbers := r, mt_sh := (mt_sh s)\<lparr>heap_of := h\<rparr>\<rparr>) = Some (Inr s')"
      using less.prems(1) True u by (subst (asm) request_loop.simps) (auto simp: Let_def bind_eq_Some_conv split: if_splits)
    let ?s = "s\<lparr>mm_rqs := mm_rqs s @ [(p, ?n)], mt_numbers := r, mt_sh := (mt_sh s)\<lparr>heap_of := h\<rparr>\<rparr>"
    obtain v where "u = uniform_of v (ucast (max_memory - ucast tot - 1))" using u by (auto simp: GetUniform_def split: prod.splits)
    then have b: "unat tot + unat ?n \<le> unat max_memory" using request_size [of tot max_memory v ?n] True by simp
    then have "unat (tot + ?n) = unat tot + unat ?n" using less.prems(5) by (simp add: unat_plus_if_size word_size)
    then have "unat (tot + ?n) = rq_sum ?s" "rq_sum ?s \<le> unat max_memory" using less.prems(3) b by (simp_all add: rq_sum_def)
    then show ?thesis using True less.prems(5) by (intro less.hyps [OF _ p(3)]) (auto intro: diff_less_mono2)
  qed
qed

interpretation freelist_areas: separated_allocator freelist_mm freelist_ok
proof
  fix A h p m q n
  assume a: "freelist_ok A h" "A p = Some m" "A q = Some n" "p \<noteq> q"
  obtain base L where L: "held base (h, L)" "A = map_of L" using a(1) by (auto simp: freelist_ok_def)
  have in_L: "(p, m) \<in> set L" "(q, n) \<in> set L" using a(2,3) L(2) by (auto dest: map_of_SomeD)
  obtain fs al where rel: "heap_rel base fs al h" and al: "list_all2 payload L al" using L(1) by (auto simp: held_def)
  obtain st e where lay: "layout base e fs al" using rel by (rule heap_relE)
  obtain b where b: "b \<in> set al" "payload (p, m) b" using held_pointer [OF al in_L(1)] .
  obtain c where c: "c \<in> set al" "payload (q, n) c" using held_pointer [OF al in_L(2)] .
  have "b \<noteq> c" using payload_inj [OF lay b(1) c(1) b(2) c(2)] a(4) by simp
  then have "apart b c" using layoutD(6) [OF lay b(1) c(1)] by simp
  then show "unat p + unat m \<le> unat q \<or> unat q + unat n \<le> unat p"
    using payload_addr(1) [OF lay b] payload_addr(1) [OF lay c] b(2) c(2) by (auto simp: apart_def payload_def)
qed

section \<open>Property\<close>

text \<open>
  C35: over the free-list manager a round of the memory test always returns and never reports an error: it
  ends with the message that there is no memory left, or it has asked for at most ten blocks with at most
  as many bytes as it was told to use, has found its byte everywhere in each of them, and has given all of
  them back, so that the heap holds what it held before.
\<close>

theorem test_mm_round_passes:
  assumes "freelist_ok L (heap_of (mt_sh s))" "uoutOpen (io (mt_sh s))" "unat max_memory < 2 ^ 32"
  shows "\<exists>r. mm_round freelist_mm ans child max_memory s = Some r \<and>
    (case r of Inl (code, sh) \<Rightarrow> code = NO_MEMORY_AVAILABLE
     | Inr s' \<Rightarrow> freelist_ok L (heap_of (mt_sh s')) \<and> uoutOpen (io (mt_sh s')) \<and>
         length (mm_rqs s') \<le> MAX_BLOCKS \<and> rq_sum s' \<le> unat max_memory)"
proof -
  from freelist_areas.round_ok [OF assms(1,2)] obtain r where
    r: "mm_round freelist_mm ans child max_memory s = Some r"
    "case r of Inl (code, sh) \<Rightarrow> code = NO_MEMORY_AVAILABLE
     | Inr s' \<Rightarrow> freelist_ok L (heap_of (mt_sh s')) \<and> uoutOpen (io (mt_sh s')) \<and>
         (\<exists>s1. request_loop freelist_mm ans child max_memory 0 (s\<lparr>mm_rqs := []\<rparr>) = Some (Inr s1) \<and> mm_rqs s' = mm_rqs s1)"
    by blast
  have "length (mm_rqs s') \<le> MAX_BLOCKS \<and> rq_sum s' \<le> unat max_memory"
    if rs: "r = Inr s'" for s'
  proof -
    obtain s1 where s1: "request_loop freelist_mm ans child max_memory 0 (s\<lparr>mm_rqs := []\<rparr>) = Some (Inr s1)" "mm_rqs s' = mm_rqs s1"
      using r(2) rs by auto
    have "length (mm_rqs s1) \<le> MAX_BLOCKS \<and> rq_sum s1 \<le> unat max_memory"
      by (rule requests_bounded [OF s1(1)]) (use assms(3) in \<open>simp_all add: rq_sum_def\<close>)
    then show ?thesis using s1(2) by (simp add: rq_sum_def)
  qed
  then show ?thesis using r by (cases r) auto
qed

theorem test_mm_round_passes_witness:
  "\<forall>ans child (sh :: heap shell) m. \<exists>r.
    mm_round freelist_mm ans child 2048 \<lparr>mm_rqs = [], mt_bytes = m, mt_numbers = rng_init,
      mt_sh = sh\<lparr>heap_of := demo_heap, io := (io sh)\<lparr>uoutOpen := True\<rparr>\<rparr>\<rparr> = Some r \<and>
    (case r of Inl (code, sh) \<Rightarrow> code = NO_MEMORY_AVAILABLE
     | Inr s' \<Rightarrow> freelist_ok Map.empty (heap_of (mt_sh s')) \<and> uoutOpen (io (mt_sh s')) \<and>
         length (mm_rqs s') \<le> MAX_BLOCKS \<and> rq_sum s' \<le> unat (2048 :: u64))"
proof (intro allI test_mm_round_passes)
  fix sh :: "heap shell" and m
  have "freelist_ok Map.empty demo_heap"
    using demo_rel unfolding freelist_ok_def held_def by (intro exI [of _ 4096] exI [of _ "[]"]) auto
  then show "freelist_ok Map.empty (heap_of (mt_sh \<lparr>mm_rqs = [], mt_bytes = m, mt_numbers = rng_init,
      mt_sh = sh\<lparr>heap_of := demo_heap, io := (io sh)\<lparr>uoutOpen := True\<rparr>\<rparr>\<rparr>))" by simp
qed simp_all

end
