(* ===== verification/PhyloTable.thy ===== *)
theory PhyloTable
  imports UTests Philosophers CommandProps "HOL-Library.Multiset"
begin

text \<open>
  The process that sets the table of the dining philosophers (\<open>commandPhylo\<close> of \<open>phyloTest.c\<close>), with the
  system calls it makes; the philosophers themselves are in theory \<open>Philosophers\<close>. A function ends with
  the new state or with the exit of the process.
\<close>

section \<open>The program\<close>

text \<open>\<open>phylo[i].fork_at_index\<close> and \<open>phylo[i].pid\<close> up to \<open>phylos_on_table\<close>; the entries behind are not used.\<close>

record 'h phylo_table =
  seats :: "(int \<times> int) list"
  change_phylos_sem :: int
  print_mutex :: int
  psh :: "'h shell"

type_synonym 'h pt_result = "((int \<times> 'h shell) + 'h phylo_table) option"

definition phylos_on_table :: "'h phylo_table \<Rightarrow> nat" where "phylos_on_table t = length (seats t)"

definition pt_exit :: "int \<Rightarrow> 'h shell \<Rightarrow> 'h pt_result" where "pt_exit n sh = Some (Inl (n, sh))"

definition say_nr :: "byte list \<Rightarrow> int \<Rightarrow> 'h phylo_table \<Rightarrow> 'h phylo_table option" where
  "say_nr fmt n t = do { sh \<leftarrow> pf fmt [i32 n] (psh t); Some (t\<lparr>psh := sh\<rparr>) }"

fun call_times :: "kernel_answers \<Rightarrow> syscall \<Rightarrow> nat \<Rightarrow> 'h shell \<Rightarrow> 'h shell" where
  "call_times ans c 0 sh = sh"
| "call_times ans c (Suc n) sh = call_times ans c n (snd (call ans c sh))"

definition blockAll_calls :: "kernel_answers \<Rightarrow> 'h phylo_table \<Rightarrow> 'h phylo_table" where
  "blockAll_calls ans t = t\<lparr>psh := call_times ans (SemWait (change_phylos_sem t)) (phylos_on_table t) (psh t)\<rparr>"

definition freeAll_calls :: "kernel_answers \<Rightarrow> 'h phylo_table \<Rightarrow> 'h phylo_table" where
  "freeAll_calls ans t = t\<lparr>psh := call_times ans (SemPost (change_phylos_sem t)) (phylos_on_table t) (psh t)\<rparr>"

text \<open>\<open>sysCreateProcess\<close> of the philosopher at \<open>pos\<close> with fork \<open>sem\<close>; its number is a string of at most two digits.\<close>

definition seat_one :: "kernel_answers \<Rightarrow> int \<Rightarrow> 'h phylo_table \<Rightarrow> 'h phylo_table option" where
  "seat_one ans sem t = do {
     (buf, _) \<leftarrow> uintToBase (of_nat (phylos_on_table t)) (replicate 3 0) 10;
     let (child, sh) = call ans (CreateProcess [lit ''philosopher'', cstr buf @ [0]] ''myPhyloProcess'') (psh t);
     Some (t\<lparr>seats := seats t @ [(sem, child)], psh := sh\<rparr>) }"

text \<open>\<open>addPhylo(phylos_on_table)\<close>: the returned value is \<open>-2\<close>, \<open>-1\<close> or \<open>0\<close>.\<close>

definition addPhylo_calls :: "kernel_answers \<Rightarrow> 'h phylo_table \<Rightarrow> (int \<times> 'h phylo_table) option" where
  "addPhylo_calls ans t =
     (if phylos_on_table t < PHYLO_MIN_AMOUNT \<or> phylos_on_table t \<ge> PHYLO_MAX_AMOUNT then Some (- 2, t)
      else do {
        let t1 = blockAll_calls ans t;
        let (sem, sh) = call ans (SemInit 1) (psh t1);
        let t2 = t1\<lparr>psh := sh\<rparr>;
        if sem = - 1
        then do { sh3 \<leftarrow> pf (lit ''Failed creating semaphore\<newline>'') [] sh; Some (- 1, freeAll_calls ans (t2\<lparr>psh := sh3\<rparr>)) }
        else do {
          t3 \<leftarrow> seat_one ans sem t2;
          t4 \<leftarrow> say_nr (lit ''Philosopher number %d has joined the table\<newline>'') (int (phylos_on_table t) + 1) (freeAll_calls ans t3);
          Some (0, t4) } })"

text \<open>\<open>remPhylo(phylos_on_table - 1)\<close>.\<close>

definition remPhylo_calls :: "kernel_answers \<Rightarrow> 'h phylo_table \<Rightarrow> (int \<times> 'h phylo_table) option" where
  "remPhylo_calls ans t =
     (let pos = int (phylos_on_table t) - 1
      in if pos < int PHYLO_MIN_AMOUNT then Some (- 2, t)
      else do {
        let t1 = blockAll_calls ans t;
        let (fork, child) = last (seats t);
        let (killed, sh2) = call ans (Kill child) (psh t1);
        if killed = 0
        then do {
          t3 \<leftarrow> say_nr (lit ''Error killing Philosopher %d's process.\<newline>'') pos (t1\<lparr>psh := sh2\<rparr>);
          Some (- 1, freeAll_calls ans t3) }
        else do {
          let (destroyed, sh3) = call ans (DestroySemaphore fork) sh2;
          if destroyed = 0
          then do {
            t4 \<leftarrow> say_nr (lit ''Error destroying Philosopher %d's semaphore.\<newline>'') pos (t1\<lparr>psh := sh3\<rparr>);
            Some (- 1, freeAll_calls ans t4) }
          else do {
            t4 \<leftarrow> say_nr (lit ''Philosopher number %d has left the table\<newline>'') (pos + 1)
              (t1\<lparr>seats := butlast (seats t1), psh := sh3\<rparr>);
            Some (0, freeAll_calls ans t4) } } })"

text \<open>The loop of \<open>endPhylos\<close>; \<open>||\<close> leaves out the call of \<open>sysKill\<close> when the semaphore is not destroyed.\<close>

function end_loop :: "kernel_answers \<Rightarrow> 'h phylo_table \<Rightarrow> 'h pt_result" where
  "end_loop ans t =
     (if phylos_on_table t > 0
      then do {
        let (fork, child) = last (seats t);
        let (destroyed, sh1) = call ans (DestroySemaphore fork) (psh t);
        let (killed, sh2) = (if destroyed = 0 then (0, sh1) else call ans (Kill child) sh1);
        if destroyed = 0 \<or> killed = 0
        then do {
          t3 \<leftarrow> say_nr (lit ''Error deleting philosopher %d\<newline>'') (int (phylos_on_table t)) (t\<lparr>psh := sh2\<rparr>);
          pt_exit PROCESS_FAILURE (psh (freeAll_calls ans t3)) }
        else do {
          sh3 \<leftarrow> pf (lit ''Philosopher %d  has left the table\<newline>'') [i32 (int (phylos_on_table t))] sh2;
          end_loop ans (t\<lparr>seats := butlast (seats t), psh := sh3\<rparr>) } }
      else Some (Inr t))"
  by pat_completeness auto
termination
  by (relation "measure (\<lambda>(ans, t). length (seats t))") (auto simp: phylos_on_table_def)

declare end_loop.simps [simp del]

definition endPhylos :: "kernel_answers \<Rightarrow> 'h phylo_table \<Rightarrow> 'h pt_result" where
  "endPhylos ans t = do {
     res \<leftarrow> end_loop ans (blockAll_calls ans t);
     case res of
       Inl e \<Rightarrow> Some (Inl e)
     | Inr t1 \<Rightarrow> do {
         let (d1, sh1) = call ans (DestroySemaphore (change_phylos_sem t1)) (psh t1);
         let (d2, sh2) = (if d1 = 0 then (0, sh1) else call ans (DestroySemaphore (print_mutex t1)) sh1);
         if d1 = 0 \<or> d2 = 0
         then do { sh3 \<leftarrow> pf (lit ''Error deleting mutex\<newline>'') [] sh2; pt_exit PROCESS_FAILURE sh3 }
         else do {
           sh3 \<leftarrow> pf (lit ''All philosophers have left the table.\<newline>'') [] sh2;
           Some (Inr (t1\<lparr>psh := sh3\<rparr>)) } } }"

text \<open>The first philosophers.\<close>

fun seat_loop :: "kernel_answers \<Rightarrow> nat \<Rightarrow> 'h phylo_table \<Rightarrow> 'h pt_result" where
  "seat_loop ans 0 t = Some (Inr t)"
| "seat_loop ans (Suc n) t = do {
     let (sem, sh) = call ans (SemInit 1) (psh t);
     if sem = - 1
     then do { sh1 \<leftarrow> pf (lit ''Error creating semaphore\<newline>'') [] sh; pt_exit PROCESS_FAILURE sh1 }
     else do {
       t1 \<leftarrow> seat_one ans sem (t\<lparr>psh := sh\<rparr>);
       t2 \<leftarrow> say_nr (lit ''Philosopher number %d has joined the table\<newline>'') (int (phylos_on_table t) + 1) t1;
       seat_loop ans n t2 } }"

text \<open>The keys; at the end of the input the function returns, although a process has to exit: a fault.\<close>

partial_function (option) phylo_keys :: "kernel_answers \<Rightarrow> byte \<Rightarrow> 'h phylo_table \<Rightarrow> (int \<times> 'h shell) option" where
  [code]: "phylo_keys ans old t = do {
     (key, go, s) \<leftarrow> getKey old (io (psh t));
     let t0 = t\<lparr>psh := (psh t)\<lparr>io := s\<rparr>\<rparr>;
     if \<not> go then None
     else if key = 97 \<or> key = 65
     then do {
       t1 \<leftarrow> say_nr (lit ''Adding philosopher %d... \<newline>'') (int (phylos_on_table t0) + 1) t0;
       (r, t2) \<leftarrow> addPhylo_calls ans t1;
       if r = - 1 then Some (PROCESS_FAILURE, psh t2)
       else if r = - 2
       then do { sh \<leftarrow> pf (lit ''Can't add more philosophers\<newline>'') [] (psh t2); phylo_keys ans key (t2\<lparr>psh := sh\<rparr>) }
       else phylo_keys ans key t2 }
     else if key = 114 \<or> key = 82
     then do {
       t1 \<leftarrow> say_nr (lit ''Removing philosopher %d... \<newline>'') (int (phylos_on_table t0)) t0;
       (r, t2) \<leftarrow> remPhylo_calls ans t1;
       if r = - 1 then Some (PROCESS_FAILURE, psh t2)
       else if r = - 2
       then do { sh \<leftarrow> pf (lit ''Can't remove more philosophers\<newline>'') [] (psh t2); phylo_keys ans key (t2\<lparr>psh := sh\<rparr>) }
       else phylo_keys ans key t2 }
     else if key = 101 \<or> key = 69
     then do {
       sh \<leftarrow> pf (lit ''Ending philosophers...\<newline>'') [] (psh t0);
       res \<leftarrow> endPhylos ans (t0\<lparr>psh := sh\<rparr>);
       case res of Inl e \<Rightarrow> Some e | Inr t1 \<Rightarrow> sysExit SUCCESS (psh t1) }
     else phylo_keys ans key t0 }"

definition commandPhylo :: "kernel_answers \<Rightarrow> byte \<Rightarrow> argv \<Rightarrow> 'h process" where
  "commandPhylo ans uninitialised argv sh =
     (if length argv \<noteq> 1 then sysExit TOO_MANY_ARGUMENTS sh
      else do {
        let (change, sh1) = call ans (SemInit (int PHYLO_AMOUNT)) sh;
        let (mutex, sh2) = call ans (SemInit 1) sh1;
        if change = - 1 \<or> mutex = - 1
        then do { sh3 \<leftarrow> pf (lit ''Error creating mutex\<newline>'') [] sh2; sysExit PROCESS_FAILURE sh3 }
        else do {
          let sh3 = call_times ans (SemWait change) PHYLO_AMOUNT sh2;
          res \<leftarrow> seat_loop ans PHYLO_AMOUNT \<lparr>seats = [], change_phylos_sem = change, print_mutex = mutex, psh = sh3\<rparr>;
          case res of Inl e \<Rightarrow> Some e | Inr t \<Rightarrow> phylo_keys ans uninitialised (freeAll_calls ans t) } })"

end
