(* ===== verification/PhyloTableProps.thy ===== *)
theory PhyloTableProps
  imports PhyloTable UTestProps
begin

text \<open>
  What the process of the dining philosophers holds: the semaphores it has created and not destroyed and
  the processes it has started and not killed, read off its system calls and their answers.
\<close>

section \<open>Semaphores and processes held\<close>

fun effect :: "syscall \<Rightarrow> int \<Rightarrow> int multiset \<times> int multiset \<Rightarrow> int multiset \<times> int multiset" where
  "effect (SemInit v) a (S, P) = (if a = - 1 then S else add_mset a S, P)"
| "effect (DestroySemaphore s) a (S, P) = (if a = 0 then S else S - {#s#}, P)"
| "effect (CreateProcess argv f) a (S, P) = (S, if a = - 1 then P else add_mset a P)"
| "effect (Kill p) a (S, P) = (S, if a = 0 then P else P - {#p#})"
| "effect _ a r = r"

fun held_rev :: "kernel_answers \<Rightarrow> syscall list \<Rightarrow> int multiset \<times> int multiset" where
  "held_rev ans [] = ({#}, {#})"
| "held_rev ans (c # r) = effect c (ans (rev (c # r))) (held_rev ans r)"

definition held_after :: "kernel_answers \<Rightarrow> syscall list \<Rightarrow> int multiset \<times> int multiset" where
  "held_after ans cs = held_rev ans (rev cs)"

lemma held_after_snoc: "held_after ans (cs @ [c]) = effect c (ans (cs @ [c])) (held_after ans cs)"
  by (simp add: held_after_def)

lemma call_held: "call ans c sh = (a, sh1) \<Longrightarrow> held_after ans (calls sh1) = effect c a (held_after ans (calls sh))"
  by (auto simp: call_def Let_def held_after_snoc)

lemma no_failed_process: "- 1 \<notin># snd (held_after ans cs)"
proof (induction cs rule: rev_induct)
  case (snoc c cs)
  obtain S P where h: "held_after ans cs = (S, P)" by fastforce
  have "effect c a (S, P) = (S', P') \<Longrightarrow> - 1 \<notin># P \<Longrightarrow> - 1 \<notin># P'" for a S' P'
    by (cases c) (auto split: if_splits dest: in_diffD)
  then show ?case using snoc h unfolding held_after_snoc by (metis prod.collapse snd_conv)
qed (simp add: held_after_def)

lemma call_times_held:
  assumes "\<And>a r. effect c a r = r"
  shows "held_after ans (calls (call_times ans c n sh)) = held_after ans (calls sh)"
  by (induction n arbitrary: sh) (simp_all add: held_after_snoc assms)

text \<open>The process holds what it held at \<open>R\<close> and what is on the table.\<close>

definition table_holds :: "int multiset \<times> int multiset \<Rightarrow> kernel_answers \<Rightarrow> 'h phylo_table \<Rightarrow> bool" where
  "table_holds R ans t \<longleftrightarrow> held_after ans (calls (psh t)) =
     (fst R + {#change_phylos_sem t, print_mutex t#} + mset (map fst (seats t)),
      snd R + filter_mset (\<lambda>p. p \<noteq> - 1) (mset (map snd (seats t)))) \<and> - 1 \<notin># snd R"

lemma table_holds_sh: "held_after ans (calls sh) = held_after ans (calls (psh t)) \<Longrightarrow> table_holds R ans (t\<lparr>psh := sh\<rparr>) = table_holds R ans t"
  by (simp add: table_holds_def)

lemma pf_table: "pf fmt args (psh t) = Some sh \<Longrightarrow> table_holds R ans (t\<lparr>psh := sh\<rparr>) = table_holds R ans t"
  by (intro table_holds_sh) (simp add: pf_calls)

lemma say_table: "say_nr fmt n t = Some t' \<Longrightarrow> table_holds R ans t' = table_holds R ans t"
  by (auto simp: say_nr_def bind_eq_Some_conv pf_table)

lemma say_seats: "say_nr fmt n t = Some t' \<Longrightarrow> seats t' = seats t"
  by (auto simp: say_nr_def bind_eq_Some_conv)

lemma block_table [simp]: "table_holds R ans (blockAll_calls ans t) = table_holds R ans t" "seats (blockAll_calls ans t) = seats t"
  by (simp_all add: blockAll_calls_def table_holds_sh call_times_held)

lemma free_table [simp]: "table_holds R ans (freeAll_calls ans t) = table_holds R ans t" "seats (freeAll_calls ans t) = seats t"
  by (simp_all add: freeAll_calls_def table_holds_sh call_times_held)

text \<open>A philosopher comes, with a new semaphore, and one goes.\<close>

lemma seat_table:
  assumes "table_holds R ans t" "call ans (SemInit 1) (psh t) = (sem, sh)" "sem \<noteq> - 1"
    "seat_one ans sem (t\<lparr>psh := sh\<rparr>) = Some t'"
  shows "table_holds R ans t'"
proof -
  obtain buf k where b: "uintToBase (of_nat (phylos_on_table (t\<lparr>psh := sh\<rparr>))) (replicate 3 0) 10 = Some (buf, k)"
    using assms(4) by (auto simp: seat_one_def bind_eq_Some_conv)
  obtain child sh2 where c1: "call ans (CreateProcess [lit ''philosopher'', cstr buf @ [0]] ''myPhyloProcess'') sh = (child, sh2)"
    by fastforce
  then have c: "call ans (CreateProcess [lit ''philosopher'', cstr buf @ [0]] ''myPhyloProcess'') sh = (child, sh2)"
    "t' = t\<lparr>seats := seats t @ [(sem, child)], psh := sh2\<rparr>"
    using assms(4) b by (simp_all add: seat_one_def)
  have "held_after ans (calls sh2) = effect (CreateProcess [lit ''philosopher'', cstr buf @ [0]] ''myPhyloProcess'') child
      (effect (SemInit 1) sem (held_after ans (calls (psh t))))"
    using call_held [OF c(1)] call_held [OF assms(2)] by simp
  then show ?thesis using assms(1,3) c(2) by (auto simp: table_holds_def)
qed

lemma unseat_table:
  assumes "table_holds R ans t" "seats t = xs @ [(fork, child)]"
    "held_after ans (calls sh) = effect (Kill child) k (effect (DestroySemaphore fork) d (held_after ans (calls (psh t))))"
    "d \<noteq> 0" "k \<noteq> 0"
  shows "table_holds R ans (t\<lparr>seats := xs, psh := sh\<rparr>)"
proof -
  have "P - {#- 1#} = P" if "- 1 \<notin># P" for P :: "int multiset" using that by (simp add: diff_single_trivial)
  then show ?thesis using assms by (auto simp: table_holds_def)
qed

lemma effects_commute:
  "effect (DestroySemaphore s) d (effect (Kill p) k r) = effect (Kill p) k (effect (DestroySemaphore s) d r)"
  by (cases r) simp

section \<open>The steps of the process\<close>

lemma add_table:
  assumes "table_holds R ans t" "addPhylo_calls ans t = Some (r, t')" "r \<noteq> - 1"
  shows "table_holds R ans t'"
proof (cases "phylos_on_table t < PHYLO_MIN_AMOUNT \<or> phylos_on_table t \<ge> PHYLO_MAX_AMOUNT")
  case True
  then show ?thesis using assms by (simp add: addPhylo_calls_def)
next
  case False
  obtain sem sh where c: "call ans (SemInit 1) (psh (blockAll_calls ans t)) = (sem, sh)" by fastforce
  have "sem \<noteq> - 1" using assms(2,3) False c by (auto simp: addPhylo_calls_def Let_def bind_eq_Some_conv)
  then obtain t3 t4 where t: "seat_one ans sem ((blockAll_calls ans t)\<lparr>psh := sh\<rparr>) = Some t3"
    "say_nr (lit ''Philosopher number %d has joined the table\<newline>'') (int (phylos_on_table t) + 1) (freeAll_calls ans t3) = Some t4"
    "t' = t4"
    using assms(2) False c by (auto simp: addPhylo_calls_def Let_def bind_eq_Some_conv)
  then show ?thesis using seat_table [OF _ c \<open>sem \<noteq> - 1\<close> t(1), of R] assms(1) say_table [OF t(2)] by simp
qed

lemma last_seat: "seats t \<noteq> [] \<Longrightarrow> last (seats t) = (fork, child) \<Longrightarrow> seats t = butlast (seats t) @ [(fork, child)]"
  by (metis append_butlast_last_id)

lemma rem_table:
  assumes "table_holds R ans t" "remPhylo_calls ans t = Some (r, t')" "r \<noteq> - 1"
  shows "table_holds R ans t'"
proof (cases "int (phylos_on_table t) - 1 < int PHYLO_MIN_AMOUNT")
  case True
  then show ?thesis using assms by (simp add: remPhylo_calls_def Let_def)
next
  case False
  let ?t1 = "blockAll_calls ans t"
  obtain fork child where l: "last (seats t) = (fork, child)" by fastforce
  obtain killed sh2 where k: "call ans (Kill child) (psh ?t1) = (killed, sh2)" by fastforce
  obtain destroyed sh3 where d: "call ans (DestroySemaphore fork) sh2 = (destroyed, sh3)" by fastforce
  have ok: "killed \<noteq> 0" "destroyed \<noteq> 0"
    using assms(2,3) False l k d by (auto simp: remPhylo_calls_def Let_def bind_eq_Some_conv split: if_splits)
  then obtain t4 where t4: "say_nr (lit ''Philosopher number %d has left the table\<newline>'') (int (phylos_on_table t) - 1 + 1)
      (?t1\<lparr>seats := butlast (seats ?t1), psh := sh3\<rparr>) = Some t4" "t' = freeAll_calls ans t4"
    using assms(2) False l k d by (auto simp: remPhylo_calls_def Let_def bind_eq_Some_conv split: if_splits)
  have "seats ?t1 = butlast (seats ?t1) @ [(fork, child)]"
    using False l by (intro last_seat) (auto simp: phylos_on_table_def PHYLO_MIN_AMOUNT_def)
  then have "table_holds R ans (?t1\<lparr>seats := butlast (seats ?t1), psh := sh3\<rparr>)"
    using call_held [OF k] call_held [OF d] assms(1) ok by (intro unseat_table [where k = killed and d = destroyed]) (simp_all add: effects_commute)
  then show ?thesis using t4(2) say_table [OF t4(1)] by simp
qed

lemma end_loop_table:
  assumes "end_loop ans t = Some (Inr t')" "table_holds R ans t"
  shows "table_holds R ans t' \<and> seats t' = []"
  using assms
proof (induction ans t rule: end_loop.induct)
  case (1 ans t)
  show ?case
  proof (cases "phylos_on_table t > 0")
    case False
    then have "end_loop ans t = Some (Inr t)" by (subst end_loop.simps) (simp only: if_False)
    then show ?thesis using 1(2,3) False by (simp add: phylos_on_table_def)
  next
    case True
    obtain fork child where l: "last (seats t) = (fork, child)" by fastforce
    obtain destroyed sh1 where d: "call ans (DestroySemaphore fork) (psh t) = (destroyed, sh1)" by fastforce
    obtain killed sh2 where k: "call ans (Kill child) sh1 = (killed, sh2)" by fastforce
    have ok: "destroyed \<noteq> 0 \<and> killed \<noteq> 0"
      using 1(2) True l d k by (subst (asm) end_loop.simps) (auto simp: Let_def bind_eq_Some_conv pt_exit_def split: if_splits)
    then obtain sh3 where sh3: "pf (lit ''Philosopher %d  has left the table\<newline>'') [i32 (int (phylos_on_table t))] sh2 = Some sh3"
      "end_loop ans (t\<lparr>seats := butlast (seats t), psh := sh3\<rparr>) = Some (Inr t')"
      using 1(2) True l d k by (subst (asm) end_loop.simps) (auto simp: Let_def bind_eq_Some_conv)
    have "seats t = butlast (seats t) @ [(fork, child)]"
      using True l by (intro last_seat) (auto simp: phylos_on_table_def)
    then have "table_holds R ans (t\<lparr>seats := butlast (seats t), psh := sh3\<rparr>)"
      using call_held [OF d] call_held [OF k] pf_calls [OF sh3(1)] 1(3) ok
      by (intro unseat_table [where k = killed and d = destroyed]) simp_all
    then show ?thesis using 1(1) [OF True l [symmetric] refl d [symmetric] refl] sh3 ok k by auto
  qed
qed

lemma end_holds:
  assumes "endPhylos ans t = Some (Inr t')" "table_holds R ans t"
  shows "held_after ans (calls (psh t')) = R"
proof -
  obtain res where res: "end_loop ans (blockAll_calls ans t) = Some res"
    using assms(1) by (auto simp: endPhylos_def bind_eq_Some_conv)
  then obtain t1 where t1: "end_loop ans (blockAll_calls ans t) = Some (Inr t1)"
    using assms(1) by (cases res) (simp_all add: endPhylos_def)
  obtain d1 sh1 where d1: "call ans (DestroySemaphore (change_phylos_sem t1)) (psh t1) = (d1, sh1)" by fastforce
  obtain d2 sh2 where d2: "call ans (DestroySemaphore (print_mutex t1)) sh1 = (d2, sh2)" by fastforce
  have ok: "d1 \<noteq> 0 \<and> d2 \<noteq> 0"
    using assms(1) t1 d1 d2 by (auto simp: endPhylos_def Let_def bind_eq_Some_conv pt_exit_def split: if_splits)
  then obtain sh3 where sh3: "pf (lit ''All philosophers have left the table.\<newline>'') [] sh2 = Some sh3" "t' = t1\<lparr>psh := sh3\<rparr>"
    using assms(1) t1 d1 d2 by (auto simp: endPhylos_def Let_def bind_eq_Some_conv)
  have "table_holds R ans t1" "seats t1 = []" using end_loop_table [OF t1] assms(2) by simp_all
  then have "held_after ans (calls sh3) = R"
    using pf_calls [OF sh3(1)] call_held [OF d1] call_held [OF d2] ok by (simp add: table_holds_def)
  then show ?thesis using sh3(2) by simp
qed

lemma seat_loop_table: "seat_loop ans n t = Some (Inr t') \<Longrightarrow> table_holds R ans t \<Longrightarrow> table_holds R ans t'"
proof (induction n arbitrary: t)
  case (Suc n)
  obtain sem sh where c: "call ans (SemInit 1) (psh t) = (sem, sh)" by fastforce
  have sem: "sem \<noteq> - 1" using Suc.prems(1) c by (auto simp: Let_def bind_eq_Some_conv pt_exit_def)
  then obtain t1 t2 where t: "seat_one ans sem (t\<lparr>psh := sh\<rparr>) = Some t1"
    "say_nr (lit ''Philosopher number %d has joined the table\<newline>'') (int (phylos_on_table t) + 1) t1 = Some t2"
    "seat_loop ans n t2 = Some (Inr t')"
    using Suc.prems(1) c by (auto simp: Let_def bind_eq_Some_conv)
  then show ?case using Suc.IH [OF t(3)] seat_table [OF Suc.prems(2) c sem t(1)] say_table [OF t(2)] by simp
qed simp

lemma seat_loop_exit: "seat_loop ans n t = Some (Inl e) \<Longrightarrow> fst e = PROCESS_FAILURE"
proof (induction n arbitrary: t)
  case (Suc n)
  then show ?case by (fastforce simp: Let_def bind_eq_Some_conv pt_exit_def split: prod.splits if_splits)
qed simp

lemma end_loop_exit: "end_loop ans t = Some (Inl e) \<Longrightarrow> fst e = PROCESS_FAILURE"
proof (induction ans t rule: end_loop.induct)
  case (1 ans t)
  then show ?case by (subst (asm) (2) end_loop.simps) (fastforce simp: Let_def bind_eq_Some_conv pt_exit_def split: prod.splits if_splits)
qed

lemma end_exit: "endPhylos ans t = Some (Inl e) \<Longrightarrow> fst e = PROCESS_FAILURE"
proof -
  assume e: "endPhylos ans t = Some (Inl e)"
  then obtain res where res: "end_loop ans (blockAll_calls ans t) = Some res" by (auto simp: endPhylos_def bind_eq_Some_conv)
  show "fst e = PROCESS_FAILURE"
  proof (cases res)
    case (Inl e')
    then show ?thesis using e res end_loop_exit by (simp add: endPhylos_def)
  next
    case (Inr t1)
    obtain d1 sh1 where d1: "call ans (DestroySemaphore (change_phylos_sem t1)) (psh t1) = (d1, sh1)" by fastforce
    obtain d2 sh2 where d2: "call ans (DestroySemaphore (print_mutex t1)) sh1 = (d2, sh2)" by fastforce
    show ?thesis
      using e res Inr d1 d2 by (auto simp: endPhylos_def Let_def bind_eq_Some_conv pt_exit_def split: if_splits)
  qed
qed

lemma keys_hold:
  assumes "phylo_keys ans old t = Some r" "table_holds R ans t" "fst r = SUCCESS"
  shows "held_after ans (calls (snd r)) = R"
proof -
  have "table_holds R ans t \<and> fst r = SUCCESS \<longrightarrow> held_after ans (calls (snd r)) = R"
  proof (rule phylo_keys.raw_induct [of "\<lambda>ans old t r. table_holds R ans t \<and> fst r = SUCCESS \<longrightarrow> held_after ans (calls (snd r)) = R",
        OF _ assms(1)], goal_cases)
    case (1 loop ans old t r)
    show ?case
    proof (intro impI)
      assume a: "table_holds R ans t \<and> fst r = SUCCESS"
      have go: "loop ans x t' = Some r \<Longrightarrow> table_holds R ans t' \<Longrightarrow> held_after ans (calls (snd r)) = R" for x t'
        using 1(1) [of ans x t' r] a by blast
      have step: "held_after ans (calls (snd r)) = R"
        if "(if q = - 1 then Some (PROCESS_FAILURE, psh t2)
             else if q = - 2 then do { sh \<leftarrow> pf msg [] (psh t2); loop ans x (t2\<lparr>psh := sh\<rparr>) }
             else loop ans x t2) = Some r" "q \<noteq> - 1 \<Longrightarrow> table_holds R ans t2" for q t2 msg x
      proof -
        have "q \<noteq> - 1" using that(1) a by (auto simp: PROCESS_FAILURE_def SUCCESS_def)
        then show ?thesis using that go by (auto simp: bind_eq_Some_conv pf_table split: if_splits)
      qed
      obtain key more s where k: "getKey old (io (psh t)) = Some (key, more, s)"
        using 1(2) by (auto simp: bind_eq_Some_conv)
      let ?t0 = "t\<lparr>psh := (psh t)\<lparr>io := s\<rparr>\<rparr>"
      have t0: "table_holds R ans ?t0" using a by (simp add: table_holds_sh)
      have more: more using 1(2) k by (cases more) simp_all
      consider (add) "key = 97 \<or> key = 65" | (rem) "\<not> (key = 97 \<or> key = 65)" "key = 114 \<or> key = 82"
        | (stop) "\<not> (key = 97 \<or> key = 65)" "\<not> (key = 114 \<or> key = 82)" "key = 101 \<or> key = 69"
        | (other) "\<not> (key = 97 \<or> key = 65)" "\<not> (key = 114 \<or> key = 82)" "\<not> (key = 101 \<or> key = 69)" by blast
      then show "held_after ans (calls (snd r)) = R"
      proof cases
        case add
        then obtain t1 q t2 where t: "say_nr (lit ''Adding philosopher %d... \<newline>'') (int (phylos_on_table ?t0) + 1) ?t0 = Some t1"
          "addPhylo_calls ans t1 = Some (q, t2)"
          "(if q = - 1 then Some (PROCESS_FAILURE, psh t2)
            else if q = - 2 then do { sh \<leftarrow> pf (lit ''Can't add more philosophers\<newline>'') [] (psh t2); loop ans key (t2\<lparr>psh := sh\<rparr>) }
            else loop ans key t2) = Some r"
          using 1(2) k more by (auto simp: bind_eq_Some_conv Let_def)
        then show ?thesis using step [OF t(3)] add_table [OF _ t(2)] say_table [OF t(1)] t0 by blast
      next
        case rem
        then obtain t1 q t2 where t: "say_nr (lit ''Removing philosopher %d... \<newline>'') (int (phylos_on_table ?t0)) ?t0 = Some t1"
          "remPhylo_calls ans t1 = Some (q, t2)"
          "(if q = - 1 then Some (PROCESS_FAILURE, psh t2)
            else if q = - 2 then do { sh \<leftarrow> pf (lit ''Can't remove more philosophers\<newline>'') [] (psh t2); loop ans key (t2\<lparr>psh := sh\<rparr>) }
            else loop ans key t2) = Some r"
          using 1(2) k more by (auto simp: bind_eq_Some_conv Let_def)
        then show ?thesis using step [OF t(3)] rem_table [OF _ t(2)] say_table [OF t(1)] t0 by blast
      next
        case stop
        then obtain sh res where e: "pf (lit ''Ending philosophers...\<newline>'') [] (psh ?t0) = Some sh"
          "endPhylos ans (?t0\<lparr>psh := sh\<rparr>) = Some res"
          "(case res of Inl e \<Rightarrow> Some e | Inr t1 \<Rightarrow> sysExit SUCCESS (psh t1)) = Some r"
          using 1(2) k more by (auto simp: bind_eq_Some_conv Let_def)
        show ?thesis
        proof (cases res)
          case (Inl x)
          then show ?thesis using end_exit [of ans _ x] e a by (auto simp: PROCESS_FAILURE_def SUCCESS_def)
        next
          case (Inr t1)
          have "table_holds R ans (?t0\<lparr>psh := sh\<rparr>)" using pf_table [OF e(1), of R ans] t0 by simp
          then have "held_after ans (calls (psh t1)) = R" using end_holds [OF e(2) [unfolded Inr]] by simp
          then show ?thesis using e(3) Inr by (auto simp: sysExit_def)
        qed
      next
        case other
        then show ?thesis using 1(2) k more go t0 by (auto simp: Let_def)
      qed
    qed
  qed
  then show ?thesis using assms by blast
qed

text \<open>
  C36: when the process of the philosophers ends by itself with success, it has destroyed every semaphore
  and killed every process that it created, however many philosophers have come and gone in between and
  whatever the kernel answered.
\<close>

theorem phylos_leave_nothing:
  assumes "commandPhylo ans k argv sh = Some (SUCCESS, sh')"
  shows "held_after ans (calls sh') = held_after ans (calls sh)"
proof -
  obtain change sh1 where c: "call ans (SemInit (int PHYLO_AMOUNT)) sh = (change, sh1)" by fastforce
  obtain mutex sh2 where m: "call ans (SemInit 1) sh1 = (mutex, sh2)" by fastforce
  let ?t0 = "\<lparr>seats = [], change_phylos_sem = change, print_mutex = mutex, psh = call_times ans (SemWait change) PHYLO_AMOUNT sh2\<rparr>"
  have codes: "PROCESS_FAILURE \<noteq> SUCCESS" "TOO_MANY_ARGUMENTS \<noteq> SUCCESS" by (simp_all add: PROCESS_FAILURE_def TOO_MANY_ARGUMENTS_def SUCCESS_def)
  then have ok: "length argv = 1" "change \<noteq> - 1 \<and> mutex \<noteq> - 1"
    using assms c m by (auto simp: commandPhylo_def Let_def bind_eq_Some_conv sysExit_def split: if_splits)
  then obtain res where res: "seat_loop ans PHYLO_AMOUNT ?t0 = Some res"
    "(case res of Inl e \<Rightarrow> Some e | Inr t \<Rightarrow> phylo_keys ans k (freeAll_calls ans t)) = Some (SUCCESS, sh')"
    using assms c m by (auto simp: commandPhylo_def Let_def bind_eq_Some_conv)
  then obtain t where t: "res = Inr t" using seat_loop_exit [of ans PHYLO_AMOUNT ?t0] codes(1) by (cases res) auto
  have "table_holds (held_after ans (calls sh)) ans ?t0"
    using call_held [OF c] call_held [OF m] ok(2) no_failed_process
    by (cases "held_after ans (calls sh)") (simp add: table_holds_def call_times_held, metis snd_conv)
  then have "table_holds (held_after ans (calls sh)) ans (freeAll_calls ans t)" using seat_loop_table res(1) t by simp
  then show ?thesis using keys_hold [of ans k "freeAll_calls ans t" "(SUCCESS, sh')"] res(2) t by simp
qed

definition demo_answers :: kernel_answers where "demo_answers cs = int (length cs)"

theorem phylos_leave_nothing_witness:
  "\<exists>sh'. commandPhylo demo_answers 0 [lit ''phylo''] ((demo_shell [])\<lparr>io := fresh_uio (text_of ''re'')\<rparr>) = Some (SUCCESS, sh') \<and>
     held_after demo_answers (calls sh') = held_after demo_answers (calls ((demo_shell [])\<lparr>io := fresh_uio (text_of ''re'')\<rparr>))"
proof -
  let ?sh = "(demo_shell [])\<lparr>io := fresh_uio (text_of ''re'')\<rparr>"
  have "case commandPhylo demo_answers 0 [lit ''phylo''] ?sh of Some (c, sh') \<Rightarrow> c = SUCCESS | None \<Rightarrow> False"
    by code_simp
  then obtain sh' where "commandPhylo demo_answers 0 [lit ''phylo''] ?sh = Some (SUCCESS, sh')"
    by (auto split: option.splits)
  then show ?thesis using phylos_leave_nothing by blast
qed

end
