(* ===== verification/SchedRuns.thy ===== *)
theory SchedRuns
  imports SchedProps
begin

text \<open>
  Every sequence of calls on an existing table of processes: ticks of the timer, the system calls with
  which a process yields, blocks or changes itself, and those by which it stops, resumes or favours others
  (\<open>Kernel/c/scheduler.c\<close>). The pairs of addresses are the stack pointer and the saved \<open>rbp\<close> of the
  process that the call interrupts.
\<close>

datatype table_call =
  Tick addr addr
| Yielding addr addr
| Blocking addr addr
| Favour u32 u8
| PipeIn int
| PipeOut int
| Stop u32 addr addr
| Resume u32

fun serve_call :: "'h mm \<Rightarrow> table_call \<Rightarrow> 'h kernel \<Rightarrow> 'h kernel option" where
  "serve_call M (Tick a b) s = map_option snd (schedule M a b s)"
| "serve_call M (Yielding a b) s = map_option snd (yield M (a, b) s)"
| "serve_call M (Blocking a b) s = map_option snd (blockCurrentProcess M (a, b) s)"
| "serve_call M (Favour k v) s = map_option snd (changePriority k v s)"
| "serve_call M (PipeIn i) s = changePipeRead i s"
| "serve_call M (PipeOut i) s = changePipeWrite i s"
| "serve_call M (Stop k a b) s = map_option snd (blockByUser M (a, b) k s)"
| "serve_call M (Resume k) s = map_option snd (unblock k s)"

fun serve_calls :: "'h mm \<Rightarrow> table_call list \<Rightarrow> 'h kernel \<Rightarrow> 'h kernel option" where
  "serve_calls M [] s = Some s"
| "serve_calls M (c # cs) s = do { s1 \<leftarrow> serve_call M c s; serve_calls M cs s1 }"

section \<open>Well-formed tables\<close>

definition table_ok :: "((addr \<rightharpoonup> u64) \<Rightarrow> 'h \<Rightarrow> bool) \<Rightarrow> addr list \<Rightarrow> 'h kernel \<Rightarrow> bool" where
  "table_ok ok ns s \<longleftrightarrow> (\<exists>L cs. kinv ok L s ns cs \<and> ordered s ns)"

lemma ordered_filter:
  assumes "ordered s ns" "\<And>n. n \<in> set (removing gone ns) \<Longrightarrow> pid (the (proc s' n)) = pid (the (proc s n))"
  shows "ordered s' (removing gone ns)"
proof -
  have "sorted_wrt (\<lambda>m n. pid (the (proc s m)) < pid (the (proc s n))) (removing gone ns)"
    using assms(1) unfolding ordered_def removing_def by (rule sorted_wrt_filter)
  then show ?thesis unfolding ordered_def by (rule sorted_wrt_mono_rel [rotated]) (use assms(2) in auto)
qed

text \<open>A change of one process that keeps its blocks.\<close>

lemma table_upd:
  assumes "kinv ok L s ns cs" "ordered s ns" "m \<in> insert (idleProcPCBNode s) (set cs)"
    "nodes s m = Some x" "pcbs s (pcb x) = Some c" "keeps_blocks f"
  shows "\<exists>s'. upd_pcb (pcb x) f s = Some s' \<and> kinv ok L s' ns cs \<and> ordered s' ns \<and> nodes s' = nodes s \<and>
    current s' = current s \<and> idleProcPCBNode s' = idleProcPCBNode s \<and> quantumsLeft s' = quantumsLeft s"
proof -
  let ?s = "s\<lparr>pcbs := (pcbs s)(pcb x \<mapsto> f c)\<rparr>"
  have inv: "kinv ok L ?s ns cs" by (rule kinv_upd [OF assms(1,3-6)])
  have "pid (the (proc ?s n)) = pid (the (proc s n))" if "n \<in> set (removing [] ns)" for n
  proof -
    have "n \<in> insert (idleProcPCBNode s) (set cs)" using that kinvD(12) [OF assms(1)] by (simp add: removing_def)
    then show ?thesis using proc_upd [OF assms(1,3) _ assms(4,5), of n "f c"] assms(4-6) by (auto simp: keeps_blocks_def proc_def)
  qed
  then have "ordered ?s ns" using ordered_filter [OF assms(2), of "[]" ?s] by (simp add: removing_Nil)
  then show ?thesis using inv assms(5) by (simp add: upd_pcb_def)
qed

lemma current_pcb:
  assumes "kinv ok L s ns cs"
  obtains x c where "nodes s (current s) = Some x" "pcbs s (pcb x) = Some c" "proc s (current s) = Some c"
    "currentPCB s = Some (pcb x)" "currentRec s = Some c"
  using proc_some [OF assms current_cases [OF assms]] that by (auto simp: currentPCB_def currentRec_def)

text \<open>A process found by its pid is one of the table.\<close>

lemma found_pcb:
  assumes "kinv ok L s ns cs" "ordered s ns" "getPCBByPid k s = Some p"
  obtains (none) "p = NULL"
  | (found) n x c where "n \<in> set cs" "nodes s n = Some x" "p = pcb x" "pcbs s p = Some c"
proof (cases "List.find (\<lambda>n. pid (the (proc s n)) = k) ns")
  case None
  then show ?thesis using getPCBByPid_finds [OF assms(1,2), of k] assms(3) none by simp
next
  case (Some n)
  then have n: "n \<in> set cs" using kinvD(12) [OF assms(1)] by (auto simp: find_Some_iff)
  obtain x c where x: "nodes s n = Some x" "pcbs s (pcb x) = Some c" using proc_some [OF assms(1), of n] n by auto
  then show ?thesis using getPCBByPid_finds [OF assms(1,2), of k] assms(3) Some found [OF n x(1)] by (simp add: pcb_at_def)
qed

lemma save_pids:
  assumes "kinv ok L s ns cs" "n \<in> insert (idleProcPCBNode s) (set cs)"
  shows "pid (the (proc (save_current a b s) n)) = pid (the (proc s n))"
proof -
  obtain x c where x: "nodes s (current s) = Some x" "pcbs s (pcb x) = Some c" "proc s (current s) = Some c"
    using current_pcb [OF assms(1)] by metis
  then show ?thesis
    using proc_upd [OF assms(1) current_cases [OF assms(1)] assms(2) x(1,2), of "interrupted a b c"]
    by (auto simp: save_current_def interrupted_def)
qed

context process_table
begin

lemma schedule_table:
  assumes inv: "kinv ok L s ns cs" and ord: "ordered s ns"
  shows "\<exists>q s' ns'. schedule M a b s = Some (q, s') \<and> table_ok ok ns' s' \<and> set ns' \<subseteq> set ns"
proof -
  obtain x c where x: "nodes s (current s) = Some x" "pcbs s (pcb x) = Some c" "proc s (current s) = Some c"
    using current_pcb [OF inv] by metis
  show ?thesis
  proof (cases "state c = RUNNING \<and> quantumsLeft s > 0")
    case True
    obtain s1 where s1: "upd_pcb (pcb x) (\<lambda>c. c\<lparr>rsp := a, rbp := b\<rparr>) s = Some s1" "kinv ok L s1 ns cs" "ordered s1 ns"
      using table_upd [OF inv ord current_cases [OF inv] x(1,2), of "\<lambda>c. c\<lparr>rsp := a, rbp := b\<rparr>"]
      by (auto simp: keeps_blocks_def)
    have "schedule M a b s = Some (a, s1\<lparr>quantumsLeft := quantumsLeft s - 1\<rparr>)"
      using s1(1) x True by (auto simp: schedule_def currentPCB_def upd_pcb_def)
    moreover have "table_ok ok ns (s1\<lparr>quantumsLeft := quantumsLeft s - 1\<rparr>)"
      using s1(2,3) unfolding table_ok_def by (intro exI [of _ L] exI [of _ cs]) (simp add: ordered_def)
    ultimately show ?thesis by blast
  next
    case False
    let ?s = "save_current a b s" and ?r = "tl cs @ [hd cs]"
    let ?gone = "reaped (pstate ?s) ?r"
    obtain q s' where run: "schedule M a b s = Some (q, s')" and post: "sched_post ok L ?s ns ?r [] q s'"
      using schedule_switch [OF inv x(3) False] by blast
    have inv': "kinv ok (L |` (- blocks_of ?s ?gone)) s' (removing ?gone ns) (order_after (pstate ?s) ?r [])"
      using post by (simp add: sched_post_def Let_def)
    have "pid (the (proc s' n)) = pid (the (proc s n))" if n: "n \<in> set (removing ?gone ns)" for n
    proof -
      have nc: "n \<in> set cs" "n \<notin> set ?gone" using n kinvD(12) [OF inv] by (auto simp: removing_def)
      then have r: "n \<in> set (?r @ []) - set ?gone" using kinvD(11) [OF inv] by (cases cs) auto
      have "pid (the (proc s' n)) = pid (the (proc ?s n))"
      proof (cases "Some n = chosen (pstate ?s) ?r")
        case True
        then have "proc s' n = Some ((the (proc ?s n))\<lparr>state := RUNNING\<rparr>)"
          using post by (auto simp: sched_post_def Let_def split: option.splits)
        then show ?thesis by simp
      next
        case False
        then have "proc s' n = proc ?s n" using post r unfolding sched_post_def Let_def by blast
        then show ?thesis by simp
      qed
      then show ?thesis using save_pids [OF inv, of n a b] nc(1) by simp
    qed
    then have "ordered s' (removing ?gone ns)" by (rule ordered_filter [OF ord])
    then have "table_ok ok (removing ?gone ns) s'" using inv' by (auto simp: table_ok_def)
    then show ?thesis using run by (intro exI [of _ q] exI [of _ s'] exI [of _ "removing ?gone ns"]) (auto simp: removing_def)
  qed
qed

lemma switch_table:
  assumes "kinv ok L s ns cs" "ordered s ns"
  shows "\<exists>r s' ns'. contextSwitch M ctx s = Some (r, s') \<and> table_ok ok ns' s' \<and> set ns' \<subseteq> set ns"
  using schedule_table [OF assms, of "fst ctx" "snd ctx"] by (auto simp: contextSwitch_def)

text \<open>The current process changes, and another one is chosen.\<close>

lemma change_switch:
  assumes "kinv ok L s ns cs" "ordered s ns" "currentPCB s = Some p" "keeps_blocks f"
  shows "\<exists>r s1 s' ns'. upd_pcb p f s = Some s1 \<and> contextSwitch M ctx s1 = Some (r, s') \<and> table_ok ok ns' s' \<and> set ns' \<subseteq> set ns"
proof -
  obtain x c where x: "nodes s (current s) = Some x" "pcbs s (pcb x) = Some c" "currentPCB s = Some (pcb x)"
    using current_pcb [OF assms(1)] by metis
  obtain s1 where s1: "upd_pcb (pcb x) f s = Some s1" "kinv ok L s1 ns cs" "ordered s1 ns"
    using table_upd [OF assms(1,2) current_cases [OF assms(1)] x(1,2) assms(4)] by blast
  then show ?thesis using switch_table [OF s1(2,3), of ctx] x(3) assms(3) by auto
qed

lemma serve_table:
  assumes "table_ok ok ns s"
  shows "\<exists>s' ns'. serve_call M c s = Some s' \<and> table_ok ok ns' s' \<and> set ns' \<subseteq> set ns"
proof -
  obtain L cs where inv: "kinv ok L s ns cs" and ord: "ordered s ns" using assms by (auto simp: table_ok_def)
  obtain x d where x: "nodes s (current s) = Some x" "pcbs s (pcb x) = Some d" "currentPCB s = Some (pcb x)"
    using current_pcb [OF inv] by metis
  have upd: "\<exists>s'. upd_pcb (pcb y) f s = Some s' \<and> table_ok ok ns s'"
    if "m \<in> insert (idleProcPCBNode s) (set cs)" "nodes s m = Some y" "pcbs s (pcb y) = Some e" "keeps_blocks f" for m y e f
    using table_upd [OF inv ord that] by (auto simp: table_ok_def)
  have cur: "\<exists>s'. upd_pcb (pcb x) f s = Some s' \<and> table_ok ok ns s'" if "keeps_blocks f" for f
    by (rule upd [OF current_cases [OF inv] x(1,2) that])
  have find: "\<exists>p. getPCBByPid k s = Some p" for k using getPCBByPid_finds [OF inv ord] by blast
  show ?thesis
  proof (cases c)
    case (Tick a b)
    then show ?thesis using schedule_table [OF inv ord, of a b] by auto
  next
    case (Yielding a b)
    then show ?thesis
      using change_switch [OF inv ord x(3), of "\<lambda>c. c\<lparr>state := READY\<rparr>" "(a, b)"] x(3) by (auto simp: yield_def keeps_blocks_def)
  next
    case (Blocking a b)
    then show ?thesis
      using change_switch [OF inv ord x(3), of "\<lambda>c. c\<lparr>state := BLOCKED\<rparr>" "(a, b)"] x(3)
      by (auto simp: blockCurrentProcess_def keeps_blocks_def)
  next
    case (PipeIn i)
    then show ?thesis using cur [of "\<lambda>c. c\<lparr>pipes := (pipes c)\<lparr>pipeRead := i\<rparr>\<rparr>"] x(3) by (auto simp: changePipeRead_def keeps_blocks_def)
  next
    case (PipeOut i)
    then show ?thesis using cur [of "\<lambda>c. c\<lparr>pipes := (pipes c)\<lparr>pipeWrite := i\<rparr>\<rparr>"] x(3) by (auto simp: changePipeWrite_def keeps_blocks_def)
  next
    case (Favour k v)
    obtain p where p: "getPCBByPid k s = Some p" using find by blast
    show ?thesis
    proof (cases "v \<le> 0 \<or> v > 9 \<or> p = NULL")
      case True
      then show ?thesis using Favour p assms by (auto simp: changePriority_def)
    next
      case False
      from inv ord p show ?thesis
      proof (cases rule: found_pcb)
        case (found n y e)
        then show ?thesis using upd [of n y e "\<lambda>c. c\<lparr>priority := v\<rparr>"] Favour p False by (auto simp: changePriority_def keeps_blocks_def)
      qed (use False in simp)
    qed
  next
    case (Resume k)
    obtain p where p: "getPCBByPid k s = Some p" using find by blast
    from inv ord p show ?thesis
    proof (cases rule: found_pcb)
      case none
      then show ?thesis using Resume p assms by (auto simp: unblock_def)
    next
      case (found n y e)
      then show ?thesis using upd [of n y e "\<lambda>c. c\<lparr>state := READY\<rparr>"] Resume p assms by (auto simp: unblock_def keeps_blocks_def)
    qed
  next
    case (Stop k a b)
    obtain p where p: "getPCBByPid k s = Some p" using find by blast
    from inv ord p show ?thesis
    proof (cases rule: found_pcb)
      case none
      then show ?thesis using Stop p assms by (auto simp: blockByUser_def)
    next
      case (found n y e)
      show ?thesis
      proof (cases "p \<noteq> NULL \<and> (state e = READY \<or> state e = RUNNING)")
        case False
        then show ?thesis using Stop p found assms by (auto simp: blockByUser_def)
      next
        case True
        obtain s1 where s1: "upd_pcb (pcb y) (\<lambda>c. c\<lparr>state := BLOCKED_BY_USER\<rparr>) s = Some s1" "kinv ok L s1 ns cs" "ordered s1 ns"
          using table_upd [OF inv ord _ found(2), of e "\<lambda>c. c\<lparr>state := BLOCKED_BY_USER\<rparr>"] found by (auto simp: keeps_blocks_def)
        obtain d1 where d1: "currentRec s1 = Some d1" using current_pcb [OF s1(2)] by metis
        obtain r s2 ns' where s2: "contextSwitch M (a, b) s1 = Some (r, s2)" "table_ok ok ns' s2" "set ns' \<subseteq> set ns"
          using switch_table [OF s1(2,3)] by blast
        have "table_ok ok ns s1" using s1(2,3) by (auto simp: table_ok_def)
        then show ?thesis using Stop p True found s1(1) d1 s2 by (cases r) (auto simp: blockByUser_def then_run_def)
      qed
    qed
  qed
qed

lemma calls_table: "table_ok ok ns s \<Longrightarrow> \<exists>s' ns'. serve_calls M cs s = Some s' \<and> table_ok ok ns' s' \<and> set ns' \<subseteq> set ns"
proof (induction cs arbitrary: s ns)
  case (Cons c cs)
  obtain s1 ns1 where s1: "serve_call M c s = Some s1" "table_ok ok ns1 s1" "set ns1 \<subseteq> set ns"
    using serve_table [OF Cons.prems] by blast
  then show ?case using Cons.IH [OF s1(2)] by fastforce
qed auto

end

text \<open>
  C11: from a well-formed table of processes, ordered by their pids, every sequence of ticks and of system
  calls that yield, block, stop, resume or change processes runs to its end without a fault and leaves a
  well-formed table, ordered by pids, of some of the processes.
\<close>

theorem table_stays_well_formed:
  assumes "kinv freelist_ok L s ns cs" "ordered s ns"
  shows "\<exists>s' L' ns' cs'. serve_calls freelist_mm calls s = Some s' \<and> kinv freelist_ok L' s' ns' cs' \<and>
    ordered s' ns' \<and> set ns' \<subseteq> set ns"
proof -
  have "table_ok freelist_ok ns s" using assms by (auto simp: table_ok_def)
  from kernel_heap.calls_table [OF this, of calls] show ?thesis unfolding table_ok_def by blast
qed

theorem table_stays_well_formed_witness:
  "\<exists>h s' L' ns' cs'. serve_calls freelist_mm [Tick 4200 0, Stop 1 4200 0, Yielding 4300 0, Resume 1, Tick 4200 0] (demo_kernel READY [] h) = Some s' \<and>
     kinv freelist_ok L' s' ns' cs' \<and> ordered s' ns' \<and> set ns' \<subseteq> set [4336, 4496]"
proof -
  obtain h where h: "freelist_ok (map_of demo_blocks) h" using demo_heap_blocks by blast
  have "ordered (demo_kernel READY [] h) [4336, 4496]" by (simp add: ordered_def demo_proc demo_pcb_def)
  from table_stays_well_formed [OF demo_kinv [OF h] this] show ?thesis by (intro exI [of _ h]) blast
qed

end
