(* ===== verification/Bmfs.thy ===== *)
theory Bmfs
  imports SchedArgs UStdlib
begin

text \<open>
  The tool of the host that makes the disk image and moves files in and out of it
  (\<open>Bootloader/BMFS/bmfs.c\<close>). A file of the host is the list of its bytes; the disk is the open
  file, with its position and its error indicator. The directory is the array of 4096 bytes the code
  has, 64 entries of 64 bytes, whose fields are read and written in place. What is printed is kept as
  the format with its arguments. Of the host's library the tool uses \<open>strcmp\<close>, \<open>strcpy\<close>,
  \<open>strcasecmp\<close>, \<open>atoi\<close>, \<open>qsort\<close> and the streams; \<open>qsort\<close> is an argument of the definitions,
  because its order of equal elements is open. A fault, a signed overflow or a file that is open
  twice is \<open>None\<close>.
\<close>

section \<open>The host\<close>

datatype host_arg = HStr "byte list" | HNum u64 | HPercent u64 u64

datatype message = Printed string "host_arg list"

text \<open>
  \<open>hostRoom\<close> is the length no file can exceed, \<open>hostWritable\<close> says which names can be opened for
  writing, and \<open>hostMemory\<close> whether \<open>malloc\<close> succeeds.
\<close>

record bmfs =
  hostFiles :: "byte list \<rightharpoonup> byte list"
  hostWritable :: "byte list \<Rightarrow> bool"
  hostRoom :: nat
  hostMemory :: bool
  hostStdin :: "byte list"
  hostOut :: "message list"
  diskBytes :: "byte list"
  diskPos :: nat
  diskErr :: bool
  disksize :: u32
  DiskInfo :: "byte list"
  Directory :: "byte list"
  diskname :: "byte list"

definition say :: "string \<Rightarrow> host_arg list \<Rightarrow> bmfs \<Rightarrow> bmfs" where
  "say fmt as s = s\<lparr>hostOut := hostOut s @ [Printed fmt as]\<rparr>"

text \<open>Bytes put at a position of a file; a gap before them is filled with zeros.\<close>

definition host_put :: "nat \<Rightarrow> byte list \<Rightarrow> byte list \<Rightarrow> byte list" where
  "host_put pos bs f =
     (if bs = [] then f
      else take pos (f @ replicate (pos - length f) 0) @ bs @ drop (pos + length bs) f)"

definition host_fwrite :: "byte list \<Rightarrow> bmfs \<Rightarrow> bool \<times> bmfs" where
  "host_fwrite bs s =
     (let n = min (length bs) (hostRoom s - diskPos s)
      in (n = length bs,
          s\<lparr>diskBytes := host_put (diskPos s) (take n bs) (diskBytes s), diskPos := diskPos s + n,
            diskErr := (diskErr s \<or> n < length bs)\<rparr>))"

text \<open>\<open>SEEK_SET\<close> with a \<open>long\<close>; a negative one fails and leaves the position.\<close>

definition host_fseek :: "u64 \<Rightarrow> bmfs \<Rightarrow> bmfs" where
  "host_fseek off s = (if sint off < 0 then s else s\<lparr>diskPos := unat off\<rparr>)"

text \<open>\<open>fread\<close> of one item into a buffer: a short file fills a part of it.\<close>

definition host_fread :: "nat \<Rightarrow> byte list \<Rightarrow> bmfs \<Rightarrow> byte list \<times> bmfs" where
  "host_fread n buf s =
     (let bs = take n (drop (diskPos s) (diskBytes s))
      in (bs @ drop (length bs) buf, s\<lparr>diskPos := diskPos s + length bs\<rparr>))"

text \<open>\<open>getc\<close>; at the end of the file it gives \<open>EOF\<close>, which \<open>putc\<close> writes as the byte 255.\<close>

definition host_getc :: "bmfs \<Rightarrow> byte \<times> bmfs" where
  "host_getc s =
     (if diskPos s < length (diskBytes s) then (diskBytes s ! diskPos s, s\<lparr>diskPos := diskPos s + 1\<rparr>)
      else (255, s))"

definition host_tolower :: "byte \<Rightarrow> byte" where
  "host_tolower c = (if 65 \<le> c \<and> c \<le> 90 then c + 32 else c)"

definition host_toupper :: "byte \<Rightarrow> byte" where
  "host_toupper c = (if 97 \<le> c \<and> c \<le> 122 then c - 32 else c)"

definition host_isdigit :: "byte \<Rightarrow> bool" where
  "host_isdigit c \<longleftrightarrow> 48 \<le> c \<and> c \<le> 57"

definition host_isspace :: "byte \<Rightarrow> bool" where
  "host_isspace c \<longleftrightarrow> c = 32 \<or> 9 \<le> c \<and> c \<le> 13"

text \<open>Whether \<open>strcasecmp\<close> is 0.\<close>

fun host_strcaseeq :: "byte list \<Rightarrow> byte list \<Rightarrow> bool option" where
  "host_strcaseeq (a # s) (b # t) =
     (if host_tolower a \<noteq> host_tolower b then Some False
      else if a = 0 then Some True
      else host_strcaseeq s t)"
| "host_strcaseeq _ _ = None"

text \<open>\<open>atoi\<close>, whose result is undefined when it is no \<open>int\<close>.\<close>

definition host_atoi :: "byte list \<Rightarrow> int option" where
  "host_atoi s =
     (let t = dropWhile host_isspace s;
          neg = (t \<noteq> [] \<and> hd t = 45);
          u = (if t \<noteq> [] \<and> hd t \<in> {43, 45} then tl t else t);
          v = foldl (\<lambda>a c. 10 * a + (uint c - 48)) 0 (takeWhile host_isdigit u);
          r = (if neg then - v else v)
      in if - (2 ^ 31) \<le> r \<and> r < 2 ^ 31 then Some r else None)"

text \<open>\<open>fgets\<close> of at most \<open>n\<close> bytes, the terminator included.\<close>

definition host_fgets :: "nat \<Rightarrow> byte list \<Rightarrow> bmfs \<Rightarrow> byte list \<times> bmfs" where
  "host_fgets n buf s =
     (let line = takeWhile (\<lambda>c. c \<noteq> 10) (hostStdin s);
          k = min (n - 1) (length line + 1);
          got = take k (hostStdin s)
      in if got = [] then (buf, s) else (got @ 0 # drop (length got + 1) buf, s\<lparr>hostStdin := drop k (hostStdin s)\<rparr>))"

section \<open>The directory\<close>

definition minimumDiskSize :: u64 where "minimumDiskSize = 6 * 1024 * 1024"

definition fs_tag :: "byte list" where "fs_tag = lit ''BMFS''"

text \<open>Entry \<open>i\<close>, and the fields of an entry.\<close>

definition dir_entry :: "byte list \<Rightarrow> nat \<Rightarrow> byte list" where
  "dir_entry D i = take 64 (drop (64 * i) D)"

definition StartingBlock :: "byte list \<Rightarrow> u64" where "StartingBlock e = read_le64 (drop 32 e)"
definition ReservedBlocks :: "byte list \<Rightarrow> u64" where "ReservedBlocks e = read_le64 (drop 40 e)"
definition FileSize :: "byte list \<Rightarrow> u64" where "FileSize e = read_le64 (drop 48 e)"

definition END_OF_DIRECTORY :: byte where "END_OF_DIRECTORY = 0"
definition EMPTY_ENTRY :: byte where "EMPTY_ENTRY = 1"

text \<open>The loop of \<open>findfile\<close>: \<open>n\<close> entries from \<open>tint\<close> on. The name may be the null pointer.\<close>

fun findfile_loop :: "byte list option \<Rightarrow> byte list \<Rightarrow> nat \<Rightarrow> nat \<Rightarrow> (byte list \<times> nat) option option" where
  "findfile_loop name D 0 tint = Some None"
| "findfile_loop name D (Suc n) tint =
     (let entry = dir_entry D tint
      in if entry ! 0 = END_OF_DIRECTORY then Some None
         else if entry ! 0 = EMPTY_ENTRY then findfile_loop name D n (Suc tint)
         else do {
           filename \<leftarrow> name;
           c \<leftarrow> strcmp filename entry;
           if c = 0 then Some (Some (entry, tint)) else findfile_loop name D n (Suc tint) })"

definition findfile :: "byte list option \<Rightarrow> byte list \<Rightarrow> (byte list \<times> nat) option option" where
  "findfile name D = findfile_loop name D 64 0"

fun list_loop :: "nat \<Rightarrow> nat \<Rightarrow> bmfs \<Rightarrow> bmfs option" where
  "list_loop 0 tint s = Some s"
| "list_loop (Suc n) tint s =
     (let entry = dir_entry (Directory s) tint
      in if entry ! 0 = END_OF_DIRECTORY then Some s
         else if entry ! 0 = EMPTY_ENTRY then list_loop n (Suc tint) s
         else if \<not> terminated entry then None
         else list_loop n (Suc tint)
           (say ''%-32s %20lld %20lld\<newline>''
             [HStr (cstr entry), HNum (FileSize entry), HNum (ReservedBlocks entry * 2)] s))"

definition bmfs_list :: "bmfs \<Rightarrow> bmfs option" where
  "bmfs_list s =
     (let s1 = say ''%s\<newline>Disk Size: %d MiB\<newline>'' [HStr (cstr (diskname s)), HNum (ucast (disksize s))] s;
          s2 = say ''Name                            |            Size (B)|      Reserved (MiB)\<newline>'' [] s1;
          s3 = say ''==========================================================================\<newline>'' [] s2
      in list_loop 64 0 s3)"

text \<open>The directory goes to the disk.\<close>

definition flush_directory :: "bmfs \<Rightarrow> bmfs" where
  "flush_directory s = snd (host_fwrite (Directory s) (host_fseek 4096 s))"

definition bmfs_format :: "bmfs \<Rightarrow> bmfs" where
  "bmfs_format s =
     (let info = take 4 fs_tag @ replicate 508 0;
          s1 = s\<lparr>DiskInfo := info, Directory := replicate 4096 0\<rparr>;
          s2 = snd (host_fwrite info (host_fseek 1024 s1))
      in say ''Format complete.\<newline>'' [] (flush_directory s2))"

section \<open>Making a file\<close>

text \<open>The result is an \<open>int\<close>: the difference of the blocks is cut to 32 bits.\<close>

definition StartingBlockCmp :: "byte list \<Rightarrow> byte list \<Rightarrow> int" where
  "StartingBlockCmp ea eb =
     (if ea ! 0 = EMPTY_ENTRY then 1
      else if eb ! 0 = EMPTY_ENTRY then - 1
      else sint (ucast (StartingBlock ea - StartingBlock eb) :: u32))"

type_synonym qsort = "(byte list \<Rightarrow> byte list \<Rightarrow> int) \<Rightarrow> byte list list \<Rightarrow> byte list list"

text \<open>
  The loop that counts the entries: \<open>num_used_entries\<close> and \<open>first_free_entry\<close>, which is \<open>None\<close> for -1.
\<close>

fun count_loop :: "byte list \<Rightarrow> nat \<Rightarrow> nat \<Rightarrow> nat option \<Rightarrow> nat \<times> nat option" where
  "count_loop D 0 tint first_free = (0, first_free)"
| "count_loop D (Suc n) tint first_free =
     (let e = dir_entry D tint
      in if e ! 0 = END_OF_DIRECTORY then (tint, case first_free of None \<Rightarrow> Some tint | Some i \<Rightarrow> Some i)
         else count_loop D n (Suc tint)
           (if e ! 0 = EMPTY_ENTRY \<and> first_free = None then Some tint else first_free))"

text \<open>
  The loop that looks for a gap, over the sorted entries: the start of the new file, or 0.
\<close>

fun place_loop :: "u64 \<Rightarrow> u64 \<Rightarrow> byte list list \<Rightarrow> u64 \<Rightarrow> u64" where
  "place_loop num_blocks requested [] prev_file_end =
     (if requested \<le> (num_blocks - 1) - prev_file_end then prev_file_end else 0)"
| "place_loop num_blocks requested (e # es) prev_file_end =
     (let this_file_start = (if e ! 0 = EMPTY_ENTRY then num_blocks - 1 else StartingBlock e)
      in if requested \<le> this_file_start - prev_file_end then prev_file_end
         else place_loop num_blocks requested es (StartingBlock e + ReservedBlocks e))"

text \<open>The new record: the three numbers, then the name with \<open>strcpy\<close>, which does not stop at the field's end.\<close>

definition add_record :: "nat \<Rightarrow> byte list \<Rightarrow> u64 \<Rightarrow> u64 \<Rightarrow> byte list \<Rightarrow> byte list option" where
  "add_record i filename start requested D = do {
     D1 \<leftarrow> write_at (64 * i + 32) (le64 start @ le64 requested @ le64 0) D;
     (D2, _) \<leftarrow> strcpy_from D1 filename (64 * i);
     Some D2 }"

definition bmfs_create :: "qsort \<Rightarrow> byte list \<Rightarrow> u64 \<Rightarrow> bmfs \<Rightarrow> bmfs option" where
  "bmfs_create qs filename maxsize0 s = do {
     let maxsize = (if maxsize0 mod 2 \<noteq> 0 then maxsize0 + 1 else maxsize0);
     found \<leftarrow> findfile (Some filename) (Directory s);
     if found \<noteq> None then Some (say ''Error: File already exists.\<newline>'' [] s)
     else do {
       let blocks_requested = maxsize div 2;
       let num_blocks = ucast (disksize s div 2);
       let s1 = say ''Creating new file...\<newline>'' [] s;
       let (num_used_entries, first_free_entry) = count_loop (Directory s) 64 0 None;
       (case first_free_entry of
          None \<Rightarrow> Some (say ''Cannot create file: no free directory entries.\<newline>'' [] s1)
        | Some slot \<Rightarrow> do {
            let dir_copy = qs StartingBlockCmp (map (dir_entry (Directory s)) [0..<num_used_entries]);
            let new_file_start = place_loop num_blocks blocks_requested dir_copy 1;
            if new_file_start = 0 then Some (say ''Cannot create file of size %lld MiB.\<newline>'' [HNum maxsize] s1)
            else do {
              D1 \<leftarrow> add_record slot filename new_file_start blocks_requested (Directory s);
              let D2 = (if slot = num_used_entries \<and> num_used_entries + 1 < 64
                        then D1[64 * (num_used_entries + 1) := END_OF_DIRECTORY] else D1);
              Some (say ''Complete\<newline>'' [] (flush_directory (s1\<lparr>Directory := D2\<rparr>))) } }) } }"

section \<open>Moving the bytes\<close>

text \<open>The loops copy one byte at a time; \<open>out\<close> is the local file that is written.\<close>

fun read_loop :: "nat \<Rightarrow> byte list \<Rightarrow> bmfs \<Rightarrow> byte list \<times> bmfs" where
  "read_loop 0 out s = (out, s)"
| "read_loop (Suc n) out s =
     (let (c, s1) = host_getc s
      in read_loop n (if length out < hostRoom s then out @ [c] else out) s1)"

text \<open>
  A loop up to a size that is no \<open>int\<close> overflows its counter. The local file has the name the entry
  has; writing it over the disk is not followed.
\<close>

definition bmfs_read :: "byte list option \<Rightarrow> bmfs \<Rightarrow> bmfs option" where
  "bmfs_read filename s = do {
     found \<leftarrow> findfile filename (Directory s);
     (case found of
        None \<Rightarrow> Some (say ''Error: File not found in BMFS.\<newline>'' [] s)
      | Some (tempentry, slot) \<Rightarrow> do {
          name \<leftarrow> filename;
          let s1 = say ''Reading '%s' from BMFS to local file... '' [HStr (cstr name)] s;
          let local = cstr tempentry;
          if local = cstr (diskname s) then None
          else if \<not> hostWritable s local
          then Some (say ''Error: Could not open local file '%s'\<newline>'' [HStr local] s1)
          else if 2 ^ 31 \<le> unat (FileSize tempentry) then None
          else do {
            let s2 = host_fseek (StartingBlock tempentry * 2097152) s1;
            let (out, s3) = read_loop (unat (FileSize tempentry)) [] s2;
            Some (say ''Complete\<newline>'' [] (s3\<lparr>hostFiles := (hostFiles s3)(local \<mapsto> out)\<rparr>)) } }) }"

fun write_loop :: "byte list \<Rightarrow> bmfs \<Rightarrow> bmfs" where
  "write_loop [] s = s"
| "write_loop (c # cs) s = write_loop cs (snd (host_fwrite [c] s))"

definition bmfs_write :: "byte list option \<Rightarrow> bmfs \<Rightarrow> bmfs option" where
  "bmfs_write filename s = do {
     found \<leftarrow> findfile filename (Directory s);
     (case found of
        None \<Rightarrow> Some (say ''Error: File not found in BMFS. A file entry must first be created.\<newline>'' [] s)
      | Some (tempentry, slot) \<Rightarrow> do {
          name \<leftarrow> filename;
          let s1 = say ''Writing local file '%s' to BMFS... '' [HStr (cstr name)] s;
          if cstr name = cstr (diskname s) then None
          else (case hostFiles s (cstr name) of
            None \<Rightarrow> Some (say ''Error: Could not open local file '%s'\<newline>'' [HStr (cstr tempentry)] s1)
          | Some tfile \<Rightarrow>
              let tempfilesize = word_of_nat (length tfile)
              in if ReservedBlocks tempentry * 2097152 < tempfilesize
                 then Some (say ''Not enough reserved space in BMFS.\<newline>'' [] s1)
                 else if 2 ^ 31 \<le> length tfile then None
                 else do {
                   let s2 = write_loop tfile (host_fseek (StartingBlock tempentry * 2097152) s1);
                   D1 \<leftarrow> write_at (64 * slot + 48) (le64 tempfilesize) (Directory s2);
                   Some (say ''Complete\<newline>'' [] (flush_directory (s2\<lparr>Directory := D1\<rparr>))) }) }) }"

definition bmfs_delete :: "byte list option \<Rightarrow> bmfs \<Rightarrow> bmfs option" where
  "bmfs_delete filename s = do {
     found \<leftarrow> findfile filename (Directory s);
     (case found of
        None \<Rightarrow> Some (say ''Error: File not found in BMFS.\<newline>'' [] s)
      | Some (tempentry, slot) \<Rightarrow> do {
          name \<leftarrow> filename;
          let s1 = say ''Deleting file '%s' from BMFS... '' [HStr (cstr name)] s;
          Some (say ''Complete\<newline>'' []
            (flush_directory (s1\<lparr>Directory := (Directory s1)[64 * slot := EMPTY_ENTRY]\<rparr>))) }) }"

section \<open>Making a disk\<close>

text \<open>
  The loop over the text of the size: the value, the number of factors of 1024 and whether the text
  is right so far. \<open>first\<close> holds at the first character.
\<close>

definition size_unit :: "byte \<Rightarrow> nat option" where
  "size_unit ch =
     (let c = host_toupper ch
      in if c = 75 then Some 1 else if c = 77 then Some 2 else if c = 71 then Some 3
         else if c = 84 then Some 4 else if c = 80 then Some 5 else None)"

fun size_loop :: "byte list \<Rightarrow> byte list \<Rightarrow> bool \<Rightarrow> u64 \<Rightarrow> nat \<Rightarrow> bmfs \<Rightarrow> (bool \<times> u64 \<times> nat \<times> bmfs) option" where
  "size_loop whole [] first d factor s = None"
| "size_loop whole (ch # cs) first d factor s =
     (if ch = 0 then Some (True, d, factor, s)
      else if host_isdigit ch then
        (if d < d * 10 then size_loop whole cs False (d * 10 + ucast (ch - 48)) factor s
         else if d = 0 then size_loop whole cs False (d + ucast (ch - 48)) factor s
         else Some (False, d, factor, say ''Error: Disk size is too large\<newline>'' [] s))
      else if first then Some (False, d, factor, say ''Error: A numeric disk size must be specified\<newline>'' [] s)
      else (case size_unit ch of
          None \<Rightarrow> Some (False, d, factor, say ''Error: Invalid disk size string: '%s'\<newline>'' [HStr (cstr whole)] s)
        | Some k \<Rightarrow>
            (case cs of
               [] \<Rightarrow> None
             | c # _ \<Rightarrow>
                 if c \<noteq> 0
                 then Some (False, d, k, say ''Error: Invalid disk size string: '%s'\<newline>'' [HStr (cstr whole)] s)
                 else size_loop whole cs False d k s)))"

text \<open>\<open>while (diskSizeFactor--)\<close>, which goes on after an error.\<close>

fun factor_loop :: "nat \<Rightarrow> bool \<Rightarrow> u64 \<Rightarrow> bmfs \<Rightarrow> bool \<times> u64 \<times> bmfs" where
  "factor_loop 0 ok d s = (ok, d, s)"
| "factor_loop (Suc n) ok d s =
     (if d < d * 1024 then factor_loop n ok (d * 1024) s
      else factor_loop n False d (say ''Error: Disk size is too large\<newline>'' [] s))"

definition bufferSize :: u64 where "bufferSize = 50 * 1024"

lemma unat_bufferSize [simp]: "unat bufferSize = 51200"
  by (simp add: bufferSize_def)

text \<open>A step that \<open>ret == 0\<close> guards.\<close>

definition guarded :: "(bmfs \<Rightarrow> bool \<times> bmfs) \<Rightarrow> bool \<times> bmfs \<Rightarrow> bool \<times> bmfs" where
  "guarded step r = (if fst r then step (snd r) else r)"

definition open_input :: "string \<Rightarrow> host_arg list \<Rightarrow> byte list option \<Rightarrow> bmfs \<Rightarrow> bool \<times> bmfs" where
  "open_input complaint as file s =
     (case file of
        None \<Rightarrow> (True, s)
      | Some f \<Rightarrow> if hostFiles s (cstr f) = None then (False, say complaint (as @ [HStr (cstr f)]) s) else (True, s))"

lemma fill_step:
  assumes "w < d"
  shows "unat (d - (w + (if d - w < bufferSize then d - w else bufferSize))) < unat (d - w)"
proof -
  let ?c = "if d - w < bufferSize then d - w else bufferSize"
  have "unat ?c \<le> unat (d - w)" by (auto simp: word_le_nat_alt [symmetric])
  moreover have "?c \<noteq> 0" using assms by (auto simp: bufferSize_def)
  then have "0 < unat ?c" by (simp add: unat_gt_0)
  moreover have "d - (w + ?c) = (d - w) - ?c" by simp
  ultimately show ?thesis by (simp only: unat_minus)
qed

definition fill_progress :: string where
  "fill_progress = ''Formatting disk: %llu of %llu bytes (%.0f%%)...'' @ [CHR 0x0D]"

function zero_loop :: "u64 \<Rightarrow> u64 \<Rightarrow> bmfs \<Rightarrow> bool \<times> bmfs" where
  "zero_loop diskSize writeSize s =
     (if writeSize < diskSize
      then let s1 = say fill_progress
                      [HNum writeSize, HNum diskSize, HPercent writeSize diskSize] s;
               chunkSize = (if diskSize - writeSize < bufferSize then diskSize - writeSize else bufferSize);
               (ok, s2) = host_fwrite (replicate (unat chunkSize) 0) s1
           in if ok then zero_loop diskSize (writeSize + chunkSize) s2
              else (False, say ''Error: Failed to write disk '%s'\<newline>'' [HStr (cstr (diskname s2))] s2)
      else (True, say ''Formatting disk: %llu of %llu bytes (100%%)%9s\<newline>'' [HNum writeSize, HNum diskSize, HStr []] s))"
  by pat_completeness auto
termination
  by (relation "measure (\<lambda>(d, w, s). unat (d - w))") (simp_all only: fill_step in_measure wf_measure split)

declare zero_loop.simps [simp del]

text \<open>
  The loops that append the boot loader and the kernel. A write that fails is reported and the loop
  goes on; at the end the indicator of the disk is asked, not that of the file.
\<close>

function append_loop :: "byte list \<Rightarrow> byte list \<Rightarrow> bool \<Rightarrow> bmfs \<Rightarrow> bool \<times> bmfs" where
  "append_loop name rest ok s =
     (let chunk = take (unat bufferSize) rest
      in if chunk \<noteq> []
         then let (w, s1) = host_fwrite chunk s
              in append_loop name (drop (unat bufferSize) rest) (ok \<and> w)
                   (if w then s1 else say ''Error: Failed to write disk '%s'\<newline>'' [HStr (cstr (diskname s1))] s1)
         else if diskErr s then (False, say ''Error: Failed to read file '%s'\<newline>'' [HStr name] s)
         else (ok, s))"
  by pat_completeness auto
termination
proof (relation "measure (\<lambda>(name, rest, ok, s). length rest)", simp)
  fix name rest :: "byte list" and ok s x xa y xb yb
  assume "x = take (unat bufferSize) rest" "x \<noteq> []"
  then show "((name, drop (unat bufferSize) rest, ok \<and> xb, if xb then yb else y), name, rest, ok, s) \<in>
      measure (\<lambda>(name, rest, ok, s). length rest)"
    by (cases rest) auto
qed

declare append_loop.simps [simp del]

definition write_mbr :: "byte list option \<Rightarrow> bmfs \<Rightarrow> bool \<times> bmfs" where
  "write_mbr mbr s =
     (case mbr of
        None \<Rightarrow> (True, s)
      | Some f \<Rightarrow>
          let s1 = host_fseek 0 (say ''Writing master boot record.\<newline>'' [] s);
              content = the (hostFiles s (cstr f))
          in if length content < 512 then (False, say ''Error: Failed to read file '%s'\<newline>'' [HStr (cstr f)] s1)
             else let (w, s2) = host_fwrite (take 512 content) s1
                  in (w, if w then s2
                         else say ''Error: Failed to write disk '%s'\<newline>'' [HStr (cstr (diskname s2))] s2))"

definition write_boot :: "byte list option \<Rightarrow> string \<Rightarrow> bmfs \<Rightarrow> bool \<times> bmfs" where
  "write_boot boot bootFileType s =
     (case boot of
        None \<Rightarrow> (True, s)
      | Some f \<Rightarrow>
          append_loop (cstr f) (the (hostFiles s (cstr f))) True
            (host_fseek 8192 (say ''Writing %s file.\<newline>'' [HStr (text_of bootFileType)] s)))"

definition write_kernel :: "byte list option \<Rightarrow> bmfs \<Rightarrow> bool \<times> bmfs" where
  "write_kernel kernelFile s =
     (case kernelFile of
        None \<Rightarrow> (True, s)
      | Some f \<Rightarrow> append_loop (cstr f) (the (hostFiles s (cstr f))) True (say ''Writing kernel.\<newline>'' [] s))"

definition allocate_buffer :: "bmfs \<Rightarrow> bool \<times> bmfs" where
  "allocate_buffer s = (if hostMemory s then (True, s) else (False, say ''Error: Failed to allocate buffer\<newline>'' [] s))"

text \<open>
  What follows once the disk is open for writing, and empty. The indicator of errors is cleared by
  \<open>rewind\<close>.
\<close>

definition fill_disk :: "u64 \<Rightarrow> byte list option \<Rightarrow> byte list option \<Rightarrow> string \<Rightarrow> byte list option \<Rightarrow> bmfs \<Rightarrow> bool \<times> bmfs" where
  "fill_disk diskSize mbr boot bootFileType kernelFile s =
     (let r1 = zero_loop diskSize 0 s;
          r2 = guarded (\<lambda>s. (True, bmfs_format (s\<lparr>diskPos := 0, diskErr := False\<rparr>))) r1;
          r3 = guarded (write_mbr mbr) r2;
          r4 = guarded (write_boot boot bootFileType) r3
      in guarded (write_kernel kernelFile) r4)"

definition check_size :: "u64 \<Rightarrow> bmfs \<Rightarrow> bool \<times> bmfs" where
  "check_size diskSize s =
     (if diskSize < minimumDiskSize
      then (False, say ''Error: Disk size must be at least %llu bytes (%lluMiB)\<newline>''
              [HNum minimumDiskSize, HNum (minimumDiskSize div (1024 * 1024))] s)
      else (True, s))"

text \<open>
  The value of \<open>ret\<close> and the state; a disk that was opened is closed, and its bytes are a file. An
  input that is the disk itself is not followed.
\<close>

definition bmfs_initialize ::
  "byte list \<Rightarrow> byte list \<Rightarrow> byte list option \<Rightarrow> byte list option \<Rightarrow> byte list option \<Rightarrow> bmfs \<Rightarrow> (int \<times> bmfs) option" where
  "bmfs_initialize dname sizeText mbr boot kernelFile s = do {
     let bootFileType = (if kernelFile = None then ''system'' else ''boot loader'');
     (ok0, d0, factor, s0) \<leftarrow> size_loop sizeText sizeText True 0 0 s;
     let (ok1, diskSize, s1) = (if ok0 \<and> d0 > 0 \<and> factor > 0 then factor_loop factor True d0 s0 else (ok0, d0, s0));
     let r2 = guarded (check_size diskSize) (ok1, s1);
     let r3 = guarded (open_input ''Error: Unable to open MBR file '%s'\<newline>'' [] mbr) r2;
     let r4 = guarded (open_input ''Error: Unable to open %s file '%s'\<newline>'' [HStr (text_of bootFileType)] boot) r3;
     let r5 = guarded (open_input ''Error: Unable to open kernel file '%s'\<newline>'' [] kernelFile) r4;
     let (ok6, s6) = guarded allocate_buffer r5;
     if \<not> ok6 then Some (1, s6)
     else if \<not> hostWritable s6 (cstr dname)
     then Some (1, say ''Error: Unable to open disk '%s'\<newline>'' [HStr (cstr dname)] s6)
     else if \<exists>f \<in> set (map (map_option cstr) [mbr, boot, kernelFile]). f = Some (cstr dname) then None
     else
       let (ok7, s7) = fill_disk diskSize mbr boot bootFileType kernelFile (s6\<lparr>diskBytes := [], diskPos := 0, diskErr := False\<rparr>);
           s8 = s7\<lparr>hostFiles := (hostFiles s7)(cstr dname \<mapsto> diskBytes s7)\<rparr>
       in Some (if ok7 then (0, say ''Disk initialization complete.\<newline>'' [] s8) else (1, s8)) }"

section \<open>The program\<close>

definition close_disk :: "bmfs \<Rightarrow> bmfs" where
  "close_disk s = s\<lparr>hostFiles := (hostFiles s)(cstr (diskname s) \<mapsto> diskBytes s)\<rparr>"

text \<open>The disk is opened, measured and its two tables are read; \<open>None\<close> stands for \<open>fopen\<close> failing.\<close>

definition open_disk :: "bmfs \<Rightarrow> bmfs option" where
  "open_disk s =
     (case hostFiles s (cstr (diskname s)) of
        None \<Rightarrow> None
      | Some f \<Rightarrow>
          if \<not> hostWritable s (cstr (diskname s)) then None
          else
            let s1 = s\<lparr>diskBytes := f, diskErr := False, disksize := word_of_nat (length f div 1048576)\<rparr>;
                (info, s2) = host_fread 512 (DiskInfo s1) (host_fseek 1024 s1);
                (dir, s3) = host_fread 4096 (Directory s2) (host_fseek 4096 s2)
            in Some (s3\<lparr>DiskInfo := info, Directory := dir, diskPos := 0\<rparr>))"

definition usage_lines :: "string list" where
  "usage_lines = [''Disk: the name of the disk file\<newline>'',
     ''Function: list, read, write, create, delete, format, initialize\<newline>'', ''File: (if applicable)\<newline>'']"

definition bmfs_usage :: "byte list \<Rightarrow> bmfs \<Rightarrow> bmfs" where
  "bmfs_usage program s =
     (let s1 = say ''BareMetal File System Utility v1.0 (2013 04 10)\<newline>'' [] s;
          s2 = say ''Written by Ian Seyler @ Return Infinity (ian.seyler@returninfinity.com)\<newline>\<newline>'' [] s1;
          s3 = say ''Usage: %s disk function file\<newline>'' [HStr (cstr program)] s2
      in foldl (\<lambda>s l. say l [] s) s3 usage_lines)"

text \<open>\<open>create\<close> with the size on the command line, or asked for.\<close>

definition main_create :: "qsort \<Rightarrow> byte list list \<Rightarrow> bmfs \<Rightarrow> bmfs option" where
  "main_create qs argv s =
     (if length argv \<le> 3 then Some (say ''Error: File name not specified.\<newline>'' [] s)
      else if length argv > 4 then do {
        filesize \<leftarrow> host_atoi (argv ! 4);
        if filesize \<ge> 1 then bmfs_create qs (argv ! 3) (word_of_int filesize) s
        else Some (say ''Error: Invalid file size.\<newline>'' [] s) }
      else do {
        let (tempstring, s1) = host_fgets 32 (replicate 32 0) (say ''Maximum file size in MiB: '' [] s);
        n \<leftarrow> host_atoi tempstring;
        let filesize = (word_of_int n :: u32);
        if filesize \<ge> 1 then bmfs_create qs (argv ! 3) (ucast filesize) s1
        else Some (say ''Error: Invalid file size.\<newline>'' [] s1) })"

definition is_command :: "string \<Rightarrow> byte list \<Rightarrow> bool option" where
  "is_command name command = host_strcaseeq (lit name) command"

text \<open>The commands on a disk that has the tag.\<close>

definition bmfs_command :: "qsort \<Rightarrow> byte list list \<Rightarrow> bmfs \<Rightarrow> bmfs option" where
  "bmfs_command qs argv s = do {
     let command = argv ! 2;
     let filename = (if length argv > 3 then Some (argv ! 3) else None);
     is_list \<leftarrow> is_command ''list'' command;
     is_format \<leftarrow> is_command ''format'' command;
     is_create \<leftarrow> is_command ''create'' command;
     is_read \<leftarrow> is_command ''read'' command;
     is_write \<leftarrow> is_command ''write'' command;
     is_delete \<leftarrow> is_command ''delete'' command;
     if is_list then bmfs_list s
     else if is_format then do {
       force \<leftarrow> (case filename of None \<Rightarrow> Some False | Some f \<Rightarrow> host_strcaseeq f (lit ''/FORCE''));
       Some (if force then bmfs_format s else say ''Format aborted!\<newline>'' [] s) }
     else if is_create then main_create qs argv s
     else if is_read then bmfs_read filename s
     else if is_write then bmfs_write filename s
     else if is_delete then bmfs_delete filename s
     else Some (say ''Unknown command\<newline>'' [] s) }"

text \<open>\<open>main\<close>; the arguments are \<open>argv\<close> without the null pointer that ends it. The result has the exit code.\<close>

definition bmfs_main :: "qsort \<Rightarrow> byte list list \<Rightarrow> bmfs \<Rightarrow> (int \<times> bmfs) option" where
  "bmfs_main qs argv s0 =
     (if length argv < 3 then Some (0, bmfs_usage (hd argv) s0)
      else do {
        let command = argv ! 2;
        let s = s0\<lparr>diskname := argv ! 1\<rparr>;
        let nth_arg = (\<lambda>i. if i < length argv then Some (argv ! i) else None);
        is_initialize \<leftarrow> is_command ''initialize'' command;
        if is_initialize then
          (if length argv \<ge> 4 then bmfs_initialize (argv ! 1) (argv ! 3) (nth_arg 4) (nth_arg 5) (nth_arg 6) s
           else Some (1, say ''[bootloader_file] [kernel_file]\<newline>'' [] (say ''size [mbr_file] '' []
             (say ''Usage: %s disk %s '' [HStr (cstr (argv ! 0)), HStr (cstr command)] s))))
        else (case open_disk s of
            None \<Rightarrow> Some (0, say ''Error: Unable to open disk '%s'\<newline>'' [HStr (cstr (argv ! 1))] s)
          | Some s1 \<Rightarrow> do {
              tagged \<leftarrow> host_strcaseeq (DiskInfo s1) fs_tag;
              if tagged then do { s2 \<leftarrow> bmfs_command qs argv s1; Some (0, close_disk s2) }
              else do {
                is_format \<leftarrow> is_command ''format'' command;
                Some (0, close_disk (if is_format then bmfs_format s1
                  else say ''Error: Not a valid BMFS drive (Disk is not BMFS formatted).\<newline>'' [] s1)) } }) })"

text \<open>The program starts with its tables zero and nothing printed.\<close>

definition bmfs_start :: "(byte list \<rightharpoonup> byte list) \<Rightarrow> nat \<Rightarrow> bmfs" where
  "bmfs_start files room =
     \<lparr>hostFiles = files, hostWritable = (\<lambda>_. True), hostRoom = room, hostMemory = True, hostStdin = [], hostOut = [],
      diskBytes = [], diskPos = 0, diskErr = False, disksize = 0, DiskInfo = replicate 512 0,
      Directory = replicate 4096 0, diskname = [0]\<rparr>"

end
