(* ===== verification/BmfsProps.thy ===== *)
theory BmfsProps
  imports Bmfs "HOL-Library.Multiset"
begin

text \<open>
  The tool of the disk image (\<open>Bmfs\<close>): where a new file is put, that a file comes back as it was
  written, and what deleted entries do to the search for room.
\<close>

section \<open>Bytes put into a file\<close>

lemma length_host_put [simp]:
  "length (host_put pos bs f) = (if bs = [] then length f else max (length f) (pos + length bs))"
  by (auto simp: host_put_def)

lemma length_host_put_ge: "length f \<le> length (host_put pos bs f)"
  by simp

lemma nth_host_put:
  "i < length (host_put pos bs f) \<Longrightarrow>
     host_put pos bs f ! i =
       (if pos \<le> i \<and> i < pos + length bs then bs ! (i - pos) else if i < length f then f ! i else 0)"
  by (auto simp: host_put_def nth_append min_def)

lemma host_put_Cons: "host_put (Suc pos) cs (host_put pos [c] f) = host_put pos (c # cs) f"
proof (rule nth_equalityI)
  fix i
  assume i: "i < length (host_put (Suc pos) cs (host_put pos [c] f))"
  then have "i < length (host_put pos (c # cs) f)" by (auto split: if_splits)
  moreover have "(c # cs) ! (i - pos) = cs ! (i - Suc pos)" if "Suc pos \<le> i"
    using that by (simp add: Suc_diff_le [symmetric] nth_Cons')
  ultimately show "host_put (Suc pos) cs (host_put pos [c] f) ! i = host_put pos (c # cs) f ! i"
    using i by (auto simp: nth_host_put)
qed auto

lemma take_drop_host_put [simp]: "take (length bs) (drop pos (host_put pos bs f)) = bs"
  by (rule nth_equalityI) (auto simp: nth_host_put)

text \<open>Bytes outside the range that is written stay.\<close>

lemma take_drop_host_put_other:
  assumes "q + n \<le> pos \<or> pos + length bs \<le> q" "q + n \<le> length f"
  shows "take n (drop q (host_put pos bs f)) = take n (drop q f)"
  using assms by (intro nth_equalityI) (auto simp: nth_host_put)

lemma host_fwrite_fits:
  "diskPos s + length bs \<le> hostRoom s \<Longrightarrow>
     host_fwrite bs s = (True, s\<lparr>diskBytes := host_put (diskPos s) bs (diskBytes s), diskPos := diskPos s + length bs\<rparr>)"
proof -
  assume "diskPos s + length bs \<le> hostRoom s"
  then have "length bs \<le> hostRoom s - diskPos s" by simp
  then show ?thesis by (simp add: host_fwrite_def Let_def min_absorb1)
qed

lemma host_fseek_to: "n < 2 ^ 63 \<Longrightarrow> host_fseek (word_of_nat n) s = s\<lparr>diskPos := n\<rparr>"
proof -
  assume n: "n < 2 ^ 63"
  then have u: "unat (word_of_nat n :: u64) = n" by (intro unat_of_nat64) simp
  moreover have "\<not> sint (word_of_nat n :: u64) < 0"
    using bit63_iff [of "word_of_nat n"] n unfolding u by (simp add: bit_last_iff [symmetric])
  ultimately show ?thesis by (simp add: host_fseek_def)
qed

lemma write_loop_puts:
  "diskPos s + length cs \<le> hostRoom s \<Longrightarrow>
     write_loop cs s = s\<lparr>diskBytes := host_put (diskPos s) cs (diskBytes s), diskPos := diskPos s + length cs\<rparr>"
proof (induction cs arbitrary: s)
  case Nil
  then show ?case by (simp add: host_put_def)
next
  case (Cons c cs)
  then show ?case by (simp add: host_fwrite_fits host_put_Cons)
qed

lemma read_loop_takes:
  "diskPos s + n \<le> length (diskBytes s) \<Longrightarrow> length out + n \<le> hostRoom s \<Longrightarrow>
     read_loop n out s = (out @ take n (drop (diskPos s) (diskBytes s)), s\<lparr>diskPos := diskPos s + n\<rparr>)"
proof (induction n arbitrary: out s)
  case (Suc n)
  then show ?case by (simp add: host_getc_def Cons_nth_drop_Suc [symmetric])
qed simp

lemma flush_directory_puts:
  "4096 + length (Directory s) \<le> hostRoom s \<Longrightarrow>
     flush_directory s = s\<lparr>diskBytes := host_put 4096 (Directory s) (diskBytes s), diskPos := 4096 + length (Directory s)\<rparr>"
  using host_fseek_to [of 4096 s] by (simp add: flush_directory_def host_fwrite_fits)

lemma say_fields [simp]:
  "hostFiles (say fmt as s) = hostFiles s" "hostWritable (say fmt as s) = hostWritable s" "hostRoom (say fmt as s) = hostRoom s"
  "diskBytes (say fmt as s) = diskBytes s" "diskPos (say fmt as s) = diskPos s" "diskErr (say fmt as s) = diskErr s"
  "disksize (say fmt as s) = disksize s" "DiskInfo (say fmt as s) = DiskInfo s"
  "Directory (say fmt as s) = Directory s" "diskname (say fmt as s) = diskname s"
  by (simp_all add: say_def)

section \<open>The entries of the directory\<close>

lemma length_dir_entry: "length D = 4096 \<Longrightarrow> i < 64 \<Longrightarrow> length (dir_entry D i) = 64"
  by (simp add: dir_entry_def)

lemma nth_dir_entry: "k < 64 \<Longrightarrow> dir_entry D i ! k = D ! (64 * i + k)" if "64 * i + 64 \<le> length D"
  using that by (simp add: dir_entry_def)

text \<open>An entry depends on its own bytes only.\<close>

lemma dir_entry_cong:
  assumes "length D' = length D" "length D = 4096" "i < 64"
    and "\<And>k. k < 64 \<Longrightarrow> D' ! (64 * i + k) = D ! (64 * i + k)"
  shows "dir_entry D' i = dir_entry D i"
  using assms by (intro nth_equalityI) (auto simp: nth_dir_entry length_dir_entry)

lemma split_entry:
  assumes "length D = 4096" "i < 64"
  obtains A N F U B where "D = A @ (N @ F @ U) @ B" "length A = 64 * i" "length N = 32" "length F = 24" "length U = 8"
    "dir_entry D i = N @ F @ U"
proof
  let ?d = "\<lambda>k n. take n (drop (64 * i + k) D)"
  show e: "dir_entry D i = ?d 0 32 @ ?d 32 24 @ ?d 56 8" using assms
    by (simp add: dir_entry_def take_add [of 32 32, simplified] take_add [of 24 8, simplified] add.commute)
  show "D = take (64 * i) D @ (?d 0 32 @ ?d 32 24 @ ?d 56 8) @ drop (64 * i + 64) D"
    unfolding e [symmetric] by (metis dir_entry_def append_take_drop_id drop_drop add.commute)
qed (use assms in simp_all)

lemma replace_entry:
  assumes "length A = 64 * i" "length E = 64" "length E' = 64"
  shows "dir_entry (A @ E' @ B) i = E'" "j \<noteq> i \<Longrightarrow> dir_entry (A @ E' @ B) j = dir_entry (A @ E @ B) j"
proof -
  show "dir_entry (A @ E' @ B) i = E'" using assms by (simp add: dir_entry_def)
  assume "j \<noteq> i"
  then consider "64 * j + 64 \<le> length A" | "length A + 64 \<le> 64 * j" using assms(1) by linarith
  then show "dir_entry (A @ E' @ B) j = dir_entry (A @ E @ B) j"
    using assms by cases (auto simp: dir_entry_def)
qed

text \<open>The fields of an entry that was put together.\<close>

lemma fields_of_entry:
  assumes "length N = 32"
  shows "StartingBlock (N @ le64 a @ le64 b @ le64 c @ U) = a" "ReservedBlocks (N @ le64 a @ le64 b @ le64 c @ U) = b"
    "FileSize (N @ le64 a @ le64 b @ le64 c @ U) = c"
  using assms by (simp_all add: StartingBlock_def ReservedBlocks_def FileSize_def read_le64_le64)

text \<open>A new record whose name fits changes its own entry only.\<close>

lemma add_record_ok:
  assumes "length D = 4096" "i < 64" "terminated f" "length (cstr f) < 32"
  obtains D' N U where "add_record i f st rq D = Some D'" "length D' = 4096"
    "\<And>j. j \<noteq> i \<Longrightarrow> dir_entry D' j = dir_entry D j"
    "dir_entry D' i = (cstr f @ 0 # N) @ le64 st @ le64 rq @ le64 0 @ U" "length (cstr f @ 0 # N) = 32" "length U = 8"
proof -
  obtain A N F U B where s: "D = A @ (N @ F @ U) @ B" "length A = 64 * i" "length N = 32" "length F = 24" "length U = 8"
    using assms(1,2) by (rule split_entry)
  let ?F = "le64 st @ le64 rq @ le64 0" and ?N = "cstr f @ 0 # drop (Suc (length (cstr f))) N"
  have N: "length ?N = 32" using assms(4) s(3) by simp
  have "write_at (64 * i + 32) ?F D = Some (A @ N @ ?F @ U @ B)"
    unfolding s(1) using s(2-) by (simp add: write_at_def)
  moreover have "strcpy_from (A @ N @ ?F @ U @ B) f (64 * i) = Some (A @ (?N @ ?F @ U) @ B, 64 * i + length (cstr f))"
    using strcpy_from_returns [OF assms(3), of "64 * i" "A @ N @ ?F @ U @ B"] s(2-) assms(4) by simp
  ultimately have "add_record i f st rq D = Some (A @ (?N @ ?F @ U) @ B)" by (simp add: add_record_def)
  moreover have "length (A @ (?N @ ?F @ U) @ B) = 4096" using assms(1) N s(3-) unfolding s(1) by simp
  moreover have E: "length (N @ F @ U) = 64" "length (?N @ ?F @ U) = 64" using s(3-) N by simp_all
  ultimately show thesis
    using that [of _ "drop (Suc (length (cstr f))) N" U] replace_entry [OF s(2) E] s(5) N unfolding s(1) by auto
qed

section \<open>Where a file is put\<close>

definition live_entry :: "byte list \<Rightarrow> bool" where
  "live_entry e \<longleftrightarrow> e ! 0 \<noteq> END_OF_DIRECTORY \<and> e ! 0 \<noteq> EMPTY_ENTRY"

text \<open>The blocks of an entry: from its start to before its end.\<close>

definition entry_start :: "byte list \<Rightarrow> nat" where "entry_start e = unat (StartingBlock e)"
definition entry_end :: "byte list \<Rightarrow> nat" where "entry_end e = unat (StartingBlock e) + unat (ReservedBlocks e)"

text \<open>\<open>b\<close> blocks at \<open>p\<close> are free: after \<open>lo\<close>, before the last block \<open>hi\<close>, and outside every file.\<close>

definition gap_at :: "byte list set \<Rightarrow> nat \<Rightarrow> nat \<Rightarrow> nat \<Rightarrow> nat \<Rightarrow> bool" where
  "gap_at es lo hi b p \<longleftrightarrow> lo \<le> p \<and> p + b \<le> hi \<and> (\<forall>e\<in>es. p + b \<le> entry_start e \<or> entry_end e \<le> p)"

text \<open>The lowest such place, or 0.\<close>

definition first_gap :: "byte list set \<Rightarrow> nat \<Rightarrow> nat \<Rightarrow> nat \<Rightarrow> nat" where
  "first_gap es lo hi b = (if \<exists>p. gap_at es lo hi b p then LEAST p. gap_at es lo hi b p else 0)"

lemma first_gap_low: "gap_at es lo hi b lo \<Longrightarrow> first_gap es lo hi b = lo"
  unfolding first_gap_def by (auto simp: gap_at_def intro!: Least_equality)

lemma first_gap_skip:
  assumes "entry_start e < lo + b" "lo \<le> entry_end e"
  shows "first_gap (insert e es) lo hi b = first_gap es (entry_end e) hi b"
proof -
  have "gap_at (insert e es) lo hi b = gap_at es (entry_end e) hi b"
    using assms by (auto simp: gap_at_def fun_eq_iff)
  then show ?thesis by (simp add: first_gap_def)
qed

lemma first_gap_gap: "first_gap es lo hi b \<noteq> 0 \<Longrightarrow> gap_at es lo hi b (first_gap es lo hi b)"
  by (auto simp: first_gap_def intro: LeastI split: if_splits)

text \<open>The loop over the files in the order of their blocks finds the lowest gap.\<close>

lemma place_loop_first_gap:
  assumes "sorted_wrt (\<lambda>a b. entry_end a \<le> entry_start b) es"
    and "\<And>e. e \<in> set es \<Longrightarrow> live_entry e \<and> unat pe \<le> entry_start e \<and> entry_start e \<le> entry_end e \<and>
      entry_end e \<le> unat (nb - 1)"
    and "unat pe \<le> unat (nb - 1)" "0 < unat b"
  shows "unat (place_loop nb b es pe) = first_gap (set es) (unat pe) (unat (nb - 1)) (unat b)"
  using assms(1-3)
proof (induction es arbitrary: pe)
  case Nil
  have d: "unat (nb - 1 - pe) = unat (nb - 1) - unat pe" using Nil.prems(3) by (rule unat_minus)
  have "gap_at {} (unat pe) (unat (nb - 1)) (unat b) p \<Longrightarrow> unat b \<le> unat (nb - 1) - unat pe" for p
    by (auto simp: gap_at_def)
  moreover have "unat b \<le> unat (nb - 1) - unat pe \<Longrightarrow> gap_at {} (unat pe) (unat (nb - 1)) (unat b) (unat pe)"
    using Nil.prems(3) by (auto simp: gap_at_def)
  ultimately show ?case by (auto simp: word_le_nat_alt d first_gap_low) (auto simp: first_gap_def)
next
  case (Cons e es)
  note e = Cons.prems(2) [of e, simplified]
  have fits: "b \<le> StartingBlock e - pe \<longleftrightarrow> unat pe + unat b \<le> entry_start e"
    using e unfolding entry_start_def by (auto simp: word_le_nat_alt unat_minus)
  have noempty: "e ! 0 \<noteq> EMPTY_ENTRY" using e by (simp add: live_entry_def)
  show ?case
  proof (cases "b \<le> StartingBlock e - pe")
    case True
    with fits have low: "unat pe + unat b \<le> entry_start e'" if "e' \<in> set (e # es)" for e'
      using that Cons.prems(1) e by (auto 4 3 intro: order_trans)
    moreover have "unat pe + unat b \<le> unat (nb - 1)" using low [of e] e by simp
    ultimately have "gap_at (set (e # es)) (unat pe) (unat (nb - 1)) (unat b) (unat pe)"
      by (auto simp: gap_at_def)
    then show ?thesis using True noempty by (simp add: Let_def first_gap_low)
  next
    case False
    have end_eq: "unat (StartingBlock e + ReservedBlocks e) = entry_end e"
      using e unat_lt_u64 [of "nb - 1"] by (intro trans [OF unat_plus]) (auto simp: entry_end_def)
    have "unat (place_loop nb b es (StartingBlock e + ReservedBlocks e)) =
        first_gap (set es) (entry_end e) (unat (nb - 1)) (unat b)"
      unfolding end_eq [symmetric] by (rule Cons.IH) (use Cons.prems e end_eq in auto)
    moreover have "first_gap (set (e # es)) (unat pe) (unat (nb - 1)) (unat b) =
        first_gap (set es) (entry_end e) (unat (nb - 1)) (unat b)"
      unfolding list.set by (rule first_gap_skip) (use False fits e in auto)
    ultimately show ?thesis using False noempty by (simp add: Let_def)
  qed
qed

section \<open>The order of the files\<close>

text \<open>
  What \<open>qsort\<close> promises: where the comparison agrees with the order of some keys, the same elements come
  out, and their keys go up.
\<close>

locale host_qsort =
  fixes qs :: qsort
  assumes sorts: "\<And>(key :: byte list \<Rightarrow> nat) cmp xs. distinct xs \<Longrightarrow>
     (\<And>a b. a \<in> set xs \<Longrightarrow> b \<in> set xs \<Longrightarrow> a \<noteq> b \<Longrightarrow>
        (cmp a b < 0 \<longleftrightarrow> key a < key b) \<and> (0 < cmp a b \<longleftrightarrow> key b < key a)) \<Longrightarrow>
     mset (qs cmp xs) = mset xs \<and> sorted (map key (qs cmp xs))"

text \<open>Insertion sort is such a routine.\<close>

fun insert_by :: "(byte list \<Rightarrow> byte list \<Rightarrow> int) \<Rightarrow> byte list \<Rightarrow> byte list list \<Rightarrow> byte list list" where
  "insert_by cmp x [] = [x]"
| "insert_by cmp x (y # ys) = (if cmp x y \<le> 0 then x # y # ys else y # insert_by cmp x ys)"

fun insertion_qsort :: qsort where
  "insertion_qsort cmp [] = []"
| "insertion_qsort cmp (x # xs) = insert_by cmp x (insertion_qsort cmp xs)"

lemma mset_insert_by: "mset (insert_by cmp x xs) = add_mset x (mset xs)"
  by (induction xs) auto

lemma mset_insertion_qsort: "mset (insertion_qsort cmp xs) = mset xs"
  by (induction xs) (auto simp: mset_insert_by)

lemma sorted_insert_by:
  "sorted (map key xs) \<Longrightarrow> (\<And>y. y \<in> set xs \<Longrightarrow> (0 < cmp x y) = (key y < key x)) \<Longrightarrow>
     sorted (map key (insert_by cmp x xs))" for key :: "byte list \<Rightarrow> nat"
proof (induction xs)
  case (Cons y ys)
  have "set (insert_by cmp x ys) = insert x (set ys)"
    using mset_insert_by [of cmp x ys] by (metis set_mset_add_mset_insert set_mset_mset)
  moreover have "cmp x y \<le> 0 \<longleftrightarrow> key x \<le> key y" using Cons.prems(2) [of y] by (simp add: linorder_not_less [symmetric])
  ultimately show ?case using Cons by fastforce
qed simp

interpretation insertion: host_qsort insertion_qsort
proof
  fix key :: "byte list \<Rightarrow> nat" and cmp :: "byte list \<Rightarrow> byte list \<Rightarrow> int" and xs
  assume "distinct xs" and "\<And>a b. a \<in> set xs \<Longrightarrow> b \<in> set xs \<Longrightarrow> a \<noteq> b \<Longrightarrow>
      (cmp a b < 0 \<longleftrightarrow> key a < key b) \<and> (0 < cmp a b \<longleftrightarrow> key b < key a)"
  then have "sorted (map key (insertion_qsort cmp xs))"
  proof (induction xs)
    case (Cons x xs)
    have s: "set (insertion_qsort cmp xs) = set xs"
      using mset_insertion_qsort [of cmp xs] by (metis set_mset_mset)
    show ?case unfolding insertion_qsort.simps
    proof (rule sorted_insert_by)
      show "sorted (map key (insertion_qsort cmp xs))" using Cons by auto
      show "(0 < cmp x y) = (key y < key x)" if "y \<in> set (insertion_qsort cmp xs)" for y
        using that Cons.prems(1) Cons.prems(2) [of x y] unfolding s by auto
    qed
  qed simp
  then show "mset (insertion_qsort cmp xs) = mset xs \<and> sorted (map key (insertion_qsort cmp xs))"
    by (simp add: mset_insertion_qsort)
qed

lemma ucast_word_of_int_64_32: "ucast (word_of_int i :: u64) = (word_of_int i :: u32)"
  by (rule bit_word_eqI) (auto simp: bit_simps)

text \<open>On the blocks of a disk the comparison does not overflow its \<open>int\<close>.\<close>

lemma StartingBlockCmp_live:
  assumes "live_entry a" "live_entry b" "entry_start a < 2 ^ 31" "entry_start b < 2 ^ 31"
  shows "StartingBlockCmp a b = int (entry_start a) - int (entry_start b)"
proof -
  have "StartingBlock a - StartingBlock b = word_of_int (int (entry_start a) - int (entry_start b))"
    by (simp add: entry_start_def word_of_int_nat)
  then have "ucast (StartingBlock a - StartingBlock b) = (word_of_int (int (entry_start a) - int (entry_start b)) :: u32)"
    by (simp only: ucast_word_of_int_64_32)
  moreover have "sint (word_of_int (int (entry_start a) - int (entry_start b)) :: u32) = int (entry_start a) - int (entry_start b)"
    using assms(3,4) unfolding sint_sbintrunc' by (intro signed_take_bit_int_eq_self) simp_all
  ultimately show ?thesis using assms(1,2) by (simp only: StartingBlockCmp_def live_entry_def if_False)
qed

section \<open>A directory without deleted entries\<close>

text \<open>
  The first \<open>n\<close> entries are files, in blocks between 1 and \<open>hi\<close>, which no two of them share; the next entry
  is the end mark.
\<close>

definition tidy_directory :: "nat \<Rightarrow> byte list \<Rightarrow> nat \<Rightarrow> bool" where
  "tidy_directory hi D n \<longleftrightarrow>
     length D = 4096 \<and> n \<le> 64 \<and> (n < 64 \<longrightarrow> dir_entry D n ! 0 = END_OF_DIRECTORY) \<and>
     (\<forall>i<n. live_entry (dir_entry D i) \<and> terminated (dir_entry D i) \<and> 1 \<le> entry_start (dir_entry D i) \<and>
        entry_start (dir_entry D i) < entry_end (dir_entry D i) \<and> entry_end (dir_entry D i) \<le> hi) \<and>
     (\<forall>i<n. \<forall>j<n. i \<noteq> j \<longrightarrow>
        entry_end (dir_entry D i) \<le> entry_start (dir_entry D j) \<or> entry_end (dir_entry D j) \<le> entry_start (dir_entry D i))"

definition dir_files :: "byte list \<Rightarrow> nat \<Rightarrow> byte list list" where
  "dir_files D n = map (dir_entry D) [0..<n]"

lemma tidy_file:
  "tidy_directory hi D n \<Longrightarrow> i < n \<Longrightarrow> live_entry (dir_entry D i) \<and> terminated (dir_entry D i) \<and>
     1 \<le> entry_start (dir_entry D i) \<and> entry_start (dir_entry D i) < entry_end (dir_entry D i) \<and>
     entry_end (dir_entry D i) \<le> hi"
  by (simp add: tidy_directory_def)

lemma findfile_loop_absent:
  assumes "tidy_directory hi D n" "terminated f" "\<And>i. i < n \<Longrightarrow> cstr (dir_entry D i) \<noteq> cstr f"
  shows "t + k = 64 \<Longrightarrow> t \<le> n \<Longrightarrow> findfile_loop (Some f) D k t = Some None"
proof (induction k arbitrary: t)
  case (Suc k)
  show ?case
  proof (cases "t = n")
    case True
    then show ?thesis using assms(1) Suc.prems by (simp add: tidy_directory_def Let_def)
  next
    case False
    with Suc.prems have t: "t < n" by simp
    have "\<exists>c. strcmp f (dir_entry D t) = Some c \<and> c \<noteq> 0"
      using strcmp_eq [OF assms(2), of "dir_entry D t"] tidy_file [OF assms(1) t] assms(3) [OF t] by auto
    then show ?thesis using Suc tidy_file [OF assms(1) t] t by (auto simp: Let_def live_entry_def)
  qed
qed simp

lemma findfile_absent:
  "tidy_directory hi D n \<Longrightarrow> terminated f \<Longrightarrow> (\<And>i. i < n \<Longrightarrow> cstr (dir_entry D i) \<noteq> cstr f) \<Longrightarrow>
     findfile (Some f) D = Some None"
  unfolding findfile_def by (rule findfile_loop_absent) auto

lemma count_loop_tidy:
  assumes "tidy_directory hi D n" "n < 64"
  shows "t + k = 64 \<Longrightarrow> t \<le> n \<Longrightarrow> count_loop D k t None = (n, Some n)"
proof (induction k arbitrary: t)
  case (Suc k)
  show ?case
  proof (cases "t = n")
    case True
    then show ?thesis using assms by (simp add: tidy_directory_def Let_def)
  next
    case False
    with Suc have "t < n" "count_loop D k (Suc t) None = (n, Some n)" by simp_all
    then show ?thesis using tidy_file [OF assms(1)] by (simp add: Let_def live_entry_def)
  qed
qed (use assms in simp)

context host_qsort
begin

lemma sorted_files:
  assumes tidy: "tidy_directory hi D n" and hi: "hi < 2 ^ 31"
  defines "es \<equiv> qs StartingBlockCmp (dir_files D n)"
  shows "set es = set (dir_files D n)" "sorted_wrt (\<lambda>a b. entry_end a \<le> entry_start b) es"
proof -
  have apart: "entry_end (dir_entry D i) \<le> entry_start (dir_entry D j) \<or> entry_end (dir_entry D j) \<le> entry_start (dir_entry D i)"
    if "i < n" "j < n" "i \<noteq> j" for i j
    using tidy that by (auto simp: tidy_directory_def)
  have "dir_entry D i \<noteq> dir_entry D j" if "i < n" "j < n" "i \<noteq> j" for i j
    using apart [OF that] tidy_file [OF tidy that(1)] by auto
  then have "inj_on (dir_entry D) {..<n}" by (meson inj_onI lessThan_iff)
  then have d: "distinct (dir_files D n)" by (simp add: dir_files_def distinct_map atLeast0LessThan)
  have c: "(StartingBlockCmp a b < 0) = (entry_start a < entry_start b) \<and> (0 < StartingBlockCmp a b) = (entry_start b < entry_start a)"
    if "a \<in> set (dir_files D n)" "b \<in> set (dir_files D n)" for a b
  proof -
    have "live_entry e \<and> entry_start e < 2 ^ 31" if "e \<in> set (dir_files D n)" for e
      using that tidy_file [OF tidy] hi by (fastforce simp: dir_files_def)
    then show ?thesis using that by (simp add: StartingBlockCmp_live)
  qed
  from sorts [OF d c] have m: "mset es = mset (dir_files D n)" and s: "sorted (map entry_start es)"
    unfolding es_def by auto
  show set: "set es = set (dir_files D n)" using m by (metis set_mset_mset)
  have de: "distinct es" using d m by (metis mset_eq_imp_distinct_iff)
  show "sorted_wrt (\<lambda>a b. entry_end a \<le> entry_start b) es"
  proof (clarsimp simp: sorted_wrt_iff_nth_less)
    fix i j
    assume ij: "i < j" "j < length es"
    then have ne: "es ! i \<noteq> es ! j" and "es ! i \<in> set es" "es ! j \<in> set es"
      using de by (auto simp: nth_eq_iff_index_eq)
    then have "es ! i \<in> dir_entry D ` {..<n}" "es ! j \<in> dir_entry D ` {..<n}"
      unfolding set by (simp_all add: dir_files_def atLeast0LessThan)
    then obtain k l where kl: "es ! i = dir_entry D k" "es ! j = dir_entry D l" "k < n" "l < n" by blast
    with ne have "k \<noteq> l" by auto
    have "entry_start (es ! i) \<le> entry_start (es ! j)" using s ij by (simp add: sorted_iff_nth_mono)
    then show "entry_end (es ! i) \<le> entry_start (es ! j)"
      using apart [OF kl(3,4) \<open>k \<noteq> l\<close>] tidy_file [OF tidy kl(3)] tidy_file [OF tidy kl(4)] unfolding kl(1,2) by auto
  qed
qed

lemma place_loop_tidy:
  assumes tidy: "tidy_directory (unat (nb - 1)) D n" and nb: "unat nb < 2 ^ 31" "2 \<le> unat nb" and b: "0 < unat b"
  shows "unat (place_loop nb b (qs StartingBlockCmp (dir_files D n)) 1) =
    first_gap (set (dir_files D n)) 1 (unat (nb - 1)) (unat b)"
proof -
  have hi: "unat (nb - 1) < 2 ^ 31" "1 \<le> unat (nb - 1)" using nb by (simp_all add: unat_minus)
  note s = sorted_files [OF tidy hi(1)]
  have "unat (place_loop nb b (qs StartingBlockCmp (dir_files D n)) 1) =
      first_gap (set (qs StartingBlockCmp (dir_files D n))) (unat (1 :: u64)) (unat (nb - 1)) (unat b)"
  proof (rule place_loop_first_gap [OF s(2)])
    fix e
    assume "e \<in> set (qs StartingBlockCmp (dir_files D n))"
    then obtain i where "e = dir_entry D i" "i < n" unfolding s(1) by (auto simp: dir_files_def)
    then show "live_entry e \<and> unat (1 :: u64) \<le> entry_start e \<and> entry_start e \<le> entry_end e \<and> entry_end e \<le> unat (nb - 1)"
      using tidy_file [OF tidy] by fastforce
  qed (use hi b in simp_all)
  then show ?thesis by (simp add: s(1))
qed

end

section \<open>A new file\<close>

lemma update_entry:
  assumes "length D = 4096" "k < 64"
  shows "j \<noteq> k \<Longrightarrow> j < 64 \<Longrightarrow> dir_entry (D[64 * k := x]) j = dir_entry D j" "dir_entry (D[64 * k := x]) k ! 0 = x"
proof -
  show "j \<noteq> k \<Longrightarrow> j < 64 \<Longrightarrow> dir_entry (D[64 * k := x]) j = dir_entry D j"
  proof (rule dir_entry_cong)
    fix l :: nat
    assume "j \<noteq> k" "l < 64"
    then have "(64 * j + l) div 64 \<noteq> k" by simp
    then have "64 * j + l \<noteq> 64 * k" by auto
    then show "D[64 * k := x] ! (64 * j + l) = D ! (64 * j + l)" by simp
  qed (use assms in simp_all)
  show "dir_entry (D[64 * k := x]) k ! 0 = x" using assms by (simp add: nth_dir_entry)
qed

text \<open>A file in a gap keeps the directory tidy.\<close>

lemma tidy_directory_add:
  assumes tidy: "tidy_directory hi D n" and n: "n < 64" and len: "length D' = 4096"
    and old: "\<And>i. i < n \<Longrightarrow> dir_entry D' i = dir_entry D i"
    and mark: "Suc n < 64 \<Longrightarrow> dir_entry D' (Suc n) ! 0 = END_OF_DIRECTORY"
    and new: "live_entry (dir_entry D' n)" "terminated (dir_entry D' n)"
    and gap: "gap_at (set (dir_files D n)) 1 hi b (entry_start (dir_entry D' n))"
      "entry_end (dir_entry D' n) = entry_start (dir_entry D' n) + b" "0 < b"
  shows "tidy_directory hi D' (Suc n)"
proof -
  let ?e = "dir_entry D'"
  have apart: "entry_end (?e n) \<le> entry_start (?e i) \<or> entry_end (?e i) \<le> entry_start (?e n)" if "i < n" for i
    using gap(1) that unfolding gap(2) by (auto simp: gap_at_def dir_files_def old)
  have "1 \<le> entry_start (?e n)" "entry_start (?e n) + b \<le> hi" using gap(1) by (auto simp: gap_at_def)
  then have "live_entry (?e i) \<and> terminated (?e i) \<and> 1 \<le> entry_start (?e i) \<and> entry_start (?e i) < entry_end (?e i) \<and> entry_end (?e i) \<le> hi"
    if "i < Suc n" for i
    using that tidy_file [OF tidy, of i] new gap(2,3) by (cases "i = n") (auto simp: old)
  moreover have "entry_end (?e i) \<le> entry_start (?e j) \<or> entry_end (?e j) \<le> entry_start (?e i)"
    if "i < Suc n" "j < Suc n" "i \<noteq> j" for i j
  proof -
    consider "i < n" "j < n" | "i = n" "j < n" | "i < n" "j = n" using \<open>i < Suc n\<close> \<open>j < Suc n\<close> \<open>i \<noteq> j\<close> by linarith
    then show ?thesis
    proof cases
      case 1
      then show ?thesis using tidy \<open>i \<noteq> j\<close> by (simp add: old tidy_directory_def)
    qed (use apart [of i] apart [of j] in auto)
  qed
  ultimately show ?thesis using len n mark by (simp add: tidy_directory_def)
qed

lemma name_in_entry:
  assumes "terminated f" "cstr f \<noteq> []" "hd (cstr f) \<noteq> EMPTY_ENTRY"
  shows "live_entry ((cstr f @ 0 # N) @ R)" "terminated ((cstr f @ 0 # N) @ R)" "cstr ((cstr f @ 0 # N) @ R) = cstr f"
proof -
  obtain c cs where c: "cstr f = c # cs" using assms(2) by (cases "cstr f") auto
  then have "c \<noteq> 0" using cstr_no_zero [of f] by auto
  then show "live_entry ((cstr f @ 0 # N) @ R)"
    using assms(3) unfolding c by (simp add: live_entry_def END_OF_DIRECTORY_def)
  show "terminated ((cstr f @ 0 # N) @ R)" by (simp add: terminated_def)
  show "cstr ((cstr f @ 0 # N) @ R) = cstr f" using cstr_append_zero [OF cstr_no_zero, of f "N @ R"] by simp
qed

lemma even_blocks:
  fixes m :: u64
  assumes "unat m < 2 ^ 32"
  shows "unat ((if m mod 2 \<noteq> 0 then m + 1 else m) div 2) = (unat m + 1) div 2"
proof -
  have "unat (m + 1) = unat m + 1" using assms unat_plus [of m 1] by simp
  moreover have "m mod 2 = 0 \<longleftrightarrow> unat m mod 2 = 0" by (simp add: word_eq_unat unat_mod)
  ultimately show ?thesis by (simp add: unat_div) presburger
qed

text \<open>What the directory and the disk are after a new file was put in a gap.\<close>

definition created :: "byte list \<Rightarrow> nat \<Rightarrow> nat \<Rightarrow> nat \<Rightarrow> nat \<Rightarrow> bmfs \<Rightarrow> bmfs \<Rightarrow> bool" where
  "created f hi n p b s s' \<longleftrightarrow>
     tidy_directory hi (Directory s') (Suc n) \<and>
     (\<forall>i<n. dir_entry (Directory s') i = dir_entry (Directory s) i) \<and>
     (let e = dir_entry (Directory s') n
      in cstr e = cstr f \<and> entry_start e = p \<and> entry_end e = p + b \<and> FileSize e = 0) \<and>
     diskBytes s' = host_put 4096 (Directory s') (diskBytes s)"

context host_qsort
begin

lemma create_in_gap:
  assumes tidy: "tidy_directory hi (Directory s) n" "n < 64"
    and f: "terminated f" "cstr f \<noteq> []" "hd (cstr f) \<noteq> EMPTY_ENTRY" "length (cstr f) < 32"
    and gap: "gap_at (set (dir_files (Directory s) n)) 1 hi (unat b) (unat p)" "0 < unat b" "hi < 2 ^ 31"
    and room: "8192 \<le> hostRoom s"
  shows "\<exists>D1. add_record n f p b (Directory s) = Some D1 \<and>
    (\<forall>s1. diskBytes s1 = diskBytes s \<longrightarrow> hostRoom s1 = hostRoom s \<longrightarrow> created f hi n (unat p) (unat b) s (say ''Complete\<newline>'' [] (flush_directory (s1\<lparr>Directory :=
       if n + 1 < 64 then D1[64 * (n + 1) := END_OF_DIRECTORY] else D1\<rparr>))))"
proof -
  have len: "length (Directory s) = 4096" using tidy by (simp add: tidy_directory_def)
  obtain D1 N U where D1: "add_record n f p b (Directory s) = Some D1" "length D1 = 4096"
    "\<And>j. j \<noteq> n \<Longrightarrow> dir_entry D1 j = dir_entry (Directory s) j"
    "dir_entry D1 n = (cstr f @ 0 # N) @ le64 p @ le64 b @ le64 0 @ U" "length (cstr f @ 0 # N) = 32"
    using add_record_ok [OF len tidy(2) f(1,4)] by metis
  let ?D = "if n + 1 < 64 then D1[64 * (n + 1) := END_OF_DIRECTORY] else D1"
  have same: "dir_entry ?D j = dir_entry D1 j" if "j \<le> n" for j
    using update_entry(1) [of D1 "n + 1" j] D1(2) that tidy(2) by simp
  note flds = fields_of_entry [OF D1(5), of p b 0 U]
  have p1: "unat p + unat b < 2 ^ 64" using gap by (simp add: gap_at_def)
  have e: "entry_start (dir_entry ?D n) = unat p" "entry_end (dir_entry ?D n) = unat p + unat b" "FileSize (dir_entry ?D n) = 0"
    unfolding same [OF order_refl] D1(4) by (simp_all only: entry_start_def entry_end_def flds)
  have nm: "live_entry (dir_entry ?D n)" "terminated (dir_entry ?D n)" "cstr (dir_entry ?D n) = cstr f"
    unfolding same [OF order_refl] D1(4) by (rule name_in_entry [OF f(1-3)])+
  have "tidy_directory hi ?D (Suc n)"
  proof (rule tidy_directory_add [OF tidy])
    show "dir_entry ?D i = dir_entry (Directory s) i" if "i < n" for i using same [of i] D1(3) [of i] that by simp
    show "dir_entry ?D (Suc n) ! 0 = END_OF_DIRECTORY" if "Suc n < 64"
      using update_entry(2) [of D1 "n + 1"] D1(2) that by simp
  qed (use D1(2) e nm gap in simp_all)
  moreover have "flush_directory (s1\<lparr>Directory := ?D\<rparr>) =
      s1\<lparr>Directory := ?D, diskBytes := host_put 4096 ?D (diskBytes s1), diskPos := 8192\<rparr>" if "hostRoom s1 = hostRoom s" for s1
    using flush_directory_puts [of "s1\<lparr>Directory := ?D\<rparr>"] room D1(2) that by simp
  ultimately show ?thesis using D1(1) e nm same D1(3) by (simp add: created_def say_def)
qed

lemma create_first_fit:
  assumes tidy: "tidy_directory hi (Directory s) n" "n < 64"
    and hi: "hi = unat (disksize s div 2) - 1" "2 \<le> unat (disksize s div 2)"
    and f: "terminated f" "cstr f \<noteq> []" "hd (cstr f) \<noteq> EMPTY_ENTRY" "length (cstr f) < 32"
      "\<And>i. i < n \<Longrightarrow> cstr (dir_entry (Directory s) i) \<noteq> cstr f"
    and m: "0 < unat maxsize" "unat maxsize < 2 ^ 32"
    and room: "8192 \<le> hostRoom s"
  shows "\<exists>s'. bmfs_create qs f maxsize s = Some s' \<and>
    (let b = (unat maxsize + 1) div 2; p = first_gap (set (dir_files (Directory s) n)) 1 hi b
     in if p = 0 then Directory s' = Directory s \<and> diskBytes s' = diskBytes s else created f hi n p b s s')"
proof -
  let ?D = "Directory s" and ?b = "(unat maxsize + 1) div 2"
  let ?m = "if maxsize mod 2 \<noteq> 0 then maxsize + 1 else maxsize"
  let ?nb = "ucast (disksize s div 2) :: u64"
  let ?p = "place_loop ?nb (?m div 2) (qs StartingBlockCmp (map (dir_entry ?D) [0..<n])) 1"
  have d: "unat (disksize s) < 2 ^ 32" using unsigned_less [of "disksize s"] by simp
  have nb: "unat ?nb = unat (disksize s div 2)" "unat ?nb < 2 ^ 31" "unat (?nb - 1) = hi"
    using hi d by (simp_all add: unat_div unat_minus)
  have b: "unat (?m div 2) = ?b" "0 < unat (?m div 2)" using even_blocks [OF m(2)] m(1) by simp_all
  have p: "unat ?p = first_gap (set (dir_files ?D n)) 1 hi ?b"
    using place_loop_tidy [of ?nb ?D n "?m div 2"] tidy hi nb b by (simp add: dir_files_def)
  note go = findfile_absent [OF tidy(1) f(1,5)] count_loop_tidy [OF tidy, of 0 64]
  show ?thesis
  proof (cases "?p = 0")
    case True
    with p go show ?thesis by (simp add: bmfs_create_def Let_def say_def)
  next
    case False
    then have "unat ?p \<noteq> 0" by (simp add: unat_eq_0)
    then have "gap_at (set (dir_files ?D n)) 1 hi (unat (?m div 2)) (unat ?p)" unfolding p b by (rule first_gap_gap)
    moreover have "hi < 2 ^ 31" using nb hi by simp
    ultimately
    obtain D1 where D1: "add_record n f ?p (?m div 2) ?D = Some D1"
      and c: "\<forall>s1. diskBytes s1 = diskBytes s \<longrightarrow> hostRoom s1 = hostRoom s \<longrightarrow>
        created f hi n (unat ?p) (unat (?m div 2)) s (say ''Complete\<newline>'' [] (flush_directory (s1\<lparr>Directory :=
         if n + 1 < 64 then D1[64 * (n + 1) := END_OF_DIRECTORY] else D1\<rparr>)))" using create_in_gap [OF tidy f(1-4) _ b(2) _ room] by blast
    show ?thesis using \<open>unat ?p \<noteq> 0\<close> False go D1 c [rule_format, of "say ''Creating new file...\<newline>'' [] s"] p b
      by (simp add: bmfs_create_def Let_def say_def)
  qed
qed

end

section \<open>Two files on a disk\<close>

text \<open>A disk of 64 MiB with the files \<open>a\<close> and \<open>b\<close>: their starts and their numbers of blocks.\<close>

definition demo_entry :: "byte \<Rightarrow> u64 \<Rightarrow> u64 \<Rightarrow> byte list" where
  "demo_entry c start reserved = c # replicate 31 0 @ le64 start @ le64 reserved @ le64 0 @ replicate 8 0"

definition demo_disk :: "u64 \<Rightarrow> u64 \<Rightarrow> u64 \<Rightarrow> u64 \<Rightarrow> bmfs" where
  "demo_disk p k q l = (bmfs_start (\<lambda>_. None) (2 ^ 40))
     \<lparr>disksize := 64, Directory := demo_entry 97 p k @ demo_entry 98 q l @ replicate 3968 0\<rparr>"

lemma demo_entry_fields [simp]:
  "length (demo_entry c p k) = 64" "demo_entry c p k ! 0 = c" "terminated (demo_entry c p k)"
  "entry_start (demo_entry c p k) = unat p" "entry_end (demo_entry c p k) = unat p + unat k"
  "StartingBlock (demo_entry c p k) = p" "ReservedBlocks (demo_entry c p k) = k" "FileSize (demo_entry c p k) = 0"
  "c \<noteq> 0 \<Longrightarrow> cstr (demo_entry c p k) = [c]"
proof -
  have e: "demo_entry c p k = (c # replicate 31 0) @ le64 p @ le64 k @ le64 0 @ replicate 8 0" by (simp add: demo_entry_def)
  have N: "length (c # replicate 31 0 :: byte list) = 32" by simp
  show flds: "StartingBlock (demo_entry c p k) = p" "ReservedBlocks (demo_entry c p k) = k" "FileSize (demo_entry c p k) = 0"
    unfolding e by (rule fields_of_entry [OF N])+
  show "entry_start (demo_entry c p k) = unat p" "entry_end (demo_entry c p k) = unat p + unat k"
    by (simp_all add: entry_start_def entry_end_def flds)
  show "c \<noteq> 0 \<Longrightarrow> cstr (demo_entry c p k) = [c]" by (simp add: demo_entry_def numeral_eq_Suc)
qed (simp_all add: demo_entry_def terminated_def)

lemma demo_dir_entry [simp]:
  "dir_entry (demo_entry c p k @ D) 0 = demo_entry c p k"
  "dir_entry (demo_entry c p k @ D) (Suc i) = dir_entry D i"
  "64 * i < n \<Longrightarrow> dir_entry (replicate n 0) i ! 0 = 0"
  by (simp_all add: dir_entry_def)

lemma demo_disk_fields [simp]:
  "dir_entry (Directory (demo_disk p k q l)) 0 = demo_entry 97 p k"
  "dir_entry (Directory (demo_disk p k q l)) (Suc 0) = demo_entry 98 q l"
  "dir_entry (Directory (demo_disk p k q l)) 2 ! 0 = END_OF_DIRECTORY"
  "length (Directory (demo_disk p k q l)) = 4096" "disksize (demo_disk p k q l) = 64" "hostRoom (demo_disk p k q l) = 2 ^ 40"
  by (simp_all add: demo_disk_def bmfs_start_def numeral_2_eq_2 END_OF_DIRECTORY_def)

lemma demo_tidy:
  assumes "1 \<le> unat p" "0 < unat k" "unat p + unat k \<le> unat q" "0 < unat l" "unat q + unat l \<le> 31"
  shows "tidy_directory 31 (Directory (demo_disk p k q l)) 2"
  using assms
  by (auto simp: tidy_directory_def less_2_cases_iff live_entry_def END_OF_DIRECTORY_def EMPTY_ENTRY_def)

section \<open>Writing and reading back\<close>

lemma strcmp_equal: "strcmp s t = Some 0 \<Longrightarrow> terminated s \<and> terminated t \<and> cstr s = cstr t"
  by (induction s t rule: strcmp.induct) (auto simp: sint_byte_eq split: if_splits)

lemma findfile_loop_found:
  "findfile_loop name D k t = Some (Some (e, i)) \<Longrightarrow>
     t \<le> i \<and> i < t + k \<and> e = dir_entry D i \<and> live_entry e \<and> (\<exists>f. name = Some f \<and> strcmp f e = Some 0)"
  by (induction name D k t rule: findfile_loop.induct)
    (fastforce simp: Let_def live_entry_def split: if_splits Option.bind_splits)+

text \<open>The search finds the same entry where the names before it and its own are the same.\<close>

lemma findfile_loop_same:
  assumes "findfile_loop (Some f) D k t = Some (Some (e, i))"
    and "\<And>j. j < i \<Longrightarrow> dir_entry D' j = dir_entry D j"
    and "dir_entry D' i ! 0 = e ! 0" "strcmp f (dir_entry D' i) = Some 0"
  shows "findfile_loop (Some f) D' k t = Some (Some (dir_entry D' i, i))"
  using assms
proof (induction k arbitrary: t)
  case (Suc k)
  note found = findfile_loop_found [OF Suc.prems(1)]
  show ?case
  proof (cases "t = i")
    case True
    then show ?thesis using found Suc.prems(3,4) by (auto simp: Let_def live_entry_def)
  next
    case False
    then have t: "t < i" using found by simp
    have rest: "findfile_loop (Some f) D k (Suc t) = Some (Some (e, i))" if "dir_entry D t ! 0 \<noteq> END_OF_DIRECTORY"
      using Suc.prems(1) False that by (auto simp: Let_def split: if_splits Option.bind_splits)
    show ?thesis using Suc.prems(1,2) Suc.IH [OF rest Suc.prems(2-4)] t False
      by (auto simp: Let_def split: if_splits Option.bind_splits)
  qed
qed simp

text \<open>The size is written at its place in the entry.\<close>

lemma set_file_size:
  assumes "length D = 4096" "i < 64"
  obtains D' where "write_at (64 * i + 48) (le64 v) D = Some D'" "length D' = 4096"
    "\<And>j. j \<noteq> i \<Longrightarrow> dir_entry D' j = dir_entry D j" "take 48 (dir_entry D' i) = take 48 (dir_entry D i)"
    "FileSize (dir_entry D' i) = v" "StartingBlock (dir_entry D' i) = StartingBlock (dir_entry D i)"
proof -
  obtain A N F U B where s: "D = A @ (N @ F @ U) @ B" "length A = 64 * i" "length N = 32" "length F = 24" "length U = 8"
    "dir_entry D i = N @ F @ U"
    using assms by (rule split_entry)
  let ?E = "N @ (take 16 F @ le64 v) @ U"
  have w: "write_at (64 * i + 48) (le64 v) D = Some (A @ ?E @ B)"
    unfolding s(1) using s(2-5) by (simp add: write_at_def)
  have E: "length (N @ F @ U) = 64" "length ?E = 64" using s(3-5) by simp_all
  note r = replace_entry [OF s(2) E, where B = B]
  have "FileSize ?E = v" using s(3-5) by (simp add: FileSize_def read_le64_le64)
  moreover have "StartingBlock ?E = StartingBlock (N @ F @ U)" "take 48 ?E = take 48 (N @ F @ U)"
    using s(3-5) by (simp_all add: StartingBlock_def read_le64_def nth_append)
  moreover have "length (A @ ?E @ B) = 4096" using assms(1) E s(3-5) unfolding s(1) by simp
  ultimately show thesis using that [OF w] r s(6) unfolding s(1) by simp
qed

lemma strcmp_prefix:
  assumes "strcmp f e = Some 0" "length (cstr f) < 32" "take 48 e' = take 48 e"
  shows "strcmp f e' = Some 0" "cstr e' = cstr f" "e' ! 0 = e ! 0"
proof -
  note eq = strcmp_equal [OF assms(1)]
  let ?n = "length (cstr f)"
  obtain P R where "e = P @ 0 # R" "0 \<notin> set P" using eq unfolding terminated_def by (auto dest: split_list_first)
  then have e: "e = cstr f @ 0 # R" using eq cstr_append_zero [of P R] by simp
  have "take (Suc ?n) e' = take (Suc ?n) e"
    using arg_cong [OF assms(3), of "take (Suc ?n)"] assms(2) by (simp add: min_def)
  also have "\<dots> = cstr f @ [0]" unfolding e by simp
  finally have t: "take (Suc ?n) e' = cstr f @ [0]" .
  from cstr_of_prefix [OF this cstr_no_zero] have e': "cstr e' = cstr f" "terminated e'" by simp_all
  then show "cstr e' = cstr f" by simp
  show "strcmp f e' = Some 0" using strcmp_eq eq e' by simp
  show "e' ! 0 = e ! 0" using arg_cong [OF assms(3), of "\<lambda>x. x ! 0"] by simp
qed

definition BLOCK_BYTES :: nat where "BLOCK_BYTES = 2097152"

text \<open>The bytes of the file of an entry.\<close>

definition stored :: "byte list \<Rightarrow> byte list \<Rightarrow> byte list" where
  "stored disk e = take (unat (FileSize e)) (drop (entry_start e * BLOCK_BYTES) disk)"

lemma block_offset:
  fixes a :: u64
  assumes "unat a * BLOCK_BYTES < 2 ^ 63"
  shows "a * 2097152 = word_of_nat (unat a * BLOCK_BYTES)" "unat (a * 2097152) = unat a * BLOCK_BYTES"
proof -
  show "a * 2097152 = word_of_nat (unat a * BLOCK_BYTES)" by (simp add: BLOCK_BYTES_def)
  moreover have "unat a * BLOCK_BYTES < 2 ^ 64" using assms by simp
  ultimately show "unat (a * 2097152) = unat a * BLOCK_BYTES" by (simp only: unat_of_nat64)
qed

text \<open>A write of a file that fits: the bytes go to its blocks, its size to its entry.\<close>

lemma bmfs_write_fits:
  assumes found: "findfile (Some f) (Directory s) = Some (Some (e, slot))"
    and len: "length (Directory s) = 4096" and f: "length (cstr f) < 32" "cstr f \<noteq> cstr (diskname s)"
    and c: "hostFiles s (cstr f) = Some c" "length c < 2 ^ 31" "length c \<le> unat (ReservedBlocks e) * BLOCK_BYTES"
    and fits: "1 \<le> entry_start e" "entry_end e * BLOCK_BYTES \<le> hostRoom s" "hostRoom s < 2 ^ 63"
  obtains s1 e1 where "bmfs_write (Some f) s = Some s1"
    "diskBytes s1 = host_put 4096 (Directory s1) (host_put (entry_start e * BLOCK_BYTES) c (diskBytes s))"
    "findfile (Some f) (Directory s1) = Some (Some (e1, slot))" "cstr e1 = cstr f" "entry_start e1 = entry_start e"
    "unat (FileSize e1) = length c" "length (Directory s1) = 4096"
    "\<And>j. j \<noteq> slot \<Longrightarrow> dir_entry (Directory s1) j = dir_entry (Directory s) j"
    "hostWritable s1 = hostWritable s" "hostRoom s1 = hostRoom s" "diskname s1 = diskname s"
proof -
  note fd = findfile_loop_found [OF found [unfolded findfile_def]]
  then have slot: "slot < 64" and e: "e = dir_entry (Directory s) slot" and m: "strcmp f e = Some 0" by auto
  let ?p = "entry_start e * BLOCK_BYTES"
  have r: "unat (ReservedBlocks e) * BLOCK_BYTES < 2 ^ 63" "?p + length c \<le> hostRoom s" "?p < 2 ^ 63"
    using fits c(3) by (auto simp: entry_end_def entry_start_def add_mult_distrib)
  have notless: "\<not> ReservedBlocks e * 2097152 < word_of_nat (length c)"
    using c(2,3) block_offset(2) [OF r(1)] by (simp add: word_less_nat_alt unat_of_nat64)
  have seek: "StartingBlock e * 2097152 = word_of_nat ?p"
    using block_offset(1) [of "StartingBlock e"] r(3) by (simp add: entry_start_def)
  obtain D1 where D1: "write_at (64 * slot + 48) (le64 (word_of_nat (length c))) (Directory s) = Some D1" "length D1 = 4096"
    "\<And>j. j \<noteq> slot \<Longrightarrow> dir_entry D1 j = dir_entry (Directory s) j" "take 48 (dir_entry D1 slot) = take 48 e"
    "FileSize (dir_entry D1 slot) = word_of_nat (length c)" "StartingBlock (dir_entry D1 slot) = StartingBlock e"
    using set_file_size [OF len slot, of "word_of_nat (length c)"] unfolding e by blast
  note pre = strcmp_prefix [OF m f(1) D1(4)]
  have found1: "findfile (Some f) D1 = Some (Some (dir_entry D1 slot, slot))"
    unfolding findfile_def
    by (rule findfile_loop_same [OF found [unfolded findfile_def] _ pre(3,1)]) (use D1(3) in simp)
  let ?s1 = "say ''Writing local file '%s' to BMFS... '' [HStr (cstr f)] s"
  have sk: "host_fseek (StartingBlock e * 2097152) s' = s'\<lparr>diskPos := ?p\<rparr>" for s'
    unfolding seek by (rule host_fseek_to [OF r(3)])
  have w: "write_loop c (?s1\<lparr>diskPos := ?p\<rparr>) = ?s1\<lparr>diskBytes := host_put ?p c (diskBytes s), diskPos := ?p + length c\<rparr>"
    using write_loop_puts [of "?s1\<lparr>diskPos := ?p\<rparr>" c] r(2) by simp
  have room: "8192 \<le> hostRoom s" using fits(1,2) by (auto simp: entry_end_def entry_start_def BLOCK_BYTES_def)
  have "bmfs_write (Some f) s = Some (say ''Complete\<newline>'' []
      (flush_directory (?s1\<lparr>diskBytes := host_put ?p c (diskBytes s), diskPos := ?p + length c, Directory := D1\<rparr>)))"
    using found f(2) c(1,2) notless D1(1) by (simp add: bmfs_write_def sk w Let_def)
  then show thesis
    using that [of _ "dir_entry D1 slot"] found1 pre(2) D1(2,3,5,6) room c(2)
    by (simp add: flush_directory_puts entry_start_def unat_of_nat64)
qed

lemma bmfs_read_takes:
  assumes found: "findfile (Some f) (Directory s) = Some (Some (e, slot))" and f: "cstr e = cstr f" "cstr f \<noteq> cstr (diskname s)"
    and may: "hostWritable s (cstr f)" "unat (FileSize e) < 2 ^ 31" "unat (FileSize e) \<le> hostRoom s"
    and fits: "unat (FileSize e) = 0 \<or> entry_start e * BLOCK_BYTES + unat (FileSize e) \<le> length (diskBytes s)"
      "entry_start e * BLOCK_BYTES < 2 ^ 63"
  shows "\<exists>s2. bmfs_read (Some f) s = Some s2 \<and> hostFiles s2 = (hostFiles s)(cstr f \<mapsto> stored (diskBytes s) e) \<and>
    diskBytes s2 = diskBytes s"
proof -
  let ?p = "entry_start e * BLOCK_BYTES" and ?s1 = "say ''Reading '%s' from BMFS to local file... '' [HStr (cstr f)] s"
  have seek: "StartingBlock e * 2097152 = word_of_nat ?p"
    using block_offset(1) [of "StartingBlock e"] fits(2) by (simp add: entry_start_def)
  have sk: "host_fseek (StartingBlock e * 2097152) s' = s'\<lparr>diskPos := ?p\<rparr>" for s'
    unfolding seek by (rule host_fseek_to [OF fits(2)])
  have "read_loop (unat (FileSize e)) [] (?s1\<lparr>diskPos := ?p\<rparr>) =
      (stored (diskBytes s) e, ?s1\<lparr>diskPos := ?p + unat (FileSize e)\<rparr>)"
    using read_loop_takes [of "?s1\<lparr>diskPos := ?p\<rparr>" "unat (FileSize e)" "[]"] fits(1) may(3)
    by (auto simp: stored_def)
  then show ?thesis using found f may(1,2) by (simp add: bmfs_read_def sk Let_def)
qed

text \<open>Files in other blocks keep their bytes.\<close>

lemma stored_apart:
  assumes "entry_end e' \<le> entry_start e \<or> entry_end e \<le> entry_start e'"
    and "unat (FileSize e') \<le> unat (ReservedBlocks e') * BLOCK_BYTES" "length c \<le> unat (ReservedBlocks e) * BLOCK_BYTES"
    and "entry_start e' * BLOCK_BYTES + unat (FileSize e') \<le> length disk"
  shows "stored (host_put (entry_start e * BLOCK_BYTES) c disk) e' = stored disk e'"
  unfolding stored_def
proof (rule take_drop_host_put_other [OF _ assms(4)])
  have ends: "entry_end x * BLOCK_BYTES = entry_start x * BLOCK_BYTES + unat (ReservedBlocks x) * BLOCK_BYTES" for x
    by (simp add: entry_end_def entry_start_def add_mult_distrib)
  from assms(1) show "entry_start e' * BLOCK_BYTES + unat (FileSize e') \<le> entry_start e * BLOCK_BYTES \<or>
      entry_start e * BLOCK_BYTES + length c \<le> entry_start e' * BLOCK_BYTES"
    using assms(2,3) ends [of e] ends [of e'] mult_le_mono1 [of "entry_end e'" "entry_start e" BLOCK_BYTES]
      mult_le_mono1 [of "entry_end e" "entry_start e'" BLOCK_BYTES] by linarith
qed

text \<open>The directory is before every block a file can have.\<close>

lemma stored_flush:
  assumes "1 \<le> entry_start e" "length D = 4096" "entry_start e * BLOCK_BYTES + unat (FileSize e) \<le> length disk"
  shows "stored (host_put 4096 D disk) e = stored disk e"
proof -
  have "BLOCK_BYTES \<le> entry_start e * BLOCK_BYTES" using assms(1) by simp
  then have "8192 \<le> entry_start e * BLOCK_BYTES" by (simp add: BLOCK_BYTES_def)
  then show ?thesis unfolding stored_def using assms(2,3) by (intro take_drop_host_put_other) auto
qed

text \<open>
  C38: A local file that fits the blocks reserved for it comes back from the disk byte by byte, whatever the
  local files are meanwhile; no other entry of the directory changes, and no byte of a file in other blocks.
\<close>

theorem bmfs_write_read:
  assumes "findfile (Some f) (Directory s) = Some (Some (e, slot))" "length (Directory s) = 4096"
    and "length (cstr f) < 32" "cstr f \<noteq> cstr (diskname s)" "hostWritable s (cstr f)"
    and "hostFiles s (cstr f) = Some c" "length c < 2 ^ 31" "length c \<le> unat (ReservedBlocks e) * BLOCK_BYTES"
    and "1 \<le> entry_start e" "entry_end e * BLOCK_BYTES \<le> hostRoom s" "hostRoom s < 2 ^ 63"
  shows "\<exists>s1. bmfs_write (Some f) s = Some s1 \<and>
    (\<forall>fs. \<exists>s2. bmfs_read (Some f) (s1\<lparr>hostFiles := fs\<rparr>) = Some s2 \<and> hostFiles s2 = fs(cstr f \<mapsto> c)) \<and>
    (\<forall>j. j \<noteq> slot \<longrightarrow> dir_entry (Directory s1) j = dir_entry (Directory s) j) \<and>
    (\<forall>e'. 1 \<le> entry_start e' \<longrightarrow> entry_end e' \<le> entry_start e \<or> entry_end e \<le> entry_start e' \<longrightarrow>
       unat (FileSize e') \<le> unat (ReservedBlocks e') * BLOCK_BYTES \<longrightarrow>
       entry_start e' * BLOCK_BYTES + unat (FileSize e') \<le> length (diskBytes s) \<longrightarrow>
       stored (diskBytes s1) e' = stored (diskBytes s) e')"
proof -
  let ?p = "entry_start e * BLOCK_BYTES"
  obtain s1 e1 where w: "bmfs_write (Some f) s = Some s1"
    "diskBytes s1 = host_put 4096 (Directory s1) (host_put ?p c (diskBytes s))"
    "findfile (Some f) (Directory s1) = Some (Some (e1, slot))" "cstr e1 = cstr f" "entry_start e1 = entry_start e"
    "unat (FileSize e1) = length c" "length (Directory s1) = 4096"
    "\<And>j. j \<noteq> slot \<Longrightarrow> dir_entry (Directory s1) j = dir_entry (Directory s) j"
    "hostWritable s1 = hostWritable s" "hostRoom s1 = hostRoom s" "diskname s1 = diskname s"
    using bmfs_write_fits [OF assms(1-4,6-11)] by metis
  have fit: "?p + length c \<le> hostRoom s" "?p < 2 ^ 63"
    using assms(8-11) by (auto simp: entry_end_def entry_start_def add_mult_distrib)
  have big: "c = [] \<or> ?p + length c \<le> length (host_put ?p c (diskBytes s))" by simp
  have "length (host_put ?p c (diskBytes s)) \<le> length (diskBytes s1)" unfolding w(2) by (rule length_host_put_ge)
  with big have long: "c = [] \<or> ?p + length c \<le> length (diskBytes s1)" by linarith
  have returned: "stored (diskBytes s1) e1 = c"
  proof (cases "c = []")
    case False
    with big have "?p + length c \<le> length (host_put ?p c (diskBytes s))" by blast
    then have "stored (diskBytes s1) e1 = stored (host_put ?p c (diskBytes s)) e1"
      unfolding w(2) by (intro stored_flush) (simp_all only: w(5-7) assms(9))
    then show ?thesis by (simp add: stored_def w(5,6))
  qed (simp add: stored_def w(6))
  have "\<exists>s2. bmfs_read (Some f) (s1\<lparr>hostFiles := fs\<rparr>) = Some s2 \<and> hostFiles s2 = fs(cstr f \<mapsto> c)" for fs
    using bmfs_read_takes [of f "s1\<lparr>hostFiles := fs\<rparr>" e1 slot] w(3-6) w(9-11) returned long assms(4,5,7) fit by auto
  moreover have "stored (diskBytes s1) e' = stored (diskBytes s) e'"
    if e': "1 \<le> entry_start e'" "entry_end e' \<le> entry_start e \<or> entry_end e \<le> entry_start e'"
      "unat (FileSize e') \<le> unat (ReservedBlocks e') * BLOCK_BYTES"
      "entry_start e' * BLOCK_BYTES + unat (FileSize e') \<le> length (diskBytes s)" for e'
  proof -
    have "entry_start e' * BLOCK_BYTES + unat (FileSize e') \<le> length (host_put ?p c (diskBytes s))"
      using e'(4) by (simp add: le_max_iff_disj)
    then show ?thesis unfolding w(2) using stored_flush [OF e'(1) w(7)] stored_apart [OF e'(2,3) assms(8) e'(4)] by simp
  qed
  ultimately show ?thesis using w(1,8) by blast
qed

section \<open>Deleted entries\<close>

lemma mark_deleted:
  assumes "length D = 4096" "k < 64"
  shows "dir_entry (D[64 * k := x]) k = (dir_entry D k)[0 := x]"
proof (rule nth_equalityI)
  fix i
  assume "i < length (dir_entry (D[64 * k := x]) k)"
  then have "i < 64" using assms by (simp add: length_dir_entry)
  then show "dir_entry (D[64 * k := x]) k ! i = (dir_entry D k)[0 := x] ! i"
    using assms by (cases "i = 0") (simp_all add: nth_dir_entry length_dir_entry)
qed (use assms in \<open>simp add: length_dir_entry\<close>)

lemma deleted_fields:
  "0 < length e \<Longrightarrow> e[0 := x] ! 0 = x" "StartingBlock (e[0 := x]) = StartingBlock e" "ReservedBlocks (e[0 := x]) = ReservedBlocks e"
  by (simp_all add: StartingBlock_def ReservedBlocks_def drop_update_cancel)

text \<open>The two files of a disk after the first was deleted, as \<open>create\<close> sees them.\<close>

context host_qsort
begin

lemma deleted_last:
  assumes "a ! 0 = EMPTY_ENTRY" "live_entry b"
  shows "qs StartingBlockCmp [a, b] = [b, a]"
proof -
  let ?key = "\<lambda>e. if e ! 0 = EMPTY_ENTRY then 1 else 0 :: nat"
  have ne: "a \<noteq> b" "b ! 0 \<noteq> EMPTY_ENTRY" using assms by (auto simp: live_entry_def)
  have "mset (qs StartingBlockCmp [a, b]) = mset [a, b] \<and> sorted (map ?key (qs StartingBlockCmp [a, b]))"
    by (rule sorts) (use ne assms(1) in \<open>auto simp: StartingBlockCmp_def\<close>)
  then have m: "mset (qs StartingBlockCmp [a, b]) = {#a, b#}" and s: "sorted (map ?key (qs StartingBlockCmp [a, b]))" by auto
  then have "length (qs StartingBlockCmp [a, b]) = 2" by (metis size_mset size_add_mset size_empty numeral_2_eq_2)
  then obtain x y where xy: "qs StartingBlockCmp [a, b] = [x, y]" by (auto simp: numeral_2_eq_2 length_Suc_conv)
  with m have "x = a \<and> y = b \<or> x = b \<and> y = a" by (auto simp: add_eq_conv_ex)
  then show ?thesis using s ne assms(1) unfolding xy by auto
qed

end

text \<open>With no gap before the second file and its end at the last block, the stale end of the deleted one is used.\<close>

lemma place_loop_stale:
  assumes "live_entry b" "StartingBlock b - 1 < rq" "StartingBlock b + ReservedBlocks b = nb - 1"
    and "a ! 0 = EMPTY_ENTRY" "rq \<noteq> 0" "rq \<le> nb - 1 - (StartingBlock a + ReservedBlocks a)"
  shows "place_loop nb rq [b, a] 1 = StartingBlock a + ReservedBlocks a"
proof -
  have "\<not> rq \<le> StartingBlock b - 1" "\<not> rq \<le> (nb - 1) - (StartingBlock b + ReservedBlocks b)"
    using assms(2,3,5) by (simp_all add: not_le)
  then show ?thesis using assms(1,4,6) by (simp add: live_entry_def Let_def)
qed

lemma find_after_delete:
  assumes "dir_entry D 0 ! 0 = EMPTY_ENTRY" "live_entry (dir_entry D 1)" "terminated (dir_entry D 1)"
    and "dir_entry D 2 ! 0 = END_OF_DIRECTORY" "terminated f" "cstr (dir_entry D 1) \<noteq> cstr f"
  shows "findfile (Some f) D = Some None" "count_loop D 64 0 None = (2, Some 0)"
proof -
  have "\<exists>c. strcmp f (dir_entry D 1) = Some c \<and> c \<noteq> 0" using strcmp_eq [OF assms(5,3)] assms(6) by auto
  then have "findfile_loop (Some f) D (Suc (Suc (Suc k))) 0 = Some None" for k
    using assms(1,2,4) by (auto simp: live_entry_def Let_def numeral_2_eq_2 END_OF_DIRECTORY_def EMPTY_ENTRY_def)
  from this [of 61] show "findfile (Some f) D = Some None" by (simp add: findfile_def)
  have "count_loop D (Suc (Suc (Suc k))) 0 None = (2, Some 0)" for k
    using assms(1,2,4) by (auto simp: live_entry_def Let_def numeral_2_eq_2 END_OF_DIRECTORY_def EMPTY_ENTRY_def)
  from this [of 61] show "count_loop D 64 0 None = (2, Some 0)" by simp
qed

lemma delete_first:
  assumes "length (Directory s) = 4096" "live_entry (dir_entry (Directory s) 0)" "terminated (dir_entry (Directory s) 0)"
    and "terminated f" "cstr f = cstr (dir_entry (Directory s) 0)" "8192 \<le> hostRoom s"
  obtains s1 where "bmfs_delete (Some f) s = Some s1" "Directory s1 = (Directory s)[0 := EMPTY_ENTRY]" "disksize s1 = disksize s"
    "hostRoom s1 = hostRoom s"
proof -
  have "findfile_loop (Some f) (Directory s) (Suc k) 0 = Some (Some (dir_entry (Directory s) 0, 0))" for k
    using assms(2-5) strcmp_eq [OF assms(4,3)] by (simp add: Let_def live_entry_def)
  from this [of 63] have "findfile (Some f) (Directory s) = Some (Some (dir_entry (Directory s) 0, 0))"
    by (simp add: findfile_def)
  then show thesis using that assms(1,6) by (simp add: bmfs_delete_def flush_directory_puts)
qed

lemma stale_place:
  fixes ds :: u32
  assumes "host_qsort qs" "live_entry b" "a ! 0 = EMPTY_ENTRY" "unat m < 2 ^ 32"
    and starts: "entry_start a = 1" "entry_end a = entry_start b" "entry_end b = unat ds div 2 - 1" "2 \<le> unat ds div 2"
    and room: "entry_start b \<le> (unat m + 1) div 2" "entry_start b + (unat m + 1) div 2 \<le> unat ds div 2 - 1"
  shows "place_loop (ucast (ds div 2)) ((if m mod 2 \<noteq> 0 then m + 1 else m) div 2) (qs StartingBlockCmp [a, b]) 1 = StartingBlock b"
proof -
  let ?nb = "ucast (ds div 2) :: u64" and ?rq = "(if m mod 2 \<noteq> 0 then m + 1 else m) div 2"
  have rq: "unat ?rq = (unat m + 1) div 2" by (rule even_blocks [OF assms(4)])
  have "unat ?nb = unat ds div 2" by (simp add: unat_div)
  then have nb: "unat (?nb - 1) = unat ds div 2 - 1" using starts(4) by (simp add: unat_minus)
  have ends: "unat (StartingBlock x) + unat (ReservedBlocks x) < 2 ^ 64 \<Longrightarrow>
      unat (StartingBlock x + ReservedBlocks x) = entry_end x" for x by (simp add: unat_plus entry_end_def)
  have a: "StartingBlock a + ReservedBlocks a = StartingBlock b"
    using starts(1,2) unat_lt_u64 [of "StartingBlock b"] ends [of a] by (simp add: word_eq_unat entry_start_def entry_end_def)
  have b: "StartingBlock b + ReservedBlocks b = ?nb - 1"
    using starts(3) unat_lt_u64 [of "?nb - 1"] ends [of b] nb by (simp add: word_eq_unat entry_end_def)
  have low: "StartingBlock b - 1 < ?rq"
    using starts(1,2) room(1) rq by (simp add: word_less_nat_alt unat_minus entry_start_def entry_end_def)
  have "place_loop ?nb ?rq [b, a] 1 = StartingBlock a + ReservedBlocks a"
  proof (rule place_loop_stale [OF assms(2) low b assms(3)])
    show "?rq \<noteq> 0" using le_less_trans [OF word_zero_le low] by (simp only: word_gt_0)
    show "?rq \<le> ?nb - 1 - (StartingBlock a + ReservedBlocks a)"
      using room(2) nb rq unfolding a by (simp add: word_le_nat_alt unat_minus entry_start_def)
  qed
  then show ?thesis using host_qsort.deleted_last [OF assms(1,3,2)] a by simp
qed


text \<open>
  C37: On a disk without deleted entries a new file is put at the lowest place where its blocks are free,
  between block 1 and the last one, whatever routine sorts the entries; it gets the entry after the last file,
  with its name, its blocks and the size 0, the other entries stay, the directory is well formed again and is
  on the disk. Where no place is free nothing changes.
\<close>

theorem bmfs_create_first_fit:
  assumes "host_qsort qs" "tidy_directory hi (Directory s) n" "n < 64"
    and "hi = unat (disksize s div 2) - 1" "2 \<le> unat (disksize s div 2)"
    and "terminated f" "cstr f \<noteq> []" "hd (cstr f) \<noteq> EMPTY_ENTRY" "length (cstr f) < 32"
      "\<And>i. i < n \<Longrightarrow> cstr (dir_entry (Directory s) i) \<noteq> cstr f"
    and "0 < unat maxsize" "unat maxsize < 2 ^ 32" "8192 \<le> hostRoom s"
  shows "\<exists>s'. bmfs_create qs f maxsize s = Some s' \<and>
    (let b = (unat maxsize + 1) div 2; p = first_gap (set (dir_files (Directory s) n)) 1 hi b
     in if p = 0 then Directory s' = Directory s \<and> diskBytes s' = diskBytes s else created f hi n p b s s')"
  using assms by (intro host_qsort.create_first_fit) auto

theorem bmfs_create_first_fit_witness:
  "\<exists>s'. bmfs_create insertion_qsort (lit ''c'') 3 (demo_disk 1 1 4 2) = Some s' \<and>
     created (lit ''c'') 31 2 2 2 (demo_disk 1 1 4 2) s'"
proof -
  let ?s = "demo_disk 1 1 4 2"
  have files: "set (dir_files (Directory ?s) 2) = {demo_entry 97 1 1, demo_entry 98 4 2}"
    by (simp add: dir_files_def upt_rec numeral_2_eq_2)
  have "first_gap (set (dir_files (Directory ?s) 2)) 1 31 2 = 2"
    unfolding files first_gap_def by (auto simp: gap_at_def intro!: Least_equality exI [of _ 2])
  then have gap: "first_gap (set (dir_files (Directory ?s) 2)) 1 31 ((unat (3 :: u64) + 1) div 2) = 2" by simp
  have c: "lit ''c'' = [99, 0]" by (simp add: lit_def)
  have tidy: "tidy_directory 31 (Directory ?s) 2" by (rule demo_tidy) simp_all
  have "\<exists>s'. bmfs_create insertion_qsort (lit ''c'') 3 ?s = Some s' \<and>
    (let b = (unat (3 :: u64) + 1) div 2; p = first_gap (set (dir_files (Directory ?s) 2)) 1 31 b
     in if p = 0 then Directory s' = Directory ?s \<and> diskBytes s' = diskBytes ?s else created (lit ''c'') 31 2 p b ?s s')"
    by (rule bmfs_create_first_fit [OF insertion.host_qsort_axioms tidy])
      (auto simp: c less_2_cases_iff EMPTY_ENTRY_def)
  then show ?thesis unfolding Let_def gap by simp
qed


theorem bmfs_write_read_witness:
  "\<exists>s1. bmfs_write (Some (lit ''a'')) ((demo_disk 1 1 4 2)\<lparr>hostFiles := [text_of ''a'' \<mapsto> [1, 2, 3]]\<rparr>) = Some s1 \<and>
     (\<forall>fs. \<exists>s2. bmfs_read (Some (lit ''a'')) (s1\<lparr>hostFiles := fs\<rparr>) = Some s2 \<and>
        hostFiles s2 = fs(text_of ''a'' \<mapsto> [1, 2, 3]))"
proof -
  let ?s = "(demo_disk 1 1 4 2)\<lparr>hostFiles := [text_of ''a'' \<mapsto> [1, 2, 3]]\<rparr>"
  have a: "lit ''a'' = [97, 0]" "text_of ''a'' = [97]" by (simp_all add: lit_def text_of_def)
  have "findfile_loop (Some [97, 0]) (Directory ?s) (Suc k) 0 = Some (Some (demo_entry 97 1 1, 0))" for k
    using strcmp_eq [of "[97, 0]" "demo_entry 97 1 1"]
    by (simp add: Let_def END_OF_DIRECTORY_def EMPTY_ENTRY_def)
  from this [of 63] have "findfile (Some (lit ''a'')) (Directory ?s) = Some (Some (demo_entry 97 1 1, 0))"
    by (simp add: findfile_def a)
  from bmfs_write_read [OF this, of "[1, 2, 3]"] show ?thesis
    by (auto simp: a demo_disk_def bmfs_start_def BLOCK_BYTES_def)
qed

section \<open>A new disk\<close>

text \<open>The decimal digits of a number that fits 64 bits are read right.\<close>

lemma size_loop_digits:
  "(\<And>d. d \<in> set ds \<Longrightarrow> d < 10) \<Longrightarrow> foldl (\<lambda>a d. 10 * a + d) acc ds < 2 ^ 64 \<Longrightarrow>
     size_loop whole (map (\<lambda>d. word_of_nat (48 + d)) ds @ rest) first (word_of_nat acc) factor s =
     size_loop whole rest (first \<and> ds = []) (word_of_nat (foldl (\<lambda>a d. 10 * a + d) acc ds)) factor s"
proof (induction ds arbitrary: acc first)
  case (Cons d ds)
  have le: "a \<le> foldl (\<lambda>a d. 10 * a + d) a ds" for a :: nat
  proof (induction ds arbitrary: a)
    case (Cons x xs)
    have "a \<le> 10 * a + x" by simp
    also have "\<dots> \<le> foldl (\<lambda>a d. 10 * a + d) (10 * a + x) xs" by (rule Cons)
    finally show ?case by simp
  qed simp
  have d: "d < 10" and acc: "10 * acc + d < 2 ^ 64" using Cons.prems le [of "10 * acc + d"] by auto
  let ?c = "word_of_nat (48 + d) :: byte"
  have c: "unat ?c = 48 + d" using d by (simp add: unat_of_nat take_bit_nat_eq_self del: of_nat_add)
  have dig: "host_isdigit ?c" "?c \<noteq> 0" using d c by (auto simp: host_isdigit_def word_le_nat_alt unat_eq_0 [symmetric])
  have v: "ucast (word_of_nat d :: byte) = (word_of_nat d :: u64)" using d by (simp add: unsigned_of_nat take_bit_nat_eq_self)
  have ten: "(word_of_nat acc :: u64) * 10 = 10 * word_of_nat acc" by (rule mult.commute)
  have "acc < 2 ^ 64" "10 * acc < 2 ^ 64" using acc by simp_all
  note this [THEN unat_of_nat64]
  then have over: "(word_of_nat acc :: u64) < word_of_nat acc * 10 \<longleftrightarrow> acc \<noteq> 0" "(word_of_nat acc :: u64) = 0 \<longleftrightarrow> acc = 0"
    by (auto simp: word_less_nat_alt mult.commute word_unat_eq_iff)
  show ?case using Cons.IH [of "10 * acc + d" False] Cons.prems d dig over by (auto simp: v ten)
qed simp

text \<open>A disk image filled up with zeros.\<close>

lemma zero_loop_fills:
  assumes "diskPos s = unat w" "diskBytes s = replicate (unat w) 0" "w \<le> d" "unat d \<le> hostRoom s"
  shows "\<exists>s'. zero_loop d w s = (True, s') \<and> diskBytes s' = replicate (unat d) 0 \<and> hostRoom s' = hostRoom s \<and>
    hostWritable s' = hostWritable s \<and> hostFiles s' = hostFiles s \<and> DiskInfo s' = DiskInfo s \<and> Directory s' = Directory s"
  using assms
proof (induction d w s rule: zero_loop.induct)
  case (1 d w s)
  show ?case
  proof (cases "w < d")
    case False
    with "1.prems"(3) have "w = d" by simp
    then show ?thesis using "1.prems"(2) by (simp add: zero_loop.simps [of d d])
  next
    case True
    let ?c = "if d - w < bufferSize then d - w else bufferSize"
    let ?s1 = "say fill_progress [HNum w, HNum d, HPercent w d] s"
    have c: "unat ?c \<le> unat (d - w)" by (auto simp: word_le_nat_alt [symmetric])
    have dw: "unat (d - w) = unat d - unat w" by (rule unat_minus) (use True in \<open>simp add: word_less_nat_alt\<close>)
    have wd: "unat w < unat d" using True by (simp add: word_less_nat_alt)
    have sum: "unat (w + ?c) = unat w + unat ?c" using c dw wd unat_lt_u64 [of d] by (intro unat_plus) linarith
    let ?s2 = "?s1\<lparr>diskBytes := replicate (unat w + unat ?c) 0, diskPos := unat w + unat ?c\<rparr>"
    have "host_put (unat w) (replicate (unat ?c) 0) (replicate (unat w) 0) = replicate (unat w + unat ?c) (0 :: byte)"
      by (auto simp: host_put_def replicate_add)
    then have w: "host_fwrite (replicate (unat ?c) 0) ?s1 = (True, ?s2)"
      using "1.prems"(1,2,4) c dw wd by (subst host_fwrite_fits) auto
    have "\<exists>s'. zero_loop d (w + ?c) ?s2 = (True, s') \<and> diskBytes s' = replicate (unat d) 0 \<and> hostRoom s' = hostRoom ?s2 \<and>
        hostWritable s' = hostWritable ?s2 \<and> hostFiles s' = hostFiles ?s2 \<and> DiskInfo s' = DiskInfo ?s2 \<and>
        Directory s' = Directory ?s2"
    proof (rule "1.IH" [OF True refl refl w [symmetric] refl])
      show "w + ?c \<le> d" unfolding word_le_nat_alt sum using c dw wd by linarith
      show "diskPos ?s2 = unat (w + ?c)" "diskBytes ?s2 = replicate (unat (w + ?c)) 0" unfolding sum by simp_all
    qed (use "1.prems"(4) in simp_all)
    moreover have "zero_loop d w s = zero_loop d (w + ?c) ?s2"
      using True w by (subst zero_loop.simps) (simp only: Let_def if_True split)
    ultimately show ?thesis by simp
  qed
qed

definition disk_info :: "byte list" where "disk_info = take 4 fs_tag @ replicate 508 0"

lemma length_disk_info [simp]: "length disk_info = 512"
  by (simp add: disk_info_def fs_tag_def lit_def)

lemma disk_info_tagged: "host_strcaseeq disk_info fs_tag = Some True"
proof -
  have "replicate (508::nat) (0 :: byte) = 0 # replicate 507 0" by (simp flip: replicate_Suc)
  then show ?thesis by (simp add: disk_info_def fs_tag_def lit_def host_tolower_def)
qed

lemma bmfs_format_puts:
  assumes "8192 \<le> hostRoom s"
  shows "diskBytes (bmfs_format s) = host_put 4096 (replicate 4096 0) (host_put 1024 disk_info (diskBytes s))"
    "hostFiles (bmfs_format s) = hostFiles s" "hostWritable (bmfs_format s) = hostWritable s"
proof -
  let ?s1 = "s\<lparr>DiskInfo := disk_info, Directory := replicate 4096 0\<rparr>"
  have "host_fwrite disk_info (host_fseek 1024 ?s1) =
      (True, ?s1\<lparr>diskBytes := host_put 1024 disk_info (diskBytes s), diskPos := 1536\<rparr>)"
    using assms host_fseek_to [of 1024 ?s1] by (simp add: host_fwrite_fits)
  then have run: "bmfs_format s = say ''Format complete.\<newline>'' []
      (flush_directory (?s1\<lparr>diskBytes := host_put 1024 disk_info (diskBytes s), diskPos := 1536\<rparr>))"
    by (simp add: bmfs_format_def disk_info_def [symmetric])
  show "diskBytes (bmfs_format s) = host_put 4096 (replicate 4096 0) (host_put 1024 disk_info (diskBytes s))"
    "hostFiles (bmfs_format s) = hostFiles s" "hostWritable (bmfs_format s) = hostWritable s"
    using assms unfolding run by (simp_all add: flush_directory_puts)
qed

text \<open>What \<open>main\<close> reads from a disk that was formatted.\<close>

lemma open_formatted:
  assumes "hostFiles s (cstr (diskname s)) = Some (host_put 4096 (replicate 4096 0) (host_put 1024 disk_info (replicate n 0)))"
    and "hostWritable s (cstr (diskname s))" "8192 \<le> n" "length (DiskInfo s) = 512" "length (Directory s) = 4096"
  obtains s1 where "open_disk s = Some s1" "DiskInfo s1 = disk_info" "tidy_directory hi (Directory s1) 0"
    "disksize s1 = word_of_nat (n div 1048576)"
proof -
  let ?f = "host_put 4096 (replicate 4096 0) (host_put 1024 disk_info (replicate n 0))"
  have len: "length ?f = n" using assms(3) by simp
  have dir: "take 4096 (drop 4096 ?f) = replicate 4096 0"
    using take_drop_host_put [of "replicate 4096 0" 4096 "host_put 1024 disk_info (replicate n 0)"] by simp
  have info: "take 512 (drop 1024 ?f) = disk_info"
    using take_drop_host_put_other [of 1024 512 4096 "replicate 4096 0" "host_put 1024 disk_info (replicate n 0)"]
      take_drop_host_put [of disk_info 1024 "replicate n 0"] assms(3) by simp
  have "tidy_directory hi (replicate 4096 0) 0" by (simp add: tidy_directory_def END_OF_DIRECTORY_def)
  moreover have "host_fseek 1024 s' = s'\<lparr>diskPos := 1024\<rparr>" "host_fseek 4096 s' = s'\<lparr>diskPos := 4096\<rparr>" for s'
    using host_fseek_to [of 1024] host_fseek_to [of 4096] by simp_all
  ultimately show thesis
    using that assms(1,2,4,5) len dir info by (simp add: open_disk_def host_fread_def Let_def)
qed

lemma size_text:
  assumes "\<And>d. d \<in> set ds \<Longrightarrow> d < 10" "ds \<noteq> []" "foldl (\<lambda>a d. 10 * a + d) 0 ds = v" "0 < v" "v * 1048576 < 2 ^ 63"
  shows "\<exists>w. size_loop (map (\<lambda>d. word_of_nat (48 + d)) ds @ [77, 0]) (map (\<lambda>d. word_of_nat (48 + d)) ds @ [77, 0]) True 0 0 s =
      Some (True, w, 2, s) \<and> 0 < w \<and> factor_loop 2 True w s = (True, word_of_nat (v * 1048576), s)"
proof -
  let ?w = "word_of_nat v :: u64"
  have "v < 2 ^ 64" "v * 1024 < 2 ^ 64" "v * 1048576 < 2 ^ 64" using assms(5) by simp_all
  note this [THEN unat_of_nat64]
  then have "0 < ?w" "?w < ?w * 1024" "?w * 1024 < ?w * 1024 * 1024"
    using assms(4) by (simp_all add: word_less_nat_alt mult.commute)
  moreover have "size_loop whole (map (\<lambda>d. word_of_nat (48 + d)) ds @ [77, 0]) True (word_of_nat 0) 0 s = Some (True, ?w, 2, s)" for whole
    using size_loop_digits [of ds 0 whole "[77, 0]" True 0 s] assms
    by (simp add: host_isdigit_def size_unit_def host_toupper_def)
  ultimately show ?thesis by (intro exI [of _ ?w]) (simp add: numeral_2_eq_2 mult.commute)
qed



text \<open>
  A size that does not fit 64 bits can be taken for a smaller one: the test compares the product with the value
  it is made of, which the wrapped product can exceed.
\<close>

lemma size_loop_wraps:
  "size_loop whole [48, 0] False 3000000000000000000 0 s = Some (True, 11553255926290448384, 0, s)"
  by (simp add: host_isdigit_def)

end
