(* ===== verification/Spec2Isabelle.thy ===== *)
theory Spec2Isabelle
  imports KUtils KLib FreeHeap ArrayProps SchedProps VideoProps PipeProps TimerProps KeyProps HistoryProps HistoryNav PhyloProps UPrintf ShellProps CommandProps LoaderProps Boot BuddyRuns MemReport NaiveConsole SemTest UTestProps UDraw UTestMm PhyloTableProps SchedRuns BmfsProps
begin

text \<open>
  Verification library of the SO-TP kernel: a 64-bit kernel with preemptive processes, semaphores, pipes
  and two memory managers (\<open>Kernel\<close>), the user land that runs on it (\<open>Userland/UserModule\<close>: a shell, its
  commands and a small C library) and the tools that pack both into one image (\<open>Toolchain/ModulePacker\<close>)
  and put files on a disk (\<open>Bootloader/BMFS\<close>).
  This theory only imports the others; every property stands in the theory of its component.

  \<^bold>\<open>How the program works.\<close> The boot loader jumps to \<open>kernel.c\<close>, which unpacks the modules, clears its
  variables, sets up the kernel heap, and creates the idle process, the first user process and the one of
  the speaker. From then on the kernel runs only in system calls and in the interrupts of the timer and of
  the keyboard. Each tick calls \<open>schedule\<close>, which walks a circular list of processes, and \<open>incTicks\<close>, which
  wakes the sleeping ones. Semaphores and \<open>waitPid\<close> block a process by its state and switch away; pipes
  count their bytes and free places with semaphores; the keyboard writes into the pipe of the standard
  input, from which the shell reads. Every object of the kernel and the heap of every process comes from
  the memory manager.

  \<^bold>\<open>Conventions\<close> (theory \<open>Prelude\<close>). Integers have the width of the code where their overflow can matter:
  \<open>u8\<close>, \<open>u32\<close>, \<open>u64\<close> and pointers (\<open>addr\<close>) are words; counters and indices whose range is bounded by the code
  are \<open>int\<close> or \<open>nat\<close>, and each theory says so. A function that the C code can make fault (a null or dangling
  pointer, an access outside an object, a loop that never ends) returns an option, and \<open>None\<close> is the fault;
  loops that may run forever are \<open>partial_function (option)\<close>, and that a call returns is then proved as
  \<open>\<exists>s'. f s = Some s'\<close>. No loop is cut off by fuel. Other recursions are \<open>fun\<close> or \<open>function\<close> with a
  termination proof. Calls that switch to another process return \<open>Away\<close> (\<open>'r run\<close>), so that what follows them in the code
  runs only when the process is resumed. Facts are collected in \<open>preserves\<close> and similar bundles.

  \<^bold>\<open>Components\<close>, with the files they model and what is shown.

  \<^item> Memory: \<open>Allocator\<close> is the interface of \<open>memoryManager.h\<close>, a record of operations with the locales
    \<open>allocator\<close> and \<open>roomy_allocator\<close> for their laws, against which the process table, the arrays, the
    semaphores and the pipes are proved. \<open>FreeList\<close> is \<open>freeListMM.c\<close> as pointer code over a memory of
    words, \<open>FreeSpec\<close> its specification by intervals, \<open>FreeHeap\<close> the refinement, the runs of a client and the
    interpretation of the interface. \<open>Buddy\<close> is \<open>buddyMM.c\<close>, \<open>BuddySpec\<close> the splitting and merging of
    blocks by offsets, \<open>BuddyRep\<close> how memory represents them, \<open>BuddyProps\<close> and \<open>BuddyRuns\<close> the refinement,
    the runs of a client, and the requests that hang. It is no interpretation of \<open>allocator\<close>, since large
    requests hang. \<open>MemReport\<close> has the reports of both. \<open>KLib\<close> is \<open>lib.c\<close>, \<open>KUtils\<close> is \<open>utils.c\<close>, \<open>KArray\<close> and
    \<open>ArrayProps\<close> are \<open>array.c\<close> with \<open>shittyRealloc\<close> of \<open>memory.c\<close>.
  \<^item> Processes: \<open>Scheduler\<close> is \<open>scheduler.c\<close> with the stack frames of \<open>asm/processes.asm\<close>. The stores \<open>pcbs\<close>
    and \<open>nodes\<close> map addresses to records. \<open>SchedInv\<close> has the invariant \<open>kinv\<close> (the list is a ring, the blocks
    of the processes are allocated and disjoint) and the specification of \<open>schedule\<close>; \<open>SchedCreate\<close>, \<open>SchedArgs\<close>
    and \<open>SchedBoot\<close> treat new processes, \<open>SchedRuns\<close> every sequence of calls on the table, \<open>SchedProps\<close> the
    properties over the free-list manager.
  \<^item> Synchronisation and devices: \<open>Semaphores\<close>/\<open>SemProps\<close> (\<open>semaphores.c\<close>: refinement of a value with a queue,
    mutual exclusion over all runs), \<open>Pipes\<close>/\<open>PipeProps\<close> (\<open>pipes.c\<close>: refinement of a queue of bytes),
    \<open>Timer\<close>/\<open>TimerProps\<close> (\<open>timer.c\<close>), \<open>Keyboard\<close>/\<open>KeyProps\<close> (\<open>keyboard.c\<close>, \<open>layouts.h\<close>), \<open>Font\<close>, \<open>Video\<close>, \<open>VideoProps\<close>
    (\<open>asciiBitFields.c\<close>, \<open>videoDriver.c\<close>: which pixels change, and no write outside the frame buffer),
    \<open>NaiveConsole\<close> (\<open>naiveConsole.c\<close>).
  \<^item> The rest of the kernel: \<open>Machine\<close> puts the states of all components into one record and has the interrupt
    table, the handlers, the table of system calls, clock, registers, speaker and \<open>main\<close>; \<open>Boot\<close> shows that
    the start succeeds. \<open>Loader\<close>/\<open>LoaderProps\<close> are the packer and the loader and their round trip.
  \<^item> User land: \<open>UArray\<close>, \<open>UHistory\<close>, \<open>HistoryProps\<close>, \<open>HistoryNav\<close> (\<open>array.c\<close>, \<open>circularHistoryBuffer.c\<close>: the history
    is a list of most recently used commands), \<open>UStdlib\<close>, \<open>UStdlibProps\<close>, \<open>UPrintf\<close> (\<open>stdlib.c\<close>: \<open>printf\<close> equals a
    reference rendering), \<open>UShell\<close>/\<open>ShellProps\<close> (\<open>shell.c\<close>), \<open>UCommands\<close>/\<open>CommandProps\<close> (\<open>shellCommands.c\<close>),
    \<open>UDraw\<close> (\<open>main.c\<close>, \<open>colors.c\<close>, \<open>draw.c\<close>, \<open>sysinfo.c\<close>, \<open>superSecret.c\<close>, \<open>_loader.c\<close>), \<open>UTests\<close>/\<open>UTestProps\<close>
    (\<open>testUtil.c\<close>, \<open>testProcesses.c\<close>, \<open>testPrio.c\<close>, the pipe test), \<open>UTestMm\<close> (\<open>testMm.c\<close>), \<open>PhyloTable\<close> and
    \<open>PhyloTableProps\<close> (the process of \<open>phyloTest.c\<close>). A process of user land is a function on the
    state of the shell; its system calls are recorded in order and answered by a parameter
    (\<open>kernel_answers\<close>), which ranges over everything that a kernel could answer.
  \<^item> The image tools: \<open>Loader\<close>/\<open>LoaderProps\<close> has the packer beside the loader that takes its image apart;
    \<open>Bmfs\<close>/\<open>BmfsProps\<close> has \<open>Bootloader/BMFS/bmfs.c\<close>, which makes the disk and moves files in and out of it,
    over the bytes of the directory and of the disk: a new file goes to the lowest gap, whatever
    routine \<open>qsort\<close> is (locale \<open>host_qsort\<close>), what is written is read back, and a deleted entry can make two files share
    their blocks. Only loops over lists that get shorter or counters that go down occur, so no fuel is needed.
  \<^item> Concurrent user programs: \<open>Philosophers\<close>/\<open>PhyloProps\<close> and \<open>SemTest\<close> are step relations over the actions
    of interleaved processes, with invariants over all reachable states; their semaphores have the
    meaning that \<open>SemProps\<close> proves of the kernel's.

  \<^bold>\<open>Where components meet.\<close> The locales \<open>process_table\<close>, \<open>array_heap\<close>, \<open>semaphores\<close>, \<open>pipes\<close>, \<open>kernel_room\<close> and
  \<open>separated_allocator\<close> extend \<open>allocator\<close> one after the other and are all interpreted on the free-list
  manager, so that the properties speak of the kernel as it is built. \<open>UTestMm\<close> runs the memory test of user
  land on that heap, \<open>UDraw\<close> the drawing calls on the screen of the kernel, \<open>Timer\<close> the tick on the process
  table, \<open>PipeProps\<close> the pipes on the semaphores.

  \<^bold>\<open>Parameters.\<close> \<open>argp\<close> and the C library of the packer, the values read from ports, the contents of files, the
  addresses that the linker chooses, the routine behind \<open>qsort\<close> and the room on the host's disk, and the answers of the kernel to a user program. Uninitialised
  variables of the code are arguments.

  \<^bold>\<open>Not modelled.\<close> The boot loader (\<open>Bootloader/Pure64\<close>) is vendored assembly. The assembly stubs are modelled by their effect where C code
  depends on them (initial frames, context switch, the lock, the dispatch of interrupts and system
  calls); the wrappers of port accesses and the code of the idle process are not. \<open>Array_printInfo\<close> only
  prints. The busy waits of the test programs change nothing and are left out, and time passes only by
  ticks. The scheduler runs on one processor, as the kernel does.
\<close>

end
